(* ===== verification/Prelude.thy ===== *)
theory Prelude
  imports Main "HOL-Library.Word" "HOL-Library.AList"
begin

text \<open>
  Shared vocabulary of the development: the Rust types the crates use (machine integers,
  hash maps, results), the byte codecs of the standard library (\<open>to_le_bytes\<close> and its
  kin), the string operations (\<open>trim\<close>, \<open>split_once\<close>) on UTF-8 bytes, and the generic
  interfaces (an operation system with an invariant, a two-legged transfer, a codec) that the
  components instantiate.
\<close>

unbundle bit_operations_syntax

section \<open>Types\<close>

type_synonym u8 = "8 word"
type_synonym u16 = "16 word"
type_synonym u32 = "32 word"
type_synonym u64 = "64 word"
type_synonym u128 = "128 word"

type_synonym bytes = "u8 list"

text \<open>A Rust \<open>Result<A, E>\<close> is \<open>'e + 'a\<close> with the error on the left.\<close>

type_synonym ('a, 'e) result = "'e + 'a"

abbreviation Ok :: "'a \<Rightarrow> ('a, 'e) result" where
  "Ok \<equiv> Inr"

abbreviation Err :: "'e \<Rightarrow> ('a, 'e) result" where
  "Err \<equiv> Inl"

fun is_ok :: "('a, 'e) result \<Rightarrow> bool" where
  "is_ok (Inr _) = True"
| "is_ok (Inl _) = False"

text \<open>
  A result under \<open>Some\<close> is one that the code returns; \<open>None\<close> is a computation that does not return one,
  because a loop ran out of fuel or because it panicked. \<open>and_then\<close> is the operator \<open>?\<close> on these.
\<close>

fun and_then :: "('a, 'e) result option \<Rightarrow> ('a \<Rightarrow> ('b, 'e) result option) \<Rightarrow> ('b, 'e) result option" where
  "and_then None f = None"
| "and_then (Some (Inl e)) f = Some (Err e)"
| "and_then (Some (Inr x)) f = f x"

lemma and_then_Ok: "and_then r f = Some (Ok y) \<longleftrightarrow> (\<exists>x. r = Some (Ok x) \<and> f x = Some (Ok y))"
  by (cases "(r, f)" rule: and_then.cases) auto

lemma and_then_None: "and_then r f = None \<longleftrightarrow> r = None \<or> (\<exists>x. r = Some (Ok x) \<and> f x = None)"
  by (cases "(r, f)" rule: and_then.cases) auto

text \<open>\<open>AldivinePlayerId\<close> wraps a ULID, a 128-bit number compared and hashed as such.\<close>

type_synonym player_id = u128

section \<open>Hash maps\<close>

text \<open>
  A \<open>HashMap\<close> is an association list with distinct keys. The order of the list is the
  iteration order, which Rust leaves open: a theorem about an iterated map holds for every
  list that represents it.
\<close>

type_synonym ('k, 'v) hmap = "('k \<times> 'v) list"

named_theorems hm_simps "lookup and iteration laws of hash maps"

abbreviation hm_get :: "('k, 'v) hmap \<Rightarrow> 'k \<Rightarrow> 'v option" where
  "hm_get m k \<equiv> map_of m k"

abbreviation hm_insert :: "'k \<Rightarrow> 'v \<Rightarrow> ('k, 'v) hmap \<Rightarrow> ('k, 'v) hmap" where
  "hm_insert k v m \<equiv> AList.update k v m"

abbreviation hm_remove :: "'k \<Rightarrow> ('k, 'v) hmap \<Rightarrow> ('k, 'v) hmap" where
  "hm_remove k m \<equiv> AList.delete k m"

abbreviation hm_values :: "('k, 'v) hmap \<Rightarrow> 'v list" where
  "hm_values m \<equiv> map snd m"

abbreviation hm_keys :: "('k, 'v) hmap \<Rightarrow> 'k list" where
  "hm_keys m \<equiv> map fst m"

definition hm_contains :: "('k, 'v) hmap \<Rightarrow> 'k \<Rightarrow> bool" where
  "hm_contains m k = (map_of m k \<noteq> None)"

definition hm_get_or :: "'v \<Rightarrow> ('k, 'v) hmap \<Rightarrow> 'k \<Rightarrow> 'v" where
  "hm_get_or d m k = (case map_of m k of None \<Rightarrow> d | Some v \<Rightarrow> v)"

text \<open>\<open>entry(k).or_insert(d)\<close>: the map with \<open>k\<close> present.\<close>

definition hm_or_insert :: "'k \<Rightarrow> 'v \<Rightarrow> ('k, 'v) hmap \<Rightarrow> ('k, 'v) hmap" where
  "hm_or_insert k d m = (case map_of m k of None \<Rightarrow> hm_insert k d m | Some _ \<Rightarrow> m)"

definition hm_wf :: "('k, 'v) hmap \<Rightarrow> bool" where
  "hm_wf m = distinct (map fst m)"

lemma hm_get_insert [hm_simps]: "map_of (AList.update k v m) = (map_of m)(k \<mapsto> v)"
  by (rule update_conv')

lemma hm_get_remove [hm_simps]: "map_of (AList.delete k m) = (map_of m)(k := None)"
  by (rule delete_conv')

lemma hm_get_or_insert [hm_simps]:
  "map_of (hm_or_insert k d m) = (map_of m)(k \<mapsto> hm_get_or d m k)"
  by (auto simp: hm_or_insert_def hm_get_or_def update_conv' fun_eq_iff split: option.splits)

lemma hm_get_or_update [hm_simps]:
  "hm_get_or d (AList.update k v m) k' = (if k' = k then v else hm_get_or d m k')"
  by (simp add: hm_get_or_def update_conv')

lemma hm_get_or_or_insert [simp, hm_simps]: "hm_get_or d (hm_or_insert k d m) k' = hm_get_or d m k'"
  by (auto simp: hm_get_or_def hm_or_insert_def update_conv' split: option.splits)

lemma hm_wf_empty [simp, intro]: "hm_wf []"
  by (simp add: hm_wf_def)

lemma hm_wf_insert [simp, intro]: "hm_wf m \<Longrightarrow> hm_wf (AList.update k v m)"
  unfolding hm_wf_def by (rule distinct_update)

lemma hm_wf_remove [simp, intro]: "hm_wf m \<Longrightarrow> hm_wf (AList.delete k m)"
  unfolding hm_wf_def by (rule distinct_delete)

lemma hm_wf_or_insert [simp, intro]: "hm_wf m \<Longrightarrow> hm_wf (hm_or_insert k d m)"
  by (auto simp: hm_or_insert_def split: option.splits)

lemma hm_wf_filter [simp, intro]: "hm_wf m \<Longrightarrow> hm_wf (filter P m)"
  by (simp add: hm_wf_def distinct_map_filter)

lemma hm_get_filter:
  "hm_wf m \<Longrightarrow> map_of (filter P m) k = (case map_of m k of None \<Rightarrow> None
     | Some v \<Rightarrow> if P (k, v) then Some v else None)"
  by (induction m) (auto simp: hm_wf_def map_of_eq_None_iff image_iff split: option.splits)

lemma hm_get_in_set: "hm_wf m \<Longrightarrow> map_of m k = Some v \<longleftrightarrow> (k, v) \<in> set m"
  unfolding hm_wf_def by (rule map_of_eq_Some_iff)

text \<open>
  Folding a commutative sum over the values: an insertion replaces the old contribution of
  the key by the new one.
\<close>

lemma hm_sum_insert:
  fixes f :: "'v \<Rightarrow> 'c :: comm_monoid_add"
  assumes "hm_wf m"
  shows "sum_list (map (f \<circ> snd) (AList.update k v m))
           + (case map_of m k of None \<Rightarrow> 0 | Some w \<Rightarrow> f w)
         = sum_list (map (f \<circ> snd) m) + f v"
  using assms
proof (induction m)
  case Nil
  then show ?case by simp
next
  case (Cons p m)
  obtain k' w where p: "p = (k', w)" by (cases p)
  show ?case
  proof (cases "k' = k")
    case True
    then show ?thesis by (simp add: p ac_simps)
  next
    case False
    with Cons show ?thesis by (simp add: p hm_wf_def ac_simps)
  qed
qed

section \<open>Machine words as numbers\<close>

lemma unat_of_nat_small: "n < 2 ^ LENGTH('a) \<Longrightarrow> unat (of_nat n :: 'a::len word) = n"
  by (simp add: unat_of_nat)

lemma unat_add_le: "unat (a + b) \<le> unat a + unat (b :: 'a::len word)"
  by (simp add: unat_word_ariths)

text \<open>\<open>saturating_sub\<close>.\<close>

definition sat_sub :: "'a::len word \<Rightarrow> 'a word \<Rightarrow> 'a word" where
  "sat_sub a b = (if b \<le> a then a - b else 0)"

lemma unat_sat_sub [simp]: "unat (sat_sub a b) = unat a - unat b"
  by (simp add: sat_sub_def unat_sub word_le_nat_alt)

text \<open>Adding one where the result still fits.\<close>

lemma unat_Suc: "unat (a :: 'a::len word) + 1 < 2 ^ LENGTH('a) \<Longrightarrow> unat (a + 1) = unat a + 1"
  by (simp add: unat_word_ariths)

section \<open>Bytes of machine words\<close>

text \<open>
  \<open>to_le_bytes\<close> of an \<open>n\<close>-byte integer and \<open>from_le_bytes\<close>; the big-endian forms
  are their mirror images.
\<close>

fun le_enc :: "nat \<Rightarrow> 'a::len word \<Rightarrow> bytes" where
  "le_enc 0 w = []"
| "le_enc (Suc n) w = ucast w # le_enc n (drop_bit 8 w)"

fun le_dec :: "bytes \<Rightarrow> 'a::len word" where
  "le_dec [] = 0"
| "le_dec (b # bs) = ucast b OR push_bit 8 (le_dec bs)"

definition be_enc :: "nat \<Rightarrow> 'a::len word \<Rightarrow> bytes" where
  "be_enc n w = rev (le_enc n w)"

definition be_dec :: "bytes \<Rightarrow> 'a::len word" where
  "be_dec bs = le_dec (rev bs)"

lemma length_le_enc [simp]: "length (le_enc n w) = n"
  by (induction n arbitrary: w) auto

lemma length_be_enc [simp]: "length (be_enc n w) = n"
  by (simp add: be_enc_def)

lemma bit_or_push8:
  "bit (ucast (b :: u8) OR push_bit 8 w :: 'a::len word) k \<longleftrightarrow>
     k < LENGTH('a) \<and> (if k < 8 then bit b k else bit w (k - 8))"
  by (auto simp: bit_simps not_less dest: bit_imp_le_length)

lemma le_dec_enc: "le_dec (le_enc n w) = take_bit (8 * n) (w :: 'a::len word)"
proof (induction n arbitrary: w)
  case 0
  then show ?case by simp
next
  case (Suc n)
  show ?case
    by (rule bit_eqI) (auto simp: Suc bit_or_push8 bit_simps)
qed

lemma le_dec_enc_id:
  "LENGTH('a) \<le> 8 * n \<Longrightarrow> le_dec (le_enc n w) = (w :: 'a::len word)"
  by (rule bit_eqI) (auto simp: le_dec_enc bit_simps dest: bit_imp_le_length)

lemma be_dec_enc_id:
  "LENGTH('a) \<le> 8 * n \<Longrightarrow> be_dec (be_enc n w) = (w :: 'a::len word)"
  by (simp add: be_dec_def be_enc_def le_dec_enc_id)

lemma le_enc_dec:
  "8 * length bs \<le> LENGTH('a) \<Longrightarrow> le_enc (length bs) (le_dec bs :: 'a::len word) = bs"
proof (induction bs)
  case Nil
  then show ?case by simp
next
  case (Cons b bs)
  have byte: "ucast (ucast b OR push_bit 8 (le_dec bs) :: 'a word) = b"
    using Cons.prems by (intro bit_word_eqI) (simp add: bit_or_push8 bit_simps)
  have "drop_bit 8 (ucast b OR push_bit 8 (le_dec bs) :: 'a word) = take_bit (LENGTH('a) - 8) (le_dec bs)"
    by (rule bit_word_eqI) (auto simp: bit_or_push8 bit_simps ac_simps dest: bit_imp_le_length)
  moreover have "take_bit (LENGTH('a) - 8) (le_dec bs) = (le_dec bs :: 'a word)"
  proof -
    have "le_dec bs = take_bit (8 * length bs) (le_dec bs :: 'a word)"
      using Cons le_dec_enc [of "length bs" "le_dec bs :: 'a word"] by simp
    moreover have "8 * length bs \<le> LENGTH('a) - 8"
      using Cons.prems by simp
    ultimately show ?thesis
      by (metis take_bit_take_bit min.absorb2)
  qed
  ultimately show ?case
    using Cons byte by simp
qed

lemma be_enc_dec:
  "8 * length bs \<le> LENGTH('a) \<Longrightarrow> be_enc (length bs) (be_dec bs :: 'a::len word) = bs"
  using le_enc_dec [of "rev bs", where 'a = 'a] by (simp add: be_enc_def be_dec_def)

section \<open>Strings\<close>

text \<open>
  A Rust \<open>str\<close> is its UTF-8 bytes, a HOL \<open>string\<close>. \<open>trim\<close> removes the characters
  with the Unicode \<open>White_Space\<close> property at both ends; \<open>ws_seqs\<close> lists their
  encodings. UTF-8 is self-synchronising, so matching the bytes of an encoding at the end of a
  string finds its last character.
\<close>

definition ws_seqs :: "string list" where
  "ws_seqs =
    [[CHR 0x09], [CHR 0x0A], [CHR 0x0B],
     [CHR 0x0C], [CHR 0x0D], [CHR 0x20],
     [CHR 0xC2, CHR 0x85], [CHR 0xC2, CHR 0xA0], [CHR 0xE1, CHR 0x9A, CHR 0x80],
     [CHR 0xE2, CHR 0x80, CHR 0x80], [CHR 0xE2, CHR 0x80, CHR 0x81], [CHR 0xE2, CHR 0x80, CHR 0x82],
     [CHR 0xE2, CHR 0x80, CHR 0x83], [CHR 0xE2, CHR 0x80, CHR 0x84], [CHR 0xE2, CHR 0x80, CHR 0x85],
     [CHR 0xE2, CHR 0x80, CHR 0x86], [CHR 0xE2, CHR 0x80, CHR 0x87], [CHR 0xE2, CHR 0x80, CHR 0x88],
     [CHR 0xE2, CHR 0x80, CHR 0x89], [CHR 0xE2, CHR 0x80, CHR 0x8A], [CHR 0xE2, CHR 0x80, CHR 0xA8],
     [CHR 0xE2, CHR 0x80, CHR 0xA9], [CHR 0xE2, CHR 0x80, CHR 0xAF], [CHR 0xE2, CHR 0x81, CHR 0x9F],
     [CHR 0xE3, CHR 0x80, CHR 0x80]]"

fun strip_one :: "string list \<Rightarrow> string \<Rightarrow> string option" where
  "strip_one [] s = None"
| "strip_one (w # ws) s =
     (if w \<noteq> [] \<and> take (length w) s = w then Some (drop (length w) s) else strip_one ws s)"

lemma strip_one_shorter: "strip_one ws s = Some t \<Longrightarrow> length t < length s"
proof (induction ws)
  case (Cons w ws)
  show ?case
  proof (cases "w \<noteq> [] \<and> take (length w) s = w")
    case True
    then have "s \<noteq> []" and "0 < length w" by auto
    with True Cons.prems show ?thesis by auto
  next
    case False
    then have "strip_one ws s = Some t" using Cons.prems by (simp only: strip_one.simps if_False)
    then show ?thesis by (rule Cons.IH)
  qed
qed simp

function strip_all :: "string list \<Rightarrow> string \<Rightarrow> string" where
  "strip_all ws s = (case strip_one ws s of None \<Rightarrow> s | Some t \<Rightarrow> strip_all ws t)"
  by pat_completeness auto
termination
  by (relation "measure (\<lambda>(ws, s). length s)") (auto dest: strip_one_shorter)

declare strip_all.simps [simp del]

definition trim :: "string \<Rightarrow> string" where
  "trim s = rev (strip_all (map rev ws_seqs) (rev (strip_all ws_seqs s)))"

text \<open>\<open>s.split_once(c)\<close>: the parts before and after the first \<open>c\<close>.\<close>

fun split_once :: "char \<Rightarrow> string \<Rightarrow> (string \<times> string) option" where
  "split_once c [] = None"
| "split_once c (x # xs) =
     (if x = c then Some ([], xs) else map_option (\<lambda>(a, b). (x # a, b)) (split_once c xs))"

lemma split_once_Some:
  "split_once c s = Some (a, b) \<Longrightarrow> s = a @ c # b \<and> c \<notin> set a"
  by (induction s arbitrary: a b) (auto split: if_splits)

lemma split_once_append: "c \<notin> set a \<Longrightarrow> split_once c (a @ c # b) = Some (a, b)"
  by (induction a) auto

text \<open>Decimal rendering of an unsigned integer (\<open>Display\<close>).\<close>

fun show_nat :: "nat \<Rightarrow> string" where
  "show_nat n = (if n < 10 then [char_of (48 + n)] else show_nat (n div 10) @ [char_of (48 + n mod 10)])"

declare show_nat.simps [simp del]

section \<open>Positions in a list\<close>

text \<open>\<open>iter().position(p)\<close> and \<open>Vec::remove(i)\<close>.\<close>

fun position :: "('a \<Rightarrow> bool) \<Rightarrow> 'a list \<Rightarrow> nat option" where
  "position P [] = None"
| "position P (x # xs) = (if P x then Some 0 else map_option Suc (position P xs))"

definition remove_at :: "nat \<Rightarrow> 'a list \<Rightarrow> 'a list" where
  "remove_at i xs = take i xs @ drop (Suc i) xs"

lemma position_None: "position P xs = None \<longleftrightarrow> (\<forall>x \<in> set xs. \<not> P x)"
  by (induction xs) auto

lemma position_Some:
  "position P xs = Some i \<Longrightarrow> i < length xs \<and> P (xs ! i) \<and> (\<forall>j < i. \<not> P (xs ! j))"
  by (induction xs arbitrary: i) (auto simp: less_Suc_eq_0_disj split: if_splits)

lemma position_split:
  "position P xs = Some i \<Longrightarrow> xs = take i xs @ xs ! i # drop (Suc i) xs"
  using position_Some id_take_nth_drop by blast

lemma length_remove_at [simp]: "i < length xs \<Longrightarrow> length (remove_at i xs) = length xs - 1"
  by (simp add: remove_at_def)

lemma set_remove_at_subset: "set (remove_at i xs) \<subseteq> set xs"
  by (auto simp: remove_at_def dest: in_set_takeD in_set_dropD)

lemma remove_at_Suc [simp]: "remove_at (Suc i) (x # xs) = x # remove_at i xs"
  by (simp add: remove_at_def)

lemma remove_at_0 [simp]: "remove_at 0 (x # xs) = xs"
  by (simp add: remove_at_def)

lemma remove_at_split:
  assumes "position P xs = Some i"
  obtains a x b where "xs = a @ x # b" "remove_at i xs = a @ b" "xs ! i = x" "P x" "\<forall>y \<in> set a. \<not> P y"
proof
  show "xs = take i xs @ xs ! i # drop (Suc i) xs" using assms by (rule position_split)
  show "remove_at i xs = take i xs @ drop (Suc i) xs" by (simp add: remove_at_def)
  show "P (xs ! i)" and "\<forall>y \<in> set (take i xs). \<not> P y"
    using position_Some [OF assms] by (auto simp: in_set_conv_nth)
qed simp

section \<open>Generic interfaces\<close>

text \<open>
  A component is a state, a step per operation and an invariant. Every component with an
  invariant interprets this contract once; its clients then have the invariant in every
  state that a sequence of operations reaches.
\<close>

locale op_system =
  fixes init :: 's
    and step :: "'s \<Rightarrow> 'op \<Rightarrow> 's"
    and inv :: "'s \<Rightarrow> bool"
  assumes inv_init: "inv init"
    and inv_step: "inv s \<Longrightarrow> inv (step s op)"
begin

lemma inv_run: "inv s \<Longrightarrow> inv (foldl step s ops)"
  by (induction ops arbitrary: s) (auto intro: inv_step)

lemma inv_reach: "inv (foldl step init ops)"
  by (rule inv_run) (rule inv_init)

end

text \<open>
  The same for a component that keeps its invariant as long as every operation, or what surrounds it,
  satisfies a condition.
\<close>

locale guarded_system =
  fixes init :: 's
    and step :: "'s \<Rightarrow> 'op \<Rightarrow> 's"
    and guard :: "'op \<Rightarrow> bool"
    and inv :: "'s \<Rightarrow> bool"
  assumes guarded_init: "inv init"
    and guarded_step: "inv s \<Longrightarrow> guard op \<Longrightarrow> inv (step s op)"
begin

lemma guarded_run: "inv s \<Longrightarrow> \<forall>op \<in> set ops. guard op \<Longrightarrow> inv (foldl step s ops)"
  by (induction ops arbitrary: s) (auto intro: guarded_step)

lemma guarded_reach: "\<forall>op \<in> set ops. guard op \<Longrightarrow> inv (foldl step init ops)"
  by (rule guarded_run) (rule guarded_init)

end

text \<open>
  Money and items move in two legs: a withdrawal that may be refused and a deposit. The
  quantity \<open>total\<close> is what the store holds, in a commutative group (for machine words the
  group of the integers modulo \<open>2 ^ w\<close>).
\<close>

locale two_leg_store =
  fixes withdraw :: "'s \<Rightarrow> 'a \<Rightarrow> 'n :: ab_group_add \<Rightarrow> 's \<times> (unit, 'e) result"
    and deposit :: "'s \<Rightarrow> 'a \<Rightarrow> 'n \<Rightarrow> 's \<times> (unit, 'e) result"
    and total :: "'s \<Rightarrow> 'n"
    and valid :: "'s \<Rightarrow> bool"
  assumes withdraw_ok: "valid s \<Longrightarrow> withdraw s a n = (s', Ok ()) \<Longrightarrow> total s' = total s - n"
    and withdraw_err: "valid s \<Longrightarrow> withdraw s a n = (s', Err e) \<Longrightarrow> total s' = total s"
    and deposit_ok: "valid s \<Longrightarrow> deposit s a n = (s', Ok ()) \<Longrightarrow> total s' = total s + n"
    and deposit_err: "valid s \<Longrightarrow> deposit s a n = (s', Err e) \<Longrightarrow> total s' = total s"
    and withdraw_valid: "valid s \<Longrightarrow> valid (fst (withdraw s a n))"
    and deposit_valid: "valid s \<Longrightarrow> valid (fst (deposit s a n))"
begin

text \<open>Both legs done: the total is where it was.\<close>

lemma move_total:
  assumes "valid s" and "withdraw s a n = (s1, Ok ())" and "deposit s1 b n = (s2, Ok ())"
  shows "total s2 = total s"
proof -
  have "valid s1" using withdraw_valid [OF assms(1), of a n] assms(2) by simp
  with assms show ?thesis
    using withdraw_ok [OF assms(1,2)] deposit_ok [OF _ assms(3)] by simp
qed

text \<open>A refused deposit followed by a deposit back at the source also restores the total.\<close>

lemma rollback_total:
  assumes "valid s" and "withdraw s a n = (s1, Ok ())"
    and "deposit s1 b n = (s2, Err e)" and "deposit s2 a n = (s3, Ok ())"
  shows "total s3 = total s"
proof -
  have v1: "valid s1" using withdraw_valid [OF assms(1), of a n] assms(2) by simp
  then have v2: "valid s2" using deposit_valid [of s1 b n] assms(3) by simp
  show ?thesis
    using withdraw_ok [OF assms(1,2)] deposit_err [OF v1 assms(3)] deposit_ok [OF v2 assms(4)]
    by simp
qed

end

text \<open>
  A wire codec: what the encoder accepts, the decoder reads back; what the decoder accepts,
  the encoder writes back byte for byte.
\<close>

locale codec =
  fixes enc :: "'a \<Rightarrow> (bytes, 'e) result"
    and dec :: "bytes \<Rightarrow> ('a, 'e) result"
    and ok :: "'a \<Rightarrow> bool"
  assumes dec_enc: "ok x \<Longrightarrow> enc x = Ok bs \<Longrightarrow> dec bs = Ok x"
begin

lemma enc_inj: "ok x \<Longrightarrow> ok y \<Longrightarrow> enc x = Ok bs \<Longrightarrow> enc y = Ok bs \<Longrightarrow> x = y"
  using dec_enc [of x bs] dec_enc [of y bs] by simp

end

locale strict_codec = codec +
  assumes enc_dec: "dec bs = Ok x \<Longrightarrow> enc x = Ok bs"
    and dec_valid: "dec bs = Ok x \<Longrightarrow> ok x"
begin

lemma dec_inj: "dec bs = Ok x \<Longrightarrow> dec bs' = Ok x \<Longrightarrow> bs = bs'"
  using enc_dec [of bs x] enc_dec [of bs' x] by simp

lemma dec_iff_enc: "ok x \<Longrightarrow> dec bs = Ok x \<longleftrightarrow> enc x = Ok bs"
  using dec_enc enc_dec by blast

end

end
