(* ===== verification/RustStrings.thy ===== *)
theory RustStrings
  imports Prelude
begin

text \<open>
  The string functions of the Rust standard library that several crates call, on UTF-8 bytes:
  splitting, prefixes, search, ASCII case, number parsing, and \<open>u8 as char\<close>. Where a function is
  defined on characters, the arguments are ASCII, so that working on bytes gives the same result.
\<close>

section \<open>Splitting\<close>

text \<open>The pieces between the separators, empty ones included (\<open>str::split\<close>).\<close>

fun split_on :: "(char \<Rightarrow> bool) \<Rightarrow> string \<Rightarrow> string list" where
  "split_on P [] = [[]]"
| "split_on P (c # cs) =
     (if P c then [] # split_on P cs
      else case split_on P cs of [] \<Rightarrow> [[c]] | p # ps \<Rightarrow> (c # p) # ps)"

text \<open>
  Splitting at fewer separators glues pieces together: a piece without parent step at two
  separators has none at one.
\<close>

lemma split_on_nonempty [simp]: "split_on P s \<noteq> []"
  by (cases s) (auto split: list.splits)

lemma hd_split_on: "hd (split_on P s) = takeWhile (\<lambda>c. \<not> P c) s"
  by (induction s) (auto split: list.splits)

lemma takeWhile_fine:
  assumes "\<And>c. P c \<Longrightarrow> Q c"
  shows "\<forall>c \<in> set (takeWhile (\<lambda>c. \<not> P c) s). \<not> Q c \<Longrightarrow>
    takeWhile (\<lambda>c. \<not> P c) s = takeWhile (\<lambda>c. \<not> Q c) s"
  using assms by (induction s) auto

lemma set_split_on_Cons:
  "set (tl (split_on P (c # s))) = (if P c then set (split_on P s) else set (tl (split_on P s)))"
  by (auto split: list.splits)

lemma mem_split_on:
  "x \<in> set (split_on P s) \<longleftrightarrow> x = hd (split_on P s) \<or> x \<in> set (tl (split_on P s))"
  by (cases "split_on P s") auto

lemma split_on_fine:
  assumes "\<And>c. P c \<Longrightarrow> Q c" and "\<forall>c \<in> set x. \<not> Q c"
  shows "x \<in> set (tl (split_on P s)) \<Longrightarrow> x \<in> set (tl (split_on Q s))"
    and "x \<in> set (split_on P s) \<Longrightarrow> x \<in> set (split_on Q s)"
proof -
  have head: "x = hd (split_on P t) \<Longrightarrow> x = hd (split_on Q t)" for t
    using assms(2) takeWhile_fine [of P Q t, OF assms(1)] by (simp add: hd_split_on)
  show tl: "x \<in> set (tl (split_on P s)) \<Longrightarrow> x \<in> set (tl (split_on Q s))" for s
  proof (induction s)
    case (Cons c s)
    then show ?case
      using assms(1) [of c] head [of s]
      by (auto simp: set_split_on_Cons mem_split_on simp del: split_on.simps split: if_splits)
  qed simp
  show "x \<in> set (split_on P s) \<Longrightarrow> x \<in> set (split_on Q s)"
    using tl [of s] head [of s] by (auto simp: mem_split_on)
qed

lemma strip_one_None: "strip_one ws s = None \<longleftrightarrow> (\<forall>w \<in> set ws. w = [] \<or> take (length w) s \<noteq> w)"
  by (induction ws) auto

lemma split_on_plain: "\<forall>c \<in> set a. \<not> P c \<Longrightarrow> split_on P a = [a]"
  by (induction a) auto

lemma split_on_sep: "\<forall>c \<in> set a. \<not> P c \<Longrightarrow> P x \<Longrightarrow> split_on P (a @ x # s) = a # split_on P s"
  by (induction a) auto

section \<open>Tests and replacement\<close>

definition starts_with :: "string \<Rightarrow> string \<Rightarrow> bool" where
  "starts_with s p \<longleftrightarrow> take (length p) s = p"

definition ends_with :: "string \<Rightarrow> string \<Rightarrow> bool" where
  "ends_with s p \<longleftrightarrow> starts_with (rev s) (rev p)"

definition strip_prefix :: "string \<Rightarrow> string \<Rightarrow> string option" where
  "strip_prefix s p = (if starts_with s p then Some (drop (length p) s) else None)"

text \<open>\<open>s.contains(p)\<close> for a string pattern.\<close>

fun contains_str :: "string \<Rightarrow> string \<Rightarrow> bool" where
  "contains_str [] p \<longleftrightarrow> p = []"
| "contains_str (c # cs) p \<longleftrightarrow> starts_with (c # cs) p \<or> contains_str cs p"

definition replace_char :: "char \<Rightarrow> string \<Rightarrow> string \<Rightarrow> string" where
  "replace_char c r s = concat (map (\<lambda>x. if x = c then r else [x]) s)"

text \<open>\<open>trim_start_matches(p)\<close> for a string pattern.\<close>

definition trim_start_matches :: "string \<Rightarrow> string \<Rightarrow> string" where
  "trim_start_matches p s = strip_all [p] s"

definition trim_start :: "string \<Rightarrow> string" where
  "trim_start s = strip_all ws_seqs s"

text \<open>\<open>trim_end_matches(c)\<close> for one character.\<close>

definition trim_end_char :: "char \<Rightarrow> string \<Rightarrow> string" where
  "trim_end_char c s = rev (dropWhile (\<lambda>x. x = c) (rev s))"

fun join_with :: "string \<Rightarrow> string list \<Rightarrow> string" where
  "join_with sep [] = []"
| "join_with sep [x] = x"
| "join_with sep (x # y # ys) = x @ sep @ join_with sep (y # ys)"

section \<open>ASCII\<close>

abbreviation byte_of :: "char \<Rightarrow> nat" where
  "byte_of c \<equiv> of_char c"

definition is_ascii_whitespace :: "char \<Rightarrow> bool" where
  "is_ascii_whitespace c \<longleftrightarrow> c \<in> {CHR 0x20, CHR 0x09, CHR 0x0A, CHR 0x0C, CHR 0x0D}"

definition is_digit :: "char \<Rightarrow> bool" where
  "is_digit c \<longleftrightarrow> 48 \<le> byte_of c \<and> byte_of c \<le> 57"

definition is_lower :: "char \<Rightarrow> bool" where
  "is_lower c \<longleftrightarrow> 97 \<le> byte_of c \<and> byte_of c \<le> 122"

definition is_upper :: "char \<Rightarrow> bool" where
  "is_upper c \<longleftrightarrow> 65 \<le> byte_of c \<and> byte_of c \<le> 90"

definition is_alnum :: "char \<Rightarrow> bool" where
  "is_alnum c \<longleftrightarrow> is_digit c \<or> is_lower c \<or> is_upper c"

definition lower_char :: "char \<Rightarrow> char" where
  "lower_char c = (if is_upper c then char_of (byte_of c + 32) else c)"

definition to_ascii_lowercase :: "string \<Rightarrow> string" where
  "to_ascii_lowercase s = map lower_char s"

definition is_ascii :: "string \<Rightarrow> bool" where
  "is_ascii s \<longleftrightarrow> list_all (\<lambda>c. byte_of c < 128) s"

text \<open>
  \<open>String::push(b as char)\<close> for a byte \<open>b\<close>: the character with that code point, which takes two
  bytes from 128 on.
\<close>

definition push_byte_as_char :: "char \<Rightarrow> string" where
  "push_byte_as_char c =
     (if byte_of c < 128 then [c]
      else [char_of (192 + byte_of c div 64), char_of (128 + byte_of c mod 64)])"

lemma push_ascii [simp]: "byte_of c < 128 \<Longrightarrow> push_byte_as_char c = [c]"
  by (simp add: push_byte_as_char_def)

section \<open>Numbers\<close>

fun digits_value :: "int \<Rightarrow> string \<Rightarrow> int" where
  "digits_value acc [] = acc"
| "digits_value acc (c # cs) = digits_value (10 * acc + (int (byte_of c) - 48)) cs"

text \<open>
  \<open>parse::<uN>()\<close>: an optional plus sign and at least one digit, up to the greatest value \<open>limit\<close>.
\<close>

definition parse_unsigned :: "int \<Rightarrow> string \<Rightarrow> int option" where
  "parse_unsigned limit s =
     (let ds = (case s of c # cs \<Rightarrow> if c = CHR ''+'' then cs else s | [] \<Rightarrow> []) in
      if ds = [] \<or> \<not> list_all is_digit ds \<or> limit < digits_value 0 ds then None
      else Some (digits_value 0 ds))"

text \<open>\<open>parse::<i64>()\<close> also takes a minus sign.\<close>

definition parse_i64 :: "string \<Rightarrow> int option" where
  "parse_i64 s =
     (case s of
        c # cs \<Rightarrow>
          if c = CHR ''-'' then
            (if cs = [] \<or> \<not> list_all is_digit cs \<or> 2 ^ 63 < digits_value 0 cs then None
             else Some (- digits_value 0 cs))
          else parse_unsigned (2 ^ 63 - 1) s
      | [] \<Rightarrow> None)"

lemma digits_value_append: "digits_value acc (xs @ [c]) = 10 * digits_value acc xs + (int (byte_of c) - 48)"
  by (induction xs arbitrary: acc) auto

lemma show_nat_digits: "show_nat n \<noteq> [] \<and> list_all is_digit (show_nat n) \<and> digits_value 0 (show_nat n) = int n"
proof (induction n rule: show_nat.induct)
  case (1 n)
  show ?case
  proof (cases "n < 10")
    case True
    then show ?thesis by (simp add: show_nat.simps [of n] is_digit_def)
  next
    case False
    moreover have "n mod 10 \<le> 9" "10 * int (n div 10) + int (n mod 10) = int n" by presburger+
    ultimately show ?thesis
      using 1 by (simp add: show_nat.simps [of n] is_digit_def digits_value_append)
  qed
qed

text \<open>Parsing inverts the decimal rendering.\<close>

lemma parse_show_nat: "int n \<le> limit \<Longrightarrow> parse_unsigned limit (show_nat n) = Some (int n)"
proof -
  assume "int n \<le> limit"
  moreover have "\<exists>c cs. show_nat n = c # cs \<and> is_digit c"
    using show_nat_digits [of n] by (cases "show_nat n") auto
  ultimately show ?thesis
    using show_nat_digits [of n] by (auto simp: parse_unsigned_def is_digit_def)
qed

section \<open>Trimming\<close>

lemma strip_one_SomeD: "strip_one ws s = Some t \<Longrightarrow> \<exists>w \<in> set ws. w \<noteq> [] \<and> s = w @ t"
proof (induction ws)
  case (Cons w ws)
  show ?case
  proof (cases "w \<noteq> [] \<and> take (length w) s = w")
    case True
    then have "s = w @ t" using Cons.prems by (metis append_take_drop_id option.inject strip_one.simps(2))
    then show ?thesis using True by auto
  next
    case False
    then show ?thesis using Cons by (auto simp del: not_Cons_self)
  qed
qed simp

definition is_graphic :: "char \<Rightarrow> bool" where
  "is_graphic c \<longleftrightarrow> 33 \<le> byte_of c \<and> byte_of c < 127"

text \<open>No byte of a whitespace character is a graphic ASCII character, so trimming stops at one.\<close>

lemma ws_not_graphic: "w \<in> set ws_seqs \<Longrightarrow> c \<in> set w \<Longrightarrow> \<not> is_graphic c"
proof -
  have "list_all (list_all (\<lambda>c. \<not> is_graphic c)) ws_seqs" by code_simp
  then show "w \<in> set ws_seqs \<Longrightarrow> c \<in> set w \<Longrightarrow> ?thesis" by (simp add: list_all_iff)
qed

lemma strip_all_stops:
  assumes "\<forall>w \<in> set ws. \<forall>c \<in> set w. \<not> G c" and "G c"
  shows "\<exists>n. strip_all ws (stem @ c # s) = drop n stem @ c # s"
proof (induction "length stem" arbitrary: stem rule: less_induct)
  case less
  show ?case
  proof (cases "strip_one ws (stem @ c # s)")
    case None
    then show ?thesis by (intro exI [of _ 0]) (simp add: strip_all.simps)
  next
    case (Some t)
    then obtain w where w: "w \<in> set ws" "w \<noteq> []" "stem @ c # s = w @ t" using strip_one_SomeD by blast
    have "length w \<le> length stem"
    proof (rule ccontr)
      assume "\<not> length w \<le> length stem"
      then have "w ! length stem = c" "length stem < length w"
        using arg_cong [OF w(3), of "\<lambda>x. x ! length stem"] by (auto simp: nth_append)
      then have "c \<in> set w" by (metis nth_mem)
      then show False using assms w(1) by blast
    qed
    then have t: "t = drop (length w) stem @ c # s" using w(3) by (auto simp: append_eq_append_conv_if split: if_splits)
    have "length (drop (length w) stem) < length stem" using w(2) \<open>length w \<le> length stem\<close> by (cases w; cases stem) auto
    from less [OF this] obtain n where "strip_all ws t = drop n (drop (length w) stem) @ c # s" using t by auto
    then show ?thesis using Some by (intro exI [of _ "n + length w"]) (simp add: strip_all.simps [of ws "stem @ c # s"])
  qed
qed

lemma trim_stops:
  assumes "is_graphic c" and "is_graphic d"
  shows "\<exists>n. trim (stem @ c # s @ [d]) = drop n stem @ c # s @ [d]"
proof -
  obtain n where n: "strip_all ws_seqs (stem @ c # s @ [d]) = drop n stem @ c # s @ [d]"
    using strip_all_stops [of ws_seqs is_graphic c stem "s @ [d]"] assms ws_not_graphic by blast
  have "\<exists>m. strip_all (map rev ws_seqs) ([] @ d # rev s @ c # rev (drop n stem)) = drop m [] @ d # rev s @ c # rev (drop n stem)"
    using assms ws_not_graphic by (intro strip_all_stops [where G = is_graphic]) auto
  then show ?thesis using n by (intro exI [of _ n]) (simp add: trim_def)
qed

lemma trim_graphic:
  assumes "s \<noteq> []" "is_graphic (hd s)" "is_graphic (last s)"
  shows "trim s = s"
proof -
  have stop: "t \<noteq> [] \<Longrightarrow> is_graphic (hd t) \<Longrightarrow> \<forall>w \<in> set ws. \<forall>c \<in> set w. \<not> is_graphic c \<Longrightarrow> strip_all ws t = t" for ws t
    using strip_all_stops [of ws is_graphic "hd t" "[]" "tl t"] by auto
  have "strip_all ws_seqs s = s" using assms ws_not_graphic by (intro stop) auto
  moreover have "strip_all (map rev ws_seqs) (rev s) = rev s"
    using assms ws_not_graphic by (intro stop) (auto simp: hd_rev)
  ultimately show ?thesis by (simp add: trim_def)
qed

end
