(* ===== verification/Paths.thy ===== *)
theory Paths
  imports RustStrings
begin

text \<open>
  Paths as \<open>std::path\<close> sees them on Unix: a path is whether it is absolute and its list of components.
  The file system itself (canonical forms, contents) is a parameter of the definitions that use it.
\<close>

record upath =
  absolute :: bool
  comps :: "string list"

definition is_abs :: "string \<Rightarrow> bool" where
  "is_abs s = (case s of [] \<Rightarrow> False | c # _ \<Rightarrow> c = CHR ''/'')"

text \<open>
  \<open>Path::components\<close>: repeated separators and \<open>.\<close> vanish, except a leading \<open>.\<close> of a
  relative path.
\<close>

definition path_of :: "string \<Rightarrow> upath" where
  "path_of s =
     (let parts = split_on (\<lambda>c. c = CHR ''/'') s;
          body = filter (\<lambda>p. p \<noteq> [] \<and> p \<noteq> ''.'') parts in
      \<lparr>absolute = is_abs s,
       comps = (if \<not> is_abs s \<and> hd parts = ''.'' then ''.'' # body else body)\<rparr>)"

definition path_join :: "upath \<Rightarrow> string \<Rightarrow> upath" where
  "path_join p s =
     (let q = path_of s in
      if absolute q then q
      else if \<not> absolute p \<and> comps p = [] then q
      else p\<lparr>comps := comps p @ (case comps q of c # cs \<Rightarrow> if c = ''.'' then cs else c # cs | [] \<Rightarrow> [])\<rparr>)"

definition path_starts_with :: "upath \<Rightarrow> upath \<Rightarrow> bool" where
  "path_starts_with p q =
     (absolute p = absolute q \<and> take (length (comps q)) (comps p) = comps q)"

definition path_empty :: upath where
  "path_empty = \<lparr>absolute = False, comps = []\<rparr>"

text \<open>\<open>Path::parent\<close>: nothing for a root or an empty path.\<close>

definition path_parent :: "upath \<Rightarrow> upath option" where
  "path_parent p = (if comps p = [] then None else Some (p\<lparr>comps := butlast (comps p)\<rparr>))"

text \<open>\<open>Path::file_name\<close>: the last component, unless it is a parent or a lone current step.\<close>

definition path_file_name :: "upath \<Rightarrow> string option" where
  "path_file_name p =
     (if comps p = [] \<or> last (comps p) = ''..'' \<or> last (comps p) = ''.'' then None else Some (last (comps p)))"

text \<open>Joining a path and a file name, which is a single component or empty.\<close>

definition path_push :: "upath \<Rightarrow> string \<Rightarrow> upath" where
  "path_push p n = (if n = [] then p else p\<lparr>comps := comps p @ [n]\<rparr>)"

text \<open>Resolving parent steps without the file system, as \<open>PathBuf::pop\<close> does.\<close>

fun lexical_step :: "string list \<Rightarrow> string \<Rightarrow> string list" where
  "lexical_step out c = (if c = ''.'' then out else if c = ''..'' then butlast out else out @ [c])"

definition normalize_lexical :: "upath \<Rightarrow> upath" where
  "normalize_lexical p = p\<lparr>comps := foldl lexical_step [] (comps p)\<rparr>"

lemma path_starts_with_refl [simp]: "path_starts_with p p"
  by (simp add: path_starts_with_def)

lemma path_starts_with_trans:
  assumes "path_starts_with p q" and "path_starts_with q r"
  shows "path_starts_with p r"
proof -
  obtain x where x: "comps p = comps q @ x" using assms(1) by (metis path_starts_with_def append_take_drop_id)
  obtain y where y: "comps q = comps r @ y" using assms(2) by (metis path_starts_with_def append_take_drop_id)
  show ?thesis using assms x y by (simp add: path_starts_with_def)
qed

lemma path_starts_with_iff: "path_starts_with p q \<longleftrightarrow> absolute p = absolute q \<and> (\<exists>x. comps p = comps q @ x)"
  by (metis path_starts_with_def append_take_drop_id append_eq_conv_conj)

lemma path_push_below: "path_starts_with p q \<Longrightarrow> path_starts_with (path_push p n) q"
  by (auto simp: path_starts_with_iff path_push_def)

lemma path_join_below: "\<not> is_abs s \<Longrightarrow> path_starts_with (path_join p s) p"
  by (auto simp: path_join_def path_of_def path_starts_with_def Let_def)

lemma path_join_plain:
  assumes "CHR ''/'' \<notin> set n" and "n \<noteq> []" and "n \<noteq> ''.''"
  shows "path_join p n = path_push p n"
proof -
  have "split_on (\<lambda>c. c = CHR ''/'') n = [n]" using assms(1) by (intro split_on_plain) auto
  then have "path_of n = \<lparr>absolute = False, comps = [n]\<rparr>"
    using assms by (cases n) (auto simp: path_of_def Let_def is_abs_def)
  then show ?thesis using assms by (simp add: path_join_def path_push_def Let_def)
qed

lemma lexical_fold:
  "''..'' \<notin> set cs \<Longrightarrow> foldl lexical_step out cs = out @ filter (\<lambda>c. c \<noteq> ''.'') cs"
  by (induction cs arbitrary: out) auto

lemma normalize_lexical_no_parent:
  "''..'' \<notin> set (comps p) \<Longrightarrow> normalize_lexical p = p\<lparr>comps := filter (\<lambda>c. c \<noteq> ''.'') (comps p)\<rparr>"
  by (simp add: normalize_lexical_def lexical_fold)

lemma lexical_step_normal:
  "''..'' \<notin> set out \<Longrightarrow> ''.'' \<notin> set out \<Longrightarrow>
   ''..'' \<notin> set (foldl lexical_step out cs) \<and> ''.'' \<notin> set (foldl lexical_step out cs)"
  by (induction cs arbitrary: out) (auto dest: in_set_butlastD)

lemma normalize_lexical_normal:
  "''..'' \<notin> set (comps (normalize_lexical p))" "''.'' \<notin> set (comps (normalize_lexical p))"
  using lexical_step_normal [of "[]" "comps p"] by (simp_all add: normalize_lexical_def)

lemma normalize_lexical_id:
  "''..'' \<notin> set (comps p) \<Longrightarrow> ''.'' \<notin> set (comps p) \<Longrightarrow> normalize_lexical p = p"
proof -
  assume up: "''..'' \<notin> set (comps p)" and here: "''.'' \<notin> set (comps p)"
  have "filter (\<lambda>c. c \<noteq> ''.'') (comps p) = comps p" using here by (auto intro: filter_True)
  then show ?thesis using normalize_lexical_no_parent [OF up] by simp
qed

lemma normalize_lexical_idem [simp]: "normalize_lexical (normalize_lexical p) = normalize_lexical p"
  by (intro normalize_lexical_id normalize_lexical_normal)

end
