(* ===== verification/Economy.thy ===== *)
theory Economy
  imports Prelude
begin

text \<open>
  The economy service (\<open>framework/aldivine/src/economy.rs\<close>): balances in cents per player
  and account kind, and the append-only ledger. Amounts are \<open>u64\<close> words with the wrapping
  arithmetic of a release build. An operation returns the service it leaves behind together
  with its result, because a refused \<open>debit\<close> still leaves a zero entry in the map.
\<close>

section \<open>Model\<close>

datatype account_kind = Cash | Bank | Organization

fun account_kind_as_str :: "account_kind \<Rightarrow> string" where
  "account_kind_as_str Cash = ''cash''"
| "account_kind_as_str Bank = ''bank''"
| "account_kind_as_str Organization = ''organization''"

record transaction =
  txn_id :: string
  from_player :: player_id
  from_account :: account_kind
  to_player :: player_id
  to_account :: account_kind
  amount :: u64
  txn_reason :: string

datatype economy_error =
    InsufficientFunds (have_amount: u64) (need_amount: u64)
  | NonPositiveAmount
  | SelfTransfer
  | Inconsistent string

type_synonym account = "player_id \<times> account_kind"

record economy_service =
  balances :: "(account, u64) hmap"
  ledger :: "transaction list"

definition economy_new :: economy_service where
  "economy_new = \<lparr>balances = [], ledger = []\<rparr>"

definition balance :: "economy_service \<Rightarrow> player_id \<Rightarrow> account_kind \<Rightarrow> u64" where
  "balance s player kind = hm_get_or 0 (balances s) (player, kind)"

definition credit ::
  "economy_service \<Rightarrow> player_id \<Rightarrow> account_kind \<Rightarrow> u64 \<Rightarrow> economy_service \<times> (unit, economy_error) result" where
  "credit s player kind amt =
     (if amt = 0 then (s, Err NonPositiveAmount)
      else
        let m = hm_or_insert (player, kind) 0 (balances s);
            entry = hm_get_or 0 m (player, kind)
        in (s\<lparr>balances := hm_insert (player, kind) (entry + amt) m\<rparr>, Ok ()))"

definition debit ::
  "economy_service \<Rightarrow> player_id \<Rightarrow> account_kind \<Rightarrow> u64 \<Rightarrow> economy_service \<times> (unit, economy_error) result" where
  "debit s player kind amt =
     (if amt = 0 then (s, Err NonPositiveAmount)
      else
        let m = hm_or_insert (player, kind) 0 (balances s);
            entry = hm_get_or 0 m (player, kind)
        in if entry < amt then (s\<lparr>balances := m\<rparr>, Err (InsufficientFunds entry amt))
           else (s\<lparr>balances := hm_insert (player, kind) (entry - amt) m\<rparr>, Ok ()))"

definition economy_transfer ::
  "economy_service \<Rightarrow> transaction \<Rightarrow> economy_service \<times> (unit, economy_error) result" where
  "economy_transfer s txn =
     (if amount txn = 0 then (s, Err NonPositiveAmount)
      else if from_player txn = to_player txn \<and> from_account txn = to_account txn
        then (s, Err SelfTransfer)
      else case debit s (from_player txn) (from_account txn) (amount txn) of
          (s1, Inl e) \<Rightarrow> (s1, Err e)
        | (s1, Inr _) \<Rightarrow>
            (case credit s1 (to_player txn) (to_account txn) (amount txn) of
               (s2, Inl e) \<Rightarrow> (s2, Err e)
             | (s2, Inr _) \<Rightarrow> (s2\<lparr>ledger := ledger s2 @ [txn]\<rparr>, Ok ())))"

definition money_supply :: "economy_service \<Rightarrow> u64" where
  "money_supply s = sum_list (hm_values (balances s))"

definition txn_count :: "economy_service \<Rightarrow> nat" where
  "txn_count s = length (ledger s)"

text \<open>The mutating calls of the service as one step function, for runs.\<close>

datatype economy_op =
    Credit player_id account_kind u64
  | Debit player_id account_kind u64
  | Transfer transaction

fun economy_step :: "economy_service \<Rightarrow> economy_op \<Rightarrow> economy_service" where
  "economy_step s (Credit p k n) = fst (credit s p k n)"
| "economy_step s (Debit p k n) = fst (debit s p k n)"
| "economy_step s (Transfer t) = fst (economy_transfer s t)"

definition economy_wf :: "economy_service \<Rightarrow> bool" where
  "economy_wf s \<longleftrightarrow> hm_wf (balances s) \<and>
     (\<forall>t \<in> set (ledger s). amount t \<noteq> 0 \<and>
        (from_player t, from_account t) \<noteq> (to_player t, to_account t))"

text \<open>The money in circulation as a natural number, without wrap-around.\<close>

definition supply_nat :: "economy_service \<Rightarrow> nat" where
  "supply_nat s = sum_list (map (unat \<circ> snd) (balances s))"

text \<open>What the ledger says an account gained and lost.\<close>

definition ledger_in :: "transaction list \<Rightarrow> player_id \<Rightarrow> account_kind \<Rightarrow> u64" where
  "ledger_in ts p k =
     sum_list (map amount (filter (\<lambda>t. to_player t = p \<and> to_account t = k) ts))"

definition ledger_out :: "transaction list \<Rightarrow> player_id \<Rightarrow> account_kind \<Rightarrow> u64" where
  "ledger_out ts p k =
     sum_list (map amount (filter (\<lambda>t. from_player t = p \<and> from_account t = k) ts))"

section \<open>The two legs\<close>

named_theorems economy_simps

lemma balance_credit [economy_simps]:
  "balance (fst (credit s p k n)) q j = (if (q, j) = (p, k) then balance s p k + n else balance s q j)"
  by (auto simp: credit_def balance_def hm_simps Let_def)

lemma balance_debit [economy_simps]:
  "balance (fst (debit s p k n)) q j =
     (if (q, j) = (p, k) \<and> n \<le> balance s p k then balance s p k - n else balance s q j)"
  by (auto simp: debit_def balance_def hm_simps Let_def)

lemma credit_result [economy_simps]:
  "snd (credit s p k n) = (if n = 0 then Err NonPositiveAmount else Ok ())"
  by (simp add: credit_def Let_def)

lemma debit_result [economy_simps]:
  "snd (debit s p k n) = (if n = 0 then Err NonPositiveAmount
     else if balance s p k < n then Err (InsufficientFunds (balance s p k) n) else Ok ())"
  by (simp add: debit_def balance_def Let_def)

lemma ledger_credit [simp]: "ledger (fst (credit s p k n)) = ledger s"
  by (simp add: credit_def Let_def)

lemma ledger_debit [simp]: "ledger (fst (debit s p k n)) = ledger s"
  by (simp add: debit_def Let_def)

lemma balance_ledger_update [simp]: "balance (s\<lparr>ledger := l\<rparr>) p k = balance s p k"
  by (simp add: balance_def)

lemma hm_wf_credit [simp]: "hm_wf (balances s) \<Longrightarrow> hm_wf (balances (fst (credit s p k n)))"
  by (simp add: credit_def Let_def)

lemma hm_wf_debit [simp]: "hm_wf (balances s) \<Longrightarrow> hm_wf (balances (fst (debit s p k n)))"
  by (simp add: debit_def Let_def)

text \<open>
  The sum over all accounts, taken in any commutative monoid through a function that sends
  zero to zero: a change of one entry changes the sum by the difference.
\<close>

lemma sum_or_insert:
  fixes f :: "u64 \<Rightarrow> 'c :: comm_monoid_add"
  assumes "f 0 = 0"
  shows "sum_list (map (f \<circ> snd) (hm_or_insert a 0 m)) = sum_list (map (f \<circ> snd) m)"
proof (cases "map_of m a")
  case None
  then have "a \<notin> fst ` set m" by (simp add: map_of_eq_None_iff)
  then have "AList.update a 0 m = m @ [(a, 0)]"
    by (induction m) auto
  with None assms show ?thesis by (simp add: hm_or_insert_def)
next
  case (Some v)
  then show ?thesis by (simp add: hm_or_insert_def)
qed

lemma sum_set_entry:
  fixes f :: "u64 \<Rightarrow> 'c :: comm_monoid_add"
  assumes "hm_wf m" and "f 0 = 0"
  shows "sum_list (map (f \<circ> snd) (hm_insert a v (hm_or_insert a 0 m))) + f (hm_get_or 0 m a)
         = sum_list (map (f \<circ> snd) m) + f v"
proof -
  have "map_of (hm_or_insert a 0 m) a = Some (hm_get_or 0 m a)"
    by (simp add: hm_simps)
  then show ?thesis
    using hm_sum_insert [of "hm_or_insert a 0 m" f a v] assms
    by (simp add: sum_or_insert)
qed

lemma supply_sum: "money_supply s = sum_list (map ((\<lambda>x. x) \<circ> snd) (balances s))"
  by (simp add: money_supply_def comp_def)

lemma money_supply_credit [economy_simps]:
  "hm_wf (balances s) \<Longrightarrow> money_supply (fst (credit s p k n)) = money_supply s + n"
  using sum_set_entry [of "balances s" "\<lambda>x. x" "(p, k)" "hm_get_or 0 (balances s) (p, k) + n"]
  by (auto simp: credit_def supply_sum Let_def algebra_simps)

lemma money_supply_debit [economy_simps]:
  "hm_wf (balances s) \<Longrightarrow> money_supply (fst (debit s p k n)) =
     (if n \<le> balance s p k then money_supply s - n else money_supply s)"
  using sum_set_entry [of "balances s" "\<lambda>x. x" "(p, k)" "hm_get_or 0 (balances s) (p, k) - n"]
  by (auto simp: debit_def balance_def supply_sum sum_or_insert Let_def algebra_simps)

lemma supply_nat_credit:
  "hm_wf (balances s) \<Longrightarrow>
   supply_nat (fst (credit s p k n)) + unat (balance s p k) = supply_nat s + unat (balance s p k + n)"
  using sum_set_entry [of "balances s" unat "(p, k)" "hm_get_or 0 (balances s) (p, k) + n"]
  by (auto simp: credit_def balance_def supply_nat_def Let_def)

lemma supply_nat_debit:
  "hm_wf (balances s) \<Longrightarrow> n \<le> balance s p k \<Longrightarrow>
   supply_nat (fst (debit s p k n)) + unat n = supply_nat s"
  using sum_set_entry [of "balances s" unat "(p, k)" "hm_get_or 0 (balances s) (p, k) - n"]
  by (auto simp: debit_def balance_def supply_nat_def Let_def unat_sub word_le_nat_alt not_less
      word_less_nat_alt)

lemma balance_le_supply: "hm_wf (balances s) \<Longrightarrow> unat (balance s p k) \<le> supply_nat s"
proof (cases "map_of (balances s) (p, k)")
  case (Some v)
  then have "((p, k), v) \<in> set (balances s)" by (rule map_of_SomeD)
  then have "unat v \<in> set (map (unat \<circ> snd) (balances s))" by force
  then have "unat v \<le> supply_nat s" unfolding supply_nat_def by (rule member_le_sum_list) simp
  then show ?thesis using Some by (simp add: balance_def hm_get_or_def)
qed (simp add: balance_def hm_get_or_def)

interpretation economy_legs: two_leg_store
  "\<lambda>s (a :: account) n. debit s (fst a) (snd a) n"
  "\<lambda>s (a :: account) n. credit s (fst a) (snd a) n"
  money_supply "\<lambda>s. hm_wf (balances s)"
proof
  fix s s' :: economy_service and a :: account and n :: u64 and e
  assume wf: "hm_wf (balances s)"
  show "debit s (fst a) (snd a) n = (s', Ok ()) \<Longrightarrow> money_supply s' = money_supply s - n"
    using money_supply_debit [OF wf, of "fst a" "snd a" n] debit_result [of s "fst a" "snd a" n]
    by (auto split: if_splits)
  show "debit s (fst a) (snd a) n = (s', Err e) \<Longrightarrow> money_supply s' = money_supply s"
    using money_supply_debit [OF wf, of "fst a" "snd a" n] debit_result [of s "fst a" "snd a" n]
    by (auto split: if_splits)
  show "credit s (fst a) (snd a) n = (s', Ok ()) \<Longrightarrow> money_supply s' = money_supply s + n"
    using money_supply_credit [OF wf, of "fst a" "snd a" n] by simp
  show "credit s (fst a) (snd a) n = (s', Err e) \<Longrightarrow> money_supply s' = money_supply s"
    by (auto simp: credit_def Let_def split: if_splits)
qed simp_all

section \<open>Transfers\<close>

lemma economy_transfer_cases:
  obtains
    (zero) "amount t = 0" "economy_transfer s t = (s, Err NonPositiveAmount)"
  | (self) "amount t \<noteq> 0" "(from_player t, from_account t) = (to_player t, to_account t)"
      "economy_transfer s t = (s, Err SelfTransfer)"
  | (poor) "amount t \<noteq> 0" "(from_player t, from_account t) \<noteq> (to_player t, to_account t)"
      "balance s (from_player t) (from_account t) < amount t"
      "economy_transfer s t =
         (fst (debit s (from_player t) (from_account t) (amount t)),
          Err (InsufficientFunds (balance s (from_player t) (from_account t)) (amount t)))"
  | (paid) s1 s2 where "amount t \<noteq> 0"
      "(from_player t, from_account t) \<noteq> (to_player t, to_account t)"
      "amount t \<le> balance s (from_player t) (from_account t)"
      "debit s (from_player t) (from_account t) (amount t) = (s1, Ok ())"
      "credit s1 (to_player t) (to_account t) (amount t) = (s2, Ok ())"
      "economy_transfer s t = (s2\<lparr>ledger := ledger s @ [t]\<rparr>, Ok ())"
proof -
  let ?d = "debit s (from_player t) (from_account t) (amount t)"
  let ?c = "credit (fst ?d) (to_player t) (to_account t) (amount t)"
  have d: "snd ?d = (if amount t = 0 then Err NonPositiveAmount
      else if balance s (from_player t) (from_account t) < amount t
        then Err (InsufficientFunds (balance s (from_player t) (from_account t)) (amount t)) else Ok ())"
    by (rule debit_result)
  have c: "snd ?c = (if amount t = 0 then Err NonPositiveAmount else Ok ())"
    by (rule credit_result)
  have l: "ledger (fst ?c) = ledger s" by simp
  show ?thesis
  proof (cases "amount t = 0")
    case True
    then show ?thesis by (intro zero) (simp_all add: economy_transfer_def)
  next
    case nz: False
    show ?thesis
    proof (cases "(from_player t, from_account t) = (to_player t, to_account t)")
      case True
      with nz show ?thesis by (intro self) (simp_all add: economy_transfer_def)
    next
      case ns: False
      show ?thesis
      proof (cases "balance s (from_player t) (from_account t) < amount t")
        case True
        with nz ns d show ?thesis
          by (intro poor) (auto simp: economy_transfer_def split: prod.splits)
      next
        case False
        with nz d obtain s1 where s1: "?d = (s1, Ok ())" by (metis prod.collapse)
        with nz c obtain s2 where s2: "credit s1 (to_player t) (to_account t) (amount t) = (s2, Ok ())"
          by (metis fst_conv prod.collapse)
        have "ledger s2 = ledger s" using l s1 s2 by simp
        then have "economy_transfer s t = (s2\<lparr>ledger := ledger s @ [t]\<rparr>, Ok ())"
          using nz ns s1 s2 by (auto simp: economy_transfer_def)
        with nz ns s1 s2 False show ?thesis by (intro paid) auto
      qed
    qed
  qed
qed

lemma economy_transfer_ok_iff:
  "snd (economy_transfer s t) = Ok () \<longleftrightarrow>
     amount t \<noteq> 0 \<and> (from_player t, from_account t) \<noteq> (to_player t, to_account t) \<and>
     amount t \<le> balance s (from_player t) (from_account t)"
  by (cases rule: economy_transfer_cases [of t s]) auto

lemma economy_transfer_balance:
  assumes "snd (economy_transfer s t) = Ok ()"
  shows "balance (fst (economy_transfer s t)) p k =
     (if (p, k) = (from_player t, from_account t) then balance s p k - amount t
      else if (p, k) = (to_player t, to_account t) then balance s p k + amount t
      else balance s p k)"
proof (cases rule: economy_transfer_cases [of t s])
  case (paid s1 s2)
  have s1: "s1 = fst (debit s (from_player t) (from_account t) (amount t))"
    and s2: "s2 = fst (credit s1 (to_player t) (to_account t) (amount t))"
    using paid(4,5) by simp_all
  show ?thesis
    using paid(2,3) unfolding paid(6) fst_conv s2 s1 by (auto simp: economy_simps)
qed (use assms in auto)

lemma economy_transfer_ledger:
  "ledger (fst (economy_transfer s t)) =
     (if snd (economy_transfer s t) = Ok () then ledger s @ [t] else ledger s)"
  by (cases rule: economy_transfer_cases [of t s]) auto

lemma economy_transfer_err_balance:
  assumes "snd (economy_transfer s t) = Err e"
  shows "balance (fst (economy_transfer s t)) p k = balance s p k"
proof (cases rule: economy_transfer_cases [of t s])
  case poor
  then show ?thesis by (auto simp: economy_simps)
qed (use assms in auto)

lemma economy_transfer_wf:
  assumes "hm_wf (balances s)"
  shows "hm_wf (balances (fst (economy_transfer s t)))"
proof (cases rule: economy_transfer_cases [of t s])
  case (paid s1 s2)
  have "hm_wf (balances s1)" using assms hm_wf_debit paid(4) by (metis fst_conv)
  then have "hm_wf (balances s2)" using hm_wf_credit paid(5) by (metis fst_conv)
  with paid(6) show ?thesis by simp
qed (use assms in auto)

lemma ledger_in_snoc [simp]:
  "ledger_in (ts @ [t]) p k = ledger_in ts p k + (if to_player t = p \<and> to_account t = k then amount t else 0)"
  by (simp add: ledger_in_def)

lemma ledger_out_snoc [simp]:
  "ledger_out (ts @ [t]) p k =
     ledger_out ts p k + (if from_player t = p \<and> from_account t = k then amount t else 0)"
  by (simp add: ledger_out_def)

section \<open>Properties\<close>

interpretation economy_run: op_system economy_new economy_step economy_wf
proof
  show "economy_wf economy_new" by (simp add: economy_wf_def economy_new_def)
next
  fix s op
  assume wf: "economy_wf s"
  show "economy_wf (economy_step s op)"
  proof (cases op)
    case (Transfer t)
    have "t \<in> set (ledger (fst (economy_transfer s t))) \<Longrightarrow> t \<notin> set (ledger s) \<Longrightarrow>
        amount t \<noteq> 0 \<and> (from_player t, from_account t) \<noteq> (to_player t, to_account t)"
      using economy_transfer_ok_iff [of s t] by (auto simp: economy_transfer_ledger split: if_splits)
    with wf show ?thesis
      by (auto simp: Transfer economy_wf_def economy_transfer_wf economy_transfer_ledger split: if_splits)
  qed (use wf in \<open>auto simp: economy_wf_def\<close>)
qed

text \<open>
  C1. Money is conserved: a transfer, accepted or refused, leaves the money supply of the
  service (the wrapping \<open>u64\<close> sum over all accounts) exactly what it was.
\<close>

theorem transfer_conserves_supply:
  assumes "hm_wf (balances s)"
  shows "money_supply (fst (economy_transfer s t)) = money_supply s"
proof (cases rule: economy_transfer_cases [of t s])
  case poor
  then show ?thesis using assms by (simp add: economy_simps)
next
  case (paid s1 s2)
  have "money_supply s2 = money_supply s"
    using economy_legs.move_total [of s "(from_player t, from_account t)" "amount t" s1
        "(to_player t, to_account t)" s2] assms paid(4,5) by simp
  then show ?thesis using paid(6) by (simp add: money_supply_def)
qed auto

definition demo_txn :: "u64 \<Rightarrow> transaction" where
  "demo_txn n = \<lparr>txn_id = ''t1'', from_player = 1, from_account = Cash, to_player = 2,
     to_account = Bank, amount = n, txn_reason = ''shop''\<rparr>"

definition demo_economy :: economy_service where
  "demo_economy = \<lparr>balances = [((1, Cash), 70), ((2, Bank), 5)], ledger = []\<rparr>"

lemmas demo_economy_defs = demo_economy_def demo_txn_def economy_transfer_def debit_def credit_def
  balance_def money_supply_def supply_nat_def hm_wf_def hm_or_insert_def hm_get_or_def

theorem transfer_conserves_supply_witness:
  "hm_wf (balances demo_economy) \<and>
   snd (economy_transfer demo_economy (demo_txn 30)) = Ok () \<and>
   money_supply (fst (economy_transfer demo_economy (demo_txn 30))) = 75"
proof -
  have "hm_wf (balances demo_economy)" by (simp add: demo_economy_defs)
  from this transfer_conserves_supply [OF this, of "demo_txn 30"] show ?thesis
    by (simp add: demo_economy_defs)
qed

text \<open>
  C2. A transfer is accepted exactly when the amount is not zero, the two accounts differ and
  the source holds at least the amount. An accepted transfer debits the source, credits the
  destination, touches no other account and appends the transaction to the ledger; a refused
  one changes no balance and not the ledger.
\<close>

theorem transfer_effect:
  "(snd (economy_transfer s t) = Ok () \<longleftrightarrow>
      amount t \<noteq> 0 \<and> (from_player t, from_account t) \<noteq> (to_player t, to_account t) \<and>
      amount t \<le> balance s (from_player t) (from_account t)) \<and>
   (let s' = fst (economy_transfer s t) in
    if snd (economy_transfer s t) = Ok () then
      ledger s' = ledger s @ [t] \<and>
      (\<forall>p k. balance s' p k =
         (if (p, k) = (from_player t, from_account t) then balance s p k - amount t
          else if (p, k) = (to_player t, to_account t) then balance s p k + amount t
          else balance s p k))
    else ledger s' = ledger s \<and> (\<forall>p k. balance s' p k = balance s p k))"
proof (cases "snd (economy_transfer s t)")
  case (Inl e)
  then show ?thesis
    using economy_transfer_ok_iff [of s t]
    by (auto simp: Let_def economy_transfer_ledger economy_transfer_err_balance)
next
  case (Inr u)
  then show ?thesis
    using economy_transfer_ok_iff [of s t]
    by (auto simp: Let_def economy_transfer_ledger economy_transfer_balance)
qed

text \<open>
  While the money in circulation fits in 64 bits, no transfer wraps around: the sum of the
  balances as natural numbers is unchanged, the source loses and the destination gains exactly
  the amount.
\<close>

lemma transfer_no_overflow:
  assumes "hm_wf (balances s)" and "supply_nat s < 2 ^ 64"
    and "snd (economy_transfer s t) = Ok ()"
  shows "supply_nat (fst (economy_transfer s t)) = supply_nat s \<and>
    unat (balance (fst (economy_transfer s t)) (from_player t) (from_account t)) + unat (amount t)
      = unat (balance s (from_player t) (from_account t)) \<and>
    unat (balance (fst (economy_transfer s t)) (to_player t) (to_account t))
      = unat (balance s (to_player t) (to_account t)) + unat (amount t)"
proof (cases rule: economy_transfer_cases [of t s])
  case (paid s1 s2)
  have wf1: "hm_wf (balances s1)" using assms(1) hm_wf_debit paid(4) by (metis fst_conv)
  have sup1: "supply_nat s1 + unat (amount t) = supply_nat s"
    using supply_nat_debit [OF assms(1) paid(3)] paid(4) by simp
  have b1: "balance s1 (to_player t) (to_account t) = balance s (to_player t) (to_account t)"
    using balance_debit [of s "from_player t" "from_account t" "amount t" "to_player t" "to_account t"]
      paid(2,4) by auto
  have "unat (balance s1 (to_player t) (to_account t)) + unat (amount t) < 2 ^ 64"
    using balance_le_supply [OF wf1, of "to_player t" "to_account t"] sup1 assms(2) by linarith
  then have plus: "unat (balance s1 (to_player t) (to_account t) + amount t) =
      unat (balance s1 (to_player t) (to_account t)) + unat (amount t)"
    by (simp add: unat_word_ariths)
  have "supply_nat s2 = supply_nat s"
    using supply_nat_credit [OF wf1, of "to_player t" "to_account t" "amount t"] paid(5) plus sup1
    by simp
  then have "supply_nat (fst (economy_transfer s t)) = supply_nat s"
    using paid(6) by (simp add: supply_nat_def)
  moreover have "unat (balance s (from_player t) (from_account t) - amount t) + unat (amount t)
      = unat (balance s (from_player t) (from_account t))"
    using paid(3) by (simp add: unat_sub word_le_nat_alt)
  ultimately show ?thesis
    using plus paid(2) by (auto simp: economy_transfer_balance [OF assms(3)] b1)
qed (use assms(3) in auto)

text \<open>
  C4. The ledger explains every balance: after any sequence of transfers, each account holds
  what it held before plus what the new ledger entries credit it with, less what they debit,
  and the old ledger is a prefix of the new one.
\<close>

theorem ledger_explains_balances:
  "\<exists>new. ledger (foldl (\<lambda>s t. fst (economy_transfer s t)) s ts) = ledger s @ new \<and>
     (\<forall>p k. balance (foldl (\<lambda>s t. fst (economy_transfer s t)) s ts) p k
            = balance s p k + ledger_in new p k - ledger_out new p k)"
proof (induction ts rule: rev_induct)
  case Nil
  then show ?case by (simp add: ledger_in_def ledger_out_def)
next
  case (snoc t ts)
  let ?s = "foldl (\<lambda>s t. fst (economy_transfer s t)) s ts"
  obtain new where new: "ledger ?s = ledger s @ new"
    and bal: "\<And>p k. balance ?s p k = balance s p k + ledger_in new p k - ledger_out new p k"
    using snoc by blast
  show ?case
  proof (cases "snd (economy_transfer ?s t)")
    case (Inl e)
    then show ?thesis
      using new bal by (auto simp: economy_transfer_ledger economy_transfer_err_balance intro!: exI [of _ new])
  next
    case (Inr u)
    then have ok: "snd (economy_transfer ?s t) = Ok ()" by simp
    then have "(from_player t, from_account t) \<noteq> (to_player t, to_account t)"
      by (simp add: economy_transfer_ok_iff)
    then show ?thesis
      using new bal ok
      by (intro exI [of _ "new @ [t]"]) (auto simp: economy_transfer_ledger economy_transfer_balance)
  qed
qed

end
