(* ===== verification/Inventory.thy ===== *)
theory Inventory
  imports Prelude
begin

text \<open>
  The inventory service (\<open>framework/aldivine/src/inventory.rs\<close>): registered item
  definitions, storages with weight limits, and the grant, removal and transfer of stacks.
  Counts and weights are \<open>u32\<close> words that wrap as in a release build. A method that takes
  \<open>&mut self\<close> returns the service it leaves behind, on the error paths too.
\<close>

section \<open>Model\<close>

record item =
  def_id :: string
  item_name :: string
  weight :: u32
  stackable :: bool
  max_stack :: u32
  has_durability :: bool

record item_stack =
  stack_def_id :: string
  stack_count :: u32
  weight_per_unit :: u32
  durability :: "u8 option"

definition item_stack_new :: "item \<Rightarrow> u32 \<Rightarrow> item_stack" where
  "item_stack_new d n = \<lparr>stack_def_id = def_id d, stack_count = n, weight_per_unit = weight d,
     durability = (if has_durability d then Some 100 else None)\<rparr>"

definition stack_total_weight :: "item_stack \<Rightarrow> u32" where
  "stack_total_weight s = weight_per_unit s * stack_count s"

datatype storage_kind =
    PlayerStorage player_id
  | Vehicle u64
  | Property u64
  | Custom string

datatype inventory_error =
    UnknownItem string
  | OverWeight (adding: u32) (total: u32) (limit: u32)
  | OverStack string
  | NestingTooDeep
  | Insufficient string u32

definition MAX_NESTING :: nat where
  "MAX_NESTING = 3"

record inventory =
  inv_kind :: storage_kind
  weight_limit :: u32
  slots :: "item_stack list"
  depth :: nat

definition inventory_total_weight :: "inventory \<Rightarrow> u32" where
  "inventory_total_weight i = sum_list (map stack_total_weight (slots i))"

record inventory_service =
  registry :: "(string, item) hmap"
  storages :: "(storage_kind, inventory) hmap"

definition inventory_new :: inventory_service where
  "inventory_new = \<lparr>registry = [], storages = []\<rparr>"

definition inventory_register :: "inventory_service \<Rightarrow> item \<Rightarrow> inventory_service" where
  "inventory_register s it = s\<lparr>registry := hm_insert (def_id it) it (registry s)\<rparr>"

text \<open>
  \<open>storage\<close> hands out a mutable reference to the entry; here it returns the service with the
  entry present and the inventory, and \<open>put_storage\<close> writes the changed inventory back.
\<close>

definition storage :: "inventory_service \<Rightarrow> storage_kind \<Rightarrow> u32 \<Rightarrow> inventory_service \<times> inventory" where
  "storage s kind wl =
     (let d = (case hm_get (storages s) kind of Some i \<Rightarrow> depth i | None \<Rightarrow> 0);
          fresh = \<lparr>inv_kind = kind, weight_limit = wl, slots = [], depth = d\<rparr>
      in (s\<lparr>storages := hm_or_insert kind fresh (storages s)\<rparr>, hm_get_or fresh (storages s) kind))"

definition put_storage :: "inventory_service \<Rightarrow> storage_kind \<Rightarrow> inventory \<Rightarrow> inventory_service" where
  "put_storage s kind i = s\<lparr>storages := hm_insert kind i (storages s)\<rparr>"

definition give ::
  "inventory_service \<Rightarrow> storage_kind \<Rightarrow> u32 \<Rightarrow> string \<Rightarrow> u32 \<Rightarrow>
     inventory_service \<times> (unit, inventory_error) result" where
  "give s kind wl d n =
     (case hm_get (registry s) d of
        None \<Rightarrow> (s, Err (UnknownItem d))
      | Some it \<Rightarrow>
          let (s1, i) = storage s kind wl;
              adding_weight = weight it * n;
              current = inventory_total_weight i;
              push_new = (if max_stack it < n then (s1, Err (OverStack d))
                          else (put_storage s1 kind (i\<lparr>slots := slots i @ [item_stack_new it n]\<rparr>), Ok ()))
          in if weight_limit i < current + adding_weight
             then (s1, Err (OverWeight adding_weight (current + adding_weight) (weight_limit i)))
             else if stackable it then
               (case position (\<lambda>st. stack_def_id st = d) (slots i) of
                  Some at \<Rightarrow>
                    let st = slots i ! at; new_count = stack_count st + n
                    in if max_stack it < new_count then (s1, Err (OverStack d))
                       else (put_storage s1 kind (i\<lparr>slots := (slots i)[at := st\<lparr>stack_count := new_count\<rparr>]\<rparr>), Ok ())
                | None \<Rightarrow> push_new)
             else push_new)"

definition inventory_take ::
  "inventory_service \<Rightarrow> storage_kind \<Rightarrow> u32 \<Rightarrow> string \<Rightarrow> u32 \<Rightarrow>
     inventory_service \<times> (unit, inventory_error) result" where
  "inventory_take s kind wl d n =
     (let (s1, i) = storage s kind wl in
      case position (\<lambda>st. stack_def_id st = d) (slots i) of
        None \<Rightarrow> (s1, Err (Insufficient d n))
      | Some at \<Rightarrow>
          let st = slots i ! at in
          if stack_count st < n then (s1, Err (Insufficient d n))
          else
            let c = stack_count st - n;
                sl = (slots i)[at := st\<lparr>stack_count := c\<rparr>]
            in (put_storage s1 kind
                  (i\<lparr>slots := (if c = 0 then filter (\<lambda>x. 0 < stack_count x) sl else sl)\<rparr>), Ok ()))"

definition inventory_transfer ::
  "inventory_service \<Rightarrow> storage_kind \<Rightarrow> storage_kind \<Rightarrow> u32 \<Rightarrow> string \<Rightarrow> u32 \<Rightarrow>
     inventory_service \<times> (unit, inventory_error) result" where
  "inventory_transfer s from to wl d n =
     (let (s1, i) = storage s to wl in
      if MAX_NESTING \<le> depth i then (s1, Err NestingTooDeep)
      else case inventory_take s1 from wl d n of
          (s2, Inl e) \<Rightarrow> (s2, Err e)
        | (s2, Inr _) \<Rightarrow>
            (case give s2 to wl d n of
               (s3, Inr _) \<Rightarrow> (s3, Ok ())
             | (s3, Inl e) \<Rightarrow> (fst (give s3 from wl d n), Err e)))"

definition inventory_count :: "inventory_service \<Rightarrow> storage_kind \<Rightarrow> string \<Rightarrow> u32" where
  "inventory_count s kind d =
     (case hm_get (storages s) kind of
        None \<Rightarrow> 0
      | Some i \<Rightarrow>
          (case find (\<lambda>st. stack_def_id st = d) (slots i) of None \<Rightarrow> 0 | Some st \<Rightarrow> stack_count st))"

section \<open>What a storage holds\<close>

text \<open>All units of one definition in a slot list, over every slot and not only the first.\<close>

definition slot_sum :: "string \<Rightarrow> item_stack list \<Rightarrow> u32" where
  "slot_sum d sl = sum_list (map (\<lambda>st. if stack_def_id st = d then stack_count st else 0) sl)"

definition stored :: "inventory_service \<Rightarrow> storage_kind \<Rightarrow> string \<Rightarrow> u32" where
  "stored s kind d = (case hm_get (storages s) kind of None \<Rightarrow> 0 | Some i \<Rightarrow> slot_sum d (slots i))"

definition total_stored :: "string \<Rightarrow> inventory_service \<Rightarrow> u32" where
  "total_stored d s = sum_list (map ((\<lambda>i. slot_sum d (slots i)) \<circ> snd) (storages s))"

lemma sum_list_map_update:
  fixes f :: "'a \<Rightarrow> 'b :: ab_group_add"
  shows "i < length xs \<Longrightarrow> sum_list (map f (xs[i := x])) = sum_list (map f xs) - f (xs ! i) + f x"
  by (induction xs arbitrary: i) (auto split: nat.splits simp: algebra_simps)

lemma slot_sum_retain [simp]: "slot_sum d (filter (\<lambda>x. 0 < stack_count x) sl) = slot_sum d sl"
  by (induction sl) (auto simp: slot_sum_def word_gt_0)

lemma weight_retain [simp]:
  "sum_list (map stack_total_weight (filter (\<lambda>x. 0 < stack_count x) sl)) = sum_list (map stack_total_weight sl)"
  by (induction sl) (auto simp: stack_total_weight_def word_gt_0)

lemma slot_sum_Nil [simp]: "slot_sum d [] = 0"
  by (simp add: slot_sum_def)

lemma slot_sum_append [simp]: "slot_sum d (sl @ sl') = slot_sum d sl + slot_sum d sl'"
  by (simp add: slot_sum_def)

lemma slot_sum_new [simp]:
  "slot_sum d [item_stack_new it n] = (if def_id it = d then n else 0)"
  by (simp add: slot_sum_def item_stack_new_def)

lemma slot_sum_update:
  "at < length sl \<Longrightarrow>
   slot_sum d (sl[at := (sl ! at)\<lparr>stack_count := c\<rparr>]) =
     slot_sum d sl + (if stack_def_id (sl ! at) = d then c - stack_count (sl ! at) else 0)"
  by (simp add: slot_sum_def sum_list_map_update)

lemma storage_stored [simp]: "stored (fst (storage s k wl)) k' d = stored s k' d"
  by (auto simp: storage_def stored_def hm_simps hm_get_or_def Let_def split: option.splits)

lemma storage_get: "hm_get (storages (fst (storage s k wl))) k = Some (snd (storage s k wl))"
  by (auto simp: storage_def hm_simps hm_get_or_def Let_def split: option.splits)

lemma storage_get_other [simp]:
  "k' \<noteq> k \<Longrightarrow> hm_get (storages (fst (storage s k wl))) k' = hm_get (storages s) k'"
  by (auto simp: storage_def hm_simps hm_or_insert_def Let_def split: option.splits)

lemma storage_registry [simp]: "registry (fst (storage s k wl)) = registry s"
  by (simp add: storage_def Let_def)

lemma put_storage_registry [simp]: "registry (put_storage s k i) = registry s"
  by (simp add: put_storage_def)

lemma put_storage_get [simp]:
  "hm_get (storages (put_storage s k i)) k' = (if k' = k then Some i else hm_get (storages s) k')"
  by (simp add: put_storage_def hm_simps)

lemma stored_put [simp]:
  "stored (put_storage s k i) k' d = (if k' = k then slot_sum d (slots i) else stored s k' d)"
  by (simp add: stored_def)

lemma stored_slots: "stored s k d = slot_sum d (slots (snd (storage s k wl)))"
  by (auto simp: storage_def stored_def hm_get_or_def Let_def split: option.splits)

section \<open>The two legs\<close>

text \<open>The three ways a grant ends well or badly, with what it leaves behind.\<close>

lemma give_cases:
  obtains
    (refused) e where "give s k wl d n = (s, Err e) \<or> give s k wl d n = (fst (storage s k wl), Err e)"
  | (merged) it i at where "hm_get (registry s) d = Some it" "i = snd (storage s k wl)"
      "stackable it" "position (\<lambda>st. stack_def_id st = d) (slots i) = Some at"
      "inventory_total_weight i + weight it * n \<le> weight_limit i"
      "stack_count (slots i ! at) + n \<le> max_stack it"
      "give s k wl d n = (put_storage (fst (storage s k wl)) k
         (i\<lparr>slots := (slots i)[at := (slots i ! at)\<lparr>stack_count := stack_count (slots i ! at) + n\<rparr>]\<rparr>), Ok ())"
  | (pushed) it i where "hm_get (registry s) d = Some it" "i = snd (storage s k wl)"
      "stackable it \<Longrightarrow> position (\<lambda>st. stack_def_id st = d) (slots i) = None"
      "inventory_total_weight i + weight it * n \<le> weight_limit i" "n \<le> max_stack it"
      "give s k wl d n = (put_storage (fst (storage s k wl)) k
         (i\<lparr>slots := slots i @ [item_stack_new it n]\<rparr>), Ok ())"
proof (cases "hm_get (registry s) d")
  case None
  then show ?thesis by (intro refused [of "UnknownItem d"]) (simp add: give_def)
next
  case (Some it)
  obtain s1 i where si: "storage s k wl = (s1, i)" by (cases "storage s k wl")
  show ?thesis
  proof (cases "weight_limit i < inventory_total_weight i + weight it * n")
    case True
    with Some si show ?thesis
      by (intro refused) (auto simp: give_def Let_def)
  next
    case light: False
    show ?thesis
    proof (cases "stackable it \<and> position (\<lambda>st. stack_def_id st = d) (slots i) \<noteq> None")
      case True
      then obtain at where at: "position (\<lambda>st. stack_def_id st = d) (slots i) = Some at" by auto
      show ?thesis
      proof (cases "max_stack it < stack_count (slots i ! at) + n")
        case True
        with Some si light \<open>stackable it \<and> _\<close> at show ?thesis
          by (intro refused) (auto simp: give_def Let_def)
      next
        case False
        with Some si light \<open>stackable it \<and> _\<close> at show ?thesis
          by (intro merged [of it i at]) (auto simp: give_def Let_def)
      qed
    next
      case new: False
      show ?thesis
      proof (cases "max_stack it < n")
        case True
        with Some si light new show ?thesis
          by (intro refused) (auto simp: give_def Let_def)
      next
        case False
        with Some si light new show ?thesis
          by (intro pushed [of it i]) (auto simp: give_def Let_def)
      qed
    qed
  qed
qed

lemma take_cases:
  obtains
    (refused) "inventory_take s k wl d n = (fst (storage s k wl), Err (Insufficient d n))"
  | (taken) i at st sl where "i = snd (storage s k wl)"
      "position (\<lambda>st. stack_def_id st = d) (slots i) = Some at" "st = slots i ! at"
      "n \<le> stack_count st" "sl = (slots i)[at := st\<lparr>stack_count := stack_count st - n\<rparr>]"
      "inventory_take s k wl d n = (put_storage (fst (storage s k wl)) k
         (i\<lparr>slots := (if stack_count st = n then filter (\<lambda>x. 0 < stack_count x) sl else sl)\<rparr>), Ok ())"
proof -
  obtain s1 i where si: "storage s k wl = (s1, i)" by (cases "storage s k wl")
  show ?thesis
  proof (cases "position (\<lambda>st. stack_def_id st = d) (slots i)")
    case None
    with si show ?thesis by (intro refused) (simp add: inventory_take_def)
  next
    case (Some at)
    show ?thesis
    proof (cases "stack_count (slots i ! at) < n")
      case True
      with si Some show ?thesis by (intro refused) (simp add: inventory_take_def)
    next
      case False
      with si Some show ?thesis
        by (intro taken [of i at "slots i ! at"]) (auto simp: inventory_take_def Let_def)
    qed
  qed
qed

lemma give_registry [simp]: "registry (fst (give s k wl d n)) = registry s"
  by (cases rule: give_cases [of s k wl d n]) auto

lemma take_registry [simp]: "registry (fst (inventory_take s k wl d n)) = registry s"
  by (cases rule: take_cases [of s k wl d n]) auto

lemma registry_def_id:
  "(\<forall>(j, it) \<in> set (registry s). def_id it = j) \<Longrightarrow> hm_get (registry s) d = Some it \<Longrightarrow> def_id it = d"
  by (auto dest: map_of_SomeD)

definition registry_wf :: "inventory_service \<Rightarrow> bool" where
  "registry_wf s \<longleftrightarrow> (\<forall>(j, it) \<in> set (registry s). def_id it = j)"

lemma give_stored:
  assumes "registry_wf s" and "snd (give s k wl d n) = Ok ()"
  shows "stored (fst (give s k wl d n)) k' d' = stored s k' d' + (if k' = k \<and> d' = d then n else 0)"
proof (cases rule: give_cases [of s k wl d n])
  case (merged it i at)
  then have "at < length (slots i)" "stack_def_id (slots i ! at) = d"
    using position_Some by fastforce+
  with merged show ?thesis
    by (auto simp: slot_sum_update stored_slots [of s k _ wl])
next
  case (pushed it i)
  then have "def_id it = d" using assms(1) registry_def_id by (auto simp: registry_wf_def)
  with pushed show ?thesis by (auto simp: stored_slots [of s k _ wl])
qed (use assms in auto)

lemma give_err_stored: "snd (give s k wl d n) = Err e \<Longrightarrow> stored (fst (give s k wl d n)) k' d' = stored s k' d'"
  by (cases rule: give_cases [of s k wl d n]) auto

lemma take_stored:
  assumes "snd (inventory_take s k wl d n) = Ok ()"
  shows "stored (fst (inventory_take s k wl d n)) k' d' = stored s k' d' - (if k' = k \<and> d' = d then n else 0)"
proof (cases rule: take_cases [of s k wl d n])
  case (taken i at st sl)
  then have "at < length (slots i)" "stack_def_id (slots i ! at) = d"
    using position_Some by fastforce+
  with taken show ?thesis
    by (auto simp: slot_sum_update stored_slots [of s k _ wl])
qed (use assms in auto)

lemma take_err_stored:
  "snd (inventory_take s k wl d n) = Err e \<Longrightarrow> stored (fst (inventory_take s k wl d n)) k' d' = stored s k' d'"
  by (cases rule: take_cases [of s k wl d n]) auto

lemma hm_wf_storage [simp]: "hm_wf (storages s) \<Longrightarrow> hm_wf (storages (fst (storage s k wl)))"
  by (simp add: storage_def Let_def)

lemma hm_wf_put [simp]: "hm_wf (storages s) \<Longrightarrow> hm_wf (storages (put_storage s k i))"
  by (simp add: put_storage_def)

lemma hm_wf_give [simp]: "hm_wf (storages s) \<Longrightarrow> hm_wf (storages (fst (give s k wl d n)))"
  by (cases rule: give_cases [of s k wl d n]) auto

lemma hm_wf_take [simp]: "hm_wf (storages s) \<Longrightarrow> hm_wf (storages (fst (inventory_take s k wl d n)))"
  by (cases rule: take_cases [of s k wl d n]) auto

lemma total_put:
  "hm_wf (storages s) \<Longrightarrow>
   total_stored d (put_storage s k i) = total_stored d s - stored s k d + slot_sum d (slots i)"
  using hm_sum_insert [of "storages s" "\<lambda>i. slot_sum d (slots i)" k i]
  by (auto simp: total_stored_def put_storage_def stored_def algebra_simps split: option.splits)

lemma total_storage [simp]:
  "hm_wf (storages s) \<Longrightarrow> total_stored d (fst (storage s k wl)) = total_stored d s"
  using total_put [of s d k "\<lparr>inv_kind = k, weight_limit = wl, slots = [], depth = 0\<rparr>"]
  by (auto simp: storage_def put_storage_def hm_or_insert_def Let_def stored_def split: option.splits)

lemma total_put_storage:
  "hm_wf (storages s) \<Longrightarrow>
   total_stored d (put_storage (fst (storage s k wl)) k i) = total_stored d s - stored s k d + slot_sum d (slots i)"
  by (simp add: total_put)

lemma stored_self_put: "slot_sum d (slots i) = stored (put_storage s k i) k d"
  by simp

text \<open>Items obey the same two-leg contract as money, in the group of 32-bit words.\<close>

interpretation item_legs: two_leg_store
  "\<lambda>s k n. inventory_take s k wl d n" "\<lambda>s k n. give s k wl d n"
  "total_stored d" "\<lambda>s. hm_wf (storages s) \<and> registry_wf s" for wl d
proof
  fix s s' k n e
  assume wf: "hm_wf (storages s) \<and> registry_wf s"
  show "inventory_take s k wl d n = (s', Ok ()) \<Longrightarrow> total_stored d s' = total_stored d s - n"
    using wf take_stored [of s k wl d n k d]
    by (cases rule: take_cases [of s k wl d n]) (auto simp: total_put_storage)
  show "inventory_take s k wl d n = (s', Err e) \<Longrightarrow> total_stored d s' = total_stored d s"
    using wf by (cases rule: take_cases [of s k wl d n]) auto
  show "give s k wl d n = (s', Ok ()) \<Longrightarrow> total_stored d s' = total_stored d s + n"
    using wf give_stored [of s k wl d n k d]
    by (cases rule: give_cases [of s k wl d n]) (auto simp: total_put_storage)
  show "give s k wl d n = (s', Err e) \<Longrightarrow> total_stored d s' = total_stored d s"
    using wf by (cases rule: give_cases [of s k wl d n]) auto
  show "hm_wf (storages (fst (inventory_take s k wl d n))) \<and> registry_wf (fst (inventory_take s k wl d n))"
    using wf by (simp add: registry_wf_def)
  show "hm_wf (storages (fst (give s k wl d n))) \<and> registry_wf (fst (give s k wl d n))"
    using wf by (simp add: registry_wf_def)
qed

section \<open>Consistency with the registry\<close>

text \<open>
  What the service keeps true while the registry stands: every slot agrees with its
  definition, a stackable item has one slot, and no storage is over its limit, where the weight
  is the true one, a natural number that does not wrap.
\<close>

definition weight_nat :: "item_stack list \<Rightarrow> nat" where
  "weight_nat sl = sum_list (map (\<lambda>st. unat (weight_per_unit st) * unat (stack_count st)) sl)"

definition slot_ok :: "(string, item) hmap \<Rightarrow> item_stack \<Rightarrow> bool" where
  "slot_ok reg st \<longleftrightarrow> (case hm_get reg (stack_def_id st) of
     None \<Rightarrow> False
   | Some it \<Rightarrow> weight_per_unit st = weight it \<and> stack_count st \<le> max_stack it)"

definition one_slot :: "(string, item) hmap \<Rightarrow> item_stack list \<Rightarrow> bool" where
  "one_slot reg sl \<longleftrightarrow> (\<forall>d it. hm_get reg d = Some it \<longrightarrow> stackable it \<longrightarrow>
     length (filter (\<lambda>st. stack_def_id st = d) sl) \<le> 1)"

definition inventory_ok :: "(string, item) hmap \<Rightarrow> inventory \<Rightarrow> bool" where
  "inventory_ok reg i \<longleftrightarrow> weight_nat (slots i) \<le> unat (weight_limit i) \<and>
     list_all (slot_ok reg) (slots i) \<and> one_slot reg (slots i)"

definition consistent :: "inventory_service \<Rightarrow> bool" where
  "consistent s \<longleftrightarrow> hm_wf (storages s) \<and> registry_wf s \<and>
     (\<forall>k i. hm_get (storages s) k = Some i \<longrightarrow> inventory_ok (registry s) i)"

lemma filter_update_same:
  "at < length sl \<Longrightarrow> P (sl ! at) = P x \<Longrightarrow> length (filter P (sl[at := x])) = length (filter P sl)"
  by (induction sl arbitrary: at) (auto split: nat.splits)

lemma one_slot_update:
  "at < length sl \<Longrightarrow> stack_def_id x = stack_def_id (sl ! at) \<Longrightarrow> one_slot reg (sl[at := x]) = one_slot reg sl"
  unfolding one_slot_def by (subst filter_update_same) auto

lemma length_filter_retain: "length (filter Q (filter P sl)) \<le> length (filter Q sl)"
  by (induction sl) auto

lemma one_slot_retain: "one_slot reg sl \<Longrightarrow> one_slot reg (filter P sl)"
  unfolding one_slot_def using length_filter_retain le_trans by blast

lemma one_slot_push:
  assumes "one_slot reg sl" and "hm_get reg d = Some it" and "stack_def_id st = d"
    and "stackable it \<Longrightarrow> position (\<lambda>st. stack_def_id st = d) sl = None"
  shows "one_slot reg (sl @ [st])"
  unfolding one_slot_def
proof (intro allI impI)
  fix d' it'
  assume it': "hm_get reg d' = Some it'" "stackable it'"
  show "length (filter (\<lambda>st. stack_def_id st = d') (sl @ [st])) \<le> 1"
  proof (cases "d' = d")
    case True
    with it' assms have "position (\<lambda>st. stack_def_id st = d) sl = None" by simp
    then have "filter (\<lambda>st. stack_def_id st = d) sl = []"
      by (simp add: position_None filter_empty_conv)
    with True assms(3) show ?thesis by simp
  next
    case False
    with it' assms(1,3) show ?thesis by (simp add: one_slot_def)
  qed
qed

lemma consistent_storage_ok:
  "consistent s \<Longrightarrow> inventory_ok (registry s) (snd (storage s k wl))"
  by (auto simp: consistent_def storage_def hm_get_or_def inventory_ok_def weight_nat_def
      one_slot_def Let_def split: option.splits)

lemma consistent_storage: "consistent s \<Longrightarrow> consistent (fst (storage s k wl))"
  unfolding consistent_def
proof (intro conjI allI impI)
  assume s: "hm_wf (storages s) \<and> registry_wf s \<and>
    (\<forall>k i. hm_get (storages s) k = Some i \<longrightarrow> inventory_ok (registry s) i)"
  then show "hm_wf (storages (fst (storage s k wl)))" "registry_wf (fst (storage s k wl))"
    by (simp_all add: registry_wf_def)
  fix k' i
  assume i: "hm_get (storages (fst (storage s k wl))) k' = Some i"
  show "inventory_ok (registry (fst (storage s k wl))) i"
  proof (cases "k' = k")
    case True
    with i have "i = snd (storage s k wl)" by (simp add: storage_get)
    with s show ?thesis by (simp add: consistent_storage_ok consistent_def)
  next
    case False
    with i s show ?thesis by simp
  qed
qed

lemma consistent_put:
  "consistent s \<Longrightarrow> inventory_ok (registry s) i \<Longrightarrow> consistent (put_storage s k i)"
  by (auto simp: consistent_def registry_wf_def)

lemma weight_nat_word: "of_nat (weight_nat sl) = sum_list (map stack_total_weight sl)"
  by (induction sl) (auto simp: weight_nat_def stack_total_weight_def)

lemma total_weight_exact:
  "weight_nat (slots i) < 2 ^ 32 \<Longrightarrow> unat (inventory_total_weight i) = weight_nat (slots i)"
  using weight_nat_word [of "slots i"]
  by (simp add: inventory_total_weight_def unat_of_nat_small flip: weight_nat_word)

lemma weight_nat_append [simp]: "weight_nat (sl @ sl') = weight_nat sl + weight_nat sl'"
  by (simp add: weight_nat_def)

lemma weight_nat_new [simp]: "weight_nat [item_stack_new it n] = unat (weight it) * unat n"
  by (simp add: weight_nat_def item_stack_new_def)

lemma weight_nat_retain [simp]: "weight_nat (filter (\<lambda>x. 0 < stack_count x) sl) = weight_nat sl"
  by (induction sl) (auto simp: weight_nat_def word_gt_0)

lemma weight_nat_update:
  "at < length sl \<Longrightarrow>
   weight_nat (sl[at := (sl ! at)\<lparr>stack_count := c\<rparr>])
     + unat (weight_per_unit (sl ! at)) * unat (stack_count (sl ! at))
   = weight_nat sl + unat (weight_per_unit (sl ! at)) * unat c"
  by (induction sl arbitrary: at) (auto simp: weight_nat_def split: nat.splits)

lemma weight_update:
  "at < length sl \<Longrightarrow>
   sum_list (map stack_total_weight (sl[at := (sl ! at)\<lparr>stack_count := c\<rparr>])) =
     sum_list (map stack_total_weight sl) + weight_per_unit (sl ! at) * (c - stack_count (sl ! at))"
  by (simp add: sum_list_map_update stack_total_weight_def algebra_simps)

lemma all_slots_update:
  "list_all P sl \<Longrightarrow> P x \<Longrightarrow> list_all P (sl[at := x])"
  using set_update_subset_insert [of sl at x] by (auto simp: list_all_iff)

lemma inventory_ok_slot:
  "inventory_ok reg i \<Longrightarrow> at < length (slots i) \<Longrightarrow> slot_ok reg (slots i ! at)"
  by (simp add: inventory_ok_def list_all_length)

text \<open>The weight check of a grant is exact when the sum it computes fits in 32 bits.\<close>

definition grant_fits :: "inventory_service \<Rightarrow> storage_kind \<Rightarrow> string \<Rightarrow> u32 \<Rightarrow> bool" where
  "grant_fits s k d n \<longleftrightarrow> (case hm_get (registry s) d of
     None \<Rightarrow> True
   | Some it \<Rightarrow>
       (case hm_get (storages s) k of None \<Rightarrow> 0 | Some i \<Rightarrow> weight_nat (slots i))
         + unat (weight it) * unat n < 2 ^ 32)"

lemma grant_fits_storage:
  "grant_fits s k d n \<Longrightarrow> hm_get (registry s) d = Some it \<Longrightarrow>
   weight_nat (slots (snd (storage s k wl))) + unat (weight it) * unat n < 2 ^ 32"
  by (auto simp: grant_fits_def storage_def hm_get_or_def weight_nat_def Let_def split: option.splits)

lemma weight_check_exact:
  assumes "weight_nat (slots i) + unat w * unat n < 2 ^ 32"
    and "inventory_total_weight i + w * n \<le> weight_limit i"
  shows "weight_nat (slots i) + unat w * unat n \<le> unat (weight_limit i)"
proof -
  have "inventory_total_weight i + w * n = of_nat (weight_nat (slots i) + unat w * unat n)"
    by (simp add: inventory_total_weight_def weight_nat_word)
  moreover have "unat (of_nat (weight_nat (slots i) + unat w * unat n) :: u32)
      = weight_nat (slots i) + unat w * unat n"
    using assms(1) by (intro unat_of_nat_small) simp
  ultimately have "unat (inventory_total_weight i + w * n) = weight_nat (slots i) + unat w * unat n"
    by simp
  then show ?thesis using assms(2) by (simp add: word_le_nat_alt)
qed

lemma give_consistent:
  assumes "consistent s" and "grant_fits s k d n"
  shows "consistent (fst (give s k wl d n))"
proof (cases rule: give_cases [of s k wl d n])
  case refused
  with assms consistent_storage show ?thesis by auto
next
  case (merged it i at)
  let ?st = "slots i ! at"
  have at: "at < length (slots i)" "stack_def_id ?st = d"
    using merged(4) position_Some by fastforce+
  have ok: "inventory_ok (registry s) i" using consistent_storage_ok [OF assms(1)] merged(2) by simp
  have "slot_ok (registry s) ?st" using ok at(1) by (rule inventory_ok_slot)
  then have w: "weight_per_unit ?st = weight it"
    and s': "slot_ok (registry s) (?st\<lparr>stack_count := stack_count ?st + n\<rparr>)"
    using at(2) merged(1,6) by (auto simp: slot_ok_def)
  have "weight_nat (slots i) + unat (weight it) * unat n \<le> unat (weight_limit i)"
    using grant_fits_storage [OF assms(2) merged(1)] merged(2,5) by (intro weight_check_exact) auto
  moreover have "unat (weight it) * unat (stack_count ?st + n)
      \<le> unat (weight it) * unat (stack_count ?st) + unat (weight it) * unat n"
    using mult_le_mono2 [OF unat_add_le [of "stack_count ?st" n], of "unat (weight it)"]
    by (simp add: algebra_simps)
  ultimately have "weight_nat ((slots i)[at := ?st\<lparr>stack_count := stack_count ?st + n\<rparr>])
      \<le> unat (weight_limit i)"
    using weight_nat_update [OF at(1), of "stack_count ?st + n"] w by simp
  then have "inventory_ok (registry s) (i\<lparr>slots := (slots i)[at := ?st\<lparr>stack_count := stack_count ?st + n\<rparr>]\<rparr>)"
    using ok s' at by (simp add: inventory_ok_def one_slot_update all_slots_update)
  then show ?thesis using assms merged(7) by (simp add: consistent_put consistent_storage)
next
  case (pushed it i)
  have ok: "inventory_ok (registry s) i" using consistent_storage_ok [OF assms(1)] pushed(2) by simp
  have d: "def_id it = d"
    using assms pushed(1) registry_def_id by (auto simp: consistent_def registry_wf_def)
  have "one_slot (registry s) (slots i @ [item_stack_new it n])"
    using ok pushed(1,3) d by (intro one_slot_push) (auto simp: inventory_ok_def item_stack_new_def)
  moreover have "weight_nat (slots i) + unat (weight it) * unat n \<le> unat (weight_limit i)"
    using grant_fits_storage [OF assms(2) pushed(1)] pushed(2,4) by (intro weight_check_exact) auto
  moreover have "slot_ok (registry s) (item_stack_new it n)"
    using pushed(1,5) d by (simp add: slot_ok_def item_stack_new_def)
  ultimately have "inventory_ok (registry s) (i\<lparr>slots := slots i @ [item_stack_new it n]\<rparr>)"
    using ok by (simp add: inventory_ok_def)
  then show ?thesis using assms pushed(6) by (simp add: consistent_put consistent_storage)
qed

lemma slot_ok_less:
  "slot_ok reg st \<Longrightarrow> n \<le> stack_count st \<Longrightarrow> slot_ok reg (st\<lparr>stack_count := stack_count st - n\<rparr>)"
  by (auto simp: slot_ok_def split: option.splits intro: order_trans [OF word_sub_le])

lemma take_consistent:
  assumes "consistent s"
  shows "consistent (fst (inventory_take s k wl d n))"
proof (cases rule: take_cases [of s k wl d n])
  case refused
  with assms consistent_storage show ?thesis by auto
next
  case (taken i at st sl)
  have at: "at < length (slots i)" using taken(2) position_Some by blast
  have ok: "inventory_ok (registry s) i" using consistent_storage_ok [OF assms] taken(1) by simp
  have s': "slot_ok (registry s) (st\<lparr>stack_count := stack_count st - n\<rparr>)"
    using inventory_ok_slot [OF ok at] taken(3,4) by (auto intro: slot_ok_less)
  have "unat (stack_count st - n) \<le> unat (stack_count st)"
    using taken(4) by (simp add: unat_sub word_le_nat_alt)
  then have "weight_nat sl \<le> weight_nat (slots i)"
    using weight_nat_update [OF at, of "stack_count st - n"] taken(3,5)
    by (metis (no_types, lifting) add_le_cancel_right add_le_mono le_refl mult_le_mono2)
  then have "inventory_ok (registry s) (i\<lparr>slots := sl\<rparr>)"
    using ok s' at taken(3,5) by (auto simp: inventory_ok_def one_slot_update all_slots_update)
  then have "inventory_ok (registry s)
      (i\<lparr>slots := (if stack_count st = n then filter (\<lambda>x. 0 < stack_count x) sl else sl)\<rparr>)"
    by (auto simp: inventory_ok_def one_slot_retain list_all_iff)
  then show ?thesis using assms taken(6) by (simp add: consistent_put consistent_storage)
qed

section \<open>Rolling a transfer back\<close>

lemma storage_present:
  "hm_get (storages s) k = Some i \<Longrightarrow> storage s k wl = (s, i)"
  by (simp add: storage_def hm_or_insert_def hm_get_or_def Let_def)

lemma one_slot_unique:
  assumes "one_slot reg sl" and "hm_get reg d = Some it" and "stackable it"
    and "x < length sl" "y < length sl" "stack_def_id (sl ! x) = d" "stack_def_id (sl ! y) = d"
  shows "x = y"
proof (rule ccontr)
  assume "x \<noteq> y"
  then have "card {x, y} = 2" by simp
  moreover have "{x, y} \<subseteq> {j. j < length sl \<and> stack_def_id (sl ! j) = d}"
    using assms(4-7) by auto
  then have "card {x, y} \<le> card {j. j < length sl \<and> stack_def_id (sl ! j) = d}"
    by (intro card_mono) auto
  moreover have "card {j. j < length sl \<and> stack_def_id (sl ! j) = d} \<le> 1"
    using assms(1-3) by (auto simp: one_slot_def length_filter_conv_card)
  ultimately show False by linarith
qed

text \<open>
  What was taken from a consistent storage fits back into it: the weights add up to what they
  were, and a stackable item finds its old slot or none.
\<close>

lemma give_back_ok:
  assumes "consistent s" and "inventory_take s k wl d n = (s2, Ok ())"
    and "hm_get (storages s3) k = hm_get (storages s2) k" and "registry s3 = registry s2"
  shows "snd (give s3 k wl d n) = Ok ()"
proof (cases rule: take_cases [of s k wl d n])
  case (taken i at st sl)
  define sl' where "sl' = (if stack_count st = n then filter (\<lambda>x. 0 < stack_count x) sl else sl)"
  have at: "at < length (slots i)" "stack_def_id st = d"
    using taken(2,3) position_Some by fastforce+
  have ok: "inventory_ok (registry s) i" using consistent_storage_ok [OF assms(1)] taken(1) by simp
  obtain it where it: "hm_get (registry s) d = Some it" "weight_per_unit st = weight it"
    "stack_count st \<le> max_stack it"
    using inventory_ok_slot [OF ok at(1)] at(2) taken(3) by (auto simp: slot_ok_def split: option.splits)
  have s2: "s2 = put_storage (fst (storage s k wl)) k (i\<lparr>slots := sl'\<rparr>)"
    using taken(6) assms(2) by (simp add: sl'_def)
  then have st3: "storage s3 k wl = (s3, i\<lparr>slots := sl'\<rparr>)" and reg3: "registry s3 = registry s"
    using assms(3,4) by (simp_all add: storage_present)
  have "sum_list (map stack_total_weight sl') + weight it * n = sum_list (map stack_total_weight (slots i))"
    using at(1) it(2) taken(3,5) by (simp add: sl'_def weight_update algebra_simps)
  moreover have "inventory_total_weight i \<le> weight_limit i"
    using ok total_weight_exact [of i] unsigned_less [of "weight_limit i", where 'a = nat]
    by (simp add: inventory_ok_def word_le_nat_alt)
  ultimately have light: "inventory_total_weight (i\<lparr>slots := sl'\<rparr>) + weight it * n \<le> weight_limit i"
    by (simp add: inventory_total_weight_def)
  have n: "n \<le> max_stack it" using taken(4) it(3) by (rule order_trans)
  have merge: "stack_count x + n \<le> max_stack it"
    if "stackable it" "x \<in> set sl'" "stack_def_id x = d" for x
  proof -
    have "x \<in> set sl" using that(2) by (auto simp: sl'_def split: if_splits)
    then obtain y where y: "y < length sl" "x = sl ! y" by (auto simp: in_set_conv_nth)
    have "one_slot (registry s) sl"
      using ok at(1) taken(3,5) by (simp add: inventory_ok_def one_slot_update)
    then have "y = at"
      using one_slot_unique [of "registry s" sl d it y at] it(1) that(1,3) y at taken(3,5)
      by simp
    then have "stack_count x + n = stack_count st" using y taken(3,5) at(1) by simp
    then show ?thesis using it(3) by simp
  qed
  show ?thesis
  proof (cases "position (\<lambda>st. stack_def_id st = d) sl'")
    case None
    then show ?thesis
      using st3 reg3 it(1) light n by (simp add: give_def Let_def not_less)
  next
    case (Some j)
    then have "sl' ! j \<in> set sl'" "stack_def_id (sl' ! j) = d" using position_Some by fastforce+
    then show ?thesis
      using Some st3 reg3 it(1) light n merge [of "sl' ! j"]
      by (cases "stackable it") (simp_all add: give_def Let_def leD)
  qed
qed (use assms(2) in auto)

lemma give_err_get:
  "snd (give s k wl d n) = Err e \<Longrightarrow> hm_get (storages s) k' = Some i \<Longrightarrow>
   hm_get (storages (fst (give s k wl d n))) k' = Some i"
  by (cases rule: give_cases [of s k wl d n]; cases "k' = k")
     (auto simp: storage_present)

lemma take_ok_get: "inventory_take s k wl d n = (s2, Ok ()) \<Longrightarrow> \<exists>i. hm_get (storages s2) k = Some i"
  by (cases rule: take_cases [of s k wl d n]) auto

lemma transfer_rollback:
  assumes "consistent s" and "inventory_take s from wl d n = (s2, Ok ())"
    and "give s2 to wl d n = (s3, Err e)"
  shows "snd (give s3 from wl d n) = Ok ()"
proof -
  obtain i where i: "hm_get (storages s2) from = Some i" using take_ok_get [OF assms(2)] by blast
  then have "hm_get (storages s3) from = Some i"
    using give_err_get [of s2 to wl d n e "from" i] assms(3) by simp
  moreover have "registry s3 = registry s2" using give_registry [of s2 to wl d n] assms(3) by simp
  ultimately show ?thesis using give_back_ok [OF assms(1,2), of s3] i by simp
qed

text \<open>The four ways a transfer ends.\<close>

lemma inventory_transfer_cases:
  obtains
    (deep) "inventory_transfer s from to wl d n = (fst (storage s to wl), Err NestingTooDeep)"
  | (short) s2 e where "inventory_take (fst (storage s to wl)) from wl d n = (s2, Err e)"
      "inventory_transfer s from to wl d n = (s2, Err e)"
  | (moved) s2 s3 where "inventory_take (fst (storage s to wl)) from wl d n = (s2, Ok ())"
      "give s2 to wl d n = (s3, Ok ())" "inventory_transfer s from to wl d n = (s3, Ok ())"
  | (rolled) s2 s3 e where "inventory_take (fst (storage s to wl)) from wl d n = (s2, Ok ())"
      "give s2 to wl d n = (s3, Err e)"
      "inventory_transfer s from to wl d n = (fst (give s3 from wl d n), Err e)"
proof -
  obtain s1 i where si: "storage s to wl = (s1, i)" by (cases "storage s to wl")
  obtain s2 r2 where t: "inventory_take s1 from wl d n = (s2, r2)"
    by (cases "inventory_take s1 from wl d n")
  obtain s3 r3 where g: "give s2 to wl d n = (s3, r3)" by (cases "give s2 to wl d n")
  show ?thesis
    using si t g deep short moved rolled
    by (cases "MAX_NESTING \<le> depth i"; cases r2; cases r3) (auto simp: inventory_transfer_def)
qed

lemma inventory_transfer_stored:
  assumes "consistent s"
  shows "stored (fst (inventory_transfer s from to wl d n)) k d' =
    (if snd (inventory_transfer s from to wl d n) = Ok () \<and> d' = d
     then stored s k d' - (if k = from then n else 0) + (if k = to then n else 0)
     else stored s k d')"
proof -
  have c1: "consistent (fst (storage s to wl))" using assms by (rule consistent_storage)
  then have wf1: "registry_wf (fst (storage s to wl))" by (simp add: consistent_def)
  show ?thesis
  proof (cases rule: inventory_transfer_cases [of s "from" to wl d n])
    case (short s2 e)
    then show ?thesis using take_err_stored [of "fst (storage s to wl)" "from" wl d n e k d'] by simp
  next
    case (moved s2 s3)
    have "registry_wf s2"
      using wf1 take_registry [of "fst (storage s to wl)" "from" wl d n] moved(1) by (simp add: registry_wf_def)
    then show ?thesis
      using take_stored [of "fst (storage s to wl)" "from" wl d n k d'] give_stored [of s2 to wl d n k d'] moved
      by auto
  next
    case (rolled s2 s3 e)
    have r2: "registry s2 = registry s"
      using take_registry [of "fst (storage s to wl)" "from" wl d n] rolled(1) by simp
    moreover have "registry s3 = registry s2" using give_registry [of s2 to wl d n] rolled(2) by simp
    ultimately have "registry_wf s3" using wf1 by (simp add: registry_wf_def)
    then show ?thesis
      using take_stored [of "fst (storage s to wl)" "from" wl d n k d'] rolled
        give_err_stored [of s2 to wl d n e k d'] give_stored [of s3 "from" wl d n k d']
        transfer_rollback [OF c1 rolled(1,2)]
      by auto
  qed auto
qed

lemma inventory_transfer_registry [simp]: "registry (fst (inventory_transfer s from to wl d n)) = registry s"
proof (cases rule: inventory_transfer_cases [of s "from" to wl d n])
  case (rolled s2 s3 e)
  then show ?thesis
    using take_registry [of "fst (storage s to wl)" "from" wl d n] give_registry [of s2 to wl d n] by simp
next
  case (moved s2 s3)
  then show ?thesis
    using take_registry [of "fst (storage s to wl)" "from" wl d n] give_registry [of s2 to wl d n] by simp
next
  case (short s2 e)
  then show ?thesis using take_registry [of "fst (storage s to wl)" "from" wl d n] by simp
qed simp

section \<open>Properties\<close>

text \<open>
  C5. No item is lost or duplicated by a transfer between consistent storages: an accepted
  transfer moves exactly the count from the source to the destination and nothing else; a
  refused one (nesting, missing items, weight or stack limit at the destination) leaves the
  units of every item in every storage as they were, because the rollback cannot fail.
\<close>

theorem inventory_transfer_no_loss:
  assumes "consistent s"
  shows "stored (fst (inventory_transfer s from to wl d n)) k d' =
    (if snd (inventory_transfer s from to wl d n) = Ok () \<and> d' = d
     then stored s k d' - (if k = from then n else 0) + (if k = to then n else 0)
     else stored s k d')"
  using assms by (rule inventory_transfer_stored)

definition demo_item :: item where
  "demo_item = \<lparr>def_id = ''ald:water'', item_name = ''Water'', weight = 500, stackable = True,
     max_stack = 10, has_durability = False\<rparr>"

definition demo_slot :: "u32 \<Rightarrow> item_stack" where
  "demo_slot n = \<lparr>stack_def_id = ''ald:water'', stack_count = n, weight_per_unit = 500, durability = None\<rparr>"

definition demo_inventory :: inventory_service where
  "demo_inventory = \<lparr>registry = [(''ald:water'', demo_item)],
     storages = [(PlayerStorage 1, \<lparr>inv_kind = PlayerStorage 1, weight_limit = 5000, slots = [demo_slot 6], depth = 0\<rparr>),
                 (Vehicle 7, \<lparr>inv_kind = Vehicle 7, weight_limit = 1000, slots = [], depth = 0\<rparr>)]\<rparr>"

lemmas demo_inventory_defs = demo_inventory_def demo_item_def demo_slot_def

lemmas inventory_eval = inventory_transfer_def inventory_take_def give_def storage_def put_storage_def
  hm_or_insert_def hm_get_or_def inventory_total_weight_def stack_total_weight_def item_stack_new_def
  MAX_NESTING_def stored_def slot_sum_def Let_def

lemma demo_inventory_consistent: "consistent demo_inventory"
  by (auto simp: consistent_def demo_inventory_defs hm_wf_def registry_wf_def inventory_ok_def
      weight_nat_def slot_ok_def one_slot_def split: if_splits)

theorem inventory_transfer_no_loss_witness:
  "consistent demo_inventory \<and>
   snd (inventory_transfer demo_inventory (PlayerStorage 1) (Vehicle 7) 5000 ''ald:water'' 3)
     = Err (OverWeight 1500 1500 1000) \<and>
   stored (fst (inventory_transfer demo_inventory (PlayerStorage 1) (Vehicle 7) 5000 ''ald:water'' 3))
     (PlayerStorage 1) ''ald:water'' = 6"
proof -
  have err: "snd (inventory_transfer demo_inventory (PlayerStorage 1) (Vehicle 7) 5000 ''ald:water'' 3)
     = Err (OverWeight 1500 1500 1000)"
    by (simp add: demo_inventory_defs inventory_eval)
  have "stored demo_inventory (PlayerStorage 1) ''ald:water'' = 6"
    by (simp add: demo_inventory_defs stored_def slot_sum_def)
  with err inventory_transfer_no_loss [OF demo_inventory_consistent, of "PlayerStorage 1" "Vehicle 7"
      5000 "''ald:water''" 3 "PlayerStorage 1" "''ald:water''"]
  show ?thesis by (simp add: demo_inventory_consistent)
qed

text \<open>
  C6. The limits are enforced: a grant whose computed weight fits in 32 bits keeps the service
  consistent (every storage's true weight within its limit, every slot within its stack limit,
  one slot per stackable item), and a removal always does.
\<close>

theorem limits_enforced:
  assumes "consistent s" and "grant_fits s k d n"
  shows "consistent (fst (give s k wl d n)) \<and> consistent (fst (inventory_take s k' wl' d' n'))"
  using give_consistent [OF assms] take_consistent [OF assms(1)] by blast

theorem limits_enforced_witness:
  "consistent demo_inventory \<and> grant_fits demo_inventory (Vehicle 7) ''ald:water'' 2 \<and>
   snd (give demo_inventory (Vehicle 7) 1000 ''ald:water'' 2) = Ok () \<and>
   consistent (fst (give demo_inventory (Vehicle 7) 1000 ''ald:water'' 2))"
proof -
  have "grant_fits demo_inventory (Vehicle 7) ''ald:water'' 2"
    by (simp add: grant_fits_def demo_inventory_defs weight_nat_def)
  moreover have "snd (give demo_inventory (Vehicle 7) 1000 ''ald:water'' 2) = Ok ()"
    by (simp add: demo_inventory_defs inventory_eval)
  ultimately show ?thesis
    using limits_enforced [OF demo_inventory_consistent, of "Vehicle 7" "''ald:water''" 2 1000]
    by (simp add: demo_inventory_consistent)
qed

text \<open>
  Without that bound the weight check can be passed by wrap-around: two units of an item of
  \<open>2 ^ 31\<close> grams have a computed weight of zero and are granted into a storage that carries
  ten grams.
\<close>

definition heavy_service :: inventory_service where
  "heavy_service = inventory_register inventory_new
     \<lparr>def_id = ''safe'', item_name = ''Safe'', weight = 2147483648, stackable = True,
      max_stack = 10, has_durability = False\<rparr>"

lemma weight_check_wraps:
  "snd (give heavy_service (Vehicle 1) 10 ''safe'' 2) = Ok () \<and>
   \<not> consistent (fst (give heavy_service (Vehicle 1) 10 ''safe'' 2)) \<and>
   (\<exists>i. hm_get (storages (fst (give heavy_service (Vehicle 1) 10 ''safe'' 2))) (Vehicle 1) = Some i \<and>
        weight_nat (slots i) = 4294967296 \<and> unat (weight_limit i) = 10)"
  by (simp add: heavy_service_def inventory_register_def inventory_new_def inventory_eval
      consistent_def inventory_ok_def weight_nat_def)

text \<open>
  The rollback relies on the registry: after an item has been registered again with a
  smaller stack limit, a transfer refused at the destination cannot put the units back, and
  they are gone.
\<close>

lemma reregister_loses_items:
  "let s = inventory_register demo_inventory (demo_item\<lparr>max_stack := 2\<rparr>);
       r = inventory_transfer s (PlayerStorage 1) (Vehicle 7) 5000 ''ald:water'' 3
   in snd r = Err (OverWeight 1500 1500 1000) \<and>
      stored s (PlayerStorage 1) ''ald:water'' = 6 \<and>
      stored (fst r) (PlayerStorage 1) ''ald:water'' = 3 \<and>
      total_stored ''ald:water'' (fst r) = 3"
  by (simp add: demo_inventory_defs inventory_register_def inventory_eval total_stored_def)

end
