(* ===== verification/Core.thy ===== *)
theory Core
  imports Prelude
begin

text \<open>
  The types of \<open>crates/ald-core\<close> that the other crates share: the unified error type and the
  generation-checked entity id.
\<close>

datatype ald_error =
    Io string
  | ParseError string
  | Config string
  | Protocol string
  | Resource string
  | Identity string
  | EntitlementUnknown
  | RpcTimeout
  | NotFound string
  | CapabilityDenied string
  | InvalidArgument string
  | Network string
  | Other string

text \<open>\<open>Display\<close> of the error, from its \<open>#[error(...)]\<close> attributes.\<close>

fun ald_error_to_string :: "ald_error \<Rightarrow> string" where
  "ald_error_to_string (Io m) = ''io error: '' @ m"
| "ald_error_to_string (ParseError m) = ''parse error: '' @ m"
| "ald_error_to_string (Config m) = ''config error: '' @ m"
| "ald_error_to_string (Protocol m) = ''protocol error: '' @ m"
| "ald_error_to_string (Resource m) = ''resource error: '' @ m"
| "ald_error_to_string (Identity m) = ''identity error: '' @ m"
| "ald_error_to_string EntitlementUnknown = ''entitlement provider unavailable''"
| "ald_error_to_string RpcTimeout = ''rpc timeout''"
| "ald_error_to_string (NotFound m) = ''not found: '' @ m"
| "ald_error_to_string (CapabilityDenied m) = ''capability denied: '' @ m"
| "ald_error_to_string (InvalidArgument m) = ''invalid argument: '' @ m"
| "ald_error_to_string (Network m) = ''network error: '' @ m"
| "ald_error_to_string (Other m) = ''other: '' @ m"

record entity_id =
  eid_index :: u32
  eid_generation :: u32

definition entity_id_new :: "u32 \<Rightarrow> u32 \<Rightarrow> entity_id" where
  "entity_id_new i g = \<lparr>eid_index = i, eid_generation = g\<rparr>"

end
