(* ===== verification/Packet.thy ===== *)
theory Packet
  imports Core
begin

text \<open>
  The wire framing of AstraNet (\<open>crates/ald-protocol/src/packet.rs\<close>, \<open>channel.rs\<close>): the
  32-byte little-endian header with its logical channel, followed by the payload. Lengths are
  natural numbers; \<open>len() as u32\<close> is the truncating \<open>of_nat\<close>.
\<close>

section \<open>Model\<close>

datatype channel =
    Control
  | Auth
  | EventReliable
  | EventUnreliable
  | EntityState
  | ResourceTransfer
  | Admin
  | Heartbeat
  | VoiceMetadata

text \<open>The discriminants of \<open>#[repr(u8)]\<close>, which \<open>channel as u8\<close> reads.\<close>

fun channel_to_u8 :: "channel \<Rightarrow> u8" where
  "channel_to_u8 Control = 0"
| "channel_to_u8 Auth = 1"
| "channel_to_u8 EventReliable = 2"
| "channel_to_u8 EventUnreliable = 3"
| "channel_to_u8 EntityState = 4"
| "channel_to_u8 ResourceTransfer = 5"
| "channel_to_u8 Admin = 6"
| "channel_to_u8 Heartbeat = 7"
| "channel_to_u8 VoiceMetadata = 8"

definition channel_from_u8 :: "u8 \<Rightarrow> channel option" where
  "channel_from_u8 v =
     (if v = 0 then Some Control
      else if v = 1 then Some Auth
      else if v = 2 then Some EventReliable
      else if v = 3 then Some EventUnreliable
      else if v = 4 then Some EntityState
      else if v = 5 then Some ResourceTransfer
      else if v = 6 then Some Admin
      else if v = 7 then Some Heartbeat
      else if v = 8 then Some VoiceMetadata
      else None)"

definition is_unreliable :: "channel \<Rightarrow> bool" where
  "is_unreliable c = (c \<in> {EventUnreliable, EntityState, VoiceMetadata})"

definition PROTOCOL_VERSION :: u16 where
  "PROTOCOL_VERSION = 1"

definition MAX_PAYLOAD :: u32 where
  "MAX_PAYLOAD = 16 * 1024 * 1024"

definition HEADER_LEN :: nat where
  "HEADER_LEN = 32"

definition FLAG_RELIABLE :: u8 where
  "FLAG_RELIABLE = 1"

definition FLAG_ORDERED :: u8 where
  "FLAG_ORDERED = 2"

record packet_header =
  protocol_version :: u16
  session_id :: u64
  channel :: channel
  sequence :: u32
  tick :: u32
  timestamp_ms :: u64
  flags :: u8
  payload_len :: u32

record packet =
  header :: packet_header
  payload :: bytes

definition encode_packet :: "packet \<Rightarrow> (bytes, ald_error) result" where
  "encode_packet p =
     (if of_nat (length (payload p)) \<noteq> payload_len (header p)
        then Err (Protocol ''payload_len mismatch'')
      else if MAX_PAYLOAD < payload_len (header p)
        then Err (Protocol ''payload exceeds MAX_PAYLOAD'')
      else Ok (le_enc 2 (protocol_version (header p))
             @ le_enc 8 (session_id (header p))
             @ [channel_to_u8 (channel (header p))]
             @ le_enc 4 (sequence (header p))
             @ le_enc 4 (tick (header p))
             @ le_enc 8 (timestamp_ms (header p))
             @ [flags (header p)]
             @ le_enc 4 (payload_len (header p))
             @ payload p))"

text \<open>\<open>bytes[a..b]\<close>, read only where the length check has made it defined.\<close>

definition slice :: "nat \<Rightarrow> nat \<Rightarrow> bytes \<Rightarrow> bytes" where
  "slice a b bs = take (b - a) (drop a bs)"

definition decode_packet :: "bytes \<Rightarrow> u16 \<Rightarrow> (packet, ald_error) result" where
  "decode_packet bs expected_version =
     (if length bs < HEADER_LEN then Err (Protocol ''packet shorter than header'')
      else
        let version = le_dec (slice 0 2 bs) :: u16 in
        if version \<noteq> expected_version
          then Err (Protocol (''protocol version mismatch: got '' @ show_nat (unat version)
                 @ '', want '' @ show_nat (unat expected_version)))
        else
          let sid = le_dec (slice 2 10 bs) :: u64 in
          case channel_from_u8 (bs ! 10) of
            None \<Rightarrow> Err (Protocol ''invalid channel'')
          | Some ch \<Rightarrow>
              let sq = le_dec (slice 11 15 bs) :: u32;
                  tk = le_dec (slice 15 19 bs) :: u32;
                  ts = le_dec (slice 19 27 bs) :: u64;
                  fl = bs ! 27;
                  pl = le_dec (slice 28 32 bs) :: u32 in
              if MAX_PAYLOAD < pl then Err (Protocol ''declared payload exceeds MAX_PAYLOAD'')
              else
                let total = HEADER_LEN + unat pl in
                if length bs \<noteq> total
                  then Err (Protocol (''packet length '' @ show_nat (length bs) @ '' != header ''
                         @ show_nat HEADER_LEN @ '' + payload '' @ show_nat (unat pl)))
                else Ok \<lparr>header = \<lparr>protocol_version = version, session_id = sid, channel = ch,
                             sequence = sq, tick = tk, timestamp_ms = ts, flags = fl,
                             payload_len = pl\<rparr>,
                         payload = slice HEADER_LEN total bs\<rparr>)"

section \<open>Lemmas\<close>

lemma channel_from_to [simp]: "channel_from_u8 (channel_to_u8 c) = Some c"
  by (cases c) (simp_all add: channel_from_u8_def)

lemma channel_to_from: "channel_from_u8 v = Some c \<Longrightarrow> channel_to_u8 c = v"
  by (auto simp: channel_from_u8_def split: if_splits)

lemma length_slice [simp]: "a \<le> b \<Longrightarrow> b \<le> length bs \<Longrightarrow> length (slice a b bs) = b - a"
  by (simp add: slice_def)

lemma slice_append: "a \<le> b \<Longrightarrow> b \<le> c \<Longrightarrow> slice a b bs @ slice b c bs = slice a c bs"
proof -
  assume "a \<le> b" "b \<le> c"
  then obtain m n where "b = a + m" "c = b + n" by (auto simp: le_iff_add)
  then show ?thesis by (simp add: slice_def take_add add.commute)
qed

lemma slice_all: "slice 0 (length bs) bs = bs"
  by (simp add: slice_def)

lemma slice_single: "i < length bs \<Longrightarrow> [bs ! i] = slice i (Suc i) bs"
  by (simp add: slice_def take_Suc hd_drop_conv_nth drop_eq_Nil)

lemma le_enc_slice:
  "length bs = n \<Longrightarrow> 8 * n \<le> LENGTH('a) \<Longrightarrow> le_enc n (le_dec bs :: 'a::len word) = bs"
  using le_enc_dec [of bs, where 'a = 'a] by simp

text \<open>Which packets the encoder can put on the wire so that a receiver of that version reads them.\<close>

definition packet_ok :: "u16 \<Rightarrow> packet \<Rightarrow> bool" where
  "packet_ok v p \<longleftrightarrow> protocol_version (header p) = v \<and> length (payload p) < 2 ^ 32"

lemma packet_payload_len:
  assumes "length (payload p) < 2 ^ 32" and "of_nat (length (payload p)) = payload_len (header p)"
  shows "unat (payload_len (header p)) = length (payload p)"
  using assms unat_of_nat_small [of "length (payload p)", where 'a = 32] by simp

lemma decode_encode_packet:
  assumes "packet_ok v p" and "encode_packet p = Ok bs"
  shows "decode_packet bs v = Ok p"
proof -
  have pl: "unat (payload_len (header p)) = length (payload p)"
    and small: "\<not> MAX_PAYLOAD < payload_len (header p)"
    using assms packet_payload_len by (auto simp: encode_packet_def packet_ok_def split: if_splits)
  have bs: "bs = le_enc 2 (protocol_version (header p)) @ le_enc 8 (session_id (header p))
      @ [channel_to_u8 (channel (header p))] @ le_enc 4 (sequence (header p))
      @ le_enc 4 (tick (header p)) @ le_enc 8 (timestamp_ms (header p)) @ [flags (header p)]
      @ le_enc 4 (payload_len (header p)) @ payload p"
    using assms(2) by (simp add: encode_packet_def split: if_splits)
  have "length bs = 32 + length (payload p)" by (simp add: bs)
  moreover have "slice 0 2 bs = le_enc 2 (protocol_version (header p))"
    "slice 2 10 bs = le_enc 8 (session_id (header p))"
    "slice 11 15 bs = le_enc 4 (sequence (header p))"
    "slice 15 19 bs = le_enc 4 (tick (header p))"
    "slice 19 27 bs = le_enc 8 (timestamp_ms (header p))"
    "slice 28 32 bs = le_enc 4 (payload_len (header p))"
    "slice 32 (32 + length (payload p)) bs = payload p"
    by (simp_all add: bs slice_def)
  moreover have "bs ! 10 = channel_to_u8 (channel (header p))" "bs ! 27 = flags (header p)"
    by (simp_all add: bs nth_append)
  ultimately show ?thesis
    using assms(1) pl small
    by (simp add: decode_packet_def packet_ok_def HEADER_LEN_def le_dec_enc_id Let_def)
qed

lemma decode_packet_OkD:
  assumes "decode_packet bs v = Ok p"
  shows "32 \<le> length bs" "protocol_version (header p) = v" "\<not> MAX_PAYLOAD < payload_len (header p)"
    "length bs = 32 + unat (payload_len (header p))"
    "protocol_version (header p) = le_dec (slice 0 2 bs)" "session_id (header p) = le_dec (slice 2 10 bs)"
    "channel_from_u8 (bs ! 10) = Some (channel (header p))" "sequence (header p) = le_dec (slice 11 15 bs)"
    "tick (header p) = le_dec (slice 15 19 bs)" "timestamp_ms (header p) = le_dec (slice 19 27 bs)"
    "flags (header p) = bs ! 27" "payload_len (header p) = le_dec (slice 28 32 bs)"
    "payload p = slice 32 (length bs) bs"
  using assms by (auto simp: decode_packet_def HEADER_LEN_def Let_def split: if_splits option.splits)

lemma packet_slices:
  assumes "32 \<le> length bs"
  shows "slice 0 2 bs @ slice 2 10 bs @ [bs ! 10] @ slice 11 15 bs @ slice 15 19 bs @ slice 19 27 bs
      @ [bs ! 27] @ slice 28 32 bs @ slice 32 (length bs) bs = bs"
proof -
  have "[bs ! 10] = slice 10 11 bs" "[bs ! 27] = slice 27 28 bs"
    using assms by (simp_all add: slice_single)
  then show ?thesis
    using assms by (simp add: slice_append slice_all)
qed

lemma encode_decode_packet:
  assumes "decode_packet bs v = Ok p"
  shows "encode_packet p = Ok bs"
proof -
  note d = decode_packet_OkD [OF assms]
  have "length (payload p) = unat (payload_len (header p))" using d(1,4,13) by simp
  moreover have "le_enc 2 (protocol_version (header p)) = slice 0 2 bs"
    "le_enc 8 (session_id (header p)) = slice 2 10 bs"
    "le_enc 4 (sequence (header p)) = slice 11 15 bs"
    "le_enc 4 (tick (header p)) = slice 15 19 bs"
    "le_enc 8 (timestamp_ms (header p)) = slice 19 27 bs"
    "le_enc 4 (payload_len (header p)) = slice 28 32 bs"
    unfolding d(5,6,8,9,10,12) using d(1) by (simp_all add: le_enc_slice)
  ultimately show ?thesis
    using packet_slices [OF d(1)] d(3) channel_to_from [OF d(7)]
    by (simp add: encode_packet_def flip: d(11,13))
qed

lemma decode_packet_ok: "decode_packet bs v = Ok p \<Longrightarrow> packet_ok v p"
  using decode_packet_OkD [of bs v p] unsigned_less [of "payload_len (header p)", where 'a = nat]
  by (simp add: packet_ok_def)

interpretation packet_codec: strict_codec encode_packet "\<lambda>bs. decode_packet bs v" "packet_ok v" for v
  by unfold_locales (blast intro: decode_encode_packet encode_decode_packet decode_packet_ok)+

section \<open>Properties\<close>

definition demo_packet :: packet where
  "demo_packet = \<lparr>header = \<lparr>protocol_version = 1, session_id = 0x1122334455667788, channel = EventReliable,
     sequence = 42, tick = 7, timestamp_ms = 1000, flags = 3, payload_len = 2\<rparr>, payload = [0xAB, 0xCD]\<rparr>"

text \<open>
  C10. Packets survive the wire and the decoder is strict: it accepts a byte string exactly when the string is the encoding
  of the packet it returns, and then the string is the header plus at most 16 MiB of payload, of
  the declared length. No two byte strings decode to the same packet.
\<close>

theorem packet_decode_strict:
  "(decode_packet bs v = Ok p \<longleftrightarrow> packet_ok v p \<and> encode_packet p = Ok bs) \<and>
   (decode_packet bs v = Ok p \<longrightarrow>
      length bs = HEADER_LEN + length (payload p) \<and> length (payload p) \<le> 16 * 1024 * 1024 \<and>
      unat (payload_len (header p)) = length (payload p))"
proof (intro conjI impI)
  show "decode_packet bs v = Ok p \<longleftrightarrow> packet_ok v p \<and> encode_packet p = Ok bs"
    using packet_codec.dec_iff_enc packet_codec.dec_valid by blast
next
  assume "decode_packet bs v = Ok p"
  note d = decode_packet_OkD [OF this]
  from d(1,4,13) show "unat (payload_len (header p)) = length (payload p)" by simp
  with d(4) show "length bs = HEADER_LEN + length (payload p)" by (simp add: HEADER_LEN_def)
  from \<open>unat _ = _\<close> d(3) show "length (payload p) \<le> 16 * 1024 * 1024"
    by (simp add: MAX_PAYLOAD_def not_less word_le_nat_alt)
qed

theorem packet_decode_strict_witness:
  "\<exists>bs. decode_packet bs 1 = Ok demo_packet \<and> length bs = HEADER_LEN + length (payload demo_packet)"
proof -
  have "packet_ok 1 demo_packet" by (simp add: packet_ok_def demo_packet_def)
  moreover obtain bs where "encode_packet demo_packet = Ok bs"
    by (simp add: encode_packet_def demo_packet_def MAX_PAYLOAD_def)
  ultimately show ?thesis using packet_decode_strict [of bs 1 demo_packet] by blast
qed

end
