(* ===== verification/Msgpack.thy ===== *)
theory Msgpack
  imports Core
begin

text \<open>
  The Citizen-compatible MessagePack codec (\<open>crates/ald-serialization-compat\<close>). Floats are
  their bit patterns (\<open>f64\<close> as \<open>u64\<close>, \<open>f32\<close> as \<open>u32\<close>), an \<open>i64\<close> is a 64-bit word read
  with \<open>sint\<close>, a \<open>String\<close> is its UTF-8 bytes. The decoder's cursor is the unread suffix of
  the buffer. \<open>read_value\<close> recurses into arrays and maps, so it takes fuel for the nesting depth;
  \<open>unpack\<close> supplies one unit per input byte, which is always enough because every nested
  value consumes at least one byte.
\<close>

section \<open>Values\<close>

definition FUNCREF :: u8 where "FUNCREF = 10"
definition LOCAL_FUNCREF :: u8 where "LOCAL_FUNCREF = 11"
definition VECTOR2 :: u8 where "VECTOR2 = 20"
definition VECTOR3 :: u8 where "VECTOR3 = 21"
definition VECTOR4 :: u8 where "VECTOR4 = 22"
definition QUATERNION :: u8 where "QUATERNION = 23"

lemmas ext_tags = VECTOR2_def VECTOR3_def VECTOR4_def QUATERNION_def

datatype cfx_value =
    CNil
  | CBool bool
  | CInt u64
  | CFloat u64
  | CStr bytes
  | CBin bytes
  | CArray "cfx_value list"
  | CMap "(cfx_value \<times> cfx_value) list"
  | CVector2 u32 u32
  | CVector3 u32 u32 u32
  | CVector4 u32 u32 u32 u32
  | CQuat u32 u32 u32 u32
  | CExt u8 bytes

fun is_nil :: "cfx_value \<Rightarrow> bool" where
  "is_nil CNil = True"
| "is_nil _ = False"

fun is_vector :: "cfx_value \<Rightarrow> bool" where
  "is_vector (CVector2 _ _) = True"
| "is_vector (CVector3 _ _ _) = True"
| "is_vector (CVector4 _ _ _ _) = True"
| "is_vector (CQuat _ _ _ _) = True"
| "is_vector _ = False"

fun components :: "cfx_value \<Rightarrow> nat" where
  "components (CVector2 _ _) = 2"
| "components (CVector3 _ _ _) = 3"
| "components (CVector4 _ _ _ _) = 4"
| "components (CQuat _ _ _ _) = 4"
| "components _ = 0"

section \<open>Encoder\<close>

text \<open>
  \<open>n.to_be_bytes()\<close> of the \<open>i64\<close> itself is eight bytes, also under the 16- and 32-bit tags;
  the signed branches narrow with \<open>as i16\<close> and \<open>as i32\<close> first.
\<close>

definition write_int :: "u64 \<Rightarrow> bytes" where
  "write_int n =
     (if 0 \<le> sint n \<and> sint n \<le> 127 then [ucast n]
      else if 0 \<le> sint n \<and> sint n \<le> 255 then [0xCC, ucast n]
      else if 0 \<le> sint n \<and> sint n \<le> 65535 then 0xCD # be_enc 8 n
      else if 0 \<le> sint n \<and> sint n \<le> 4294967295 then 0xCE # be_enc 8 n
      else if 0 \<le> sint n then 0xCF # be_enc 8 n
      else if - 128 \<le> sint n \<and> sint n \<le> 0 then
        (if - 32 \<le> sint n then [ucast n] else [0xD0, ucast n])
      else if - 32768 \<le> sint n \<and> sint n \<le> 32767 then 0xD1 # be_enc 2 (ucast n :: u16)
      else if - 2147483648 \<le> sint n \<and> sint n \<le> 2147483647 then 0xD2 # be_enc 4 (ucast n :: u32)
      else 0xD3 # be_enc 8 n)"

definition write_str :: "bytes \<Rightarrow> bytes" where
  "write_str b =
     (if length b < 32 then [0xA0 OR of_nat (length b)]
      else if length b \<le> 255 then [0xD9, of_nat (length b)]
      else if length b \<le> 65535 then 0xDA # be_enc 2 (of_nat (length b) :: u16)
      else 0xDB # be_enc 4 (of_nat (length b) :: u32)) @ b"

definition write_bin :: "bytes \<Rightarrow> bytes" where
  "write_bin b =
     (if length b \<le> 255 then [0xC4, of_nat (length b)]
      else if length b \<le> 65535 then 0xC5 # be_enc 2 (of_nat (length b) :: u16)
      else 0xC6 # be_enc 4 (of_nat (length b) :: u32)) @ b"

definition array_head :: "nat \<Rightarrow> bytes" where
  "array_head n =
     (if n < 16 then [0x90 OR of_nat n]
      else if n \<le> 65535 then 0xDC # be_enc 2 (of_nat n :: u16)
      else 0xDD # be_enc 4 (of_nat n :: u32))"

definition map_head :: "nat \<Rightarrow> bytes" where
  "map_head n =
     (if n < 16 then [0x80 OR of_nat n]
      else if n \<le> 65535 then 0xDE # be_enc 2 (of_nat n :: u16)
      else 0xDF # be_enc 4 (of_nat n :: u32))"

definition write_vector :: "u8 \<Rightarrow> u32 list \<Rightarrow> bytes" where
  "write_vector tag comps =
     (let n = length comps * 4 in
      (if n \<le> 255 then [0xC7, of_nat n]
       else if n \<le> 65535 then 0xC8 # be_enc 2 (of_nat n :: u16)
       else 0xC9 # be_enc 4 (of_nat n :: u32))
      @ [tag] @ concat (map (be_enc 4) comps))"

definition write_ext :: "u8 \<Rightarrow> bytes \<Rightarrow> (bytes, ald_error) result" where
  "write_ext tag b =
     (let n = length b;
          finish = (\<lambda>h. Ok (h @ [tag] @ b)) in
      if n = 1 then finish [0xD4]
      else if n = 2 then finish [0xD5]
      else if n = 4 then finish [0xD6]
      else if n = 8 then finish [0xD7]
      else if n = 16 then finish [0xD8]
      else if n \<le> 255 then finish [0xC7, of_nat n]
      else if n \<le> 65535 then finish (0xC8 # be_enc 2 (of_nat n :: u16))
      else if n \<le> 4294967295 then finish (0xC9 # be_enc 4 (of_nat n :: u32))
      else Err (Protocol ''ext payload exceeds 4GiB''))"

text \<open>The writers append to \<open>out\<close>; here they return what they append, or the error.\<close>

fun write_seq :: "(bytes, 'e) result \<Rightarrow> (bytes, 'e) result \<Rightarrow> (bytes, 'e) result" where
  "write_seq (Inl e) _ = Inl e"
| "write_seq (Inr a) (Inl e) = Inl e"
| "write_seq (Inr a) (Inr b) = Inr (a @ b)"

function (sequential) write_value :: "cfx_value \<Rightarrow> (bytes, ald_error) result"
  and write_items :: "cfx_value list \<Rightarrow> (bytes, ald_error) result"
  and write_entries :: "(cfx_value \<times> cfx_value) list \<Rightarrow> (bytes, ald_error) result" where
  "write_value CNil = Ok [0xC0]"
| "write_value (CBool b) = Ok [if b then 0xC3 else 0xC2]"
| "write_value (CInt n) = Ok (write_int n)"
| "write_value (CFloat f) = Ok (0xCB # be_enc 8 f)"
| "write_value (CStr s) = Ok (write_str s)"
| "write_value (CBin b) = Ok (write_bin b)"
| "write_value (CArray items) = write_seq (Ok (array_head (length items))) (write_items items)"
| "write_value (CMap entries) = write_seq (Ok (map_head (length entries))) (write_entries entries)"
| "write_value (CVector2 x y) = Ok (write_vector VECTOR2 [x, y])"
| "write_value (CVector3 x y z) = Ok (write_vector VECTOR3 [x, y, z])"
| "write_value (CVector4 x y z w) = Ok (write_vector VECTOR4 [x, y, z, w])"
| "write_value (CQuat x y z w) = Ok (write_vector QUATERNION [x, y, z, w])"
| "write_value (CExt tag b) = write_ext tag b"
| "write_items [] = Ok []"
| "write_items (v # vs) = write_seq (write_value v) (write_items vs)"
| "write_entries [] = Ok []"
| "write_entries ((k, v) # es) = write_seq (write_value k) (write_seq (write_value v) (write_entries es))"
  by pat_completeness auto
termination
  by (relation "measure (case_sum size (case_sum (size_list size) (size_list (size_prod size size))))") auto

definition pack :: "cfx_value \<Rightarrow> (bytes, ald_error) result" where
  "pack v = write_value v"

section \<open>Decoder\<close>

datatype read_error = Fuel | Fail ald_error

type_synonym 'a reader = "bytes \<Rightarrow> ('a \<times> bytes, read_error) result"

fun rbind :: "('a \<times> bytes, read_error) result \<Rightarrow> ('a \<Rightarrow> 'b reader) \<Rightarrow> ('b \<times> bytes, read_error) result" where
  "rbind (Inl e) k = Inl e"
| "rbind (Inr (a, c)) k = k a c"

definition read_u8 :: "u8 reader" where
  "read_u8 c = (case c of
      [] \<Rightarrow> Inl (Fail (Protocol ''unexpected end of msgpack buffer''))
    | b # rest \<Rightarrow> Inr (b, rest))"

definition cursor_take :: "nat \<Rightarrow> bytes reader" where
  "cursor_take n c =
     (if length c < n then Inl (Fail (Protocol ''msgpack field overruns buffer''))
      else Inr (List.take n c, drop n c))"

definition read_u16 :: "u16 reader" where
  "read_u16 c = rbind (cursor_take 2 c) (\<lambda>b c. Inr (be_dec b, c))"

definition read_u32 :: "u32 reader" where
  "read_u32 c = rbind (cursor_take 4 c) (\<lambda>b c. Inr (be_dec b, c))"

definition read_u64 :: "u64 reader" where
  "read_u64 c = rbind (cursor_take 8 c) (\<lambda>b c. Inr (be_dec b, c))"

text \<open>
  Well-formed UTF-8 (what \<open>std::str::from_utf8\<close> accepts), on the byte values.
\<close>

definition cont :: "u8 \<Rightarrow> bool" where
  "cont b \<longleftrightarrow> 0x80 \<le> b \<and> b \<le> 0xBF"

fun utf8_valid :: "bytes \<Rightarrow> bool" where
  "utf8_valid [] = True"
| "utf8_valid (a # bs) =
     (if a \<le> 0x7F then utf8_valid bs
      else case bs of
        [] \<Rightarrow> False
      | b # bs1 \<Rightarrow>
          if 0xC2 \<le> a \<and> a \<le> 0xDF then cont b \<and> utf8_valid bs1
          else case bs1 of
            [] \<Rightarrow> False
          | c # bs2 \<Rightarrow>
              if a = 0xE0 then 0xA0 \<le> b \<and> b \<le> 0xBF \<and> cont c \<and> utf8_valid bs2
              else if a = 0xED then 0x80 \<le> b \<and> b \<le> 0x9F \<and> cont c \<and> utf8_valid bs2
              else if 0xE1 \<le> a \<and> a \<le> 0xEF then cont b \<and> cont c \<and> utf8_valid bs2
              else case bs2 of
                [] \<Rightarrow> False
              | d # bs3 \<Rightarrow>
                  if a = 0xF0 then 0x90 \<le> b \<and> b \<le> 0xBF \<and> cont c \<and> cont d \<and> utf8_valid bs3
                  else if a = 0xF4 then 0x80 \<le> b \<and> b \<le> 0x8F \<and> cont c \<and> cont d \<and> utf8_valid bs3
                  else 0xF1 \<le> a \<and> a \<le> 0xF3 \<and> cont b \<and> cont c \<and> cont d \<and> utf8_valid bs3)"

text \<open>
  \<open>f32 as f64\<close> on bit patterns: exact for every number; a NaN keeps its payload with the
  quiet bit set, as the conversion instructions do.
\<close>

fun top_bit :: "nat \<Rightarrow> u32 \<Rightarrow> nat" where
  "top_bit 0 m = 0"
| "top_bit (Suc k) m = (if bit m (Suc k) then Suc k else top_bit k m)"

definition f32_to_f64 :: "u32 \<Rightarrow> u64" where
  "f32_to_f64 w =
     (let s = push_bit 63 (ucast (drop_bit 31 w) :: u64);
          e = unat (take_bit 8 (drop_bit 23 w));
          m = take_bit 23 w
      in if e = 255 then s OR push_bit 52 2047 OR push_bit 29 (ucast m)
             OR (if m = 0 then 0 else push_bit 51 1)
         else if e = 0 \<and> m = 0 then s
         else if e = 0 then
           let k = top_bit 22 m
           in s OR push_bit 52 (of_nat (874 + k)) OR take_bit 52 (push_bit (52 - k) (ucast m))
         else s OR push_bit 52 (of_nat (e + 896)) OR push_bit 29 (ucast m))"

text \<open>Two upper-case hexadecimal digits, as \<open>{:02X}\<close> prints a byte.\<close>

definition hex_digit :: "nat \<Rightarrow> char" where
  "hex_digit n = (if n < 10 then char_of (48 + n) else char_of (55 + n))"

definition show_hex2 :: "u8 \<Rightarrow> string" where
  "show_hex2 b = [hex_digit (unat b div 16), hex_digit (unat b mod 16)]"

definition read_bin :: "nat \<Rightarrow> cfx_value reader" where
  "read_bin n c = rbind (cursor_take n c) (\<lambda>b c. Inr (CBin b, c))"

definition read_str :: "nat \<Rightarrow> cfx_value reader" where
  "read_str n c = rbind (cursor_take n c) (\<lambda>raw c.
     if utf8_valid raw then Inr (CStr raw, c)
     else Inl (Fail (Protocol ''msgpack string is not valid UTF-8'')))"

text \<open>\<open>for _ in 0..n { items.push(read(c)?) }\<close>.\<close>

fun read_n :: "'a reader \<Rightarrow> nat \<Rightarrow> 'a list reader" where
  "read_n rd 0 c = Inr ([], c)"
| "read_n rd (Suc n) c = rbind (rd c) (\<lambda>v c. rbind (read_n rd n c) (\<lambda>vs c. Inr (v # vs, c)))"

definition read_pair :: "cfx_value reader \<Rightarrow> (cfx_value \<times> cfx_value) reader" where
  "read_pair rd c = rbind (rd c) (\<lambda>k c. rbind (rd c) (\<lambda>v c. Inr ((k, v), c)))"

definition read_array :: "cfx_value reader \<Rightarrow> nat \<Rightarrow> cfx_value reader" where
  "read_array rd n c = rbind (read_n rd n c) (\<lambda>items c. Inr (CArray items, c))"

definition read_map :: "cfx_value reader \<Rightarrow> nat \<Rightarrow> cfx_value reader" where
  "read_map rd n c = rbind (read_n (read_pair rd) n c) (\<lambda>entries c. Inr (CMap entries, c))"

definition read_ext :: "nat \<Rightarrow> cfx_value reader" where
  "read_ext n c = rbind (read_u8 c) (\<lambda>tag c.
     if tag = VECTOR2 \<and> n = 8 then
       rbind (read_u32 c) (\<lambda>x c. rbind (read_u32 c) (\<lambda>y c. Inr (CVector2 x y, c)))
     else if tag = VECTOR3 \<and> n = 12 then
       rbind (read_u32 c) (\<lambda>x c. rbind (read_u32 c) (\<lambda>y c. rbind (read_u32 c) (\<lambda>z c.
         Inr (CVector3 x y z, c))))
     else if tag = VECTOR4 \<and> n = 16 then
       rbind (read_u32 c) (\<lambda>x c. rbind (read_u32 c) (\<lambda>y c. rbind (read_u32 c) (\<lambda>z c.
         rbind (read_u32 c) (\<lambda>w c. Inr (CVector4 x y z w, c)))))
     else if tag = QUATERNION \<and> n = 16 then
       rbind (read_u32 c) (\<lambda>x c. rbind (read_u32 c) (\<lambda>y c. rbind (read_u32 c) (\<lambda>z c.
         rbind (read_u32 c) (\<lambda>w c. Inr (CQuat x y z w, c)))))
     else rbind (cursor_take n c) (\<lambda>b c. Inr (CExt tag b, c)))"

fun read_value :: "nat \<Rightarrow> cfx_value reader" where
  "read_value 0 c = Inl Fuel"
| "read_value (Suc fuel) c = rbind (read_u8 c) (\<lambda>tag c.
     if tag = 0xC0 then Inr (CNil, c)
     else if tag = 0xC2 then Inr (CBool False, c)
     else if tag = 0xC3 then Inr (CBool True, c)
     else if tag = 0xCA then rbind (read_u32 c) (\<lambda>f c. Inr (CFloat (f32_to_f64 f), c))
     else if tag = 0xCB then rbind (read_u64 c) (\<lambda>f c. Inr (CFloat f, c))
     else if tag = 0xCC then rbind (read_u8 c) (\<lambda>n c. Inr (CInt (ucast n), c))
     else if tag = 0xCD then rbind (read_u16 c) (\<lambda>n c. Inr (CInt (ucast n), c))
     else if tag = 0xCE then rbind (read_u32 c) (\<lambda>n c. Inr (CInt (ucast n), c))
     else if tag = 0xCF then rbind (read_u64 c) (\<lambda>n c. Inr (CInt n, c))
     else if tag = 0xD0 then rbind (read_u8 c) (\<lambda>n c. Inr (CInt (scast n), c))
     else if tag = 0xD1 then rbind (read_u16 c) (\<lambda>n c. Inr (CInt (scast n), c))
     else if tag = 0xD2 then rbind (read_u32 c) (\<lambda>n c. Inr (CInt (scast n), c))
     else if tag = 0xD3 then rbind (read_u64 c) (\<lambda>n c. Inr (CInt n, c))
     else if tag = 0xC4 then rbind (read_u8 c) (\<lambda>n c. read_bin (unat n) c)
     else if tag = 0xC5 then rbind (read_u16 c) (\<lambda>n c. read_bin (unat n) c)
     else if tag = 0xC6 then rbind (read_u32 c) (\<lambda>n c. read_bin (unat n) c)
     else if tag = 0xC7 then rbind (read_u8 c) (\<lambda>n c. read_ext (unat n) c)
     else if tag = 0xC8 then rbind (read_u16 c) (\<lambda>n c. read_ext (unat n) c)
     else if tag = 0xC9 then rbind (read_u32 c) (\<lambda>n c. read_ext (unat n) c)
     else if tag = 0xD4 then read_ext 1 c
     else if tag = 0xD5 then read_ext 2 c
     else if tag = 0xD6 then read_ext 4 c
     else if tag = 0xD7 then read_ext 8 c
     else if tag = 0xD8 then read_ext 16 c
     else if tag = 0xD9 then rbind (read_u8 c) (\<lambda>n c. read_str (unat n) c)
     else if tag = 0xDA then rbind (read_u16 c) (\<lambda>n c. read_str (unat n) c)
     else if tag = 0xDB then rbind (read_u32 c) (\<lambda>n c. read_str (unat n) c)
     else if tag = 0xDC then rbind (read_u16 c) (\<lambda>n c. read_array (read_value fuel) (unat n) c)
     else if tag = 0xDD then rbind (read_u32 c) (\<lambda>n c. read_array (read_value fuel) (unat n) c)
     else if tag = 0xDE then rbind (read_u16 c) (\<lambda>n c. read_map (read_value fuel) (unat n) c)
     else if tag = 0xDF then rbind (read_u32 c) (\<lambda>n c. read_map (read_value fuel) (unat n) c)
     else if tag \<le> 0x7F then Inr (CInt (ucast tag), c)
     else if 0x80 \<le> tag \<and> tag \<le> 0x8F then read_map (read_value fuel) (unat (tag AND 0x0F)) c
     else if 0x90 \<le> tag \<and> tag \<le> 0x9F then read_array (read_value fuel) (unat (tag AND 0x0F)) c
     else if 0xA0 \<le> tag \<and> tag \<le> 0xBF then read_str (unat (tag AND 0x1F)) c
     else if 0xE0 \<le> tag then Inr (CInt (scast tag), c)
     else Inl (Fail (Protocol (''invalid msgpack tag 0x'' @ show_hex2 tag))))"

declare read_value.simps(2) [simp del]

definition unpack :: "bytes \<Rightarrow> (cfx_value, read_error) result" where
  "unpack bs = (case read_value (Suc (length bs)) bs of Inl e \<Rightarrow> Inl e | Inr (v, _) \<Rightarrow> Inr v)"

section \<open>The decoder always answers\<close>

lemma read_u8_Cons [simp]: "read_u8 (b # c) = Inr (b, c)"
  by (simp add: read_u8_def)

text \<open>
  On inputs of at most \<open>N\<close> bytes the reader does not run out of fuel and leaves no more than
  it was given.
\<close>

definition good :: "nat \<Rightarrow> 'a reader \<Rightarrow> bool" where
  "good N rd \<longleftrightarrow> (\<forall>c. length c \<le> N \<longrightarrow>
     (case rd c of Inl e \<Rightarrow> e \<noteq> Fuel | Inr (v, c') \<Rightarrow> length c' \<le> length c))"

named_theorems good_intros "closure of well-behaved readers under the reader combinators"

lemma good_rbind [good_intros]:
  assumes "good N r" and "\<And>a. good N (k a)"
  shows "good N (\<lambda>c. rbind (r c) k)"
  unfolding good_def
proof (intro allI impI)
  fix c :: bytes
  assume c: "length c \<le> N"
  show "case rbind (r c) k of Inl e \<Rightarrow> e \<noteq> Fuel | Inr (v, c') \<Rightarrow> length c' \<le> length c"
  proof (cases "r c")
    case (Inl e)
    with assms(1) c show ?thesis by (force simp: good_def)
  next
    case (Inr p)
    obtain a c1 where p: "p = (a, c1)" by (cases p)
    with Inr assms(1) c have "length c1 \<le> length c" by (force simp: good_def)
    moreover have "case k a c1 of Inl e \<Rightarrow> e \<noteq> Fuel | Inr (v, c') \<Rightarrow> length c' \<le> length c1"
      using assms(2) [of a] c calculation by (simp add: good_def)
    ultimately show ?thesis
      using Inr p by (auto split: sum.splits intro: order_trans)
  qed
qed

lemma good_if [good_intros]: "good N f \<Longrightarrow> good N g \<Longrightarrow> good N (\<lambda>c. if b then f c else g c)"
  by (simp add: good_def)

lemma good_return [good_intros]: "good N (\<lambda>c. Inr (v, c))"
  by (simp add: good_def)

lemma good_fail [good_intros]: "good N (\<lambda>c. Inl (Fail e))"
  by (simp add: good_def)

lemma good_read_u8 [good_intros]: "good N read_u8"
  by (auto simp: good_def read_u8_def split: list.splits)

lemma good_cursor_take [good_intros]: "good N (cursor_take n)"
  by (auto simp: good_def cursor_take_def)

lemma good_read_u16 [good_intros]: "good N read_u16"
  unfolding read_u16_def by (intro good_intros)

lemma good_read_u32 [good_intros]: "good N read_u32"
  unfolding read_u32_def by (intro good_intros)

lemma good_read_u64 [good_intros]: "good N read_u64"
  unfolding read_u64_def by (intro good_intros)

lemma good_read_bin [good_intros]: "good N (read_bin n)"
  unfolding read_bin_def by (intro good_intros)

lemma good_read_str [good_intros]: "good N (read_str n)"
  unfolding read_str_def by (intro good_intros)

lemma good_read_ext [good_intros]: "good N (read_ext n)"
  unfolding read_ext_def by (intro good_intros)

lemma good_read_n [good_intros]: "good N rd \<Longrightarrow> good N (read_n rd n)"
proof (induction n)
  case 0
  then show ?case by (simp add: good_def)
next
  case (Suc n)
  have "read_n rd (Suc n) = (\<lambda>c. rbind (rd c) (\<lambda>v c. rbind (read_n rd n c) (\<lambda>vs c. Inr (v # vs, c))))"
    by (rule ext) simp
  with Suc show ?case by (auto intro!: good_intros)
qed

lemma good_read_array [good_intros]: "good N rd \<Longrightarrow> good N (read_array rd n)"
  unfolding read_array_def by (intro good_intros)

lemma good_read_pair [good_intros]: "good N rd \<Longrightarrow> good N (read_pair rd)"
  unfolding read_pair_def by (intro good_intros)

lemma good_read_map [good_intros]: "good N rd \<Longrightarrow> good N (read_map rd n)"
  unfolding read_map_def by (intro good_intros)

lemma read_value_good: "N < fuel \<Longrightarrow> good N (read_value fuel)"
proof (induction fuel arbitrary: N)
  case 0
  then show ?case by simp
next
  case (Suc fuel)
  show ?case
    unfolding good_def
  proof (intro allI impI)
    fix c :: bytes
    assume c: "length c \<le> N"
    show "case read_value (Suc fuel) c of Inl e \<Rightarrow> e \<noteq> Fuel | Inr (v, c') \<Rightarrow> length c' \<le> length c"
    proof (cases c)
      case Nil
      then show ?thesis by (simp add: read_value.simps(2) read_u8_def)
    next
      case (Cons t r)
      have IH: "good (N - 1) (read_value fuel)" using c Cons Suc by auto
      define body where "body = (\<lambda>c. read_value (Suc fuel) (t # c))"
      have "good (N - 1) body"
        unfolding body_def read_value.simps(2) read_u8_Cons rbind.simps
        by (intro good_intros IH)
      with c Cons show ?thesis
        by (force simp: good_def body_def split: sum.splits)
    qed
  qed
qed

lemma unpack_no_fuel: "unpack bs \<noteq> Inl Fuel"
  using read_value_good [of "length bs" "Suc (length bs)"]
  by (auto simp: unpack_def good_def split: sum.splits)

section \<open>Round trips\<close>

lemma cursor_take_append [simp]: "length b = n \<Longrightarrow> cursor_take n (b @ c) = Inr (b, c)"
  by (simp add: cursor_take_def)

lemma read_u16_enc [simp]: "read_u16 (be_enc 2 w @ c) = Inr (w, c)"
  by (simp add: read_u16_def be_dec_enc_id)

lemma read_u32_enc [simp]: "read_u32 (be_enc 4 w @ c) = Inr (w, c)"
  by (simp add: read_u32_def be_dec_enc_id)

lemma read_u64_enc [simp]: "read_u64 (be_enc 8 w @ c) = Inr (w, c)"
  by (simp add: read_u64_def be_dec_enc_id)

lemma unat_of_nat_u8: "n \<le> 255 \<Longrightarrow> unat (of_nat n :: u8) = n"
  by (rule unat_of_nat_small) simp

lemma unat_of_nat_u16: "n \<le> 65535 \<Longrightarrow> unat (of_nat n :: u16) = n"
  by (rule unat_of_nat_small) simp

lemma unat_of_nat_u32: "n < 4294967296 \<Longrightarrow> unat (of_nat n :: u32) = n"
  by (rule unat_of_nat_small) simp

lemmas unat_lengths = unat_of_nat_u8 unat_of_nat_u16 unat_of_nat_u32

text \<open>The packed tags of short strings, arrays and maps, checked value by value.\<close>

lemma fixstr_tags:
  "list_all (\<lambda>n. let t = (0xA0 OR of_nat n :: u8) in 0xA0 \<le> t \<and> t \<le> 0xBF \<and> unat (t AND 0x1F) = n) [0..<32]"
  by code_simp

lemma fixarray_tags:
  "list_all (\<lambda>n. let t = (0x90 OR of_nat n :: u8) in 0x90 \<le> t \<and> t \<le> 0x9F \<and> unat (t AND 0x0F) = n) [0..<16]"
  by code_simp

lemma fixmap_tags:
  "list_all (\<lambda>n. let t = (0x80 OR of_nat n :: u8) in 0x80 \<le> t \<and> t \<le> 0x8F \<and> unat (t AND 0x0F) = n) [0..<16]"
  by code_simp

lemma fixstr_tag:
  "n < 32 \<Longrightarrow> 0xA0 \<le> (0xA0 OR of_nat n :: u8) \<and> (0xA0 OR of_nat n :: u8) \<le> 0xBF
     \<and> unat ((0xA0 OR of_nat n :: u8) AND 0x1F) = n"
  using fixstr_tags by (simp add: list_all_iff Let_def)

lemma fixarray_tag:
  "n < 16 \<Longrightarrow> 0x90 \<le> (0x90 OR of_nat n :: u8) \<and> (0x90 OR of_nat n :: u8) \<le> 0x9F
     \<and> unat ((0x90 OR of_nat n :: u8) AND 0x0F) = n"
  using fixarray_tags by (simp add: list_all_iff Let_def)

lemma fixmap_tag:
  "n < 16 \<Longrightarrow> 0x80 \<le> (0x80 OR of_nat n :: u8) \<and> (0x80 OR of_nat n :: u8) \<le> 0x8F
     \<and> unat ((0x80 OR of_nat n :: u8) AND 0x0F) = n"
  using fixmap_tags by (simp add: list_all_iff Let_def)

text \<open>Dispatch on the tags that stand for one format each.\<close>

lemma read_tag:
  "read_value (Suc f) (0xC0 # c) = Inr (CNil, c)"
  "read_value (Suc f) (0xC2 # c) = Inr (CBool False, c)"
  "read_value (Suc f) (0xC3 # c) = Inr (CBool True, c)"
  "read_value (Suc f) (0xCB # c) = rbind (read_u64 c) (\<lambda>f c. Inr (CFloat f, c))"
  "read_value (Suc f) (0xCC # c) = rbind (read_u8 c) (\<lambda>n c. Inr (CInt (ucast n), c))"
  "read_value (Suc f) (0xCD # c) = rbind (read_u16 c) (\<lambda>n c. Inr (CInt (ucast n), c))"
  "read_value (Suc f) (0xCE # c) = rbind (read_u32 c) (\<lambda>n c. Inr (CInt (ucast n), c))"
  "read_value (Suc f) (0xCF # c) = rbind (read_u64 c) (\<lambda>n c. Inr (CInt n, c))"
  "read_value (Suc f) (0xD0 # c) = rbind (read_u8 c) (\<lambda>n c. Inr (CInt (scast n), c))"
  "read_value (Suc f) (0xD1 # c) = rbind (read_u16 c) (\<lambda>n c. Inr (CInt (scast n), c))"
  "read_value (Suc f) (0xD2 # c) = rbind (read_u32 c) (\<lambda>n c. Inr (CInt (scast n), c))"
  "read_value (Suc f) (0xD3 # c) = rbind (read_u64 c) (\<lambda>n c. Inr (CInt n, c))"
  "read_value (Suc f) (0xC4 # c) = rbind (read_u8 c) (\<lambda>n c. read_bin (unat n) c)"
  "read_value (Suc f) (0xC5 # c) = rbind (read_u16 c) (\<lambda>n c. read_bin (unat n) c)"
  "read_value (Suc f) (0xC6 # c) = rbind (read_u32 c) (\<lambda>n c. read_bin (unat n) c)"
  "read_value (Suc f) (0xC7 # c) = rbind (read_u8 c) (\<lambda>n c. read_ext (unat n) c)"
  "read_value (Suc f) (0xC8 # c) = rbind (read_u16 c) (\<lambda>n c. read_ext (unat n) c)"
  "read_value (Suc f) (0xC9 # c) = rbind (read_u32 c) (\<lambda>n c. read_ext (unat n) c)"
  "read_value (Suc f) (0xD9 # c) = rbind (read_u8 c) (\<lambda>n c. read_str (unat n) c)"
  "read_value (Suc f) (0xDA # c) = rbind (read_u16 c) (\<lambda>n c. read_str (unat n) c)"
  "read_value (Suc f) (0xDB # c) = rbind (read_u32 c) (\<lambda>n c. read_str (unat n) c)"
  "read_value (Suc f) (0xDC # c) = rbind (read_u16 c) (\<lambda>n c. read_array (read_value f) (unat n) c)"
  "read_value (Suc f) (0xDD # c) = rbind (read_u32 c) (\<lambda>n c. read_array (read_value f) (unat n) c)"
  "read_value (Suc f) (0xDE # c) = rbind (read_u16 c) (\<lambda>n c. read_map (read_value f) (unat n) c)"
  "read_value (Suc f) (0xDF # c) = rbind (read_u32 c) (\<lambda>n c. read_map (read_value f) (unat n) c)"
  "read_value (Suc f) (0xD4 # c) = read_ext 1 c"
  "read_value (Suc f) (0xD5 # c) = read_ext 2 c"
  "read_value (Suc f) (0xD6 # c) = read_ext 4 c"
  "read_value (Suc f) (0xD7 # c) = read_ext 8 c"
  "read_value (Suc f) (0xD8 # c) = read_ext 16 c"
  by (simp_all add: read_value.simps(2))

text \<open>Dispatch on the ranges of tags that carry their value or length.\<close>

lemma tag_less_neq: "(t :: u8) \<le> a \<Longrightarrow> a < b \<Longrightarrow> t \<noteq> b"
  by auto

lemma read_fixint: "t \<le> 0x7F \<Longrightarrow> read_value (Suc f) (t # c) = Inr (CInt (ucast t), c)"
  by (simp add: read_value.simps(2) tag_less_neq [of t "0x7F"])

lemma tag_above: "0x80 \<le> (t :: u8) \<Longrightarrow> \<not> t \<le> 0x7F" "0x90 \<le> t \<Longrightarrow> \<not> t \<le> 0x8F"
  "0xA0 \<le> t \<Longrightarrow> \<not> t \<le> 0x9F" "0xE0 \<le> t \<Longrightarrow> \<not> t \<le> 0xBF"
  by (simp_all add: word_le_nat_alt)

lemma read_fixmap:
  "0x80 \<le> t \<Longrightarrow> t \<le> 0x8F \<Longrightarrow>
   read_value (Suc f) (t # c) = read_map (read_value f) (unat (t AND 0x0F)) c"
  by (simp add: read_value.simps(2) tag_less_neq [of t "0x8F"] tag_above)

lemma read_fixarray:
  "0x90 \<le> t \<Longrightarrow> t \<le> 0x9F \<Longrightarrow>
   read_value (Suc f) (t # c) = read_array (read_value f) (unat (t AND 0x0F)) c"
  using order_trans [of "0x80" "0x90" t]
  by (simp add: read_value.simps(2) tag_less_neq [of t "0x9F"] tag_above)

lemma read_fixstr:
  "0xA0 \<le> t \<Longrightarrow> t \<le> 0xBF \<Longrightarrow> read_value (Suc f) (t # c) = read_str (unat (t AND 0x1F)) c"
  using order_trans [of "0x80" "0xA0" t] order_trans [of "0x90" "0xA0" t]
  by (simp add: read_value.simps(2) tag_less_neq [of t "0xBF"] tag_above)

lemma tag_greater_neq: "a \<le> (t :: u8) \<Longrightarrow> b < a \<Longrightarrow> t \<noteq> b"
  by auto

lemma read_negfixint: "0xE0 \<le> t \<Longrightarrow> read_value (Suc f) (t # c) = Inr (CInt (scast t), c)"
  using order_trans [of "0x80" "0xE0" t] order_trans [of "0x90" "0xE0" t] order_trans [of "0xA0" "0xE0" t]
  by (simp add: read_value.simps(2) tag_greater_neq [of "0xE0" t] tag_above)

lemma read_array_head:
  "n < 4294967296 \<Longrightarrow> read_value (Suc f) (array_head n @ c) = read_array (read_value f) n c"
  using fixarray_tag [of n]
  by (auto simp: array_head_def read_fixarray unat_lengths read_tag)

lemma read_map_head:
  "n < 4294967296 \<Longrightarrow> read_value (Suc f) (map_head n @ c) = read_map (read_value f) n c"
  using fixmap_tag [of n]
  by (auto simp: map_head_def read_fixmap unat_lengths read_tag)

lemma read_write_str:
  "length b < 4294967296 \<Longrightarrow> utf8_valid b \<Longrightarrow> read_value (Suc f) (write_str b @ c) = Inr (CStr b, c)"
  using fixstr_tag [of "length b"]
  by (auto simp: write_str_def read_fixstr read_str_def unat_lengths read_tag)

lemma read_write_bin:
  "length b < 4294967296 \<Longrightarrow> read_value (Suc f) (write_bin b @ c) = Inr (CBin b, c)"
  by (auto simp: write_bin_def read_bin_def unat_lengths read_tag)

lemma read_write_vectors:
  "read_value (Suc f) (write_vector VECTOR2 [x, y] @ c) = Inr (CVector2 x y, c)"
  "read_value (Suc f) (write_vector VECTOR3 [x, y, z] @ c) = Inr (CVector3 x y z, c)"
  "read_value (Suc f) (write_vector VECTOR4 [x, y, z, w] @ c) = Inr (CVector4 x y z w, c)"
  "read_value (Suc f) (write_vector QUATERNION [x, y, z, w] @ c) = Inr (CQuat x y z w, c)"
  by (simp_all add: write_vector_def read_ext_def ext_tags read_tag)

text \<open>An opaque extension must not look like one of the four vector types.\<close>

definition vector_shape :: "u8 \<Rightarrow> nat \<Rightarrow> bool" where
  "vector_shape tag n \<longleftrightarrow> (tag, n) \<in> {(VECTOR2, 8), (VECTOR3, 12), (VECTOR4, 16), (QUATERNION, 16)}"

lemma read_ext_opaque:
  "\<not> vector_shape tag (length b) \<Longrightarrow> read_ext (length b) (tag # b @ c) = Inr (CExt tag b, c)"
  by (auto simp: read_ext_def vector_shape_def)

lemma read_ext_opaque_eq:
  "\<not> vector_shape tag n \<Longrightarrow> length b = n \<Longrightarrow> read_ext n (tag # b @ c) = Inr (CExt tag b, c)"
  using read_ext_opaque by blast

lemma read_write_ext:
  assumes "\<not> vector_shape tag (length b)" and "write_ext tag b = Ok bs"
  shows "read_value (Suc f) (bs @ c) = Inr (CExt tag b, c)"
  using assms
  by (auto simp: write_ext_def Let_def read_tag read_ext_opaque_eq unat_lengths split: if_splits)

section \<open>Integers\<close>

lemma sint_eq_uint_nonneg: "0 \<le> sint (n :: u64) \<Longrightarrow> uint n = sint n"
  using sint_lt [of n] by (simp add: uint_sint take_bit_int_eq_self)

lemma scast_ucast_small:
  fixes n :: u64
  assumes "- (2 ^ (LENGTH('b) - 1)) \<le> sint n" and "sint n < 2 ^ (LENGTH('b) - 1)" and "LENGTH('b) \<le> 64"
  shows "scast (ucast n :: 'b::len word) = n"
proof -
  have "sint (ucast n :: 'b word) = signed_take_bit (LENGTH('b) - 1) (uint n)"
    by (simp add: sint_uint signed_take_bit_take_bit unsigned_ucast_eq)
  also have "\<dots> = signed_take_bit (LENGTH('b) - 1) (sint n)"
    using assms(3) by (simp add: sint_uint signed_take_bit_signed_take_bit)
  also have "\<dots> = sint n"
    using assms(1,2) by (rule signed_take_bit_int_eq_self)
  finally have "sint (ucast n :: 'b word) = sint n" .
  then show ?thesis by (metis of_int_sint scast_id)
qed

lemma ucast_ucast_small:
  fixes n :: u64
  assumes "0 \<le> sint n" and "sint n < 2 ^ LENGTH('b)"
  shows "ucast (ucast n :: 'b::len word) = n"
proof -
  have "uint n < 2 ^ LENGTH('b)" using assms by (simp add: sint_eq_uint_nonneg)
  then have "take_bit LENGTH('b) (uint n) = uint n"
    by (simp add: take_bit_int_eq_self)
  then show ?thesis
    by (intro word_uint_eqI) (simp add: unsigned_ucast_eq unsigned_take_bit_eq)
qed

text \<open>Integers outside the two ranges written with eight bytes under a shorter tag.\<close>

definition int_ok :: "u64 \<Rightarrow> bool" where
  "int_ok n \<longleftrightarrow> \<not> (256 \<le> sint n \<and> sint n \<le> 4294967295)"

lemma ucast_fixint: "0 \<le> sint (n :: u64) \<Longrightarrow> sint n \<le> 127 \<Longrightarrow> (ucast n :: u8) \<le> 0x7F"
proof -
  assume "0 \<le> sint n" "sint n \<le> 127"
  then have "uint n \<le> 127" by (simp add: sint_eq_uint_nonneg)
  then have "uint (ucast n :: u8) \<le> 127"
    by (simp add: unsigned_ucast_eq take_bit_int_eq_self)
  then show ?thesis by (simp add: word_le_def)
qed

lemma ucast_negfixint: "- 32 \<le> sint (n :: u64) \<Longrightarrow> sint n < 0 \<Longrightarrow> 0xE0 \<le> (ucast n :: u8)"
proof -
  assume n: "- 32 \<le> sint n" "sint n < 0"
  have "uint (ucast n :: u8) = sint n mod 256"
    by (simp add: unsigned_ucast_eq uint_sint [of n] take_bit_eq_mod mod_mod_cancel)
  also have "\<dots> = sint n + 256"
    using n by (simp add: mod_pos_neg_trivial [symmetric] mod_add_self2 [symmetric, of "sint n"] del: mod_add_self2)
  finally show ?thesis using n by (simp add: word_le_def)
qed

lemma read_write_int:
  assumes "int_ok n"
  shows "read_value (Suc f) (write_int n @ c) = Inr (CInt n, c)"
proof -
  consider (pfix) "0 \<le> sint n" "sint n \<le> 127" | (u8) "127 < sint n" "sint n \<le> 255"
    | (u64) "4294967295 < sint n" | (nfix) "- 32 \<le> sint n" "sint n < 0"
    | (i8) "- 128 \<le> sint n" "sint n < - 32" | (i16) "- 32768 \<le> sint n" "sint n < - 128"
    | (i32) "- 2147483648 \<le> sint n" "sint n < - 32768" | (i64) "sint n < - 2147483648"
    using assms by (auto simp: int_ok_def not_le not_less) linarith
  then show ?thesis
  proof cases
    case pfix
    then show ?thesis
      by (simp add: write_int_def read_fixint ucast_fixint ucast_ucast_small [where 'b = 8])
  next
    case u8
    then show ?thesis by (simp add: write_int_def read_tag ucast_ucast_small [where 'b = 8])
  next
    case u64
    then show ?thesis by (simp add: write_int_def read_tag)
  next
    case nfix
    then show ?thesis
      by (simp add: write_int_def read_negfixint ucast_negfixint scast_ucast_small [where 'b = 8])
  next
    case i8
    then show ?thesis by (simp add: write_int_def read_tag scast_ucast_small [where 'b = 8])
  next
    case i16
    then show ?thesis by (simp add: write_int_def read_tag scast_ucast_small [where 'b = 16])
  next
    case i32
    then show ?thesis by (simp add: write_int_def read_tag scast_ucast_small [where 'b = 32])
  next
    case i64
    then show ?thesis by (simp add: write_int_def read_tag)
  qed
qed

text \<open>Between 256 and \<open>2 ^ 32 - 1\<close> the decoder reads the zero high bytes of the eight.\<close>

lemma be_enc_8_split:
  "be_enc 8 (n :: u64) = be_enc 4 (drop_bit 32 n) @ be_enc 4 n"
  by (simp add: be_enc_def eval_nat_numeral drop_bit_drop_bit)

lemma write_int_wide:
  assumes "256 \<le> sint n" and "sint n \<le> 4294967295"
  shows "write_int n = (if sint n \<le> 65535 then 0xCD else 0xCE) # [0, 0, 0, 0] @ be_enc 4 n"
proof -
  have "uint n < 2 ^ 32" using assms by (simp add: sint_eq_uint_nonneg)
  then have "drop_bit 32 n = 0"
    by (simp add: drop_bit_eq_div word_eq_iff_unsigned [where 'a = int] uint_div)
  moreover have "be_enc 4 (0 :: u64) = [0, 0, 0, 0]"
    by (simp add: be_enc_def eval_nat_numeral)
  ultimately show ?thesis
    using assms by (simp add: write_int_def be_enc_8_split)
qed

lemma read_zero_heads:
  "read_u16 (0 # 0 # c) = Inr (0, c)" "read_u32 (0 # 0 # 0 # 0 # c) = Inr (0, c)"
  using read_u16_enc [of 0 c] read_u32_enc [of 0 c]
  by (simp_all add: be_enc_def eval_nat_numeral)

lemma read_write_int_wide:
  assumes "\<not> int_ok n"
  shows "read_value (Suc f) (write_int n @ c) =
    Inr (CInt 0, (if sint n \<le> 65535 then [0, 0] else []) @ be_enc 4 n @ c)"
  using assms write_int_wide [of n] by (auto simp: int_ok_def read_tag read_zero_heads)

section \<open>Nested values\<close>

text \<open>
  The values that survive the wire: strings are UTF-8, every length fits in 32 bits, integers
  avoid the two mis-sized ranges and opaque extensions do not look like vectors.
\<close>

function (sequential) value_ok :: "cfx_value \<Rightarrow> bool"
  and items_ok :: "cfx_value list \<Rightarrow> bool"
  and entries_ok :: "(cfx_value \<times> cfx_value) list \<Rightarrow> bool" where
  "value_ok (CInt n) = int_ok n"
| "value_ok (CStr s) = (utf8_valid s \<and> length s < 4294967296)"
| "value_ok (CBin b) = (length b < 4294967296)"
| "value_ok (CArray items) = (length items < 4294967296 \<and> items_ok items)"
| "value_ok (CMap entries) = (length entries < 4294967296 \<and> entries_ok entries)"
| "value_ok (CExt tag b) = (\<not> vector_shape tag (length b) \<and> length b < 4294967296)"
| "value_ok _ = True"
| "items_ok [] = True"
| "items_ok (v # vs) = (value_ok v \<and> items_ok vs)"
| "entries_ok [] = True"
| "entries_ok ((k, v) # es) = (value_ok k \<and> value_ok v \<and> entries_ok es)"
  by pat_completeness auto
termination
  by (relation "measure (case_sum size (case_sum (size_list size) (size_list (size_prod size size))))") auto

lemma write_seq_Ok:
  "write_seq a b = Inr bs \<longleftrightarrow> (\<exists>x y. a = Inr x \<and> b = Inr y \<and> bs = x @ y)"
  by (cases a; cases b) auto

lemma write_int_nonempty: "write_int n \<noteq> []"
  by (simp add: write_int_def)

lemma write_ext_nonempty: "write_ext tag b = Ok bs \<Longrightarrow> bs \<noteq> []"
  by (auto simp: write_ext_def Let_def split: if_splits)

lemma head_nonempty [simp]: "array_head n \<noteq> []" "map_head n \<noteq> []"
  by (simp_all add: array_head_def map_head_def)

lemma write_other_nonempty [simp]: "write_str b \<noteq> []" "write_bin b \<noteq> []" "write_vector t cs \<noteq> []"
  by (simp_all add: write_str_def write_bin_def write_vector_def Let_def)

lemma fuel_Suc: "bs \<noteq> [] \<Longrightarrow> length bs \<le> f \<Longrightarrow> \<exists>f'. f = Suc f'"
  by (cases f) auto

lemma read_write_value:
  "value_ok v \<Longrightarrow> write_value v = Ok bs \<Longrightarrow> length bs \<le> f \<Longrightarrow> read_value f (bs @ rest) = Inr (v, rest)"
  and read_write_items:
  "items_ok vs \<Longrightarrow> write_items vs = Ok bs \<Longrightarrow> length bs \<le> f \<Longrightarrow>
     read_n (read_value f) (length vs) (bs @ rest) = Inr (vs, rest)"
  and read_write_entries:
  "entries_ok es \<Longrightarrow> write_entries es = Ok bs \<Longrightarrow> length bs \<le> f \<Longrightarrow>
     read_n (read_pair (read_value f)) (length es) (bs @ rest) = Inr (es, rest)"
proof (induction v and vs and es arbitrary: bs f rest and bs f rest and bs f rest
    rule: write_value_write_items_write_entries.induct)
  case 1
  then show ?case by (cases f) (auto simp: read_tag)
next
  case (2 b)
  then show ?case by (cases f) (auto simp: read_tag)
next
  case (3 n)
  then show ?case by (cases f) (auto simp: read_write_int write_int_nonempty)
next
  case (4 x)
  then show ?case by (cases f) (auto simp: read_tag)
next
  case (5 s)
  then show ?case by (cases f) (auto simp: read_write_str)
next
  case (6 b)
  then show ?case by (cases f) (auto simp: read_write_bin)
next
  case (7 items)
  then obtain y where y: "write_items items = Ok y" "bs = array_head (length items) @ y"
    by (auto simp: write_seq_Ok)
  with 7(4) obtain f' where f: "f = Suc f'" using fuel_Suc [of bs f] by auto
  with y 7(4) have "length y \<le> f'" by (cases "array_head (length items)") auto
  with 7 y f show ?case by (simp add: read_array_head read_array_def)
next
  case (8 entries)
  then obtain y where y: "write_entries entries = Ok y" "bs = map_head (length entries) @ y"
    by (auto simp: write_seq_Ok)
  with 8(4) obtain f' where f: "f = Suc f'" using fuel_Suc [of bs f] by auto
  with y 8(4) have "length y \<le> f'" by (cases "map_head (length entries)") auto
  with 8 y f show ?case by (simp add: read_map_head read_map_def)
next
  case (9 x y)
  then show ?case by (cases f) (auto simp: read_write_vectors)
next
  case (10 x y z)
  then show ?case by (cases f) (auto simp: read_write_vectors)
next
  case (11 x y z w)
  then show ?case by (cases f) (auto simp: read_write_vectors)
next
  case (12 x y z w)
  then show ?case by (cases f) (auto simp: read_write_vectors)
next
  case (13 tag b)
  then have w: "write_ext tag b = Ok bs" by simp
  then obtain f' where "f = Suc f'" using fuel_Suc [of bs f] 13(3) write_ext_nonempty by blast
  with w 13(1) show ?case by (simp add: read_write_ext)
next
  case 14
  then show ?case by simp
next
  case (15 v vs)
  then show ?case by (auto simp: write_seq_Ok)
next
  case 16
  then show ?case by simp
next
  case (17 k v es)
  then show ?case by (auto simp: write_seq_Ok read_pair_def)
qed

lemma pack_unpack: "value_ok v \<Longrightarrow> pack v = Ok bs \<Longrightarrow> unpack bs = Ok v"
  using read_write_value [of v bs "Suc (length bs)" "[]"] by (simp add: unpack_def pack_def)

section \<open>Properties\<close>

text \<open>
  C11. Round trip of the event wire format: a value whose strings are UTF-8, whose lengths fit
  in 32 bits, whose integers are not between 256 and \<open>2 ^ 32 - 1\<close> and whose opaque
  extensions do not have the tag and size of a vector, is decoded to itself, at any nesting.
\<close>

theorem msgpack_roundtrip:
  assumes "value_ok v" and "pack v = Ok bs"
  shows "unpack bs = Ok v"
  using assms by (rule pack_unpack)

definition demo_value :: cfx_value where
  "demo_value = CMap [(CStr [104, 105], CArray [CInt (- 5), CVector3 1 2 3, CNil]), (CInt 200, CBool True)]"

theorem msgpack_roundtrip_witness:
  "value_ok demo_value \<and> (\<exists>bs. pack demo_value = Ok bs \<and> unpack bs = Ok demo_value)"
proof -
  have ok: "value_ok demo_value" by (simp add: demo_value_def int_ok_def cont_def)
  moreover have "\<exists>bs. pack demo_value = Ok bs" by (simp add: pack_def demo_value_def)
  ultimately show ?thesis using msgpack_roundtrip [OF ok] by blast
qed

text \<open>
  The two mis-sized ranges: every integer from 256 to \<open>2 ^ 32 - 1\<close> is encoded with eight
  bytes under a two- or four-byte tag and is decoded as zero; inside an array the left-over bytes
  are taken for the following elements.
\<close>

lemma msgpack_wide_int_lost:
  "(\<forall>n. \<not> int_ok n \<longrightarrow> (\<exists>bs. pack (CInt n) = Ok bs \<and> unpack bs = Ok (CInt 0))) \<and>
   (\<exists>bs. pack (CArray [CInt 300, CBool True]) = Ok bs \<and> unpack bs = Ok (CArray [CInt 0, CInt 0]))"
proof
  show "\<forall>n. \<not> int_ok n \<longrightarrow> (\<exists>bs. pack (CInt n) = Ok bs \<and> unpack bs = Ok (CInt 0))"
    using read_write_int_wide [where c = "[]"] by (simp add: pack_def unpack_def)
  have "write_value (CArray [CInt 300, CBool True]) = Ok [0x92, 0xCD, 0, 0, 0, 0, 0, 0, 1, 44, 0xC3]"
    by code_simp
  moreover have "unpack [0x92, 0xCD, 0, 0, 0, 0, 0, 0, 1, 44, 0xC3] = Ok (CArray [CInt 0, CInt 0])"
    by code_simp
  ultimately show "\<exists>bs. pack (CArray [CInt 300, CBool True]) = Ok bs \<and>
      unpack bs = Ok (CArray [CInt 0, CInt 0])"
    unfolding pack_def by blast
qed

text \<open>
  The decoder is total: on every byte string \<open>unpack\<close> answers with a value or a
  protocol error, and never runs out of the fuel it is given.
\<close>

lemma unpack_total: "(\<exists>v. unpack bs = Ok v) \<or> (\<exists>e. unpack bs = Err (Fail e))"
proof (cases "unpack bs")
  case (Inl e)
  then show ?thesis using unpack_no_fuel [of bs] by (cases e) auto
qed auto

end
