(* ===== verification/ChunkTransfer.thy ===== *)
theory ChunkTransfer
  imports Msgpack Packet Paths
begin

text \<open>
  The framings above the packet layer: the chunked resource transfer of
  \<open>crates/ald-protocol/src/transfer.rs\<close>, the event envelope of
  \<open>crates/ald-protocol/src/event.rs\<close>, \<open>fragment\<close> of
  \<open>crates/ald-network/src/transport.rs\<close> and the chunk server of
  \<open>server/ald-server/src/transfer.rs\<close>.

  The JSON serializer, the hash and the file system are arguments of the definitions that call
  them. A path is its list of components, as \<open>std::path\<close> compares paths on Unix.
\<close>

section \<open>Chunk requests and replies\<close>

definition CHUNK_CAP :: u64 where "CHUNK_CAP = 32768"

definition MAX_REQUEST :: nat where "MAX_REQUEST = 4096"

record transfer_request =
  tr_name :: string
  tr_offset :: u64
  tr_len :: u64

record transfer_header =
  th_name :: string
  th_offset :: u64
  th_total :: u64
  th_sha256 :: string

definition encode_request ::
  "(transfer_request \<Rightarrow> (bytes, string) result) \<Rightarrow> transfer_request \<Rightarrow> (bytes, ald_error) result" where
  "encode_request to_vec req =
     (if CHUNK_CAP < tr_len req then Err (Protocol ''chunk request exceeds CHUNK_CAP'')
      else case to_vec req of Inl e \<Rightarrow> Err (Protocol e) | Inr bs \<Rightarrow> Ok bs)"

definition decode_request ::
  "(bytes \<Rightarrow> (transfer_request, string) result) \<Rightarrow> bytes \<Rightarrow> (transfer_request, ald_error) result" where
  "decode_request from_slice bs =
     (if MAX_REQUEST < length bs then Err (Protocol ''transfer request too large'')
      else case from_slice bs of
        Inl e \<Rightarrow> Err (Protocol e)
      | Inr req \<Rightarrow>
          if CHUNK_CAP < tr_len req then Err (Protocol ''chunk request exceeds CHUNK_CAP'')
          else Ok req)"

definition encode_response ::
  "(transfer_header \<Rightarrow> (bytes, string) result) \<Rightarrow> transfer_header \<Rightarrow> bytes \<Rightarrow> (bytes, ald_error) result" where
  "encode_response to_vec hdr data =
     (if unat CHUNK_CAP < length data then Err (Protocol ''chunk exceeds CHUNK_CAP'')
      else case to_vec hdr of
        Inl e \<Rightarrow> Err (Protocol e)
      | Inr head \<Rightarrow> Ok ((head @ [10]) @ data))"

definition decode_response ::
  "(bytes \<Rightarrow> (transfer_header, string) result) \<Rightarrow> bytes \<Rightarrow> (transfer_header \<times> bytes, ald_error) result" where
  "decode_response from_slice bs =
     (case position (\<lambda>b. b = 10) bs of
        None \<Rightarrow> Err (Protocol ''chunk missing header'')
      | Some at \<Rightarrow>
          (case from_slice (take at bs) of
             Inl e \<Rightarrow> Err (Protocol e)
           | Inr hdr \<Rightarrow>
               let data = drop (at + 1) bs in
               if unat CHUNK_CAP < length data then Err (Protocol ''chunk exceeds CHUNK_CAP'')
               else Ok (hdr, data)))"

section \<open>Events\<close>

record event_envelope =
  source_resource :: string
  ev_event :: string
  ev_data :: bytes
  ev_seq :: u64

definition with_cfx :: "string \<Rightarrow> string \<Rightarrow> cfx_value \<Rightarrow> (event_envelope, ald_error) result" where
  "with_cfx src ev v =
     (case pack v of
        Inl e \<Rightarrow> Err e
      | Inr bs \<Rightarrow> Ok \<lparr>source_resource = src, ev_event = ev, ev_data = bs, ev_seq = 0\<rparr>)"

definition cfx_data :: "event_envelope \<Rightarrow> (cfx_value, read_error) result" where
  "cfx_data e = unpack (ev_data e)"

definition encode_event ::
  "(event_envelope \<Rightarrow> (bytes, string) result) \<Rightarrow> event_envelope \<Rightarrow> (bytes, ald_error) result" where
  "encode_event to_vec e =
     (case to_vec e of
        Inl m \<Rightarrow> Err (Protocol m)
      | Inr body \<Rightarrow>
          if unat MAX_PAYLOAD < length body then Err (Protocol ''event too large'')
          else Ok (le_enc 4 (of_nat (length body) :: u32) @ body))"

definition decode_event ::
  "(bytes \<Rightarrow> (event_envelope, string) result) \<Rightarrow> bytes \<Rightarrow> (event_envelope, ald_error) result" where
  "decode_event from_slice bs =
     (if length bs < 4 then Err (Protocol ''event frame too short'')
      else let len = unat (le_dec (take 4 bs) :: u32) in
        if length bs \<noteq> len + 4 then Err (Protocol ''event frame length mismatch'')
        else case from_slice (drop 4 bs) of Inl m \<Rightarrow> Err (Protocol m) | Inr e \<Rightarrow> Ok e)"

section \<open>Fragments\<close>

text \<open>\<open>slice::chunks\<close> for a positive chunk size.\<close>

function chunks :: "nat \<Rightarrow> 'a list \<Rightarrow> 'a list list" where
  "chunks n xs = (if xs = [] \<or> n = 0 then [] else take n xs # chunks n (drop n xs))"
  by pat_completeness auto
termination
  by (relation "measure (\<lambda>(n, xs). length xs)") auto

declare chunks.simps [simp del]

definition fragment :: "bytes \<Rightarrow> nat \<Rightarrow> bytes list" where
  "fragment data chunk = (if data = [] then [[]] else chunks (max chunk 1) data)"

section \<open>The chunk server\<close>

definition search_dirs :: "string \<Rightarrow> upath list" where
  "search_dirs configured =
     [path_of configured, path_of ''base-resources'', path_of ''../../base-resources'']"

fun find_served :: "(upath \<Rightarrow> upath option) \<Rightarrow> (upath \<Rightarrow> bool) \<Rightarrow> string \<Rightarrow> string \<Rightarrow> upath list \<Rightarrow> upath option" where
  "find_served canonicalize is_file resource rel [] = None"
| "find_served canonicalize is_file resource rel (base # bases) =
     (let root = path_join base resource;
          candidate = path_join root rel;
          canonical = (case canonicalize candidate of None \<Rightarrow> candidate | Some c \<Rightarrow> c);
          root_canon = (case canonicalize root of None \<Rightarrow> root | Some c \<Rightarrow> c) in
      if (candidate = canonical \<or> path_starts_with canonical root_canon) \<and> is_file canonical
      then Some canonical
      else find_served canonicalize is_file resource rel bases)"

definition quoted :: "string \<Rightarrow> string \<Rightarrow> string \<Rightarrow> string" where
  "quoted pre s post = pre @ [CHR 0x27] @ s @ [CHR 0x27] @ post"

definition resolve_file ::
  "(upath \<Rightarrow> upath option) \<Rightarrow> (upath \<Rightarrow> bool) \<Rightarrow> string \<Rightarrow> string \<Rightarrow> (upath, string) result" where
  "resolve_file canonicalize is_file name configured =
     (case split_once (CHR ''/'') name of
        None \<Rightarrow> Err (quoted ''bad transfer name '' name [])
      | Some (resource, rel) \<Rightarrow>
          if trim resource = [] \<or> trim rel = [] then Err (quoted ''bad transfer name '' name [])
          else if list_ex (\<lambda>c. c = ''..'' \<or> c = []) (split_on (\<lambda>c. c = CHR ''/'' \<or> c = CHR 0x5C) rel)
          then Err (quoted ''traversal refused for '' name [])
          else case find_served canonicalize is_file resource rel (search_dirs configured) of
            None \<Rightarrow> Err (quoted ''file '' name '' not served'')
          | Some p \<Rightarrow> Ok p)"


text \<open>
  \<open>read\<close> is \<open>std::fs::read\<close> with the operating system's message, \<open>sha256_hex\<close> the hash of
  \<open>ald-cache\<close>, which calls the \<open>sha2\<close> crate.
\<close>

definition serve_chunk ::
  "(bytes \<Rightarrow> (transfer_request, string) result) \<Rightarrow> (transfer_header \<Rightarrow> (bytes, string) result) \<Rightarrow>
   (bytes \<Rightarrow> string) \<Rightarrow> (upath \<Rightarrow> upath option) \<Rightarrow> (upath \<Rightarrow> bool) \<Rightarrow> (upath \<Rightarrow> (bytes, string) result) \<Rightarrow>
   bool \<Rightarrow> bytes \<Rightarrow> string \<Rightarrow> (bytes, string) result" where
  "serve_chunk from_slice to_vec sha256_hex canonicalize is_file read ready body configured =
     (if \<not> ready then Err ''peer not admitted''
      else case decode_request from_slice body of
        Inl e \<Rightarrow> Err (ald_error_to_string e)
      | Inr req \<Rightarrow>
        (case resolve_file canonicalize is_file (tr_name req) configured of
           Inl e \<Rightarrow> Err e
         | Inr path \<Rightarrow>
           (case read path of
              Inl e \<Rightarrow> Err (''read: '' @ e)
            | Inr bs \<Rightarrow>
              let total = of_nat (length bs) :: u64 in
              if total < tr_offset req then Err ''offset past end''
              else
                let stop = min (tr_offset req + min (tr_len req) CHUNK_CAP) total;
                    hdr = \<lparr>th_name = tr_name req, th_offset = tr_offset req,
                           th_total = total, th_sha256 = sha256_hex bs\<rparr> in
                (case encode_response to_vec hdr (slice (unat (tr_offset req)) (unat stop) bs) of
                   Inl e \<Rightarrow> Err (ald_error_to_string e)
                 | Inr out \<Rightarrow> Ok out))))"

section \<open>Lemmas\<close>

lemma position_append_notin: "x \<notin> set xs \<Longrightarrow> position (\<lambda>b. b = x) (xs @ x # ys) = Some (length xs)"
  by (induction xs) auto

lemma response_decodes:
  assumes "to_vec h = Ok head" and "from_slice head = Ok h" and "10 \<notin> set head"
    and "encode_response to_vec h data = Ok bs"
  shows "decode_response from_slice bs = Ok (h, data)"
  using assms by (auto simp: encode_response_def decode_response_def position_append_notin Let_def
      split: if_splits)

lemma concat_chunks: "0 < n \<Longrightarrow> concat (chunks n xs) = xs"
  by (induction n xs rule: chunks.induct) (subst chunks.simps, auto)

lemma length_chunks_le: "0 < n \<Longrightarrow> c \<in> set (chunks n xs) \<Longrightarrow> c \<noteq> [] \<and> length c \<le> n"
  by (induction n xs rule: chunks.induct) (subst (asm) (2) chunks.simps, auto split: if_splits)

lemma fragment_reassembles: "concat (fragment data chunk) = data"
  by (simp add: fragment_def concat_chunks)

lemma fragment_bounded: "c \<in> set (fragment data chunk) \<Longrightarrow> length c \<le> max chunk 1"
  using length_chunks_le [of "max chunk 1" c data] by (auto simp: fragment_def split: if_splits)

lemma find_served_Some:
  assumes "find_served canon is_file res rel bases = Some p"
  shows "is_file p \<and> (\<exists>base \<in> set bases. p = path_join (path_join base res) rel \<or>
      path_starts_with p (case canon (path_join base res) of None \<Rightarrow> path_join base res | Some c \<Rightarrow> c))"
  using assms
proof (induction bases)
  case (Cons base bases)
  show ?case
  proof (cases "find_served canon is_file res rel bases = Some p")
    case True
    with Cons.IH show ?thesis by auto
  next
    case False
    with Cons.prems show ?thesis
      by (auto simp: Let_def split: if_splits)
  qed
qed simp

lemma rel_checked:
  assumes "\<not> list_ex (\<lambda>c. c = ''..'' \<or> c = []) (split_on (\<lambda>c. c = CHR ''/'' \<or> c = CHR 0x5C) rel)"
  shows "''..'' \<notin> set (comps (path_of rel)) \<and> \<not> absolute (path_of rel)"
proof
  let ?Q = "\<lambda>c. c = CHR ''/'' \<or> c = CHR 0x5C"
  have "''..'' \<notin> set (split_on ?Q rel)" using assms by (auto simp: list_ex_iff)
  then have "''..'' \<notin> set (split_on (\<lambda>c. c = CHR ''/'') rel)"
    using split_on_fine(2) [of "\<lambda>c. c = CHR ''/''" ?Q "''..''" rel] by auto
  then show "''..'' \<notin> set (comps (path_of rel))"
    by (auto simp: path_of_def Let_def)
  show "\<not> absolute (path_of rel)"
    using assms by (cases rel) (auto simp: path_of_def is_abs_def Let_def)
qed

lemma path_join_component:
  assumes "CHR ''/'' \<notin> set n" and "n \<noteq> []"
  shows "absolute (path_join p n) = absolute p \<and>
    (\<exists>x. comps (path_join p n) = comps p @ x \<and> (x = [n] \<or> x = [] \<and> n = ''.''))"
proof (cases "n = ''.''")
  case True
  then show ?thesis by (simp add: path_join_def path_of_def is_abs_def Let_def)
next
  case False
  then show ?thesis using path_join_plain [OF assms False, of p] assms(2) by (simp add: path_push_def)
qed

lemma event_decodes:
  assumes "to_vec e = Ok body" and "from_slice body = Ok e" and "encode_event to_vec e = Ok bs"
  shows "decode_event from_slice bs = Ok e"
proof -
  have small: "length body \<le> unat MAX_PAYLOAD" and bs: "bs = le_enc 4 (of_nat (length body) :: u32) @ body"
    using assms by (auto simp: encode_event_def split: if_splits)
  have "length body < 2 ^ 32" using small by (simp add: MAX_PAYLOAD_def)
  then have "unat (le_dec (le_enc 4 (of_nat (length body) :: u32)) :: u32) = length body"
    by (simp add: le_dec_enc_id unat_of_nat_small)
  then show ?thesis
    using assms by (simp add: decode_event_def bs Let_def)
qed

lemma decode_request_len: "decode_request from_slice bs = Ok req \<Longrightarrow> tr_len req \<le> CHUNK_CAP"
  by (auto simp: decode_request_def not_less split: if_splits sum.splits)

lemma serve_slice:
  assumes "unat (off :: u64) \<le> n" and "n < 2 ^ 63" and "len \<le> CHUNK_CAP"
  shows "unat (min (off + min len CHUNK_CAP) (of_nat n)) = min (unat off + unat len) n"
proof -
  have n: "unat (of_nat n :: u64) = n" using assms(2) by (intro unat_of_nat_small) simp
  have "unat len \<le> 32768" using assms(3) by (simp add: CHUNK_CAP_def word_le_nat_alt)
  then have "unat (off + len) = unat off + unat len"
    using assms by (simp add: unat_word_ariths)
  then show ?thesis
    using assms n by (auto simp: min_def word_le_nat_alt)
qed

lemma serve_chunk_cases:
  assumes "serve_chunk from_slice to_vec sha canon is_file read ready body configured = Ok out"
  obtains req p bs where "ready" and "decode_request from_slice body = Ok req"
    and "resolve_file canon is_file (tr_name req) configured = Ok p" and "read p = Ok bs"
    and "tr_offset req \<le> of_nat (length bs)"
    and "encode_response to_vec \<lparr>th_name = tr_name req, th_offset = tr_offset req,
          th_total = of_nat (length bs), th_sha256 = sha bs\<rparr>
          (slice (unat (tr_offset req))
            (unat (min (tr_offset req + min (tr_len req) CHUNK_CAP) (of_nat (length bs)))) bs) = Ok out"
  using assms by (auto simp: serve_chunk_def Let_def not_less split: if_splits sum.splits)

section \<open>Properties\<close>

text \<open>
  Round trip of the application event channel: an event built from a value that the
  MessagePack format carries, framed, unframed and opened, gives back the event and the value.
  The JSON serializer is the hypothesis: it writes the envelope and reads its own output back.
\<close>

lemma event_roundtrip:
  assumes "value_ok v" and "with_cfx src name v = Ok e"
    and "to_vec e = Ok body" and "from_slice body = Ok e" and "encode_event to_vec e = Ok bs"
  shows "decode_event from_slice bs = Ok e \<and> cfx_data e = Ok v \<and>
    source_resource e = src \<and> ev_event e = name"
proof -
  obtain d where d: "pack v = Ok d" and e: "e = \<lparr>source_resource = src, ev_event = name, ev_data = d, ev_seq = 0\<rparr>"
    using assms(2) by (auto simp: with_cfx_def split: sum.splits)
  have "unpack d = Ok v" using pack_unpack [OF assms(1) d] .
  then show ?thesis
    using event_decodes [of to_vec e body from_slice bs] assms(3-5) by (simp add: e cfx_data_def)
qed

definition demo_to_vec :: "event_envelope \<Rightarrow> (bytes, string) result" where
  "demo_to_vec e = Ok (ev_data e)"

definition demo_from_slice :: "bytes \<Rightarrow> (event_envelope, string) result" where
  "demo_from_slice bs = Ok \<lparr>source_resource = ''chat'', ev_event = ''say'', ev_data = bs, ev_seq = 0\<rparr>"

text \<open>
  A served chunk is the truth about the file: the reply opens to a header with the requested
  name and offset and the length and hash of the file, followed by exactly the requested bytes,
  cut at the end of the file; only an admitted peer gets one. Hypotheses: the serializer writes
  headers on one line and reads them back, and a file in memory is shorter than \<open>2 ^ 63\<close> bytes.
\<close>

lemma serve_chunk_slice:
  assumes "serve_chunk from_slice to_vec sha canon is_file read ready body configured = Ok out"
    and json: "\<And>h head. to_vec h = Ok head \<Longrightarrow> from_head head = Ok h \<and> 10 \<notin> set head"
    and size: "\<And>p bs. read p = Ok bs \<Longrightarrow> length bs < 2 ^ 63"
  shows "ready \<and> (\<exists>req p bs. decode_request from_slice body = Ok req \<and>
    resolve_file canon is_file (tr_name req) configured = Ok p \<and> read p = Ok bs \<and>
    decode_response from_head out = Ok (\<lparr>th_name = tr_name req, th_offset = tr_offset req,
      th_total = of_nat (length bs), th_sha256 = sha bs\<rparr>,
      take (unat (tr_len req)) (drop (unat (tr_offset req)) bs)))"
  using assms(1)
proof (cases rule: serve_chunk_cases)
  case (1 req p bs)
  let ?h = "\<lparr>th_name = tr_name req, th_offset = tr_offset req, th_total = of_nat (length bs), th_sha256 = sha bs\<rparr>"
  have n: "length bs < 2 ^ 63" by (rule size) (rule 1)
  have len: "tr_len req \<le> CHUNK_CAP" using 1 by (simp add: decode_request_len)
  have off: "unat (tr_offset req) \<le> length bs"
    using 1(5) n unat_of_nat_small [of "length bs", where 'a = 64] by (simp add: word_le_nat_alt)
  have decodes: "encode_response to_vec ?h data = Ok out \<Longrightarrow> decode_response from_head out = Ok (?h, data)" for data
    using json [of ?h] response_decodes [of to_vec ?h _ from_head data out]
    by (cases "to_vec ?h") (auto simp: encode_response_def split: if_splits)
  have "slice (unat (tr_offset req)) (unat (min (tr_offset req + min (tr_len req) CHUNK_CAP) (of_nat (length bs)))) bs
      = take (unat (tr_len req)) (drop (unat (tr_offset req)) bs)"
    unfolding serve_slice [OF off n len] slice_def by (simp add: min_def)
  then show ?thesis
    using 1 decodes by metis
qed

text \<open>A file system with one file, and a serializer for its header.\<close>

definition demo_file :: upath where
  "demo_file = path_of ''resources/chat/main.lua''"

definition demo_req :: transfer_request where
  "demo_req = \<lparr>tr_name = ''chat/main.lua'', tr_offset = 1, tr_len = 2\<rparr>"

definition demo_header :: transfer_header where
  "demo_header = \<lparr>th_name = ''chat/main.lua'', th_offset = 1, th_total = 4, th_sha256 = []\<rparr>"

definition demo_head_to_vec :: "transfer_header \<Rightarrow> (bytes, string) result" where
  "demo_head_to_vec h = (if h = demo_header then Ok [123] else Err [])"

definition demo_chunk :: "(bytes, string) result" where
  "demo_chunk = serve_chunk (\<lambda>_. Ok demo_req) demo_head_to_vec (\<lambda>_. []) Some (\<lambda>p. p = demo_file)
     (\<lambda>_. Ok [7, 8, 9, 10]) True [] ''resources''"

text \<open>
  C16. A served file is the request \<open>resource/rel\<close> taken component by component below the root
  \<open>base/resource\<close> of a search directory \<open>base\<close>, or a path below the canonical form of that root; the relative part
  has no parent step and is not absolute. For every resource name but \<open>..\<close> the root is \<open>base\<close> itself (for the name
  \<open>.\<close>) or the entry of that name directly in it. The name \<open>..\<close> is not refused: the root is then the
  parent of the search directory and what is served lies outside of it (\<open>resource_name_escapes\<close> below), although
  \<open>docs/VERTICAL_INTEGRATION.md\<close> says that files are served under the resource root and traversal is rejected.
\<close>

theorem resolve_file_contained:
  assumes "resolve_file canon is_file name configured = Ok p"
  shows "is_file p \<and> (\<exists>resource rel base. name = resource @ CHR ''/'' # rel \<and>
    base \<in> set (search_dirs configured) \<and> CHR ''/'' \<notin> set resource \<and>
    ''..'' \<notin> set (comps (path_of rel)) \<and> \<not> absolute (path_of rel) \<and>
    (p = path_join (path_join base resource) rel \<or>
     path_starts_with p (case canon (path_join base resource) of
       None \<Rightarrow> path_join base resource | Some c \<Rightarrow> c)) \<and>
    absolute (path_join base resource) = absolute base \<and>
    (\<exists>x. comps (path_join base resource) = comps base @ x \<and> (x = [resource] \<or> x = [] \<and> resource = ''.'')))"
proof -
  obtain resource rel where split: "split_once (CHR ''/'') name = Some (resource, rel)"
    and rel: "\<not> list_ex (\<lambda>c. c = ''..'' \<or> c = []) (split_on (\<lambda>c. c = CHR ''/'' \<or> c = CHR 0x5C) rel)"
    and found: "find_served canon is_file resource rel (search_dirs configured) = Some p"
    using assms by (auto simp: resolve_file_def split: option.splits if_splits)
  have "trim resource \<noteq> []" using assms split by (auto simp: resolve_file_def split: if_splits)
  moreover have "trim [] = []" by code_simp
  ultimately have "resource \<noteq> []" by auto
  moreover note s = split_once_Some [OF split]
  ultimately show ?thesis
    using find_served_Some [OF found] rel_checked [OF rel] path_join_component [of resource] by blast
qed

theorem resolve_file_contained_witness:
  "resolve_file Some (\<lambda>p. p = demo_file) ''chat/main.lua'' ''resources'' = Ok demo_file \<and>
   (\<lambda>p. p = demo_file) demo_file"
proof -
  have found: "resolve_file Some (\<lambda>p. p = demo_file) ''chat/main.lua'' ''resources'' = Ok demo_file"
    by code_simp
  show ?thesis using resolve_file_contained [OF found] found by blast
qed

text \<open>
  A Unix file system without symbolic links, seen from \<open>/srv\<close>: \<open>canonicalize\<close> resolves parent
  steps against the working directory.
\<close>

fun resolve_comps :: "string list \<Rightarrow> string list \<Rightarrow> string list" where
  "resolve_comps acc [] = acc"
| "resolve_comps acc (c # cs) =
     resolve_comps (if c = ''..'' then butlast acc else if c = ''.'' then acc else acc @ [c]) cs"

definition plain_fs :: "upath \<Rightarrow> upath option" where
  "plain_fs p = Some \<lparr>absolute = True, comps = resolve_comps (if absolute p then [] else [''srv'']) (comps p)\<rparr>"

text \<open>
  The resource part of a request is not checked for parent steps: with the resource \<open>..\<close>
  the server hands out \<open>/srv/server.toml\<close>, which lies outside every search directory.
\<close>

lemma resource_name_escapes:
  "resolve_file plain_fs (\<lambda>p. p = path_of ''/srv/server.toml'') ''../server.toml'' ''resources''
     = Ok (path_of ''/srv/server.toml'') \<and>
   (\<forall>base \<in> set (search_dirs ''resources''). \<forall>c. plain_fs base = Some c \<longrightarrow>
      \<not> path_starts_with (path_of ''/srv/server.toml'') c)"
proof
  show "resolve_file plain_fs (\<lambda>p. p = path_of ''/srv/server.toml'') ''../server.toml'' ''resources''
     = Ok (path_of ''/srv/server.toml'')"
    by code_simp
  have "list_all (\<lambda>base. \<not> path_starts_with (path_of ''/srv/server.toml'') (the (plain_fs base)))
      (search_dirs ''resources'')"
    by code_simp
  then show "\<forall>base \<in> set (search_dirs ''resources''). \<forall>c. plain_fs base = Some c \<longrightarrow>
      \<not> path_starts_with (path_of ''/srv/server.toml'') c"
    by (auto simp: list_all_iff)
qed

end
