(* ===== verification/AstraNet.thy ===== *)
theory AstraNet
  imports Packet
begin

text \<open>
  The network layer of \<open>crates/ald-network\<close>: the replay window of \<open>reliability.rs\<close>, the session
  tables of \<open>session.rs\<close>, the event firewall of \<open>firewall.rs\<close> and the CIDR arithmetic of
  \<open>lib.rs\<close>. Socket addresses are a type variable, the clock readings and the random session id
  are arguments.
\<close>

section \<open>Replay window\<close>

definition WINDOW :: u32 where "WINDOW = 1024"

record reliability_state =
  highest :: u32
  seen :: bool
  rel_mask :: u64

datatype reliability_error = Duplicate | Stale

definition reliability_new :: reliability_state where
  "reliability_new = \<lparr>highest = 0, seen = False, rel_mask = 0\<rparr>"

definition validate ::
  "reliability_state \<Rightarrow> u32 \<Rightarrow> reliability_state \<times> (unit, reliability_error) result" where
  "validate r seq =
     (if \<not> seen r then (r\<lparr>highest := seq, seen := True, rel_mask := 1\<rparr>, Ok ())
      else if seq = highest r then (r, Err Duplicate)
      else
        let forward = seq - highest r; half = push_bit 31 1 in
        if forward < half then
          (if forward < 64
           then (r\<lparr>rel_mask := push_bit (unat forward) (rel_mask r) OR 1, highest := seq\<rparr>, Ok ())
           else (r\<lparr>rel_mask := 1, highest := seq\<rparr>, Ok ()))
        else
          let behind = highest r - seq in
          if WINDOW \<le> behind then (r, Err Stale)
          else if behind < 64 then
            (let b = push_bit (unat behind) 1 in
             if rel_mask r AND b \<noteq> 0 then (r, Err Duplicate)
             else (r\<lparr>rel_mask := rel_mask r OR b\<rparr>, Ok ()))
          else (r, Ok ()))"

section \<open>Sessions\<close>

record 'a session =
  session_id :: u64
  session_addr :: 'a
  created :: nat
  last_seen :: nat
  reliability :: reliability_state

record 'a session_manager =
  by_id :: "(u64, 'a session) hmap"
  by_addr :: "('a, u64) hmap"

definition session_new :: "u64 \<Rightarrow> 'a \<Rightarrow> nat \<Rightarrow> 'a session" where
  "session_new i addr now =
     \<lparr>session_id = i, session_addr = addr, created = now, last_seen = now, reliability = reliability_new\<rparr>"

definition idle_for :: "'a session \<Rightarrow> nat \<Rightarrow> nat" where
  "idle_for s now = now - last_seen s"

definition session_manager_new :: "'a session_manager" where
  "session_manager_new = \<lparr>by_id = [], by_addr = []\<rparr>"

text \<open>
  \<open>id\<close> is the number drawn by \<open>random_session_id\<close>. The sessions are shared by reference
  (\<open>Arc\<close>), so \<open>session_touch\<close> updates the one object the table holds.
\<close>

definition session_create :: "'a session_manager \<Rightarrow> 'a \<Rightarrow> u64 \<Rightarrow> nat \<Rightarrow> 'a session_manager \<times> 'a session" where
  "session_create m addr i now =
     (let s = session_new i addr now in
      (m\<lparr>by_addr := hm_insert addr i (by_addr m), by_id := hm_insert i s (by_id m)\<rparr>, s))"

definition session_get :: "'a session_manager \<Rightarrow> u64 \<Rightarrow> 'a session option" where
  "session_get m i = hm_get (by_id m) i"

definition get_by_addr :: "'a session_manager \<Rightarrow> 'a \<Rightarrow> 'a session option" where
  "get_by_addr m addr = (case hm_get (by_addr m) addr of None \<Rightarrow> None | Some i \<Rightarrow> hm_get (by_id m) i)"

definition session_remove :: "'a session_manager \<Rightarrow> u64 \<Rightarrow> 'a session_manager \<times> bool" where
  "session_remove m i =
     (case hm_get (by_id m) i of
        Some s \<Rightarrow> (m\<lparr>by_id := hm_remove i (by_id m), by_addr := hm_remove (session_addr s) (by_addr m)\<rparr>, True)
      | None \<Rightarrow> (m, False))"

definition expire_idle :: "'a session_manager \<Rightarrow> nat \<Rightarrow> nat \<Rightarrow> 'a session_manager \<times> u64 list" where
  "expire_idle m timeout now =
     (let dead = map fst (filter (\<lambda>(i, s). timeout < idle_for s now) (by_id m)) in
      (foldl (\<lambda>m i. fst (session_remove m i)) m dead, dead))"

definition session_touch :: "'a session_manager \<Rightarrow> u64 \<Rightarrow> nat \<Rightarrow> 'a session_manager" where
  "session_touch m i now =
     (case hm_get (by_id m) i of
        None \<Rightarrow> m
      | Some s \<Rightarrow> m\<lparr>by_id := hm_insert i (s\<lparr>last_seen := now\<rparr>) (by_id m)\<rparr>)"

definition session_len :: "'a session_manager \<Rightarrow> nat" where
  "session_len m = length (by_id m)"

section \<open>Event firewall\<close>

datatype direction = ClientToServer | ServerToClient | Bidirectional

record event_rule =
  rule_direction :: direction
  rule_resource :: string
  max_size :: u32
  rate_per_sec :: u32
  rule_permission :: "string option"

type_synonym event_firewall = "(string, event_rule) hmap"

datatype firewall_verdict =
  Allow | DenyUnknownEvent | DenyDirection | DenyOversized | DenyPermission | DenyRate

definition firewall_register :: "event_firewall \<Rightarrow> string \<Rightarrow> event_rule \<Rightarrow> event_firewall" where
  "firewall_register fw name rule = hm_insert name rule fw"

definition firewall_check ::
  "event_firewall \<Rightarrow> string \<Rightarrow> direction \<Rightarrow> u32 \<Rightarrow> string option \<Rightarrow> firewall_verdict" where
  "firewall_check fw name dir sz permission =
     (case hm_get fw name of
        None \<Rightarrow> DenyUnknownEvent
      | Some rule \<Rightarrow>
          if rule_direction rule \<noteq> Bidirectional \<and> rule_direction rule \<noteq> dir then DenyDirection
          else if max_size rule < sz then DenyOversized
          else case rule_permission rule of
            None \<Rightarrow> Allow
          | Some req \<Rightarrow> if permission = Some req then Allow else DenyPermission)"

definition channel_allowed_client :: "channel \<Rightarrow> bool" where
  "channel_allowed_client c =
     (c \<in> {Control, Auth, EventReliable, EventUnreliable, Heartbeat, ResourceTransfer})"

section \<open>Address ranges\<close>

datatype ip_addr = V4 u32 | V6 u128

record cidr =
  cidr_base :: ip_addr
  prefix :: u8

fun is_ipv4 :: "ip_addr \<Rightarrow> bool" where
  "is_ipv4 (V4 _) = True"
| "is_ipv4 (V6 _) = False"

text \<open>\<open>to_ipv4_mapped\<close>: the addresses \<open>::ffff:a.b.c.d\<close>.\<close>

fun canonicalize_ip :: "ip_addr \<Rightarrow> ip_addr" where
  "canonicalize_ip (V6 v6) = (if drop_bit 32 v6 = 0xFFFF then V4 (ucast v6) else V6 v6)"
| "canonicalize_ip (V4 v4) = V4 v4"

definition in_range_v4 :: "u32 \<Rightarrow> u32 \<Rightarrow> u8 \<Rightarrow> bool" where
  "in_range_v4 a b p =
     (if p = 0 then True
      else
        let m = (if 32 \<le> p then - 1 else NOT (drop_bit (unat p) (- 1))) in
        a AND m = b AND m)"

fun octets_match :: "int \<Rightarrow> bytes \<Rightarrow> bytes \<Rightarrow> bool" where
  "octets_match bits (a # as) (b # bs) =
     (if bits \<le> 0 then True
      else
        let tk = min bits 8;
            m = (if tk = 8 then 0xFF else push_bit (nat (8 - tk)) 0xFF) :: u8 in
        if a AND m \<noteq> b AND m then False else octets_match (bits - 8) as bs)"
| "octets_match bits _ _ = True"

definition in_range_v6 :: "u128 \<Rightarrow> u128 \<Rightarrow> u8 \<Rightarrow> bool" where
  "in_range_v6 a b p = octets_match (uint p) (be_enc 16 a) (be_enc 16 b)"

definition cidr_contains :: "cidr \<Rightarrow> ip_addr \<Rightarrow> bool" where
  "cidr_contains c ip =
     (if is_ipv4 (cidr_base c) \<noteq> is_ipv4 ip then False
      else case (cidr_base c, ip) of
        (V4 b, V4 a) \<Rightarrow> in_range_v4 a b (prefix c)
      | (V6 b, V6 a) \<Rightarrow> in_range_v6 a b (prefix c)
      | _ \<Rightarrow> False)"

section \<open>The window remembers the last 64 sequence numbers\<close>

text \<open>Running a sequence of arrivals, and how far the window moves forward.\<close>

definition rel_step :: "reliability_state \<Rightarrow> u32 \<Rightarrow> reliability_state" where
  "rel_step r x = fst (validate r x)"

fun advance :: "reliability_state \<Rightarrow> u32 list \<Rightarrow> nat" where
  "advance r [] = 0"
| "advance r (x # xs) = unat (highest (rel_step r x) - highest r) + advance (rel_step r x) xs"

text \<open>\<open>seq\<close> was accepted and lies \<open>d\<close> behind the highest number.\<close>

definition recorded :: "u32 \<Rightarrow> nat \<Rightarrow> reliability_state \<Rightarrow> bool" where
  "recorded seq d r \<longleftrightarrow> seen r \<and> unat (highest r - seq) = d \<and> (d < 64 \<longrightarrow> bit (rel_mask r) d)"

lemma validate_cases [case_names fresh same near far stale dup mark skip]:
  obtains "\<not> seen r" "validate r x = (r\<lparr>highest := x, seen := True, rel_mask := 1\<rparr>, Ok ())"
  | "seen r" "x = highest r" "validate r x = (r, Err Duplicate)"
  | "seen r" "x - highest r < 64" "x \<noteq> highest r"
      "validate r x = (r\<lparr>rel_mask := push_bit (unat (x - highest r)) (rel_mask r) OR 1, highest := x\<rparr>, Ok ())"
  | "seen r" "64 \<le> x - highest r" "x - highest r < push_bit 31 1"
      "validate r x = (r\<lparr>rel_mask := 1, highest := x\<rparr>, Ok ())"
  | "seen r" "push_bit 31 1 \<le> x - highest r" "WINDOW \<le> highest r - x" "validate r x = (r, Err Stale)"
  | "seen r" "push_bit 31 1 \<le> x - highest r" "highest r - x < 64" "bit (rel_mask r) (unat (highest r - x))"
      "validate r x = (r, Err Duplicate)"
  | "seen r" "push_bit 31 1 \<le> x - highest r" "highest r - x < 64" "\<not> bit (rel_mask r) (unat (highest r - x))"
      "validate r x = (r\<lparr>rel_mask := rel_mask r OR push_bit (unat (highest r - x)) 1\<rparr>, Ok ())"
  | "seen r" "push_bit 31 1 \<le> x - highest r" "64 \<le> highest r - x" "highest r - x < WINDOW"
      "validate r x = (r, Ok ())"
proof -
  have b: "rel_mask r AND push_bit n 1 \<noteq> 0 \<longleftrightarrow> bit (rel_mask r) n" for n
    by (simp add: bit_iff_and_push_bit_not_eq_0)
  show thesis
    using that unfolding validate_def Let_def b
    by (smt (verit) not_less)
qed

text \<open>What one arrival does to the window, as far as later arrivals can see it.\<close>

lemma recorded_ok:
  assumes "validate r x = (r', Ok ())"
  shows "recorded x (unat (highest r' - x)) r'"
proof (cases rule: validate_cases [of r x])
  case mark
  then have "unat (highest r - x) < 64" by (simp add: word_less_nat_alt)
  with mark show ?thesis
    using assms by (auto simp: recorded_def bit_simps)
next
  case skip
  then have "64 \<le> unat (highest r - x)" by (simp add: word_le_nat_alt)
  with skip show ?thesis
    using assms by (auto simp: recorded_def)
qed (use assms in \<open>auto simp: recorded_def bit_simps\<close>)

lemma mod_complement:
  fixes a b n :: nat
  assumes "(a + b) mod n = 0" and "a < n" and "0 < b" and "b \<le> n"
  shows "a = n - b"
proof -
  have ge: "n \<le> a + b" using assms mod_less [of "a + b" n] by (intro leI) auto
  have "(a + b) mod n = (a + b - n) mod n" using ge by (simp add: le_mod_geq)
  also have "\<dots> = a + b - n" using assms by simp
  finally show ?thesis using assms ge by linarith
qed

lemma unat_diff_trans:
  fixes a b c :: "'a::len word"
  assumes "unat (b - a) + unat (c - b) < 2 ^ LENGTH('a)"
  shows "unat (c - a) = unat (b - a) + unat (c - b)"
proof -
  have "c - a = (b - a) + (c - b)" by simp
  then show ?thesis using assms by (simp only: unat_word_ariths(1)) simp
qed

lemma recorded_step:
  assumes "recorded x d r" and "d + unat (highest (rel_step r y) - highest r) < 2 ^ 32"
  shows "recorded x (d + unat (highest (rel_step r y) - highest r)) (rel_step r y)"
proof -
  let ?r = "rel_step r y"
  have r: "seen r" "unat (highest r - x) = d" "d < 64 \<Longrightarrow> bit (rel_mask r) d"
    using assms(1) by (auto simp: recorded_def)
  have dist: "unat (highest ?r - x) = d + unat (highest ?r - highest r)"
    using unat_diff_trans [of "highest r" x "highest ?r"] assms(2) r(2) by simp
  show ?thesis
  proof (cases rule: validate_cases [of r y])
    case near
    then have "unat (y - highest r) < 64" by (simp add: word_less_nat_alt)
    with near r dist show ?thesis
      by (auto simp: recorded_def rel_step_def bit_simps)
  next
    case far
    then have "64 \<le> unat (y - highest r)" by (simp add: word_le_nat_alt)
    with far r dist show ?thesis by (auto simp: recorded_def rel_step_def)
  qed (use r dist in \<open>auto simp: recorded_def rel_step_def bit_simps\<close>)
qed

lemma recorded_run:
  "recorded x d r \<Longrightarrow> d + advance r ys < 2 ^ 32 \<Longrightarrow> recorded x (d + advance r ys) (foldl rel_step r ys)"
proof (induction ys arbitrary: r d)
  case (Cons y ys)
  then have "recorded x (d + unat (highest (rel_step r y) - highest r)) (rel_step r y)"
    by (intro recorded_step) auto
  from Cons.IH [OF this] Cons.prems show ?case by (simp add: ac_simps)
qed simp

text \<open>The answer to a number that lies \<open>d\<close> behind.\<close>

lemma validate_recorded:
  assumes "recorded x d r" and "d \<le> 2 ^ 31"
  shows "snd (validate r x) =
    (if d < 64 then Err Duplicate else if d < 1024 then Ok () else Err Stale)"
proof -
  have r: "seen r" "unat (highest r - x) = d" "d < 64 \<Longrightarrow> bit (rel_mask r) d"
    using assms(1) by (auto simp: recorded_def)
  have lt: "highest r - x < 64 \<longleftrightarrow> d < 64" "highest r - x < WINDOW \<longleftrightarrow> d < 1024"
    using r(2) by (simp_all add: WINDOW_def word_less_nat_alt)
  show ?thesis
  proof (cases "d = 0")
    case True
    then have "x = highest r" using r(2) by (simp add: unat_eq_0)
    with True r(1) show ?thesis by (simp add: validate_def)
  next
    case False
    have "unat ((x - highest r) + (highest r - x)) = 0" by simp
    then have "(unat (x - highest r) + d) mod 2 ^ 32 = 0"
      unfolding unat_word_ariths(1) r(2) by simp
    moreover have "unat (x - highest r) < 2 ^ 32"
      using unsigned_less [of "x - highest r", where 'a = nat] by simp
    ultimately have "unat (x - highest r) = 2 ^ 32 - d"
      using False assms(2) by (intro mod_complement) auto
    then have "push_bit 31 1 \<le> x - highest r"
      using assms(2) by (simp add: word_le_nat_alt)
    moreover have "x \<noteq> highest r" using False r(2) by auto
    ultimately show ?thesis
      using r lt by (auto simp: validate_def Let_def bit_iff_and_push_bit_not_eq_0 not_less)
  qed
qed

section \<open>Session tables\<close>

text \<open>Every address entry leads to a session of that address.\<close>

definition sessions_ok :: "'a session_manager \<Rightarrow> bool" where
  "sessions_ok m \<longleftrightarrow> hm_wf (by_id m) \<and> hm_wf (by_addr m) \<and>
     (\<forall>a i. hm_get (by_addr m) a = Some i \<longrightarrow>
        (\<exists>s. hm_get (by_id m) i = Some s \<and> session_addr s = a))"

lemma sessions_ok_new: "sessions_ok session_manager_new"
  by (simp add: sessions_ok_def session_manager_new_def)

lemma sessions_ok_create:
  assumes "sessions_ok m" and "hm_get (by_id m) i = None"
  shows "sessions_ok (fst (session_create m addr i now))"
  using assms by (fastforce simp: sessions_ok_def session_create_def session_new_def Let_def hm_simps)

lemma session_remove_get:
  "hm_get (by_id (fst (session_remove m i))) = (hm_get (by_id m))(i := None)"
  by (auto simp: session_remove_def hm_simps fun_eq_iff split: option.splits)

lemma sessions_ok_remove: "sessions_ok m \<Longrightarrow> sessions_ok (fst (session_remove m i))"
  by (fastforce simp: sessions_ok_def session_remove_def hm_simps split: option.splits if_splits)

lemma remove_all_get:
  "hm_get (by_id (foldl (\<lambda>m i. fst (session_remove m i)) m is)) j =
     (if j \<in> set is then None else hm_get (by_id m) j)"
  by (induction "is" arbitrary: m) (auto simp: session_remove_get)

lemma remove_all_ok: "sessions_ok m \<Longrightarrow> sessions_ok (foldl (\<lambda>m i. fst (session_remove m i)) m is)"
  by (induction "is" arbitrary: m) (auto simp: sessions_ok_remove)

lemma sessions_ok_touch: "sessions_ok m \<Longrightarrow> sessions_ok (session_touch m i now)"
  by (fastforce simp: sessions_ok_def session_touch_def hm_simps split: option.splits if_splits)

lemma expire_dead:
  assumes "hm_wf (by_id m)"
  shows "i \<in> set (snd (expire_idle m t now)) \<longleftrightarrow> (\<exists>s. hm_get (by_id m) i = Some s \<and> t < idle_for s now)"
  using hm_get_in_set [OF assms] by (auto simp: expire_idle_def Let_def image_iff)

section \<open>Range checks\<close>

text \<open>The reference: the top \<open>p\<close> bits agree.\<close>

definition same_prefix :: "nat \<Rightarrow> 'a::len word \<Rightarrow> 'a word \<Rightarrow> bool" where
  "same_prefix p a b \<longleftrightarrow> drop_bit (LENGTH('a) - p) a = drop_bit (LENGTH('a) - p) b"

lemma same_prefix_bits:
  "same_prefix p a b \<longleftrightarrow> (\<forall>i < LENGTH('a). LENGTH('a) - p \<le> i \<longrightarrow> bit a i = bit (b :: 'a::len word) i)"
proof -
  have "drop_bit n a = drop_bit n b \<longleftrightarrow> (\<forall>i < LENGTH('a). n \<le> i \<longrightarrow> bit a i = bit b i)" for n
  proof
    assume eq: "drop_bit n a = drop_bit n b"
    show "\<forall>i < LENGTH('a). n \<le> i \<longrightarrow> bit a i = bit b i"
    proof (intro allI impI)
      fix i assume "n \<le> i"
      then show "bit a i = bit b i"
        using arg_cong [OF eq, of "\<lambda>w. bit w (i - n)"] by (simp add: bit_simps)
    qed
  next
    assume "\<forall>i < LENGTH('a). n \<le> i \<longrightarrow> bit a i = bit b i"
    then show "drop_bit n a = drop_bit n b"
      by (intro bit_eqI) (auto simp: bit_simps dest: bit_imp_le_length)
  qed
  then show ?thesis by (simp add: same_prefix_def)
qed

lemma and_mask_eq_iff:
  "a AND m = b AND m \<longleftrightarrow> (\<forall>i < LENGTH('a). bit m i \<longrightarrow> bit a i = bit (b :: 'a::len word) i)"
  by (auto simp: bit_eq_iff bit_simps dest: bit_imp_le_length)

lemma in_range_v4_prefix:
  assumes "p \<le> 32"
  shows "in_range_v4 a b p \<longleftrightarrow> same_prefix (unat p) a b"
proof -
  have p: "unat p \<le> 32" using assms by (simp add: word_le_nat_alt)
  consider "p = 0" | "p = 32" | "0 < unat p" "unat p < 32" "p \<noteq> 0" "\<not> 32 \<le> p"
  proof (cases "p = 0 \<or> p = 32")
    case False
    then have "unat p \<noteq> unat (0 :: u8)" "unat p \<noteq> unat (32 :: u8)" by (metis word_unat_eq_iff)+
    with False p show ?thesis by (intro that(3)) (auto simp: word_le_nat_alt)
  qed (use that in auto)
  then show ?thesis
  proof cases
    case 1
    then show ?thesis by (simp add: in_range_v4_def same_prefix_bits)
  next
    case 2
    then show ?thesis by (simp add: in_range_v4_def same_prefix_def)
  next
    case 3
    have "bit (NOT (drop_bit (unat p) (- 1)) :: u32) i \<longleftrightarrow> i < 32 \<and> 32 - unat p \<le> i" for i
      using 3 by (auto simp: bit_simps)
    with 3 show ?thesis
      by (simp add: in_range_v4_def Let_def and_mask_eq_iff same_prefix_bits)
  qed
qed

lemma le_enc_nth: "i < n \<Longrightarrow> le_enc n w ! i = ucast (drop_bit (8 * i) w)"
proof (induction n arbitrary: w i)
  case (Suc n)
  then show ?case by (cases i) (simp_all add: drop_bit_drop_bit ac_simps)
qed simp

lemma be_enc_nth: "i < n \<Longrightarrow> be_enc n w ! i = ucast (drop_bit (8 * (n - 1 - i)) w)"
  by (simp add: be_enc_def rev_nth le_enc_nth)

lemma octet_mask_bit:
  assumes "0 < bits" and "k < 8"
  shows "bit ((if min bits 8 = 8 then 0xFF else push_bit (nat (8 - min bits 8)) 0xFF) :: u8) k
    \<longleftrightarrow> int (7 - k) < bits"
proof -
  have ff: "(0xFF :: u8) = mask 8" by (simp add: mask_eq_exp_minus_1)
  show ?thesis
    unfolding ff using assms by (auto simp: bit_simps min_def)
qed

lemma octets_match_bits:
  "length as = length bs \<Longrightarrow> octets_match bits as bs \<longleftrightarrow>
     (\<forall>i < length as. \<forall>k < 8. int (8 * i + (7 - k)) < bits \<longrightarrow> bit (as ! i) k = bit (bs ! i) k)"
proof (induction bits as bs rule: octets_match.induct)
  case (1 bits a as b bs)
  show ?case
  proof (cases "bits \<le> 0")
    case True
    then show ?thesis by auto
  next
    case False
    have head: "a AND (if min bits 8 = 8 then 0xFF else push_bit (nat (8 - min bits 8)) 0xFF) =
        b AND (if min bits 8 = 8 then 0xFF else push_bit (nat (8 - min bits 8)) 0xFF)
        \<longleftrightarrow> (\<forall>k < 8. int (7 - k) < bits \<longrightarrow> bit a k = bit b k)"
      unfolding and_mask_eq_iff using False octet_mask_bit [of bits] by auto
    show ?thesis
      using False 1 head by (auto simp: Let_def less_Suc_eq_0_disj all_conj_distrib)
  qed
qed auto

lemma in_range_v6_prefix:
  assumes "p \<le> 128"
  shows "in_range_v6 a b p \<longleftrightarrow> same_prefix (unat p) a b"
proof -
  have p: "unat p \<le> 128" using assms by (simp add: word_le_nat_alt)
  have oct: "i < 16 \<Longrightarrow> k < 8 \<Longrightarrow> bit (be_enc 16 w ! i) k = bit w (8 * (15 - i) + k)" for w :: u128 and i k
    by (simp add: be_enc_nth bit_simps)
  have lt: "int n < uint p \<longleftrightarrow> n < unat p" for n unfolding uint_nat by (rule of_nat_less_iff)
  have "in_range_v6 a b p \<longleftrightarrow> (\<forall>i < 16. \<forall>k < 8. 8 * i + (7 - k) < unat p \<longrightarrow>
      bit a (8 * (15 - i) + k) = bit b (8 * (15 - i) + k))"
    by (simp only: in_range_v6_def octets_match_bits length_be_enc lt oct cong: imp_cong)
  also have "\<dots> \<longleftrightarrow> (\<forall>j < 128. 128 - unat p \<le> j \<longrightarrow> bit a j = bit b j)"
  proof (rule iffI; intro allI impI)
    fix j assume all: "\<forall>i < 16. \<forall>k < 8. 8 * i + (7 - k) < unat p \<longrightarrow>
      bit a (8 * (15 - i) + k) = bit b (8 * (15 - i) + k)" and j: "j < 128" "128 - unat p \<le> j"
    define q where "q = j div 8"
    define k where "k = j mod 8"
    have qk: "j = 8 * q + k" "k < 8" by (simp_all add: q_def k_def)
    have "8 * (15 - (15 - j div 8)) + j mod 8 = j" using j qk by (simp add: q_def [symmetric] k_def [symmetric])
    moreover have "8 * (15 - j div 8) + (7 - j mod 8) < unat p"
      using j qk p unfolding q_def [symmetric] k_def [symmetric] by linarith
    moreover have "15 - j div 8 < (16 :: nat)" "j mod 8 < 8" by simp_all
    ultimately show "bit a j = bit b j"
      using all [rule_format, of "15 - j div 8" "j mod 8"] by metis
  next
    fix i k :: nat
    assume all: "\<forall>j < 128. 128 - unat p \<le> j \<longrightarrow> bit a j = bit b j" and "i < 16" "k < 8" "8 * i + (7 - k) < unat p"
    then show "bit a (8 * (15 - i) + k) = bit b (8 * (15 - i) + k)" by auto
  qed
  finally show ?thesis by (simp add: same_prefix_bits)
qed

section \<open>Properties\<close>

text \<open>
  C18. The replay window, exactly: once a sequence number has been accepted, then whatever
  arrives in between, the same number is refused as a duplicate while it lies less than 64
  behind the highest number, refused as stale from 1024 on (up to half the sequence space), and
  accepted again in between, where the 64-bit mask no longer covers it.
\<close>

theorem replay_window:
  assumes "validate r x = (r', Ok ())" and "d = unat (highest r' - x) + advance r' ys" and "d \<le> 2 ^ 31"
  shows "snd (validate (foldl rel_step r' ys) x) =
    (if d < 64 then Err Duplicate else if d < 1024 then Ok () else Err Stale)"
  using validate_recorded [OF recorded_run [OF recorded_ok [OF assms(1)], of ys]] assms(2,3) by simp

theorem replay_window_witness:
  "validate reliability_new 100 = (\<lparr>highest = 100, seen = True, rel_mask = 1\<rparr>, Ok ()) \<and>
   snd (validate (foldl rel_step \<lparr>highest = 100, seen = True, rel_mask = 1\<rparr> [200]) 100) = Ok ()"
proof -
  let ?r = "\<lparr>highest = 100, seen = True, rel_mask = 1\<rparr>"
  have first: "validate reliability_new 100 = (?r, Ok ())"
    by (simp add: validate_def reliability_new_def)
  have "advance ?r [200] = 100" by (simp add: rel_step_def validate_def Let_def)
  then show ?thesis using replay_window [OF first, of 100 "[200]"] first by simp
qed

text \<open>
  Expiry removes exactly the idle sessions: the ids it reports are those idle for longer
  than the timeout, they are gone afterwards, every other session is kept unchanged, and the
  address table still leads only to live sessions of the right address.
\<close>

lemma expire_idle_exact:
  assumes "sessions_ok m" and "expire_idle m timeout now = (m', dead)"
  shows "sessions_ok m' \<and>
    (\<forall>i. i \<in> set dead \<longleftrightarrow> (\<exists>s. session_get m i = Some s \<and> timeout < idle_for s now)) \<and>
    (\<forall>i. session_get m' i = (if i \<in> set dead then None else session_get m i))"
proof -
  have wf: "hm_wf (by_id m)" using assms(1) by (simp add: sessions_ok_def)
  have dead: "dead = snd (expire_idle m timeout now)" using assms(2) by simp
  have m': "m' = foldl (\<lambda>m i. fst (session_remove m i)) m dead"
    using assms(2) by (auto simp: expire_idle_def Let_def)
  have "sessions_ok m'" using assms(1) by (simp add: m' remove_all_ok)
  moreover have "\<forall>i. session_get m' i = (if i \<in> set dead then None else session_get m i)"
    by (simp add: m' remove_all_get session_get_def)
  moreover have "\<forall>i. i \<in> set dead \<longleftrightarrow> (\<exists>s. session_get m i = Some s \<and> timeout < idle_for s now)"
    unfolding dead expire_dead [OF wf] session_get_def by blast
  ultimately show ?thesis by blast
qed

definition demo_sessions :: "nat session_manager" where
  "demo_sessions = fst (session_create (fst (session_create session_manager_new 1 7 0)) 2 8 50)"

text \<open>
  A peer that reconnects before its old session is gone loses its address entry: removing
  (or expiring) the older session of an address deletes the entry that leads to the newer one,
  which stays in the id table but is no longer found by address.
\<close>

lemma reconnect_loses_address:
  assumes "i \<noteq> j"
  shows "let m1 = fst (session_create m addr i t1);
             m2 = fst (session_create m1 addr j t2);
             m3 = fst (session_remove m2 i)
         in (\<exists>s. get_by_addr m2 addr = Some s \<and> session_id s = j) \<and>
            (\<exists>s. session_get m3 j = Some s \<and> session_addr s = addr) \<and>
            get_by_addr m3 addr = None"
  using assms
  by (simp add: session_create_def session_remove_def session_new_def get_by_addr_def session_get_def
      hm_simps Let_def)

text \<open>
  The range check of the trusted-proxy list is prefix equality: for a prefix length within
  the width of the address, the mask of the IPv4 check and the octet loop of the IPv6 check both
  decide whether the leading \<open>prefix\<close> bits agree, and addresses of different families never match.
\<close>

lemma cidr_contains_prefix:
  assumes "prefix c \<le> (if is_ipv4 (cidr_base c) then 32 else 128)"
  shows "cidr_contains c ip \<longleftrightarrow>
    (case (cidr_base c, ip) of
       (V4 b, V4 a) \<Rightarrow> same_prefix (unat (prefix c)) a b
     | (V6 b, V6 a) \<Rightarrow> same_prefix (unat (prefix c)) a b
     | _ \<Rightarrow> False)"
  using assms in_range_v4_prefix in_range_v6_prefix
  by (auto simp: cidr_contains_def split: ip_addr.splits)

end
