(* ===== verification/Queue.thy ===== *)
theory Queue
  imports Prelude
begin

text \<open>
  The admission queue of \<open>crates/ald-queue\<close>: playing slots, of which some are reserved, and a
  bounded first-in first-out waitlist. \<open>usize\<close> counters are natural numbers: they only ever
  count the elements of a vector. The clock reading is an argument, as in the code.
\<close>

datatype queue_error = TooManyReserved nat nat

record queue_config =
  max_players :: nat
  reserved_slots :: nat
  max_queue_len :: nat
  stale_after_ms :: u64

definition queue_config_new :: "nat \<Rightarrow> nat \<Rightarrow> nat \<Rightarrow> u64 \<Rightarrow> (queue_config, queue_error) result" where
  "queue_config_new mx reserved len ttl =
     (if mx < reserved then Err (TooManyReserved mx reserved)
      else Ok \<lparr>max_players = mx, reserved_slots = reserved, max_queue_len = len, stale_after_ms = ttl\<rparr>)"

definition open_slots :: "queue_config \<Rightarrow> nat" where
  "open_slots c = max_players c - reserved_slots c"

record join_request =
  jr_id :: string
  jr_holds_reservation :: bool

datatype reject_reason = ServerFull | QueueFull | AlreadyPresent | InvalidId

datatype join_outcome =
    Admitted
  | Queued nat
  | RejectedJoin reject_reason

record queued_entry =
  qe_id :: string
  holds_reservation :: bool
  enqueued_at_ms :: u64

record queue =
  config :: queue_config
  playing :: "queued_entry list"
  waitlist :: "queued_entry list"

definition queue_new :: "queue_config \<Rightarrow> queue" where
  "queue_new c = \<lparr>config = c, playing = [], waitlist = []\<rparr>"

definition is_playing :: "queue \<Rightarrow> string \<Rightarrow> bool" where
  "is_playing q i = list_ex (\<lambda>e. qe_id e = i) (playing q)"

definition is_queued :: "queue \<Rightarrow> string \<Rightarrow> bool" where
  "is_queued q i = list_ex (\<lambda>e. qe_id e = i) (waitlist q)"

definition queue_position :: "queue \<Rightarrow> string \<Rightarrow> nat option" where
  "queue_position q i = map_option (\<lambda>n. n + 1) (position (\<lambda>e. qe_id e = i) (waitlist q))"

definition slot_free_for :: "queue \<Rightarrow> bool \<Rightarrow> bool" where
  "slot_free_for q holds =
     (if holds then length (playing q) < max_players (config q)
      else length (playing q) < open_slots (config q))"

definition queue_join :: "queue \<Rightarrow> join_request \<Rightarrow> u64 \<Rightarrow> queue \<times> join_outcome" where
  "queue_join q req now =
     (let e = \<lparr>qe_id = jr_id req, holds_reservation = jr_holds_reservation req, enqueued_at_ms = now\<rparr> in
      if trim (jr_id req) = [] then (q, RejectedJoin InvalidId)
      else if is_playing q (jr_id req) \<or> is_queued q (jr_id req) then (q, RejectedJoin AlreadyPresent)
      else if slot_free_for q (jr_holds_reservation req) then (q\<lparr>playing := playing q @ [e]\<rparr>, Admitted)
      else if length (waitlist q) < max_queue_len (config q) then
        (let q' = q\<lparr>waitlist := waitlist q @ [e]\<rparr> in (q', Queued (length (waitlist q'))))
      else if max_queue_len (config q) = 0 then (q, RejectedJoin ServerFull)
      else (q, RejectedJoin QueueFull))"

definition promote_front_fit :: "queue \<Rightarrow> queue \<times> string option" where
  "promote_front_fit q =
     (case position (\<lambda>e. slot_free_for q (holds_reservation e)) (waitlist q) of
        None \<Rightarrow> (q, None)
      | Some at \<Rightarrow>
          let entry = waitlist q ! at in
          (q\<lparr>waitlist := remove_at at (waitlist q), playing := playing q @ [entry]\<rparr>, Some (qe_id entry)))"

definition playing_leave :: "queue \<Rightarrow> string \<Rightarrow> queue \<times> string option" where
  "playing_leave q i =
     (case position (\<lambda>e. qe_id e = i) (playing q) of
        None \<Rightarrow> (q, None)
      | Some at \<Rightarrow> promote_front_fit (q\<lparr>playing := remove_at at (playing q)\<rparr>))"

definition queue_leave :: "queue \<Rightarrow> string \<Rightarrow> queue \<times> bool" where
  "queue_leave q i =
     (case position (\<lambda>e. qe_id e = i) (waitlist q) of
        Some at \<Rightarrow> (q\<lparr>waitlist := remove_at at (waitlist q)\<rparr>, True)
      | None \<Rightarrow> (q, False))"

definition entry_stale :: "u64 \<Rightarrow> u64 \<Rightarrow> queued_entry \<Rightarrow> bool" where
  "entry_stale ttl now e =
     (let age = (if now < enqueued_at_ms e then 0 else now - enqueued_at_ms e) in ttl < age)"

definition expire_stale :: "queue \<Rightarrow> u64 \<Rightarrow> queue \<times> string list" where
  "expire_stale q now =
     (let ttl = stale_after_ms (config q) in
      if ttl = 0 then (q, [])
      else (q\<lparr>waitlist := filter (\<lambda>e. \<not> entry_stale ttl now e) (waitlist q)\<rparr>,
            map qe_id (filter (entry_stale ttl now) (waitlist q))))"

section \<open>Operations as steps\<close>

datatype queue_op =
    OpJoin join_request u64
  | OpPlayingLeave string
  | OpQueueLeave string
  | OpExpire u64

fun queue_step :: "queue \<Rightarrow> queue_op \<Rightarrow> queue" where
  "queue_step q (OpJoin req now) = fst (queue_join q req now)"
| "queue_step q (OpPlayingLeave i) = fst (playing_leave q i)"
| "queue_step q (OpQueueLeave i) = fst (queue_leave q i)"
| "queue_step q (OpExpire now) = fst (expire_stale q now)"

text \<open>
  The promises of the module comment: the slots are bounded, players without a reservation never
  occupy more than the open slots, the waitlist is bounded, nobody is present twice, and nobody
  waits for a slot that is free for them.
\<close>

definition ids :: "queue \<Rightarrow> string list" where
  "ids q = map qe_id (playing q) @ map qe_id (waitlist q)"

definition queue_shape :: "queue \<Rightarrow> bool" where
  "queue_shape q \<longleftrightarrow>
     length (playing q) \<le> max_players (config q) \<and>
     length (filter (\<lambda>e. \<not> holds_reservation e) (playing q)) \<le> open_slots (config q) \<and>
     length (waitlist q) \<le> max_queue_len (config q) \<and>
     distinct (ids q) \<and>
     (\<forall>i \<in> set (ids q). trim i \<noteq> [])"

definition queue_ok :: "queue \<Rightarrow> bool" where
  "queue_ok q \<longleftrightarrow> queue_shape q \<and> (\<forall>e \<in> set (waitlist q). \<not> slot_free_for q (holds_reservation e))"

lemma open_slots_le [simp]: "open_slots c \<le> max_players c"
  by (simp add: open_slots_def)

lemma slot_free_for_mono:
  "config q' = config q \<Longrightarrow> length (playing q) \<le> length (playing q') \<Longrightarrow>
   slot_free_for q' h \<Longrightarrow> slot_free_for q h"
  by (auto simp: slot_free_for_def split: if_splits)

lemma slot_free_for_cong:
  "config q' = config q \<Longrightarrow> length (playing q') = length (playing q) \<Longrightarrow> slot_free_for q' h = slot_free_for q h"
  by (auto simp: slot_free_for_def)

lemma present_ids: "is_playing q i \<or> is_queued q i \<longleftrightarrow> i \<in> set (ids q)"
  by (auto simp: is_playing_def is_queued_def ids_def list_ex_iff)

lemma slot_free_max: "slot_free_for q h \<Longrightarrow> length (playing q) < max_players (config q)"
  by (auto simp: slot_free_for_def open_slots_def split: if_splits)

lemma slot_free_open:
  "slot_free_for q False \<Longrightarrow> length (filter P (playing q)) < open_slots (config q)"
  by (auto simp: slot_free_for_def intro: le_less_trans [OF length_filter_le])

lemma shape_add_player:
  assumes "queue_shape q" and "slot_free_for q (holds_reservation e)"
    and "qe_id e \<notin> set (ids q)" and "trim (qe_id e) \<noteq> []"
  shows "queue_shape (q\<lparr>playing := playing q @ [e]\<rparr>)"
  using assms slot_free_max [OF assms(2)] slot_free_open [of q "\<lambda>e. \<not> holds_reservation e"]
  by (auto simp: queue_shape_def ids_def)

lemma shape_drop_waiter:
  assumes "queue_shape q" and "waitlist q = a @ e # b"
  shows "queue_shape (q\<lparr>waitlist := a @ b\<rparr>)"
    and "qe_id e \<notin> set (ids (q\<lparr>waitlist := a @ b\<rparr>))" and "trim (qe_id e) \<noteq> []"
  using assms by (simp_all add: queue_shape_def ids_def)

lemma shape_drop_player:
  assumes "queue_shape q" and "playing q = a @ e # b"
  shows "queue_shape (q\<lparr>playing := a @ b\<rparr>)"
  using assms by (cases "holds_reservation e") (auto simp: queue_shape_def ids_def)

lemma promote_cases [case_names none some]:
  obtains "promote_front_fit q = (q, None)" "\<forall>e \<in> set (waitlist q). \<not> slot_free_for q (holds_reservation e)"
  | a e b where "waitlist q = a @ e # b" "slot_free_for q (holds_reservation e)"
      "\<forall>x \<in> set a. \<not> slot_free_for q (holds_reservation x)"
      "promote_front_fit q = (q\<lparr>waitlist := a @ b, playing := playing q @ [e]\<rparr>, Some (qe_id e))"
proof (cases "position (\<lambda>e. slot_free_for q (holds_reservation e)) (waitlist q)")
  case None
  then have "promote_front_fit q = (q, None)" by (simp add: promote_front_fit_def)
  with None show ?thesis using that(1) by (simp add: position_None)
next
  case (Some at)
  obtain a e b where "waitlist q = a @ e # b" "remove_at at (waitlist q) = a @ b" "waitlist q ! at = e"
    "slot_free_for q (holds_reservation e)" "\<forall>x \<in> set a. \<not> slot_free_for q (holds_reservation x)"
    by (rule remove_at_split [OF Some])
  then show ?thesis using that(2) Some by (simp add: promote_front_fit_def Let_def)
qed

text \<open>
  A promotion restores the contract when one player more would have kept every waiter out.
\<close>

lemma promote_ok:
  assumes "queue_shape q"
    and "\<forall>e \<in> set (waitlist q). \<not> slot_free_for (q\<lparr>playing := playing q @ [x]\<rparr>) (holds_reservation e)"
  shows "queue_ok (fst (promote_front_fit q))"
proof (cases rule: promote_cases [of q])
  case none
  with assms(1) show ?thesis by (simp add: queue_ok_def)
next
  case (some a e b)
  let ?q = "q\<lparr>waitlist := a @ b\<rparr>"
  have "queue_shape ?q" "qe_id e \<notin> set (ids ?q)" "trim (qe_id e) \<noteq> []"
    using shape_drop_waiter [OF assms(1) some(1)] by simp_all
  moreover have "slot_free_for ?q (holds_reservation e)"
    using some(2) by (simp add: slot_free_for_cong [of ?q q])
  ultimately have "queue_shape (q\<lparr>waitlist := a @ b, playing := playing q @ [e]\<rparr>)"
    using shape_add_player [of ?q e] by simp
  moreover have "slot_free_for (q\<lparr>waitlist := a @ b, playing := playing q @ [e]\<rparr>) h
      = slot_free_for (q\<lparr>playing := playing q @ [x]\<rparr>) h" for h
    by (rule slot_free_for_cong) simp_all
  ultimately show ?thesis
    using assms(2) some(1,4) by (auto simp: queue_ok_def)
qed

lemma split_unique:
  assumes "a' @ e' # b' = a @ e # b" and "f e' = f e" and "distinct (map f (a @ e # b))"
  shows "a' = a \<and> b' = b"
  using assms
proof (induction a arbitrary: a')
  case Nil
  then show ?case by (cases a') auto
next
  case (Cons x a)
  then show ?case by (cases a') auto
qed

text \<open>Who leaves, and with whom the slot is filled.\<close>

lemma playing_leave_cases [case_names absent present]:
  obtains "playing_leave q i = (q, None)" "i \<notin> set (map qe_id (playing q))"
  | a e b where "playing q = a @ e # b" "qe_id e = i"
      "playing_leave q i = promote_front_fit (q\<lparr>playing := a @ b\<rparr>)"
proof (cases "position (\<lambda>e. qe_id e = i) (playing q)")
  case None
  then have "playing_leave q i = (q, None)" by (simp add: playing_leave_def)
  moreover have "i \<notin> set (map qe_id (playing q))" using None by (auto simp: position_None)
  ultimately show ?thesis by (rule that(1))
next
  case (Some at)
  obtain a e b where "playing q = a @ e # b" and r: "remove_at at (playing q) = a @ b" and "qe_id e = i"
    by (rule remove_at_split [OF Some])
  moreover have "playing_leave q i = promote_front_fit (q\<lparr>playing := a @ b\<rparr>)"
    by (simp add: playing_leave_def Some r)
  ultimately show ?thesis using that(2) by blast
qed

lemma playing_leave_ok:
  assumes "queue_ok q"
  shows "queue_ok (fst (playing_leave q i))"
proof (cases rule: playing_leave_cases [of q i])
  case absent
  with assms show ?thesis by simp
next
  case (present a e b)
  let ?q = "q\<lparr>playing := a @ b\<rparr>"
  have "slot_free_for (?q\<lparr>playing := playing ?q @ [e]\<rparr>) h = slot_free_for q h" for h
    using present(1) by (intro slot_free_for_cong) auto
  then have "queue_ok (fst (promote_front_fit ?q))"
    using assms shape_drop_player [OF _ present(1)] by (intro promote_ok) (auto simp: queue_ok_def)
  then show ?thesis by (simp only: present(3))
qed

lemma join_cases [case_names invalid dup admit wait full]:
  obtains "trim (jr_id req) = []" "queue_join q req now = (q, RejectedJoin InvalidId)"
  | "jr_id req \<in> set (ids q)" "queue_join q req now = (q, RejectedJoin AlreadyPresent)"
  | e where "trim (jr_id req) \<noteq> []" "jr_id req \<notin> set (ids q)" "qe_id e = jr_id req"
      "holds_reservation e = jr_holds_reservation req"
      "slot_free_for q (holds_reservation e)" "queue_join q req now = (q\<lparr>playing := playing q @ [e]\<rparr>, Admitted)"
  | e where "trim (jr_id req) \<noteq> []" "jr_id req \<notin> set (ids q)" "qe_id e = jr_id req"
      "holds_reservation e = jr_holds_reservation req"
      "\<not> slot_free_for q (holds_reservation e)" "length (waitlist q) < max_queue_len (config q)"
      "queue_join q req now = (q\<lparr>waitlist := waitlist q @ [e]\<rparr>, Queued (Suc (length (waitlist q))))"
  | r where "trim (jr_id req) \<noteq> []" "jr_id req \<notin> set (ids q)" "\<not> slot_free_for q (jr_holds_reservation req)"
      "max_queue_len (config q) \<le> length (waitlist q)" "r \<in> {ServerFull, QueueFull}"
      "queue_join q req now = (q, RejectedJoin r)"
proof -
  define e where "e = \<lparr>qe_id = jr_id req, holds_reservation = jr_holds_reservation req, enqueued_at_ms = now\<rparr>"
  note defs = queue_join_def e_def [symmetric] Let_def present_ids
  have e: "qe_id e = jr_id req" "holds_reservation e = jr_holds_reservation req" by (simp_all add: e_def)
  consider "trim (jr_id req) = []" | "trim (jr_id req) \<noteq> []" "jr_id req \<in> set (ids q)"
    | "trim (jr_id req) \<noteq> []" "jr_id req \<notin> set (ids q)" by blast
  then show thesis
  proof cases
    case 3
    consider "slot_free_for q (holds_reservation e)"
      | "\<not> slot_free_for q (holds_reservation e)" "length (waitlist q) < max_queue_len (config q)"
      | "\<not> slot_free_for q (holds_reservation e)" "max_queue_len (config q) \<le> length (waitlist q)"
      by linarith
    then show thesis
    proof cases
      case 1
      with 3 e show thesis by (intro that(3) [of e]) (simp_all add: defs)
    next
      case 2
      with 3 e show thesis by (intro that(4) [of e]) (simp_all add: defs)
    next
      case n: 3
      with 3 e show thesis
        by (intro that(5) [of "if max_queue_len (config q) = 0 then ServerFull else QueueFull"]) (simp_all add: defs)
    qed
  qed (simp_all add: that(1,2) defs)
qed

lemma join_ok:
  assumes "queue_ok q"
  shows "queue_ok (fst (queue_join q req now))"
proof (cases rule: join_cases [of req q now])
  case (admit e)
  then have "queue_shape (q\<lparr>playing := playing q @ [e]\<rparr>)"
    using assms by (intro shape_add_player) (auto simp: queue_ok_def)
  moreover have "slot_free_for (q\<lparr>playing := playing q @ [e]\<rparr>) h \<Longrightarrow> slot_free_for q h" for h
    by (erule slot_free_for_mono [rotated 2]) simp_all
  ultimately show ?thesis using assms admit by (auto simp: queue_ok_def)
next
  case (wait e)
  then have "queue_shape (q\<lparr>waitlist := waitlist q @ [e]\<rparr>)"
    using assms by (auto simp: queue_ok_def queue_shape_def ids_def)
  moreover have "slot_free_for (q\<lparr>waitlist := waitlist q @ [e]\<rparr>) h = slot_free_for q h" for h
    by (rule slot_free_for_cong) simp_all
  ultimately show ?thesis using assms wait by (auto simp: queue_ok_def)
qed (use assms in simp_all)

lemma waitlist_shrink_ok:
  assumes "queue_ok q" and "set w \<subseteq> set (waitlist q)" and "distinct (map qe_id w)" and "length w \<le> length (waitlist q)"
  shows "queue_ok (q\<lparr>waitlist := w\<rparr>)"
proof -
  have "slot_free_for (q\<lparr>waitlist := w\<rparr>) h = slot_free_for q h" for h
    by (rule slot_free_for_cong) simp_all
  moreover have "queue_shape (q\<lparr>waitlist := w\<rparr>)"
    using assms unfolding queue_ok_def queue_shape_def ids_def by auto
  ultimately show ?thesis using assms by (auto simp: queue_ok_def)
qed

lemma waitlist_distinct: "queue_ok q \<Longrightarrow> distinct (map qe_id (waitlist q))"
  by (simp add: queue_ok_def queue_shape_def ids_def)

lemma queue_leave_ok: "queue_ok q \<Longrightarrow> queue_ok (fst (queue_leave q i))"
proof (cases "position (\<lambda>e. qe_id e = i) (waitlist q)")
  case None
  then show "queue_ok q \<Longrightarrow> ?thesis" by (simp add: queue_leave_def)
next
  case (Some at)
  obtain a e b where w: "waitlist q = a @ e # b" and r: "remove_at at (waitlist q) = a @ b"
    by (rule remove_at_split [OF Some])
  assume ok: "queue_ok q"
  have "fst (queue_leave q i) = q\<lparr>waitlist := a @ b\<rparr>"
    by (simp add: queue_leave_def Some r)
  moreover have "queue_ok (q\<lparr>waitlist := a @ b\<rparr>)"
    using waitlist_distinct [OF ok] by (intro waitlist_shrink_ok [OF ok]) (auto simp: w)
  ultimately show ?thesis by simp
qed

lemma expire_ok: "queue_ok q \<Longrightarrow> queue_ok (fst (expire_stale q now))"
  using waitlist_shrink_ok [of q "filter (\<lambda>e. \<not> entry_stale (stale_after_ms (config q)) now e) (waitlist q)"]
    waitlist_distinct [of q]
  by (auto simp: expire_stale_def Let_def distinct_map_filter)

lemma step_ok: "queue_ok q \<Longrightarrow> queue_ok (queue_step q op)"
  by (cases op) (simp_all add: join_ok playing_leave_ok queue_leave_ok expire_ok)

lemma new_ok: "queue_ok (queue_new c)"
  by (simp add: queue_ok_def queue_shape_def queue_new_def ids_def)

interpretation queue_run: op_system "queue_new c" queue_step queue_ok for c
  by unfold_locales (simp_all add: new_ok step_ok)

lemma full_if_waiting: "queue_ok q \<Longrightarrow> waitlist q \<noteq> [] \<Longrightarrow> open_slots (config q) \<le> length (playing q)"
  using open_slots_le [of "config q"]
  by (cases "waitlist q") (auto simp: queue_ok_def slot_free_for_def simp del: open_slots_le split: if_splits)

section \<open>Properties\<close>

text \<open>
  C22. In every state the queue reaches, the slots and the waitlist are within their bounds,
  players without a reservation occupy at most the open slots, no id is present twice, and no
  waiting player could be admitted at once (nobody waits for a slot that is free for them).
\<close>

theorem queue_invariant:
  "let q = foldl queue_step (queue_new c) ops in
     length (playing q) \<le> max_players (config q) \<and>
     length (filter (\<lambda>e. \<not> holds_reservation e) (playing q)) \<le> open_slots (config q) \<and>
     length (waitlist q) \<le> max_queue_len (config q) \<and>
     distinct (ids q) \<and>
     filter (\<lambda>e. slot_free_for q (holds_reservation e)) (waitlist q) = []"
  using queue_run.inv_reach [of c ops]
  by (auto simp: queue_ok_def queue_shape_def Let_def filter_empty_conv)

text \<open>
  C23. A slot that frees goes to the first waiting player the reservation rule allows: leaving
  removes the player from the playing list and moves exactly that entry from the waitlist, whose
  order is otherwise kept; when nobody is moved, nobody on the waitlist is allowed the slot.
\<close>

theorem playing_leave_fifo:
  assumes "queue_ok q" and "playing q = a @ e # b" and "playing_leave q (qe_id e) = (q', promoted)"
  shows "case promoted of
      None \<Rightarrow> playing q' = a @ b \<and> waitlist q' = waitlist q \<and>
        list_all (\<lambda>w. \<not> slot_free_for q' (holds_reservation w)) (waitlist q)
    | Some i \<Rightarrow> \<exists>before w after. waitlist q = before @ w # after \<and> qe_id w = i \<and>
        slot_free_for (q\<lparr>playing := a @ b\<rparr>) (holds_reservation w) \<and>
        list_all (\<lambda>x. \<not> slot_free_for (q\<lparr>playing := a @ b\<rparr>) (holds_reservation x)) before \<and>
        playing q' = a @ b @ [w] \<and> waitlist q' = before @ after"
proof -
  have dist: "distinct (map qe_id (playing q))"
    using assms(1) by (simp add: queue_ok_def queue_shape_def ids_def)
  have leave: "playing_leave q (qe_id e) = promote_front_fit (q\<lparr>playing := a @ b\<rparr>)"
  proof (cases rule: playing_leave_cases [of q "qe_id e"])
    case absent
    with assms(2) show ?thesis by simp
  next
    case (present a' e' b')
    then have "a' = a \<and> b' = b"
      using dist assms(2) by (intro split_unique [of a' e' b' a e b qe_id]) simp_all
    with present show ?thesis by simp
  qed
  show ?thesis
  proof (cases rule: promote_cases [of "q\<lparr>playing := a @ b\<rparr>"])
    case none
    with assms(3) show ?thesis by (auto simp: leave list_all_iff)
  next
    case (some before w after)
    then have "promoted = Some (qe_id w)" "playing q' = a @ b @ [w]" "waitlist q' = before @ after"
      using assms(3) by (auto simp: leave)
    with some show ?thesis by (fastforce simp: list_all_iff)
  qed
qed

definition demo_entry :: "string \<Rightarrow> queued_entry" where
  "demo_entry i = \<lparr>qe_id = i, holds_reservation = False, enqueued_at_ms = 0\<rparr>"

definition demo_queue :: queue where
  "demo_queue = foldl queue_step
     (queue_new \<lparr>max_players = 1, reserved_slots = 0, max_queue_len = 4, stale_after_ms = 0\<rparr>)
     (map (\<lambda>i. OpJoin \<lparr>jr_id = i, jr_holds_reservation = False\<rparr> 0) [''a'', ''b'', ''c''])"

theorem playing_leave_fifo_witness:
  "queue_ok demo_queue \<and> playing demo_queue = [] @ demo_entry ''a'' # [] \<and>
   (\<exists>w. playing (fst (playing_leave demo_queue ''a'')) = [w] \<and> qe_id w = ''b'')"
proof -
  have ok: "queue_ok demo_queue"
    unfolding demo_queue_def by (rule queue_run.inv_reach)
  have play: "playing demo_queue = [] @ demo_entry ''a'' # []" by code_simp
  have leave: "playing_leave demo_queue (qe_id (demo_entry ''a''))
      = (fst (playing_leave demo_queue ''a''), Some ''b'')" by code_simp
  show ?thesis
    using playing_leave_fifo [OF ok play leave] ok play by auto
qed

end
