(* ===== verification/Deferrals.thy ===== *)
theory Deferrals
  imports Prelude
begin

text \<open>
  The pre-join gates of \<open>crates/ald-deferrals\<close>. A gate is a name, its private state and its check
  (an \<open>FnMut\<close> closure: it may change that state); a session runs the gates in order.
\<close>

definition TIMEOUT_CODE :: string where "TIMEOUT_CODE = ''ALD-QUEUE-TIMEOUT''"

text \<open>\<open>Connecting\<close> followed by the ellipsis U+2026.\<close>

definition DEFAULT_WAIT_MESSAGE :: string where
  "DEFAULT_WAIT_MESSAGE = ''Connecting'' @ [CHR 0xE2, CHR 0x80, CHR 0xA6]"

definition MAX_MESSAGE_LEN :: nat where "MAX_MESSAGE_LEN = 256"

record deferral_context =
  dc_player_id :: string
  dc_remote_ip :: string
  dc_queue_position :: "nat option"

datatype gate_decision = GatePass | GateWait string | GateDeny string string

record 's gate =
  gate_name :: string
  gate_state :: 's
  gate_check :: "'s \<Rightarrow> deferral_context \<Rightarrow> 's \<times> gate_decision"

datatype session_outcome =
    Admit
  | Denied string string string
  | Waiting string string

record 's deferral_session =
  gates :: "'s gate list"
  current :: nat
  polls :: u64
  max_polls :: u64

definition deferral_session_new :: "'s gate list \<Rightarrow> u64 \<Rightarrow> 's deferral_session" where
  "deferral_session_new gs mx = \<lparr>gates = gs, current = 0, polls = 0, max_polls = max mx 1\<rparr>"

text \<open>\<open>str::is_char_boundary\<close> below the length: the byte is not a continuation byte.\<close>

definition is_char_boundary :: "string \<Rightarrow> nat \<Rightarrow> bool" where
  "is_char_boundary s i =
     (i = 0 \<or> i = length s \<or> (i < length s \<and> \<not> (0x80 \<le> (of_char (s ! i) :: nat) \<and> (of_char (s ! i) :: nat) < 0xC0)))"

fun boundary_at_or_before :: "string \<Rightarrow> nat \<Rightarrow> nat" where
  "boundary_at_or_before s 0 = 0"
| "boundary_at_or_before s (Suc n) = (if is_char_boundary s (Suc n) then Suc n else boundary_at_or_before s n)"

definition bound_message :: "string \<Rightarrow> string" where
  "bound_message raw =
     (let trimmed = trim raw;
          base = (if trimmed = [] then DEFAULT_WAIT_MESSAGE else trimmed) in
      if length base \<le> MAX_MESSAGE_LEN then base
      else take (boundary_at_or_before base MAX_MESSAGE_LEN) base)"

definition run_gate :: "'s deferral_session \<Rightarrow> deferral_context \<Rightarrow> 's deferral_session \<times> gate_decision" where
  "run_gate d ctx =
     (let g = gates d ! current d; (st, dec) = gate_check g (gate_state g) ctx in
      (d\<lparr>gates := (gates d)[current d := g\<lparr>gate_state := st\<rparr>]\<rparr>, dec))"

lemma run_gate_frame [simp]:
  "length (gates (fst (run_gate d ctx))) = length (gates d)" "current (fst (run_gate d ctx)) = current d"
  "polls (fst (run_gate d ctx)) = polls d" "max_polls (fst (run_gate d ctx)) = max_polls d"
  "map gate_name (gates (fst (run_gate d ctx))) = map gate_name (gates d)"
  by (auto simp: run_gate_def Let_def map_update split: prod.splits)
    (metis list_update_id map_update nth_map gate.select_convs(1) gate.surjective gate.update_convs(2) list_update_beyond not_le)

text \<open>The loop of \<open>poll\<close>: each turn passes one gate or returns.\<close>

function drive_gates :: "'s deferral_session \<Rightarrow> deferral_context \<Rightarrow> 's deferral_session \<times> session_outcome" where
  "drive_gates d ctx =
     (if current d < length (gates d) then
        (let name = gate_name (gates d ! current d); (d', dec) = run_gate d ctx in
         case dec of
           GatePass \<Rightarrow> drive_gates (d'\<lparr>current := current d' + 1\<rparr>) ctx
         | GateWait message \<Rightarrow> (d', Waiting (bound_message message) name)
         | GateDeny code reason \<Rightarrow> (d', Denied code (bound_message reason) name))
      else (d, Admit))"
  by pat_completeness auto
termination
proof (relation "measure (\<lambda>(d, ctx). length (gates d) - current d)", goal_cases)
  case (2 d ctx name p d' dec)
  then have "d' = fst (run_gate d ctx)" by (metis fst_conv)
  with 2 show ?case by simp
qed simp

declare drive_gates.simps [simp del]

definition poll :: "'s deferral_session \<Rightarrow> deferral_context \<Rightarrow> 's deferral_session \<times> session_outcome" where
  "poll d0 ctx =
     (let d = d0\<lparr>polls := polls d0 + 1\<rparr> in
      if max_polls d < polls d then
        (d, Denied TIMEOUT_CODE ''Connection timed out during pre-join checks.''
              (if current d < length (gates d) then gate_name (gates d ! current d) else []))
      else drive_gates d ctx)"

section \<open>Lemmas\<close>

lemma drive_frame:
  "polls (fst (drive_gates d ctx)) = polls d" "max_polls (fst (drive_gates d ctx)) = max_polls d"
  "length (gates (fst (drive_gates d ctx))) = length (gates d)" "current d \<le> current (fst (drive_gates d ctx))"
proof (induction d ctx rule: drive_gates.induct)
  case (1 d ctx)
  obtain d' dec where r: "run_gate d ctx = (d', dec)" by (cases "run_gate d ctx")
  have d': "length (gates d') = length (gates d)" "current d' = current d" "polls d' = polls d"
    "max_polls d' = max_polls d"
    using run_gate_frame [of d ctx] by (simp_all add: r)
  {
    case 1 show ?case using "1.IH"(1) [OF _ refl r [symmetric] refl]
      by (subst drive_gates.simps) (auto simp: r d' Let_def split: gate_decision.splits)
  next
    case 2 show ?case using "1.IH"(2) [OF _ refl r [symmetric] refl]
      by (subst drive_gates.simps) (auto simp: r d' Let_def split: gate_decision.splits)
  next
    case 3 show ?case using "1.IH"(3) [OF _ refl r [symmetric] refl]
      by (subst drive_gates.simps) (auto simp: r d' Let_def split: gate_decision.splits)
  next
    case 4 show ?case using "1.IH"(4) [OF _ refl r [symmetric] refl]
      by (subst drive_gates.simps) (fastforce simp: r d' Let_def split: gate_decision.splits)
  }
qed

text \<open>The answer a gate gives in its present state.\<close>

definition verdict :: "'s deferral_session \<Rightarrow> deferral_context \<Rightarrow> nat \<Rightarrow> gate_decision" where
  "verdict d ctx i = snd (gate_check (gates d ! i) (gate_state (gates d ! i)) ctx)"

lemma run_gate_verdict:
  assumes "run_gate d ctx = (d', dec)"
  shows "dec = verdict d ctx (current d)" and "i \<noteq> current d \<Longrightarrow> verdict d' ctx i = verdict d ctx i"
  using assms by (auto simp: run_gate_def verdict_def Let_def split: prod.splits)

lemma gate_name_nth:
  assumes "map gate_name gs = map gate_name hs" and "i < length hs"
  shows "gate_name (gs ! i) = gate_name (hs ! i)"
proof -
  have "length gs = length hs" using assms(1) by (rule map_eq_imp_length_eq)
  then show ?thesis using assms nth_map [of i gs gate_name] nth_map [of i hs gate_name] by simp
qed

text \<open>One poll stops at the first gate, from the current one on, that does not pass.\<close>

lemma drive_gates_first:
  "(\<forall>i. current d \<le> i \<and> i < length (gates d) \<longrightarrow> verdict d ctx i = GatePass) \<and>
     snd (drive_gates d ctx) = Admit \<and> current (fst (drive_gates d ctx)) = max (current d) (length (gates d)) \<or>
   (\<exists>k. current d \<le> k \<and> k < length (gates d) \<and> (\<forall>i. current d \<le> i \<and> i < k \<longrightarrow> verdict d ctx i = GatePass) \<and>
     current (fst (drive_gates d ctx)) = k \<and>
     ((\<exists>m. verdict d ctx k = GateWait m \<and>
          snd (drive_gates d ctx) = Waiting (bound_message m) (gate_name (gates d ! k))) \<or>
      (\<exists>c r. verdict d ctx k = GateDeny c r \<and>
          snd (drive_gates d ctx) = Denied c (bound_message r) (gate_name (gates d ! k)))))"
  (is "?all d ctx \<or> (\<exists>k. ?stop d ctx k)")
proof (induction d ctx rule: drive_gates.induct)
  case (1 d ctx)
  show ?case
  proof (cases "current d < length (gates d)")
    case False
    then show ?thesis by (subst (1 2) drive_gates.simps) auto
  next
    case True
    obtain d' dec where r: "run_gate d ctx = (d', dec)" by (cases "run_gate d ctx")
    note v = run_gate_verdict [OF r]
    have frame: "length (gates d') = length (gates d)" "current d' = current d"
      "map gate_name (gates d') = map gate_name (gates d)"
      using run_gate_frame [of d ctx] by (simp_all add: r)
    show ?thesis
    proof (cases dec)
      case GatePass
      let ?d = "d'\<lparr>current := Suc (current d)\<rparr>"
      have step: "drive_gates d ctx = drive_gates ?d ctx"
        using True GatePass by (subst drive_gates.simps) (simp add: r frame Let_def)
      have vd: "verdict ?d ctx i = verdict d ctx i" if "Suc (current d) \<le> i" for i
        using v(2) [of i] that by (simp add: verdict_def)
      have names: "gate_name (gates ?d ! k) = gate_name (gates d ! k)" if "k < length (gates d)" for k
        using gate_name_nth [OF frame(3) that] by simp
      have pass: "verdict d ctx (current d) = GatePass" using v(1) GatePass by simp
      have IH: "?all ?d ctx \<or> (\<exists>k. ?stop ?d ctx k)"
        using 1 [OF True refl r [symmetric] refl GatePass] by (simp add: frame)
      show ?thesis
      proof (cases "?all ?d ctx")
        case True2: True
        have "verdict d ctx i = GatePass" if "current d \<le> i" "i < length (gates d)" for i
          using True2 vd [of i] pass that by (cases "i = current d") (auto simp: frame)
        with True2 True show ?thesis by (intro disjI1) (auto simp: step frame)
      next
        case False
        then obtain k where k: "?stop ?d ctx k" using IH by blast
        have "verdict d ctx i = GatePass" if "current d \<le> i" "i < k" for i
          using k vd [of i] pass that by (cases "i = current d") auto
        then have "?stop d ctx k" using k vd [of k] names [of k] by (auto simp: step frame)
        then show ?thesis by blast
      qed
    next
      case (GateWait m)
      then have "?stop d ctx (current d)"
        using True v(1) by (subst (1 2 3) drive_gates.simps) (auto simp: r frame Let_def)
      then show ?thesis by blast
    next
      case (GateDeny c m)
      then have "?stop d ctx (current d)"
        using True v(1) by (subst (1 2 3) drive_gates.simps) (auto simp: r frame Let_def)
      then show ?thesis by blast
    qed
  qed
qed

lemma poll_count [simp]:
  "polls (fst (poll d ctx)) = polls d + 1" "max_polls (fst (poll d ctx)) = max_polls d"
  by (simp_all add: poll_def Let_def drive_frame)

lemma poll_run_count:
  "polls (foldl (\<lambda>d c. fst (poll d c)) d cs) = polls d + of_nat (length cs)"
  "max_polls (foldl (\<lambda>d c. fst (poll d c)) d cs) = max_polls d"
  by (induction cs arbitrary: d) (simp_all add: ac_simps)

text \<open>Player-facing text is never longer than the bound and never cut inside a character.\<close>

lemma boundary_le: "boundary_at_or_before s n \<le> n"
  by (induction n) auto

lemma boundary_is: "is_char_boundary s (boundary_at_or_before s n)"
  by (induction n) (auto simp: is_char_boundary_def)

lemma bound_message_bounded:
  "length (bound_message raw) \<le> MAX_MESSAGE_LEN"
  using boundary_le [of _ MAX_MESSAGE_LEN] by (auto simp: bound_message_def Let_def min_le_iff_disj)

lemma bound_message_cut:
  "\<exists>rest. (if trim raw = [] then DEFAULT_WAIT_MESSAGE else trim raw) = bound_message raw @ rest \<and>
     is_char_boundary (bound_message raw @ rest) (length (bound_message raw))"
proof -
  define base where "base = (if trim raw = [] then DEFAULT_WAIT_MESSAGE else trim raw)"
  define cut where "cut = (if length base \<le> MAX_MESSAGE_LEN then length base else boundary_at_or_before base MAX_MESSAGE_LEN)"
  have m: "bound_message raw = take cut base"
    by (simp add: bound_message_def base_def cut_def Let_def)
  have "cut \<le> length base" using boundary_le [of base MAX_MESSAGE_LEN] by (auto simp: cut_def)
  moreover have "is_char_boundary base cut" by (simp add: cut_def boundary_is) (simp add: is_char_boundary_def)
  ultimately show ?thesis
    unfolding base_def [symmetric] m by (intro exI [of _ "drop cut base"]) simp
qed

section \<open>Properties\<close>

text \<open>
  C24. A poll within the limit runs the gates in order from the current one and stops at the
  first that does not pass: it admits exactly when every remaining gate passes, and otherwise
  reports that gate's wait or denial, with its name and a bounded message, and resumes there.
\<close>

theorem poll_gates_in_order:
  assumes "polls d + 1 \<le> max_polls d" and "current d \<le> length (gates d)"
  shows "(snd (poll d ctx) = Admit \<longleftrightarrow> (\<forall>i. current d \<le> i \<and> i < length (gates d) \<longrightarrow> verdict d ctx i = GatePass)) \<and>
    (snd (poll d ctx) \<noteq> Admit \<longrightarrow>
      (let k = current (fst (poll d ctx)) in
        current d \<le> k \<and> k < length (gates d) \<and> (\<forall>i. current d \<le> i \<and> i < k \<longrightarrow> verdict d ctx i = GatePass) \<and>
        (case verdict d ctx k of
           GatePass \<Rightarrow> False
         | GateWait m \<Rightarrow> snd (poll d ctx) = Waiting (bound_message m) (gate_name (gates d ! k))
         | GateDeny c r \<Rightarrow> snd (poll d ctx) = Denied c (bound_message r) (gate_name (gates d ! k)))))"
proof -
  let ?d = "d\<lparr>polls := polls d + 1\<rparr>"
  have p: "poll d ctx = drive_gates ?d ctx" using leD [OF assms(1)] by (simp add: poll_def Let_def)
  have v: "verdict ?d ctx i = verdict d ctx i" for i by (simp add: verdict_def)
  show ?thesis
    using drive_gates_first [of ?d ctx] assms(2) unfolding p v Let_def
    by (elim disjE exE conjE) auto
qed

definition demo_gate :: "gate_decision \<Rightarrow> unit gate" where
  "demo_gate dec = \<lparr>gate_name = ''ban-check'', gate_state = (), gate_check = (\<lambda>s _. (s, dec))\<rparr>"

definition demo_ctx :: deferral_context where
  "demo_ctx = \<lparr>dc_player_id = ''p'', dc_remote_ip = ''127.0.0.1'', dc_queue_position = None\<rparr>"

theorem poll_gates_in_order_witness:
  "let d = deferral_session_new [demo_gate GatePass, demo_gate GatePass] 10 in
     polls d + 1 \<le> max_polls d \<and> current d \<le> length (gates d) \<and> snd (poll d demo_ctx) = Admit"
proof -
  let ?d = "deferral_session_new [demo_gate GatePass, demo_gate GatePass] 10"
  have h: "polls ?d + 1 \<le> max_polls ?d" "current ?d \<le> length (gates ?d)"
    by (simp_all add: deferral_session_new_def max_def)
  moreover have "\<forall>i. current ?d \<le> i \<and> i < length (gates ?d) \<longrightarrow> verdict ?d demo_ctx i = GatePass"
    by (auto simp: deferral_session_new_def verdict_def demo_gate_def less_Suc_eq)
  ultimately show ?thesis
    using poll_gates_in_order [OF h, of demo_ctx] by (simp add: Let_def)
qed

text \<open>
  No session waits for ever: after \<open>max_polls\<close> polls (at least one) the next poll answers
  with the timeout denial, whatever the gates do.
\<close>

lemma watchdog_denies:
  assumes "max (unat m) 1 \<le> length cs" and "length cs < 2 ^ 64 - 1"
  shows "\<exists>g. snd (poll (foldl (\<lambda>d c. fst (poll d c)) (deferral_session_new gs m) cs) ctx) =
    Denied TIMEOUT_CODE ''Connection timed out during pre-join checks.'' g"
proof -
  let ?d = "foldl (\<lambda>d c. fst (poll d c)) (deferral_session_new gs m) cs"
  have n: "polls ?d + 1 = of_nat (Suc (length cs))" "max_polls ?d = max m 1"
    by (simp_all add: poll_run_count deferral_session_new_def ac_simps)
  have "unat (of_nat (Suc (length cs)) :: u64) = Suc (length cs)"
    using assms(2) by (intro unat_of_nat_small) simp
  moreover have "unat (max m 1) = max (unat m) 1"
    by (simp add: max_def word_le_nat_alt)
  ultimately have "max_polls ?d < polls ?d + 1"
    using assms(1) n by (simp only: word_less_nat_alt)
  then show ?thesis by (simp add: poll_def Let_def)
qed

end
