(* ===== verification/Admission.thy ===== *)
theory Admission
  imports Queue Deferrals Packet
begin

text \<open>
  The admission path of the server: the handshake messages of
  \<open>crates/ald-protocol/src/handshake.rs\<close>, the identity policy of \<open>crates/ald-identity\<close> and the
  per-peer state machine of \<open>server/ald-server/src/admission.rs\<close>, which drives the deferral gates
  and the admission queue.

  Peers are values of a type variable. The rendering of a peer address and the ULID operations
  of the \<open>ulid\<close> crate are the fields of \<open>admission_env\<close>, an argument of the handlers.
\<close>

section \<open>Handshake messages\<close>

definition REJECT_PROTOCOL :: string where "REJECT_PROTOCOL = ''ALD-PROTO-001''"
definition REJECT_AUTH :: string where "REJECT_AUTH = ''ALD-AUTH-001''"
definition REJECT_IDENTITY :: string where "REJECT_IDENTITY = ''ALD-IDENTITY-001''"
definition REJECT_ENTITLEMENT :: string where "REJECT_ENTITLEMENT = ''ALD-ENT-001''"
definition REJECT_SERVER_FULL :: string where "REJECT_SERVER_FULL = ''ALD-QUEUE-001''"
definition REJECT_DEFERRAL :: string where "REJECT_DEFERRAL = ''ALD-QUEUE-002''"

datatype handshake_state =
    Idle | WaitingHello | WaitingAuth | WaitingIdentity | WaitingEntitlement | WaitingDeferrals
  | WaitingQueue | WaitingManifest | Ready | Rejected | Failed

definition is_terminal :: "handshake_state \<Rightarrow> bool" where
  "is_terminal s = (s \<in> {Ready, Rejected, Failed})"

record resource_entry =
  re_name :: string
  re_hash :: string
  re_size :: u64

datatype handshake_message =
    ClientHello u16 u32 string string
  | ServerHello u16 u64 string u32 "string list"
  | AuthChallenge string
  | ClientAuth string "string option" "string option" "string option"
  | AuthResult bool string
  | IdentityRequest
  | IdentityResponse string "string option" string "string option"
  | EntitlementRequest
  | EntitlementResult string string
  | DeferralUpdate string
  | DeferralDone
  | QueueUpdate nat nat
  | QueueAdmitted
  | ManifestOffer "resource_entry list"
  | ClientReady
  | ServerReady bool
  | Reject string string

fun tag :: "handshake_message \<Rightarrow> string" where
  "tag (ClientHello _ _ _ _) = ''ClientHello''"
| "tag (ServerHello _ _ _ _ _) = ''ServerHello''"
| "tag (AuthChallenge _) = ''AuthChallenge''"
| "tag (ClientAuth _ _ _ _) = ''ClientAuth''"
| "tag (AuthResult _ _) = ''AuthResult''"
| "tag IdentityRequest = ''IdentityRequest''"
| "tag (IdentityResponse _ _ _ _) = ''IdentityResponse''"
| "tag EntitlementRequest = ''EntitlementRequest''"
| "tag (EntitlementResult _ _) = ''EntitlementResult''"
| "tag (DeferralUpdate _) = ''DeferralUpdate''"
| "tag DeferralDone = ''DeferralDone''"
| "tag (QueueUpdate _ _) = ''QueueUpdate''"
| "tag QueueAdmitted = ''QueueAdmitted''"
| "tag (ManifestOffer _) = ''ManifestOffer''"
| "tag ClientReady = ''ClientReady''"
| "tag (ServerReady _) = ''ServerReady''"
| "tag (Reject _ _) = ''Reject''"

section \<open>Identity policy\<close>

datatype entitlement = Verified | NotOwned | NotLoggedIn | Unavailable | Unknown | EntError

fun as_code :: "entitlement \<Rightarrow> string" where
  "as_code Verified = ''VERIFIED''"
| "as_code NotOwned = ''NOT_OWNED''"
| "as_code NotLoggedIn = ''NOT_LOGGED_IN''"
| "as_code Unavailable = ''UNAVAILABLE''"
| "as_code Unknown = ''UNKNOWN''"
| "as_code EntError = ''ERROR''"

record steam_identity =
  steam_id64 :: string
  steam_hex :: string
  steam_verified :: bool

record rockstar_identity =
  rs_account_id :: "string option"
  rs_entitlement :: entitlement
  rs_verified :: bool

record epic_identity =
  epic_account_id :: "string option"
  epic_verified :: bool

record device_identity =
  device_id :: string
  confidence :: string
  dev_version :: u8
  first_seen :: u64
  dev_last_seen :: u64

record player_identity =
  pi_aldivine_id :: player_id
  rockstar :: rockstar_identity
  steam :: "steam_identity option"
  epic :: epic_identity
  device :: "device_identity option"
  network_remote_ip :: string

definition player_identity_new :: "player_id \<Rightarrow> player_identity" where
  "player_identity_new i =
     \<lparr>pi_aldivine_id = i,
      rockstar = \<lparr>rs_account_id = None, rs_entitlement = Unknown, rs_verified = False\<rparr>,
      steam = None,
      epic = \<lparr>epic_account_id = None, epic_verified = False\<rparr>,
      device = None,
      network_remote_ip = []\<rparr>"

record identity_requirements =
  require_aldivine_account :: bool
  require_gta_entitlement :: bool
  require_rockstar :: bool
  require_steam :: bool
  require_epic :: bool
  require_device_id :: bool
  record_connection_ip :: bool

definition identity_requirements_default :: identity_requirements where
  "identity_requirements_default =
     \<lparr>require_aldivine_account = True, require_gta_entitlement = True, require_rockstar = False,
      require_steam = False, require_epic = False, require_device_id = True, record_connection_ip = True\<rparr>"

record connection_rejection =
  code :: string
  reason :: string
  internal_detail :: string

datatype policy_outcome = PolicyPass | PolicyReject connection_rejection

definition policy_reject :: "string \<Rightarrow> string \<Rightarrow> string \<Rightarrow> policy_outcome" where
  "policy_reject c r d = PolicyReject \<lparr>code = c, reason = r, internal_detail = d\<rparr>"

definition check_identity_policy ::
  "(player_id \<Rightarrow> string) \<Rightarrow> player_identity \<Rightarrow> identity_requirements \<Rightarrow> policy_outcome" where
  "check_identity_policy show_id p req =
     (if require_aldivine_account req \<and> show_id (pi_aldivine_id p) = [] then
        policy_reject ''ALD-IDENTITY-001'' ''Unable to validate Aldivine session.''
          ''aldivine_player_id missing at policy stage''
      else if require_gta_entitlement req \<and> rs_entitlement (rockstar p) \<noteq> Verified then
        policy_reject ''ALD-GAME-002'' ''GTA V entitlement verification failed.''
          (case rs_entitlement (rockstar p) of
             NotOwned \<Rightarrow> ''rockstar entitlement NOT_OWNED''
           | NotLoggedIn \<Rightarrow> ''rockstar entitlement NOT_LOGGED_IN''
           | other \<Rightarrow> ''rockstar entitlement '' @ as_code other)
      else if require_rockstar req \<and> (\<not> rs_verified (rockstar p) \<or> rs_account_id (rockstar p) = None) then
        policy_reject ''ALD-IDENTITY-001'' ''Unable to validate Aldivine session.''
          ''rockstar identity required but unverified''
      else if require_steam req \<and> steam p = None then
        policy_reject ''ALD-STEAM-001'' ''This server requires Steam identity.''
          ''steam identity required but absent''
      else if require_epic req \<and> (epic_account_id (epic p) = None \<or> \<not> epic_verified (epic p)) then
        policy_reject ''ALD-IDENTITY-001'' ''Unable to validate Aldivine session.''
          ''epic identity required but unverified''
      else if require_device_id req \<and> device p = None then
        policy_reject ''ALD-DEVICE-001'' ''Device identity could not be generated.''
          ''device identity required but absent''
      else PolicyPass)"

definition resolve_forwarded_ip :: "string list \<Rightarrow> string \<Rightarrow> string option \<Rightarrow> string" where
  "resolve_forwarded_ip peers peer_addr forwarded =
     (case (list_ex (\<lambda>p. p = peer_addr) peers, forwarded) of
        (True, Some f) \<Rightarrow> if trim f \<noteq> [] then trim f else peer_addr
      | _ \<Rightarrow> peer_addr)"

section \<open>The admission manager\<close>

record 'p admission_env =
  show_peer :: "'p \<Rightarrow> string"
  parse_ulid :: "string \<Rightarrow> player_id option"
  new_ulid :: player_id
  show_ulid :: "player_id \<Rightarrow> string"

record admission_session =
  state :: handshake_state
  session_id :: u64
  aldivine_id :: "string option"
  platform :: "string option"
  nonce :: string
  session_polls :: u64
  queue_pos :: "nat option"

definition admission_session_new :: "u64 \<Rightarrow> string \<Rightarrow> admission_session" where
  "admission_session_new i n =
     \<lparr>state = WaitingAuth, session_id = i, aldivine_id = None, platform = None, nonce = n,
      session_polls = 0, queue_pos = None\<rparr>"

record 'p admission_manager =
  server_name :: string
  am_max_players :: u32
  next_session :: u64
  sessions :: "('p, admission_session) hmap"
  am_queue :: queue
  manifest :: "resource_entry list"
  identity_req :: identity_requirements

definition admission_new :: "string \<Rightarrow> u32 \<Rightarrow> identity_requirements \<Rightarrow> 'p admission_manager" where
  "admission_new name mx req =
     (let cfg = (case queue_config_new (unat mx) 0 64 300000 of
                   Inr c \<Rightarrow> c
                 | Inl _ \<Rightarrow> \<lparr>max_players = unat mx, reserved_slots = 0, max_queue_len = 64, stale_after_ms = 300000\<rparr>) in
      \<lparr>server_name = name, am_max_players = mx, next_session = 1, sessions = [],
       am_queue = queue_new cfg, manifest = [], identity_req = req\<rparr>)"

definition set_manifest :: "'p admission_manager \<Rightarrow> resource_entry list \<Rightarrow> 'p admission_manager" where
  "set_manifest m entries = m\<lparr>manifest := entries\<rparr>"

definition state_of :: "'p admission_manager \<Rightarrow> 'p \<Rightarrow> handshake_state option" where
  "state_of m peer = map_option state (hm_get (sessions m) peer)"

text \<open>\<open>get_mut(peer)\<close> followed by writes: nothing happens when the peer is unknown.\<close>

definition update_session ::
  "'p admission_manager \<Rightarrow> 'p \<Rightarrow> (admission_session \<Rightarrow> admission_session) \<Rightarrow> 'p admission_manager" where
  "update_session m peer f =
     (case hm_get (sessions m) peer of
        None \<Rightarrow> m
      | Some s \<Rightarrow> m\<lparr>sessions := hm_insert peer (f s) (sessions m)\<rparr>)"

definition admission_remove :: "'p admission_manager \<Rightarrow> 'p \<Rightarrow> 'p admission_manager \<times> bool" where
  "admission_remove m peer =
     (case hm_get (sessions m) peer of
        None \<Rightarrow> (m, False)
      | Some s \<Rightarrow>
          let m1 = m\<lparr>sessions := hm_remove peer (sessions m)\<rparr> in
          case aldivine_id s of
            None \<Rightarrow> (m1, True)
          | Some i \<Rightarrow>
              (m1\<lparr>am_queue := fst (queue_leave (fst (playing_leave (am_queue m1) i)) i)\<rparr>, True))"

type_synonym 'p reply = "'p admission_manager \<times> handshake_message list"

definition on_hello :: "'p admission_env \<Rightarrow> 'p admission_manager \<Rightarrow> 'p \<Rightarrow> u16 \<Rightarrow> 'p reply" where
  "on_hello env m peer version =
     (if version \<noteq> PROTOCOL_VERSION then (m, [Reject REJECT_PROTOCOL ''protocol version mismatch''])
      else
        let i = next_session m;
            n = ''n-'' @ show_nat (unat i) @ ''-'' @ show_peer env peer in
        (m\<lparr>next_session := i + 1, sessions := hm_insert peer (admission_session_new i n) (sessions m)\<rparr>,
         [ServerHello PROTOCOL_VERSION i (server_name m) (am_max_players m) [''deferrals'', ''queue'', ''manifest''],
          AuthChallenge n]))"

definition on_auth ::
  "'p admission_manager \<Rightarrow> 'p \<Rightarrow> string \<Rightarrow> string option \<Rightarrow> string option \<Rightarrow> 'p reply" where
  "on_auth m peer aid plat response =
     (case hm_get (sessions m) peer of
        None \<Rightarrow> (m, [Reject REJECT_PROTOCOL ''auth before hello''])
      | Some s \<Rightarrow>
          if state s \<noteq> WaitingAuth then (m, [Reject REJECT_PROTOCOL ''auth out of order''])
          else if trim aid = [] then
            (update_session m peer (\<lambda>s. s\<lparr>state := Rejected\<rparr>), [Reject REJECT_AUTH ''missing account id''])
          else if response \<noteq> Some (nonce s) then
            (update_session m peer (\<lambda>s. s\<lparr>state := Rejected\<rparr>), [Reject REJECT_AUTH ''challenge failed''])
          else
            (update_session m peer (\<lambda>s. s\<lparr>aldivine_id := Some aid, platform := plat, state := WaitingIdentity\<rparr>),
             [AuthResult True ''auth ok'', IdentityRequest]))"

definition ban_gate :: "unit gate" where
  "ban_gate = \<lparr>gate_name = ''ban-check'', gate_state = (), gate_check = (\<lambda>s _. (s, GatePass))\<rparr>"

text \<open>The identity the handler assembles from the message: an unparsable id is replaced by a new one.\<close>

definition claimed_identity ::
  "'p admission_env \<Rightarrow> string \<Rightarrow> string option \<Rightarrow> string \<Rightarrow> u64 \<Rightarrow> player_identity" where
  "claimed_identity env aid dev remote_ip now =
     (let parsed = (case parse_ulid env aid of Some i \<Rightarrow> i | None \<Rightarrow> new_ulid env);
          p = (player_identity_new parsed)\<lparr>network_remote_ip := remote_ip\<rparr> in
      case dev of
        Some did \<Rightarrow>
          if trim did \<noteq> [] then
            p\<lparr>device := Some \<lparr>device_id = did, confidence = ''low'', dev_version = 1,
                              first_seen = now, dev_last_seen = now\<rparr>\<rparr>
          else p
      | None \<Rightarrow> p)"

definition on_identity ::
  "'p admission_env \<Rightarrow> 'p admission_manager \<Rightarrow> 'p \<Rightarrow> string \<Rightarrow> string option \<Rightarrow> string \<Rightarrow> u64 \<Rightarrow> 'p reply" where
  "on_identity env m peer aid dev remote_ip now =
     (case hm_get (sessions m) peer of
        None \<Rightarrow> (m, [Reject REJECT_PROTOCOL ''identity before hello''])
      | Some _ \<Rightarrow>
          case check_identity_policy (show_ulid env) (claimed_identity env aid dev remote_ip now) (identity_req m) of
            PolicyReject r \<Rightarrow>
              (update_session m peer (\<lambda>s. s\<lparr>state := Rejected\<rparr>), [Reject REJECT_IDENTITY (reason r)])
          | PolicyPass \<Rightarrow>
              let m1 = update_session m peer (\<lambda>s. s\<lparr>state := WaitingDeferrals\<rparr>);
                  ctx = \<lparr>dc_player_id = aid, dc_remote_ip = remote_ip, dc_queue_position = None\<rparr> in
              (case snd (poll (deferral_session_new [ban_gate] 10) ctx) of
                 Admit \<Rightarrow> (update_session m1 peer (\<lambda>s. s\<lparr>state := WaitingQueue\<rparr>), [DeferralDone, EntitlementRequest])
               | Waiting message _ \<Rightarrow> (m1, [DeferralUpdate message])
               | Denied c r _ \<Rightarrow> (update_session m1 peer (\<lambda>s. s\<lparr>state := Rejected\<rparr>), [Reject c r])))"

definition on_entitlement :: "'p admission_manager \<Rightarrow> 'p \<Rightarrow> 'p reply" where
  "on_entitlement m peer =
     (case hm_get (sessions m) peer of
        None \<Rightarrow> (m, [Reject REJECT_PROTOCOL ''entitlement before hello''])
      | Some s \<Rightarrow>
          if state s \<noteq> WaitingQueue \<and> state s \<noteq> WaitingDeferrals
          then (m, [Reject REJECT_ENTITLEMENT ''entitlement out of order''])
          else (m, [EntitlementResult ''FREE'' ''ok'']))"

definition on_ready :: "'p admission_manager \<Rightarrow> 'p \<Rightarrow> u64 \<Rightarrow> 'p reply" where
  "on_ready m peer now =
     (case hm_get (sessions m) peer of
        None \<Rightarrow> (m, [Reject REJECT_PROTOCOL ''ready before hello''])
      | Some s \<Rightarrow>
          let i = (case aldivine_id s of None \<Rightarrow> [] | Some a \<Rightarrow> a) in
          if i = [] then (m, [Reject REJECT_AUTH ''unknown session''])
          else if state s = Ready then (m, [ServerReady True])
          else
            let (q, outcome) = queue_join (am_queue m) \<lparr>jr_id = i, jr_holds_reservation = False\<rparr> now;
                m1 = m\<lparr>am_queue := q\<rparr> in
            (case outcome of
               Admitted \<Rightarrow>
                 let m2 = update_session m1 peer (\<lambda>s. s\<lparr>state := WaitingManifest\<rparr>);
                     m3 = update_session m2 peer (\<lambda>s. s\<lparr>state := Ready\<rparr>) in
                 (m3, [QueueAdmitted, ManifestOffer (manifest m), ServerReady True])
             | Queued pos \<Rightarrow>
                 (update_session m1 peer (\<lambda>s. s\<lparr>queue_pos := Some pos\<rparr>),
                  [QueueUpdate pos (length (waitlist q)), ManifestOffer (manifest m)])
             | RejectedJoin why \<Rightarrow>
                 (update_session m1 peer (\<lambda>s. s\<lparr>state := Rejected\<rparr>),
                  [case why of
                     ServerFull \<Rightarrow> Reject REJECT_SERVER_FULL ''server full, try again later''
                   | QueueFull \<Rightarrow> Reject REJECT_SERVER_FULL ''server full, try again later''
                   | AlreadyPresent \<Rightarrow> Reject REJECT_DEFERRAL ''already connected''
                   | InvalidId \<Rightarrow> Reject REJECT_AUTH ''invalid account id''])))"

fun handle :: "'p admission_env \<Rightarrow> 'p admission_manager \<Rightarrow> 'p \<Rightarrow> handshake_message \<Rightarrow> string \<Rightarrow> u64 \<Rightarrow> 'p reply" where
  "handle env m peer (ClientHello version _ _ _) remote_ip now = on_hello env m peer version"
| "handle env m peer (ClientAuth aid _ plat response) remote_ip now = on_auth m peer aid plat response"
| "handle env m peer (IdentityResponse aid _ _ dev) remote_ip now = on_identity env m peer aid dev remote_ip now"
| "handle env m peer EntitlementRequest remote_ip now = on_entitlement m peer"
| "handle env m peer ClientReady remote_ip now = on_ready m peer now"
| "handle env m peer _ remote_ip now =
     (m, [Reject REJECT_PROTOCOL ''out-of-order message for this session''])"

section \<open>What every reachable manager satisfies\<close>

datatype 'p adm_event =
    Msg 'p handshake_message string u64
  | Drop 'p

fun adm_step :: "'p admission_env \<Rightarrow> 'p admission_manager \<Rightarrow> 'p adm_event \<Rightarrow> 'p admission_manager" where
  "adm_step env m (Msg peer msg remote_ip now) = fst (handle env m peer msg remote_ip now)"
| "adm_step env m (Drop peer) = fst (admission_remove m peer)"

text \<open>A session that holds an account id went through the challenge; a ready one holds one.\<close>

definition session_ok :: "admission_session \<Rightarrow> bool" where
  "session_ok s \<longleftrightarrow>
     (\<forall>i. aldivine_id s = Some i \<longrightarrow> trim i \<noteq> []) \<and>
     (state s = Ready \<longrightarrow> aldivine_id s \<noteq> None) \<and>
     (state s = WaitingAuth \<longrightarrow> aldivine_id s = None)"

definition adm_ok :: "'p admission_manager \<Rightarrow> bool" where
  "adm_ok m \<longleftrightarrow> queue_ok (am_queue m) \<and> max_players (config (am_queue m)) = unat (am_max_players m) \<and>
     (\<forall>peer s. hm_get (sessions m) peer = Some s \<longrightarrow> session_ok s)"

lemma update_session_get:
  "hm_get (sessions (update_session m peer f)) p =
     (if p = peer then map_option f (hm_get (sessions m) peer) else hm_get (sessions m) p)"
  by (auto simp: update_session_def hm_simps split: option.splits)

lemma update_session_frame [simp]:
  "am_queue (update_session m peer f) = am_queue m" "am_max_players (update_session m peer f) = am_max_players m"
  "identity_req (update_session m peer f) = identity_req m" "manifest (update_session m peer f) = manifest m"
  by (simp_all add: update_session_def split: option.splits)

lemma adm_ok_update:
  assumes "adm_ok m" and "\<And>s. hm_get (sessions m) peer = Some s \<Longrightarrow> session_ok s \<Longrightarrow> session_ok (f s)"
  shows "adm_ok (update_session m peer f)"
  using assms by (auto simp: adm_ok_def update_session_get split: if_splits)

lemma queue_step_config:
  "config (fst (queue_join q req now)) = config q"
  "config (fst (promote_front_fit q)) = config q"
  "config (fst (playing_leave q i)) = config q"
  "config (fst (queue_leave q i)) = config q"
proof -
  show promote: "config (fst (promote_front_fit q)) = config q" for q
    by (simp add: promote_front_fit_def Let_def split: option.splits)
  show "config (fst (queue_join q req now)) = config q" by (simp add: queue_join_def Let_def)
  show "config (fst (playing_leave q i)) = config q"
    by (simp add: playing_leave_def promote split: option.splits)
  show "config (fst (queue_leave q i)) = config q" by (simp add: queue_leave_def split: option.splits)
qed

lemma adm_ok_queue:
  assumes "adm_ok m" and "queue_ok q" and "config q = config (am_queue m)"
  shows "adm_ok (m\<lparr>am_queue := q\<rparr>)"
  using assms by (simp add: adm_ok_def)

lemma adm_ok_new: "adm_ok (admission_new name mx req)"
  by (simp add: adm_ok_def admission_new_def queue_config_new_def new_ok queue_new_def)
    (simp add: queue_new_def [symmetric] new_ok)

lemma adm_ok_hello: "adm_ok m \<Longrightarrow> adm_ok (fst (on_hello env m peer v))"
  by (auto simp: on_hello_def adm_ok_def admission_session_new_def session_ok_def hm_simps Let_def)

lemma adm_ok_auth: "adm_ok m \<Longrightarrow> adm_ok (fst (on_auth m peer aid plat resp))"
  by (auto simp: on_auth_def session_ok_def split: option.splits intro!: adm_ok_update)

lemma adm_ok_identity: "adm_ok m \<Longrightarrow> adm_ok (fst (on_identity env m peer aid dev ip now))"
  unfolding on_identity_def Let_def
  by (auto simp: session_ok_def split: option.splits policy_outcome.splits session_outcome.splits
      intro!: adm_ok_update)

lemma update_session_twice:
  "update_session (update_session m peer f) peer g = update_session m peer (\<lambda>s. g (f s))"
  by (simp add: update_session_def hm_simps update_last split: option.splits)

abbreviation seat :: "string \<Rightarrow> join_request" where
  "seat i \<equiv> \<lparr>jr_id = i, jr_holds_reservation = False\<rparr>"

lemma ready_cases [case_names refuse again admit wait reject]:
  obtains c r where "on_ready m peer now = (m, [Reject c r])"
  | s i where "hm_get (sessions m) peer = Some s" "aldivine_id s = Some i" "state s = Ready"
      "on_ready m peer now = (m, [ServerReady True])"
  | s i q where "hm_get (sessions m) peer = Some s" "aldivine_id s = Some i" "i \<noteq> []" "state s \<noteq> Ready"
      "queue_join (am_queue m) (seat i) now = (q, Admitted)"
      "on_ready m peer now = (update_session (m\<lparr>am_queue := q\<rparr>) peer (\<lambda>s. s\<lparr>state := Ready\<rparr>),
         [QueueAdmitted, ManifestOffer (manifest m), ServerReady True])"
  | s i q pos where "hm_get (sessions m) peer = Some s" "aldivine_id s = Some i" "i \<noteq> []" "state s \<noteq> Ready"
      "queue_join (am_queue m) (seat i) now = (q, Queued pos)"
      "on_ready m peer now = (update_session (m\<lparr>am_queue := q\<rparr>) peer (\<lambda>s. s\<lparr>queue_pos := Some pos\<rparr>),
         [QueueUpdate pos (length (waitlist q)), ManifestOffer (manifest m)])"
  | s i q why c r where "hm_get (sessions m) peer = Some s" "aldivine_id s = Some i" "i \<noteq> []" "state s \<noteq> Ready"
      "queue_join (am_queue m) (seat i) now = (q, RejectedJoin why)"
      "on_ready m peer now = (update_session (m\<lparr>am_queue := q\<rparr>) peer (\<lambda>s. s\<lparr>state := Rejected\<rparr>), [Reject c r])"
proof (cases "hm_get (sessions m) peer")
  case None
  then show ?thesis by (intro that(1)) (simp add: on_ready_def)
next
  case (Some s)
  show ?thesis
  proof (cases "aldivine_id s = None \<or> aldivine_id s = Some []")
    case True
    with Some show ?thesis by (intro that(1)) (auto simp: on_ready_def)
  next
    case False
    then obtain i where i: "aldivine_id s = Some i" "i \<noteq> []" by auto
    show ?thesis
    proof (cases "state s = Ready")
      case True
      with Some i show ?thesis by (intro that(2)) (auto simp: on_ready_def)
    next
      case nr: False
      obtain q out where q: "queue_join (am_queue m) (seat i) now = (q, out)"
        by (cases "queue_join (am_queue m) (seat i) now")
      have step: "on_ready m peer now = (case out of
          Admitted \<Rightarrow> (update_session (m\<lparr>am_queue := q\<rparr>) peer (\<lambda>s. s\<lparr>state := Ready\<rparr>),
            [QueueAdmitted, ManifestOffer (manifest m), ServerReady True])
        | Queued pos \<Rightarrow> (update_session (m\<lparr>am_queue := q\<rparr>) peer (\<lambda>s. s\<lparr>queue_pos := Some pos\<rparr>),
            [QueueUpdate pos (length (waitlist q)), ManifestOffer (manifest m)])
        | RejectedJoin why \<Rightarrow> (update_session (m\<lparr>am_queue := q\<rparr>) peer (\<lambda>s. s\<lparr>state := Rejected\<rparr>),
            [case why of
               ServerFull \<Rightarrow> Reject REJECT_SERVER_FULL ''server full, try again later''
             | QueueFull \<Rightarrow> Reject REJECT_SERVER_FULL ''server full, try again later''
             | AlreadyPresent \<Rightarrow> Reject REJECT_DEFERRAL ''already connected''
             | InvalidId \<Rightarrow> Reject REJECT_AUTH ''invalid account id'']))"
        using Some i nr by (simp add: on_ready_def q update_session_twice Let_def)
      show ?thesis
      proof (cases out)
        case Admitted
        with Some i nr q step show ?thesis by (intro that(3)) simp_all
      next
        case (Queued pos)
        with Some i nr q step show ?thesis by (intro that(4)) simp_all
      next
        case (RejectedJoin why)
        with Some i nr q step show ?thesis by (cases why) (intro that(5), simp_all)+
      qed
    qed
  qed
qed

lemma adm_ok_ready:
  assumes "adm_ok m"
  shows "adm_ok (fst (on_ready m peer now))"
proof -
  have q: "adm_ok (m\<lparr>am_queue := q\<rparr>)" if "queue_join (am_queue m) req now = (q, out)" for q req out
    using assms join_ok [of "am_queue m" req now] queue_step_config(1) [of "am_queue m" req now] that
    by (intro adm_ok_queue) (auto simp: adm_ok_def)
  show ?thesis
  proof (cases rule: ready_cases [of m peer now])
    case (admit s i q')
    then show ?thesis
      using q [OF admit(5)] by (auto simp: session_ok_def intro!: adm_ok_update)
  next
    case (wait s i q' pos)
    then show ?thesis
      using q [OF wait(5)] by (auto simp: session_ok_def intro!: adm_ok_update)
  next
    case (reject s i q' why c r)
    then show ?thesis
      using q [OF reject(5)] by (auto simp: session_ok_def intro!: adm_ok_update)
  qed (use assms in auto)
qed

lemma adm_ok_remove: "adm_ok m \<Longrightarrow> adm_ok (fst (admission_remove m peer))"
  by (auto simp: admission_remove_def adm_ok_def Let_def hm_simps queue_leave_ok playing_leave_ok
      queue_step_config split: option.splits if_splits)

lemma adm_ok_step: "adm_ok m \<Longrightarrow> adm_ok (adm_step env m ev)"
proof (cases ev)
  case (Msg peer msg ip now)
  assume "adm_ok m"
  then show ?thesis
    using Msg by (cases msg) (simp_all add: adm_ok_hello adm_ok_auth adm_ok_identity adm_ok_ready on_entitlement_def
        split: option.splits)
qed (simp add: adm_ok_remove)

interpretation admission_run: op_system "admission_new name mx req" "adm_step env" adm_ok for name mx req env
  by unfold_locales (rule adm_ok_new, rule adm_ok_step)

text \<open>How the handlers touch the table: only the sender's entry, and the account id only in \<open>on_auth\<close>.\<close>

lemma account_step:
  assumes "hm_get (sessions (adm_step env m ev)) peer = Some s'" and "aldivine_id s' = Some i"
  shows "(\<exists>s. hm_get (sessions m) peer = Some s \<and> aldivine_id s = Some i) \<or>
    (\<exists>s tok plat ip now. ev = Msg peer (ClientAuth i tok plat (Some (nonce s))) ip now \<and>
       hm_get (sessions m) peer = Some s \<and> state s = WaitingAuth)"
proof (cases ev)
  case (Drop p)
  then show ?thesis
    using assms by (auto simp: admission_remove_def hm_simps Let_def split: option.splits if_splits)
next
  case (Msg p msg ip now)
  show ?thesis
  proof (cases msg)
    case ClientHello
    then show ?thesis using assms Msg
      by (auto simp: on_hello_def admission_session_new_def hm_simps Let_def split: if_splits)
  next
    case ClientAuth
    then show ?thesis using assms Msg
      by (auto simp: on_auth_def update_session_get split: option.splits if_splits)
  next
    case IdentityResponse
    then show ?thesis using assms Msg unfolding on_identity_def Let_def
      by (auto simp: on_identity_def update_session_get Let_def
          split: option.splits if_splits policy_outcome.splits session_outcome.splits)
  next
    case ClientReady
    then show ?thesis using assms Msg
      by (cases rule: ready_cases [of m p now]) (auto simp: update_session_get split: if_splits)
  qed (use assms Msg in \<open>auto simp: on_entitlement_def split: option.splits if_splits\<close>)
qed

lemma account_trace:
  assumes "hm_get (sessions (foldl (adm_step env) (admission_new name mx req) evs)) peer = Some s"
    and "aldivine_id s = Some i"
  shows "\<exists>pre tok plat ip now post s0. evs = pre @ Msg peer (ClientAuth i tok plat (Some (nonce s0))) ip now # post \<and>
    hm_get (sessions (foldl (adm_step env) (admission_new name mx req) pre)) peer = Some s0"
  using assms
proof (induction evs arbitrary: s rule: rev_induct)
  case Nil
  then show ?case by (simp add: admission_new_def Let_def)
next
  case (snoc ev evs)
  let ?m = "foldl (adm_step env) (admission_new name mx req) evs"
  have "hm_get (sessions (adm_step env ?m ev)) peer = Some s" using snoc.prems by simp
  from account_step [OF this snoc.prems(2)] show ?case
  proof
    assume "\<exists>s0. hm_get (sessions ?m) peer = Some s0 \<and> aldivine_id s0 = Some i"
    then obtain pre tok plat ip now post s0
      where "evs = pre @ Msg peer (ClientAuth i tok plat (Some (nonce s0))) ip now # post"
        and pre: "hm_get (sessions (foldl (adm_step env) (admission_new name mx req) pre)) peer = Some s0"
      using snoc.IH by blast
    then have "evs @ [ev] = pre @ Msg peer (ClientAuth i tok plat (Some (nonce s0))) ip now # (post @ [ev])"
      by simp
    with pre show ?thesis by blast
  next
    assume "\<exists>s0 tok plat ip now. ev = Msg peer (ClientAuth i tok plat (Some (nonce s0))) ip now \<and>
      hm_get (sessions ?m) peer = Some s0 \<and> state s0 = WaitingAuth"
    then show ?thesis by blast
  qed
qed

lemma ready_reply:
  assumes "ServerReady True \<in> set (snd (handle env m peer msg ip now))"
  shows "msg = ClientReady \<and> state_of (fst (handle env m peer msg ip now)) peer = Some Ready \<and>
    (\<exists>s i. hm_get (sessions m) peer = Some s \<and> aldivine_id s = Some i)"
proof (cases msg)
  case ClientReady
  then show ?thesis
    using assms
    by (cases rule: ready_cases [of m peer now]) (auto simp: state_of_def update_session_get)
next
  case IdentityResponse
  then show ?thesis using assms unfolding on_identity_def Let_def
    by (auto simp: on_identity_def Let_def split: option.splits if_splits policy_outcome.splits session_outcome.splits)
qed (use assms in \<open>auto simp: on_hello_def on_auth_def on_entitlement_def Let_def split: option.splits if_splits\<close>)

lemma adm_step_max [simp]: "am_max_players (adm_step env m ev) = am_max_players m"
proof (cases ev)
  case (Msg p msg ip now)
  show ?thesis
  proof (cases msg)
    case ClientReady
    then show ?thesis
      using Msg by (cases rule: ready_cases [of m p now]) auto
  next
    case IdentityResponse
    then show ?thesis using Msg
      by (auto simp: on_identity_def Let_def split: option.splits if_splits policy_outcome.splits session_outcome.splits)
  qed (use Msg in \<open>auto simp: on_hello_def on_auth_def on_entitlement_def Let_def split: option.splits if_splits\<close>)
qed (auto simp: admission_remove_def Let_def split: option.splits)

lemma adm_run_max: "am_max_players (foldl (adm_step env) m evs) = am_max_players m"
  by (induction evs arbitrary: m) auto

lemma identity_keeps:
  assumes "hm_get (sessions m) peer = Some s"
  shows "am_queue (fst (on_identity env m peer aid dev ip now)) = am_queue m \<and>
    (\<exists>st. st \<noteq> Ready \<and> hm_get (sessions (fst (on_identity env m peer aid dev ip now))) peer = Some (s\<lparr>state := st\<rparr>))"
  using assms unfolding on_identity_def Let_def
  by (auto simp: update_session_get split: policy_outcome.splits session_outcome.splits)

lemma entitlement_unknown:
  "require_gta_entitlement req \<Longrightarrow> rs_entitlement (rockstar p) = Unknown \<Longrightarrow>
   \<exists>r. check_identity_policy show_id p req = PolicyReject r"
  by (simp add: check_identity_policy_def policy_reject_def)

lemma identity_always_rejected:
  assumes "hm_get (sessions m) peer = Some s" and "require_gta_entitlement (identity_req m)"
  shows "(\<exists>why. snd (on_identity env m peer aid dev ip now) = [Reject REJECT_IDENTITY why]) \<and>
    state_of (fst (on_identity env m peer aid dev ip now)) peer = Some Rejected"
proof -
  have "rs_entitlement (rockstar (claimed_identity env aid dev ip now)) = Unknown"
    by (simp add: claimed_identity_def player_identity_new_def Let_def split: option.splits)
  then obtain r where
    "check_identity_policy (show_ulid env) (claimed_identity env aid dev ip now) (identity_req m) = PolicyReject r"
    using entitlement_unknown assms(2) by blast
  then have "on_identity env m peer aid dev ip now =
      (update_session m peer (\<lambda>s. s\<lparr>state := Rejected\<rparr>), [Reject REJECT_IDENTITY (reason r)])"
    using assms(1) by (simp add: on_identity_def)
  then show ?thesis using assms(1) by (simp add: state_of_def update_session_get)
qed

lemma trim_Nil [simp]: "trim [] = []"
  by (simp add: trim_def ws_seqs_def strip_all.simps)

section \<open>Properties\<close>

text \<open>
  C26. Nobody enters the world unauthenticated: in every state the server reaches, the reply
  that lets a peer join is an answer to \<open>ClientReady\<close>, makes the session ready, and the peer has
  earlier answered the challenge of one of its own sessions with the nonce of that session, for
  the non-blank account id the session holds.
\<close>

theorem join_requires_auth:
  assumes "m = foldl (adm_step env) (admission_new name mx req) evs"
    and "handle env m peer msg ip now = (m', out)" and "ServerReady True \<in> set out"
  shows "msg = ClientReady \<and> state_of m' peer = Some Ready \<and>
    (\<exists>s i pre tok plat ip' now' post s0. hm_get (sessions m) peer = Some s \<and> aldivine_id s = Some i \<and> trim i \<noteq> [] \<and>
      evs = pre @ Msg peer (ClientAuth i tok plat (Some (nonce s0))) ip' now' # post \<and>
      hm_get (sessions (foldl (adm_step env) (admission_new name mx req) pre)) peer = Some s0)"
proof -
  have "ServerReady True \<in> set (snd (handle env m peer msg ip now))" using assms by simp
  from ready_reply [OF this] obtain s i where
    r: "msg = ClientReady" "state_of m' peer = Some Ready" "hm_get (sessions m) peer = Some s" "aldivine_id s = Some i"
    using assms(2) by auto
  moreover have "adm_ok m" unfolding assms(1) by (rule admission_run.inv_reach)
  then have "trim i \<noteq> []" using r by (auto simp: adm_ok_def session_ok_def)
  moreover note account_trace [OF r(3) [unfolded assms(1)] r(4)]
  ultimately show ?thesis by blast
qed

text \<open>
  The seats are bounded: in every state the server reaches, the queue behind the admission
  handlers seats at most the configured number of players, each account once, and nobody waits
  for a free seat.
\<close>

lemma admission_seats_bounded:
  assumes "m = foldl (adm_step env) (admission_new name mx req) evs"
  shows "length (playing (am_queue m)) \<le> unat mx \<and> distinct (ids (am_queue m)) \<and>
    (waitlist (am_queue m) \<noteq> [] \<longrightarrow> length (playing (am_queue m)) \<ge> open_slots (config (am_queue m)))"
proof -
  have "adm_ok m" unfolding assms by (rule admission_run.inv_reach)
  moreover have "am_max_players m = mx"
    unfolding assms adm_run_max by (simp add: admission_new_def Let_def)
  ultimately show ?thesis
    using full_if_waiting [of "am_queue m"] by (auto simp: adm_ok_def queue_ok_def queue_shape_def)
qed

definition demo_env :: "nat admission_env" where
  "demo_env = \<lparr>show_peer = (\<lambda>n. replicate n (CHR ''p'')), parse_ulid = (\<lambda>_. None), new_ulid = 0,
     show_ulid = (\<lambda>_. ''X'')\<rparr>"

definition demo_hello :: "nat \<Rightarrow> nat adm_event" where
  "demo_hello peer = Msg peer (ClientHello PROTOCOL_VERSION 0 [] []) [] 0"

definition demo_auth :: "nat \<Rightarrow> nat \<Rightarrow> string \<Rightarrow> nat adm_event" where
  "demo_auth peer k aid =
     Msg peer (ClientAuth aid None None (Some (''n-'' @ show_nat k @ ''-'' @ replicate peer (CHR ''p'')))) [] 0"

definition demo_ready :: "nat \<Rightarrow> nat adm_event" where
  "demo_ready peer = Msg peer ClientReady [] 0"

definition demo_run :: "u32 \<Rightarrow> nat adm_event list \<Rightarrow> nat admission_manager" where
  "demo_run mx = foldl (adm_step demo_env) (admission_new ''srv'' mx identity_requirements_default)"

theorem join_requires_auth_witness:
  "ServerReady True \<in> set (snd (handle demo_env (demo_run 1 [demo_hello 1, demo_auth 1 1 ''A'']) 1 ClientReady [] 0)) \<and>
   state_of (fst (handle demo_env (demo_run 1 [demo_hello 1, demo_auth 1 1 ''A'']) 1 ClientReady [] 0)) 1 = Some Ready"
proof -
  let ?m = "demo_run 1 [demo_hello 1, demo_auth 1 1 ''A'']"
  have "ServerReady True \<in> set (snd (handle demo_env ?m 1 ClientReady [] 0))" by code_simp
  then show ?thesis
    using join_requires_auth [of ?m demo_env "''srv''" 1 identity_requirements_default
        "[demo_hello 1, demo_auth 1 1 ''A'']" 1 ClientReady "[]" 0
        "fst (handle demo_env ?m 1 ClientReady [] 0)" "snd (handle demo_env ?m 1 ClientReady [] 0)"]
    by (simp only: demo_run_def prod.collapse)
qed

text \<open>
  The identity policy does not gate admission: under every set of requirements, a peer that
  answered the challenge and whose identity response was just handled, rejected or not, is let
  into the world by \<open>ClientReady\<close> while a seat is free; with the entitlement requirement on (the
  default) the response is always rejected, since the server never learns an entitlement.
\<close>

lemma identity_rejection_bypassed:
  assumes "0 < mx" and "trim aid \<noteq> []"
    and m1: "m1 = fst (handle env (admission_new name mx req) peer (ClientHello PROTOCOL_VERSION b e v) ip ta)"
    and m2: "m2 = fst (handle env m1 peer (ClientAuth aid tok plat (Some (''n-1-'' @ show_peer env peer))) ip tb)"
    and r3: "r3 = handle env m2 peer (IdentityResponse aid' pid ent dev) ip tc"
  shows "(require_gta_entitlement req \<longrightarrow>
      (\<exists>why. snd r3 = [Reject REJECT_IDENTITY why]) \<and> state_of (fst r3) peer = Some Rejected) \<and>
    ServerReady True \<in> set (snd (handle env (fst r3) peer ClientReady ip td)) \<and>
    state_of (fst (handle env (fst r3) peer ClientReady ip td)) peer = Some Ready"
proof -
  let ?q = "am_queue (admission_new name mx req :: 'a admission_manager)"
  have one: "''n-'' @ show_nat 1 @ ''-'' @ show_peer env peer = ''n-1-'' @ show_peer env peer"
  proof -
    have "show_nat 1 = ''1''" by code_simp
    then show ?thesis by simp
  qed
  have "hm_get (sessions m1) peer = Some (admission_session_new 1 (''n-1-'' @ show_peer env peer))"
    and "am_queue m1 = ?q" and "identity_req m1 = req"
    unfolding m1 using one by (simp_all add: on_hello_def admission_new_def Let_def hm_simps)
  then have s2: "hm_get (sessions m2) peer = Some ((admission_session_new 1 (''n-1-'' @ show_peer env peer))
        \<lparr>aldivine_id := Some aid, platform := plat, state := WaitingIdentity\<rparr>)"
    and q2: "am_queue m2 = ?q" and req2: "identity_req m2 = req"
    unfolding m2 using assms(2) by (simp_all add: on_auth_def update_session_get admission_session_new_def)
  obtain s3 where s3: "hm_get (sessions (fst r3)) peer = Some s3" "aldivine_id s3 = Some aid" "state s3 \<noteq> Ready"
    and q3: "am_queue (fst r3) = ?q"
    using identity_keeps [OF s2, of env aid' dev ip tc] q2 by (auto simp: r3)
  have "queue_join ?q (seat aid) td = (fst (queue_join ?q (seat aid) td), Admitted)"
    using assms(1,2) by (simp add: queue_join_def admission_new_def queue_config_new_def queue_new_def Let_def
        is_playing_def is_queued_def slot_free_for_def open_slots_def unat_gt_0 word_gt_0)
  then have "ServerReady True \<in> set (snd (on_ready (fst r3) peer td))"
    using s3 q3 assms(2) trim_Nil by (auto simp: on_ready_def Let_def split: prod.splits)
  moreover have "require_gta_entitlement req \<Longrightarrow>
      (\<exists>why. snd r3 = [Reject REJECT_IDENTITY why]) \<and> state_of (fst r3) peer = Some Rejected"
    using identity_always_rejected [OF s2, of env aid' dev ip tc] req2 by (simp add: r3)
  ultimately show ?thesis
    using ready_reply [of env "fst r3" peer ClientReady ip td] by simp
qed

text \<open>
  The number of ready sessions is not bounded by the number of seats: the account id is
  taken from the client, so a second peer can claim the account of a seated one; when that
  second peer disconnects, the seat is given away while the first peer stays ready. On a server
  for one player two peers end up ready.
\<close>

lemma ready_exceeds_seats:
  "let m = demo_run 1 [demo_hello 1, demo_auth 1 1 ''A'', demo_ready 1, demo_hello 2, demo_auth 2 2 ''A'', Drop 2,
                       demo_hello 3, demo_auth 3 3 ''B'', demo_ready 3]
   in am_max_players m = 1 \<and> state_of m 1 = Some Ready \<and> state_of m 3 = Some Ready"
  by code_simp

text \<open>
  A peer whose account already has a place in the queue, seated or waiting, is refused by its next
  \<open>ClientReady\<close> and its session is rejected. In particular a waiting peer can never take the
  seat it is promoted to: the promotion does not touch its session, and asking again is refused.
\<close>

lemma promoted_peer_refused:
  assumes "hm_get (sessions m) peer = Some s" and "aldivine_id s = Some i" and "trim i \<noteq> []"
    and "state s \<noteq> Ready" and "is_playing (am_queue m) i \<or> is_queued (am_queue m) i"
  shows "snd (handle env m peer ClientReady ip now) = [Reject REJECT_DEFERRAL ''already connected''] \<and>
    state_of (fst (handle env m peer ClientReady ip now)) peer = Some Rejected"
proof -
  have "queue_join (am_queue m) (seat i) now = (am_queue m, RejectedJoin AlreadyPresent)"
    using assms(3,5) by (auto simp: queue_join_def Let_def)
  moreover have "i \<noteq> []" using assms(3) by auto
  ultimately show ?thesis
    using assms(1,2,4) by (simp add: on_ready_def Let_def state_of_def update_session_get)
qed

definition demo_promoted :: "nat admission_manager" where
  "demo_promoted = demo_run 1 [demo_hello 1, demo_auth 1 1 ''A'', demo_ready 1,
     demo_hello 2, demo_auth 2 2 ''B'', demo_ready 2, Drop 1]"

end
