(* ===== verification/Ecs.thy ===== *)
theory Ecs
  imports Core
begin

text \<open>
  The entity store of \<open>crates/ald-ecs\<close>: generation-checked slots (\<open>lib.rs\<close>), compare-and-swap
  ownership (\<open>ownership.rs\<close>) and dimensions (\<open>dimensions.rs\<close>). Slot indices and generations are
  32-bit words and wrap; the theorems bound the number of operations so that they do not.
\<close>

section \<open>Entity store\<close>

datatype authority = Server | Player u64 | ResourceOwner u64

record entity =
  ent_id :: entity_id
  ent_authority :: authority
  ent_components :: "(string, bytes) hmap"
  active :: bool

record entity_store =
  slots :: "entity option list"
  free :: "u32 list"
  generations :: "u32 list"

definition entity_store_new :: entity_store where
  "entity_store_new = \<lparr>slots = [], free = [], generations = []\<rparr>"

text \<open>\<open>free\<close> is a stack: its top is the head of the list.\<close>

definition spawn :: "entity_store \<Rightarrow> authority \<Rightarrow> entity_store \<times> entity_id" where
  "spawn st auth =
     (let (index, st1) =
        (case free st of
           i # rest \<Rightarrow> (i, st\<lparr>free := rest\<rparr>)
         | [] \<Rightarrow>
             let st1 = st\<lparr>slots := slots st @ [None], generations := generations st @ [0]\<rparr> in
             (of_nat (length (slots st1) - 1), st1));
        gen = generations st1 ! unat index;
        i = entity_id_new index gen in
      (st1\<lparr>slots := (slots st1)[unat index :=
         Some \<lparr>ent_id = i, ent_authority = auth, ent_components = [], active = True\<rparr>]\<rparr>, i))"

definition entity_get :: "entity_store \<Rightarrow> entity_id \<Rightarrow> entity option" where
  "entity_get st i =
     (if unat (eid_index i) < length (slots st) then
        (case slots st ! unat (eid_index i) of
           Some e \<Rightarrow> if eid_generation (ent_id e) = eid_generation i \<and> active e then Some e else None
         | None \<Rightarrow> None)
      else None)"

text \<open>\<open>get_mut\<close> and the write through the reference it returns.\<close>

definition entity_put :: "entity_store \<Rightarrow> entity_id \<Rightarrow> entity \<Rightarrow> entity_store" where
  "entity_put st i e = st\<lparr>slots := (slots st)[unat (eid_index i) := Some e]\<rparr>"

definition destroy :: "entity_store \<Rightarrow> entity_id \<Rightarrow> entity_store \<times> bool" where
  "destroy st i =
     (let k = unat (eid_index i) in
      if k < length (slots st) \<and> map_option (\<lambda>e. eid_generation (ent_id e)) (slots st ! k) = Some (eid_generation i)
      then (st\<lparr>slots := (slots st)[k := None], free := eid_index i # free st,
               generations := (generations st)[k := generations st ! k + 1]\<rparr>, True)
      else (st, False))"

definition set_component :: "entity_store \<Rightarrow> entity_id \<Rightarrow> string \<Rightarrow> bytes \<Rightarrow> entity_store \<times> (unit, string) result" where
  "set_component st i name data =
     (case entity_get st i of
        None \<Rightarrow> (st, Err ''entity not found or stale'')
      | Some e \<Rightarrow> (entity_put st i (e\<lparr>ent_components := hm_insert name data (ent_components e)\<rparr>), Ok ()))"

definition entity_count :: "entity_store \<Rightarrow> nat" where
  "entity_count st = length (filter (\<lambda>s. case s of None \<Rightarrow> False | Some e \<Rightarrow> active e) (slots st))"

section \<open>Ownership\<close>

datatype transfer_refusal =
    OwnerMismatch authority authority
  | MustReleaseFirst authority authority

datatype transfer_outcome =
    Transferred authority authority
  | Refused transfer_refusal
  | TransferNotFound

definition transfer :: "entity_store \<Rightarrow> entity_id \<Rightarrow> authority \<Rightarrow> authority \<Rightarrow> entity_store \<times> transfer_outcome" where
  "transfer st i expected next_owner =
     (case entity_get st i of
        None \<Rightarrow> (st, TransferNotFound)
      | Some e \<Rightarrow>
          let actual = ent_authority e in
          if actual \<noteq> expected then (st, Refused (OwnerMismatch expected actual))
          else if actual \<noteq> Server \<and> next_owner \<noteq> Server \<and> actual \<noteq> next_owner
          then (st, Refused (MustReleaseFirst actual next_owner))
          else (entity_put st i (e\<lparr>ent_authority := next_owner\<rparr>), Transferred actual next_owner))"

definition owner_of :: "entity_store \<Rightarrow> entity_id \<Rightarrow> authority option" where
  "owner_of st i = map_option ent_authority (entity_get st i)"

section \<open>Dimensions\<close>

type_synonym dimension_id = u32
type_synonym dimension_map = "(u32 \<times> u32, dimension_id) hmap"

definition DEFAULT_DIM :: dimension_id where "DEFAULT_DIM = 0"

definition dim_key :: "entity_id \<Rightarrow> u32 \<times> u32" where
  "dim_key i = (eid_index i, eid_generation i)"

definition dim_set :: "dimension_map \<Rightarrow> entity_store \<Rightarrow> entity_id \<Rightarrow> dimension_id \<Rightarrow> dimension_map \<times> bool" where
  "dim_set dims st i d =
     (if entity_get st i = None then (dims, False) else (hm_insert (dim_key i) d dims, True))"

definition dimension_of :: "dimension_map \<Rightarrow> entity_store \<Rightarrow> entity_id \<Rightarrow> dimension_id option" where
  "dimension_of dims st i =
     (case entity_get st i of
        None \<Rightarrow> None
      | Some _ \<Rightarrow> Some (case hm_get dims (dim_key i) of None \<Rightarrow> DEFAULT_DIM | Some d \<Rightarrow> d))"

definition dim_remove :: "dimension_map \<Rightarrow> entity_id \<Rightarrow> dimension_map \<times> bool" where
  "dim_remove dims i = (hm_remove (dim_key i) dims, hm_get dims (dim_key i) \<noteq> None)"

definition dim_prune :: "dimension_map \<Rightarrow> entity_store \<Rightarrow> dimension_map \<times> nat" where
  "dim_prune dims st =
     (let kept = filter (\<lambda>((index, generation), _). entity_get st (entity_id_new index generation) \<noteq> None) dims in
      (kept, length dims - length kept))"

definition members_of :: "dimension_map \<Rightarrow> entity_store \<Rightarrow> dimension_id \<Rightarrow> entity_id list" where
  "members_of dims st d =
     filter (\<lambda>i. entity_get st i \<noteq> None)
       (map (\<lambda>((index, generation), _). entity_id_new index generation) (filter (\<lambda>(_, d'). d' = d) dims))"

definition visible_to :: "dimension_map \<Rightarrow> entity_store \<Rightarrow> entity_id \<Rightarrow> entity_id \<Rightarrow> bool" where
  "visible_to dims st a b =
     (case (dimension_of dims st a, dimension_of dims st b) of
        (Some da, Some db) \<Rightarrow> da = db
      | _ \<Rightarrow> False)"

section \<open>Worlds\<close>

datatype ecs_op =
    Spawn authority
  | Destroy entity_id
  | SetComponent entity_id string bytes
  | Transfer entity_id authority authority
  | SetDim entity_id dimension_id
  | RemoveDim entity_id
  | PruneDims

type_synonym world = "entity_store \<times> dimension_map"

fun ecs_step :: "world \<Rightarrow> ecs_op \<Rightarrow> world" where
  "ecs_step (st, dims) (Spawn a) = (fst (spawn st a), dims)"
| "ecs_step (st, dims) (Destroy i) = (fst (destroy st i), dims)"
| "ecs_step (st, dims) (SetComponent i n d) = (fst (set_component st i n d), dims)"
| "ecs_step (st, dims) (Transfer i a b) = (fst (transfer st i a b), dims)"
| "ecs_step (st, dims) (SetDim i d) = (st, fst (dim_set dims st i d))"
| "ecs_step (st, dims) (RemoveDim i) = (st, fst (dim_remove dims i))"
| "ecs_step (st, dims) PruneDims = (st, fst (dim_prune dims st))"

text \<open>
  \<open>store_ok n\<close> holds after \<open>n\<close> operations: slots and generations are parallel, a live slot
  carries its own index and current generation, a dead one is on the free stack, once, and no
  counter exceeds \<open>n\<close>.
\<close>

definition store_ok :: "nat \<Rightarrow> entity_store \<Rightarrow> bool" where
  "store_ok n st \<longleftrightarrow>
     length (generations st) = length (slots st) \<and> length (slots st) \<le> n \<and>
     (\<forall>k < length (slots st). unat (generations st ! k) \<le> n) \<and>
     (\<forall>k e. k < length (slots st) \<longrightarrow> slots st ! k = Some e \<longrightarrow>
        unat (eid_index (ent_id e)) = k \<and> eid_generation (ent_id e) = generations st ! k \<and> active e) \<and>
     distinct (free st) \<and>
     (\<forall>i \<in> set (free st). unat i < length (slots st) \<and> slots st ! unat i = None)"

text \<open>The keys of the dimension map are ids that were live when they were assigned.\<close>

definition dims_ok :: "world \<Rightarrow> bool" where
  "dims_ok w \<longleftrightarrow> (\<forall>i g. hm_get (snd w) (i, g) \<noteq> None \<longrightarrow>
     unat i < length (slots (fst w)) \<and>
     (unat g < unat (generations (fst w) ! unat i) \<or>
      g = generations (fst w) ! unat i \<and> slots (fst w) ! unat i \<noteq> None))"

text \<open>An id whose slot has moved on to a later generation.\<close>

definition outlived :: "entity_id \<Rightarrow> entity_store \<Rightarrow> bool" where
  "outlived i st \<longleftrightarrow> unat (eid_index i) < length (slots st) \<and>
     unat (eid_generation i) < unat (generations st ! unat (eid_index i))"

section \<open>Lemmas\<close>

abbreviation newborn :: "entity_id \<Rightarrow> authority \<Rightarrow> entity" where
  "newborn i auth \<equiv> \<lparr>ent_id = i, ent_authority = auth, ent_components = [], active = True\<rparr>"

lemma spawn_cases [case_names reuse grow]:
  obtains i rest where "free st = i # rest"
      "spawn st auth = (st\<lparr>free := rest, slots := (slots st)[unat i :=
         Some (newborn (entity_id_new i (generations st ! unat i)) auth)]\<rparr>,
       entity_id_new i (generations st ! unat i))"
  | "free st = []"
      "spawn st auth = (st\<lparr>slots := (slots st @ [None])[unat (of_nat (length (slots st)) :: u32) :=
           Some (newborn (entity_id_new (of_nat (length (slots st)))
             ((generations st @ [0]) ! unat (of_nat (length (slots st)) :: u32))) auth)],
         generations := generations st @ [0]\<rparr>,
       entity_id_new (of_nat (length (slots st))) ((generations st @ [0]) ! unat (of_nat (length (slots st)) :: u32)))"
  by (cases "free st") (simp_all add: spawn_def Let_def)

lemma index_word:
  assumes "store_ok n st" and "n < 2 ^ 32 - 1"
  shows "unat (of_nat (length (slots st)) :: u32) = length (slots st)"
  using assms by (intro unat_of_nat_small) (simp add: store_ok_def)

lemma gen_succ:
  assumes "store_ok n st" and "n < 2 ^ 32 - 1" and "k < length (slots st)"
  shows "unat (generations st ! k + 1) = Suc (unat (generations st ! k))"
proof -
  have "unat (generations st ! k) < 2 ^ 32 - 1"
    using assms unfolding store_ok_def by fastforce
  then show ?thesis by (simp add: unat_word_ariths)
qed

lemma store_ok_mono: "store_ok n st \<Longrightarrow> store_ok (Suc n) st"
  unfolding store_ok_def by (auto intro: le_SucI)

lemma entity_get_Some:
  "entity_get st i = Some e \<longleftrightarrow> unat (eid_index i) < length (slots st) \<and> slots st ! unat (eid_index i) = Some e \<and>
     eid_generation (ent_id e) = eid_generation i \<and> active e"
  by (auto simp: entity_get_def split: option.splits)

lemma live_generation:
  assumes "store_ok n st" and "entity_get st i = Some e"
  shows "generations st ! unat (eid_index i) = eid_generation i" and "ent_id e = i"
  using assms unfolding store_ok_def entity_get_Some
  by (auto intro!: entity_id.equality simp: word_unat_eq_iff dest!: spec [of _ "unat (eid_index i)"])

lemma store_ok_spawn:
  assumes "store_ok n st" and "n < 2 ^ 32 - 1"
  shows "store_ok (Suc n) (fst (spawn st auth))"
  using assms(1)
proof (cases rule: spawn_cases [of st auth])
  case (reuse i rest)
  then show ?thesis
    using assms(1) by (auto simp: store_ok_def nth_list_update entity_id_new_def word_unat_eq_iff [symmetric] intro: le_SucI)
next
  case grow
  then show ?thesis
    using assms(1) index_word [OF assms]
    by (auto simp: store_ok_def nth_list_update nth_append entity_id_new_def less_Suc_eq intro: le_SucI)
qed

lemma store_ok_destroy:
  assumes "store_ok n st" and "n < 2 ^ 32 - 1"
  shows "store_ok (Suc n) (fst (destroy st i))"
  using assms(1) gen_succ [OF assms, of "unat (eid_index i)"]
  by (auto simp: destroy_def store_ok_def Let_def nth_list_update intro: le_SucI)

lemma store_ok_put:
  assumes "store_ok n st" and "entity_get st i = Some e" and "ent_id e' = ent_id e" and "active e' = active e"
  shows "store_ok n (entity_put st i e')"
  using assms unfolding entity_get_Some
  by (auto simp: store_ok_def entity_put_def nth_list_update)

lemma store_ok_step:
  assumes "store_ok n (fst w)" and "n < 2 ^ 32 - 1"
  shows "store_ok (Suc n) (fst (ecs_step w op))"
proof (cases "(w, op)" rule: ecs_step.cases)
  case (3 st dims i name data)
  then show ?thesis
    using assms by (auto simp: set_component_def intro!: store_ok_put store_ok_mono split: option.splits)
next
  case (4 st dims i a b)
  then show ?thesis
    using assms by (auto simp: transfer_def Let_def intro!: store_ok_put store_ok_mono split: option.splits)
qed (use assms store_ok_spawn store_ok_destroy in \<open>auto simp: store_ok_mono\<close>)

lemma put_frame [simp]:
  "length (slots (entity_put st i e)) = length (slots st)" "generations (entity_put st i e) = generations st"
  "free (entity_put st i e) = free st"
  by (simp_all add: entity_put_def)

text \<open>Generations and slots only grow.\<close>

lemma step_grows:
  assumes "store_ok n (fst w)" and "n < 2 ^ 32 - 1" and "k < length (slots (fst w))"
  shows "k < length (slots (fst (ecs_step w op)))"
    and "unat (generations (fst w) ! k) \<le> unat (generations (fst (ecs_step w op)) ! k)"
proof -
  have "k < length (slots (fst (ecs_step w op))) \<and>
      unat (generations (fst w) ! k) \<le> unat (generations (fst (ecs_step w op)) ! k)"
  proof (cases "(w, op)" rule: ecs_step.cases)
    case (1 st dims a)
    then show ?thesis
      using assms by (cases rule: spawn_cases [of st a]) (auto simp: store_ok_def nth_append)
  next
    case (2 st dims i)
    then show ?thesis
      using assms gen_succ [of n st k]
      by (auto simp: destroy_def Let_def store_ok_def nth_list_update)
  next
    case (3 st dims i name data)
    then show ?thesis using assms by (auto simp: set_component_def split: option.splits)
  next
    case (4 st dims i a b)
    then show ?thesis using assms by (auto simp: transfer_def Let_def split: option.splits)
  qed (use assms in auto)
  then show "k < length (slots (fst (ecs_step w op)))"
    and "unat (generations (fst w) ! k) \<le> unat (generations (fst (ecs_step w op)) ! k)" by auto
qed

lemma outlived_step:
  assumes "store_ok n (fst w)" and "n < 2 ^ 32 - 1" and "outlived i (fst w)"
  shows "outlived i (fst (ecs_step w op))"
  using step_grows [OF assms(1,2), of "unat (eid_index i)" op] assms(3) by (auto simp: outlived_def)

lemma outlived_dead: "store_ok n st \<Longrightarrow> outlived i st \<Longrightarrow> entity_get st i = None"
  using live_generation(1) [of n st i] by (cases "entity_get st i") (auto simp: outlived_def)

lemma outlived_destroy:
  assumes "store_ok n st" and "n < 2 ^ 32 - 1" and "destroy st i = (st', True)"
  shows "outlived i st'"
proof -
  let ?k = "unat (eid_index i)"
  obtain e where k: "?k < length (slots st)" "slots st ! ?k = Some e" "eid_generation (ent_id e) = eid_generation i"
    and st': "st' = st\<lparr>slots := (slots st)[?k := None], free := eid_index i # free st,
      generations := (generations st)[?k := generations st ! ?k + 1]\<rparr>"
    using assms(3) by (auto simp: destroy_def Let_def split: if_splits)
  then have "generations st ! ?k = eid_generation i" and len: "length (generations st) = length (slots st)"
    using assms(1) by (auto simp: store_ok_def)
  then show ?thesis
    using gen_succ [OF assms(1,2) k(1)] k(1) by (simp add: outlived_def st')
qed

lemma run_ok:
  "store_ok n (fst w) \<Longrightarrow> n + length ops < 2 ^ 32 \<Longrightarrow> store_ok (n + length ops) (fst (foldl ecs_step w ops))"
proof (induction ops arbitrary: n w)
  case (Cons op ops)
  then have "store_ok (Suc n) (fst (ecs_step w op))" by (intro store_ok_step) auto
  from Cons.IH [OF this] Cons.prems show ?case by simp
qed simp

lemma run_outlived:
  "store_ok n (fst w) \<Longrightarrow> n + length ops < 2 ^ 32 \<Longrightarrow> outlived i (fst w) \<Longrightarrow>
   outlived i (fst (foldl ecs_step w ops))"
proof (induction ops arbitrary: n w)
  case (Cons op ops)
  then have "store_ok (Suc n) (fst (ecs_step w op))" "outlived i (fst (ecs_step w op))"
    using outlived_step [of n w i op] by (auto intro!: store_ok_step)
  from Cons.IH [OF this(1) _ this(2)] Cons.prems show ?case by simp
qed simp

lemma store_new_ok: "store_ok 0 (fst (entity_store_new, []))"
  by (simp add: store_ok_def entity_store_new_def)

lemma put_slot:
  "slots st ! k \<noteq> None \<Longrightarrow> k < length (slots st) \<Longrightarrow> slots (entity_put st i e) ! k \<noteq> None"
  by (cases "k = unat (eid_index i)") (simp_all add: entity_put_def)

lemma dims_ok_put: "dims_ok (st, dims) \<Longrightarrow> dims_ok (entity_put st i e, dims)"
  unfolding dims_ok_def fst_conv snd_conv put_frame using put_slot by blast

lemma dims_ok_step:
  assumes "store_ok n (fst w)" and "n < 2 ^ 32 - 1" and "dims_ok w"
  shows "dims_ok (ecs_step w op)"
proof (cases "(w, op)" rule: ecs_step.cases)
  case (1 st dims a)
  then show ?thesis
    using assms
    by (cases rule: spawn_cases [of st a])
      (fastforce simp: dims_ok_def store_ok_def nth_append nth_list_update index_word)+
next
  case (2 st dims i)
  have key: "unat k < length (slots st) \<and> (unat g < unat (generations st ! unat k) \<or>
      g = generations st ! unat k \<and> slots st ! unat k \<noteq> None)" if "hm_get dims (k, g) \<noteq> None" for k g
    using assms(3) 2 that unfolding dims_ok_def by (auto simp del: not_None_eq)
  have succ: "k < length (slots st) \<Longrightarrow> unat (generations st ! k + 1) = Suc (unat (generations st ! k))" for k
    using gen_succ [of n st k] assms 2 by simp
  have len: "length (generations st) = length (slots st)" using assms(1) 2 by (simp add: store_ok_def)
  show ?thesis
    unfolding dims_ok_def
  proof (intro allI impI)
    fix k g assume "hm_get (snd (ecs_step w op)) (k, g) \<noteq> None"
    then have "hm_get dims (k, g) \<noteq> None" using 2 by simp
    from key [OF this] succ [of "unat k"] len
    show "unat k < length (slots (fst (ecs_step w op))) \<and>
      (unat g < unat (generations (fst (ecs_step w op)) ! unat k) \<or>
       g = generations (fst (ecs_step w op)) ! unat k \<and> slots (fst (ecs_step w op)) ! unat k \<noteq> None)"
      using 2 by (auto simp: destroy_def Let_def nth_list_update)
  qed
next
  case (3 st dims i name data)
  then show ?thesis
    using assms by (auto simp: set_component_def intro: dims_ok_put split: option.splits)
next
  case (4 st dims i a b)
  then show ?thesis
    using assms
    by (auto simp: transfer_def Let_def intro: dims_ok_put split: option.splits)
next
  case (5 st dims i d)
  have "unat (eid_index i) < length (slots st) \<and> slots st ! unat (eid_index i) \<noteq> None \<and>
      eid_generation i = generations st ! unat (eid_index i)" if "entity_get st i \<noteq> None"
    using that live_generation(1) [of n st i] assms(1) 5 by (auto simp: entity_get_Some)
  then show ?thesis
    using assms 5 by (auto simp: dims_ok_def dim_set_def dim_key_def hm_simps split: if_splits)
next
  case (6 st dims i)
  then show ?thesis using assms by (auto simp: dims_ok_def dim_remove_def hm_simps split: if_splits)
next
  case (7 st dims)
  have "map_of (filter P dims) k \<noteq> None \<Longrightarrow> map_of dims k \<noteq> None" for P k
    unfolding map_of_eq_None_iff by auto
  then show ?thesis
    using assms(3) 7 unfolding dims_ok_def by (simp add: dim_prune_def Let_def del: not_None_eq) blast
qed

lemma run_dims_ok:
  "store_ok n (fst w) \<Longrightarrow> n + length ops < 2 ^ 32 \<Longrightarrow> dims_ok w \<Longrightarrow> dims_ok (foldl ecs_step w ops)"
proof (induction ops arbitrary: n w)
  case (Cons op ops)
  then have "store_ok (Suc n) (fst (ecs_step w op))" "dims_ok (ecs_step w op)"
    using dims_ok_step [of n w op] by (auto intro!: store_ok_step)
  from Cons.IH [OF this(1) _ this(2)] Cons.prems show ?case by simp
qed simp

text \<open>A new entity is alone under its id.\<close>

lemma spawn_effect:
  assumes "store_ok n st" and "n < 2 ^ 32 - 1" and "dims_ok (st, dims)" and "spawn st a = (st', i)"
  shows "entity_get st i = None" and "entity_get st' i = Some (newborn i a)"
    and "j \<noteq> i \<Longrightarrow> entity_get st' j = entity_get st j" and "hm_get dims (dim_key i) = None"
proof -
  have "entity_get st i = None \<and> entity_get st' i = Some (newborn i a) \<and> hm_get dims (dim_key i) = None \<and>
    (j \<noteq> i \<longrightarrow> entity_get st' j = entity_get st j)"
  proof (cases rule: spawn_cases [of st a])
    case (reuse k rest)
    have k: "unat k < length (slots st)" "slots st ! unat k = None"
      using assms(1) reuse(1) by (auto simp: store_ok_def)
    moreover have "hm_get dims (k, generations st ! unat k) = None"
      using assms(3) k by (force simp: dims_ok_def)
    moreover have i: "i = entity_id_new k (generations st ! unat k)"
      and slots': "slots st' = (slots st)[unat k := Some (newborn i a)]"
      using assms(4) reuse(2) by auto
    moreover have idx: "eid_index i = k" "eid_generation i = generations st ! unat k"
      by (simp_all add: i entity_id_new_def)
    moreover have "entity_get st i = None" "entity_get st' i = Some (newborn i a)"
      using idx k by (simp_all add: entity_get_def slots')
    moreover have "entity_get st' j = entity_get st j" if "j \<noteq> i"
    proof (cases "eid_index j = k")
      case True
      then have "eid_generation j \<noteq> eid_generation i"
        using that idx(1) by (metis entity_id.equality unit.exhaust)
      with True k show ?thesis by (simp add: entity_get_def slots')
    next
      case False
      then have "unat (eid_index j) \<noteq> unat k" by (simp add: word_unat_eq_iff)
      then show ?thesis by (simp add: entity_get_def slots')
    qed
    ultimately show ?thesis by (simp add: dim_key_def entity_id_new_def)
  next
    case grow
    note u = index_word [OF assms(1,2)]
    have len: "length (generations st) = length (slots st)" using assms(1) by (simp add: store_ok_def)
    have "hm_get dims (of_nat (length (slots st)), 0) = None"
      using assms(3) u by (force simp: dims_ok_def)
    moreover have i: "i = entity_id_new (of_nat (length (slots st))) 0"
      and slots': "slots st' = slots st @ [Some (newborn i a)]"
      using assms(4) grow(2) u len by (auto simp: nth_append)
    moreover have idx: "unat (eid_index i) = length (slots st)" "eid_generation i = 0"
      using u by (simp_all add: i entity_id_new_def)
    moreover have "entity_get st i = None" "entity_get st' i = Some (newborn i a)"
      using idx by (simp_all add: entity_get_def slots')
    moreover have "entity_get st' j = entity_get st j" if "j \<noteq> i"
    proof (cases "unat (eid_index j) = length (slots st)")
      case True
      then have "eid_generation j \<noteq> 0"
        using that idx by (metis entity_id.equality unit.exhaust word_unat_eq_iff)
      with True idx show ?thesis by (simp add: entity_get_def slots')
    next
      case False
      then show ?thesis by (simp add: entity_get_def slots' nth_append)
    qed
    ultimately show ?thesis by (simp add: dim_key_def entity_id_new_def)
  qed
  then show "entity_get st i = None" and "entity_get st' i = Some (newborn i a)"
    and "j \<noteq> i \<Longrightarrow> entity_get st' j = entity_get st j" and "hm_get dims (dim_key i) = None" by auto
qed

text \<open>What a step can do to the owner of a live entity.\<close>

lemma owner_put:
  assumes "entity_get st j = Some e" and "ent_id e' = ent_id e" and "active e' = active e"
  shows "owner_of (entity_put st j e') i =
    (if i = j then Some (ent_authority e') else owner_of st i)"
proof -
  have j: "unat (eid_index j) < length (slots st)" "slots st ! unat (eid_index j) = Some e"
    "eid_generation (ent_id e) = eid_generation j" "active e"
    using assms(1) by (auto simp: entity_get_Some)
  show ?thesis
  proof (cases "eid_index i = eid_index j")
    case True
    then have "i = j \<longleftrightarrow> eid_generation i = eid_generation j"
      by (metis entity_id.equality unit.exhaust)
    with True j assms show ?thesis by (auto simp: owner_of_def entity_get_def entity_put_def)
  next
    case False
    then have "unat (eid_index i) \<noteq> unat (eid_index j)" by (simp add: word_unat_eq_iff)
    with False show ?thesis by (auto simp: owner_of_def entity_get_def entity_put_def)
  qed
qed

lemma owner_destroy:
  assumes "owner_of st i = Some a" and "j \<noteq> i" and "store_ok n st"
  shows "owner_of (fst (destroy st j)) i = Some a"
proof (cases "eid_index i = eid_index j")
  case True
  then have "eid_generation i \<noteq> eid_generation j"
    using assms(2) by (metis entity_id.equality unit.exhaust)
  with True assms(1) show ?thesis
    by (auto simp: owner_of_def entity_get_Some destroy_def Let_def)
next
  case False
  then have "unat (eid_index i) \<noteq> unat (eid_index j)" by (simp add: word_unat_eq_iff)
  with assms(1) show ?thesis
    by (auto simp: owner_of_def entity_get_Some destroy_def Let_def)
qed

lemma owner_step:
  assumes "store_ok n (fst w)" and "n < 2 ^ 32 - 1" and "dims_ok w" and "owner_of (fst w) i = Some a" and "a \<noteq> Server"
  shows "owner_of (fst (ecs_step w op)) i \<in> {Some a, Some Server} \<or> outlived i (fst (ecs_step w op))"
proof (cases "(w, op)" rule: ecs_step.cases)
  case (1 st dims b)
  obtain st' j where sp: "spawn st b = (st', j)" by (cases "spawn st b")
  have ok: "store_ok n st" "dims_ok (st, dims)" using assms 1 by simp_all
  have "i \<noteq> j" using assms(4) 1 spawn_effect(1) [OF ok(1) assms(2) ok(2) sp] by (auto simp: owner_of_def)
  then show ?thesis
    using assms(4) 1 spawn_effect(3) [OF ok(1) assms(2) ok(2) sp, of i] sp by (simp add: owner_of_def)
next
  case (2 st dims j)
  show ?thesis
  proof (cases "j = i \<and> snd (destroy st j)")
    case True
    then have "destroy st i = (fst (destroy st i), True)" by (metis prod.collapse)
    then show ?thesis using outlived_destroy [of n st i "fst (destroy st i)"] assms 2 True by simp
  next
    case False
    moreover have "\<not> snd (destroy st j) \<Longrightarrow> fst (destroy st j) = st" by (auto simp: destroy_def Let_def split: if_splits)
    ultimately show ?thesis
      using owner_destroy [of st i a j n] assms 2 by fastforce
  qed
next
  case (3 st dims j name data)
  then show ?thesis
    using assms by (auto simp: set_component_def owner_put owner_of_def [of st] split: option.splits)
next
  case (4 st dims j x y)
  then show ?thesis
    using assms by (auto simp: transfer_def Let_def owner_put owner_of_def [of st] split: option.splits)
qed (use assms in auto)

lemma owner_run:
  assumes "store_ok n (fst w)" and "n + length ops < 2 ^ 32" and "dims_ok w" and "owner_of (fst w) i = Some a" and "a \<noteq> Server"
  shows "(\<exists>k \<le> length ops. owner_of (fst (foldl ecs_step w (take k ops))) i = Some Server) \<or>
    owner_of (fst (foldl ecs_step w ops)) i = Some a \<or> outlived i (fst (foldl ecs_step w ops))"
  using assms
proof (induction ops arbitrary: n w)
  case (Cons op ops)
  let ?w = "ecs_step w op"
  have ok: "store_ok (Suc n) (fst ?w)" "dims_ok ?w" "Suc n + length ops < 2 ^ 32"
    using Cons.prems store_ok_step [of n w op] dims_ok_step [of n w op] by auto
  consider "owner_of (fst ?w) i = Some a" | "owner_of (fst ?w) i = Some Server" | "outlived i (fst ?w)"
    using owner_step [of n w i a op] Cons.prems by auto
  then show ?case
  proof cases
    case 1
    from Cons.IH [OF ok(1,3,2) this Cons.prems(5)] show ?thesis
    proof (elim disjE exE conjE)
      fix k assume "k \<le> length ops" "owner_of (fst (foldl ecs_step ?w (take k ops))) i = Some Server"
      then show ?thesis by (intro disjI1 exI [of _ "Suc k"]) simp
    qed simp_all
  next
    case 2
    then show ?thesis by (intro disjI1 exI [of _ 1]) simp
  next
    case 3
    then show ?thesis using run_outlived [OF ok(1,3)] by simp
  qed
qed simp

section \<open>Properties\<close>

text \<open>
  C31. A destroyed id stays dead: after any history, once \<open>destroy\<close> has accepted an id, no later
  sequence of operations makes it resolve again, even when its slot is reused (fewer than
  \<open>2 ^ 32 - 1\<close> operations in all, so that no generation counter wraps).
\<close>

theorem stale_id_never_resolves:
  assumes "w = foldl ecs_step (entity_store_new, []) pre" and "destroy (fst w) i = (st', True)"
    and "length pre + length post < 2 ^ 32 - 1"
  shows "entity_get (fst (foldl ecs_step (st', snd w) post)) i = None"
proof -
  have ok: "store_ok (length pre) (fst w)"
    using run_ok [OF store_new_ok, of pre] assms by simp
  then have ok': "store_ok (Suc (length pre)) st'"
    using store_ok_destroy [of "length pre" "fst w" i] assms by simp
  have "outlived i st'" using outlived_destroy [OF ok _ assms(2)] assms(3) by simp
  then have "outlived i (fst (foldl ecs_step (st', snd w) post))"
    using run_outlived [of "Suc (length pre)" "(st', snd w)" post i] ok' assms(3) by simp
  moreover have "store_ok (Suc (length pre) + length post) (fst (foldl ecs_step (st', snd w) post))"
    using run_ok [of "Suc (length pre)" "(st', snd w)" post] ok' assms(3) by simp
  ultimately show ?thesis by (rule outlived_dead [rotated])
qed

definition demo_id :: entity_id where
  "demo_id = entity_id_new 0 0"

definition demo_dead :: entity_store where
  "demo_dead = \<lparr>slots = [None], free = [0], generations = [1]\<rparr>"

theorem stale_id_never_resolves_witness:
  "destroy (fst (foldl ecs_step (entity_store_new, []) [Spawn Server])) demo_id = (demo_dead, True) \<and>
   entity_get (fst (foldl ecs_step (demo_dead, []) [Spawn Server])) demo_id = None"
proof -
  have d: "destroy (fst (foldl ecs_step (entity_store_new, []) [Spawn Server])) demo_id = (demo_dead, True)"
    by code_simp
  show ?thesis using stale_id_never_resolves [OF refl d, of "[Spawn Server]"] d by simp
qed

text \<open>
  A new entity inherits nothing: after any history, \<open>spawn\<close> returns an id that did not
  resolve before and resolves to the new entity now, every other id resolves as before, and the
  entity reads as being in the default dimension, whatever the previous occupant of its slot was
  assigned.
\<close>

lemma spawn_inherits_nothing:
  assumes "w = foldl ecs_step (entity_store_new, []) ops" and "length ops < 2 ^ 32 - 1"
    and "spawn (fst w) a = (st', i)"
  shows "entity_get (fst w) i = None \<and>
    entity_get st' i = Some \<lparr>ent_id = i, ent_authority = a, ent_components = [], active = True\<rparr> \<and>
    (\<forall>j. j \<noteq> i \<longrightarrow> entity_get st' j = entity_get (fst w) j) \<and>
    dimension_of (snd w) st' i = Some DEFAULT_DIM"
proof -
  have ok: "store_ok (length ops) (fst w)" using run_ok [OF store_new_ok, of ops] assms by simp
  have "dims_ok w" unfolding assms(1)
    using assms(2) by (intro run_dims_ok [OF store_new_ok]) (simp_all add: dims_ok_def)
  then show ?thesis
    using spawn_effect [of "length ops" "fst w" "snd w" a st' i] ok assms(2,3) by (simp add: dimension_of_def)
qed

text \<open>
  C33. Ownership flows through the server: however the operations are interleaved, when a live
  entity passes from one owner other than the server to a different one, the server has owned it
  in between. The operations are those of the store and the ownership module, fewer than \<open>2 ^ 32 - 1\<close> of them so that no
  generation wraps; a caller that assigns the owner through \<open>get_mut\<close> is outside of them.
\<close>

theorem ownership_through_server:
  assumes "w = foldl ecs_step (entity_store_new, []) pre" and "length pre + length ops < 2 ^ 32 - 1"
    and "owner_of (fst w) i = Some a" and "owner_of (fst (foldl ecs_step w ops)) i = Some b"
    and "a \<noteq> b" and "a \<noteq> Server"
  shows "\<exists>k \<le> length ops. owner_of (fst (foldl ecs_step w (take k ops))) i = Some Server"
proof -
  have ok: "store_ok (length pre) (fst w)" using run_ok [OF store_new_ok, of pre] assms by simp
  have dims: "dims_ok w" unfolding assms(1)
    using assms(2) by (intro run_dims_ok [OF store_new_ok]) (simp_all add: dims_ok_def)
  have "store_ok (length pre + length ops) (fst (foldl ecs_step w ops))"
    using run_ok [OF ok, of ops] assms(2) by simp
  then have "\<not> outlived i (fst (foldl ecs_step w ops))"
    using outlived_dead assms(4) by (auto simp: owner_of_def)
  then show ?thesis
    using owner_run [OF ok _ dims assms(3,6), of ops] assms(2,4,5) by auto
qed

theorem ownership_through_server_witness:
  "let w = foldl ecs_step (entity_store_new, []) [Spawn (Player 1)];
       ops = [Transfer demo_id (Player 1) Server, Transfer demo_id Server (Player 2)]
   in owner_of (fst w) demo_id = Some (Player 1) \<and> owner_of (fst (foldl ecs_step w ops)) demo_id = Some (Player 2) \<and>
      (\<exists>k \<le> length ops. owner_of (fst (foldl ecs_step w (take k ops))) demo_id = Some Server)"
proof -
  let ?w = "foldl ecs_step (entity_store_new, []) [Spawn (Player 1)]"
  let ?ops = "[Transfer demo_id (Player 1) Server, Transfer demo_id Server (Player 2)]"
  have "owner_of (fst ?w) demo_id = Some (Player 1)" "owner_of (fst (foldl ecs_step ?w ?ops)) demo_id = Some (Player 2)"
    by code_simp+
  then show ?thesis
    using ownership_through_server [OF refl, of "[Spawn (Player 1)]" ?ops demo_id "Player 1" "Player 2"]
    unfolding Let_def by simp
qed

text \<open>
  A live entity that was never assigned is in the default dimension, but it is missing from
  the enumeration of that dimension.
\<close>

lemma unassigned_not_enumerated:
  assumes "entity_get st i = Some e" and "hm_get dims (dim_key i) = None"
  shows "dimension_of dims st i = Some DEFAULT_DIM \<and> i \<notin> set (members_of dims st DEFAULT_DIM)"
proof -
  have "i \<notin> set (members_of dims st d)" for d
  proof
    assume "i \<in> set (members_of dims st d)"
    then obtain x g where "((x, g), d) \<in> set dims" "i = entity_id_new x g"
      by (auto simp: members_of_def)
    then have "dim_key i \<in> fst ` set dims"
      by (simp add: dim_key_def entity_id_new_def image_iff) force
    then have "hm_get dims (dim_key i) \<noteq> None" unfolding map_of_eq_None_iff by blast
    with assms(2) show False by simp
  qed
  then show ?thesis using assms by (simp add: dimension_of_def)
qed

end
