(* ===== verification/Permissions.thy ===== *)
theory Permissions
  imports Prelude
begin

text \<open>
  Role-based access control of \<open>crates/ald-permissions\<close>. A \<open>HashSet\<close> of permissions is a list
  used as a set.
\<close>

datatype role = Owner | SuperAdmin | Admin | Moderator | Developer | Support | ReadOnly

fun role_name :: "role \<Rightarrow> string" where
  "role_name Owner = ''Owner''"
| "role_name SuperAdmin = ''SuperAdmin''"
| "role_name Admin = ''Admin''"
| "role_name Moderator = ''Moderator''"
| "role_name Developer = ''Developer''"
| "role_name Support = ''Support''"
| "role_name ReadOnly = ''ReadOnly''"

fun default_permissions :: "role \<Rightarrow> string list" where
  "default_permissions Owner = [''*'']"
| "default_permissions SuperAdmin =
     [''players.read'', ''players.kick'', ''players.ban'', ''players.identity.read'',
      ''players.identity.device.read'', ''players.identity.network.read'', ''resources.*'', ''server.*'',
      ''console.execute'', ''deployment.*'', ''audit.read'', ''config.edit'']"
| "default_permissions Admin =
     [''players.read'', ''players.kick'', ''players.ban'', ''players.identity.read'', ''resources.restart'',
      ''resources.configure'', ''server.restart'', ''console.execute'', ''audit.read'']"
| "default_permissions Moderator = [''players.read'', ''players.kick'', ''players.identity.read'']"
| "default_permissions Developer =
     [''players.read'', ''resources.restart'', ''resources.configure'', ''server.restart'',
      ''console.execute'', ''audit.read'']"
| "default_permissions Support = [''players.read'', ''players.identity.read'', ''audit.read'']"
| "default_permissions ReadOnly = [''players.read'', ''audit.read'']"

record access_control =
  role_permissions :: "(role, string list) hmap"
  assignments :: "(string, role) hmap"
  grants :: "(string, string list) hmap"

definition all_roles :: "role list" where
  "all_roles = [Owner, SuperAdmin, Admin, Moderator, Developer, Support, ReadOnly]"

definition access_control_new :: access_control where
  "access_control_new =
     \<lparr>role_permissions = foldl (\<lambda>m r. hm_insert r (default_permissions r) m) [] all_roles,
      assignments = [], grants = []\<rparr>"

definition assign :: "access_control \<Rightarrow> string \<Rightarrow> role \<Rightarrow> access_control" where
  "assign ac who r = ac\<lparr>assignments := hm_insert who r (assignments ac)\<rparr>"

definition unassign :: "access_control \<Rightarrow> string \<Rightarrow> access_control" where
  "unassign ac who = ac\<lparr>assignments := hm_remove who (assignments ac)\<rparr>"

definition grant :: "access_control \<Rightarrow> string \<Rightarrow> string \<Rightarrow> access_control" where
  "grant ac who permission =
     ac\<lparr>grants := hm_insert who (List.insert permission (hm_get_or [] (grants ac) who)) (grants ac)\<rparr>"

definition perm_allows :: "string \<Rightarrow> string \<Rightarrow> bool" where
  "perm_allows permission p =
     (p = ''*'' \<or> p = permission \<or>
      (case split_once (CHR ''.'') permission of
         None \<Rightarrow> False
       | Some (scope, _) \<Rightarrow> p = scope @ ''.*''))"

definition access_check :: "access_control \<Rightarrow> string \<Rightarrow> string \<Rightarrow> bool" where
  "access_check ac who permission =
     (case hm_get (assignments ac) who of
        None \<Rightarrow> False
      | Some r \<Rightarrow>
          let extra = hm_get (grants ac) who in
          if (case hm_get (role_permissions ac) r of
                Some perms \<Rightarrow> list_ex (perm_allows permission) perms | None \<Rightarrow> False) then True
          else if (case extra of Some perms \<Rightarrow> list_ex (perm_allows permission) perms | None \<Rightarrow> False) then True
          else False)"

section \<open>Administration as steps\<close>

datatype access_op = Assign string role | Unassign string | Grant string string

fun access_step :: "access_control \<Rightarrow> access_op \<Rightarrow> access_control" where
  "access_step ac (Assign p r) = assign ac p r"
| "access_step ac (Unassign p) = unassign ac p"
| "access_step ac (Grant p q) = grant ac p q"

text \<open>No operation changes what a role means.\<close>

definition roles_fixed :: "access_control \<Rightarrow> bool" where
  "roles_fixed ac \<longleftrightarrow> role_permissions ac = role_permissions access_control_new"

interpretation access_run: op_system access_control_new access_step roles_fixed
proof
  fix s op assume "roles_fixed s"
  then show "roles_fixed (access_step s op)"
    by (cases op) (simp_all add: roles_fixed_def assign_def unassign_def grant_def)
qed (simp add: roles_fixed_def)

lemma role_permissions_new: "hm_get (role_permissions access_control_new) r = Some (default_permissions r)"
  by (cases r) (simp_all add: access_control_new_def all_roles_def hm_simps)

lemma check_roles_fixed:
  assumes "roles_fixed ac"
  shows "access_check ac p perm \<longleftrightarrow> (\<exists>r. hm_get (assignments ac) p = Some r \<and>
    list_ex (perm_allows perm) (default_permissions r @ hm_get_or [] (grants ac) p))"
  using assms role_permissions_new
  by (auto simp: access_check_def roles_fixed_def hm_get_or_def split: option.splits)

text \<open>A permission without wildcard allows exactly itself.\<close>

lemma perm_allows_self [simp]: "perm_allows perm perm"
  by (simp add: perm_allows_def)

lemma perm_allows_plain:
  assumes "perm_allows perm p" and "last p \<noteq> CHR ''*''"
  shows "p = perm"
  using assms by (auto simp: perm_allows_def split: option.splits)

lemma perm_allows_scope: "CHR ''.'' \<notin> set scope \<Longrightarrow> perm_allows (scope @ CHR ''.'' # rest) (scope @ ''.*'')"
  by (simp add: perm_allows_def split_once_append)

definition seniors :: "role \<Rightarrow> role list" where
  "seniors r = (case r of
     ReadOnly \<Rightarrow> [Support, Developer, Admin, SuperAdmin, Owner]
   | Support \<Rightarrow> [Admin, SuperAdmin, Owner]
   | Moderator \<Rightarrow> [Admin, SuperAdmin, Owner]
   | Developer \<Rightarrow> [Admin, SuperAdmin, Owner]
   | Admin \<Rightarrow> [SuperAdmin, Owner]
   | SuperAdmin \<Rightarrow> [Owner]
   | Owner \<Rightarrow> [])"

lemma role_plain: "r \<notin> {Owner, SuperAdmin} \<Longrightarrow> p \<in> set (default_permissions r) \<Longrightarrow> last p \<noteq> CHR ''*''"
  by (cases r) auto

lemma owner_allows: "list_ex (perm_allows perm) (default_permissions Owner)"
  by (simp add: perm_allows_def)

lemma senior_covers:
  assumes "s \<in> set (seniors r)" and "p \<in> set (default_permissions r)"
  shows "list_ex (perm_allows p) (default_permissions s)"
proof -
  have "list_all (\<lambda>r. list_all (\<lambda>p. list_all (\<lambda>s. list_ex (perm_allows p) (default_permissions s))
      (seniors r)) (default_permissions r)) all_roles"
    by code_simp
  moreover have "r \<in> set all_roles" by (cases r) (simp_all add: all_roles_def)
  ultimately show ?thesis using assms by (simp only: list_all_iff)
qed

section \<open>Properties\<close>

text \<open>
  What a check means, after any sequence of assignments, revocations and grants: the
  principal has a role, and the default permissions of that role or the grants of the principal
  contain the wildcard, the permission itself or the wildcard of its first segment. Without a
  role nothing is allowed, whatever was granted.
\<close>

lemma access_check_meaning:
  "let ac = foldl access_step access_control_new ops in
     access_check ac p perm \<longleftrightarrow>
       (\<exists>r q. hm_get (assignments ac) p = Some r \<and>
          q \<in> set (default_permissions r) \<union> set (hm_get_or [] (grants ac) p) \<and>
          (q = ''*'' \<or> q = perm \<or> (\<exists>scope rest. perm = scope @ CHR ''.'' # rest \<and> CHR ''.'' \<notin> set scope \<and> q = scope @ ''.*'')))"
proof -
  have allows: "perm_allows perm q \<longleftrightarrow>
      q = ''*'' \<or> q = perm \<or> (\<exists>scope rest. perm = scope @ CHR ''.'' # rest \<and> CHR ''.'' \<notin> set scope \<and> q = scope @ ''.*'')" for q
    using split_once_Some [of "CHR ''.''" perm] split_once_append
    by (fastforce simp: perm_allows_def split: option.splits)
  show ?thesis
    unfolding Let_def check_roles_fixed [OF access_run.inv_reach] list_ex_iff allows by auto
qed

text \<open>
  The roles form a hierarchy: on a fresh system with assignments only, whatever permission
  a junior role is allowed, every role above it is allowed too (read-only below support and
  developer, those and moderator below admin, admin below super-admin, super-admin below owner).
\<close>

lemma role_hierarchy:
  assumes "s \<in> set (seniors r)" and "access_check (assign access_control_new p r) p perm"
  shows "access_check (assign access_control_new p s) p perm"
proof -
  have check: "access_check (assign access_control_new p r') p perm \<longleftrightarrow>
      list_ex (perm_allows perm) (default_permissions r')" for r'
    using check_roles_fixed [of "assign access_control_new p r'"]
    by (simp add: roles_fixed_def assign_def access_control_new_def hm_simps hm_get_or_def)
  show ?thesis
  proof (cases "s = Owner")
    case True
    then show ?thesis by (simp only: check owner_allows)
  next
    case False
    then have r: "r \<notin> {Owner, SuperAdmin}" using assms(1) by (auto simp: seniors_def)
    obtain q where "q \<in> set (default_permissions r)" "perm_allows perm q"
      using assms(2) by (auto simp: check list_ex_iff)
    then have "perm \<in> set (default_permissions r)"
      using perm_allows_plain role_plain [OF r] by blast
    then show ?thesis using senior_covers [OF assms(1)] by (simp only: check)
  qed
qed

end
