(* ===== verification/ResourceSys.thy ===== *)
theory ResourceSys
  imports Core
begin

text \<open>
  The resource system of \<open>crates/ald-resource\<close>: dependency resolution with its depth-first
  cycle search (\<open>lib.rs\<close>), the lifecycle table (\<open>lifecycle.rs\<close>), capability lists
  (\<open>capabilities.rs\<close>) and manifests (\<open>manifest.rs\<close>; the TOML parser is a parameter).
\<close>

section \<open>Manifests\<close>

record dependency =
  dep_name :: string
  dep_version :: "string option"

record manifest =
  m_name :: string
  m_version :: string
  author :: "string option"
  description :: "string option"
  license :: "string option"
  minimum_runtime :: "string option"
  dependencies :: "dependency list"
  optional_dependencies :: "dependency list"
  client_scripts :: "string list"
  server_scripts :: "string list"
  shared_scripts :: "string list"
  ui :: "string list"
  assets :: "string list"
  capabilities :: "string list"
  exports :: "string list"
  imports_ :: "string list"
  framework :: "string option"
  compatibility :: "string list"
  configuration :: "string list"
  database_migrations :: "string list"

datatype manifest_error = ManifestParse string | MissingField string

definition manifest_parse ::
  "(string \<Rightarrow> (manifest, string) result) \<Rightarrow> string \<Rightarrow> (manifest, manifest_error) result" where
  "manifest_parse from_str s =
     (case from_str s of
        Inl e \<Rightarrow> Err (ManifestParse e)
      | Inr m \<Rightarrow>
          if trim (m_name m) = [] then Err (MissingField ''name'')
          else if trim (m_version m) = [] then Err (MissingField ''version'')
          else Ok m)"

section \<open>Dependency resolution\<close>

type_synonym dep_graph = "(string, string list) hmap"

definition add_node :: "dep_graph \<Rightarrow> manifest \<Rightarrow> dep_graph" where
  "add_node g m = hm_or_insert (m_name m) [] g"

definition push_edge :: "string \<Rightarrow> string \<Rightarrow> dep_graph \<Rightarrow> dep_graph" where
  "push_edge n d g = hm_insert n (hm_get_or [] g n @ [d]) g"

fun add_edges :: "string list \<Rightarrow> string \<Rightarrow> dependency list \<Rightarrow> dep_graph \<Rightarrow> (dep_graph, string) result" where
  "add_edges names n [] g = Ok g"
| "add_edges names n (d # ds) g =
     (if dep_name d \<notin> set names
      then Err (''resource '' @ [CHR 0x27] @ n @ [CHR 0x27] @ '' missing dependency '' @ [CHR 0x27] @ dep_name d @ [CHR 0x27])
      else add_edges names n ds (push_edge n (dep_name d) g))"

fun add_all_edges :: "string list \<Rightarrow> manifest list \<Rightarrow> dep_graph \<Rightarrow> (dep_graph, string) result" where
  "add_all_edges names [] g = Ok g"
| "add_all_edges names (m # ms) g =
     (case add_edges names (m_name m) (dependencies m) g of
        Inl e \<Rightarrow> Err e
      | Inr g' \<Rightarrow> add_all_edges names ms g')"

fun join_arrow :: "string list \<Rightarrow> string" where
  "join_arrow [] = []"
| "join_arrow [x] = x"
| "join_arrow (x # y # ys) = x @ '' -> '' @ join_arrow (y # ys)"

text \<open>
  The search threads the \<open>visited\<close> map (\<open>False\<close> while a node is on the stack, \<open>True\<close> after) and
  the stack. \<open>NoFuel\<close> marks an exhausted recursion bound; \<open>detect_cycle\<close> gives one that is never
  reached.
\<close>

datatype dfs_result =
    NoFuel
  | Cycle string
  | Finished "(string, bool) hmap" "string list"

function (sequential) visit :: "nat \<Rightarrow> dep_graph \<Rightarrow> string \<Rightarrow> (string, bool) hmap \<Rightarrow> string list \<Rightarrow> dfs_result"
  and visit_next :: "nat \<Rightarrow> dep_graph \<Rightarrow> string list \<Rightarrow> (string, bool) hmap \<Rightarrow> string list \<Rightarrow> dfs_result" where
  "visit 0 g node vis st = NoFuel"
| "visit (Suc f) g node vis st =
     (case visit_next f g (hm_get_or [] g node) (hm_insert node False vis) (st @ [node]) of
        Finished vis' st' \<Rightarrow> Finished (hm_insert node True vis') (butlast st')
      | r \<Rightarrow> r)"
| "visit_next f g [] vis st = Finished vis st"
| "visit_next f g (n # ns) vis st =
     (case hm_get vis n of
        None \<Rightarrow>
          (case visit f g n vis st of
             Finished vis' st' \<Rightarrow> visit_next f g ns vis' st'
           | r \<Rightarrow> r)
      | Some False \<Rightarrow> Cycle (join_arrow st)
      | Some True \<Rightarrow> visit_next f g ns vis st)"
  by pat_completeness auto
termination
  by (relation "inv_image (less_than <*lex*> less_than)
       (\<lambda>x. case x of Inl (f, _) \<Rightarrow> (f, 0) | Inr (f, _, ns, _) \<Rightarrow> (f, Suc (length ns)))") auto

fun visit_keys :: "nat \<Rightarrow> dep_graph \<Rightarrow> string list \<Rightarrow> (string, bool) hmap \<Rightarrow> string list \<Rightarrow> dfs_result" where
  "visit_keys f g [] vis st = Finished vis st"
| "visit_keys f g (k # ks) vis st =
     (if hm_get vis k = None then
        (case visit f g k vis st of
           Finished vis' st' \<Rightarrow> visit_keys f g ks vis' st'
         | r \<Rightarrow> r)
      else visit_keys f g ks vis st)"

definition graph_size :: "dep_graph \<Rightarrow> nat" where
  "graph_size g = length g + length (concat (hm_values g))"

definition detect_cycle :: "dep_graph \<Rightarrow> (unit, string) result" where
  "detect_cycle g =
     (case visit_keys (Suc (graph_size g)) g (hm_keys g) [] [] of
        Cycle c \<Rightarrow> Err c
      | Finished _ _ \<Rightarrow> Ok ()
      | NoFuel \<Rightarrow> Err ''fuel'')"

definition resolve_dependencies :: "manifest list \<Rightarrow> (dep_graph, string) result" where
  "resolve_dependencies ms =
     (let g0 = foldl add_node [] ms in
      case add_all_edges (map m_name ms) ms g0 of
        Inl e \<Rightarrow> Err e
      | Inr g \<Rightarrow>
          (case detect_cycle g of
             Inl c \<Rightarrow> Err (''dependency cycle: '' @ c)
           | Inr _ \<Rightarrow> Ok g))"

section \<open>Lifecycle\<close>

datatype resource_state =
    Stopped | Discovered | Validating | DependencyResolution | Starting | ScriptHostStarting
  | MigrationsReady | HealthChecking | Healthy | Degraded | Quarantined | Stopping | FailedState

fun state_as_str :: "resource_state \<Rightarrow> string" where
  "state_as_str Stopped = ''STOPPED''"
| "state_as_str Discovered = ''DISCOVERED''"
| "state_as_str Validating = ''VALIDATING''"
| "state_as_str DependencyResolution = ''DEPENDENCY_RESOLUTION''"
| "state_as_str Starting = ''STARTING''"
| "state_as_str ScriptHostStarting = ''SCRIPT_HOST_STARTING''"
| "state_as_str MigrationsReady = ''MIGRATIONS_READY''"
| "state_as_str HealthChecking = ''HEALTH_CHECKING''"
| "state_as_str Healthy = ''HEALTHY''"
| "state_as_str Degraded = ''DEGRADED''"
| "state_as_str Quarantined = ''QUARANTINED''"
| "state_as_str Stopping = ''STOPPING''"
| "state_as_str FailedState = ''FAILED''"

definition is_serving :: "resource_state \<Rightarrow> bool" where
  "is_serving s = (s \<in> {Healthy, Degraded})"

record lifecycle_manager =
  states :: "(string, resource_state) hmap"
  handles :: "(string, nat) hmap"

definition lifecycle_new :: lifecycle_manager where
  "lifecycle_new = \<lparr>states = [], handles = []\<rparr>"

definition resource_state_of :: "lifecycle_manager \<Rightarrow> string \<Rightarrow> resource_state" where
  "resource_state_of m name = hm_get_or Stopped (states m) name"

definition set_state :: "lifecycle_manager \<Rightarrow> string \<Rightarrow> resource_state \<Rightarrow> lifecycle_manager" where
  "set_state m name s = m\<lparr>states := hm_insert name s (states m)\<rparr>"

definition can_start :: "lifecycle_manager \<Rightarrow> string \<Rightarrow> bool" where
  "can_start m name = (resource_state_of m name \<in> {Stopped, FailedState})"

definition rquote :: "string \<Rightarrow> string" where
  "rquote name = ''resource '' @ [CHR 0x27] @ name @ [CHR 0x27]"

definition mark_healthy :: "lifecycle_manager \<Rightarrow> string \<Rightarrow> nat \<Rightarrow> lifecycle_manager \<times> (unit, ald_error) result" where
  "mark_healthy m name n =
     (if resource_state_of m name \<noteq> HealthChecking
      then (m, Err (Resource (rquote name @ '' not in HealthChecking state before mark_healthy'')))
      else ((set_state m name Healthy)\<lparr>handles := hm_insert name n (handles m)\<rparr>, Ok ()))"

definition mark_degraded :: "lifecycle_manager \<Rightarrow> string \<Rightarrow> nat \<Rightarrow> lifecycle_manager \<times> (unit, ald_error) result" where
  "mark_degraded m name n =
     (if resource_state_of m name \<noteq> HealthChecking
      then (m, Err (Resource (rquote name @ '' not in HealthChecking state before mark_degraded'')))
      else ((set_state m name Degraded)\<lparr>handles := hm_insert name n (handles m)\<rparr>, Ok ()))"

definition quarantine :: "lifecycle_manager \<Rightarrow> string \<Rightarrow> lifecycle_manager \<times> (unit, ald_error) result" where
  "quarantine m name =
     (let s = resource_state_of m name in
      if s \<in> {Healthy, Degraded, FailedState} then (set_state m name Quarantined, Ok ())
      else (m, Err (Resource (rquote name @ '' in '' @ state_as_str s @ '' cannot be quarantined''))))"

definition stop_resource :: "lifecycle_manager \<Rightarrow> string \<Rightarrow> lifecycle_manager \<times> (unit, ald_error) result" where
  "stop_resource m name =
     (let leaked = hm_get_or 0 (handles m) name in
      if leaked \<noteq> 0
      then (m, Err (Resource (rquote name @ '' leaked '' @ show_nat leaked @ '' handles on stop'')))
      else (set_state m name Stopped, Ok ()))"

definition release_handle :: "lifecycle_manager \<Rightarrow> string \<Rightarrow> lifecycle_manager" where
  "release_handle m name =
     (case hm_get (handles m) name of
        Some c \<Rightarrow> if 0 < c then m\<lparr>handles := hm_insert name (c - 1) (handles m)\<rparr> else m
      | None \<Rightarrow> m)"

definition running_count :: "lifecycle_manager \<Rightarrow> nat" where
  "running_count m = length (filter is_serving (hm_values (states m)))"

section \<open>Capabilities\<close>

definition KNOWN_CAPABILITIES :: "string list" where
  "KNOWN_CAPABILITIES =
     [''filesystem.read'', ''filesystem.write'', ''network.http'', ''database.query'', ''database.transaction'',
      ''player.read'', ''player.manage'', ''entity.create'', ''entity.manage'', ''resource.control'',
      ''server.commands'', ''identity.steam.read'', ''identity.rockstar.read'']"

fun parse_capabilities :: "string list \<Rightarrow> (string list, ald_error) result" where
  "parse_capabilities [] = Ok []"
| "parse_capabilities (t # ts) =
     (if t \<notin> set KNOWN_CAPABILITIES
      then Err (CapabilityDenied (''unknown capability '' @ [CHR 0x27] @ t @ [CHR 0x27]))
      else case parse_capabilities ts of Inl e \<Rightarrow> Err e | Inr out \<Rightarrow> Ok (t # out))"

definition capability_check :: "string list \<Rightarrow> string \<Rightarrow> bool" where
  "capability_check granted required = list_ex (\<lambda>c. c = required) granted"

section \<open>The search is a cycle check\<close>

definition succs :: "dep_graph \<Rightarrow> string \<Rightarrow> string list" where
  "succs g n = hm_get_or [] g n"

definition edges :: "dep_graph \<Rightarrow> (string \<times> string) set" where
  "edges g = {(a, b). b \<in> set (succs g a)}"

text \<open>Nodes on the stack are grey, finished ones black.\<close>

definition grey :: "(string, bool) hmap \<Rightarrow> string set" where
  "grey vis = {n. hm_get vis n = Some False}"

definition black :: "(string, bool) hmap \<Rightarrow> string set" where
  "black vis = {n. hm_get vis n = Some True}"

definition black_ok :: "dep_graph \<Rightarrow> (string, bool) hmap \<Rightarrow> bool" where
  "black_ok g vis \<longleftrightarrow> (\<forall>n \<in> black vis. set (succs g n) \<subseteq> black vis) \<and>
     acyclic (edges g \<inter> black vis \<times> black vis)"

definition stack_ok :: "dep_graph \<Rightarrow> (string, bool) hmap \<Rightarrow> string list \<Rightarrow> bool" where
  "stack_ok g vis st \<longleftrightarrow> set st = grey vis \<and> distinct st \<and> successively (\<lambda>a b. (a, b) \<in> edges g) st"

definition white :: "string set \<Rightarrow> (string, bool) hmap \<Rightarrow> string set" where
  "white V vis = {n \<in> V. hm_get vis n = None}"

lemma path_reaches_last:
  "successively (\<lambda>a b. (a, b) \<in> E) st \<Longrightarrow> n \<in> set st \<Longrightarrow> (n, last st) \<in> E\<^sup>*"
proof (induction st arbitrary: n)
  case (Cons x st)
  show ?case
  proof (cases st)
    case (Cons y ys)
    then have "successively (\<lambda>a b. (a, b) \<in> E) st" "(x, y) \<in> E" using Cons.prems by auto
    then show ?thesis
      using Cons.IH Cons.prems(2) Cons by (auto intro: converse_rtrancl_into_rtrancl)
  qed (use Cons.prems in simp)
qed simp

text \<open>A new black node only points at black nodes, and no black node points at it.\<close>

lemma acyclic_add_sink:
  assumes "acyclic (E \<inter> B \<times> B)" and "\<And>b. b \<in> B \<Longrightarrow> (b, n) \<notin> E" and "(n, n) \<notin> E" and "n \<notin> B"
  shows "acyclic (E \<inter> insert n B \<times> insert n B)"
proof -
  let ?R = "E \<inter> B \<times> B" and ?S = "E \<inter> insert n B \<times> insert n B"
  have S: "(a, b) \<in> ?S\<^sup>+ \<Longrightarrow> b \<noteq> n \<and> (a = n \<or> (a, b) \<in> ?R\<^sup>+)" for a b
  proof (induction rule: trancl_induct)
    case (base y)
    then show ?case using assms(2,3) by auto
  next
    case (step y z)
    then have "z \<noteq> n" "(y, z) \<in> ?R" using assms(2,3) by auto
    with step.IH show ?case by (auto intro: trancl_into_trancl)
  qed
  have "(x, x) \<notin> ?S\<^sup>+" for x
    using S [of x x] assms(1) by (auto simp: acyclic_def)
  then show ?thesis by (simp add: acyclic_def)
qed

lemma succs_node: "hm_get_or [] g node = succs g node"
  by (simp add: succs_def)

lemma colour_insert:
  "grey (hm_insert n False vis) = insert n (grey vis)"
  "hm_get vis n \<noteq> Some True \<Longrightarrow> black (hm_insert n False vis) = black vis"
  "black (hm_insert n True vis) = insert n (black vis)"
  "grey (hm_insert n True vis) = grey vis - {n}"
  by (auto simp: grey_def black_def hm_simps)

lemma white_insert: "white V (hm_insert n b vis) = white V vis - {n}"
  by (auto simp: white_def hm_simps)

lemma white_mono: "grey vis = grey vis' \<Longrightarrow> black vis \<subseteq> black vis' \<Longrightarrow> white V vis' \<subseteq> white V vis"
proof
  fix n assume col: "grey vis = grey vis'" "black vis \<subseteq> black vis'" and n: "n \<in> white V vis'"
  then have "n \<notin> grey vis'" "n \<notin> black vis'" by (auto simp: grey_def black_def white_def)
  then have "hm_get vis n \<noteq> Some False" "hm_get vis n \<noteq> Some True"
    using col by (auto simp: grey_def black_def)
  then have "hm_get vis n = None" by (cases "hm_get vis n") auto
  with n show "n \<in> white V vis" by (simp add: white_def)
qed

text \<open>The result of a search step: no cycle below it, or a cycle of the graph; never out of fuel.\<close>

definition dfs_post :: "dep_graph \<Rightarrow> (string, bool) hmap \<Rightarrow> string list \<Rightarrow> string set \<Rightarrow> dfs_result \<Rightarrow> bool" where
  "dfs_post g vis st targets r =
     (case r of
        NoFuel \<Rightarrow> False
      | Cycle _ \<Rightarrow> \<exists>n. (n, n) \<in> (edges g)\<^sup>+
      | Finished vis' st' \<Rightarrow> st' = st \<and> grey vis' = grey vis \<and> black vis \<union> targets \<subseteq> black vis' \<and> black_ok g vis')"

lemma finish_node:
  assumes "stack_ok g vis st" and "hm_get vis node = None"
    and "dfs_post g (hm_insert node False vis) (st @ [node]) (set (succs g node)) r"
  shows "dfs_post g vis st {node} (case r of
    Finished vis' st' \<Rightarrow> Finished (hm_insert node True vis') (butlast st') | r \<Rightarrow> r)"
proof (cases r)
  case (Finished vis' st')
  have node: "node \<notin> grey vis" "node \<notin> black vis" using assms(2) by (auto simp: grey_def black_def)
  have post: "st' = st @ [node]" "grey vis' = insert node (grey vis)" "black vis \<subseteq> black vis'"
    "set (succs g node) \<subseteq> black vis'" "black_ok g vis'"
    using assms(2,3) Finished by (auto simp: dfs_post_def colour_insert)
  have "node \<in> grey vis'" using post(2) by simp
  then have nb: "node \<notin> black vis'" by (simp add: grey_def black_def)
  have "acyclic (edges g \<inter> insert node (black vis') \<times> insert node (black vis'))"
    using post(4,5) nb by (intro acyclic_add_sink) (auto simp: black_ok_def edges_def)
  then have "black_ok g (hm_insert node True vis')"
    using post(4,5) by (auto simp: black_ok_def colour_insert)
  then show ?thesis
    using Finished post node by (auto simp: dfs_post_def colour_insert)
qed (use assms(3) in \<open>auto simp: dfs_post_def\<close>)

lemma stack_ok_push:
  assumes "stack_ok g vis st" and "hm_get vis node = None" and "st \<noteq> [] \<longrightarrow> node \<in> set (succs g (last st))"
  shows "stack_ok g (hm_insert node False vis) (st @ [node])"
proof -
  have "node \<notin> grey vis" using assms(2) by (simp add: grey_def)
  with assms(1,3) show ?thesis
    by (auto simp: stack_ok_def colour_insert successively_append_iff edges_def)
qed

lemma back_edge_cycle:
  assumes "stack_ok g vis st" and "hm_get vis n = Some False" and "n \<in> set (succs g (last st))"
  shows "\<exists>n. (n, n) \<in> (edges g)\<^sup>+"
proof -
  have "n \<in> set st" using assms(1,2) by (auto simp: stack_ok_def grey_def)
  then have "(n, last st) \<in> (edges g)\<^sup>*" using assms(1) by (auto simp: stack_ok_def intro: path_reaches_last)
  moreover have "(last st, n) \<in> edges g" using assms(3) by (simp add: edges_def)
  ultimately show ?thesis by (auto intro: rtrancl_into_trancl1)
qed

lemma dfs_post_trans:
  assumes "dfs_post g vis st A (Finished vis' st')" and "dfs_post g vis' st' B r"
  shows "dfs_post g vis st (A \<union> B) r"
  using assms by (cases r) (auto simp: dfs_post_def)

lemma stack_ok_same: "stack_ok g vis st \<Longrightarrow> grey vis' = grey vis \<Longrightarrow> stack_ok g vis' st"
  by (simp add: stack_ok_def)

lemma dfs_correct:
  assumes fin: "finite V"
  shows "(\<And>n. n \<in> V \<Longrightarrow> set (succs g n) \<subseteq> V) \<Longrightarrow> node \<in> V \<Longrightarrow> hm_get vis node = None \<Longrightarrow>
      card (white V vis) \<le> f \<Longrightarrow> stack_ok g vis st \<Longrightarrow>
      black_ok g vis \<Longrightarrow> (st \<noteq> [] \<longrightarrow> node \<in> set (succs g (last st))) \<Longrightarrow>
      dfs_post g vis st {node} (visit f g node vis st)"
    and "(\<And>n. n \<in> V \<Longrightarrow> set (succs g n) \<subseteq> V) \<Longrightarrow> set ns \<subseteq> set (succs g (last st)) \<Longrightarrow> st \<noteq> [] \<Longrightarrow>
      set ns \<subseteq> V \<Longrightarrow> card (white V vis) \<le> f \<Longrightarrow> stack_ok g vis st \<Longrightarrow> black_ok g vis \<Longrightarrow>
      dfs_post g vis st (set ns) (visit_next f g ns vis st)"
proof (induction f g node vis st and f g ns vis st rule: visit_visit_next.induct)
  case (1 g node vis st)
  then have "node \<in> white V vis" by (simp add: white_def)
  moreover have "finite (white V vis)" using fin by (simp add: white_def)
  ultimately show ?case using 1(4) by auto
next
  case (2 f g node vis st)
  have w: "node \<in> white V vis" "finite (white V vis)" using 2(3,4) fin by (simp_all add: white_def)
  have "card (white V (hm_insert node False vis)) \<le> f"
    using 2(5) w by (simp add: white_insert)
  moreover have "black_ok g (hm_insert node False vis)"
    using 2(4,7) by (simp add: black_ok_def colour_insert)
  ultimately have "dfs_post g (hm_insert node False vis) (st @ [node]) (set (succs g node))
      (visit_next f g (hm_get_or [] g node) (hm_insert node False vis) (st @ [node]))"
    using 2(1) [OF 2(2)] 2(2) [OF 2(3)] stack_ok_push [OF 2(6,4,8)] by (simp add: succs_node)
  then show ?case using finish_node [OF 2(6,4)] by simp
next
  case (3 f g vis st)
  then show ?case by (simp add: dfs_post_def)
next
  case (4 f g n ns vis st)
  show ?case
  proof (cases "hm_get vis n")
    case None
    then have step: "dfs_post g vis st {n} (visit f g n vis st)"
      using 4 by (intro "4.IH"(1)) auto
    show ?thesis
    proof (cases "visit f g n vis st")
      case (Finished vis' st')
      then have same: "st' = st" "grey vis' = grey vis" "black vis \<subseteq> black vis'" "black_ok g vis'"
        using step by (auto simp: dfs_post_def)
      have "card (white V vis') \<le> card (white V vis)"
        using white_mono [of vis vis' V] same fin by (intro card_mono) (auto simp: white_def)
      then have "dfs_post g vis' st' (set ns) (visit_next f g ns vis' st')"
        using None Finished 4(4-) same stack_ok_same [of g vis st vis'] by (intro "4.IH"(2)) auto
      then have "dfs_post g vis st ({n} \<union> set ns) (visit_next f g ns vis' st')"
        using dfs_post_trans step Finished by metis
      with None Finished show ?thesis by simp
    qed (use None step in \<open>auto simp: dfs_post_def\<close>)
  next
    case (Some b)
    show ?thesis
    proof (cases b)
      case True
      have "dfs_post g vis st (set ns) (visit_next f g ns vis st)"
        using Some True 4(4-) by (intro "4.IH"(3)) auto
      moreover have "n \<in> black vis" using Some True by (simp add: black_def)
      ultimately show ?thesis
        using Some True by (cases "visit_next f g ns vis st") (auto simp: dfs_post_def)
    next
      case False
      then show ?thesis
        using Some 4 back_edge_cycle [of g vis st n] by (simp add: dfs_post_def)
    qed
  qed
qed

lemma keys_correct:
  assumes "finite V" and "\<And>n. n \<in> V \<Longrightarrow> set (succs g n) \<subseteq> V"
  shows "set ks \<subseteq> V \<Longrightarrow> card V \<le> f \<Longrightarrow> grey vis = {} \<Longrightarrow> black_ok g vis \<Longrightarrow>
    dfs_post g vis [] (set ks) (visit_keys f g ks vis [])"
proof (induction ks arbitrary: vis)
  case Nil
  then show ?case by (simp add: dfs_post_def)
next
  case (Cons k ks)
  have stack: "stack_ok g vis []" using Cons.prems(3) by (simp add: stack_ok_def)
  have w: "card (white V vis) \<le> f"
    using Cons.prems(2) assms(1) card_mono [of V "white V vis"] by (auto simp: white_def)
  show ?case
  proof (cases "hm_get vis k")
    case None
    have step: "dfs_post g vis [] {k} (visit f g k vis [])"
      using Cons.prems None stack w by (intro dfs_correct(1) [OF assms(1,2)]) auto
    show ?thesis
    proof (cases "visit f g k vis []")
      case (Finished vis' st')
      then have "st' = []" "grey vis' = {}" "black_ok g vis'"
        using step Cons.prems(3) by (auto simp: dfs_post_def)
      then have "dfs_post g vis' [] (set ks) (visit_keys f g ks vis' [])"
        using Cons by (intro Cons.IH) auto
      then have "dfs_post g vis [] ({k} \<union> set ks) (visit_keys f g ks vis' [])"
        using dfs_post_trans step Finished \<open>st' = []\<close> by metis
      with None Finished \<open>st' = []\<close> show ?thesis by simp
    qed (use None step in \<open>auto simp: dfs_post_def\<close>)
  next
    case (Some b)
    then have b: "b" using Cons.prems(3) by (cases b) (auto simp: grey_def)
    have "dfs_post g vis [] (set ks) (visit_keys f g ks vis [])"
      using Cons by (intro Cons.IH) auto
    moreover have "k \<in> black vis" using Some b by (simp add: black_def)
    ultimately show ?thesis
      using Some by (cases "visit_keys f g ks vis []") (auto simp: dfs_post_def)
  qed
qed

text \<open>The nodes of a graph: its keys and everything they point at.\<close>

definition nodes :: "dep_graph \<Rightarrow> string list" where
  "nodes g = hm_keys g @ concat (hm_values g)"

lemma succs_nodes: "set (succs g n) \<subseteq> set (nodes g)"
proof (cases "hm_get g n")
  case (Some ds)
  then have "(n, ds) \<in> set g" by (rule map_of_SomeD)
  with Some show ?thesis by (force simp: succs_def hm_get_or_def nodes_def)
qed (simp add: succs_def hm_get_or_def)

lemma edges_from_keys: "(a, b) \<in> edges g \<Longrightarrow> a \<in> set (hm_keys g)"
  by (cases "hm_get g a") (force simp: edges_def succs_def hm_get_or_def dest: map_of_SomeD)+

lemma black_ok_empty: "black_ok g []"
  by (simp add: black_ok_def black_def acyclic_def)

lemma search_post: "dfs_post g [] [] (set (hm_keys g)) (visit_keys (Suc (graph_size g)) g (hm_keys g) [] [])"
proof -
  have "card (set (nodes g)) \<le> Suc (graph_size g)"
    using card_length [of "nodes g"] by (simp add: nodes_def graph_size_def)
  then show ?thesis
    using succs_nodes by (intro keys_correct [of "set (nodes g)"]) (auto simp: nodes_def grey_def black_ok_empty)
qed

lemma search_within_bound: "visit_keys (Suc (graph_size g)) g (hm_keys g) [] [] \<noteq> NoFuel"
  using search_post [of g] by (auto simp: dfs_post_def)

lemma detect_cycle_iff: "detect_cycle g = Ok () \<longleftrightarrow> acyclic (edges g)"
proof -
  note post = search_post [of g]
  show ?thesis
  proof (cases "visit_keys (Suc (graph_size g)) g (hm_keys g) [] []")
    case NoFuel
    then show ?thesis using post by (simp add: dfs_post_def)
  next
    case (Cycle c)
    then have "\<not> acyclic (edges g)" using post by (auto simp: dfs_post_def acyclic_def)
    with Cycle show ?thesis by (simp add: detect_cycle_def)
  next
    case (Finished vis st)
    then have v: "set (hm_keys g) \<subseteq> black vis" "black_ok g vis" using post by (auto simp: dfs_post_def)
    have "edges g \<subseteq> edges g \<inter> black vis \<times> black vis"
    proof
      fix e assume e: "e \<in> edges g"
      obtain a b where ab: "e = (a, b)" by (cases e)
      have "a \<in> black vis" using edges_from_keys e ab v(1) by blast
      moreover have "b \<in> set (succs g a)" using e ab by (simp add: edges_def)
      ultimately show "e \<in> edges g \<inter> black vis \<times> black vis"
        using v(2) e ab by (auto simp: black_ok_def)
    qed
    then have "acyclic (edges g)"
      using v(2) acyclic_subset unfolding black_ok_def by blast
    with Finished show ?thesis by (simp add: detect_cycle_def)
  qed
qed

text \<open>The graph that is searched is the declared dependency relation.\<close>

definition requires :: "manifest list \<Rightarrow> (string \<times> string) set" where
  "requires ms = {(m_name m, dep_name d) | m d. m \<in> set ms \<and> d \<in> set (dependencies m)}"

lemma edges_push: "edges (push_edge n d g) = insert (n, d) (edges g)"
  by (auto simp: edges_def succs_def push_edge_def hm_simps split: if_splits)

lemma add_edges_iff:
  "case add_edges names n ds g of
     Inr g' \<Rightarrow> dep_name ` set ds \<subseteq> set names \<and> edges g' = edges g \<union> (\<lambda>d. (n, dep_name d)) ` set ds
   | Inl _ \<Rightarrow> \<not> dep_name ` set ds \<subseteq> set names"
proof (induction ds arbitrary: g)
  case (Cons d ds)
  show ?case
    using Cons.IH [of "push_edge n (dep_name d) g"]
    by (cases "add_edges names n ds (push_edge n (dep_name d) g)") (auto simp: edges_push)
qed simp

lemma add_all_edges_iff:
  "case add_all_edges names ms g of
     Inr g' \<Rightarrow> (\<forall>m \<in> set ms. dep_name ` set (dependencies m) \<subseteq> set names) \<and> edges g' = edges g \<union> requires ms
   | Inl _ \<Rightarrow> \<not> (\<forall>m \<in> set ms. dep_name ` set (dependencies m) \<subseteq> set names)"
proof (induction ms arbitrary: g)
  case Nil
  then show ?case by (simp add: requires_def)
next
  case (Cons m ms)
  show ?case
  proof (cases "add_edges names (m_name m) (dependencies m) g")
    case (Inl e)
    then show ?thesis using add_edges_iff [where names = names and n = "m_name m" and ds = "dependencies m" and g = g] by simp
  next
    case (Inr g')
    have "requires (m # ms) = (\<lambda>d. (m_name m, dep_name d)) ` set (dependencies m) \<union> requires ms"
      by (auto simp: requires_def)
    then show ?thesis
      using add_edges_iff [where names = names and n = "m_name m" and ds = "dependencies m" and g = g] Cons.IH [of g'] Inr
      by (cases "add_all_edges names ms g'") auto
  qed
qed

lemma edges_add_nodes: "edges (foldl add_node g ms) = edges g"
  by (induction ms arbitrary: g) (simp_all add: edges_def succs_def add_node_def)

section \<open>Lifecycle gates\<close>

text \<open>
  The lifecycle gates, on every branch: a resource becomes healthy or degraded only from
  health checking, is quarantined only out of service-ready or failed states, stops only when
  all its handles are released, and a refused operation changes nothing. A quarantined resource
  cannot be started.
\<close>

lemma lifecycle_gates:
  "let (mh, rh) = mark_healthy m name n; (md, rd) = mark_degraded m name n;
       (mq, rq) = quarantine m name; (ms, rs) = stop_resource m name
   in (if resource_state_of m name = HealthChecking
       then rh = Ok () \<and> rd = Ok () \<and> resource_state_of mh name = Healthy \<and> resource_state_of md name = Degraded \<and>
            hm_get (handles mh) name = Some n \<and> hm_get (handles md) name = Some n
       else \<not> is_ok rh \<and> \<not> is_ok rd \<and> mh = m \<and> md = m) \<and>
      (if resource_state_of m name \<in> {Healthy, Degraded, FailedState}
       then rq = Ok () \<and> resource_state_of mq name = Quarantined \<and> \<not> can_start mq name
       else \<not> is_ok rq \<and> mq = m) \<and>
      (if hm_get_or 0 (handles m) name = 0
       then rs = Ok () \<and> resource_state_of ms name = Stopped \<and> can_start ms name
       else \<not> is_ok rs \<and> ms = m)"
  by (simp add: mark_healthy_def mark_degraded_def quarantine_def stop_resource_def set_state_def
      resource_state_of_def can_start_def hm_simps Let_def)

section \<open>Properties\<close>

text \<open>The message of a missing dependency, and manifests stripped of every version.\<close>

definition missing_dependency :: "string \<Rightarrow> string \<Rightarrow> string" where
  "missing_dependency n d =
     ''resource '' @ [CHR 0x27] @ n @ [CHR 0x27] @ '' missing dependency '' @ [CHR 0x27] @ d @ [CHR 0x27]"

definition forget_versions :: "manifest \<Rightarrow> manifest" where
  "forget_versions m = m\<lparr>m_version := [], dependencies := map (\<lambda>d. d\<lparr>dep_version := None\<rparr>) (dependencies m)\<rparr>"

lemma add_edges_missing:
  "add_edges names n ds g = Inl e \<Longrightarrow> \<exists>d \<in> set ds. dep_name d \<notin> set names \<and> e = missing_dependency n (dep_name d)"
  by (induction ds arbitrary: g) (auto simp: missing_dependency_def split: if_splits)

lemma add_all_edges_missing:
  "add_all_edges names ms g = Inl e \<Longrightarrow>
   \<exists>m \<in> set ms. \<exists>d \<in> set (dependencies m). dep_name d \<notin> set names \<and> e = missing_dependency (m_name m) (dep_name d)"
  by (induction ms arbitrary: g) (auto split: sum.splits dest: add_edges_missing)

lemma resolve_ignores_versions: "resolve_dependencies (map forget_versions ms) = resolve_dependencies ms"
proof -
  have names: "m_name (forget_versions m) = m_name m" for m by (simp add: forget_versions_def)
  have "foldl add_node g (map forget_versions ms) = foldl add_node g ms" for g
    by (induction ms arbitrary: g) (simp_all add: add_node_def names)
  moreover have "add_edges ns n (map (\<lambda>d. d\<lparr>dep_version := v\<rparr>) ds) g = add_edges ns n ds g" for ns n ds g v
    by (induction ds arbitrary: g) simp_all
  then have "add_all_edges ns (map forget_versions ms) g = add_all_edges ns ms g" for ns g
    by (induction ms arbitrary: g) (simp_all add: names forget_versions_def split: sum.split)
  ultimately show ?thesis by (simp add: resolve_dependencies_def names comp_def)
qed

text \<open>
  C37. Dependency resolution succeeds exactly when every declared dependency is among the manifests and the declared
  dependencies have no cycle. On success the returned graph is the declared relation; on failure the message names a
  resource and a dependency of it that is missing, or reports a cycle and there is one. The depth-first search stays within
  its recursion bound on every graph. Presence is by name alone: the result does not depend on the versions of the
  manifests and of the dependencies, although the comment above the function says that version conflicts are detected.
\<close>

theorem resolve_iff_acyclic:
  "(is_ok (resolve_dependencies ms) \<longleftrightarrow>
      snd ` requires ms \<subseteq> m_name ` set ms \<and> acyclic (requires ms)) \<and>
   (case resolve_dependencies ms of
      Inr g \<Rightarrow> edges g = requires ms
    | Inl e \<Rightarrow>
        (\<exists>m d. m \<in> set ms \<and> d \<in> set (dependencies m) \<and> dep_name d \<notin> m_name ` set ms \<and>
           e = missing_dependency (m_name m) (dep_name d)) \<or>
        (\<exists>c n. e = ''dependency cycle: '' @ c \<and> (n, n) \<in> (requires ms)\<^sup>+)) \<and>
   visit_keys (Suc (graph_size g)) g (hm_keys g) [] [] \<noteq> NoFuel \<and>
   resolve_dependencies (map forget_versions ms) = resolve_dependencies ms"
proof -
  have names: "(\<forall>m \<in> set ms. dep_name ` set (dependencies m) \<subseteq> set (map m_name ms)) \<longleftrightarrow>
      snd ` requires ms \<subseteq> m_name ` set ms"
    by (force simp: requires_def)
  have e0: "edges (foldl add_node [] ms) = {}"
    by (simp add: edges_add_nodes) (simp add: edges_def succs_def hm_get_or_def)
  note all = add_all_edges_iff [where names = "map m_name ms" and ms = ms and g = "foldl add_node [] ms"]
  show ?thesis
  proof (cases "add_all_edges (map m_name ms) ms (foldl add_node [] ms)")
    case (Inl e)
    then have "resolve_dependencies ms = Inl e" by (simp add: resolve_dependencies_def)
    moreover have "\<not> snd ` requires ms \<subseteq> m_name ` set ms" using all names Inl by simp blast
    moreover have "\<exists>m d. m \<in> set ms \<and> d \<in> set (dependencies m) \<and> dep_name d \<notin> m_name ` set ms \<and>
        e = missing_dependency (m_name m) (dep_name d)"
      using add_all_edges_missing [OF Inl] by (auto simp: image_iff)
    ultimately show ?thesis using search_within_bound [of g] resolve_ignores_versions [of ms] by simp
  next
    case (Inr h)
    then have h: "edges h = requires ms" "snd ` requires ms \<subseteq> m_name ` set ms" using all names e0 by auto
    have c: "detect_cycle h = Ok () \<longleftrightarrow> acyclic (requires ms)" using detect_cycle_iff [of h] h by simp
    show ?thesis
      using Inr h c search_within_bound [of g] resolve_ignores_versions [of ms]
      by (cases "detect_cycle h") (auto simp: resolve_dependencies_def acyclic_def)
  qed
qed

end
