(* ===== verification/Scheduler.thy ===== *)
theory Scheduler
  imports Prelude
begin

text \<open>
  The budget engine of \<open>crates/ald-scheduler\<close>: budgets and usage (\<open>budget.rs\<close>), the runaway
  detector (\<open>detector.rs\<close>), workload classes (\<open>workload.rs\<close>) and the accounting state
  (\<open>lib.rs\<close>). Counters are 64-bit words with the wrap-around of a release build. Task closures
  and the asynchronous executor are outside the model.
\<close>

section \<open>Budgets\<close>

record budget =
  max_cpu_time_ms :: u64
  max_exec_time_ms :: u64
  max_memory_bytes :: u64
  max_events_per_sec :: u64
  max_net_events_per_sec :: u64
  max_db_queries_per_sec :: u64
  max_tasks :: u64

definition budget_default :: budget where
  "budget_default = \<lparr>max_cpu_time_ms = 0, max_exec_time_ms = 0, max_memory_bytes = 0, max_events_per_sec = 0,
     max_net_events_per_sec = 0, max_db_queries_per_sec = 0, max_tasks = 0\<rparr>"

record budget_usage =
  bu_cpu_time_ms :: u64
  bu_exec_time_ms :: u64
  bu_memory_bytes :: u64
  bu_events :: u64
  bu_net_events :: u64
  bu_db_queries :: u64
  bu_task_count :: u64

definition usage_default :: budget_usage where
  "usage_default = \<lparr>bu_cpu_time_ms = 0, bu_exec_time_ms = 0, bu_memory_bytes = 0, bu_events = 0,
     bu_net_events = 0, bu_db_queries = 0, bu_task_count = 0\<rparr>"

datatype budget_violation = CpuTime | ExecTime | Memory | EventsLimit | NetEvents | DbQueries | TaskCount

fun violation_to_string :: "budget_violation \<Rightarrow> string" where
  "violation_to_string CpuTime = ''cpu_time_exceeded''"
| "violation_to_string ExecTime = ''exec_time_exceeded''"
| "violation_to_string Memory = ''memory_exceeded''"
| "violation_to_string EventsLimit = ''events_per_sec_exceeded''"
| "violation_to_string NetEvents = ''net_events_per_sec_exceeded''"
| "violation_to_string DbQueries = ''db_queries_per_sec_exceeded''"
| "violation_to_string TaskCount = ''task_count_exceeded''"

definition budget_check :: "budget \<Rightarrow> budget_usage \<Rightarrow> (unit, budget_violation) result" where
  "budget_check b u =
     (if max_cpu_time_ms b \<noteq> 0 \<and> max_cpu_time_ms b < bu_cpu_time_ms u then Err CpuTime
      else if max_exec_time_ms b \<noteq> 0 \<and> max_exec_time_ms b < bu_exec_time_ms u then Err ExecTime
      else if max_memory_bytes b \<noteq> 0 \<and> max_memory_bytes b < bu_memory_bytes u then Err Memory
      else if max_events_per_sec b \<noteq> 0 \<and> max_events_per_sec b < bu_events u then Err EventsLimit
      else if max_net_events_per_sec b \<noteq> 0 \<and> max_net_events_per_sec b < bu_net_events u then Err NetEvents
      else if max_db_queries_per_sec b \<noteq> 0 \<and> max_db_queries_per_sec b < bu_db_queries u then Err DbQueries
      else if max_tasks b \<noteq> 0 \<and> max_tasks b < bu_task_count u then Err TaskCount
      else Ok ())"

section \<open>Runaway detection\<close>

datatype runaway_kind = InfiniteLoop | EventFlood | MemoryGrowth | SlowHandler | UnboundedTasks

record resource_stats =
  rs_cpu_time_ms :: u64
  rs_exec_time_ms :: u64
  rs_memory_bytes :: u64
  rs_events_sec :: u64
  rs_net_events_sec :: u64
  rs_db_queries_sec :: u64
  rs_tasks_spawned :: u64

definition stats_default :: resource_stats where
  "stats_default = \<lparr>rs_cpu_time_ms = 0, rs_exec_time_ms = 0, rs_memory_bytes = 0, rs_events_sec = 0,
     rs_net_events_sec = 0, rs_db_queries_sec = 0, rs_tasks_spawned = 0\<rparr>"

record runaway_detector =
  event_flood_threshold :: u64
  memory_growth_threshold :: u64
  slow_handler_ms :: u64

text \<open>The type derives \<open>Default\<close> (all zero) and has a constructor of its own.\<close>

definition detector_default :: runaway_detector where
  "detector_default = \<lparr>event_flood_threshold = 0, memory_growth_threshold = 0, slow_handler_ms = 0\<rparr>"

definition detector_new :: runaway_detector where
  "detector_new = \<lparr>event_flood_threshold = 1000, memory_growth_threshold = 536870912, slow_handler_ms = 250\<rparr>"

definition inspect :: "runaway_detector \<Rightarrow> resource_stats \<Rightarrow> budget \<Rightarrow> runaway_kind list" where
  "inspect d s b =
     (if event_flood_threshold d < rs_events_sec s then [EventFlood] else [])
     @ (if memory_growth_threshold d < rs_memory_bytes s \<and> max_memory_bytes b \<noteq> 0
          \<and> max_memory_bytes b < rs_memory_bytes s then [MemoryGrowth] else [])
     @ (if slow_handler_ms d < rs_exec_time_ms s \<and> max_exec_time_ms b = 0 then [SlowHandler] else [])
     @ (if max_tasks b \<noteq> 0 \<and> max_tasks b * 4 < rs_tasks_spawned s then [UnboundedTasks] else [])"

section \<open>Workload classes\<close>

datatype workload_class =
    MainThread | AsyncIo | ParallelSafe | OrderedGameplay | ResourceLocal | NetworkProcessing
  | EntityProcessing | Background

fun workload_as_str :: "workload_class \<Rightarrow> string" where
  "workload_as_str MainThread = ''MAIN_THREAD''"
| "workload_as_str AsyncIo = ''ASYNC_IO''"
| "workload_as_str ParallelSafe = ''PARALLEL_SAFE''"
| "workload_as_str OrderedGameplay = ''ORDERED_GAMEPLAY''"
| "workload_as_str ResourceLocal = ''RESOURCE_LOCAL''"
| "workload_as_str NetworkProcessing = ''NETWORK_PROCESSING''"
| "workload_as_str EntityProcessing = ''ENTITY_PROCESSING''"
| "workload_as_str Background = ''BACKGROUND''"

definition parallel_eligible :: "workload_class \<Rightarrow> bool" where
  "parallel_eligible c = (c \<in> {ParallelSafe, Background, NetworkProcessing})"

section \<open>The scheduler\<close>

record scheduler =
  budgets :: "(string, budget) hmap"
  usage :: "(string, budget_usage) hmap"
  stats :: "(string, resource_stats) hmap"
  detector :: runaway_detector
  started :: "nat option"

definition scheduler_new :: scheduler where
  "scheduler_new = \<lparr>budgets = [], usage = [], stats = [], detector = detector_default, started = None\<rparr>"

definition scheduler_start :: "scheduler \<Rightarrow> nat \<Rightarrow> scheduler" where
  "scheduler_start s now = s\<lparr>started := Some now\<rparr>"

definition register_resource :: "scheduler \<Rightarrow> string \<Rightarrow> budget \<Rightarrow> scheduler" where
  "register_resource s name b =
     s\<lparr>budgets := hm_insert name b (budgets s), usage := hm_insert name usage_default (usage s),
       stats := hm_insert name stats_default (stats s)\<rparr>"

text \<open>\<open>mem_delta\<close> is an \<open>i64\<close>: a non-negative change adds, a negative one subtracts, down to zero.\<close>

definition apply_mem :: "u64 \<Rightarrow> u64 \<Rightarrow> u64" where
  "apply_mem m delta =
     (if 0 \<le> sint delta then m + delta else if m < - delta then 0 else m - (- delta))"

definition account_task ::
  "scheduler \<Rightarrow> string \<Rightarrow> u64 \<Rightarrow> u64 \<Rightarrow> u64 \<Rightarrow> scheduler \<times> (unit, budget_violation) result" where
  "account_task s name cpu mem_delta events =
     (let u = hm_get_or usage_default (usage s) name;
          u' = u\<lparr>bu_cpu_time_ms := bu_cpu_time_ms u + cpu, bu_task_count := bu_task_count u + 1,
                 bu_events := bu_events u + events, bu_memory_bytes := apply_mem (bu_memory_bytes u) mem_delta\<rparr>;
          st = hm_get_or stats_default (stats s) name;
          st' = st\<lparr>rs_cpu_time_ms := rs_cpu_time_ms st + cpu,
                   rs_memory_bytes := apply_mem (rs_memory_bytes st) mem_delta,
                   rs_events_sec := rs_events_sec st + events, rs_tasks_spawned := rs_tasks_spawned st + 1\<rparr> in
      (s\<lparr>usage := hm_insert name u' (usage s), stats := hm_insert name st' (stats s)\<rparr>,
       case hm_get (budgets s) name of Some b \<Rightarrow> budget_check b u' | None \<Rightarrow> Ok ()))"

definition check_runaway :: "scheduler \<Rightarrow> string \<Rightarrow> runaway_kind list" where
  "check_runaway s name =
     inspect (detector s) (hm_get_or stats_default (stats s) name) (hm_get_or budget_default (budgets s) name)"

section \<open>Lemmas\<close>

text \<open>A task is the name of its resource, its cost, its memory change and its events.\<close>

type_synonym task_cost = "string \<times> u64 \<times> u64 \<times> u64"

definition account :: "scheduler \<Rightarrow> task_cost \<Rightarrow> scheduler" where
  "account s t = (case t of (name, cpu, mem, ev) \<Rightarrow> fst (account_task s name cpu mem ev))"

lemma account_frame [simp]: "budgets (account s t) = budgets s" "detector (account s t) = detector s"
  by (simp_all add: account_def account_task_def Let_def split: prod.splits)

lemma account_run_frame [simp]:
  "budgets (foldl account s ts) = budgets s" "detector (foldl account s ts) = detector s"
  by (induction ts arbitrary: s) simp_all

text \<open>The counters of a resource are the sums over its own tasks.\<close>

definition cpu_of :: "string \<Rightarrow> task_cost list \<Rightarrow> u64" where
  "cpu_of name ts = sum_list (map (\<lambda>(n, cpu, _, _). cpu) (filter (\<lambda>t. fst t = name) ts))"

definition events_of :: "string \<Rightarrow> task_cost list \<Rightarrow> u64" where
  "events_of name ts = sum_list (map (\<lambda>(n, _, _, ev). ev) (filter (\<lambda>t. fst t = name) ts))"

definition tasks_of :: "string \<Rightarrow> task_cost list \<Rightarrow> u64" where
  "tasks_of name ts = of_nat (length (filter (\<lambda>t. fst t = name) ts))"

definition mem_of :: "u64 \<Rightarrow> string \<Rightarrow> task_cost list \<Rightarrow> u64" where
  "mem_of m name ts = foldl apply_mem m (map (\<lambda>(n, _, mem, _). mem) (filter (\<lambda>t. fst t = name) ts))"

lemmas totals_defs = cpu_of_def events_of_def tasks_of_def mem_of_def

lemma account_totals:
  "hm_get_or usage_default (usage (foldl account s ts)) name =
     (let u = hm_get_or usage_default (usage s) name in
      u\<lparr>bu_cpu_time_ms := bu_cpu_time_ms u + cpu_of name ts, bu_events := bu_events u + events_of name ts,
        bu_task_count := bu_task_count u + tasks_of name ts, bu_memory_bytes := mem_of (bu_memory_bytes u) name ts\<rparr>)"
proof (induction ts arbitrary: s)
  case Nil
  then show ?case by (simp add: totals_defs Let_def)
next
  case (Cons t ts)
  obtain n cpu mem ev where t: "t = (n, cpu, mem, ev)" by (cases t)
  show ?case
    using Cons [of "account s t"]
    by (auto simp: t account_def account_task_def totals_defs Let_def hm_simps ac_simps)
qed

lemma stats_events:
  "rs_events_sec (hm_get_or stats_default (stats (foldl account s ts)) name) =
     rs_events_sec (hm_get_or stats_default (stats s) name) + events_of name ts"
proof (induction ts arbitrary: s)
  case Nil
  then show ?case by (simp add: events_of_def)
next
  case (Cons t ts)
  obtain n cpu mem ev where t: "t = (n, cpu, mem, ev)" by (cases t)
  show ?case
    using Cons [of "account s t"]
    by (auto simp: t account_def account_task_def events_of_def Let_def hm_simps ac_simps)
qed

lemma flood_iff: "EventFlood \<in> set (inspect d st b) \<longleftrightarrow> event_flood_threshold d < rs_events_sec st"
  by (simp add: inspect_def)

section \<open>Properties\<close>

text \<open>
  Budgets are checked on running totals: after a resource is registered and any tasks of
  any resources are accounted, the last accounting of a task of the resource is accepted exactly
  when the totals over its own tasks (processor time, memory, events, task count, as 64-bit
  sums) stay within the non-zero limits; the limits on execution time, network events and
  queries never refuse anything. And the fresh scheduler reports an event flood as soon as the
  resource has had a single event: its detector has the all-zero default thresholds.
\<close>

lemma budget_on_totals:
  assumes "s = foldl account (register_resource scheduler_new name b) ts"
    and "ts' = ts @ [(name, cpu, mem, ev)]"
  shows "(snd (account_task s name cpu mem ev) = Ok () \<longleftrightarrow>
      (max_cpu_time_ms b = 0 \<or> cpu_of name ts' \<le> max_cpu_time_ms b) \<and>
      (max_memory_bytes b = 0 \<or> mem_of 0 name ts' \<le> max_memory_bytes b) \<and>
      (max_events_per_sec b = 0 \<or> events_of name ts' \<le> max_events_per_sec b) \<and>
      (max_tasks b = 0 \<or> tasks_of name ts' \<le> max_tasks b)) \<and>
    (EventFlood \<in> set (check_runaway (fst (account_task s name cpu mem ev)) name) \<longleftrightarrow> 0 < events_of name ts')"
proof -
  let ?s0 = "register_resource scheduler_new name b"
  have s': "fst (account_task s name cpu mem ev) = foldl account ?s0 ts'"
    by (simp add: assms account_def)
  have b: "hm_get (budgets s) name = Some b"
    by (simp add: assms(1) register_resource_def hm_simps)
  let ?u = "hm_get_or usage_default (usage (foldl account ?s0 ts')) name"
  have "snd (account_task s name cpu mem ev) = budget_check b (hm_get_or usage_default (usage (fst (account_task s name cpu mem ev))) name)"
    using b by (simp add: account_task_def Let_def hm_simps)
  moreover have "?u = usage_default\<lparr>bu_cpu_time_ms := cpu_of name ts', bu_events := events_of name ts',
      bu_task_count := tasks_of name ts', bu_memory_bytes := mem_of 0 name ts'\<rparr>"
    unfolding account_totals
    by (simp add: register_resource_def hm_simps Let_def) (simp add: usage_default_def)
  ultimately have "snd (account_task s name cpu mem ev) = budget_check b (usage_default\<lparr>bu_cpu_time_ms := cpu_of name ts',
      bu_events := events_of name ts', bu_task_count := tasks_of name ts', bu_memory_bytes := mem_of 0 name ts'\<rparr>)"
    by (simp only: s')
  moreover have "EventFlood \<in> set (check_runaway (foldl account ?s0 ts') name) \<longleftrightarrow> 0 < events_of name ts'"
    by (simp add: check_runaway_def flood_iff stats_events)
      (simp add: register_resource_def scheduler_new_def detector_default_def stats_default_def hm_get_or_def)
  ultimately show ?thesis
    unfolding s' by (auto simp: budget_check_def usage_default_def not_less)
qed

definition demo_budget :: budget where
  "demo_budget = budget_default\<lparr>max_cpu_time_ms := 10\<rparr>"

end
