(* ===== verification/Replication.thy ===== *)
theory Replication
  imports Prelude
begin

text \<open>
  The replication tracker of \<open>crates/ald-replication\<close>: pending field changes, the baseline and the
  packets a flush emits. Clock readings are arguments; \<open>due\<close>, which compares \<open>f32\<close> seconds, is
  outside the model.
\<close>

type_synonym tick = u32

datatype interest_tier = High | Medium | Low | TierNone

record delta =
  entity :: u64
  component :: string
  delta_data :: bytes

record baseline =
  base_tick :: tick
  base_fields :: "(string, bytes) hmap"

record replication_stats =
  packets_sent :: u64
  bytes_sent :: u64
  deltas_sent :: u64
  snapshots_sent :: u64
  dropped_updates :: u64
  queued :: nat

record replication_tracker =
  tracker_baseline :: baseline
  pending :: "delta list"
  tier :: interest_tier
  last_sent :: "nat option"
  rep_stats :: replication_stats

datatype replication_packet =
    Snapshot tick "(string, bytes) hmap"
  | DeltaPacket "delta list"

definition tracker_new :: "tick \<Rightarrow> replication_tracker" where
  "tracker_new t =
     \<lparr>tracker_baseline = \<lparr>base_tick = t, base_fields = []\<rparr>, pending = [], tier = Medium, last_sent = None,
      rep_stats = \<lparr>packets_sent = 0, bytes_sent = 0, deltas_sent = 0, snapshots_sent = 0, dropped_updates = 0, queued = 0\<rparr>\<rparr>"

definition same_field :: "delta \<Rightarrow> delta \<Rightarrow> bool" where
  "same_field d e = (entity d = entity e \<and> component d = component e)"

text \<open>\<open>iter_mut().find(...)\<close> and the overwrite of the element found.\<close>

fun overwrite_first :: "delta list \<Rightarrow> delta \<Rightarrow> delta list option" where
  "overwrite_first [] d = None"
| "overwrite_first (e # es) d =
     (if same_field e d then Some (d # es) else map_option ((#) e) (overwrite_first es d))"

definition record_delta :: "replication_tracker \<Rightarrow> delta \<Rightarrow> replication_tracker" where
  "record_delta r d =
     (case overwrite_first (pending r) d of
        Some ds \<Rightarrow> r\<lparr>pending := ds\<rparr>
      | None \<Rightarrow> r\<lparr>pending := pending r @ [d]\<rparr>)"

definition acknowledge :: "replication_tracker \<Rightarrow> tick \<Rightarrow> replication_tracker" where
  "acknowledge r t =
     r\<lparr>tracker_baseline := (tracker_baseline r)\<lparr>base_tick := t\<rparr>,
       rep_stats := (rep_stats r)\<lparr>queued := length (pending r)\<rparr>\<rparr>"

definition set_tier :: "replication_tracker \<Rightarrow> interest_tier \<Rightarrow> replication_tracker" where
  "set_tier r t = r\<lparr>tier := t\<rparr>"

definition flush :: "replication_tracker \<Rightarrow> nat \<Rightarrow> bool \<Rightarrow> replication_tracker \<times> replication_packet" where
  "flush r now force_snapshot =
     (let st = rep_stats r in
      if force_snapshot then
        (let fs = foldl (\<lambda>m d. hm_insert (component d) (delta_data d) m) (base_fields (tracker_baseline r)) (pending r);
             sz = sum_list (map length (hm_values fs)) in
         (r\<lparr>tracker_baseline := (tracker_baseline r)\<lparr>base_fields := fs\<rparr>, pending := [], last_sent := Some now,
            rep_stats := st\<lparr>snapshots_sent := snapshots_sent st + 1, bytes_sent := bytes_sent st + of_nat sz,
                            packets_sent := packets_sent st + 1, queued := 0\<rparr>\<rparr>,
          Snapshot (base_tick (tracker_baseline r)) fs))
      else
        (let ds = pending r; sz = sum_list (map (\<lambda>d. length (delta_data d)) ds) in
         (r\<lparr>pending := [], last_sent := Some now,
            rep_stats := st\<lparr>deltas_sent := deltas_sent st + of_nat (length ds), bytes_sent := bytes_sent st + of_nat sz,
                            packets_sent := (if ds \<noteq> [] then packets_sent st + 1 else packets_sent st), queued := 0\<rparr>\<rparr>,
          DeltaPacket ds)))"

definition drop_oldest :: "replication_tracker \<Rightarrow> replication_tracker" where
  "drop_oldest r =
     (case pending r of
        [] \<Rightarrow> r
      | _ # ds \<Rightarrow> r\<lparr>pending := ds,
           rep_stats := (rep_stats r)\<lparr>dropped_updates := dropped_updates (rep_stats r) + 1, queued := length ds\<rparr>\<rparr>)"

lemma drop_oldest_shorter: "pending r \<noteq> [] \<Longrightarrow> length (pending (drop_oldest r)) = length (pending r) - 1"
  by (cases "pending r") (simp_all add: drop_oldest_def)

function cap :: "replication_tracker \<Rightarrow> nat \<Rightarrow> replication_tracker" where
  "cap r mx = (if mx < length (pending r) then cap (drop_oldest r) mx else r)"
  by pat_completeness auto
termination
proof (relation "measure (\<lambda>(r, mx). length (pending r))")
  fix r mx assume a: "mx < length (pending (r :: replication_tracker))"
  then have "pending r \<noteq> []" by auto
  with a show "((drop_oldest r, mx), r, mx) \<in> measure (\<lambda>(r, mx). length (pending r))"
    by (simp add: drop_oldest_shorter)
qed simp

declare cap.simps [simp del]

section \<open>The client's view\<close>

text \<open>
  The reference: the value last written to each field. A client applies the deltas it receives
  in order.
\<close>

type_synonym view = "u64 \<times> string \<rightharpoonup> bytes"

definition put_field :: "view \<Rightarrow> delta \<Rightarrow> view" where
  "put_field v d = v((entity d, component d) \<mapsto> delta_data d)"

fun receive :: "view \<Rightarrow> replication_packet \<Rightarrow> view" where
  "receive v (DeltaPacket ds) = foldl put_field v ds"
| "receive v (Snapshot t fs) = v"

datatype rep_op =
    Record delta | Flush nat | SnapshotFlush nat | DropOldest | Cap nat | Ack tick | SetTier interest_tier

definition field_of :: "delta \<Rightarrow> u64 \<times> string" where
  "field_of d = (entity d, component d)"

definition collapse :: "(string \<rightharpoonup> bytes) \<Rightarrow> delta list \<Rightarrow> string \<rightharpoonup> bytes" where
  "collapse m ds = foldl (\<lambda>m d. m(component d \<mapsto> delta_data d)) m ds"

text \<open>
  Sender, client and reference side by side; every packet is delivered. \<open>missed\<close> are the fields whose last
  recorded change left the queue otherwise than in a delta packet, \<open>collapsed\<close> what the snapshots took,
  \<open>dropped\<close> the number of changes dropped. A snapshot names no entity, so the client's view of fields does not
  change with it.
\<close>

record rep_world =
  sender :: replication_tracker
  client :: view
  truth :: view
  missed :: "(u64 \<times> string) set"
  collapsed :: "string \<rightharpoonup> bytes"
  dropped :: nat

definition take_out :: "rep_world \<Rightarrow> delta list \<Rightarrow> rep_world" where
  "take_out w ds = w\<lparr>missed := missed w \<union> field_of ` set ds\<rparr>"

fun rep_step :: "rep_world \<Rightarrow> rep_op \<Rightarrow> rep_world" where
  "rep_step w (Record d) =
     w\<lparr>sender := record_delta (sender w) d, truth := put_field (truth w) d, missed := missed w - {field_of d}\<rparr>"
| "rep_step w (Flush now) =
     (case flush (sender w) now False of (r, p) \<Rightarrow> w\<lparr>sender := r, client := receive (client w) p\<rparr>)"
| "rep_step w (SnapshotFlush now) =
     (case flush (sender w) now True of (r, p) \<Rightarrow>
        (take_out w (pending (sender w)))\<lparr>sender := r, client := receive (client w) p,
          collapsed := collapse (collapsed w) (pending (sender w))\<rparr>)"
| "rep_step w DropOldest =
     (let ds = take 1 (pending (sender w)) in
      (take_out w ds)\<lparr>sender := drop_oldest (sender w), dropped := dropped w + length ds\<rparr>)"
| "rep_step w (Cap mx) =
     (let ds = take (length (pending (sender w)) - mx) (pending (sender w)) in
      (take_out w ds)\<lparr>sender := cap (sender w) mx, dropped := dropped w + length ds\<rparr>)"
| "rep_step w (Ack t) = w\<lparr>sender := acknowledge (sender w) t\<rparr>"
| "rep_step w (SetTier t) = w\<lparr>sender := set_tier (sender w) t\<rparr>"

definition rep_start :: "tick \<Rightarrow> rep_world" where
  "rep_start t = \<lparr>sender = tracker_new t, client = Map.empty, truth = Map.empty, missed = {}, collapsed = Map.empty, dropped = 0\<rparr>"

definition in_sync :: "rep_world \<Rightarrow> bool" where
  "in_sync w \<longleftrightarrow>
     (\<forall>f. f \<notin> missed w \<longrightarrow> foldl put_field (client w) (pending (sender w)) f = truth w f) \<and>
     distinct (map field_of (pending (sender w))) \<and>
     (\<forall>c. hm_get (base_fields (tracker_baseline (sender w))) c = collapsed w c) \<and>
     dropped_updates (rep_stats (sender w)) = of_nat (dropped w)"

lemma same_field_iff: "same_field d e \<longleftrightarrow> field_of d = field_of e"
  by (simp add: same_field_def field_of_def)

lemma write_commute: "\<not> same_field d e \<Longrightarrow> put_field (put_field v d) e = put_field (put_field v e) d"
  by (auto simp: put_field_def same_field_def fun_upd_twist)

lemma write_overwrite: "same_field d e \<Longrightarrow> put_field (put_field v d) e = put_field v e"
  by (simp add: put_field_def same_field_def)

lemma write_past: "list_all (\<lambda>e. \<not> same_field e d) es \<Longrightarrow> foldl put_field (put_field v d) es = put_field (foldl put_field v es) d"
  by (induction es arbitrary: v) (simp_all add: write_commute [symmetric])

lemma overwrite_first_Some:
  assumes "overwrite_first es d = Some ds"
  shows "\<exists>a e b. es = a @ e # b \<and> same_field e d \<and> ds = a @ d # b"
  using assms
proof (induction es arbitrary: ds)
  case (Cons e es)
  show ?case
  proof (cases "same_field e d")
    case True
    with Cons.prems show ?thesis by (intro exI [of _ "[]"] exI [of _ e] exI [of _ es]) simp
  next
    case False
    then obtain ds' where ds': "overwrite_first es d = Some ds'" "ds = e # ds'" using Cons.prems by auto
    then obtain a e' b where "es = a @ e' # b" "same_field e' d" "ds' = a @ d # b" using Cons.IH by blast
    with ds' show ?thesis by (intro exI [of _ "e # a"] exI [of _ e'] exI [of _ b]) simp
  qed
qed simp

lemma overwrite_first_None: "overwrite_first es d = None \<longleftrightarrow> field_of d \<notin> set (map field_of es)"
  by (induction es) (auto simp: same_field_iff)

lemma overwrite_write:
  assumes "overwrite_first es d = Some ds" and "distinct (map field_of es)"
  shows "foldl put_field v ds = put_field (foldl put_field v es) d" and "map field_of ds = map field_of es"
proof -
  obtain a e b where es: "es = a @ e # b" "same_field e d" "ds = a @ d # b"
    using overwrite_first_Some [OF assms(1)] by blast
  have b: "list_all (\<lambda>x. \<not> same_field x d) b" "list_all (\<lambda>x. \<not> same_field x e) b"
    using assms(2) es by (auto simp: list_all_iff same_field_iff image_iff)
  show "foldl put_field v ds = put_field (foldl put_field v es) d"
    using es b by (simp add: write_past write_overwrite)
  show "map field_of ds = map field_of es" using es by (simp add: same_field_iff)
qed

lemma record_pending:
  assumes "distinct (map field_of (pending r))"
  shows "foldl put_field v (pending (record_delta r d)) = put_field (foldl put_field v (pending r)) d"
    and "distinct (map field_of (pending (record_delta r d)))"
proof -
  have "foldl put_field v (pending (record_delta r d)) = put_field (foldl put_field v (pending r)) d \<and>
      distinct (map field_of (pending (record_delta r d)))"
  proof (cases "overwrite_first (pending r) d")
    case None
    then show ?thesis using assms overwrite_first_None [of "pending r" d] by (simp add: record_delta_def)
  next
    case (Some ds)
    then show ?thesis using assms overwrite_write [OF Some assms] by (simp add: record_delta_def)
  qed
  then show "foldl put_field v (pending (record_delta r d)) = put_field (foldl put_field v (pending r)) d"
    and "distinct (map field_of (pending (record_delta r d)))" by blast+
qed

lemma record_delta_fields [simp]:
  "tracker_baseline (record_delta r d) = tracker_baseline r" "rep_stats (record_delta r d) = rep_stats r"
  by (simp_all add: record_delta_def split: option.split)

text \<open>A field that no delta of the list names keeps its value, and values elsewhere do not matter to it.\<close>

lemma put_elsewhere: "f \<notin> field_of ` set ds \<Longrightarrow> foldl put_field v ds f = v f"
  by (induction ds arbitrary: v) (auto simp: put_field_def field_of_def)

lemma put_pointwise: "v f = v' f \<Longrightarrow> foldl put_field v ds f = foldl put_field v' ds f"
proof (induction ds arbitrary: v v')
  case (Cons d ds)
  have "put_field v d f = put_field v' d f" using Cons.prems by (simp add: put_field_def)
  then show ?case unfolding foldl_Cons by (rule Cons.IH)
qed simp

lemma put_drop: "f \<notin> field_of ` set (take n ds) \<Longrightarrow> foldl put_field v (drop n ds) f = foldl put_field v ds f"
  using put_pointwise [of v f "foldl put_field v (take n ds)" "drop n ds"] put_elsewhere [of f "take n ds" v]
  by (metis foldl_append append_take_drop_id)

lemma collapse_fields:
  "hm_get (foldl (\<lambda>m d. hm_insert (component d) (delta_data d) m) m ds) c = collapse (hm_get m) ds c"
proof -
  have "hm_get (foldl (\<lambda>m d. hm_insert (component d) (delta_data d) m) m ds) =
      foldl (\<lambda>m d. m(component d \<mapsto> delta_data d)) (hm_get m) ds"
    by (induction ds arbitrary: m) (simp_all add: update_conv')
  then show ?thesis by (simp add: collapse_def)
qed

lemma drop_oldest_fields:
  "pending (drop_oldest r) = drop 1 (pending r)" "tracker_baseline (drop_oldest r) = tracker_baseline r"
  "dropped_updates (rep_stats (drop_oldest r)) = dropped_updates (rep_stats r) + of_nat (length (take 1 (pending r)))"
  by (cases "pending r"; simp add: drop_oldest_def)+

text \<open>Capping drops the excess from the front of the queue and counts it.\<close>

lemma cap_fields:
  "pending (cap r mx) = drop (length (pending r) - mx) (pending r) \<and> tracker_baseline (cap r mx) = tracker_baseline r \<and>
   dropped_updates (rep_stats (cap r mx)) = dropped_updates (rep_stats r) + of_nat (length (pending r) - mx)"
proof (induction r mx rule: cap.induct)
  case (1 r mx)
  show ?case
  proof (cases "mx < length (pending r)")
    case True
    then obtain d ds where p: "pending r = d # ds" by (cases "pending r") auto
    have "Suc (length ds) - mx = Suc (length ds - mx)" using True p by simp
    then show ?thesis using 1 [OF True] True p by (subst (1 2 3) cap.simps) (simp add: drop_oldest_fields)
  qed (simp add: cap.simps)
qed

lemma cap_length: "length (pending (cap r mx)) = min mx (length (pending r))"
proof (induction r mx rule: cap.induct)
  case (1 r mx)
  show ?case
  proof (cases "mx < length (pending r)")
    case True
    then have "pending r \<noteq> []" by auto
    with 1 True show ?thesis by (subst cap.simps) (simp add: drop_oldest_shorter)
  qed (subst cap.simps, simp)
qed

lemma sync_drop:
  assumes "in_sync w" and "pending r = drop n (pending (sender w))" and "tracker_baseline r = tracker_baseline (sender w)"
    and "dropped_updates (rep_stats r) = dropped_updates (rep_stats (sender w)) + of_nat (length (take n (pending (sender w))))"
  shows "in_sync ((take_out w (take n (pending (sender w))))
    \<lparr>sender := r, dropped := dropped w + length (take n (pending (sender w)))\<rparr>)"
proof -
  let ?ds = "pending (sender w)"
  have "distinct (map field_of (drop n ?ds))" using assms(1) by (simp add: in_sync_def drop_map [symmetric])
  moreover have "foldl put_field (client w) (drop n ?ds) f = truth w f"
    if "f \<notin> missed w \<union> field_of ` set (take n ?ds)" for f
    using assms(1) that put_drop [of f n ?ds "client w"] unfolding in_sync_def by (metis UnI1 UnI2)
  ultimately show ?thesis using assms by (simp add: in_sync_def take_out_def)
qed

lemma sync_snapshot: "in_sync w \<Longrightarrow> in_sync (rep_step w (SnapshotFlush now))"
proof -
  assume w: "in_sync w"
  have "client w f = truth w f" if "f \<notin> missed w \<union> field_of ` set (pending (sender w))" for f
    using w that put_elsewhere [of f "pending (sender w)" "client w"] unfolding in_sync_def by (metis UnI1 UnI2)
  moreover have "hm_get (base_fields (tracker_baseline (sender w))) = collapsed w" using w by (auto simp: in_sync_def)
  ultimately show ?thesis
    using w by (simp add: in_sync_def flush_def take_out_def Let_def collapse_fields)
qed

lemma step_sync: "in_sync w \<Longrightarrow> in_sync (rep_step w op)"
proof (cases op)
  case (Record d)
  assume w: "in_sync w"
  then show ?thesis
    using Record record_pending(1) [of "sender w" "client w" d] record_pending(2) [of "sender w" d]
    by (auto simp: in_sync_def put_field_def field_of_def)
next
  case (SnapshotFlush now)
  assume "in_sync w"
  then show ?thesis using SnapshotFlush sync_snapshot by simp
next
  case DropOldest
  assume "in_sync w"
  then show ?thesis using DropOldest sync_drop [of w "drop_oldest (sender w)" 1] drop_oldest_fields [of "sender w"] by (simp add: Let_def)
next
  case (Cap mx)
  assume "in_sync w"
  then show ?thesis
    using Cap sync_drop [of w "cap (sender w) mx" "length (pending (sender w)) - mx"] cap_fields [of "sender w" mx] by (simp add: Let_def)
qed (auto simp: in_sync_def flush_def acknowledge_def set_tier_def Let_def)

interpretation replication_run: op_system "rep_start t" rep_step in_sync for t
  by unfold_locales (simp_all add: step_sync, simp add: in_sync_def rep_start_def tracker_new_def)

section \<open>Properties\<close>

text \<open>The recorded changes, and the operations that take changes out of the queue without sending them as deltas.\<close>

fun recorded :: "rep_op list \<Rightarrow> delta list" where
  "recorded [] = []"
| "recorded (Record d # ops) = d # recorded ops"
| "recorded (op # ops) = recorded ops"

fun takes_out :: "rep_op \<Rightarrow> bool" where
  "takes_out (SnapshotFlush now) = True"
| "takes_out DropOldest = True"
| "takes_out (Cap mx) = True"
| "takes_out op = False"

lemma truth_recorded: "truth (foldl rep_step w ops) = foldl put_field (truth w) (recorded ops)"
proof (induction ops arbitrary: w)
  case (Cons op ops)
  then show ?case by (cases op) (simp_all add: take_out_def Let_def split: prod.split)
qed simp

lemma nothing_missed: "list_all (\<lambda>op. \<not> takes_out op) ops \<Longrightarrow> missed w = {} \<Longrightarrow> missed (foldl rep_step w ops) = {}"
proof (induction ops arbitrary: w)
  case (Cons op ops)
  then show ?case by (cases op) (simp_all split: prod.split)
qed simp

text \<open>
  C39. What the delta stream carries, whatever is recorded, flushed, sent as a snapshot, dropped, capped and
  acknowledged in between, if every packet is delivered. Right after a delta flush the client has the last recorded value of
  every field, except of those whose last change was dropped, capped away or collapsed into a snapshot since; if there
  was no snapshot, drop or cap, it has exactly the last recorded value of every field and nothing else. A
  snapshot holds, by component, what earlier snapshots collapsed with the changes pending now written over it, so one
  forced right after a delta flush holds only what earlier snapshots collapsed: changes sent as deltas never reach the
  baseline. The drop counter counts the dropped changes.
\<close>

theorem delta_stream_exact:
  assumes "w = foldl rep_step (rep_start t) ops"
  shows "(\<forall>f. f \<notin> missed w \<longrightarrow> receive (client w) (snd (flush (sender w) now False)) f = truth w f) \<and>
    truth w = foldl put_field Map.empty (recorded ops) \<and>
    (list_all (\<lambda>op. \<not> takes_out op) ops \<longrightarrow> receive (client w) (snd (flush (sender w) now False)) = truth w) \<and>
    (\<exists>tk fs. snd (flush (sender w) now True) = Snapshot tk fs \<and>
       (\<forall>c. hm_get fs c = collapse (collapsed w) (pending (sender w)) c)) \<and>
    (\<exists>tk fs. snd (flush (fst (flush (sender w) now False)) later True) = Snapshot tk fs \<and> (\<forall>c. hm_get fs c = collapsed w c)) \<and>
    dropped_updates (rep_stats (sender w)) = of_nat (dropped w)"
proof -
  have s: "in_sync w" using replication_run.inv_reach [of t ops] assms by simp
  have r: "receive (client w) (snd (flush (sender w) now False)) = foldl put_field (client w) (pending (sender w))"
    by (simp add: flush_def Let_def)
  have f: "\<forall>f. f \<notin> missed w \<longrightarrow> receive (client w) (snd (flush (sender w) now False)) f = truth w f"
    using s unfolding r in_sync_def by blast
  have "truth w = foldl put_field Map.empty (recorded ops)" using assms truth_recorded [of "rep_start t" ops] by (simp add: rep_start_def)
  moreover have "receive (client w) (snd (flush (sender w) now False)) = truth w" if "list_all (\<lambda>op. \<not> takes_out op) ops"
    using f nothing_missed [OF that, of "rep_start t"] assms by (auto simp: rep_start_def)
  moreover have b: "hm_get (base_fields (tracker_baseline (sender w))) = collapsed w" using s by (auto simp: in_sync_def)
  then have "\<exists>tk fs. snd (flush (sender w) now True) = Snapshot tk fs \<and>
       (\<forall>c. hm_get fs c = collapse (collapsed w) (pending (sender w)) c)"
    by (simp add: flush_def Let_def collapse_fields)
  moreover have "\<exists>tk fs. snd (flush (fst (flush (sender w) now False)) later True) = Snapshot tk fs \<and>
       (\<forall>c. hm_get fs c = collapsed w c)"
    using b by (simp add: flush_def Let_def)
  moreover have "dropped_updates (rep_stats (sender w)) = of_nat (dropped w)" using s by (simp add: in_sync_def)
  ultimately show ?thesis using f by blast
qed

definition demo_delta :: "string \<Rightarrow> bytes \<Rightarrow> delta" where
  "demo_delta c b = \<lparr>entity = 1, component = c, delta_data = b\<rparr>"

text \<open>A change that was collapsed into a snapshot is missed by the delta stream, and a later snapshot lacks one sent by delta.\<close>

theorem delta_stream_exact_witness:
  "let w = foldl rep_step (rep_start 0)
         [Record (demo_delta ''hp'' [1]), SnapshotFlush 0, Record (demo_delta ''pos'' [2]), Record (demo_delta ''pos'' [3])]
   in receive (client w) (snd (flush (sender w) 1 False)) (1, ''pos'') = Some [3] \<and>
      receive (client w) (snd (flush (sender w) 1 False)) (1, ''hp'') = None \<and> missed w = {(1, ''hp'')} \<and>
      (\<exists>tk fs. snd (flush (fst (flush (sender w) 1 False)) 2 True) = Snapshot tk fs \<and> (\<forall>c. hm_get fs c = [''hp'' \<mapsto> [1]] c))"
proof -
  define w where "w = foldl rep_step (rep_start 0)
    [Record (demo_delta ''hp'' [1]), SnapshotFlush 0, Record (demo_delta ''pos'' [2]), Record (demo_delta ''pos'' [3])]"
  note eval = rep_start_def demo_delta_def tracker_new_def record_delta_def flush_def take_out_def field_of_def put_field_def
    collapse_def same_field_def Let_def
  have e: "missed w = {(1, ''hp'')}" "truth w (1, ''pos'') = Some [3]" "collapsed w = [''hp'' \<mapsto> [1]]"
    "receive (client w) (snd (flush (sender w) 1 False)) (1, ''hp'') = None"
    by (simp_all add: w_def eval)
  show ?thesis
    using delta_stream_exact [OF w_def, of 1 2] e unfolding w_def [symmetric] Let_def by auto
qed

end
