(* ===== verification/Players.thy ===== *)
theory Players
  imports Prelude
begin

text \<open>
  The gameplay players of \<open>framework/aldivine/src/players.rs\<close>: characters per account, the
  server-wide index of character names and the active slot.
\<close>

type_synonym character_id = u32

datatype player_status = Online | Offline | Banned

record character =
  char_id :: character_id
  char_name :: string
  char_job :: string

record player =
  identity :: player_id
  status :: player_status
  characters :: "character list"
  active_character :: "character_id option"

datatype player_error = NoCharacter character_id | SlotLimit | DuplicateName

record player_service =
  players :: "(player_id, player) hmap"
  names :: "(string, player_id) hmap"

definition MAX_CHARACTERS :: nat where "MAX_CHARACTERS = 5"

definition player_service_new :: player_service where
  "player_service_new = \<lparr>players = [], names = []\<rparr>"

definition player_join :: "player_service \<Rightarrow> player_id \<Rightarrow> player_service" where
  "player_join s i =
     s\<lparr>players := hm_or_insert i \<lparr>identity = i, status = Online, characters = [], active_character = None\<rparr> (players s)\<rparr>"

definition player_leave :: "player_service \<Rightarrow> player_id \<Rightarrow> player_service" where
  "player_leave s i =
     (case hm_get (players s) i of
        None \<Rightarrow> s
      | Some p \<Rightarrow> s\<lparr>players := hm_insert i (p\<lparr>status := Offline, active_character := None\<rparr>) (players s)\<rparr>)"

definition create_character :: "player_service \<Rightarrow> player_id \<Rightarrow> string \<Rightarrow> player_service \<times> (character_id, player_error) result" where
  "create_character s i name =
     (if hm_contains (names s) name then (s, Err DuplicateName)
      else case hm_get (players s) i of
        None \<Rightarrow> (s, Err (NoCharacter 0))
      | Some p \<Rightarrow>
          if MAX_CHARACTERS \<le> length (characters p) then (s, Err SlotLimit)
          else
            let cid = of_nat (length (characters p)) + 1;
                c = \<lparr>char_id = cid, char_name = name, char_job = ''unemployed''\<rparr> in
            (s\<lparr>names := hm_insert name i (names s),
               players := hm_insert i (p\<lparr>characters := characters p @ [c]\<rparr>) (players s)\<rparr>, Ok cid))"

definition select_character :: "player_service \<Rightarrow> player_id \<Rightarrow> character_id \<Rightarrow> player_service \<times> (unit, player_error) result" where
  "select_character s i cid =
     (case hm_get (players s) i of
        None \<Rightarrow> (s, Err (NoCharacter cid))
      | Some p \<Rightarrow>
          if \<not> list_ex (\<lambda>c. char_id c = cid) (characters p) then (s, Err (NoCharacter cid))
          else (s\<lparr>players := hm_insert i (p\<lparr>active_character := Some cid\<rparr>) (players s)\<rparr>, Ok ()))"

definition player_get :: "player_service \<Rightarrow> player_id \<Rightarrow> player option" where
  "player_get s i = hm_get (players s) i"

definition online_count :: "player_service \<Rightarrow> nat" where
  "online_count s = length (filter (\<lambda>p. status p = Online) (hm_values (players s)))"

section \<open>What every reachable service satisfies\<close>

datatype player_op =
    PJoin player_id
  | PLeave player_id
  | PCreate player_id string
  | PSelect player_id character_id

fun player_step :: "player_service \<Rightarrow> player_op \<Rightarrow> player_service" where
  "player_step s (PJoin i) = player_join s i"
| "player_step s (PLeave i) = player_leave s i"
| "player_step s (PCreate i n) = fst (create_character s i n)"
| "player_step s (PSelect i c) = fst (select_character s i c)"

text \<open>Slots are numbered from one.\<close>

definition slot_ids :: "nat \<Rightarrow> character_id list" where
  "slot_ids n = map of_nat [1..<Suc n]"

definition player_ok :: "player \<Rightarrow> bool" where
  "player_ok p \<longleftrightarrow> length (characters p) \<le> MAX_CHARACTERS \<and>
     map char_id (characters p) = slot_ids (length (characters p)) \<and>
     distinct (map char_name (characters p)) \<and>
     (\<forall>c. active_character p = Some c \<longrightarrow> c \<in> char_id ` set (characters p))"

text \<open>The name index holds exactly the names of the characters, with their owners.\<close>

definition service_ok :: "player_service \<Rightarrow> bool" where
  "service_ok s \<longleftrightarrow>
     (\<forall>i p. hm_get (players s) i = Some p \<longrightarrow> identity p = i \<and> player_ok p) \<and>
     (\<forall>n i. hm_get (names s) n = Some i \<longleftrightarrow>
        (\<exists>p. hm_get (players s) i = Some p \<and> n \<in> set (map char_name (characters p))))"

lemma slot_ids_Suc: "slot_ids (Suc n) = slot_ids n @ [of_nat n + 1]"
  by (simp add: slot_ids_def ac_simps)

lemma slot_ids_0: "slot_ids 0 = []"
  by (simp add: slot_ids_def)

lemma service_ok_upd:
  assumes "service_ok s" and "hm_get (players s) i = Some p"
    and "identity p' = identity p" and "player_ok p'" and "characters p' = characters p"
  shows "service_ok (s\<lparr>players := hm_insert i p' (players s)\<rparr>)"
  using assms unfolding service_ok_def by (simp add: hm_simps)

lemma service_ok_join: "service_ok s \<Longrightarrow> service_ok (player_join s i)"
proof (cases "hm_get (players s) i")
  case None
  let ?p = "\<lparr>identity = i, status = Online, characters = [], active_character = None\<rparr>"
  have "player_ok ?p" by (simp add: player_ok_def slot_ids_0)
  moreover have "players (player_join s i) = hm_insert i ?p (players s)" "names (player_join s i) = names s"
    using None by (simp_all add: player_join_def hm_or_insert_def)
  ultimately show "service_ok s \<Longrightarrow> ?thesis"
    using None unfolding service_ok_def by (auto simp: hm_simps)
next
  case (Some p)
  then have "player_join s i = s" by (simp add: player_join_def hm_or_insert_def)
  then show "service_ok s \<Longrightarrow> ?thesis" by simp
qed

lemma service_ok_leave: "service_ok s \<Longrightarrow> service_ok (player_leave s i)"
  by (auto simp: player_leave_def service_ok_def [of s] player_ok_def intro!: service_ok_upd split: option.splits)

lemma service_ok_select: "service_ok s \<Longrightarrow> service_ok (fst (select_character s i c))"
proof (cases "hm_get (players s) i")
  case (Some p)
  assume ok: "service_ok s"
  show ?thesis
  proof (cases "list_ex (\<lambda>x. char_id x = c) (characters p)")
    case True
    then have "c \<in> char_id ` set (characters p)" by (auto simp: list_ex_iff)
    then have "player_ok (p\<lparr>active_character := Some c\<rparr>)"
      using ok Some by (auto simp: service_ok_def player_ok_def)
    then show ?thesis using ok Some True by (auto simp: select_character_def intro: service_ok_upd)
  qed (use ok Some in \<open>simp add: select_character_def\<close>)
qed (simp add: select_character_def)

lemma create_ok_player:
  assumes "player_ok p" and "length (characters p) < MAX_CHARACTERS" and "name \<notin> set (map char_name (characters p))"
  shows "player_ok (p\<lparr>characters := characters p @
    [\<lparr>char_id = of_nat (length (characters p)) + 1, char_name = name, char_job = j\<rparr>]\<rparr>)"
  using assms by (auto simp: player_ok_def slot_ids_Suc)

lemma service_ok_create: "service_ok s \<Longrightarrow> service_ok (fst (create_character s i name))"
proof (cases "hm_get (players s) i")
  case (Some p)
  assume ok: "service_ok s"
  show ?thesis
  proof (cases "hm_contains (names s) name \<or> MAX_CHARACTERS \<le> length (characters p)")
    case True
    then show ?thesis using ok Some by (auto simp: create_character_def)
  next
    case False
    let ?c = "\<lparr>char_id = of_nat (length (characters p)) + 1, char_name = name, char_job = ''unemployed''\<rparr>"
    let ?p = "p\<lparr>characters := characters p @ [?c]\<rparr>"
    have fresh: "hm_get (players s) j = Some q \<Longrightarrow> name \<notin> set (map char_name (characters q))" for j q
      using ok False unfolding service_ok_def hm_contains_def by (metis option.discI)
    have "player_ok ?p"
      using ok Some False fresh [OF Some] by (intro create_ok_player) (auto simp: service_ok_def)
    moreover have "fst (create_character s i name) =
        s\<lparr>names := hm_insert name i (names s), players := hm_insert i ?p (players s)\<rparr>"
      using Some False by (simp add: create_character_def Let_def)
    moreover have "identity p = i" using ok Some by (simp add: service_ok_def)
    ultimately show ?thesis
      using ok Some fresh unfolding service_ok_def by (auto simp: hm_simps)
  qed
qed (simp add: create_character_def)

lemma service_ok_step: "service_ok s \<Longrightarrow> service_ok (player_step s op)"
  by (cases op) (simp_all add: service_ok_join service_ok_leave service_ok_create service_ok_select)

interpretation players_run: op_system player_service_new player_step service_ok
  by unfold_locales (simp add: service_ok_def player_service_new_def, rule service_ok_step)

text \<open>A player who left is not brought back online by joining again.\<close>

lemma rejoin_stays_offline:
  assumes "hm_get (players s) i = Some p"
  shows "\<exists>q. player_get (player_join (player_leave s i) i) i = Some q \<and> status q = Offline"
  using assms by (simp add: player_leave_def player_join_def player_get_def hm_or_insert_def hm_simps)

section \<open>Properties\<close>

text \<open>
  After any sequence of joins, departures, creations and selections: a character name
  belongs to one slot of one account, the name index finds exactly its owner, the slots of an
  account are numbered from one without gaps and are at most five, and the active slot is one of
  them.
\<close>

lemma characters_consistent:
  assumes "s = foldl player_step player_service_new ops" and "player_get s i = Some p"
  shows "length (characters p) \<le> 5 \<and> map char_id (characters p) = map of_nat [1..<Suc (length (characters p))] \<and>
    (\<forall>c. active_character p = Some c \<longrightarrow> c \<in> char_id ` set (characters p)) \<and>
    (\<forall>c \<in> set (characters p). hm_get (names s) (char_name c) = Some i) \<and>
    (\<forall>j q c d. player_get s j = Some q \<longrightarrow> c \<in> set (characters p) \<longrightarrow> d \<in> set (characters q) \<longrightarrow>
       char_name c = char_name d \<longrightarrow> i = j \<and> c = d)"
proof -
  have ok: "service_ok s" unfolding assms(1) by (rule players_run.inv_reach)
  then have p: "player_ok p" using assms(2) by (auto simp: service_ok_def player_get_def)
  have owner: "hm_get (names s) (char_name c) = Some j"
    if "player_get s j = Some q" "c \<in> set (characters q)" for j q c
    using ok that unfolding service_ok_def player_get_def by auto
  have "i = j \<and> c = d" if "player_get s j = Some q" "c \<in> set (characters p)" "d \<in> set (characters q)"
    "char_name c = char_name d" for j q c d
  proof -
    have "i = j" using owner [OF assms(2) that(2)] owner [OF that(1,3)] that(4) by simp
    moreover have "inj_on char_name (set (characters p))"
      using p by (simp add: player_ok_def distinct_map)
    ultimately show ?thesis using that assms(2) by (auto dest: inj_onD)
  qed
  then show ?thesis
    using p owner [OF assms(2)] by (auto simp: player_ok_def slot_ids_def MAX_CHARACTERS_def simp del: upt_Suc)
qed

definition demo_service :: player_service where
  "demo_service = foldl player_step player_service_new [PJoin 1, PCreate 1 ''Ana'', PJoin 2, PCreate 2 ''Ana'', PSelect 1 1]"

end
