(* ===== verification/Jobs.thy ===== *)
theory Jobs
  imports Prelude
begin

text \<open>
  Jobs and employment (\<open>framework/aldivine/src/jobs.rs\<close>): graded jobs, who is employed where, and
  the salary and rank that follow from it.
\<close>

record grade =
  grade_no :: u32
  grade_name :: string
  grade_rank :: u32
  grade_salary :: u64

record job =
  job_name :: string
  job_label :: string
  grades :: "grade list"

datatype job_error = UnknownJob string | UnknownGrade string u32 | NotEmployed string

datatype duty_state = OnDuty | OffDuty

record employment =
  emp_job :: string
  emp_grade :: u32
  duty :: duty_state

record job_service =
  jobs :: "(string, job) hmap"
  employed :: "(player_id, employment) hmap"

definition job_service_new :: job_service where
  "job_service_new = \<lparr>jobs = [], employed = []\<rparr>"

text \<open>The loop of \<open>register\<close>: the first grade that is not its own position.\<close>

fun first_gap :: "u32 \<Rightarrow> grade list \<Rightarrow> u32 option" where
  "first_gap i [] = None"
| "first_gap i (g # gs) = (if grade_no g \<noteq> i then Some (grade_no g) else first_gap (i + 1) gs)"

definition job_register :: "job_service \<Rightarrow> job \<Rightarrow> job_service \<times> (unit, job_error) result" where
  "job_register s j =
     (let gs = sort_key grade_no (grades j) in
      case first_gap 0 gs of
        Some g \<Rightarrow> (s, Err (UnknownGrade (job_name j) g))
      | None \<Rightarrow> (s\<lparr>jobs := hm_insert (job_name j) (j\<lparr>grades := gs\<rparr>) (jobs s)\<rparr>, Ok ()))"

definition job_set :: "job_service \<Rightarrow> player_id \<Rightarrow> string \<Rightarrow> u32 \<Rightarrow> job_service \<times> (unit, job_error) result" where
  "job_set s p j g =
     (case hm_get (jobs s) j of
        None \<Rightarrow> (s, Err (UnknownJob j))
      | Some jb \<Rightarrow>
          if \<not> list_ex (\<lambda>x. grade_no x = g) (grades jb) then (s, Err (UnknownGrade j g))
          else (s\<lparr>employed := hm_insert p \<lparr>emp_job = j, emp_grade = g, duty = OffDuty\<rparr> (employed s)\<rparr>, Ok ()))"

definition fire :: "job_service \<Rightarrow> player_id \<Rightarrow> job_service \<times> (unit, job_error) result" where
  "fire s p =
     (s\<lparr>employed := hm_remove p (employed s)\<rparr>,
      case hm_get (employed s) p of Some _ \<Rightarrow> Ok () | None \<Rightarrow> Err (NotEmployed ''unemployed''))"

definition set_duty :: "job_service \<Rightarrow> player_id \<Rightarrow> duty_state \<Rightarrow> job_service \<times> (unit, job_error) result" where
  "set_duty s p d =
     (case hm_get (employed s) p of
        None \<Rightarrow> (s, Err (NotEmployed ''unemployed''))
      | Some e \<Rightarrow> (s\<lparr>employed := hm_insert p (e\<lparr>duty := d\<rparr>) (employed s)\<rparr>, Ok ()))"

definition employment_of :: "job_service \<Rightarrow> player_id \<Rightarrow> employment option" where
  "employment_of s p = hm_get (employed s) p"

text \<open>The grade record of an employment, where job and grade still exist.\<close>

definition grade_of :: "job_service \<Rightarrow> employment \<Rightarrow> grade option" where
  "grade_of s e =
     (case hm_get (jobs s) (emp_job e) of
        None \<Rightarrow> None
      | Some j \<Rightarrow> List.find (\<lambda>g. grade_no g = emp_grade e) (grades j))"

definition salary :: "job_service \<Rightarrow> player_id \<Rightarrow> u64" where
  "salary s p =
     (case hm_get (employed s) p of
        None \<Rightarrow> 0
      | Some e \<Rightarrow>
          if duty e = OnDuty then (case grade_of s e of None \<Rightarrow> 0 | Some g \<Rightarrow> grade_salary g) else 0)"

definition rank :: "job_service \<Rightarrow> player_id \<Rightarrow> u32" where
  "rank s p =
     (case hm_get (employed s) p of
        None \<Rightarrow> 0
      | Some e \<Rightarrow> (case grade_of s e of None \<Rightarrow> 0 | Some g \<Rightarrow> grade_rank g))"

section \<open>Reachable services\<close>

datatype job_op =
    JRegister job
  | JSet player_id string u32
  | JFire player_id
  | JDuty player_id duty_state

fun job_step :: "job_service \<Rightarrow> job_op \<Rightarrow> job_service" where
  "job_step s (JRegister j) = fst (job_register s j)"
| "job_step s (JSet p j g) = fst (job_set s p j g)"
| "job_step s (JFire p) = fst (fire s p)"
| "job_step s (JDuty p d) = fst (set_duty s p d)"

text \<open>Grades are numbered from zero, and everybody works in a job that was registered.\<close>

definition jobs_ok :: "job_service \<Rightarrow> bool" where
  "jobs_ok s \<longleftrightarrow>
     (\<forall>n j. hm_get (jobs s) n = Some j \<longrightarrow>
        job_name j = n \<and> map grade_no (grades j) = map of_nat [0..<length (grades j)]) \<and>
     (\<forall>p e. hm_get (employed s) p = Some e \<longrightarrow> hm_get (jobs s) (emp_job e) \<noteq> None)"

lemma first_gap_None:
  "first_gap i gs = None \<longleftrightarrow> map grade_no gs = map (\<lambda>k. i + of_nat k) [0..<length gs]"
proof (induction gs arbitrary: i)
  case (Cons g gs)
  have "map (\<lambda>k. i + of_nat k) [0..<length (g # gs)] = i # map (\<lambda>k. (i + 1) + of_nat k) [0..<length gs]"
    by (simp add: upt_conv_Cons map_Suc_upt [symmetric] ac_simps del: upt_Suc)
  then show ?case using Cons.IH [of "i + 1"] by auto
qed simp

lemma jobs_ok_step: "jobs_ok s \<Longrightarrow> jobs_ok (job_step s op)"
proof (cases op)
  case (JRegister j)
  assume "jobs_ok s"
  then show ?thesis
    using first_gap_None [of 0 "sort_key grade_no (grades j)"]
    by (auto simp: JRegister job_register_def jobs_ok_def hm_simps Let_def split: option.splits)
qed (auto simp: jobs_ok_def job_set_def fire_def set_duty_def hm_simps split: option.splits if_splits)

interpretation jobs_run: op_system job_service_new job_step jobs_ok
  by unfold_locales (simp add: jobs_ok_def job_service_new_def, rule jobs_ok_step)

text \<open>Salary is paid on duty only, for the grade that was set, and a promotion ends the duty.\<close>

lemma salary_on_duty_only: "salary s p \<noteq> 0 \<Longrightarrow> \<exists>e. employment_of s p = Some e \<and> duty e = OnDuty"
  by (auto simp: salary_def employment_of_def split: option.splits if_splits)

lemma promotion_off_duty: "snd (job_set s p j g) = Inr () \<Longrightarrow> salary (fst (job_set s p j g)) p = 0"
  by (auto simp: job_set_def salary_def hm_simps split: option.splits if_splits)

lemma employed_then_paid:
  assumes "snd (job_set s p j g) = Inr ()"
  shows "\<exists>jb x. hm_get (jobs s) j = Some jb \<and> x \<in> set (grades jb) \<and> grade_no x = g \<and>
    salary (fst (set_duty (fst (job_set s p j g)) p OnDuty)) p = grade_salary x \<and>
    rank (fst (job_set s p j g)) p = grade_rank x"
proof -
  obtain jb where jb: "hm_get (jobs s) j = Some jb" "list_ex (\<lambda>x. grade_no x = g) (grades jb)"
    using assms by (auto simp: job_set_def split: option.splits if_splits)
  then obtain x where x: "List.find (\<lambda>x. grade_no x = g) (grades jb) = Some x"
    by (cases "List.find (\<lambda>x. grade_no x = g) (grades jb)") (auto simp: find_None_iff list_ex_iff)
  then have "x \<in> set (grades jb)" "grade_no x = g" by (auto simp: find_Some_iff)
  then show ?thesis
    using jb x by (auto simp: job_set_def set_duty_def salary_def rank_def grade_of_def hm_simps)
qed

text \<open>Registering a job again with fewer grades leaves its former holders without rank and pay.\<close>

lemma grade_withdrawn:
  assumes "hm_get (employed s) p = Some e" and "hm_get (jobs s) (emp_job e) = Some j"
    and "\<forall>g \<in> set (grades j). grade_no g \<noteq> emp_grade e"
  shows "salary s p = 0 \<and> rank s p = 0"
proof -
  have "grade_of s e = None" using assms(2,3) by (auto simp: grade_of_def find_None_iff)
  then show ?thesis using assms(1) by (simp add: salary_def rank_def)
qed

end
