(* ===== verification/Events.thy ===== *)
theory Events
  imports Core
begin

text \<open>
  The in-process event bus of \<open>crates/ald-events\<close>. A handler is a closure over everything outside
  the bus: it maps the event, the data and that outer state \<open>'w\<close> to the new outer state and a
  result. \<open>dispatch\<close> copies the handler list before the calls, so a handler that re-enters the bus
  does not change the calls that are under way.
\<close>

section \<open>Priorities\<close>

datatype handler_priority = Low | Normal | High | Critical

fun priority_rank :: "handler_priority \<Rightarrow> nat" where
  "priority_rank Low = 0"
| "priority_rank Normal = 1"
| "priority_rank High = 2"
| "priority_rank Critical = 3"

instantiation handler_priority :: linorder
begin

definition less_eq_handler_priority :: "handler_priority \<Rightarrow> handler_priority \<Rightarrow> bool" where
  "p \<le> q \<longleftrightarrow> priority_rank p \<le> priority_rank q"

definition less_handler_priority :: "handler_priority \<Rightarrow> handler_priority \<Rightarrow> bool" where
  "p < q \<longleftrightarrow> priority_rank p < priority_rank q"

instance
proof
  fix p q :: handler_priority
  show "p \<le> q \<Longrightarrow> q \<le> p \<Longrightarrow> p = q"
    by (cases p; cases q) (simp_all add: less_eq_handler_priority_def)
qed (auto simp: less_eq_handler_priority_def less_handler_priority_def)

end

text \<open>\<open>std::cmp::Reverse\<close>.\<close>

datatype 'a reverse = Reverse (unreverse: 'a)

instantiation reverse :: (linorder) linorder
begin

definition less_eq_reverse :: "'a reverse \<Rightarrow> 'a reverse \<Rightarrow> bool" where
  "x \<le> y \<longleftrightarrow> unreverse y \<le> unreverse x"

definition less_reverse :: "'a reverse \<Rightarrow> 'a reverse \<Rightarrow> bool" where
  "x < y \<longleftrightarrow> unreverse y < unreverse x"

instance
  by standard (auto simp: less_eq_reverse_def less_reverse_def intro: reverse.expand)

end

section \<open>The bus\<close>

definition PROTECTED_NAMESPACES :: "string list" where
  "PROTECTED_NAMESPACES = [''ald'', ''framework'', ''server'', ''internal'']"

record ('d, 'w) event_handler =
  resource :: string
  priority :: handler_priority
  handler :: "string \<Rightarrow> 'd \<Rightarrow> 'w \<Rightarrow> 'w \<times> (unit, ald_error) result"

type_synonym ('d, 'w) event_bus = "(string, ('d, 'w) event_handler list) hmap"

definition event_bus_new :: "('d, 'w) event_bus" where "event_bus_new = []"

definition core_resource :: "string \<Rightarrow> bool" where
  "core_resource r \<longleftrightarrow> take 5 r = ''core/''"

definition event_register ::
  "('d, 'w) event_bus \<Rightarrow> string \<Rightarrow> ('d, 'w) event_handler \<Rightarrow> ('d, 'w) event_bus \<times> (unit, ald_error) result" where
  "event_register m event h =
     (case (case split_once (CHR '':'') event of
              Some (ns, _) \<Rightarrow> if ns \<in> set PROTECTED_NAMESPACES \<and> \<not> core_resource (resource h) then Some ns else None
            | None \<Rightarrow> None) of
        Some ns \<Rightarrow> (m, Err (CapabilityDenied (''namespace '' @ [CHR 0x27] @ ns @ [CHR 0x27] @ '' is protected'')))
      | None \<Rightarrow>
          (hm_insert event (sort_key (\<lambda>h. Reverse (priority h)) (hm_get_or [] m event @ [h])) m, Ok ()))"

fun run_handlers ::
  "('d, 'w) event_handler list \<Rightarrow> string \<Rightarrow> 'd \<Rightarrow> 'w \<Rightarrow> nat \<Rightarrow> 'w \<times> (nat, ald_error) result" where
  "run_handlers [] event data w count = (w, Ok count)"
| "run_handlers (h # hs) event data w count =
     (case handler h event data w of
        (w', Inl e) \<Rightarrow> (w', Err e)
      | (w', Inr _) \<Rightarrow> run_handlers hs event data w' (count + 1))"

definition event_dispatch ::
  "('d, 'w) event_bus \<Rightarrow> string \<Rightarrow> 'd \<Rightarrow> 'w \<Rightarrow> 'w \<times> (nat, ald_error) result" where
  "event_dispatch m event data w = run_handlers (hm_get_or [] m event) event data w 0"

definition unregister_resource :: "('d, 'w) event_bus \<Rightarrow> string \<Rightarrow> ('d, 'w) event_bus" where
  "unregister_resource m r = map (\<lambda>(event, hs). (event, filter (\<lambda>h. resource h \<noteq> r) hs)) m"

section \<open>What every reachable bus satisfies\<close>

datatype ('d, 'w) bus_op = Subscribe string "('d, 'w) event_handler" | Drop string

fun bus_step :: "('d, 'w) event_bus \<Rightarrow> ('d, 'w) bus_op \<Rightarrow> ('d, 'w) event_bus" where
  "bus_step m (Subscribe event h) = fst (event_register m event h)"
| "bus_step m (Drop r) = unregister_resource m r"

definition protected_event :: "string \<Rightarrow> bool" where
  "protected_event event \<longleftrightarrow> (\<exists>ns \<in> set PROTECTED_NAMESPACES. \<exists>rest. event = ns @ CHR '':'' # rest)"

definition bus_ok :: "('d, 'w) event_bus \<Rightarrow> bool" where
  "bus_ok m \<longleftrightarrow> (\<forall>event. sorted_wrt (\<lambda>g h. priority h \<le> priority g) (hm_get_or [] m event) \<and>
     (protected_event event \<longrightarrow> (\<forall>h \<in> set (hm_get_or [] m event). core_resource (resource h))))"

lemma split_once_protected:
  "protected_event event \<Longrightarrow> \<exists>ns rest. split_once (CHR '':'') event = Some (ns, rest) \<and> ns \<in> set PROTECTED_NAMESPACES"
  by (auto simp: protected_event_def PROTECTED_NAMESPACES_def)

lemma event_register_cases:
  obtains (denied) e where "event_register m event h = (m, Inl e)" "\<not> core_resource (resource h)"
  | (added) "event_register m event h =
        (hm_insert event (sort_key (\<lambda>h. Reverse (priority h)) (hm_get_or [] m event @ [h])) m, Inr ())"
      "protected_event event \<Longrightarrow> core_resource (resource h)"
proof (cases "event_register m event h = (hm_insert event
    (sort_key (\<lambda>h. Reverse (priority h)) (hm_get_or [] m event @ [h])) m, Inr ())")
  case True
  show thesis
  proof (rule added [OF True])
    assume "protected_event event"
    then show "core_resource (resource h)"
      using True split_once_protected [of event] by (auto simp: event_register_def split: if_splits)
  qed
next
  case False
  then show thesis using denied by (auto simp: event_register_def split: option.splits if_splits)
qed

lemma sorted_reverse:
  "sorted_wrt (\<lambda>g h. priority h \<le> priority g) (sort_key (\<lambda>h. Reverse (priority h)) hs)"
proof -
  have "sorted (map (\<lambda>h. Reverse (priority h)) (sort_key (\<lambda>h. Reverse (priority h)) hs))" by simp
  then show ?thesis by (simp only: sorted_map less_eq_reverse_def reverse.sel)
qed

lemma hm_get_or_unregister:
  "hm_get_or [] (unregister_resource m r) event = filter (\<lambda>h. resource h \<noteq> r) (hm_get_or [] m event)"
  by (induction m) (auto simp: unregister_resource_def hm_get_or_def)

lemma bus_ok_step: "bus_ok m \<Longrightarrow> bus_ok (bus_step m op)"
proof (cases op)
  case (Subscribe event h)
  assume "bus_ok m"
  then show ?thesis
    by (cases rule: event_register_cases [of m event h])
      (auto simp: Subscribe bus_ok_def hm_get_or_update sorted_reverse)
qed (auto simp: bus_ok_def hm_get_or_unregister sorted_wrt_filter)

interpretation bus_run: op_system event_bus_new bus_step bus_ok
  by unfold_locales (simp add: bus_ok_def event_bus_new_def hm_get_or_def, rule bus_ok_step)

text \<open>
  No sequence of registrations lets a resource outside the core handle an event of a protected
  namespace.
\<close>

lemma protected_namespaces_held:
  assumes "protected_event event" and "h \<in> set (hm_get_or [] (foldl bus_step event_bus_new ops) event)"
  shows "core_resource (resource h)"
  using bus_run.inv_reach [of ops] assms unfolding bus_ok_def by blast

text \<open>Handlers of one priority keep the order of their registration.\<close>

lemma same_priority_in_order:
  assumes "event_register m event h = (m', Inr ())"
  shows "filter (\<lambda>g. priority g = p) (hm_get_or [] m' event) =
    filter (\<lambda>g. priority g = p) (hm_get_or [] m event) @ (if priority h = p then [h] else [])"
proof -
  have "m' = hm_insert event (sort_key (\<lambda>h. Reverse (priority h)) (hm_get_or [] m event @ [h])) m"
    using assms by (cases rule: event_register_cases [of m event h]) auto
  then show ?thesis
    using sort_key_stable [of "\<lambda>h. Reverse (priority h)" "Reverse p" "hm_get_or [] m event @ [h]"]
    by (simp add: hm_get_or_update)
qed

text \<open>A dispatch runs every handler, or the handlers up to the first that fails.\<close>

lemma run_handlers_all:
  assumes "snd (run_handlers hs event data w n) = Inr k"
  shows "k = n + length hs"
  using assms by (induction hs arbitrary: w n) (fastforce split: prod.splits sum.splits)+

lemma run_handlers_first_error:
  assumes "snd (run_handlers gs event data w n) = Inr k" and "w' = fst (run_handlers gs event data w n)"
    and "handler h event data w' = (w'', Inl e)"
  shows "run_handlers (gs @ h # hs) event data w n = (w'', Inl e)"
  using assms by (induction gs arbitrary: w n) (auto split: prod.splits sum.splits)

lemma unregistered_gone: "h \<in> set (hm_get_or [] (unregister_resource m r) event) \<Longrightarrow> resource h \<noteq> r"
  by (simp add: hm_get_or_unregister)

end
