(* ===== verification/StateBags.thy ===== *)
theory StateBags
  imports Prelude "HOL-Library.List_Lexorder" "HOL-Library.Char_ord"
begin

text \<open>
  The state bags of \<open>crates/ald-state\<close>: bounded values, a write policy, a sequence number per
  mutation and change handlers. A \<open>BTreeMap\<close> is a map whose iteration sorts the keys (strings by
  their bytes). A handler is a closure over everything outside the bag: it maps the event and that
  outer state \<open>'w\<close> to the new outer state, so the order of the calls is visible.
\<close>

section \<open>Values\<close>

type_synonym owner_id = u64

definition MAX_KEY_LEN :: nat where "MAX_KEY_LEN = 64"

definition MAX_BLOB_LEN :: nat where "MAX_BLOB_LEN = 65536"

definition MAX_CHILDREN :: nat where "MAX_CHILDREN = 1024"

definition MAX_DEPTH :: nat where "MAX_DEPTH = 16"

text \<open>Integers and floats are their 64 bits; the entries of a map are in key order.\<close>

datatype state_value =
    SNil
  | SBool bool
  | SInt u64
  | SFloat u64
  | SStr string
  | SBytes bytes
  | SArray "state_value list"
  | SMap "(string \<times> state_value) list"

datatype state_error =
    BadKey string
  | TooLarge
  | TooManyChildren
  | TooDeep
  | NotOwner owner_id
  | NoSuchHandler

definition validate_key :: "string \<Rightarrow> (unit, state_error) result" where
  "validate_key key =
     (if key = [] then Err (BadKey ''key is empty'')
      else if MAX_KEY_LEN < length key then Err (BadKey ''key too long'')
      else if list_ex (\<lambda>c. c = CHR 0x00) key then Err (BadKey ''key contains NUL'')
      else Ok ())"

text \<open>The two \<open>try_for_each\<close> loops stop at the first error.\<close>

fun validate_at :: "state_value \<Rightarrow> nat \<Rightarrow> (unit, state_error) result"
  and validate_items :: "state_value list \<Rightarrow> nat \<Rightarrow> (unit, state_error) result"
  and validate_entries :: "(string \<times> state_value) list \<Rightarrow> nat \<Rightarrow> (unit, state_error) result" where
  "validate_at v depth =
     (if MAX_DEPTH < depth then Err TooDeep
      else case v of
        SStr s \<Rightarrow> if MAX_BLOB_LEN < length s then Err TooLarge else Ok ()
      | SBytes b \<Rightarrow> if MAX_BLOB_LEN < length b then Err TooLarge else Ok ()
      | SArray items \<Rightarrow>
          if MAX_CHILDREN < length items then Err TooManyChildren else validate_items items (depth + 1)
      | SMap entries \<Rightarrow>
          if MAX_CHILDREN < length entries then Err TooManyChildren else validate_entries entries (depth + 1)
      | _ \<Rightarrow> Ok ())"
| "validate_items [] depth = Ok ()"
| "validate_items (v # vs) depth =
     (case validate_at v depth of Inl e \<Rightarrow> Err e | Inr _ \<Rightarrow> validate_items vs depth)"
| "validate_entries [] depth = Ok ()"
| "validate_entries ((k, v) # es) depth =
     (case validate_key k of
        Inl e \<Rightarrow> Err e
      | Inr _ \<Rightarrow> (case validate_at v depth of Inl e \<Rightarrow> Err e | Inr _ \<Rightarrow> validate_entries es depth))"

declare validate_at.simps [simp del]

definition value_validate :: "state_value \<Rightarrow> (unit, state_error) result" where
  "value_validate v = validate_at v 0"

section \<open>Bags\<close>

datatype write_policy = Open | OwnerOnly

record change_event =
  ev_bag :: string
  ev_key :: string
  ev_old :: "state_value option"
  ev_new :: "state_value option"
  ev_seq :: u64

type_synonym 'w handler = "change_event \<Rightarrow> 'w \<Rightarrow> 'w"

record 'w state_bag =
  bag_id :: string
  policy :: write_policy
  owner :: "owner_id option"
  bag_seq :: u64
  bag_values :: "(string, state_value \<times> bool) hmap"
  handlers :: "(u64, string option \<times> 'w handler) hmap"
  next_handler :: u64

definition state_bag_new :: "string \<Rightarrow> write_policy \<Rightarrow> 'w state_bag" where
  "state_bag_new i pol =
     \<lparr>bag_id = i, policy = pol, owner = None, bag_seq = 0, bag_values = [], handlers = [], next_handler = 0\<rparr>"

definition set_owner :: "'w state_bag \<Rightarrow> owner_id option \<Rightarrow> 'w state_bag" where
  "set_owner b o' = b\<lparr>owner := o'\<rparr>"

definition check_write :: "'w state_bag \<Rightarrow> owner_id \<Rightarrow> (unit, state_error) result" where
  "check_write b writer =
     (case policy b of
        Open \<Rightarrow> Ok ()
      | OwnerOnly \<Rightarrow> if owner b = Some writer then Ok () else Err (NotOwner writer))"

text \<open>
  The ids of the matching handlers in increasing order; a handler cannot change the bag, so each is
  still present when its turn comes.
\<close>

definition matching :: "'w state_bag \<Rightarrow> string \<Rightarrow> u64 list" where
  "matching b key =
     map fst (filter (\<lambda>(i, f, h). case f of None \<Rightarrow> True | Some k \<Rightarrow> k = key) (sort_key fst (handlers b)))"

definition state_dispatch :: "'w state_bag \<Rightarrow> change_event \<Rightarrow> 'w \<Rightarrow> 'w" where
  "state_dispatch b e w =
     foldl (\<lambda>w i. case hm_get (handlers b) i of None \<Rightarrow> w | Some (f, h) \<Rightarrow> h e w) w (matching b (ev_key e))"

definition bag_apply ::
  "'w state_bag \<Rightarrow> 'w \<Rightarrow> string \<Rightarrow> state_value \<Rightarrow> bool \<Rightarrow> ('w state_bag \<times> 'w) \<times> (u64, state_error) result" where
  "bag_apply b w key v replicated =
     (let old = map_option fst (hm_get (bag_values b) key);
          b1 = b\<lparr>bag_values := hm_insert key (v, replicated) (bag_values b), bag_seq := bag_seq b + 1\<rparr>;
          e = \<lparr>ev_bag = bag_id b, ev_key = key, ev_old = old, ev_new = Some v, ev_seq = bag_seq b1\<rparr> in
      ((b1, state_dispatch b1 e w), Ok (bag_seq b1)))"

definition bag_set ::
  "'w state_bag \<Rightarrow> 'w \<Rightarrow> string \<Rightarrow> state_value \<Rightarrow> owner_id \<Rightarrow> ('w state_bag \<times> 'w) \<times> (u64, state_error) result" where
  "bag_set b w key v writer =
     (case check_write b writer of
        Inl e \<Rightarrow> ((b, w), Err e)
      | Inr _ \<Rightarrow>
          (case validate_key key of
             Inl e \<Rightarrow> ((b, w), Err e)
           | Inr _ \<Rightarrow>
               (case value_validate v of
                  Inl e \<Rightarrow> ((b, w), Err e)
                | Inr _ \<Rightarrow>
                    bag_apply b w key v
                      (case hm_get (bag_values b) key of None \<Rightarrow> True | Some (_, r) \<Rightarrow> r))))"

definition set_replicated ::
  "'w state_bag \<Rightarrow> string \<Rightarrow> bool \<Rightarrow> owner_id \<Rightarrow> 'w state_bag \<times> (unit, state_error) result" where
  "set_replicated b key replicated writer =
     (case check_write b writer of
        Inl e \<Rightarrow> (b, Err e)
      | Inr _ \<Rightarrow>
          (case validate_key key of
             Inl e \<Rightarrow> (b, Err e)
           | Inr _ \<Rightarrow>
               (case hm_get (bag_values b) key of
                  Some (v, _) \<Rightarrow> (b\<lparr>bag_values := hm_insert key (v, replicated) (bag_values b)\<rparr>, Ok ())
                | None \<Rightarrow> (b\<lparr>bag_values := hm_insert key (SNil, replicated) (bag_values b),
                             bag_seq := bag_seq b + 1\<rparr>, Ok ()))))"

definition bag_get :: "'w state_bag \<Rightarrow> string \<Rightarrow> state_value option" where
  "bag_get b key = map_option fst (hm_get (bag_values b) key)"

definition bag_delete ::
  "'w state_bag \<Rightarrow> 'w \<Rightarrow> string \<Rightarrow> owner_id \<Rightarrow> ('w state_bag \<times> 'w) \<times> (bool, state_error) result" where
  "bag_delete b w key writer =
     (case check_write b writer of
        Inl e \<Rightarrow> ((b, w), Err e)
      | Inr _ \<Rightarrow>
          (case validate_key key of
             Inl e \<Rightarrow> ((b, w), Err e)
           | Inr _ \<Rightarrow>
               if hm_get (bag_values b) key = None then ((b, w), Ok False)
               else
                 let b1 = b\<lparr>bag_values := hm_remove key (bag_values b), bag_seq := bag_seq b + 1\<rparr>;
                     e = \<lparr>ev_bag = bag_id b, ev_key = key, ev_old = None, ev_new = None, ev_seq = bag_seq b1\<rparr> in
                 ((b1, state_dispatch b1 e w), Ok True)))"

definition snapshot_replicated :: "'w state_bag \<Rightarrow> (string \<times> state_value) list" where
  "snapshot_replicated b =
     map (\<lambda>(k, v, _). (k, v)) (filter (\<lambda>(_, _, r). r) (sort_key fst (bag_values b)))"

definition on_change ::
  "'w state_bag \<Rightarrow> string option \<Rightarrow> 'w handler \<Rightarrow> 'w state_bag \<times> (u64, state_error) result" where
  "on_change b key_filter h =
     (case (case key_filter of None \<Rightarrow> Ok () | Some k \<Rightarrow> validate_key k) of
        Inl e \<Rightarrow> (b, Err e)
      | Inr _ \<Rightarrow>
          let i = next_handler b in
          (b\<lparr>next_handler := next_handler b + 1, handlers := hm_insert i (key_filter, h) (handlers b)\<rparr>, Ok i))"

definition remove_handler :: "'w state_bag \<Rightarrow> u64 \<Rightarrow> 'w state_bag \<times> (unit, state_error) result" where
  "remove_handler b i =
     (b\<lparr>handlers := hm_remove i (handlers b)\<rparr>,
      case hm_get (handlers b) i of None \<Rightarrow> Err NoSuchHandler | Some _ \<Rightarrow> Ok ())"

section \<open>The registry\<close>

type_synonym 'w registry = "(string, 'w state_bag) hmap"

definition registry_new :: "'w registry" where "registry_new = []"

definition get_or_create :: "'w registry \<Rightarrow> string \<Rightarrow> write_policy \<Rightarrow> 'w registry \<times> 'w state_bag" where
  "get_or_create r i pol =
     (let r1 = hm_or_insert i (state_bag_new i pol) r in (r1, hm_get_or (state_bag_new i pol) r1 i))"

definition registry_remove :: "'w registry \<Rightarrow> string \<Rightarrow> 'w registry \<times> bool" where
  "registry_remove r i = (hm_remove i r, hm_get r i \<noteq> None)"

definition bag_count :: "'w registry \<Rightarrow> nat" where
  "bag_count r = length r"

section \<open>What is a legal key and value\<close>

definition key_ok :: "string \<Rightarrow> bool" where
  "key_ok k \<longleftrightarrow> k \<noteq> [] \<and> length k \<le> 64 \<and> CHR 0x00 \<notin> set k"

text \<open>A value that fits in \<open>d\<close> levels of nesting below its own.\<close>

fun fits :: "nat \<Rightarrow> state_value \<Rightarrow> bool" where
  "fits d (SStr s) \<longleftrightarrow> length s \<le> 65536"
| "fits d (SBytes b) \<longleftrightarrow> length b \<le> 65536"
| "fits d (SArray vs) \<longleftrightarrow> length vs \<le> 1024 \<and> (\<forall>v \<in> set vs. case d of 0 \<Rightarrow> False | Suc d' \<Rightarrow> fits d' v)"
| "fits d (SMap es) \<longleftrightarrow> length es \<le> 1024 \<and>
     (\<forall>e \<in> set es. key_ok (fst e) \<and> (case d of 0 \<Rightarrow> False | Suc d' \<Rightarrow> fits d' (snd e)))"
| "fits d _ \<longleftrightarrow> True"

lemmas state_limits = MAX_KEY_LEN_def MAX_BLOB_LEN_def MAX_CHILDREN_def MAX_DEPTH_def

lemma validate_key_ok: "validate_key k = Inr u \<longleftrightarrow> key_ok k"
  by (auto simp: validate_key_def key_ok_def state_limits list_ex_iff)

lemma validate_at_fits:
  "validate_at v n = Inr () \<longleftrightarrow> n \<le> 16 \<and> fits (16 - n) v"
  "validate_items vs n = Inr () \<longleftrightarrow> (\<forall>v \<in> set vs. n \<le> 16 \<and> fits (16 - n) v)"
  "validate_entries es n = Inr () \<longleftrightarrow> (\<forall>e \<in> set es. key_ok (fst e) \<and> n \<le> 16 \<and> fits (16 - n) (snd e))"
proof (induction v n and vs n and es n rule: validate_at_validate_items_validate_entries.induct)
  case (1 v n)
  have level: "(case 16 - n of 0 \<Rightarrow> False | Suc d' \<Rightarrow> P d') \<longleftrightarrow> Suc n \<le> 16 \<and> P (16 - Suc n)" for P
  proof (cases "Suc n \<le> 16")
    case True
    then have "16 - n = Suc (16 - Suc n)" by simp
    then show ?thesis using True by (simp only: nat.case) simp
  qed simp
  show ?case
    using 1 by (cases v) (auto simp: validate_at.simps state_limits level)
next
  case (3 v vs n)
  then show ?case by (auto split: sum.splits)
next
  case (5 k v es n)
  then show ?case using validate_key_ok [of k "()"] by (auto split: sum.splits)
qed simp_all

lemma value_validate_fits: "value_validate v = Inr u \<longleftrightarrow> fits 16 v"
  using validate_at_fits(1) [of v 0] by (simp add: value_validate_def)

section \<open>Runs\<close>

definition may_write :: "'w state_bag \<Rightarrow> owner_id \<Rightarrow> bool" where
  "may_write b writer \<longleftrightarrow> policy b = Open \<or> owner b = Some writer"

lemma check_write_ok: "check_write b writer = Inr u \<longleftrightarrow> may_write b writer"
  by (auto simp: check_write_def may_write_def split: write_policy.splits)

datatype 'w bag_op =
    BSet string state_value owner_id
  | BReplicated string bool owner_id
  | BDelete string owner_id
  | BOwner "owner_id option"
  | BSubscribe "string option" "'w handler"
  | BUnsubscribe u64

fun bag_step :: "'w state_bag \<times> 'w \<Rightarrow> 'w bag_op \<Rightarrow> 'w state_bag \<times> 'w" where
  "bag_step (b, w) (BSet k v wr) = fst (bag_set b w k v wr)"
| "bag_step (b, w) (BReplicated k r wr) = (fst (set_replicated b k r wr), w)"
| "bag_step (b, w) (BDelete k wr) = fst (bag_delete b w k wr)"
| "bag_step (b, w) (BOwner o') = (set_owner b o', w)"
| "bag_step (b, w) (BSubscribe f h) = (fst (on_change b f h), w)"
| "bag_step (b, w) (BUnsubscribe i) = (fst (remove_handler b i), w)"

definition bag_ok :: "'w state_bag \<times> 'w \<Rightarrow> bool" where
  "bag_ok s \<longleftrightarrow> hm_wf (bag_values (fst s)) \<and>
     (\<forall>k v r. hm_get (bag_values (fst s)) k = Some (v, r) \<longrightarrow> key_ok k \<and> fits 16 v)"

lemma bag_set_cases:
  obtains (refused) e where "bag_set b w k v wr = ((b, w), Inl e)" "\<not> (may_write b wr \<and> key_ok k \<and> fits 16 v)"
  | (stored) r w' where "may_write b wr" "key_ok k" "fits 16 v"
      "bag_set b w k v wr = ((b\<lparr>bag_values := hm_insert k (v, r) (bag_values b), bag_seq := bag_seq b + 1\<rparr>, w'),
         Inr (bag_seq b + 1))"
proof (cases "may_write b wr \<and> key_ok k \<and> fits 16 v")
  case True
  then have "check_write b wr = Inr ()" "validate_key k = Inr ()" "value_validate v = Inr ()"
    by (simp_all add: check_write_ok validate_key_ok value_validate_fits)
  then show thesis using True stored by (simp add: bag_set_def bag_apply_def Let_def)
next
  case False
  then have "check_write b wr \<noteq> Inr () \<or> validate_key k \<noteq> Inr () \<or> value_validate v \<noteq> Inr ()"
    by (simp add: check_write_ok validate_key_ok value_validate_fits)
  then have "\<exists>e. bag_set b w k v wr = ((b, w), Inl e)"
    by (auto simp: bag_set_def split: sum.splits)
  then show thesis using False refused by blast
qed

lemma bag_delete_cases:
  obtains (kept) r where "bag_delete b w k wr = ((b, w), r)"
  | (deleted) w' where "may_write b wr"
      "bag_delete b w k wr = ((b\<lparr>bag_values := hm_remove k (bag_values b), bag_seq := bag_seq b + 1\<rparr>, w'), Inr True)"
proof (cases "check_write b wr")
  case (Inr u)
  then have may: "may_write b wr" by (simp add: check_write_ok)
  show thesis
    using Inr kept deleted [OF may]
    by (cases "validate_key k"; cases "hm_get (bag_values b) k") (auto simp: bag_delete_def Let_def)
qed (auto simp: bag_delete_def intro: kept)

lemma set_replicated_cases:
  obtains (kept) r where "set_replicated b k p wr = (b, r)"
  | (changed) n v where "may_write b wr" "key_ok k" "fits 16 v \<or> bag_get b k = Some v"
      "set_replicated b k p wr = (b\<lparr>bag_values := hm_insert k (v, p) (bag_values b), bag_seq := n\<rparr>, Inr ())"
proof (cases "may_write b wr \<and> key_ok k")
  case True
  then have ok: "check_write b wr = Inr ()" "validate_key k = Inr ()"
    by (simp_all add: check_write_ok validate_key_ok)
  show thesis
  proof (cases "hm_get (bag_values b) k")
    case None
    then show thesis using changed [of SNil "bag_seq b + 1"] True ok by (simp add: set_replicated_def)
  next
    case (Some vr)
    then show thesis using changed [of "fst vr" "bag_seq b"] True ok
      by (cases vr) (simp add: set_replicated_def bag_get_def)
  qed
next
  case False
  then have "check_write b wr \<noteq> Inr () \<or> validate_key k \<noteq> Inr ()"
    by (simp add: check_write_ok validate_key_ok)
  then have "\<exists>r. set_replicated b k p wr = (b, r)"
    by (auto simp: set_replicated_def split: sum.splits)
  then show thesis using kept by blast
qed

lemma bag_ok_insert:
  assumes "bag_ok (b, w)" and "key_ok k" and "fits 16 v"
  shows "bag_ok (b\<lparr>bag_values := hm_insert k (v, r) (bag_values b), bag_seq := n\<rparr>, w')"
  using assms by (auto simp: bag_ok_def hm_simps)

lemma bag_ok_step: "bag_ok s \<Longrightarrow> bag_ok (bag_step s op)"
proof (cases s)
  case (Pair b w)
  assume ok: "bag_ok s"
  show ?thesis
  proof (cases op)
    case (BSet k v wr)
    show ?thesis
      by (cases rule: bag_set_cases [of b w k v wr])
        (use ok Pair BSet bag_ok_insert in auto)
  next
    case (BReplicated k p wr)
    show ?thesis
    proof (cases rule: set_replicated_cases [of b k p wr])
      case kept
      then show ?thesis using ok Pair BReplicated by simp
    next
      case (changed n v)
      have "fits 16 v" using changed(3) ok Pair by (auto simp: bag_ok_def bag_get_def)
      then show ?thesis using changed ok Pair BReplicated bag_ok_insert by auto
    qed
  next
    case (BDelete k wr)
    show ?thesis
      by (cases rule: bag_delete_cases [of b w k wr])
        (use ok Pair BDelete in \<open>auto simp: bag_ok_def hm_simps split: if_splits\<close>)
  next
    case (BSubscribe f h)
    then show ?thesis using ok Pair by (auto simp: bag_ok_def on_change_def Let_def split: sum.splits)
  qed (use ok Pair in \<open>auto simp: bag_ok_def set_owner_def remove_handler_def\<close>)
qed

interpretation bags_run: op_system "(state_bag_new i pol, w)" bag_step bag_ok for i pol w
  by unfold_locales (simp add: bag_ok_def state_bag_new_def, rule bag_ok_step)

text \<open>A snapshot lists the replicated keys once each, in order.\<close>

lemma snapshot_exact:
  assumes "bag_ok (b, w)"
  shows "sorted (map fst (snapshot_replicated b)) \<and> distinct (map fst (snapshot_replicated b)) \<and>
    (\<forall>k v. (k, v) \<in> set (snapshot_replicated b) \<longleftrightarrow> hm_get (bag_values b) k = Some (v, True))"
proof -
  let ?m = "sort_key fst (bag_values b)"
  have keys: "map fst (snapshot_replicated b) = map fst (filter (\<lambda>(_, _, r). r) ?m)"
    by (simp add: snapshot_replicated_def comp_def case_prod_beta)
  have wf: "hm_wf (bag_values b)" using assms by (simp add: bag_ok_def)
  then have "distinct (map fst ?m)"
    by (simp add: hm_wf_def distinct_map)
  then show ?thesis
    unfolding keys using hm_get_in_set [OF wf]
    by (auto simp: distinct_map_filter sorted_filter snapshot_replicated_def image_iff Bex_def)
qed

text \<open>
  A subscriber that copies every event it is given has exactly the content of the bag, as long as
  no key is created by \<open>set_replicated\<close>, which changes the bag without an event.
\<close>

definition track :: "(string \<rightharpoonup> state_value) handler" where
  "track e w = w(ev_key e := ev_new e)"

definition tracked :: "u64 \<Rightarrow> (string \<rightharpoonup> state_value) state_bag \<times> (string \<rightharpoonup> state_value) \<Rightarrow> bool" where
  "tracked i s \<longleftrightarrow> handlers (fst s) = [(i, None, track)] \<and> snd s = bag_get (fst s)"

lemma dispatch_tracked:
  "handlers b = [(i, None, track)] \<Longrightarrow> state_dispatch b e w = w(ev_key e := ev_new e)"
  by (simp add: state_dispatch_def matching_def track_def)

lemma bag_get_insert: "bag_get (b\<lparr>bag_values := hm_insert k (v, r) (bag_values b), bag_seq := n\<rparr>) = (bag_get b)(k \<mapsto> v)"
  by (auto simp: bag_get_def hm_simps)

lemma tracked_set: "tracked i (b, w) \<Longrightarrow> tracked i (fst (bag_set b w k v wr))"
  by (auto simp: bag_set_def bag_apply_def Let_def tracked_def dispatch_tracked bag_get_insert split: sum.splits)

lemma tracked_delete: "tracked i (b, w) \<Longrightarrow> tracked i (fst (bag_delete b w k wr))"
  by (auto simp: bag_delete_def Let_def tracked_def dispatch_tracked bag_get_def fun_eq_iff hm_simps split: sum.splits)

lemma created_without_event:
  assumes "bag_get b k = None" and "may_write b wr" and "key_ok k"
  shows "bag_get (fst (set_replicated b k r wr)) k = Some SNil"
proof -
  have "check_write b wr = Inr ()" "validate_key k = Inr ()"
    using assms by (simp_all add: check_write_ok validate_key_ok)
  then show ?thesis using assms(1) by (simp add: set_replicated_def bag_get_def hm_simps)
qed

section \<open>Properties\<close>

fun op_writer :: "'w bag_op \<Rightarrow> owner_id option" where
  "op_writer (BSet k v wr) = Some wr"
| "op_writer (BReplicated k r wr) = Some wr"
| "op_writer (BDelete k wr) = Some wr"
| "op_writer _ = None"

lemma values_change_writer:
  assumes "bag_values (fst (bag_step (b, w) op)) \<noteq> bag_values b"
  shows "\<exists>wr. op_writer op = Some wr \<and> may_write b wr"
proof (cases op)
  case (BSet k v wr)
  show ?thesis by (cases rule: bag_set_cases [of b w k v wr]) (use assms BSet in auto)
next
  case (BReplicated k p wr)
  show ?thesis by (cases rule: set_replicated_cases [of b k p wr]) (use assms BReplicated in auto)
next
  case (BDelete k wr)
  show ?thesis by (cases rule: bag_delete_cases [of b w k wr]) (use assms BDelete in auto)
qed (use assms in \<open>auto simp: set_owner_def on_change_def remove_handler_def Let_def split: sum.splits\<close>)

text \<open>
  C34. In every bag that a sequence of operations reaches, whatever the handlers do: all stored keys
  and values are within the documented bounds; only a write by an admitted writer (the recorded owner
  under the owner-only policy, nobody while no owner is recorded) changes the content; and a set is
  accepted exactly when the writer is admitted and key and value are within the bounds, after which
  the key reads as the value, every other key as before and the sequence is one higher, while a
  refused set changes neither the bag nor anything a handler could.
\<close>

theorem bag_writes_checked:
  assumes "(b, w) = foldl bag_step (state_bag_new i pol, w0) ops"
  shows "(\<forall>k v. bag_get b k = Some v \<longrightarrow> key_ok k \<and> fits 16 v) \<and>
    (\<forall>op. bag_values (fst (bag_step (b, w) op)) \<noteq> bag_values b \<longrightarrow>
       (\<exists>wr. op_writer op = Some wr \<and> may_write b wr)) \<and>
    (\<forall>k v wr. let ((b', w'), r) = bag_set b w k v wr in
       if may_write b wr \<and> key_ok k \<and> fits 16 v
       then r = Ok (bag_seq b + 1) \<and> bag_get b' = (bag_get b)(k \<mapsto> v) \<and> bag_seq b' = bag_seq b + 1
       else \<not> is_ok r \<and> b' = b \<and> w' = w)"
proof (intro conjI allI impI)
  have "bag_ok (b, w)" unfolding assms by (rule bags_run.inv_reach)
  then show "key_ok k" "fits 16 v" if "bag_get b k = Some v" for k v
    using that by (auto simp: bag_ok_def bag_get_def)
next
  fix op assume "bag_values (fst (bag_step (b, w) op)) \<noteq> bag_values b"
  then show "\<exists>wr. op_writer op = Some wr \<and> may_write b wr" by (rule values_change_writer)
next
  fix k v wr
  show "let ((b', w'), r) = bag_set b w k v wr in
       if may_write b wr \<and> key_ok k \<and> fits 16 v
       then r = Ok (bag_seq b + 1) \<and> bag_get b' = (bag_get b)(k \<mapsto> v) \<and> bag_seq b' = bag_seq b + 1
       else \<not> is_ok r \<and> b' = b \<and> w' = w"
    by (cases rule: bag_set_cases [of b w k v wr]) (auto simp: bag_get_insert)
qed

definition demo_bag :: "nat state_bag \<times> nat" where
  "demo_bag = foldl bag_step (state_bag_new ''player:1'' OwnerOnly, 0)
     [BSet ''hp'' (SInt 1) 7, BOwner (Some 7), BSubscribe None (\<lambda>_ n. n + 1), BSet ''hp'' (SInt 100) 7]"

theorem bag_writes_checked_witness:
  "bag_get (fst demo_bag) ''hp'' = Some (SInt 100) \<and> snd demo_bag = 1 \<and>
   fits 16 (SInt 100) \<and> \<not> is_ok (snd (bag_set (fst demo_bag) (snd demo_bag) ''hp'' SNil 8))"
proof -
  have now: "bag_get (fst demo_bag) ''hp'' = Some (SInt 100)" "snd demo_bag = 1"
    "policy (fst demo_bag) = OwnerOnly" "owner (fst demo_bag) = Some 7"
    by (code_simp, code_simp, code_simp, code_simp)
  have run: "(fst demo_bag, snd demo_bag) = foldl bag_step (state_bag_new ''player:1'' OwnerOnly, 0)
     [BSet ''hp'' (SInt 1) 7, BOwner (Some 7), BSubscribe None (\<lambda>_ n. n + 1), BSet ''hp'' (SInt 100) 7]"
    by (simp only: demo_bag_def prod.collapse)
  note checked = bag_writes_checked [OF run]
  have "fits 16 (SInt 100)" using checked [THEN conjunct1] now(1) by blast
  moreover have "\<not> is_ok (snd (bag_set (fst demo_bag) (snd demo_bag) ''hp'' SNil 8))"
    using checked [THEN conjunct2, THEN conjunct2, rule_format, of "''hp''" SNil 8] now(3,4)
    by (simp add: may_write_def case_prod_beta Let_def)
  ultimately show ?thesis using now by simp
qed

end
