(* ===== verification/Buckets.thy ===== *)
theory Buckets
  imports Ecs
begin

text \<open>
  Routing buckets (\<open>crates/ald-buckets\<close>) on the dimensions of \<open>Ecs\<close>: a bucket id is a dimension id.
  The density policies are opaque values \<open>'d\<close>; of the population manager only its table of policies
  is used. A change hook is a closure over the outer state \<open>'w\<close>. A \<open>HashSet\<close> is a list without
  repetitions.
\<close>

type_synonym bucket_id = u32

definition DEFAULT_BUCKET :: bucket_id where "DEFAULT_BUCKET = 0"

type_synonym 'w bucket_change_hook = "u32 \<Rightarrow> bucket_id \<Rightarrow> bucket_id \<Rightarrow> 'w \<Rightarrow> 'w"

datatype bucket_error = UnknownEntity

record ('d, 'w) bucket_manager =
  player_buckets :: "(u32, bucket_id) hmap"
  bucket_grants :: "(bucket_id \<times> u32) list"
  lockdown :: "bucket_id list"
  densities :: "(bucket_id, 'd) hmap"
  hooks :: "'w bucket_change_hook list"

definition bucket_manager_new :: "('d, 'w) bucket_manager" where
  "bucket_manager_new = \<lparr>player_buckets = [], bucket_grants = [], lockdown = [], densities = [], hooks = []\<rparr>"

definition player_bucket :: "('d, 'w) bucket_manager \<Rightarrow> u32 \<Rightarrow> bucket_id" where
  "player_bucket m p = hm_get_or DEFAULT_BUCKET (player_buckets m) p"

definition set_player_bucket ::
  "('d, 'w) bucket_manager \<Rightarrow> 'w \<Rightarrow> u32 \<Rightarrow> bucket_id \<Rightarrow> ('d, 'w) bucket_manager \<times> 'w" where
  "set_player_bucket m w p b =
     (let old = player_bucket m p in
      if old = b then (m, w)
      else (m\<lparr>player_buckets := hm_insert p b (player_buckets m)\<rparr>, foldl (\<lambda>w h. h p old b w) w (hooks m)))"

definition on_player_bucket_change :: "('d, 'w) bucket_manager \<Rightarrow> 'w bucket_change_hook \<Rightarrow> ('d, 'w) bucket_manager" where
  "on_player_bucket_change m h = m\<lparr>hooks := hooks m @ [h]\<rparr>"

definition set_entity_bucket ::
  "dimension_map \<Rightarrow> entity_store \<Rightarrow> entity_id \<Rightarrow> bucket_id \<Rightarrow> dimension_map \<times> (unit, bucket_error) result" where
  "set_entity_bucket dims st i b =
     (if dimension_of dims st i = None then (dims, Err UnknownEntity) else (fst (dim_set dims st i b), Ok ()))"

definition entity_bucket :: "dimension_map \<Rightarrow> entity_store \<Rightarrow> entity_id \<Rightarrow> bucket_id option" where
  "entity_bucket dims st i = dimension_of dims st i"

definition set_lockdown :: "('d, 'w) bucket_manager \<Rightarrow> bucket_id \<Rightarrow> bool \<Rightarrow> ('d, 'w) bucket_manager" where
  "set_lockdown m b locked = m\<lparr>lockdown := (if locked then List.insert b (lockdown m) else removeAll b (lockdown m))\<rparr>"

definition is_locked :: "('d, 'w) bucket_manager \<Rightarrow> bucket_id \<Rightarrow> bool" where
  "is_locked m b \<longleftrightarrow> b \<in> set (lockdown m)"

definition bucket_grant :: "('d, 'w) bucket_manager \<Rightarrow> bucket_id \<Rightarrow> u32 \<Rightarrow> ('d, 'w) bucket_manager" where
  "bucket_grant m b p = m\<lparr>bucket_grants := List.insert (b, p) (bucket_grants m)\<rparr>"

definition bucket_revoke :: "('d, 'w) bucket_manager \<Rightarrow> bucket_id \<Rightarrow> u32 \<Rightarrow> ('d, 'w) bucket_manager \<times> bool" where
  "bucket_revoke m b p = (m\<lparr>bucket_grants := removeAll (b, p) (bucket_grants m)\<rparr>, (b, p) \<in> set (bucket_grants m))"

definition can_see :: "('d, 'w) bucket_manager \<Rightarrow> u32 \<Rightarrow> bucket_id \<Rightarrow> bucket_id \<Rightarrow> bool" where
  "can_see m p pb eb =
     (if pb \<noteq> eb then False
      else if eb \<in> set (lockdown m) then (eb, p) \<in> set (bucket_grants m)
      else True)"

definition set_density :: "('d, 'w) bucket_manager \<Rightarrow> bucket_id \<Rightarrow> 'd \<Rightarrow> ('d, 'w) bucket_manager" where
  "set_density m b d = m\<lparr>densities := hm_insert b d (densities m)\<rparr>"

definition density_for :: "('d, 'w) bucket_manager \<Rightarrow> bucket_id \<Rightarrow> 'd option" where
  "density_for m b = hm_get (densities m) b"

definition sync_density :: "('d, 'w) bucket_manager \<Rightarrow> (dimension_id, 'd) hmap \<Rightarrow> (dimension_id, 'd) hmap" where
  "sync_density m policies = foldl (\<lambda>ps (b, d). hm_insert b d ps) policies (densities m)"

section \<open>Lemmas\<close>

lemma player_bucket_set:
  "player_bucket (fst (set_player_bucket m w p b)) q = (if q = p then b else player_bucket m q)"
  by (auto simp: set_player_bucket_def player_bucket_def hm_get_or_update Let_def)

text \<open>The hooks run once per real change, with the old and the new bucket.\<close>

lemma hooks_on_change_only:
  "snd (set_player_bucket m w p b) =
     (if player_bucket m p = b then w else foldl (\<lambda>w h. h p (player_bucket m p) b w) w (hooks m))"
  by (simp add: set_player_bucket_def Let_def)

lemma entity_bucket_set:
  assumes "entity_get st i \<noteq> None"
  shows "snd (set_entity_bucket dims st i b) = Inr ()"
    and "entity_bucket (fst (set_entity_bucket dims st i b)) st i = Some b"
  using assms by (auto simp: set_entity_bucket_def entity_bucket_def dimension_of_def dim_set_def hm_simps)

text \<open>
  Two entities see each other in the dimension sense exactly when a player in the bucket of the one
  may see the bucket of the other, in a bucket that is not locked.
\<close>

lemma can_see_dimensions:
  assumes "entity_bucket dims st i = Some a" and "entity_bucket dims st j = Some b" and "\<not> is_locked m b"
  shows "can_see m p a b \<longleftrightarrow> visible_to dims st i j"
  using assms by (simp add: can_see_def is_locked_def entity_bucket_def visible_to_def)

lemma lockdown_needs_grant:
  assumes "is_locked m b"
  shows "can_see m p b b \<longleftrightarrow> (b, p) \<in> set (bucket_grants m)"
    and "can_see (bucket_grant m b p) p b b" and "\<not> can_see (fst (bucket_revoke m b p)) p b b"
  using assms by (auto simp: can_see_def is_locked_def bucket_grant_def bucket_revoke_def)

lemma sync_density_exact:
  assumes "hm_wf (densities m)"
  shows "hm_get (sync_density m policies) b =
    (case density_for m b of None \<Rightarrow> hm_get policies b | Some d \<Rightarrow> Some d)"
proof -
  have "hm_get (foldl (\<lambda>ps (b, d). hm_insert b d ps) ps ds) b = (case hm_get ds b of None \<Rightarrow> hm_get ps b | Some d \<Rightarrow> Some d)"
    if "hm_wf ds" for ps and ds :: "(bucket_id, 'd) hmap"
    using that
    by (induction ds arbitrary: ps)
      (auto simp: hm_wf_def hm_simps map_of_eq_None_iff image_iff split: option.splits)
  then show ?thesis using assms by (simp add: sync_density_def density_for_def)
qed

end
