(* ===== verification/Rpc.thy ===== *)
theory Rpc
  imports Prelude
begin

text \<open>
  The request registry of \<open>crates/ald-rpc\<close>. Instants and durations are natural numbers on the
  caller's clock, which is an argument; \<open>duration_since\<close> is zero for a later instant. The JSON
  payloads are opaque values \<open>'j\<close>.
\<close>

datatype rpc_direction = ClientToServer | ServerToClient | ResourceToResource

record 'j rpc_request =
  req_id :: u64
  req_method :: string
  req_payload :: 'j
  req_direction :: rpc_direction
  req_owner :: string
  req_created :: nat

record 'j rpc_response =
  resp_id :: u64
  resp_ok :: bool
  resp_error :: "string option"
  resp_data :: "'j option"

definition rpc_success :: "u64 \<Rightarrow> 'j \<Rightarrow> 'j rpc_response" where
  "rpc_success i d = \<lparr>resp_id = i, resp_ok = True, resp_error = None, resp_data = Some d\<rparr>"

definition rpc_failure :: "u64 \<Rightarrow> string \<Rightarrow> 'j rpc_response" where
  "rpc_failure i e = \<lparr>resp_id = i, resp_ok = False, resp_error = Some e, resp_data = None\<rparr>"

record 'j rpc_registry =
  rpc_pending :: "(u64, 'j rpc_request) hmap"
  next_id :: u64
  timeouts :: "(nat \<times> u64) list"

definition rpc_registry_new :: "'j rpc_registry" where
  "rpc_registry_new = \<lparr>rpc_pending = [], next_id = 0, timeouts = []\<rparr>"

definition new_request ::
  "'j rpc_registry \<Rightarrow> string \<Rightarrow> 'j \<Rightarrow> rpc_direction \<Rightarrow> string \<Rightarrow> nat \<Rightarrow> 'j rpc_registry \<times> 'j rpc_request" where
  "new_request r m d dir own now =
     (let i = next_id r + 1 in
      (r\<lparr>next_id := i\<rparr>,
       \<lparr>req_id = i, req_method = m, req_payload = d, req_direction = dir, req_owner = own, req_created = now\<rparr>))"

definition track :: "'j rpc_registry \<Rightarrow> 'j rpc_request \<Rightarrow> nat \<Rightarrow> 'j rpc_registry" where
  "track r q timeout =
     r\<lparr>rpc_pending := hm_insert (req_id q) q (rpc_pending r), timeouts := timeouts r @ [(timeout, req_id q)]\<rparr>"

definition resolve :: "'j rpc_registry \<Rightarrow> 'j rpc_response \<Rightarrow> 'j rpc_registry \<times> 'j rpc_request option" where
  "resolve r resp =
     (r\<lparr>rpc_pending := hm_remove (resp_id resp) (rpc_pending r)\<rparr>, hm_get (rpc_pending r) (resp_id resp))"

definition timed_out :: "'j rpc_registry \<Rightarrow> nat \<Rightarrow> nat \<times> u64 \<Rightarrow> bool" where
  "timed_out r now t = (case hm_get (rpc_pending r) (snd t) of None \<Rightarrow> False | Some q \<Rightarrow> fst t \<le> now - req_created q)"

definition rpc_expire :: "'j rpc_registry \<Rightarrow> nat \<Rightarrow> 'j rpc_registry \<times> u64 list" where
  "rpc_expire r now =
     (let expired = map snd (filter (timed_out r now) (timeouts r));
          kept = filter (\<lambda>t. hm_get (rpc_pending r) (snd t) \<noteq> None \<and> \<not> timed_out r now t) (timeouts r) in
      (r\<lparr>timeouts := kept, rpc_pending := foldl (\<lambda>m i. hm_remove i m) (rpc_pending r) expired\<rparr>, expired))"

definition pending_count :: "'j rpc_registry \<Rightarrow> nat" where
  "pending_count r = length (rpc_pending r)"

section \<open>No request stays unresolved\<close>

datatype 'j rpc_op =
    Request string 'j rpc_direction string nat nat
  | Respond "'j rpc_response"
  | Sweep nat

text \<open>A caller makes a request and tracks it with a timeout.\<close>

fun rpc_step :: "'j rpc_registry \<Rightarrow> 'j rpc_op \<Rightarrow> 'j rpc_registry" where
  "rpc_step r (Request m d dir own timeout now) =
     (let (r1, q) = new_request r m d dir own now in track r1 q timeout)"
| "rpc_step r (Respond resp) = fst (resolve r resp)"
| "rpc_step r (Sweep now) = fst (rpc_expire r now)"

definition rpc_ok :: "'j rpc_registry \<Rightarrow> bool" where
  "rpc_ok r \<longleftrightarrow> (\<forall>i q. hm_get (rpc_pending r) i = Some q \<longrightarrow> req_id q = i \<and> (\<exists>t. (t, i) \<in> set (timeouts r)))"

lemma get_remove_all:
  "hm_get (foldl (\<lambda>m i. hm_remove i m) m is) k = (if k \<in> set is then None else hm_get m k)"
  by (induction "is" arbitrary: m) (auto simp: hm_simps)

lemma rpc_ok_step: "rpc_ok r \<Longrightarrow> rpc_ok (rpc_step r op)"
proof (cases op)
  case (Sweep now)
  assume "rpc_ok r"
  then show ?thesis by (force simp: Sweep rpc_ok_def rpc_expire_def get_remove_all Let_def)
qed (auto simp: rpc_ok_def resolve_def track_def new_request_def hm_simps Let_def split: if_splits)

interpretation rpc_run: op_system rpc_registry_new rpc_step rpc_ok
  by unfold_locales (simp add: rpc_ok_def rpc_registry_new_def, rule rpc_ok_step)

text \<open>
  Every pending request has a timeout on the list, and a sweep at a time when all timeouts have
  passed leaves nothing pending and reports every request that was.
\<close>

lemma sweep_resolves_all:
  assumes "r = foldl rpc_step rpc_registry_new ops"
    and "\<forall>t i q. (t, i) \<in> set (timeouts r) \<longrightarrow> hm_get (rpc_pending r) i = Some q \<longrightarrow> t \<le> now - req_created q"
  shows "hm_get (rpc_pending (fst (rpc_expire r now))) i = None"
    and "hm_get (rpc_pending r) i \<noteq> None \<Longrightarrow> i \<in> set (snd (rpc_expire r now))"
proof -
  have ok: "rpc_ok r" unfolding assms(1) by (rule rpc_run.inv_reach)
  have hit: "i \<in> snd ` {t \<in> set (timeouts r). timed_out r now t}" if p: "hm_get (rpc_pending r) i = Some q" for q
  proof -
    obtain t where "(t, i) \<in> set (timeouts r)" using ok p by (auto simp: rpc_ok_def)
    moreover have "timed_out r now (t, i)" using assms(2) p calculation by (auto simp: timed_out_def)
    ultimately show ?thesis by force
  qed
  then show "hm_get (rpc_pending (fst (rpc_expire r now))) i = None"
    by (cases "hm_get (rpc_pending r) i") (auto simp: rpc_expire_def get_remove_all Let_def)
  show "hm_get (rpc_pending r) i \<noteq> None \<Longrightarrow> i \<in> set (snd (rpc_expire r now))"
    using hit by (auto simp: rpc_expire_def Let_def)
qed

text \<open>Request ids do not repeat while the counter does not wrap.\<close>

lemma new_request_fresh:
  assumes "\<forall>i q. hm_get (rpc_pending r) i = Some q \<longrightarrow> i \<le> next_id r" and "unat (next_id r) + 1 < 2 ^ 64"
    and "new_request r m d dir own now = (r', q)"
  shows "hm_get (rpc_pending r) (req_id q) = None"
proof -
  have "next_id r < req_id q"
    using assms(2,3) unat_Suc [of "next_id r"] by (auto simp: new_request_def Let_def word_less_nat_alt)
  then show ?thesis using assms(1) by (metis not_less option.exhaust)
qed

end
