(* ===== verification/HighAvailability.thy ===== *)
theory HighAvailability
  imports Prelude
begin

text \<open>
  The fault tolerance of \<open>crates/ald-ha\<close>: circuit breaker, endpoint failover, offline grace and
  the leader coordinator. Times are the caller's clock in milliseconds.
\<close>

section \<open>Circuit breaker\<close>

datatype circuit_state = Closed | Open u64 | HalfOpen

record circuit_breaker =
  cb_state :: circuit_state
  failure_threshold :: u32
  cooldown_ms :: u64
  consecutive_failures :: u32

definition breaker_new :: "u32 \<Rightarrow> u64 \<Rightarrow> circuit_breaker" where
  "breaker_new threshold cooldown =
     \<lparr>cb_state = Closed, failure_threshold = threshold, cooldown_ms = cooldown, consecutive_failures = 0\<rparr>"

definition can_execute :: "circuit_breaker \<Rightarrow> u64 \<Rightarrow> circuit_breaker \<times> bool" where
  "can_execute c now =
     (case cb_state c of
        Closed \<Rightarrow> (c, True)
      | Open tripped_at \<Rightarrow>
          if cooldown_ms c \<le> sat_sub now tripped_at then (c\<lparr>cb_state := HalfOpen\<rparr>, True) else (c, False)
      | HalfOpen \<Rightarrow> (c, True))"

definition record_success :: "circuit_breaker \<Rightarrow> circuit_breaker" where
  "record_success c = c\<lparr>consecutive_failures := 0, cb_state := Closed\<rparr>"

definition record_failure :: "circuit_breaker \<Rightarrow> u64 \<Rightarrow> circuit_breaker" where
  "record_failure c now =
     (let c1 = c\<lparr>consecutive_failures := consecutive_failures c + 1\<rparr> in
      if failure_threshold c1 \<le> consecutive_failures c1 then c1\<lparr>cb_state := Open now\<rparr> else c1)"

section \<open>Failover\<close>

record service_endpoint =
  url :: string
  ep_priority :: u32
  healthy :: bool

type_synonym failover_pool = "service_endpoint list"

definition add_endpoint :: "failover_pool \<Rightarrow> string \<Rightarrow> u32 \<Rightarrow> failover_pool" where
  "add_endpoint es u p = sort_key ep_priority (es @ [\<lparr>url = u, ep_priority = p, healthy = True\<rparr>])"

fun mark_healthy :: "failover_pool \<Rightarrow> string \<Rightarrow> bool \<Rightarrow> failover_pool" where
  "mark_healthy [] u h = []"
| "mark_healthy (e # es) u h = (if url e = u then e\<lparr>healthy := h\<rparr> # es else e # mark_healthy es u h)"

definition get_active_endpoint :: "failover_pool \<Rightarrow> service_endpoint option" where
  "get_active_endpoint es = List.find healthy es"

section \<open>Offline grace\<close>

record offline_grace_policy =
  grace_started_at_ms :: u64
  grace_duration_ms :: u64

definition grace_new :: "u64 \<Rightarrow> u64 \<Rightarrow> offline_grace_policy" where
  "grace_new now duration = \<lparr>grace_started_at_ms = now, grace_duration_ms = duration\<rparr>"

definition is_within_grace :: "offline_grace_policy \<Rightarrow> u64 \<Rightarrow> bool" where
  "is_within_grace p now \<longleftrightarrow> sat_sub now (grace_started_at_ms p) \<le> grace_duration_ms p"

definition remaining_grace_ms :: "offline_grace_policy \<Rightarrow> u64 \<Rightarrow> u64" where
  "remaining_grace_ms p now = sat_sub (grace_duration_ms p) (sat_sub now (grace_started_at_ms p))"

section \<open>Leader election\<close>

datatype election_error = StaleEpoch u64 u64 | LeaderStillActive string

record leader_coordinator =
  current_epoch :: u64
  current_leader :: "string option"
  last_heartbeat_ms :: u64
  heartbeat_timeout_ms :: u64

definition coordinator_new :: "u64 \<Rightarrow> leader_coordinator" where
  "coordinator_new timeout =
     \<lparr>current_epoch = 0, current_leader = None, last_heartbeat_ms = 0, heartbeat_timeout_ms = timeout\<rparr>"

definition record_heartbeat ::
  "leader_coordinator \<Rightarrow> string \<Rightarrow> u64 \<Rightarrow> u64 \<Rightarrow> leader_coordinator \<times> (unit, election_error) result" where
  "record_heartbeat c leader epoch now =
     (if epoch < current_epoch c then (c, Err (StaleEpoch (current_epoch c) epoch))
      else (c\<lparr>current_epoch := epoch, current_leader := Some leader, last_heartbeat_ms := now\<rparr>, Ok ()))"

definition attempt_claim_leadership ::
  "leader_coordinator \<Rightarrow> string \<Rightarrow> u64 \<Rightarrow> leader_coordinator \<times> (u64, election_error) result" where
  "attempt_claim_leadership c candidate now =
     (let is_timed_out = heartbeat_timeout_ms c < sat_sub now (last_heartbeat_ms c);
          claim = (c\<lparr>current_epoch := current_epoch c + 1, current_leader := Some candidate,
                    last_heartbeat_ms := now\<rparr>, Ok (current_epoch c + 1)) in
      case current_leader c of
        Some leader \<Rightarrow> if \<not> is_timed_out then (c, Err (LeaderStillActive leader)) else claim
      | None \<Rightarrow> claim)"

section \<open>Breaker and pool lemmas\<close>

datatype breaker_op = Ask u64 | Success | Failure u64

fun breaker_step :: "circuit_breaker \<Rightarrow> breaker_op \<Rightarrow> circuit_breaker" where
  "breaker_step c (Ask now) = fst (can_execute c now)"
| "breaker_step c Success = record_success c"
| "breaker_step c (Failure now) = record_failure c now"

text \<open>The failures since the last success.\<close>

definition failures_since :: "nat \<Rightarrow> breaker_op list \<Rightarrow> nat" where
  "failures_since n ops = foldl (\<lambda>n op. case op of Ask _ \<Rightarrow> n | Success \<Rightarrow> 0 | Failure _ \<Rightarrow> n + 1) n ops"

lemma breaker_run:
  assumes "n + length ops < 2 ^ 32" and "unat (consecutive_failures c) = n"
    and "cb_state c = Closed \<longleftrightarrow> n = 0 \<or> n < unat (failure_threshold c)"
  shows "let c' = foldl breaker_step c ops; n' = failures_since n ops in
    unat (consecutive_failures c') = n' \<and> failure_threshold c' = failure_threshold c \<and>
    (cb_state c' = Closed \<longleftrightarrow> n' = 0 \<or> n' < unat (failure_threshold c))"
  using assms
proof (induction ops arbitrary: c n)
  case (Cons op ops)
  let ?c = "breaker_step c op" and ?n = "failures_since n [op]"
  have "unat (consecutive_failures ?c) = ?n \<and> failure_threshold ?c = failure_threshold c \<and>
      (cb_state ?c = Closed \<longleftrightarrow> ?n = 0 \<or> ?n < unat (failure_threshold c)) \<and> ?n \<le> n + 1"
    using Cons.prems unat_Suc [of "consecutive_failures c"]
    by (cases op) (auto simp: can_execute_def record_success_def record_failure_def failures_since_def
      word_le_nat_alt Let_def split: circuit_state.splits)
  then show ?case using Cons.IH [of ?n ?c] Cons.prems by (simp add: failures_since_def)
qed (simp add: failures_since_def)

text \<open>A breaker is closed exactly while the failures in a row are below its threshold.\<close>

lemma breaker_closed_iff:
  assumes "length ops < 2 ^ 32"
  shows "cb_state (foldl breaker_step (breaker_new threshold cooldown) ops) = Closed \<longleftrightarrow>
    failures_since 0 ops = 0 \<or> failures_since 0 ops < unat threshold"
  using breaker_run [of 0 ops "breaker_new threshold cooldown"] assms by (simp add: breaker_new_def Let_def)

lemma open_until_cooldown:
  assumes "cb_state c = Open t"
  shows "snd (can_execute c now) \<longleftrightarrow> unat (cooldown_ms c) \<le> unat now - unat t"
  using assms by (simp add: can_execute_def word_le_nat_alt)

definition pool_ok :: "failover_pool \<Rightarrow> bool" where
  "pool_ok es \<longleftrightarrow> sorted (map ep_priority es)"

lemma pool_ok_add: "pool_ok (add_endpoint es u p)"
  by (simp add: pool_ok_def add_endpoint_def)

lemma mark_priorities: "map ep_priority (mark_healthy es u h) = map ep_priority es"
  by (induction es) auto

lemma pool_ok_mark: "pool_ok es \<Longrightarrow> pool_ok (mark_healthy es u h)"
  by (simp add: pool_ok_def mark_priorities)

text \<open>The active endpoint is a healthy one of the best priority, and there is one if any is healthy.\<close>

lemma active_endpoint_best:
  assumes "pool_ok es"
  shows "case get_active_endpoint es of
      None \<Rightarrow> \<forall>e \<in> set es. \<not> healthy e
    | Some a \<Rightarrow> a \<in> set es \<and> healthy a \<and> (\<forall>e \<in> set es. healthy e \<longrightarrow> ep_priority a \<le> ep_priority e)"
  using assms by (induction es) (auto simp: pool_ok_def get_active_endpoint_def split: option.splits)

lemma grace_exact:
  "is_within_grace p now \<longleftrightarrow> unat now \<le> unat (grace_started_at_ms p) + unat (grace_duration_ms p)"
  "remaining_grace_ms p now = 0 \<or> is_within_grace p now"
  by (auto simp: is_within_grace_def remaining_grace_ms_def word_le_nat_alt unat_eq_0 [symmetric])

section \<open>Properties\<close>

datatype leader_op = Heartbeat string u64 u64 | Claim string u64

fun leader_step :: "leader_coordinator \<Rightarrow> leader_op \<Rightarrow> leader_coordinator" where
  "leader_step c (Heartbeat n e now) = fst (record_heartbeat c n e now)"
| "leader_step c (Claim n now) = fst (attempt_claim_leadership c n now)"

text \<open>The epochs that the successful claims of a run return, in order.\<close>

fun claimed :: "leader_coordinator \<Rightarrow> leader_op list \<Rightarrow> u64 list" where
  "claimed c [] = []"
| "claimed c (Heartbeat n e now # ops) = claimed (leader_step c (Heartbeat n e now)) ops"
| "claimed c (Claim n now # ops) =
     (case snd (attempt_claim_leadership c n now) of Inl _ \<Rightarrow> [] | Inr e \<Rightarrow> [e])
       @ claimed (leader_step c (Claim n now)) ops"

fun heartbeats_below :: "nat \<Rightarrow> leader_op \<Rightarrow> bool" where
  "heartbeats_below bound (Heartbeat n e now) \<longleftrightarrow> unat e \<le> bound"
| "heartbeats_below bound (Claim n now) \<longleftrightarrow> True"

lemma claim_cases:
  obtains (refused) l where "attempt_claim_leadership c n now = (c, Inl (LeaderStillActive l))"
      "current_leader c = Some l" "unat now - unat (last_heartbeat_ms c) \<le> unat (heartbeat_timeout_ms c)"
  | (elected) "attempt_claim_leadership c n now = (c\<lparr>current_epoch := current_epoch c + 1,
        current_leader := Some n, last_heartbeat_ms := now\<rparr>, Inr (current_epoch c + 1))"
      "current_leader c = None \<or> unat (heartbeat_timeout_ms c) < unat now - unat (last_heartbeat_ms c)"
  by (cases "current_leader c"; cases "heartbeat_timeout_ms c < sat_sub now (last_heartbeat_ms c)")
    (auto simp: attempt_claim_leadership_def word_less_nat_alt)

lemma heartbeats_below_mono: "heartbeats_below n op \<Longrightarrow> n \<le> m \<Longrightarrow> heartbeats_below m op"
  by (cases op) auto

lemma claimed_increase:
  assumes "unat (current_epoch c) \<le> bound" and "\<forall>op \<in> set ops. heartbeats_below bound op"
    and "bound + length ops < 2 ^ 64"
  shows "sorted_wrt (<) (claimed c ops) \<and> (\<forall>e \<in> set (claimed c ops). current_epoch c < e)"
  using assms
proof (induction ops arbitrary: c bound)
  case (Cons op ops)
  let ?c = "leader_step c op"
  have mono: "\<forall>op \<in> set ops. heartbeats_below (Suc bound) op"
    using Cons.prems(2) heartbeats_below_mono by force
  note IH = Cons.IH [of ?c "Suc bound", OF _ mono]
  show ?case
  proof (cases op)
    case (Heartbeat n e now)
    then have "current_epoch c \<le> current_epoch ?c" "unat (current_epoch ?c) \<le> bound"
      using Cons.prems by (auto simp: record_heartbeat_def)
    then show ?thesis using IH Cons.prems Heartbeat by fastforce
  next
    case (Claim n now)
    have next_epoch: "unat (current_epoch c + 1) = unat (current_epoch c) + 1"
      using Cons.prems by (intro unat_Suc) simp
    show ?thesis
    proof (cases rule: claim_cases [of c n now])
      case refused
      then show ?thesis using IH Cons.prems Claim by simp
    next
      case elected
      moreover have "current_epoch c < current_epoch c + 1" by (simp add: word_less_nat_alt next_epoch)
      ultimately show ?thesis using IH Cons.prems Claim next_epoch by fastforce
    qed
  qed
qed simp

text \<open>
  In every run of heartbeats and claims that does not exhaust the 64-bit epochs, the epochs of
  successive elections strictly increase, so that no two leaders are elected for the same epoch. A
  claim succeeds exactly when there is no leader or it has been silent for longer than the timeout.
  The fencing does not extend to heartbeats: any node that sends one with the current epoch becomes
  the leader at once.
\<close>

lemma leader_epochs:
  assumes "\<forall>op \<in> set ops. heartbeats_below bound op" and "bound + length ops < 2 ^ 64"
    and "c = foldl leader_step (coordinator_new timeout) ops"
  shows "sorted_wrt (<) (claimed (coordinator_new timeout) ops) \<and>
    (\<forall>n now. is_ok (snd (attempt_claim_leadership c n now)) \<longleftrightarrow>
       current_leader c = None \<or> unat (heartbeat_timeout_ms c) < unat now - unat (last_heartbeat_ms c)) \<and>
    (\<forall>n now. is_ok (snd (record_heartbeat c n (current_epoch c) now)) \<and>
       current_leader (fst (record_heartbeat c n (current_epoch c) now)) = Some n)"
proof (intro conjI allI)
  show "sorted_wrt (<) (claimed (coordinator_new timeout) ops)"
    using claimed_increase [of "coordinator_new timeout" bound ops] assms(1,2) by (simp add: coordinator_new_def)
  fix n now
  show "is_ok (snd (attempt_claim_leadership c n now)) \<longleftrightarrow>
       current_leader c = None \<or> unat (heartbeat_timeout_ms c) < unat now - unat (last_heartbeat_ms c)"
    by (cases rule: claim_cases [of c n now]) auto
qed (simp_all add: record_heartbeat_def)

end
