(* ===== verification/Sharding.thy ===== *)
theory Sharding
  imports Prelude
begin

text \<open>
  The shard coordinator of \<open>crates/ald-sharding\<close>: regions, two-phase handoffs of players with
  their entities, and ownership leases with epochs. An \<open>f32\<close> is its 32 bits; the comparison is that
  of IEEE 754, where nothing compares with a NaN and the two zeros are equal.
\<close>

section \<open>Regions\<close>

type_synonym shard_id = u32

type_synonym f32 = u32

definition f32_is_nan :: "f32 \<Rightarrow> bool" where
  "f32_is_nan x \<longleftrightarrow> 0x7F800000 < x AND 0x7FFFFFFF"

definition f32_key :: "f32 \<Rightarrow> int" where
  "f32_key x = (if 0x80000000 \<le> x then - int (unat (x AND 0x7FFFFFFF)) else int (unat x))"

definition f32_le :: "f32 \<Rightarrow> f32 \<Rightarrow> bool" where
  "f32_le x y \<longleftrightarrow> \<not> f32_is_nan x \<and> \<not> f32_is_nan y \<and> f32_key x \<le> f32_key y"

record shard_region =
  region_shard :: shard_id
  min_x :: f32
  max_x :: f32
  min_y :: f32
  max_y :: f32

definition region_contains :: "shard_region \<Rightarrow> f32 \<Rightarrow> f32 \<Rightarrow> bool" where
  "region_contains r x y \<longleftrightarrow> f32_le (min_x r) x \<and> f32_le x (max_x r) \<and> f32_le (min_y r) y \<and> f32_le y (max_y r)"

section \<open>Handoffs and leases\<close>

datatype handoff_phase = Initiated | Prepared | Committed | Aborted string

record handoff_ticket =
  ticket_id :: string
  ticket_player :: u32
  from_shard :: shard_id
  to_shard :: shard_id
  entities :: "u32 list"
  phase :: handoff_phase

record ownership_lease =
  lease_entity :: u32
  owner_shard :: shard_id
  epoch :: u64
  expires_at_ms :: u64

datatype sharding_error =
    ShardNotFound shard_id
  | TicketNotFound string
  | InvalidTransition handoff_phase handoff_phase
  | LeaseConflict u32 shard_id

record shard_coordinator =
  regions :: "shard_region list"
  tickets :: "(string, handoff_ticket) hmap"
  leases :: "(u32, ownership_lease) hmap"
  current_epoch :: u64

definition shard_coordinator_new :: shard_coordinator where
  "shard_coordinator_new = \<lparr>regions = [], tickets = [], leases = [], current_epoch = 1\<rparr>"

definition register_shard :: "shard_coordinator \<Rightarrow> shard_region \<Rightarrow> shard_coordinator" where
  "register_shard s r = s\<lparr>regions := regions s @ [r]\<rparr>"

definition locate_shard :: "shard_coordinator \<Rightarrow> f32 \<Rightarrow> f32 \<Rightarrow> shard_id option" where
  "locate_shard s x y = map_option region_shard (List.find (\<lambda>r. region_contains r x y) (regions s))"

definition known_shard :: "shard_coordinator \<Rightarrow> shard_id \<Rightarrow> bool" where
  "known_shard s i = list_ex (\<lambda>r. region_shard r = i) (regions s)"

definition initiate_handoff ::
  "shard_coordinator \<Rightarrow> string \<Rightarrow> u32 \<Rightarrow> shard_id \<Rightarrow> shard_id \<Rightarrow> u32 list \<Rightarrow>
     shard_coordinator \<times> (handoff_ticket, sharding_error) result" where
  "initiate_handoff s tid player source target es =
     (if \<not> known_shard s source then (s, Err (ShardNotFound source))
      else if \<not> known_shard s target then (s, Err (ShardNotFound target))
      else
        let ticket = \<lparr>ticket_id = tid, ticket_player = player, from_shard = source, to_shard = target,
                      entities = es, phase = Initiated\<rparr> in
        (s\<lparr>tickets := hm_insert tid ticket (tickets s)\<rparr>, Ok ticket))"

text \<open>The lease of another shard that is still running at \<open>now\<close>, if there is one.\<close>

definition lease_conflict :: "shard_coordinator \<Rightarrow> shard_id \<Rightarrow> u64 \<Rightarrow> u32 \<Rightarrow> shard_id option" where
  "lease_conflict s shard now ent =
     (case hm_get (leases s) ent of
        None \<Rightarrow> None
      | Some l \<Rightarrow> if owner_shard l \<noteq> shard \<and> now < expires_at_ms l then Some (owner_shard l) else None)"

fun first_conflict :: "shard_coordinator \<Rightarrow> shard_id \<Rightarrow> u64 \<Rightarrow> u32 list \<Rightarrow> (u32 \<times> shard_id) option" where
  "first_conflict s shard now [] = None"
| "first_conflict s shard now (ent # es) =
     (case lease_conflict s shard now ent of
        Some holder \<Rightarrow> Some (ent, holder)
      | None \<Rightarrow> first_conflict s shard now es)"

definition prepare_handoff ::
  "shard_coordinator \<Rightarrow> string \<Rightarrow> u64 \<Rightarrow> shard_coordinator \<times> (unit, sharding_error) result" where
  "prepare_handoff s tid now =
     (case hm_get (tickets s) tid of
        None \<Rightarrow> (s, Err (TicketNotFound tid))
      | Some t \<Rightarrow>
          if phase t \<noteq> Initiated then (s, Err (InvalidTransition (phase t) Prepared))
          else case first_conflict s (from_shard t) now (entities t) of
            Some (ent, holder) \<Rightarrow> (s, Err (LeaseConflict ent holder))
          | None \<Rightarrow> (s\<lparr>tickets := hm_insert tid (t\<lparr>phase := Prepared\<rparr>) (tickets s)\<rparr>, Ok ()))"

definition commit_handoff ::
  "shard_coordinator \<Rightarrow> string \<Rightarrow> u64 \<Rightarrow> u64 \<Rightarrow> shard_coordinator \<times> (unit, sharding_error) result" where
  "commit_handoff s tid ttl now =
     (case hm_get (tickets s) tid of
        None \<Rightarrow> (s, Err (TicketNotFound tid))
      | Some t \<Rightarrow>
          if phase t \<noteq> Prepared then (s, Err (InvalidTransition (phase t) Committed))
          else
            let ep = current_epoch s + 1;
                ls = foldl (\<lambda>ls ent. hm_insert ent
                       \<lparr>lease_entity = ent, owner_shard = to_shard t, epoch = ep, expires_at_ms = now + ttl\<rparr> ls)
                       (leases s) (entities t) in
            (s\<lparr>current_epoch := ep, leases := ls,
               tickets := hm_insert tid (t\<lparr>phase := Committed\<rparr>) (tickets s)\<rparr>, Ok ()))"

definition abort_handoff ::
  "shard_coordinator \<Rightarrow> string \<Rightarrow> string \<Rightarrow> shard_coordinator \<times> (unit, sharding_error) result" where
  "abort_handoff s tid why =
     (case hm_get (tickets s) tid of
        None \<Rightarrow> (s, Err (TicketNotFound tid))
      | Some t \<Rightarrow> (s\<lparr>tickets := hm_insert tid (t\<lparr>phase := Aborted why\<rparr>) (tickets s)\<rparr>, Ok ()))"

definition acquire_lease ::
  "shard_coordinator \<Rightarrow> u32 \<Rightarrow> shard_id \<Rightarrow> u64 \<Rightarrow> u64 \<Rightarrow> shard_coordinator \<times> (ownership_lease, sharding_error) result" where
  "acquire_lease s ent shard ttl now =
     (case lease_conflict s shard now ent of
        Some holder \<Rightarrow> (s, Err (LeaseConflict ent holder))
      | None \<Rightarrow>
          let ep = current_epoch s + 1;
              l = \<lparr>lease_entity = ent, owner_shard = shard, epoch = ep, expires_at_ms = now + ttl\<rparr> in
          (s\<lparr>current_epoch := ep, leases := hm_insert ent l (leases s)\<rparr>, Ok l))"

definition get_lease :: "shard_coordinator \<Rightarrow> u32 \<Rightarrow> ownership_lease option" where
  "get_lease s ent = hm_get (leases s) ent"

definition reclaim_expired_leases :: "shard_coordinator \<Rightarrow> u64 \<Rightarrow> shard_coordinator \<times> nat" where
  "reclaim_expired_leases s now =
     (let kept = filter (\<lambda>(_, l). now < expires_at_ms l) (leases s) in
      (s\<lparr>leases := kept\<rparr>, length (leases s) - length kept))"

section \<open>Runs\<close>

datatype shard_op =
    Register shard_region
  | Initiate string u32 shard_id shard_id "u32 list"
  | Prepare string u64
  | Commit string u64 u64
  | Abort string string
  | Acquire u32 shard_id u64 u64
  | Reclaim u64

fun shard_step :: "shard_coordinator \<Rightarrow> shard_op \<Rightarrow> shard_coordinator" where
  "shard_step s (Register r) = register_shard s r"
| "shard_step s (Initiate t p a b es) = fst (initiate_handoff s t p a b es)"
| "shard_step s (Prepare t now) = fst (prepare_handoff s t now)"
| "shard_step s (Commit t ttl now) = fst (commit_handoff s t ttl now)"
| "shard_step s (Abort t why) = fst (abort_handoff s t why)"
| "shard_step s (Acquire e sh ttl now) = fst (acquire_lease s e sh ttl now)"
| "shard_step s (Reclaim now) = fst (reclaim_expired_leases s now)"

text \<open>
  After at most \<open>n\<close> epochs no lease is ahead of the coordinator, and every lease is filed under its
  entity.
\<close>

definition leases_ok :: "nat \<Rightarrow> shard_coordinator \<Rightarrow> bool" where
  "leases_ok n s \<longleftrightarrow> hm_wf (leases s) \<and> unat (current_epoch s) \<le> n \<and>
     (\<forall>e l. get_lease s e = Some l \<longrightarrow> lease_entity l = e \<and> epoch l \<le> current_epoch s)"

lemma get_granted:
  "hm_get (foldl (\<lambda>ls ent. hm_insert ent (f ent) ls) ls es) e = (if e \<in> set es then Some (f e) else hm_get ls e)"
  by (induction es arbitrary: ls) (auto simp: hm_simps)

lemma wf_granted: "hm_wf ls \<Longrightarrow> hm_wf (foldl (\<lambda>ls ent. hm_insert ent (f ent) ls) ls es)"
  by (induction es arbitrary: ls) auto

text \<open>What a step does to the lease of one entity.\<close>

lemma lease_step_cases:
  assumes "hm_wf (leases s)"
  obtains (kept) "get_lease (shard_step s op) e = get_lease s e" "current_epoch s = current_epoch (shard_step s op)"
  | (other) "get_lease (shard_step s op) e = get_lease s e" "current_epoch (shard_step s op) = current_epoch s + 1"
  | (dropped) "get_lease (shard_step s op) e = None" "current_epoch (shard_step s op) = current_epoch s"
  | (acquired) sh ttl now where "op = Acquire e sh ttl now" "lease_conflict s sh now e = None"
      "current_epoch (shard_step s op) = current_epoch s + 1"
      "get_lease (shard_step s op) e =
         Some \<lparr>lease_entity = e, owner_shard = sh, epoch = current_epoch s + 1, expires_at_ms = now + ttl\<rparr>"
  | (committed) t tk ttl now where "op = Commit t ttl now" "hm_get (tickets s) t = Some tk" "phase tk = Prepared"
      "e \<in> set (entities tk)" "current_epoch (shard_step s op) = current_epoch s + 1"
      "get_lease (shard_step s op) e =
         Some \<lparr>lease_entity = e, owner_shard = to_shard tk, epoch = current_epoch s + 1, expires_at_ms = now + ttl\<rparr>"
proof (cases op)
  case (Commit t ttl now)
  note steps = Commit commit_handoff_def get_lease_def get_granted Let_def
  show thesis
  proof (cases "hm_get (tickets s) t")
    case None
    then show thesis by (intro kept) (simp_all add: steps)
  next
    case (Some tk)
    consider "phase tk \<noteq> Prepared" | "phase tk = Prepared" "e \<notin> set (entities tk)"
      | "phase tk = Prepared" "e \<in> set (entities tk)" by blast
    then show thesis
    proof cases
      case 1
      then show thesis using Some by (intro kept) (simp_all add: steps)
    next
      case 2
      then show thesis using Some by (intro other) (simp_all add: steps)
    next
      case 3
      then show thesis using Some by (intro committed [OF Commit Some]) (simp_all add: steps)
    qed
  qed
next
  case (Acquire e' sh ttl now)
  note steps = Acquire acquire_lease_def get_lease_def hm_simps Let_def
  consider x where "lease_conflict s sh now e' = Some x" | "lease_conflict s sh now e' = None" "e' \<noteq> e"
    | "lease_conflict s sh now e' = None" "e' = e" by fastforce
  then show thesis
  proof cases
    case 1
    then show thesis by (intro kept) (simp_all add: steps)
  next
    case 2
    then show thesis by (intro other) (simp_all add: steps)
  next
    case 3
    then show thesis by (intro acquired [of sh ttl now]) (simp_all add: steps)
  qed
next
  case (Reclaim now)
  note steps = Reclaim reclaim_expired_leases_def get_lease_def hm_get_filter [OF assms] Let_def
  show thesis
  proof (cases "\<exists>l. hm_get (leases s) e = Some l \<and> \<not> now < expires_at_ms l")
    case True
    then show thesis by (intro dropped) (auto simp: steps)
  next
    case False
    then show thesis by (intro kept) (auto simp: steps split: option.splits)
  qed
qed (auto intro!: kept simp: register_shard_def initiate_handoff_def prepare_handoff_def abort_handoff_def
  get_lease_def Let_def split: option.splits)

lemma wf_step: "hm_wf (leases s) \<Longrightarrow> hm_wf (leases (shard_step s op))"
  by (cases op) (auto simp: register_shard_def initiate_handoff_def prepare_handoff_def abort_handoff_def
    commit_handoff_def acquire_lease_def reclaim_expired_leases_def Let_def wf_granted split: option.splits)

lemma leases_ok_step:
  assumes "leases_ok n s" and "Suc n < 2 ^ 64"
  shows "leases_ok (Suc n) (shard_step s op)"
proof -
  have wf: "hm_wf (leases s)" and n: "unat (current_epoch s) \<le> n"
    and old: "\<And>e l. get_lease s e = Some l \<Longrightarrow> lease_entity l = e \<and> epoch l \<le> current_epoch s"
    using assms(1) by (auto simp: leases_ok_def)
  have suc: "unat (current_epoch s + 1) = unat (current_epoch s) + 1" using n assms(2) by (intro unat_Suc) simp
  then have up: "current_epoch s \<le> current_epoch s + 1" by (simp add: word_le_nat_alt)
  have "unat (current_epoch (shard_step s op)) \<le> Suc n"
    using suc n by (cases rule: lease_step_cases [OF wf, of op 0]) auto
  moreover have "lease_entity l = e \<and> epoch l \<le> current_epoch (shard_step s op)"
    if "get_lease (shard_step s op) e = Some l" for e l
    using that old up
    by (cases rule: lease_step_cases [OF wf, of op e]) (auto intro: order_trans)
  ultimately show ?thesis using wf_step [OF wf] by (auto simp: leases_ok_def)
qed

lemma leases_ok_run:
  assumes "leases_ok n s" and "n + length ops < 2 ^ 64"
  shows "leases_ok (n + length ops) (foldl shard_step s ops)"
  using assms
proof (induction ops arbitrary: n s)
  case (Cons op ops)
  then show ?case using Cons.IH [OF leases_ok_step [of n s op]] by simp
qed simp

lemma leases_ok_new: "leases_ok 1 shard_coordinator_new"
  by (simp add: leases_ok_def shard_coordinator_new_def get_lease_def)

lemma no_conflict_expired:
  assumes "lease_conflict s sh now e = None" and "get_lease s e = Some l" and "owner_shard l \<noteq> sh"
  shows "expires_at_ms l \<le> now"
  using assms by (auto simp: lease_conflict_def get_lease_def not_less split: if_splits)

text \<open>A handoff cannot be committed twice, nor prepared after it was aborted.\<close>

lemma phase_order:
  assumes "hm_get (tickets s) t = Some tk"
  shows "is_ok (snd (commit_handoff s t ttl now)) \<longleftrightarrow> phase tk = Prepared"
    and "is_ok (snd (prepare_handoff s t now)) \<Longrightarrow> phase tk = Initiated"
  using assms by (auto simp: commit_handoff_def prepare_handoff_def Let_def split: option.splits if_splits)

definition one_region :: "shard_id \<Rightarrow> shard_region" where
  "one_region i = \<lparr>region_shard = i, min_x = 0, max_x = 0, min_y = 0, max_y = 0\<rparr>"

definition demo_shards :: shard_coordinator where
  "demo_shards = foldl shard_step shard_coordinator_new
     [Register (one_region 1), Register (one_region 2), Initiate ''t'' 7 1 2 [40], Prepare ''t'' 50,
      Acquire 40 3 1000 60]"

text \<open>A third shard loses a lease that it acquired after the preparation and that still runs.\<close>

lemma live_lease_lost:
  "map_option (\<lambda>l. (owner_shard l, 61 < expires_at_ms l)) (get_lease demo_shards 40) = Some (3, True)"
  "map_option owner_shard (get_lease (shard_step demo_shards (Commit ''t'' 1000 61)) 40) = Some 2"
  by (code_simp, code_simp)

section \<open>Properties\<close>

text \<open>
  C8. In every run that does not exhaust the 64-bit epochs, a lease whose owner changes is replaced by
  one with a higher epoch than any lease the coordinator holds. The change is either an acquisition by
  the new owner after the old lease expired, or the commit of a prepared handoff to the new owner
  whose ticket names the entity. The commit does not look at the lease again: it
  gives the entity to the target shard whoever holds it by then, for however long.
\<close>

theorem lease_fencing:
  assumes "length ops < 2 ^ 64 - 2" and "s = foldl shard_step shard_coordinator_new ops"
    and "get_lease s e = Some l" and "get_lease (shard_step s op) e = Some l'"
    and "owner_shard l' \<noteq> owner_shard l"
  shows "(\<forall>e2 l2. get_lease s e2 = Some l2 \<longrightarrow> epoch l2 < epoch l') \<and>
    ((\<exists>ttl now. op = Acquire e (owner_shard l') ttl now \<and> expires_at_ms l \<le> now) \<or>
     (\<exists>t tk ttl now. op = Commit t ttl now \<and> hm_get (tickets s) t = Some tk \<and> phase tk = Prepared \<and>
        e \<in> set (entities tk) \<and> to_shard tk = owner_shard l')) \<and>
    (\<forall>t tk ttl now. hm_get (tickets s) t = Some tk \<longrightarrow> phase tk = Prepared \<longrightarrow> e \<in> set (entities tk) \<longrightarrow>
       map_option owner_shard (get_lease (shard_step s (Commit t ttl now)) e) = Some (to_shard tk))"
proof -
  have ok: "leases_ok (1 + length ops) s"
    unfolding assms(2) using assms(1) by (intro leases_ok_run leases_ok_new) simp
  then have wf: "hm_wf (leases s)" by (simp add: leases_ok_def)
  have bound: "unat (current_epoch s) + 1 < 2 ^ 64" using ok assms(1) by (simp add: leases_ok_def)
  have above: "epoch l2 < current_epoch s + 1" if "get_lease s e2 = Some l2" for e2 l2
  proof -
    have "epoch l2 \<le> current_epoch s" using ok that by (auto simp: leases_ok_def)
    then show ?thesis using unat_Suc [of "current_epoch s"] bound by (simp add: word_less_nat_alt word_le_nat_alt)
  qed
  have take_over: "map_option owner_shard (get_lease (shard_step s (Commit t ttl now)) e) = Some (to_shard tk)"
    if "hm_get (tickets s) t = Some tk" "phase tk = Prepared" "e \<in> set (entities tk)" for t tk ttl now
    using that by (simp add: commit_handoff_def get_lease_def get_granted Let_def)
  from wf show ?thesis
  proof (cases rule: lease_step_cases [of s op e])
    case (acquired sh ttl now)
    then show ?thesis using assms(3-5) above take_over no_conflict_expired [OF acquired(2) assms(3)] by auto
  next
    case (committed t tk ttl now)
    then show ?thesis using assms(3-5) above take_over by auto
  qed (use assms(3-5) in simp_all)
qed

theorem lease_fencing_witness:
  "let s = foldl shard_step shard_coordinator_new [Acquire 40 1 100 0]; op = Acquire 40 2 100 200 in
   map_option owner_shard (get_lease s 40) = Some 1 \<and>
   map_option owner_shard (get_lease (shard_step s op) 40) = Some 2 \<and>
   (\<forall>l l'. get_lease s 40 = Some l \<longrightarrow> get_lease (shard_step s op) 40 = Some l' \<longrightarrow> epoch l < epoch l')"
proof -
  let ?s = "foldl shard_step shard_coordinator_new [Acquire 40 1 100 0]" and ?op = "Acquire 40 2 100 200"
  have o: "map_option owner_shard (get_lease ?s 40) = Some 1"
    "map_option owner_shard (get_lease (shard_step ?s ?op) 40) = Some 2"
    by (code_simp, code_simp)
  have "epoch l < epoch l'" if "get_lease ?s 40 = Some l" "get_lease (shard_step ?s ?op) 40 = Some l'" for l l'
  proof -
    have "owner_shard l' \<noteq> owner_shard l" using o that by simp
    then show ?thesis using lease_fencing [OF _ refl that] that(1) by simp
  qed
  then show ?thesis using o by (simp only: Let_def) blast
qed

end
