(* ===== verification/CfgParse.thy ===== *)
theory CfgParse
  imports RustStrings
begin

text \<open>
  The server.cfg language of \<open>crates/ald-servercfg\<close>: syntax tree and rendering (\<open>ast.rs\<close>), errors
  (\<open>error.rs\<close>), tokenizer and parser (\<open>parse.rs\<close>) and include resolution (\<open>include_resolver.rs\<close>).
  The process environment and the file system of the resolver are functions that are passed in. The
  tokenizer cuts UTF-8 text at ASCII bytes only, so its \<open>from_utf8_lossy\<close> changes nothing.
\<close>

section \<open>Syntax tree\<close>

datatype cfg_value = Bare string | Quoted string

record directive =
  verb :: string
  args :: "cfg_value list"
  raw_arg_count :: nat

datatype line_kind = Comment string | Blank | Directive directive

record cfg_line =
  line_no :: u32
  indent :: string
  kind :: line_kind

record document =
  source :: string
  lines :: "cfg_line list"

fun as_str :: "cfg_value \<Rightarrow> string" where
  "as_str (Bare s) = s"
| "as_str (Quoted s) = s"

definition escape :: "string \<Rightarrow> string" where
  "escape s = replace_char (CHR 0x22) [CHR 0x5C, CHR 0x22] (replace_char (CHR 0x5C) [CHR 0x5C, CHR 0x5C] s)"

fun value_render :: "cfg_value \<Rightarrow> string" where
  "value_render (Bare s) = s"
| "value_render (Quoted s) = CHR 0x22 # escape s @ [CHR 0x22]"

definition value_parse_i64 :: "cfg_value \<Rightarrow> int option" where
  "value_parse_i64 v = parse_i64 (trim (as_str v))"

definition value_parse_bool :: "cfg_value \<Rightarrow> bool option" where
  "value_parse_bool v =
     (let s = to_ascii_lowercase (trim (as_str v)) in
      if s \<in> {''true'', ''1'', ''yes'', ''on''} then Some True
      else if s \<in> {''false'', ''0'', ''no'', ''off''} then Some False
      else None)"

definition first_arg :: "directive \<Rightarrow> string option" where
  "first_arg d = (case args d of [] \<Rightarrow> None | v # _ \<Rightarrow> Some (as_str v))"

definition kv :: "directive \<Rightarrow> (string \<times> string) option" where
  "kv d = (case args d of k # v # _ \<Rightarrow> Some (as_str k, as_str v) | _ \<Rightarrow> None)"

definition directive_render :: "directive \<Rightarrow> string" where
  "directive_render d = foldl (\<lambda>out a. out @ [CHR 0x20] @ value_render a) (verb d) (args d)"

definition document_new :: "string \<Rightarrow> document" where
  "document_new src = \<lparr>source = src, lines = []\<rparr>"

definition doc_push :: "document \<Rightarrow> cfg_line \<Rightarrow> document" where
  "doc_push d l = d\<lparr>lines := lines d @ [l]\<rparr>"

definition directives :: "document \<Rightarrow> (u32 \<times> directive) list" where
  "directives d = List.map_filter (\<lambda>l. case kind l of Directive x \<Rightarrow> Some (line_no l, x) | _ \<Rightarrow> None) (lines d)"

definition line_render :: "cfg_line \<Rightarrow> string" where
  "line_render l = indent l @
     (case kind l of Comment c \<Rightarrow> c | Blank \<Rightarrow> [] | Directive d \<Rightarrow> directive_render d) @ [CHR 0x0A]"

definition document_render :: "document \<Rightarrow> string" where
  "document_render d = concat (map line_render (lines d))"

section \<open>Errors\<close>

datatype cfg_error =
    UnterminatedString u32 u32
  | WrongArgCount u32 string nat nat
  | UnknownDirective u32 string string
  | InvalidValue u32 string
  | DirectiveForbiddenInInclude u32 string
  | UnknownEnvVar u32 string
  | IncludeOutsideRoot u32 string
  | IncludeTraversal u32 string
  | IncludeMissing u32 string
  | IncludeDepthLimit u32 string nat
  | IncludeCycle u32 string string
  | EmptySecret u32
  | SecretProviderError string string

definition KNOWN_DIRECTIVES :: "string list" where
  "KNOWN_DIRECTIVES =
     [''set'', ''setr'', ''sets'', ''set_secret'', ''exec'', ''ensure'', ''start'', ''stop'', ''restart'',
      ''sv_hostname'', ''sv_projectName'', ''sv_projectDesc'', ''sv_maxclients'', ''sv_endpoint'',
      ''endpoint_add_tcp'', ''endpoint_add_udp'', ''sv_tags'', ''sv_locale'', ''sv_icon'', ''sv_gameBuild'',
      ''sv_public'', ''sv_listing'', ''sv_licenseKey'', ''ald_projectId'', ''ald_serverId'',
      ''ald_licenseKey'', ''license_mode'', ''add_ace'', ''remove_ace'', ''add_principal'', ''remove_principal'']"

definition is_known :: "string \<Rightarrow> bool" where
  "is_known v \<longleftrightarrow> v \<in> set KNOWN_DIRECTIVES"

definition is_root_only :: "string \<Rightarrow> bool" where
  "is_root_only v \<longleftrightarrow> v \<in> {''exec''}"

section \<open>Tokenizer and parser\<close>

datatype env_expansion = Disabled | Enabled

record parse_options =
  env :: env_expansion
  strict_verbs :: bool

definition parse_options_default :: parse_options where
  "parse_options_default = \<lparr>env = Enabled, strict_verbs = False\<rparr>"

datatype token = TBare string | TQuoted string

definition skip_ws :: "string \<Rightarrow> string" where
  "skip_ws s = dropWhile is_ascii_whitespace s"

definition VERB_QUOTED :: string where
  "VERB_QUOTED = ''directive verb must be an unquoted token''"

text \<open>The tokenizer is its remaining input; \<open>n\<close> is the length of the whole body, for columns.\<close>

definition next_bare :: "u32 \<Rightarrow> string \<Rightarrow> ((string \<times> string) option, cfg_error) result" where
  "next_bare line s =
     (let r = skip_ws s in
      if r = [] then Ok None
      else
        let tok = takeWhile (\<lambda>c. \<not> (is_ascii_whitespace c \<or> c = CHR 0x22)) r in
        if tok = [] then Err (InvalidValue line VERB_QUOTED)
        else Ok (Some (tok, drop (length tok) r)))"

definition unescape_char :: "char \<Rightarrow> string" where
  "unescape_char c =
     (if c = CHR 0x22 then [CHR 0x22]
      else if c = CHR 0x5C then [CHR 0x5C]
      else if c = CHR ''n'' then [CHR 0x0A]
      else if c = CHR ''t'' then [CHR 0x09]
      else if c = CHR ''r'' then [CHR 0x0D]
      else push_byte_as_char c)"

text \<open>What follows the opening quote: the value and the rest after the closing quote.\<close>

fun read_quoted :: "string \<Rightarrow> (string \<times> string) option" where
  "read_quoted [] = None"
| "read_quoted (c # cs) =
     (if c = CHR 0x22 then Some ([], cs)
      else if c = CHR 0x5C then
        (case cs of
           [] \<Rightarrow> None
         | e # es \<Rightarrow> map_option (\<lambda>(out, rest). (unescape_char e @ out, rest)) (read_quoted es))
      else map_option (\<lambda>(out, rest). (push_byte_as_char c @ out, rest)) (read_quoted cs))"

definition next_token :: "u32 \<Rightarrow> nat \<Rightarrow> string \<Rightarrow> ((token \<times> string) option, cfg_error) result" where
  "next_token line n s =
     (case skip_ws s of
        [] \<Rightarrow> Ok None
      | c # cs \<Rightarrow>
          if c = CHR 0x22 then
            (case read_quoted cs of
               None \<Rightarrow> Err (UnterminatedString line (of_nat (n - length (c # cs)) + 1))
             | Some (out, rest) \<Rightarrow> Ok (Some (TQuoted out, rest)))
          else
            let tok = takeWhile (\<lambda>c. \<not> is_ascii_whitespace c) (c # cs) in
            Ok (Some (TBare tok, drop (length tok) (c # cs))))"

lemma read_quoted_shorter: "read_quoted s = Some (out, rest) \<Longrightarrow> length rest < length s"
  by (induction s arbitrary: out rule: read_quoted.induct)
    (fastforce split: if_splits list.splits intro: less_SucI)+

lemma skip_ws_length: "length (skip_ws s) \<le> length s"
  by (simp add: skip_ws_def length_dropWhile_le)

lemma skip_ws_head: "skip_ws s = c # cs \<Longrightarrow> \<not> is_ascii_whitespace c"
  by (metis skip_ws_def dropWhile_eq_Cons_conv)

lemma next_token_shorter: "next_token line n s = Inr (Some (t, rest)) \<Longrightarrow> length rest < length s"
proof -
  assume tok: "next_token line n s = Inr (Some (t, rest))"
  then obtain c cs where s: "skip_ws s = c # cs" by (cases "skip_ws s") (auto simp: next_token_def)
  have "length rest < length (c # cs)"
    using tok s skip_ws_head [OF s] read_quoted_shorter [of cs]
    by (auto simp: next_token_def Let_def less_SucI split: if_splits option.splits)
  then show ?thesis using skip_ws_length [of s] s by simp
qed

text \<open>\<open>std::env::var\<close> is the function \<open>vars\<close>.\<close>

function expand_loop :: "(string \<Rightarrow> string option) \<Rightarrow> u32 \<Rightarrow> string \<Rightarrow> (string, cfg_error) result" where
  "expand_loop vars line s =
     (case s of
        [] \<Rightarrow> Ok []
      | c # cs \<Rightarrow>
          (case (if c = CHR ''$'' then (case cs of [] \<Rightarrow> None | b # bs \<Rightarrow> if b = CHR 0x7B then split_once (CHR 0x7D) bs else None)
                 else None) of
             Some (name, rest) \<Rightarrow>
               (case vars name of
                  None \<Rightarrow> Err (UnknownEnvVar line name)
                | Some v \<Rightarrow> (case expand_loop vars line rest of Inl e \<Rightarrow> Err e | Inr out \<Rightarrow> Ok (v @ out)))
           | None \<Rightarrow>
               (case expand_loop vars line cs of Inl e \<Rightarrow> Err e | Inr out \<Rightarrow> Ok (push_byte_as_char c @ out))))"
  by pat_completeness auto
termination
  by (relation "measure (\<lambda>(vars, line, s). length s)")
    (auto dest!: split_once_Some split: if_splits list.splits)

declare expand_loop.simps [simp del]

definition expand_env ::
  "(string \<Rightarrow> string option) \<Rightarrow> parse_options \<Rightarrow> u32 \<Rightarrow> string \<Rightarrow> (string, cfg_error) result" where
  "expand_env vars opts line s =
     (if env opts = Disabled \<or> \<not> contains_str s ''${'' then Ok s else expand_loop vars line s)"

fun token_value :: "token \<Rightarrow> (string \<Rightarrow> (string, cfg_error) result) \<Rightarrow> (cfg_value, cfg_error) result" where
  "token_value (TBare s) f = (case f s of Inl e \<Rightarrow> Err e | Inr x \<Rightarrow> Ok (Bare x))"
| "token_value (TQuoted s) f = (case f s of Inl e \<Rightarrow> Err e | Inr x \<Rightarrow> Ok (Quoted x))"

function parse_args ::
  "(string \<Rightarrow> string option) \<Rightarrow> parse_options \<Rightarrow> u32 \<Rightarrow> nat \<Rightarrow> string \<Rightarrow> (cfg_value list, cfg_error) result" where
  "parse_args vars opts line n s =
     (case next_token line n s of
        Inl e \<Rightarrow> Err e
      | Inr None \<Rightarrow> Ok []
      | Inr (Some (tok, rest)) \<Rightarrow>
          (case token_value tok (expand_env vars opts line) of
             Inl e \<Rightarrow> Err e
           | Inr v \<Rightarrow> (case parse_args vars opts line n rest of Inl e \<Rightarrow> Err e | Inr vs \<Rightarrow> Ok (v # vs))))"
  by pat_completeness auto
termination
  by (relation "measure (\<lambda>(vars, opts, line, n, s). length s)") (auto dest: next_token_shorter)

declare parse_args.simps [simp del]

definition parse_line ::
  "(string \<Rightarrow> string option) \<Rightarrow> parse_options \<Rightarrow> u32 \<Rightarrow> string \<Rightarrow> (cfg_line, cfg_error) result" where
  "parse_line vars opts line raw =
     (let trimmed = trim_start raw;
          ind = take (length raw - length trimmed) raw;
          body = trim_end_char (CHR 0x0D) trimmed in
      if body = [] then Ok \<lparr>line_no = line, indent = ind, kind = Blank\<rparr>
      else if starts_with body ''#'' \<or> starts_with body ''//''
        then Ok \<lparr>line_no = line, indent = ind, kind = Comment body\<rparr>
      else case next_bare line body of
        Inl e \<Rightarrow> Err e
      | Inr None \<Rightarrow> Ok \<lparr>line_no = line, indent = ind, kind = Blank\<rparr>
      | Inr (Some (v, rest)) \<Rightarrow>
          if strict_verbs opts \<and> \<not> is_known v
          then Err (UnknownDirective line v (join_with '', '' KNOWN_DIRECTIVES))
          else case parse_args vars opts line (length body) rest of
            Inl e \<Rightarrow> Err e
          | Inr vs \<Rightarrow>
              Ok \<lparr>line_no = line, indent = ind,
                  kind = Directive \<lparr>verb = v, args = vs, raw_arg_count = length vs\<rparr>\<rparr>)"

fun parse_lines ::
  "(string \<Rightarrow> string option) \<Rightarrow> parse_options \<Rightarrow> u32 \<Rightarrow> string list \<Rightarrow> (cfg_line list, cfg_error) result" where
  "parse_lines vars opts line [] = Ok []"
| "parse_lines vars opts line (raw # raws) =
     (case parse_line vars opts line raw of
        Inl e \<Rightarrow> Err e
      | Inr l \<Rightarrow> (case parse_lines vars opts (line + 1) raws of Inl e \<Rightarrow> Err e | Inr ls \<Rightarrow> Ok (l # ls)))"

text \<open>
  A text ending in a newline has an empty last piece, which is dropped. \<open>split\<close> gives at least one
  piece, so the branch of the code for no pieces is never taken.
\<close>

definition source_lines :: "string \<Rightarrow> string list" where
  "source_lines text =
     (let segs = split_on (\<lambda>c. c = CHR 0x0A) text in
      if 1 < length segs \<and> last segs = [] then butlast segs else segs)"

definition parse_document ::
  "(string \<Rightarrow> string option) \<Rightarrow> string \<Rightarrow> string \<Rightarrow> parse_options \<Rightarrow> (document, cfg_error) result" where
  "parse_document vars src text opts =
     (case parse_lines vars opts 1 (source_lines text) of
        Inl e \<Rightarrow> Err e
      | Inr ls \<Rightarrow> Ok \<lparr>source = src, lines = ls\<rparr>)"

section \<open>Includes\<close>

definition MAX_INCLUDE_DEPTH :: nat where "MAX_INCLUDE_DEPTH = 16"

definition normalize_owned :: "string \<Rightarrow> string" where
  "normalize_owned p = replace_char (CHR 0x5C) ''/'' (trim_start_matches ''./'' p)"

text \<open>
  \<open>fs\<close> is the \<open>read\<close> of the resolver's file system. The lines that the code pushes to \<open>out\<close> are
  returned; \<open>chain\<close> is pushed before and popped after a file, so it is passed down.
\<close>

function expand ::
    "(string \<Rightarrow> string option) \<Rightarrow> (string \<Rightarrow> string option) \<Rightarrow> parse_options \<Rightarrow>
     cfg_line list \<Rightarrow> u32 \<Rightarrow> string list \<Rightarrow> nat \<Rightarrow> u32 \<Rightarrow> (cfg_line list, cfg_error) result"
  and expand_include ::
    "(string \<Rightarrow> string option) \<Rightarrow> (string \<Rightarrow> string option) \<Rightarrow> parse_options \<Rightarrow>
     string \<Rightarrow> string list \<Rightarrow> nat \<Rightarrow> u32 \<Rightarrow> (cfg_line list, cfg_error) result" where
  "expand fs vars opts [] i chain depth parent = Ok []"
| "expand fs vars opts (l # ls) i chain depth parent =
     (case (case kind l of
              Directive d \<Rightarrow>
                if verb d = ''exec'' then
                  (case first_arg d of
                     None \<Rightarrow> Err (WrongArgCount (max parent i) ''exec'' 1 0)
                   | Some target \<Rightarrow> expand_include fs vars opts target chain depth i)
                else Ok [l]
            | _ \<Rightarrow> Ok [l]) of
        Inl e \<Rightarrow> Err e
      | Inr now \<Rightarrow>
          (case expand fs vars opts ls (i + 1) chain depth parent of Inl e \<Rightarrow> Err e | Inr rest \<Rightarrow> Ok (now @ rest)))"
| "expand_include fs vars opts target chain depth at =
     (if target = [] then Err (InvalidValue at ''empty exec path'')
      else if starts_with target ''/'' \<or> starts_with target [CHR 0x5C] then Err (IncludeOutsideRoot at target)
      else if list_ex (\<lambda>c. c = ''..'') (split_on (\<lambda>c. c = CHR ''/'' \<or> c = CHR 0x5C) target)
        then Err (IncludeTraversal at target)
      else if \<not> depth < MAX_INCLUDE_DEPTH then Err (IncludeDepthLimit at target MAX_INCLUDE_DEPTH)
      else
        let norm = normalize_owned target in
        if norm \<in> set chain then Err (IncludeCycle at target (join_with '' -> '' chain))
        else case fs norm of
          None \<Rightarrow> Err (IncludeMissing at norm)
        | Some text \<Rightarrow>
            (case parse_document vars norm text opts of
               Inl e \<Rightarrow> Err e
             | Inr child \<Rightarrow> expand fs vars opts (lines child) 1 (chain @ [norm]) (depth + 1) at))"
  by pat_completeness auto
termination
  by (relation "measures [case_sum (\<lambda>(_, _, _, _, _, _, depth, _). 17 - depth) (\<lambda>(_, _, _, _, _, depth, _). 17 - depth),
      case_sum (\<lambda>(_, _, _, ls, _). length ls) (\<lambda>_. 0)]")
    (auto simp: MAX_INCLUDE_DEPTH_def)

declare expand.simps(2) [simp del] expand_include.simps [simp del]

definition include_resolve ::
  "(string \<Rightarrow> string option) \<Rightarrow> (string \<Rightarrow> string option) \<Rightarrow> parse_options \<Rightarrow> string \<Rightarrow> (document, cfg_error) result" where
  "include_resolve fs vars opts root =
     (case fs root of
        None \<Rightarrow> Err (IncludeMissing 0 root)
      | Some text \<Rightarrow>
          (case parse_document vars root text opts of
             Inl e \<Rightarrow> Err e
           | Inr doc \<Rightarrow>
               (case expand fs vars opts (lines doc) 1 [normalize_owned root] 1 0 of
                  Inl e \<Rightarrow> Err e
                | Inr out \<Rightarrow> Ok \<lparr>source = root, lines = out\<rparr>)))"

end
