(* ===== verification/CfgLemmas.thy ===== *)
theory CfgLemmas
  imports CfgParse
begin

text \<open>
  What the server.cfg parser and the include resolver guarantee: a parsed document survives being
  rendered and parsed again, and includes neither loop nor leave the configuration directory through
  a parent step.
\<close>

section \<open>Leading whitespace\<close>

text \<open>
  No encoding of a whitespace character is a prefix of another one; the encodings start with an
  ASCII whitespace byte or a byte above, and only bytes above follow.
\<close>

lemma ws_prefix_free: "list_all (\<lambda>v. list_all (\<lambda>w. take (length v) w = v \<longrightarrow> v = w) ws_seqs) ws_seqs"
  by code_simp

lemma ws_bytes:
  "list_all (\<lambda>w. w \<noteq> [] \<and> (is_ascii_whitespace (hd w) \<or> hd w = CHR 0x0B \<or> 128 \<le> byte_of (hd w)) \<and>
     list_all (\<lambda>c. 128 \<le> byte_of c) (tl w)) ws_seqs"
  by code_simp

lemma strip_one_ws:
  assumes "w \<in> set ws_seqs"
  shows "strip_one ws_seqs (w @ x) = Some x"
proof -
  have "w \<noteq> []" using assms ws_bytes by (auto simp: list_all_iff)
  then have "strip_one ws_seqs (w @ x) \<noteq> None" using assms by (auto simp: strip_one_None)
  then obtain t v where v: "strip_one ws_seqs (w @ x) = Some t" "v \<in> set ws_seqs" "w @ x = v @ t"
    using strip_one_SomeD by blast
  then have "take (length v) w = v \<or> take (length w) v = w"
    by (metis append_eq_append_conv_if)
  then have "v = w" using v(2) assms ws_prefix_free unfolding list_all_iff by metis
  then show ?thesis using v by simp
qed

lemma strip_all_ws: "set ws \<subseteq> set ws_seqs \<Longrightarrow> strip_all ws_seqs (concat ws @ x) = strip_all ws_seqs x"
proof (induction ws)
  case (Cons w ws)
  then show ?case using strip_one_ws [of w "concat ws @ x"] by (subst strip_all.simps) simp
qed simp

lemma strip_all_split: "\<exists>ws. set ws \<subseteq> set ws_seqs \<and> s = concat ws @ strip_all ws_seqs s"
proof (induction "length s" arbitrary: s rule: less_induct)
  case less
  show ?case
  proof (cases "strip_one ws_seqs s")
    case None
    then show ?thesis by (intro exI [of _ "[]"]) (subst strip_all.simps, simp)
  next
    case (Some t)
    obtain ws where "set ws \<subseteq> set ws_seqs" "t = concat ws @ strip_all ws_seqs t"
      using less strip_one_shorter [OF Some] by blast
    moreover obtain w where "w \<in> set ws_seqs" "s = w @ t" using strip_one_SomeD [OF Some] by blast
    moreover have "strip_all ws_seqs s = strip_all ws_seqs t" using Some by (subst strip_all.simps) simp
    ultimately show ?thesis by (intro exI [of _ "w # ws"]) auto
  qed
qed

lemma strip_all_done: "strip_one ws_seqs (strip_all ws_seqs s) = None"
proof (induction "length s" arbitrary: s rule: less_induct)
  case less
  then show ?case
    using strip_one_shorter [of ws_seqs s]
    by (cases "strip_one ws_seqs s") (subst strip_all.simps, simp)+
qed

lemma strip_all_id: "strip_one ws_seqs s = None \<Longrightarrow> strip_all ws_seqs s = s"
  by (subst strip_all.simps) simp

text \<open>
  A string starts with whitespace or not whatever follows its first ASCII byte that is none.
\<close>

lemma not_ws_append:
  assumes "strip_one ws_seqs (v @ x) = None" and "v \<noteq> []" and "y = [] \<or> byte_of (hd y) < 128"
  shows "strip_one ws_seqs (v @ y) = None"
proof (rule ccontr)
  assume "strip_one ws_seqs (v @ y) \<noteq> None"
  then obtain t w where w: "w \<in> set ws_seqs" "w \<noteq> []" "v @ y = w @ t" using strip_one_SomeD by blast
  from w(3) obtain us where "v = w @ us \<or> w = v @ us \<and> us \<noteq> [] \<and> y = us @ t"
    by (metis append_eq_append_conv2 append_Nil2 append_Nil)
  then show False
  proof
    assume "v = w @ us"
    then have "take (length w) (v @ x) = w" by simp
    then show False using assms(1) w(1,2) by (auto simp: strip_one_None)
  next
    assume us: "w = v @ us \<and> us \<noteq> [] \<and> y = us @ t"
    then have "hd y \<in> set (tl w)" "y \<noteq> []" using assms(2) by (cases v; cases us; simp)+
    then show False using ws_bytes w(1) assms(3) by (force simp: list_all_iff)
  qed
qed

lemma not_ws_ascii:
  assumes "byte_of c < 128" and "\<not> is_ascii_whitespace c" and "c \<noteq> CHR 0x0B"
  shows "strip_one ws_seqs (c # s) = None"
proof (rule ccontr)
  assume "strip_one ws_seqs (c # s) \<noteq> None"
  then obtain t w where "w \<in> set ws_seqs" "w \<noteq> []" "c # s = w @ t" using strip_one_SomeD by blast
  then have "hd w = c" "w \<in> set ws_seqs" by (auto simp: Cons_eq_append_conv)
  then show False using ws_bytes assms by (force simp: list_all_iff)
qed

section \<open>Tokens\<close>

lemma escape_chars:
  "escape s = concat (map (\<lambda>c. if c = CHR 0x22 then [CHR 0x5C, CHR 0x22]
     else if c = CHR 0x5C then [CHR 0x5C, CHR 0x5C] else [c]) s)"
  by (induction s) (auto simp: escape_def replace_char_def)

lemma read_escape: "is_ascii s \<Longrightarrow> read_quoted (escape s @ CHR 0x22 # rest) = Some (s, rest)"
  by (induction s) (auto simp: escape_chars is_ascii_def unescape_char_def)

fun value_ok :: "cfg_value \<Rightarrow> bool" where
  "value_ok (Bare s) \<longleftrightarrow> s \<noteq> [] \<and> (\<forall>c \<in> set s. \<not> is_ascii_whitespace c) \<and> hd s \<noteq> CHR 0x22"
| "value_ok (Quoted s) \<longleftrightarrow> is_ascii s \<and> CHR 0x0A \<notin> set s"

fun token_of :: "cfg_value \<Rightarrow> token" where
  "token_of (Bare s) = TBare s"
| "token_of (Quoted s) = TQuoted s"

definition word_break :: "string \<Rightarrow> bool" where
  "word_break r \<longleftrightarrow> r = [] \<or> (\<exists>c cs. r = c # cs \<and> is_ascii_whitespace c)"

lemma takeWhile_word:
  "\<forall>c \<in> set s. P c \<Longrightarrow> r = [] \<or> \<not> P (hd r) \<Longrightarrow> takeWhile P (s @ r) = s"
  by (induction s) (cases r, auto)

lemma next_token_render:
  assumes "value_ok v" and "word_break rest"
  shows "next_token line n (CHR 0x20 # value_render v @ rest) = Inr (Some (token_of v, rest))"
proof (cases v)
  case (Bare s)
  then obtain c cs where s: "s = c # cs" "\<not> is_ascii_whitespace c" "c \<noteq> CHR 0x22"
    using assms(1) by (cases s) auto
  have skip: "skip_ws (CHR 0x20 # s @ rest) = c # cs @ rest"
    using s by (simp add: skip_ws_def is_ascii_whitespace_def)
  have "takeWhile (\<lambda>c. \<not> is_ascii_whitespace c) (s @ rest) = s"
    using assms Bare by (intro takeWhile_word) (auto simp: word_break_def)
  then have "takeWhile (\<lambda>c. \<not> is_ascii_whitespace c) (c # cs @ rest) = c # cs" using s(1) by simp
  then show ?thesis using Bare skip s by (simp add: next_token_def Let_def)
next
  case (Quoted s)
  have "skip_ws (CHR 0x20 # value_render v @ rest) = CHR 0x22 # escape s @ CHR 0x22 # rest"
    using Quoted by (simp add: skip_ws_def is_ascii_whitespace_def)
  then show ?thesis using Quoted assms(1) by (simp add: next_token_def read_escape)
qed

definition render_args :: "cfg_value list \<Rightarrow> string" where
  "render_args vs = concat (map (\<lambda>v. CHR 0x20 # value_render v) vs)"

lemma directive_render_args: "directive_render d = verb d @ render_args (args d)"
proof -
  have "foldl (\<lambda>out a. out @ [CHR 0x20] @ value_render a) x vs = x @ render_args vs" for x vs
    by (induction vs arbitrary: x) (simp_all add: render_args_def)
  then show ?thesis by (simp add: directive_render_def)
qed

lemma break_render_args: "word_break (render_args vs)"
  by (cases vs) (auto simp: word_break_def render_args_def is_ascii_whitespace_def)

lemma parse_args_render:
  assumes "\<forall>v \<in> set vs. value_ok v" and "env opts = Disabled"
  shows "parse_args vars opts line n (render_args vs) = Inr vs"
  using assms(1)
proof (induction vs)
  case Nil
  show ?case by (subst parse_args.simps) (simp add: render_args_def next_token_def skip_ws_def)
next
  case (Cons v vs)
  have "next_token line n (render_args (v # vs)) = Inr (Some (token_of v, render_args vs))"
    using next_token_render [of v "render_args vs" line n] Cons.prems break_render_args
    by (simp add: render_args_def)
  moreover have "token_value (token_of v) (expand_env vars opts line) = Inr v"
    using assms(2) by (cases v) (simp_all add: expand_env_def)
  ultimately show ?case using Cons by (subst parse_args.simps) simp
qed

definition verb_ok :: "string \<Rightarrow> bool" where
  "verb_ok v \<longleftrightarrow> v \<noteq> [] \<and> (\<forall>c \<in> set v. \<not> is_ascii_whitespace c \<and> c \<noteq> CHR 0x22)"

lemma next_bare_render:
  assumes "verb_ok v" and "word_break rest"
  shows "next_bare line (v @ rest) = Inr (Some (v, rest))"
proof -
  have "skip_ws (v @ rest) = v @ rest"
    using assms(1) by (cases v) (auto simp: verb_ok_def skip_ws_def)
  moreover have "takeWhile (\<lambda>c. \<not> (is_ascii_whitespace c \<or> c = CHR 0x22)) (v @ rest) = v"
  proof (rule takeWhile_word)
    show "\<forall>c \<in> set v. \<not> (is_ascii_whitespace c \<or> c = CHR 0x22)" using assms(1) by (simp add: verb_ok_def)
    show "rest = [] \<or> \<not> \<not> (is_ascii_whitespace (hd rest) \<or> hd rest = CHR 0x22)"
      using assms(2) by (cases rest) (simp_all add: word_break_def)
  qed
  ultimately show ?thesis using assms(1) by (auto simp: next_bare_def verb_ok_def Let_def)
qed

section \<open>What the parser returns\<close>

lemma next_bare_ok:
  assumes "next_bare line s = Inr (Some (v, rest))" and "\<not> is_ascii_whitespace (hd s)"
  shows "verb_ok v \<and> s = v @ rest"
proof -
  let ?P = "\<lambda>c. \<not> (is_ascii_whitespace c \<or> c = CHR 0x22)"
  have s: "skip_ws s = s" using assms(2) by (cases s) (auto simp: skip_ws_def)
  have v: "v = takeWhile ?P s" "v \<noteq> []" "rest = drop (length v) s"
    using assms(1) s by (auto simp: next_bare_def Let_def split: if_splits)
  have "\<forall>c \<in> set v. ?P c" unfolding v(1) using set_takeWhileD [of _ ?P s] by blast
  moreover have "s = v @ rest"
    using takeWhile_dropWhile_id [of ?P s] unfolding dropWhile_eq_drop v(1) [symmetric] v(3) [symmetric] by simp
  ultimately show ?thesis using v(2) by (auto simp: verb_ok_def)
qed

lemma next_token_bare:
  assumes "next_token line n s = Inr (Some (TBare t, rest))"
  shows "value_ok (Bare t)"
proof -
  obtain c cs where s: "skip_ws s = c # cs" using assms by (cases "skip_ws s") (auto simp: next_token_def)
  then have "\<not> is_ascii_whitespace c" by (rule skip_ws_head)
  moreover have "c \<noteq> CHR 0x22" and t: "t = takeWhile (\<lambda>c. \<not> is_ascii_whitespace c) (c # cs)"
    using assms s by (auto simp: next_token_def Let_def split: if_splits option.splits)
  ultimately show ?thesis unfolding t by (auto dest: set_takeWhileD)
qed

definition args_stable :: "cfg_value list \<Rightarrow> bool" where
  "args_stable vs \<longleftrightarrow> (\<forall>s. Quoted s \<in> set vs \<longrightarrow> is_ascii s \<and> CHR 0x0A \<notin> set s)"

lemma parse_args_ok:
  assumes "parse_args vars opts line n s = Inr vs" and "env opts = Disabled" and "args_stable vs"
  shows "\<forall>v \<in> set vs. value_ok v"
  using assms
proof (induction vars opts line n s arbitrary: vs rule: parse_args.induct)
  case (1 vars opts line n s)
  show ?case
  proof (cases "next_token line n s")
    case (Inl e)
    then show ?thesis using "1.prems"(1) by (simp add: parse_args.simps [of vars opts line n s])
  next
    case (Inr r)
    show ?thesis
    proof (cases r)
      case None
      then show ?thesis using "1.prems"(1) Inr by (simp add: parse_args.simps [of vars opts line n s])
    next
      case (Some p)
      obtain tok rest where p: "p = (tok, rest)" by (cases p)
      obtain v us where vs: "vs = v # us" "token_value tok (expand_env vars opts line) = Inr v"
          "parse_args vars opts line n rest = Inr us"
        using "1.prems"(1) Inr Some p
        by (auto simp: parse_args.simps [of vars opts line n s] split: sum.splits)
      have v: "token_of v = tok"
        using vs(2) "1.prems"(2) by (cases tok) (auto simp: expand_env_def)
      have "value_ok v"
        using "1.prems"(3) next_token_bare [of line n s _ rest] Inr Some p v vs(1)
        by (cases v) (auto simp: args_stable_def)
      moreover have "args_stable us" using "1.prems"(3) vs(1) by (auto simp: args_stable_def)
      ultimately show ?thesis
        using "1.IH" [OF Inr Some p [symmetric] vs(2) vs(3) "1.prems"(2)] vs(1) by simp
    qed
  qed
qed

section \<open>Lines\<close>

lemma indent_split:
  "\<exists>ws. set ws \<subseteq> set ws_seqs \<and> take (length raw - length (trim_start raw)) raw = concat ws \<and>
     raw = concat ws @ trim_start raw"
proof -
  obtain ws where ws: "set ws \<subseteq> set ws_seqs" "raw = concat ws @ trim_start raw"
    using strip_all_split [of raw] unfolding trim_start_def by blast
  then have "length raw - length (trim_start raw) = length (concat ws)"
    by (metis add_diff_cancel_right' length_append)
  then have "take (length raw - length (trim_start raw)) raw = concat ws"
    by (metis append_eq_conv_conj ws(2))
  with ws show ?thesis by blast
qed

lemma trim_end_prefix: "\<exists>r. s = trim_end_char c s @ r \<and> (\<forall>x \<in> set r. x = c)"
proof (intro exI conjI)
  let ?r = "rev (takeWhile (\<lambda>x. x = c) (rev s))"
  show "s = trim_end_char c s @ ?r"
    unfolding trim_end_char_def rev_append [symmetric] takeWhile_dropWhile_id by simp
  show "\<forall>x \<in> set ?r. x = c" by (auto dest: set_takeWhileD)
qed

lemma trim_end_id: "s \<noteq> [] \<Longrightarrow> last s \<noteq> c \<Longrightarrow> trim_end_char c s = s"
  by (cases "rev s") (auto simp: trim_end_char_def)

lemma trim_end_last: "trim_end_char c s \<noteq> [] \<Longrightarrow> last (trim_end_char c s) \<noteq> c"
  using hd_dropWhile [of "\<lambda>x. x = c" "rev s"] by (simp add: trim_end_char_def last_rev)

fun kind_text :: "line_kind \<Rightarrow> string" where
  "kind_text (Comment c) = c"
| "kind_text Blank = []"
| "kind_text (Directive d) = directive_render d"

definition directive_ok :: "parse_options \<Rightarrow> directive \<Rightarrow> bool" where
  "directive_ok opts d \<longleftrightarrow> verb_ok (verb d) \<and> strip_one ws_seqs (verb d) = None \<and>
     \<not> starts_with (verb d) ''#'' \<and> \<not> starts_with (verb d) ''//'' \<and>
     \<not> (strict_verbs opts \<and> \<not> is_known (verb d)) \<and>
     (\<forall>v \<in> set (args d). value_ok v) \<and> raw_arg_count d = length (args d)"

fun kind_ok :: "parse_options \<Rightarrow> line_kind \<Rightarrow> bool" where
  "kind_ok opts (Comment c) \<longleftrightarrow> (starts_with c ''#'' \<or> starts_with c ''//'') \<and> last c \<noteq> CHR 0x0D \<and> CHR 0x0A \<notin> set c"
| "kind_ok opts Blank \<longleftrightarrow> True"
| "kind_ok opts (Directive d) \<longleftrightarrow> directive_ok opts d"

lemma word_break_ascii: "word_break r \<Longrightarrow> r = [] \<or> byte_of (hd r) < 128"
  by (auto simp: word_break_def is_ascii_whitespace_def)

lemma directive_not_ws:
  assumes "directive_ok opts d"
  shows "strip_one ws_seqs (directive_render d) = None"
  using not_ws_append [of "verb d" "[]" "render_args (args d)"] assms word_break_ascii [OF break_render_args]
  by (simp add: directive_render_args directive_ok_def verb_ok_def)

lemma comment_not_ws:
  assumes "starts_with c ''#'' \<or> starts_with c ''//''"
  shows "strip_one ws_seqs c = None \<and> c \<noteq> []"
proof -
  obtain x xs where c: "c = x # xs" "x = CHR ''#'' \<or> x = CHR ''/''"
    using assms by (cases c) (auto simp: starts_with_def)
  then show ?thesis using not_ws_ascii [of x xs] by (auto simp: is_ascii_whitespace_def)
qed

lemma value_render_last: "value_ok v \<Longrightarrow> value_render v \<noteq> [] \<and> \<not> is_ascii_whitespace (last (value_render v))"
  by (cases v) (auto simp: is_ascii_whitespace_def)

lemma directive_render_last:
  assumes "directive_ok opts d"
  shows "directive_render d \<noteq> [] \<and> last (directive_render d) \<noteq> CHR 0x0D"
proof (cases "args d" rule: rev_cases)
  case Nil
  then have "directive_render d = verb d" by (simp add: directive_render_args render_args_def)
  then show ?thesis using assms by (auto simp: directive_ok_def verb_ok_def is_ascii_whitespace_def dest: last_in_set)
next
  case (snoc vs v)
  then have "directive_render d = verb d @ render_args vs @ CHR 0x20 # value_render v"
    by (simp add: directive_render_args render_args_def)
  moreover have "value_ok v" using assms snoc by (simp add: directive_ok_def)
  ultimately show ?thesis using value_render_last [of v] by (auto simp: is_ascii_whitespace_def)
qed

lemma starts_with_verb:
  assumes "v \<noteq> []" and "word_break r" and "p = ''#'' \<or> p = ''//''" and "\<not> starts_with v p"
  shows "\<not> starts_with (v @ r) p"
proof -
  obtain a as where v: "v = a # as" using assms(1) by (cases v) auto
  show ?thesis
    using assms(2-4) unfolding v
    by (cases as; cases r) (auto simp: starts_with_def word_break_def is_ascii_whitespace_def)
qed

lemma kind_text_ok:
  assumes "kind_ok opts k" and "k \<noteq> Blank"
  shows "strip_one ws_seqs (kind_text k) = None \<and> kind_text k \<noteq> [] \<and> last (kind_text k) \<noteq> CHR 0x0D"
  using assms comment_not_ws directive_not_ws directive_render_last by (cases k) auto

lemma parse_line_render:
  assumes "set ws \<subseteq> set ws_seqs" and "kind_ok opts k" and "env opts = Disabled"
  shows "parse_line vars opts n (concat ws @ kind_text k) = Inr \<lparr>line_no = n, indent = concat ws, kind = k\<rparr>"
proof (cases "k = Blank")
  case True
  have nil: "strip_all ws_seqs [] = []" by (rule strip_all_id) (auto simp: strip_one_None)
  have "trim_start (concat ws) = []"
    using strip_all_ws [OF assms(1), of "[]"] nil by (simp add: trim_start_def)
  then show ?thesis using True by (simp add: parse_line_def trim_end_char_def)
next
  case False
  note k = kind_text_ok [OF assms(2) False]
  have trimmed: "trim_start (concat ws @ kind_text k) = kind_text k"
    using k by (simp add: trim_start_def strip_all_ws [OF assms(1)] strip_all_id)
  have body: "trim_end_char (CHR 0x0D) (kind_text k) = kind_text k"
    using k by (simp add: trim_end_id)
  show ?thesis
  proof (cases k)
    case (Comment c)
    then show ?thesis using trimmed body k assms(2) by (simp add: parse_line_def Let_def)
  next
    case (Directive d)
    then have d: "directive_ok opts d" using assms(2) by simp
    then have "\<not> starts_with (directive_render d) ''#''" "\<not> starts_with (directive_render d) ''//''"
      using starts_with_verb [of "verb d" "render_args (args d)"] break_render_args
      by (auto simp: directive_render_args directive_ok_def verb_ok_def)
    moreover have "next_bare n (directive_render d) = Inr (Some (verb d, render_args (args d)))"
      using next_bare_render d break_render_args by (simp add: directive_render_args directive_ok_def)
    moreover have "parse_args vars opts n m (render_args (args d)) = Inr (args d)" for m
      using parse_args_render assms(3) d by (simp add: directive_ok_def)
    ultimately show ?thesis
      using trimmed body k d Directive by (auto simp: parse_line_def Let_def directive_ok_def)
  qed (use False in simp)
qed

lemma not_ws_hd:
  assumes "strip_one ws_seqs (c # s) = None"
  shows "\<not> is_ascii_whitespace c"
proof
  assume "is_ascii_whitespace c"
  then have "[c] \<in> set ws_seqs" by (auto simp: is_ascii_whitespace_def ws_seqs_def)
  then show False using assms by (force simp: strip_one_None)
qed

lemma starts_with_append: "starts_with s p \<Longrightarrow> starts_with (s @ t) p"
proof -
  assume "starts_with s p"
  then have "length p \<le> length s" "take (length p) s = p" by (auto simp: starts_with_def) (metis length_take min.cobounded1)
  then show ?thesis by (simp add: starts_with_def)
qed

definition line_stable :: "cfg_line \<Rightarrow> bool" where
  "line_stable l \<longleftrightarrow> (case kind l of Directive d \<Rightarrow> args_stable (args d) | _ \<Rightarrow> True)"

lemma parse_line_ok:
  assumes "parse_line vars opts n raw = Inr l" and "env opts = Disabled" and "CHR 0x0A \<notin> set raw" and "line_stable l"
  shows "line_no l = n \<and> CHR 0x0A \<notin> set (indent l) \<and> kind_ok opts (kind l) \<and>
    (\<exists>ws. set ws \<subseteq> set ws_seqs \<and> indent l = concat ws)"
proof -
  let ?t = "trim_start raw" and ?b = "trim_end_char (CHR 0x0D) (trim_start raw)"
  obtain ws where ws: "set ws \<subseteq> set ws_seqs" "take (length raw - length ?t) raw = concat ws" "raw = concat ws @ ?t"
    using indent_split [of raw] by blast
  obtain r where r: "?t = ?b @ r" using trim_end_prefix by blast
  have stripped: "strip_one ws_seqs ?t = None" unfolding trim_start_def by (rule strip_all_done)
  have nl: "CHR 0x0A \<notin> set (concat ws)" "CHR 0x0A \<notin> set ?b"
    using assms(3) ws(3) r by (metis Un_iff set_append)+
  have frame: "line_no l = n \<and> indent l = concat ws"
    using assms(1) ws(2) by (auto simp: parse_line_def Let_def split: if_splits sum.splits option.splits)
  have "kind_ok opts (kind l)"
  proof (cases "?b = [] \<or> starts_with ?b ''#'' \<or> starts_with ?b ''//''")
    case True
    then show ?thesis
      using assms(1) nl(2) trim_end_last [of "CHR 0x0D" ?t] by (auto simp: parse_line_def Let_def split: if_splits)
  next
    case False
    then have ws_hd: "\<not> is_ascii_whitespace (hd ?b)"
      using stripped r not_ws_hd by (cases ?b) auto
    show ?thesis
    proof (cases "next_bare n ?b")
      case (Inr res)
      show ?thesis
      proof (cases res)
        case None
        then show ?thesis using False Inr assms(1) by (auto simp: parse_line_def Let_def)
      next
        case (Some p)
        obtain v rest where p: "p = (v, rest)" by (cases p)
        have v: "verb_ok v" "?b = v @ rest" using next_bare_ok ws_hd Inr Some p by blast+
        obtain vs where vs: "kind l = Directive \<lparr>verb = v, args = vs, raw_arg_count = length vs\<rparr>"
            "\<not> (strict_verbs opts \<and> \<not> is_known v)" "parse_args vars opts n (length ?b) rest = Inr vs"
          using False Inr Some p assms(1) by (auto simp: parse_line_def Let_def split: if_splits sum.splits)
        have "\<forall>a \<in> set vs. value_ok a"
          using parse_args_ok [OF vs(3) assms(2)] assms(4) vs(1) by (simp add: line_stable_def)
        moreover have "strip_one ws_seqs v = None"
          using not_ws_append [of v "rest @ r" "[]"] stripped r v by (simp add: verb_ok_def)
        moreover have "\<not> starts_with v ''#''" "\<not> starts_with v ''//''"
          using False starts_with_append v(2) by metis+
        ultimately show ?thesis using v(1) vs by (simp add: directive_ok_def)
      qed
    qed (use False assms(1) in \<open>auto simp: parse_line_def Let_def\<close>)
  qed
  then show ?thesis using frame nl(1) ws(1) by auto
qed

section \<open>Documents\<close>

lemma escape_newline: "CHR 0x0A \<notin> set s \<Longrightarrow> CHR 0x0A \<notin> set (escape s)"
  by (auto simp: escape_chars)

lemma value_render_newline: "value_ok v \<Longrightarrow> CHR 0x0A \<notin> set (value_render v)"
  by (cases v) (auto simp: escape_newline is_ascii_whitespace_def)

lemma kind_text_newline: "kind_ok opts k \<Longrightarrow> CHR 0x0A \<notin> set (kind_text k)"
  by (cases k) (auto simp: directive_ok_def verb_ok_def directive_render_args render_args_def
    is_ascii_whitespace_def dest: value_render_newline)

lemma split_on_free: "r \<in> set (split_on P s) \<Longrightarrow> c \<in> set r \<Longrightarrow> \<not> P c"
proof (induction s arbitrary: r)
  case (Cons a s)
  obtain p ps where "split_on P s = p # ps" using split_on_nonempty [of P s] by (cases "split_on P s") auto
  then show ?case using Cons by (fastforce split: if_splits)
qed simp

lemma source_lines_render:
  assumes "rs \<noteq> []" and "\<forall>r \<in> set rs. CHR 0x0A \<notin> set r"
  shows "source_lines (concat (map (\<lambda>r. r @ [CHR 0x0A]) rs)) = rs"
proof -
  have "split_on (\<lambda>c. c = CHR 0x0A) (concat (map (\<lambda>r. r @ [CHR 0x0A]) rs)) = rs @ [[]]"
    using assms(2)
  proof (induction rs)
    case (Cons r rs)
    then have "\<forall>c \<in> set r. \<not> c = CHR 0x0A" by auto
    then show ?case using split_on_sep [of r "\<lambda>c. c = CHR 0x0A" "CHR 0x0A"] Cons by simp
  qed simp
  then show ?thesis using assms(1) by (simp add: source_lines_def)
qed

lemma source_lines_newline: "r \<in> set (source_lines s) \<Longrightarrow> CHR 0x0A \<notin> set r"
  using split_on_free [of r "\<lambda>c. c = CHR 0x0A" s] by (auto simp: source_lines_def Let_def split: if_splits dest: in_set_butlastD)

lemma source_lines_nonempty: "source_lines s \<noteq> []"
  using split_on_nonempty [of "\<lambda>c. c = CHR 0x0A" s]
  by (cases "split_on (\<lambda>c. c = CHR 0x0A) s" rule: rev_cases) (auto simp: source_lines_def Let_def)

lemma parse_lines_render:
  assumes "parse_lines vars opts n raws = Inr ls" and "env opts = Disabled"
    and "\<forall>r \<in> set raws. CHR 0x0A \<notin> set r" and "\<forall>l \<in> set ls. line_stable l"
  shows "parse_lines vars opts n (map (\<lambda>l. indent l @ kind_text (kind l)) ls) = Inr ls \<and>
    (\<forall>l \<in> set ls. CHR 0x0A \<notin> set (indent l @ kind_text (kind l))) \<and> length ls = length raws"
  using assms
proof (induction vars opts n raws arbitrary: ls rule: parse_lines.induct)
  case (2 vars opts n raw raws)
  obtain l ls' where l: "parse_line vars opts n raw = Inr l" "parse_lines vars opts (n + 1) raws = Inr ls'" "ls = l # ls'"
    using "2.prems"(1) by (auto split: sum.splits)
  obtain ws where ws: "line_no l = n" "CHR 0x0A \<notin> set (indent l)" "kind_ok opts (kind l)"
      "set ws \<subseteq> set ws_seqs" "indent l = concat ws"
    using parse_line_ok [OF l(1)] "2.prems" l(3) by auto
  then have "parse_line vars opts n (indent l @ kind_text (kind l)) = Inr l"
    using parse_line_render [OF ws(4) ws(3) "2.prems"(2)] by simp
  then show ?case
    using "2.IH" [OF l(1) l(2)] "2.prems" l(3) ws(2) kind_text_newline [OF ws(3)] by simp
qed simp

lemma line_render_text: "line_render l = (indent l @ kind_text (kind l)) @ [CHR 0x0A]"
  by (cases "kind l") (simp_all add: line_render_def)

section \<open>Includes\<close>

definition is_exec :: "cfg_line \<Rightarrow> bool" where
  "is_exec l \<longleftrightarrow> (case kind l of Directive d \<Rightarrow> verb d = ''exec'' | _ \<Rightarrow> False)"

text \<open>A path without a parent step.\<close>

definition no_parent :: "string \<Rightarrow> bool" where
  "no_parent p \<longleftrightarrow> ''..'' \<notin> set (split_on (\<lambda>c. c = CHR ''/'') p)"

lemma split_on_replace:
  "split_on (\<lambda>c. c = CHR ''/'') (replace_char (CHR 0x5C) ''/'' s) = split_on (\<lambda>c. c = CHR ''/'' \<or> c = CHR 0x5C) s"
  by (induction s) (auto simp: replace_char_def split: list.splits)

lemma split_on_strip:
  "set (split_on (\<lambda>c. c = CHR ''/'' \<or> c = CHR 0x5C) (strip_all [''./''] s)) \<subseteq>
   set (split_on (\<lambda>c. c = CHR ''/'' \<or> c = CHR 0x5C) s)"
proof (induction "length s" arbitrary: s rule: less_induct)
  case less
  show ?case
  proof (cases "strip_one [''./''] s")
    case None
    then show ?thesis by (subst strip_all.simps) simp
  next
    case (Some t)
    then have "s = ''./'' @ t" using strip_one_SomeD by fastforce
    then have "set (split_on (\<lambda>c. c = CHR ''/'' \<or> c = CHR 0x5C) t) \<subseteq> set (split_on (\<lambda>c. c = CHR ''/'' \<or> c = CHR 0x5C) s)"
      by auto
    then show ?thesis using less [OF strip_one_shorter [OF Some]] Some by (subst strip_all.simps) auto
  qed
qed

lemma normalized_no_parent:
  assumes "\<not> list_ex (\<lambda>c. c = ''..'') (split_on (\<lambda>c. c = CHR ''/'' \<or> c = CHR 0x5C) target)"
  shows "no_parent (normalize_owned target)"
  using assms split_on_strip [of target]
  by (auto simp: no_parent_def normalize_owned_def trim_start_matches_def split_on_replace list_ex_iff)

lemma expand_no_exec:
  "expand fs vars opts ls i chain depth parent = Inr out \<Longrightarrow> \<forall>l \<in> set out. \<not> is_exec l"
  "expand_include fs vars opts target chain depth at = Inr out \<Longrightarrow> \<forall>l \<in> set out. \<not> is_exec l"
proof (induction fs vars opts ls i chain depth parent and fs vars opts target chain depth at
    arbitrary: out and out rule: expand_expand_include.induct)
  case (2 fs vars opts l ls i chain depth parent)
  then show ?case
    by (fastforce simp: expand.simps(2) is_exec_def split: sum.splits line_kind.splits if_splits option.splits)
next
  case (3 fs vars opts target chain depth at)
  then show ?case
    by (auto simp: expand_include.simps Let_def split: if_splits option.splits sum.splits)
qed simp

text \<open>Two file systems that agree on the paths without a parent step are resolved alike.\<close>

lemma expand_reads:
  "\<forall>p. no_parent p \<longrightarrow> fs p = fs' p \<Longrightarrow>
     expand fs vars opts ls i chain depth parent = expand fs' vars opts ls i chain depth parent"
  "\<forall>p. no_parent p \<longrightarrow> fs p = fs' p \<Longrightarrow>
     expand_include fs vars opts target chain depth at = expand_include fs' vars opts target chain depth at"
proof (induction fs vars opts ls i chain depth parent and fs vars opts target chain depth at
    rule: expand_expand_include.induct)
  case (2 fs vars opts l ls i chain depth parent)
  let ?now = "\<lambda>fs. case kind l of
      Directive d \<Rightarrow>
        if verb d = ''exec'' then
          (case first_arg d of
             None \<Rightarrow> Err (WrongArgCount (max parent i) ''exec'' 1 0)
           | Some target \<Rightarrow> expand_include fs vars opts target chain depth i)
        else Ok [l]
    | _ \<Rightarrow> Ok [l]"
  have now: "?now fs = ?now fs'"
    using "2.IH"(1) "2.prems" by (auto split: line_kind.splits option.splits)
  show ?case
  proof (cases "?now fs'")
    case (Inl e)
    then show ?thesis using now by (simp add: expand.simps(2))
  next
    case (Inr r)
    then show ?thesis using now "2.IH"(2) [of r] "2.prems" by (simp add: expand.simps(2))
  qed
next
  case (3 fs vars opts target chain depth at)
  show ?case
  proof (cases "list_ex (\<lambda>c. c = ''..'') (split_on (\<lambda>c. c = CHR ''/'' \<or> c = CHR 0x5C) target)")
    case True
    then show ?thesis by (simp add: expand_include.simps)
  next
    case False
    then have "fs (normalize_owned target) = fs' (normalize_owned target)"
      using "3.prems" normalized_no_parent by blast
    then show ?thesis
      using "3.IH" "3.prems" False by (auto simp: expand_include.simps Let_def split: option.splits sum.splits)
  qed
qed simp

section \<open>Properties\<close>

text \<open>
  C7. A document that was parsed without environment expansion is reproduced by rendering it and
  parsing the result, comments, indentation and order included, as long as its quoted values are
  ASCII without a line feed (the parser decodes other bytes one by one as Latin-1 and the renderer
  writes a decoded line feed as it is).
\<close>

theorem cfg_roundtrip:
  assumes "parse_document vars src text opts = Inr doc" and "env opts = Disabled"
    and "\<forall>l \<in> set (lines doc). \<forall>d s. kind l = Directive d \<longrightarrow> Quoted s \<in> set (args d) \<longrightarrow>
           is_ascii s \<and> CHR 0x0A \<notin> set s"
  shows "parse_document vars src (document_render doc) opts = Inr doc"
proof -
  let ?raws = "map (\<lambda>l. indent l @ kind_text (kind l)) (lines doc)"
  have ls: "parse_lines vars opts 1 (source_lines text) = Inr (lines doc)" "source doc = src"
    using assms(1) by (auto simp: parse_document_def split: sum.splits)
  have "\<forall>l \<in> set (lines doc). line_stable l"
    using assms(3) by (auto simp: line_stable_def args_stable_def split: line_kind.splits)
  then have again: "parse_lines vars opts 1 ?raws = Inr (lines doc)"
      "\<forall>r \<in> set ?raws. CHR 0x0A \<notin> set r" "length (lines doc) = length (source_lines text)"
    using parse_lines_render [OF ls(1) assms(2)] source_lines_newline by auto
  have "document_render doc = concat (map (\<lambda>r. r @ [CHR 0x0A]) ?raws)"
  proof -
    have "line_render = (\<lambda>l. (indent l @ kind_text (kind l)) @ [CHR 0x0A])" by (rule ext) (rule line_render_text)
    then show ?thesis by (simp add: document_render_def comp_def)
  qed
  moreover have "?raws \<noteq> []" using again(3) source_lines_nonempty [of "text"] by auto
  ultimately have "source_lines (document_render doc) = ?raws"
    using source_lines_render again(2) by metis
  then show ?thesis using again(1) ls(2) by (simp add: parse_document_def)
qed

definition demo_cfg :: string where
  "demo_cfg = ''# main'' @ [CHR 0x0A] @ ''  set motd '' @ [CHR 0x22] @ ''hi there'' @ [CHR 0x22, CHR 0x0D, CHR 0x0A] @
     ''ensure   chat'' @ [CHR 0x0A]"

definition demo_doc :: document where
  "demo_doc = \<lparr>source = ''server.cfg'', lines =
     [\<lparr>line_no = 1, indent = [], kind = Comment ''# main''\<rparr>,
      \<lparr>line_no = 2, indent = ''  '', kind = Directive \<lparr>verb = ''set'', args = [Bare ''motd'', Quoted ''hi there''], raw_arg_count = 2\<rparr>\<rparr>,
      \<lparr>line_no = 3, indent = [], kind = Directive \<lparr>verb = ''ensure'', args = [Bare ''chat''], raw_arg_count = 1\<rparr>\<rparr>]\<rparr>"

theorem cfg_roundtrip_witness:
  "let opts = \<lparr>env = Disabled, strict_verbs = True\<rparr> in
   parse_document (\<lambda>_. None) ''server.cfg'' demo_cfg opts = Inr demo_doc \<and>
   parse_document (\<lambda>_. None) ''server.cfg'' (document_render demo_doc) opts = Inr demo_doc"
proof -
  let ?opts = "\<lparr>env = Disabled, strict_verbs = True\<rparr>"
  have p: "parse_document (\<lambda>_. None) ''server.cfg'' demo_cfg ?opts = Inr demo_doc" by code_simp
  moreover have "parse_document (\<lambda>_. None) ''server.cfg'' (document_render demo_doc) ?opts = Inr demo_doc"
    by (rule cfg_roundtrip [OF p]) (auto simp: demo_doc_def is_ascii_def)
  ultimately show ?thesis by (simp add: Let_def)
qed

text \<open>
  C20. Include resolution always ends with a document or an error. A resolved document has no
  \<open>exec\<close> left, and the result depends on no file but the root and those whose path has no parent
  step: two file systems that agree there are resolved alike.
\<close>

theorem includes_contained:
  assumes "fs root = fs' root" and "\<forall>p. no_parent p \<longrightarrow> fs p = fs' p"
  shows "include_resolve fs vars opts root = include_resolve fs' vars opts root \<and>
    (\<forall>doc. include_resolve fs vars opts root = Inr doc \<longrightarrow> (\<forall>l \<in> set (lines doc). \<not> is_exec l))"
proof
  show "include_resolve fs vars opts root = include_resolve fs' vars opts root"
    unfolding include_resolve_def assms(1) expand_reads(1) [OF assms(2)] by (rule refl)
  show "\<forall>doc. include_resolve fs vars opts root = Inr doc \<longrightarrow> (\<forall>l \<in> set (lines doc). \<not> is_exec l)"
    using expand_no_exec(1) by (fastforce simp: include_resolve_def split: option.splits sum.splits)
qed

definition demo_files :: "string \<Rightarrow> string option" where
  "demo_files p = map_of [(''server.cfg'', ''exec cfg/a.cfg''), (''cfg/a.cfg'', ''ensure chat''),
     (''/etc/passwd'', ''root''), (''../secret.cfg'', ''set token x'')] p"

definition demo_files_other :: "string \<Rightarrow> string option" where
  "demo_files_other p = (if p = ''../secret.cfg'' then None else demo_files p)"

theorem includes_contained_witness:
  "include_resolve demo_files (\<lambda>_. None) parse_options_default ''server.cfg'' =
     include_resolve demo_files_other (\<lambda>_. None) parse_options_default ''server.cfg'' \<and>
   is_ok (include_resolve demo_files (\<lambda>_. None) parse_options_default ''server.cfg'')"
proof -
  have "is_ok (include_resolve demo_files (\<lambda>_. None) parse_options_default ''server.cfg'')" by code_simp
  moreover have "\<not> no_parent ''../secret.cfg''" by code_simp
  ultimately show ?thesis
    using includes_contained [of demo_files "''server.cfg''" demo_files_other "\<lambda>_. None" parse_options_default]
    by (auto simp: demo_files_other_def)
qed

text \<open>
  The test for absolute paths is made before a leading \<open>./\<close> is removed, so the resolver asks the file
  system for an absolute path.
\<close>

lemma absolute_include_read:
  "expand_include (\<lambda>p. if p = ''/etc/passwd'' then Some ''ensure x'' else None) (\<lambda>_. None) parse_options_default
     ''.//etc/passwd'' [''server.cfg''] 1 1 =
   Inr [\<lparr>line_no = 1, indent = [], kind = Directive \<lparr>verb = ''ensure'', args = [Bare ''x''], raw_arg_count = 1\<rparr>\<rparr>]"
  by code_simp

text \<open>A decoded line feed does not survive rendering, and a byte above 127 is decoded to two.\<close>

lemma line_feed_lost:
  "let opts = \<lparr>env = Disabled, strict_verbs = False\<rparr>;
       quoted = (\<lambda>s. ''set a '' @ [CHR 0x22] @ s @ [CHR 0x22]) in
   (case parse_document (\<lambda>_. None) ''f'' (quoted (''x'' @ [CHR 0x5C, CHR ''n''] @ ''y'')) opts of
      Inl e \<Rightarrow> False
    | Inr doc \<Rightarrow> parse_document (\<lambda>_. None) ''f'' (document_render doc) opts = Inl (UnterminatedString 1 7))"
  by code_simp

lemma latin1_decoding: "read_quoted ([CHR 0xC3, CHR 0xA9, CHR 0x22]) = Some ([CHR 0xC3, CHR 0x83, CHR 0xC2, CHR 0xA9], [])"
  by code_simp

end
