(* ===== verification/CfgNormalize.thy ===== *)
theory CfgNormalize
  imports CfgParse "HOL-Library.List_Lexorder" "HOL-Library.Char_ord"
begin

text \<open>
  From a parsed server.cfg to the configuration the server consumes: secret handles
  (\<open>crates/ald-servercfg/src/secrets.rs\<close>) and the normalized model (\<open>normalize.rs\<close>). The process
  environment is the function \<open>vars\<close>; a \<open>BTreeMap\<close> is a map whose iteration sorts the keys.
\<close>

section \<open>Secrets\<close>

record secret_handle =
  provider :: string
  secret_key :: string

definition KNOWN_PROVIDERS :: "string list" where
  "KNOWN_PROVIDERS = [''env'', ''file'', ''credman'', ''vault'', ''kms'']"

definition backquote :: "string \<Rightarrow> string" where
  "backquote s = CHR 0x60 # s @ [CHR 0x60]"

definition handle_parse :: "string \<Rightarrow> (secret_handle, cfg_error) result" where
  "handle_parse spec0 =
     (let spec = trim spec0 in
      if spec = [] then Err (EmptySecret 0)
      else case split_once (CHR '':'') spec of
        Some (p, k) \<Rightarrow>
          if p = [] then Ok \<lparr>provider = ''env'', secret_key = spec\<rparr>
          else if trim k = [] then Err (EmptySecret 0)
          else
            let prov = to_ascii_lowercase (trim p) in
            if prov \<notin> set KNOWN_PROVIDERS
            then Err (SecretProviderError spec (''unknown provider '' @ backquote prov))
            else Ok \<lparr>provider = prov, secret_key = trim k\<rparr>
      | None \<Rightarrow> Ok \<lparr>provider = ''env'', secret_key = spec\<rparr>)"

definition as_spec :: "secret_handle \<Rightarrow> string" where
  "as_spec h = provider h @ '':'' @ secret_key h"

definition env_resolve :: "(string \<Rightarrow> string option) \<Rightarrow> secret_handle \<Rightarrow> (string, cfg_error) result" where
  "env_resolve vars h =
     (case vars (secret_key h) of
        Some v \<Rightarrow> Ok v
      | None \<Rightarrow> Err (SecretProviderError (as_spec h) ''environment variable not set''))"

datatype redacted_value = RedactedValue (expose: string)

definition redact :: "string \<Rightarrow> string" where
  "redact s = (if s = [] then [] else ''***'')"

definition redacted_display :: "redacted_value \<Rightarrow> string" where
  "redacted_display v = ''***''"

section \<open>The normalized model\<close>

datatype convar_scope = Local | Replicated | Public

fun scope_debug :: "convar_scope \<Rightarrow> string" where
  "scope_debug Local = ''Local''"
| "scope_debug Replicated = ''Replicated''"
| "scope_debug Public = ''Public''"

record convar =
  scope :: convar_scope
  cv_value :: string
  cv_line :: u32

record secret_convar =
  handle :: secret_handle
  sc_line :: u32

datatype reload_impact = HotReloadSafe | ResourceReloadRequired | ServerRestartRequired | ImmutableRuntime

record ace_rule =
  ace_principal :: string
  ace_object :: string
  allow :: bool
  ace_line :: u32

record principal_rule =
  pr_principal :: string
  parent :: string
  add :: bool
  pr_line :: u32

record resource_directive =
  action :: string
  rd_name :: string
  rd_line :: u32

datatype endpoint_transport = Tcp | Udp

record endpoint_spec =
  addr :: string
  transport :: endpoint_transport
  ep_line :: u32

record normalized_server_config =
  hostname :: "string option"
  project_name :: "string option"
  project_desc :: "string option"
  max_clients :: "u32 option"
  endpoint :: "string option"
  endpoints :: "endpoint_spec list"
  tags :: "string list"
  locale_name :: "string option"
  icon :: "string option"
  game_build :: "string option"
  public :: bool
  listing :: bool
  project_id :: "string option"
  server_id :: "string option"
  license_mode :: "string option"
  aldivine_license_key :: "secret_convar option"
  fivem_license_key :: "string option"
  legacy_mysql :: "string option"
  convars :: "(string, convar) hmap"
  secrets :: "(string, secret_convar) hmap"
  ace :: "ace_rule list"
  principals :: "principal_rule list"
  resources :: "resource_directive list"
  include_list :: "string list"
  warnings :: "string list"

definition normalized_default :: normalized_server_config where
  "normalized_default =
     \<lparr>hostname = None, project_name = None, project_desc = None, max_clients = None, endpoint = None,
      endpoints = [], tags = [], locale_name = None, icon = None, game_build = None, public = False,
      listing = False, project_id = None, server_id = None, license_mode = None,
      aldivine_license_key = None, fivem_license_key = None, legacy_mysql = None, convars = [],
      secrets = [], ace = [], principals = [], resources = [], include_list = [], warnings = []\<rparr>"

definition TYPED_DIRECTIVES :: "string list" where
  "TYPED_DIRECTIVES =
     [''sv_hostname'', ''sv_projectName'', ''sv_projectDesc'', ''sv_maxclients'', ''sv_endpoint'', ''sv_tags'',
      ''sv_locale'', ''sv_icon'', ''sv_gameBuild'', ''sv_public'', ''sv_listing'', ''endpoint_add_tcp'',
      ''endpoint_add_udp'', ''ald_projectId'', ''ald_serverId'', ''ald_licenseKey'', ''license_mode'']"

definition is_typed_directive :: "string \<Rightarrow> bool" where
  "is_typed_directive n \<longleftrightarrow> n \<in> set TYPED_DIRECTIVES"

definition looks_secret :: "string \<Rightarrow> bool" where
  "looks_secret k \<longleftrightarrow>
     list_ex (contains_str (to_ascii_lowercase k))
       [''secret'', ''password'', ''passwd'', ''key'', ''token'', ''credential'', ''url'', ''dsn'', ''connection'']"

definition redact_convar :: "string \<Rightarrow> string \<Rightarrow> string" where
  "redact_convar name value = (if looks_secret name then redact value else value)"

definition parse_grant :: "string \<Rightarrow> u32 \<Rightarrow> (bool, cfg_error) result" where
  "parse_grant raw line =
     (let s = to_ascii_lowercase (trim raw) in
      if s = ''allow'' then Ok True
      else if s = ''deny'' then Ok False
      else Err (InvalidValue line (''ace rule must be '' @ backquote ''allow'' @ '' or '' @ backquote ''deny''
             @ '', got '' @ backquote s)))"

definition parse_bool :: "string \<Rightarrow> u32 \<Rightarrow> string \<Rightarrow> (bool, cfg_error) result" where
  "parse_bool raw line ctx =
     (let s = to_ascii_lowercase (trim raw) in
      if s \<in> {''true'', ''1'', ''yes'', ''on''} then Ok True
      else if s \<in> {''false'', ''0'', ''no'', ''off''} then Ok False
      else Err (InvalidValue line (backquote ctx @ '' expects a boolean, got '' @ backquote s)))"

definition collect_includes :: "document \<Rightarrow> string list" where
  "collect_includes doc =
     List.map_filter (\<lambda>l. case kind l of Directive d \<Rightarrow> if verb d = ''exec'' then first_arg d else None | _ \<Rightarrow> None)
       (lines doc)"

section \<open>Applying directives\<close>

type_synonym cfg_step = "(normalized_server_config, cfg_error) result"

text \<open>The macro \<open>one!\<close>: the value of a bare or of a convar-form directive.\<close>

definition is_set_verb :: "string \<Rightarrow> bool" where
  "is_set_verb v \<longleftrightarrow> v \<in> {''set'', ''setr'', ''sets''}"

definition typed_arg :: "directive \<Rightarrow> string option" where
  "typed_arg d = (if is_set_verb (verb d) then map_option snd (kv d) else first_arg d)"

definition with_one :: "directive \<Rightarrow> u32 \<Rightarrow> (string \<Rightarrow> cfg_step) \<Rightarrow> cfg_step" where
  "with_one d line f =
     (case typed_arg d of
        None \<Rightarrow> Err (WrongArgCount line (verb d) 1 (length (args d)))
      | Some x \<Rightarrow> f x)"

definition result_map :: "('a, 'e) result \<Rightarrow> ('a \<Rightarrow> 'b) \<Rightarrow> ('b, 'e) result" where
  "result_map r f = (case r of Inl e \<Rightarrow> Err e | Inr a \<Rightarrow> Ok (f a))"

definition apply_typed :: "normalized_server_config \<Rightarrow> string \<Rightarrow> directive \<Rightarrow> u32 \<Rightarrow> cfg_step" where
  "apply_typed c v d line =
     (if v = ''sv_hostname'' then with_one d line (\<lambda>x. Ok (c\<lparr>hostname := Some x\<rparr>))
      else if v = ''sv_projectName'' then with_one d line (\<lambda>x. Ok (c\<lparr>project_name := Some x\<rparr>))
      else if v = ''sv_projectDesc'' then with_one d line (\<lambda>x. Ok (c\<lparr>project_desc := Some x\<rparr>))
      else if v = ''sv_maxclients'' then with_one d line (\<lambda>raw.
        case parse_unsigned (2 ^ 32 - 1) raw of
          None \<Rightarrow> Err (InvalidValue line (''sv_maxclients must be an integer, got '' @ backquote raw))
        | Some n \<Rightarrow> Ok (c\<lparr>max_clients := Some (of_int n)\<rparr>))
      else if v = ''sv_endpoint'' then with_one d line (\<lambda>x. Ok (c\<lparr>endpoint := Some x\<rparr>))
      else if v = ''sv_tags'' then with_one d line (\<lambda>x.
        Ok (c\<lparr>tags := filter (\<lambda>t. t \<noteq> []) (split_on (\<lambda>c. c = CHR '','' \<or> c = CHR 0x20) x)\<rparr>))
      else if v = ''sv_locale'' then with_one d line (\<lambda>x. Ok (c\<lparr>locale_name := Some x\<rparr>))
      else if v = ''sv_icon'' then with_one d line (\<lambda>x. Ok (c\<lparr>icon := Some x\<rparr>))
      else if v = ''sv_gameBuild'' then with_one d line (\<lambda>x. Ok (c\<lparr>game_build := Some x\<rparr>))
      else if v = ''sv_public'' then with_one d line (\<lambda>x. result_map (parse_bool x line ''sv_public'') (\<lambda>b. c\<lparr>public := b\<rparr>))
      else if v = ''sv_listing'' then with_one d line (\<lambda>x. result_map (parse_bool x line ''sv_listing'') (\<lambda>b. c\<lparr>listing := b\<rparr>))
      else if v = ''ald_projectId'' then with_one d line (\<lambda>x. Ok (c\<lparr>project_id := Some x\<rparr>))
      else if v = ''ald_serverId'' then with_one d line (\<lambda>x. Ok (c\<lparr>server_id := Some x\<rparr>))
      else if v = ''license_mode'' then with_one d line (\<lambda>x. Ok (c\<lparr>license_mode := Some x\<rparr>))
      else if v = ''ald_licenseKey'' then with_one d line (\<lambda>x.
        result_map (handle_parse x) (\<lambda>h. c\<lparr>aldivine_license_key := Some \<lparr>handle = h, sc_line = line\<rparr>\<rparr>))
      else if v = ''sv_licenseKey'' then with_one d line (\<lambda>x.
        Ok (c\<lparr>fivem_license_key := Some x,
              warnings := warnings c @ [''line '' @ show_nat (unat line)
                @ '': sv_licenseKey is a FiveM compatibility marker; it is not an Aldivine license'']\<rparr>))
      else case first_arg d of
        Some x \<Rightarrow> Ok (c\<lparr>convars := hm_insert v \<lparr>scope = Local, cv_value = x, cv_line = line\<rparr> (convars c)\<rparr>)
      | None \<Rightarrow> Ok c)"

definition scope_of_verb :: "string \<Rightarrow> convar_scope" where
  "scope_of_verb v = (if v = ''set'' then Local else if v = ''setr'' then Replicated else Public)"

definition apply_convar :: "normalized_server_config \<Rightarrow> directive \<Rightarrow> u32 \<Rightarrow> cfg_step" where
  "apply_convar c d line =
     (case kv d of
        None \<Rightarrow> Err (WrongArgCount line (verb d) 2 (length (args d)))
      | Some (k, v) \<Rightarrow>
          let sc = scope_of_verb (verb d);
              c1 = c\<lparr>convars := hm_insert k \<lparr>scope = sc, cv_value = v, cv_line = line\<rparr> (convars c)\<rparr>;
              c2 = (if k = ''mysql_connection_string'' then c1\<lparr>legacy_mysql := Some v\<rparr> else c1) in
          (case hm_get (convars c) k of
             Some old \<Rightarrow>
               if scope old \<noteq> sc
               then Err (InvalidValue line (''convar '' @ backquote k @ '' declared with conflicting scope (was ''
                      @ scope_debug (scope old) @ '', now '' @ scope_debug sc @ '')''))
               else Ok c2
           | None \<Rightarrow> Ok c2))"

definition apply_secret :: "normalized_server_config \<Rightarrow> directive \<Rightarrow> u32 \<Rightarrow> cfg_step" where
  "apply_secret c d line =
     (case kv d of
        None \<Rightarrow> Err (WrongArgCount line (verb d) 2 (length (args d)))
      | Some (k, spec) \<Rightarrow>
          result_map (handle_parse spec)
            (\<lambda>h. c\<lparr>secrets := hm_insert k \<lparr>handle = h, sc_line = line\<rparr> (secrets c)\<rparr>))"

definition apply_resource :: "normalized_server_config \<Rightarrow> directive \<Rightarrow> u32 \<Rightarrow> cfg_step" where
  "apply_resource c d line =
     (case first_arg d of
        None \<Rightarrow> Err (WrongArgCount line (verb d) 1 (length (args d)))
      | Some n \<Rightarrow> Ok (c\<lparr>resources := resources c @ [\<lparr>action = verb d, rd_name = n, rd_line = line\<rparr>]\<rparr>))"

definition apply_ace :: "normalized_server_config \<Rightarrow> directive \<Rightarrow> u32 \<Rightarrow> cfg_step" where
  "apply_ace c d line =
     (case args d of
        p # ob # a # _ \<Rightarrow>
          result_map (parse_grant (as_str a) line) (\<lambda>granted.
            c\<lparr>ace := ace c @ [\<lparr>ace_principal = as_str p, ace_object = as_str ob,
              allow = (if verb d = ''add_ace'' then granted else \<not> granted), ace_line = line\<rparr>]\<rparr>)
      | _ \<Rightarrow> Err (WrongArgCount line (verb d) 3 (length (args d))))"

definition apply_principal :: "normalized_server_config \<Rightarrow> directive \<Rightarrow> u32 \<Rightarrow> cfg_step" where
  "apply_principal c d line =
     (case args d of
        p # q # _ \<Rightarrow>
          Ok (c\<lparr>principals := principals c @ [\<lparr>pr_principal = as_str p, parent = as_str q,
            add = (verb d = ''add_principal''), pr_line = line\<rparr>]\<rparr>)
      | _ \<Rightarrow> Err (WrongArgCount line (verb d) 2 (length (args d))))"

definition apply_endpoint :: "normalized_server_config \<Rightarrow> directive \<Rightarrow> u32 \<Rightarrow> cfg_step" where
  "apply_endpoint c d line =
     (case first_arg d of
        None \<Rightarrow> Err (WrongArgCount line (verb d) 1 (length (args d)))
      | Some a \<Rightarrow>
          Ok (c\<lparr>endpoints := endpoints c @ [\<lparr>addr = a,
            transport = (if verb d = ''endpoint_add_tcp'' then Tcp else Udp), ep_line = line\<rparr>]\<rparr>))"

definition apply_directive :: "normalized_server_config \<Rightarrow> string \<Rightarrow> directive \<Rightarrow> u32 \<Rightarrow> cfg_step" where
  "apply_directive c v d line =
     (if is_set_verb v then
        (case kv d of
           Some (k, _) \<Rightarrow> if is_typed_directive k then apply_typed c k d line else apply_convar c d line
         | None \<Rightarrow> apply_convar c d line)
      else if v = ''set_secret'' then apply_secret c d line
      else if v \<in> {''ensure'', ''start'', ''stop'', ''restart''} then apply_resource c d line
      else if v \<in> {''add_ace'', ''remove_ace''} then apply_ace c d line
      else if v \<in> {''add_principal'', ''remove_principal''} then apply_principal c d line
      else if v \<in> {''endpoint_add_tcp'', ''endpoint_add_udp''} then apply_endpoint c d line
      else if v = ''exec'' then Err (DirectiveForbiddenInInclude line ''exec'')
      else apply_typed c v d line)"

section \<open>Validation\<close>

definition LICENSE_MODES :: "string list" where
  "LICENSE_MODES = [''free'', ''aldivine'', ''paid'', ''subscription'', ''private'', ''developer'', ''beta'', ''invite_only'']"

fun check_public :: "(string \<times> convar) list \<Rightarrow> (unit, cfg_error) result" where
  "check_public [] = Ok ()"
| "check_public ((k, c) # cs) =
     (if scope c = Public \<and> looks_secret k
      then Err (InvalidValue (cv_line c) (''convar '' @ backquote k @ '' looks secret but is declared '' @ backquote ''sets''
             @ '' (public metadata); use set_secret instead''))
      else check_public cs)"

definition secret_conflict :: "(string, convar) hmap \<Rightarrow> string \<Rightarrow> cfg_error option" where
  "secret_conflict cvs k =
     (case hm_get cvs k of
        Some c \<Rightarrow>
          if scope c \<noteq> Local
          then Some (InvalidValue (cv_line c) (''convar '' @ backquote k @ '' has both a secret and a replicated/public value''))
          else None
      | None \<Rightarrow> None)"

fun check_secrets ::
  "(string \<Rightarrow> string option) \<Rightarrow> (string, convar) hmap \<Rightarrow> (string \<times> secret_convar) list \<Rightarrow> (unit, cfg_error) result" where
  "check_secrets vars cvs [] = Ok ()"
| "check_secrets vars cvs ((k, s) # ss) =
     (case secret_conflict cvs k of
        Some e \<Rightarrow> Err e
      | None \<Rightarrow> if env_resolve vars (handle s) = Ok [] then Err (EmptySecret (sc_line s)) else check_secrets vars cvs ss)"

definition normalized_validate :: "(string \<Rightarrow> string option) \<Rightarrow> normalized_server_config \<Rightarrow> (unit, cfg_error) result" where
  "normalized_validate vars c =
     (case (case max_clients c of
              Some n \<Rightarrow> if n = 0 \<or> 1024 < n
                then Some (InvalidValue 0 (''sv_maxclients out of range (1..=1024): '' @ show_nat (unat n))) else None
            | None \<Rightarrow> None) of
        Some e \<Rightarrow> Err e
      | None \<Rightarrow>
          (case check_public (sort_key fst (convars c)) of
             Inl e \<Rightarrow> Err e
           | Inr _ \<Rightarrow>
               (case check_secrets vars (convars c) (sort_key fst (secrets c)) of
                  Inl e \<Rightarrow> Err e
                | Inr _ \<Rightarrow>
                    (case license_mode c of
                       Some m \<Rightarrow> if m \<notin> set LICENSE_MODES
                         then Err (InvalidValue 0 (''unknown license_mode '' @ backquote m)) else Ok ()
                     | None \<Rightarrow> Ok ()))))"

fun apply_all :: "normalized_server_config \<Rightarrow> (u32 \<times> directive) list \<Rightarrow> cfg_step" where
  "apply_all c [] = Ok c"
| "apply_all c ((line, d) # ds) =
     (case apply_directive c (verb d) d line of Inl e \<Rightarrow> Err e | Inr c' \<Rightarrow> apply_all c' ds)"

definition from_document :: "(string \<Rightarrow> string option) \<Rightarrow> document \<Rightarrow> cfg_step" where
  "from_document vars doc =
     (case apply_all normalized_default (directives doc) of
        Inl e \<Rightarrow> Err e
      | Inr c \<Rightarrow> (case normalized_validate vars c of Inl e \<Rightarrow> Err e | Inr _ \<Rightarrow> Ok c))"

definition from_root :: "(string \<Rightarrow> string option) \<Rightarrow> string \<Rightarrow> string \<Rightarrow> parse_options \<Rightarrow> cfg_step" where
  "from_root vars src body opts =
     (case parse_document vars src body opts of
        Inl e \<Rightarrow> Err e
      | Inr root \<Rightarrow>
          (case apply_all normalized_default (filter (\<lambda>(_, d). verb d \<noteq> ''exec'') (directives root)) of
             Inl e \<Rightarrow> Err e
           | Inr c \<Rightarrow>
               (case normalized_validate vars c of
                  Inl e \<Rightarrow> Err e
                | Inr _ \<Rightarrow> Ok (c\<lparr>include_list := collect_includes root\<rparr>))))"

definition config_secret :: "(string \<Rightarrow> string option) \<Rightarrow> normalized_server_config \<Rightarrow> string \<Rightarrow> (redacted_value, cfg_error) result" where
  "config_secret vars c name =
     (case hm_get (secrets c) name of
        None \<Rightarrow> Err (SecretProviderError name ''no such secret convar'')
      | Some s \<Rightarrow> result_map (env_resolve vars (handle s)) RedactedValue)"

definition reload_impact_of :: "string \<Rightarrow> reload_impact" where
  "reload_impact_of key =
     (if key \<in> {''sv_hostname'', ''sv_projectName'', ''sv_projectDesc'', ''sv_tags'', ''sv_locale'', ''sv_icon'', ''sv_listing''}
      then HotReloadSafe
      else if key \<in> {''sv_maxclients'', ''sv_endpoint'', ''endpoint_add_tcp'', ''endpoint_add_udp'', ''ald_serverId''}
      then ImmutableRuntime
      else if key \<in> {''sv_public'', ''license_mode'', ''ald_licenseKey''} then ServerRestartRequired
      else ResourceReloadRequired)"

section \<open>Lemmas\<close>

definition handle_ok :: "secret_handle \<Rightarrow> bool" where
  "handle_ok h \<longleftrightarrow> provider h \<in> set KNOWN_PROVIDERS \<and> secret_key h \<noteq> []"

lemma handle_parse_ok: "handle_parse s = Inr h \<Longrightarrow> handle_ok h"
  by (auto simp: handle_parse_def handle_ok_def Let_def KNOWN_PROVIDERS_def split: if_splits option.splits)

definition secrets_ok :: "normalized_server_config \<Rightarrow> bool" where
  "secrets_ok c \<longleftrightarrow> hm_wf (convars c) \<and> hm_wf (secrets c) \<and>
     (\<forall>k s. hm_get (secrets c) k = Some s \<longrightarrow> handle_ok (handle s)) \<and>
     (\<forall>s. aldivine_license_key c = Some s \<longrightarrow> handle_ok (handle s))"

lemma result_map_Inr: "result_map r f = Inr b \<longleftrightarrow> (\<exists>a. r = Inr a \<and> b = f a)"
  by (cases r) (auto simp: result_map_def)

lemma with_one_Inr: "with_one d line f = Inr c \<longleftrightarrow> (\<exists>x. typed_arg d = Some x \<and> f x = Inr c)"
  by (cases "typed_arg d") (simp_all add: with_one_def)

lemma apply_typed_ok:
  assumes "apply_typed c v d line = Inr c'" and "secrets_ok c"
  shows "secrets_ok c' \<and> resources c' = resources c"
  using assms
  by (auto simp: apply_typed_def with_one_Inr result_map_Inr secrets_ok_def handle_parse_ok
    split: if_splits option.splits)

lemma apply_convar_ok:
  assumes "apply_convar c d line = Inr c'" and "secrets_ok c"
  shows "secrets_ok c' \<and> resources c' = resources c"
  using assms by (auto simp: apply_convar_def secrets_ok_def Let_def split: if_splits option.splits)

lemma apply_secret_ok:
  assumes "apply_secret c d line = Inr c'" and "secrets_ok c"
  shows "secrets_ok c' \<and> resources c' = resources c"
  using assms
  by (auto simp: apply_secret_def result_map_Inr secrets_ok_def hm_simps handle_parse_ok split: option.splits if_splits)

definition is_resource_verb :: "string \<Rightarrow> bool" where
  "is_resource_verb v \<longleftrightarrow> v \<in> {''ensure'', ''start'', ''stop'', ''restart''}"

text \<open>The resource directive that a directive stands for.\<close>

definition resource_of :: "u32 \<times> directive \<Rightarrow> resource_directive list" where
  "resource_of p =
     (if is_resource_verb (verb (snd p))
      then (case first_arg (snd p) of None \<Rightarrow> [] | Some n \<Rightarrow> [\<lparr>action = verb (snd p), rd_name = n, rd_line = fst p\<rparr>])
      else [])"

lemma apply_directive_ok:
  assumes "apply_directive c (verb d) d line = Inr c'" and "secrets_ok c"
  shows "secrets_ok c' \<and> resources c' = resources c @ resource_of (line, d)"
proof (cases "is_resource_verb (verb d)")
  case True
  then have "\<not> is_set_verb (verb d)" "verb d \<noteq> ''set_secret''"
    by (auto simp: is_resource_verb_def is_set_verb_def)
  then have "apply_resource c d line = Inr c'"
    using assms(1) True by (simp add: apply_directive_def is_resource_verb_def)
  then show ?thesis
    using assms(2) True by (auto simp: apply_resource_def secrets_ok_def resource_of_def split: option.splits)
next
  case False
  then have none: "resource_of (line, d) = []" by (simp add: resource_of_def)
  consider v where "apply_typed c v d line = Inr c'" | "apply_convar c d line = Inr c'"
    | "apply_secret c d line = Inr c'" | "apply_ace c d line = Inr c'" | "apply_principal c d line = Inr c'"
    | "apply_endpoint c d line = Inr c'"
    using assms(1) False
    by (auto simp: apply_directive_def is_resource_verb_def split: if_splits option.splits)
  then show ?thesis
  proof cases
    case 1
    then show ?thesis using apply_typed_ok assms(2) none by simp
  next
    case 2
    then show ?thesis using apply_convar_ok assms(2) none by simp
  next
    case 3
    then show ?thesis using apply_secret_ok assms(2) none by simp
  next
    case 4
    then show ?thesis
      using assms(2) none by (auto simp: apply_ace_def result_map_Inr secrets_ok_def split: list.splits)
  next
    case 5
    then show ?thesis
      using assms(2) none by (auto simp: apply_principal_def secrets_ok_def split: list.splits)
  next
    case 6
    then show ?thesis
      using assms(2) none by (auto simp: apply_endpoint_def secrets_ok_def split: option.splits)
  qed
qed

lemma apply_all_ok:
  assumes "apply_all c ds = Inr c'" and "secrets_ok c"
  shows "secrets_ok c' \<and> resources c' = resources c @ concat (map resource_of ds)"
  using assms
proof (induction c ds rule: apply_all.induct)
  case (2 c line d ds)
  then obtain c1 where c1: "apply_directive c (verb d) d line = Inr c1" "apply_all c1 ds = Inr c'"
    by (auto split: sum.splits)
  then show ?case using "2.IH" [OF c1] apply_directive_ok [OF c1(1) "2.prems"(2)] by simp
qed simp

lemma check_public_ok: "check_public cs = Inr u \<Longrightarrow> (k, c) \<in> set cs \<Longrightarrow> scope c = Public \<Longrightarrow> \<not> looks_secret k"
  by (induction cs rule: check_public.induct) (auto split: if_splits)

lemma check_secrets_ok:
  assumes "check_secrets vars cvs ss = Inr u" and "(k, s) \<in> set ss"
  shows "vars (secret_key (handle s)) \<noteq> Some [] \<and> (\<forall>c. hm_get cvs k = Some c \<longrightarrow> scope c = Local)"
  using assms
proof (induction ss)
  case (Cons p ss)
  obtain k' s' where p: "p = (k', s')" by (cases p)
  have here: "secret_conflict cvs k' = None" "env_resolve vars (handle s') \<noteq> Inr []" "check_secrets vars cvs ss = Inr u"
    using Cons.prems(1) p by (auto split: option.splits if_splits)
  have "vars (secret_key (handle s')) \<noteq> Some []" using here(2) by (auto simp: env_resolve_def)
  moreover have "\<forall>c. hm_get cvs k' = Some c \<longrightarrow> scope c = Local"
    using here(1) by (auto simp: secret_conflict_def split: if_splits)
  ultimately show ?case using Cons.IH [OF here(3)] Cons.prems(2) p by auto
qed simp

section \<open>Properties\<close>

text \<open>
  C32. A configuration that \<open>from_document\<close> accepts is well formed: the number of clients is between
  1 and 1024; no convar with a secret-looking name is public; every secret is a reference to a known
  provider with a key that does not resolve to an empty value, and its name is not also a replicated
  or public convar; the license mode is a known one; and the resource list is exactly the resource
  directives of the document, in order.
\<close>

theorem config_well_formed:
  assumes "from_document vars doc = Inr c"
  shows "(\<forall>n. max_clients c = Some n \<longrightarrow> 1 \<le> n \<and> n \<le> 1024) \<and>
    (\<forall>k cv. hm_get (convars c) k = Some cv \<longrightarrow> scope cv = Public \<longrightarrow> \<not> looks_secret k) \<and>
    (\<forall>k s. hm_get (secrets c) k = Some s \<longrightarrow> handle_ok (handle s) \<and> vars (secret_key (handle s)) \<noteq> Some [] \<and>
       (\<forall>cv. hm_get (convars c) k = Some cv \<longrightarrow> scope cv = Local)) \<and>
    (\<forall>m. license_mode c = Some m \<longrightarrow> m \<in> set LICENSE_MODES) \<and>
    resources c = concat (map resource_of (directives doc))"
proof -
  have run: "apply_all normalized_default (directives doc) = Inr c" and valid: "normalized_validate vars c = Inr ()"
    using assms by (auto simp: from_document_def split: sum.splits)
  have ok: "secrets_ok c" "resources c = concat (map resource_of (directives doc))"
    using apply_all_ok [OF run] by (simp_all add: secrets_ok_def normalized_default_def)
  have public: "check_public (sort_key fst (convars c)) = Inr ()"
    and secret: "check_secrets vars (convars c) (sort_key fst (secrets c)) = Inr ()"
    and limits: "\<And>n. max_clients c = Some n \<Longrightarrow> n \<noteq> 0 \<and> \<not> 1024 < n"
    and mode: "\<And>m. license_mode c = Some m \<Longrightarrow> m \<in> set LICENSE_MODES"
    using valid by (auto simp: normalized_validate_def split: option.splits sum.splits if_splits)
  have "\<not> looks_secret k" if "hm_get (convars c) k = Some cv" "scope cv = Public" for k cv
    using check_public_ok [OF public] that map_of_SomeD by fastforce
  moreover have "handle_ok (handle s) \<and> vars (secret_key (handle s)) \<noteq> Some [] \<and>
      (\<forall>cv. hm_get (convars c) k = Some cv \<longrightarrow> scope cv = Local)" if "hm_get (secrets c) k = Some s" for k s
    using check_secrets_ok [OF secret, of k s] that ok(1) map_of_SomeD [OF that] by (simp add: secrets_ok_def)
  moreover have "1 \<le> n \<and> n \<le> 1024" if "max_clients c = Some n" for n
    using limits [OF that] by (simp add: word_le_nat_alt word_less_nat_alt unat_eq_0 [symmetric] Suc_le_eq)
  ultimately show ?thesis using mode ok(2) by blast
qed

definition demo_directives :: document where
  "demo_directives = \<lparr>source = ''server.cfg'', lines =
     [\<lparr>line_no = 1, indent = [], kind = Directive \<lparr>verb = ''set'', args = [Bare ''sv_maxclients'', Bare ''48''], raw_arg_count = 2\<rparr>\<rparr>,
      \<lparr>line_no = 2, indent = [], kind = Directive \<lparr>verb = ''set_secret'', args = [Bare ''db'', Bare ''env:DB''], raw_arg_count = 2\<rparr>\<rparr>,
      \<lparr>line_no = 3, indent = [], kind = Directive \<lparr>verb = ''ensure'', args = [Bare ''chat''], raw_arg_count = 1\<rparr>\<rparr>]\<rparr>"

theorem config_well_formed_witness:
  "\<exists>c. from_document (\<lambda>_. None) demo_directives = Inr c \<and> max_clients c = Some 48 \<and>
     resources c = [\<lparr>action = ''ensure'', rd_name = ''chat'', rd_line = 3\<rparr>]"
proof -
  have ex: "(case from_document (\<lambda>_. None) demo_directives of Inl _ \<Rightarrow> None | Inr c \<Rightarrow> max_clients c) = Some 48"
    by code_simp
  then obtain c where c: "from_document (\<lambda>_. None) demo_directives = Inr c" "max_clients c = Some 48"
    by (cases "from_document (\<lambda>_. None) demo_directives") auto
  have "concat (map resource_of (directives demo_directives)) = [\<lparr>action = ''ensure'', rd_name = ''chat'', rd_line = 3\<rparr>]"
    by code_simp
  then show ?thesis using config_well_formed [OF c(1)] c by metis
qed

text \<open>
  The convar form of an endpoint directive loses the address: the name of the directive is stored as
  its value and no endpoint is added.
\<close>

lemma endpoint_convar_lost:
  "let d = \<lparr>verb = ''set'', args = [Bare ''endpoint_add_tcp'', Bare ''0.0.0.0:30120''], raw_arg_count = 2\<rparr> in
   apply_directive normalized_default ''set'' d 1 =
     Inr (normalized_default\<lparr>convars := [(''endpoint_add_tcp'', \<lparr>scope = Local, cv_value = ''endpoint_add_tcp'', cv_line = 1\<rparr>)]\<rparr>)"
  by code_simp

text \<open>A secret is read from the environment whatever its provider.\<close>

lemma provider_ignored:
  assumes "hm_get (secrets c) name = Some s" and "hm_get (secrets c') name = Some s'"
    and "secret_key (handle s) = secret_key (handle s')" and "vars (secret_key (handle s)) = Some v"
  shows "config_secret vars c name = Inr (RedactedValue v) \<and> config_secret vars c' name = Inr (RedactedValue v)"
  using assms by (simp add: config_secret_def env_resolve_def result_map_def)

end
