(* ===== verification/ServerConfig.thy ===== *)
theory ServerConfig
  imports CfgNormalize Paths Core
begin

text \<open>
  The server configuration (\<open>crates/ald-config\<close>) and how the server loads it
  (\<open>server/ald-server/src/config_loader.rs\<close>). The TOML parser, the environment and the file system
  (existence, canonical path, contents as text) are parameters.
\<close>

section \<open>The configuration\<close>

record server_config =
  name :: string
  max_players :: u32
  description :: string

definition server_config_default :: server_config where
  "server_config_default = \<lparr>name = ''Aldivine Server'', max_players = 64, description = []\<rparr>"

definition server_config_validate :: "server_config \<Rightarrow> (unit, ald_error) result" where
  "server_config_validate c =
     (if trim (name c) = [] then Err (Config ''server.name required'')
      else if max_players c = 0 \<or> 4096 < max_players c then Err (Config ''server.max_players out of range 1..=4096'')
      else Ok ())"

record network_config =
  bind_addr :: string
  protocol_version :: u16
  trusted_proxies :: "string list"

definition network_config_default :: network_config where
  "network_config_default = \<lparr>bind_addr = ''0.0.0.0:30120'', protocol_version = 1, trusted_proxies = []\<rparr>"

definition network_config_validate :: "network_config \<Rightarrow> (unit, ald_error) result" where
  "network_config_validate c =
     (if bind_addr c = [] then Err (Config ''network.bind required'')
      else if protocol_version c = 0 then Err (Config ''network.protocol_version must be >= 1'')
      else Ok ())"

record identity_config =
  require_aldivine_account :: bool
  require_gta_entitlement :: bool
  require_rockstar :: bool
  require_steam :: bool
  require_epic :: bool
  require_device_id :: bool
  record_connection_ip :: bool

definition identity_config_default :: identity_config where
  "identity_config_default =
     \<lparr>require_aldivine_account = False, require_gta_entitlement = False, require_rockstar = False,
      require_steam = False, require_epic = False, require_device_id = True, record_connection_ip = True\<rparr>"

definition identity_config_validate :: "identity_config \<Rightarrow> (unit, ald_error) result" where
  "identity_config_validate c =
     (if require_steam c \<and> \<not> require_gta_entitlement c
      then Err (Config ''require_steam requires require_gta_entitlement'') else Ok ())"

record security_config =
  max_connections_per_ip :: u32
  enable_astranet_firewall :: bool
  global_event_rate_limit :: u32

definition security_config_default :: security_config where
  "security_config_default =
     \<lparr>max_connections_per_ip = 8, enable_astranet_firewall = True, global_event_rate_limit = 1000\<rparr>"

definition security_config_validate :: "security_config \<Rightarrow> (unit, ald_error) result" where
  "security_config_validate c =
     (if max_connections_per_ip c = 0 then Err (Config ''security.max_connections_per_ip must be >= 1'')
      else if global_event_rate_limit c = 0 then Err (Config ''security.global_event_rate_limit must be >= 1'')
      else Ok ())"

record resources_config =
  directory :: string
  enabled :: "string list"

definition resources_config_default :: resources_config where
  "resources_config_default = \<lparr>directory = ''resources'', enabled = []\<rparr>"

record runtime_config =
  worker_threads :: u64
  max_resources :: u64

definition runtime_config_default :: runtime_config where
  "runtime_config_default = \<lparr>worker_threads = 4, max_resources = 256\<rparr>"

record config =
  server :: server_config
  network :: network_config
  identity :: identity_config
  security :: security_config
  cfg_resources :: resources_config
  runtime :: runtime_config

definition config_default :: config where
  "config_default =
     \<lparr>server = server_config_default, network = network_config_default, identity = identity_config_default,
      security = security_config_default, cfg_resources = resources_config_default, runtime = runtime_config_default\<rparr>"

fun first_error :: "(unit, 'e) result list \<Rightarrow> (unit, 'e) result" where
  "first_error [] = Ok ()"
| "first_error (Inl e # rs) = Err e"
| "first_error (Inr _ # rs) = first_error rs"

definition config_validate :: "config \<Rightarrow> (unit, ald_error) result" where
  "config_validate c =
     first_error
       [server_config_validate (server c), network_config_validate (network c), identity_config_validate (identity c),
        security_config_validate (security c),
        if worker_threads (runtime c) = 0 then Err (Config ''worker_threads must be >= 1'') else Ok ()]"

definition from_toml :: "(string \<Rightarrow> (config, string) result) \<Rightarrow> string \<Rightarrow> (config, ald_error) result" where
  "from_toml toml s =
     (case toml s of
        Inl e \<Rightarrow> Err (Config e)
      | Inr c \<Rightarrow> (case config_validate c of Inl e \<Rightarrow> Err e | Inr _ \<Rightarrow> Ok c))"

section \<open>Error texts of the server.cfg crate\<close>

definition line_text :: "u32 \<Rightarrow> string" where
  "line_text l = ''line '' @ show_nat (unat l)"

fun cfg_error_to_string :: "cfg_error \<Rightarrow> string" where
  "cfg_error_to_string (UnterminatedString l col) =
     line_text l @ '': unterminated string starting at column '' @ show_nat (unat col)"
| "cfg_error_to_string (WrongArgCount l v expected got) =
     line_text l @ '': directive '' @ backquote v @ '' expects '' @ show_nat expected @ '' argument(s), got '' @ show_nat got"
| "cfg_error_to_string (UnknownDirective l v allowed) =
     line_text l @ '': unknown directive '' @ backquote v @ '' (allowed: '' @ allowed @ '')''"
| "cfg_error_to_string (InvalidValue l why) = line_text l @ '': '' @ why"
| "cfg_error_to_string (DirectiveForbiddenInInclude l v) =
     line_text l @ '': directive '' @ backquote v @ '' is not allowed inside an included file''"
| "cfg_error_to_string (UnknownEnvVar l n) = line_text l @ '': environment variable '' @ backquote n @ '' is not set''"
| "cfg_error_to_string (IncludeOutsideRoot l p) =
     ''include at '' @ line_text l @ '': '' @ backquote p @ '' is outside the allowed config root''"
| "cfg_error_to_string (IncludeTraversal l p) =
     ''include at '' @ line_text l @ '': '' @ backquote p @ '' '' @ [CHR 0xE2, CHR 0x80, CHR 0x94] @
       '' directory traversal ('' @ backquote ''..'' @ '') is not allowed''"
| "cfg_error_to_string (IncludeMissing l p) = ''include at '' @ line_text l @ '': '' @ backquote p @ '' not found''"
| "cfg_error_to_string (IncludeDepthLimit l p limit) =
     ''include depth limit ('' @ show_nat limit @ '') exceeded at '' @ line_text l @ '': '' @ backquote p"
| "cfg_error_to_string (IncludeCycle l p chain) =
     ''include cycle detected at '' @ line_text l @ '': '' @ backquote p @ '' (chain: '' @ chain @ '')''"
| "cfg_error_to_string (EmptySecret l) = ''secret directive at '' @ line_text l @ '' resolved to an empty value''"
| "cfg_error_to_string (SecretProviderError h why) = ''secret provider error for '' @ backquote h @ '': '' @ why"

section \<open>Loading\<close>

datatype config_source = Explicit string | ServerCfg | ServerToml | Default

fun describe :: "config_source \<Rightarrow> string" where
  "describe (Explicit p) = ''explicit --config '' @ p"
| "describe ServerCfg = ''server.cfg''"
| "describe ServerToml = ''server.toml''"
| "describe Default = ''built-in default''"

definition resolve_config_path :: "(upath \<Rightarrow> bool) \<Rightarrow> string list \<Rightarrow> string option \<times> config_source" where
  "resolve_config_path exists argv =
     (case (case position (\<lambda>a. a = ''--config'' \<or> a = ''-c'') argv of
              Some i \<Rightarrow> if i + 1 < length argv then Some (argv ! (i + 1)) else None
            | None \<Rightarrow> None) of
        Some p \<Rightarrow> (Some p, Explicit p)
      | None \<Rightarrow>
          if exists (path_of ''server.cfg'') then (Some ''server.cfg'', ServerCfg)
          else if exists (path_of ''server.toml'') then (Some ''server.toml'', ServerToml)
          else (None, Default))"

definition os_read :: "(upath \<Rightarrow> upath option) \<Rightarrow> (upath \<Rightarrow> string option) \<Rightarrow> upath \<Rightarrow> string \<Rightarrow> string option" where
  "os_read canonicalize read_text root path =
     (case canonicalize (path_join root path) of
        None \<Rightarrow> None
      | Some canonical \<Rightarrow>
          (case canonicalize root of
             None \<Rightarrow> None
           | Some r \<Rightarrow> if \<not> path_starts_with canonical r then None else read_text canonical))"

definition enabled_resources :: "resource_directive list \<Rightarrow> string list" where
  "enabled_resources rs =
     foldl (\<lambda>en r. if action r \<in> {''ensure'', ''start''} \<and> rd_name r \<notin> set en then en @ [rd_name r] else en) [] rs"

definition apply_normalized :: "normalized_server_config \<Rightarrow> (config, ald_error) result" where
  "apply_normalized norm =
     (let c0 = config_default;
          c1 = (case hostname norm of Some n \<Rightarrow> c0\<lparr>server := (server c0)\<lparr>name := n\<rparr>\<rparr> | None \<Rightarrow> c0);
          c2 = (case max_clients norm of Some m \<Rightarrow> c1\<lparr>server := (server c1)\<lparr>max_players := m\<rparr>\<rparr> | None \<Rightarrow> c1);
          c3 = (case endpoint norm of
                  Some ep \<Rightarrow> c2\<lparr>network := (network c2)\<lparr>bind_addr := ep\<rparr>\<rparr>
                | None \<Rightarrow> (case endpoints norm of
                             e # _ \<Rightarrow> c2\<lparr>network := (network c2)\<lparr>bind_addr := addr e\<rparr>\<rparr>
                           | [] \<Rightarrow> c2));
          en = enabled_resources (resources norm);
          c4 = (if en \<noteq> [] then c3\<lparr>cfg_resources := (cfg_resources c3)\<lparr>enabled := en\<rparr>\<rparr> else c3) in
      case config_validate c4 of Inl e \<Rightarrow> Err e | Inr _ \<Rightarrow> Ok c4)"

definition from_server_cfg :: "(string \<Rightarrow> string option) \<Rightarrow> string \<Rightarrow> string \<Rightarrow> (config, ald_error) result" where
  "from_server_cfg vars body src =
     (case from_root vars src body parse_options_default of
        Inl e \<Rightarrow> Err (Config (''server.cfg parse: '' @ cfg_error_to_string e))
      | Inr norm \<Rightarrow> apply_normalized norm)"

definition from_server_cfg_file ::
  "(upath \<Rightarrow> upath option) \<Rightarrow> (upath \<Rightarrow> string option) \<Rightarrow> (string \<Rightarrow> string option) \<Rightarrow> string \<Rightarrow> (config, ald_error) result" where
  "from_server_cfg_file canonicalize read_text vars path =
     (let p = path_of path;
          root = (case path_parent p of Some q \<Rightarrow> q | None \<Rightarrow> path_of ''.'') in
      case path_file_name p of
        None \<Rightarrow> Err (Config (''bad config path '' @ path))
      | Some file \<Rightarrow>
          (case include_resolve (os_read canonicalize read_text root) vars parse_options_default file of
             Inl e \<Rightarrow> Err (Config (''server.cfg includes: '' @ cfg_error_to_string e))
           | Inr doc \<Rightarrow>
               (case from_document vars doc of
                  Inl e \<Rightarrow> Err (Config (''server.cfg normalize: '' @ cfg_error_to_string e))
                | Inr norm \<Rightarrow> apply_normalized norm)))"

text \<open>\<open>read_string\<close> is \<open>read_to_string\<close> with the operating system's message.\<close>

definition load_file ::
  "(upath \<Rightarrow> upath option) \<Rightarrow> (upath \<Rightarrow> (string, string) result) \<Rightarrow> (string \<Rightarrow> string option) \<Rightarrow>
   (string \<Rightarrow> (config, string) result) \<Rightarrow> string \<Rightarrow> (config, ald_error) result" where
  "load_file canonicalize read_string vars toml path =
     (if ends_with path ''.cfg''
      then from_server_cfg_file canonicalize (\<lambda>p. case read_string p of Inl _ \<Rightarrow> None | Inr t \<Rightarrow> Some t) vars path
      else case read_string (path_of path) of
        Inl e \<Rightarrow> Err (Config (''read '' @ path @ '': '' @ e))
      | Inr t \<Rightarrow> from_toml toml t)"

fun load_config ::
  "(upath \<Rightarrow> upath option) \<Rightarrow> (upath \<Rightarrow> (string, string) result) \<Rightarrow> (string \<Rightarrow> string option) \<Rightarrow>
   (string \<Rightarrow> (config, string) result) \<Rightarrow> string option \<Rightarrow> config_source \<Rightarrow> (config, ald_error) result" where
  "load_config can rd vars toml path (Explicit p) = load_file can rd vars toml p"
| "load_config can rd vars toml path ServerCfg =
     load_file can rd vars toml (case path of Some p \<Rightarrow> p | None \<Rightarrow> ''server.cfg'')"
| "load_config can rd vars toml path ServerToml =
     load_file can rd vars toml (case path of Some p \<Rightarrow> p | None \<Rightarrow> ''server.toml'')"
| "load_config can rd vars toml path Default = Ok config_default"

section \<open>Lemmas\<close>

text \<open>The root of the include tree of a configuration file is the directory of that file.\<close>

definition cfg_root :: "string \<Rightarrow> upath" where
  "cfg_root path = (case path_parent (path_of path) of Some q \<Rightarrow> q | None \<Rightarrow> path_of ''.'')"

lemma config_default_valid: "config_validate config_default = Inr ()"
  by code_simp

lemma from_toml_valid: "from_toml toml s = Inr c \<Longrightarrow> config_validate c = Inr ()"
  by (auto simp: from_toml_def split: sum.splits)

lemma apply_normalized_valid: "apply_normalized norm = Inr c \<Longrightarrow> config_validate c = Inr ()"
  by (auto simp: apply_normalized_def Let_def split: sum.splits)

lemma from_server_cfg_file_valid:
  "from_server_cfg_file can rd vars path = Inr c \<Longrightarrow> config_validate c = Inr ()"
  by (auto simp: from_server_cfg_file_def Let_def apply_normalized_valid split: option.splits sum.splits)

lemma load_file_valid: "load_file can rd vars toml path = Inr c \<Longrightarrow> config_validate c = Inr ()"
  by (auto simp: load_file_def from_server_cfg_file_valid from_toml_valid split: if_splits sum.splits)

lemma load_config_valid: "load_config can rd vars toml path src = Inr c \<Longrightarrow> config_validate c = Inr ()"
  by (cases src) (auto simp: load_file_valid config_default_valid)

text \<open>The reader of the loader never hands out a file outside the canonical root.\<close>

lemma os_read_contained:
  assumes "\<And>r p. can root = Some r \<Longrightarrow> path_starts_with p r \<Longrightarrow> rd p = rd' p"
  shows "os_read can rd root = os_read can rd' root"
  using assms by (auto simp: os_read_def fun_eq_iff split: option.splits)

lemma enabled_step:
  "set (foldl (\<lambda>en r. if action r \<in> {''ensure'', ''start''} \<and> rd_name r \<notin> set en then en @ [rd_name r] else en) en0 rs) =
     set en0 \<union> {rd_name r | r. r \<in> set rs \<and> action r \<in> {''ensure'', ''start''}} \<and>
   (distinct en0 \<longrightarrow>
     distinct (foldl (\<lambda>en r. if action r \<in> {''ensure'', ''start''} \<and> rd_name r \<notin> set en then en @ [rd_name r] else en) en0 rs))"
  by (induction rs arbitrary: en0) auto

lemma enabled_resources_exact:
  "distinct (enabled_resources rs) \<and>
   set (enabled_resources rs) = {rd_name r | r. r \<in> set rs \<and> action r \<in> {''ensure'', ''start''}}"
  using enabled_step [of "[]" rs] by (simp add: enabled_resources_def)

lemma apply_normalized_fields:
  assumes "apply_normalized norm = Inr c"
  shows "max_players (server c) = (case max_clients norm of Some m \<Rightarrow> m | None \<Rightarrow> 64)"
    and "enabled (cfg_resources c) = enabled_resources (resources norm)"
  using assms
  by (auto simp: apply_normalized_def Let_def config_default_def server_config_default_def resources_config_default_def
      split: option.splits list.splits if_splits sum.splits)

section \<open>Properties\<close>

text \<open>
  C9. Loading a configuration from a \<open>server.cfg\<close> file reads nothing outside the directory of that
  file: two file systems that agree below the canonical form of that directory give the same result,
  whatever the includes say. The accepted configuration passes \<open>config_validate\<close>.
\<close>

theorem cfg_loading_contained:
  assumes "\<forall>r p. canonicalize (cfg_root path) = Some r \<and> path_starts_with p r \<longrightarrow> read_text p = read_text' p"
  shows "from_server_cfg_file canonicalize read_text vars path =
      from_server_cfg_file canonicalize read_text' vars path \<and>
    (\<forall>c. from_server_cfg_file canonicalize read_text vars path = Inr c \<longrightarrow> config_validate c = Inr ())"
proof -
  have "os_read canonicalize read_text (cfg_root path) = os_read canonicalize read_text' (cfg_root path)"
    using assms by (intro os_read_contained) blast
  then have "from_server_cfg_file canonicalize read_text vars path =
      from_server_cfg_file canonicalize read_text' vars path"
    by (cases "path_file_name (path_of path)") (simp_all add: from_server_cfg_file_def Let_def cfg_root_def)
  then show ?thesis using from_server_cfg_file_valid by blast
qed

definition demo_disk :: "upath \<Rightarrow> string option" where
  "demo_disk p =
     (if p = path_of ''/srv/server.cfg'' then Some (''ensure chat'' @ [CHR 0x0A] @ ''exec more.cfg'')
      else if p = path_of ''/srv/more.cfg'' then Some ''sv_maxclients 48''
      else if p = path_of ''/etc/passwd'' then Some ''ensure root'' else None)"

definition demo_disk_other :: "upath \<Rightarrow> string option" where
  "demo_disk_other p = (if p = path_of ''/etc/passwd'' then None else demo_disk p)"

definition demo_canonicalize :: "upath \<Rightarrow> upath option" where
  "demo_canonicalize p = (if comps p = [] \<and> \<not> absolute p then None else Some (normalize_lexical p))"

theorem cfg_loading_contained_witness:
  "from_server_cfg_file demo_canonicalize demo_disk (\<lambda>_. None) ''/srv/server.cfg'' =
     from_server_cfg_file demo_canonicalize demo_disk_other (\<lambda>_. None) ''/srv/server.cfg'' \<and>
   (\<exists>c. from_server_cfg_file demo_canonicalize demo_disk (\<lambda>_. None) ''/srv/server.cfg'' = Inr c \<and>
     enabled (cfg_resources c) = [''chat''] \<and> max_players (server c) = 48 \<and> config_validate c = Inr ())"
proof -
  have r: "demo_canonicalize (cfg_root ''/srv/server.cfg'') = Some \<lparr>absolute = True, comps = [''srv'']\<rparr>"
    by code_simp
  have e: "path_of ''/etc/passwd'' = \<lparr>absolute = True, comps = [''etc'', ''passwd'']\<rparr>" by code_simp
  have agree: "\<forall>r p. demo_canonicalize (cfg_root ''/srv/server.cfg'') = Some r \<and> path_starts_with p r \<longrightarrow>
      demo_disk p = demo_disk_other p"
    by (auto simp: r demo_disk_other_def e path_starts_with_def)
  have run: "map_sum id (\<lambda>c. (enabled (cfg_resources c), max_players (server c)))
      (from_server_cfg_file demo_canonicalize demo_disk (\<lambda>_. None) ''/srv/server.cfg'') = Inr ([''chat''], 48)"
    by code_simp
  then obtain c where "from_server_cfg_file demo_canonicalize demo_disk (\<lambda>_. None) ''/srv/server.cfg'' = Inr c"
      "enabled (cfg_resources c) = [''chat'']" "max_players (server c) = 48"
    by (cases "from_server_cfg_file demo_canonicalize demo_disk (\<lambda>_. None) ''/srv/server.cfg''") auto
  with cfg_loading_contained [of demo_canonicalize "''/srv/server.cfg''" demo_disk demo_disk_other "\<lambda>_. None", OF agree]
  show ?thesis by blast
qed

text \<open>
  A file named without a directory cannot be loaded: its parent is the empty path, which has no
  canonical form, so the reader refuses every file. This is the case of the default \<open>server.cfg\<close>.
\<close>

lemma bare_cfg_unloadable:
  assumes "canonicalize path_empty = None"
  shows "load_config canonicalize read_string vars toml None ServerCfg =
    Inl (Config (''server.cfg includes: '' @ cfg_error_to_string (IncludeMissing 0 ''server.cfg'')))"
proof -
  have p: "path_of ''server.cfg'' = \<lparr>absolute = False, comps = [''server.cfg'']\<rparr>" by code_simp
  have e: "ends_with ''server.cfg'' ''.cfg''" by code_simp
  have "os_read canonicalize rd path_empty x = None" for rd x
    using assms by (simp add: os_read_def split: option.splits)
  then show ?thesis
    using e by (simp add: load_file_def from_server_cfg_file_def p path_parent_def path_file_name_def
        include_resolve_def Let_def path_empty_def)
qed

end
