(* ===== verification/Vfs.thy ===== *)
theory Vfs
  imports Paths "HOL-Library.List_Lexorder" "HOL-Library.Char_ord"
begin

text \<open>
  The virtual file system of resources (\<open>crates/ald-vfs\<close>): names, lexical checks, mounts, sharing,
  reading and writing. The operating system is a parameter: \<open>canonicalize\<close> gives the canonical form
  of a path or the kind of failure, \<open>fs_read\<close> the contents of a canonical path. A write returns the
  file-system operations it issues, in order, beside its result. Error values that display a path
  carry the path.
\<close>

datatype io_kind = IoNotFound | IoOther

datatype vfs_error =
    BadResourceName string
  | UnknownResource string
  | PathEscape string
  | AbsolutePath
  | ReservedDevice string
  | AdsNotAllowed string
  | CrossResource string string
  | NotFound upath
  | CanonicalEscape upath
  | Io

record mount_rec =
  resource :: string
  root :: upath
  shared_with :: "string list"
  writable :: bool

record vfs =
  mounts :: "(string, mount_rec) hmap"

definition vfs_new :: vfs where
  "vfs_new = \<lparr>mounts = []\<rparr>"

type_synonym canon = "upath \<Rightarrow> (upath, io_kind) result"

section \<open>Names and lexical checks\<close>

definition DEVICE_NAMES :: "string list" where
  "DEVICE_NAMES = [''con'', ''prn'', ''aux'', ''nul'', ''conin$'', ''conout$'', ''$mft'', ''$log'', ''$volume'']"

definition is_reserved_device_name :: "string \<Rightarrow> bool" where
  "is_reserved_device_name c0 =
     (let stem = hd (split_on (\<lambda>c. c = CHR '':'') c0);
          lower = to_ascii_lowercase (trim_end_char (CHR '' '') stem) in
      case (case strip_prefix lower ''com'' of Some r \<Rightarrow> Some r | None \<Rightarrow> strip_prefix lower ''lpt'') of
        Some rest \<Rightarrow>
          rest = [] \<or> list_all is_digit rest \<and>
            (case parse_unsigned (2 ^ 32 - 1) rest of Some n \<Rightarrow> 1 \<le> n \<and> n \<le> 9 | None \<Rightarrow> False)
      | None \<Rightarrow> lower \<in> set DEVICE_NAMES)"

definition validate_resource_name :: "string \<Rightarrow> (unit, vfs_error) result" where
  "validate_resource_name n =
     (if n = [] \<or> 64 < length n then Err (BadResourceName n)
      else if n = ''.'' \<or> n = ''..'' then Err (BadResourceName n)
      else if \<not> list_all (\<lambda>c. is_alnum c \<or> c \<in> {CHR ''_'', CHR ''-'', CHR ''.''}) n then Err (BadResourceName n)
      else if is_reserved_device_name n then Err (ReservedDevice n)
      else Ok ())"

abbreviation is_sep :: "char \<Rightarrow> bool" where
  "is_sep c \<equiv> c = CHR ''/'' \<or> c = CHR 0x5C"

definition split_virtual :: "string \<Rightarrow> (string \<times> string, vfs_error) result" where
  "split_virtual virtual_path =
     (let v = trim virtual_path in
      if \<not> starts_with v ''@'' then Err (PathEscape v)
      else
        let rest = drop 1 v;
            res = takeWhile (\<lambda>c. \<not> is_sep c) rest;
            rel = drop 1 (dropWhile (\<lambda>c. \<not> is_sep c) rest) in
        case validate_resource_name res of Inl e \<Rightarrow> Err e | Inr _ \<Rightarrow> Ok (res, rel))"

text \<open>
  The characters U+0300 to U+036F are the byte pairs CC 80 to CC BF and CD 80 to CD AF; U+200B is
  E2 80 8B and U+202E is E2 80 AE.
\<close>

fun has_combining :: "string \<Rightarrow> bool" where
  "has_combining (a # b # s) =
     (a = CHR 0xCC \<or> a = CHR 0xCD \<and> byte_of b \<le> 175 \<or> has_combining (b # s))"
| "has_combining _ = False"

definition is_normalized_nfc :: "string \<Rightarrow> bool" where
  "is_normalized_nfc s =
     (\<not> (has_combining s \<or> contains_str s [CHR 0xE2, CHR 0x80, CHR 0x8B] \<or>
         contains_str s [CHR 0xE2, CHR 0x80, CHR 0xAE]))"

fun depth_ok :: "int \<Rightarrow> string list \<Rightarrow> bool" where
  "depth_ok d [] = True"
| "depth_ok d (c # cs) =
     (if c = [] \<or> c = ''.'' then depth_ok d cs
      else if c = ''..'' then (if d - 1 < 0 then False else depth_ok (d - 1) cs)
      else depth_ok (d + 1) cs)"

definition sanitize_relative :: "string \<Rightarrow> (string, vfs_error) result" where
  "sanitize_relative rel0 =
     (if rel0 = [] then Ok []
      else if \<not> is_ascii rel0 \<and> \<not> is_normalized_nfc rel0 then Err (PathEscape rel0)
      else if CHR 0x00 \<in> set rel0 then Err (PathEscape ''nul byte'')
      else
        let rel = replace_char (CHR 0x5C) ''/'' rel0;
            parts = split_on (\<lambda>c. c = CHR ''/'') rel in
        if starts_with rel ''/'' \<or> 2 \<le> length rel \<and> rel ! 1 = CHR '':'' then Err AbsolutePath
        else if CHR '':'' \<in> set (last parts) then Err (AdsNotAllowed (last parts))
        else case find is_reserved_device_name parts of
          Some c \<Rightarrow> Err (ReservedDevice c)
        | None \<Rightarrow> if depth_ok 0 parts then Ok rel else Err (PathEscape rel))"

section \<open>Containment\<close>

text \<open>
  \<open>verify_within\<close> walks the components of the candidate; the first one of an absolute path is the
  root directory, allowed when the mount root is absolute.
\<close>

definition verify_within :: "upath \<Rightarrow> upath \<Rightarrow> string \<Rightarrow> (unit, vfs_error) result" where
  "verify_within r candidate rel =
     (if absolute candidate \<and> \<not> absolute r then Err AbsolutePath
      else if ''..'' \<in> set (comps candidate) then Err (PathEscape rel)
      else
        let acc = r\<lparr>comps := comps r @ filter (\<lambda>c. c \<noteq> ''.'') (comps candidate)\<rparr> in
        if \<not> path_starts_with acc r then Err (PathEscape rel) else Ok ())"

definition canonicalize_or :: "canon \<Rightarrow> upath \<Rightarrow> upath" where
  "canonicalize_or canonicalize p = (case canonicalize p of Inr c \<Rightarrow> c | Inl _ \<Rightarrow> normalize_lexical p)"

definition verify_canonical_within :: "canon \<Rightarrow> upath \<Rightarrow> upath \<Rightarrow> (unit, vfs_error) result" where
  "verify_canonical_within canonicalize r target =
     (let root_c = canonicalize_or canonicalize r; target_c = canonicalize_or canonicalize target in
      if target_c = root_c then Ok ()
      else if \<not> path_starts_with target_c root_c then Err (CanonicalEscape target_c)
      else Ok ())"

section \<open>Operations\<close>

definition vfs_mount :: "canon \<Rightarrow> vfs \<Rightarrow> string \<Rightarrow> upath \<Rightarrow> bool \<Rightarrow> vfs \<times> (unit, vfs_error) result" where
  "vfs_mount canonicalize v res r w =
     (case validate_resource_name res of
        Inl e \<Rightarrow> (v, Err e)
      | Inr _ \<Rightarrow>
          (v\<lparr>mounts := hm_insert res
               \<lparr>resource = res, root = canonicalize_or canonicalize r, shared_with = [], writable = w\<rparr> (mounts v)\<rparr>,
           Ok ()))"

definition share :: "vfs \<Rightarrow> string \<Rightarrow> string \<Rightarrow> vfs \<times> (unit, vfs_error) result" where
  "share v res other =
     (case validate_resource_name res of
        Inl e \<Rightarrow> (v, Err e)
      | Inr _ \<Rightarrow>
          (case validate_resource_name other of
             Inl e \<Rightarrow> (v, Err e)
           | Inr _ \<Rightarrow>
               (case hm_get (mounts v) res of
                  None \<Rightarrow> (v, Err (UnknownResource res))
                | Some m \<Rightarrow>
                    (v\<lparr>mounts := hm_insert res
                         (if other \<in> set (shared_with m) then m
                          else m\<lparr>shared_with := shared_with m @ [other]\<rparr>) (mounts v)\<rparr>, Ok ()))))"

definition check_access :: "vfs \<Rightarrow> string \<Rightarrow> string \<Rightarrow> (unit, vfs_error) result" where
  "check_access v res caller =
     (if res = caller then Ok ()
      else case hm_get (mounts v) res of
        Some m \<Rightarrow> if caller \<in> set (shared_with m) then Ok () else Err (CrossResource res caller)
      | None \<Rightarrow> Err (CrossResource res caller))"

definition vfs_resolve :: "vfs \<Rightarrow> string \<Rightarrow> string \<Rightarrow> (upath, vfs_error) result" where
  "vfs_resolve v virtual_path caller =
     (case split_virtual virtual_path of
        Inl e \<Rightarrow> Err e
      | Inr (res, raw) \<Rightarrow>
          (case sanitize_relative raw of
             Inl e \<Rightarrow> Err e
           | Inr rel \<Rightarrow>
               (case hm_get (mounts v) res of
                  None \<Rightarrow> Err (UnknownResource res)
                | Some m \<Rightarrow>
                    (case check_access v res caller of
                       Inl e \<Rightarrow> Err e
                     | Inr _ \<Rightarrow>
                         let candidate = path_join (root m) rel in
                         case verify_within (root m) candidate rel of
                           Inl e \<Rightarrow> Err e
                         | Inr _ \<Rightarrow> Ok candidate))))"

definition parent_or_empty :: "upath \<Rightarrow> upath" where
  "parent_or_empty p = (case path_parent p of Some q \<Rightarrow> q | None \<Rightarrow> path_empty)"

definition io_error :: "upath \<Rightarrow> io_kind \<Rightarrow> vfs_error" where
  "io_error target k = (case k of IoNotFound \<Rightarrow> NotFound target | IoOther \<Rightarrow> Io)"

definition read_resolved :: "canon \<Rightarrow> (upath \<Rightarrow> (bytes, io_kind) result) \<Rightarrow> upath \<Rightarrow> (bytes, vfs_error) result" where
  "read_resolved canonicalize fs_read target =
     (case canonicalize target of
        Inl k \<Rightarrow> Err (io_error target k)
      | Inr real \<Rightarrow>
          (case verify_canonical_within canonicalize (parent_or_empty target) real of
             Inl e \<Rightarrow> Err e
           | Inr _ \<Rightarrow> (case fs_read real of Inl k \<Rightarrow> Err (io_error target k) | Inr b \<Rightarrow> Ok b)))"

definition vfs_read ::
  "canon \<Rightarrow> (upath \<Rightarrow> (bytes, io_kind) result) \<Rightarrow> vfs \<Rightarrow> string \<Rightarrow> string \<Rightarrow> (bytes, vfs_error) result" where
  "vfs_read canonicalize fs_read v virtual_path caller =
     (case vfs_resolve v virtual_path caller of
        Inl e \<Rightarrow> Err e
      | Inr target \<Rightarrow> read_resolved canonicalize fs_read target)"

text \<open>
  \<open>disk\<close> says whether an issued operation succeeds; \<open>stamp\<close> is the clock that makes the name of the
  temporary file.
\<close>

datatype fs_op = FsWrite upath bytes | FsRename upath upath | FsRemove upath

definition write_promote ::
  "canon \<Rightarrow> (fs_op \<Rightarrow> bool) \<Rightarrow> u128 \<Rightarrow> upath \<Rightarrow> upath \<Rightarrow> string \<Rightarrow> bytes \<Rightarrow> fs_op list \<times> (unit, vfs_error) result" where
  "write_promote canonicalize disk stamp r parent_canon file data =
     (let tmp = path_push parent_canon (''.ald-tmp-'' @ show_nat (unat stamp));
          final = path_push parent_canon file in
      if \<not> disk (FsWrite tmp data) then ([FsWrite tmp data], Err Io)
      else case verify_canonical_within canonicalize r final of
        Inl e \<Rightarrow> ([FsWrite tmp data], Err e)
      | Inr _ \<Rightarrow>
          if disk (FsRename tmp final) then ([FsWrite tmp data, FsRename tmp final], Ok ())
          else ([FsWrite tmp data, FsRename tmp final, FsRemove tmp], Err Io))"

definition vfs_write ::
  "canon \<Rightarrow> (fs_op \<Rightarrow> bool) \<Rightarrow> u128 \<Rightarrow> vfs \<Rightarrow> string \<Rightarrow> string \<Rightarrow> bytes \<Rightarrow> fs_op list \<times> (unit, vfs_error) result" where
  "vfs_write canonicalize disk stamp v virtual_path caller data =
     (case split_virtual virtual_path of
        Inl e \<Rightarrow> ([], Err e)
      | Inr (res, rel0) \<Rightarrow>
          if res \<noteq> caller then ([], Err (CrossResource res caller))
          else case hm_get (mounts v) res of
            None \<Rightarrow> ([], Err (UnknownResource res))
          | Some m \<Rightarrow>
              if \<not> writable m then ([], Err Io)
              else case sanitize_relative rel0 of
                Inl e \<Rightarrow> ([], Err e)
              | Inr rel \<Rightarrow>
                  let target = path_join (root m) rel in
                  case verify_within (root m) target rel of
                    Inl e \<Rightarrow> ([], Err e)
                  | Inr _ \<Rightarrow>
                      let parent = parent_or_empty target in
                      if parent = path_empty then ([], Err (PathEscape rel))
                      else
                        let parent_canon = canonicalize_or canonicalize parent in
                        case verify_canonical_within canonicalize (root m) parent_canon of
                          Inl e \<Rightarrow> ([], Err e)
                        | Inr _ \<Rightarrow>
                            write_promote canonicalize disk stamp (root m) parent_canon
                              (case path_file_name target of Some n \<Rightarrow> n | None \<Rightarrow> []) data)"

definition list_dir ::
  "(upath \<Rightarrow> (string list, unit) result) \<Rightarrow> vfs \<Rightarrow> string \<Rightarrow> string \<Rightarrow> (string list, vfs_error) result" where
  "list_dir read_dir v virtual_dir caller =
     (case vfs_resolve v virtual_dir caller of
        Inl e \<Rightarrow> Err e
      | Inr dir \<Rightarrow>
          (case read_dir dir of
             Inl _ \<Rightarrow> Err (NotFound dir)
           | Inr names \<Rightarrow> Ok (sort (filter (\<lambda>n. \<not> starts_with n ''.ald-tmp-'') names))))"

definition mount_count :: "vfs \<Rightarrow> nat" where
  "mount_count v = length (mounts v)"

record vfs_diagnostics =
  d_mounts :: "string list"
  d_writable :: "string list"
  d_shared_edges :: "string list"

definition diagnostics :: "vfs \<Rightarrow> vfs_diagnostics" where
  "diagnostics v =
     \<lparr>d_mounts = sort (map fst (mounts v)),
      d_writable = sort (map (\<lambda>(_, m). resource m) (filter (\<lambda>(_, m). writable m) (mounts v))),
      d_shared_edges = sort (concat (map (\<lambda>(_, m). map (\<lambda>other. resource m @ ''->'' @ other) (shared_with m)) (mounts v)))\<rparr>"

section \<open>Lemmas\<close>


lemma verify_canonical_within_iff:
  "verify_canonical_within canonicalize r t = Inr () \<longleftrightarrow>
   path_starts_with (canonicalize_or canonicalize t) (canonicalize_or canonicalize r)"
  by (auto simp: verify_canonical_within_def Let_def)

lemma verify_within_iff:
  "verify_within r p rel = Inr () \<longleftrightarrow> (absolute p \<longrightarrow> absolute r) \<and> ''..'' \<notin> set (comps p)"
  by (auto simp: verify_within_def Let_def path_starts_with_def)

lemma sanitize_relative_abs: "sanitize_relative raw = Inr rel \<Longrightarrow> \<not> is_abs rel"
  by (auto simp: sanitize_relative_def Let_def is_abs_def starts_with_def split: if_splits option.splits list.splits)


fun op_paths :: "fs_op \<Rightarrow> upath list" where
  "op_paths (FsWrite p _) = [p]"
| "op_paths (FsRename p q) = [p, q]"
| "op_paths (FsRemove p) = [p]"

lemma write_promote_paths:
  "op \<in> set (fst (write_promote canonicalize disk stamp r d file data)) \<Longrightarrow> q \<in> set (op_paths op) \<Longrightarrow>
   q = path_push d file \<or> q = path_push d (''.ald-tmp-'' @ show_nat (unat stamp))"
  by (auto simp: write_promote_def Let_def split: if_splits sum.splits)

lemma write_promote_rename:
  "FsRename t p \<in> set (fst (write_promote canonicalize disk stamp r d file data)) \<Longrightarrow>
   p = path_push d file \<and> verify_canonical_within canonicalize r p = Inr ()"
  by (auto simp: write_promote_def Let_def split: if_splits sum.splits)

lemma write_promote_ok:
  "snd (write_promote canonicalize disk stamp r d file data) = Inr () \<longleftrightarrow>
   (\<exists>t. fst (write_promote canonicalize disk stamp r d file data) = [FsWrite t data, FsRename t (path_push d file)] \<and>
        disk (FsWrite t data) \<and> disk (FsRename t (path_push d file)))"
  by (auto simp: write_promote_def Let_def split: if_splits sum.splits)

text \<open>A write that issues an operation has passed all checks.\<close>

lemma vfs_write_ops:
  assumes "vfs_write canonicalize disk stamp v vp caller data = (ops, r)" and "ops \<noteq> [] \<or> r = Inr ()"
  obtains m target d n where "hm_get (mounts v) caller = Some m" and "writable m"
    and "path_starts_with target (root m)" and "''..'' \<notin> set (comps target)"
    and "d = canonicalize_or canonicalize (parent_or_empty target)" and "n \<noteq> ''..''"
    and "path_starts_with (canonicalize_or canonicalize d) (canonicalize_or canonicalize (root m))"
    and "write_promote canonicalize disk stamp (root m) d n data = (ops, r)"
proof -
  obtain raw rel m where w: "sanitize_relative raw = Inr rel" "hm_get (mounts v) caller = Some m" "writable m"
      "verify_within (root m) (path_join (root m) rel) rel = Inr ()"
      "verify_canonical_within canonicalize (root m) (canonicalize_or canonicalize (parent_or_empty (path_join (root m) rel))) = Inr ()"
      "write_promote canonicalize disk stamp (root m) (canonicalize_or canonicalize (parent_or_empty (path_join (root m) rel)))
         (case path_file_name (path_join (root m) rel) of Some n \<Rightarrow> n | None \<Rightarrow> []) data = (ops, r)"
    using assms by (auto simp: vfs_write_def Let_def split: sum.splits option.splits prod.splits if_splits)
  have "(case path_file_name (path_join (root m) rel) of Some n \<Rightarrow> n | None \<Rightarrow> []) \<noteq> ''..''"
    by (auto simp: path_file_name_def)
  then show ?thesis
    using that w(2-6) path_join_below [OF sanitize_relative_abs [OF w(1)]]
    by (metis verify_canonical_within_iff verify_within_iff)
qed


section \<open>Mounting and sharing as a system\<close>

datatype vfs_op = VMount string upath bool | VShare string string

fun vfs_step :: "canon \<Rightarrow> vfs \<Rightarrow> vfs_op \<Rightarrow> vfs" where
  "vfs_step can v (VMount res r w) = fst (vfs_mount can v res r w)"
| "vfs_step can v (VShare res other) = fst (share v res other)"






section \<open>Properties\<close>


text \<open>A file system in which every absolute path exists and \<open>/srv/a/link\<close> is a link to \<open>/etc\<close>.\<close>

definition demo_canon :: canon where
  "demo_canon p =
     (let q = normalize_lexical p in
      if \<not> absolute q then Inl IoNotFound
      else if take 3 (comps q) = [''srv'', ''a'', ''link''] then Inr (q\<lparr>comps := ''etc'' # drop 3 (comps q)\<rparr>)
      else Inr q)"

definition demo_vfs :: vfs where
  "demo_vfs = foldl (vfs_step demo_canon) vfs_new [VMount ''a'' (path_of ''/srv/a'') True, VShare ''a'' ''b'']"

definition demo_fs_read :: "upath \<Rightarrow> (bytes, io_kind) result" where
  "demo_fs_read p =
     (if p = path_of ''/srv/a/data.txt'' then Inr [1, 2]
      else if p = path_of ''/etc/passwd'' then Inr [3] else Inl IoNotFound)"



text \<open>
  The directory of the target is not itself compared with the root, so a read through a linked
  directory leaves the sandbox. The same path is refused for writing.
\<close>

lemma read_through_linked_dir: "vfs_read demo_canon demo_fs_read demo_vfs ''@a/link/passwd'' ''a'' = Inr [3]"
  by code_simp

lemma write_through_linked_dir:
  "vfs_write demo_canon disk stamp demo_vfs ''@a/link/passwd'' ''a'' data = ([], Inl (CanonicalEscape (path_of ''/etc'')))"
proof -
  have a: "split_virtual ''@a/link/passwd'' = Inr (''a'', ''link/passwd'')" by code_simp
  have b: "sanitize_relative ''link/passwd'' = Inr ''link/passwd''" by code_simp
  have m: "hm_get (mounts demo_vfs) ''a'' =
      Some \<lparr>resource = ''a'', root = path_of ''/srv/a'', shared_with = [''b''], writable = True\<rparr>" by code_simp
  have j: "verify_within (path_of ''/srv/a'') (path_join (path_of ''/srv/a'') ''link/passwd'') ''link/passwd'' = Inr ()"
    by code_simp
  have p: "parent_or_empty (path_join (path_of ''/srv/a'') ''link/passwd'') = path_of ''/srv/a/link''" by code_simp
  have "path_of ''/srv/a/link'' \<noteq> path_empty" "canonicalize_or demo_canon (path_of ''/srv/a/link'') = path_of ''/etc''"
    "verify_canonical_within demo_canon (path_of ''/srv/a'') (path_of ''/etc'') = Inl (CanonicalEscape (path_of ''/etc''))"
    by code_simp+
  then show ?thesis by (simp add: vfs_write_def a b m j p)
qed

text \<open>
  C30. A write stays in the sandbox. Every file-system operation it issues is on an entry of the canonical form of the
  directory of a target, or of its lexical form while that directory does not exist; the target lies below the root of
  the caller's own, writable mount and has no parent step; and that directory, canonicalised, is inside the
  canonicalised root, so a linked directory that leads outside is refused. A file is replaced only if its own canonical form is
  inside as well. It reports success exactly when the temporary file was written and renamed to the target. Nothing is
  assumed of the file system.
\<close>

theorem vfs_write_contained:
  assumes "vfs_write canonicalize disk stamp v vp caller data = (ops, r)"
  shows "(\<forall>op \<in> set ops. \<forall>q \<in> set (op_paths op). \<exists>m target d n.
      hm_get (mounts v) caller = Some m \<and> writable m \<and>
      path_starts_with target (root m) \<and> ''..'' \<notin> set (comps target) \<and>
      d = canonicalize_or canonicalize (parent_or_empty target) \<and> q = path_push d n \<and> n \<noteq> ''..'' \<and>
      path_starts_with (canonicalize_or canonicalize d) (canonicalize_or canonicalize (root m))) \<and>
    (\<forall>t p. FsRename t p \<in> set ops \<longrightarrow> (\<exists>m. hm_get (mounts v) caller = Some m \<and>
      path_starts_with (canonicalize_or canonicalize p) (canonicalize_or canonicalize (root m)))) \<and>
    (r = Inr () \<longleftrightarrow> (\<exists>t p. ops = [FsWrite t data, FsRename t p] \<and> disk (FsWrite t data) \<and> disk (FsRename t p)))"
proof (cases "ops \<noteq> [] \<or> r = Inr ()")
  case False
  then show ?thesis by simp
next
  case True
  from vfs_write_ops [OF assms True] obtain m target d n where w:
      "hm_get (mounts v) caller = Some m" "writable m" "path_starts_with target (root m)" "''..'' \<notin> set (comps target)"
      "d = canonicalize_or canonicalize (parent_or_empty target)" "n \<noteq> ''..''"
      "path_starts_with (canonicalize_or canonicalize d) (canonicalize_or canonicalize (root m))"
      "write_promote canonicalize disk stamp (root m) d n data = (ops, r)" by metis
  have "\<exists>k. q = path_push d k \<and> k \<noteq> ''..''" if "op \<in> set ops" "q \<in> set (op_paths op)" for op q
  proof -
    have "q = path_push d n \<or> q = path_push d (''.ald-tmp-'' @ show_nat (unat stamp))"
      using write_promote_paths [of op canonicalize disk stamp "root m" d n data q] that w(8) by simp
    then show ?thesis using w(6) by (elim disjE) (blast, fastforce)
  qed
  moreover have "path_starts_with (canonicalize_or canonicalize p) (canonicalize_or canonicalize (root m))"
    if "FsRename t p \<in> set ops" for t p
    using write_promote_rename [of t p canonicalize disk stamp "root m" d n data] that w(8)
    by (auto simp: verify_canonical_within_iff)
  moreover have "r = Inr () \<longleftrightarrow> (\<exists>t p. ops = [FsWrite t data, FsRename t p] \<and> disk (FsWrite t data) \<and> disk (FsRename t p))"
    using w(8) by (auto simp: write_promote_def Let_def split: if_splits sum.splits)
  ultimately show ?thesis using w(1-5,7) by metis
qed

theorem vfs_write_contained_witness:
  "vfs_write demo_canon (\<lambda>_. True) 7 demo_vfs ''@a/data.txt'' ''a'' [9] =
     ([FsWrite (path_of ''/srv/a/.ald-tmp-7'') [9], FsRename (path_of ''/srv/a/.ald-tmp-7'') (path_of ''/srv/a/data.txt'')],
      Inr ()) \<and>
   (\<exists>m. hm_get (mounts demo_vfs) ''a'' = Some m \<and>
     path_starts_with (canonicalize_or demo_canon (path_of ''/srv/a/data.txt'')) (canonicalize_or demo_canon (root m)))"
proof -
  have w: "vfs_write demo_canon (\<lambda>_. True) 7 demo_vfs ''@a/data.txt'' ''a'' [9] =
     ([FsWrite (path_of ''/srv/a/.ald-tmp-7'') [9], FsRename (path_of ''/srv/a/.ald-tmp-7'') (path_of ''/srv/a/data.txt'')],
      Inr ())" by code_simp
  show ?thesis
    using vfs_write_contained [OF w, THEN conjunct2, THEN conjunct1, rule_format, of "path_of ''/srv/a/.ald-tmp-7''" "path_of ''/srv/a/data.txt''"] w
    by simp
qed

text \<open>A write that is refused by the last check leaves its temporary file behind.\<close>

lemma temporary_left_behind:
  assumes "disk (FsWrite (path_push d (''.ald-tmp-'' @ show_nat (unat stamp))) data)"
    and "verify_canonical_within canonicalize r (path_push d n) = Inl e"
  shows "write_promote canonicalize disk stamp r d n data =
    ([FsWrite (path_push d (''.ald-tmp-'' @ show_nat (unat stamp))) data], Inl e)"
  using assms by (simp add: write_promote_def Let_def)

end
