(* ===== verification/ContentCache.thy ===== *)
theory ContentCache
  imports RustStrings "HOL-Library.List_Lexorder" "HOL-Library.Char_ord"
begin

text \<open>
  The content-addressed cache (\<open>crates/ald-cache\<close>): staging, verified commit, lookup, repair and
  eviction. The files are part of the state, the objects under the hash that names them and the staged
  payloads under their sequence number. Every operation takes an oracle for the disk, which says what a
  write leaves behind, what a read returns and which calls fail; the hash function is a parameter.
\<close>

section \<open>State\<close>

datatype cache_error =
    CacheIo string
  | HashMismatch string string
  | NoSuchStaged
  | NoSuchObject string
  | BadHash string

record health_report =
  ok :: nat
  corrupt :: "string list"

record content_cache =
  quota_bytes :: u64
  sizes :: "(string, u64) hmap"
  lru :: "string list"
  staged_seq :: u64
  objects :: "(string, bytes) hmap"
  tmp :: "(u64, bytes) hmap"

record disk =
  d_create :: bool
  d_written :: "bytes \<Rightarrow> bytes \<times> bool"
  d_read :: "bytes \<Rightarrow> bytes option"
  d_mkdir :: bool
  d_rename :: bool
  d_remove :: bool
  d_message :: string

definition valid_hash :: "string \<Rightarrow> bool" where
  "valid_hash h \<longleftrightarrow> length h = 64 \<and> list_all (\<lambda>c. is_digit c \<or> 97 \<le> byte_of c \<and> byte_of c \<le> 102) h"

text \<open>The shard and the file name below \<open>objects/\<close>.\<close>

definition object_path :: "string \<Rightarrow> string \<times> string" where
  "object_path h = (take 2 h, drop 2 h)"

section \<open>Operations\<close>

definition touch :: "content_cache \<Rightarrow> string \<Rightarrow> content_cache" where
  "touch c h = c\<lparr>lru := filter (\<lambda>x. x \<noteq> h) (lru c) @ [h]\<rparr>"

text \<open>A directory entry: shard, file name, length and modification time if it is a file.\<close>

type_synonym entry = "string \<times> string \<times> (u64 \<times> nat) option"

fun entry_object :: "entry \<Rightarrow> (string \<times> u64 \<times> nat) option" where
  "entry_object (shard, name, meta) =
     (if length shard \<noteq> 2 \<or> length name \<noteq> 62 then None
      else if \<not> valid_hash (shard @ name) then None
      else case meta of None \<Rightarrow> None | Some (len, mtime) \<Rightarrow> Some (shard @ name, len, mtime))"

definition rescan :: "content_cache \<Rightarrow> entry list \<Rightarrow> content_cache" where
  "rescan c listing =
     foldl (\<lambda>c (h, len, _). c\<lparr>sizes := hm_insert h len (sizes c), lru := lru c @ [h]\<rparr>) c
       (sort_key (\<lambda>(_, _, t). t) (List.map_filter entry_object listing))"

definition cache_open :: "u64 \<Rightarrow> (string, bytes) hmap \<Rightarrow> entry list \<Rightarrow> content_cache" where
  "cache_open quota files listing =
     rescan \<lparr>quota_bytes = quota, sizes = [], lru = [], staged_seq = 0, objects = files, tmp = []\<rparr> listing"

definition stage :: "disk \<Rightarrow> content_cache \<Rightarrow> bytes \<Rightarrow> content_cache \<times> (u64, cache_error) result" where
  "stage io c payload =
     (let k = staged_seq c + 1; c1 = c\<lparr>staged_seq := k\<rparr> in
      if \<not> d_create io then (c1, Err (CacheIo (d_message io)))
      else
        let (left, done_ok) = d_written io payload; c2 = c1\<lparr>tmp := hm_insert k left (tmp c1)\<rparr> in
        if \<not> done_ok then (c2, Err (CacheIo (d_message io))) else (c2, Ok k))"

definition remove_tmp :: "disk \<Rightarrow> content_cache \<Rightarrow> u64 \<Rightarrow> content_cache" where
  "remove_tmp io c k = (if d_remove io then c\<lparr>tmp := hm_remove k (tmp c)\<rparr> else c)"

definition remove_object :: "disk \<Rightarrow> content_cache \<Rightarrow> string \<Rightarrow> content_cache" where
  "remove_object io c h = (if d_remove io then c\<lparr>objects := hm_remove h (objects c)\<rparr> else c)"

definition read_with :: "disk \<Rightarrow> bytes option \<Rightarrow> bytes option" where
  "read_with io f = (case f of None \<Rightarrow> None | Some b \<Rightarrow> d_read io b)"

text \<open>The move of a staged file to the place of its object, if that place is free.\<close>

definition place :: "disk \<Rightarrow> content_cache \<Rightarrow> u64 \<Rightarrow> string \<Rightarrow> content_cache option" where
  "place io c k h =
     (case hm_get (objects c) h of
        Some _ \<Rightarrow> Some (remove_tmp io c k)
      | None \<Rightarrow>
          if \<not> d_mkdir io then None
          else case hm_get (tmp c) k of
            None \<Rightarrow> None
          | Some b \<Rightarrow>
              if \<not> d_rename io then None
              else Some (c\<lparr>objects := hm_insert h b (objects c), tmp := hm_remove k (tmp c)\<rparr>))"

definition commit ::
  "(bytes \<Rightarrow> string) \<Rightarrow> disk \<Rightarrow> content_cache \<Rightarrow> u64 \<Rightarrow> string \<Rightarrow> content_cache \<times> (string \<times> string, cache_error) result" where
  "commit sha io c k expected =
     (if \<not> valid_hash expected then (remove_tmp io c k, Err (BadHash expected))
      else case read_with io (hm_get (tmp c) k) of
        None \<Rightarrow> (c, Err NoSuchStaged)
      | Some b \<Rightarrow>
          if sha b \<noteq> expected then (remove_tmp io c k, Err (HashMismatch expected (sha b)))
          else case place io c k expected of
            None \<Rightarrow> (c, Err (CacheIo (d_message io)))
          | Some c1 \<Rightarrow>
              (case read_with io (hm_get (objects c1) expected) of
                 None \<Rightarrow> (c1, Err (CacheIo (d_message io)))
               | Some landed \<Rightarrow>
                   if sha landed \<noteq> expected
                   then (remove_object io c1 expected, Err (HashMismatch expected (sha landed)))
                   else
                     (touch (c1\<lparr>sizes := hm_insert expected (of_nat (length landed)) (sizes c1)\<rparr>) expected,
                      Ok (object_path expected))))"

definition cache_get :: "content_cache \<Rightarrow> string \<Rightarrow> content_cache \<times> (string \<times> string) option" where
  "cache_get c h =
     (if \<not> valid_hash h then (c, None)
      else if hm_get (objects c) h \<noteq> None then (touch c h, Some (object_path h)) else (c, None))"

definition verify :: "(bytes \<Rightarrow> string) \<Rightarrow> disk \<Rightarrow> content_cache \<Rightarrow> string \<Rightarrow> (bool, cache_error) result" where
  "verify sha io c h =
     (if \<not> valid_hash h then Err (BadHash h)
      else case hm_get (objects c) h of
        None \<Rightarrow> Ok False
      | Some f \<Rightarrow>
          (case d_read io f of None \<Rightarrow> Err (CacheIo (d_message io)) | Some b \<Rightarrow> Ok (sha b = h)))"

fun verify_keys ::
  "(bytes \<Rightarrow> string) \<Rightarrow> disk \<Rightarrow> content_cache \<Rightarrow> string list \<Rightarrow> health_report \<Rightarrow> (health_report, cache_error) result" where
  "verify_keys sha io c [] r = Ok r"
| "verify_keys sha io c (h # hs) r =
     (case verify sha io c h of
        Inl e \<Rightarrow> Err e
      | Inr good \<Rightarrow>
          verify_keys sha io c hs (if good then r\<lparr>ok := ok r + 1\<rparr> else r\<lparr>corrupt := corrupt r @ [h]\<rparr>))"

definition verify_all :: "(bytes \<Rightarrow> string) \<Rightarrow> disk \<Rightarrow> content_cache \<Rightarrow> (health_report, cache_error) result" where
  "verify_all sha io c =
     (case verify_keys sha io c (hm_keys (sizes c)) \<lparr>ok = 0, corrupt = []\<rparr> of
        Inl e \<Rightarrow> Err e
      | Inr r \<Rightarrow> Ok (r\<lparr>corrupt := sort (corrupt r)\<rparr>))"

text \<open>The removal of a file with its bookkeeping.\<close>

definition forget :: "disk \<Rightarrow> content_cache \<Rightarrow> string \<Rightarrow> content_cache" where
  "forget io c h =
     (let c1 = remove_object io c h in
      c1\<lparr>sizes := hm_remove h (sizes c1), lru := filter (\<lambda>x. x \<noteq> h) (lru c1)\<rparr>)"

text \<open>Empty shard directories, which \<open>repair\<close> also removes, are not part of the state.\<close>

definition repair :: "(bytes \<Rightarrow> string) \<Rightarrow> disk \<Rightarrow> content_cache \<Rightarrow> content_cache \<times> (string list, cache_error) result" where
  "repair sha io c =
     (case verify_all sha io c of
        Inl e \<Rightarrow> (c, Err e)
      | Inr r \<Rightarrow> (foldl (forget io) c (corrupt r), Ok (corrupt r)))"

definition size_bytes :: "content_cache \<Rightarrow> u64" where
  "size_bytes c = sum_list (hm_values (sizes c))"

definition object_count :: "content_cache \<Rightarrow> nat" where
  "object_count c = length (sizes c)"

lemma forget_fields [simp]:
  "sizes (forget io c h) = hm_remove h (sizes c)" "lru (forget io c h) = filter (\<lambda>x. x \<noteq> h) (lru c)"
  "quota_bytes (forget io c h) = quota_bytes c" "tmp (forget io c h) = tmp c"
  "objects (forget io c h) = (if d_remove io then hm_remove h (objects c) else objects c)"
  by (simp_all add: forget_def remove_object_def Let_def)

function evict_to_fit :: "disk \<Rightarrow> content_cache \<Rightarrow> string list \<Rightarrow> content_cache \<times> string list" where
  "evict_to_fit io c protected =
     (if quota_bytes c < size_bytes c then
        (case find (\<lambda>h. h \<notin> set protected) (lru c) of
           None \<Rightarrow> (c, [])
         | Some h \<Rightarrow> (let (c', rest) = evict_to_fit io (forget io c h) protected in (c', h # rest)))
      else (c, []))"
  by pat_completeness auto
termination
proof (relation "measure (\<lambda>(_, c, _). length (lru c))")
  fix io :: disk and c :: content_cache and protected :: "string list" and h
  assume "find (\<lambda>h. h \<notin> set protected) (lru c) = Some h"
  then have "h \<in> set (lru c)" by (metis find_Some_iff nth_mem)
  then show "((io, forget io c h, protected), io, c, protected) \<in> measure (\<lambda>(_, c, _). length (lru c))"
    by (simp add: length_filter_less)
qed simp

declare evict_to_fit.simps [simp del]

section \<open>Eviction\<close>

text \<open>The eviction candidates, oldest first.\<close>

definition unprotected :: "string list \<Rightarrow> content_cache \<Rightarrow> string list" where
  "unprotected protected c = filter (\<lambda>h. h \<notin> set protected) (lru c)"

lemma find_filter: "find P xs = (case filter P xs of [] \<Rightarrow> None | x # _ \<Rightarrow> Some x)"
  by (induction xs) auto

lemma evict_step:
  "evict_to_fit io c protected =
     (if quota_bytes c < size_bytes c then
        (case unprotected protected c of
           [] \<Rightarrow> (c, [])
         | h # _ \<Rightarrow> (fst (evict_to_fit io (forget io c h) protected), h # snd (evict_to_fit io (forget io c h) protected)))
      else (c, []))"
  by (simp add: evict_to_fit.simps [of io c] unprotected_def find_filter case_prod_beta split: list.split)

lemma unprotected_forget:
  assumes "unprotected protected c = h # us" and "distinct (lru c)"
  shows "unprotected protected (forget io c h) = us" and "distinct (lru (forget io c h))"
proof -
  have "distinct (h # us)" using assms by (metis unprotected_def distinct_filter)
  moreover have "unprotected protected (forget io c h) = filter (\<lambda>x. x \<noteq> h) (unprotected protected c)"
    by (auto simp: unprotected_def conj_commute intro: filter_cong)
  ultimately show "unprotected protected (forget io c h) = us"
    using assms(1) by (auto simp: filter_id_conv)
  show "distinct (lru (forget io c h))" using assms(2) by simp
qed

lemma forget_all_quota [simp]: "quota_bytes (foldl (forget io) c hs) = quota_bytes c"
  by (induction hs arbitrary: c) auto

lemma evict_prefix:
  assumes "unprotected protected c = us" and "distinct (lru c)"
  shows "\<exists>n \<le> length us.
    evict_to_fit io c protected = (foldl (forget io) c (take n us), take n us) \<and>
    (size_bytes (foldl (forget io) c (take n us)) \<le> quota_bytes c \<or> n = length us) \<and>
    (\<forall>k < n. quota_bytes c < size_bytes (foldl (forget io) c (take k us)))"
  using assms
proof (induction us arbitrary: c)
  case Nil
  then show ?case by (simp add: evict_step [of io c])
next
  case (Cons h us)
  show ?case
  proof (cases "quota_bytes c < size_bytes c")
    case False
    then show ?thesis by (intro exI [of _ 0]) (simp add: evict_step [of io c])
  next
    case True
    let ?c = "forget io c h"
    obtain n where n: "n \<le> length us"
        "evict_to_fit io ?c protected = (foldl (forget io) ?c (take n us), take n us)"
        "size_bytes (foldl (forget io) ?c (take n us)) \<le> quota_bytes ?c \<or> n = length us"
        "\<forall>k < n. quota_bytes ?c < size_bytes (foldl (forget io) ?c (take k us))"
      using Cons.IH [OF unprotected_forget [OF Cons.prems]] by blast
    have "quota_bytes c < size_bytes (foldl (forget io) c (take k (h # us)))" if "k < Suc n" for k
      using that n(4) True by (cases k) auto
    then show ?thesis
      using n True Cons.prems(1) by (intro exI [of _ "Suc n"]) (simp add: evict_step [of io c])
  qed
qed

section \<open>The cache as a system\<close>

text \<open>A disk on which every call succeeds and reads return what was written.\<close>

definition honest :: disk where
  "honest = \<lparr>d_create = True, d_written = (\<lambda>b. (b, True)), d_read = Some, d_mkdir = True, d_rename = True,
     d_remove = True, d_message = []\<rparr>"

datatype cache_op = CStage bytes | CCommit u64 string | CGet string | CRepair | CEvict "string list"

text \<open>
  An event is an operation on a disk of its own, or a restart: the directory is opened again with the files
  it holds and whatever listing the operating system returns.
\<close>

datatype cache_event = On disk cache_op | Reopen u64 "entry list"

fun cache_step :: "(bytes \<Rightarrow> string) \<Rightarrow> content_cache \<Rightarrow> cache_event \<Rightarrow> content_cache" where
  "cache_step sha c (On io (CStage b)) = fst (stage io c b)"
| "cache_step sha c (On io (CCommit k h)) = fst (commit sha io c k h)"
| "cache_step sha c (On io (CGet h)) = fst (cache_get c h)"
| "cache_step sha c (On io CRepair) = fst (repair sha io c)"
| "cache_step sha c (On io (CEvict p)) = fst (evict_to_fit io c p)"
| "cache_step sha c (Reopen quota listing) = cache_open quota (objects c) listing"

abbreviation clean_step :: "(bytes \<Rightarrow> string) \<Rightarrow> content_cache \<Rightarrow> cache_op \<Rightarrow> content_cache" where
  "clean_step sha c op \<equiv> cache_step sha c (On honest op)"

text \<open>Sizes, recency and files describe the same objects, and each file has the hash that names it.\<close>

definition cache_ok :: "(bytes \<Rightarrow> string) \<Rightarrow> content_cache \<Rightarrow> bool" where
  "cache_ok sha c \<longleftrightarrow>
     hm_wf (sizes c) \<and> distinct (lru c) \<and> (\<forall>h. h \<in> set (lru c) \<longleftrightarrow> hm_get (sizes c) h \<noteq> None) \<and>
     (\<forall>h. hm_get (objects c) h = None \<longleftrightarrow> hm_get (sizes c) h = None) \<and>
     (\<forall>h b. hm_get (objects c) h = Some b \<longrightarrow>
        valid_hash h \<and> sha b = h \<and> hm_get (sizes c) h = Some (of_nat (length b)))"

lemma cache_ok_touch:
  "cache_ok sha c \<Longrightarrow> hm_get (objects c) h \<noteq> None \<Longrightarrow> cache_ok sha (touch c h)"
  by (auto simp: cache_ok_def touch_def)

lemma cache_ok_forget: "cache_ok sha c \<Longrightarrow> cache_ok sha (forget honest c h)"
  by (auto simp: cache_ok_def honest_def hm_simps)

lemma cache_ok_forget_all: "cache_ok sha c \<Longrightarrow> cache_ok sha (foldl (forget honest) c hs)"
  by (induction hs arbitrary: c) (auto simp: cache_ok_forget)

lemma cache_ok_stage: "cache_ok sha c \<Longrightarrow> cache_ok sha (fst (stage honest c b))"
  by (simp add: stage_def honest_def Let_def cache_ok_def)

lemma cache_ok_commit:
  assumes "cache_ok sha c"
  shows "cache_ok sha (fst (commit sha honest c k h))"
  using assms
  by (auto simp: commit_def place_def read_with_def remove_tmp_def remove_object_def honest_def cache_ok_def touch_def hm_simps
      split: option.splits if_splits)

lemma verify_keys_good:
  assumes "\<forall>h \<in> set hs. verify sha io c h = Inr True"
  shows "verify_keys sha io c hs r = Inr (r\<lparr>ok := ok r + length hs\<rparr>)"
  using assms by (induction hs arbitrary: r) auto

lemma verify_keys_result:
  assumes "verify_keys sha io c hs r = Inr r'"
  shows "corrupt r' = corrupt r @ filter (\<lambda>h. verify sha io c h = Inr False) hs \<and>
    (\<forall>h \<in> set hs. verify sha io c h = Inr True \<or> verify sha io c h = Inr False)"
  using assms by (induction hs arbitrary: r) (fastforce split: sum.splits if_splits)+

lemma cache_ok_verify: "cache_ok sha c \<Longrightarrow> hm_get (sizes c) h \<noteq> None \<Longrightarrow> verify sha honest c h = Inr True"
  by (auto simp: cache_ok_def verify_def honest_def split: option.splits)

lemma cache_ok_healthy:
  assumes "cache_ok sha c"
  shows "verify_all sha honest c = Inr \<lparr>ok = object_count c, corrupt = []\<rparr>"
proof -
  have "\<forall>h \<in> set (hm_keys (sizes c)). verify sha honest c h = Inr True"
    using cache_ok_verify [OF assms] by (auto simp: map_of_eq_None_iff)
  then show ?thesis by (simp add: verify_all_def verify_keys_good object_count_def)
qed

lemma cache_ok_step: "cache_ok sha c \<Longrightarrow> cache_ok sha (clean_step sha c op)"
proof (cases op)
  case (CEvict p)
  assume c: "cache_ok sha c"
  then have d: "distinct (lru c)" by (simp add: cache_ok_def)
  obtain n where "fst (evict_to_fit honest c p) = foldl (forget honest) c (take n (unprotected p c))"
    using evict_prefix [OF refl d, of p honest] by (metis fst_conv)
  then show ?thesis using c CEvict by (simp add: cache_ok_forget_all)
qed (auto simp: cache_ok_stage cache_ok_commit cache_get_def cache_ok_touch repair_def cache_ok_healthy)

interpretation cache_run: op_system "cache_open quota [] []" "clean_step sha" "cache_ok sha" for quota sha
  by unfold_locales (simp add: cache_ok_def cache_open_def rescan_def List.map_filter_simps, rule cache_ok_step)

text \<open>On any disk: a successful commit has read staged bytes and landed bytes with the expected hash.\<close>

lemma commit_ok:
  assumes "commit sha io c k h = (c', Inr p)"
  obtains b c1 landed where "valid_hash h" and "p = object_path h"
    and "read_with io (hm_get (tmp c) k) = Some b" and "sha b = h" and "place io c k h = Some c1"
    and "read_with io (hm_get (objects c1) h) = Some landed" and "sha landed = h"
    and "c' = touch (c1\<lparr>sizes := hm_insert h (of_nat (length landed)) (sizes c1)\<rparr>) h"
  using assms by (auto simp: commit_def split: if_splits option.splits)

lemma place_objects:
  "place io c k h = Some c1 \<Longrightarrow> x \<noteq> h \<Longrightarrow> hm_get (objects c1) x = hm_get (objects c) x"
  by (auto simp: place_def remove_tmp_def hm_simps split: if_splits option.splits)

lemma commit_verified:
  assumes "commit sha io c k h = (c', Inr p)"
  shows "valid_hash h \<and> p = object_path h \<and> (\<exists>b. read_with io (hm_get (tmp c) k) = Some b \<and> sha b = h) \<and>
    (\<exists>b. read_with io (hm_get (objects c') h) = Some b \<and> sha b = h \<and> hm_get (sizes c') h = Some (of_nat (length b))) \<and>
    last (lru c') = h \<and> (\<forall>x. x \<noteq> h \<longrightarrow> hm_get (objects c') x = hm_get (objects c) x)"
proof -
  obtain b c1 landed where c: "valid_hash h" "p = object_path h" "read_with io (hm_get (tmp c) k) = Some b" "sha b = h"
      "place io c k h = Some c1" "read_with io (hm_get (objects c1) h) = Some landed" "sha landed = h"
      "c' = touch (c1\<lparr>sizes := hm_insert h (of_nat (length landed)) (sizes c1)\<rparr>) h"
    using commit_ok [OF assms] by metis
  then show ?thesis using place_objects [OF c(5)] by (simp add: touch_def hm_simps)
qed

text \<open>A failed commit never adds an object whose bytes read back with another hash, if removal works.\<close>

lemma commit_refused:
  assumes "commit sha io c k h = (c', Inl (HashMismatch e a))" and "d_remove io"
  shows "hm_get (tmp c') k = None \<and> (hm_get (objects c') h = hm_get (objects c) h \<or> hm_get (objects c') h = None)"
  using assms
  by (auto simp: commit_def place_def remove_tmp_def remove_object_def hm_simps split: if_splits option.splits)

lemma stage_commit_get:
  assumes "valid_hash (sha b)" and "stage honest c b = (c1, Inr k)" and "hm_get (objects c) (sha b) = None"
  shows "snd (commit sha honest c1 k (sha b)) = Inr (object_path (sha b)) \<and>
    snd (cache_get (fst (commit sha honest c1 k (sha b))) (sha b)) = Some (object_path (sha b)) \<and>
    hm_get (objects (fst (commit sha honest c1 k (sha b)))) (sha b) = Some b"
  using assms
  by (auto simp: stage_def honest_def commit_def place_def read_with_def cache_get_def touch_def Let_def hm_simps)

lemma forget_all_fields:
  "lru (foldl (forget io) c hs) = filter (\<lambda>x. x \<notin> set hs) (lru c)"
  "hm_get (sizes (foldl (forget io) c hs)) h = (if h \<in> set hs then None else hm_get (sizes c) h)"
  "d_remove io \<Longrightarrow> hm_get (objects (foldl (forget io) c hs)) h = (if h \<in> set hs then None else hm_get (objects c) h)"
  by (induction hs arbitrary: c) (auto simp: hm_simps intro: filter_cong)

text \<open>After a repair on a disk that removes files, every object still tracked has the right hash.\<close>

lemma repair_sound:
  assumes "repair sha io c = (c', Inr gone)" and "d_remove io" and "hm_get (sizes c') h \<noteq> None"
  shows "verify sha io c' h = Inr True \<and> h \<notin> set gone"
proof -
  obtain r where r: "verify_keys sha io c (hm_keys (sizes c)) \<lparr>ok = 0, corrupt = []\<rparr> = Inr r"
      "gone = sort (corrupt r)" "c' = foldl (forget io) c gone"
    using assms(1) by (auto simp: repair_def verify_all_def split: sum.splits)
  have h: "h \<notin> set gone" "hm_get (sizes c) h \<noteq> None" using assms(3) r(3) by (auto simp: forget_all_fields split: if_splits)
  then have "h \<in> set (hm_keys (sizes c))" by (auto simp: map_of_eq_None_iff)
  then have "verify sha io c h = Inr True" using verify_keys_result [OF r(1)] h(1) r(2) by auto
  then show ?thesis using h r(3) assms(2) by (auto simp: verify_def forget_all_fields split: if_splits)
qed

section \<open>Properties\<close>

text \<open>
  In a new directory and on a disk without failures nothing is ever lost or misnamed, and the recency list and
  the sizes describe exactly the stored objects.
\<close>

lemma clean_accounting:
  assumes "c = foldl (clean_step sha) (cache_open quota [] []) ops"
  shows "verify_all sha honest c = Inr \<lparr>ok = object_count c, corrupt = []\<rparr> \<and>
    distinct (lru c) \<and>
    (\<forall>h. h \<in> set (lru c) \<longleftrightarrow> hm_get (objects c) h \<noteq> None) \<and>
    (\<forall>h. hm_get (sizes c) h = map_option (of_nat \<circ> length) (hm_get (objects c) h))"
proof -
  have c: "cache_ok sha c" using assms cache_run.inv_reach by blast
  have "hm_get (sizes c) h = map_option (of_nat \<circ> length) (hm_get (objects c) h)" for h
    using c by (cases "hm_get (objects c) h") (auto simp: cache_ok_def)
  moreover have "distinct (lru c)" "\<forall>h. h \<in> set (lru c) \<longleftrightarrow> hm_get (objects c) h \<noteq> None"
    using c by (auto simp: cache_ok_def)
  ultimately show ?thesis using cache_ok_healthy [OF c] by auto
qed

section \<open>Any directory, any disk that reads what is stored\<close>

text \<open>A read fails or returns the bytes of the file; everything else a disk does may fail or go wrong.\<close>

definition faithful :: "disk \<Rightarrow> bool" where
  "faithful io \<longleftrightarrow> (\<forall>b. d_read io b = None \<or> d_read io b = Some b)"

fun event_faithful :: "cache_event \<Rightarrow> bool" where
  "event_faithful (On io op) = faithful io"
| "event_faithful (Reopen quota listing) = True"

definition intact :: "(bytes \<Rightarrow> string) \<Rightarrow> content_cache \<Rightarrow> string \<Rightarrow> bool" where
  "intact sha c h \<longleftrightarrow> (\<exists>b. hm_get (objects c) h = Some b \<and> sha b = h)"

text \<open>Every object has the hash that names it, or was found with these very bytes in the directory.\<close>

definition vouched :: "(bytes \<Rightarrow> string) \<Rightarrow> (string, bytes) hmap \<Rightarrow> content_cache \<Rightarrow> bool" where
  "vouched sha files c \<longleftrightarrow> (\<forall>h b. hm_get (objects c) h = Some b \<longrightarrow> sha b = h \<or> hm_get files h = Some b)"

lemma faithful_read: "faithful io \<Longrightarrow> read_with io f = Some b \<Longrightarrow> f = Some b"
  by (auto simp: faithful_def read_with_def split: option.splits) (metis option.distinct(1) option.inject)

lemma cache_open_objects [simp]: "objects (cache_open quota files listing) = files"
proof -
  have "objects (foldl (\<lambda>c (h, len, _). c\<lparr>sizes := hm_insert h len (sizes c), lru := lru c @ [h]\<rparr>) c xs) = objects c"
    for c :: content_cache and xs :: "(string \<times> u64 \<times> nat) list"
    by (induction xs arbitrary: c) (auto simp: split_beta)
  then show ?thesis by (simp add: cache_open_def rescan_def)
qed

lemma objects_forget_all:
  "hm_get (objects (foldl (forget io) c hs)) h = None \<or> hm_get (objects (foldl (forget io) c hs)) h = hm_get (objects c) h"
proof (induction hs arbitrary: c)
  case (Cons x hs)
  show ?case using Cons.IH [of "forget io c x"] by (auto simp: hm_simps split: if_splits)
qed simp

lemma vouched_smaller:
  "vouched sha files c \<Longrightarrow> (\<And>h. hm_get (objects c') h = None \<or> hm_get (objects c') h = hm_get (objects c) h) \<Longrightarrow>
   vouched sha files c'"
  unfolding vouched_def by (metis option.distinct(1))

lemma vouched_commit:
  assumes "vouched sha files c" and "faithful io"
  shows "vouched sha files (fst (commit sha io c k h))"
proof -
  have p: "vouched sha files c1" if "place io c k h = Some c1" "read_with io (hm_get (tmp c) k) = Some b" "sha b = h" for c1 b
  proof -
    have "hm_get (objects c1) x = hm_get (objects c) x \<or> x = h \<and> hm_get (objects c1) x = Some b" for x
      using that(1) faithful_read [OF assms(2) that(2)]
      by (auto simp: place_def remove_tmp_def hm_simps split: option.splits if_splits)
    then show ?thesis using assms(1) that(3) unfolding vouched_def by (metis option.inject)
  qed
  have r: "vouched sha files (remove_tmp io c1 k)" "vouched sha files (remove_object io c1 h)"
    "vouched sha files (touch (c1\<lparr>sizes := z\<rparr>) h)" if "vouched sha files c1" for c1 z
    using that by (auto simp: vouched_def remove_tmp_def remove_object_def touch_def hm_simps)
  show ?thesis
    using assms(1) by (auto simp: commit_def r p split: option.splits)
qed

lemma evict_objects:
  "hm_get (objects (fst (evict_to_fit io c p))) h = None \<or> hm_get (objects (fst (evict_to_fit io c p))) h = hm_get (objects c) h"
proof (induction io c p rule: evict_to_fit.induct)
  case (1 io c p)
  show ?case
  proof (cases "quota_bytes c < size_bytes c")
    case True
    then show ?thesis
      using 1 [OF True] by (subst (1 2) evict_to_fit.simps) (auto simp: Let_def hm_simps split: option.splits prod.splits if_splits)
  qed (subst (1 2) evict_to_fit.simps, simp)
qed

lemma vouched_step:
  assumes "vouched sha files c" and "event_faithful ev"
  shows "vouched sha files (cache_step sha c ev)"
proof (cases ev)
  case (On io op)
  then have io: "faithful io" using assms(2) by simp
  show ?thesis
  proof (cases op)
    case (CStage b)
    then show ?thesis using assms(1) On by (simp add: stage_def vouched_def Let_def split: prod.split)
  next
    case (CCommit k h)
    then show ?thesis using vouched_commit [OF assms(1) io] On by simp
  next
    case (CGet h)
    then show ?thesis using assms(1) On by (simp add: cache_get_def touch_def vouched_def)
  next
    case CRepair
    then show ?thesis
      using On vouched_smaller [OF assms(1) objects_forget_all] assms(1) by (simp add: repair_def split: sum.split)
  next
    case (CEvict p)
    then show ?thesis using On vouched_smaller [OF assms(1) evict_objects] by simp
  qed
qed (use assms(1) in \<open>simp add: vouched_def\<close>)

interpretation vouched_run: guarded_system "cache_open quota files listing" "cache_step sha" event_faithful "vouched sha files"
  for quota files listing sha
  by unfold_locales (simp add: vouched_def, rule vouched_step)

lemma verify_meaning:
  assumes "verify sha io c h = Inr r" and "faithful io"
  shows "r \<longleftrightarrow> intact sha c h"
proof (cases "hm_get (objects c) h")
  case None
  then show ?thesis using assms(1) by (simp add: verify_def intact_def split: if_splits)
next
  case (Some f)
  obtain b where "d_read io f = Some b" "r \<longleftrightarrow> sha b = h"
    using assms(1) Some by (auto simp: verify_def split: if_splits option.splits)
  moreover have "d_read io f = None \<or> d_read io f = Some f" using assms(2) by (simp add: faithful_def)
  ultimately show ?thesis using Some by (simp add: intact_def)
qed

lemma repair_meaning:
  assumes "repair sha io c = (c', Inr gone)" and "faithful io" and "d_remove io"
  shows "set gone = {h. hm_get (sizes c) h \<noteq> None \<and> \<not> intact sha c h}"
    and "hm_get (sizes c') h \<noteq> None \<Longrightarrow> intact sha c' h"
    and "hm_get (objects c') h = (if h \<in> set gone then None else hm_get (objects c) h)"
proof -
  obtain r where r: "verify_keys sha io c (hm_keys (sizes c)) \<lparr>ok = 0, corrupt = []\<rparr> = Inr r"
      "gone = sort (corrupt r)" "c' = foldl (forget io) c gone"
    using assms(1) by (auto simp: repair_def verify_all_def split: sum.splits)
  note k = verify_keys_result [OF r(1)]
  have v: "verify sha io c x = Inr False \<longleftrightarrow> \<not> intact sha c x" if "x \<in> set (hm_keys (sizes c))" for x
    using k that verify_meaning [OF _ assms(2), of sha c x True] verify_meaning [OF _ assms(2), of sha c x False] by metis
  have t: "x \<in> set (hm_keys (sizes c)) \<longleftrightarrow> hm_get (sizes c) x \<noteq> None" for x
    by (metis map_of_eq_None_iff set_map)
  have "set gone = {x. x \<in> set (hm_keys (sizes c)) \<and> verify sha io c x = Inr False}" using k r(2) by auto
  then show g: "set gone = {h. hm_get (sizes c) h \<noteq> None \<and> \<not> intact sha c h}" using v t by blast
  show o: "hm_get (objects c') h = (if h \<in> set gone then None else hm_get (objects c) h)"
    using r(3) forget_all_fields(3) assms(3) by simp
  have z: "hm_get (sizes c') h = (if h \<in> set gone then None else hm_get (sizes c) h)"
    using r(3) forget_all_fields(2) by simp
  show "hm_get (sizes c') h \<noteq> None \<Longrightarrow> intact sha c' h"
  proof (cases "h \<in> set gone")
    case False
    then have "intact sha c h" if "hm_get (sizes c) h \<noteq> None" using g that by blast
    then show "hm_get (sizes c') h \<noteq> None \<Longrightarrow> intact sha c' h" using False o z by (simp add: intact_def)
  qed (simp add: z)
qed

text \<open>
  C12. Whatever the directory holds when it is opened, and however creating, writing, renaming and removing
  files fail or go wrong in between, as long as a read fails or returns the bytes of the file: what the cache
  serves under a hash has that hash or was already in the directory with these bytes, for a lookup does not
  hash again. A commit that succeeds leaves under the hash bytes that have it, with their size recorded,
  and leaves every other object alone, also if a corrupt file was in the place. A verification that answers
  says whether the stored bytes have the hash; a repair that answers, on a disk that removes files, deletes
  exactly the tracked objects that are missing or corrupt, after which every tracked object is intact.
\<close>

theorem cache_serves_verified:
  assumes "c = foldl (cache_step sha) (cache_open quota files listing) evs"
    and "\<forall>ev \<in> set evs. event_faithful ev" and "faithful io"
  shows "(\<forall>h p. snd (cache_get c h) = Some p \<longrightarrow> p = object_path h \<and> valid_hash h \<and>
      (\<exists>b. hm_get (objects c) h = Some b \<and> (sha b = h \<or> hm_get files h = Some b))) \<and>
    (\<forall>k h p c'. commit sha io c k h = (c', Inr p) \<longrightarrow> p = object_path h \<and>
      (\<exists>b. hm_get (objects c') h = Some b \<and> sha b = h \<and> hm_get (sizes c') h = Some (of_nat (length b))) \<and>
      (\<forall>x. x \<noteq> h \<longrightarrow> hm_get (objects c') x = hm_get (objects c) x)) \<and>
    (\<forall>h r. verify sha io c h = Inr r \<longrightarrow> (r \<longleftrightarrow> intact sha c h)) \<and>
    (\<forall>c' gone. repair sha io c = (c', Inr gone) \<and> d_remove io \<longrightarrow>
      set gone = {h. hm_get (sizes c) h \<noteq> None \<and> \<not> intact sha c h} \<and>
      (\<forall>h. hm_get (sizes c') h \<noteq> None \<longrightarrow> intact sha c' h) \<and>
      (\<forall>h. hm_get (objects c') h = (if h \<in> set gone then None else hm_get (objects c) h)))"
proof -
  have v: "vouched sha files c" using vouched_run.guarded_reach [OF assms(2)] assms(1) by simp
  have g: "p = object_path h \<and> valid_hash h \<and> (\<exists>b. hm_get (objects c) h = Some b \<and> (sha b = h \<or> hm_get files h = Some b))"
    if "snd (cache_get c h) = Some p" for h p
    using v that by (auto simp: cache_get_def vouched_def split: if_splits)
  have w: "p = object_path h \<and>
      (\<exists>b. hm_get (objects c') h = Some b \<and> sha b = h \<and> hm_get (sizes c') h = Some (of_nat (length b))) \<and>
      (\<forall>x. x \<noteq> h \<longrightarrow> hm_get (objects c') x = hm_get (objects c) x)"
    if "commit sha io c k h = (c', Inr p)" for k h p c'
    using commit_verified [OF that] faithful_read [OF assms(3)] by blast
  have r: "set gone = {h. hm_get (sizes c) h \<noteq> None \<and> \<not> intact sha c h} \<and>
      (\<forall>h. hm_get (sizes c') h \<noteq> None \<longrightarrow> intact sha c' h) \<and>
      (\<forall>h. hm_get (objects c') h = (if h \<in> set gone then None else hm_get (objects c) h))"
    if "repair sha io c = (c', Inr gone) \<and> d_remove io" for c' gone
    using repair_meaning [OF conjunct1 [OF that] assms(3) conjunct2 [OF that]] by simp
  show ?thesis
    by (intro conjI; intro allI impI; (erule g | erule w | erule r | erule verify_meaning [OF _ assms(3)]))
qed

definition demo_sha :: "bytes \<Rightarrow> string" where
  "demo_sha b = replicate 63 (CHR ''0'') @ (if b = [1] then ''a'' else ''b'')"

text \<open>A directory with a corrupt object: it is served, and the repair removes it.\<close>

theorem cache_serves_verified_witness:
  "let bad = demo_sha [1]; files = [(bad, [2])];
       c = foldl (cache_step demo_sha) (cache_open 10 files [(take 2 bad, drop 2 bad, Some (1, 0))])
         [On honest (CStage [3]), On honest (CCommit 1 (demo_sha [3]))] in
   snd (cache_get c bad) = Some (object_path bad) \<and> \<not> intact demo_sha c bad \<and>
   set [bad] = {h. hm_get (sizes c) h \<noteq> None \<and> \<not> intact demo_sha c h}"
proof -
  define bad where "bad = demo_sha [1]"
  define evs where "evs = [On honest (CStage [3]), On honest (CCommit 1 (demo_sha [3]))]"
  define c where "c = foldl (cache_step demo_sha) (cache_open 10 [(bad, [2])] [(take 2 bad, drop 2 bad, Some (1, 0))]) evs"
  have f: "faithful honest" by (simp add: faithful_def honest_def)
  have e: "\<forall>ev \<in> set evs. event_faithful ev" using f by (simp add: evs_def)
  have r: "snd (repair demo_sha honest c) = Inr [bad]" "snd (cache_get c bad) = Some (object_path bad)"
    unfolding c_def bad_def evs_def by (code_simp, code_simp)
  have "repair demo_sha honest c = (fst (repair demo_sha honest c), Inr [bad])"
    using r(1) by (metis prod.collapse)
  moreover have "d_remove honest" by (simp add: honest_def)
  ultimately have s: "set [bad] = {h. hm_get (sizes c) h \<noteq> None \<and> \<not> intact demo_sha c h}"
    using cache_serves_verified [OF c_def e f] by blast
  have "bad \<in> set [bad]" by simp
  then have "\<not> intact demo_sha c bad" unfolding s by (rule CollectE) simp
  then show ?thesis using r(2) s unfolding Let_def c_def bad_def evs_def by blast
qed

text \<open>
  Eviction is least recently used first and no more than needed: the evicted objects are a prefix of
  the unprotected ones in order of recency, it stops as soon as the sizes fit the quota or nothing
  unprotected is left, and every other object keeps its entry and its place in the order.
\<close>

lemma evict_least_recent:
  assumes "evict_to_fit io c protected = (c', gone)" and "distinct (lru c)"
  shows "(\<exists>n. gone = take n (unprotected protected c) \<and>
      (size_bytes c' \<le> quota_bytes c \<or> gone = unprotected protected c) \<and>
      (\<forall>k < length gone. quota_bytes c < size_bytes (foldl (forget io) c (take k gone)))) \<and>
    set gone \<inter> set protected = {} \<and>
    lru c' = filter (\<lambda>h. h \<notin> set gone) (lru c) \<and>
    (\<forall>h. hm_get (sizes c') h = (if h \<in> set gone then None else hm_get (sizes c) h))"
proof -
  let ?us = "unprotected protected c"
  obtain n where n: "n \<le> length ?us" "c' = foldl (forget io) c (take n ?us)" "gone = take n ?us"
      "size_bytes c' \<le> quota_bytes c \<or> n = length ?us"
      "\<forall>k < n. quota_bytes c < size_bytes (foldl (forget io) c (take k ?us))"
    using evict_prefix [OF refl assms(2), of protected io] assms(1) by auto
  have "size_bytes c' \<le> quota_bytes c \<or> gone = ?us" using n(3,4) by auto
  moreover have "\<forall>k < length gone. quota_bytes c < size_bytes (foldl (forget io) c (take k gone))"
    using n(3,5) by simp
  moreover have "set gone \<inter> set protected = {}"
    using n(3) by (auto simp: unprotected_def dest: in_set_takeD)
  moreover have "c' = foldl (forget io) c gone" using n(2,3) by simp
  ultimately show ?thesis using n(3) by (intro conjI exI [of _ n]) (simp_all add: forget_all_fields)
qed

definition demo_cache :: content_cache where
  "demo_cache = \<lparr>quota_bytes = 5, sizes = [(''a'', 3), (''b'', 3), (''c'', 2)], lru = [''a'', ''b'', ''c''], staged_seq = 0,
     objects = [], tmp = []\<rparr>"

text \<open>An object found corrupt by a commit is removed, but its size and its recency entry stay.\<close>

lemma stale_accounting:
  assumes "valid_hash h" and "hm_get (tmp c) k = Some b" and "sha b = h"
    and "hm_get (objects c) h = Some bad" and "sha bad \<noteq> h"
  shows "hm_get (objects (fst (commit sha honest c k h))) h = None \<and> sizes (fst (commit sha honest c k h)) = sizes c"
  using assms
  by (simp add: commit_def read_with_def place_def honest_def remove_tmp_def remove_object_def hm_simps)

end
