(* ===== verification/AegisCrypto.thy ===== *)
theory AegisCrypto
  imports RustStrings
begin

text \<open>
  Passwords and second factors of the control panel (\<open>aegis/backend/src/passwords.rs\<close>,
  \<open>totp.rs\<close>): hexadecimal and base32 text, the PBKDF2 construction, the stored password format and
  the time-based codes. The HMAC functions are parameters, and so are the random bytes.
\<close>

section \<open>Hexadecimal text\<close>

definition hex_digit :: "nat \<Rightarrow> char" where
  "hex_digit n = (if n < 10 then char_of (48 + n) else char_of (87 + n))"

definition hex_encode :: "bytes \<Rightarrow> string" where
  "hex_encode bs = concat (map (\<lambda>b. [hex_digit (unat b div 16), hex_digit (unat b mod 16)]) bs)"

definition hex_val :: "char \<Rightarrow> u8 option" where
  "hex_val c =
     (let n = byte_of c in
      if 48 \<le> n \<and> n \<le> 57 then Some (of_nat (n - 48))
      else if 97 \<le> n \<and> n \<le> 102 then Some (of_nat (n - 97 + 10))
      else if 65 \<le> n \<and> n \<le> 70 then Some (of_nat (n - 65 + 10))
      else None)"

fun hex_chunks :: "string \<Rightarrow> bytes option" where
  "hex_chunks (a # b # s) =
     (case hex_val a of
        None \<Rightarrow> None
      | Some hi \<Rightarrow>
          (case hex_val b of
             None \<Rightarrow> None
           | Some lo \<Rightarrow> map_option (\<lambda>bs. (push_bit 4 hi OR lo) # bs) (hex_chunks s)))"
| "hex_chunks _ = Some []"

definition hex_decode :: "string \<Rightarrow> bytes option" where
  "hex_decode s = (if length s mod 2 \<noteq> 0 then None else hex_chunks s)"

section \<open>Random bytes\<close>

text \<open>The operating system's source, or the fallback generator from a seed.\<close>

fun lcg_fill :: "nat \<Rightarrow> u64 \<Rightarrow> bytes" where
  "lcg_fill 0 seed = []"
| "lcg_fill (Suc n) seed =
     (let seed' = seed * 6364136223846793005 + 1442695040888963407 in ucast (drop_bit 32 seed') # lcg_fill n seed')"

definition fill_random :: "bytes option \<Rightarrow> u64 \<Rightarrow> u64 \<Rightarrow> nat \<Rightarrow> bytes" where
  "fill_random urandom nanos pid n = (case urandom of Some bs \<Rightarrow> bs | None \<Rightarrow> lcg_fill n (nanos XOR pid))"

section \<open>Passwords\<close>

definition ITERATIONS :: u32 where "ITERATIONS = 210000"
definition SALT_LEN :: nat where "SALT_LEN = 24"
definition HASH_LEN :: nat where "HASH_LEN = 32"

datatype password_error = Malformed | UnsupportedAlgorithm string | Mismatch | InvalidEncoding

definition str_bytes :: "string \<Rightarrow> bytes" where
  "str_bytes s = map of_char s"

fun pbkdf2_loop :: "(bytes \<Rightarrow> bytes \<Rightarrow> bytes) \<Rightarrow> bytes \<Rightarrow> nat \<Rightarrow> bytes \<Rightarrow> bytes \<Rightarrow> bytes" where
  "pbkdf2_loop hmac password 0 t out = out"
| "pbkdf2_loop hmac password (Suc n) t out =
     (let t' = hmac password t in pbkdf2_loop hmac password n t' (map2 (XOR) out t'))"

definition pbkdf2 :: "(bytes \<Rightarrow> bytes \<Rightarrow> bytes) \<Rightarrow> bytes \<Rightarrow> bytes \<Rightarrow> u32 \<Rightarrow> bytes" where
  "pbkdf2 hmac password salt iterations =
     (let t = hmac password (salt @ be_enc 4 (1 :: u32)) in pbkdf2_loop hmac password (unat iterations - 1) t t)"

definition constant_time_eq :: "bytes \<Rightarrow> bytes \<Rightarrow> bool" where
  "constant_time_eq a b = (length a = length b \<and> foldl (\<lambda>diff (x, y). diff OR (x XOR y)) 0 (zip a b) = 0)"

definition hash_password :: "(bytes \<Rightarrow> bytes \<Rightarrow> bytes) \<Rightarrow> bytes \<Rightarrow> string \<Rightarrow> string" where
  "hash_password hmac salt password =
     ''pbkdf2$'' @ show_nat (unat ITERATIONS) @ ''$'' @ hex_encode salt @ ''$'' @
       hex_encode (pbkdf2 hmac (str_bytes password) salt ITERATIONS)"

definition verify_password :: "(bytes \<Rightarrow> bytes \<Rightarrow> bytes) \<Rightarrow> string \<Rightarrow> string \<Rightarrow> (unit, password_error) result" where
  "verify_password hmac password stored =
     (case split_on (\<lambda>c. c = CHR ''$'') stored of
        [alg, iters, salt_hex, hash_hex] \<Rightarrow>
          if alg \<noteq> ''pbkdf2'' then Err (UnsupportedAlgorithm alg)
          else (case parse_unsigned (2 ^ 32 - 1) iters of
            None \<Rightarrow> Err Malformed
          | Some iterations \<Rightarrow>
              (case hex_decode salt_hex of
                 None \<Rightarrow> Err InvalidEncoding
               | Some salt \<Rightarrow>
                   (case hex_decode hash_hex of
                      None \<Rightarrow> Err InvalidEncoding
                    | Some expected \<Rightarrow>
                        if constant_time_eq (pbkdf2 hmac (str_bytes password) salt (of_int iterations)) expected
                        then Ok () else Err Mismatch)))
      | _ \<Rightarrow> Err Malformed)"

section \<open>Base32\<close>

definition ALPHABET :: string where
  "ALPHABET = ''ABCDEFGHIJKLMNOPQRSTUVWXYZ234567''"

fun b32_drain :: "u32 \<Rightarrow> nat \<Rightarrow> string \<times> nat" where
  "b32_drain buffer bits =
     (if 5 \<le> bits then
        (let bits' = bits - 5; (rest, left) = b32_drain buffer bits' in
         (ALPHABET ! unat (drop_bit bits' buffer AND 0x1f) # rest, left))
      else ([], bits))"

declare b32_drain.simps [simp del]

fun b32_enc_loop :: "bytes \<Rightarrow> u32 \<Rightarrow> nat \<Rightarrow> string" where
  "b32_enc_loop [] buffer bits =
     (if 0 < bits then [ALPHABET ! unat (push_bit (5 - bits) buffer AND 0x1f)] else [])"
| "b32_enc_loop (b # bs) buffer bits =
     (let buffer' = push_bit 8 buffer OR ucast b; (out, bits') = b32_drain buffer' (bits + 8) in
      out @ b32_enc_loop bs buffer' bits')"

definition base32_encode :: "bytes \<Rightarrow> string" where
  "base32_encode bs = b32_enc_loop bs 0 0"

text \<open>\<open>chars().filter(|c| !c.is_whitespace())\<close> on the UTF-8 bytes.\<close>

function remove_ws :: "string \<Rightarrow> string" where
  "remove_ws [] = []"
| "remove_ws (c # s) = (case strip_one ws_seqs (c # s) of Some t \<Rightarrow> remove_ws t | None \<Rightarrow> c # remove_ws s)"
  by pat_completeness auto
termination
  by (relation "measure length") (auto dest: strip_one_shorter)

definition to_upper_char :: "char \<Rightarrow> char" where
  "to_upper_char c = (if is_lower c then char_of (byte_of c - 32) else c)"

fun b32_dec_loop :: "string \<Rightarrow> u32 \<Rightarrow> nat \<Rightarrow> bytes option" where
  "b32_dec_loop [] buffer bits = Some []"
| "b32_dec_loop (ch # s) buffer bits =
     (case position (\<lambda>a. a = to_upper_char ch) ALPHABET of
        None \<Rightarrow> None
      | Some v \<Rightarrow>
          (let buffer' = push_bit 5 buffer OR of_nat v; bits' = bits + 5 in
           if 8 \<le> bits'
           then map_option (\<lambda>out. ucast (drop_bit (bits' - 8) buffer') # out) (b32_dec_loop s buffer' (bits' - 8))
           else b32_dec_loop s buffer' bits'))"

definition base32_decode :: "string \<Rightarrow> bytes option" where
  "base32_decode s = b32_dec_loop (filter (\<lambda>c. c \<noteq> CHR ''='') (remove_ws s)) 0 0"

section \<open>Time-based codes\<close>

definition STEP :: u64 where "STEP = 30"
definition SKEW_WINDOWS :: nat where "SKEW_WINDOWS = 1"

datatype totp_error = InvalidSecret | InvalidCode

definition hotp :: "(bytes \<Rightarrow> bytes \<Rightarrow> bytes) \<Rightarrow> bytes \<Rightarrow> u64 \<Rightarrow> u32" where
  "hotp hmac key counter =
     (let hash = hmac key (be_enc 8 counter);
          offset = unat (hash ! (length hash - 1) AND 0x0f);
          truncated = push_bit 24 (ucast (hash ! offset AND 0x7f)) OR push_bit 16 (ucast (hash ! (offset + 1))) OR
            push_bit 8 (ucast (hash ! (offset + 2))) OR (ucast (hash ! (offset + 3)) :: u32) in
      truncated mod 1000000)"

definition generate_totp_secret :: "bytes \<Rightarrow> string" where
  "generate_totp_secret random = base32_encode random"

definition pad6 :: "nat \<Rightarrow> string" where
  "pad6 n = replicate (6 - length (show_nat n)) (CHR ''0'') @ show_nat n"

definition totp_code :: "(bytes \<Rightarrow> bytes \<Rightarrow> bytes) \<Rightarrow> string \<Rightarrow> u64 \<Rightarrow> (string, totp_error) result" where
  "totp_code hmac secret unix_time =
     (case base32_decode secret of
        None \<Rightarrow> Err InvalidSecret
      | Some key \<Rightarrow> Ok (pad6 (unat (hotp hmac key (unix_time div STEP)))))"

text \<open>The counters that are tried, in order: for each offset first ahead, then behind.\<close>

definition totp_counters :: "u64 \<Rightarrow> u64 list" where
  "totp_counters counter =
     concat (map (\<lambda>offset. [counter + of_nat offset, sat_sub counter (of_nat offset)]) [0..<Suc SKEW_WINDOWS])"

definition verify_totp :: "(bytes \<Rightarrow> bytes \<Rightarrow> bytes) \<Rightarrow> string \<Rightarrow> string \<Rightarrow> u64 \<Rightarrow> (unit, totp_error) result" where
  "verify_totp hmac secret code unix_time =
     (case parse_unsigned (2 ^ 32 - 1) (trim code) of
        None \<Rightarrow> Err InvalidCode
      | Some submitted \<Rightarrow>
          (case base32_decode secret of
             None \<Rightarrow> Err InvalidSecret
           | Some key \<Rightarrow>
               if list_ex (\<lambda>c. hotp hmac key c = of_int submitted) (totp_counters (unix_time div STEP))
               then Ok () else Err InvalidCode))"

section \<open>Digits in a base\<close>

definition digits_val :: "nat \<Rightarrow> nat \<Rightarrow> nat list \<Rightarrow> nat" where
  "digits_val B a ds = foldl (\<lambda>a d. a * B + d) a ds"

lemma str_bytes_inj: "str_bytes a = str_bytes b \<Longrightarrow> a = b"
proof -
  have "inj (of_char :: char \<Rightarrow> u8)"
  proof (rule injI)
    fix x y :: char
    assume "of_char x = (of_char y :: u8)"
    then have "unat (of_char x :: u8) = unat (of_char y :: u8)" by simp
    moreover have "(of_char c :: u8) = of_nat (of_char c)" for c by (cases c) (simp add: of_char_def)
    ultimately have "(of_char x :: nat) = of_char y" by (simp add: unsigned_of_nat take_bit_eq_mod)
    then show "x = y" by simp
  qed
  then show "str_bytes a = str_bytes b \<Longrightarrow> a = b" unfolding str_bytes_def by (metis inj_map_eq_map)
qed

lemma digits_val_simps [simp]:
  "digits_val B a [] = a" "digits_val B a (d # ds) = digits_val B (a * B + d) ds"
  "digits_val B a (ds @ es) = digits_val B (digits_val B a ds) es"
  by (simp_all add: digits_val_def)

lemma digits_val_snoc: "digits_val B a (ds @ [d]) = digits_val B a ds * B + d"
  by simp

lemma digits_val_inject:
  assumes "length ds = length es" and "\<forall>d \<in> set ds. d < B" and "\<forall>d \<in> set es. d < B"
    and "digits_val B a ds = digits_val B a es"
  shows "ds = es"
  using assms
proof (induction ds arbitrary: es rule: rev_induct)
  case (snoc d ds)
  then obtain e es' where es: "es = es' @ [e]" by (metis append_butlast_last_id length_0_conv snoc_eq_iff_butlast)
  have "d < B" "e < B" using snoc.prems es by auto
  moreover have eq: "digits_val B a ds * B + d = digits_val B a es' * B + e" using snoc.prems(4) es by simp
  ultimately have "d = e" by (metis mod_mult_self3 mod_less)
  moreover have "0 < B" using \<open>d < B\<close> by simp
  ultimately have "digits_val B a ds = digits_val B a es'" using eq by simp
  then show ?case using snoc.IH [of es'] snoc.prems es \<open>d = e\<close> by auto
qed simp

section \<open>Hexadecimal lemmas\<close>

lemma hex_val_digit: "n < 16 \<Longrightarrow> hex_val (hex_digit n) = Some (of_nat n)"
  by (auto simp: hex_val_def hex_digit_def Let_def)

lemma nibbles: "push_bit 4 (of_nat (unat (b :: u8) div 16)) OR of_nat (unat b mod 16) = b"
proof -
  have "of_nat (unat b div 16) = drop_bit 4 b"
    using word_arith_nat_div [of b 16] by (simp add: drop_bit_eq_div)
  moreover have "of_nat (unat b mod 16) = take_bit 4 b"
    using word_arith_nat_mod [of b 16] by (simp add: take_bit_eq_mod)
  moreover have "push_bit 4 (drop_bit 4 b) OR take_bit 4 b = b"
    by (rule bit_word_eqI) (auto simp: bit_simps)
  ultimately show ?thesis by simp
qed

lemma hex_roundtrip: "hex_decode (hex_encode bs) = Some bs"
proof -
  have "even (length (hex_encode bs))" by (induction bs) (auto simp: hex_encode_def)
  moreover have "unat b div 16 < 16" for b :: u8
    using unsigned_less [of b, where 'a = nat] by (simp add: less_mult_imp_div_less)
  then have "hex_chunks (hex_encode bs) = Some bs"
    by (induction bs) (auto simp: hex_encode_def hex_val_digit nibbles)
  ultimately show ?thesis by (simp add: hex_decode_def even_iff_mod_2_eq_zero)
qed

section \<open>Password lemmas\<close>

lemma xor_zero_iff: "x XOR y = 0 \<longleftrightarrow> x = (y :: u8)"
  by (auto simp: bit_eq_iff bit_simps)

lemma ct_fold:
  "foldl (\<lambda>diff (x, y). diff OR (x XOR y)) d (zip a b) = 0 \<longleftrightarrow> d = 0 \<and> (\<forall>(x, y) \<in> set (zip a b). x = (y :: u8))"
  by (induction a b arbitrary: d rule: list_induct2') (auto simp: or_eq_0_iff xor_zero_iff)

text \<open>The comparison that always looks at every byte is equality.\<close>

lemma constant_time_eq_iff: "constant_time_eq a b \<longleftrightarrow> a = b"
proof (cases "length a = length b")
  case True
  then have "(\<forall>(x, y) \<in> set (zip a b). x = y) \<longleftrightarrow> a = b" by (induction a b rule: list_induct2) auto
  then show ?thesis using True by (simp add: constant_time_eq_def ct_fold)
qed (auto simp: constant_time_eq_def)

lemma verify_password_iff:
  "verify_password hmac pw stored = Inr () \<longleftrightarrow>
   (\<exists>its sh hh it salt. split_on (\<lambda>c. c = CHR ''$'') stored = [''pbkdf2'', its, sh, hh] \<and>
      parse_unsigned (2 ^ 32 - 1) its = Some it \<and> hex_decode sh = Some salt \<and>
      hex_decode hh = Some (pbkdf2 hmac (str_bytes pw) salt (of_int it)))"
  by (auto simp: verify_password_def constant_time_eq_iff split: list.splits option.splits if_splits)

lemma hex_digit_plain: "n < 16 \<Longrightarrow> hex_digit n \<noteq> CHR ''$''"
  using hex_val_digit [of n] by (auto simp: hex_val_def Let_def)

lemma hex_encode_plain: "\<forall>c \<in> set (hex_encode bs). c \<noteq> CHR ''$''"
proof -
  have "unat b div 16 < 16" for b :: u8
    using unsigned_less [of b, where 'a = nat] by (simp add: less_mult_imp_div_less)
  then show ?thesis by (auto simp: hex_encode_def hex_digit_plain)
qed

lemma show_nat_plain: "\<forall>c \<in> set (show_nat n). c \<noteq> CHR ''$''"
  using show_nat_digits [of n] by (auto simp: list_all_iff is_digit_def)

lemma hash_password_parts:
  "split_on (\<lambda>c. c = CHR ''$'') (hash_password hmac salt pw) =
     [''pbkdf2'', show_nat (unat ITERATIONS), hex_encode salt, hex_encode (pbkdf2 hmac (str_bytes pw) salt ITERATIONS)]"
proof -
  have "hash_password hmac salt pw =
      ''pbkdf2'' @ CHR ''$'' # show_nat (unat ITERATIONS) @ CHR ''$'' # hex_encode salt @ CHR ''$'' #
        hex_encode (pbkdf2 hmac (str_bytes pw) salt ITERATIONS)"
    by (simp add: hash_password_def)
  then show ?thesis using show_nat_plain hex_encode_plain by (simp add: split_on_sep split_on_plain)
qed

section \<open>Base32 lemmas\<close>

definition alpha :: "nat \<Rightarrow> char" where
  "alpha q = ALPHABET ! q"

lemma field_of_nat:
  assumes "n + k \<le> 32"
  shows "unat (take_bit k (drop_bit n (of_nat N :: u32))) = N div 2 ^ n mod 2 ^ k"
proof -
  have "unat (take_bit k (drop_bit n (of_nat N :: u32))) = take_bit k (drop_bit n (take_bit 32 N))"
    by (simp add: unsigned_take_bit_eq unsigned_drop_bit_eq unsigned_of_nat)
  also have "\<dots> = take_bit k (drop_bit n N)" using assms by (intro bit_eqI) (auto simp: bit_simps)
  finally show ?thesis by (simp add: take_bit_eq_mod drop_bit_eq_div)
qed

lemma shift_in:
  assumes "x < 2 ^ k"
  shows "push_bit k (of_nat N :: u32) OR of_nat x = of_nat (N * 2 ^ k + x)"
proof -
  have x: "take_bit k x = x" using assms by (simp add: take_bit_nat_eq_self)
  have "\<not> bit (push_bit k N) n \<or> \<not> bit x n" for n
    using bit_take_bit_iff [of k x n] x by (auto simp: bit_simps)
  then have "N * 2 ^ k + x = push_bit k N OR x" using disjunctive_add [of "push_bit k N" x] by (simp add: push_bit_eq_mult)
  then show ?thesis by (simp add: push_bit_of_nat of_nat_or_eq)
qed

lemma mask5: "(w :: u32) AND 0x1f = take_bit 5 w"
  by (simp add: take_bit_eq_mask mask_eq_exp_minus_1)

lemma div_pow_add: "(N :: nat) div 2 ^ (a + k) = N div 2 ^ a div 2 ^ k"
  by (simp add: power_add div_mult2_eq)

lemma div_shifted: "x < 2 ^ k \<Longrightarrow> (N * 2 ^ k + x) div 2 ^ (n + k) = N div 2 ^ (n :: nat)" for x :: nat
  by (simp add: add.commute [of n] div_pow_add)

lemma drain_val:
  assumes "bits \<le> 32"
  shows "\<exists>qs. b32_drain (of_nat N) bits = (map alpha qs, bits mod 5) \<and> length qs = bits div 5 \<and>
    (\<forall>q \<in> set qs. q < 32) \<and> digits_val 32 (N div 2 ^ bits) qs = N div 2 ^ (bits mod 5)"
  using assms
proof (induction bits rule: less_induct)
  case (less bits)
  show ?case
  proof (cases "5 \<le> bits")
    case False
    then show ?thesis by (intro exI [of _ "[]"]) (simp add: b32_drain.simps [of _ bits])
  next
    case True
    let ?b = "bits - 5" and ?q = "N div 2 ^ (bits - 5) mod 32"
    have "?b < bits" "?b \<le> 32" using True less.prems by simp_all
    from less.IH [OF this] obtain qs where qs: "b32_drain (of_nat N) ?b = (map alpha qs, ?b mod 5)"
        "length qs = ?b div 5" "\<forall>q \<in> set qs. q < 32" "digits_val 32 (N div 2 ^ ?b) qs = N div 2 ^ (?b mod 5)"
      by blast
    have m: "?b mod 5 = bits mod 5" using True by (metis le_mod_geq)
    have "unat (drop_bit ?b (of_nat N :: u32) AND 0x1f) = ?q"
      using field_of_nat [of ?b 5 N] less.prems True by (simp add: mask5)
    then have d: "b32_drain (of_nat N) bits = (map alpha (?q # qs), bits mod 5)"
      using True qs(1) m by (simp add: b32_drain.simps [of _ bits] alpha_def Let_def)
    have "N div 2 ^ bits = N div 2 ^ ?b div 32" using True div_pow_add [of N ?b 5] by simp
    then have "N div 2 ^ bits * 32 + ?q = N div 2 ^ ?b" by simp
    then show ?thesis using d qs m True by (intro exI [of _ "?q # qs"]) (auto simp: le_div_geq)
  qed
qed

lemma u8_less: "unat (b :: u8) < 256"
  using unsigned_less [of b, where 'a = nat] by simp

lemma enc_loop_val:
  assumes "bits < 5"
  shows "\<exists>qs p. b32_enc_loop bs (of_nat N) bits = map alpha qs \<and> (\<forall>q \<in> set qs. q < 32) \<and> p < 5 \<and>
    5 * length qs = bits + 8 * length bs + p \<and>
    digits_val 32 (N div 2 ^ bits) qs = digits_val 256 N (map unat bs) * 2 ^ p"
  using assms
proof (induction bs arbitrary: N bits)
  case Nil
  show ?case
  proof (cases "bits = 0")
    case False
    let ?p = "5 - bits" and ?q = "N * 2 ^ (5 - bits) mod 32"
    have "push_bit ?p (of_nat N :: u32) = of_nat (N * 2 ^ ?p)" by (metis push_bit_of_nat push_bit_eq_mult)
    then have "unat (push_bit ?p (of_nat N :: u32) AND 0x1f) = ?q"
      using field_of_nat [of 0 5 "N * 2 ^ ?p"] by (simp add: mask5)
    moreover have "N div 2 ^ bits = N * 2 ^ ?p div 32"
      using div_shifted [of 0 ?p N bits] Nil by simp
    then have "N div 2 ^ bits * 32 + ?q = N * 2 ^ ?p" by simp
    ultimately show ?thesis
      using False Nil by (intro exI [of _ "[?q]"] exI [of _ ?p]) (auto simp: alpha_def)
  qed simp
next
  case (Cons b bs)
  let ?N = "N * 256 + unat b" and ?b = "(bits + 8) mod 5"
  have buf: "push_bit 8 (of_nat N :: u32) OR ucast b = of_nat ?N"
    using shift_in [of "unat b" 8 N] u8_less [of b] by simp
  obtain qs where qs: "b32_drain (of_nat ?N) (bits + 8) = (map alpha qs, ?b)" "length qs = (bits + 8) div 5"
      "\<forall>q \<in> set qs. q < 32" "digits_val 32 (?N div 2 ^ (bits + 8)) qs = ?N div 2 ^ ?b"
    using drain_val [of "bits + 8" ?N] Cons.prems by auto
  have "?b < 5" by simp
  from Cons.IH [OF this, of ?N] obtain rs p where rs: "b32_enc_loop bs (of_nat ?N) ?b = map alpha rs"
      "\<forall>q \<in> set rs. q < 32" "p < 5" "5 * length rs = ?b + 8 * length bs + p"
      "digits_val 32 (?N div 2 ^ ?b) rs = digits_val 256 ?N (map unat bs) * 2 ^ p" by blast
  have "?N div 2 ^ (bits + 8) = N div 2 ^ bits" using div_shifted [of "unat b" 8 N bits] u8_less [of b] by simp
  then have "digits_val 32 (N div 2 ^ bits) (qs @ rs) = digits_val 256 N (map unat (b # bs)) * 2 ^ p"
    using qs(4) rs(5) by simp
  moreover have "5 * length (qs @ rs) = bits + 8 * length (b # bs) + p"
    using qs(2) rs(4) mult_div_mod_eq [of 5 "bits + 8"] by simp
  moreover have "b32_enc_loop (b # bs) (of_nat N) bits = map alpha (qs @ rs)" using buf qs(1) rs(1) by simp
  ultimately show ?case using qs(3) rs(2,3) by (intro exI [of _ "qs @ rs"] exI [of _ p]) auto
qed

lemma position_alpha: "q < 32 \<Longrightarrow> position (\<lambda>a. a = to_upper_char (alpha q)) ALPHABET = Some q"
proof -
  have "list_all (\<lambda>q. position (\<lambda>a. a = to_upper_char (alpha q)) ALPHABET = Some q) [0..<32]" by code_simp
  then show "q < 32 \<Longrightarrow> ?thesis" by (simp add: list_all_iff)
qed

lemma octet_of_nat:
  "n + 8 \<le> 32 \<Longrightarrow> unat (ucast (drop_bit n (of_nat N :: u32)) :: u8) = N div 2 ^ n mod 256"
  using field_of_nat [of n 8 N] by (simp add: unsigned_ucast_eq unsigned_take_bit_eq)

lemma dec_loop_val:
  assumes "bits < 8" and "\<forall>q \<in> set qs. q < 32"
  shows "\<exists>out. b32_dec_loop (map alpha qs) (of_nat M) bits = Some out \<and> length out = (bits + 5 * length qs) div 8 \<and>
    digits_val 256 (M div 2 ^ bits) (map unat out) = digits_val 32 M qs div 2 ^ ((bits + 5 * length qs) mod 8)"
  using assms
proof (induction qs arbitrary: M bits)
  case (Cons q qs)
  let ?M = "M * 32 + q"
  have q: "position (\<lambda>a. a = to_upper_char (alpha q)) ALPHABET = Some q" "q < 32" using Cons.prems position_alpha by auto
  have buf: "push_bit 5 (of_nat M :: u32) OR of_nat q = of_nat ?M" using shift_in [of q 5 M] q(2) by simp
  have top: "?M div 2 ^ (bits + 5) = M div 2 ^ bits" using div_shifted [of q 5 M bits] q(2) by simp
  show ?case
  proof (cases "8 \<le> bits + 5")
    case True
    let ?b = "bits + 5 - 8" and ?o = "ucast (drop_bit (bits + 5 - 8) (of_nat ?M :: u32)) :: u8"
    have "?b < 8" using Cons.prems by simp
    from Cons.IH [OF this, of ?M] Cons.prems obtain out where out: "b32_dec_loop (map alpha qs) (of_nat ?M) ?b = Some out"
        "length out = (?b + 5 * length qs) div 8"
        "digits_val 256 (?M div 2 ^ ?b) (map unat out) = digits_val 32 ?M qs div 2 ^ ((?b + 5 * length qs) mod 8)"
      by auto
    have sum: "bits + 5 * length (q # qs) = (?b + 5 * length qs) + 8" using True by simp
    have "?b + 8 = bits + 5" using True by simp
    then have "M div 2 ^ bits = ?M div 2 ^ ?b div 256" using top div_pow_add [of ?M ?b 8] by (simp add: add.commute)
    moreover have "unat ?o = ?M div 2 ^ ?b mod 256" using octet_of_nat [of ?b ?M] Cons.prems by simp
    ultimately have "M div 2 ^ bits * 256 + unat ?o = ?M div 2 ^ ?b" by simp
    moreover have "b32_dec_loop (map alpha (q # qs)) (of_nat M) bits = Some (?o # out)"
      using out(1) q(1) buf True by (simp add: Let_def)
    moreover have "(bits + 5 * length (q # qs)) div 8 = Suc ((?b + 5 * length qs) div 8)"
      "(bits + 5 * length (q # qs)) mod 8 = (?b + 5 * length qs) mod 8" unfolding sum by simp_all
    ultimately show ?thesis using out(2,3) by (intro exI [of _ "?o # out"]) simp
  next
    case False
    then have "bits + 5 < 8" by simp
    from Cons.IH [OF this, of ?M] Cons.prems obtain out where "b32_dec_loop (map alpha qs) (of_nat ?M) (bits + 5) = Some out"
        "length out = (bits + 5 + 5 * length qs) div 8"
        "digits_val 256 (?M div 2 ^ (bits + 5)) (map unat out) = digits_val 32 ?M qs div 2 ^ ((bits + 5 + 5 * length qs) mod 8)"
      by auto
    then show ?thesis using q(1) buf False top by (simp add: Let_def add.assoc)
  qed
qed simp

lemma ws_heads: "w \<in> set ws_seqs \<Longrightarrow> w \<noteq> [] \<and> hd w \<notin> set ALPHABET"
proof -
  have "list_all (\<lambda>w. w \<noteq> [] \<and> hd w \<notin> set ALPHABET) ws_seqs" by code_simp
  then show "w \<in> set ws_seqs \<Longrightarrow> ?thesis" by (simp add: list_all_iff)
qed

lemma remove_ws_plain: "set s \<subseteq> set ALPHABET \<Longrightarrow> remove_ws s = s"
proof (induction s)
  case (Cons c s)
  have "take (length w) (c # s) \<noteq> w" if "w \<in> set ws_seqs" for w
    using ws_heads [OF that] Cons.prems by (cases w) auto
  then show ?case using Cons strip_one_None [of ws_seqs "c # s"] by simp
qed simp

lemma alpha_plain: "q < 32 \<Longrightarrow> alpha q \<in> set ALPHABET \<and> alpha q \<noteq> CHR ''=''"
proof -
  have "list_all (\<lambda>q. alpha q \<in> set ALPHABET \<and> alpha q \<noteq> CHR ''='') [0..<32]" by code_simp
  then show "q < 32 \<Longrightarrow> ?thesis" by (simp add: list_all_iff)
qed

lemma base32_roundtrip: "base32_decode (base32_encode bs) = Some bs"
proof -
  obtain qs p where e: "base32_encode bs = map alpha qs" "\<forall>q \<in> set qs. q < 32" "p < 5"
      "5 * length qs = 8 * length bs + p" "digits_val 32 0 qs = digits_val 256 0 (map unat bs) * 2 ^ p"
    using enc_loop_val [of 0 bs 0] by (auto simp: base32_encode_def)
  obtain out where d: "b32_dec_loop (map alpha qs) 0 0 = Some out" "length out = 5 * length qs div 8"
      "digits_val 256 0 (map unat out) = digits_val 32 0 qs div 2 ^ (5 * length qs mod 8)"
    using dec_loop_val [of 0 qs 0] e(2) by auto
  have "length out = length bs" "5 * length qs mod 8 = p" using d(2) e(3,4) by simp_all
  then have "digits_val 256 0 (map unat out) = digits_val 256 0 (map unat bs)" using d(3) e(5) by simp
  then have "map unat out = map unat bs"
    using \<open>length out = length bs\<close> u8_less by (intro digits_val_inject [where B = 256 and a = 0]) auto
  then have "out = bs" by (rule map_injective) (auto intro: injI unsigned_word_eqI)
  moreover have "filter (\<lambda>c. c \<noteq> CHR ''='') (remove_ws (map alpha qs)) = map alpha qs"
    using alpha_plain e(2) by (subst remove_ws_plain) (auto intro!: filter_True)
  ultimately show ?thesis using d(1) e(1) by (simp add: base32_decode_def)
qed

section \<open>Code lemmas\<close>

lemma digits_value_pad: "digits_value 0 (replicate k (CHR ''0'') @ ds) = digits_value 0 ds"
  by (induction k) auto

lemma parse_pad6: "int n \<le> limit \<Longrightarrow> parse_unsigned limit (pad6 n) = Some (int n)"
proof -
  assume le: "int n \<le> limit"
  have digits: "list_all is_digit (pad6 n)" "pad6 n \<noteq> []" "digits_value 0 (pad6 n) = int n"
    using show_nat_digits [of n] by (auto simp: pad6_def digits_value_pad list_all_iff is_digit_def)
  then obtain c cs where "pad6 n = c # cs" "is_digit c" by (cases "pad6 n") auto
  then show ?thesis using digits le by (auto simp: parse_unsigned_def is_digit_def)
qed

lemma strip_all_plain:
  assumes "list_all P s" and "\<forall>w \<in> set ws. w \<noteq> [] \<and> \<not> P (hd w)"
  shows "strip_all ws s = s"
proof -
  have "take (length w) s \<noteq> w" if "w \<in> set ws" for w
    using assms that by (cases s; cases w) auto
  then show ?thesis using strip_one_None [of ws s] by (simp add: strip_all.simps)
qed

lemma trim_digits: "list_all is_digit s \<Longrightarrow> trim s = s"
proof -
  assume s: "list_all is_digit s"
  have w: "list_all (\<lambda>w. w \<noteq> [] \<and> \<not> is_digit (hd w)) (ws_seqs @ map rev ws_seqs)" by code_simp
  have "strip_all ws_seqs s = s" "strip_all (map rev ws_seqs) (rev s) = rev s"
    using s w by (intro strip_all_plain [where P = is_digit]; auto simp: list_all_iff)+
  then show ?thesis by (simp add: trim_def)
qed

lemma totp_counters_mem: "c \<in> set (totp_counters n) \<longleftrightarrow> c = n \<or> c = n + 1 \<or> c = sat_sub n 1"
  by (auto simp: totp_counters_def SKEW_WINDOWS_def sat_sub_def)

lemma verify_totp_iff:
  "verify_totp hmac secret code t = Inr () \<longleftrightarrow>
   (\<exists>n key. parse_unsigned (2 ^ 32 - 1) (trim code) = Some n \<and> base32_decode secret = Some key \<and>
      of_int n \<in> hotp hmac key ` {t div STEP, t div STEP + 1, sat_sub (t div STEP) 1})"
  by (auto simp: verify_totp_def list_ex_iff totp_counters_mem split: option.splits if_splits)

lemma length_show_nat: "n < 10 ^ k \<Longrightarrow> 0 < k \<Longrightarrow> length (show_nat n) \<le> k"
proof (induction n arbitrary: k rule: show_nat.induct)
  case (1 n)
  show ?case
  proof (cases "n < 10")
    case False
    then have "1 < k" using 1(2,3) by (cases "k = 1") auto
    then obtain j where j: "k = Suc j" "0 < j" by (cases k) auto
    then have "n div 10 < 10 ^ j" using 1(2) by (simp add: less_mult_imp_div_less mult.commute)
    then have "length (show_nat (n div 10)) \<le> j" using 1(1) False j(2) by blast
    then show ?thesis using False j by (simp add: show_nat.simps [of n])
  qed (use 1 in \<open>simp add: show_nat.simps [of n]\<close>)
qed

lemma hotp_less: "unat (hotp hmac key c) < 10 ^ 6"
proof -
  have "hotp hmac key c < 1000000" unfolding hotp_def Let_def by (rule word_mod_less_divisor) simp
  then show ?thesis by (simp add: word_less_nat_alt)
qed

lemma unat_div_STEP: "unat (t div STEP) = unat t div 30"
  by (simp add: STEP_def unat_div)

lemma counter_near:
  assumes "unat t div 30 \<le> unat t' div 30 + 1" and "unat t' div 30 \<le> unat t div 30 + 1"
  shows "t div STEP \<in> {t' div STEP, t' div STEP + 1, sat_sub (t' div STEP) 1}"
proof -
  let ?a = "t div STEP" and ?b = "t' div STEP"
  have "unat t' < 2 ^ 64" using unsigned_less [of t', where 'a = nat] by simp
  then have b: "unat (?b + 1) = unat ?b + 1" by (intro unat_Suc) (simp add: unat_div_STEP)
  have "unat ?a \<le> unat ?b + 1" "unat ?b \<le> unat ?a + 1" using assms by (simp_all add: unat_div_STEP)
  then have "unat ?a = unat ?b \<or> unat ?a = unat (?b + 1) \<or> unat ?a = unat (sat_sub ?b 1)" using b by auto
  then have "?a = ?b \<or> ?a = ?b + 1 \<or> ?a = sat_sub ?b 1" by (simp only: word_unat_eq_iff)
  then show ?thesis by simp
qed

section \<open>Properties\<close>

text \<open>
  A stored password verifies: \<open>verify_password\<close> on the text that \<open>hash_password\<close> made succeeds for a
  password exactly when its derived key with the stored salt is the stored one, in particular for the
  password itself, and otherwise reports a mismatch; for any text whatsoever it succeeds only if
  the text names the algorithm and carries a salt and the key derived from it.
\<close>

lemma password_verification:
  "verify_password hmac pw' (hash_password hmac salt pw) =
     (if pbkdf2 hmac (str_bytes pw') salt ITERATIONS = pbkdf2 hmac (str_bytes pw) salt ITERATIONS
      then Inr () else Inl Mismatch) \<and>
   (verify_password hmac pw stored = Inr () \<longleftrightarrow>
     (\<exists>its sh hh it s. split_on (\<lambda>c. c = CHR ''$'') stored = [''pbkdf2'', its, sh, hh] \<and>
        parse_unsigned (2 ^ 32 - 1) its = Some it \<and> hex_decode sh = Some s \<and>
        hex_decode hh = Some (pbkdf2 hmac (str_bytes pw) s (of_int it))))"
proof -
  have "parse_unsigned (2 ^ 32 - 1) (show_nat (unat ITERATIONS)) = Some 210000"
    using parse_show_nat [of "unat ITERATIONS" "2 ^ 32 - 1"] by (simp add: ITERATIONS_def)
  then have "verify_password hmac pw' (hash_password hmac salt pw) =
     (if pbkdf2 hmac (str_bytes pw') salt ITERATIONS = pbkdf2 hmac (str_bytes pw) salt ITERATIONS
      then Inr () else Inl Mismatch)"
    by (simp add: verify_password_def hash_password_parts hex_roundtrip constant_time_eq_iff ITERATIONS_def)
  then show ?thesis using verify_password_iff by blast
qed

text \<open>
  A second factor works within the clock skew: with the secret made at enrolment from any random
  bytes, the code shown at a time has six digits and is accepted at every time whose 30-second step is
  the same, the one before or the one after.
\<close>

lemma totp_within_skew:
  assumes "unat t div 30 \<le> unat t' div 30 + 1" and "unat t' div 30 \<le> unat t div 30 + 1"
  shows "\<exists>code. totp_code hmac (generate_totp_secret random) t = Inr code \<and> length code = 6 \<and>
    verify_totp hmac (generate_totp_secret random) code t' = Inr ()"
proof -
  let ?h = "hotp hmac random (t div STEP)"
  have "unat ?h < 1000000" using hotp_less [of hmac random "t div STEP"] by simp
  then have "int (unat ?h) \<le> 1000000" by linarith
  then have n: "int (unat ?h) \<le> 2 ^ 32 - 1" by (rule order_trans) simp
  have code: "totp_code hmac (generate_totp_secret random) t = Inr (pad6 (unat ?h))"
    by (simp add: totp_code_def generate_totp_secret_def base32_roundtrip)
  have "list_all is_digit (pad6 (unat ?h))"
    using show_nat_digits [of "unat ?h"] by (auto simp: pad6_def list_all_iff is_digit_def)
  then have "parse_unsigned (2 ^ 32 - 1) (trim (pad6 (unat ?h))) = Some (int (unat ?h))"
    using parse_pad6 [OF n] by (simp add: trim_digits)
  moreover have "of_int (int (unat ?h)) \<in> hotp hmac random ` {t' div STEP, t' div STEP + 1, sat_sub (t' div STEP) 1}"
    using counter_near [OF assms] by auto
  ultimately have "verify_totp hmac (generate_totp_secret random) (pad6 (unat ?h)) t' = Inr ()"
    unfolding verify_totp_iff generate_totp_secret_def base32_roundtrip by blast
  moreover have "length (pad6 (unat ?h)) = 6" using length_show_nat [OF hotp_less] by (simp add: pad6_def)
  ultimately show ?thesis using code by blast
qed

end
