(* ===== verification/AegisAuth.thy ===== *)
theory AegisAuth
  imports AegisCrypto
begin

text \<open>
  Sign-in to the control panel (\<open>aegis/backend/src/audit.rs\<close>, \<open>sessions.rs\<close>, \<open>auth.rs\<close>): the bounded
  audit log, the session store and the login pipeline with its lockout. Times are arguments; a new
  session takes its random token as an argument; the HMAC functions are those of \<open>AegisCrypto\<close>.
\<close>

section \<open>Audit log\<close>

datatype audit_action =
    Authentication | FailedLogin | Logout | Kick | Ban | PermissionChange | ResourceRestart | ServerRestart
  | ConfigChange | Deployment | ConsoleCommand | EntitlementChange

fun action_as_str :: "audit_action \<Rightarrow> string" where
  "action_as_str Authentication = ''authentication''"
| "action_as_str FailedLogin = ''failed_login''"
| "action_as_str Logout = ''logout''"
| "action_as_str Kick = ''kick''"
| "action_as_str Ban = ''ban''"
| "action_as_str PermissionChange = ''permission_change''"
| "action_as_str ResourceRestart = ''resource_restart''"
| "action_as_str ServerRestart = ''server_restart''"
| "action_as_str ConfigChange = ''config_change''"
| "action_as_str Deployment = ''deployment''"
| "action_as_str ConsoleCommand = ''console_command''"
| "action_as_str EntitlementChange = ''entitlement_change''"

record audit_entry =
  actor :: string
  action :: audit_action
  target :: "string option"
  timestamp :: u64
  success :: bool
  detail :: string
  source_ip :: "string option"

record audit_log =
  entries :: "audit_entry list"
  capacity :: nat

definition audit_log_new :: "nat \<Rightarrow> audit_log" where
  "audit_log_new n = \<lparr>entries = [], capacity = max n 1\<rparr>"

definition audit_record :: "audit_log \<Rightarrow> audit_entry \<Rightarrow> audit_log" where
  "audit_record l e =
     l\<lparr>entries := (if capacity l \<le> length (entries l) then tl (entries l) else entries l) @ [e]\<rparr>"

definition entries_newest_first :: "audit_log \<Rightarrow> audit_entry list" where
  "entries_newest_first l = rev (entries l)"

definition by_action :: "audit_log \<Rightarrow> audit_action \<Rightarrow> audit_entry list" where
  "by_action l a = filter (\<lambda>e. action e = a) (entries l)"

definition by_actor :: "audit_log \<Rightarrow> string \<Rightarrow> audit_entry list" where
  "by_actor l a = filter (\<lambda>e. actor e = a) (entries l)"

definition recent_failures :: "audit_log \<Rightarrow> string \<Rightarrow> audit_action \<Rightarrow> u64 \<Rightarrow> nat" where
  "recent_failures l who what since =
     length (filter (\<lambda>e. actor e = who \<and> action e = what \<and> \<not> success e \<and> since \<le> timestamp e) (entries l))"

section \<open>Sessions\<close>

definition DEFAULT_ABSOLUTE_TTL :: u64 where "DEFAULT_ABSOLUTE_TTL = 28800"
definition DEFAULT_IDLE_TTL :: u64 where "DEFAULT_IDLE_TTL = 1800"
definition TOKEN_LEN :: nat where "TOKEN_LEN = 32"

record session =
  token :: string
  user_id :: string
  issued_at :: u64
  last_activity :: u64
  absolute_expires :: u64
  idle_expires :: u64
  fully_authenticated :: bool

definition is_live :: "session \<Rightarrow> u64 \<Rightarrow> bool" where
  "is_live s now = (now < absolute_expires s \<and> now < idle_expires s)"

record session_store =
  sessions :: "(string, session) hmap"
  absolute_ttl :: u64
  idle_ttl :: u64

definition store_with_ttls :: "u64 \<Rightarrow> u64 \<Rightarrow> session_store" where
  "store_with_ttls a i = \<lparr>sessions = [], absolute_ttl = a, idle_ttl = i\<rparr>"

definition session_store_new :: session_store where
  "session_store_new = store_with_ttls DEFAULT_ABSOLUTE_TTL DEFAULT_IDLE_TTL"

definition generate_token :: "bytes \<Rightarrow> string" where
  "generate_token random = hex_encode random"

definition store_create :: "session_store \<Rightarrow> bytes \<Rightarrow> string \<Rightarrow> u64 \<Rightarrow> bool \<Rightarrow> session_store \<times> session" where
  "store_create st random user now full =
     (let t = generate_token random;
          s = \<lparr>token = t, user_id = user, issued_at = now, last_activity = now,
               absolute_expires = now + absolute_ttl st, idle_expires = now + idle_ttl st,
               fully_authenticated = full\<rparr> in
      (st\<lparr>sessions := hm_insert t s (sessions st)\<rparr>, s))"

definition store_validate :: "session_store \<Rightarrow> string \<Rightarrow> u64 \<Rightarrow> session_store \<times> session option" where
  "store_validate st t now =
     (case hm_get (sessions st) t of
        None \<Rightarrow> (st, None)
      | Some s \<Rightarrow>
          if \<not> is_live s now then (st\<lparr>sessions := hm_remove t (sessions st)\<rparr>, None)
          else
            let s' = s\<lparr>last_activity := now, idle_expires := now + idle_ttl st\<rparr> in
            (st\<lparr>sessions := hm_insert t s' (sessions st)\<rparr>, Some s'))"

definition store_invalidate :: "session_store \<Rightarrow> string \<Rightarrow> session_store \<times> bool" where
  "store_invalidate st t = (st\<lparr>sessions := hm_remove t (sessions st)\<rparr>, hm_get (sessions st) t \<noteq> None)"

definition remove_tokens :: "session_store \<Rightarrow> (session \<Rightarrow> bool) \<Rightarrow> session_store \<times> nat" where
  "remove_tokens st P =
     (let gone = map fst (filter (\<lambda>(_, s). P s) (sessions st)) in
      (st\<lparr>sessions := foldl (\<lambda>m t. hm_remove t m) (sessions st) gone\<rparr>, length gone))"

definition invalidate_user :: "session_store \<Rightarrow> string \<Rightarrow> session_store \<times> nat" where
  "invalidate_user st user = remove_tokens st (\<lambda>s. user_id s = user)"

definition store_gc :: "session_store \<Rightarrow> u64 \<Rightarrow> session_store \<times> nat" where
  "store_gc st now = remove_tokens st (\<lambda>s. \<not> is_live s now)"

section \<open>Login\<close>

definition MAX_ATTEMPTS :: u32 where "MAX_ATTEMPTS = 5"
definition LOCKOUT_WINDOW_SECS :: u64 where "LOCKOUT_WINDOW_SECS = 900"

datatype auth_outcome =
    Success session
  | SecondFactorRequired session
  | SecondFactorAccepted session
  | InvalidCredentials
  | LockedOut u64

record login_attempt =
  la_username :: string
  la_password :: string
  la_totp_code :: "string option"
  la_source_ip :: "string option"

record aegis_account =
  acc_id :: string
  username :: string
  password_hash :: string
  totp_secret :: "string option"

record rate_state =
  failures :: u32
  window_start :: u64

record auth_service =
  auth_sessions :: session_store
  audit :: audit_log
  limits :: "(string, rate_state) hmap"
  max_attempts :: u32
  lockout_window :: u64

definition auth_service_new :: "nat \<Rightarrow> auth_service" where
  "auth_service_new n =
     \<lparr>auth_sessions = session_store_new, audit = audit_log_new n, limits = [], max_attempts = MAX_ATTEMPTS,
      lockout_window = LOCKOUT_WINDOW_SECS\<rparr>"

definition with_limits :: "auth_service \<Rightarrow> u32 \<Rightarrow> u64 \<Rightarrow> auth_service" where
  "with_limits a m w = a\<lparr>max_attempts := max m 1, lockout_window := w\<rparr>"

definition is_locked :: "auth_service \<Rightarrow> string \<Rightarrow> u64 \<Rightarrow> bool" where
  "is_locked a user now =
     (case hm_get (limits a) user of
        Some st \<Rightarrow> max_attempts a \<le> failures st \<and> now < window_start st + lockout_window a
      | None \<Rightarrow> False)"

definition log_login :: "auth_service \<Rightarrow> string \<Rightarrow> audit_action \<Rightarrow> u64 \<Rightarrow> bool \<Rightarrow> string \<Rightarrow> string option \<Rightarrow> auth_service" where
  "log_login a who what now yes why ip =
     a\<lparr>audit := audit_record (audit a)
       \<lparr>actor = who, action = what, target = None, timestamp = now, success = yes, detail = why, source_ip = ip\<rparr>\<rparr>"

definition record_failure :: "auth_service \<Rightarrow> string \<Rightarrow> u64 \<Rightarrow> string option \<Rightarrow> string \<Rightarrow> auth_service" where
  "record_failure a user now ip why =
     (let st = hm_get_or \<lparr>failures = 0, window_start = 0\<rparr> (limits a) user;
          st1 = (if window_start st + lockout_window a \<le> now then \<lparr>failures = 0, window_start = now\<rparr> else st);
          st2 = st1\<lparr>failures := failures st1 + 1\<rparr> in
      log_login (a\<lparr>limits := hm_insert user st2 (limits a)\<rparr>) user FailedLogin now False why ip)"

definition record_success :: "auth_service \<Rightarrow> string \<Rightarrow> u64 \<Rightarrow> string option \<Rightarrow> string \<Rightarrow> auth_service" where
  "record_success a user now ip why =
     log_login (a\<lparr>limits := hm_remove user (limits a)\<rparr>) user Authentication now True why ip"

definition new_session :: "auth_service \<Rightarrow> bytes \<Rightarrow> string \<Rightarrow> u64 \<Rightarrow> bool \<Rightarrow> auth_service \<times> session" where
  "new_session a random user now full =
     (let (st, s) = store_create (auth_sessions a) random user now full in (a\<lparr>auth_sessions := st\<rparr>, s))"

text \<open>\<open>h256\<close> and \<open>h1\<close> are the HMAC functions over SHA-256 and SHA-1.\<close>

definition login ::
  "(bytes \<Rightarrow> bytes \<Rightarrow> bytes) \<Rightarrow> (bytes \<Rightarrow> bytes \<Rightarrow> bytes) \<Rightarrow> auth_service \<Rightarrow> bytes \<Rightarrow> aegis_account \<Rightarrow> login_attempt \<Rightarrow> u64 \<Rightarrow>
   auth_service \<times> auth_outcome" where
  "login h256 h1 a random account att now =
     (if is_locked a (username account) now then
        (log_login a (username account) FailedLogin now False ''account locked out'' (la_source_ip att),
         LockedOut (lockout_window a))
      else case verify_password h256 (la_password att) (password_hash account) of
        Inl _ \<Rightarrow> (record_failure a (username account) now (la_source_ip att) ''bad password'', InvalidCredentials)
      | Inr _ \<Rightarrow>
          (case totp_secret account of
             Some secret \<Rightarrow>
               (case la_totp_code att of
                  None \<Rightarrow>
                    (let (a1, s) = new_session a random (acc_id account) now False in (a1, SecondFactorRequired s))
                | Some code \<Rightarrow>
                    (case verify_totp h1 secret code now of
                       Inr _ \<Rightarrow>
                         (let (a1, s) = new_session a random (acc_id account) now True in
                          (record_success a1 (username account) now (la_source_ip att) ''password+totp'',
                           SecondFactorAccepted s))
                     | Inl _ \<Rightarrow>
                         (record_failure a (username account) now (la_source_ip att) ''bad totp'', InvalidCredentials)))
           | None \<Rightarrow>
               (let (a1, s) = new_session a random (acc_id account) now True in
                (record_success a1 (username account) now (la_source_ip att) ''password'', Success s))))"

definition logout :: "auth_service \<Rightarrow> string \<Rightarrow> string \<Rightarrow> u64 \<Rightarrow> auth_service" where
  "logout a t user now =
     log_login (a\<lparr>auth_sessions := fst (store_invalidate (auth_sessions a) t)\<rparr>) user Logout now True ''logout'' None"

definition validate_session :: "auth_service \<Rightarrow> string \<Rightarrow> u64 \<Rightarrow> auth_service \<times> session option" where
  "validate_session a t now =
     (let (st, r) = store_validate (auth_sessions a) t now in (a\<lparr>auth_sessions := st\<rparr>, r))"

section \<open>Audit lemmas\<close>

text \<open>The log holds exactly the latest entries, up to its capacity.\<close>

lemma audit_keeps_latest:
  "entries (foldl audit_record (audit_log_new n) es) = drop (length es - max n 1) es"
proof (induction es rule: rev_induct)
  case (snoc e es)
  have cap: "capacity (foldl audit_record (audit_log_new n) es) = max n 1"
    by (induction es rule: rev_induct) (simp_all add: audit_log_new_def audit_record_def)
  show ?case
  proof (cases "max n 1 \<le> length es")
    case True
    then have "length es - (length es - max n 1) = max n 1" by simp
    moreover have "length (es @ [e]) - max n 1 = Suc (length es - max n 1)"
      using True Suc_diff_le [OF True] by simp
    ultimately show ?thesis
      using True snoc cap by (simp add: audit_record_def [of "foldl audit_record (audit_log_new n) es"] tl_drop drop_Suc)
  next
    case False
    then show ?thesis
      using snoc cap by (auto simp: audit_record_def [of "foldl audit_record (audit_log_new n) es"] max_def split: if_splits)
  qed
qed (simp add: audit_log_new_def)

section \<open>Session lemmas\<close>

lemma logged_out_stays_out: "snd (store_validate (fst (store_invalidate st t)) t now) = None"
  by (simp add: store_validate_def store_invalidate_def hm_simps)

text \<open>Use extends the idle deadline only: a session ends at its absolute deadline however it is used.\<close>

lemma validate_bounded:
  assumes "store_validate st t now = (st', Some s)"
  shows "now < absolute_expires s \<and>
    (\<exists>s0. hm_get (sessions st) t = Some s0 \<and> is_live s0 now \<and>
      s = s0\<lparr>last_activity := now, idle_expires := now + idle_ttl st\<rparr>) \<and> hm_get (sessions st') t = Some s"
  using assms by (auto simp: store_validate_def is_live_def hm_simps Let_def split: option.splits if_splits)

lemma foldl_remove_get: "hm_get (foldl (\<lambda>m t. hm_remove t m) m ts) t = (if t \<in> set ts then None else hm_get m t)"
  by (induction ts arbitrary: m) (auto simp: hm_simps)

lemma remove_tokens_get:
  assumes "hm_wf (sessions st)"
  shows "hm_get (sessions (fst (remove_tokens st P))) t =
    (case hm_get (sessions st) t of Some s \<Rightarrow> if P s then None else Some s | None \<Rightarrow> None)"
proof -
  have "t \<in> set (map fst (filter (\<lambda>(_, s). P s) (sessions st))) \<longleftrightarrow> (\<exists>s. hm_get (sessions st) t = Some s \<and> P s)"
    using assms by (force simp: hm_get_in_set)
  then show ?thesis by (simp add: remove_tokens_def Let_def foldl_remove_get split: option.split)
qed

section \<open>The service as a system\<close>

datatype auth_op =
    OLogin bytes aegis_account login_attempt u64
  | OLogout string string u64
  | OValidate string u64

fun auth_step ::
  "(bytes \<Rightarrow> bytes \<Rightarrow> bytes) \<Rightarrow> (bytes \<Rightarrow> bytes \<Rightarrow> bytes) \<Rightarrow> auth_service \<Rightarrow> auth_op \<Rightarrow> auth_service" where
  "auth_step h256 h1 a (OLogin r acc att now) = fst (login h256 h1 a r acc att now)"
| "auth_step h256 h1 a (OLogout t user now) = logout a t user now"
| "auth_step h256 h1 a (OValidate t now) = fst (validate_session a t now)"

text \<open>What a login must have shown for the session it issues to be fully authenticated.\<close>

definition factors_shown ::
  "(bytes \<Rightarrow> bytes \<Rightarrow> bytes) \<Rightarrow> (bytes \<Rightarrow> bytes \<Rightarrow> bytes) \<Rightarrow> aegis_account \<Rightarrow> login_attempt \<Rightarrow> u64 \<Rightarrow> bool" where
  "factors_shown h256 h1 acc att now \<longleftrightarrow>
     verify_password h256 (la_password att) (password_hash acc) = Inr () \<and>
     (case totp_secret acc of
        None \<Rightarrow> True
      | Some secret \<Rightarrow> (case la_totp_code att of None \<Rightarrow> False | Some code \<Rightarrow> verify_totp h1 secret code now = Inr ()))"

definition issued_by ::
  "(bytes \<Rightarrow> bytes \<Rightarrow> bytes) \<Rightarrow> (bytes \<Rightarrow> bytes \<Rightarrow> bytes) \<Rightarrow> auth_op \<Rightarrow> u64 \<Rightarrow> string \<Rightarrow> session \<Rightarrow> bool" where
  "issued_by h256 h1 op ttl t s \<longleftrightarrow>
     (case op of
        OLogin r acc att now \<Rightarrow>
          t = generate_token r \<and> token s = t \<and> user_id s = acc_id acc \<and> issued_at s = now \<and> absolute_expires s = now + ttl \<and>
          verify_password h256 (la_password att) (password_hash acc) = Inr () \<and>
          (fully_authenticated s \<longleftrightarrow> factors_shown h256 h1 acc att now)
      | _ \<Rightarrow> False)"

text \<open>The fields of a session that nothing changes.\<close>

definition fixed :: "session \<Rightarrow> string \<times> string \<times> u64 \<times> u64 \<times> bool" where
  "fixed s = (token s, user_id s, issued_at s, absolute_expires s, fully_authenticated s)"

lemma log_login_fields [simp]:
  "auth_sessions (log_login a u w n y d i) = auth_sessions a" "limits (log_login a u w n y d i) = limits a"
  "max_attempts (log_login a u w n y d i) = max_attempts a" "lockout_window (log_login a u w n y d i) = lockout_window a"
  by (simp_all add: log_login_def)

lemma record_fields [simp]:
  "auth_sessions (record_failure a u n i d) = auth_sessions a" "auth_sessions (record_success a u n i d) = auth_sessions a"
  "max_attempts (record_failure a u n i d) = max_attempts a" "lockout_window (record_failure a u n i d) = lockout_window a"
  "max_attempts (record_success a u n i d) = max_attempts a" "lockout_window (record_success a u n i d) = lockout_window a"
  by (simp_all add: record_failure_def record_success_def Let_def)

lemma login_sessions:
  assumes "login h256 h1 a r acc att now = (a', out)"
    and "hm_get (sessions (auth_sessions a')) t = Some s"
  shows "hm_get (sessions (auth_sessions a)) t = Some s \<or>
    issued_by h256 h1 (OLogin r acc att now) (absolute_ttl (auth_sessions a)) t s"
  using assms
  by (auto simp: login_def new_session_def store_create_def issued_by_def factors_shown_def hm_simps Let_def
      split: if_splits sum.splits option.splits)

lemma auth_step_ttl: "absolute_ttl (auth_sessions (auth_step h256 h1 a op)) = absolute_ttl (auth_sessions a)"
  by (cases op)
    (auto simp: login_def new_session_def store_create_def logout_def store_invalidate_def validate_session_def
      store_validate_def Let_def split: if_splits sum.splits option.splits)

lemma auth_step_sessions:
  assumes "hm_get (sessions (auth_sessions (auth_step h256 h1 a op))) t = Some s"
  shows "(\<exists>s0. hm_get (sessions (auth_sessions a)) t = Some s0 \<and> fixed s0 = fixed s) \<or>
    issued_by h256 h1 op (absolute_ttl (auth_sessions a)) t s"
proof (cases op)
  case (OLogin r acc att now)
  obtain a' out where l: "login h256 h1 a r acc att now = (a', out)" by fastforce
  then show ?thesis using login_sessions [OF l, of t s] assms OLogin by auto
qed (use assms in \<open>auto simp: logout_def store_invalidate_def validate_session_def store_validate_def fixed_def hm_simps Let_def
    split: if_splits option.splits\<close>)

lemma issued_by_fixed: "issued_by h256 h1 op ttl t s0 \<Longrightarrow> fixed s0 = fixed s \<Longrightarrow> issued_by h256 h1 op ttl t s"
  by (auto simp: issued_by_def fixed_def split: auth_op.splits)

lemma sessions_issued:
  assumes "hm_get (sessions (auth_sessions (foldl (auth_step h256 h1) (auth_service_new n) ops))) t = Some s"
  shows "\<exists>op \<in> set ops. issued_by h256 h1 op DEFAULT_ABSOLUTE_TTL t s"
  using assms
proof (induction ops arbitrary: s rule: rev_induct)
  case (snoc op ops)
  let ?a = "foldl (auth_step h256 h1) (auth_service_new n) ops"
  have "absolute_ttl (auth_sessions ?a) = DEFAULT_ABSOLUTE_TTL"
    by (induction ops rule: rev_induct)
      (simp_all add: auth_step_ttl auth_service_new_def session_store_new_def store_with_ttls_def)
  then show ?case
    using auth_step_sessions [of h256 h1 ?a op t s] snoc issued_by_fixed by fastforce
qed (simp add: auth_service_new_def session_store_new_def store_with_ttls_def)

section \<open>Lockout\<close>

text \<open>A series of attempts on one account, with their outcomes.\<close>

fun logins ::
  "(bytes \<Rightarrow> bytes \<Rightarrow> bytes) \<Rightarrow> (bytes \<Rightarrow> bytes \<Rightarrow> bytes) \<Rightarrow> aegis_account \<Rightarrow> auth_service \<Rightarrow>
   (bytes \<times> login_attempt \<times> u64) list \<Rightarrow> auth_service \<times> auth_outcome list" where
  "logins h256 h1 acc a [] = (a, [])"
| "logins h256 h1 acc a ((r, att, now) # xs) =
     (let (a1, out) = login h256 h1 a r acc att now; (a2, outs) = logins h256 h1 acc a1 xs in (a2, out # outs))"

fun signed_in :: "auth_outcome \<Rightarrow> bool" where
  "signed_in (Success _) = True"
| "signed_in (SecondFactorAccepted _) = True"
| "signed_in _ = False"

text \<open>After \<open>k\<close> failures in the window that starts at \<open>t0\<close> or later.\<close>

definition counted :: "auth_service \<Rightarrow> string \<Rightarrow> nat \<Rightarrow> nat \<Rightarrow> bool" where
  "counted a user t0 k \<longleftrightarrow> k \<le> unat (max_attempts a) \<and>
     (case hm_get (limits a) user of
        None \<Rightarrow> k = 0
      | Some st \<Rightarrow> unat (failures st) = k \<and> t0 \<le> unat (window_start st) \<and> unat (window_start st) < t0 + unat (lockout_window a))"

definition in_window :: "auth_service \<Rightarrow> nat \<Rightarrow> u64 \<Rightarrow> bool" where
  "in_window a t0 now \<longleftrightarrow> t0 \<le> unat now \<and> unat now < t0 + unat (lockout_window a)"

lemma window_end:
  assumes "t0 + 2 * unat w < 2 ^ 64" and "unat (ws :: u64) < t0 + unat w"
  shows "unat (ws + w) = unat ws + unat w"
  using assms by (simp add: unat_word_ariths)

lemma failure_counted:
  assumes "counted a user t0 k" and "\<not> is_locked a user now" and "in_window a t0 now"
    and "unat (lockout_window a) \<le> t0" and "t0 + 2 * unat (lockout_window a) < 2 ^ 64" and "0 < max_attempts a"
  shows "counted (record_failure a user now ip why) user t0 (Suc k)"
proof (cases "hm_get (limits a) user")
  case None
  then have "0 + lockout_window a \<le> now" using assms by (simp add: word_le_nat_alt in_window_def)
  then show ?thesis
    using None assms by (auto simp: counted_def record_failure_def hm_get_or_def hm_simps in_window_def word_less_nat_alt Let_def)
next
  case (Some st)
  then have st: "unat (failures st) = k" "t0 \<le> unat (window_start st)"
      "unat (window_start st) < t0 + unat (lockout_window a)" "k \<le> unat (max_attempts a)"
    using assms(1) by (simp_all add: counted_def)
  have e: "unat (window_start st + lockout_window a) = unat (window_start st) + unat (lockout_window a)"
    using window_end [OF assms(5) st(3)] .
  then have now: "now < window_start st + lockout_window a"
    using assms(3) st(2) by (simp add: word_less_nat_alt in_window_def)
  then have "k < unat (max_attempts a)" using assms(2) Some st(1) by (simp add: is_locked_def word_le_nat_alt)
  moreover have "unat (failures st + 1) = Suc k"
    using calculation st(1) unsigned_less [of "max_attempts a", where 'a = nat] unat_Suc [of "failures st"] by simp
  ultimately show ?thesis
    using Some st now by (auto simp: counted_def record_failure_def hm_get_or_def hm_simps Let_def not_le)
qed

lemma counted_limits:
  "counted a user t0 k \<Longrightarrow> limits a' = limits a \<Longrightarrow> max_attempts a' = max_attempts a \<Longrightarrow>
   lockout_window a' = lockout_window a \<Longrightarrow> counted a' user t0 k"
  by (simp add: counted_def split: option.splits)

lemma login_config:
  assumes "login h256 h1 a r acc att now = (a', out)"
  shows "max_attempts a' = max_attempts a" and "lockout_window a' = lockout_window a"
  using assms
  by (auto simp: login_def new_session_def Let_def split: if_splits sum.splits option.splits prod.splits)

lemma login_counted:
  assumes "login h256 h1 a r acc att now = (a', out)" and "\<not> signed_in out"
    and "counted a (username acc) t0 k" and "in_window a t0 now"
    and "unat (lockout_window a) \<le> t0" and "t0 + 2 * unat (lockout_window a) < 2 ^ 64" and "0 < max_attempts a"
  shows "counted a' (username acc) t0 (if out = InvalidCredentials then Suc k else k)"
proof (cases "out = InvalidCredentials")
  case True
  then obtain why where "\<not> is_locked a (username acc) now" "a' = record_failure a (username acc) now (la_source_ip att) why"
    using assms(1) by (auto simp: login_def new_session_def Let_def split: if_splits sum.splits option.splits prod.splits)
  then show ?thesis using failure_counted [OF assms(3) _ assms(4-7)] True by simp
next
  case False
  then have "limits a' = limits a"
    using assms(1,2) by (auto simp: login_def new_session_def Let_def split: if_splits sum.splits option.splits prod.splits)
  then show ?thesis using counted_limits [OF assms(3)] login_config [OF assms(1)] False by simp
qed

lemma logins_counted:
  assumes "logins h256 h1 acc a xs = (a', outs)" and "\<not> list_ex signed_in outs"
    and "counted a (username acc) t0 k" and "\<forall>(r, att, now) \<in> set xs. in_window a t0 now"
    and "unat (lockout_window a) \<le> t0" and "t0 + 2 * unat (lockout_window a) < 2 ^ 64" and "0 < max_attempts a"
  shows "counted a' (username acc) t0 (k + count_list outs InvalidCredentials) \<and> max_attempts a' = max_attempts a \<and>
    lockout_window a' = lockout_window a"
  using assms
proof (induction xs arbitrary: a k outs)
  case (Cons x xs)
  obtain r att now where x: "x = (r, att, now)" by (cases x)
  obtain a1 out outs' where l: "login h256 h1 a r acc att now = (a1, out)" "logins h256 h1 acc a1 xs = (a', outs')"
      "outs = out # outs'"
    using Cons.prems(1) x by (auto simp: Let_def split: prod.splits)
  note c = login_config [OF l(1)]
  have "counted a1 (username acc) t0 (if out = InvalidCredentials then Suc k else k)"
    using login_counted [OF l(1)] Cons.prems x l(3) by auto
  with Cons.IH [OF l(2)] show ?case
    using Cons.prems x l(3) c by (fastforce simp: in_window_def split: if_splits)
qed simp

section \<open>Properties\<close>

text \<open>
  C19. A session authorises only what was proved: after any sequence of logins, validations and logouts,
  every stored session was issued by a login of its user with the right password at its issue time, it
  counts as fully authenticated exactly if that login also gave a valid code when the account has a
  second factor, and it expires eight hours after its issue however often it is used.
\<close>

theorem session_requires_factors:
  assumes "a = foldl (auth_step h256 h1) (auth_service_new n) ops"
    and "validate_session a t now = (a', Some s)"
  shows "\<exists>r acc att. OLogin r acc att (issued_at s) \<in> set ops \<and> t = generate_token r \<and> user_id s = acc_id acc \<and>
    verify_password h256 (la_password att) (password_hash acc) = Inr () \<and>
    (fully_authenticated s \<longleftrightarrow> factors_shown h256 h1 acc att (issued_at s)) \<and>
    absolute_expires s = issued_at s + DEFAULT_ABSOLUTE_TTL \<and> now < absolute_expires s"
proof -
  have v: "store_validate (auth_sessions a) t now = (auth_sessions a', Some s)"
    using assms(2) by (auto simp: validate_session_def split: prod.splits)
  then obtain s0 where s0: "hm_get (sessions (auth_sessions a)) t = Some s0" "fixed s0 = fixed s" "now < absolute_expires s"
    using validate_bounded [OF v] by (auto simp: fixed_def)
  then obtain op where op: "op \<in> set ops" "issued_by h256 h1 op DEFAULT_ABSOLUTE_TTL t s"
    using sessions_issued [of h256 h1 n ops t s0] assms(1) issued_by_fixed by metis
  then obtain r acc att where "op = OLogin r acc att (issued_at s)"
    by (auto simp: issued_by_def split: auth_op.splits)
  then show ?thesis using op s0(3) by (auto simp: issued_by_def)
qed

definition demo_hmac :: "bytes \<Rightarrow> bytes \<Rightarrow> bytes" where
  "demo_hmac key msg = key"

definition demo_account :: aegis_account where
  "demo_account = \<lparr>acc_id = ''u1'', username = ''root'', password_hash = ''pbkdf2$1$00$7077'', totp_secret = None\<rparr>"

definition demo_attempt :: "string \<Rightarrow> login_attempt" where
  "demo_attempt pw = \<lparr>la_username = ''root'', la_password = pw, la_totp_code = None, la_source_ip = None\<rparr>"

definition demo_auth :: auth_service where
  "demo_auth = foldl (auth_step demo_hmac demo_hmac) (auth_service_new 8) [OLogin [1] demo_account (demo_attempt ''pw'') 1000]"

theorem session_requires_factors_witness:
  "\<exists>s. snd (validate_session demo_auth ''01'' 1500) = Some s \<and> fully_authenticated s \<and> absolute_expires s = 29800"
proof -
  have "map_option (\<lambda>s. (fully_authenticated s, issued_at s)) (snd (validate_session demo_auth ''01'' 1500)) = Some (True, 1000)"
    by code_simp
  then obtain s where s: "snd (validate_session demo_auth ''01'' 1500) = Some s" "fully_authenticated s" "issued_at s = 1000"
    by auto
  have v: "validate_session demo_auth ''01'' 1500 = (fst (validate_session demo_auth ''01'' 1500), Some s)"
    using s(1) by (simp add: prod_eq_iff)
  have "absolute_expires s = issued_at s + DEFAULT_ABSOLUTE_TTL"
    using session_requires_factors [OF demo_auth_def v] by blast
  then show ?thesis using s by (simp add: DEFAULT_ABSOLUTE_TTL_def)
qed

text \<open>
  C28. Guessing is bounded: starting from an account without recorded failures, among any attempts
  within one lockout window of which none signs in, at most \<open>max_attempts\<close> are checked and found wrong;
  once so many were, every attempt in the window is refused, whatever the password.
\<close>

theorem guessing_bounded:
  assumes "logins h256 h1 acc a xs = (a', outs)" and "hm_get (limits a) (username acc) = None"
    and "\<not> list_ex signed_in outs" and "\<forall>(r, att, now) \<in> set xs. in_window a t0 now"
    and "unat (lockout_window a) \<le> t0" and "t0 + 2 * unat (lockout_window a) < 2 ^ 64" and "0 < max_attempts a"
  shows "count_list outs InvalidCredentials \<le> unat (max_attempts a) \<and>
    (count_list outs InvalidCredentials = unat (max_attempts a) \<longrightarrow> in_window a t0 now \<longrightarrow>
       snd (login h256 h1 a' r acc att now) = LockedOut (lockout_window a))"
proof -
  have "counted a (username acc) t0 0" using assms(2) by (simp add: counted_def)
  then have c: "counted a' (username acc) t0 (count_list outs InvalidCredentials)" "max_attempts a' = max_attempts a"
      "lockout_window a' = lockout_window a"
    using logins_counted [OF assms(1,3) _ assms(4-7), of 0] by auto
  have "is_locked a' (username acc) now"
    if full: "count_list outs InvalidCredentials = unat (max_attempts a)" and w: "in_window a t0 now"
  proof -
    have "0 < unat (max_attempts a)" using assms(7) by (simp add: word_less_nat_alt)
    then obtain st where st: "hm_get (limits a') (username acc) = Some st" "unat (failures st) = unat (max_attempts a)"
        "t0 \<le> unat (window_start st)" "unat (window_start st) < t0 + unat (lockout_window a)"
      using c full by (auto simp: counted_def split: option.splits)
    then show ?thesis
      using w c(2,3) window_end [OF assms(6) st(4)] by (simp add: is_locked_def in_window_def word_le_nat_alt word_less_nat_alt)
  qed
  then show ?thesis using c by (auto simp: counted_def login_def)
qed

definition demo_guesses :: "(bytes \<times> login_attempt \<times> u64) list" where
  "demo_guesses = map (\<lambda>i. ([], demo_attempt ''guess'', 1000 + i)) [0, 10, 20, 30, 40]"

theorem guessing_bounded_witness:
  "snd (logins demo_hmac demo_hmac demo_account (auth_service_new 8) demo_guesses) = replicate 5 InvalidCredentials \<and>
   snd (login demo_hmac demo_hmac (fst (logins demo_hmac demo_hmac demo_account (auth_service_new 8) demo_guesses)) []
     demo_account (demo_attempt ''pw'') 1050) = LockedOut 900"
proof -
  let ?a = "auth_service_new 8"
  have o: "snd (logins demo_hmac demo_hmac demo_account ?a demo_guesses) = replicate 5 InvalidCredentials" by code_simp
  have l: "logins demo_hmac demo_hmac demo_account ?a demo_guesses =
      (fst (logins demo_hmac demo_hmac demo_account ?a demo_guesses), replicate 5 InvalidCredentials)"
    using o by (simp add: prod_eq_iff)
  have a: "lockout_window ?a = 900" "max_attempts ?a = 5" "hm_get (limits ?a) (username demo_account) = None"
    by (simp_all add: auth_service_new_def LOCKOUT_WINDOW_SECS_def MAX_ATTEMPTS_def)
  have n: "\<not> list_ex signed_in (replicate 5 InvalidCredentials)" by code_simp
  have c: "count_list (replicate 5 InvalidCredentials) InvalidCredentials = 5" by code_simp
  have w: "\<forall>(r, att, now) \<in> set demo_guesses. in_window ?a 1000 now" by (simp add: demo_guesses_def in_window_def a)
  have "in_window ?a 1000 1050" by (simp add: in_window_def a)
  then have "snd (login demo_hmac demo_hmac (fst (logins demo_hmac demo_hmac demo_account ?a demo_guesses)) []
        demo_account (demo_attempt ''pw'') 1050) = LockedOut (lockout_window ?a)"
    using guessing_bounded [OF l a(3) n w, of 1050 "[]" "demo_attempt ''pw''"] by (simp add: a c)
  then show ?thesis using o a by simp
qed

text \<open>
  Two statements of the module that the code does not keep: an attempt that stops for the second factor
  leaves no trace in the audit log, and a full log forgets its oldest entries.
\<close>

lemma pending_factor_unlogged:
  assumes "login h256 h1 a r acc att now = (a', SecondFactorRequired s)"
  shows "audit a' = audit a \<and> limits a' = limits a"
  using assms
  by (auto simp: login_def new_session_def Let_def split: if_splits sum.splits option.splits prod.splits)

end
