(* ===== verification/AegisOps.thy ===== *)
theory AegisOps
  imports AegisAuth "HOL-Library.Product_Lexorder"
begin

text \<open>
  Operations of the control panel (\<open>aegis/backend/src/player_actions.rs\<close>, \<open>alerts.rs\<close>,
  \<open>profiler.rs\<close>): administrative actions on players, alerts and the incident timeline, execution
  profiles. Permissions and the online test are functions that are passed in; the percentile rank is
  computed in floating point by the code and is a parameter.
\<close>

section \<open>Player actions\<close>

definition PLAYERS_MESSAGE :: string where "PLAYERS_MESSAGE = ''players.message''"
definition PLAYERS_WARN :: string where "PLAYERS_WARN = ''players.warn''"
definition PLAYERS_KICK :: string where "PLAYERS_KICK = ''players.kick''"
definition PLAYERS_BAN :: string where "PLAYERS_BAN = ''players.ban''"

datatype ban_duration = Temporary u64 | Permanent

record ban_record =
  ban_id :: string
  player_id :: string
  reason :: string
  duration :: ban_duration
  banned_by :: string
  banned_at :: u64

datatype action_outcome = Applied | Denied string | NoSuchPlayer

record player_actions =
  pa_audit :: audit_log
  bans :: "ban_record list"

definition action_for :: "string \<Rightarrow> audit_action" where
  "action_for perm = (if perm = PLAYERS_KICK then Kick else if perm = PLAYERS_BAN then Ban else PermissionChange)"

definition pa_log :: "player_actions \<Rightarrow> string \<Rightarrow> audit_action \<Rightarrow> string \<Rightarrow> u64 \<Rightarrow> bool \<Rightarrow> string \<Rightarrow> player_actions" where
  "pa_log p who what whom now yes why =
     p\<lparr>pa_audit := audit_record (pa_audit p)
       \<lparr>actor = who, action = what, target = Some whom, timestamp = now, success = yes, detail = why, source_ip = None\<rparr>\<rparr>"

definition authorize ::
  "(string \<Rightarrow> string \<Rightarrow> bool) \<Rightarrow> player_actions \<Rightarrow> string \<Rightarrow> string \<Rightarrow> string \<Rightarrow> u64 \<Rightarrow> player_actions \<times> action_outcome" where
  "authorize has p who perm whom now =
     (if has who perm then (p, Applied)
      else (pa_log p who (action_for perm) whom now False (''denied: missing '' @ perm), Denied perm))"

text \<open>The three actions on players that are online have the same shape.\<close>

definition online_action ::
  "(string \<Rightarrow> string \<Rightarrow> bool) \<Rightarrow> (string \<Rightarrow> bool) \<Rightarrow> string \<Rightarrow> audit_action \<Rightarrow> string \<Rightarrow>
   player_actions \<Rightarrow> string \<Rightarrow> string \<Rightarrow> u64 \<Rightarrow> player_actions \<times> action_outcome" where
  "online_action has online perm what why p who whom now =
     (case authorize has p who perm whom now of
        (p1, Applied) \<Rightarrow>
          if \<not> online whom then (p1, NoSuchPlayer) else (pa_log p1 who what whom now True why, Applied)
      | (p1, other) \<Rightarrow> (p1, other))"

definition message_player where
  "message_player has online p who whom now =
     online_action has online PLAYERS_MESSAGE ConsoleCommand ''message sent'' p who whom now"

definition warn_player where
  "warn_player has online p who whom why now =
     online_action has online PLAYERS_WARN PermissionChange (''warned: '' @ why) p who whom now"

definition kick_player where
  "kick_player has online p who whom why now =
     online_action has online PLAYERS_KICK Kick (''kicked: '' @ why) p who whom now"

definition ban_player ::
  "(string \<Rightarrow> string \<Rightarrow> bool) \<Rightarrow> player_actions \<Rightarrow> string \<Rightarrow> string \<Rightarrow> string \<Rightarrow> ban_duration \<Rightarrow> u64 \<Rightarrow>
   player_actions \<times> action_outcome" where
  "ban_player has p who whom why dur now =
     (case authorize has p who PLAYERS_BAN whom now of
        (p1, Applied) \<Rightarrow>
          (let r = \<lparr>ban_id = ''ban-'' @ show_nat (unat now) @ ''-'' @ show_nat (length whom), player_id = whom, reason = why,
                    duration = dur, banned_by = who, banned_at = now\<rparr> in
           (pa_log (p1\<lparr>bans := bans p1 @ [r]\<rparr>) who Ban whom now True (''banned: '' @ why), Applied))
      | (p1, other) \<Rightarrow> (p1, other))"

definition ban_active :: "ban_record \<Rightarrow> u64 \<Rightarrow> bool" where
  "ban_active b now = (case duration b of Permanent \<Rightarrow> True | Temporary expires \<Rightarrow> now < expires)"

definition is_banned :: "player_actions \<Rightarrow> string \<Rightarrow> u64 \<Rightarrow> ban_record option" where
  "is_banned p player now = find (\<lambda>b. player_id b = player \<and> ban_active b now) (bans p)"

section \<open>Alerts\<close>

datatype severity = Info | Warning | Critical

fun severity_as_str :: "severity \<Rightarrow> string" where
  "severity_as_str Info = ''INFO''"
| "severity_as_str Warning = ''WARNING''"
| "severity_as_str Critical = ''CRITICAL''"

fun severity_rank :: "severity \<Rightarrow> nat" where
  "severity_rank Critical = 2"
| "severity_rank Warning = 1"
| "severity_rank Info = 0"

datatype alert_kind =
    ServerOffline | HighCpu | HighMemory | TickDegradation | ResourceCrashLoop | DatabaseFailure
  | NetworkPacketLoss | HighLatency | DiskLow

fun alert_as_str :: "alert_kind \<Rightarrow> string" where
  "alert_as_str ServerOffline = ''server_offline''"
| "alert_as_str HighCpu = ''high_cpu''"
| "alert_as_str HighMemory = ''high_memory''"
| "alert_as_str TickDegradation = ''tick_degradation''"
| "alert_as_str ResourceCrashLoop = ''resource_crash_loop''"
| "alert_as_str DatabaseFailure = ''database_failure''"
| "alert_as_str NetworkPacketLoss = ''network_packet_loss''"
| "alert_as_str HighLatency = ''high_latency''"
| "alert_as_str DiskLow = ''disk_low''"

definition default_severity :: "alert_kind \<Rightarrow> severity" where
  "default_severity k =
     (if k \<in> {ServerOffline, DatabaseFailure, ResourceCrashLoop} then Critical
      else if k = HighLatency then Info else Warning)"

record alert =
  al_kind :: alert_kind
  al_severity :: severity
  first_fired :: u64
  last_fired :: u64
  occurrences :: u64
  al_message :: string
  al_subject :: string
  resolved_at :: "u64 option"

record alerts =
  open_map :: "(string \<times> alert_kind, alert) hmap"
  resolved :: "alert list"
  webhooks :: "string list"

definition alerts_new :: alerts where
  "alerts_new = \<lparr>open_map = [], resolved = [], webhooks = []\<rparr>"

definition add_webhook :: "alerts \<Rightarrow> string \<Rightarrow> alerts" where
  "add_webhook a url = (if trim url \<noteq> [] \<and> url \<notin> set (webhooks a) then a\<lparr>webhooks := webhooks a @ [url]\<rparr> else a)"

definition fire :: "alerts \<Rightarrow> string \<Rightarrow> alert_kind \<Rightarrow> string \<Rightarrow> u64 \<Rightarrow> alerts \<times> bool" where
  "fire a subject k msg now =
     (let fresh = \<lparr>al_kind = k, al_severity = default_severity k, first_fired = now, last_fired = now, occurrences = 0,
                   al_message = msg, al_subject = subject, resolved_at = None\<rparr>;
          al = hm_get_or fresh (open_map a) (subject, k);
          al' = al\<lparr>last_fired := now, occurrences := occurrences al + 1, al_message := msg\<rparr> in
      (a\<lparr>open_map := hm_insert (subject, k) al' (open_map a)\<rparr>, hm_get (open_map a) (subject, k) = None))"

definition resolve :: "alerts \<Rightarrow> string \<Rightarrow> alert_kind \<Rightarrow> u64 \<Rightarrow> alerts \<times> bool" where
  "resolve a subject k now =
     (case hm_get (open_map a) (subject, k) of
        Some al \<Rightarrow>
          (a\<lparr>open_map := hm_remove (subject, k) (open_map a), resolved := resolved a @ [al\<lparr>resolved_at := Some now\<rparr>]\<rparr>, True)
      | None \<Rightarrow> (a, False))"

text \<open>Highest severity first, and the latest first among equals; the sort is stable on the map's order.\<close>

definition open_alerts :: "alerts \<Rightarrow> alert list" where
  "open_alerts a = sort_key (\<lambda>al. (2 - severity_rank (al_severity al), 2 ^ 64 - 1 - uint (last_fired al))) (hm_values (open_map a))"

definition reconcile :: "alerts \<Rightarrow> u64 \<Rightarrow> (string \<Rightarrow> alert_kind \<Rightarrow> bool option) \<Rightarrow> alerts" where
  "reconcile a now still_true =
     foldl (\<lambda>a (subject, k). if still_true subject k = Some False then fst (resolve a subject k now) else a) a
       (hm_keys (open_map a))"

section \<open>Incident timeline\<close>

datatype timeline_kind =
    TDeployment | TConfigChange | TResourceRestart | TServerRestart | TPlayerSpike | TPerformanceAnomaly | TCrash
  | TAlert | TAudit

record timeline_event =
  ev_time :: u64
  ev_kind :: timeline_kind
  ev_actor :: "string option"
  ev_subject :: string
  ev_detail :: string

record incident_timeline =
  events :: "timeline_event list"
  tl_capacity :: nat

definition timeline_new :: "nat \<Rightarrow> incident_timeline" where
  "timeline_new n = \<lparr>events = [], tl_capacity = max n 1\<rparr>"

definition timeline_record :: "incident_timeline \<Rightarrow> timeline_event \<Rightarrow> incident_timeline" where
  "timeline_record t e =
     (let es = events t @ [e] in
      t\<lparr>events := sort_key ev_time (if tl_capacity t < length es then tl es else es)\<rparr>)"

definition abs_diff :: "u64 \<Rightarrow> u64 \<Rightarrow> u64" where
  "abs_diff a b = (if a \<le> b then b - a else a - b)"

definition around :: "incident_timeline \<Rightarrow> u64 \<Rightarrow> u64 \<Rightarrow> timeline_event list" where
  "around t when window = filter (\<lambda>e. abs_diff (ev_time e) when \<le> window) (events t)"

text \<open>\<open>max_by_key\<close> returns the last of the greatest elements.\<close>

definition immediately_before :: "incident_timeline \<Rightarrow> u64 \<Rightarrow> timeline_event option" where
  "immediately_before t when =
     foldl (\<lambda>best e. case best of None \<Rightarrow> Some e | Some b \<Rightarrow> if ev_time b \<le> ev_time e then Some e else Some b) None
       (filter (\<lambda>e. ev_time e \<le> when) (events t))"

section \<open>Profiler\<close>

definition SAMPLE_WINDOW :: nat where "SAMPLE_WINDOW = 256"

record execution_stats =
  st_samples :: u64
  p50_us :: u64
  p95_us :: u64
  p99_us :: u64
  max_us :: u64
  mean_us :: u64
  last_us :: u64

record resource_profile =
  rp_resource :: string
  samples :: "u64 list"
  total_invocations :: u64
  total_time_us :: u64
  slow_invocations :: u64
  slow_threshold_us :: u64
  rp_errors :: u64
  rp_warnings :: u64
  bytes_sent :: u64
  bytes_recv :: u64

definition profile_new :: "string \<Rightarrow> u64 \<Rightarrow> resource_profile" where
  "profile_new r threshold =
     \<lparr>rp_resource = r, samples = [], total_invocations = 0, total_time_us = 0, slow_invocations = 0,
      slow_threshold_us = threshold, rp_errors = 0, rp_warnings = 0, bytes_sent = 0, bytes_recv = 0\<rparr>"

definition profile_record :: "resource_profile \<Rightarrow> u64 \<Rightarrow> resource_profile" where
  "profile_record p micros =
     p\<lparr>total_invocations := total_invocations p + 1, total_time_us := total_time_us p + micros,
       slow_invocations := (if slow_threshold_us p < micros then slow_invocations p + 1 else slow_invocations p),
       samples := (if SAMPLE_WINDOW \<le> length (samples p) then tl (samples p) else samples p) @ [micros]\<rparr>"

definition profile_record_error :: "resource_profile \<Rightarrow> resource_profile" where
  "profile_record_error p = p\<lparr>rp_errors := rp_errors p + 1\<rparr>"

definition profile_record_network :: "resource_profile \<Rightarrow> u64 \<Rightarrow> u64 \<Rightarrow> resource_profile" where
  "profile_record_network p sent recv = p\<lparr>bytes_sent := bytes_sent p + sent, bytes_recv := bytes_recv p + recv\<rparr>"

text \<open>\<open>ceil_rank pct n\<close> is the floating-point expression \<open>(pct / 100.0 * n as f64).ceil() as usize\<close>.\<close>

definition rank_index :: "(nat \<Rightarrow> nat \<Rightarrow> nat) \<Rightarrow> nat \<Rightarrow> nat \<Rightarrow> nat" where
  "rank_index ceil_rank n pct = min (ceil_rank pct n - 1) (n - 1)"

definition stats :: "(nat \<Rightarrow> nat \<Rightarrow> nat) \<Rightarrow> resource_profile \<Rightarrow> execution_stats" where
  "stats ceil_rank p =
     (let n = length (samples p) in
      if n = 0 then \<lparr>st_samples = 0, p50_us = 0, p95_us = 0, p99_us = 0, max_us = 0, mean_us = 0, last_us = 0\<rparr>
      else
        let sorted = sort (samples p) in
        \<lparr>st_samples = total_invocations p, p50_us = sorted ! rank_index ceil_rank n 50, p95_us = sorted ! rank_index ceil_rank n 95,
         p99_us = sorted ! rank_index ceil_rank n 99, max_us = sorted ! (n - 1),
         mean_us = total_time_us p div max (total_invocations p) 1, last_us = last (samples p)\<rparr>)"

definition total_cpu_ms :: "resource_profile \<Rightarrow> u64" where
  "total_cpu_ms p = total_time_us p div 1000"

record profiler =
  profiles :: "(string, resource_profile) hmap"
  pr_threshold :: u64

definition profiler_new :: "u64 \<Rightarrow> profiler" where
  "profiler_new t = \<lparr>profiles = [], pr_threshold = t\<rparr>"

definition observe :: "profiler \<Rightarrow> string \<Rightarrow> u64 \<Rightarrow> profiler" where
  "observe pr r micros =
     pr\<lparr>profiles := hm_insert r (profile_record (hm_get_or (profile_new r (pr_threshold pr)) (profiles pr) r) micros) (profiles pr)\<rparr>"

definition on_profile :: "(resource_profile \<Rightarrow> resource_profile) \<Rightarrow> profiler \<Rightarrow> string \<Rightarrow> profiler" where
  "on_profile f pr r =
     (case hm_get (profiles pr) r of Some p \<Rightarrow> pr\<lparr>profiles := hm_insert r (f p) (profiles pr)\<rparr> | None \<Rightarrow> pr)"

definition profiler_record_error :: "profiler \<Rightarrow> string \<Rightarrow> profiler" where
  "profiler_record_error pr r = on_profile profile_record_error pr r"

definition profiler_record_network :: "profiler \<Rightarrow> string \<Rightarrow> u64 \<Rightarrow> u64 \<Rightarrow> profiler" where
  "profiler_record_network pr r sent recv = on_profile (\<lambda>p. profile_record_network p sent recv) pr r"

definition by_cpu :: "profiler \<Rightarrow> (string \<times> u64) list" where
  "by_cpu pr = sort_key (\<lambda>(_, ms). 2 ^ 64 - 1 - uint ms) (map (\<lambda>(n, p). (n, total_cpu_ms p)) (profiles pr))"

definition slowest_by_p95 :: "(nat \<Rightarrow> nat \<Rightarrow> nat) \<Rightarrow> profiler \<Rightarrow> (string \<times> execution_stats) list" where
  "slowest_by_p95 ceil_rank pr =
     sort_key (\<lambda>(_, s). 2 ^ 64 - 1 - uint (p95_us s)) (map (\<lambda>(n, p). (n, stats ceil_rank p)) (profiles pr))"

section \<open>Lemmas on player actions\<close>

lemma pa_log_bans [simp]: "bans (pa_log p who what whom now yes why) = bans p"
  by (simp add: pa_log_def)

lemmas action_defs = message_player_def warn_player_def kick_player_def online_action_def ban_player_def authorize_def

text \<open>Each action is applied only with its permission; without it the action is denied and logged.\<close>

lemma online_action_outcome:
  "snd (online_action has online perm what why p who whom now) =
     (if \<not> has who perm then Denied perm else if \<not> online whom then NoSuchPlayer else Applied)"
  "bans (fst (online_action has online perm what why p who whom now)) = bans p"
  by (simp_all add: online_action_def authorize_def)

lemma ban_outcome:
  "snd (ban_player has p who whom why dur now) = (if has who PLAYERS_BAN then Applied else Denied PLAYERS_BAN)"
  "bans (fst (ban_player has p who whom why dur now)) =
     (if has who PLAYERS_BAN
      then bans p @ [\<lparr>ban_id = ''ban-'' @ show_nat (unat now) @ ''-'' @ show_nat (length whom), player_id = whom, reason = why,
        duration = dur, banned_by = who, banned_at = now\<rparr>] else bans p)"
  by (simp_all add: ban_player_def authorize_def Let_def)

lemma denied_logged:
  assumes "\<not> has who PLAYERS_BAN"
  shows "last (entries (pa_audit (fst (ban_player has p who whom why dur now)))) =
    \<lparr>actor = who, action = Ban, target = Some whom, timestamp = now, success = False,
     detail = ''denied: missing '' @ PLAYERS_BAN, source_ip = None\<rparr>"
  using assms
  by (simp add: ban_player_def authorize_def pa_log_def audit_record_def action_for_def PLAYERS_BAN_def PLAYERS_KICK_def)

lemma is_banned_iff: "is_banned p player now \<noteq> None \<longleftrightarrow> (\<exists>b \<in> set (bans p). player_id b = player \<and> ban_active b now)"
  by (auto simp: is_banned_def find_None_iff)

datatype player_op =
    PMessage string string u64 | PWarn string string string u64 | PKick string string string u64
  | PBan string string string ban_duration u64

fun player_step :: "(string \<Rightarrow> string \<Rightarrow> bool) \<Rightarrow> (string \<Rightarrow> bool) \<Rightarrow> player_actions \<Rightarrow> player_op \<Rightarrow> player_actions" where
  "player_step has online p (PMessage who whom now) = fst (message_player has online p who whom now)"
| "player_step has online p (PWarn who whom why now) = fst (warn_player has online p who whom why now)"
| "player_step has online p (PKick who whom why now) = fst (kick_player has online p who whom why now)"
| "player_step has online p (PBan who whom why dur now) = fst (ban_player has p who whom why dur now)"

text \<open>A ban outlives every later action and is in force until it expires; no one is banned without the permission.\<close>

lemma bans_grow: "\<exists>more. bans (foldl (player_step has online) p ops) = bans p @ more"
proof (induction ops arbitrary: p)
  case (Cons op ops)
  have "\<exists>more. bans (player_step has online p op) = bans p @ more"
    by (cases op) (auto simp: message_player_def warn_player_def kick_player_def online_action_outcome ban_outcome)
  then show ?case using Cons.IH [of "player_step has online p op"] by auto
qed simp

lemma ban_stays:
  assumes "has who PLAYERS_BAN" and "dur = Permanent \<or> (\<exists>e. dur = Temporary e \<and> now' < e)"
  shows "is_banned (foldl (player_step has online) (fst (ban_player has p who whom why dur now)) ops) whom now' \<noteq> None"
proof -
  let ?b = "last (bans (fst (ban_player has p who whom why dur now)))"
  have "?b \<in> set (bans (fst (ban_player has p who whom why dur now)))" "player_id ?b = whom" "duration ?b = dur"
    using assms(1) by (simp_all add: ban_outcome)
  then show ?thesis
    using bans_grow [of has online "fst (ban_player has p who whom why dur now)" ops] assms(2)
    unfolding is_banned_iff by (force simp: ban_active_def)
qed

lemma bans_authorised:
  assumes "b \<in> set (bans (foldl (player_step has online) p ops))" and "bans p = []"
  shows "has (banned_by b) PLAYERS_BAN"
proof -
  have "(\<forall>b \<in> set (bans p). has (banned_by b) PLAYERS_BAN) \<Longrightarrow>
      \<forall>b \<in> set (bans (foldl (player_step has online) p ops)). has (banned_by b) PLAYERS_BAN"
  proof (induction ops arbitrary: p)
    case (Cons op ops)
    have "\<forall>b \<in> set (bans (player_step has online p op)). has (banned_by b) PLAYERS_BAN"
      using Cons.prems
      by (cases op) (auto simp: message_player_def warn_player_def kick_player_def online_action_outcome ban_outcome)
    then show ?case using Cons.IH by simp
  qed simp
  then show ?thesis using assms by simp
qed

text \<open>An action on a player who is not online leaves no trace in the log.\<close>

lemma absent_player_unlogged:
  "has who PLAYERS_KICK \<Longrightarrow> \<not> online whom \<Longrightarrow> kick_player has online p who whom why now = (p, NoSuchPlayer)"
  by (simp add: kick_player_def online_action_def authorize_def)

section \<open>Lemmas on alerts\<close>

datatype alert_op = AFire string alert_kind string u64 | AResolve string alert_kind u64 | AWebhook string

fun alert_step :: "alerts \<Rightarrow> alert_op \<Rightarrow> alerts" where
  "alert_step a (AFire s k m now) = fst (fire a s k m now)"
| "alert_step a (AResolve s k now) = fst (resolve a s k now)"
| "alert_step a (AWebhook u) = add_webhook a u"

definition alerts_ok :: "alerts \<Rightarrow> bool" where
  "alerts_ok a \<longleftrightarrow> hm_wf (open_map a) \<and> distinct (webhooks a) \<and>
     (\<forall>s k al. hm_get (open_map a) (s, k) = Some al \<longrightarrow>
        al_subject al = s \<and> al_kind al = k \<and> al_severity al = default_severity k \<and> resolved_at al = None) \<and>
     (\<forall>al \<in> set (resolved a). resolved_at al \<noteq> None \<and> al_severity al = default_severity (al_kind al))"

lemma alerts_ok_step: "alerts_ok a \<Longrightarrow> alerts_ok (alert_step a op)"
  by (cases op)
    (auto simp: alerts_ok_def fire_def resolve_def add_webhook_def hm_get_or_def hm_simps Let_def split: option.splits if_splits)

interpretation alerts_run: op_system alerts_new alert_step alerts_ok
  by unfold_locales (simp add: alerts_ok_def alerts_new_def, rule alerts_ok_step)

text \<open>
  The open alert of a condition counts the reports since it was last resolved; there is none exactly
  if there were no reports since then.
\<close>

fun fires_since :: "string \<Rightarrow> alert_kind \<Rightarrow> alert_op list \<Rightarrow> nat" where
  "fires_since s k [] = 0"
| "fires_since s k (AFire s' k' _ _ # rest) = (if s' = s \<and> k' = k then Suc (fires_since s k rest) else fires_since s k rest)"
| "fires_since s k (AResolve s' k' _ # rest) = (if s' = s \<and> k' = k then 0 else fires_since s k rest)"
| "fires_since s k (AWebhook _ # rest) = fires_since s k rest"

lemma open_alert_counts:
  "map_option occurrences (hm_get (open_map (foldl alert_step alerts_new (rev ops))) (s, k)) =
     (if fires_since s k ops = 0 then None else Some (of_nat (fires_since s k ops)))"
proof (induction ops)
  case (Cons op ops)
  let ?a = "foldl alert_step alerts_new (rev ops)"
  have a: "foldl alert_step alerts_new (rev (op # ops)) = alert_step ?a op" by simp
  show ?case unfolding a using Cons
    by (cases op)
      (auto simp: fire_def resolve_def add_webhook_def hm_get_or_def hm_simps Let_def split: option.splits if_splits)
qed (simp add: alerts_new_def)

section \<open>Lemmas on the timeline and the profiler\<close>

definition timeline_ok :: "incident_timeline \<Rightarrow> bool" where
  "timeline_ok t \<longleftrightarrow> sorted (map ev_time (events t)) \<and> length (events t) \<le> tl_capacity t \<and> 1 \<le> tl_capacity t"

lemma timeline_record_ok: "timeline_ok t \<Longrightarrow> timeline_ok (timeline_record t e)"
  by (auto simp: timeline_ok_def timeline_record_def Let_def)

interpretation timeline_run: op_system "timeline_new n" timeline_record timeline_ok for n
  by unfold_locales (simp add: timeline_ok_def timeline_new_def, rule timeline_record_ok)

text \<open>In a sorted timeline the search for the greatest time finds the last event up to then.\<close>

lemma foldl_last:
  "sorted (map ev_time (e # es)) \<Longrightarrow>
   foldl (\<lambda>best e. case best of None \<Rightarrow> Some e | Some b \<Rightarrow> if ev_time b \<le> ev_time e then Some e else Some b) (Some e) es =
   Some (last (e # es))"
  by (induction es arbitrary: e) auto

lemma immediately_before_last:
  assumes "timeline_ok t"
  shows "immediately_before t when =
    (let es = filter (\<lambda>e. ev_time e \<le> when) (events t) in if es = [] then None else Some (last es))"
proof -
  have "sorted (map ev_time (filter (\<lambda>e. ev_time e \<le> when) (events t)))"
    using assms by (simp add: timeline_ok_def sorted_filter)
  then show ?thesis
    by (cases "filter (\<lambda>e. ev_time e \<le> when) (events t)") (simp_all add: immediately_before_def foldl_last Let_def)
qed

text \<open>Whatever the rank computation, the percentiles are measured values; they are ordered if it is monotone.\<close>

lemma rank_index_less: "n \<noteq> 0 \<Longrightarrow> rank_index f n pct < n"
  by (auto simp: rank_index_def min_def)

lemma percentiles_measured:
  assumes "samples p \<noteq> []"
  shows "{p50_us (stats f p), p95_us (stats f p), p99_us (stats f p), max_us (stats f p), last_us (stats f p)} \<subseteq> set (samples p)"
proof -
  have "sort (samples p) ! i \<in> set (samples p)" if "i < length (samples p)" for i
    using that by (metis length_sort nth_mem set_sort)
  then show ?thesis using assms rank_index_less [of "length (samples p)" f] by (simp add: stats_def Let_def)
qed

lemma percentiles_ordered:
  assumes "\<And>a b n. a \<le> b \<Longrightarrow> f a n \<le> f b n"
  shows "p50_us (stats f p) \<le> p95_us (stats f p) \<and> p95_us (stats f p) \<le> p99_us (stats f p) \<and>
    p99_us (stats f p) \<le> max_us (stats f p)"
proof (cases "samples p = []")
  case False
  let ?n = "length (samples p)"
  have mono: "sort (samples p) ! i \<le> sort (samples p) ! j" if "i \<le> j" "j < ?n" for i j
    using that by (simp add: sorted_nth_mono)
  have "rank_index f ?n 50 \<le> rank_index f ?n 95" "rank_index f ?n 95 \<le> rank_index f ?n 99" "rank_index f ?n 99 \<le> ?n - 1"
    using assms [of 50 95 ?n] assms [of 95 99 ?n] by (auto simp: rank_index_def min_def)
  then show ?thesis using mono False rank_index_less [of ?n f] by (simp add: stats_def Let_def)
qed (simp add: stats_def)

end
