(* ===== verification/OrderedMap.thy ===== *)
theory OrderedMap
  imports Prelude "HOL-Library.List_Lexorder" "HOL-Library.Char_ord"
begin

text \<open>
  A \<open>BTreeMap\<close> is a list of entries with strictly increasing keys. Strings and byte vectors are ordered
  lexicographically by their bytes, as in Rust. A registry whose entries may only be upgraded is an
  interface that two crates share.
\<close>

section \<open>Ordered maps\<close>

text \<open>The flag is whether the key was present.\<close>

fun bt_insert :: "'k::linorder \<Rightarrow> 'v \<Rightarrow> ('k \<times> 'v) list \<Rightarrow> ('k \<times> 'v) list \<times> bool" where
  "bt_insert k v [] = ([(k, v)], False)"
| "bt_insert k v ((k', v') # m) =
     (if k < k' then ((k, v) # (k', v') # m, False)
      else if k = k' then ((k, v) # m, True)
      else let (m', old) = bt_insert k v m in ((k', v') # m', old))"

abbreviation bt_put :: "'k::linorder \<Rightarrow> 'v \<Rightarrow> ('k \<times> 'v) list \<Rightarrow> ('k \<times> 'v) list" where
  "bt_put k v m \<equiv> fst (bt_insert k v m)"

definition bt_ok :: "('k::linorder \<times> 'v) list \<Rightarrow> bool" where
  "bt_ok m = sorted_wrt (<) (map fst m)"

lemma bt_insert_last: "\<forall>k' \<in> set (map fst m). k' < k \<Longrightarrow> bt_insert k v m = (m @ [(k, v)], False)"
  by (induction m) (auto simp: Let_def)

lemma bt_insert_keys: "bt_insert k v m = (m', old) \<Longrightarrow> set (map fst m') = insert k (set (map fst m))"
  by (induction m arbitrary: m' old) (auto simp: Let_def simp del: set_map split: if_splits prod.splits)

lemma bt_insert_ok: "bt_ok m \<Longrightarrow> bt_insert k v m = (m', old) \<Longrightarrow> bt_ok m'"
proof (induction m arbitrary: m' old)
  case (Cons p m)
  obtain k' v' where p: "p = (k', v')" by (cases p)
  obtain m1 o1 where m1: "bt_insert k v m = (m1, o1)" by fastforce
  have "bt_ok m1" using Cons m1 by (auto simp: bt_ok_def)
  moreover have "set (map fst m1) = insert k (set (map fst m))" using bt_insert_keys [OF m1] .
  ultimately show ?case
    using Cons.prems p m1 by (fastforce simp: bt_ok_def split: if_splits)
qed (auto simp: bt_ok_def)

lemma bt_put_ok [simp, intro]: "bt_ok m \<Longrightarrow> bt_ok (bt_put k v m)"
  by (cases "bt_insert k v m") (auto dest: bt_insert_ok)

lemma bt_put_get [simp]: "map_of (bt_put k v m) = (map_of m)(k \<mapsto> v)"
  by (induction m) (auto simp: fun_eq_iff Let_def split: prod.splits)

lemma bt_ok_distinct: "bt_ok m \<Longrightarrow> hm_wf m"
  unfolding bt_ok_def hm_wf_def by (simp add: strict_sorted_iff)

section \<open>Registries\<close>

text \<open>
  A registry grows by registrations. An entry that is present can only be replaced by a certified one,
  and only while it is not certified itself.
\<close>

locale upgrade_registry =
  fixes enrol :: "'s \<Rightarrow> 'a \<Rightarrow> 's"
    and look :: "'s \<Rightarrow> string \<Rightarrow> 'e option"
    and certified :: "'e \<Rightarrow> bool"
  assumes enrol_keeps: "look s k = Some e \<Longrightarrow> \<exists>e'. look (enrol s a) k = Some e' \<and> (e' = e \<or> \<not> certified e \<and> certified e')"
begin

lemma known_stays: "look s k \<noteq> None \<Longrightarrow> look (foldl enrol s as) k \<noteq> None"
proof (induction as arbitrary: s)
  case (Cons a as)
  then obtain e where "look s k = Some e" by auto
  then have "look (enrol s a) k \<noteq> None" using enrol_keeps [of s k e a] by auto
  then show ?case using Cons.IH by simp
qed simp

lemma certified_final: "look s k = Some e \<Longrightarrow> certified e \<Longrightarrow> look (foldl enrol s as) k = Some e"
proof (induction as arbitrary: s)
  case (Cons a as)
  then show ?case using enrol_keeps [OF Cons.prems(1), of a] by auto
qed simp

end

end
