(* ===== verification/Snapshot.thy ===== *)
theory Snapshot
  imports Msgpack OrderedMap
begin

text \<open>
  World snapshots (\<open>crates/ald-snapshot\<close>): the framed encoding with its checksum trailer and the
  decoder. The hash function is a parameter. The reader is the list of bytes that are left.
\<close>

section \<open>Snapshots\<close>

definition MAGIC :: bytes where "MAGIC = [65, 76, 68, 83, 78, 65, 80, 49]"
definition SUPPORTED_SCHEMAS :: "u32 list" where "SUPPORTED_SCHEMAS = [1]"
definition MAX_KEY_LEN :: nat where "MAX_KEY_LEN = 256"
definition MAX_VALUE_LEN :: int where "MAX_VALUE_LEN = 4096576"

record snapshot =
  schema_version :: u32
  tick :: u64
  entries :: "(bytes \<times> bytes) list"

datatype snapshot_error =
    BadMagic | UnsupportedSchema u32 | Truncated | ChecksumMismatch | KeyTooLong nat | BadKeyEncoding
  | DuplicateKey | ValueTooLong nat | TooManyEntries

definition snapshot_new :: "u64 \<Rightarrow> (bytes \<times> bytes) list \<Rightarrow> snapshot" where
  "snapshot_new t es = \<lparr>schema_version = 1, tick = t, entries = es\<rparr>"

section \<open>Encoding\<close>

definition enc_entry :: "bytes \<times> bytes \<Rightarrow> bytes" where
  "enc_entry = (\<lambda>(k, v). be_enc 2 (of_nat (length k) :: u16) @ k @ be_enc 4 (of_nat (length v) :: u32) @ v)"

fun enc_entries :: "(bytes \<times> bytes) list \<Rightarrow> bytes \<Rightarrow> (bytes, snapshot_error) result" where
  "enc_entries [] out = Ok out"
| "enc_entries ((k, v) # es) out =
     (if MAX_KEY_LEN < length k then Err (KeyTooLong (length k))
      else if MAX_VALUE_LEN < int (length v) then Err (ValueTooLong (length v))
      else enc_entries es (out @ enc_entry (k, v)))"

definition enc_header :: "snapshot \<Rightarrow> bytes" where
  "enc_header s =
     MAGIC @ be_enc 4 (schema_version s) @ be_enc 8 (tick s) @ be_enc 4 (of_nat (length (entries s)) :: u32)"

definition snapshot_encode :: "(bytes \<Rightarrow> bytes) \<Rightarrow> snapshot \<Rightarrow> (bytes, snapshot_error) result" where
  "snapshot_encode sha s =
     (if schema_version s \<notin> set SUPPORTED_SCHEMAS then Err (UnsupportedSchema (schema_version s))
      else if 2 ^ 32 - 1 < int (length (entries s)) then Err TooManyEntries
      else (case enc_entries (entries s) (enc_header s) of
        Inl e \<Rightarrow> Err e
      | Inr out \<Rightarrow> Ok (out @ sha out)))"

section \<open>Decoding\<close>

definition take_bytes :: "nat \<Rightarrow> bytes \<Rightarrow> (bytes \<times> bytes) option" where
  "take_bytes n r = (if n \<le> length r then Some (take n r, drop n r) else None)"

definition read_word :: "nat \<Rightarrow> bytes \<Rightarrow> ('a::len word \<times> bytes) option" where
  "read_word n r = map_option (\<lambda>(b, r'). (be_dec b, r')) (take_bytes n r)"

definition read_entry :: "bytes \<Rightarrow> ((bytes \<times> bytes) \<times> bytes, snapshot_error) result" where
  "read_entry r =
     (case (read_word 2 r :: (u16 \<times> bytes) option) of
        None \<Rightarrow> Err Truncated
      | Some (klen, r1) \<Rightarrow>
          if MAX_KEY_LEN < unat klen \<or> unat klen = 0 then Err (KeyTooLong (unat klen))
          else (case take_bytes (unat klen) r1 of
            None \<Rightarrow> Err Truncated
          | Some (key, r2) \<Rightarrow>
              if \<not> utf8_valid key then Err BadKeyEncoding
              else (case (read_word 4 r2 :: (u32 \<times> bytes) option) of
                None \<Rightarrow> Err Truncated
              | Some (vlen, r3) \<Rightarrow>
                  if MAX_VALUE_LEN < uint vlen then Err (ValueTooLong (unat vlen))
                  else (case take_bytes (unat vlen) r3 of
                    None \<Rightarrow> Err Truncated
                  | Some (val, r4) \<Rightarrow> Ok ((key, val), r4)))))"

fun read_entries ::
  "nat \<Rightarrow> (bytes \<times> bytes) list \<Rightarrow> bytes \<Rightarrow> ((bytes \<times> bytes) list \<times> bytes, snapshot_error) result" where
  "read_entries 0 m r = Ok (m, r)"
| "read_entries (Suc n) m r =
     (case read_entry r of
        Inl e \<Rightarrow> Err e
      | Inr ((k, v), r') \<Rightarrow>
          (case bt_insert k v m of (m', old) \<Rightarrow> if old then Err DuplicateKey else read_entries n m' r'))"

definition snapshot_decode :: "(bytes \<Rightarrow> bytes) \<Rightarrow> bytes \<Rightarrow> (snapshot, snapshot_error) result" where
  "snapshot_decode sha bs =
     (case take_bytes 8 bs of
        None \<Rightarrow> Err Truncated
      | Some (magic, r1) \<Rightarrow>
          if magic \<noteq> MAGIC then Err BadMagic
          else (case (read_word 4 r1 :: (u32 \<times> bytes) option) of
            None \<Rightarrow> Err Truncated
          | Some (schema, r2) \<Rightarrow>
              if schema \<notin> set SUPPORTED_SCHEMAS then Err (UnsupportedSchema schema)
              else (case (read_word 8 r2 :: (u64 \<times> bytes) option) of
                None \<Rightarrow> Err Truncated
              | Some (t, r3) \<Rightarrow>
                  (case (read_word 4 r3 :: (u32 \<times> bytes) option) of
                     None \<Rightarrow> Err Truncated
                   | Some (count, r4) \<Rightarrow>
                       if 1000000 < count then Err TooManyEntries
                       else (case read_entries (unat count) [] r4 of
                         Inl e \<Rightarrow> Err e
                       | Inr (es, rest) \<Rightarrow>
                           let cut = length bs - 32; trailer = drop cut bs in
                           if length trailer \<noteq> 32 \<or> length rest \<noteq> 32 then Err Truncated
                           else if sha (take cut bs) \<noteq> trailer then Err ChecksumMismatch
                           else Ok \<lparr>schema_version = schema, tick = t, entries = es\<rparr>)))))"

section \<open>Lemmas\<close>

lemma read_word_enc [simp]:
  "LENGTH('a) = 8 * n \<Longrightarrow> read_word n (be_enc n (w :: 'a::len word) @ r) = Some (w, r)"
  by (simp add: read_word_def take_bytes_def be_dec_enc_id)

lemma take_bytes_append [simp]: "take_bytes (length a) (a @ r) = Some (a, r)"
  by (simp add: take_bytes_def)

definition entry_ok :: "bytes \<times> bytes \<Rightarrow> bool" where
  "entry_ok = (\<lambda>(k, v). k \<noteq> [] \<and> utf8_valid k \<and> length k \<le> MAX_KEY_LEN \<and> int (length v) \<le> MAX_VALUE_LEN)"

lemma read_entry_enc:
  assumes "entry_ok (k, v)"
  shows "read_entry (enc_entry (k, v) @ r) = Inr ((k, v), r)"
proof -
  have k: "length k \<le> 256" "k \<noteq> []" "utf8_valid k" "int (length v) \<le> 4096576"
    using assms by (simp_all add: entry_ok_def MAX_KEY_LEN_def MAX_VALUE_LEN_def)
  have "unat (of_nat (length k) :: u16) = length k" using k by (simp add: unat_of_nat)
  moreover have "unat (of_nat (length v) :: u32) = length v" using k(4) by (simp add: unat_of_nat)
  moreover have "uint (of_nat (length v) :: u32) = int (length v)" using calculation(2) by (metis uint_nat)
  ultimately show ?thesis
    using k by (simp add: read_entry_def enc_entry_def MAX_KEY_LEN_def MAX_VALUE_LEN_def)
qed

lemma read_entries_enc:
  assumes "\<forall>e \<in> set es. entry_ok e" and "bt_ok (m @ es)"
  shows "read_entries (length es) m (concat (map enc_entry es) @ r) = Inr (m @ es, r)"
  using assms
proof (induction es arbitrary: m)
  case (Cons e es)
  obtain k v where e: "e = (k, v)" by (cases e)
  have "\<forall>k' \<in> set (map fst m). k' < k" using Cons.prems(2) e by (auto simp: bt_ok_def sorted_wrt_append)
  then have "bt_insert k v m = (m @ [(k, v)], False)" by (rule bt_insert_last)
  then show ?case using Cons e read_entry_enc [of k v] by simp
qed simp

lemma enc_entries_ok:
  "enc_entries es out = Inr out' \<longleftrightarrow>
   (\<forall>(k, v) \<in> set es. length k \<le> MAX_KEY_LEN \<and> int (length v) \<le> MAX_VALUE_LEN) \<and> out' = out @ concat (map enc_entry es)"
  by (induction es arbitrary: out) (auto simp: not_less split: if_splits)

lemma read_entry_ok: "read_entry r = Inr ((k, v), r') \<Longrightarrow> entry_ok (k, v)"
proof -
  assume "read_entry r = Inr ((k, v), r')"
  then obtain klen r1 r2 vlen r3 where a: "\<not> (MAX_KEY_LEN < unat (klen :: u16) \<or> unat klen = 0)"
      "take_bytes (unat klen) r1 = Some (k, r2)" "utf8_valid k"
      "\<not> MAX_VALUE_LEN < uint (vlen :: u32)" "take_bytes (unat vlen) r3 = Some (v, r')"
    by (auto simp: read_entry_def split: option.splits if_splits)
  have "length k = unat klen" "length v = unat vlen"
    using a(2,5) by (auto simp: take_bytes_def split: if_splits)
  then show ?thesis using a by (auto simp: entry_ok_def)
qed

lemma read_entries_ok:
  "read_entries n m r = Inr (es, r') \<Longrightarrow> bt_ok m \<Longrightarrow> \<forall>e \<in> set m. entry_ok e \<Longrightarrow>
   bt_ok es \<and> (\<forall>e \<in> set es. entry_ok e) \<and> length es = length m + n"
proof (induction n arbitrary: m r)
  case (Suc n)
  then obtain k v r1 m1 where a: "read_entry r = Inr ((k, v), r1)" "bt_insert k v m = (m1, False)"
      "read_entries n m1 r1 = Inr (es, r')"
    by (auto split: sum.splits prod.splits if_splits)
  have "set m1 \<subseteq> insert (k, v) (set m) \<and> length m1 = Suc (length m)"
    using a(2) by (induction m arbitrary: m1) (auto simp: Let_def split: if_splits prod.splits)
  then show ?case
    using Suc.IH [OF a(3) bt_insert_ok [OF Suc.prems(2) a(2)]] Suc.prems(3) read_entry_ok [OF a(1)] by auto
qed simp

definition snapshot_ok :: "snapshot \<Rightarrow> bool" where
  "snapshot_ok s \<longleftrightarrow> schema_version s \<in> set SUPPORTED_SCHEMAS \<and> bt_ok (entries s) \<and> (\<forall>e \<in> set (entries s). entry_ok e) \<and>
     int (length (entries s)) \<le> 1000000"

lemma snapshot_encode_ok:
  assumes "snapshot_ok s"
  shows "snapshot_encode sha s =
    Inr (let out = enc_header s @ concat (map enc_entry (entries s)) in out @ sha out)"
proof -
  have "enc_entries (entries s) (enc_header s) = Inr (enc_header s @ concat (map enc_entry (entries s)))"
    using assms by (force simp: enc_entries_ok snapshot_ok_def entry_ok_def)
  then show ?thesis using assms by (simp add: snapshot_encode_def snapshot_ok_def Let_def)
qed

lemma snapshot_decode_encode:
  assumes "snapshot_ok s" and "\<forall>b. length (sha b) = 32" and "snapshot_encode sha s = Inr bs"
  shows "snapshot_decode sha bs = Inr s"
proof -
  let ?es = "entries s" and ?out = "enc_header s @ concat (map enc_entry (entries s))"
  have bs: "bs = ?out @ sha ?out" using assms snapshot_encode_ok by (metis Inr_inject)
  have n: "length ?es \<le> 1000000" using assms(1) by (simp add: snapshot_ok_def)
  then have c: "unat (of_nat (length ?es) :: u32) = length ?es" by (simp add: unat_of_nat)
  then have le: "\<not> 1000000 < (of_nat (length ?es) :: u32)" using n by (simp add: word_less_nat_alt)
  have r: "read_entries (length ?es) [] (concat (map enc_entry ?es) @ sha ?out) = Inr (?es, sha ?out)"
    using read_entries_enc [of ?es "[]"] assms(1) by (simp add: snapshot_ok_def)
  have "take_bytes 8 bs = Some (MAGIC, be_enc 4 (schema_version s) @ be_enc 8 (tick s) @
      be_enc 4 (of_nat (length ?es) :: u32) @ concat (map enc_entry ?es) @ sha ?out)"
    by (simp add: bs enc_header_def take_bytes_def MAGIC_def)
  moreover have "length bs - 32 = length ?out" "take (length ?out) bs = ?out" "drop (length ?out) bs = sha ?out"
    using assms(2) by (simp_all add: bs)
  moreover have "length bs - length ?out = 32" using assms(2) by (simp add: bs)
  ultimately show ?thesis
    using assms(1,2) c le r by (simp add: snapshot_decode_def snapshot_ok_def Let_def)
qed

interpretation snapshot_codec:
  codec "snapshot_encode sha" "snapshot_decode sha" "\<lambda>s. snapshot_ok s \<and> (\<forall>b. length (sha b) = 32)" for sha
  by unfold_locales (blast intro: snapshot_decode_encode)

text \<open>Whatever the decoder accepts is a well-formed snapshot whose body has the hash in the trailer.\<close>

lemma snapshot_decode_ok:
  assumes "snapshot_decode sha bs = Inr s"
  shows "snapshot_ok s \<and> take 8 bs = MAGIC \<and> sha (take (length bs - 32) bs) = drop (length bs - 32) bs"
proof -
  obtain count r4 rest where a: "take 8 bs = MAGIC" "schema_version s \<in> set SUPPORTED_SCHEMAS" "\<not> 1000000 < (count :: u32)"
      "read_entries (unat count) [] r4 = Inr (entries s, rest)" "sha (take (length bs - 32) bs) = drop (length bs - 32) bs"
    using assms
    by (auto simp: snapshot_decode_def take_bytes_def Let_def split: option.splits if_splits sum.splits)
  have "bt_ok (entries s) \<and> (\<forall>e \<in> set (entries s). entry_ok e) \<and> length (entries s) = unat count"
    using read_entries_ok [OF a(4)] by (simp add: bt_ok_def)
  moreover have "unat count \<le> 1000000" using a(3) by (simp add: word_less_nat_alt)
  then have "int (unat count) \<le> 1000000" by linarith
  ultimately show ?thesis using a unfolding snapshot_ok_def by metis
qed

text \<open>The encoder accepts an empty key and the decoder does not.\<close>

lemma empty_key_unreadable:
  "\<exists>bs. snapshot_encode sha (snapshot_new 0 [([], [])]) = Inr bs \<and> snapshot_decode sha bs = Inl (KeyTooLong 0)"
proof -
  let ?s = "snapshot_new 0 [([], [])]" and ?e = "be_enc 2 (0 :: u16) @ be_enc 4 (0 :: u32)"
  have "snapshot_encode sha ?s = Inr ((enc_header ?s @ ?e) @ sha (enc_header ?s @ ?e))"
    by (simp add: snapshot_encode_def snapshot_new_def SUPPORTED_SCHEMAS_def MAX_VALUE_LEN_def enc_entry_def)
  moreover have "take_bytes 8 (MAGIC @ x) = Some (MAGIC, x)" for x by (simp add: take_bytes_def MAGIC_def)
  then have "snapshot_decode sha ((enc_header ?s @ ?e) @ x) = Inl (KeyTooLong 0)" for x
    by (simp add: snapshot_decode_def enc_header_def snapshot_new_def SUPPORTED_SCHEMAS_def read_entry_def)
  ultimately show ?thesis by blast
qed

end
