(* ===== verification/Database.thy ===== *)
theory Database
  imports AegisCrypto Core
begin

text \<open>
  The database interface (\<open>crates/ald-database\<close>): bound queries, transactions, the money-transfer
  transaction and the migration planner. Drivers are outside the crate; times are arguments.
\<close>

section \<open>Configuration and queries\<close>

record db_config =
  url :: string
  max_pool_size :: u32
  connection_timeout_secs :: u64

definition db_config_default :: db_config where
  "db_config_default = \<lparr>url = ''sqlite::memory:'', max_pool_size = 16, connection_timeout_secs = 30\<rparr>"

definition db_config_validate :: "db_config \<Rightarrow> (unit, ald_error) result" where
  "db_config_validate c =
     (if trim (url c) = [] then Err (Config ''db.url required'')
      else if max_pool_size c = 0 then Err (Config ''db.max_pool_size must be >= 1'')
      else Ok ())"

datatype param = PText string | PInt int | PBool bool | PNull

record query =
  sql :: string
  params :: "param list"

definition query_raw :: "string \<Rightarrow> query" where
  "query_raw s = \<lparr>sql = s, params = []\<rparr>"

definition bind :: "query \<Rightarrow> param \<Rightarrow> query" where
  "bind q p = q\<lparr>params := params q @ [p]\<rparr>"

definition validate_placeholders :: "query \<Rightarrow> (unit, ald_error) result" where
  "validate_placeholders q =
     (let n = count_list (sql q) (CHR ''?'') in
      if n \<noteq> length (params q)
      then Err (InvalidArgument (''placeholder count '' @ show_nat n @ '' != param count '' @ show_nat (length (params q))))
      else Ok ())"

section \<open>Transactions\<close>

datatype transaction_outcome = TCommitted | TRolledBack | TFailed string

datatype tx_state = TxOpen | TxCommitted | TxRolledBack

record transaction =
  statements :: "query list"
  tx_state :: tx_state
  timings :: "(string \<times> nat) list"
  slow_threshold :: nat

definition with_slow_threshold :: "nat \<Rightarrow> transaction" where
  "with_slow_threshold t = \<lparr>statements = [], tx_state = TxOpen, timings = [], slow_threshold = t\<rparr>"

definition transaction_new :: transaction where
  "transaction_new = with_slow_threshold 500"

definition statement :: "transaction \<Rightarrow> query \<Rightarrow> (transaction, ald_error) result" where
  "statement t q =
     (if tx_state t = TxOpen then
        (case validate_placeholders q of
           Inl e \<Rightarrow> Err e
         | Inr _ \<Rightarrow> Ok (t\<lparr>statements := statements t @ [q]\<rparr>))
      else Err (InvalidArgument ''cannot add a statement to a finished transaction''))"

definition tx_commit :: "transaction \<Rightarrow> transaction \<times> (transaction_outcome, ald_error) result" where
  "tx_commit t =
     (if tx_state t = TxOpen then
        (if statements t = [] then (t, Err (InvalidArgument ''committing an empty transaction is not allowed''))
         else (t\<lparr>tx_state := TxCommitted\<rparr>, Ok TCommitted))
      else (t, Err (InvalidArgument ''transaction already finished'')))"

definition tx_rollback :: "transaction \<Rightarrow> transaction \<times> (transaction_outcome, ald_error) result" where
  "tx_rollback t =
     (if tx_state t = TxOpen then (t\<lparr>tx_state := TxRolledBack\<rparr>, Ok TRolledBack)
      else (t, Err (InvalidArgument ''transaction already finished'')))"

definition record_timing :: "transaction \<Rightarrow> string \<Rightarrow> nat \<Rightarrow> transaction" where
  "record_timing t summary d = t\<lparr>timings := timings t @ [(summary, d)]\<rparr>"

definition slow_queries :: "transaction \<Rightarrow> (string \<times> nat) list" where
  "slow_queries t = filter (\<lambda>(_, d). slow_threshold t < d) (timings t)"

text \<open>What happens to a transaction value when it goes out of scope.\<close>

definition tx_drop :: "transaction \<Rightarrow> transaction" where
  "tx_drop t = (if tx_state t = TxOpen then t\<lparr>tx_state := TxRolledBack\<rparr> else t)"

fun add_statements :: "transaction \<Rightarrow> query list \<Rightarrow> (transaction, ald_error) result" where
  "add_statements t [] = Ok t"
| "add_statements t (q # qs) = (case statement t q of Inl e \<Rightarrow> Err e | Inr t' \<Rightarrow> add_statements t' qs)"

definition money_transfer_queries :: "string \<Rightarrow> string \<Rightarrow> int \<Rightarrow> string \<Rightarrow> query list" where
  "money_transfer_queries source target amount currency =
     [bind (query_raw ''SELECT balance FROM accounts WHERE account_id = ? FOR UPDATE'') (PText source),
      bind (bind (query_raw ''UPDATE accounts SET balance = balance - ? WHERE account_id = ?'') (PInt amount)) (PText source),
      bind (bind (query_raw ''UPDATE accounts SET balance = balance + ? WHERE account_id = ?'') (PInt amount)) (PText target),
      bind (bind (bind (bind (query_raw ''INSERT INTO ledger (source, target, amount, currency) VALUES (?, ?, ?, ?)'')
        (PText source)) (PText target)) (PInt amount)) (PText currency)]"

definition money_transfer_tx :: "string \<Rightarrow> string \<Rightarrow> int \<Rightarrow> string \<Rightarrow> (transaction, ald_error) result" where
  "money_transfer_tx source target amount currency =
     (if amount \<le> 0 then Err (InvalidArgument ''transfer amount must be positive'')
      else if source = target then Err (InvalidArgument ''cannot transfer to the same account'')
      else add_statements transaction_new (money_transfer_queries source target amount currency))"

section \<open>Migrations\<close>

record migration =
  version :: u64
  description :: string
  up :: string

fun fnv_feed :: "u64 \<Rightarrow> bytes \<Rightarrow> u64" where
  "fnv_feed h [] = h"
| "fnv_feed h (b # bs) = fnv_feed ((h XOR ucast b) * 0x100000001b3) bs"

definition checksum :: "migration \<Rightarrow> string" where
  "checksum m =
     (let h0 = 0xcbf29ce484222325;
          h1 = fnv_feed h0 (str_bytes (show_nat (unat (version m))));
          h2 = fnv_feed h1 [0];
          h3 = fnv_feed h2 (str_bytes (description m));
          h4 = fnv_feed h3 [0];
          h5 = fnv_feed h4 (str_bytes (up m)) in
      hex_encode (be_enc 8 h5))"

record applied_migration =
  am_version :: u64
  am_description :: string
  am_checksum :: string

record migration_report =
  r_applied :: "u64 list"
  r_skipped :: "u64 list"
  r_drift :: "u64 list"

fun first_duplicate :: "u64 list \<Rightarrow> migration list \<Rightarrow> u64 option" where
  "first_duplicate seen [] = None"
| "first_duplicate seen (m # ms) = (if version m \<in> set seen then Some (version m) else first_duplicate (version m # seen) ms)"

definition migrator_new :: "migration list \<Rightarrow> (migration list, ald_error) result" where
  "migrator_new ms =
     (case first_duplicate [] ms of
        Some v \<Rightarrow> Err (InvalidArgument (''duplicate migration version '' @ show_nat (unat v)))
      | None \<Rightarrow> Ok (sort_key version ms))"

text \<open>The later record of a version wins, as in the collected hash map.\<close>

definition history :: "applied_migration list \<Rightarrow> (u64, applied_migration) hmap" where
  "history as = foldl (\<lambda>m a. hm_insert (am_version a) a m) [] as"

fun plan_loop :: "(u64, applied_migration) hmap \<Rightarrow> migration list \<Rightarrow> migration_report \<Rightarrow> migration_report" where
  "plan_loop h [] r = r"
| "plan_loop h (m # ms) r =
     plan_loop h ms
       (case hm_get h (version m) of
          None \<Rightarrow> r\<lparr>r_applied := r_applied r @ [version m]\<rparr>
        | Some a \<Rightarrow>
            if am_checksum a \<noteq> checksum m then r\<lparr>r_drift := r_drift r @ [version m]\<rparr>
            else r\<lparr>r_skipped := r_skipped r @ [version m]\<rparr>)"

text \<open>The loop over the prefix condition that follows in the code has no effect.\<close>

definition plan :: "migration list \<Rightarrow> applied_migration list \<Rightarrow> (migration_report, ald_error) result" where
  "plan ms as = Ok (plan_loop (history as) ms \<lparr>r_applied = [], r_skipped = [], r_drift = []\<rparr>)"

fun statements_loop :: "(u64, migration) hmap \<Rightarrow> u64 list \<Rightarrow> (query list, ald_error) result" where
  "statements_loop h [] = Ok []"
| "statements_loop h (v # vs) =
     (case hm_get h v of
        None \<Rightarrow> Err (InvalidArgument (''unknown migration '' @ show_nat (unat v)))
      | Some m \<Rightarrow>
          (case statements_loop h vs of
             Inl e \<Rightarrow> Err e
           | Inr rest \<Rightarrow>
               Ok (query_raw (up m) #
                   bind (bind (bind (query_raw ''INSERT INTO schema_history (version, description, checksum) VALUES (?, ?, ?)'')
                     (PInt (sint v))) (PText (description m))) (PText (checksum m)) # rest)))"

definition statements_for :: "migration list \<Rightarrow> migration_report \<Rightarrow> (query list, ald_error) result" where
  "statements_for ms r = statements_loop (foldl (\<lambda>h m. hm_insert (version m) m h) [] ms) (r_applied r)"

section \<open>Transaction lemmas\<close>

definition tx_ok :: "transaction \<Rightarrow> bool" where
  "tx_ok t \<longleftrightarrow> (\<forall>q \<in> set (statements t). validate_placeholders q = Inr ())"

lemma tx_ok_statement: "tx_ok t \<Longrightarrow> statement t q = Inr t' \<Longrightarrow> tx_ok t' \<and> tx_state t' = TxOpen"
  by (auto simp: tx_ok_def statement_def split: if_splits sum.splits)

lemma tx_ok_add: "tx_ok t \<Longrightarrow> add_statements t qs = Inr t' \<Longrightarrow> tx_ok t'"
  by (induction qs arbitrary: t) (auto split: sum.splits dest: tx_ok_statement)

lemma add_statements_all:
  "tx_state t = TxOpen \<Longrightarrow> \<forall>q \<in> set qs. validate_placeholders q = Inr () \<Longrightarrow>
   add_statements t qs = Inr (t\<lparr>statements := statements t @ qs\<rparr>)"
  by (induction qs arbitrary: t) (auto simp: statement_def)

text \<open>A transaction is committed only by \<open>commit\<close>, never by being dropped, and is finished only once.\<close>

lemma dropped_not_committed: "tx_state (tx_drop t) = TxCommitted \<longleftrightarrow> tx_state t = TxCommitted"
  by (simp add: tx_drop_def)

lemma finished_once:
  assumes "tx_state t \<noteq> TxOpen"
  shows "tx_commit t = (t, Inl (InvalidArgument ''transaction already finished''))"
    and "tx_rollback t = (t, Inl (InvalidArgument ''transaction already finished''))"
    and "\<exists>e. statement t q = Inl e"
  using assms by (simp_all add: tx_commit_def tx_rollback_def statement_def)

text \<open>
  A money transfer is refused for a non-positive amount or between equal accounts; otherwise it is an
  open transaction of lock, debit, credit and ledger entry, in this order, with bound parameters, that
  can be committed.
\<close>

lemma transfer_queries_bound: "q \<in> set (money_transfer_queries a b n c) \<Longrightarrow> validate_placeholders q = Inr ()"
  by (auto simp: money_transfer_queries_def validate_placeholders_def bind_def query_raw_def)

lemma money_transfer:
  "money_transfer_tx a b n c =
     (if n \<le> 0 then Inl (InvalidArgument ''transfer amount must be positive'')
      else if a = b then Inl (InvalidArgument ''cannot transfer to the same account'')
      else Inr (transaction_new\<lparr>statements := money_transfer_queries a b n c\<rparr>))"
  "n > 0 \<Longrightarrow> a \<noteq> b \<Longrightarrow> \<exists>t. money_transfer_tx a b n c = Inr t \<and> tx_ok t \<and> snd (tx_commit t) = Inr TCommitted"
proof -
  have add: "add_statements transaction_new (money_transfer_queries a b n c) =
      Inr (transaction_new\<lparr>statements := money_transfer_queries a b n c\<rparr>)"
    using add_statements_all [of transaction_new "money_transfer_queries a b n c"] transfer_queries_bound
    by (simp add: transaction_new_def with_slow_threshold_def)
  then show one: "money_transfer_tx a b n c =
     (if n \<le> 0 then Inl (InvalidArgument ''transfer amount must be positive'')
      else if a = b then Inl (InvalidArgument ''cannot transfer to the same account'')
      else Inr (transaction_new\<lparr>statements := money_transfer_queries a b n c\<rparr>))"
    by (simp add: money_transfer_tx_def)
  show "\<exists>t. money_transfer_tx a b n c = Inr t \<and> tx_ok t \<and> snd (tx_commit t) = Inr TCommitted" if "n > 0" "a \<noteq> b"
    using that transfer_queries_bound unfolding one
    by (auto simp: tx_ok_def tx_commit_def transaction_new_def with_slow_threshold_def money_transfer_queries_def)
qed

section \<open>Migration lemmas\<close>

lemma first_duplicate_None: "first_duplicate seen ms = None \<longleftrightarrow> distinct (map version ms) \<and> set seen \<inter> set (map version ms) = {}"
  by (induction ms arbitrary: seen) auto

text \<open>A migrator holds its migrations in strictly ascending order of version.\<close>

lemma migrator_sorted:
  assumes "migrator_new ms = Inr ms'"
  shows "sorted_wrt (<) (map version ms') \<and> set ms' = set ms"
proof -
  have "distinct (map version ms)" and ms': "ms' = sort_key version ms"
    using assms by (auto simp: migrator_new_def first_duplicate_None split: option.splits)
  then have "distinct (map version ms')" by (simp add: distinct_map)
  then show ?thesis using ms' by (simp add: strict_sorted_iff)
qed

text \<open>The plan sorts the versions by what the history says of them and keeps their order.\<close>

lemma plan_loop_split:
  "plan_loop h ms r =
     \<lparr>r_applied = r_applied r @ map version (filter (\<lambda>m. hm_get h (version m) = None) ms),
      r_skipped = r_skipped r @ map version (filter (\<lambda>m. \<exists>a. hm_get h (version m) = Some a \<and> am_checksum a = checksum m) ms),
      r_drift = r_drift r @ map version (filter (\<lambda>m. \<exists>a. hm_get h (version m) = Some a \<and> am_checksum a \<noteq> checksum m) ms)\<rparr>"
  by (induction ms arbitrary: r) (auto split: option.splits)

lemma history_snoc: "history (as @ [a]) = hm_insert (am_version a) a (history as)"
  by (simp add: history_def)

lemma history_append_get:
  "hm_get (history (as @ bs)) v =
     (case find (\<lambda>b. am_version b = v) (rev bs) of Some b \<Rightarrow> Some b | None \<Rightarrow> hm_get (history as) v)"
  by (induction bs rule: rev_induct) (auto simp: append_assoc [symmetric] history_snoc hm_simps simp del: append_assoc)

definition recorded :: "migration \<Rightarrow> applied_migration" where
  "recorded m = \<lparr>am_version = version m, am_description = description m, am_checksum = checksum m\<rparr>"

text \<open>Running again after a plan was carried out and recorded applies nothing.\<close>

lemma plan_resumes:
  assumes "plan ms as = Inr r"
    and "bs = map recorded (filter (\<lambda>m. version m \<in> set (r_applied r)) ms)"
  shows "\<exists>r'. plan ms (as @ bs) = Inr r' \<and> r_applied r' = []"
proof -
  have "hm_get (history (as @ bs)) (version m) \<noteq> None" if m: "m \<in> set ms" for m
  proof (cases "hm_get (history as) (version m)")
    case None
    then have "recorded m \<in> set bs" using assms m by (auto simp: plan_def plan_loop_split)
    then have "find (\<lambda>b. am_version b = version m) (rev bs) \<noteq> None" by (auto simp: find_None_iff recorded_def)
    then show ?thesis by (auto simp: history_append_get)
  qed (auto simp: history_append_get split: option.splits)
  then show ?thesis by (auto simp: plan_def plan_loop_split)
qed

text \<open>A history with a gap is accepted: the missing version is applied after a later one.\<close>

lemma gap_accepted:
  assumes "am_version a = 2"
  shows "\<exists>r. plan [\<lparr>version = 1, description = [], up = []\<rparr>, \<lparr>version = 2, description = [], up = []\<rparr>] [a] = Inr r \<and> r_applied r = [1]"
  using assms by (simp add: plan_def plan_loop_split history_def)

end
