(* ===== verification/Negotiation.thy ===== *)
theory Negotiation
  imports Packet RustStrings "HOL-Library.List_Lexorder" "HOL-Library.Char_ord"
begin

text \<open>
  Feature and version negotiation at connection time (\<open>crates/ald-negotiation\<close>). The map of feature
  outcomes is keyed by the wire key of the feature; its order is not used.
\<close>

record feature_id =
  namespace :: string
  fname :: string
  fversion :: u32

definition feature_key :: "feature_id \<Rightarrow> string" where
  "feature_key f = namespace f @ '':'' @ fname f @ ''@'' @ show_nat (unat (fversion f))"

definition same_feature :: "feature_id \<Rightarrow> feature_id \<Rightarrow> bool" where
  "same_feature f g = (namespace f = namespace g \<and> fname f = fname g)"

record hello =
  impl_name :: string
  impl_version :: string
  protocol_max :: u16
  protocol_min :: u16
  features :: "feature_id list"
  capabilities :: "string list"

definition hello_new :: "string \<Rightarrow> string \<Rightarrow> hello" where
  "hello_new n v =
     \<lparr>impl_name = n, impl_version = v, protocol_max = PROTOCOL_VERSION, protocol_min = 1, features = [], capabilities = []\<rparr>"

definition with_feature :: "hello \<Rightarrow> feature_id \<Rightarrow> hello" where
  "with_feature h f = h\<lparr>features := features h @ [f]\<rparr>"

definition with_capability :: "hello \<Rightarrow> string \<Rightarrow> hello" where
  "with_capability h c = h\<lparr>capabilities := capabilities h @ [c]\<rparr>"

definition has_capability :: "hello \<Rightarrow> string \<Rightarrow> bool" where
  "has_capability h c = (c \<in> set (capabilities h))"

datatype feature_outcome =
    Selected feature_id
  | ClientOnlyUnsupported feature_id
  | RequiresClientUpdate feature_id
  | RequiresServerUpdate feature_id
  | DisabledByPolicy feature_id

datatype upgrade_action =
    UpdateClient string string
  | UpdateServer string string
  | UnsupportedCombination
  | NoAction

datatype protocol_negotiation =
    Agreed u16
  | ClientTooOld u16 u16 u16 upgrade_action
  | ServerTooOld u16 u16 upgrade_action
  | Incompatible string upgrade_action

record negotiated_set =
  protocol :: protocol_negotiation
  outcomes :: "(string, feature_outcome) hmap"
  shared_capabilities :: "string list"
  allowed :: bool
  summary :: string

record negotiation_policy =
  server_protocol_min :: u16
  server_protocol_max :: u16
  server_features :: "feature_id list"
  server_capabilities :: "string list"
  disabled :: "string list"
  strict_required_features :: "feature_id list"
  client_channel :: string
  client_min_version :: string
  server_channel :: string
  server_min_version :: string

definition negotiation_policy_default :: negotiation_policy where
  "negotiation_policy_default =
     \<lparr>server_protocol_min = 1, server_protocol_max = PROTOCOL_VERSION, server_features = [], server_capabilities = [],
      disabled = [], strict_required_features = [], client_channel = ''stable'', client_min_version = ''1.0.0'',
      server_channel = ''stable'', server_min_version = ''1.0.0''\<rparr>"

datatype negotiation_error = RequiredFeatureMissing feature_id

definition negotiate_protocol :: "negotiation_policy \<Rightarrow> hello \<Rightarrow> protocol_negotiation" where
  "negotiate_protocol p c =
     (if protocol_max c < server_protocol_min p
      then ClientTooOld (protocol_max c) (server_protocol_min p) (server_protocol_max p)
        (UpdateClient (client_channel p) (client_min_version p))
      else if server_protocol_max p < protocol_min c
      then ServerTooOld (protocol_min c) (server_protocol_max p) (UpdateServer (server_channel p) (server_min_version p))
      else
        let common = min (server_protocol_max p) (protocol_max c) in
        if common < min (server_protocol_min p) (protocol_max c)
        then Incompatible ''no overlapping protocol version range'' UnsupportedCombination
        else Agreed common)"

definition is_disabled :: "negotiation_policy \<Rightarrow> feature_id \<Rightarrow> bool" where
  "is_disabled p f = list_ex (\<lambda>d. d = feature_key f \<or> d = namespace f @ '':'' @ fname f) (disabled p)"

definition feature_verdict :: "negotiation_policy \<Rightarrow> feature_id \<Rightarrow> feature_outcome \<times> string option" where
  "feature_verdict p cf =
     (if is_disabled p cf then (DisabledByPolicy cf, None)
      else case find (\<lambda>sf. same_feature sf cf) (server_features p) of
        None \<Rightarrow> (ClientOnlyUnsupported cf, None)
      | Some sf \<Rightarrow>
          if fversion cf \<le> fversion sf then (Selected cf, None)
          else (RequiresServerUpdate sf, Some (''feature '' @ feature_key cf @ '' needs server update'')))"

fun client_loop ::
  "negotiation_policy \<Rightarrow> feature_id list \<Rightarrow> (string, feature_outcome) hmap \<Rightarrow> string list \<Rightarrow>
   (string, feature_outcome) hmap \<times> string list" where
  "client_loop p [] m ps = (m, ps)"
| "client_loop p (cf # cfs) m ps =
     (let (out, problem) = feature_verdict p cf in
      client_loop p cfs (hm_insert (feature_key cf) out m) (case problem of None \<Rightarrow> ps | Some s \<Rightarrow> ps @ [s]))"

fun server_loop ::
  "negotiation_policy \<Rightarrow> hello \<Rightarrow> feature_id list \<Rightarrow> (string, feature_outcome) hmap \<Rightarrow>
   ((string, feature_outcome) hmap, negotiation_error) result" where
  "server_loop p c [] m = Ok m"
| "server_loop p c (sf # sfs) m =
     (if list_ex (\<lambda>cf. same_feature cf sf) (features c) then server_loop p c sfs m
      else if list_ex (\<lambda>r. same_feature r sf) (strict_required_features p) then Err (RequiredFeatureMissing sf)
      else server_loop p c sfs (hm_insert (feature_key sf) (RequiresClientUpdate sf) m))"

definition shared_caps :: "negotiation_policy \<Rightarrow> hello \<Rightarrow> string list" where
  "shared_caps p c =
     remdups_adj (sort (filter (\<lambda>x. x \<in> set (server_capabilities p) \<or> x \<in> fname ` set (server_features p)) (capabilities c)))"

fun is_selected :: "feature_outcome \<Rightarrow> bool" where
  "is_selected (Selected _) = True"
| "is_selected _ = False"

fun is_agreed :: "protocol_negotiation \<Rightarrow> bool" where
  "is_agreed (Agreed _) = True"
| "is_agreed _ = False"

definition negotiate :: "negotiation_policy \<Rightarrow> hello \<Rightarrow> (negotiated_set, negotiation_error) result" where
  "negotiate p c =
     (let proto = negotiate_protocol p c; (m1, problems) = client_loop p (features c) [] [] in
      case server_loop p c (server_features p) m1 of
        Inl e \<Rightarrow> Err e
      | Inr m \<Rightarrow>
          let shared = shared_caps p c;
              yes = is_agreed proto \<and> problems = [];
              msg = (if yes
                then ''protocol v'' @ show_nat (unat PROTOCOL_VERSION) @ '' agreed; '' @
                  show_nat (length (filter is_selected (hm_values m))) @ '' features selected; '' @
                  show_nat (length shared) @ '' shared capabilities''
                else ''negotiation failed: '' @ show_nat (length problems) @ '' problems; first: '' @
                  (case problems of [] \<Rightarrow> [] | s # _ \<Rightarrow> s)) in
          Ok \<lparr>protocol = proto, outcomes = m, shared_capabilities = shared, allowed = yes, summary = msg\<rparr>)"

section \<open>Lemmas\<close>

text \<open>
  With well-formed ranges on both sides a version is agreed exactly if the ranges overlap, and it is
  the greatest version in both.
\<close>

lemma agreed_iff:
  assumes "server_protocol_min p \<le> server_protocol_max p" and "protocol_min c \<le> protocol_max c"
  shows "negotiate_protocol p c = Agreed v \<longleftrightarrow>
    server_protocol_min p \<le> v \<and> v \<le> server_protocol_max p \<and> protocol_min c \<le> v \<and> v \<le> protocol_max c \<and>
    (\<forall>w. w \<le> server_protocol_max p \<and> w \<le> protocol_max c \<longrightarrow> w \<le> v)"
proof
  assume "negotiate_protocol p c = Agreed v"
  then have "v = min (server_protocol_max p) (protocol_max c)" "server_protocol_min p \<le> protocol_max c"
      "protocol_min c \<le> server_protocol_max p"
    by (auto simp: negotiate_protocol_def Let_def not_less split: if_splits)
  then show "server_protocol_min p \<le> v \<and> v \<le> server_protocol_max p \<and> protocol_min c \<le> v \<and> v \<le> protocol_max c \<and>
    (\<forall>w. w \<le> server_protocol_max p \<and> w \<le> protocol_max c \<longrightarrow> w \<le> v)"
    using assms by (auto simp: min_def)
next
  assume v: "server_protocol_min p \<le> v \<and> v \<le> server_protocol_max p \<and> protocol_min c \<le> v \<and> v \<le> protocol_max c \<and>
    (\<forall>w. w \<le> server_protocol_max p \<and> w \<le> protocol_max c \<longrightarrow> w \<le> v)"
  then have "v = min (server_protocol_max p) (protocol_max c)"
    by (intro order_antisym) simp_all
  then show "negotiate_protocol p c = Agreed v"
    using v assms by (auto simp: negotiate_protocol_def Let_def min_def)
qed

text \<open>A feature is a problem exactly if it is not disabled and the server's version is older than the one asked for.\<close>

definition too_new :: "negotiation_policy \<Rightarrow> feature_id \<Rightarrow> bool" where
  "too_new p cf \<longleftrightarrow> \<not> is_disabled p cf \<and>
     (\<exists>sf. find (\<lambda>sf. same_feature sf cf) (server_features p) = Some sf \<and> fversion sf < fversion cf)"

lemma client_loop_problems: "(snd (client_loop p cfs m ps) = []) \<longleftrightarrow> ps = [] \<and> \<not> list_ex (too_new p) cfs"
  by (induction cfs arbitrary: m ps)
    (auto simp: feature_verdict_def too_new_def not_le split: option.splits if_splits)

lemma negotiate_allowed:
  assumes "negotiate p c = Inr r"
  shows "allowed r \<longleftrightarrow> is_agreed (negotiate_protocol p c) \<and> \<not> list_ex (too_new p) (features c)"
  using assms client_loop_problems [of p "features c" "[]" "[]"]
  by (auto simp: negotiate_def Let_def case_prod_beta split: sum.splits)

lemma server_loop_required:
  "(\<exists>e. server_loop p c sfs m = Inl e) \<longleftrightarrow>
   (\<exists>sf \<in> set sfs. \<not> list_ex (\<lambda>cf. same_feature cf sf) (features c) \<and>
      list_ex (\<lambda>r. same_feature r sf) (strict_required_features p))"
  by (induction sfs arbitrary: m) auto

lemma remdups_adj_sorted: "sorted xs \<Longrightarrow> distinct (remdups_adj xs)"
  by (induction xs rule: remdups_adj.induct) auto

lemma shared_caps_meaning:
  "set (shared_caps p c) = {x \<in> set (capabilities c). x \<in> set (server_capabilities p) \<or> x \<in> fname ` set (server_features p)}"
  "sorted (shared_caps p c)" "distinct (shared_caps p c)"
proof -
  show "sorted (shared_caps p c)" by (simp add: shared_caps_def sorted_remdups_adj)
  show "distinct (shared_caps p c)" by (simp add: shared_caps_def remdups_adj_sorted)
qed (auto simp: shared_caps_def)

text \<open>A hello with an empty range is not recognised as malformed.\<close>

lemma hello_range_unchecked:
  "negotiate_protocol (negotiation_policy_default\<lparr>server_protocol_max := 6\<rparr>)
     ((hello_new [] [])\<lparr>protocol_min := 5, protocol_max := 3\<rparr>) = Agreed 3"
  by (simp add: negotiate_protocol_def negotiation_policy_default_def hello_new_def)

end
