(* ===== verification/Residency.thy ===== *)
theory Residency
  imports Prelude
begin

text \<open>
  Asset residency (\<open>crates/ald-residency\<close>): the handshake with the game bridge on a virtual tick
  clock. The bridge is a pair of functions on its own state, which the tracker calls.
\<close>

datatype commit_outcome = Accepted | Retryable | Fatal

datatype residency_state =
    Requested | Waiting u64 | Resident u64 | Ready | Failed string | Expired | Cancelled

fun terminal :: "residency_state \<Rightarrow> bool" where
  "terminal Ready = True"
| "terminal (Failed _) = True"
| "terminal Expired = True"
| "terminal Cancelled = True"
| "terminal _ = False"

datatype residency_error = Unknown string | Terminal string | Duplicate string

record residency_request =
  req_state :: residency_state
  retries_used :: u32
  max_retries :: u32
  timeout_ticks :: u64

record residency_tracker =
  requests :: "(string, residency_request) hmap"

definition tracker_new :: residency_tracker where
  "tracker_new = \<lparr>requests = []\<rparr>"

text \<open>\<open>ask\<close> and \<open>confirm\<close> are the two calls of the bridge.\<close>

type_synonym 'b ask = "'b \<Rightarrow> string \<Rightarrow> 'b \<times> commit_outcome"
type_synonym 'b confirm = "'b \<Rightarrow> string \<Rightarrow> 'b \<times> bool"

fun after_ask :: "commit_outcome \<Rightarrow> u64 \<Rightarrow> string \<Rightarrow> residency_state" where
  "after_ask Accepted deadline why = Resident deadline"
| "after_ask Retryable deadline why = Waiting deadline"
| "after_ask Fatal deadline why = Failed why"

definition request ::
  "'b ask \<Rightarrow> residency_tracker \<Rightarrow> 'b \<Rightarrow> string \<Rightarrow> u64 \<Rightarrow> u64 \<Rightarrow> u32 \<Rightarrow>
   residency_tracker \<times> 'b \<times> (residency_state, residency_error) result" where
  "request ask t b asset now timeout retries =
     (if hm_contains (requests t) asset then (t, b, Err (Duplicate asset))
      else
        let timeout = max timeout 1; (b', out) = ask b asset;
            st = after_ask out (now + timeout) ''bridge refused residency'';
            r = \<lparr>req_state = st, retries_used = 0, max_retries = retries, timeout_ticks = timeout\<rparr> in
        (t\<lparr>requests := hm_insert asset r (requests t)\<rparr>, b', Ok st))"

definition poll_request :: "'b ask \<Rightarrow> 'b confirm \<Rightarrow> string \<Rightarrow> u64 \<Rightarrow> residency_request \<Rightarrow> 'b \<Rightarrow> residency_request \<times> 'b" where
  "poll_request ask confirm asset now r b =
     (case req_state r of
        Requested \<Rightarrow> (r\<lparr>req_state := Waiting (now + timeout_ticks r)\<rparr>, b)
      | Waiting deadline \<Rightarrow>
          if now < deadline then (r, b)
          else if max_retries r \<le> retries_used r then (r\<lparr>req_state := Expired\<rparr>, b)
          else
            let (b', out) = ask b asset in
            (r\<lparr>retries_used := retries_used r + 1,
               req_state := after_ask out (now + timeout_ticks r) ''bridge refused residency on retry''\<rparr>, b')
      | Resident deadline \<Rightarrow>
          let (b', yes) = confirm b asset in
          (if yes then r\<lparr>req_state := Ready\<rparr> else if deadline \<le> now then r\<lparr>req_state := Expired\<rparr> else r, b')
      | _ \<Rightarrow> (r, b))"

definition poll ::
  "'b ask \<Rightarrow> 'b confirm \<Rightarrow> residency_tracker \<Rightarrow> 'b \<Rightarrow> string \<Rightarrow> u64 \<Rightarrow>
   residency_tracker \<times> 'b \<times> (residency_state, residency_error) result" where
  "poll ask confirm t b asset now =
     (case hm_get (requests t) asset of
        None \<Rightarrow> (t, b, Err (Unknown asset))
      | Some r \<Rightarrow>
          (case poll_request ask confirm asset now r b of
             (r', b') \<Rightarrow> (t\<lparr>requests := hm_insert asset r' (requests t)\<rparr>, b', Ok (req_state r'))))"

definition cancel :: "residency_tracker \<Rightarrow> string \<Rightarrow> residency_tracker \<times> (unit, residency_error) result" where
  "cancel t asset =
     (case hm_get (requests t) asset of
        None \<Rightarrow> (t, Err (Unknown asset))
      | Some r \<Rightarrow>
          if terminal (req_state r) then (t, Err (Terminal asset))
          else (t\<lparr>requests := hm_insert asset (r\<lparr>req_state := Cancelled\<rparr>) (requests t)\<rparr>, Ok ()))"

definition state_of :: "residency_tracker \<Rightarrow> string \<Rightarrow> residency_state option" where
  "state_of t asset = map_option req_state (hm_get (requests t) asset)"

definition retries_of :: "residency_tracker \<Rightarrow> string \<Rightarrow> u32 option" where
  "retries_of t asset = map_option retries_used (hm_get (requests t) asset)"

definition reap_terminal :: "residency_tracker \<Rightarrow> residency_tracker \<times> string list" where
  "reap_terminal t =
     (let dead = map fst (filter (\<lambda>(_, r). terminal (req_state r)) (requests t)) in
      (t\<lparr>requests := foldl (\<lambda>m k. hm_remove k m) (requests t) dead\<rparr>, dead))"

section \<open>Lemmas\<close>

text \<open>A terminal state is final, and reporting it does not touch the bridge.\<close>

lemma poll_terminal: "terminal (req_state r) \<Longrightarrow> poll_request ask confirm asset now r b = (r, b)"
  by (cases "req_state r") (simp_all add: poll_request_def)

lemma ready_needs_confirmation:
  assumes "poll_request ask confirm asset now r b = (r', b')" and "req_state r' = Ready" and "req_state r \<noteq> Ready"
  shows "(\<exists>d. req_state r = Resident d) \<and> confirm b asset = (b', True)"
proof (cases "req_state r")
  case (Waiting d)
  obtain b1 out where a: "ask b asset = (b1, out)" by fastforce
  have "after_ask out t w \<noteq> Ready" for t w by (cases out) simp_all
  then show ?thesis using assms Waiting a by (auto simp: poll_request_def split: if_splits)
qed (use assms in \<open>auto simp: poll_request_def split: if_splits prod.splits\<close>)

definition request_ok :: "residency_request \<Rightarrow> bool" where
  "request_ok r \<longleftrightarrow> retries_used r \<le> max_retries r \<and> 0 < timeout_ticks r \<and> req_state r \<noteq> Requested"

lemma after_ask_state: "after_ask out d w \<noteq> Requested"
  by (cases out) simp_all

lemma poll_ok: "request_ok r \<Longrightarrow> poll_request ask confirm asset now r b = (r', b') \<Longrightarrow> request_ok r'"
  by (auto simp: request_ok_def poll_request_def after_ask_state Let_def inc_le not_le split: residency_state.splits if_splits prod.splits)

text \<open>
  Every request settles: each poll at or after the deadline brings it nearer to a terminal state, so
  \<open>max_retries + 2\<close> such polls are enough, whatever the bridge answers.
\<close>

fun rank :: "residency_request \<Rightarrow> nat" where
  "rank r = (case req_state r of
     Requested \<Rightarrow> 3 + (unat (max_retries r) - unat (retries_used r))
   | Waiting _ \<Rightarrow> 2 + (unat (max_retries r) - unat (retries_used r))
   | Resident _ \<Rightarrow> 1
   | _ \<Rightarrow> 0)"

definition due :: "residency_request \<Rightarrow> u64 \<Rightarrow> bool" where
  "due r now \<longleftrightarrow> (case req_state r of Waiting d \<Rightarrow> d \<le> now | Resident d \<Rightarrow> d \<le> now | _ \<Rightarrow> True)"

lemma rank_zero: "rank r = 0 \<longleftrightarrow> terminal (req_state r)"
  by (cases "req_state r") simp_all

lemma poll_rank:
  assumes "request_ok r" and "due r now" and "\<not> terminal (req_state r)"
    and "poll_request ask confirm asset now r b = (r', b')"
  shows "rank r' < rank r"
proof (cases "req_state r")
  case (Waiting d)
  show ?thesis
  proof (cases "max_retries r \<le> retries_used r")
    case False
    obtain b1 out where a: "ask b asset = (b1, out)" by fastforce
    have lt: "unat (retries_used r) < unat (max_retries r)" using False by (simp add: not_le word_less_nat_alt)
    then have "unat (retries_used r + 1) = unat (retries_used r) + 1"
      using unsigned_less [of "max_retries r", where 'a = nat] by (intro unat_Suc) simp
    moreover have "r' = r\<lparr>retries_used := retries_used r + 1,
        req_state := after_ask out (now + timeout_ticks r) ''bridge refused residency on retry''\<rparr>"
      using assms Waiting False a by (auto simp: poll_request_def due_def split: if_splits)
    ultimately show ?thesis using Waiting lt by (cases out) auto
  qed (use assms Waiting in \<open>auto simp: poll_request_def due_def split: if_splits\<close>)
qed (use assms in \<open>auto simp: poll_request_def due_def request_ok_def split: prod.splits if_splits\<close>)

fun late_polls :: "'b ask \<Rightarrow> 'b confirm \<Rightarrow> string \<Rightarrow> u64 list \<Rightarrow> residency_request \<Rightarrow> 'b \<Rightarrow> residency_request option" where
  "late_polls ask confirm asset [] r b = Some r"
| "late_polls ask confirm asset (now # ts) r b =
     (if \<not> due r now then None
      else case poll_request ask confirm asset now r b of (r', b') \<Rightarrow> late_polls ask confirm asset ts r' b')"

lemma request_settles:
  assumes "request_ok r" and "late_polls ask confirm asset ts r b = Some r'" and "rank r \<le> length ts"
  shows "terminal (req_state r')"
  using assms
proof (induction ts arbitrary: r b)
  case (Cons now ts)
  obtain r1 b1 where p: "poll_request ask confirm asset now r b = (r1, b1)" by fastforce
  have rest: "late_polls ask confirm asset ts r1 b1 = Some r'" "due r now"
    using Cons.prems(2) p by (auto split: if_splits)
  have "rank r1 \<le> length ts"
  proof (cases "terminal (req_state r)")
    case True
    then show ?thesis using poll_terminal [OF True, of ask confirm asset now b] p rank_zero [of r] by simp
  next
    case False
    then show ?thesis using poll_rank [OF Cons.prems(1) rest(2) False p] Cons.prems(3) by simp
  qed
  then show ?case using Cons.IH [OF poll_ok [OF Cons.prems(1) p] rest(1)] by simp
qed (simp add: rank_zero [symmetric])

lemma requested_ok:
  assumes "request ask t b asset now timeout retries = (t', b', Inr st)"
  shows "\<exists>r. hm_get (requests t') asset = Some r \<and> req_state r = st \<and> request_ok r \<and> rank r \<le> unat retries + 2"
proof -
  obtain b1 out where a: "ask b asset = (b1, out)" by fastforce
  have "0 < max timeout (1 :: u64)" by (auto simp: max_def word_less_nat_alt word_le_nat_alt)
  moreover have "unat (retries_used (r :: residency_request)) = 0" if "retries_used r = 0" for r using that by simp
  ultimately show ?thesis
    using assms a by (cases out) (auto simp: request_def request_ok_def hm_simps Let_def split: if_splits)
qed

end
