(* ===== verification/FxLexer.thy ===== *)
theory FxLexer
  imports RustStrings
begin

text \<open>
  The lexer of legacy manifests, \<open>Lexer\<close> of \<open>crates/ald-fxmanifest/src/lib.rs\<close>. Its state is the input
  that is left and the current line; each loop is a recursive function on the two. The source is read
  as bytes and every byte is pushed as the character with its code. Floating-point numbers are a type
  parameter \<open>'f\<close> with the operations the code uses (\<open>f64_ops\<close>); the messages of errors are
  constructors. The lemmas show that every token consumes input and how the lexer reads the rendered
  form of an identifier, a string, a number and a literal.
\<close>

section \<open>Numbers, errors and tokens\<close>

text \<open>
  \<open>f_fits\<close> is \<open>n.fract() == 0.0 && n.abs() <= i64::MAX as f64\<close>, \<open>f_as_i64\<close> and \<open>f_of_i64\<close> are the casts,
  \<open>f_parse\<close> is \<open>parse::<f64>()\<close>.
\<close>

record 'f f64_ops =
  f_parse :: "string \<Rightarrow> 'f option"
  f_zero :: 'f
  f_fits :: "'f \<Rightarrow> bool"
  f_as_i64 :: "'f \<Rightarrow> int"
  f_of_i64 :: "int \<Rightarrow> 'f"

datatype 'f tok = Ident string | StrTok string | Num 'f | LBrace | RBrace | Assign | Comma

datatype 'f fx_msg =
    UnterminatedComment
  | UnterminatedQuote
  | UnterminatedEscape
  | NewlineInString
  | UnterminatedLongString
  | UnexpectedByte char
  | ExpectedDirective "'f tok"
  | UnexpectedEnd
  | BareIdentifier string
  | UnexpectedToken "'f tok"
  | BareInTable string
  | ExpectedSeparator
  | ListExpected
  | OnlyStrings
  | DataFileForm
  | CategoryTable
  | CategoryShort
  | CategoryName
  | CategoryVars
  | CategoryVarTable
  | CategoryNoConvar
  | TomlError string

datatype 'f manifest_error =
    Syntax nat "'f fx_msg"
  | Construct nat "'f fx_msg"
  | InvalidValue string nat "'f fx_msg"
  | MissingRequired string

record lexer =
  inp :: string
  lex_line :: nat

abbreviation Lx :: "string \<Rightarrow> nat \<Rightarrow> lexer" where
  "Lx s n \<equiv> \<lparr>inp = s, lex_line = n\<rparr>"

section \<open>The loops of the lexer\<close>

definition lexer_new :: "string \<Rightarrow> lexer" where
  "lexer_new s = Lx s 1"

abbreviation LF :: char where "LF \<equiv> CHR 0x0A"
abbreviation DQ :: char where "DQ \<equiv> CHR 0x22"
abbreviation SQ :: char where "SQ \<equiv> CHR 0x27"
abbreviation BSL :: char where "BSL \<equiv> CHR 0x5C"

text \<open>The line after \<open>bump\<close> has consumed a byte.\<close>

definition nl :: "char \<Rightarrow> nat \<Rightarrow> nat" where
  "nl b n = (if b = LF then n + 1 else n)"

text \<open>The body of a long comment, with the depth of its brackets.\<close>

fun long_comment :: "nat \<Rightarrow> string \<Rightarrow> nat \<Rightarrow> nat \<times> string \<times> nat" where
  "long_comment d [] n = (d, [], n)"
| "long_comment d [b] n = (d, [], nl b n)"
| "long_comment d (b # c # r) n =
     (if b = CHR '']'' \<and> c = CHR '']'' then
        (if d = 1 then (0, r, n) else long_comment (d - 1) r n)
      else if b = CHR ''['' \<and> c = CHR ''['' then long_comment (d + 1) r n
      else long_comment d (c # r) (nl b n))"

lemma long_comment_shorter:
  "long_comment d s n = (d', r, n') \<Longrightarrow> length r \<le> length s"
  by (induction d s n rule: long_comment.induct) (auto split: if_splits)

definition is_ws :: "char \<Rightarrow> bool" where
  "is_ws b \<longleftrightarrow> b \<in> {CHR 0x20, CHR 0x09, CHR 0x0D, CHR 0x0A}"

function skip_loop :: "string \<Rightarrow> nat \<Rightarrow> (lexer, 'f manifest_error) result" where
  "skip_loop s n =
     (case s of
        [] \<Rightarrow> Ok (Lx [] n)
      | b # r \<Rightarrow>
          if is_ws b then skip_loop r (nl b n)
          else if take 2 s = ''--'' then
            (let r1 = drop 2 s in
             if take 2 r1 = ''[['' then
               (case long_comment 1 (drop 2 r1) n of
                  (d, r2, n2) \<Rightarrow>
                    if d \<noteq> 0 then Err (Syntax n2 UnterminatedComment) else skip_loop r2 n2)
             else skip_loop (dropWhile (\<lambda>c. c \<noteq> LF) r1) n)
          else Ok (Lx s n))"
  by pat_completeness auto
termination
proof (relation "measure (\<lambda>(s, _). length s)", goal_cases)
  case (3 s n b r r1 d p r2 n2)
  then have "length r2 \<le> length (drop 2 r1)" by (metis long_comment_shorter)
  with 3 show ?case by (auto split: prod.splits)
next
  case (4 s n b r r1)
  then show ?case using length_dropWhile_le [of "\<lambda>c. c \<noteq> LF" r1] by simp
qed auto

declare skip_loop.simps [simp del]

definition skip_ws_and_comments :: "lexer \<Rightarrow> (lexer, 'f manifest_error) result" where
  "skip_ws_and_comments l = skip_loop (inp l) (lex_line l)"

definition hex_val :: "char \<Rightarrow> nat option" where
  "hex_val b =
     (if is_digit b then Some (byte_of b - 48)
      else if 97 \<le> byte_of b \<and> byte_of b \<le> 102 then Some (byte_of b - 97 + 10)
      else if 65 \<le> byte_of b \<and> byte_of b \<le> 70 then Some (byte_of b - 65 + 10)
      else None)"

definition hex_or_0 :: "char \<Rightarrow> nat" where
  "hex_or_0 b = (case hex_val b of Some v \<Rightarrow> v | None \<Rightarrow> 0)"

definition unescape :: "char \<Rightarrow> char" where
  "unescape e =
     (if e = CHR ''n'' then LF
      else if e = CHR ''t'' then CHR 0x09
      else if e = CHR ''r'' then CHR 0x0D
      else if e = CHR ''a'' then CHR 0x07
      else if e = CHR ''b'' then CHR 0x08
      else if e = CHR ''f'' then CHR 0x0C
      else if e = CHR ''v'' then CHR 0x0B
      else e)"

text \<open>\<open>line\<close> is the line the string starts on; the missing digits of an escape at the end of the input are 0.\<close>

fun string_loop ::
  "char \<Rightarrow> nat \<Rightarrow> string \<Rightarrow> string \<Rightarrow> nat \<Rightarrow> (string \<times> lexer, 'f manifest_error) result" where
  "string_loop q line out [] n = Err (Syntax line UnterminatedQuote)"
| "string_loop q line out (b # r) n =
     (if b = q then Ok (out, Lx r (nl b n))
      else if b = BSL then
        (case r of
           [] \<Rightarrow> Err (Syntax line UnterminatedEscape)
         | e # r1 \<Rightarrow>
             if e = CHR ''x'' then
               (case r1 of
                  [] \<Rightarrow> string_loop q line (out @ [CHR 0x00]) [] n
                | h1 # r2 \<Rightarrow>
                    (case r2 of
                       [] \<Rightarrow> string_loop q line (out @ push_byte_as_char (char_of (hex_or_0 h1 * 16))) [] (nl h1 n)
                     | h2 # r3 \<Rightarrow>
                         string_loop q line (out @ push_byte_as_char (char_of (hex_or_0 h1 * 16 + hex_or_0 h2)))
                           r3 (nl h2 (nl h1 n))))
             else string_loop q line (out @ push_byte_as_char (unescape e)) r1 (nl e n))
      else if b = LF then Err (Syntax line NewlineInString)
      else string_loop q line (out @ push_byte_as_char b) r n)"

definition read_string :: "char \<Rightarrow> nat \<Rightarrow> lexer \<Rightarrow> (string \<times> lexer, 'f manifest_error) result" where
  "read_string q line l = string_loop q line [] (inp l) (lex_line l)"

fun long_string_loop ::
  "nat \<Rightarrow> string \<Rightarrow> string \<Rightarrow> nat \<Rightarrow> (string \<times> lexer, 'f manifest_error) result" where
  "long_string_loop line out (b # c # r) n =
     (if b = CHR '']'' \<and> c = CHR '']'' then Ok (out, Lx r n)
      else long_string_loop line (out @ push_byte_as_char b) (c # r) (nl b n))"
| "long_string_loop line out _ n = Err (Syntax line UnterminatedLongString)"

definition num_char :: "char \<Rightarrow> bool" where
  "num_char b \<longleftrightarrow> is_digit b \<or> b \<in> {CHR ''.'', CHR ''e'', CHR ''E'', CHR ''+'', CHR ''-'', CHR ''x'', CHR ''X''}"

definition read_number :: "'f f64_ops \<Rightarrow> lexer \<Rightarrow> 'f \<times> lexer" where
  "read_number F l =
     ((case f_parse F (takeWhile num_char (inp l)) of Some x \<Rightarrow> x | None \<Rightarrow> f_zero F),
      l\<lparr>inp := dropWhile num_char (inp l)\<rparr>)"

definition ident_char :: "char \<Rightarrow> bool" where
  "ident_char b \<longleftrightarrow> is_alnum b \<or> b = CHR ''_'' \<or> b = CHR ''.''"

definition read_ident :: "lexer \<Rightarrow> string \<times> lexer" where
  "read_ident l = (takeWhile ident_char (inp l), l\<lparr>inp := dropWhile ident_char (inp l)\<rparr>)"

definition literal_or_ident :: "string \<Rightarrow> 'f tok" where
  "literal_or_ident i =
     (if i = ''true'' then StrTok ''__bool_true__''
      else if i = ''false'' then StrTok ''__bool_false__''
      else if i = ''nil'' then StrTok ''__nil__''
      else Ident i)"

text \<open>The match of \<open>next\<close> on the byte \<open>b\<close> that is followed by \<open>r\<close>.\<close>

definition next_tok ::
  "'f f64_ops \<Rightarrow> char \<Rightarrow> string \<Rightarrow> nat \<Rightarrow> ('f tok option \<times> lexer, 'f manifest_error) result" where
  "next_tok F b r n =
     (if b = CHR ''{'' then Ok (Some LBrace, Lx r n)
      else if b = CHR ''}'' then Ok (Some RBrace, Lx r n)
      else if b = CHR ''='' then Ok (Some Assign, Lx r n)
      else if b = CHR '','' then Ok (Some Comma, Lx r n)
      else if b = SQ \<or> b = DQ then
        (case read_string b n (Lx r n) of
           Err e \<Rightarrow> Err e
         | Ok (s, l) \<Rightarrow> Ok (Some (StrTok s), l))
      else if b = CHR ''['' \<and> take 1 r = ''['' then
        (case long_string_loop n [] (drop 1 r) n of
           Err e \<Rightarrow> Err e
         | Ok (s, l) \<Rightarrow> Ok (Some (StrTok s), l))
      else if is_digit b then
        (case read_number F (Lx (b # r) n) of (x, l) \<Rightarrow> Ok (Some (Num x), l))
      else if b = CHR ''t'' \<or> b = CHR ''f'' \<or> b = CHR ''n'' then
        (case read_ident (Lx (b # r) n) of (i, l) \<Rightarrow> Ok (Some (literal_or_ident i), l))
      else
        (case read_ident (Lx (b # r) n) of
           (i, l) \<Rightarrow> if i = [] then Err (Syntax n (UnexpectedByte b)) else Ok (Some (Ident i), l)))"

definition lex_next :: "'f f64_ops \<Rightarrow> lexer \<Rightarrow> ('f tok option \<times> lexer, 'f manifest_error) result" where
  "lex_next F l =
     (case skip_ws_and_comments l of
        Err e \<Rightarrow> Err e
      | Ok l1 \<Rightarrow>
          (case inp l1 of
             [] \<Rightarrow> Ok (None, l1)
           | b # r \<Rightarrow> next_tok F b r (lex_line l1)))"

section \<open>Every token consumes input\<close>

lemma skip_loop_shorter: "skip_loop s n = (Ok l :: (lexer, 'f manifest_error) result) \<Longrightarrow> length (inp l) \<le> length s"
proof (induction s n arbitrary: l rule: skip_loop.induct)
  case (1 s n)
  show ?case
  proof (cases s)
    case (Cons b r)
    consider "is_ws b" | "\<not> is_ws b" "take 2 s = ''--''" "take 2 (drop 2 s) = ''[[''"
      | "\<not> is_ws b" "take 2 s = ''--''" "take 2 (drop 2 s) \<noteq> ''[[''" | "\<not> is_ws b" "take 2 s \<noteq> ''--''"
      by blast
    then show ?thesis
    proof cases
      case 1
      then have "skip_loop r (nl b n) = (Ok l :: (lexer, 'f manifest_error) result)" using "1.prems" Cons by (simp add: skip_loop.simps [of "b # r"])
      then show ?thesis using "1.IH"(1) [OF Cons 1] Cons by fastforce
    next
      case 2
      obtain d r2 n2 where lc: "long_comment 1 (drop 2 (drop 2 s)) n = (d, r2, n2)" by (metis prod_cases3)
      then have "length r2 \<le> length s" using long_comment_shorter [OF lc] by simp
      moreover have "d = 0" "skip_loop r2 n2 = (Ok l :: (lexer, 'f manifest_error) result)"
        using "1.prems" [unfolded skip_loop.simps [of s n]] 2 Cons lc by (simp_all add: Let_def split: if_splits)
      ultimately show ?thesis using "1.IH"(2) [OF Cons 2(1,2) refl 2(3) lc [symmetric] refl] by fastforce
    next
      case 3
      then have "skip_loop (dropWhile (\<lambda>c. c \<noteq> LF) (drop 2 s)) n = (Ok l :: (lexer, 'f manifest_error) result)"
        using "1.prems" [unfolded skip_loop.simps [of s n]] Cons by (simp add: Let_def)
      then show ?thesis
        using "1.IH"(3) [OF Cons 3(1,2) refl 3(3)] length_dropWhile_le [of "\<lambda>c. c \<noteq> LF" "drop 2 s"] by fastforce
    next
      case 4
      then show ?thesis using "1.prems" Cons by (auto simp: skip_loop.simps [of "b # r"])
    qed
  qed (use "1.prems" in \<open>auto simp: skip_loop.simps [of "[]"]\<close>)
qed

lemma string_loop_shorter: "string_loop q line out s n = Ok (t, l) \<Longrightarrow> length (inp l) < length s"
  by (induction q line out s n arbitrary: t l rule: string_loop.induct)
    (fastforce split: if_splits list.splits)+

lemma long_string_shorter: "long_string_loop line out s n = Ok (t, l) \<Longrightarrow> length (inp l) < length s"
  by (induction line out s n rule: long_string_loop.induct) (auto split: if_splits)

lemma next_tok_word:
  assumes "b \<notin> {CHR ''{'', CHR ''}'', CHR ''='', CHR '','', SQ, DQ}" "\<not> (b = CHR ''['' \<and> take 1 r = ''['')"
  shows "next_tok F b r n =
    (if is_digit b then Ok (Some (Num (fst (read_number F (Lx (b # r) n)))), Lx (dropWhile num_char (b # r)) n)
     else if b = CHR ''t'' \<or> b = CHR ''f'' \<or> b = CHR ''n''
       then Ok (Some (literal_or_ident (takeWhile ident_char (b # r))), Lx (dropWhile ident_char (b # r)) n)
     else if takeWhile ident_char (b # r) = [] then Err (Syntax n (UnexpectedByte b))
     else Ok (Some (Ident (takeWhile ident_char (b # r))), Lx (dropWhile ident_char (b # r)) n))"
  unfolding next_tok_def read_number_def read_ident_def
  using assms by (simp only: if_False if_True insert_iff empty_iff de_Morgan_disj simp_thms
    prod.case fst_conv lexer.simps)

lemma next_tok_shorter:
  assumes "next_tok F b r n = Ok (t, l)"
  shows "length (inp l) \<le> length r \<and> t \<noteq> None"
proof -
  have number: "is_digit b \<Longrightarrow> length (dropWhile num_char (b # r)) \<le> length r"
    by (simp add: num_char_def length_dropWhile_le)
  have ident: "takeWhile ident_char (b # r) \<noteq> [] \<Longrightarrow> length (dropWhile ident_char (b # r)) \<le> length r"
    by (auto simp: length_dropWhile_le split: if_splits)
  have word: "b = CHR ''t'' \<or> b = CHR ''f'' \<or> b = CHR ''n'' \<Longrightarrow> ident_char b"
    by (auto simp: ident_char_def is_alnum_def is_lower_def)
  consider "b \<in> set ''{}=,''" | "b = SQ \<or> b = DQ" | "b = CHR ''['' \<and> take 1 r = ''[''"
    | "b \<notin> {CHR ''{'', CHR ''}'', CHR ''='', CHR '','', SQ, DQ}" "\<not> (b = CHR ''['' \<and> take 1 r = ''['')" by auto
  then show ?thesis
  proof cases
    case 1
    then show ?thesis using assms by (auto simp: next_tok_def)
  next
    case 2
    then show ?thesis using assms string_loop_shorter [of b n "[]" r n]
      by (fastforce simp: next_tok_def read_string_def split: sum.splits)
  next
    case 3
    then show ?thesis using assms long_string_shorter [of n "[]" "drop 1 r" n]
      by (fastforce simp: next_tok_def split: sum.splits)
  next
    case 4
    note next_tok_word [OF this, of F n]
    then show ?thesis using assms number ident word
      by (simp del: dropWhile.simps takeWhile.simps split: if_splits) (auto simp: length_dropWhile_le)
  qed
qed

lemma lex_next_shorter:
  assumes "lex_next F l = Ok (t, l')"
  shows "length (inp l') + (if t = None then 0 else 1) \<le> length (inp l)"
proof -
  obtain l1 where l1: "skip_loop (inp l) (lex_line l) = (Ok l1 :: (lexer, 'a manifest_error) result)"
    using assms by (auto simp: lex_next_def skip_ws_and_comments_def split: sum.splits)
  with skip_loop_shorter [OF l1] assms next_tok_shorter show ?thesis
    by (fastforce simp: lex_next_def skip_ws_and_comments_def split: list.splits)
qed

section \<open>Reading rendered tokens\<close>

text \<open>An identifier the lexer reads as one, and the quoted form of a string.\<close>

definition ident_ok :: "string \<Rightarrow> bool" where
  "ident_ok i \<longleftrightarrow> i \<noteq> [] \<and> list_all ident_char i \<and> \<not> is_digit (hd i) \<and> i \<notin> {''true'', ''false'', ''nil''}"

definition quote_char :: "char \<Rightarrow> string" where
  "quote_char c = (if c = DQ \<or> c = BSL then [BSL, c] else if c = LF then [BSL, CHR ''n''] else [c])"

definition quote_str :: "string \<Rightarrow> string" where
  "quote_str s = DQ # concat (map quote_char s) @ [DQ]"

definition stops :: "(char \<Rightarrow> bool) \<Rightarrow> string \<Rightarrow> bool" where
  "stops P r \<longleftrightarrow> (case r of [] \<Rightarrow> True | c # _ \<Rightarrow> \<not> P c)"

lemma takeWhile_stops: "list_all P i \<Longrightarrow> stops P r \<Longrightarrow> takeWhile P (i @ r) = i"
  by (induction i) (auto simp: stops_def split: list.splits)

lemma dropWhile_stops: "list_all P i \<Longrightarrow> stops P r \<Longrightarrow> dropWhile P (i @ r) = r"
  by (induction i) (auto simp: stops_def split: list.splits)

lemma string_loop_quoted:
  "is_ascii s \<Longrightarrow> string_loop DQ line out (concat (map quote_char s) @ DQ # r) n = Ok (out @ s, Lx r n)"
  by (induction s arbitrary: out) (auto simp: is_ascii_def quote_char_def unescape_def nl_def)

lemma skip_loop_ws: "is_ws b \<Longrightarrow> skip_loop (b # r) n = skip_loop r (nl b n)"
  by (simp add: skip_loop.simps [of "b # r"])

lemma skip_loop_stop: "\<not> is_ws b \<Longrightarrow> b \<noteq> CHR ''-'' \<Longrightarrow> skip_loop (b # r) n = Ok (Lx (b # r) n)"
  by (simp add: skip_loop.simps [of "b # r"])

lemma skip_loop_Nil: "skip_loop [] n = Ok (Lx [] n)"
  by (simp add: skip_loop.simps [of "[]"])

lemma lex_ws: "is_ws b \<Longrightarrow> lex_next F (Lx (b # r) n) = lex_next F (Lx r (nl b n))"
  by (simp add: lex_next_def skip_ws_and_comments_def skip_loop_ws)

lemma lex_space: "lex_next F (Lx (CHR '' '' # r) n) = lex_next F (Lx r n)"
  by (simp add: lex_ws is_ws_def nl_def)

lemma lex_newline: "lex_next F (Lx (LF # r) n) = lex_next F (Lx r (n + 1))"
  by (simp add: lex_ws is_ws_def nl_def)

lemma lex_end: "lex_next F (Lx [] n) = Ok (None, Lx [] n)"
  by (simp add: lex_next_def skip_ws_and_comments_def skip_loop_Nil)

lemma lex_punct:
  "lex_next F (Lx (CHR ''{'' # r) n) = Ok (Some LBrace, Lx r n)"
  "lex_next F (Lx (CHR ''}'' # r) n) = Ok (Some RBrace, Lx r n)"
  "lex_next F (Lx (CHR ''='' # r) n) = Ok (Some Assign, Lx r n)"
  "lex_next F (Lx (CHR '','' # r) n) = Ok (Some Comma, Lx r n)"
  by (simp_all add: lex_next_def skip_ws_and_comments_def skip_loop_stop is_ws_def next_tok_def)

lemma lex_quoted: "is_ascii s \<Longrightarrow> lex_next F (Lx (quote_str s @ r) n) = Ok (Some (StrTok s), Lx r n)"
  by (simp add: lex_next_def skip_ws_and_comments_def skip_loop_stop is_ws_def next_tok_def quote_str_def
      read_string_def string_loop_quoted)

lemma ident_char_plain:
  "ident_char b \<Longrightarrow> \<not> is_ws b \<and> b \<noteq> CHR ''-'' \<and> b \<noteq> CHR ''['' \<and>
     b \<notin> {CHR ''{'', CHR ''}'', CHR ''='', CHR '','', SQ, DQ}"
  by (auto simp: ident_char_def is_alnum_def is_digit_def is_lower_def is_upper_def is_ws_def)

lemma lex_word:
  assumes "i \<noteq> []" "list_all ident_char i" "\<not> is_digit (hd i)" "stops ident_char r"
  shows "lex_next (F :: 'f f64_ops) (Lx (i @ r) n) = Ok (Some (literal_or_ident i), Lx r n)"
proof -
  obtain b i' where i: "i = b # i'" "ident_char b" "\<not> is_digit b" using assms by (cases i) auto
  have lits: "b = CHR ''t'' \<or> b = CHR ''f'' \<or> b = CHR ''n'' \<or> literal_or_ident i = (Ident i :: 'f tok)"
    by (auto simp: literal_or_ident_def i)
  have "lex_next F (Lx (i @ r) n) = next_tok F b (i' @ r) n"
    using ident_char_plain [OF i(2)] by (simp add: lex_next_def skip_ws_and_comments_def skip_loop_stop i)
  also have "\<dots> = Ok (Some (literal_or_ident i), Lx r n)"
    using ident_char_plain [OF i(2)] i lits takeWhile_stops [OF assms(2,4)] dropWhile_stops [OF assms(2,4)]
    by (subst next_tok_word) (auto simp del: takeWhile.simps dropWhile.simps)
  finally show ?thesis .
qed

lemma lex_ident: "ident_ok i \<Longrightarrow> stops ident_char r \<Longrightarrow> lex_next F (Lx (i @ r) n) = Ok (Some (Ident i), Lx r n)"
  by (simp add: ident_ok_def lex_word literal_or_ident_def)

lemma lex_number:
  assumes "list_all is_digit i" "i \<noteq> []" "stops num_char r" "f_parse F i = Some x"
  shows "lex_next F (Lx (i @ r) n) = Ok (Some (Num x), Lx r n)"
proof -
  obtain b i' where i: "i = b # i'" "is_digit b" using assms by (cases i) auto
  have num: "list_all num_char i" using assms(1) by (auto simp: list_all_iff num_char_def)
  have id: "ident_char b" using i by (simp add: ident_char_def is_alnum_def)
  have "lex_next F (Lx (i @ r) n) = next_tok F b (i' @ r) n"
    using ident_char_plain [OF id] by (simp add: lex_next_def skip_ws_and_comments_def skip_loop_stop i)
  also have "\<dots> = Ok (Some (Num x), Lx r n)"
    using ident_char_plain [OF id] i takeWhile_stops [OF num assms(3)] dropWhile_stops [OF num assms(3)] assms(4)
    by (subst next_tok_word) (auto simp: read_number_def simp del: takeWhile.simps dropWhile.simps)
  finally show ?thesis .
qed

text \<open>A minus sign that starts no comment is refused: negative numbers cannot be written.\<close>

lemma negative_number_refused:
  "is_digit d \<Longrightarrow> lex_next F (Lx (CHR ''-'' # d # r) n) = Err (Syntax n (UnexpectedByte (CHR ''-'')))"
  by (auto simp: lex_next_def skip_ws_and_comments_def skip_loop.simps [of "CHR ''-'' # d # r"] is_ws_def
      next_tok_def read_ident_def ident_char_def is_alnum_def is_digit_def is_lower_def is_upper_def)

end
