(* ===== verification/FxManifest.thy ===== *)
theory FxManifest
  imports FxLexer
begin

text \<open>
  Legacy manifests, the parser and the normalised manifest of \<open>crates/ald-fxmanifest/src/lib.rs\<close>. The
  parser keeps the lexer and one token of lookahead. A result under \<open>Some\<close> is one the code returns;
  \<open>None\<close> is a loop that ran out of its fuel, which \<open>parse_fxmanifest\<close> never does. The TOML reader of
  \<open>parse_ald_manifest\<close> is passed in.
\<close>

section \<open>Values\<close>

datatype 'f manifest_value =
    VNil
  | VBool bool
  | VInt int
  | VFloat 'f
  | VStr string
  | VList "'f manifest_value list"
  | VTable "(string \<times> 'f manifest_value) list"

fun as_str :: "'f manifest_value \<Rightarrow> string option" where
  "as_str (VStr s) = Some s"
| "as_str _ = None"

fun as_bool :: "'f manifest_value \<Rightarrow> bool option" where
  "as_bool (VBool b) = Some b"
| "as_bool _ = None"

fun as_list :: "'f manifest_value \<Rightarrow> 'f manifest_value list option" where
  "as_list (VList v) = Some v"
| "as_list _ = None"

text \<open>The loop of \<open>as_sequence\<close> over a table from the index \<open>idx\<close> on.\<close>

fun table_sequence :: "nat \<Rightarrow> (string \<times> 'f manifest_value) list \<Rightarrow> 'f manifest_value list option" where
  "table_sequence idx [] = Some []"
| "table_sequence idx ((k, v) # t) =
     (if k \<noteq> show_nat (idx + 1) then None
      else map_option (\<lambda>vs. v # vs) (table_sequence (idx + 1) t))"

fun as_sequence :: "'f manifest_value \<Rightarrow> 'f manifest_value list option" where
  "as_sequence (VList v) = Some v"
| "as_sequence (VTable t) = table_sequence 0 t"
| "as_sequence _ = None"

definition show_int :: "int \<Rightarrow> string" where
  "show_int n = (if n < 0 then CHR ''-'' # show_nat (nat (- n)) else show_nat (nat n))"

fun coerce_strings :: "'f manifest_value list \<Rightarrow> (string list, 'f fx_msg) result" where
  "coerce_strings [] = Ok []"
| "coerce_strings (v # vs) =
     (case (case v of
              VStr s \<Rightarrow> Some s
            | VInt n \<Rightarrow> Some (show_int n)
            | VBool b \<Rightarrow> Some (if b then ''true'' else ''false'')
            | _ \<Rightarrow> None) of
        None \<Rightarrow> Err OnlyStrings
      | Some s \<Rightarrow> (case coerce_strings vs of Err e \<Rightarrow> Err e | Ok ss \<Rightarrow> Ok (s # ss)))"

definition coerce_string_list :: "'f manifest_value \<Rightarrow> (string list, 'f fx_msg) result" where
  "coerce_string_list v =
     (case as_str v of
        Some s \<Rightarrow> Ok [s]
      | None \<Rightarrow>
          (case as_sequence v of
             None \<Rightarrow> Err ListExpected
           | Some vs \<Rightarrow> coerce_strings vs))"

section \<open>The normalised manifest\<close>

datatype directive_status = Supported | Translated | IgnoredWarn | Unsupported

fun status_as_str :: "directive_status \<Rightarrow> string" where
  "status_as_str Supported = ''SUPPORTED''"
| "status_as_str Translated = ''TRANSLATED''"
| "status_as_str IgnoredWarn = ''IGNORED_WITH_WARNING''"
| "status_as_str Unsupported = ''UNSUPPORTED''"

record directive_record =
  dr_name :: string
  dr_status :: directive_status
  dr_line :: nat
  dr_note :: string

record data_file =
  df_kind :: string
  df_file :: string

record 'f convar_var =
  cv_convar :: string
  cv_name :: "string option"
  cv_help :: "string option"
  cv_default :: "'f manifest_value option"
  cv_min :: "'f option"
  cv_max :: "'f option"
  cv_kind :: "string option"

record 'f convar_category =
  cc_name :: string
  cc_vars :: "'f convar_var list"

record 'f manifest =
  fx_version :: "string option"
  resource_manifest_version :: "string option"
  game :: "string list"
  client_scripts :: "string list"
  server_scripts :: "string list"
  shared_scripts :: "string list"
  files :: "string list"
  ui_page :: "string option"
  exports :: "string list"
  server_exports :: "string list"
  dependencies :: "string list"
  provides :: "string list"
  this_is_a_map :: bool
  data_files :: "data_file list"
  before_level_meta :: "string list"
  after_level_meta :: "string list"
  replace_level_meta :: "string list"
  loadscreen :: "string option"
  loadscreen_manual_shutdown :: bool
  server_only :: bool
  lua54 :: bool
  node_version :: "string option"
  clr_disable_task_scheduler :: bool
  use_experimental_fxv2_oal :: bool
  convar_categories :: "'f convar_category list"
  escrow_ignore :: bool
  custom :: "(string \<times> 'f manifest_value) list"
  directives :: "directive_record list"

definition manifest_default :: "'f manifest" where
  "manifest_default =
     \<lparr>fx_version = None, resource_manifest_version = None, game = [], client_scripts = [],
      server_scripts = [], shared_scripts = [], files = [], ui_page = None, exports = [],
      server_exports = [], dependencies = [], provides = [], this_is_a_map = False, data_files = [],
      before_level_meta = [], after_level_meta = [], replace_level_meta = [], loadscreen = None,
      loadscreen_manual_shutdown = False, server_only = False, lua54 = False, node_version = None,
      clr_disable_task_scheduler = False, use_experimental_fxv2_oal = False, convar_categories = [],
      escrow_ignore = False, custom = [], directives = []\<rparr>"

definition SUPPORTED_NAMES :: "string list" where
  "SUPPORTED_NAMES =
     [''fx_version'', ''resource_manifest_version'', ''game'', ''games'', ''client_script'',
      ''client_scripts'', ''server_script'', ''server_scripts'', ''shared_script'', ''shared_scripts'',
      ''file'', ''files'', ''ui_page'', ''export'', ''exports'', ''server_export'', ''server_exports'',
      ''dependency'', ''dependencies'', ''provide'', ''this_is_a_map'', ''data_file'',
      ''before_level_meta'', ''after_level_meta'', ''replace_level_meta'', ''loadscreen'',
      ''loadscreen_manual_shutdown'', ''server_only'', ''lua54'', ''node_version'',
      ''clr_disable_task_scheduler'', ''use_experimental_fxv2_oal'', ''convar_category'']"

definition classify :: "string \<Rightarrow> directive_status" where
  "classify name =
     (if name \<in> set SUPPORTED_NAMES then Supported
      else if name = ''fileserver_add'' then Translated
      else if name \<in> {''fxasset_escrow'', ''escrow_disable'', ''lua54_disabled''} then IgnoredWarn
      else if name \<in> {''author'', ''description'', ''repository'', ''version'', ''license''} then IgnoredWarn
      else Unsupported)"

definition note_for :: "string \<Rightarrow> string" where
  "note_for name =
     (if name = ''fileserver_add''
        then ''legacy file-server config; translated to Aldivine Streaming Engine / CDN origin''
      else if name = ''use_experimental_fxv2_oal''
        then ''OAL compatibility profile activated only when implemented''
      else if name = ''convar_category'' then ''drives Aegis resource configuration UI''
      else '''')"

section \<open>Applying a directive\<close>

definition convar_var_default :: "'f convar_var" where
  "convar_var_default =
     \<lparr>cv_convar = [], cv_name = None, cv_help = None, cv_default = None, cv_min = None, cv_max = None,
      cv_kind = None\<rparr>"

text \<open>A bound is taken from a number; another value leaves the old one.\<close>

definition bound_of :: "'f f64_ops \<Rightarrow> 'f manifest_value \<Rightarrow> 'f option \<Rightarrow> 'f option" where
  "bound_of F v old = (case v of VInt n \<Rightarrow> Some (f_of_i64 F n) | VFloat x \<Rightarrow> Some x | _ \<Rightarrow> old)"

definition convar_entry ::
  "'f f64_ops \<Rightarrow> 'f convar_var \<Rightarrow> string \<times> 'f manifest_value \<Rightarrow> 'f convar_var" where
  "convar_entry F cv e =
     (case e of (k, v) \<Rightarrow>
        if k = ''convar'' then cv\<lparr>cv_convar := (case as_str v of Some s \<Rightarrow> s | None \<Rightarrow> [])\<rparr>
        else if k = ''name'' then cv\<lparr>cv_name := as_str v\<rparr>
        else if k = ''help'' then cv\<lparr>cv_help := as_str v\<rparr>
        else if k = ''default'' then cv\<lparr>cv_default := Some v\<rparr>
        else if k = ''min'' then cv\<lparr>cv_min := bound_of F v (cv_min cv)\<rparr>
        else if k = ''max'' then cv\<lparr>cv_max := bound_of F v (cv_max cv)\<rparr>
        else if k = ''type'' \<or> k = ''kind'' then cv\<lparr>cv_kind := as_str v\<rparr>
        else cv)"

fun convar_vars :: "'f f64_ops \<Rightarrow> 'f manifest_value list \<Rightarrow> ('f convar_var list, 'f fx_msg) result" where
  "convar_vars F [] = Ok []"
| "convar_vars F (v # vs) =
     (case v of
        VTable t \<Rightarrow>
          (let cv = foldl (convar_entry F) convar_var_default t in
           if cv_convar cv = [] then Err CategoryNoConvar
           else (case convar_vars F vs of Err e \<Rightarrow> Err e | Ok cvs \<Rightarrow> Ok (cv # cvs)))
      | _ \<Rightarrow> Err CategoryVarTable)"

definition parse_convar_category ::
  "'f f64_ops \<Rightarrow> 'f manifest_value \<Rightarrow> nat \<Rightarrow> string \<Rightarrow> ('f convar_category, 'f manifest_error) result" where
  "parse_convar_category F value line directive =
     (let fail = \<lambda>msg. Err (InvalidValue directive line msg) in
      case as_sequence value of
        None \<Rightarrow> fail CategoryTable
      | Some (n # vars # _) \<Rightarrow>
          (case as_str n of
             None \<Rightarrow> fail CategoryName
           | Some name \<Rightarrow>
               (case as_sequence vars of
                  None \<Rightarrow> fail CategoryVars
                | Some vs \<Rightarrow>
                    (case convar_vars F vs of
                       Err msg \<Rightarrow> fail msg
                     | Ok cvs \<Rightarrow> Ok \<lparr>cc_name = name, cc_vars = cvs\<rparr>)))
      | Some _ \<Rightarrow> fail CategoryShort)"

definition bool_or_true :: "'f manifest_value \<Rightarrow> bool" where
  "bool_or_true v = (case as_bool v of Some b \<Rightarrow> b | None \<Rightarrow> True)"

definition data_file_of :: "'f manifest_value \<Rightarrow> data_file option" where
  "data_file_of v =
     (case v of
        VTable ((_, VStr k) # (_, VStr f) # _) \<Rightarrow> Some \<lparr>df_kind = k, df_file = f\<rparr>
      | _ \<Rightarrow> None)"

definition directive_record_of :: "string \<Rightarrow> nat \<Rightarrow> directive_record" where
  "directive_record_of name line =
     \<lparr>dr_name = name, dr_status = classify name, dr_line = line, dr_note = note_for name\<rparr>"

text \<open>The macro \<open>str_list!\<close> on the field that \<open>upd\<close> updates.\<close>

definition str_list ::
  "string \<Rightarrow> nat \<Rightarrow> 'f manifest_value \<Rightarrow> ((string list \<Rightarrow> string list) \<Rightarrow> 'f manifest \<Rightarrow> 'f manifest) \<Rightarrow>
     'f manifest \<Rightarrow> ('f manifest, 'f manifest_error) result" where
  "str_list name line value upd m =
     (case coerce_string_list value of
        Err msg \<Rightarrow> Err (InvalidValue name line msg)
      | Ok ss \<Rightarrow> Ok (upd (\<lambda>xs. xs @ ss) m))"

definition apply_directive ::
  "'f f64_ops \<Rightarrow> 'f manifest \<Rightarrow> string \<Rightarrow> 'f manifest_value \<Rightarrow> nat \<Rightarrow> ('f manifest, 'f manifest_error) result" where
  "apply_directive F out0 name value line =
     (let out = out0\<lparr>directives := directives out0 @ [directive_record_of name line]\<rparr>;
          strs = (\<lambda>upd. str_list name line value upd out) in
      if name = ''fx_version'' then Ok (out\<lparr>fx_version := as_str value\<rparr>)
      else if name = ''resource_manifest_version'' then Ok (out\<lparr>resource_manifest_version := as_str value\<rparr>)
      else if name = ''game'' \<or> name = ''games'' then strs game_update
      else if name = ''client_script'' \<or> name = ''client_scripts'' then strs client_scripts_update
      else if name = ''server_script'' \<or> name = ''server_scripts'' then strs server_scripts_update
      else if name = ''shared_script'' \<or> name = ''shared_scripts'' then strs shared_scripts_update
      else if name = ''file'' \<or> name = ''files'' then strs files_update
      else if name = ''ui_page'' then Ok (out\<lparr>ui_page := as_str value\<rparr>)
      else if name = ''export'' \<or> name = ''exports'' then strs exports_update
      else if name = ''server_export'' \<or> name = ''server_exports'' then strs server_exports_update
      else if name = ''dependency'' \<or> name = ''dependencies'' then strs dependencies_update
      else if name = ''provide'' then strs provides_update
      else if name = ''this_is_a_map'' then Ok (out\<lparr>this_is_a_map := bool_or_true value\<rparr>)
      else if name = ''data_file'' then
        (case data_file_of value of
           None \<Rightarrow> Err (InvalidValue name line DataFileForm)
         | Some d \<Rightarrow> Ok (out\<lparr>data_files := data_files out @ [d]\<rparr>))
      else if name = ''before_level_meta'' then strs before_level_meta_update
      else if name = ''after_level_meta'' then strs after_level_meta_update
      else if name = ''replace_level_meta'' then strs replace_level_meta_update
      else if name = ''loadscreen'' then Ok (out\<lparr>loadscreen := as_str value\<rparr>)
      else if name = ''loadscreen_manual_shutdown'' then Ok (out\<lparr>loadscreen_manual_shutdown := bool_or_true value\<rparr>)
      else if name = ''server_only'' then Ok (out\<lparr>server_only := bool_or_true value\<rparr>)
      else if name = ''lua54'' then Ok (out\<lparr>lua54 := bool_or_true value\<rparr>)
      else if name = ''node_version'' then Ok (out\<lparr>node_version := as_str value\<rparr>)
      else if name = ''clr_disable_task_scheduler'' then Ok (out\<lparr>clr_disable_task_scheduler := bool_or_true value\<rparr>)
      else if name = ''use_experimental_fxv2_oal'' then Ok (out\<lparr>use_experimental_fxv2_oal := bool_or_true value\<rparr>)
      else if name = ''convar_category'' then
        (case parse_convar_category F value line name of
           Err e \<Rightarrow> Err e
         | Ok c \<Rightarrow> Ok (out\<lparr>convar_categories := convar_categories out @ [c]\<rparr>))
      else if name = ''escrow_ignore'' then Ok (out\<lparr>escrow_ignore := bool_or_true value\<rparr>)
      else Ok (out\<lparr>custom := custom out @ [(name, value)]\<rparr>))"

section \<open>Parser\<close>

record 'f parser =
  lex :: lexer
  peeked :: "'f tok option"

definition parser_new :: "string \<Rightarrow> 'f parser" where
  "parser_new s = \<lparr>lex = lexer_new s, peeked = None\<rparr>"

definition p_peek :: "'f f64_ops \<Rightarrow> 'f parser \<Rightarrow> ('f tok option \<times> 'f parser, 'f manifest_error) result" where
  "p_peek F p =
     (case peeked p of
        Some t \<Rightarrow> Ok (Some t, p)
      | None \<Rightarrow>
          (case lex_next F (lex p) of
             Err e \<Rightarrow> Err e
           | Ok (t, l) \<Rightarrow> Ok (t, \<lparr>lex = l, peeked = t\<rparr>)))"

definition p_take :: "'f f64_ops \<Rightarrow> 'f parser \<Rightarrow> ('f tok option \<times> 'f parser, 'f manifest_error) result" where
  "p_take F p =
     (case peeked p of
        Some t \<Rightarrow> Ok (Some t, p\<lparr>peeked := None\<rparr>)
      | None \<Rightarrow>
          (case lex_next F (lex p) of
             Err e \<Rightarrow> Err e
           | Ok (t, l) \<Rightarrow> Ok (t, p\<lparr>lex := l\<rparr>)))"

abbreviation p_line :: "'f parser \<Rightarrow> nat" where
  "p_line p \<equiv> lex_line (lex p)"

definition decode_literal :: "string \<Rightarrow> 'f manifest_value" where
  "decode_literal s =
     (if s = ''__bool_true__'' then VBool True
      else if s = ''__bool_false__'' then VBool False
      else if s = ''__nil__'' then VNil
      else VStr s)"

definition number_value :: "'f f64_ops \<Rightarrow> 'f \<Rightarrow> 'f manifest_value" where
  "number_value F n = (if f_fits F n then VInt (f_as_i64 F n) else VFloat n)"

text \<open>
  \<open>entry_key\<close> is the lookahead of an entry whose first token is \<open>t\<close>: the key of \<open>key = value\<close>, nothing for
  a positional entry, an error for a bare identifier. \<open>separator\<close> tells whether the table was closed.
\<close>

definition entry_key ::
  "'f f64_ops \<Rightarrow> 'f tok option \<Rightarrow> 'f parser \<Rightarrow> (string option \<times> 'f parser, 'f manifest_error) result" where
  "entry_key F t p =
     (case t of
        Some (Ident i) \<Rightarrow>
          (case p_take F p of
             Err e \<Rightarrow> Err e
           | Ok (_, p1) \<Rightarrow>
               (case p_peek F p1 of
                  Err e \<Rightarrow> Err e
                | Ok (Some Assign, p2) \<Rightarrow>
                    (case p_take F p2 of Err e \<Rightarrow> Err e | Ok (_, p3) \<Rightarrow> Ok (Some i, p3))
                | Ok (_, p2) \<Rightarrow> Err (Syntax (p_line p) (BareInTable i))))
      | _ \<Rightarrow> Ok (None, p))"

definition separator :: "'f f64_ops \<Rightarrow> 'f parser \<Rightarrow> (bool \<times> 'f parser, 'f manifest_error) result" where
  "separator F p =
     (case p_peek F p of
        Err e \<Rightarrow> Err e
      | Ok (Some Comma, p1) \<Rightarrow> (case p_take F p1 of Err e \<Rightarrow> Err e | Ok (_, p2) \<Rightarrow> Ok (False, p2))
      | Ok (Some RBrace, p1) \<Rightarrow> (case p_take F p1 of Err e \<Rightarrow> Err e | Ok (_, p2) \<Rightarrow> Ok (True, p2))
      | Ok (_, p1) \<Rightarrow> Err (Syntax (p_line p1) ExpectedSeparator))"

text \<open>The table parser carries the entries read and the next positional key.\<close>

fun parse_value ::
  "'f f64_ops \<Rightarrow> nat \<Rightarrow> 'f parser \<Rightarrow> ('f manifest_value \<times> 'f parser, 'f manifest_error) result option"
and parse_table ::
  "'f f64_ops \<Rightarrow> nat \<Rightarrow> 'f parser \<Rightarrow> (string \<times> 'f manifest_value) list \<Rightarrow> nat \<Rightarrow>
     ('f manifest_value \<times> 'f parser, 'f manifest_error) result option" where
  "parse_value F 0 p = None"
| "parse_value F (Suc k) p =
     and_then (Some (p_take F p)) (\<lambda>(t, p1).
       case t of
         None \<Rightarrow> Some (Err (Syntax (p_line p1) UnexpectedEnd))
       | Some (StrTok s) \<Rightarrow> Some (Ok (decode_literal s, p1))
       | Some (Num n) \<Rightarrow> Some (Ok (number_value F n, p1))
       | Some LBrace \<Rightarrow> parse_table F k p1 [] 1
       | Some (Ident i) \<Rightarrow> Some (Err (Syntax (p_line p1) (BareIdentifier i)))
       | Some other \<Rightarrow> Some (Err (Syntax (p_line p1) (UnexpectedToken other))))"
| "parse_table F 0 p entries key = None"
| "parse_table F (Suc k) p entries key =
     and_then (Some (p_peek F p)) (\<lambda>(t, p1).
       case t of
         Some Comma \<Rightarrow> and_then (Some (p_take F p1)) (\<lambda>(_, p2). parse_table F k p2 entries key)
       | Some RBrace \<Rightarrow> and_then (Some (p_take F p1)) (\<lambda>(_, p2). Some (Ok (VTable entries, p2)))
       | _ \<Rightarrow>
           and_then (Some (entry_key F t p1)) (\<lambda>(i, p2).
           and_then (parse_value F k p2) (\<lambda>(v, p3).
           and_then (Some (separator F p3)) (\<lambda>(closed, p4).
             let entries' = entries @ [(case i of Some n \<Rightarrow> n | None \<Rightarrow> show_nat key, v)];
                 key' = (case i of Some _ \<Rightarrow> key | None \<Rightarrow> key + 1) in
             if closed then Some (Ok (VTable entries', p4))
             else parse_table F k p4 entries' key'))))"

definition skip_assign :: "'f f64_ops \<Rightarrow> 'f parser \<Rightarrow> ('f parser, 'f manifest_error) result" where
  "skip_assign F p =
     (case p_peek F p of
        Err e \<Rightarrow> Err e
      | Ok (Some Assign, p1) \<Rightarrow> (case p_take F p1 of Err e \<Rightarrow> Err e | Ok (_, p2) \<Rightarrow> Ok p2)
      | Ok (_, p1) \<Rightarrow> Ok p1)"

text \<open>\<open>convar_category 'Name' { ... }\<close>: a table after a string is folded with it into one sequence.\<close>

definition fold_label ::
  "'f f64_ops \<Rightarrow> nat \<Rightarrow> 'f manifest_value \<Rightarrow> 'f parser \<Rightarrow>
     ('f manifest_value \<times> 'f parser, 'f manifest_error) result option" where
  "fold_label F k v p =
     (case v of
        VStr _ \<Rightarrow>
          and_then (Some (p_peek F p)) (\<lambda>(t, p1).
            case t of
              Some LBrace \<Rightarrow>
                and_then (parse_value F k p1) (\<lambda>(tbl, p2). Some (Ok (VTable [(''1'', v), (''2'', tbl)], p2)))
            | _ \<Rightarrow> Some (Ok (v, p1)))
      | _ \<Rightarrow> Some (Ok (v, p)))"

definition parse_directive ::
  "'f f64_ops \<Rightarrow> nat \<Rightarrow> 'f parser \<Rightarrow> ('f manifest_value \<times> 'f parser, 'f manifest_error) result option" where
  "parse_directive F k p =
     and_then (Some (skip_assign F p)) (\<lambda>p1.
     and_then (parse_value F k p1) (\<lambda>(v, p2). fold_label F k v p2))"

definition check_required :: "'f manifest \<Rightarrow> ('f manifest, 'f manifest_error) result" where
  "check_required out =
     (if fx_version out = None \<and> resource_manifest_version out = None
      then Err (MissingRequired ''fx_version (or resource_manifest_version)'')
      else Ok out)"

fun parse_manifest ::
  "'f f64_ops \<Rightarrow> nat \<Rightarrow> 'f parser \<Rightarrow> 'f manifest \<Rightarrow> ('f manifest, 'f manifest_error) result option" where
  "parse_manifest F 0 p out = None"
| "parse_manifest F (Suc k) p out =
     and_then (Some (p_take F p)) (\<lambda>(t, p1).
       case t of
         None \<Rightarrow> Some (check_required out)
       | Some (Ident name) \<Rightarrow>
           and_then (parse_directive F k p1) (\<lambda>(v, p2).
           and_then (Some (apply_directive F out name v (p_line p1))) (\<lambda>out'.
             parse_manifest F k p2 out'))
       | Some other \<Rightarrow> Some (Err (Syntax (p_line p1) (ExpectedDirective other))))"

definition parse_fxmanifest :: "'f f64_ops \<Rightarrow> string \<Rightarrow> ('f manifest, 'f manifest_error) result option" where
  "parse_fxmanifest F src = parse_manifest F (2 * length src + 4) (parser_new src) manifest_default"

section \<open>TOML manifests and queries\<close>

record raw_manifest =
  raw_fx_version :: "string option"
  raw_game :: "string list"
  raw_client_scripts :: "string list"
  raw_server_scripts :: "string list"
  raw_shared_scripts :: "string list"
  raw_files :: "string list"
  raw_ui_page :: "string option"
  raw_dependencies :: "string list"
  raw_provides :: "string list"
  raw_this_is_a_map :: bool
  raw_server_only :: bool
  raw_lua54 :: bool

definition parse_ald_manifest ::
  "(string \<Rightarrow> (raw_manifest, string) result) \<Rightarrow> string \<Rightarrow> ('f manifest, 'f manifest_error) result" where
  "parse_ald_manifest toml_from_str src =
     (case toml_from_str src of
        Err e \<Rightarrow> Err (Syntax 1 (TomlError e))
      | Ok raw \<Rightarrow>
          (let out = manifest_default
             \<lparr>fx_version := raw_fx_version raw, game := raw_game raw,
              client_scripts := raw_client_scripts raw, server_scripts := raw_server_scripts raw,
              shared_scripts := raw_shared_scripts raw, files := raw_files raw,
              ui_page := raw_ui_page raw, dependencies := raw_dependencies raw,
              provides := raw_provides raw, this_is_a_map := raw_this_is_a_map raw,
              server_only := raw_server_only raw, lua54 := raw_lua54 raw\<rparr> in
           if fx_version out = None then Err (MissingRequired ''fx_version'') else Ok out))"

datatype side = Client | Server

definition scripts_for :: "'f manifest \<Rightarrow> side \<Rightarrow> string list" where
  "scripts_for m s = (case s of Client \<Rightarrow> client_scripts m | Server \<Rightarrow> server_scripts m) @ shared_scripts m"

definition push_new :: "string list \<Rightarrow> string \<Rightarrow> string list" where
  "push_new out f = (if f \<in> set out then out else out @ [f])"

definition all_files :: "'f manifest \<Rightarrow> string list" where
  "all_files m =
     foldl push_new []
       (files m @ map df_file (data_files m) @ (case ui_page m of None \<Rightarrow> [] | Some u \<Rightarrow> [u]) @
        client_scripts m @ shared_scripts m @ server_scripts m @ shared_scripts m)"

definition EM_DASH :: string where
  "EM_DASH = [CHR 0xE2, CHR 0x80, CHR 0x94]"

definition directive_warning :: "directive_record \<Rightarrow> string option" where
  "directive_warning d =
     (let pre = ''line '' @ show_nat (dr_line d) @ '': '' @ [CHR 0x60] @ dr_name d @ [CHR 0x60] in
      case dr_status d of
        IgnoredWarn \<Rightarrow>
          Some (pre @ '' is '' @ status_as_str (dr_status d) @ '' '' @ EM_DASH @ '' no runtime effect'')
      | Unsupported \<Rightarrow> Some (pre @ '' is UNSUPPORTED '' @ EM_DASH @ '' recorded, not honored'')
      | Translated \<Rightarrow> Some (pre @ '' TRANSLATED to Aldivine equivalent'')
      | Supported \<Rightarrow> None)"

definition warnings :: "'f manifest \<Rightarrow> string list" where
  "warnings m =
     List.map_filter directive_warning (directives m) @
     (if use_experimental_fxv2_oal m
      then [''use_experimental_fxv2_oal: OAL profile is PARTIAL '' @ EM_DASH @ '' see docs''] else [])"

end
