(* ===== verification/FxLemmas.thy ===== *)
theory FxLemmas
  imports FxManifest
begin

text \<open>
  What the legacy manifest parser guarantees: it ends on every input, it reads the rendered form of a
  list of directives as exactly these directives, and every directive of an accepted manifest is on
  record and, when unknown, kept.
\<close>

section \<open>Every step consumes input\<close>

definition p_weight :: "'f parser \<Rightarrow> nat" where
  "p_weight p = length (inp (lex p)) + (if peeked p = None then 0 else 1)"

lemma peek_weight: "p_peek F p = Ok (t, p1) \<Longrightarrow> p_weight p1 \<le> p_weight p \<and> peeked p1 = t"
  using lex_next_shorter [of F "lex p"]
  by (fastforce simp: p_peek_def p_weight_def split: option.splits sum.splits if_splits)

lemma take_weight: "p_take F p = Ok (t, p1) \<Longrightarrow> p_weight p1 + (if t = None then 0 else 1) \<le> p_weight p"
  using lex_next_shorter [of F "lex p"]
  by (fastforce simp: p_take_def p_weight_def split: option.splits sum.splits if_splits)

lemma take_peeked: "peeked p = Some t \<Longrightarrow> p_take F p = Ok (t', p1) \<Longrightarrow> p_weight p1 < p_weight p"
  by (auto simp: p_take_def p_weight_def)

lemma entry_key_weight: "entry_key F t p = Ok (i, p') \<Longrightarrow> p_weight p' \<le> p_weight p"
  by (fastforce simp: entry_key_def dest!: peek_weight take_weight
      split: option.splits tok.splits sum.splits prod.splits if_splits)

lemma separator_weight: "separator F p = Ok (c, p') \<Longrightarrow> p_weight p' < p_weight p"
  by (fastforce simp: separator_def dest!: peek_weight dest: take_peeked
      split: option.splits tok.splits sum.splits prod.splits)

lemma skip_assign_weight: "skip_assign F p = Ok p' \<Longrightarrow> p_weight p' \<le> p_weight p"
  by (fastforce simp: skip_assign_def dest!: peek_weight dest: take_peeked
      split: option.splits tok.splits sum.splits prod.splits)

text \<open>The three ways a round of the table loop goes on.\<close>

lemma parse_table_step:
  "parse_table F (Suc k) p entries key =
     (case p_peek F p of
        Err e \<Rightarrow> Some (Err e)
      | Ok (t, p1) \<Rightarrow>
          if t = Some Comma then and_then (Some (p_take F p1)) (\<lambda>(_, p2). parse_table F k p2 entries key)
          else if t = Some RBrace then and_then (Some (p_take F p1)) (\<lambda>(_, p2). Some (Ok (VTable entries, p2)))
          else and_then (Some (entry_key F t p1)) (\<lambda>(i, p2).
               and_then (parse_value F k p2) (\<lambda>(v, p3).
               and_then (Some (separator F p3)) (\<lambda>(closed, p4).
                 let entries' = entries @ [(case i of Some n \<Rightarrow> n | None \<Rightarrow> show_nat key, v)];
                     key' = (case i of Some _ \<Rightarrow> key | None \<Rightarrow> key + 1) in
                 if closed then Some (Ok (VTable entries', p4))
                 else parse_table F k p4 entries' key'))))"
  by (simp split: sum.split option.split tok.split)

declare parse_table.simps(2) [simp del]

lemma parse_progress:
  "parse_value F k p = Some (Ok (v, p')) \<Longrightarrow> p_weight p' < p_weight p"
  "parse_table F k p entries key = Some (Ok (v, p')) \<Longrightarrow> p_weight p' < p_weight p"
proof (induction k arbitrary: p p' v entries key)
  case (Suc k)
  {
    case 1
    then obtain t p1 where take: "p_take F p = Ok (t, p1)" by (auto simp: and_then_Ok)
    then have "t \<noteq> None \<and> (p1 = p' \<or> parse_table F k p1 [] 1 = Some (Ok (v, p')))"
      using 1 by (simp split: option.splits tok.splits)
    then show ?case using take_weight [OF take] Suc.IH(2) by fastforce
  next
    case 2
    obtain t p1 where peek: "p_peek F p = Ok (t, p1)"
      using 2 by (auto simp: parse_table_step split: sum.splits)
    note w = peek_weight [OF peek]
    consider "t = Some Comma" | "t = Some RBrace" | "t \<noteq> Some Comma" "t \<noteq> Some RBrace" by blast
    then show ?case
    proof cases
      case 3
      then obtain i p2 v2 p3 c p4 where e: "entry_key F t p1 = Ok (i, p2)" "parse_value F k p2 = Some (Ok (v2, p3))"
        "separator F p3 = Ok (c, p4)" and rest: "p4 = p' \<or> (\<exists>es j. parse_table F k p4 es j = Some (Ok (v, p')))"
        using 2 peek by (fastforce simp: parse_table_step and_then_Ok Let_def split: if_splits)
      then show ?thesis
        using w entry_key_weight [OF e(1)] Suc.IH(1) [OF e(2)] separator_weight [OF e(3)] Suc.IH(2) by fastforce
    qed (use 2 peek w in \<open>fastforce simp: parse_table_step and_then_Ok dest: take_peeked Suc.IH(2)\<close>)+
  }
qed auto

lemma parse_fuel:
  "2 * p_weight p + 1 \<le> k \<Longrightarrow> parse_value F k p \<noteq> None"
  "2 * p_weight p + 2 \<le> k \<Longrightarrow> parse_table F k p entries key \<noteq> None"
proof (induction k arbitrary: p entries key)
  case (Suc k)
  {
    case 1
    have "parse_table F k p1 [] 1 \<noteq> None" if "p_take F p = Ok (Some t, p1)" for t p1
      using take_weight [OF that] 1 by (intro Suc.IH(2)) auto
    then show ?case by (auto simp: and_then_None split: option.splits tok.splits)
  next
    case 2
    show ?case
    proof (cases "p_peek F p")
      case (Inr tp)
      obtain t p1 where peek: "p_peek F p = Ok (t, p1)" using Inr by (cases tp) auto
      note w = peek_weight [OF peek]
      consider "t = Some Comma" | "t = Some RBrace" | "t \<noteq> Some Comma" "t \<noteq> Some RBrace" by blast
      then show ?thesis
      proof cases
        case 1
        then have "p_take F p1 = Ok (t', p2) \<Longrightarrow> parse_table F k p2 entries key \<noteq> None" for t' p2
          using take_peeked [of p1 Comma F t' p2] w 2 by (intro Suc.IH(2)) auto
        then show ?thesis using 1 peek by (auto simp: parse_table_step and_then_None)
      next
        case 2
        then show ?thesis using peek by (auto simp: parse_table_step and_then_None)
      next
        case 3
        have val: "parse_value F k p2 \<noteq> None" if "entry_key F t p1 = Ok (i, p2)" for i p2
          using entry_key_weight [OF that] w 2 by (intro Suc.IH(1)) auto
        have tab: "parse_table F k p4 es j \<noteq> None"
          if "entry_key F t p1 = Ok (i, p2)" "parse_value F k p2 = Some (Ok (v, p3))" "separator F p3 = Ok (c, p4)"
          for i p2 v p3 c p4 es j
          using entry_key_weight [OF that(1)] parse_progress(1) [OF that(2)] separator_weight [OF that(3)] w 2
          by (intro Suc.IH(2)) auto
        show ?thesis
        proof
          assume "parse_table F (Suc k) p entries key = None"
          then obtain i p2 v p3 c p4 es j where "entry_key F t p1 = Ok (i, p2)"
            "parse_value F k p2 = Some (Ok (v, p3))" "separator F p3 = Ok (c, p4)" "parse_table F k p4 es j = None"
            using peek 3 val by (auto simp: parse_table_step and_then_None Let_def split: if_splits)
          with tab show False by blast
        qed
      qed
    qed (simp add: parse_table_step)
  }
qed auto

lemma fold_label_alt:
  "fold_label F k v p =
     (if as_str v = None then Some (Ok (v, p))
      else case p_peek F p of
        Err e \<Rightarrow> Some (Err e)
      | Ok (t, p1) \<Rightarrow>
          if t = Some LBrace
          then and_then (parse_value F k p1) (\<lambda>(tbl, p2). Some (Ok (VTable [(''1'', v), (''2'', tbl)], p2)))
          else Some (Ok (v, p1)))"
  by (cases v) (simp_all add: fold_label_def split: sum.split option.split tok.split)

lemma fold_label_weight:
  "fold_label F k v p = Some (Ok (v', p')) \<Longrightarrow> p_weight p' \<le> p_weight p"
  by (fastforce simp: fold_label_alt and_then_Ok dest!: peek_weight dest: parse_progress(1)
      split: if_splits sum.splits)

lemma parse_directive_weight:
  "parse_directive F k p = Some (Ok (v, p')) \<Longrightarrow> p_weight p' < p_weight p"
  by (fastforce simp: parse_directive_def and_then_Ok dest: skip_assign_weight parse_progress(1) fold_label_weight)

lemma fold_label_fuel: "2 * p_weight p + 1 \<le> k \<Longrightarrow> fold_label F k v p \<noteq> None"
proof
  assume k: "2 * p_weight p + 1 \<le> k" and none: "fold_label F k v p = None"
  then obtain t p1 where "p_peek F p = Ok (t, p1)" "parse_value F k p1 = None"
    by (auto simp: fold_label_alt and_then_None split: if_splits sum.splits)
  then show False using peek_weight [of F p t p1] parse_fuel(1) [of p1 k F] k by simp
qed

lemma parse_directive_fuel:
  assumes k: "2 * p_weight p + 1 \<le> k" shows "parse_directive F k p \<noteq> None"
proof
  assume "parse_directive F k p = None"
  then obtain p1 where p1: "skip_assign F p = Ok p1"
    and "parse_value F k p1 = None \<or> (\<exists>v p2. parse_value F k p1 = Some (Ok (v, p2)) \<and> fold_label F k v p2 = None)"
    by (auto simp: parse_directive_def and_then_None)
  then show False
    using skip_assign_weight [OF p1] parse_fuel(1) [of p1 k F] parse_progress(1) [of F k p1] fold_label_fuel k
    by (meson add_le_mono1 le_trans less_imp_le mult_le_mono2)
qed

lemma parse_manifest_fuel: "2 * p_weight p + 2 \<le> k \<Longrightarrow> parse_manifest F k p out \<noteq> None"
proof (induction k arbitrary: p out)
  case (Suc k)
  show ?case
  proof
    assume none: "parse_manifest F (Suc k) p out = None"
    then obtain t p1 where take: "p_take F p = Ok (t, p1)" by (auto simp: and_then_None)
    with none obtain name where t: "t = Some (Ident name)" by (auto split: option.splits tok.splits)
    have k: "2 * p_weight p1 + 1 \<le> k" using take_weight [OF take] t Suc.prems by simp
    with none take t obtain v p2 out' where "parse_directive F k p1 = Some (Ok (v, p2))" "parse_manifest F k p2 out' = None"
      using parse_directive_fuel [OF k, of F] by (auto simp: and_then_None)
    then show False using parse_directive_weight [of F k p1 v p2] Suc.IH [of p2 out'] k by simp
  qed
qed simp

lemma parse_fxmanifest_fuel: "parse_fxmanifest F src \<noteq> None"
  unfolding parse_fxmanifest_def
  by (rule parse_manifest_fuel) (simp add: parser_new_def lexer_new_def p_weight_def)

section \<open>Directives on record\<close>

text \<open>Applying numbered directives in order.\<close>

fun apply_all ::
  "'f f64_ops \<Rightarrow> (string \<times> 'f manifest_value \<times> nat) list \<Rightarrow> 'f manifest \<Rightarrow> ('f manifest, 'f manifest_error) result" where
  "apply_all F [] out = Ok out"
| "apply_all F ((name, v, line) # ds) out =
     (case apply_directive F out name v line of Err e \<Rightarrow> Err e | Ok out' \<Rightarrow> apply_all F ds out')"

text \<open>The names that \<open>apply\<close> gives a field; the others go to \<open>custom\<close>.\<close>

definition honoured :: "string \<Rightarrow> bool" where
  "honoured name \<longleftrightarrow> name \<in> set SUPPORTED_NAMES \<or> name = ''escrow_ignore''"

lemma parse_manifest_applies:
  "parse_manifest F k p out = Some (Ok m) \<Longrightarrow>
     \<exists>ds. apply_all F ds out = Ok m \<and> check_required m = Ok m"
proof (induction k arbitrary: p out)
  case (Suc k)
  then obtain t p1 where take: "p_take F p = Ok (t, p1)" by (auto simp: and_then_Ok)
  show ?case
  proof (cases t)
    case None
    then have "check_required out = Ok m" using Suc.prems take by simp
    then show ?thesis by (intro exI [of _ "[]"]) (auto simp: check_required_def split: if_splits)
  next
    case (Some tk)
    with Suc.prems take obtain name v p2 out' where "apply_directive F out name v (p_line p1) = Ok out'"
      "parse_manifest F k p2 out' = Some (Ok m)"
      by (auto simp: and_then_Ok split: tok.splits)
    with Suc.IH show ?thesis by (metis apply_all.simps(2) sum.case(2))
  qed
qed simp

text \<open>The strings a list directive adds.\<close>

definition strings_of :: "'f manifest_value \<Rightarrow> string list" where
  "strings_of v = (case coerce_string_list v of Err _ \<Rightarrow> [] | Ok ss \<Rightarrow> ss)"

lemma str_list_Ok:
  "str_list name line v upd m = Ok m' \<Longrightarrow> m' = upd (\<lambda>xs. xs @ strings_of v) m"
  by (auto simp: str_list_def strings_of_def split: sum.splits)

lemma if_Ok_E:
  "(if c then a else b) = Ok m \<Longrightarrow> (a = Ok m \<Longrightarrow> Q) \<Longrightarrow> (b = Ok m \<Longrightarrow> Q) \<Longrightarrow> Q"
  by (simp split: if_splits)

lemma apply_records:
  "apply_directive F out name v line = Ok out' \<Longrightarrow> directives out' = directives out @ [directive_record_of name line]"
  unfolding apply_directive_def Let_def
  by (elim if_Ok_E) (auto dest!: str_list_Ok split: option.splits sum.splits)

lemma apply_unknown:
  "\<not> honoured name \<Longrightarrow> apply_directive F out name v line =
     Ok (out\<lparr>directives := directives out @ [directive_record_of name line], custom := custom out @ [(name, v)]\<rparr>)"
  by (simp add: apply_directive_def Let_def honoured_def SUPPORTED_NAMES_def)

lemma apply_honoured:
  "honoured name \<Longrightarrow> apply_directive F out name v line = Ok out' \<Longrightarrow> custom out' = custom out"
  unfolding honoured_def SUPPORTED_NAMES_def list.set insert_iff empty_iff
  by (elim disjE) (auto simp: apply_directive_def Let_def dest!: str_list_Ok split: option.splits sum.splits)

lemma apply_scripts:
  "apply_directive F out name v line = Ok out' \<Longrightarrow>
     client_scripts out' = client_scripts out @ (if name \<in> {''client_script'', ''client_scripts''} then strings_of v else []) \<and>
     server_scripts out' = server_scripts out @ (if name \<in> {''server_script'', ''server_scripts''} then strings_of v else []) \<and>
     shared_scripts out' = shared_scripts out @ (if name \<in> {''shared_script'', ''shared_scripts''} then strings_of v else [])"
proof (cases "honoured name")
  case True
  assume "apply_directive F out name v line = Ok out'"
  with True show ?thesis
    unfolding honoured_def SUPPORTED_NAMES_def list.set insert_iff empty_iff
    by (elim disjE) (auto simp: apply_directive_def Let_def dest!: str_list_Ok split: option.splits sum.splits)
next
  case False
  assume "apply_directive F out name v line = Ok out'"
  with False show ?thesis by (auto simp: apply_unknown honoured_def SUPPORTED_NAMES_def)
qed

section \<open>Rendering\<close>

text \<open>
  The text of a value and of a list of directives, one per line. The entries of a table are positional
  while their key is the next index and \<open>key = value\<close> otherwise.
\<close>

fun render_value :: "'f manifest_value \<Rightarrow> string"
and render_entries :: "nat \<Rightarrow> (string \<times> 'f manifest_value) list \<Rightarrow> string" where
  "render_value VNil = ''nil''"
| "render_value (VBool b) = (if b then ''true'' else ''false'')"
| "render_value (VInt n) = show_nat (nat n)"
| "render_value (VStr s) = quote_str s"
| "render_value (VTable t) = CHR ''{'' # render_entries 1 t @ ''}''"
| "render_value _ = ''''"
| "render_entries key [] = []"
| "render_entries key ((k, v) # t) =
     (if k = show_nat key then render_value v @ CHR '','' # render_entries (key + 1) t
      else k @ '' = '' @ render_value v @ CHR '','' # render_entries key t)"

text \<open>
  Values with a textual form: no floats, no \<open>List\<close> (the parser builds tables only), integers that are
  not negative and exact in a float, ASCII strings other than the three the lexer uses for literals.
\<close>

fun value_ok :: "'f manifest_value \<Rightarrow> bool"
and entries_ok :: "nat \<Rightarrow> (string \<times> 'f manifest_value) list \<Rightarrow> bool" where
  "value_ok VNil = True"
| "value_ok (VBool b) = True"
| "value_ok (VInt n) = (0 \<le> n \<and> n < 2 ^ 53)"
| "value_ok (VStr s) = (is_ascii s \<and> s \<notin> {''__bool_true__'', ''__bool_false__'', ''__nil__''})"
| "value_ok (VTable t) = entries_ok 1 t"
| "value_ok _ = False"
| "entries_ok key [] = True"
| "entries_ok key ((k, v) # t) =
     (value_ok v \<and>
      (if k = show_nat key then entries_ok (key + 1) t else ident_ok k \<and> entries_ok key t))"

text \<open>Decimal integers below \<open>2 ^ 53\<close> are read exactly.\<close>

definition f64_exact :: "'f f64_ops \<Rightarrow> bool" where
  "f64_exact F \<longleftrightarrow>
     (\<forall>n < 2 ^ 53. case f_parse F (show_nat n) of None \<Rightarrow> False | Some x \<Rightarrow> f_fits F x \<and> f_as_i64 F x = int n)"

abbreviation P :: "string \<Rightarrow> nat \<Rightarrow> 'f parser" where
  "P s n \<equiv> \<lparr>lex = Lx s n, peeked = None\<rparr>"

abbreviation delim :: "string \<Rightarrow> bool" where
  "delim r \<equiv> stops (\<lambda>c. ident_char c \<or> num_char c) r"

lemma delim_stops: "delim r \<Longrightarrow> stops ident_char r \<and> stops num_char r"
  by (auto simp: stops_def split: list.splits)

lemma lex_rendered_int:
  assumes "f64_exact F" "0 \<le> n" "n < 2 ^ 53" "delim r"
  shows "\<exists>x. lex_next F (Lx (show_nat (nat n) @ r) l) = Ok (Some (Num x), Lx r l) \<and> number_value F x = VInt n"
proof -
  have "nat n < 2 ^ 53" using assms(2,3) by (simp add: nat_less_iff)
  then obtain x where x: "f_parse F (show_nat (nat n)) = Some x" "f_fits F x" "f_as_i64 F x = n"
    using assms(1,2) by (fastforce simp: f64_exact_def split: option.splits)
  then show ?thesis
    using lex_number [OF _ _ _ x(1)] show_nat_digits [of "nat n"] delim_stops [OF assms(4)]
    by (auto simp: number_value_def)
qed

lemma lex_rendered_literal:
  assumes "delim r"
  shows "lex_next F (Lx (''nil'' @ r) l) = Ok (Some (StrTok ''__nil__''), Lx r l)"
    "lex_next F (Lx (''true'' @ r) l) = Ok (Some (StrTok ''__bool_true__''), Lx r l)"
    "lex_next F (Lx (''false'' @ r) l) = Ok (Some (StrTok ''__bool_false__''), Lx r l)"
  using delim_stops [OF assms] lex_word [of _ r F l]
  by (simp_all add: ident_char_def is_alnum_def is_lower_def is_digit_def literal_or_ident_def del: append.simps)

text \<open>The first token of a rendered value.\<close>

definition value_start :: "'f tok \<Rightarrow> bool" where
  "value_start t = (case t of StrTok _ \<Rightarrow> True | Num _ \<Rightarrow> True | LBrace \<Rightarrow> True | _ \<Rightarrow> False)"

lemma rendered_start:
  assumes "f64_exact F" "value_ok v" "delim r"
  shows "\<exists>t l'. lex_next F (Lx (render_value v @ r) l) = Ok (Some t, l') \<and> value_start t"
proof (cases v)
  case (VInt n)
  then show ?thesis using lex_rendered_int [OF assms(1) _ _ assms(3), of n l] assms(2) by (auto simp: value_start_def)
next
  case (VTable t)
  then show ?thesis by (simp add: lex_punct value_start_def)
qed (use assms in \<open>auto simp: value_start_def lex_punct lex_quoted lex_rendered_literal simp del: append_Cons\<close>)

text \<open>Looking at a token first does not change what is parsed.\<close>

lemma take_after_peek: "p_peek F p = Ok (Some t, p1) \<Longrightarrow> p_take F p1 = p_take F p"
  by (auto simp: p_peek_def p_take_def split: option.splits sum.splits)

lemma value_after_peek: "p_peek F p = Ok (Some t, p1) \<Longrightarrow> parse_value F k p1 = parse_value F k p"
  using take_after_peek [of F p t p1] by (cases k) simp_all

lemma peek_P: "lex_next F (Lx s n) = Ok (t, l) \<Longrightarrow> p_peek F (P s n) = Ok (t, \<lparr>lex = l, peeked = t\<rparr>)"
  by (simp add: p_peek_def)

lemma take_P: "lex_next F (Lx s n) = Ok (t, l) \<Longrightarrow> p_take F (P s n) = Ok (t, \<lparr>lex = l, peeked = None\<rparr>)"
  by (simp add: p_take_def)

lemma separator_comma: "separator F (P (CHR '','' # r) n) = Ok (False, P r n)"
  by (simp add: separator_def peek_P [OF lex_punct(4)]) (simp add: p_take_def)

lemma entry_key_start: "value_start t \<Longrightarrow> entry_key F (Some t) p = Ok (None, p)"
  by (simp add: entry_key_def value_start_def split: tok.splits)

lemma entry_key_named:
  assumes "ident_ok k"
  shows "\<exists>p1. p_peek F (P (k @ '' = '' @ r) n) = Ok (Some (Ident k), p1) \<and>
    entry_key F (Some (Ident k)) p1 = Ok (Some k, P (CHR '' '' # r) n)"
proof -
  have lex: "lex_next F (Lx (k @ '' = '' @ r) n) = Ok (Some (Ident k), Lx ('' = '' @ r) n)"
    using assms by (intro lex_ident) (auto simp: stops_def ident_char_def is_alnum_def is_digit_def is_lower_def is_upper_def)
  have assign: "lex_next F (Lx ('' = '' @ r) n) = Ok (Some Assign, Lx (CHR '' '' # r) n)"
    by (simp add: lex_space lex_punct)
  show ?thesis
    using peek_P [OF lex] assign by (simp add: entry_key_def p_take_def p_peek_def)
qed

lemma take_space: "p_take F (P (CHR '' '' # r) n) = p_take F (P r n)"
  by (simp add: p_take_def lex_space split: sum.split)

lemma value_space: "parse_value F k (P (CHR '' '' # r) n) = parse_value F k (P r n)"
  using take_space [of F r n] by (cases k) simp_all

lemma parse_table_close: "parse_table F (Suc k) (P (CHR ''}'' # r) n) es key = Some (Ok (VTable es, P r n))"
  by (simp add: parse_table_step peek_P [OF lex_punct(2)]) (simp add: p_take_def)

lemma parse_table_entry:
  assumes "p_peek F p = Ok (tk, p1)" "tk \<noteq> Some Comma" "tk \<noteq> Some RBrace" "entry_key F tk p1 = Ok (i, p2)"
  shows "parse_value F j p2 = None \<Longrightarrow> parse_table F (Suc j) p es key = None"
    "parse_value F j p2 = Some (Ok (v, P (CHR '','' # r) n)) \<Longrightarrow>
     parse_table F (Suc j) p es key =
       parse_table F j (P r n) (es @ [(case i of Some k \<Rightarrow> k | None \<Rightarrow> show_nat key, v)])
         (case i of Some _ \<Rightarrow> key | None \<Rightarrow> key + 1)"
  using assms by (simp_all add: parse_table_step separator_comma Let_def)

lemma delim_comma: "delim (CHR '','' # r)"
  by (simp add: stops_def ident_char_def num_char_def is_alnum_def is_digit_def is_lower_def is_upper_def)

lemma parse_rendered:
  "f64_exact F \<Longrightarrow> value_ok v \<Longrightarrow> delim r \<Longrightarrow> parse_value F k (P (render_value v @ r) n) \<noteq> None \<Longrightarrow>
     parse_value F k (P (render_value v @ r) n) = Some (Ok (v, P r n))"
  "f64_exact F \<Longrightarrow> entries_ok key t \<Longrightarrow>
     parse_table F k (P (render_entries key t @ CHR ''}'' # r) n) es key \<noteq> None \<Longrightarrow>
     parse_table F k (P (render_entries key t @ CHR ''}'' # r) n) es key = Some (Ok (VTable (es @ t), P r n))"
proof (induction v and key t arbitrary: k r n and k r n es rule: render_value_render_entries.induct)
  case 1
  then show ?case
    by (cases k) (simp_all add: take_P [OF lex_rendered_literal(1)] decode_literal_def del: append_Cons)
next
  case (2 b)
  then show ?case
    by (cases k; cases b)
      (simp_all add: take_P [OF lex_rendered_literal(2)] take_P [OF lex_rendered_literal(3)] decode_literal_def del: append_Cons)
next
  case (3 i)
  then obtain x where "lex_next F (Lx (show_nat (nat i) @ r) n) = Ok (Some (Num x), Lx r n)" "number_value F x = VInt i"
    using lex_rendered_int [of F i r n] by auto
  then show ?case using 3(4) by (cases k) (simp_all add: take_P)
next
  case (4 s)
  then show ?case
    by (cases k) (simp_all add: take_P [OF lex_quoted] decode_literal_def)
next
  case (5 t)
  then show ?case
    using 5(1) [of "k - 1" r n "[]"] by (cases k) (simp_all add: take_P [OF lex_punct(1)])
next
  case (7 key)
  then show ?case by (cases k) (simp_all add: parse_table_close)
next
  case (8 key key' v t)
  obtain j where k: "k = Suc j" using "8.prems"(3) by (cases k) auto
  show ?case
  proof (cases "key' = show_nat key")
    case True
    let ?r = "render_entries (key + 1) t @ CHR ''}'' # r"
    let ?p = "P (render_value v @ CHR '','' # ?r) n"
    have v: "value_ok v" "entries_ok (key + 1) t" using "8.prems"(2) True by simp_all
    obtain tk l' where start: "lex_next F (Lx (render_value v @ CHR '','' # ?r) n) = Ok (Some tk, l')" "value_start tk"
      using rendered_start [OF "8.prems"(1) v(1) delim_comma] by blast
    let ?p1 = "\<lparr>lex = l', peeked = Some tk\<rparr>"
    note peek = peek_P [OF start(1)]
    have neq: "Some tk \<noteq> Some Comma" "Some tk \<noteq> Some RBrace" using start(2) by (auto simp: value_start_def)
    note entry = parse_table_entry [OF peek neq entry_key_start [OF start(2)]]
    have "parse_value F j ?p \<noteq> None"
      using "8.prems"(3) entry(1) [of j es key] value_after_peek [OF peek] True k by (auto simp del: not_None_eq)
    then have "parse_value F j ?p1 = Some (Ok (v, P (CHR '','' # ?r) n))"
      using "8.IH"(1) [OF True "8.prems"(1) v(1) delim_comma] value_after_peek [OF peek] by simp
    note step = entry(2) [OF this, of es key]
    show ?thesis using "8.prems"(3) True k step "8.IH"(2) [OF True "8.prems"(1) v(2), of j r n "es @ [(show_nat key, v)]"] by simp
  next
    case False
    let ?r = "render_entries key t @ CHR ''}'' # r"
    let ?s = "render_value v @ CHR '','' # ?r"
    have v: "ident_ok key'" "value_ok v" "entries_ok key t" using "8.prems"(2) False by simp_all
    obtain p1 where peek: "p_peek F (P (key' @ '' = '' @ ?s) n) = Ok (Some (Ident key'), p1)"
      and key: "entry_key F (Some (Ident key')) p1 = Ok (Some key', P (CHR '' '' # ?s) n)"
      using entry_key_named [OF v(1)] by blast
    note entry = parse_table_entry [OF peek _ _ key]
    have "parse_value F j (P ?s n) \<noteq> None"
      using "8.prems"(3) entry(1) [of j es key] False k by (auto simp: value_space simp del: not_None_eq)
    then have "parse_value F j (P (CHR '' '' # ?s) n) = Some (Ok (v, P (CHR '','' # ?r) n))"
      using "8.IH"(3) [OF False "8.prems"(1) v(2) delim_comma] by (simp add: value_space)
    note step = entry(2) [OF _ _ this, of es key]
    show ?thesis using "8.prems"(3) False k step "8.IH"(4) [OF False "8.prems"(1) v(3), of j r n "es @ [(key', v)]"] by simp
  qed
qed simp_all

section \<open>Manifests\<close>

definition render_manifest :: "(string \<times> 'f manifest_value) list \<Rightarrow> string" where
  "render_manifest ds = concat (map (\<lambda>(name, v). name @ CHR '' '' # render_value v @ [LF]) ds)"

definition directive_ok :: "string \<times> 'f manifest_value \<Rightarrow> bool" where
  "directive_ok d \<longleftrightarrow> ident_ok (fst d) \<and> value_ok (snd d)"

fun numbered :: "nat \<Rightarrow> (string \<times> 'f manifest_value) list \<Rightarrow> (string \<times> 'f manifest_value \<times> nat) list" where
  "numbered n [] = []"
| "numbered n ((name, v) # ds) = (name, v, n) # numbered (n + 1) ds"

text \<open>The manifest that the directives stand for.\<close>

definition manifest_of ::
  "'f f64_ops \<Rightarrow> (string \<times> 'f manifest_value) list \<Rightarrow> ('f manifest, 'f manifest_error) result" where
  "manifest_of F ds =
     (case apply_all F (numbered 1 ds) manifest_default of Err e \<Rightarrow> Err e | Ok m \<Rightarrow> check_required m)"

lemma delim_newline: "delim (LF # r)"
  by (simp add: stops_def ident_char_def num_char_def is_alnum_def is_digit_def is_lower_def is_upper_def)

lemma stops_space: "stops ident_char (CHR '' '' # r)"
  by (simp add: stops_def ident_char_def is_alnum_def is_digit_def is_lower_def is_upper_def)

lemma render_manifest_next:
  "list_all directive_ok ds \<Longrightarrow>
     \<exists>t l. lex_next F (Lx (LF # render_manifest ds) n) = Ok (t, l) \<and> t \<noteq> Some LBrace"
proof (cases ds)
  case (Cons d ds')
  moreover assume "list_all directive_ok ds"
  ultimately have "lex_next F (Lx (LF # render_manifest ds) n) =
      Ok (Some (Ident (fst d)), Lx (CHR '' '' # render_value (snd d) @ LF # render_manifest ds') (n + 1))"
    by (cases d) (simp add: lex_newline render_manifest_def directive_ok_def lex_ident [OF _ stops_space])
  then show ?thesis by blast
qed (simp add: render_manifest_def lex_newline lex_end)

text \<open>The state after a directive; a string is followed by a look at the next token.\<close>

lemma fold_label_plain:
  assumes "list_all directive_ok ds"
  shows "\<exists>p'. fold_label F k v (P (LF # render_manifest ds) n) = Some (Ok (v, p')) \<and>
    p_take F p' = p_take F (P (render_manifest ds) (n + 1))"
proof -
  have nl: "p_take F (P (LF # render_manifest ds) n) = p_take F (P (render_manifest ds) (n + 1))"
    by (simp add: p_take_def lex_newline split: sum.split)
  obtain t l where lex: "lex_next F (Lx (LF # render_manifest ds) n) = Ok (t, l)" "t \<noteq> Some LBrace"
    using render_manifest_next [OF assms] by blast
  have "p_take F \<lparr>lex = l, peeked = t\<rparr> = p_take F (P (LF # render_manifest ds) n)"
  proof (cases t)
    case None
    with lex have "ds = []" using assms by (cases ds) (auto simp: lex_newline render_manifest_def directive_ok_def lex_ident [OF _ stops_space])
    with lex None show ?thesis by (auto simp: render_manifest_def lex_newline lex_end p_take_def)
  qed (use take_after_peek [OF peek_P] lex in \<open>simp add: p_take_def\<close>)
  then show ?thesis using lex nl by (cases "as_str v = None") (auto simp: fold_label_alt peek_P [OF lex(1)])
qed

lemma parse_directive_rendered:
  assumes F: "f64_exact F" and v: "value_ok v" and ds: "list_all directive_ok ds"
    and some: "parse_directive F k (P (CHR '' '' # render_value v @ LF # render_manifest ds) n) \<noteq> None"
  shows "\<exists>p'. parse_directive F k (P (CHR '' '' # render_value v @ LF # render_manifest ds) n) = Some (Ok (v, p')) \<and>
    p_take F p' = p_take F (P (render_manifest ds) (n + 1))"
proof -
  let ?s = "render_value v @ LF # render_manifest ds"
  obtain t l where start: "lex_next F (Lx ?s n) = Ok (Some t, l)" "value_start t"
    using rendered_start [OF F v delim_newline] by blast
  have peek: "p_peek F (P (CHR '' '' # ?s) n) = Ok (Some t, \<lparr>lex = l, peeked = Some t\<rparr>)"
    by (rule peek_P) (simp add: lex_space start)
  have skip: "skip_assign F (P (CHR '' '' # ?s) n) = Ok \<lparr>lex = l, peeked = Some t\<rparr>"
    using peek start(2) by (simp add: skip_assign_def value_start_def split: tok.splits)
  have same: "parse_value F k \<lparr>lex = l, peeked = Some t\<rparr> = parse_value F k (P ?s n)"
    using value_after_peek [OF peek] by (simp add: value_space)
  have "parse_value F k (P ?s n) \<noteq> None"
    using some by (auto simp: parse_directive_def skip same and_then_None simp del: not_None_eq)
  then have "parse_value F k (P ?s n) = Some (Ok (v, P (LF # render_manifest ds) n))"
    by (rule parse_rendered(1) [OF F v delim_newline])
  then show ?thesis using fold_label_plain [OF ds, of F k v n] by (simp add: parse_directive_def skip same)
qed

lemma parse_manifest_take: "p_take F p = p_take F q \<Longrightarrow> parse_manifest F k p out = parse_manifest F k q out"
  by (cases k) simp_all

lemma parse_manifest_rendered:
  "f64_exact F \<Longrightarrow> list_all directive_ok ds \<Longrightarrow> parse_manifest F k (P (render_manifest ds) n) out \<noteq> None \<Longrightarrow>
     parse_manifest F k (P (render_manifest ds) n) out =
       Some (case apply_all F (numbered n ds) out of Err e \<Rightarrow> Err e | Ok m \<Rightarrow> check_required m)"
proof (induction ds arbitrary: k n out)
  case Nil
  then show ?case by (cases k) (simp_all add: render_manifest_def take_P [OF lex_end])
next
  case (Cons d ds)
  obtain name v where d: "d = (name, v)" by (cases d)
  obtain j where k: "k = Suc j" using Cons.prems(3) by (cases k) auto
  have ok: "ident_ok name" "value_ok v" "list_all directive_ok ds" using Cons.prems(2) by (simp_all add: d directive_ok_def [of "(name, v)"])
  let ?s = "CHR '' '' # render_value v @ LF # render_manifest ds"
  have s: "render_manifest ((name, v) # ds) = name @ ?s" by (simp add: render_manifest_def d)
  note take = take_P [OF lex_ident [OF ok(1) stops_space]]
  have "parse_directive F j (P ?s n) \<noteq> None" using Cons.prems(3) by (auto simp: k d s take and_then_None simp del: not_None_eq)
  then obtain p' where p': "parse_directive F j (P ?s n) = Some (Ok (v, p'))"
    "p_take F p' = p_take F (P (render_manifest ds) (n + 1))"
    using parse_directive_rendered [OF Cons.prems(1) ok(2,3)] by blast
  have step: "parse_manifest F k (P (render_manifest (d # ds)) n) out =
      and_then (Some (apply_directive F out name v n)) (parse_manifest F j (P (render_manifest ds) (n + 1)))"
    using parse_manifest_take [OF p'(2)] by (cases "apply_directive F out name v n") (simp_all add: k d s take p'(1))
  show ?case
  proof (cases "apply_directive F out name v n")
    case (Inr out')
    then have "parse_manifest F j (P (render_manifest ds) (n + 1)) out' \<noteq> None"
      using Cons.prems(3) step by simp
    then show ?thesis using Cons.IH [OF Cons.prems(1) ok(3)] step Inr by (simp add: d)
  qed (use step in \<open>simp add: d\<close>)
qed

lemma apply_all_records:
  "apply_all F ds out = Ok m \<Longrightarrow>
     directives m = directives out @ map (\<lambda>(name, v, line). directive_record_of name line) ds \<and>
     custom m = custom out @ [(name, v). (name, v, line) \<leftarrow> ds, \<not> honoured name]"
proof (induction ds arbitrary: out)
  case (Cons d ds)
  obtain name v line where d: "d = (name, v, line)" by (cases d)
  with Cons.prems obtain out' where out': "apply_directive F out name v line = Ok out'" "apply_all F ds out' = Ok m"
    by (auto split: sum.splits)
  then show ?case
    using Cons.IH [OF out'(2)] apply_records [OF out'(1)] apply_honoured [OF _ out'(1)] apply_unknown [of name F out v line]
    by (cases "honoured name") (auto simp: d)
qed simp

lemma apply_all_scripts:
  "apply_all F ds out = Ok m \<Longrightarrow>
     client_scripts m = client_scripts out @
       concat [strings_of v. (name, v, line) \<leftarrow> ds, name \<in> {''client_script'', ''client_scripts''}] \<and>
     server_scripts m = server_scripts out @
       concat [strings_of v. (name, v, line) \<leftarrow> ds, name \<in> {''server_script'', ''server_scripts''}] \<and>
     shared_scripts m = shared_scripts out @
       concat [strings_of v. (name, v, line) \<leftarrow> ds, name \<in> {''shared_script'', ''shared_scripts''}]"
proof (induction ds arbitrary: out)
  case (Cons d ds)
  obtain name v line where d: "d = (name, v, line)" by (cases d)
  with Cons.prems obtain out' where out': "apply_directive F out name v line = Ok out'" "apply_all F ds out' = Ok m"
    by (auto split: sum.splits)
  then show ?case
    using Cons.IH [OF out'(2)] apply_scripts [OF out'(1)] by (simp add: d)
qed simp

lemma numbered_custom: "[(name, v). (name, v, line) \<leftarrow> numbered n ds, Q name] = filter (\<lambda>(name, v). Q name) ds"
  by (induction n ds rule: numbered.induct) auto

lemma numbered_scripts: "[f v. (name, v, line) \<leftarrow> numbered n ds, Q name] = [f v. (name, v) \<leftarrow> ds, Q name]"
  by (induction n ds rule: numbered.induct) auto

section \<open>Queries\<close>

lemma push_new_all:
  "distinct out \<Longrightarrow> distinct (foldl push_new out fs) \<and> set (foldl push_new out fs) = set out \<union> set fs"
proof (induction fs arbitrary: out)
  case (Cons f fs)
  have "distinct (push_new out f)" "set (push_new out f) = insert f (set out)"
    using Cons.prems by (auto simp: push_new_def)
  then show ?case using Cons.IH [of "push_new out f"] by simp
qed simp

text \<open>\<open>all_files\<close> lists every declared file once.\<close>

lemma all_files_once:
  "distinct (all_files m) \<and>
   set (all_files m) = set (files m) \<union> df_file ` set (data_files m) \<union> set_option (ui_page m) \<union>
     set (client_scripts m) \<union> set (server_scripts m) \<union> set (shared_scripts m)"
  using push_new_all [of "[]"] by (auto simp: all_files_def simp del: foldl_append split: option.splits)

text \<open>Every directive that is not supported gives one warning.\<close>

lemma warnings_count:
  "length (warnings m) =
     length (filter (\<lambda>d. dr_status d \<noteq> Supported) (directives m)) + (if use_experimental_fxv2_oal m then 1 else 0)"
proof -
  have "length (List.map_filter directive_warning ds) = length (filter (\<lambda>d. dr_status d \<noteq> Supported) ds)" for ds
    by (induction ds)
      (simp_all add: List.map_filter_def directive_warning_def Let_def split: directive_status.split)
  then show ?thesis by (simp add: warnings_def)
qed

text \<open>An \<open>ald_manifest.toml\<close> is accepted exactly when it is read and names an \<open>fx_version\<close>.\<close>

lemma ald_manifest_accepted:
  "is_ok (parse_ald_manifest toml src) \<longleftrightarrow> (\<exists>raw. toml src = Ok raw \<and> raw_fx_version raw \<noteq> None)"
  by (auto simp: parse_ald_manifest_def Let_def split: sum.split)

section \<open>What the parser promises\<close>

text \<open>
  C21. The text of a list of directives, one per line with their values in rendered form, is read as
  exactly these directives: \<open>parse_fxmanifest\<close> returns the manifest that applying them in order gives,
  or the error of the first one that is refused. An accepted manifest has every directive on record,
  in order, with its line and classification; it keeps the value of every directive it does not know;
  and its scripts are those of the script directives in order. Numbers below \<open>2 ^ 53\<close> are assumed to be
  read exactly by the floating-point parser.
\<close>

theorem manifest_read_back:
  assumes "f64_exact F" "list_all directive_ok ds"
  shows "parse_fxmanifest F (render_manifest ds) = Some (manifest_of F ds) \<and>
    (\<forall>m. manifest_of F ds = Ok m \<longrightarrow>
       directives m = map (\<lambda>(name, v, line). directive_record_of name line) (numbered 1 ds) \<and>
       custom m = filter (\<lambda>(name, v). \<not> honoured name) ds \<and>
       scripts_for m Client =
         concat [strings_of v. (name, v) \<leftarrow> ds, name \<in> {''client_script'', ''client_scripts''}] @
         concat [strings_of v. (name, v) \<leftarrow> ds, name \<in> {''shared_script'', ''shared_scripts''}])"
proof (intro conjI allI impI)
  show "parse_fxmanifest F (render_manifest ds) = Some (manifest_of F ds)"
    using parse_fxmanifest_fuel [of F "render_manifest ds"] parse_manifest_rendered [OF assms]
    by (simp add: parse_fxmanifest_def parser_new_def lexer_new_def manifest_of_def)
next
  fix m
  assume "manifest_of F ds = Ok m"
  then have all: "apply_all F (numbered 1 ds) manifest_default = Ok m"
    by (auto simp: manifest_of_def check_required_def split: sum.splits if_splits)
  note facts = apply_all_records [OF all] apply_all_scripts [OF all]
  show "directives m = map (\<lambda>(name, v, line). directive_record_of name line) (numbered 1 ds)"
    using facts by (simp add: manifest_default_def)
  show "custom m = filter (\<lambda>(name, v). \<not> honoured name) ds"
    using facts by (simp add: manifest_default_def numbered_custom)
  show "scripts_for m Client =
      concat [strings_of v. (name, v) \<leftarrow> ds, name \<in> {''client_script'', ''client_scripts''}] @
      concat [strings_of v. (name, v) \<leftarrow> ds, name \<in> {''shared_script'', ''shared_scripts''}]"
    using facts by (simp add: manifest_default_def scripts_for_def numbered_scripts)
qed

text \<open>A floating-point type for witnesses: numbers are integers, decimal digits are read exactly.\<close>

definition int_f64 :: "int f64_ops" where
  "int_f64 = \<lparr>f_parse = parse_unsigned (2 ^ 63), f_zero = 0, f_fits = (\<lambda>n. \<bar>n\<bar> \<le> 2 ^ 63),
     f_as_i64 = (\<lambda>n. min n (2 ^ 63 - 1)), f_of_i64 = (\<lambda>n. n)\<rparr>"

lemma int_f64_exact: "f64_exact int_f64"
proof -
  have "n < 2 ^ 53 \<Longrightarrow> parse_unsigned (2 ^ 63) (show_nat n) = Some (int n) \<and> int n \<le> 2 ^ 63 - 1" for n
    using parse_show_nat [of n "2 ^ 63"] by simp
  then show ?thesis by (auto simp: f64_exact_def int_f64_def)
qed

definition sample_directives :: "(string \<times> int manifest_value) list" where
  "sample_directives =
     [(''fx_version'', VStr ''cerulean''),
      (''client_scripts'', VTable [(''1'', VStr ''a.lua''), (''2'', VStr ''b.lua'')]),
      (''shared_script'', VStr ''s.lua''),
      (''my_key'', VTable [(''limit'', VInt 3), (''1'', VBool True)])]"

theorem manifest_read_back_witness:
  "\<exists>m. parse_fxmanifest int_f64 (render_manifest sample_directives) = Some (Ok m) \<and>
     map dr_status (directives m) = [Supported, Supported, Supported, Unsupported] \<and>
     map fst (custom m) = [''my_key''] \<and> scripts_for m Client = [''a.lua'', ''b.lua'', ''s.lua'']"
proof -
  have ok: "list_all directive_ok sample_directives"
    by code_simp
  have "is_ok (manifest_of int_f64 sample_directives)"
    by code_simp
  then obtain m where m: "manifest_of int_f64 sample_directives = Ok m" by (cases "manifest_of int_f64 sample_directives") auto
  have strings: "strings_of (VTable [(''1'', VStr ''a.lua''), (''2'', VStr ''b.lua'') :: string \<times> int manifest_value]) = [''a.lua'', ''b.lua'']"
    by code_simp
  have single: "strings_of (VStr s) = [s]" for s by (simp add: strings_of_def coerce_string_list_def)
  show ?thesis
    using manifest_read_back [OF int_f64_exact ok] m
    by (intro exI [of _ m])
      (simp add: sample_directives_def directive_record_of_def classify_def SUPPORTED_NAMES_def honoured_def strings single)
qed

section \<open>Where the parser departs from Lua\<close>

text \<open>Brackets nest inside a long comment, so one that contains \<open>[[\<close> does not end where it ends in Lua.\<close>

lemma nested_comment_refused:
  "skip_loop ''--[[ a [[ b ]]'' 1 = (Err (Syntax 1 UnterminatedComment) :: (lexer, int manifest_error) result)"
  by code_simp

text \<open>A quoted string that spells a literal marker of the lexer is read as that literal.\<close>

lemma marker_string_is_literal:
  "parse_value F (Suc k) (P (quote_str ''__bool_true__'' @ r) n) = Some (Ok (VBool True, P r n))"
proof -
  have "is_ascii ''__bool_true__''" by (simp add: is_ascii_def)
  then show ?thesis by (simp add: take_P [OF lex_quoted] decode_literal_def)
qed

text \<open>The form \<open>data_file 'TYPE' 'file'\<close> is refused: the value is the first string alone.\<close>

lemma data_file_scalars_refused:
  "apply_directive F out ''data_file'' (VStr s) line = Err (InvalidValue ''data_file'' line DataFileForm)"
  by (simp add: apply_directive_def data_file_of_def)

text \<open>\<open>escrow_ignore\<close> is honoured although it is on record as unsupported.\<close>

lemma escrow_ignore_honoured:
  "\<exists>m. apply_directive F out ''escrow_ignore'' (VBool True) line = Ok m \<and> escrow_ignore m \<and>
     dr_status (last (directives m)) = Unsupported"
  by (simp add: apply_directive_def Let_def bool_or_true_def directive_record_of_def classify_def SUPPORTED_NAMES_def)

text \<open>A byte outside ASCII in a string becomes two bytes.\<close>

lemma non_ascii_widened:
  "128 \<le> byte_of c \<Longrightarrow> string_loop DQ line out (c # r) n =
     string_loop DQ line (out @ [char_of (192 + byte_of c div 64), char_of (128 + byte_of c mod 64)]) r n"
  by (auto simp: push_byte_as_char_def)

end
