(* ===== verification/Ecma335.thy ===== *)
theory Ecma335
  imports Msgpack AegisCrypto "HOL-Library.List_Lexorder" "HOL-Library.Char_ord"
begin

text \<open>
  The reader of .NET assemblies, \<open>crates/ald-script-dotnet/src/ecma335.rs\<close>: PE headers, the CLI header,
  metadata streams, table layout, heaps. Offsets are natural numbers: they stay below \<open>2 ^ 63 + 2 ^ 40\<close>, so a
  64-bit \<open>usize\<close> does not overflow; the subtraction that can is written with its wrap. An operation of
  Rust that panics (an index or a range outside the slice, an overflow in a build that checks for it)
  is \<open>None\<close>, a returned result is \<open>Some\<close>. SHA-1 is a parameter. Messages of errors are constructors.
\<close>

section \<open>Errors and results\<close>

datatype cli_msg =
    OutOfBounds nat nat
  | UnknownMagic u16
  | SectionsTruncated
  | PastEnd
  | NotInSection u32
  | CliTruncated
  | RootTruncated
  | BadSignature
  | VersionLength nat
  | VersionTruncated
  | StreamUnterminated
  | StreamNotUtf8
  | StreamOutside string
  | NoTables
  | WalkOverflow
  | TableOutside nat
  | TablesTruncated
  | ColumnPastEnd

datatype cli_error = NotPe | NotCli | Malformed cli_msg | UnsupportedTable nat

record assembly_ref =
  ar_name :: string
  ar_version :: string
  ar_culture :: "string option"
  ar_token :: "string option"
  ar_full_key :: bool

record assembly_identity =
  ai_name :: string
  ai_version :: string
  ai_culture :: "string option"
  ai_flags :: u32
  ai_token :: "string option"
  ai_has_key :: bool

record pinvoke =
  pi_module :: string
  pi_function :: string

record type_def =
  td_namespace :: string
  td_name :: string
  td_flags :: u32
  td_base :: "string option"

definition full_name :: "type_def \<Rightarrow> string" where
  "full_name t = (if td_namespace t = [] then td_name t else td_namespace t @ ''.'' @ td_name t)"

definition extends_base_script :: "type_def \<Rightarrow> bool" where
  "extends_base_script t =
     (case td_base t of
        None \<Rightarrow> False
      | Some b \<Rightarrow> last (split_on (\<lambda>c. c = CHR ''.'') b) = ''BaseScript'')"

record cli_image =
  runtime_version :: string
  clr_flags :: u32
  entry_point_token :: u32
  mod_name :: "string option"
  mvid :: "bytes option"
  assembly :: "assembly_identity option"
  references :: "assembly_ref list"
  table_rows :: "u32 list"
  custom_attribute_types :: "string list"
  types :: "type_def list"
  pinvokes :: "pinvoke list"

definition mvid_hex :: "cli_image \<Rightarrow> string option" where
  "mvid_hex i = map_option hex_encode (mvid i)"

definition type_def_count :: "cli_image \<Rightarrow> u32" where
  "type_def_count i = table_rows i ! 0x02"

definition method_def_count :: "cli_image \<Rightarrow> u32" where
  "method_def_count i = table_rows i ! 0x06"

datatype framework = NetFramework | CoreClrTarget | MonoTarget | UnknownTarget

fun target_as_str :: "framework \<Rightarrow> string" where
  "target_as_str NetFramework = ''net-framework''"
| "target_as_str CoreClrTarget = ''coreclr''"
| "target_as_str MonoTarget = ''mono''"
| "target_as_str UnknownTarget = ''unknown''"

definition target_framework :: "cli_image \<Rightarrow> framework" where
  "target_framework i =
     (let has = (\<lambda>n. \<exists>r \<in> set (references i). ar_name r = n) in
      if has ''System.Private.CoreLib'' \<or> has ''System.Runtime'' then CoreClrTarget
      else if has ''mscorlib'' then NetFramework
      else if has ''Mono.Posix'' \<or> has ''mono'' then MonoTarget
      else UnknownTarget)"

definition COMIMAGE_FLAGS_ILONLY :: u32 where "COMIMAGE_FLAGS_ILONLY = 0x1"
definition COMIMAGE_FLAGS_32BITREQUIRED :: u32 where "COMIMAGE_FLAGS_32BITREQUIRED = 0x2"
definition COMIMAGE_FLAGS_STRONGNAMESIGNED :: u32 where "COMIMAGE_FLAGS_STRONGNAMESIGNED = 0x8"
definition COMIMAGE_FLAGS_NATIVE_ENTRYPOINT :: u32 where "COMIMAGE_FLAGS_NATIVE_ENTRYPOINT = 0x10"
definition COMIMAGE_FLAGS_TRACKDEBUGDATA :: u32 where "COMIMAGE_FLAGS_TRACKDEBUGDATA = 0x10000"

section \<open>Slices and text\<close>

text \<open>\<open>b.get(i..j)\<close>, and \<open>b[i..j]\<close> with \<open>None\<close> for the panic; \<open>b[i]\<close> likewise.\<close>

definition slice :: "bytes \<Rightarrow> nat \<Rightarrow> nat \<Rightarrow> bytes option" where
  "slice b i j = (if i \<le> j \<and> j \<le> length b then Some (take (j - i) (drop i b)) else None)"

definition byte_at :: "bytes \<Rightarrow> nat \<Rightarrow> u8 option" where
  "byte_at b i = (if i < length b then Some (b ! i) else None)"

text \<open>
  \<open>a - b\<close> on \<open>usize\<close>: with overflow checks it panics below zero, without them it wraps.
\<close>

definition usize_sub :: "bool \<Rightarrow> nat \<Rightarrow> nat \<Rightarrow> nat option" where
  "usize_sub checked a b = (if b \<le> a then Some (a - b) else if checked then None else Some (a + 2 ^ 64 - b))"

definition to_str :: "bytes \<Rightarrow> string" where
  "to_str bs = map (\<lambda>w. char_of (unat w)) bs"

definition REPLACEMENT :: bytes where
  "REPLACEMENT = [0xEF, 0xBF, 0xBD]"

text \<open>The range of the second byte after the lead byte \<open>a\<close> of a longer sequence.\<close>

definition second_ok :: "u8 \<Rightarrow> u8 \<Rightarrow> bool" where
  "second_ok a b =
     (if a = 0xE0 then 0xA0 \<le> b \<and> b \<le> 0xBF
      else if a = 0xED then 0x80 \<le> b \<and> b \<le> 0x9F
      else if a = 0xF0 then 0x90 \<le> b \<and> b \<le> 0xBF
      else if a = 0xF4 then 0x80 \<le> b \<and> b \<le> 0x8F
      else cont b)"

text \<open>\<open>String::from_utf8_lossy\<close>: each maximal invalid piece becomes one replacement character.\<close>

fun from_utf8_lossy :: "bytes \<Rightarrow> bytes" where
  "from_utf8_lossy [] = []"
| "from_utf8_lossy (a # bs) =
     (if a \<le> 0x7F then a # from_utf8_lossy bs
      else if \<not> (0xC2 \<le> a \<and> a \<le> 0xF4) then REPLACEMENT @ from_utf8_lossy bs
      else case bs of
        [] \<Rightarrow> REPLACEMENT
      | b # bs1 \<Rightarrow>
          if \<not> second_ok a b then REPLACEMENT @ from_utf8_lossy (b # bs1)
          else if a \<le> 0xDF then a # b # from_utf8_lossy bs1
          else case bs1 of
            [] \<Rightarrow> REPLACEMENT
          | c # bs2 \<Rightarrow>
              if \<not> cont c then REPLACEMENT @ from_utf8_lossy (c # bs2)
              else if a \<le> 0xEF then a # b # c # from_utf8_lossy bs2
              else case bs2 of
                [] \<Rightarrow> REPLACEMENT
              | d # bs3 \<Rightarrow>
                  if \<not> cont d then REPLACEMENT @ from_utf8_lossy (d # bs3)
                  else a # b # c # d # from_utf8_lossy bs3)"

definition lossy :: "bytes \<Rightarrow> string" where
  "lossy bs = to_str (from_utf8_lossy bs)"

section \<open>Headers\<close>

definition u16_at :: "bytes \<Rightarrow> nat \<Rightarrow> (u16, cli_error) result" where
  "u16_at b off = (case slice b off (off + 2) of None \<Rightarrow> Err (Malformed (OutOfBounds 16 off)) | Some s \<Rightarrow> Ok (le_dec s))"

definition u32_at :: "bytes \<Rightarrow> nat \<Rightarrow> (u32, cli_error) result" where
  "u32_at b off = (case slice b off (off + 4) of None \<Rightarrow> Err (Malformed (OutOfBounds 32 off)) | Some s \<Rightarrow> Ok (le_dec s))"

definition u64_at :: "bytes \<Rightarrow> nat \<Rightarrow> (u64, cli_error) result" where
  "u64_at b off = (case slice b off (off + 8) of None \<Rightarrow> Err (Malformed (OutOfBounds 64 off)) | Some s \<Rightarrow> Ok (le_dec s))"

text \<open>The operator \<open>?\<close> on a result that is at hand, and on the value of an operation that may panic.\<close>

abbreviation try_ok :: "('a, 'e) result \<Rightarrow> ('a \<Rightarrow> ('b, 'e) result option) \<Rightarrow> ('b, 'e) result option" where
  "try_ok r f \<equiv> and_then (Some r) f"

abbreviation no_fail :: "'a option \<Rightarrow> ('a \<Rightarrow> ('b, 'e) result option) \<Rightarrow> ('b, 'e) result option" where
  "no_fail p f \<equiv> Option.bind p f"

record section_hdr =
  virtual_address :: u32
  virtual_size :: u32
  pointer_to_raw_data :: u32
  size_of_raw_data :: u32

record pe_headers =
  sections :: "section_hdr list"
  size_of_headers :: u32
  cli_rva :: u32

text \<open>The loop over the section table, from entry \<open>i\<close> on with \<open>n\<close> left.\<close>

fun read_sections :: "bytes \<Rightarrow> nat \<Rightarrow> nat \<Rightarrow> nat \<Rightarrow> (section_hdr list, cli_error) result option" where
  "read_sections b sec_off 0 i = Some (Ok [])"
| "read_sections b sec_off (Suc n) i =
     (let s = sec_off + i * 40 in
      if length b < s + 40 then Some (Err (Malformed SectionsTruncated))
      else
        try_ok (u32_at b (s + 8)) (\<lambda>vs.
        try_ok (u32_at b (s + 12)) (\<lambda>va.
        try_ok (u32_at b (s + 16)) (\<lambda>rs.
        try_ok (u32_at b (s + 20)) (\<lambda>pr.
        and_then (read_sections b sec_off n (i + 1)) (\<lambda>rest.
          Some (Ok (\<lparr>virtual_address = va, virtual_size = vs, pointer_to_raw_data = pr,
                     size_of_raw_data = rs\<rparr> # rest))))))))"

definition MZ_PE :: bytes where
  "MZ_PE = [0x50, 0x45, 0, 0]"

definition read_pe_headers :: "bytes \<Rightarrow> (pe_headers, cli_error) result option" where
  "read_pe_headers b =
     (if length b < 0x40 then Some (Err NotPe)
      else
        no_fail (byte_at b 0) (\<lambda>m.
        if m \<noteq> 0x4D then Some (Err NotPe) else
        no_fail (byte_at b 1) (\<lambda>z.
        if z \<noteq> 0x5A then Some (Err NotPe) else
        try_ok (u32_at b 0x3c) (\<lambda>lfanew.
        let e_lfanew = unat lfanew in
        if slice b e_lfanew (e_lfanew + 4) \<noteq> Some MZ_PE then Some (Err NotPe)
        else
          let coff = e_lfanew + 4 in
          try_ok (u16_at b (coff + 2)) (\<lambda>number_of_sections.
          try_ok (u16_at b (coff + 16)) (\<lambda>size_of_optional_header.
          let opt = coff + 20 in
          try_ok (u16_at b opt) (\<lambda>magic.
          and_then
            (if magic = 0x10b then try_ok (u32_at b (opt + 92)) (\<lambda>n. Some (Ok (opt + 96, n)))
             else if magic = 0x20b then try_ok (u32_at b (opt + 108)) (\<lambda>n. Some (Ok (opt + 112, n)))
             else Some (Err (Malformed (UnknownMagic magic))))
            (\<lambda>(dirs_off, dir_count).
          try_ok (u32_at b (opt + 60)) (\<lambda>headers.
          if dir_count \<le> 14 then Some (Err NotCli)
          else
            try_ok (u32_at b (dirs_off + 14 * 8)) (\<lambda>rva.
            try_ok (u32_at b (dirs_off + 14 * 8 + 4)) (\<lambda>size.
            if rva = 0 \<or> size = 0 then Some (Err NotCli)
            else
              and_then (read_sections b (opt + unat size_of_optional_header) (unat number_of_sections) 0) (\<lambda>secs.
                Some (Ok \<lparr>sections = secs, size_of_headers = headers, cli_rva = rva\<rparr>)))))))))))))"

text \<open>\<open>saturating_add\<close> on \<open>u32\<close>, compared with the address.\<close>

fun find_section :: "bytes \<Rightarrow> section_hdr list \<Rightarrow> u32 \<Rightarrow> (nat, cli_error) result" where
  "find_section b [] rva = Err (Malformed (NotInSection rva))"
| "find_section b (s # ss) rva =
     (let span = max (unat (virtual_size s)) (unat (size_of_raw_data s)) in
      if virtual_address s \<le> rva \<and> unat rva < min (unat (virtual_address s) + span) (2 ^ 32 - 1) then
        (let off = unat (pointer_to_raw_data s) + unat (rva - virtual_address s) in
         if length b \<le> off then Err (Malformed PastEnd) else Ok off)
      else find_section b ss rva)"

definition rva_to_offset :: "bytes \<Rightarrow> pe_headers \<Rightarrow> u32 \<Rightarrow> (nat, cli_error) result" where
  "rva_to_offset b pe rva = (if rva < size_of_headers pe then Ok (unat rva) else find_section b (sections pe) rva)"

record cli_header =
  ch_flags :: u32
  ch_entry_point :: u32
  metadata_rva :: u32
  metadata_size :: u32

definition read_cli_header :: "bytes \<Rightarrow> nat \<Rightarrow> (cli_header, cli_error) result option" where
  "read_cli_header b off =
     (if length b < off + 72 then Some (Err (Malformed CliTruncated))
      else
        try_ok (u32_at b (off + 8)) (\<lambda>rva.
        try_ok (u32_at b (off + 12)) (\<lambda>size.
        try_ok (u32_at b (off + 16)) (\<lambda>flags.
        try_ok (u32_at b (off + 20)) (\<lambda>entry.
          Some (Ok \<lparr>ch_flags = flags, ch_entry_point = entry, metadata_rva = rva, metadata_size = size\<rparr>))))))"

section \<open>Columns\<close>

record ctx =
  strings_big :: bool
  guid_big :: bool
  blob_big :: bool
  ctx_rows :: "u32 list"

definition str_idx :: "ctx \<Rightarrow> nat" where
  "str_idx c = (if strings_big c then 4 else 2)"

definition guid_idx :: "ctx \<Rightarrow> nat" where
  "guid_idx c = (if guid_big c then 4 else 2)"

definition blob_idx :: "ctx \<Rightarrow> nat" where
  "blob_idx c = (if blob_big c then 4 else 2)"

definition simple :: "ctx \<Rightarrow> nat \<Rightarrow> nat" where
  "simple c t = (if 0x10000 \<le> ctx_rows c ! t then 4 else 2)"

definition coded :: "ctx \<Rightarrow> nat \<Rightarrow> nat list \<Rightarrow> nat" where
  "coded c tag_bits tables =
     (let mx = foldl (\<lambda>m t. if t = 0 then m else max m (ctx_rows c ! t)) 0 tables in
      if unat mx < 2 ^ (16 - tag_bits) then 2 else 4)"

definition HAS_CUSTOM_ATTRIBUTE :: "nat list" where
  "HAS_CUSTOM_ATTRIBUTE =
     [0x06, 0x04, 0x01, 0x02, 0x08, 0x09, 0x0a, 0x00, 0x0e, 0x17, 0x14, 0x11, 0x1a, 0x1b, 0x20, 0x23, 0x26, 0x27,
      0x28, 0x2a, 0x2b, 0x2c]"

text \<open>The sizes of the rows of the tables 0x00 to 0x2c, in order.\<close>

definition row_sizes :: "ctx \<Rightarrow> nat list" where
  "row_sizes c =
     (let s = str_idx c; g = guid_idx c; bl = blob_idx c;
          type_or_ref = coded c 2 [0x02, 0x01, 0x1b]; method_or_ref = coded c 1 [0x06, 0x0a];
          impl = coded c 2 [0x26, 0x27, 0x02] in
      [2 + s + g + g + g,
       coded c 2 [0x00, 0x1a, 0x23, 0x01] + s + s,
       4 + s + s + type_or_ref + simple c 0x04 + simple c 0x06,
       simple c 0x04,
       2 + s + bl,
       simple c 0x06,
       4 + 2 + 2 + s + bl + simple c 0x08,
       simple c 0x08,
       2 + 2 + s,
       simple c 0x02 + type_or_ref,
       coded c 3 [0x02, 0x01, 0x1a, 0x06, 0x1b] + s + bl,
       1 + 1 + coded c 2 [0x04, 0x08, 0x17] + bl,
       coded c 5 HAS_CUSTOM_ATTRIBUTE + coded c 3 [0, 0, 0x06, 0x0a, 0] + bl,
       coded c 1 [0x04, 0x08] + bl,
       2 + coded c 2 [0x02, 0x06, 0x20] + bl,
       2 + 4 + simple c 0x02,
       4 + simple c 0x04,
       bl,
       simple c 0x02 + simple c 0x14,
       simple c 0x14,
       2 + s + type_or_ref,
       simple c 0x02 + simple c 0x17,
       simple c 0x17,
       2 + s + bl,
       2 + simple c 0x06 + coded c 1 [0x14, 0x17],
       simple c 0x02 + method_or_ref + method_or_ref,
       s,
       bl,
       2 + coded c 1 [0x04, 0x06] + s + simple c 0x1a,
       4 + simple c 0x04,
       4 + 4,
       4,
       4 + 2 + 2 + 2 + 2 + 4 + bl + s + s,
       4 + 4 + 4,
       4,
       2 + 2 + 2 + 2 + 4 + bl + s + s + bl,
       4 + 4 + 4 + simple c 0x23,
       4 + simple c 0x23,
       4 + s + bl,
       4 + 4 + s + s + impl,
       4 + 4 + s + impl,
       simple c 0x02 + simple c 0x02,
       2 + 2 + coded c 1 [0x02, 0x06] + s,
       method_or_ref + bl,
       simple c 0x2a + type_or_ref])"

definition row_size :: "nat \<Rightarrow> ctx \<Rightarrow> (nat, cli_error) result" where
  "row_size t c = (if t < length (row_sizes c) then Ok (row_sizes c ! t) else Err (UnsupportedTable t))"

text \<open>A cursor is its offset; a read gives the value and the next offset.\<close>

definition c_u16 :: "bytes \<Rightarrow> nat \<Rightarrow> (u16 \<times> nat, cli_error) result" where
  "c_u16 b off = (case u16_at b off of Err e \<Rightarrow> Err e | Ok v \<Rightarrow> Ok (v, off + 2))"

definition c_u32 :: "bytes \<Rightarrow> nat \<Rightarrow> (u32 \<times> nat, cli_error) result" where
  "c_u32 b off = (case u32_at b off of Err e \<Rightarrow> Err e | Ok v \<Rightarrow> Ok (v, off + 4))"

definition c_idx :: "bytes \<Rightarrow> nat \<Rightarrow> nat \<Rightarrow> (u32 \<times> nat, cli_error) result" where
  "c_idx b width off =
     (if width = 2 then (case c_u16 b off of Err e \<Rightarrow> Err e | Ok (v, o') \<Rightarrow> Ok (ucast v, o')) else c_u32 b off)"

definition c_skip :: "bytes \<Rightarrow> nat \<Rightarrow> nat \<Rightarrow> (nat, cli_error) result" where
  "c_skip b n off = (if off + n \<le> length b then Ok (off + n) else Err (Malformed ColumnPastEnd))"

section \<open>Heaps\<close>

record streams =
  s_tables :: "(nat \<times> nat) option"
  s_strings :: "(nat \<times> nat) option"
  s_guid :: "(nat \<times> nat) option"
  s_blob :: "(nat \<times> nat) option"
  heap_sizes :: u8

text \<open>The outer option of a heap reader is the panic of a range outside the file.\<close>

definition read_string :: "bytes \<Rightarrow> streams \<Rightarrow> u32 \<Rightarrow> string option option" where
  "read_string b s idx =
     (if idx = 0 then Some (Some [])
      else case s_strings s of
        None \<Rightarrow> Some None
      | Some (off, sz) \<Rightarrow>
          (let start = off + unat idx; stop = off + sz in
           if stop \<le> start \<or> length b < stop then Some None
           else
             Option.bind (slice b start stop) (\<lambda>r.
               case position (\<lambda>c. c = 0) r of
                 None \<Rightarrow> Some None
               | Some n \<Rightarrow> Option.bind (slice b start (start + n)) (\<lambda>x. Some (Some (lossy x))))))"

definition read_guid :: "bytes \<Rightarrow> streams \<Rightarrow> u32 \<Rightarrow> bytes option option" where
  "read_guid b s idx =
     (if idx = 0 then Some None
      else case s_guid s of
        None \<Rightarrow> Some None
      | Some (off, sz) \<Rightarrow>
          (let start = off + (unat idx - 1) * 16; stop = off + sz in
           if stop < start + 16 \<or> length b < start + 16 then Some None
           else Option.bind (slice b start (start + 16)) (\<lambda>x. Some (Some x))))"

definition compressed_uint :: "bytes \<Rightarrow> (nat \<times> nat) option" where
  "compressed_uint b =
     (case b of
        [] \<Rightarrow> None
      | first # rest \<Rightarrow>
          if first AND 0x80 = 0 then Some (unat first, 1)
          else if first AND 0xc0 = 0x80 then
            (case rest of
               [] \<Rightarrow> None
             | second # _ \<Rightarrow> Some (unat (first AND 0x3f) * 256 + unat second, 2))
          else if first AND 0xe0 = 0xc0 then
            (case rest of
               r0 # r1 # r2 # _ \<Rightarrow>
                 Some (unat (first AND 0x1f) * 2 ^ 24 + unat r0 * 2 ^ 16 + unat r1 * 256 + unat r2, 4)
             | _ \<Rightarrow> None)
          else None)"

definition read_blob :: "bytes \<Rightarrow> streams \<Rightarrow> u32 \<Rightarrow> bytes option option" where
  "read_blob b s idx =
     (if idx = 0 then Some (Some [])
      else case s_blob s of
        None \<Rightarrow> Some None
      | Some (off, sz) \<Rightarrow>
          (let start = off + unat idx; stop = off + sz in
           if stop \<le> start \<or> length b < stop then Some None
           else
             Option.bind (slice b start stop) (\<lambda>r.
               case compressed_uint r of
                 None \<Rightarrow> Some None
               | Some (len, consumed) \<Rightarrow>
                   (let body = start + consumed in
                    if stop < body + len \<or> length b < body + len then Some None
                    else Option.bind (slice b body (body + len)) (\<lambda>x. Some (Some x))))))"

definition public_key_token :: "(bytes \<Rightarrow> bytes) \<Rightarrow> bytes \<Rightarrow> string option option" where
  "public_key_token sha1 key =
     (if key = [] then Some None
      else
        (let digest = sha1 key in
         Option.bind (usize_sub True (length digest) 8) (\<lambda>i.
         Option.bind (slice digest i (length digest)) (\<lambda>tail. Some (Some (hex_encode (rev tail)))))))"

section \<open>Metadata\<close>

fun read_rows :: "bytes \<Rightarrow> u64 \<Rightarrow> nat list \<Rightarrow> nat \<Rightarrow> u32 list \<Rightarrow> (u32 list, cli_error) result" where
  "read_rows b valid [] p rows = Ok rows"
| "read_rows b valid (t # ts) p rows =
     (if bit valid t then
        (case u32_at b p of
           Err e \<Rightarrow> Err e
         | Ok n \<Rightarrow> read_rows b valid ts (p + 4) (rows[t := n]))
      else read_rows b valid ts p rows)"

definition read_tables_header :: "bytes \<Rightarrow> nat \<Rightarrow> (u8 \<times> u64 \<times> u32 list, cli_error) result option" where
  "read_tables_header b off =
     (if length b < off + 24 then Some (Err (Malformed TablesTruncated))
      else
        no_fail (byte_at b (off + 6)) (\<lambda>heap_sizes.
        try_ok (u64_at b (off + 8)) (\<lambda>valid.
        try_ok (read_rows b valid [0..<64] (off + 24) (replicate 64 0)) (\<lambda>rows.
          Some (Ok (heap_sizes, valid, rows))))))"

definition align4 :: "nat \<Rightarrow> nat" where
  "align4 p = (p + 3) div 4 * 4"

definition set_stream :: "string \<Rightarrow> nat \<times> nat \<Rightarrow> streams \<Rightarrow> streams" where
  "set_stream name span s =
     (if name = ''#~'' \<or> name = ''#-'' then s\<lparr>s_tables := Some span\<rparr>
      else if name = ''#Strings'' then s\<lparr>s_strings := Some span\<rparr>
      else if name = ''#GUID'' then s\<lparr>s_guid := Some span\<rparr>
      else if name = ''#Blob'' then s\<lparr>s_blob := Some span\<rparr>
      else s)"

text \<open>The stream headers from \<open>p\<close> on; \<open>off\<close> is the metadata root.\<close>

fun read_streams :: "bytes \<Rightarrow> nat \<Rightarrow> nat \<Rightarrow> nat \<Rightarrow> streams \<Rightarrow> (streams, cli_error) result option" where
  "read_streams b off 0 p s = Some (Ok s)"
| "read_streams b off (Suc n) p s =
     try_ok (u32_at b p) (\<lambda>s_off.
     try_ok (u32_at b (p + 4)) (\<lambda>s_size.
     let name_start = p + 8 in
     case Option.bind (slice b name_start (length b)) (position (\<lambda>c. c = 0)) of
       None \<Rightarrow> Some (Err (Malformed StreamUnterminated))
     | Some i \<Rightarrow>
         no_fail (slice b name_start (name_start + i)) (\<lambda>raw.
         if \<not> utf8_valid raw then Some (Err (Malformed StreamNotUtf8))
         else
           let name = to_str raw; abs = off + unat s_off in
           if length b < abs + unat s_size then Some (Err (Malformed (StreamOutside name)))
           else read_streams b off n (align4 (name_start + i + 1)) (set_stream name (abs, unat s_size) s))))"

text \<open>The walk that finds where each table starts.\<close>

fun walk_tables :: "bytes \<Rightarrow> ctx \<Rightarrow> u64 \<Rightarrow> nat list \<Rightarrow> nat \<Rightarrow> nat list \<Rightarrow> (nat list, cli_error) result" where
  "walk_tables b c valid [] cursor offsets = Ok offsets"
| "walk_tables b c valid (t # ts) cursor offsets =
     (if \<not> bit valid t then walk_tables b c valid ts cursor offsets
      else case row_size t c of
        Err e \<Rightarrow> Err e
      | Ok rs \<Rightarrow>
          (let next = cursor + rs * unat (ctx_rows c ! t) in
           if 2 ^ 64 \<le> next then Err (Malformed WalkOverflow)
           else if length b < next then Err (Malformed (TableOutside t))
           else walk_tables b c valid ts next (offsets[t := cursor])))"

definition show_version :: "u16 \<Rightarrow> u16 \<Rightarrow> u16 \<Rightarrow> u16 \<Rightarrow> string" where
  "show_version a b c d =
     show_nat (unat a) @ ''.'' @ show_nat (unat b) @ ''.'' @ show_nat (unat c) @ ''.'' @ show_nat (unat d)"

definition or_empty :: "string option \<Rightarrow> string" where
  "or_empty s = (case s of None \<Rightarrow> [] | Some x \<Rightarrow> x)"

definition non_empty :: "string option \<Rightarrow> string option" where
  "non_empty s = (case s of None \<Rightarrow> None | Some x \<Rightarrow> if x = [] then None else Some x)"

text \<open>The row of the module: its name and its version id.\<close>

definition read_module :: "bytes \<Rightarrow> streams \<Rightarrow> ctx \<Rightarrow> nat \<Rightarrow> (string option \<times> bytes option, cli_error) result option" where
  "read_module b s c off =
     try_ok (c_u16 b off) (\<lambda>(_, p1).
     try_ok (c_idx b (str_idx c) p1) (\<lambda>(name_idx, p2).
     try_ok (c_idx b (guid_idx c) p2) (\<lambda>(mvid_idx, _).
     no_fail (read_string b s name_idx) (\<lambda>name.
     no_fail (read_guid b s mvid_idx) (\<lambda>guid. Some (Ok (name, guid)))))))"

definition read_assembly_row ::
  "(bytes \<Rightarrow> bytes) \<Rightarrow> bytes \<Rightarrow> streams \<Rightarrow> ctx \<Rightarrow> nat \<Rightarrow> (assembly_identity, cli_error) result option" where
  "read_assembly_row sha1 b s c off =
     try_ok (c_u32 b off) (\<lambda>(_, p1).
     try_ok (c_u16 b p1) (\<lambda>(major, p2).
     try_ok (c_u16 b p2) (\<lambda>(minor, p3).
     try_ok (c_u16 b p3) (\<lambda>(build, p4).
     try_ok (c_u16 b p4) (\<lambda>(revision, p5).
     try_ok (c_u32 b p5) (\<lambda>(flags, p6).
     try_ok (c_idx b (blob_idx c) p6) (\<lambda>(pk_idx, p7).
     try_ok (c_idx b (str_idx c) p7) (\<lambda>(name_idx, p8).
     try_ok (c_idx b (str_idx c) p8) (\<lambda>(culture_idx, _).
     no_fail (read_blob b s pk_idx) (\<lambda>pk.
     no_fail (read_string b s name_idx) (\<lambda>name.
     no_fail (read_string b s culture_idx) (\<lambda>culture.
     no_fail (case pk of None \<Rightarrow> Some None | Some k \<Rightarrow> public_key_token sha1 k) (\<lambda>token.
       Some (Ok \<lparr>ai_name = or_empty name, ai_version = show_version major minor build revision,
                 ai_culture = non_empty culture, ai_flags = flags, ai_token = token,
                 ai_has_key = (case pk of None \<Rightarrow> False | Some k \<Rightarrow> k \<noteq> [])\<rparr>))))))))))))))"

definition read_ref_row ::
  "(bytes \<Rightarrow> bytes) \<Rightarrow> bytes \<Rightarrow> streams \<Rightarrow> ctx \<Rightarrow> nat \<Rightarrow> (assembly_ref, cli_error) result option" where
  "read_ref_row sha1 b s c off =
     try_ok (c_u16 b off) (\<lambda>(major, p2).
     try_ok (c_u16 b p2) (\<lambda>(minor, p3).
     try_ok (c_u16 b p3) (\<lambda>(build, p4).
     try_ok (c_u16 b p4) (\<lambda>(revision, p5).
     try_ok (c_u32 b p5) (\<lambda>(flags, p6).
     try_ok (c_idx b (blob_idx c) p6) (\<lambda>(tok_idx, p7).
     try_ok (c_idx b (str_idx c) p7) (\<lambda>(name_idx, p8).
     try_ok (c_idx b (str_idx c) p8) (\<lambda>(culture_idx, _).
     no_fail (read_blob b s tok_idx) (\<lambda>blob.
     let raw = (case blob of None \<Rightarrow> [] | Some r \<Rightarrow> r); full_key = (flags AND 1 \<noteq> 0) in
     no_fail (read_string b s name_idx) (\<lambda>name.
     no_fail (read_string b s culture_idx) (\<lambda>culture.
     no_fail (if raw = [] then Some None
              else if full_key then public_key_token sha1 raw
              else Some (Some (hex_encode raw))) (\<lambda>token.
       Some (Ok \<lparr>ar_name = or_empty name, ar_version = show_version major minor build revision,
                 ar_culture = non_empty culture, ar_token = token, ar_full_key = full_key\<rparr>)))))))))))))"

text \<open>A loop over row numbers; a round that ends with \<open>continue\<close> adds nothing.\<close>

fun for_rows :: "(nat \<Rightarrow> ('a list, 'e) result option) \<Rightarrow> nat list \<Rightarrow> ('a list, 'e) result option" where
  "for_rows f [] = Some (Ok [])"
| "for_rows f (i # is) = and_then (f i) (\<lambda>x. and_then (for_rows f is) (\<lambda>xs. Some (Ok (x @ xs))))"

text \<open>
  The attribute type named by the custom attribute row at \<open>off\<close>. \<open>checked\<close> says whether the build checks
  arithmetic: both row numbers are taken as \<open>index - 1\<close> without a test for zero.
\<close>

definition attribute_type ::
  "bool \<Rightarrow> bytes \<Rightarrow> streams \<Rightarrow> ctx \<Rightarrow> nat list \<Rightarrow> nat \<Rightarrow> nat \<Rightarrow> nat \<Rightarrow> (string list, cli_error) result option" where
  "attribute_type checked b s c offsets mr_size tr_size off =
     try_ok (c_skip b (coded c 5 HAS_CUSTOM_ATTRIBUTE) off) (\<lambda>p1.
     try_ok (c_idx b (coded c 3 [0, 0, 0x06, 0x0a, 0]) p1) (\<lambda>(ty, _).
     if ty AND 7 \<noteq> 3 then Some (Ok [])
     else
       no_fail (usize_sub checked (unat (drop_bit 3 ty)) 1) (\<lambda>mr_row.
       if unat (ctx_rows c ! 0x0a) \<le> mr_row then Some (Ok [])
       else
         try_ok (c_idx b (coded c 3 [0x02, 0x01, 0x1a, 0x06, 0x1b]) (offsets ! 0x0a + mr_row * mr_size)) (\<lambda>(cls, _).
         if cls AND 7 \<noteq> 1 then Some (Ok [])
         else
           no_fail (usize_sub checked (unat (drop_bit 3 cls)) 1) (\<lambda>tr_row.
           if unat (ctx_rows c ! 0x01) \<le> tr_row then Some (Ok [])
           else
             try_ok (c_skip b (coded c 2 [0x00, 0x1a, 0x23, 0x01]) (offsets ! 0x01 + tr_row * tr_size)) (\<lambda>q1.
             try_ok (c_idx b (str_idx c) q1) (\<lambda>(n, q2).
             try_ok (c_idx b (str_idx c) q2) (\<lambda>(ns, _).
             no_fail (read_string b s n) (\<lambda>name.
             no_fail (read_string b s ns) (\<lambda>space.
               if or_empty name = [] then Some (Ok [])
               else if or_empty space = [] then Some (Ok [or_empty name])
               else Some (Ok [or_empty space @ ''.'' @ or_empty name]))))))))))) "

definition attribute_types ::
  "bool \<Rightarrow> bytes \<Rightarrow> streams \<Rightarrow> ctx \<Rightarrow> nat list \<Rightarrow> (string list, cli_error) result option" where
  "attribute_types checked b s c offsets =
     (if ctx_rows c ! 0x0c = 0 \<or> ctx_rows c ! 0x01 = 0 then Some (Ok [])
      else
        try_ok (row_size 0x0c c) (\<lambda>ca_size.
        try_ok (row_size 0x0a c) (\<lambda>mr_size.
        try_ok (row_size 0x01 c) (\<lambda>tr_size.
        and_then
          (for_rows (\<lambda>i. attribute_type checked b s c offsets mr_size tr_size (offsets ! 0x0c + i * ca_size))
             [0..<unat (ctx_rows c ! 0x0c)])
          (\<lambda>seen. Some (Ok (sort (remdups seen))))))))"

definition join_ns_name :: "string option \<Rightarrow> string option \<Rightarrow> string option" where
  "join_ns_name ns name =
     (case non_empty name of
        None \<Rightarrow> None
      | Some n \<Rightarrow> (case non_empty ns of Some s \<Rightarrow> Some (s @ ''.'' @ n) | None \<Rightarrow> Some n))"

text \<open>The name columns at \<open>off\<close>; an error is \<open>None\<close> inside, a panic \<open>None\<close> outside.\<close>

definition name_at :: "bytes \<Rightarrow> streams \<Rightarrow> ctx \<Rightarrow> nat \<Rightarrow> string option option" where
  "name_at b s c off =
     (case c_idx b (str_idx c) off of
        Err _ \<Rightarrow> Some None
      | Ok (n, p) \<Rightarrow>
          (case c_idx b (str_idx c) p of
             Err _ \<Rightarrow> Some None
           | Ok (ns, _) \<Rightarrow>
               Option.bind (read_string b s ns) (\<lambda>space.
               Option.bind (read_string b s n) (\<lambda>name. Some (join_ns_name space name)))))"

definition typedef_or_ref_name ::
  "bytes \<Rightarrow> streams \<Rightarrow> nat list \<Rightarrow> ctx \<Rightarrow> u32 \<Rightarrow> string option option" where
  "typedef_or_ref_name b s offsets c code =
     (if drop_bit 2 code = 0 then Some None
      else
        let row = unat (drop_bit 2 code) - 1 in
        if code AND 3 = 0 then
          (if unat (ctx_rows c ! 0x02) \<le> row then Some None
           else case row_size 0x02 c of
             Err _ \<Rightarrow> Some None
           | Ok rs \<Rightarrow>
               (case c_u32 b (offsets ! 0x02 + row * rs) of
                  Err _ \<Rightarrow> Some None
                | Ok (_, p) \<Rightarrow> name_at b s c p))
        else if code AND 3 = 1 then
          (if unat (ctx_rows c ! 0x01) \<le> row then Some None
           else case row_size 0x01 c of
             Err _ \<Rightarrow> Some None
           | Ok rs \<Rightarrow>
               (case c_skip b (coded c 2 [0x00, 0x1a, 0x23, 0x01]) (offsets ! 0x01 + row * rs) of
                  Err _ \<Rightarrow> Some None
                | Ok p \<Rightarrow> name_at b s c p))
        else Some None)"

definition read_type ::
  "bytes \<Rightarrow> streams \<Rightarrow> nat list \<Rightarrow> ctx \<Rightarrow> nat \<Rightarrow> (type_def, cli_error) result option" where
  "read_type b s offsets c off =
     try_ok (c_u32 b off) (\<lambda>(flags, p1).
     try_ok (c_idx b (str_idx c) p1) (\<lambda>(n, p2).
     try_ok (c_idx b (str_idx c) p2) (\<lambda>(ns, p3).
     try_ok (c_idx b (coded c 2 [0x02, 0x01, 0x1b]) p3) (\<lambda>(extends, _).
     no_fail (read_string b s n) (\<lambda>name.
     no_fail (read_string b s ns) (\<lambda>space.
     no_fail (if extends = 0 then Some None else typedef_or_ref_name b s offsets c extends) (\<lambda>base.
       Some (Ok \<lparr>td_namespace = or_empty space, td_name = or_empty name, td_flags = flags, td_base = base\<rparr>))))))))"

definition read_import ::
  "bytes \<Rightarrow> streams \<Rightarrow> nat list \<Rightarrow> ctx \<Rightarrow> nat \<Rightarrow> nat \<Rightarrow> (pinvoke list, cli_error) result option" where
  "read_import b s offsets c mr_size off =
     try_ok (c_u16 b off) (\<lambda>(_, p1).
     try_ok (c_skip b (coded c 1 [0x04, 0x06]) p1) (\<lambda>p2.
     try_ok (c_idx b (str_idx c) p2) (\<lambda>(iname, p3).
     try_ok (c_idx b (simple c 0x1a) p3) (\<lambda>(scope, _).
     if scope = 0 \<or> ctx_rows c ! 0x1a < scope then Some (Ok [])
     else
       try_ok (c_idx b (str_idx c) (offsets ! 0x1a + (unat scope - 1) * mr_size)) (\<lambda>(mname, _).
       no_fail (read_string b s mname) (\<lambda>m.
       no_fail (read_string b s iname) (\<lambda>f.
         if or_empty m = [] \<or> or_empty f = [] then Some (Ok [])
         else Some (Ok [\<lparr>pi_module = or_empty m, pi_function = or_empty f\<rparr>]))))))))"

text \<open>Optional parts: a table with no rows is left out.\<close>

definition when_rows :: "ctx \<Rightarrow> nat \<Rightarrow> 'a \<Rightarrow> ('a, 'e) result option \<Rightarrow> ('a, 'e) result option" where
  "when_rows c t d r = (if ctx_rows c ! t = 0 then Some (Ok d) else r)"

definition each_row :: "ctx \<Rightarrow> nat \<Rightarrow> nat list \<Rightarrow> (nat \<Rightarrow> ('a list, cli_error) result option) \<Rightarrow> ('a list, cli_error) result option" where
  "each_row c t offsets f =
     try_ok (row_size t c) (\<lambda>size.
       for_rows (\<lambda>i. f (offsets ! t + i * size)) [0..<unat (ctx_rows c ! t)])"

definition one :: "('a, 'e) result option \<Rightarrow> ('a list, 'e) result option" where
  "one r = and_then r (\<lambda>x. Some (Ok [x]))"

text \<open>The part of \<open>read_metadata\<close> that reads the tables once they are located.\<close>

definition read_image ::
  "(bytes \<Rightarrow> bytes) \<Rightarrow> bool \<Rightarrow> bytes \<Rightarrow> streams \<Rightarrow> ctx \<Rightarrow> nat list \<Rightarrow> string \<Rightarrow> u32 \<Rightarrow> u32 \<Rightarrow>
     (cli_image, cli_error) result option" where
  "read_image sha1 checked b s c offsets version flags entry =
     and_then (when_rows c 0x00 (None, None) (read_module b s c (offsets ! 0x00))) (\<lambda>(name, guid).
     and_then (when_rows c 0x20 [] (one (read_assembly_row sha1 b s c (offsets ! 0x20)))) (\<lambda>asm.
     and_then (when_rows c 0x23 [] (each_row c 0x23 offsets (\<lambda>off. one (read_ref_row sha1 b s c off)))) (\<lambda>refs.
     and_then (attribute_types checked b s c offsets) (\<lambda>attrs.
     and_then (when_rows c 0x02 [] (each_row c 0x02 offsets (\<lambda>off. one (read_type b s offsets c off)))) (\<lambda>tys.
     and_then (when_rows c 0x1c [] (when_rows c 0x1a []
        (try_ok (row_size 0x1a c) (\<lambda>mr_size.
           each_row c 0x1c offsets (\<lambda>off. read_import b s offsets c mr_size off))))) (\<lambda>imports.
       Some (Ok \<lparr>runtime_version = version, clr_flags = flags, entry_point_token = entry, mod_name = name,
                 mvid = guid, assembly = (case asm of [] \<Rightarrow> None | a # _ \<Rightarrow> Some a), references = refs,
                 table_rows = ctx_rows c, custom_attribute_types = attrs, types = tys, pinvokes = imports\<rparr>)))))))"

definition no_streams :: streams where
  "no_streams = \<lparr>s_tables = None, s_strings = None, s_guid = None, s_blob = None, heap_sizes = 0\<rparr>"

definition read_metadata ::
  "(bytes \<Rightarrow> bytes) \<Rightarrow> bool \<Rightarrow> bytes \<Rightarrow> nat \<Rightarrow> u32 \<Rightarrow> u32 \<Rightarrow> (cli_image, cli_error) result option" where
  "read_metadata sha1 checked b off flags entry =
     (if length b < off + 16 then Some (Err (Malformed RootTruncated))
      else
        try_ok (u32_at b off) (\<lambda>sig.
        if sig \<noteq> 0x424a5342 then Some (Err (Malformed BadSignature))
        else
          try_ok (u32_at b (off + 12)) (\<lambda>len.
          let ver_len = unat len in
          if ver_len = 0 \<or> 256 < ver_len then Some (Err (Malformed (VersionLength ver_len)))
          else case slice b (off + 16) (off + 16 + ver_len) of
            None \<Rightarrow> Some (Err (Malformed VersionTruncated))
          | Some ver_bytes \<Rightarrow>
              (let ver_end = (case position (\<lambda>c. c = 0) ver_bytes of None \<Rightarrow> length ver_bytes | Some i \<Rightarrow> i) in
               no_fail (slice ver_bytes 0 ver_end) (\<lambda>ver.
               let p = align4 (off + 16 + ver_len) in
               try_ok (u16_at b (p + 2)) (\<lambda>stream_count.
               and_then (read_streams b off (unat stream_count) (p + 4) no_streams) (\<lambda>s0.
               case s_tables s0 of
                 None \<Rightarrow> Some (Err (Malformed NoTables))
               | Some (t_off, _) \<Rightarrow>
                   and_then (read_tables_header b t_off) (\<lambda>(sizes, valid, rows).
                   let s = s0\<lparr>heap_sizes := sizes\<rparr>;
                       c = \<lparr>strings_big = (sizes AND 1 \<noteq> 0), guid_big = (sizes AND 2 \<noteq> 0),
                            blob_big = (sizes AND 4 \<noteq> 0), ctx_rows = rows\<rparr> in
                   try_ok (walk_tables b c valid [0..<64] (t_off + 24 + length (filter (bit valid) [0..<64]) * 4)
                             (replicate 64 0)) (\<lambda>offsets.
                     read_image sha1 checked b s c offsets (lossy ver) flags entry))))))))) "

definition read_assembly :: "(bytes \<Rightarrow> bytes) \<Rightarrow> bool \<Rightarrow> bytes \<Rightarrow> (cli_image, cli_error) result option" where
  "read_assembly sha1 checked b =
     and_then (read_pe_headers b) (\<lambda>pe.
     try_ok (rva_to_offset b pe (cli_rva pe)) (\<lambda>cli_off.
     and_then (read_cli_header b cli_off) (\<lambda>cli.
     try_ok (rva_to_offset b pe (metadata_rva cli)) (\<lambda>md_off.
       read_metadata sha1 checked b md_off (ch_flags cli) (ch_entry_point cli)))))"

section \<open>No input makes the reader panic\<close>

text \<open>One rule per combinator; the operations that may panic are added to the collection below.\<close>

named_theorems no_panic "a computation that returns a result"

lemma np_and_then [no_panic]:
  "r \<noteq> None \<Longrightarrow> (\<And>x. r = Some (Ok x) \<Longrightarrow> f x \<noteq> None) \<Longrightarrow> and_then r f \<noteq> None"
  by (auto simp: and_then_None)

lemma np_bind [no_panic]: "p \<noteq> None \<Longrightarrow> (\<And>x. p = Some x \<Longrightarrow> f x \<noteq> None) \<Longrightarrow> Option.bind p f \<noteq> None"
  by (cases p) auto

lemma np_Some [no_panic]: "Some x \<noteq> None"
  by simp

lemma np_if [no_panic]: "(c \<Longrightarrow> x \<noteq> None) \<Longrightarrow> (\<not> c \<Longrightarrow> y \<noteq> None) \<Longrightarrow> (if c then x else y) \<noteq> None"
  by simp

lemma np_prod [no_panic]: "(\<And>a b. x = (a, b) \<Longrightarrow> f a b \<noteq> None) \<Longrightarrow> (case x of (a, b) \<Rightarrow> f a b) \<noteq> None"
  by (cases x) simp

lemma np_option [no_panic]:
  "(x = None \<Longrightarrow> f \<noteq> None) \<Longrightarrow> (\<And>y. x = Some y \<Longrightarrow> g y \<noteq> None) \<Longrightarrow> (case x of None \<Rightarrow> f | Some y \<Rightarrow> g y) \<noteq> None"
  by (cases x) simp_all

lemma np_sum [no_panic]:
  "(\<And>e. x = Inl e \<Longrightarrow> f e \<noteq> None) \<Longrightarrow> (\<And>y. x = Inr y \<Longrightarrow> g y \<noteq> None) \<Longrightarrow> (case x of Inl e \<Rightarrow> f e | Inr y \<Rightarrow> g y) \<noteq> None"
  by (cases x) simp_all

lemma slice_iff: "slice b i j \<noteq> None \<longleftrightarrow> i \<le> j \<and> j \<le> length b"
  by (simp add: slice_def)

lemma slice_length: "slice b i j = Some r \<Longrightarrow> length r = j - i \<and> i \<le> j \<and> j \<le> length b"
  by (auto simp: slice_def split: if_splits)

lemma byte_at_iff: "byte_at b i \<noteq> None \<longleftrightarrow> i < length b"
  by (simp add: byte_at_def)

lemma position_bound: "position P xs = Some n \<Longrightarrow> n < length xs"
  by (drule position_Some) auto

lemma np_read_string [no_panic]: "read_string b s i \<noteq> None"
  unfolding read_string_def Let_def
  by (intro no_panic) (auto simp: slice_iff simp del: not_None_eq dest!: slice_length position_bound)

lemma np_read_guid [no_panic]: "read_guid b s i \<noteq> None"
  unfolding read_guid_def Let_def by (intro no_panic) (auto simp: slice_iff simp del: not_None_eq)

lemma np_read_blob [no_panic]: "read_blob b s i \<noteq> None"
  unfolding read_blob_def Let_def by (intro no_panic) (auto simp: slice_iff simp del: not_None_eq)

lemma np_token [no_panic]: "(\<And>k. length (sha1 k) = 20) \<Longrightarrow> public_key_token sha1 k \<noteq> None"
  unfolding public_key_token_def Let_def by (auto simp: usize_sub_def slice_def)

lemma np_sub [no_panic]: "usize_sub False a b \<noteq> None"
  by (simp add: usize_sub_def)

lemma np_sections [no_panic]: "read_sections b sec_off n i \<noteq> None"
  by (induction n arbitrary: i) (auto simp: Let_def and_then_None simp del: not_None_eq)

lemma np_pe_headers [no_panic]: "read_pe_headers b \<noteq> None"
  unfolding read_pe_headers_def Let_def
  by (intro no_panic) (auto simp: byte_at_iff simp del: not_None_eq)

lemma np_cli_header [no_panic]: "read_cli_header b off \<noteq> None"
  unfolding read_cli_header_def by (intro no_panic)

lemma np_tables_header [no_panic]: "read_tables_header b off \<noteq> None"
  unfolding read_tables_header_def by (intro no_panic) (auto simp: byte_at_iff simp del: not_None_eq)

lemma np_streams [no_panic]: "read_streams b off n p s \<noteq> None"
proof (induction n arbitrary: p s)
  case (Suc n)
  show ?case
    unfolding read_streams.simps Let_def
    by (intro no_panic Suc.IH)
      (auto simp: slice_iff simp del: not_None_eq dest!: slice_length position_bound split: Option.bind_splits)
qed simp

lemma np_for_rows [no_panic]: "(\<And>i. f i \<noteq> None) \<Longrightarrow> for_rows f is \<noteq> None"
  by (induction "is") (auto simp: and_then_None simp del: not_None_eq)

lemma np_one [no_panic]: "r \<noteq> None \<Longrightarrow> one r \<noteq> None"
  unfolding one_def by (intro no_panic)

lemma np_when [no_panic]: "r \<noteq> None \<Longrightarrow> when_rows c t d r \<noteq> None"
  unfolding when_rows_def by (intro no_panic)

lemma np_each_row [no_panic]: "(\<And>off. f off \<noteq> None) \<Longrightarrow> each_row c t offsets f \<noteq> None"
  unfolding each_row_def by (intro no_panic)

lemma np_name_at [no_panic]: "name_at b s c off \<noteq> None"
  unfolding name_at_def by (intro no_panic)

lemma np_type_name [no_panic]: "typedef_or_ref_name b s offsets c code \<noteq> None"
  unfolding typedef_or_ref_name_def Let_def by (intro no_panic)

lemma np_attribute_types [no_panic]: "attribute_types False b s c offsets \<noteq> None"
  unfolding attribute_types_def attribute_type_def by (intro no_panic)

lemma np_image:
  assumes sha1: "\<And>k. length (sha1 k) = 20"
  shows "read_image sha1 False b s c offsets version flags entry \<noteq> None"
  unfolding read_image_def read_module_def read_assembly_row_def read_ref_row_def read_type_def read_import_def Let_def
  by (intro no_panic sha1)

lemma np_metadata:
  assumes sha1: "\<And>k. length (sha1 k) = 20"
  shows "read_metadata sha1 False b off flags entry \<noteq> None"
  unfolding read_metadata_def Let_def
  by (intro no_panic np_image sha1) (auto simp: slice_iff simp del: not_None_eq dest: position_bound split: option.splits)

lemma np_assembly: "(\<And>k. length (sha1 k) = 20) \<Longrightarrow> read_assembly sha1 False b \<noteq> None"
  unfolding read_assembly_def by (intro no_panic np_metadata)

section \<open>The rows of an accepted image are in the file\<close>

lemma walk_tables_inside:
  "walk_tables b c valid ts cursor offsets = Ok offsets' \<Longrightarrow> t \<in> set ts \<Longrightarrow> bit valid t \<Longrightarrow>
     \<exists>rs. row_size t c = Ok rs \<and> rs * unat (ctx_rows c ! t) \<le> length b"
proof (induction ts arbitrary: cursor offsets)
  case (Cons t' ts)
  show ?case
  proof (cases "t = t'")
    case True
    then show ?thesis using Cons.prems by (auto simp: Let_def split: sum.splits if_splits)
  next
    case False
    then show ?thesis using Cons by (auto simp: Let_def split: sum.splits if_splits)
  qed
qed simp

lemma read_rows_absent:
  "read_rows b valid ts p rows = Ok rows' \<Longrightarrow> length rows' = length rows \<and> (\<forall>t. \<not> bit valid t \<longrightarrow> rows' ! t = rows ! t)"
proof (induction ts arbitrary: p rows)
  case (Cons t ts)
  obtain p1 rows1 where rest: "read_rows b valid ts p1 rows1 = Ok rows'"
    and same: "rows1 = rows \<or> bit valid t \<and> (\<exists>n. rows1 = rows[t := n])"
    using Cons.prems by (auto split: sum.splits if_splits)
  then have "length rows1 = length rows" "\<not> bit valid t' \<Longrightarrow> rows1 ! t' = rows ! t'" for t'
    by (metis length_list_update) (metis same nth_list_update_neq)
  then show ?case using Cons.IH [OF rest] by simp
qed simp

lemma tables_header_absent:
  assumes "read_tables_header b off = Some (Ok (sizes, valid, rows))"
  shows "length rows = 64 \<and> (\<forall>t < 64. \<not> bit valid t \<longrightarrow> rows ! t = 0)"
proof -
  have "\<exists>n. read_rows b valid [0..<64] (off + 24) (replicate 64 0) = Ok rows"
    using assms by (auto simp: read_tables_header_def and_then_Ok Option.bind_eq_Some_conv split: if_splits)
  then show ?thesis using read_rows_absent [of b valid "[0..<64]" "off + 24" "replicate 64 0" rows] by auto
qed

lemma for_rows_one:
  "for_rows (\<lambda>i. one (f i)) is = Some (Ok xs) \<Longrightarrow> length xs = length is"
  by (induction "is" arbitrary: xs) (auto simp: and_then_Ok one_def)

lemma rows_read:
  "when_rows c t [] (each_row c t offsets (\<lambda>off. one (f off))) = Some (Ok xs) \<Longrightarrow> length xs = unat (ctx_rows c ! t)"
  by (auto simp: when_rows_def each_row_def and_then_Ok split: if_splits dest: for_rows_one)

lemma read_image_rows:
  assumes "read_image sha1 checked b s c offsets version flags entry = Some (Ok img)"
  shows "table_rows img = ctx_rows c \<and> length (types img) = unat (ctx_rows c ! 0x02) \<and>
    length (references img) = unat (ctx_rows c ! 0x23)"
  using assms by (auto simp: read_image_def and_then_Ok dest!: rows_read)

lemma idx_width: "2 \<le> str_idx c" "2 \<le> blob_idx c" "2 \<le> simple c t" "2 \<le> coded c n ts"
  by (simp_all add: str_idx_def blob_idx_def simple_def coded_def Let_def)

lemma row_size_lower:
  "row_size 0x02 c = Ok rs \<Longrightarrow> 14 \<le> rs"
  "row_size 0x23 c = Ok rs \<Longrightarrow> 20 \<le> rs"
  using idx_width(1,2) [of c] idx_width(3) [of c 4] idx_width(3) [of c 6] idx_width(4) [of c 2 "[0x02, 0x01, 0x1b]"]
  by (auto simp: row_size_def row_sizes_def Let_def split: if_splits)

lemma table_bounded:
  assumes "walk_tables b c valid [0..<64] cursor offsets = Ok offsets'" "t < 64"
    "\<not> bit valid t \<longrightarrow> ctx_rows c ! t = 0" "\<And>rs. row_size t c = Ok rs \<Longrightarrow> m \<le> rs"
  shows "m * unat (ctx_rows c ! t) \<le> length b"
proof (cases "bit valid t")
  case True
  then obtain rs where "row_size t c = Ok rs" "rs * unat (ctx_rows c ! t) \<le> length b"
    using walk_tables_inside [OF assms(1)] assms(2) by auto
  then show ?thesis using assms(4) [of rs] by (meson le_trans mult_le_mono1)
qed (use assms(3) in simp)

lemma read_metadata_rows:
  assumes "read_metadata sha1 checked b off flags entry = Some (Ok img)"
  shows "length (table_rows img) = 64 \<and> length (types img) = unat (table_rows img ! 0x02) \<and>
    length (references img) = unat (table_rows img ! 0x23) \<and>
    14 * length (types img) \<le> length b \<and> 20 * length (references img) \<le> length b"
proof -
  obtain t_off sizes valid rows c s ver offsets cursor where
    h: "read_tables_header b t_off = Some (Ok (sizes, valid, rows))"
    and w: "walk_tables b c valid [0..<64] cursor (replicate 64 0) = Ok offsets"
    and i: "read_image sha1 checked b s c offsets ver flags entry = Some (Ok img)"
    and c: "ctx_rows c = rows"
    using assms unfolding read_metadata_def Let_def
    by (clarsimp simp: and_then_Ok Option.bind_eq_Some_conv split: if_splits option.splits)
  note rows = tables_header_absent [OF h] and img = read_image_rows [OF i]
  have "14 * unat (ctx_rows c ! 0x02) \<le> length b" "20 * unat (ctx_rows c ! 0x23) \<le> length b"
    using rows c by (auto intro!: table_bounded [OF w] row_size_lower)
  then show ?thesis using img rows c by simp
qed

text \<open>
  C3. The reader of .NET assemblies answers every byte string with an image or an error: in a build
  without overflow checks no index, range or subtraction panics. An image has 64 row counts, lists
  every row of the type and reference tables, and its lists are bounded by the size of the file. The
  only assumption is that a SHA-1 digest has twenty bytes.
\<close>

theorem read_assembly_safe:
  assumes sha1: "\<And>k. length (sha1 k) = 20"
  shows "\<exists>r. read_assembly sha1 False b = Some r \<and>
    (\<forall>img. r = Ok img \<longrightarrow>
       length (table_rows img) = 64 \<and> length (types img) = unat (table_rows img ! 0x02) \<and>
       length (references img) = unat (table_rows img ! 0x23) \<and>
       14 * length (types img) \<le> length b \<and> 20 * length (references img) \<le> length b)"
proof -
  obtain r where r: "read_assembly sha1 False b = Some r"
    using np_assembly [of sha1 b] sha1 by auto
  moreover have "\<exists>off flags entry. read_metadata sha1 False b off flags entry = Some (Ok img)" if "r = Ok img" for img
    using r that by (auto simp: read_assembly_def and_then_Ok)
  ultimately show ?thesis using read_metadata_rows by blast
qed

theorem read_assembly_safe_witness:
  "\<exists>r. read_assembly (\<lambda>_. replicate 20 0) False (replicate 70 0x4D) = Some r \<and> r = Err NotPe"
proof -
  have sha1: "\<And>k. length ((\<lambda>_ :: bytes. replicate 20 0 :: bytes) k) = 20" by simp
  obtain r where "read_assembly (\<lambda>_. replicate 20 0) False (replicate 70 0x4D) = Some r"
    using read_assembly_safe [OF sha1, of "replicate 70 0x4D"] by blast
  moreover have "read_assembly (\<lambda>_. replicate 20 0) False (replicate 70 0x4D) = Some (Err NotPe)"
    by (simp add: read_assembly_def read_pe_headers_def byte_at_def)
  ultimately show ?thesis by simp
qed

section \<open>Blobs, text and the build with overflow checks\<close>

text \<open>A blob comes from inside its heap.\<close>

lemma read_blob_inside:
  assumes "read_blob b s i = Some (Some x)" "i \<noteq> 0"
  shows "\<exists>off sz k. s_blob s = Some (off, sz) \<and> off < k \<and> k + length x \<le> off + sz \<and> off + sz \<le> length b \<and>
    x = take (length x) (drop k b)"
proof -
  obtain off sz len used where heap: "s_blob s = Some (off, sz)" "\<not> off + sz \<le> off + unat i" "\<not> length b < off + sz"
    and body: "slice b (off + unat i + used) (off + unat i + used + len) = Some x" "\<not> off + sz < off + unat i + used + len"
  proof -
    obtain off sz where heap: "s_blob s = Some (off, sz)" using assms by (auto simp: read_blob_def split: option.splits)
    then obtain r where r: "slice b (off + unat i) (off + sz) = Some r" "\<not> off + sz \<le> off + unat i" "\<not> length b < off + sz"
      using assms by (auto simp: read_blob_def Let_def Option.bind_eq_Some_conv split: if_splits)
    then obtain len used where "compressed_uint r = Some (len, used)"
      using assms heap by (auto simp: read_blob_def Let_def split: option.splits)
    then show ?thesis
      using assms heap r that by (auto simp: read_blob_def Let_def Option.bind_eq_Some_conv split: if_splits)
  qed
  have "0 < unat i" using assms(2) by (simp add: unat_gt_0)
  moreover have "length x = len" "x = take len (drop (off + unat i + used) b)"
    using slice_length [OF body(1)] body(1) by (auto simp: slice_def split: if_splits)
  ultimately show ?thesis using heap body(2)
    by (intro exI [of _ off] exI [of _ sz] exI [of _ "off + unat i + used"]) simp
qed

text \<open>Text that is UTF-8 is kept as it is.\<close>

lemma utf8_valid_cases:
  assumes "utf8_valid (a # bs)"
  obtains "a \<le> 0x7F" "utf8_valid bs"
  | b bs1 where "bs = b # bs1" "0xC2 \<le> a" "a \<le> 0xDF" "cont b" "utf8_valid bs1"
  | b c bs2 where "bs = b # c # bs2" "0xE0 \<le> a" "a \<le> 0xEF" "second_ok a b" "cont c" "utf8_valid bs2"
  | b c d bs3 where "bs = b # c # d # bs3" "0xF0 \<le> a" "a \<le> 0xF4" "second_ok a b" "cont c" "cont d" "utf8_valid bs3"
proof (cases "a \<le> 0x7F")
  case False
  then obtain b bs1 where bs: "bs = b # bs1" using assms by (cases bs) auto
  show thesis
  proof (cases "0xC2 \<le> a \<and> a \<le> 0xDF")
    case True
    then show thesis using assms False bs that(2) by simp
  next
    case outer: False
    then obtain c bs2 where bs1: "bs1 = c # bs2" using assms False bs by (cases bs1) auto
    show thesis
    proof (cases "a = 0xE0 \<or> a = 0xED \<or> 0xE1 \<le> a \<and> a \<le> 0xEF")
      case True
      then have "0xE0 \<le> a" "a \<le> 0xEF" "a \<noteq> 0xF0" "a \<noteq> 0xF4" by (auto simp: word_le_nat_alt)
      then show thesis
        using that(3) [of b c bs2] assms False outer bs bs1 True
        by (auto simp: second_ok_def word_le_nat_alt split: if_splits)
    next
      case inner: False
      then obtain d bs3 where bs2: "bs2 = d # bs3" using assms False outer bs bs1 by (cases bs2) auto
      then have a: "a = 0xF0 \<or> a = 0xF4 \<or> 0xF1 \<le> a \<and> a \<le> 0xF3" and d: "cont c" "cont d" "utf8_valid bs3"
        using assms False outer inner bs bs1 by (auto split: if_splits)
      then have "0xF0 \<le> a" "a \<le> 0xF4" by (auto simp: word_le_nat_alt)
      moreover have "second_ok a b"
        using assms False outer inner bs bs1 bs2 a by (auto simp: second_ok_def word_le_nat_alt split: if_splits)
      ultimately show thesis using that(4) [of b c d bs3] bs bs1 bs2 d by simp
    qed
  qed
qed (use assms that(1) in simp)

lemma lossy_valid: "utf8_valid bs \<Longrightarrow> from_utf8_lossy bs = bs"
proof (induction bs rule: length_induct)
  case (1 bs)
  show ?case
  proof (cases bs)
    case (Cons a bs')
    have "utf8_valid (a # bs')" using "1.prems" Cons by simp
    then show ?thesis
    proof (cases rule: utf8_valid_cases)
      case 1
      then show ?thesis using "1.IH" Cons by simp
    next
      case (2 b bs1)
      then have "second_ok a b" "\<not> a \<le> 0x7F" "a \<le> 0xF4" by (auto simp: second_ok_def word_le_nat_alt)
      then show ?thesis using 2 "1.IH" Cons by simp
    next
      case (3 b c bs2)
      then have "\<not> a \<le> 0x7F" "0xC2 \<le> a" "a \<le> 0xF4" "\<not> a \<le> 0xDF" by (auto simp: word_le_nat_alt)
      then show ?thesis using 3 "1.IH" Cons by simp
    next
      case (4 b c d bs3)
      then have "\<not> a \<le> 0x7F" "0xC2 \<le> a" "\<not> a \<le> 0xDF" "\<not> a \<le> 0xEF" by (auto simp: word_le_nat_alt)
      then show ?thesis using 4 "1.IH" Cons by simp
    qed
  qed simp
qed

text \<open>
  In a build with overflow checks the subtraction without a test panics: here for a row whose type is
  the member reference zero.
\<close>

lemma zero_reference_panics:
  "attribute_type True [0, 0, 3, 0] no_streams
     \<lparr>strings_big = False, guid_big = False, blob_big = False, ctx_rows = replicate 64 1\<rparr> (replicate 64 0) 6 6 0 = None"
  by code_simp

end
