(* ===== verification/DotnetHost.thy ===== *)
theory DotnetHost
  imports Ecma335 FxManifest
begin

text \<open>
  The .NET resource host, \<open>crates/ald-script-dotnet/src/lib.rs\<close>: profile, trust list, the load plan over
  assembly references, the analysis of a resource and the tick pump. The loaded set is a hash map from
  names to assemblies. The depth-first search of \<open>plan_load\<close> has fuel; \<open>None\<close> is running out of it,
  which the plan never does.
\<close>

section \<open>Profile and policy\<close>

datatype clr_flavor = Mono | CoreClr

fun flavor_as_str :: "clr_flavor \<Rightarrow> string" where
  "flavor_as_str Mono = ''mono''"
| "flavor_as_str CoreClr = ''coreclr''"

fun accepts :: "clr_flavor \<Rightarrow> framework \<Rightarrow> bool" where
  "accepts Mono t = (t = NetFramework \<or> t = MonoTarget)"
| "accepts CoreClr t = (t = CoreClrTarget)"

record clr_profile =
  flavor :: clr_flavor
  disable_task_scheduler :: bool

definition profile_default :: clr_profile where
  "profile_default = \<lparr>flavor = CoreClr, disable_task_scheduler = False\<rparr>"

definition profile_from_manifest :: "'f manifest \<Rightarrow> clr_profile" where
  "profile_from_manifest m = profile_default\<lparr>disable_task_scheduler := clr_disable_task_scheduler m\<rparr>"

datatype clr_error =
    CliFailed cli_error
  | Unsigned string
  | NativeCall string nat string
  | MissingDependency string string
  | VersionDowngrade string string string string
  | Untrusted string string
  | Cycle string
  | NotResource string
  | BclMismatch string string

record loaded =
  image :: cli_image
  ld_path :: string

definition load :: "(bytes \<Rightarrow> bytes) \<Rightarrow> bool \<Rightarrow> string \<Rightarrow> bytes \<Rightarrow> (loaded, clr_error) result option" where
  "load sha1 checked p b =
     (case read_assembly sha1 checked b of
        None \<Rightarrow> None
      | Some (Inl e) \<Rightarrow> Some (Err (CliFailed e))
      | Some (Inr i) \<Rightarrow> Some (Ok \<lparr>image = i, ld_path = p\<rparr>))"

definition identity :: "loaded \<Rightarrow> assembly_identity option" where
  "identity l = assembly (image l)"

definition ld_name :: "loaded \<Rightarrow> string" where
  "ld_name l = (case identity l of None \<Rightarrow> [] | Some a \<Rightarrow> ai_name a)"

datatype resolved = Resolved string bool | Upgraded string string

type_synonym trust_list = "string list"

definition version_tuple :: "string \<Rightarrow> int list" where
  "version_tuple v =
     (let ps = take 4 (map (\<lambda>p. case parse_unsigned (2 ^ 32 - 1) p of Some n \<Rightarrow> n | None \<Rightarrow> 0) (split_on (\<lambda>c. c = CHR ''.'') v))
      in ps @ replicate (4 - length ps) 0)"

definition satisfies :: "string \<Rightarrow> string \<Rightarrow> bool" where
  "satisfies requested found \<longleftrightarrow> version_tuple requested \<le> version_tuple found"

section \<open>Load plan\<close>

record plan_state =
  visit :: "(string, nat) hmap"
  order :: "string list"
  edges :: "(string \<times> string \<times> resolved) list"

definition ARROW :: string where
  "ARROW = '' -> ''"

definition cycle_error :: "string list \<Rightarrow> string \<Rightarrow> clr_error" where
  "cycle_error ord name = Cycle (join_with ARROW (dropWhile (\<lambda>n. n \<noteq> name) ord @ [name]))"

text \<open>The checks on one reference of the assembly \<open>from\<close> and the edge they give.\<close>

definition check_reference ::
  "(string, loaded) hmap \<Rightarrow> trust_list \<Rightarrow> string \<Rightarrow> assembly_ref \<Rightarrow> (string \<times> string \<times> resolved, clr_error) result" where
  "check_reference assemblies trust frm r =
     (case hm_get assemblies (ar_name r) of
        None \<Rightarrow> Err (MissingDependency frm (ar_name r))
      | Some found \<Rightarrow>
          (let fv = (case identity found of None \<Rightarrow> [] | Some a \<Rightarrow> ai_version a) in
           if \<not> satisfies (ar_version r) fv then Err (VersionDowngrade (ar_name r) fv (ar_version r) frm)
           else if (case ar_token r of None \<Rightarrow> False | Some t \<Rightarrow> t \<notin> set trust)
           then Err (Untrusted (ar_name r) (or_empty (ar_token r)))
           else Ok (frm, ar_name r,
             if fv = ar_version r then Resolved fv (ar_token r \<noteq> None) else Upgraded (ar_version r) fv)))"

fun dfs :: "(string, loaded) hmap \<Rightarrow> trust_list \<Rightarrow> nat \<Rightarrow> string \<Rightarrow> plan_state \<Rightarrow> (plan_state, clr_error) result option"
and dfs_refs ::
  "(string, loaded) hmap \<Rightarrow> trust_list \<Rightarrow> nat \<Rightarrow> string \<Rightarrow> assembly_ref list \<Rightarrow> plan_state \<Rightarrow>
     (plan_state, clr_error) result option" where
  "dfs assemblies trust 0 name st = None"
| "dfs assemblies trust (Suc k) name st =
     (let mark = hm_get_or 0 (visit st) name in
      if mark = 2 then Some (Ok st)
      else if mark = 1 then Some (Err (cycle_error (order st) name))
      else
        let st1 = st\<lparr>visit := hm_insert name 1 (visit st)\<rparr> in
        case hm_get assemblies name of
          None \<Rightarrow> Some (Err (MissingDependency ''(root)'' name))
        | Some node \<Rightarrow>
            and_then (dfs_refs assemblies trust k (ld_name node) (references (image node)) st1) (\<lambda>st2.
              Some (Ok (st2\<lparr>visit := hm_insert name 2 (visit st2), order := order st2 @ [name]\<rparr>))))"
| "dfs_refs assemblies trust k frm [] st = Some (Ok st)"
| "dfs_refs assemblies trust k frm (r # rs) st =
     and_then (Some (check_reference assemblies trust frm r)) (\<lambda>e.
     and_then (dfs assemblies trust k (ar_name r) (st\<lparr>edges := edges st @ [e]\<rparr>)) (\<lambda>st'.
       dfs_refs assemblies trust k frm rs st'))"

record load_plan =
  plan_order :: "string list"
  plan_edges :: "(string \<times> string \<times> resolved) list"

definition plan_load :: "(string, loaded) hmap \<Rightarrow> string \<Rightarrow> trust_list \<Rightarrow> (load_plan, clr_error) result option" where
  "plan_load assemblies root trust =
     and_then (dfs assemblies trust (length assemblies + 2) root \<lparr>visit = [], order = [], edges = []\<rparr>) (\<lambda>st.
       Some (Ok \<lparr>plan_order = order st, plan_edges = edges st\<rparr>))"

section \<open>Resource analysis\<close>

record clr_policy =
  allow_native_calls :: bool
  allow_unsigned_resources :: bool
  policy_trust :: trust_list

definition CITIZENFX_ASSEMBLY :: string where
  "CITIZENFX_ASSEMBLY = ''CitizenFX.Core''"

record script_type =
  st_full_name :: string
  st_base :: string

record resource_analysis =
  ra_assembly :: assembly_identity
  ra_target :: framework
  ra_script_types :: "script_type list"
  ra_attributes :: "string list"
  ra_native_calls :: "pinvoke list"

definition analyze_resource ::
  "cli_image \<Rightarrow> clr_profile \<Rightarrow> clr_policy \<Rightarrow> (resource_analysis, clr_error) result" where
  "analyze_resource img prof pol =
     (case assembly img of
        None \<Rightarrow> Err (NotResource ''module without an Assembly identity'')
      | Some asm \<Rightarrow>
          if \<not> accepts (flavor prof) (target_framework img)
          then Err (BclMismatch (target_as_str (target_framework img)) (flavor_as_str (flavor prof)))
          else if \<not> (\<exists>r \<in> set (references img). ar_name r = CITIZENFX_ASSEMBLY)
          then Err (NotResource (''no reference to '' @ CITIZENFX_ASSEMBLY))
          else
            (let script_types = map (\<lambda>t. \<lparr>st_full_name = full_name t, st_base = or_empty (td_base t)\<rparr>)
                   (filter extends_base_script (types img)) in
             if script_types = []
             then Err (NotResource ''no BaseScript-derived type; nothing to start on onResourceStart'')
             else if ai_token asm = None \<and> \<not> allow_unsigned_resources pol then Err (Unsigned (ai_name asm))
             else
               case pinvokes img of
                 p # _ \<Rightarrow>
                   if \<not> allow_native_calls pol
                   then Err (NativeCall (ai_name asm) (length (pinvokes img)) (pi_module p @ ''!'' @ pi_function p))
                   else Ok \<lparr>ra_assembly = asm, ra_target = target_framework img, ra_script_types = script_types,
                     ra_attributes = filter (\<lambda>t. starts_with t ''CitizenFX'') (custom_attribute_types img),
                     ra_native_calls = pinvokes img\<rparr>
               | [] \<Rightarrow> Ok \<lparr>ra_assembly = asm, ra_target = target_framework img, ra_script_types = script_types,
                     ra_attributes = filter (\<lambda>t. starts_with t ''CitizenFX'') (custom_attribute_types img),
                     ra_native_calls = []\<rparr>))"

section \<open>Tick pump\<close>

record tick_pump =
  clock_ms :: u64
  next_tick_ms :: u64
  interval_ms :: u64
  fired :: u64

definition sat_add :: "u64 \<Rightarrow> u64 \<Rightarrow> u64" where
  "sat_add a b = (if unat a + unat b < 2 ^ 64 then a + b else -1)"

definition pump_new :: "u64 \<Rightarrow> tick_pump" where
  "pump_new interval = \<lparr>clock_ms = 0, next_tick_ms = 0, interval_ms = max interval 1, fired = 0\<rparr>"

text \<open>The loop of \<open>advance\<close>; it need not end.\<close>

partial_function (option) advance_loop :: "u64 \<Rightarrow> u64 \<Rightarrow> u64 \<Rightarrow> u64 \<Rightarrow> (u64 \<times> u64) option" where
  "advance_loop interval clock next n =
     (if next \<le> clock then advance_loop interval clock (sat_add next interval) (n + 1) else Some (next, n))"

definition advance :: "tick_pump \<Rightarrow> u64 \<Rightarrow> (tick_pump \<times> u64) option" where
  "advance t ms =
     (let clock = sat_add (clock_ms t) ms in
      case advance_loop (interval_ms t) clock (next_tick_ms t) 0 of
        None \<Rightarrow> None
      | Some (next, n) \<Rightarrow> Some (t\<lparr>clock_ms := clock, next_tick_ms := next, fired := sat_add (fired t) n\<rparr>, n))"

section \<open>The load plan is a dependency order\<close>

abbreviation mark :: "plan_state \<Rightarrow> string \<Rightarrow> nat" where
  "mark st n \<equiv> hm_get_or 0 (visit st) n"

text \<open>
  \<open>settled\<close>: every reference of \<open>n\<close> passes the checks and is among \<open>before\<close>. \<open>good_order\<close>: this holds at every
  position of a list with the names before it.
\<close>

definition settled :: "(string, loaded) hmap \<Rightarrow> trust_list \<Rightarrow> string list \<Rightarrow> string \<Rightarrow> bool" where
  "settled A trust before n \<longleftrightarrow>
     (case hm_get A n of
        None \<Rightarrow> False
      | Some node \<Rightarrow>
          \<forall>r \<in> set (references (image node)).
            ar_name r \<in> set before \<and> is_ok (check_reference A trust (ld_name node) r))"

definition good_order :: "(string, loaded) hmap \<Rightarrow> trust_list \<Rightarrow> string list \<Rightarrow> bool" where
  "good_order A trust ord \<longleftrightarrow> distinct ord \<and> (\<forall>i < length ord. settled A trust (take i ord) (ord ! i))"

definition plan_inv :: "(string, loaded) hmap \<Rightarrow> trust_list \<Rightarrow> plan_state \<Rightarrow> bool" where
  "plan_inv A trust st \<longleftrightarrow> good_order A trust (order st) \<and> set (order st) = {n. mark st n = 2}"

definition extends :: "plan_state \<Rightarrow> plan_state \<Rightarrow> bool" where
  "extends st st' \<longleftrightarrow> (\<exists>t. order st' = order st @ t) \<and> (\<forall>n. mark st' n = 1 \<longleftrightarrow> mark st n = 1)"

lemma extends_refl: "extends st st"
  by (simp add: extends_def)

lemma extends_trans: "extends a b \<Longrightarrow> extends b c \<Longrightarrow> extends a c"
  by (fastforce simp: extends_def)

lemma extends_order: "extends a b \<Longrightarrow> set (order a) \<subseteq> set (order b)"
  by (auto simp: extends_def)

lemma good_order_snoc:
  "good_order A trust (ord @ [n]) \<longleftrightarrow> good_order A trust ord \<and> n \<notin> set ord \<and> settled A trust ord n"
  by (auto simp: good_order_def nth_append less_Suc_eq all_conj_distrib)

text \<open>Putting a finished assembly on the list.\<close>

lemma plan_finish_node:
  assumes inv: "plan_inv A trust st" and new: "mark st name \<noteq> 1" "mark st name \<noteq> 2"
    and inv2: "plan_inv A trust st2" and ext: "extends (st\<lparr>visit := hm_insert name 1 (visit st)\<rparr>) st2"
    and ok: "settled A trust (order st2) name"
  shows "plan_inv A trust (st2\<lparr>visit := hm_insert name 2 (visit st2), order := order st2 @ [name]\<rparr>) \<and>
    extends st (st2\<lparr>visit := hm_insert name 2 (visit st2), order := order st2 @ [name]\<rparr>)"
proof -
  have stack: "mark st2 n = 1 \<longleftrightarrow> n = name \<or> mark st n = 1" for n
    using ext by (auto simp: extends_def hm_simps hm_get_or_def split: if_splits)
  have "mark st2 name = 1" using stack [of name] by blast
  then have "name \<notin> set (order st2)" using inv2 by (simp add: plan_inv_def)
  then have "plan_inv A trust (st2\<lparr>visit := hm_insert name 2 (visit st2), order := order st2 @ [name]\<rparr>)"
    using inv2 ok by (auto simp: plan_inv_def good_order_snoc hm_get_or_def hm_simps split: if_splits)
  moreover have "mark (st2\<lparr>visit := hm_insert name 2 (visit st2), order := order st2 @ [name]\<rparr>) n = 1 \<longleftrightarrow> mark st n = 1" for n
    using stack [of n] new by (auto simp: hm_get_or_def hm_simps split: if_splits)
  ultimately show ?thesis using ext by (auto simp: extends_def)
qed

lemma dfs_inv:
  "dfs A trust k name st = Some (Ok st') \<Longrightarrow> plan_inv A trust st \<Longrightarrow>
     plan_inv A trust st' \<and> extends st st' \<and> name \<in> set (order st')"
  "dfs_refs A trust k frm rs st = Some (Ok st') \<Longrightarrow> plan_inv A trust st \<Longrightarrow>
     plan_inv A trust st' \<and> extends st st' \<and>
     (\<forall>r \<in> set rs. ar_name r \<in> set (order st') \<and> is_ok (check_reference A trust frm r))"
proof (induction A trust k name st and A trust k frm rs st arbitrary: st' and st' rule: dfs_dfs_refs.induct)
  case (2 A trust k name st)
  let ?st1 = "st\<lparr>visit := hm_insert name 1 (visit st)\<rparr>"
  show ?case
  proof (cases "mark st name = 2")
    case True
    then show ?thesis using "2.prems" by (auto simp: plan_inv_def extends_refl)
  next
    case two: False
    then have one: "mark st name \<noteq> 1" using "2.prems"(1) by (auto simp: Let_def)
    obtain node st2 where node: "hm_get A name = Some node"
      and refs: "dfs_refs A trust k (ld_name node) (references (image node)) ?st1 = Some (Ok st2)"
      and st': "st' = st2\<lparr>visit := hm_insert name 2 (visit st2), order := order st2 @ [name]\<rparr>"
      using "2.prems"(1) two one by (auto simp: Let_def and_then_Ok split: option.splits)
    have "plan_inv A trust ?st1"
      using "2.prems"(2) two by (auto simp: plan_inv_def hm_get_or_def hm_simps split: if_splits)
    then have rest: "plan_inv A trust st2 \<and> extends ?st1 st2 \<and>
        (\<forall>r \<in> set (references (image node)). ar_name r \<in> set (order st2) \<and> is_ok (check_reference A trust (ld_name node) r))"
      using "2.IH" [OF refl two one refl node refs] by simp
    then have "settled A trust (order st2) name" by (simp add: settled_def node)
    then show ?thesis using plan_finish_node [OF "2.prems"(2) one two] rest st' by auto
  qed
next
  case (4 A trust k frm r rs st)
  obtain e st1 where e: "check_reference A trust frm r = Ok e"
    and one: "dfs A trust k (ar_name r) (st\<lparr>edges := edges st @ [e]\<rparr>) = Some (Ok st1)"
    and rest: "dfs_refs A trust k frm rs st1 = Some (Ok st')"
    using "4.prems"(1) by (auto simp: and_then_Ok)
  have same: "plan_inv A trust (st\<lparr>edges := es\<rparr>) = plan_inv A trust st" "extends (st\<lparr>edges := es\<rparr>) st'' = extends st st''" for es st''
    by (auto simp: plan_inv_def extends_def)
  have first: "plan_inv A trust st1 \<and> extends st st1 \<and> ar_name r \<in> set (order st1)"
    using "4.IH"(1) [OF one] "4.prems"(2) by (simp add: same)
  then have "plan_inv A trust st' \<and> extends st1 st' \<and>
      (\<forall>r \<in> set rs. ar_name r \<in> set (order st') \<and> is_ok (check_reference A trust frm r))"
    using "4.IH"(2) [OF rest] by blast
  then show ?case using first e extends_trans extends_order by fastforce
qed (auto simp: extends_refl)

text \<open>Marks are never taken back, and every level of the search marks one more name of the set.\<close>

definition unseen :: "(string, loaded) hmap \<Rightarrow> plan_state \<Rightarrow> string set" where
  "unseen A st = {n \<in> set (hm_keys A). mark st n \<noteq> 1 \<and> mark st n \<noteq> 2}"

lemma finite_unseen: "finite (unseen A st)"
  by (simp add: unseen_def)

lemma dfs_unseen:
  "dfs A trust k name st = Some (Ok st') \<Longrightarrow> unseen A st' \<subseteq> unseen A st"
  "dfs_refs A trust k frm rs st = Some (Ok st') \<Longrightarrow> unseen A st' \<subseteq> unseen A st"
proof (induction A trust k name st and A trust k frm rs st arbitrary: st' and st' rule: dfs_dfs_refs.induct)
  case (2 A trust k name st)
  let ?st1 = "st\<lparr>visit := hm_insert name 1 (visit st)\<rparr>"
  show ?case
  proof (cases "mark st name = 2 \<or> mark st name = 1")
    case False
    then obtain node st2 where node: "hm_get A name = Some node"
      and refs: "dfs_refs A trust k (ld_name node) (references (image node)) ?st1 = Some (Ok st2)"
      and st': "st' = st2\<lparr>visit := hm_insert name 2 (visit st2), order := order st2 @ [name]\<rparr>"
      using "2.prems"(1) by (auto simp: Let_def and_then_Ok split: option.splits)
    have "unseen A st2 \<subseteq> unseen A ?st1" using "2.IH" [OF refl _ _ refl node refs] False by auto
    moreover have "unseen A ?st1 \<subseteq> unseen A st" "unseen A st' \<subseteq> unseen A st2"
      by (auto simp: unseen_def st' hm_get_or_def hm_simps split: if_splits)
    ultimately show ?thesis by blast
  qed (use "2.prems" in \<open>auto simp: Let_def split: if_splits\<close>)
next
  case (4 A trust k frm r rs st)
  obtain e st1 where one: "dfs A trust k (ar_name r) (st\<lparr>edges := edges st @ [e]\<rparr>) = Some (Ok st1)"
    and rest: "dfs_refs A trust k frm rs st1 = Some (Ok st')"
    using "4.prems" by (auto simp: and_then_Ok)
  have same: "unseen A (st\<lparr>edges := es\<rparr>) = unseen A st" for es by (simp add: unseen_def)
  show ?case using "4.IH"(1) [OF one] "4.IH"(2) [OF rest] by (auto simp: same)
qed auto

lemma dfs_fuel:
  "card (unseen A st) < k \<Longrightarrow> dfs A trust k name st \<noteq> None"
  "card (unseen A st) < k \<Longrightarrow> dfs_refs A trust k frm rs st \<noteq> None"
proof (induction A trust k name st and A trust k frm rs st rule: dfs_dfs_refs.induct)
  case (2 A trust k name st)
  let ?st1 = "st\<lparr>visit := hm_insert name 1 (visit st)\<rparr>"
  show ?case
  proof
    assume none: "dfs A trust (Suc k) name st = None"
    then have new: "mark st name \<noteq> 2" "mark st name \<noteq> 1" by (auto simp: Let_def split: if_splits)
    with none obtain node where node: "hm_get A name = Some node"
      and refs: "dfs_refs A trust k (ld_name node) (references (image node)) ?st1 = None"
      by (auto simp: Let_def and_then_None split: option.splits)
    have "name \<in> unseen A st" "name \<notin> unseen A ?st1" "unseen A ?st1 \<subseteq> unseen A st"
      using new map_of_SomeD [OF node] by (force simp: unseen_def hm_get_or_def hm_simps split: if_splits)+
    then have "unseen A ?st1 \<subset> unseen A st" by blast
    then have "card (unseen A ?st1) < k"
      using psubset_card_mono [OF finite_unseen] "2.prems" by (meson less_Suc_eq_le less_le_trans)
    then show False using "2.IH" [OF refl new refl node] refs by simp
  qed
next
  case (4 A trust k frm r rs st)
  have same: "unseen A (st\<lparr>edges := es\<rparr>) = unseen A st" for es by (simp add: unseen_def)
  have "card (unseen A st1) < k" if "dfs A trust k (ar_name r) (st\<lparr>edges := edges st @ [e]\<rparr>) = Some (Ok st1)" for e st1
    using dfs_unseen(1) [OF that] card_mono [OF finite_unseen] "4.prems" by (simp add: same) (meson le_less_trans)
  then show ?case using "4.IH" "4.prems" by (auto simp: and_then_None same simp del: not_None_eq)
qed auto

lemma plan_load_fuel: "plan_load A root trust \<noteq> None"
proof -
  have "card (unseen A \<lparr>visit = [], order = [], edges = []\<rparr>) \<le> card (set (hm_keys A))"
    by (intro card_mono) (auto simp: unseen_def)
  also have "\<dots> < length A + 2" using card_length [of "hm_keys A"] by simp
  finally have "dfs A trust (length A + 2) root \<lparr>visit = [], order = [], edges = []\<rparr> \<noteq> None"
    by (rule dfs_fuel(1))
  then show ?thesis unfolding plan_load_def and_then_None by blast
qed

text \<open>What the checks of a reference say, and what a good order says of each of its members.\<close>

definition reference_ok :: "(string, loaded) hmap \<Rightarrow> trust_list \<Rightarrow> assembly_ref \<Rightarrow> bool" where
  "reference_ok A trust dep \<longleftrightarrow>
     (case hm_get A (ar_name dep) of
        None \<Rightarrow> False
      | Some found \<Rightarrow>
          satisfies (ar_version dep) (case identity found of None \<Rightarrow> [] | Some a \<Rightarrow> ai_version a) \<and>
          (case ar_token dep of None \<Rightarrow> True | Some t \<Rightarrow> t \<in> set trust))"

lemma check_reference_ok: "is_ok (check_reference A trust frm dep) \<longleftrightarrow> reference_ok A trust dep"
  by (auto simp: check_reference_def reference_ok_def Let_def split: option.splits)

lemma good_order_member:
  assumes "good_order A trust ord" "i < length ord"
  shows "\<exists>node. hm_get A (ord ! i) = Some node \<and>
    (\<forall>dep \<in> set (references (image node)). reference_ok A trust dep \<and> (\<exists>j < i. ord ! j = ar_name dep))"
proof -
  have "settled A trust (take i ord) (ord ! i)" using assms by (simp add: good_order_def)
  then obtain node where node: "hm_get A (ord ! i) = Some node"
    and deps: "\<forall>dep \<in> set (references (image node)). ar_name dep \<in> set (take i ord) \<and> reference_ok A trust dep"
    by (auto simp: settled_def check_reference_ok split: option.splits)
  have "\<exists>j < i. ord ! j = x" if "x \<in> set (take i ord)" for x
    using that by (auto simp: in_set_conv_nth)
  with node deps show ?thesis by blast
qed

text \<open>
  C17. The load plan of a root assembly is found or refused on every set of assemblies, cyclic ones
  included. A plan names each assembly once, ends with the root, and every reference of every
  assembly in it comes earlier, is loaded in at least the requested version and, when it carries a
  public key token, is on the trust list.
\<close>

theorem load_plan_order:
  "\<exists>r. plan_load A root trust = Some r \<and>
     (\<forall>plan. r = Ok plan \<longrightarrow>
        distinct (plan_order plan) \<and> last (plan_order plan) = root \<and>
        (\<forall>i < length (plan_order plan). \<exists>node. hm_get A (plan_order plan ! i) = Some node \<and>
           (\<forall>dep \<in> set (references (image node)).
              reference_ok A trust dep \<and> (\<exists>j < i. plan_order plan ! j = ar_name dep))))"
proof -
  obtain r where r: "plan_load A root trust = Some r" using plan_load_fuel by blast
  have "last (plan_order plan) = root \<and> good_order A trust (plan_order plan)" if plan: "r = Ok plan" for plan
  proof -
    let ?st = "\<lparr>visit = [], order = [], edges = []\<rparr>"
    obtain st where st: "dfs A trust (Suc (length A + 1)) root ?st = Some (Ok st)" "plan_order plan = order st"
      using r plan by (auto simp: plan_load_def and_then_Ok)
    moreover have "plan_inv A trust ?st" by (simp add: plan_inv_def good_order_def hm_get_or_def)
    moreover have "last (order st) = root"
      using st(1) by (auto simp: Let_def hm_get_or_def and_then_Ok split: option.splits)
    ultimately show ?thesis using dfs_inv(1) [OF st(1)] by (simp add: plan_inv_def)
  qed
  then show ?thesis using r good_order_member by (simp add: good_order_def)
qed

definition sample_assembly :: "string \<Rightarrow> string list \<Rightarrow> loaded" where
  "sample_assembly name deps =
     \<lparr>image = \<lparr>runtime_version = [], clr_flags = 0, entry_point_token = 0, mod_name = None, mvid = None,
        assembly = Some \<lparr>ai_name = name, ai_version = ''1.0.0.0'', ai_culture = None, ai_flags = 0, ai_token = None,
          ai_has_key = False\<rparr>,
        references = map (\<lambda>d. \<lparr>ar_name = d, ar_version = ''1.0.0.0'', ar_culture = None, ar_token = None,
          ar_full_key = False\<rparr>) deps,
        table_rows = replicate 64 0, custom_attribute_types = [], types = [], pinvokes = []\<rparr>, ld_path = []\<rparr>"

definition sample_set :: "(string, loaded) hmap" where
  "sample_set = [(''a'', sample_assembly ''a'' [''b'', ''c'']), (''b'', sample_assembly ''b'' [''c'']),
     (''c'', sample_assembly ''c'' [])]"

theorem load_plan_order_witness:
  "\<exists>plan. plan_load sample_set ''a'' [] = Some (Ok plan) \<and> last (plan_order plan) = ''a'' \<and> distinct (plan_order plan)"
proof -
  have "map_option is_ok (plan_load sample_set ''a'' []) = Some True" by code_simp
  moreover obtain r where r: "plan_load sample_set ''a'' [] = Some r"
      "\<forall>plan. r = Ok plan \<longrightarrow> distinct (plan_order plan) \<and> last (plan_order plan) = ''a''"
    using load_plan_order [of sample_set "''a''" "[]"] by blast
  ultimately obtain plan where "r = Ok plan" by (cases r) auto
  then show ?thesis using r by blast
qed

section \<open>Cycles, resources and ticks\<close>

text \<open>
  A cycle is reported with the repeated name alone: the list of finished assemblies never holds a
  name that is still being visited.
\<close>

lemma cycle_names_lost: "plan_inv A trust st \<Longrightarrow> mark st name = 1 \<Longrightarrow> cycle_error (order st) name = Cycle name"
proof -
  assume "plan_inv A trust st" "mark st name = 1"
  then have "name \<notin> set (order st)" by (auto simp: plan_inv_def)
  then have "dropWhile (\<lambda>n. n \<noteq> name) (order st) = []" by (auto simp: dropWhile_eq_Nil_conv)
  then show ?thesis by (simp add: cycle_error_def del: dropWhile_eq_Nil_conv)
qed

text \<open>An accepted resource passes every gate of the policy.\<close>

lemma analyze_gates:
  assumes "analyze_resource img prof pol = Ok ra"
  shows "assembly img = Some (ra_assembly ra) \<and> accepts (flavor prof) (target_framework img) \<and>
    ra_script_types ra \<noteq> [] \<and> (ai_token (ra_assembly ra) \<noteq> None \<or> allow_unsigned_resources pol) \<and>
    (pinvokes img = [] \<or> allow_native_calls pol) \<and> ra_native_calls ra = pinvokes img"
  using assms by (auto simp: analyze_resource_def Let_def split: option.splits if_splits list.splits)

text \<open>
  The tick pump: once the clock is at its maximum the next tick saturates there, and \<open>advance\<close> does not
  return.
\<close>

lemma advance_loop_stuck: "advance_loop interval (-1) nxt n = None"
proof -
  have "c \<noteq> -1" if "advance_loop i c nxt n = Some r" for i c nxt n r
    using that
    by (rule advance_loop.raw_induct [where P = "\<lambda>i c nxt n r. c \<noteq> -1", rotated]) (auto split: if_splits)
  then show ?thesis by (cases "advance_loop interval (-1) nxt n") blast+
qed

lemma advance_hangs: "advance (pump_new interval) (-1) = None"
  by (simp add: advance_def pump_new_def sat_add_def advance_loop_stuck)

text \<open>Before that it ends, and the next tick lies after the clock.\<close>

lemma unat_sat_add: "unat (sat_add a b) = min (unat a + unat b) (2 ^ 64 - 1)"
proof (cases "unat a + unat b < 2 ^ 64")
  case True
  then show ?thesis by (simp add: sat_add_def unat_plus_simple [THEN iffD1] no_olen_add_nat)
qed (simp add: sat_add_def unat_word_ariths unsigned_minus_1_eq_mask mask_eq_exp_minus_1)

lemma advance_loop_returns:
  assumes "0 < unat interval" "unat clock < 2 ^ 64 - 1"
  shows "\<exists>next' n'. advance_loop interval clock nxt n = Some (next', n') \<and> clock < next'"
proof (induction "unat clock + 1 - unat nxt" arbitrary: nxt n rule: less_induct)
  case less
  show ?case
  proof (cases "nxt \<le> clock")
    case True
    then have "unat nxt \<le> unat clock" by (simp add: word_le_nat_alt)
    then have "unat clock + 1 - unat (sat_add nxt interval) < unat clock + 1 - unat nxt"
      using assms by (simp add: unat_sat_add)
    then show ?thesis using less True by (simp add: advance_loop.simps [of _ _ nxt])
  qed (simp add: advance_loop.simps [of _ _ nxt])
qed

end
