(* ===== verification/Download.thy ===== *)
theory Download
  imports Prelude
begin

text \<open>
  The download engine (\<open>crates/ald-download\<close>): the chunk plan, reassembly with coverage per byte, the
  stall watchdog and the lane scheduler. Ticks are supplied by the caller. A \<open>usize\<close> is a natural number;
  allocation does not fail.
\<close>

section \<open>Lanes, plans and errors\<close>

datatype lane = JoinCritical | SpawnCritical | Foreground | Background | Optional

fun weight :: "lane \<Rightarrow> u64" where
  "weight JoinCritical = 8"
| "weight SpawnCritical = 4"
| "weight Foreground = 2"
| "weight Background = 1"
| "weight Optional = 1"

definition all_lanes :: "lane list" where
  "all_lanes = [JoinCritical, SpawnCritical, Foreground, Background, Optional]"

datatype download_error = BadPlan u64 u64 | OutOfBounds u64 nat u64

record chunk_plan =
  file_len :: u64
  chunk_len :: u64
  chunk_count :: u64

definition div_ceil :: "u64 \<Rightarrow> u64 \<Rightarrow> u64" where
  "div_ceil a b = (if 0 < a mod b then a div b + 1 else a div b)"

definition plan_new :: "u64 \<Rightarrow> u64 \<Rightarrow> (chunk_plan, download_error) result" where
  "plan_new flen clen =
     (if flen = 0 \<or> clen = 0 then Err (BadPlan flen clen)
      else Ok \<lparr>file_len = flen, chunk_len = clen, chunk_count = div_ceil flen clen\<rparr>)"

definition chunk_range :: "chunk_plan \<Rightarrow> u64 \<Rightarrow> (u64 \<times> u64) option" where
  "chunk_range p i =
     (if chunk_count p \<le> i then None
      else let start = i * chunk_len p in Some (start, min (start + chunk_len p) (file_len p)))"

section \<open>One download\<close>

record download =
  dl_plan :: chunk_plan
  dl_bytes :: bytes
  covered :: "bool list"
  received_bytes :: u64
  last_progress_tick :: u64

definition download_new :: "chunk_plan \<Rightarrow> u64 \<Rightarrow> download" where
  "download_new p now =
     \<lparr>dl_plan = p, dl_bytes = replicate (unat (file_len p)) 0, covered = replicate (unat (file_len p)) False,
      received_bytes = 0, last_progress_tick = now\<rparr>"

definition is_complete :: "download \<Rightarrow> bool" where
  "is_complete d \<longleftrightarrow> received_bytes d = file_len (dl_plan d)"

text \<open>The loop over the received bytes: contents, coverage and the number of fresh bytes.\<close>

fun write_bytes :: "nat \<Rightarrow> bytes \<Rightarrow> bytes \<Rightarrow> bool list \<Rightarrow> u64 \<Rightarrow> bytes \<times> bool list \<times> u64" where
  "write_bytes at [] bs cov fresh = (bs, cov, fresh)"
| "write_bytes at (b # rest) bs cov fresh =
     write_bytes (Suc at) rest (bs[at := b]) (cov[at := True]) (if cov ! at then fresh else fresh + 1)"

definition receive :: "download \<Rightarrow> u64 \<Rightarrow> bytes \<Rightarrow> u64 \<Rightarrow> download \<times> (unit, download_error) result" where
  "receive d offset payload now =
     (let refused = Err (OutOfBounds offset (length payload) (file_len (dl_plan d))) in
      if is_complete d then (d, refused)
      else if 2 ^ 64 \<le> unat offset + length payload then (d, refused)
      else if file_len (dl_plan d) < offset + of_nat (length payload) then (d, refused)
      else if payload = [] then (d, Ok ())
      else
        let (bs, cov, fresh) = write_bytes (unat offset) payload (dl_bytes d) (covered d) 0;
            d1 = d\<lparr>dl_bytes := bs, covered := cov\<rparr> in
        (if 0 < fresh then d1\<lparr>received_bytes := received_bytes d + fresh, last_progress_tick := now\<rparr> else d1, Ok ()))"

definition chunk_covered :: "download \<Rightarrow> u64 \<Rightarrow> bool" where
  "chunk_covered d i =
     (case chunk_range (dl_plan d) i of
        None \<Rightarrow> False
      | Some (s, e) \<Rightarrow> list_all (\<lambda>b. covered d ! b) [unat s ..< unat e])"

definition complete_chunks :: "download \<Rightarrow> nat" where
  "complete_chunks d = length (filter (\<lambda>i. chunk_covered d (of_nat i)) [0 ..< unat (chunk_count (dl_plan d))])"

fun missing_loop :: "nat \<Rightarrow> bool list \<Rightarrow> (u64 \<times> u64) option \<Rightarrow> (u64 \<times> u64) list" where
  "missing_loop i [] run = (case run of None \<Rightarrow> [] | Some r \<Rightarrow> [r])"
| "missing_loop i (c # cs) run =
     (if c then (case run of None \<Rightarrow> missing_loop (Suc i) cs None | Some r \<Rightarrow> r # missing_loop (Suc i) cs None)
      else missing_loop (Suc i) cs (Some (case run of None \<Rightarrow> (of_nat i, 1) | Some (s, l) \<Rightarrow> (s, l + 1))))"

definition missing_ranges :: "download \<Rightarrow> (u64 \<times> u64) list" where
  "missing_ranges d = missing_loop 0 (covered d) None"

definition assembled :: "download \<Rightarrow> bytes option" where
  "assembled d = (if is_complete d then Some (dl_bytes d) else None)"

record watchdog =
  stall_after_ticks :: u64

definition watchdog_new :: "u64 \<Rightarrow> watchdog" where
  "watchdog_new n = \<lparr>stall_after_ticks = max n 1\<rparr>"

definition is_stalled :: "watchdog \<Rightarrow> u64 \<Rightarrow> u64 \<Rightarrow> bool" where
  "is_stalled w last_tick now \<longleftrightarrow> stall_after_ticks w < sat_sub now last_tick"

section \<open>The lane scheduler\<close>

record lane_scheduler =
  queues :: "(lane, u64 list) hmap"
  pos :: nat
  remaining :: "(lane, u64) hmap"
  served :: "(lane, u64) hmap"

definition lanes_new :: lane_scheduler where
  "lanes_new = \<lparr>queues = [], pos = 0, remaining = [], served = []\<rparr>"

abbreviation lane_queue :: "lane_scheduler \<Rightarrow> lane \<Rightarrow> u64 list" where
  "lane_queue s l \<equiv> hm_get_or [] (queues s) l"

definition enqueue :: "lane_scheduler \<Rightarrow> lane \<Rightarrow> u64 \<Rightarrow> lane_scheduler" where
  "enqueue s l job = s\<lparr>queues := hm_insert l (lane_queue s l @ [job]) (queues s)\<rparr>"

definition pending :: "lane_scheduler \<Rightarrow> lane \<Rightarrow> nat" where
  "pending s l = (case hm_get (queues s) l of None \<Rightarrow> 0 | Some q \<Rightarrow> length q)"

definition total_pending :: "lane_scheduler \<Rightarrow> nat" where
  "total_pending s = sum_list (map length (hm_values (queues s)))"

definition served_of :: "lane_scheduler \<Rightarrow> lane \<Rightarrow> u64" where
  "served_of s l = hm_get_or 0 (served s) l"

text \<open>The end of a turn: the lane banks nothing and the pointer moves on.\<close>

definition next_lane :: "lane_scheduler \<Rightarrow> lane \<Rightarrow> lane_scheduler" where
  "next_lane s l = s\<lparr>remaining := hm_remove l (remaining s), pos := (pos s + 1) mod length all_lanes\<rparr>"

fun pop_loop :: "nat \<Rightarrow> lane_scheduler \<Rightarrow> lane_scheduler \<times> (lane \<times> u64) option" where
  "pop_loop 0 s = (s, None)"
| "pop_loop (Suc n) s =
     (let l = all_lanes ! (pos s mod length all_lanes) in
      if pending s l = 0 then pop_loop n (next_lane s l)
      else
        let left = hm_get_or (weight l) (remaining s) l - 1;
            job = hd (lane_queue s l);
            s1 = s\<lparr>queues := hm_insert l (tl (lane_queue s l)) (queues s)\<rparr>;
            s2 = (if pending s1 l = 0 \<or> left = 0 then next_lane s1 l
                  else s1\<lparr>remaining := hm_insert l left (remaining s1)\<rparr>) in
        (s2\<lparr>served := hm_insert l (hm_get_or 0 (served s2) l + 1) (served s2)\<rparr>, Some (l, job)))"

definition pop_next :: "lane_scheduler \<Rightarrow> lane_scheduler \<times> (lane \<times> u64) option" where
  "pop_next s =
     (if total_pending s = 0 then (s\<lparr>pos := 0, remaining := []\<rparr>, None) else pop_loop (length all_lanes) s)"

section \<open>The chunk plan\<close>

lemma unat_div_ceil:
  "b \<noteq> 0 \<Longrightarrow> unat (div_ceil a b) = (unat a + unat b - 1) div unat b"
proof -
  assume "b \<noteq> 0"
  then have b: "0 < unat b" by (simp add: unat_gt_0)
  let ?q = "unat a div unat b" and ?r = "unat a mod unat b"
  have a: "unat a = unat b * ?q + ?r" by simp
  have "?r < unat b" using b by simp
  show ?thesis
  proof (cases "?r = 0")
    case True
    then have "(unat a + unat b - 1) div unat b = ?q"
      using a b by (intro div_nat_eqI) (auto simp: algebra_simps)
    then show ?thesis using True by (simp add: div_ceil_def unat_div word_greater_zero_iff unat_mod flip: unat_eq_zero)
  next
    case False
    have "?q < unat a" if "unat b \<noteq> 1" using that b False
      by (metis One_nat_def div_less_dividend gr0I less_one mod_0 nat_neq_iff)
    moreover have "unat b \<noteq> 1" using False by auto
    ultimately have "unat (a div b + 1) = ?q + 1"
      using unsigned_less [of a, where 'a = nat] by (subst unat_Suc) (auto simp: unat_div)
    moreover have "unat b + unat b * ?q \<le> unat a + unat b - 1" "unat a + unat b - 1 < unat b + (unat b + unat b * ?q)"
      using a b False \<open>?r < unat b\<close> by linarith+
    then have "(unat a + unat b - 1) div unat b = ?q + 1"
      using b by (intro div_nat_eqI) (auto simp: algebra_simps)
    moreover have "0 < a mod b" using False by (simp add: word_less_nat_alt unat_mod)
    ultimately show ?thesis by (simp add: div_ceil_def)
  qed
qed

text \<open>
  The ranges of a plan cut the file into consecutive pieces, as long as the rounded-up length is
  below \<open>2 ^ 64\<close>.
\<close>

lemma chunk_range_exact:
  assumes "plan_new flen clen = Inr p" and "unat flen + unat clen \<le> 2 ^ 64" and "chunk_range p i = Some (s, e)"
  shows "unat s = unat i * unat clen" "unat e = min (unat s + unat clen) (unat flen)" "s < e"
proof -
  have p: "p = \<lparr>file_len = flen, chunk_len = clen, chunk_count = div_ceil flen clen\<rparr>" "clen \<noteq> 0" "flen \<noteq> 0"
    using assms(1) by (auto simp: plan_new_def split: if_splits)
  have c: "0 < unat clen" using p by (simp add: unat_gt_0)
  have "unat i < (unat flen + unat clen - 1) div unat clen" "s = i * clen" "e = min (s + clen) flen"
    using assms(3) p unat_div_ceil [of clen flen]
    by (auto simp: chunk_range_def Let_def word_less_nat_alt not_le split: if_splits)
  note s = this
  have "(unat i + 1) * unat clen \<le> unat flen + unat clen - 1"
    using s(1) c by (metis Suc_eq_plus1 Suc_leI less_eq_div_iff_mult_less_eq)
  then have le: "unat i * unat clen < unat flen" using c by simp
  then show u: "unat s = unat i * unat clen"
    using s(2) unsigned_less [of flen, where 'a = nat] by (simp add: unat_word_ariths)
  have "unat (s + clen) = unat s + unat clen \<or> unat s + unat clen = 2 ^ 64"
    using le assms(2) u by (auto simp: unat_word_ariths)
  then have sum: "unat (s + clen) = unat s + unat clen"
    using le assms(2) u by auto
  then show "unat e = min (unat s + unat clen) (unat flen)"
    using s(3) by (simp add: min_def word_le_nat_alt)
  then show "s < e" using le u c by (auto simp: word_less_nat_alt)
qed

text \<open>Beyond that length the end of a range wraps and the range is empty.\<close>

lemma chunk_range_wraps:
  "chunk_range \<lparr>file_len = - 1, chunk_len = 2 ^ 63, chunk_count = 2\<rparr> 1 = Some (2 ^ 63, 0)"
  "plan_new (- 1) (2 ^ 63) = Inr \<lparr>file_len = - 1, chunk_len = 2 ^ 63, chunk_count = 2\<rparr>"
  by code_simp+

section \<open>Reassembly\<close>

text \<open>A piece written into a list.\<close>

definition splice :: "nat \<Rightarrow> 'a list \<Rightarrow> 'a list \<Rightarrow> 'a list" where
  "splice at ys xs = take at xs @ ys @ drop (at + length ys) xs"

lemma length_splice [simp]: "at + length ys \<le> length xs \<Longrightarrow> length (splice at ys xs) = length xs"
  by (simp add: splice_def)

lemma nth_splice:
  assumes "at + length ys \<le> length xs"
  shows "splice at ys xs ! i = (if at \<le> i \<and> i < at + length ys then ys ! (i - at) else xs ! i)"
proof (cases "i < at")
  case True
  then show ?thesis using assms by (simp add: splice_def nth_append)
next
  case False
  then show ?thesis
    using assms by (cases "i < at + length ys") (auto simp: splice_def nth_append min_absorb2)
qed

lemma splice_Cons:
  assumes "at < length xs"
  shows "splice (Suc at) ys (xs[at := y]) = splice at (y # ys) xs"
  using assms by (simp add: splice_def take_Suc_conv_app_nth upd_conv_take_nth_drop add.commute)

abbreviation holes :: "bool list \<Rightarrow> nat" where
  "holes cov \<equiv> length (filter Not cov)"

lemma write_bytes_splice:
  assumes "at + length ys \<le> length bs" and "length bs = length cov"
  shows "write_bytes at ys bs cov fresh =
    (splice at ys bs, splice at (replicate (length ys) True) cov, fresh + of_nat (holes (take (length ys) (drop at cov))))"
  using assms
proof (induction ys arbitrary: at bs cov fresh)
  case Nil
  then show ?case by (simp add: splice_def)
next
  case (Cons y ys)
  have at: "at < length bs" "at < length cov" using Cons.prems by auto
  have "take (length ys) (drop (Suc at) (cov[at := True])) = take (length ys) (drop (Suc at) cov)" by simp
  moreover have "take (length (y # ys)) (drop at cov) = cov ! at # take (length ys) (drop (Suc at) cov)"
    using at by (simp add: Cons_nth_drop_Suc [symmetric])
  ultimately show ?case
    using Cons.IH [of "Suc at" "bs[at := y]" "cov[at := True]"] Cons.prems at
    by (simp add: splice_Cons add.assoc)
qed

lemma holes_splice:
  assumes "at + n \<le> length cov"
  shows "holes (splice at (replicate n True) cov) + holes (take n (drop at cov)) = holes cov"
proof -
  have "cov = take at cov @ take n (drop at cov) @ drop (at + n) cov"
    by (metis append_take_drop_id add.commute drop_drop)
  from arg_cong [OF this, of holes] show ?thesis by (simp add: splice_def)
qed

definition download_ok :: "download \<Rightarrow> bool" where
  "download_ok d \<longleftrightarrow>
     length (dl_bytes d) = unat (file_len (dl_plan d)) \<and> length (covered d) = unat (file_len (dl_plan d)) \<and>
     unat (received_bytes d) + holes (covered d) = unat (file_len (dl_plan d))"

lemma download_ok_new: "download_ok (download_new p now)"
  by (simp add: download_ok_def download_new_def)

lemma complete_iff: "download_ok d \<Longrightarrow> is_complete d \<longleftrightarrow> holes (covered d) = 0"
  unfolding download_ok_def is_complete_def by (metis add_cancel_right_right unsigned_word_eqI)

text \<open>What an accepted piece does; every index that the loop writes is in range.\<close>

lemma receive_cases:
  assumes "download_ok d" and "receive d offset payload now = (d', r)"
  obtains (refused) "d' = d" "r = Inl (OutOfBounds offset (length payload) (file_len (dl_plan d)))"
      "is_complete d \<or> unat (file_len (dl_plan d)) < unat offset + length payload"
  | (accepted) "r = Inr ()" "\<not> is_complete d" "unat offset + length payload \<le> unat (file_len (dl_plan d))"
      "dl_bytes d' = splice (unat offset) payload (dl_bytes d)"
      "covered d' = splice (unat offset) (replicate (length payload) True) (covered d)"
      "dl_plan d' = dl_plan d"
      "received_bytes d' = received_bytes d + of_nat (holes (take (length payload) (drop (unat offset) (covered d))))"
proof (cases "is_complete d \<or> unat (file_len (dl_plan d)) < unat offset + length payload")
  case True
  moreover have "file_len (dl_plan d) < offset + of_nat (length payload)"
    if "unat offset + length payload < 2 ^ 64" "unat (file_len (dl_plan d)) < unat offset + length payload"
    using that by (simp add: word_less_nat_alt unat_word_ariths unat_of_nat)
  ultimately show ?thesis using assms(2) by (intro refused) (auto simp: receive_def Let_def not_le split: if_splits)
next
  case False
  then have le: "unat offset + length payload \<le> unat (file_len (dl_plan d))" "\<not> is_complete d" by auto
  have lt: "unat offset + length payload < 2 ^ 64"
    using le(1) unsigned_less [of "file_len (dl_plan d)", where 'a = nat] by simp
  then have "\<not> file_len (dl_plan d) < offset + of_nat (length payload)"
    using le by (simp add: word_less_nat_alt unat_word_ariths unat_of_nat)
  moreover have "write_bytes (unat offset) payload (dl_bytes d) (covered d) 0 =
      (splice (unat offset) payload (dl_bytes d), splice (unat offset) (replicate (length payload) True) (covered d),
       of_nat (holes (take (length payload) (drop (unat offset) (covered d)))))"
    using write_bytes_splice [of "unat offset" payload "dl_bytes d" "covered d" 0] le(1) assms(1)
    by (simp add: download_ok_def)
  ultimately show ?thesis
    using assms(2) le lt
    by (intro accepted) (auto simp: receive_def Let_def not_le word_greater_zero_iff splice_def split: if_splits)
qed

lemma receive_ok:
  assumes "download_ok d" and "receive d offset payload now = (d', r)"
  shows "download_ok d'" "dl_plan d' = dl_plan d"
proof -
  have "download_ok d' \<and> dl_plan d' = dl_plan d"
    using assms
  proof (cases rule: receive_cases)
    case accepted
    let ?n = "holes (take (length payload) (drop (unat offset) (covered d)))"
    note ok = assms(1) [unfolded download_ok_def]
    have h: "holes (covered d') + ?n = holes (covered d)"
      using accepted ok holes_splice [of "unat offset" "length payload" "covered d"] by simp
    then have "?n \<le> unat (file_len (dl_plan d)) - unat (received_bytes d)" using ok by linarith
    then have "unat (received_bytes d) + ?n < 2 ^ 64"
      using ok unsigned_less [of "file_len (dl_plan d)", where 'a = nat] by auto
    then have "unat (received_bytes d') = unat (received_bytes d) + ?n"
      using accepted(7) by (simp add: unat_word_ariths unat_of_nat)
    then show ?thesis using accepted ok h by (simp add: download_ok_def)
  qed (use assms in simp)
  then show "download_ok d'" "dl_plan d' = dl_plan d" by simp_all
qed

text \<open>The bytes that have arrived, as a partial function of the offset.\<close>

definition known :: "download \<Rightarrow> nat \<Rightarrow> u8 option" where
  "known d i = (if i < length (covered d) \<and> covered d ! i then Some (dl_bytes d ! i) else None)"

definition overwrite :: "nat \<Rightarrow> bytes \<Rightarrow> (nat \<Rightarrow> u8 option) \<Rightarrow> nat \<Rightarrow> u8 option" where
  "overwrite at payload m i = (if at \<le> i \<and> i < at + length payload then Some (payload ! (i - at)) else m i)"

lemma known_receive:
  assumes "download_ok d" and "receive d offset payload now = (d', r)"
  shows "known d' = (if is_ok r then overwrite (unat offset) payload (known d) else known d)"
  using assms
proof (cases rule: receive_cases)
  case accepted
  then show ?thesis
    using assms(1) by (auto simp: known_def overwrite_def download_ok_def nth_splice fun_eq_iff)
qed simp

lemma complete_known: "download_ok d \<Longrightarrow> is_complete d \<longleftrightarrow> (\<forall>i < unat (file_len (dl_plan d)). known d i \<noteq> None)"
  by (auto simp: complete_iff known_def download_ok_def filter_empty_conv all_set_conv_all_nth)

section \<open>Resuming\<close>

abbreviation range_list :: "u64 \<times> u64 \<Rightarrow> nat list" where
  "range_list r \<equiv> [unat (fst r) ..< unat (fst r) + unat (snd r)]"

lemma missing_loop_exact:
  assumes "i + length cs < 2 ^ 64"
    and "case run of None \<Rightarrow> before = [] | Some r \<Rightarrow> before = range_list r \<and> unat (fst r) + unat (snd r) = i"
  shows "concat (map range_list (missing_loop i cs run)) = before @ filter (\<lambda>j. \<not> cs ! (j - i)) [i ..< i + length cs]"
  using assms
proof (induction cs arbitrary: i run before)
  case Nil
  then show ?case by (auto split: option.splits)
next
  case (Cons c cs)
  have tl: "filter (\<lambda>j. \<not> (c # cs) ! (j - i)) [Suc i ..< i + length (c # cs)] =
      filter (\<lambda>j. \<not> cs ! (j - Suc i)) [Suc i ..< Suc i + length cs]"
    by (rule filter_cong) (auto simp: nth_Cons')
  have upt: "[i ..< i + length (c # cs)] = i # [Suc i ..< i + length (c # cs)]" by (simp add: upt_rec)
  have split: "filter (\<lambda>j. \<not> (c # cs) ! (j - i)) [i ..< i + length (c # cs)] =
      (if c then [] else [i]) @ filter (\<lambda>j. \<not> cs ! (j - Suc i)) [Suc i ..< Suc i + length cs]"
    by (simp only: upt filter.simps tl) simp
  show ?case
  proof (cases c)
    case True
    then show ?thesis
      unfolding split using Cons.IH [of "Suc i" "[]" None] Cons.prems by (cases run) (simp_all del: upt_Suc)
  next
    case False
    have u: "unat (of_nat i :: u64) = i" using Cons.prems(1) by (simp add: unat_of_nat)
    let ?run = "case run of None \<Rightarrow> (of_nat i :: u64, 1 :: u64) | Some (s, l) \<Rightarrow> (s, l + 1)"
    have r: "range_list ?run = before @ [i]" "unat (fst ?run) + unat (snd ?run) = Suc i"
    proof -
      have "range_list ?run = before @ [i] \<and> unat (fst ?run) + unat (snd ?run) = Suc i"
      proof (cases run)
        case (Some sl)
        have "unat (snd sl) + 1 < 2 ^ 64" using Cons.prems Some by auto
        then have "unat (snd sl + 1) = unat (snd sl) + 1" using unat_Suc [of "snd sl"] by simp
        then show ?thesis using Cons.prems Some by (cases sl) auto
      qed (use Cons.prems u in auto)
      then show "range_list ?run = before @ [i]" "unat (fst ?run) + unat (snd ?run) = Suc i" by blast+
    qed
    have "concat (map range_list (missing_loop (Suc i) cs (Some ?run))) =
        (before @ [i]) @ filter (\<lambda>j. \<not> cs ! (j - Suc i)) [Suc i ..< Suc i + length cs]"
      using r Cons.prems(1) by (intro Cons.IH) auto
    then show ?thesis unfolding split using False by (simp del: upt_Suc)
  qed
qed

text \<open>The shopping list names every absent byte once, in order.\<close>

lemma missing_ranges_exact:
  assumes "download_ok d"
  shows "concat (map range_list (missing_ranges d)) =
    filter (\<lambda>i. known d i = None) [0 ..< unat (file_len (dl_plan d))]"
proof -
  have len: "length (covered d) = unat (file_len (dl_plan d))" using assms by (simp add: download_ok_def)
  then have "concat (map range_list (missing_ranges d)) = filter (\<lambda>j. \<not> covered d ! j) [0 ..< length (covered d)]"
    using missing_loop_exact [of 0 "covered d" "[]" None] unsigned_less [of "file_len (dl_plan d)", where 'a = nat]
    by (simp add: missing_ranges_def)
  also have "\<dots> = filter (\<lambda>i. known d i = None) [0 ..< length (covered d)]"
    by (rule filter_cong) (auto simp: known_def)
  finally show ?thesis using len by simp
qed

text \<open>A sender that holds the file delivers any pieces of it, in any order and repeatedly.\<close>

definition piece :: "bytes \<Rightarrow> u64 \<Rightarrow> nat \<Rightarrow> bytes" where
  "piece src offset n = take n (drop (unat offset) src)"

definition deliver :: "bytes \<Rightarrow> download \<Rightarrow> u64 \<times> nat \<times> u64 \<Rightarrow> download" where
  "deliver src d = (\<lambda>(offset, n, now). fst (receive d offset (piece src offset n) now))"

definition resume :: "bytes \<Rightarrow> u64 \<Rightarrow> download \<Rightarrow> download" where
  "resume src now d = foldl (deliver src) d (map (\<lambda>(s, n). (s, unat n, now)) (missing_ranges d))"

definition faithful :: "bytes \<Rightarrow> download \<Rightarrow> bool" where
  "faithful src d \<longleftrightarrow>
     download_ok d \<and> length src = unat (file_len (dl_plan d)) \<and> (\<forall>i b. known d i = Some b \<longrightarrow> b = src ! i)"

lemma deliver_faithful:
  assumes "faithful src d"
  shows "faithful src (deliver src d (offset, n, now))"
    and "known d i \<noteq> None \<Longrightarrow> known (deliver src d (offset, n, now)) i \<noteq> None"
    and "unat offset \<le> i \<Longrightarrow> i < unat offset + n \<Longrightarrow> unat offset + n \<le> length src \<Longrightarrow>
      known (deliver src d (offset, n, now)) i \<noteq> None"
    and "dl_plan (deliver src d (offset, n, now)) = dl_plan d"
proof -
  note f = assms [unfolded faithful_def]
  obtain d' r where rc: "receive d offset (piece src offset n) now = (d', r)" by fastforce
  have d': "deliver src d (offset, n, now) = d'" by (simp add: deliver_def rc)
  note ok = receive_ok [OF conjunct1 [OF f] rc]
  note kn = known_receive [OF conjunct1 [OF f] rc]
  have "b = src ! i" if "known d' i = Some b" for i b
    using that f by (auto simp: kn overwrite_def piece_def split: if_splits)
  then show "faithful src (deliver src d (offset, n, now))" using f ok by (simp add: d' faithful_def)
  show "known (deliver src d (offset, n, now)) i \<noteq> None" if "known d i \<noteq> None"
    using that by (simp add: d' kn overwrite_def)
  show "dl_plan (deliver src d (offset, n, now)) = dl_plan d" using ok d' by simp
  show "known (deliver src d (offset, n, now)) i \<noteq> None"
    if "unat offset \<le> i" "i < unat offset + n" "unat offset + n \<le> length src"
  proof -
    have len: "length (piece src offset n) = n" using that by (simp add: piece_def)
    show ?thesis
      using conjunct1 [OF f] rc
    proof (cases rule: receive_cases)
      case refused
      then have "is_complete d" using that f len by auto
      moreover have "i < unat (file_len (dl_plan d))" using that f by simp
      ultimately show ?thesis using refused f complete_known [of d] by (simp add: d')
    next
      case accepted
      then show ?thesis using that len by (simp add: d' kn overwrite_def)
    qed
  qed
qed

lemma deliver_all_faithful:
  assumes "faithful src d"
  shows "faithful src (foldl (deliver src) d ps) \<and> dl_plan (foldl (deliver src) d ps) = dl_plan d \<and>
    (\<forall>i. known d i \<noteq> None \<longrightarrow> known (foldl (deliver src) d ps) i \<noteq> None) \<and>
    (\<forall>(offset, n, now) \<in> set ps. unat offset + n \<le> length src \<longrightarrow>
       (\<forall>i. unat offset \<le> i \<and> i < unat offset + n \<longrightarrow> known (foldl (deliver src) d ps) i \<noteq> None))"
  using assms
proof (induction ps arbitrary: d)
  case (Cons p ps)
  obtain offset n now where p: "p = (offset, n, now)" by (cases p)
  show ?case
    using Cons.IH [OF deliver_faithful(1) [OF Cons.prems, of offset n now]]
      deliver_faithful(2,3) [OF Cons.prems, where offset = offset and n = n and now = now] deliver_faithful(4) [OF Cons.prems, of offset n now]
    by (simp add: p)
qed simp

lemma faithful_assembled: "faithful src d \<Longrightarrow> assembled d = Some bs \<Longrightarrow> bs = src"
proof -
  assume f: "faithful src d" and "assembled d = Some bs"
  then have bs: "bs = dl_bytes d" "is_complete d" by (auto simp: assembled_def split: if_splits)
  note f' = f [unfolded faithful_def]
  show ?thesis
  proof (rule nth_equalityI)
    show "length bs = length src" using f' bs by (simp add: download_ok_def)
    show "bs ! i = src ! i" if "i < length bs" for i
    proof -
      have "i < unat (file_len (dl_plan d))" using that bs f' by (simp add: download_ok_def)
      then obtain b where "known d i = Some b" using complete_known [of d] f' bs(2) by blast
      moreover from this have "b = dl_bytes d ! i" by (auto simp: known_def split: if_splits)
      ultimately show ?thesis using f' bs(1) by simp
    qed
  qed
qed

lemma resume_completes:
  assumes "faithful src d"
  shows "assembled (resume src now d) = Some src"
proof -
  let ?ps = "map (\<lambda>(s, n). (s, unat n, now)) (missing_ranges d)"
  let ?d = "resume src now d"
  note all = deliver_all_faithful [OF assms, of ?ps, folded resume_def]
  have ok: "download_ok d" "length src = unat (file_len (dl_plan d))" using assms by (auto simp: faithful_def)
  note exact = missing_ranges_exact [OF ok(1)]
  have "known ?d i \<noteq> None" if i: "i < unat (file_len (dl_plan d))" for i
  proof (cases "known d i = None")
    case True
    then have "i \<in> set (concat (map range_list (missing_ranges d)))" using i by (simp add: exact)
    then obtain s n where sn: "(s, n) \<in> set (missing_ranges d)" "unat s \<le> i" "i < unat s + unat n" by auto
    have "set (range_list (s, n)) \<subseteq> {0 ..< unat (file_len (dl_plan d))}"
      using sn(1) arg_cong [OF exact, of set] by fastforce
    moreover have "unat s + unat n - 1 \<in> set (range_list (s, n))" using sn by auto
    ultimately have "unat s + unat n - 1 < unat (file_len (dl_plan d))" by auto
    then have "unat s + unat n \<le> length src" using ok(2) by simp
    moreover have "(s, unat n, now) \<in> set ?ps" using sn(1) by force
    ultimately show ?thesis using all sn by blast
  qed (use all in blast)
  then have "is_complete ?d" using all complete_known [of ?d] by (simp add: faithful_def)
  then show ?thesis using faithful_assembled [of src ?d] all by (auto simp: assembled_def)
qed

lemma download_resumed:
  assumes "length src = unat flen" and "plan_new flen clen = Inr p"
  shows "assembled (resume src t (foldl (deliver src) (download_new p start) ps)) = Some src"
proof -
  have "file_len p = flen" using assms(2) by (auto simp: plan_new_def split: if_splits)
  then have "faithful src (download_new p start)"
    using assms(1) download_ok_new [of p start] by (auto simp: faithful_def download_new_def known_def)
  then show ?thesis using deliver_all_faithful resume_completes by blast
qed

section \<open>Fairness of the lanes\<close>

text \<open>
  Only the lane at the pointer has an unfinished turn, and an unfinished turn is never empty: the
  subtraction in \<open>pop_next\<close> does not wrap.
\<close>

definition lanes_ok :: "lane_scheduler \<Rightarrow> bool" where
  "lanes_ok s \<longleftrightarrow> hm_wf (queues s) \<and> pos s < length all_lanes \<and>
     (\<forall>l r. hm_get (remaining s) l = Some r \<longrightarrow> l = all_lanes ! pos s \<and> 0 < r \<and> r \<le> weight l)"

abbreviation current :: "lane_scheduler \<Rightarrow> lane" where
  "current s \<equiv> all_lanes ! pos s"

abbreviation quota :: "lane_scheduler \<Rightarrow> lane \<Rightarrow> u64" where
  "quota s l \<equiv> hm_get_or (weight l) (remaining s) l"

lemma weight_pos: "0 < weight l" "unat (weight l) \<le> 8"
  by (cases l; simp)+

lemma quota_bounds:
  assumes "lanes_ok s"
  shows "0 < quota s l" "quota s l \<le> weight l" "l \<noteq> current s \<Longrightarrow> quota s l = weight l"
  using assms weight_pos [of l] by (auto simp: hm_get_or_def lanes_ok_def split: option.split)

lemma pending_queue: "pending s l = length (lane_queue s l)"
  by (simp add: pending_def hm_get_or_def split: option.split)

lemma total_pending_zero:
  assumes "hm_wf (queues s)"
  shows "total_pending s = 0 \<longleftrightarrow> (\<forall>l. lane_queue s l = [])"
proof -
  have "total_pending s = 0 \<longleftrightarrow> (\<forall>(l, q) \<in> set (queues s). q = [])"
    by (auto simp: total_pending_def)
  also have "\<dots> \<longleftrightarrow> (\<forall>l q. hm_get (queues s) l = Some q \<longrightarrow> q = [])"
    unfolding hm_get_in_set [OF assms] by auto
  also have "\<dots> \<longleftrightarrow> (\<forall>l. lane_queue s l = [])"
    by (simp add: hm_get_or_def split: option.split)
  finally show ?thesis .
qed

text \<open>The visiting order from the pointer on, and the jobs that may be served before a lane.\<close>

definition visits :: "lane_scheduler \<Rightarrow> lane list" where
  "visits s = rotate (pos s) all_lanes"

definition ahead :: "lane_scheduler \<Rightarrow> lane \<Rightarrow> nat" where
  "ahead s l = sum_list (map (\<lambda>x. unat (quota s x)) (takeWhile (\<lambda>x. x \<noteq> l) (visits s)))"

lemma all_lanes_set [simp]: "set all_lanes = UNIV" "distinct all_lanes" "length all_lanes = 5"
  by (auto simp: all_lanes_def intro: lane.exhaust)

lemma visits_Cons:
  assumes "lanes_ok s"
  obtains rest where "visits s = current s # rest" "visits (next_lane s l) = rest @ [current s]"
proof -
  have len: "length (visits s) = 5" "visits s ! 0 = current s"
    using assms by (simp_all add: visits_def lanes_ok_def nth_rotate)
  then obtain rest where v: "visits s = current s # rest" by (cases "visits s") auto
  have "visits (next_lane s l) = rotate (Suc (pos s)) all_lanes"
    using rotate_conv_mod [of "Suc (pos s)" all_lanes] by (simp add: visits_def next_lane_def)
  also have "\<dots> = rotate1 (visits s)" by (simp add: visits_def)
  finally show ?thesis using v that by simp
qed

lemma lanes_ok_next: "lanes_ok s \<Longrightarrow> lanes_ok (next_lane s (current s))"
  by (auto simp: lanes_ok_def next_lane_def hm_simps)

lemma quota_next:
  "lanes_ok s \<Longrightarrow> quota (next_lane s (current s)) x = weight x"
  by (auto simp: lanes_ok_def next_lane_def hm_get_or_def hm_simps split: option.split)

text \<open>Passing over a lane brings the others nearer by what was left of its turn.\<close>

lemma ahead_next:
  assumes "lanes_ok s" and "l \<noteq> current s"
  shows "ahead (next_lane s (current s)) l + unat (quota s (current s)) = ahead s l"
proof -
  obtain rest where v: "visits s = current s # rest" "visits (next_lane s (current s)) = rest @ [current s]"
    using visits_Cons [OF assms(1)] by blast
  have d: "distinct (visits s)" "set (visits s) = UNIV" by (simp_all add: visits_def)
  then have l: "l \<in> set rest" "current s \<notin> set rest" using assms(2) v(1) by auto
  have "sum_list (map (\<lambda>x. unat (quota (next_lane s (current s)) x)) (takeWhile (\<lambda>x. x \<noteq> l) rest)) =
      sum_list (map (\<lambda>x. unat (quota s x)) (takeWhile (\<lambda>x. x \<noteq> l) rest))"
  proof (intro arg_cong [of _ _ sum_list] map_cong)
    fix x assume "x \<in> set (takeWhile (\<lambda>x. x \<noteq> l) rest)"
    then have "x \<noteq> current s" using l(2) by (metis set_takeWhileD)
    then show "unat (quota (next_lane s (current s)) x) = unat (quota s x)"
      by (simp add: quota_next [OF assms(1)] quota_bounds(3) [OF assms(1)])
  qed simp
  moreover have "takeWhile (\<lambda>x. x \<noteq> l) (rest @ [current s]) = takeWhile (\<lambda>x. x \<noteq> l) rest"
    using l(1) by (simp add: takeWhile_append1)
  ultimately show ?thesis using v assms(2) by (simp add: ahead_def)
qed

text \<open>What one call of \<open>pop_next\<close> does: the job at the head of its lane, and a nearer turn for the others.\<close>

lemma pop_loop_found:
  assumes "lanes_ok s" and "takeWhile (\<lambda>x. lane_queue s x = []) (visits s) = skipped"
    and "length skipped < n" and "skipped \<noteq> visits s"
  obtains s' l job rest where "pop_loop n s = (s', Some (l, job))" "lane_queue s l = job # rest"
    "\<And>x. lane_queue s' x = (if x = l then rest else lane_queue s x)" "lanes_ok s'"
    "\<And>x. x \<noteq> l \<Longrightarrow> lane_queue s x \<noteq> [] \<Longrightarrow> ahead s' x < ahead s x"
    "\<And>x. served_of s' x = (if x = l then served_of s x + 1 else served_of s x)"
  using assms
proof (induction skipped arbitrary: n s thesis)
  case Nil
  let ?l = "current s"
  obtain m where n: "n = Suc m" using Nil.prems(4) by (cases n) auto
  obtain rest where v: "visits s = ?l # rest" using visits_Cons [OF Nil.prems(2)] by blast
  obtain job q where q: "lane_queue s ?l = job # q"
    using Nil.prems(3) v by (cases "lane_queue s ?l") auto
  let ?s1 = "s\<lparr>queues := hm_insert ?l q (queues s)\<rparr>"
  let ?left = "quota s ?l - 1"
  let ?s2 = "if q = [] \<or> ?left = 0 then next_lane ?s1 ?l else ?s1\<lparr>remaining := hm_insert ?l ?left (remaining s)\<rparr>"
  let ?s' = "?s2\<lparr>served := hm_insert ?l (hm_get_or 0 (served ?s2) ?l + 1) (served ?s2)\<rparr>"
  have mod: "pos s mod 5 = pos s" using Nil.prems(2) by (simp add: lanes_ok_def)
  have pop: "pop_loop n s = (?s', Some (?l, job))"
    using q by (simp add: n mod pending_queue Let_def hm_simps)
  have ok1: "lanes_ok ?s1" using Nil.prems(2) by (simp add: lanes_ok_def)
  note qb = quota_bounds [OF Nil.prems(2), of ?l]
  have left: "unat ?left + 1 = unat (quota s ?l)"
    using unat_minus_one [OF less_imp_neq [OF qb(1), symmetric]] qb(1) by (simp add: word_less_nat_alt)
  have ok: "lanes_ok ?s'"
  proof (cases "q = [] \<or> ?left = 0")
    case True
    then show ?thesis using lanes_ok_next [OF ok1] by (simp add: lanes_ok_def)
  next
    case False
    then have "0 < ?left \<and> ?left \<le> weight ?l"
      using qb(2) left by (auto simp: word_le_nat_alt word_greater_zero_iff)
    then show ?thesis using False ok1 by (auto simp: lanes_ok_def hm_simps)
  qed
  have nearer: "ahead ?s' x < ahead s x" if "x \<noteq> ?l" for x
  proof (cases "q = [] \<or> ?left = 0")
    case True
    have "ahead ?s' x = ahead (next_lane ?s1 ?l) x" using True by (simp add: ahead_def visits_def)
    moreover have "ahead ?s1 x = ahead s x" by (simp add: ahead_def visits_def)
    ultimately show ?thesis using ahead_next [OF ok1, of x] that left by simp
  next
    case False
    have v': "visits ?s' = ?l # rest" using False v by (simp add: visits_def)
    have "?l \<notin> set rest" using v by (metis all_lanes_set(2) distinct.simps(2) distinct_rotate visits_def)
    then have "sum_list (map (\<lambda>y. unat (quota ?s' y)) (takeWhile (\<lambda>y. y \<noteq> x) rest)) =
        sum_list (map (\<lambda>y. unat (quota s y)) (takeWhile (\<lambda>y. y \<noteq> x) rest))"
      using False by (intro arg_cong [of _ _ sum_list] map_cong) (auto simp: hm_simps dest: set_takeWhileD)
    moreover have "unat (quota ?s' ?l) < unat (quota s ?l)" using False left by (simp add: hm_simps)
    ultimately show ?thesis using that unfolding ahead_def v v' by simp
  qed
  show ?case
    using Nil.prems(1) [OF pop q _ ok] nearer
    by (simp add: served_of_def hm_simps next_lane_def)
next
  case (Cons y skipped)
  let ?l = "current s" and ?s = "next_lane s (current s)"
  obtain m where n: "n = Suc m" using Cons.prems(4) by (cases n) auto
  obtain rest where v: "visits s = ?l # rest" "visits ?s = rest @ [?l]"
    using visits_Cons [OF Cons.prems(2)] by blast
  have y: "lane_queue s ?l = []" "takeWhile (\<lambda>x. lane_queue s x = []) rest = skipped"
    using Cons.prems(3) v by (auto split: if_splits)
  have mod: "pos s mod 5 = pos s" using Cons.prems(2) by (simp add: lanes_ok_def)
  have pop: "pop_loop n s = pop_loop m ?s" using y(1) by (simp add: n mod pending_queue Let_def)
  have same: "lane_queue ?s x = lane_queue s x" "served_of ?s x = served_of s x" for x
    by (simp_all add: next_lane_def served_of_def)
  have "skipped \<noteq> rest" using Cons.prems(3,5) v y by auto
  then obtain z where "z \<in> set rest" "lane_queue s z \<noteq> []"
    using y(2) takeWhile_eq_all_conv [of "\<lambda>x. lane_queue s x = []" rest] by blast
  then have tw1: "takeWhile (\<lambda>x. lane_queue ?s x = []) (visits ?s) = skipped"
    using takeWhile_append1 [of z rest "\<lambda>x. lane_queue s x = []"] y(2) by (simp add: same v(2))
  have "length skipped \<le> length rest" using length_takeWhile_le [of "\<lambda>x. lane_queue s x = []" rest] y(2) by simp
  then have "skipped \<noteq> visits ?s" unfolding v(2) by auto
  note tw = tw1 this
  have near: "ahead ?s x \<le> ahead s x" if "lane_queue s x \<noteq> []" for x
    using ahead_next [OF Cons.prems(2), of x] that y(1) by (cases "x = ?l") auto
  have "length skipped < m" using Cons.prems(4) n by simp
  show ?case
    using lanes_ok_next [OF Cons.prems(2)] tw(1) \<open>length skipped < m\<close> tw(2)
  proof (rule Cons.IH [rotated])
    fix s' l job q
    assume a: "pop_loop m ?s = (s', Some (l, job))" "lane_queue ?s l = job # q"
      "\<And>x. lane_queue s' x = (if x = l then q else lane_queue ?s x)" "lanes_ok s'"
      "\<And>x. x \<noteq> l \<Longrightarrow> lane_queue ?s x \<noteq> [] \<Longrightarrow> ahead s' x < ahead ?s x"
      "\<And>x. served_of s' x = (if x = l then served_of ?s x + 1 else served_of ?s x)"
    have "ahead s' x < ahead s x" if "x \<noteq> l" "lane_queue s x \<noteq> []" for x
      using a(5) [of x] near [of x] that by (simp add: same)
    then show thesis using a by (intro Cons.prems(1) [of s' l job q]) (simp_all add: same pop)
  qed
qed

datatype lane_op = Enqueue lane u64 | Pop

fun lanes_step :: "lane_scheduler \<Rightarrow> lane_op \<Rightarrow> lane_scheduler" where
  "lanes_step s (Enqueue l job) = enqueue s l job"
| "lanes_step s Pop = fst (pop_next s)"

lemma pop_next_cases:
  assumes "lanes_ok s"
  obtains (idle) "\<forall>l. lane_queue s l = []" "pop_next s = (s\<lparr>pos := 0, remaining := []\<rparr>, None)"
  | (served) s' l job rest where "pop_next s = (s', Some (l, job))" "lane_queue s l = job # rest"
    "\<And>x. lane_queue s' x = (if x = l then rest else lane_queue s x)" "lanes_ok s'"
    "\<And>x. x \<noteq> l \<Longrightarrow> lane_queue s x \<noteq> [] \<Longrightarrow> ahead s' x < ahead s x"
    "\<And>x. served_of s' x = (if x = l then served_of s x + 1 else served_of s x)"
proof (cases "total_pending s = 0")
  case True
  then show ?thesis using assms by (intro idle) (simp_all add: pop_next_def total_pending_zero lanes_ok_def)
next
  case False
  then obtain l where l: "lane_queue s l \<noteq> []" using assms total_pending_zero [of s] by (auto simp: lanes_ok_def)
  have len: "length (visits s) = 5" "l \<in> set (visits s)" by (simp_all add: visits_def)
  let ?skipped = "takeWhile (\<lambda>x. lane_queue s x = []) (visits s)"
  have ne: "?skipped \<noteq> visits s" using l len(2) by (metis (mono_tags, lifting) takeWhile_eq_all_conv)
  moreover have "length ?skipped < 5"
    using ne length_takeWhile_le [of "\<lambda>x. lane_queue s x = []" "visits s"] len(1)
    by (metis append_eq_conv_conj le_neq_implies_less takeWhile_eq_take take_all)
  moreover have "pop_next s = pop_loop 5 s" using False by (simp add: pop_next_def)
  ultimately show ?thesis using assms served by (metis (no_types, lifting) pop_loop_found)
qed

lemma lanes_ok_step: "lanes_ok s \<Longrightarrow> lanes_ok (lanes_step s op)"
proof (induction op)
  case Pop
  then show ?case
  proof (cases rule: pop_next_cases)
    case idle
    then show ?thesis using Pop by (simp add: lanes_ok_def)
  qed simp
qed (auto simp: lanes_ok_def enqueue_def)

interpretation lanes_run: op_system lanes_new lanes_step lanes_ok
  by unfold_locales (simp add: lanes_new_def lanes_ok_def, rule lanes_ok_step)

text \<open>The lanes served during a run.\<close>

fun served_lanes :: "lane_scheduler \<Rightarrow> lane_op list \<Rightarrow> lane list" where
  "served_lanes s [] = []"
| "served_lanes s (Enqueue l job # ops) = served_lanes (enqueue s l job) ops"
| "served_lanes s (Pop # ops) =
     (case snd (pop_next s) of None \<Rightarrow> served_lanes (fst (pop_next s)) ops
      | Some (l, _) \<Rightarrow> l # served_lanes (fst (pop_next s)) ops)"

lemma ahead_enqueue [simp]: "ahead (enqueue s x job) l = ahead s l"
  by (simp add: ahead_def visits_def enqueue_def)

lemma waiting_served:
  assumes "lanes_ok s" and "lane_queue s l \<noteq> []" and "ahead s l < count_list ops Pop"
  shows "l \<in> set (served_lanes s ops)"
  using assms
proof (induction s ops rule: served_lanes.induct)
  case (2 s x job ops)
  have "lane_queue (enqueue s x job) l \<noteq> []" using "2.prems"(2) by (simp add: enqueue_def hm_simps)
  then show ?case using "2.IH" "2.prems" lanes_ok_step [of s "Enqueue x job"] by simp
next
  case (3 s ops)
  show ?case
    using "3.prems"(1)
  proof (cases rule: pop_next_cases)
    case (served s' x job rest)
    show ?thesis
    proof (cases "x = l")
      case False
      then have "ahead s' l < ahead s l" "lane_queue s' l \<noteq> []" using served(3,5) "3.prems"(2) by auto
      then show ?thesis using "3.IH"(2) [of "(x, job)" x job] served "3.prems"(3) by simp
    qed (use served in simp)
  qed (use "3.prems" in simp)
qed simp

lemma ahead_bound:
  assumes "lanes_ok s"
  shows "ahead s l + unat (weight l) \<le> 16"
proof -
  have "unat (quota s x) \<le> unat (weight x)" for x using quota_bounds(2) [OF assms] by (simp add: word_le_nat_alt)
  then have "ahead s l \<le> sum_list (map (\<lambda>x. unat (weight x)) (takeWhile (\<lambda>x. x \<noteq> l) (visits s)))"
    unfolding ahead_def by (intro sum_list_mono)
  moreover have "\<dots> + unat (weight l) \<le> 16" if "pos s \<in> {0, 1, 2, 3, 4}"
    using that by (cases l) (auto simp: visits_def all_lanes_def rotate_drop_take)
  moreover have "pos s \<in> {0, 1, 2, 3, 4}" using assms by (auto simp: lanes_ok_def)
  ultimately show ?thesis by simp
qed

section \<open>Properties\<close>

text \<open>
  C35. Resuming. Let a sender deliver any pieces of a file, in any order, overlapping, repeated, some of
  them out of bounds. The download never assembles anything but that file; its list of missing ranges
  names exactly the absent bytes, each once and in order; and one pass over that list completes it.\<close>

theorem download_resumes:
  assumes "length src = unat flen" and "plan_new flen clen = Inr p"
    and "d = foldl (deliver src) (download_new p start) pieces"
  shows "(assembled d = None \<or> assembled d = Some src) \<and>
    concat (map range_list (missing_ranges d)) = filter (\<lambda>i. known d i = None) [0 ..< length src] \<and>
    assembled (resume src now d) = Some src"
proof (intro conjI)
  have p: "file_len p = flen" using assms(2) by (auto simp: plan_new_def split: if_splits)
  have "faithful src (download_new p start)"
    using assms(1) p download_ok_new [of p start] by (auto simp: faithful_def download_new_def known_def)
  note d = deliver_all_faithful [OF this, of pieces, folded assms(3)]
  show "assembled d = None \<or> assembled d = Some src"
    using faithful_assembled [of src d] d by (cases "assembled d") auto
  show "concat (map range_list (missing_ranges d)) = filter (\<lambda>i. known d i = None) [0 ..< length src]"
    using missing_ranges_exact [of d] d by (simp add: faithful_def)
  show "assembled (resume src now d) = Some src" using download_resumed [OF assms(1,2)] assms(3) by simp
qed

theorem download_resumes_witness:
  "assembled (resume [1, 2, 3, 4, 5] 9
     (foldl (deliver [1, 2, 3, 4, 5]) (download_new \<lparr>file_len = 5, chunk_len = 2, chunk_count = 3\<rparr> 0)
        [(1, 2, 1), (2, 2, 2), (4, 9, 3)])) = Some [1, 2, 3, 4, 5]"
proof -
  have "plan_new 5 2 = Inr \<lparr>file_len = 5, chunk_len = 2, chunk_count = 3\<rparr>" by code_simp
  then show ?thesis by (rule download_resumes [OF _ _ refl, THEN conjunct2, THEN conjunct2, rotated]) simp
qed

text \<open>
  C40. Fairness of the lanes. After any sequence of enqueues and pops, a lane with a waiting job is
  served within \<open>17 - weight\<close> pops, whatever is enqueued elsewhere meanwhile.\<close>

theorem lanes_fair:
  assumes "lane_queue (foldl lanes_step lanes_new before) l \<noteq> []"
    and "16 < unat (weight l) + count_list ops Pop"
  shows "l \<in> set (served_lanes (foldl lanes_step lanes_new before) ops)"
  using waiting_served [OF lanes_run.inv_reach assms(1)] ahead_bound [OF lanes_run.inv_reach, of before l] assms(2)
  by simp

theorem lanes_fair_witness:
  "Optional \<in> set (served_lanes (foldl lanes_step lanes_new (replicate 19 (Enqueue JoinCritical 1) @ [Enqueue Optional 7]))
     (replicate 16 Pop))"
  by (rule lanes_fair; code_simp)

end
