(* ===== verification/AssetRegistry.thy ===== *)
theory AssetRegistry
  imports OrderedMap RustStrings
begin

text \<open>
  The registries that streaming consults: asset formats by extension (\<open>crates/ald-asset-registry\<close>) and
  data files by name (\<open>crates/ald-datafiles\<close>).
\<close>

section \<open>Names\<close>

text \<open>\<open>rsplit(p).next()\<close> and \<open>rsplit_once(c)\<close>.\<close>

definition last_piece :: "(char \<Rightarrow> bool) \<Rightarrow> string \<Rightarrow> string" where
  "last_piece P s = last (split_on P s)"

definition rsplit_once :: "char \<Rightarrow> string \<Rightarrow> (string \<times> string) option" where
  "rsplit_once c s = map_option (\<lambda>(a, b). (rev b, rev a)) (split_once c (rev s))"

definition is_sep :: "char \<Rightarrow> bool" where
  "is_sep c \<longleftrightarrow> c = CHR ''/'' \<or> c = CHR 0x5C"

text \<open>The extension of a path, in lower case and with its dot.\<close>

definition extension_of :: "string \<Rightarrow> string option" where
  "extension_of s =
     (case rsplit_once CHR ''.'' (last_piece is_sep (trim s)) of
        None \<Rightarrow> None
      | Some (_, ext) \<Rightarrow>
          if ext = [] \<or> 16 < length ext \<or> \<not> list_all is_alnum ext then None
          else Some (CHR ''.'' # to_ascii_lowercase ext))"

section \<open>Formats\<close>

datatype stream_class = Texture | Geometry | Collision | Map | Animation | Audio | Metadata | Data

datatype entry_source = SpecSeed | Certified

record asset_format =
  extension :: string
  class_of :: stream_class
  fmt_source :: entry_source
  fmt_note :: string

datatype registry_error = BadExtension string | DuplicateExtension string

datatype recognition = Known asset_format | UnknownFormat string

record format_registry =
  formats :: "(string \<times> asset_format) list"

definition format_registry_new :: format_registry where
  "format_registry_new = \<lparr>formats = []\<rparr>"

definition format_seed :: "(string \<times> stream_class) list" where
  "format_seed =
     [(''.ytd'', Texture), (''.yft'', Geometry), (''.ydd'', Geometry), (''.ydr'', Geometry), (''.ybn'', Collision),
      (''.ymap'', Map), (''.ytyp'', Map), (''.ycd'', Animation), (''.awc'', Audio), (''.rel'', Data),
      (''.ymt'', Metadata)]"

definition with_spec_seed :: format_registry where
  "with_spec_seed =
     foldl (\<lambda>r (ext, c). r\<lparr>formats := bt_put ext
         \<lparr>extension = ext, class_of = c, fmt_source = SpecSeed,
          fmt_note = ''spec seed: recognized for routing, content uncertified''\<rparr> (formats r)\<rparr>)
       format_registry_new format_seed"

definition normalize_extension :: "string \<Rightarrow> (string, registry_error) result" where
  "normalize_extension raw =
     (let t = to_ascii_lowercase (trim raw) in
      if CHR 0x00 \<in> set t \<or> CHR ''/'' \<in> set t \<or> CHR 0x5C \<in> set t \<or> CHR '':'' \<in> set t
      then Err (BadExtension raw)
      else
        (case extension_of t of
           Some e \<Rightarrow> if 17 < length e then Err (BadExtension raw) else Ok e
         | None \<Rightarrow>
             if t = [] \<or> 16 < length t \<or> \<not> list_all is_alnum t then Err (BadExtension raw)
             else if 17 < length (CHR ''.'' # t) then Err (BadExtension raw) else Ok (CHR ''.'' # t)))"

definition register_format ::
  "format_registry \<Rightarrow> string \<Rightarrow> stream_class \<Rightarrow> entry_source \<Rightarrow> string \<Rightarrow> format_registry \<times> (unit, registry_error) result" where
  "register_format r raw c src note =
     (case normalize_extension raw of
        Inl e \<Rightarrow> (r, Err e)
      | Inr ext \<Rightarrow>
          let entry = \<lparr>extension = ext, class_of = c, fmt_source = src, fmt_note = note\<rparr>;
              added = (r\<lparr>formats := bt_put ext entry (formats r)\<rparr>, Ok ()) in
          (case hm_get (formats r) ext of
             None \<Rightarrow> added
           | Some existing \<Rightarrow>
               if fmt_source existing = SpecSeed \<and> src = Certified then added
               else (r, Err (DuplicateExtension ext))))"

definition recognize :: "format_registry \<Rightarrow> string \<Rightarrow> recognition" where
  "recognize r s =
     (case extension_of s of
        Some ext \<Rightarrow> (case hm_get (formats r) ext of Some f \<Rightarrow> Known f | None \<Rightarrow> UnknownFormat ext)
      | None \<Rightarrow> UnknownFormat [])"

definition format_count :: "format_registry \<Rightarrow> nat" where
  "format_count r = length (formats r)"

definition all_formats :: "format_registry \<Rightarrow> asset_format list" where
  "all_formats r = map snd (formats r)"

section \<open>Data files\<close>

datatype data_file_category =
    Vehicle | Handling | Appearance | Variation | Layout | Ped | Clothing | MapInterior | DfAudio | Weapon | Clip
  | Population | Vfx | TextureParenting | Other

text \<open>The crate has its own copy of the enumeration of sources.\<close>

datatype data_file_source = DfSpecSeed | DfCertified

record data_file_entry =
  df_name :: string
  category :: data_file_category
  df_source :: data_file_source
  df_note :: string

datatype data_file_error = BadName string | DuplicateFile string

record data_file_registry =
  df_entries :: "(string \<times> data_file_entry) list"

definition data_file_registry_new :: data_file_registry where
  "data_file_registry_new = \<lparr>df_entries = []\<rparr>"

definition data_file_seed :: "(string \<times> data_file_category) list" where
  "data_file_seed =
     [(''vehicles.meta'', Vehicle), (''handling.meta'', Handling), (''carcols.meta'', Appearance),
      (''carvariations.meta'', Variation), (''vehiclelayouts.meta'', Layout)]"

definition data_files_seeded :: data_file_registry where
  "data_files_seeded =
     foldl (\<lambda>r (name, c). r\<lparr>df_entries := bt_put name
         \<lparr>df_name = name, category = c, df_source = DfSpecSeed, df_note = ''spec seed: vehicle graph''\<rparr> (df_entries r)\<rparr>)
       data_file_registry_new data_file_seed"

definition is_alpha :: "char \<Rightarrow> bool" where
  "is_alpha c \<longleftrightarrow> is_lower c \<or> is_upper c"

text \<open>The name without a drive prefix, if it has no other colon.\<close>

fun without_drive :: "string \<Rightarrow> string option" where
  "without_drive (drive # colon # sep # rest) =
     (if is_alpha drive \<and> colon = CHR '':'' \<and> is_sep sep then Some rest
      else if CHR '':'' \<in> set (drive # colon # sep # rest) then None
      else Some (drive # colon # sep # rest))"
| "without_drive t = (if CHR '':'' \<in> set t then None else Some t)"

definition normalize_name :: "string \<Rightarrow> (string, data_file_error) result" where
  "normalize_name raw =
     (let t = trim raw in
      if t = [] \<or> CHR 0x00 \<in> set t then Err (BadName raw)
      else
        (case without_drive t of
           None \<Rightarrow> Err (BadName raw)
         | Some w \<Rightarrow>
             let base = last_piece is_sep w in
             if base = [] \<or> base = ''.'' \<or> base = ''..'' \<or> 128 < length base then Err (BadName raw)
             else if CHR ''.'' \<notin> set base then Err (BadName raw)
             else Ok (to_ascii_lowercase base)))"

definition register_data_file ::
  "data_file_registry \<Rightarrow> string \<Rightarrow> data_file_category \<Rightarrow> data_file_source \<Rightarrow> string \<Rightarrow>
   data_file_registry \<times> (unit, data_file_error) result" where
  "register_data_file r raw c src note =
     (case normalize_name raw of
        Inl e \<Rightarrow> (r, Err e)
      | Inr key \<Rightarrow>
          let entry = \<lparr>df_name = key, category = c, df_source = src, df_note = note\<rparr>;
              added = (r\<lparr>df_entries := bt_put key entry (df_entries r)\<rparr>, Ok ()) in
          (case hm_get (df_entries r) key of
             None \<Rightarrow> added
           | Some existing \<Rightarrow>
               if df_source existing = DfSpecSeed \<and> src = DfCertified then added
               else (r, Err (DuplicateFile key))))"

definition lookup_data_file :: "data_file_registry \<Rightarrow> string \<Rightarrow> data_file_entry option" where
  "lookup_data_file r name =
     (case normalize_name name of Inl _ \<Rightarrow> None | Inr key \<Rightarrow> hm_get (df_entries r) key)"

definition by_category :: "data_file_registry \<Rightarrow> data_file_category \<Rightarrow> data_file_entry list" where
  "by_category r c = filter (\<lambda>e. category e = c) (map snd (df_entries r))"

definition data_file_count :: "data_file_registry \<Rightarrow> nat" where
  "data_file_count r = length (df_entries r)"

section \<open>Extensions\<close>

lemma lower_char_fix: "\<not> is_upper c \<Longrightarrow> lower_char c = c"
  by (simp add: lower_char_def)

lemma lower_char_alnum: "is_alnum c \<Longrightarrow> is_alnum (lower_char c) \<and> \<not> is_upper (lower_char c)"
  by (auto simp: is_alnum_def lower_char_def is_digit_def is_lower_def is_upper_def)

lemma alnum_graphic: "is_alnum c \<Longrightarrow> is_graphic c \<and> \<not> is_sep c \<and> c \<noteq> CHR ''.''"
  by (auto simp: is_alnum_def is_graphic_def is_digit_def is_lower_def is_upper_def is_sep_def)

text \<open>A normalised extension: a dot and one to sixteen letters or digits, none of them upper case.\<close>

definition ext_ok :: "string \<Rightarrow> bool" where
  "ext_ok e \<longleftrightarrow> (\<exists>x. e = CHR ''.'' # x \<and> x \<noteq> [] \<and> length x \<le> 16 \<and> list_all (\<lambda>c. is_alnum c \<and> \<not> is_upper c) x)"

lemma ext_ok_lower: "x \<noteq> [] \<Longrightarrow> length x \<le> 16 \<Longrightarrow> list_all is_alnum x \<Longrightarrow> ext_ok (CHR ''.'' # to_ascii_lowercase x)"
  using lower_char_alnum by (auto simp: ext_ok_def to_ascii_lowercase_def list_all_iff)

lemma lower_alnum_back: "is_alnum (lower_char c) \<Longrightarrow> \<not> is_upper (lower_char c)"
  by (auto simp: is_alnum_def lower_char_def is_digit_def is_lower_def is_upper_def)

lemma extension_of_ok: "extension_of s = Some e \<Longrightarrow> ext_ok e"
  by (auto simp: extension_of_def intro!: ext_ok_lower split: option.splits if_splits)

lemma normalize_extension_ok: "normalize_extension raw = Inr e \<Longrightarrow> ext_ok e"
  unfolding normalize_extension_def Let_def
  by (auto simp: ext_ok_def to_ascii_lowercase_def list_all_iff lower_alnum_back
      dest: extension_of_ok split: if_splits option.splits)

lemma split_on_last: "\<forall>c \<in> set x. \<not> P c \<Longrightarrow> \<exists>y. last (split_on P (s @ x)) = y @ x"
proof (induction s)
  case Nil
  then show ?case by (auto simp: split_on_plain)
next
  case (Cons c s)
  then obtain y where y: "last (split_on P (s @ x)) = y @ x" by auto
  show ?case
  proof (cases "split_on P (s @ x)")
    case (Cons p ps)
    then show ?thesis using y by (cases ps) (auto intro: exI [of _ "c # y"])
  qed simp
qed

text \<open>Every file name that ends with a normalised extension is recognised by it.\<close>

lemma extension_of_suffix:
  assumes "ext_ok e"
  shows "extension_of (stem @ e) = Some e"
proof -
  obtain x where x: "e = CHR ''.'' # x" "x \<noteq> []" "length x \<le> 16" "list_all (\<lambda>c. is_alnum c \<and> \<not> is_upper c) x"
    using assms by (auto simp: ext_ok_def)
  obtain z d where zd: "x = z @ [d]" using x(2) by (metis append_butlast_last_id)
  have "is_graphic d" "is_graphic CHR ''.''" using x(4) zd alnum_graphic [of d] by (auto simp: is_graphic_def)
  then obtain n where "trim (stem @ e) = drop n stem @ e" using trim_stops [of "CHR ''.''" d stem z] x(1) zd by auto
  then obtain st where st: "trim (stem @ e) = st @ e" by blast
  have "\<forall>c \<in> set e. \<not> is_sep c" using x alnum_graphic by (auto simp: list_all_iff is_sep_def)
  then obtain y where "last_piece is_sep (st @ e) = y @ e" using split_on_last [of e is_sep st] by (auto simp: last_piece_def)
  moreover have "rsplit_once CHR ''.'' (y @ e) = Some (y, x)"
  proof -
    have "CHR ''.'' \<notin> set (rev x)" using x(4) alnum_graphic by (auto simp: list_all_iff)
    from split_once_append [OF this, of "rev y"] show ?thesis by (simp add: rsplit_once_def x(1))
  qed
  moreover have "to_ascii_lowercase x = x"
    using x(4) by (auto simp: to_ascii_lowercase_def list_all_iff lower_char_fix intro: map_idI)
  ultimately show ?thesis using st x by (auto simp: extension_of_def list_all_iff)
qed

lemma alnum_plain:
  "is_alnum c \<Longrightarrow> c \<noteq> CHR 0x00 \<and> c \<noteq> CHR ''/'' \<and> c \<noteq> CHR 0x5C \<and> c \<noteq> CHR '':''"
  by (auto simp: is_alnum_def is_digit_def is_lower_def is_upper_def)

lemma normalize_extension_fix: "ext_ok e \<Longrightarrow> normalize_extension e = Inr e"
proof -
  assume e: "ext_ok e"
  then obtain x where x: "e = CHR ''.'' # x" "x \<noteq> []" "length x \<le> 16" "list_all (\<lambda>c. is_alnum c \<and> \<not> is_upper c) x"
    by (auto simp: ext_ok_def)
  obtain z d where zd: "x = z @ [d]" using x(2) by (metis append_butlast_last_id)
  have g: "is_graphic d" "is_graphic CHR ''.''" using x(4) zd alnum_graphic [of d] by (auto simp: is_graphic_def)
  have "trim e = e" using trim_stops [OF g(2,1), of "[]" z] x(1) zd by simp
  moreover have "\<forall>c \<in> set e. lower_char c = c \<and> c \<noteq> CHR 0x00 \<and> c \<noteq> CHR ''/'' \<and> c \<noteq> CHR 0x5C \<and> c \<noteq> CHR '':''"
    using x(4) alnum_plain
    by (simp add: x(1) list_all_iff lower_char_fix) (simp add: lower_char_def is_upper_def)
  then have "to_ascii_lowercase e = e" and "CHR 0x00 \<notin> set e \<and> CHR ''/'' \<notin> set e \<and> CHR 0x5C \<notin> set e \<and> CHR '':'' \<notin> set e"
    by (auto simp: to_ascii_lowercase_def intro: map_idI)
  moreover have "extension_of e = Some e" using extension_of_suffix [OF e, of "[]"] by simp
  moreover have "length e \<le> 17" using x by simp
  ultimately show ?thesis by (simp add: normalize_extension_def)
qed

text \<open>
  An accepted registration takes effect under the normalised extension, for every file name that ends
  with it.
\<close>

lemma registered_recognized:
  assumes "register_format r raw c src note = (r', Inr ())"
  shows "\<exists>e. normalize_extension raw = Inr e \<and>
    (\<forall>stem. recognize r' (stem @ e) = Known \<lparr>extension = e, class_of = c, fmt_source = src, fmt_note = note\<rparr>)"
proof -
  obtain e where e: "normalize_extension raw = Inr e"
    "hm_get (formats r') e = Some \<lparr>extension = e, class_of = c, fmt_source = src, fmt_note = note\<rparr>"
    using assms by (auto simp: register_format_def Let_def split: sum.splits option.splits if_splits)
  then show ?thesis
    using extension_of_suffix [OF normalize_extension_ok [OF e(1)]] by (simp add: recognize_def)
qed

section \<open>Registrations\<close>

definition format_enrol :: "format_registry \<Rightarrow> string \<times> stream_class \<times> entry_source \<times> string \<Rightarrow> format_registry" where
  "format_enrol r = (\<lambda>(raw, c, src, note). fst (register_format r raw c src note))"

definition data_file_enrol ::
  "data_file_registry \<Rightarrow> string \<times> data_file_category \<times> data_file_source \<times> string \<Rightarrow> data_file_registry" where
  "data_file_enrol r = (\<lambda>(raw, c, src, note). fst (register_data_file r raw c src note))"

interpretation format_reg: upgrade_registry format_enrol "\<lambda>r. hm_get (formats r)" "\<lambda>f. fmt_source f = Certified"
proof
  fix r :: format_registry and k e a
  assume "hm_get (formats r) k = Some e"
  then show "\<exists>e'. hm_get (formats (format_enrol r a)) k = Some e' \<and>
      (e' = e \<or> fmt_source e \<noteq> Certified \<and> fmt_source e' = Certified)"
    by (cases a) (auto simp: format_enrol_def register_format_def Let_def split: sum.split option.split)
qed

interpretation data_file_reg: upgrade_registry data_file_enrol lookup_data_file "\<lambda>f. df_source f = DfCertified"
proof
  fix r k e a
  assume "lookup_data_file r k = Some e"
  then show "\<exists>e'. lookup_data_file (data_file_enrol r a) k = Some e' \<and>
      (e' = e \<or> df_source e \<noteq> DfCertified \<and> df_source e' = DfCertified)"
    by (cases a)
      (auto simp: lookup_data_file_def data_file_enrol_def register_data_file_def Let_def split: sum.splits option.split)
qed

lemma certified_data_file_final:
  "lookup_data_file r k = Some e \<Longrightarrow> df_source e = DfCertified \<Longrightarrow> lookup_data_file (foldl data_file_enrol r as) k = Some e"
  by (rule data_file_reg.certified_final)

lemma certified_format_final:
  "hm_get (formats r) k = Some f \<Longrightarrow> fmt_source f = Certified \<Longrightarrow> hm_get (formats (foldl format_enrol r as)) k = Some f"
  by (rule format_reg.certified_final)

text \<open>
  The name that a drive prefix introduces is not searched for colons: an alternate data stream passes.
\<close>

lemma colon_after_drive:
  "normalize_name (''C:'' @ [CHR 0x5C] @ ''a:b.meta'') = Inr ''a:b.meta''"
  "normalize_name ''a:b.meta'' = Inl (BadName ''a:b.meta'')"
  by code_simp+

lemma seeds_found:
  "recognize with_spec_seed ''stream/Car.YTD'' =
     Known \<lparr>extension = ''.ytd'', class_of = Texture, fmt_source = SpecSeed,
       fmt_note = ''spec seed: recognized for routing, content uncertified''\<rparr>"
  "map_option category (lookup_data_file data_files_seeded ''data/Handling.meta'') = Some Handling"
  by code_simp+

end
