(* ===== verification/Mount.thy ===== *)
theory Mount
  imports AssetRegistry
begin

text \<open>
  The mount pipeline (\<open>crates/ald-mount\<close>): the records of assets on their way from the queue to the
  registration, one transition per method.
\<close>

section \<open>Records\<close>

datatype mount_state =
    Queued | Verifying | Verified | DependenciesReady | MountPending | Mounted | Registered
  | FailedRetryable string | FailedFatal string | MountCancelled

fun mount_terminal :: "mount_state \<Rightarrow> bool" where
  "mount_terminal Registered = True"
| "mount_terminal (FailedRetryable _) = True"
| "mount_terminal (FailedFatal _) = True"
| "mount_terminal MountCancelled = True"
| "mount_terminal _ = False"

datatype mount_error = UnknownAsset string | RefusedFormat string | BadTransition mount_state string | TerminalState

record mount_record =
  asset_id :: string
  file_name :: string
  m_class :: stream_class
  expected_hash :: "string option"
  dependencies :: "string list"
  m_state :: mount_state
  mount_point :: "string option"

record mounter =
  records :: "(string, mount_record) hmap"

definition mounter_new :: mounter where
  "mounter_new = \<lparr>records = []\<rparr>"

definition queue_asset ::
  "mounter \<Rightarrow> string \<Rightarrow> string \<Rightarrow> format_registry \<Rightarrow> string option \<Rightarrow> string list \<Rightarrow> mounter \<times> (unit, mount_error) result" where
  "queue_asset m a name fmts hash deps =
     (case recognize fmts name of
        UnknownFormat _ \<Rightarrow> (m, Err (RefusedFormat name))
      | Known f \<Rightarrow>
          (case hm_get (records m) a of
             Some r \<Rightarrow> (m, Err (BadTransition (m_state r) ''re-queue''))
           | None \<Rightarrow>
               (m\<lparr>records := hm_insert a
                    \<lparr>asset_id = a, file_name = name, m_class = class_of f, expected_hash = hash, dependencies = deps,
                     m_state = Queued, mount_point = None\<rparr> (records m)\<rparr>, Ok ())))"

text \<open>
  \<open>check\<close> compares the discriminants of the states; the wanted one is never a state with a payload.
\<close>

definition check_state :: "mount_state \<Rightarrow> mount_state \<Rightarrow> string \<Rightarrow> (unit, mount_error) result" where
  "check_state st want op =
     (if mount_terminal st then Err TerminalState else if st \<noteq> want then Err (BadTransition st op) else Ok ())"

text \<open>Every transition looks the record up, tests its state and replaces the record.\<close>

definition transition ::
  "mounter \<Rightarrow> string \<Rightarrow> (mount_state \<Rightarrow> (unit, mount_error) result) \<Rightarrow> (mount_record \<Rightarrow> mount_record) \<Rightarrow>
   mounter \<times> (unit, mount_error) result" where
  "transition m a guard upd =
     (case hm_get (records m) a of
        None \<Rightarrow> (m, Err (UnknownAsset a))
      | Some r \<Rightarrow>
          (case guard (m_state r) of
             Inl e \<Rightarrow> (m, Err e)
           | Inr _ \<Rightarrow> (m\<lparr>records := hm_insert a (upd r) (records m)\<rparr>, Ok ())))"

definition begin_verify :: "mounter \<Rightarrow> string \<Rightarrow> mounter \<times> (unit, mount_error) result" where
  "begin_verify m a =
     transition m a (\<lambda>st. check_state st Queued ''begin_verify'') (\<lambda>r. r\<lparr>m_state := Verifying\<rparr>)"

definition finish_verify :: "mounter \<Rightarrow> string \<Rightarrow> bool \<Rightarrow> string \<Rightarrow> mounter \<times> (unit, mount_error) result" where
  "finish_verify m a hash_ok detail =
     transition m a (\<lambda>st. check_state st Verifying ''finish_verify'')
       (\<lambda>r. r\<lparr>m_state := if hash_ok then Verified else FailedRetryable (''hash mismatch: '' @ detail)\<rparr>)"

definition check_dependencies :: "mounter \<Rightarrow> string \<Rightarrow> (string \<Rightarrow> bool) \<Rightarrow> mounter \<times> (unit, mount_error) result" where
  "check_dependencies m a resolve =
     transition m a (\<lambda>st. check_state st Verified ''check_dependencies'')
       (\<lambda>r. let missing = filter (\<lambda>d. \<not> resolve d) (dependencies r) in
            r\<lparr>m_state := if missing = [] then DependenciesReady
                else FailedRetryable (''missing datafiles: '' @ join_with '', '' missing)\<rparr>)"

definition begin_mount :: "mounter \<Rightarrow> string \<Rightarrow> string \<Rightarrow> mounter \<times> (unit, mount_error) result" where
  "begin_mount m a point =
     transition m a (\<lambda>st. check_state st DependenciesReady ''begin_mount'')
       (\<lambda>r. r\<lparr>mount_point := Some point, m_state := MountPending\<rparr>)"

definition complete_mount :: "mounter \<Rightarrow> string \<Rightarrow> mounter \<times> (unit, mount_error) result" where
  "complete_mount m a =
     transition m a (\<lambda>st. check_state st MountPending ''complete_mount'') (\<lambda>r. r\<lparr>m_state := Mounted\<rparr>)"

definition register_mount :: "mounter \<Rightarrow> string \<Rightarrow> mounter \<times> (unit, mount_error) result" where
  "register_mount m a =
     transition m a (\<lambda>st. check_state st Mounted ''register'') (\<lambda>r. r\<lparr>m_state := Registered\<rparr>)"

definition not_terminal :: "mount_state \<Rightarrow> (unit, mount_error) result" where
  "not_terminal st = (if mount_terminal st then Err TerminalState else Ok ())"

definition cancel_mount :: "mounter \<Rightarrow> string \<Rightarrow> mounter \<times> (unit, mount_error) result" where
  "cancel_mount m a = transition m a not_terminal (\<lambda>r. r\<lparr>m_state := MountCancelled\<rparr>)"

definition fail_mount :: "mounter \<Rightarrow> string \<Rightarrow> string \<Rightarrow> bool \<Rightarrow> mounter \<times> (unit, mount_error) result" where
  "fail_mount m a reason retryable =
     transition m a not_terminal
       (\<lambda>r. r\<lparr>m_state := if retryable then FailedRetryable reason else FailedFatal reason\<rparr>)"

definition mount_state_of :: "mounter \<Rightarrow> string \<Rightarrow> mount_state option" where
  "mount_state_of m a = map_option m_state (hm_get (records m) a)"

definition record_count :: "mounter \<Rightarrow> nat" where
  "record_count m = length (records m)"

section \<open>The diagram\<close>

text \<open>The edges that the comment of the crate draws, and those to the failure states.\<close>

inductive edge :: "mount_state \<Rightarrow> mount_state \<Rightarrow> bool" where
  "edge Queued Verifying"
| "edge Verifying Verified"
| "edge Verified DependenciesReady"
| "edge DependenciesReady MountPending"
| "edge MountPending Mounted"
| "edge Mounted Registered"
| "\<not> mount_terminal st \<Longrightarrow> edge st (FailedRetryable why)"
| "\<not> mount_terminal st \<Longrightarrow> edge st (FailedFatal why)"
| "\<not> mount_terminal st \<Longrightarrow> edge st MountCancelled"

inductive_cases edge_from_terminal: "edge Registered st"

datatype mount_op =
    MQueue string string format_registry "string option" "string list"
  | MBeginVerify string | MFinishVerify string bool string | MCheckDeps string "string \<Rightarrow> bool"
  | MBeginMount string string | MComplete string | MRegister string | MCancel string | MFail string string bool

fun mount_step :: "mounter \<Rightarrow> mount_op \<Rightarrow> mounter" where
  "mount_step m (MQueue a name fmts hash deps) = fst (queue_asset m a name fmts hash deps)"
| "mount_step m (MBeginVerify a) = fst (begin_verify m a)"
| "mount_step m (MFinishVerify a good detail) = fst (finish_verify m a good detail)"
| "mount_step m (MCheckDeps a resolve) = fst (check_dependencies m a resolve)"
| "mount_step m (MBeginMount a point) = fst (begin_mount m a point)"
| "mount_step m (MComplete a) = fst (complete_mount m a)"
| "mount_step m (MRegister a) = fst (register_mount m a)"
| "mount_step m (MCancel a) = fst (cancel_mount m a)"
| "mount_step m (MFail a why retryable) = fst (fail_mount m a why retryable)"

lemma transition_get:
  "hm_get (records (fst (transition m a guard upd))) k =
     (case hm_get (records m) k of
        None \<Rightarrow> None
      | Some r \<Rightarrow> Some (if k = a \<and> is_ok (guard (m_state r)) then upd r else r))"
  by (auto simp: transition_def hm_simps split: option.split sum.split)

lemma check_state_ok: "is_ok (check_state st want op) \<longleftrightarrow> st = want \<and> \<not> mount_terminal st"
  by (simp add: check_state_def)

lemma not_terminal_ok: "is_ok (not_terminal st) \<longleftrightarrow> \<not> mount_terminal st"
  by (simp add: not_terminal_def)

lemmas mount_defs = begin_verify_def finish_verify_def check_dependencies_def begin_mount_def complete_mount_def
  register_mount_def cancel_mount_def fail_mount_def Let_def

text \<open>Every operation follows an edge of the diagram or leaves the record alone; nothing is forgotten.\<close>

lemma mount_step_edge:
  assumes "hm_get (records m) k = Some r"
  shows "\<exists>r'. hm_get (records (mount_step m op)) k = Some r' \<and> (r' = r \<or> edge (m_state r) (m_state r')) \<and>
    asset_id r' = asset_id r \<and> file_name r' = file_name r \<and> expected_hash r' = expected_hash r \<and>
    dependencies r' = dependencies r"
proof (cases op)
  case (MQueue a name fmts hash deps)
  then show ?thesis using assms by (auto simp: queue_asset_def hm_simps split: recognition.split option.split)
qed (auto simp: assms mount_defs transition_get check_state_ok not_terminal_ok intro: edge.intros)

lemma edge_terminal: "edge st st' \<Longrightarrow> \<not> mount_terminal st"
  by (induction rule: edge.induct) auto

text \<open>Terminal states stick, through any sequence of operations.\<close>

lemma terminal_sticks:
  assumes "hm_get (records m) k = Some r" and "mount_terminal (m_state r)"
  shows "hm_get (records (foldl mount_step m ops)) k = Some r"
  using assms
proof (induction ops arbitrary: m)
  case (Cons op ops)
  then have "hm_get (records (mount_step m op)) k = Some r"
    using mount_step_edge [OF Cons.prems(1), of op] edge_terminal by auto
  then show ?case using Cons by simp
qed simp

section \<open>The gates\<close>

text \<open>
  The gates that an asset has passed, by its state, and the operations that pass them. An asset
  reaches a state only after its hash was confirmed and every dependency resolved.
\<close>

fun stage_no :: "mount_state \<Rightarrow> nat" where
  "stage_no Queued = 0"
| "stage_no Verifying = 1"
| "stage_no Verified = 2"
| "stage_no DependenciesReady = 3"
| "stage_no MountPending = 4"
| "stage_no Mounted = 5"
| "stage_no Registered = 6"
| "stage_no _ = 0"

definition passed :: "string \<Rightarrow> mount_op list \<Rightarrow> mount_record \<Rightarrow> bool" where
  "passed k ops r \<longleftrightarrow>
     (2 \<le> stage_no (m_state r) \<longrightarrow> (\<exists>detail. MFinishVerify k True detail \<in> set ops)) \<and>
     (3 \<le> stage_no (m_state r) \<longrightarrow>
        (\<exists>resolve. MCheckDeps k resolve \<in> set ops \<and> list_all resolve (dependencies r))) \<and>
     (4 \<le> stage_no (m_state r) \<longrightarrow> (\<exists>point. MBeginMount k point \<in> set ops \<and> mount_point r = Some point)) \<and>
     (5 \<le> stage_no (m_state r) \<longrightarrow> MComplete k \<in> set ops)"

lemma passed_more: "passed k ops r \<Longrightarrow> passed k (ops @ [op]) r"
  by (auto simp: passed_def)

lemma transition_changed:
  assumes "hm_get (records (fst (transition m a guard upd))) k = Some r'" and "hm_get (records m) k = Some r" and "r' \<noteq> r"
  shows "a = k" and "is_ok (guard (m_state r))" and "r' = upd r"
  using assms by (auto simp: transition_get split: if_splits)

lemma passed_advance:
  assumes "passed k ops r" and "stage_no (m_state r') = Suc (stage_no (m_state r))" and "dependencies r' = dependencies r"
    and "stage_no (m_state r') = 2 \<Longrightarrow> \<exists>detail. op = MFinishVerify k True detail"
    and "stage_no (m_state r') = 3 \<Longrightarrow> \<exists>resolve. op = MCheckDeps k resolve \<and> list_all resolve (dependencies r)"
    and "stage_no (m_state r') = 4 \<Longrightarrow> \<exists>point. op = MBeginMount k point \<and> mount_point r' = Some point"
    and "stage_no (m_state r') = 5 \<Longrightarrow> op = MComplete k"
    and "stage_no (m_state r') \<noteq> 4 \<Longrightarrow> mount_point r' = mount_point r"
  shows "passed k (ops @ [op]) r'"
proof -
  let ?n = "stage_no (m_state r')"
  have old: "n \<le> stage_no (m_state r)" if "n \<le> ?n" "?n \<noteq> n" for n using that assms(2) by simp
  have "\<exists>detail. MFinishVerify k True detail \<in> set (ops @ [op])" if "2 \<le> ?n"
    using assms(1,4) old [OF that] by (cases "?n = 2") (auto simp: passed_def)
  moreover have "\<exists>resolve. MCheckDeps k resolve \<in> set (ops @ [op]) \<and> list_all resolve (dependencies r')" if "3 \<le> ?n"
    using assms(1,3,5) old [OF that] by (cases "?n = 3") (auto simp: passed_def)
  moreover have "\<exists>point. MBeginMount k point \<in> set (ops @ [op]) \<and> mount_point r' = Some point" if "4 \<le> ?n"
    using assms(1,6,8) old [OF that] by (cases "?n = 4") (auto simp: passed_def)
  moreover have "MComplete k \<in> set (ops @ [op])" if "5 \<le> ?n"
    using assms(1,7) old [OF that] by (cases "?n = 5") (auto simp: passed_def)
  ultimately show ?thesis unfolding passed_def by blast
qed

lemma passed_start: "stage_no (m_state r) \<le> 1 \<Longrightarrow> passed k ops r"
  by (auto simp: passed_def)

lemma passed_step:
  assumes "hm_get (records (mount_step m op)) k = Some r'" and "\<And>r. hm_get (records m) k = Some r \<Longrightarrow> passed k ops r"
  shows "passed k (ops @ [op]) r'"
proof (cases "hm_get (records m) k")
  case None
  then have "m_state r' = Queued"
    using assms(1) by (cases op) (auto simp: queue_asset_def mount_defs transition_get hm_simps split: recognition.splits option.splits if_splits)
  then show ?thesis by (simp add: passed_start)
next
  case (Some r)
  note p = assms(2) [OF Some]
  show ?thesis
  proof (cases "r' = r")
    case True
    then show ?thesis using p passed_more by blast
  next
    case False
    note changed = transition_changed [OF _ Some False]
    show ?thesis
    proof (cases op)
      case (MQueue a name fmts hash deps)
      then have "r' = r" using assms(1) Some by (cases "k = a") (auto simp: queue_asset_def hm_simps split: recognition.splits option.splits)
      then show ?thesis using False by simp
    next
      case (MBeginVerify a)
      note c = changed [OF assms(1) [unfolded MBeginVerify mount_step.simps mount_defs]]
      then show ?thesis by (simp add: passed_start)
    next
      case (MFinishVerify a good detail)
      note c = changed [OF assms(1) [unfolded MFinishVerify mount_step.simps mount_defs]]
      show ?thesis
      proof (cases good)
        case True
        then show ?thesis using c MFinishVerify p by (intro passed_advance [of k ops r]) (auto simp: check_state_ok)
      qed (use c in \<open>simp add: passed_start\<close>)
    next
      case (MCheckDeps a resolve)
      note c = changed [OF assms(1) [unfolded MCheckDeps mount_step.simps mount_defs]]
      show ?thesis
      proof (cases "list_all resolve (dependencies r)")
        case True
        then have "filter (\<lambda>d. \<not> resolve d) (dependencies r) = []" by (auto simp: list_all_iff filter_empty_conv)
        then show ?thesis using True c MCheckDeps p by (intro passed_advance [of k ops r]) (auto simp: check_state_ok)
      next
        case False
        then have "filter (\<lambda>d. \<not> resolve d) (dependencies r) \<noteq> []" by (auto simp: list_all_iff filter_empty_conv)
        then show ?thesis using c by (simp add: passed_start)
      qed
    next
      case (MBeginMount a point)
      note c = changed [OF assms(1) [unfolded MBeginMount mount_step.simps mount_defs]]
      then show ?thesis using MBeginMount p by (intro passed_advance [of k ops r]) (auto simp: check_state_ok)
    next
      case (MComplete a)
      note c = changed [OF assms(1) [unfolded MComplete mount_step.simps mount_defs]]
      then show ?thesis using MComplete p by (intro passed_advance [of k ops r]) (auto simp: check_state_ok)
    next
      case (MRegister a)
      note c = changed [OF assms(1) [unfolded MRegister mount_step.simps mount_defs]]
      then show ?thesis using MRegister p by (intro passed_advance [of k ops r]) (auto simp: check_state_ok)
    next
      case (MCancel a)
      note c = changed [OF assms(1) [unfolded MCancel mount_step.simps mount_defs]]
      then show ?thesis by (simp add: passed_start)
    next
      case (MFail a why retryable)
      note c = changed [OF assms(1) [unfolded MFail mount_step.simps mount_defs]]
      then show ?thesis by (simp add: passed_start)
    qed
  qed
qed

lemma gates_passed: "hm_get (records (foldl mount_step mounter_new ops)) k = Some r \<Longrightarrow> passed k ops r"
proof (induction ops arbitrary: r rule: rev_induct)
  case (snoc op ops)
  then show ?case using passed_step [of "foldl mount_step mounter_new ops" op k r ops] by simp
qed (simp add: mounter_new_def)

text \<open>
  Contrary to the comment of the crate, a missing data file ends the mount: the record is terminal,
  cannot be queued again and does not wait for the registry to grow.
\<close>

lemma missing_dependency_final:
  assumes "hm_get (records m) k = Some r" and "m_state r = Verified" and "\<not> list_all resolve (dependencies r)"
  shows "\<exists>why. mount_state_of (foldl mount_step (fst (check_dependencies m k resolve)) ops) k = Some (FailedRetryable why)"
proof -
  have "filter (\<lambda>d. \<not> resolve d) (dependencies r) \<noteq> []" using assms(3) by (auto simp: list_all_iff filter_empty_conv)
  then obtain r' why where "hm_get (records (fst (check_dependencies m k resolve))) k = Some r'"
      "m_state r' = FailedRetryable why"
    using assms(1,2) by (simp add: check_dependencies_def transition_get check_state_ok)
  then show ?thesis using terminal_sticks by (simp add: mount_state_of_def)
qed

end
