(* ===== verification/Streaming.thy ===== *)
theory Streaming
  imports Download Mount Residency ContentCache
begin

text \<open>
  The streaming engine (\<open>crates/ald-streaming\<close>), which drives downloads, the cache, the mount pipeline
  and residency through their own operations. The disk, the hash function and the game bridge are
  arguments. A stage that the code renders for its report is the state itself.
\<close>

section \<open>State\<close>

datatype stream_error =
    StreamUnknown string | StreamDuplicate string | StreamDownload download_error | StreamMount mount_error
  | StreamResidency residency_error | StreamCache cache_error

datatype asset_state =
    Downloading u64 u64 | Stalled u64 u64 | Caching | Mounting mount_state | InResidency residency_state
  | AssetReady | AssetFailed string

record asset_meta =
  meta_hash :: string
  meta_lane :: lane
  meta_download :: download
  cached :: bool

record streaming_engine =
  en_formats :: format_registry
  en_datafiles :: data_file_registry
  en_lanes :: lane_scheduler
  downloads_planned :: "(string, asset_meta) hmap"
  en_mounter :: mounter
  en_residency :: residency_tracker
  en_watchdog :: watchdog
  job_seq :: u64

definition engine_new :: "watchdog \<Rightarrow> streaming_engine" where
  "engine_new w =
     \<lparr>en_formats = with_spec_seed, en_datafiles = data_files_seeded, en_lanes = lanes_new, downloads_planned = [],
      en_mounter = mounter_new, en_residency = tracker_new, en_watchdog = w, job_seq = 0\<rparr>"

section \<open>Operations\<close>

definition add_asset ::
  "streaming_engine \<Rightarrow> string \<Rightarrow> string \<Rightarrow> u64 \<Rightarrow> u64 \<Rightarrow> string \<Rightarrow> string list \<Rightarrow> lane \<Rightarrow> u64 \<Rightarrow>
   streaming_engine \<times> (unit, stream_error) result" where
  "add_asset e a name flen clen hash deps l now =
     (if hm_contains (downloads_planned e) a then (e, Err (StreamDuplicate a))
      else
        (case plan_new flen clen of
           Inl err \<Rightarrow> (e, Err (StreamDownload err))
         | Inr plan \<Rightarrow>
             (case queue_asset (en_mounter e) a name (en_formats e) (Some hash) deps of
                (m, Inl err) \<Rightarrow> (e\<lparr>en_mounter := m\<rparr>, Err (StreamMount err))
              | (m, Inr _) \<Rightarrow>
                  let job = job_seq e + 1 in
                  (e\<lparr>en_mounter := m, job_seq := job, en_lanes := enqueue (en_lanes e) l job,
                     downloads_planned := hm_insert a
                       \<lparr>meta_hash = hash, meta_lane = l, meta_download = download_new plan now, cached = False\<rparr>
                       (downloads_planned e)\<rparr>, Ok ()))))"

definition receive_chunk ::
  "streaming_engine \<Rightarrow> string \<Rightarrow> u64 \<Rightarrow> bytes \<Rightarrow> u64 \<Rightarrow> streaming_engine \<times> (unit, stream_error) result" where
  "receive_chunk e a offset payload now =
     (case hm_get (downloads_planned e) a of
        None \<Rightarrow> (e, Err (StreamUnknown a))
      | Some m \<Rightarrow>
          (case receive (meta_download m) offset payload now of
             (d, r) \<Rightarrow>
               (e\<lparr>downloads_planned := hm_insert a (m\<lparr>meta_download := d\<rparr>) (downloads_planned e)\<rparr>,
                case r of Inl err \<Rightarrow> Err (StreamDownload err) | Inr _ \<Rightarrow> Ok ())))"

definition poll_stalls :: "streaming_engine \<Rightarrow> u64 \<Rightarrow> (string \<times> bool) list" where
  "poll_stalls e now =
     sort_key fst
       (map (\<lambda>(a, m). (a, is_stalled (en_watchdog e) (last_progress_tick (meta_download m)) now))
         (filter (\<lambda>(_, m). \<not> is_complete (meta_download m)) (downloads_planned e)))"

definition finalize_download ::
  "(bytes \<Rightarrow> string) \<Rightarrow> disk \<Rightarrow> streaming_engine \<Rightarrow> string \<Rightarrow> content_cache \<Rightarrow>
   streaming_engine \<times> content_cache \<times> (unit, stream_error) result" where
  "finalize_download sha io e a c =
     (case hm_get (downloads_planned e) a of
        None \<Rightarrow> (e, c, Err (StreamUnknown a))
      | Some m \<Rightarrow>
          (case assembled (meta_download m) of
             None \<Rightarrow> (e, c, Err (StreamDownload (OutOfBounds 0 0 (file_len (dl_plan (meta_download m))))))
           | Some bs \<Rightarrow>
               (case stage io c bs of
                  (c1, Inl err) \<Rightarrow> (e, c1, Err (StreamCache err))
                | (c1, Inr k) \<Rightarrow>
                    (case commit sha io c1 k (meta_hash m) of
                       (c2, Inl err) \<Rightarrow> (e, c2, Err (StreamCache err))
                     | (c2, Inr _) \<Rightarrow>
                         (e\<lparr>downloads_planned := hm_insert a (m\<lparr>cached := True\<rparr>) (downloads_planned e)\<rparr>, c2, Ok ())))))"

text \<open>A step of the mount pipeline, with its error wrapped.\<close>

fun mount_result :: "streaming_engine \<Rightarrow> mounter \<times> (unit, mount_error) result \<Rightarrow> streaming_engine \<times> (unit, stream_error) result" where
  "mount_result e (m, r) =
     (e\<lparr>en_mounter := m\<rparr>, case r of Inl err \<Rightarrow> Err (StreamMount err) | Inr _ \<Rightarrow> Ok ())"

definition mount_verify ::
  "(bytes \<Rightarrow> string) \<Rightarrow> disk \<Rightarrow> streaming_engine \<Rightarrow> string \<Rightarrow> content_cache \<Rightarrow> streaming_engine \<times> (unit, stream_error) result" where
  "mount_verify sha io e a c =
     (case hm_get (downloads_planned e) a of
        None \<Rightarrow> (e, Err (StreamUnknown a))
      | Some meta \<Rightarrow>
          (case begin_verify (en_mounter e) a of
             (m, Inl err) \<Rightarrow> (e\<lparr>en_mounter := m\<rparr>, Err (StreamMount err))
           | (m, Inr _) \<Rightarrow>
               let good = (case verify sha io c (meta_hash meta) of Inl _ \<Rightarrow> False | Inr b \<Rightarrow> b) in
               mount_result e (finish_verify m a good (''cache verdict for '' @ meta_hash meta))))"

definition mount_check_deps :: "streaming_engine \<Rightarrow> string \<Rightarrow> streaming_engine \<times> (unit, stream_error) result" where
  "mount_check_deps e a =
     mount_result e (check_dependencies (en_mounter e) a (\<lambda>d. lookup_data_file (en_datafiles e) d \<noteq> None))"

definition mount_begin :: "streaming_engine \<Rightarrow> string \<Rightarrow> string \<Rightarrow> streaming_engine \<times> (unit, stream_error) result" where
  "mount_begin e a point = mount_result e (begin_mount (en_mounter e) a point)"

definition engine_complete_mount :: "streaming_engine \<Rightarrow> string \<Rightarrow> streaming_engine \<times> (unit, stream_error) result" where
  "engine_complete_mount e a = mount_result e (complete_mount (en_mounter e) a)"

definition mount_register :: "streaming_engine \<Rightarrow> string \<Rightarrow> streaming_engine \<times> (unit, stream_error) result" where
  "mount_register e a = mount_result e (register_mount (en_mounter e) a)"

fun residency_result ::
  "streaming_engine \<Rightarrow> residency_tracker \<times> 'b \<times> (residency_state, residency_error) result \<Rightarrow>
   streaming_engine \<times> 'b \<times> (residency_state, stream_error) result" where
  "residency_result e (t, b, r) =
     (e\<lparr>en_residency := t\<rparr>, b, case r of Inl err \<Rightarrow> Err (StreamResidency err) | Inr st \<Rightarrow> Ok st)"

definition engine_residency_request ::
  "'b ask \<Rightarrow> streaming_engine \<Rightarrow> 'b \<Rightarrow> string \<Rightarrow> u64 \<Rightarrow> u64 \<Rightarrow> u32 \<Rightarrow>
   streaming_engine \<times> 'b \<times> (residency_state, stream_error) result" where
  "engine_residency_request ask e b a now timeout retries =
     residency_result e (request ask (en_residency e) b a now timeout retries)"

definition residency_poll ::
  "'b ask \<Rightarrow> 'b confirm \<Rightarrow> streaming_engine \<Rightarrow> 'b \<Rightarrow> string \<Rightarrow> u64 \<Rightarrow>
   streaming_engine \<times> 'b \<times> (residency_state, stream_error) result" where
  "residency_poll ask confirm e b a now = residency_result e (poll ask confirm (en_residency e) b a now)"

fun residency_report :: "residency_state \<Rightarrow> asset_state" where
  "residency_report Ready = AssetReady"
| "residency_report (Failed why) = AssetFailed why"
| "residency_report Expired = AssetFailed ''residency expired''"
| "residency_report Cancelled = AssetFailed ''residency cancelled''"
| "residency_report st = InResidency st"

fun mount_failure :: "mount_state \<Rightarrow> string option" where
  "mount_failure (FailedRetryable why) = Some why"
| "mount_failure (FailedFatal why) = Some why"
| "mount_failure MountCancelled = Some ''mount cancelled''"
| "mount_failure _ = None"

definition asset_state_of :: "streaming_engine \<Rightarrow> string \<Rightarrow> u64 \<Rightarrow> (asset_state, stream_error) result" where
  "asset_state_of e a now =
     (case hm_get (downloads_planned e) a of
        None \<Rightarrow> Err (StreamUnknown a)
      | Some meta \<Rightarrow>
          (case state_of (en_residency e) a of
             Some res \<Rightarrow> Ok (residency_report res)
           | None \<Rightarrow>
               (case Option.bind (mount_state_of (en_mounter e) a) mount_failure of
                  Some why \<Rightarrow> Ok (AssetFailed why)
                | None \<Rightarrow>
                    let d = meta_download meta in
                    if \<not> is_complete d then
                      (if is_stalled (en_watchdog e) (last_progress_tick d) now
                       then Ok (Stalled (received_bytes d) (file_len (dl_plan d)))
                       else Ok (Downloading (received_bytes d) (file_len (dl_plan d))))
                    else if \<not> cached meta then Ok Caching
                    else (case mount_state_of (en_mounter e) a of Some st \<Rightarrow> Ok (Mounting st) | None \<Rightarrow> Ok Caching))))"

definition overall_progress :: "streaming_engine \<Rightarrow> u64 \<times> u64" where
  "overall_progress e =
     foldl (\<lambda>(r, t) m. (r + received_bytes (meta_download m), t + file_len (dl_plan (meta_download m)))) (0, 0)
       (hm_values (downloads_planned e))"

definition join_ready :: "streaming_engine \<Rightarrow> string list \<Rightarrow> u64 \<Rightarrow> bool" where
  "join_ready e required now \<longleftrightarrow> list_all (\<lambda>a. asset_state_of e a now = Ok AssetReady) required"

definition next_lane_job :: "streaming_engine \<Rightarrow> streaming_engine \<times> (lane \<times> u64) option" where
  "next_lane_job e = (let (s, j) = pop_next (en_lanes e) in (e\<lparr>en_lanes := s\<rparr>, j))"

definition lane_of :: "streaming_engine \<Rightarrow> string \<Rightarrow> lane option" where
  "lane_of e a = map_option meta_lane (hm_get (downloads_planned e) a)"

section \<open>The engine as a system\<close>

record 'b world =
  engine :: streaming_engine
  cache :: content_cache
  bridge :: 'b

datatype stream_op =
    SAdd string string u64 u64 string "string list" lane u64
  | SChunk string u64 bytes u64
  | SFinalize string
  | SVerify string
  | SDeps string
  | SBegin string string
  | SComplete string
  | SRegister string
  | SRequest string u64 u64 u32
  | SPoll string u64
  | SPop
  | SDataFile string data_file_category data_file_source string
  | SCache cache_event

fun stream_step ::
  "(bytes \<Rightarrow> string) \<Rightarrow> disk \<Rightarrow> 'b ask \<Rightarrow> 'b confirm \<Rightarrow> 'b world \<Rightarrow> stream_op \<Rightarrow> 'b world" where
  "stream_step sha io ask confirm w (SAdd a name flen clen hash deps l now) =
     w\<lparr>engine := fst (add_asset (engine w) a name flen clen hash deps l now)\<rparr>"
| "stream_step sha io ask confirm w (SChunk a offset payload now) =
     w\<lparr>engine := fst (receive_chunk (engine w) a offset payload now)\<rparr>"
| "stream_step sha io ask confirm w (SFinalize a) =
     (case finalize_download sha io (engine w) a (cache w) of (e, c, _) \<Rightarrow> w\<lparr>engine := e, cache := c\<rparr>)"
| "stream_step sha io ask confirm w (SVerify a) = w\<lparr>engine := fst (mount_verify sha io (engine w) a (cache w))\<rparr>"
| "stream_step sha io ask confirm w (SDeps a) = w\<lparr>engine := fst (mount_check_deps (engine w) a)\<rparr>"
| "stream_step sha io ask confirm w (SBegin a point) = w\<lparr>engine := fst (mount_begin (engine w) a point)\<rparr>"
| "stream_step sha io ask confirm w (SComplete a) = w\<lparr>engine := fst (engine_complete_mount (engine w) a)\<rparr>"
| "stream_step sha io ask confirm w (SRegister a) = w\<lparr>engine := fst (mount_register (engine w) a)\<rparr>"
| "stream_step sha io ask confirm w (SRequest a now timeout retries) =
     (case engine_residency_request ask (engine w) (bridge w) a now timeout retries of
        (e, b, _) \<Rightarrow> w\<lparr>engine := e, bridge := b\<rparr>)"
| "stream_step sha io ask confirm w (SPoll a now) =
     (case residency_poll ask confirm (engine w) (bridge w) a now of (e, b, _) \<Rightarrow> w\<lparr>engine := e, bridge := b\<rparr>)"
| "stream_step sha io ask confirm w SPop = w\<lparr>engine := fst (next_lane_job (engine w))\<rparr>"
| "stream_step sha io ask confirm w (SDataFile raw c src note) =
     w\<lparr>engine := (engine w)\<lparr>en_datafiles := fst (register_data_file (en_datafiles (engine w)) raw c src note)\<rparr>\<rparr>"
| "stream_step sha io ask confirm w (SCache op) = w\<lparr>cache := cache_step sha (cache w) op\<rparr>"

definition world_new :: "watchdog \<Rightarrow> content_cache \<Rightarrow> 'b \<Rightarrow> 'b world" where
  "world_new wd c b = \<lparr>engine = engine_new wd, cache = c, bridge = b\<rparr>"

text \<open>
  The mount pipeline seen alone: the operations that one step of the engine performs on it. The cache's
  verdict and the registry appear as the arguments they are called with.
\<close>

definition verdict :: "(bytes \<Rightarrow> string) \<Rightarrow> disk \<Rightarrow> content_cache \<Rightarrow> string \<Rightarrow> bool" where
  "verdict sha io c h = (case verify sha io c h of Inl _ \<Rightarrow> False | Inr b \<Rightarrow> b)"

fun mount_ops :: "(bytes \<Rightarrow> string) \<Rightarrow> disk \<Rightarrow> 'b world \<Rightarrow> stream_op \<Rightarrow> mount_op list" where
  "mount_ops sha io w (SAdd a name flen clen hash deps l now) =
     (if hm_contains (downloads_planned (engine w)) a \<or> \<not> is_ok (plan_new flen clen) then []
      else [MQueue a name (en_formats (engine w)) (Some hash) deps])"
| "mount_ops sha io w (SVerify a) =
     (case hm_get (downloads_planned (engine w)) a of
        None \<Rightarrow> []
      | Some meta \<Rightarrow>
          if is_ok (snd (begin_verify (en_mounter (engine w)) a))
          then [MBeginVerify a, MFinishVerify a (verdict sha io (cache w) (meta_hash meta)) (''cache verdict for '' @ meta_hash meta)]
          else [])"
| "mount_ops sha io w (SDeps a) = [MCheckDeps a (\<lambda>d. lookup_data_file (en_datafiles (engine w)) d \<noteq> None)]"
| "mount_ops sha io w (SBegin a point) = [MBeginMount a point]"
| "mount_ops sha io w (SComplete a) = [MComplete a]"
| "mount_ops sha io w (SRegister a) = [MRegister a]"
| "mount_ops sha io w _ = []"

lemma transition_err: "\<not> is_ok (snd (transition m a guard upd)) \<Longrightarrow> fst (transition m a guard upd) = m"
  by (auto simp: transition_def split: option.splits sum.splits)

lemma mount_result_fields [simp]:
  "en_mounter (fst (mount_result e p)) = fst p" "downloads_planned (fst (mount_result e p)) = downloads_planned e"
  "en_datafiles (fst (mount_result e p)) = en_datafiles e" "en_residency (fst (mount_result e p)) = en_residency e"
  by (cases p; simp)+

lemma residency_result_engine: "residency_result e p = (e', b', r) \<Longrightarrow> en_mounter e' = en_mounter e \<and>
    downloads_planned e' = downloads_planned e \<and> en_datafiles e' = en_datafiles e"
  by (cases p) auto

lemma queue_asset_err: "\<not> is_ok (snd (queue_asset m a name fmts hash deps)) \<Longrightarrow> fst (queue_asset m a name fmts hash deps) = m"
  by (auto simp: queue_asset_def split: recognition.splits option.splits)

lemma mounter_step:
  "en_mounter (engine (stream_step sha io ask confirm w op)) = foldl mount_step (en_mounter (engine w)) (mount_ops sha io w op)"
proof (cases op)
  case (SAdd a name flen clen hash deps l now)
  then show ?thesis
    by (cases "queue_asset (en_mounter (engine w)) a name (en_formats (engine w)) (Some hash) deps")
      (auto simp: add_asset_def Let_def split: sum.splits)
next
  case (SVerify a)
  show ?thesis
  proof (cases "hm_get (downloads_planned (engine w)) a")
    case (Some meta)
    obtain m r where b: "begin_verify (en_mounter (engine w)) a = (m, r)" by fastforce
    then have "\<not> is_ok r \<Longrightarrow> m = en_mounter (engine w)" by (metis begin_verify_def fst_conv snd_conv transition_err)
    then show ?thesis using SVerify Some b
      by (cases r) (auto simp: mount_verify_def verdict_def Let_def)
  qed (simp add: SVerify mount_verify_def)
next
  case (SFinalize a)
  then show ?thesis by (auto simp: finalize_download_def split: option.splits prod.splits sum.splits)
qed (auto simp: receive_chunk_def mount_check_deps_def mount_begin_def engine_complete_mount_def mount_register_def
    engine_residency_request_def residency_poll_def next_lane_job_def dest: residency_result_engine
    split: option.splits prod.splits)

text \<open>What a step keeps of the plans and of the data files.\<close>

lemma planned_keeps:
  assumes "hm_get (downloads_planned (engine w)) k = Some m"
  shows "\<exists>m'. hm_get (downloads_planned (engine (stream_step sha io ask confirm w op))) k = Some m' \<and> meta_hash m' = meta_hash m"
proof (cases op)
  case (SAdd a name flen clen hash deps l now)
  then show ?thesis using assms
    by (auto simp: add_asset_def hm_contains_def hm_simps Let_def split: sum.splits prod.splits)
next
  case (SVerify a)
  then show ?thesis using assms by (auto simp: mount_verify_def Let_def split: prod.splits sum.splits option.splits)
next
  case (SFinalize a)
  then show ?thesis using assms by (auto simp: finalize_download_def hm_simps split: option.splits prod.splits sum.splits)
qed (use assms in \<open>auto simp: receive_chunk_def mount_check_deps_def mount_begin_def engine_complete_mount_def mount_register_def
    engine_residency_request_def residency_poll_def next_lane_job_def hm_simps dest: residency_result_engine
    split: option.splits prod.splits\<close>)

lemma datafiles_step:
  "en_datafiles (engine (stream_step sha io ask confirm w op)) =
     (case op of SDataFile raw c src note \<Rightarrow> data_file_enrol (en_datafiles (engine w)) (raw, c, src, note)
      | _ \<Rightarrow> en_datafiles (engine w))"
proof (cases op)
  case (SAdd a name flen clen hash deps l now)
  then show ?thesis by (auto simp: add_asset_def Let_def split: sum.splits prod.splits)
next
  case (SVerify a)
  then show ?thesis by (auto simp: mount_verify_def Let_def split: prod.splits sum.splits option.splits)
next
  case (SFinalize a)
  then show ?thesis by (auto simp: finalize_download_def split: option.splits prod.splits sum.splits)
qed (auto simp: receive_chunk_def mount_check_deps_def mount_begin_def engine_complete_mount_def mount_register_def
    engine_residency_request_def residency_poll_def next_lane_job_def data_file_enrol_def dest: residency_result_engine
    split: option.splits prod.splits)

lemma datafile_known_step:
  "lookup_data_file (en_datafiles (engine w)) d \<noteq> None \<Longrightarrow>
   lookup_data_file (en_datafiles (engine (stream_step sha io ask confirm w op))) d \<noteq> None"
  using data_file_reg.known_stays [of "en_datafiles (engine w)" d "[a]" for a]
  unfolding datafiles_step by (simp split: stream_op.split del: not_None_eq)

abbreviation stream_run ::
  "(bytes \<Rightarrow> string) \<Rightarrow> disk \<Rightarrow> 'b ask \<Rightarrow> 'b confirm \<Rightarrow> 'b world \<Rightarrow> stream_op list \<Rightarrow> 'b world" where
  "stream_run sha io ask confirm \<equiv> foldl (stream_step sha io ask confirm)"

fun mount_trace ::
  "(bytes \<Rightarrow> string) \<Rightarrow> disk \<Rightarrow> 'b ask \<Rightarrow> 'b confirm \<Rightarrow> 'b world \<Rightarrow> stream_op list \<Rightarrow> mount_op list" where
  "mount_trace sha io ask confirm w [] = []"
| "mount_trace sha io ask confirm w (op # ops) =
     mount_ops sha io w op @ mount_trace sha io ask confirm (stream_step sha io ask confirm w op) ops"

lemma mounter_run:
  "en_mounter (engine (stream_run sha io ask confirm w ops)) =
     foldl mount_step (en_mounter (engine w)) (mount_trace sha io ask confirm w ops)"
  by (induction ops arbitrary: w) (simp_all add: mounter_step)

lemma mount_trace_origin:
  "x \<in> set (mount_trace sha io ask confirm w ops) \<Longrightarrow>
   \<exists>xs op ys. ops = xs @ op # ys \<and> x \<in> set (mount_ops sha io (stream_run sha io ask confirm w xs) op)"
proof (induction ops arbitrary: w)
  case (Cons op ops)
  show ?case
  proof (cases "x \<in> set (mount_ops sha io w op)")
    case True
    then show ?thesis by (intro exI [of _ "[]"]) auto
  next
    case False
    then have "x \<in> set (mount_trace sha io ask confirm (stream_step sha io ask confirm w op) ops)"
      using Cons.prems by simp
    from Cons.IH [OF this] obtain xs op' ys where "ops = xs @ op' # ys"
        "x \<in> set (mount_ops sha io (stream_run sha io ask confirm (stream_step sha io ask confirm w op) xs) op')"
      by blast
    then show ?thesis by (intro exI [of _ "op # xs"]) auto
  qed
qed simp

lemma planned_run:
  "hm_get (downloads_planned (engine w)) k = Some m \<Longrightarrow>
   \<exists>m'. hm_get (downloads_planned (engine (stream_run sha io ask confirm w ops))) k = Some m' \<and> meta_hash m' = meta_hash m"
proof (induction ops arbitrary: w m)
  case (Cons op ops)
  obtain m1 where "hm_get (downloads_planned (engine (stream_step sha io ask confirm w op))) k = Some m1"
      "meta_hash m1 = meta_hash m"
    using planned_keeps [OF Cons.prems] by blast
  then show ?case using Cons.IH by fastforce
qed simp

lemma datafile_known_run:
  "lookup_data_file (en_datafiles (engine w)) d \<noteq> None \<Longrightarrow>
   lookup_data_file (en_datafiles (engine (stream_run sha io ask confirm w ops))) d \<noteq> None"
  by (induction ops arbitrary: w) (simp_all add: datafile_known_step del: not_None_eq)

lemma verdict_true: "verdict sha io c h \<Longrightarrow> valid_hash h \<and> (\<exists>f b. hm_get (objects c) h = Some f \<and> d_read io f = Some b \<and> sha b = h)"
  by (auto simp: verdict_def verify_def split: sum.splits if_splits option.splits)

lemma verified_origin:
  assumes "MFinishVerify k True detail \<in> set (mount_ops sha io w op)"
  shows "\<exists>meta. op = SVerify k \<and> hm_get (downloads_planned (engine w)) k = Some meta \<and> verdict sha io (cache w) (meta_hash meta)"
proof (cases op)
  case (SVerify a)
  then show ?thesis
    using assms by (cases "hm_get (downloads_planned (engine w)) a") (auto split: if_splits)
qed (use assms in \<open>auto split: if_splits\<close>)

lemma deps_origin:
  assumes "MCheckDeps k resolve \<in> set (mount_ops sha io w op)"
  shows "op = SDeps k \<and> resolve = (\<lambda>d. lookup_data_file (en_datafiles (engine w)) d \<noteq> None)"
  using assms by (cases op) (auto split: option.splits if_splits)

lemma complete_origin: "MComplete k \<in> set (mount_ops sha io w op) \<Longrightarrow> op = SComplete k"
  by (cases op) (auto split: option.splits if_splits)

text \<open>
  C14. The gates of the streaming pipeline. An asset that the engine has registered passed all of them: at
  some earlier moment its download plan named a hash and the cache held, under that hash, a file that
  read back with it; every data file it depends on is in the registry now; and the caller reported the
  commit of the game. Nothing else that happens in between, to this asset or others, to the cache or to
  the registries, gets an asset there.\<close>

theorem streaming_gates:
  assumes "w = stream_run sha io ask confirm (world_new wd c b) ops"
    and "hm_get (records (en_mounter (engine w))) k = Some r" and "m_state r = Registered"
  shows "(\<exists>xs ys meta f bs. ops = xs @ SVerify k # ys \<and>
      hm_get (downloads_planned (engine w)) k = Some meta \<and>
      hm_get (objects (cache (stream_run sha io ask confirm (world_new wd c b) xs))) (meta_hash meta) = Some f \<and>
      d_read io f = Some bs \<and> sha bs = meta_hash meta) \<and>
    list_all (\<lambda>d. lookup_data_file (en_datafiles (engine w)) d \<noteq> None) (dependencies r) \<and>
    SComplete k \<in> set ops"
proof (intro conjI)
  let ?w0 = "world_new wd c b" let ?run = "stream_run sha io ask confirm ?w0"
  let ?tr = "mount_trace sha io ask confirm ?w0 ops"
  have "passed k ?tr r"
    using assms(2) mounter_run [of sha io ask confirm ?w0 ops] gates_passed [of ?tr k r]
    by (simp add: assms(1) world_new_def engine_new_def)
  then obtain detail resolve where p: "MFinishVerify k True detail \<in> set ?tr" "MCheckDeps k resolve \<in> set ?tr"
      "list_all resolve (dependencies r)" "MComplete k \<in> set ?tr"
    using assms(3) by (auto simp: passed_def)
  obtain xs op ys where v: "ops = xs @ op # ys" "MFinishVerify k True detail \<in> set (mount_ops sha io (?run xs) op)"
    using mount_trace_origin [OF p(1)] by blast
  obtain m where m: "op = SVerify k" "hm_get (downloads_planned (engine (?run xs))) k = Some m"
      "verdict sha io (cache (?run xs)) (meta_hash m)"
    using verified_origin [OF v(2)] by blast
  obtain m' where m': "hm_get (downloads_planned (engine w)) k = Some m'" "meta_hash m' = meta_hash m"
    using planned_run [OF m(2), of sha io ask confirm "op # ys"] v(1) assms(1) by auto
  obtain f bs where "hm_get (objects (cache (?run xs))) (meta_hash m') = Some f" "d_read io f = Some bs" "sha bs = meta_hash m'"
    using verdict_true [OF m(3)] m'(2) by auto
  then show "\<exists>xs ys meta f bs. ops = xs @ SVerify k # ys \<and>
      hm_get (downloads_planned (engine w)) k = Some meta \<and>
      hm_get (objects (cache (?run xs))) (meta_hash meta) = Some f \<and> d_read io f = Some bs \<and> sha bs = meta_hash meta"
    using m'(1) v(1) m(1) by blast
  obtain xs op ys where d: "ops = xs @ op # ys" "MCheckDeps k resolve \<in> set (mount_ops sha io (?run xs) op)"
    using mount_trace_origin [OF p(2)] by blast
  have "lookup_data_file (en_datafiles (engine w)) n \<noteq> None" if "resolve n" for n
    using deps_origin [OF d(2)] that datafile_known_run [of "?run xs" n sha io ask confirm "op # ys"] d(1) assms(1) by simp
  then show "list_all (\<lambda>d. lookup_data_file (en_datafiles (engine w)) d \<noteq> None) (dependencies r)"
    using p(3) by (auto simp: list_all_iff)
  show "SComplete k \<in> set ops"
    using mount_trace_origin [OF p(4)] complete_origin by (metis in_set_conv_decomp)
qed

section \<open>The path of one asset\<close>

text \<open>What the four trackers know of an asset.\<close>

definition at_stage ::
  "'b world \<Rightarrow> string \<Rightarrow> asset_meta \<Rightarrow> mount_state \<Rightarrow> string list \<Rightarrow> residency_state option \<Rightarrow> bool" where
  "at_stage w a m st deps res \<longleftrightarrow>
     hm_get (downloads_planned (engine w)) a = Some m \<and>
     (\<exists>r. hm_get (records (en_mounter (engine w))) a = Some r \<and> m_state r = st \<and> dependencies r = deps) \<and>
     state_of (en_residency (engine w)) a = res"

lemma added:
  assumes "hm_get (downloads_planned (engine w)) a = None" and "hm_get (records (en_mounter (engine w))) a = None"
    and "state_of (en_residency (engine w)) a = None"
    and "recognize (en_formats (engine w)) name = Known f" and "plan_new flen clen = Inr p"
  shows "at_stage (stream_step sha io ask confirm w (SAdd a name flen clen h deps l now)) a
      \<lparr>meta_hash = h, meta_lane = l, meta_download = download_new p now, cached = False\<rparr> Queued deps None"
  using assms by (simp add: at_stage_def add_asset_def hm_contains_def queue_asset_def hm_simps Let_def)

lemma chunk_received:
  assumes "at_stage w a m st deps res"
  shows "at_stage (stream_step sha io ask confirm w (SChunk a offset payload now)) a
      (m\<lparr>meta_download := fst (receive (meta_download m) offset payload now)\<rparr>) st deps res"
    and "cache (stream_step sha io ask confirm w (SChunk a offset payload now)) = cache w"
    and "bridge (stream_step sha io ask confirm w (SChunk a offset payload now)) = bridge w"
    and "en_datafiles (engine (stream_step sha io ask confirm w (SChunk a offset payload now))) = en_datafiles (engine w)"
  using assms by (auto simp: at_stage_def receive_chunk_def hm_simps split: prod.splits)

definition send_pieces :: "bytes \<Rightarrow> string \<Rightarrow> (u64 \<times> nat \<times> u64) list \<Rightarrow> stream_op list" where
  "send_pieces src a = map (\<lambda>(offset, n, now). SChunk a offset (piece src offset n) now)"

lemma pieces_received:
  assumes "at_stage w a m st deps res" and "w' = stream_run sha io ask confirm w (send_pieces src a ps)"
  shows "at_stage w' a (m\<lparr>meta_download := foldl (deliver src) (meta_download m) ps\<rparr>) st deps res \<and>
    cache w' = cache w \<and> bridge w' = bridge w \<and> en_datafiles (engine w') = en_datafiles (engine w)"
  using assms
proof (induction ps arbitrary: w m)
  case (Cons p ps)
  obtain offset n now where p: "p = (offset, n, now)" by (cases p)
  note step = chunk_received [OF Cons.prems(1), of sha io ask confirm offset "piece src offset n" now]
  have "deliver src (meta_download m) p = fst (receive (meta_download m) offset (piece src offset n) now)"
    by (simp add: p deliver_def)
  then show ?case using Cons.IH [OF step(1)] Cons.prems(2) step(2-4) by (simp add: send_pieces_def p)
qed (simp add: send_pieces_def)

lemma committed:
  assumes "cache_ok sha c" and "valid_hash (sha bs)"
  shows "\<exists>c1 k c2 path. stage honest c bs = (c1, Inr k) \<and> commit sha honest c1 k (sha bs) = (c2, Inr path) \<and>
    (\<exists>b. hm_get (objects c2) (sha bs) = Some b \<and> sha b = sha bs)"
  using assms
  by (auto simp: stage_def commit_def place_def read_with_def remove_tmp_def honest_def cache_ok_def touch_def hm_simps Let_def
      split: option.splits)

lemma finalized:
  assumes "at_stage w a m st deps res" and "assembled (meta_download m) = Some bs" and "meta_hash m = sha bs"
    and "cache_ok sha (cache w)" and "valid_hash (sha bs)"
  shows "at_stage (stream_step sha honest ask confirm w (SFinalize a)) a (m\<lparr>cached := True\<rparr>) st deps res"
    and "\<exists>b. hm_get (objects (cache (stream_step sha honest ask confirm w (SFinalize a)))) (sha bs) = Some b \<and> sha b = sha bs"
    and "bridge (stream_step sha honest ask confirm w (SFinalize a)) = bridge w"
    and "en_datafiles (engine (stream_step sha honest ask confirm w (SFinalize a))) = en_datafiles (engine w)"
proof -
  obtain c1 k c2 path where c: "stage honest (cache w) bs = (c1, Inr k)" "commit sha honest c1 k (sha bs) = (c2, Inr path)"
      "\<exists>b. hm_get (objects c2) (sha bs) = Some b \<and> sha b = sha bs"
    using committed [OF assms(4,5)] by blast
  have f: "finalize_download sha honest (engine w) a (cache w) =
      ((engine w)\<lparr>downloads_planned := hm_insert a (m\<lparr>cached := True\<rparr>) (downloads_planned (engine w))\<rparr>, c2, Inr ())"
    using assms(1-3) c by (simp add: finalize_download_def at_stage_def)
  show "at_stage (stream_step sha honest ask confirm w (SFinalize a)) a (m\<lparr>cached := True\<rparr>) st deps res"
    using assms(1) by (auto simp: f at_stage_def hm_simps)
  show "\<exists>b. hm_get (objects (cache (stream_step sha honest ask confirm w (SFinalize a)))) (sha bs) = Some b \<and> sha b = sha bs"
    using c(3) by (simp add: f)
qed (use assms(1) in \<open>simp_all add: finalize_download_def at_stage_def split: option.split prod.split sum.split\<close>)

lemma mount_moved:
  assumes "at_stage w a m st deps res"
  shows "st = Queued \<Longrightarrow> valid_hash (meta_hash m) \<Longrightarrow> \<exists>b. hm_get (objects (cache w)) (meta_hash m) = Some b \<and> sha b = meta_hash m \<Longrightarrow>
      at_stage (stream_step sha honest ask confirm w (SVerify a)) a m Verified deps res"
    and "st = Verified \<Longrightarrow> list_all (\<lambda>d. lookup_data_file (en_datafiles (engine w)) d \<noteq> None) deps \<Longrightarrow>
      at_stage (stream_step sha io ask confirm w (SDeps a)) a m DependenciesReady deps res"
    and "st = DependenciesReady \<Longrightarrow> at_stage (stream_step sha io ask confirm w (SBegin a point)) a m MountPending deps res"
    and "st = MountPending \<Longrightarrow> at_stage (stream_step sha io ask confirm w (SComplete a)) a m Mounted deps res"
    and "st = Mounted \<Longrightarrow> at_stage (stream_step sha io ask confirm w (SRegister a)) a m Registered deps res"
proof -
  show "at_stage (stream_step sha honest ask confirm w (SVerify a)) a m Verified deps res"
    if "st = Queued" "valid_hash (meta_hash m)" "\<exists>b. hm_get (objects (cache w)) (meta_hash m) = Some b \<and> sha b = meta_hash m"
    using assms that
    by (auto simp: at_stage_def mount_verify_def begin_verify_def finish_verify_def transition_def check_state_def
        verify_def honest_def hm_simps)
  show "at_stage (stream_step sha io ask confirm w (SDeps a)) a m DependenciesReady deps res"
    if "st = Verified" "list_all (\<lambda>d. lookup_data_file (en_datafiles (engine w)) d \<noteq> None) deps"
  proof -
    have "filter (\<lambda>d. \<not> (lookup_data_file (en_datafiles (engine w)) d \<noteq> None)) deps = []"
      using that(2) by (auto simp: filter_empty_conv list_all_iff)
    then show ?thesis using assms that(1)
      by (auto simp: at_stage_def mount_check_deps_def check_dependencies_def transition_def check_state_def hm_simps)
  qed
qed (use assms in \<open>auto simp: at_stage_def mount_begin_def engine_complete_mount_def mount_register_def
    begin_mount_def complete_mount_def register_mount_def transition_def check_state_def hm_simps\<close>)

lemma requested:
  assumes "at_stage w a m st deps None" and "ask (bridge w) a = (b1, Accepted)"
  shows "\<exists>deadline. at_stage (stream_step sha io ask confirm w (SRequest a now timeout retries)) a m st deps (Some (Resident deadline))"
    and "bridge (stream_step sha io ask confirm w (SRequest a now timeout retries)) = b1"
  using assms
  by (auto simp: at_stage_def engine_residency_request_def request_def state_of_def hm_contains_def hm_simps Let_def)

lemma confirmed:
  assumes "at_stage w a m st deps (Some (Resident deadline))" and "confirm (bridge w) a = (b2, True)"
  shows "at_stage (stream_step sha io ask confirm w (SPoll a now)) a m st deps (Some Ready)"
  using assms
  by (auto simp: at_stage_def residency_poll_def poll_def poll_request_def state_of_def hm_simps)

lemma mounted_path:
  assumes "at_stage w a m Queued deps None" and "valid_hash (meta_hash m)"
    and "\<exists>b. hm_get (objects (cache w)) (meta_hash m) = Some b \<and> sha b = meta_hash m"
    and "list_all (\<lambda>d. lookup_data_file (en_datafiles (engine w)) d \<noteq> None) deps"
    and "ask (bridge w) a = (b1, Accepted)" and "confirm b1 a = (b2, True)"
  shows "at_stage (stream_run sha honest ask confirm w
      [SVerify a, SDeps a, SBegin a point, SComplete a, SRegister a, SRequest a t1 timeout retries, SPoll a t2])
    a m Registered deps (Some Ready)"
proof -
  let ?step = "stream_step sha honest ask confirm"
  define w1 where "w1 = ?step w (SVerify a)"
  define w2 where "w2 = ?step w1 (SDeps a)"
  define w3 where "w3 = ?step w2 (SBegin a point)"
  define w4 where "w4 = ?step w3 (SComplete a)"
  define w5 where "w5 = ?step w4 (SRegister a)"
  define w6 where "w6 = ?step w5 (SRequest a t1 timeout retries)"
  have s1: "at_stage w1 a m Verified deps None" unfolding w1_def by (rule mount_moved(1) [OF assms(1) refl assms(2,3)])
  have "en_datafiles (engine w1) = en_datafiles (engine w)" by (simp only: w1_def datafiles_step stream_op.case)
  then have s2: "at_stage w2 a m DependenciesReady deps None"
    unfolding w2_def using assms(4) by (intro mount_moved(2) [OF s1]) simp_all
  have s5: "at_stage w5 a m Registered deps None"
    unfolding w5_def w4_def w3_def by (rule mount_moved(5) [OF mount_moved(4) [OF mount_moved(3) [OF s2 refl] refl] refl])
  have "bridge w5 = bridge w" by (simp add: w5_def w4_def w3_def w2_def w1_def)
  then have s6: "\<exists>deadline. at_stage w6 a m Registered deps (Some (Resident deadline))" "bridge w6 = b1"
    unfolding w6_def using requested [OF s5, of ask b1] assms(5) by simp_all
  then obtain deadline where "at_stage w6 a m Registered deps (Some (Resident deadline))" by blast
  from confirmed [OF this, of confirm b2] show ?thesis
    using s6(2) assms(6) by (simp add: w6_def w5_def w4_def w3_def w2_def w1_def del: stream_step.simps)
qed

lemma stream_path:
  assumes fresh: "hm_get (downloads_planned (engine w)) a = None" "hm_get (records (en_mounter (engine w))) a = None"
      "state_of (en_residency (engine w)) a = None"
    and asset: "recognize (en_formats (engine w)) name = Known f" "plan_new flen clen = Inr p" "length src = unat flen"
      "valid_hash (sha src)" "list_all (\<lambda>d. lookup_data_file (en_datafiles (engine w)) d \<noteq> None) deps"
    and env: "cache_ok sha (cache w)" "ask (bridge w) a = (b1, Accepted)" "confirm b1 a = (b2, True)"
    and rest: "rs = map (\<lambda>(s, n). (s, unat n, t)) (missing_ranges (foldl (deliver src) (download_new p now) ps))"
    and run: "w' = stream_run sha honest ask confirm w
      (SAdd a name flen clen (sha src) deps l now # send_pieces src a ps @ send_pieces src a rs @
       [SFinalize a, SVerify a, SDeps a, SBegin a point, SComplete a, SRegister a, SRequest a t1 timeout retries, SPoll a t2])"
  shows "\<exists>m. at_stage w' a m Registered deps (Some Ready) \<and> cached m \<and> assembled (meta_download m) = Some src"
proof -
  let ?step = "stream_step sha honest ask confirm" and ?run = "stream_run sha honest ask confirm"
  let ?m = "\<lparr>meta_hash = sha src, meta_lane = l, meta_download = download_new p now, cached = False\<rparr>"
  define w1 where "w1 = ?step w (SAdd a name flen clen (sha src) deps l now)"
  define w2 where "w2 = ?run w1 (send_pieces src a ps @ send_pieces src a rs)"
  define w3 where "w3 = ?step w2 (SFinalize a)"
  have s1: "at_stage w1 a ?m Queued deps None" unfolding w1_def by (rule added [OF fresh asset(1,2)])
  have same1: "cache w1 = cache w" "bridge w1 = bridge w" "en_datafiles (engine w1) = en_datafiles (engine w)"
    by (simp add: w1_def, simp add: w1_def, simp only: w1_def datafiles_step stream_op.case)
  let ?d = "foldl (deliver src) (download_new p now) (ps @ rs)"
  have s2: "at_stage w2 a (?m\<lparr>meta_download := ?d\<rparr>) Queued deps None \<and> cache w2 = cache w1 \<and> bridge w2 = bridge w1 \<and>
      en_datafiles (engine w2) = en_datafiles (engine w1)"
    using pieces_received [OF s1, of w2 sha honest ask confirm src "ps @ rs"] by (simp add: w2_def send_pieces_def)
  have whole: "assembled ?d = Some src"
    using download_resumed [OF asset(3,2), where ps = ps and t = t and start = now] by (simp add: rest resume_def)
  note fin = finalized [OF conjunct1 [OF s2], of src sha ask confirm]
  have s3: "at_stage w3 a (?m\<lparr>meta_download := ?d, cached := True\<rparr>) Queued deps None"
      "\<exists>b. hm_get (objects (cache w3)) (sha src) = Some b \<and> sha b = sha src"
      "bridge w3 = bridge w" "en_datafiles (engine w3) = en_datafiles (engine w)"
    unfolding w3_def using fin whole asset(4) env(1) s2 same1 by simp_all
  have "at_stage w' a (?m\<lparr>meta_download := ?d, cached := True\<rparr>) Registered deps (Some Ready)"
    using mounted_path [OF s3(1), of sha ask b1 confirm b2 point t1 timeout retries t2] s3(2-4) asset(4,5) env(2,3)
    by (simp add: run w3_def w2_def w1_def del: stream_step.simps)
  then show ?thesis using whole by (intro exI [of _ "?m\<lparr>meta_download := ?d, cached := True\<rparr>"]) simp
qed

text \<open>
  C13. The documented path completes. Take an asset that no tracker knows, with a recognised name, a
  hash that is the hash of its file, and data files in the registry. Let a sender deliver any pieces of
  the file, then the ranges that are missing. On a disk that keeps its files, with a bridge that accepts
  and confirms, the steps that follow make the asset ready, and the join gate opens for it.\<close>

theorem stream_completes:
  assumes fresh: "hm_get (downloads_planned (engine w)) a = None" "hm_get (records (en_mounter (engine w))) a = None"
      "state_of (en_residency (engine w)) a = None"
    and asset: "recognize (en_formats (engine w)) name = Known f" "plan_new flen clen = Inr p" "length src = unat flen"
      "valid_hash (sha src)" "list_all (\<lambda>d. lookup_data_file (en_datafiles (engine w)) d \<noteq> None) deps"
    and env: "cache_ok sha (cache w)" "ask (bridge w) a = (b1, Accepted)" "confirm b1 a = (b2, True)"
    and rest: "rs = map (\<lambda>(s, n). (s, unat n, t)) (missing_ranges (foldl (deliver src) (download_new p now) ps))"
    and run: "w' = stream_run sha honest ask confirm w
      (SAdd a name flen clen (sha src) deps l now # send_pieces src a ps @ send_pieces src a rs @
       [SFinalize a, SVerify a, SDeps a, SBegin a point, SComplete a, SRegister a, SRequest a t1 timeout retries, SPoll a t2])"
  shows "asset_state_of (engine w') a t3 = Inr AssetReady \<and> join_ready (engine w') [a] t3"
proof -
  obtain m where "at_stage w' a m Registered deps (Some Ready)"
    using stream_path [OF fresh asset env rest run] by blast
  then show ?thesis by (simp add: at_stage_def asset_state_of_def join_ready_def)
qed

definition demo_ask :: "unit ask" where "demo_ask b a = (b, Accepted)"

definition demo_confirm :: "unit confirm" where "demo_confirm b a = (b, True)"

definition demo_world :: "unit world" where
  "demo_world = world_new (watchdog_new 5) (cache_open 100 [] []) ()"

definition demo_flow :: "stream_op list" where
  "demo_flow =
     SAdd ''car'' ''stream/car.ytd'' 1 1 (demo_sha [1]) [''data/Handling.meta''] Foreground 0 #
     send_pieces [1] ''car'' [] @ send_pieces [1] ''car'' [(0, 1, 2)] @
     [SFinalize ''car'', SVerify ''car'', SDeps ''car'', SBegin ''car'' ''/mnt'', SComplete ''car'', SRegister ''car'',
      SRequest ''car'' 3 10 2, SPoll ''car'' 4]"

lemma demo_given:
  "hm_get (downloads_planned (engine demo_world)) ''car'' = None"
  "hm_get (records (en_mounter (engine demo_world))) ''car'' = None"
  "state_of (en_residency (engine demo_world)) ''car'' = None"
  "\<exists>f. recognize (en_formats (engine demo_world)) ''stream/car.ytd'' = Known f"
  "plan_new 1 1 = Inr \<lparr>file_len = 1, chunk_len = 1, chunk_count = 1\<rparr>"
  "length [1 :: u8] = unat (1 :: u64)"
  "valid_hash (demo_sha [1])"
  "list_all (\<lambda>d. lookup_data_file (en_datafiles (engine demo_world)) d \<noteq> None) [''data/Handling.meta'']"
  "cache_ok demo_sha (cache demo_world)"
  "demo_ask (bridge demo_world) ''car'' = ((), Accepted)"
  "demo_confirm () ''car'' = ((), True)"
  "[(0, 1, 2 :: u64)] = map (\<lambda>(s, n). (s, unat n, 2))
     (missing_ranges (foldl (deliver [1]) (download_new \<lparr>file_len = 1, chunk_len = 1, chunk_count = 1\<rparr> 0) []))"
proof -
  show "\<exists>f. recognize (en_formats (engine demo_world)) ''stream/car.ytd'' = Known f"
    by (rule exI [of _ "\<lparr>extension = ''.ytd'', class_of = Texture, fmt_source = SpecSeed,
       fmt_note = ''spec seed: recognized for routing, content uncertified''\<rparr>"]) code_simp
  show "cache_ok demo_sha (cache demo_world)"
    using cache_run.inv_reach [of demo_sha 100 "[]"] by (simp add: demo_world_def world_new_def)
  show "plan_new 1 1 = Inr \<lparr>file_len = 1, chunk_len = 1, chunk_count = 1\<rparr>"
    by (simp add: plan_new_def div_ceil_def)
  show "valid_hash (demo_sha [1])"
    "list_all (\<lambda>d. lookup_data_file (en_datafiles (engine demo_world)) d \<noteq> None) [''data/Handling.meta'']"
    by code_simp+
  show "[(0, 1, 2 :: u64)] = map (\<lambda>(s, n). (s, unat n, 2))
      (missing_ranges (foldl (deliver [1]) (download_new \<lparr>file_len = 1, chunk_len = 1, chunk_count = 1\<rparr> 0) []))"
    by (simp add: missing_ranges_def download_new_def)
qed (simp_all add: demo_world_def world_new_def engine_new_def mounter_new_def tracker_new_def state_of_def
    demo_ask_def demo_confirm_def)

theorem stream_completes_witness:
  "asset_state_of (engine (stream_run demo_sha honest demo_ask demo_confirm demo_world demo_flow)) ''car'' 9 = Inr AssetReady"
proof -
  obtain f where "recognize (en_formats (engine demo_world)) ''stream/car.ytd'' = Known f" using demo_given(4) by blast
  then show ?thesis
    unfolding demo_flow_def
    by (rule stream_completes [where sha = demo_sha and ask = demo_ask and confirm = demo_confirm and src = "[1]" and w = demo_world, OF demo_given(1-3) _ demo_given(5-12) refl, THEN conjunct1])
qed

text \<open>The demonstration reaches the registration, so the gates speak of it.\<close>

lemma demo_registered:
  "\<exists>r. hm_get (records (en_mounter (engine (stream_run demo_sha honest demo_ask demo_confirm demo_world demo_flow)))) ''car'' =
     Some r \<and> m_state r = Registered"
proof -
  obtain f where f: "recognize (en_formats (engine demo_world)) ''stream/car.ytd'' = Known f" using demo_given(4) by blast
  show ?thesis
    using stream_path [where sha = demo_sha and ask = demo_ask and confirm = demo_confirm and src = "[1]" and w = demo_world, OF demo_given(1-3) f demo_given(5-12) refl]
    unfolding demo_flow_def at_stage_def by blast
qed

theorem streaming_gates_witness:
  "SComplete ''car'' \<in> set demo_flow \<and> (\<exists>xs ys. demo_flow = xs @ SVerify ''car'' # ys)"
proof -
  let ?w = "stream_run demo_sha honest demo_ask demo_confirm demo_world demo_flow"
  obtain r where r: "hm_get (records (en_mounter (engine ?w))) ''car'' = Some r" "m_state r = Registered"
    using demo_registered by blast
  have w: "?w = stream_run demo_sha honest demo_ask demo_confirm (world_new (watchdog_new 5) (cache_open 100 [] []) ()) demo_flow"
    by (simp only: demo_world_def)
  from streaming_gates [OF w r] show ?thesis by blast
qed

text \<open>
  Residency does not look at the mount: an asset of which no byte has arrived can be requested, becomes
  ready when the bridge says so, and opens the join gate.
\<close>

lemma ready_without_download:
  defines "w \<equiv> stream_run demo_sha honest demo_ask demo_confirm demo_world
     [SAdd ''car'' ''stream/car.ytd'' 1 1 (demo_sha [1]) [] Foreground 0, SRequest ''car'' 3 10 2, SPoll ''car'' 4]"
  shows "join_ready (engine w) [''car''] 5" "overall_progress (engine w) = (0, 1)"
    "mount_state_of (en_mounter (engine w)) ''car'' = Some Queued"
proof -
  obtain f where f: "recognize with_spec_seed ''stream/car.ytd'' = Known f"
    using demo_given(4) by (auto simp: demo_world_def world_new_def engine_new_def)
  note defs = w_def demo_world_def world_new_def engine_new_def add_asset_def hm_contains_def plan_new_def div_ceil_def
    queue_asset_def f mounter_new_def tracker_new_def engine_residency_request_def request_def demo_ask_def
    residency_poll_def poll_def poll_request_def demo_confirm_def hm_simps Let_def
  show "join_ready (engine w) [''car''] 5" "overall_progress (engine w) = (0, 1)"
      "mount_state_of (en_mounter (engine w)) ''car'' = Some Queued"
    by (simp_all add: defs join_ready_def asset_state_of_def state_of_def overall_progress_def download_new_def mount_state_of_def)
qed

end
