(* ===== verification/RustNet.thy ===== *)
theory RustNet
  imports RustStrings AstraNet
begin

text \<open>
  Parsing and printing of addresses as the standard library does it (\<open>core::net\<close>): \<open>str::parse\<close> to
  an \<open>IpAddr\<close> and its \<open>Display\<close>. The parser works on bytes and backtracks to where an attempt began.
\<close>

section \<open>Parsing\<close>

definition digit_of :: "int \<Rightarrow> char \<Rightarrow> int option" where
  "digit_of radix c =
     (let v = (if is_digit c then Some (of_char c - 48)
               else if is_lower c then Some (of_char c - 87)
               else if is_upper c then Some (of_char c - 55) else None) in
      case v of None \<Rightarrow> None | Some d \<Rightarrow> if d < radix then Some d else None)"

text \<open>
  \<open>read_number\<close>: at most \<open>max_digits\<close> digits, the value below \<open>limit\<close>, no leading zero unless allowed.
\<close>

fun read_digits :: "int \<Rightarrow> int \<Rightarrow> nat \<Rightarrow> nat \<Rightarrow> int \<Rightarrow> string \<Rightarrow> (nat \<times> int \<times> string) option" where
  "read_digits radix limit max_digits count acc [] = Some (count, acc, [])"
| "read_digits radix limit max_digits count acc (c # cs) =
     (case digit_of radix c of
        None \<Rightarrow> Some (count, acc, c # cs)
      | Some d \<Rightarrow>
          if limit \<le> acc * radix + d \<or> max_digits < count + 1 then None
          else read_digits radix limit max_digits (count + 1) (acc * radix + d) cs)"

definition read_number :: "int \<Rightarrow> int \<Rightarrow> nat \<Rightarrow> bool \<Rightarrow> string \<Rightarrow> (int \<times> string) option" where
  "read_number radix limit max_digits allow_zero_prefix s =
     (case read_digits radix limit max_digits 0 0 s of
        None \<Rightarrow> None
      | Some (count, v, rest) \<Rightarrow>
          if count = 0 then None
          else if \<not> allow_zero_prefix \<and> take 1 s = ''0'' \<and> 1 < count then None
          else Some (v, rest))"

text \<open>\<open>read_separator\<close>: from the second part on, the separator comes first.\<close>

definition read_separator :: "char \<Rightarrow> nat \<Rightarrow> (string \<Rightarrow> ('a \<times> string) option) \<Rightarrow> string \<Rightarrow> ('a \<times> string) option" where
  "read_separator sep i inner s =
     (if i = 0 then inner s
      else case s of [] \<Rightarrow> None | c # cs \<Rightarrow> if c = sep then inner cs else None)"

fun read_octets :: "nat \<Rightarrow> nat \<Rightarrow> string \<Rightarrow> (int list \<times> string) option" where
  "read_octets 0 i s = Some ([], s)"
| "read_octets (Suc n) i s =
     (case read_separator CHR ''.'' i (read_number 10 256 3 False) s of
        None \<Rightarrow> None
      | Some (v, rest) \<Rightarrow> map_option (\<lambda>(vs, r). (v # vs, r)) (read_octets n (i + 1) rest))"

definition v4_of :: "int list \<Rightarrow> u32" where
  "v4_of vs = be_dec (map of_int vs)"

definition read_ipv4 :: "string \<Rightarrow> (int list \<times> string) option" where
  "read_ipv4 s = read_octets 4 0 s"

text \<open>\<open>read_groups\<close>: the groups read, whether they end with an embedded IPv4 address, and the rest.\<close>

fun read_groups :: "nat \<Rightarrow> nat \<Rightarrow> string \<Rightarrow> u16 list \<times> bool \<times> string" where
  "read_groups 0 i s = ([], False, s)"
| "read_groups (Suc n) i s =
     (case (if 0 < n then read_separator CHR '':'' i read_ipv4 s else None) of
        Some (vs, rest) \<Rightarrow>
          ([be_dec [of_int (vs ! 0), of_int (vs ! 1)], be_dec [of_int (vs ! 2), of_int (vs ! 3)]], True, rest)
      | None \<Rightarrow>
          (case read_separator CHR '':'' i (read_number 16 65536 4 True) s of
             None \<Rightarrow> ([], False, s)
           | Some (v, rest) \<Rightarrow> (case read_groups n (i + 1) rest of (gs, v4, r) \<Rightarrow> (of_int v # gs, v4, r))))"

definition v6_of :: "u16 list \<Rightarrow> u128" where
  "v6_of gs = be_dec (concat (map (be_enc 2) gs))"

definition read_ipv6 :: "string \<Rightarrow> (u16 list \<times> string) option" where
  "read_ipv6 s =
     (case read_groups 8 0 s of (front, front_v4, rest) \<Rightarrow>
        if length front = 8 then Some (front, rest)
        else if front_v4 then None
        else
          (case rest of
             c1 # c2 # rest2 \<Rightarrow>
               if c1 = CHR '':'' \<and> c2 = CHR '':'' then
                 (case read_groups (8 - (length front + 1)) 0 rest2 of (back, _, rest3) \<Rightarrow>
                    Some (front @ replicate (8 - length front - length back) 0 @ back, rest3))
               else None
           | _ \<Rightarrow> None))"

text \<open>The whole input must be consumed; an IPv4 address is tried first.\<close>

definition parse_ip :: "string \<Rightarrow> ip_addr option" where
  "parse_ip s =
     (case read_ipv4 s of
        Some (vs, rest) \<Rightarrow> if rest = [] then Some (V4 (v4_of vs)) else None
      | None \<Rightarrow>
          (case read_ipv6 s of
             Some (gs, rest) \<Rightarrow> if rest = [] then Some (V6 (v6_of gs)) else None
           | None \<Rightarrow> None))"

section \<open>Printing\<close>

definition octets_of :: "u32 \<Rightarrow> nat list" where
  "octets_of w = map unat (be_enc 4 w)"

definition show_v4 :: "u32 \<Rightarrow> string" where
  "show_v4 w = join_with ''.'' (map show_nat (octets_of w))"

fun show_hex :: "nat \<Rightarrow> string" where
  "show_hex n =
     (let d = (\<lambda>k. if k < 10 then char_of (48 + k) else char_of (87 + k :: nat)) in
      if n < 16 then [d n] else show_hex (n div 16) @ [d (n mod 16)])"

declare show_hex.simps [simp del]

definition segments_of :: "u128 \<Rightarrow> u16 list" where
  "segments_of w = map (\<lambda>i. ucast (drop_bit (16 * (7 - i)) w)) [0 ..< 8]"

text \<open>The longest run of zero segments, the first one of that length.\<close>

fun zero_run :: "nat \<Rightarrow> u16 list \<Rightarrow> nat \<times> nat \<Rightarrow> nat \<times> nat \<Rightarrow> nat \<times> nat" where
  "zero_run i [] cur longest = longest"
| "zero_run i (g # gs) cur longest =
     (if g = 0 then
        let cur' = ((if snd cur = 0 then i else fst cur), snd cur + 1) in
        zero_run (i + 1) gs cur' (if snd longest < snd cur' then cur' else longest)
      else zero_run (i + 1) gs (0, 0) longest)"

definition show_v6 :: "u128 \<Rightarrow> string" where
  "show_v6 w =
     (let gs = segments_of w; hexes = (\<lambda>xs. join_with '':'' (map (\<lambda>g. show_hex (unat g)) xs)) in
      if drop_bit 32 w = 0xFFFF then ''::ffff:'' @ show_v4 (ucast w)
      else case zero_run 0 gs (0, 0) (0, 0) of (start, n) \<Rightarrow>
        if 1 < n then hexes (take start gs) @ ''::'' @ hexes (drop (start + n) gs) else hexes gs)"

fun show_ip :: "ip_addr \<Rightarrow> string" where
  "show_ip (V4 w) = show_v4 w"
| "show_ip (V6 w) = show_v6 w"

section \<open>Examples and the IPv4 round trip\<close>

lemma parse_examples:
  "parse_ip ''10.0.0.7'' = Some (V4 0x0A000007)"
  "parse_ip ''10.0.0.07'' = None"
  "parse_ip ''2001:db8::1'' = Some (V6 0x20010DB8000000000000000000000001)"
  "parse_ip ''::ffff:1.2.3.4'' = Some (V6 0xFFFF01020304)"
  "parse_ip ''1:2'' = None"
  by code_simp+

lemma digit_dec: "k < 10 \<Longrightarrow> digit_of 10 (char_of (48 + k)) = Some (int k) \<and> (char_of (48 + k) = CHR ''0'' \<longleftrightarrow> k = 0)"
proof -
  have "list_all (\<lambda>k. digit_of 10 (char_of (48 + k)) = Some (int k) \<and> (char_of (48 + k) = CHR ''0'' \<longleftrightarrow> k = 0)) [0 ..< 10]"
    by code_simp
  then show "k < 10 \<Longrightarrow> ?thesis" by (simp add: list_all_iff)
qed

lemma digit_stop: "rest = [] \<or> take 1 rest = ''.'' \<Longrightarrow> read_digits 10 limit m count acc rest = Some (count, acc, rest)"
proof (cases rest)
  case (Cons c cs)
  assume "rest = [] \<or> take 1 rest = ''.''"
  then have "c = CHR ''.''" using Cons by simp
  moreover have "digit_of 10 CHR ''.'' = None" by (simp add: digit_of_def is_digit_def is_lower_def is_upper_def)
  ultimately show ?thesis using Cons by simp
qed simp

lemma read_number_show:
  assumes "n < 256" and "rest = [] \<or> take 1 rest = ''.''"
  shows "read_number 10 256 3 False (show_nat n @ rest) = Some (int n, rest)"
proof -
  note stop = digit_stop [OF assms(2)]
  consider (one) "n < 10" | (two) "10 \<le> n" "n < 100" | (three) "100 \<le> n" by linarith
  then show ?thesis
  proof cases
    case one
    then show ?thesis by (simp add: show_nat.simps [of n] read_number_def digit_dec stop)
  next
    case two
    define a b where "a = n div 10" "b = n mod 10"
    have d: "a < 10" "b < 10" "0 < a" "n = a * 10 + b" using two by (auto simp: a_b_def)
    have "show_nat n = show_nat a @ [char_of (48 + b)]" using two by (simp add: show_nat.simps [of n] a_b_def)
    also have "show_nat a = [char_of (48 + a)]" using d(1) by (simp add: show_nat.simps [of a])
    finally have "show_nat n = [char_of (48 + a), char_of (48 + b)]" by simp
    then show ?thesis using d assms(1) by (simp add: read_number_def digit_dec stop)
  next
    case three
    define a b c where "a = n div 10 div 10" "b = n div 10 mod 10" "c = n mod 10"
    have d: "a < 10" "b < 10" "c < 10" "0 < a" "n = (a * 10 + b) * 10 + c" using three assms(1) by (auto simp: a_b_c_def)
    have "show_nat n = show_nat (n div 10) @ [char_of (48 + c)]" using three by (simp add: show_nat.simps [of n] a_b_c_def)
    also have "show_nat (n div 10) = show_nat a @ [char_of (48 + b)]"
      using three div_le_mono [OF three, of 10] by (simp add: show_nat.simps [of "n div 10"] a_b_c_def)
    also have "show_nat a = [char_of (48 + a)]" using d(1) by (simp add: show_nat.simps [of a])
    finally have "show_nat n = [char_of (48 + a), char_of (48 + b), char_of (48 + c)]" by simp
    then show ?thesis using d assms(1) by (simp add: read_number_def digit_dec stop)
  qed
qed

text \<open>A printed IPv4 address is read back.\<close>

lemma parse_show_v4: "parse_ip (show_ip (V4 w)) = Some (V4 w)"
proof -
  obtain a b c d where o: "be_enc 4 w = [a, b, c, d]"
  proof -
    have "\<exists>a b c d. xs = [a, b, c, d]" if "length xs = 4" for xs :: bytes
      using that by (auto simp: length_Suc_conv numeral_eq_Suc)
    then show thesis using that length_be_enc [of 4 w] by blast
  qed
  have lt: "unat x < 256" for x :: u8 using unsigned_less [of x, where 'a = nat] by simp
  have four: "read_octets 4 0 s = read_octets (Suc (Suc (Suc (Suc 0)))) 0 s" for s by (simp add: numeral_eq_Suc)
  have "read_ipv4 (show_v4 w) = Some ([int (unat a), int (unat b), int (unat c), int (unat d)], [])"
    using read_number_show [OF lt [of a]] read_number_show [OF lt [of b]] read_number_show [OF lt [of c]]
      read_number_show [OF lt [of d], of "[]"]
    by (simp add: four show_v4_def octets_of_def o read_ipv4_def read_separator_def)
  moreover have "v4_of [int (unat a), int (unat b), int (unat c), int (unat d)] = w"
    using be_dec_enc_id [of 4 w] by (simp add: v4_of_def o)
  ultimately show ?thesis by (simp add: parse_ip_def)
qed

end
