(* ===== verification/Sha256.thy ===== *)
theory Sha256
  imports Prelude
begin

text \<open>
  The SHA-256 of the edge gateway (\<open>crates/ald-edge\<close>), which brings its own implementation, and the keyed
  hash on top of it. The reference is the definition of FIPS 180-4: padding by its closed form, the
  message schedule by its recurrence, the digest block by block.
\<close>

section \<open>The implementation\<close>

text \<open>The round constants, in groups of three.\<close>

definition K :: "u32 list" where
  "K = concat
     [[0x428A2F98, 0x71374491, 0xB5C0FBCF], [0xE9B5DBA5, 0x3956C25B, 0x59F111F1], [0x923F82A4, 0xAB1C5ED5, 0xD807AA98],
      [0x12835B01, 0x243185BE, 0x550C7DC3], [0x72BE5D74, 0x80DEB1FE, 0x9BDC06A7], [0xC19BF174, 0xE49B69C1, 0xEFBE4786],
      [0x0FC19DC6, 0x240CA1CC, 0x2DE92C6F], [0x4A7484AA, 0x5CB0A9DC, 0x76F988DA], [0x983E5152, 0xA831C66D, 0xB00327C8],
      [0xBF597FC7, 0xC6E00BF3, 0xD5A79147], [0x06CA6351, 0x14292967, 0x27B70A85], [0x2E1B2138, 0x4D2C6DFC, 0x53380D13],
      [0x650A7354, 0x766A0ABB, 0x81C2C92E], [0x92722C85, 0xA2BFE8A1, 0xA81A664B], [0xC24B8B70, 0xC76C51A3, 0xD192E819],
      [0xD6990624, 0xF40E3585, 0x106AA070], [0x19A4C116, 0x1E376C08, 0x2748774C], [0x34B0BCB5, 0x391C0CB3, 0x4ED8AA4A],
      [0x5B9CCA4F, 0x682E6FF3, 0x748F82EE], [0x78A5636F, 0x84C87814, 0x8CC70208], [0x90BEFFFA, 0xA4506CEB, 0xBEF9A3F7],
      [0xC67178F2]]"

definition H0 :: "u32 list" where
  "H0 = [0x6A09E667, 0xBB67AE85, 0x3C6EF372] @ [0xA54FF53A, 0x510E527F, 0x9B05688C] @ [0x1F83D9AB, 0x5BE0CD19]"

text \<open>The loop that appends zero bytes until eight are missing to a full block.\<close>

function pad_loop :: "bytes \<Rightarrow> bytes" where
  "pad_loop p = (if length p mod 64 \<noteq> 56 then pad_loop (p @ [0]) else p)"
  by pat_completeness auto
termination
proof (relation "measure (\<lambda>p. (120 - length p mod 64) mod 64)")
  fix p :: bytes
  assume p: "length p mod 64 \<noteq> 56"
  have "(120 - r') mod 64 < (120 - r) mod 64"
    if "r < 64" "r \<noteq> 56" "r' = (if r = 63 then 0 else Suc r)" for r r' :: nat
    using that by (cases "r < 56") (auto simp: mod_if)
  from this [of "length p mod 64"] p
  show "(p @ [0], p) \<in> measure (\<lambda>p. (120 - length p mod 64) mod 64)" by (simp add: mod_Suc)
qed simp

declare pad_loop.simps [simp del]

definition padded :: "bytes \<Rightarrow> bytes" where
  "padded msg = pad_loop (msg @ [0x80]) @ be_enc 8 (of_nat (length msg) * 8 :: u64)"

text \<open>\<open>as_chunks::<64>().0\<close>: the full blocks.\<close>

function chunks64 :: "bytes \<Rightarrow> bytes list" where
  "chunks64 p = (if length p < 64 then [] else take 64 p # chunks64 (drop 64 p))"
  by pat_completeness auto
termination by (relation "measure length") auto

declare chunks64.simps [simp del]

fun load_words :: "bytes \<Rightarrow> nat \<Rightarrow> u32 list \<Rightarrow> u32 list" where
  "load_words chunk 0 w = w"
| "load_words chunk (Suc n) w =
     (load_words chunk n w)[n := be_dec [chunk ! (4 * n), chunk ! (4 * n + 1), chunk ! (4 * n + 2), chunk ! (4 * n + 3)]]"

definition extend_word :: "u32 list \<Rightarrow> nat \<Rightarrow> u32 list" where
  "extend_word w i =
     (let s0 = word_rotr 7 (w ! (i - 15)) XOR word_rotr 18 (w ! (i - 15)) XOR drop_bit 3 (w ! (i - 15));
          s1 = word_rotr 17 (w ! (i - 2)) XOR word_rotr 19 (w ! (i - 2)) XOR drop_bit 10 (w ! (i - 2)) in
      w[i := w ! (i - 16) + s0 + w ! (i - 7) + s1])"

definition schedule :: "bytes \<Rightarrow> u32 list" where
  "schedule chunk = foldl extend_word (load_words chunk 16 (replicate 64 0)) [16 ..< 64]"

type_synonym regs = "u32 \<times> u32 \<times> u32 \<times> u32 \<times> u32 \<times> u32 \<times> u32 \<times> u32"

fun round_step :: "u32 list \<Rightarrow> regs \<Rightarrow> nat \<Rightarrow> regs" where
  "round_step w (a, b, c, d, e, f, g, hh) i =
     (let s1 = word_rotr 6 e XOR word_rotr 11 e XOR word_rotr 25 e;
          ch = (e AND f) XOR (NOT e AND g);
          t1 = hh + s1 + ch + K ! i + w ! i;
          s0 = word_rotr 2 a XOR word_rotr 13 a XOR word_rotr 22 a;
          maj = (a AND b) XOR (a AND c) XOR (b AND c);
          t2 = s0 + maj in
      (t1 + t2, a, b, c, d + t1, e, f, g))"

fun add_regs :: "u32 list \<Rightarrow> regs \<Rightarrow> u32 list" where
  "add_regs h (a, b, c, d, e, f, g, hh) =
     [h ! 0 + a, h ! 1 + b, h ! 2 + c, h ! 3 + d, h ! 4 + e, h ! 5 + f, h ! 6 + g, h ! 7 + hh]"

definition compress :: "u32 list \<Rightarrow> bytes \<Rightarrow> u32 list" where
  "compress h chunk =
     (let w = schedule chunk in
      add_regs h (foldl (round_step w) (h ! 0, h ! 1, h ! 2, h ! 3, h ! 4, h ! 5, h ! 6, h ! 7) [0 ..< 64]))"

definition sha256_bytes :: "bytes \<Rightarrow> bytes" where
  "sha256_bytes msg = concat (map (be_enc 4) (foldl compress H0 (chunks64 (padded msg))))"

definition hex_byte :: "u8 \<Rightarrow> string" where
  "hex_byte b =
     (let d = (\<lambda>n :: nat. if n < 10 then char_of (48 + n) else char_of (87 + n)) in [d (unat b div 16), d (unat b mod 16)])"

definition sha256_hex :: "bytes \<Rightarrow> string" where
  "sha256_hex msg = concat (map hex_byte (sha256_bytes msg))"

definition BLOCK :: nat where "BLOCK = 64"

definition hmac_sha256_bytes :: "bytes \<Rightarrow> bytes \<Rightarrow> bytes" where
  "hmac_sha256_bytes key msg =
     (let k0 = (if BLOCK < length key then sha256_bytes key else key);
          k = k0 @ replicate (BLOCK - length k0) 0;
          ipad = map (\<lambda>b. b XOR 0x36) k; opad = map (\<lambda>b. b XOR 0x5c) k in
      sha256_bytes (opad @ sha256_bytes (ipad @ msg)))"

definition hmac_hex :: "bytes \<Rightarrow> bytes \<Rightarrow> string" where
  "hmac_hex key msg = sha256_hex (hmac_sha256_bytes key msg)"

section \<open>The reference\<close>

text \<open>Section 5.1.1: one bit, then the least number of zeros, then the length in bits.\<close>

definition fips_pad :: "bytes \<Rightarrow> bytes" where
  "fips_pad msg = msg @ 0x80 # replicate ((119 - length msg mod 64) mod 64) 0 @ be_enc 8 (of_nat (8 * length msg) :: u64)"

text \<open>Section 5.2.1: the \<open>t\<close>-th word of the \<open>i\<close>-th block.\<close>

definition M :: "bytes \<Rightarrow> nat \<Rightarrow> nat \<Rightarrow> u32" where
  "M p i t = be_dec (take 4 (drop (64 * i + 4 * t) p))"

text \<open>Sections 4.1.2 and 6.2.2.\<close>

definition Ch :: "u32 \<Rightarrow> u32 \<Rightarrow> u32 \<Rightarrow> u32" where
  "Ch x y z = (x AND y) XOR (NOT x AND z)"

definition Maj :: "u32 \<Rightarrow> u32 \<Rightarrow> u32 \<Rightarrow> u32" where
  "Maj x y z = (x AND y) XOR (x AND z) XOR (y AND z)"

definition Sum0 :: "u32 \<Rightarrow> u32" where
  "Sum0 x = word_rotr 2 x XOR word_rotr 13 x XOR word_rotr 22 x"

definition Sum1 :: "u32 \<Rightarrow> u32" where
  "Sum1 x = word_rotr 6 x XOR word_rotr 11 x XOR word_rotr 25 x"

definition sigma0 :: "u32 \<Rightarrow> u32" where
  "sigma0 x = word_rotr 7 x XOR word_rotr 18 x XOR drop_bit 3 x"

definition sigma1 :: "u32 \<Rightarrow> u32" where
  "sigma1 x = word_rotr 17 x XOR word_rotr 19 x XOR drop_bit 10 x"

fun W :: "(nat \<Rightarrow> u32) \<Rightarrow> nat \<Rightarrow> u32" where
  "W m t = (if t < 16 then m t else sigma1 (W m (t - 2)) + W m (t - 7) + sigma0 (W m (t - 15)) + W m (t - 16))"

declare W.simps [simp del]

text \<open>The working variables after \<open>t\<close> rounds.\<close>

primrec fips_rounds :: "(nat \<Rightarrow> u32) \<Rightarrow> regs \<Rightarrow> nat \<Rightarrow> regs" where
  "fips_rounds m r 0 = r"
| "fips_rounds m r (Suc t) =
     (case fips_rounds m r t of (a, b, c, d, e, f, g, h) \<Rightarrow>
        let T1 = h + Sum1 e + Ch e f g + K ! t + W m t; T2 = Sum0 a + Maj a b c in
        (T1 + T2, a, b, c, d + T1, e, f, g))"

text \<open>The hash value after \<open>i\<close> blocks.\<close>

primrec fips_hash :: "bytes \<Rightarrow> nat \<Rightarrow> u32 list" where
  "fips_hash p 0 = H0"
| "fips_hash p (Suc i) =
     (let h = fips_hash p i in
      add_regs h (fips_rounds (M p i) (h ! 0, h ! 1, h ! 2, h ! 3, h ! 4, h ! 5, h ! 6, h ! 7) 64))"

definition fips_sha256 :: "bytes \<Rightarrow> bytes" where
  "fips_sha256 msg = (let p = fips_pad msg in concat (map (be_enc 4) (fips_hash p (length p div 64))))"

section \<open>Equivalence\<close>

lemma pad_loop_closed: "pad_loop p = p @ replicate ((120 - length p mod 64) mod 64) 0"
proof (induction p rule: pad_loop.induct)
  case (1 p)
  show ?case
  proof (cases "length p mod 64 = 56")
    case False
    have "(120 - r) mod 64 = Suc ((120 - r') mod 64)"
      if "r < 64" "r \<noteq> 56" "r' = (if r = 63 then 0 else Suc r)" for r r' :: nat
      using that by (cases "r < 56") (auto simp: mod_if)
    from this [of "length p mod 64"] False
    have "(120 - length p mod 64) mod 64 = Suc ((120 - length (p @ [0]) mod 64) mod 64)" by (simp add: mod_Suc)
    moreover have "pad_loop p = pad_loop (p @ [0])" using False by (simp add: pad_loop.simps [of p])
    ultimately show ?thesis using 1 False by simp
  qed (simp add: pad_loop.simps [of p])
qed

lemma padded_fips: "padded msg = fips_pad msg"
proof -
  have "(120 - Suc n mod 64) mod 64 = (119 - n mod 64) mod 64" for n :: nat
    by (cases "n mod 64 = 63") (auto simp: mod_Suc)
  then show ?thesis by (simp add: padded_def fips_pad_def pad_loop_closed mult.commute)
qed

lemma fips_pad_blocks: "length (fips_pad msg) mod 64 = 0"
proof -
  have "(r + (9 + (119 - r) mod 64)) mod 64 = 0" if "r < 64" for r :: nat
    using that by (cases "r < 56") (auto simp: mod_if)
  from this [of "length msg mod 64"] have "(length msg + (9 + (119 - length msg mod 64) mod 64)) mod 64 = 0"
    by (simp only: mod_add_left_eq)
  then show ?thesis by (simp add: fips_pad_def ac_simps)
qed

lemma chunks64_index: "chunks64 p = map (\<lambda>i. take 64 (drop (64 * i) p)) [0 ..< length p div 64]"
proof (induction p rule: chunks64.induct)
  case (1 p)
  show ?case
  proof (cases "length p < 64")
    case False
    then have n: "length p div 64 = Suc (length (drop 64 p) div 64)" by (simp add: le_div_geq)
    have "chunks64 p = take 64 p # chunks64 (drop 64 p)" using False by (simp add: chunks64.simps [of p])
    also have "\<dots> = map (\<lambda>i. take 64 (drop (64 * i) p)) [0 ..< Suc (length (drop 64 p) div 64)]"
      using 1 [OF False] by (simp add: map_upt_Suc ac_simps del: upt_Suc)
    finally show ?thesis by (simp only: n)
  qed (simp add: chunks64.simps [of p])
qed

lemma take4: "k + 4 \<le> length xs \<Longrightarrow> take 4 (drop k xs) = [xs ! k, xs ! (k + 1), xs ! (k + 2), xs ! (k + 3)]"
  by (simp add: take_Suc_conv_app_nth numeral_eq_Suc nth_drop)

lemma load_words_nth:
  assumes "length chunk = 64" and "length w = 64" and "n \<le> 16"
  shows "length (load_words chunk n w) = 64 \<and>
    (\<forall>t < n. load_words chunk n w ! t = be_dec (take 4 (drop (4 * t) chunk)))"
  using assms(3)
proof (induction n)
  case (Suc n)
  then show ?case using assms take4 [of "4 * n" chunk] by (auto simp: nth_list_update less_Suc_eq)
qed (simp add: assms)

lemma schedule_W:
  assumes "length chunk = 64" and "\<forall>t < 16. m t = be_dec (take 4 (drop (4 * t) chunk))" and "n \<le> 64" and "16 \<le> n"
  shows "length (foldl extend_word (load_words chunk 16 (replicate 64 0)) [16 ..< n]) = 64 \<and>
    (\<forall>t < n. foldl extend_word (load_words chunk 16 (replicate 64 0)) [16 ..< n] ! t = W m t)"
  using assms(3,4)
proof (induction n)
  case (Suc n)
  let ?w = "\<lambda>n. foldl extend_word (load_words chunk 16 (replicate 64 0)) [16 ..< n]"
  show ?case
  proof (cases "n < 16")
    case True
    then have "?w (Suc n) = load_words chunk 16 (replicate 64 0)" using Suc.prems by simp
    moreover have "W m t = m t" if "t < 16" for t using that by (simp add: W.simps)
    ultimately show ?thesis
      using load_words_nth [OF assms(1), of "replicate 64 0" 16] assms(2) Suc.prems True by (auto simp: less_Suc_eq_le)
  next
    case False
    then have IH: "length (?w n) = 64" "\<forall>t < n. ?w n ! t = W m t" using Suc by auto
    have step: "?w (Suc n) = extend_word (?w n) n" using False by simp
    have "W m n = W m (n - 16) + sigma0 (W m (n - 15)) + W m (n - 7) + sigma1 (W m (n - 2))"
      using False by (subst W.simps) (simp add: ac_simps)
    then have "extend_word (?w n) n = (?w n)[n := W m n]"
      using IH False by (simp add: extend_word_def Let_def sigma0_def sigma1_def)
    then show ?thesis using IH step Suc.prems by (auto simp: nth_list_update less_Suc_eq)
  qed
qed simp

lemma rounds_fips:
  assumes "\<forall>t < 64. w ! t = W m t" and "n \<le> 64"
  shows "foldl (round_step w) r [0 ..< n] = fips_rounds m r n"
  using assms(2)
proof (induction n)
  case (Suc n)
  show ?case
  proof (cases "(w, fips_rounds m r n, n)" rule: round_step.cases)
    case 1
    then show ?thesis using Suc assms(1) by (auto simp: Let_def Ch_def Maj_def Sum0_def Sum1_def)
  qed
qed simp

lemma compress_fips:
  assumes "64 * Suc i \<le> length p"
  shows "compress h (take 64 (drop (64 * i) p)) =
    add_regs h (fips_rounds (M p i) (h ! 0, h ! 1, h ! 2, h ! 3, h ! 4, h ! 5, h ! 6, h ! 7) 64)"
proof -
  let ?chunk = "take 64 (drop (64 * i) p)"
  have len: "length ?chunk = 64" using assms by simp
  have "M p i t = be_dec (take 4 (drop (4 * t) ?chunk))" if "t < 16" for t
    using that by (simp add: M_def drop_take min_def add.commute)
  then have "\<forall>t < 64. schedule ?chunk ! t = W (M p i) t"
    using schedule_W [OF len, of "M p i" 64] by (simp add: schedule_def)
  then show ?thesis using rounds_fips [of "schedule ?chunk" "M p i" 64] by (simp add: compress_def Let_def)
qed

lemma hash_fips:
  assumes "64 * n \<le> length p"
  shows "foldl compress H0 (map (\<lambda>i. take 64 (drop (64 * i) p)) [0 ..< n]) = fips_hash p n"
  using assms
proof (induction n)
  case (Suc n)
  then show ?case using compress_fips [of n p] by (simp add: Let_def)
qed simp

text \<open>
  The constants, which the reference shares with the code, are those of the standard: the first 32 bits of the
  fractional parts of the square roots of the first 8 primes and of the cube roots of the first 64, which are the numbers up to 311 without a smaller prime factor.
\<close>

definition root_bits :: "nat \<Rightarrow> int \<Rightarrow> u32 \<Rightarrow> bool" where
  "root_bits e p k = list_ex (\<lambda>n. (n * 2 ^ 32 + uint k) ^ e \<le> p * 2 ^ (32 * e) \<and>
     p * 2 ^ (32 * e) < (n * 2 ^ 32 + uint k + 1) ^ e) [0 .. 18]"

definition small_primes :: "int list" where
  "small_primes = filter (\<lambda>p. list_all (\<lambda>d. p \<le> d \<or> p mod d \<noteq> 0) [2, 3, 5, 7, 11, 13, 17]) [2 .. 311]"

lemma constants_of_primes: "list_all2 (root_bits 3) small_primes K \<and> list_all2 (root_bits 2) (take 8 small_primes) H0"
proof
  have p: "small_primes = [2, 3, 5, 7, 11, 13, 17, 19, 23, 29, 31, 37, 41, 43, 47, 53, 59, 61, 67, 71, 73, 79, 83, 89, 97, 101,
      103, 107, 109, 113, 127, 131, 137, 139, 149, 151, 157, 163, 167, 173, 179, 181, 191, 193, 197, 199, 211, 223, 227, 229, 233,
      239, 241, 251, 257, 263, 269, 271, 277, 281, 283, 293, 307, 311]" by code_simp
  show "list_all2 (root_bits 3) small_primes K" unfolding p K_def by code_simp
  show "list_all2 (root_bits 2) (take 8 small_primes) H0" unfolding p H0_def by code_simp
qed

text \<open>
  C36. The gateway's own SHA-256 is the one of FIPS 180-4: on every message the padding loop, the array of
  the message schedule and the in-place rounds give the digest that the standard's equations define. The tables of
  constants are shared with the reference; that they are the standard's is \<open>constants_of_primes\<close>.\<close>

theorem sha256_fips: "sha256_bytes msg = fips_sha256 msg"
proof -
  let ?p = "fips_pad msg"
  have "64 * (length ?p div 64) \<le> length ?p" by simp
  then show ?thesis by (simp add: sha256_bytes_def fips_sha256_def padded_fips chunks64_index hash_fips Let_def)
qed

lemma length_add_regs [simp]: "length (add_regs h r) = 8"
  by (cases "(h, r)" rule: add_regs.cases) simp

lemma length_compress: "length (compress h chunk) = 8"
  by (simp add: compress_def Let_def)

lemma length_sha256 [simp]: "length (sha256_bytes msg) = 32"
proof -
  have "length (foldl compress h cs) = 8" if "length h = 8" for h cs
    using that by (induction cs arbitrary: h) (simp_all add: length_compress)
  then have "length (foldl compress H0 (chunks64 (padded msg))) = 8" by (simp add: H0_def)
  moreover have "length (concat (map (be_enc 4) ws)) = 4 * length ws" for ws :: "u32 list"
    by (induction ws) auto
  ultimately show ?thesis by (simp add: sha256_bytes_def)
qed

text \<open>The test vector of the standard for \<open>abc\<close>.\<close>

lemma sha256_abc:
  "sha256_hex [97, 98, 99] = ''ba7816bf8f01cfea414140de5dae2223b00361a396177a9cb410ff61f20015ad''"
  by code_simp

end
