(* ===== verification/Query.thy ===== *)
theory Query
  imports RustNet
begin

text \<open>
  The server query protocol (\<open>crates/ald-query\<close>): the probe, the published status with its bounded
  rendering, the legacy views, the rate limiter per source and the handler of a probe. The JSON
  serialiser is a parameter; the clock is an argument of the operations that read it.
\<close>

section \<open>Probe\<close>

definition QUERY_MAGIC :: bytes where "QUERY_MAGIC = [0x41, 0x4C, 0x44, 0x51]"

definition QUERY_VERSION :: u8 where "QUERY_VERSION = 1"

definition MAX_PLAYERS_IN_LIST :: nat where "MAX_PLAYERS_IN_LIST = 64"

definition MAX_RESPONSE_BYTES :: nat where "MAX_RESPONSE_BYTES = 8192"

datatype query_error =
    BadLength nat nat | BadMagic | UnsupportedVersion u8 | TooLarge | Render string | QueryRateLimited | NotListed

record query_probe =
  probe_magic :: bytes
  probe_version :: u8
  probe_nonce :: u32

definition probe_new :: "u32 \<Rightarrow> query_probe" where
  "probe_new n = \<lparr>probe_magic = QUERY_MAGIC, probe_version = QUERY_VERSION, probe_nonce = n\<rparr>"

definition encode_probe :: "query_probe \<Rightarrow> bytes" where
  "encode_probe p = probe_magic p @ [probe_version p] @ le_enc 4 (probe_nonce p)"

definition decode_probe :: "bytes \<Rightarrow> (query_probe, query_error) result" where
  "decode_probe b =
     (if length b \<noteq> 9 then Err (BadLength (length b) 9)
      else
        let magic = [b ! 0, b ! 1, b ! 2, b ! 3]; version = b ! 4 in
        if magic \<noteq> QUERY_MAGIC then Err BadMagic
        else if version \<noteq> QUERY_VERSION then Err (UnsupportedVersion version)
        else Ok \<lparr>probe_magic = magic, probe_version = version, probe_nonce = le_dec [b ! 5, b ! 6, b ! 7, b ! 8]\<rparr>)"

section \<open>Status\<close>

record query_player =
  qp_name :: string
  qp_label :: "string option"

record server_status =
  hostname :: string
  project_name :: "string option"
  project_desc :: "string option"
  protocol_version :: u16
  max_clients :: u32
  online :: u32
  tags :: "string list"
  locale_tag :: "string option"
  game_build :: "string option"
  listed :: bool
  icon_b64 :: "string option"
  st_players :: "query_player list"
  extra :: "(string, string) hmap"
  st_nonce :: u32
  health :: string

text \<open>The serialiser of a status, which may fail with a message.\<close>

type_synonym renderer = "server_status \<Rightarrow> (string, string) result"

text \<open>The loop that sheds one field after another until the text fits.\<close>

function shed :: "renderer \<Rightarrow> server_status \<Rightarrow> bool \<Rightarrow> bool \<Rightarrow> bool \<Rightarrow> (string, query_error) result" where
  "shed render cur shed_icon shed_players shed_extra =
     (case render cur of
        Inl e \<Rightarrow> Err (Render e)
      | Inr s \<Rightarrow>
          if length s \<le> MAX_RESPONSE_BYTES then Ok s
          else if \<not> shed_icon then shed render (cur\<lparr>icon_b64 := None\<rparr>) True shed_players shed_extra
          else if \<not> shed_players then shed render (cur\<lparr>st_players := []\<rparr>) shed_icon True shed_extra
          else if \<not> shed_extra then shed render (cur\<lparr>extra := []\<rparr>) shed_icon shed_players True
          else
            (case render (cur\<lparr>project_desc := None\<rparr>) of
               Inl e \<Rightarrow> Err (Render e)
             | Inr s' \<Rightarrow> if length s' \<le> MAX_RESPONSE_BYTES then Ok s' else Err TooLarge))"
  by pat_completeness auto
termination
  by (relation "measure (\<lambda>(_, _, i, p, x). of_bool (\<not> i) + of_bool (\<not> p) + of_bool (\<not> x))") auto

declare shed.simps [simp del]

definition to_native_json :: "renderer \<Rightarrow> server_status \<Rightarrow> (string, query_error) result" where
  "to_native_json render st = shed render (st\<lparr>st_players := take MAX_PLAYERS_IN_LIST (st_players st)\<rparr>) False False False"

text \<open>The values of the legacy views; their text is the serialiser's.\<close>

datatype json = JStr string | JNum int | JArr "json list" | JObj "(string \<times> json) list"

fun opt_str :: "string option \<Rightarrow> json" where
  "opt_str None = JStr []"
| "opt_str (Some s) = JStr s"

definition legacy_info :: "server_status \<Rightarrow> json" where
  "legacy_info st = JObj
     [(''sv_maxclients'', JNum (uint (max_clients st))), (''sv_hostname'', JStr (hostname st)),
      (''sv_projectName'', opt_str (project_name st)), (''sv_projectDesc'', opt_str (project_desc st)),
      (''sv_tags'', JStr (join_with '','' (tags st))), (''sv_locale'', opt_str (locale_tag st)),
      (''sv_gameBuild'', opt_str (game_build st)), (''icon'', opt_str (icon_b64 st)),
      (''version'', JNum (uint (protocol_version st))), (''health'', JStr (health st))]"

definition legacy_players :: "server_status \<Rightarrow> json" where
  "legacy_players st = JObj [(''players'', JArr (map
     (\<lambda>p. JObj ((''name'', JStr (qp_name p)) # (case qp_label p of None \<Rightarrow> [] | Some l \<Rightarrow> [(''label'', JStr l)])))
     (take MAX_PLAYERS_IN_LIST (st_players st))))]"

definition legacy_dynamic :: "server_status \<Rightarrow> json" where
  "legacy_dynamic st = JObj
     [(''sv_maxclients'', JNum (uint (max_clients st))), (''clients'', JNum (uint (online st))),
      (''gametype'', JStr (case tags st of [] \<Rightarrow> [] | t # _ \<Rightarrow> t)), (''mapname'', opt_str (game_build st))]"

section \<open>Rate limiter and handler\<close>

record query_rate_limiter =
  ql_window :: nat
  max_per_window :: u32
  hits :: "(ip_addr, nat \<times> u32) hmap"

definition limiter_new :: "u32 \<Rightarrow> nat \<Rightarrow> query_rate_limiter" where
  "limiter_new n w = \<lparr>ql_window = w, max_per_window = n, hits = []\<rparr>"

definition limiter_check :: "query_rate_limiter \<Rightarrow> ip_addr \<Rightarrow> nat \<Rightarrow> query_rate_limiter \<times> (unit, query_error) result" where
  "limiter_check q src now =
     (case hm_get (hits q) src of
        None \<Rightarrow> (q\<lparr>hits := hm_insert src (now, 1) (hits q)\<rparr>, Ok ())
      | Some (start, count) \<Rightarrow>
          if now - start < ql_window q then
            (if max_per_window q \<le> count then (q, Err QueryRateLimited)
             else (q\<lparr>hits := hm_insert src (start, count + 1) (hits q)\<rparr>, Ok ()))
          else (q\<lparr>hits := hm_insert src (now, 1) (hits q)\<rparr>, Ok ()))"

definition limiter_gc :: "query_rate_limiter \<Rightarrow> nat \<Rightarrow> query_rate_limiter" where
  "limiter_gc q now = q\<lparr>hits := filter (\<lambda>(_, (start, _)). now - start < ql_window q) (hits q)\<rparr>"

definition tracked_sources :: "query_rate_limiter \<Rightarrow> nat" where
  "tracked_sources q = length (hits q)"

definition handle_query_probe ::
  "renderer \<Rightarrow> server_status \<Rightarrow> query_rate_limiter \<Rightarrow> ip_addr \<Rightarrow> nat \<Rightarrow> bytes \<Rightarrow> query_rate_limiter \<times> (string, query_error) result" where
  "handle_query_probe render st q src now b =
     (case decode_probe b of
        Inl e \<Rightarrow> (q, Err e)
      | Inr probe \<Rightarrow>
          (case limiter_check q src now of
             (q', Inl e) \<Rightarrow> (q', Err e)
           | (q', Inr _) \<Rightarrow>
               let view = st\<lparr>st_nonce := probe_nonce probe\<rparr>;
                   view = (if \<not> listed view then view\<lparr>st_players := [], project_desc := None, extra := []\<rparr> else view) in
               (q', to_native_json render view)))"

section \<open>The probe codec\<close>

lemma probe_roundtrip:
  assumes "probe_magic p = QUERY_MAGIC" and "probe_version p = QUERY_VERSION"
  shows "decode_probe (encode_probe p) = Ok p"
proof -
  obtain a b c d where n: "le_enc 4 (probe_nonce p) = [a, b, c, d]"
  proof -
    have "\<exists>a b c d. xs = [a, b, c, d]" if "length xs = 4" for xs :: bytes
      using that by (auto simp: length_Suc_conv numeral_eq_Suc)
    then show thesis using that length_le_enc [of 4 "probe_nonce p"] by blast
  qed
  have "le_dec [a, b, c, d] = probe_nonce p" using le_dec_enc_id [of 4 "probe_nonce p"] n by simp
  then show ?thesis
    using assms n by (cases p) (simp add: decode_probe_def encode_probe_def QUERY_MAGIC_def QUERY_VERSION_def Let_def del: le_dec.simps)
qed

lemma decode_probe_strict:
  assumes "decode_probe b = Ok p"
  shows "encode_probe p = b \<and> probe_magic p = QUERY_MAGIC \<and> probe_version p = QUERY_VERSION"
proof -
  have l: "length b = 9" using assms by (auto simp: decode_probe_def split: if_splits)
  have b: "b = [b ! 0, b ! 1, b ! 2, b ! 3, b ! 4, b ! 5, b ! 6, b ! 7, b ! 8]"
    using l by (auto simp: list_eq_iff_nth_eq nth_Cons numeral_eq_Suc less_Suc_eq_0_disj split: nat.split)
  have p: "p = \<lparr>probe_magic = [b ! 0, b ! 1, b ! 2, b ! 3], probe_version = b ! 4,
      probe_nonce = le_dec [b ! 5, b ! 6, b ! 7, b ! 8]\<rparr>" "[b ! 0, b ! 1, b ! 2, b ! 3] = QUERY_MAGIC" "b ! 4 = QUERY_VERSION"
    using assms by (auto simp: decode_probe_def Let_def split: if_splits)
  have "le_enc 4 (le_dec xs :: u32) = xs" if "length xs = 4" for xs
    using le_enc_dec [of xs, where 'a = 32] that by simp
  from this [of "[b ! 5, b ! 6, b ! 7, b ! 8]"]
  have "le_enc 4 (le_dec [b ! 5, b ! 6, b ! 7, b ! 8] :: u32) = [b ! 5, b ! 6, b ! 7, b ! 8]" by (simp del: le_dec.simps)
  then have "encode_probe p = [b ! 0, b ! 1, b ! 2, b ! 3, b ! 4, b ! 5, b ! 6, b ! 7, b ! 8]" by (simp add: p(1) encode_probe_def del: le_dec.simps)
  then show ?thesis using b p by simp
qed

interpretation probe_codec: strict_codec "\<lambda>p. Ok (encode_probe p)" decode_probe
    "\<lambda>p. probe_magic p = QUERY_MAGIC \<and> probe_version p = QUERY_VERSION"
  by unfold_locales (auto simp: probe_roundtrip dest: decode_probe_strict)

section \<open>Bounded replies\<close>

text \<open>What shedding never touches.\<close>

definition same_identity :: "server_status \<Rightarrow> server_status \<Rightarrow> bool" where
  "same_identity a b \<longleftrightarrow>
     hostname a = hostname b \<and> max_clients a = max_clients b \<and> online a = online b \<and> health a = health b \<and>
     st_nonce a = st_nonce b \<and> listed a = listed b \<and> tags a = tags b \<and> protocol_version a = protocol_version b"

definition published_below :: "server_status \<Rightarrow> server_status \<Rightarrow> bool" where
  "published_below v cur \<longleftrightarrow> same_identity v cur \<and> (st_players v = [] \<or> st_players v = st_players cur) \<and>
     (extra v = [] \<or> extra v = extra cur) \<and> (project_desc v = None \<or> project_desc v = project_desc cur)"

text \<open>A result is a fitting rendering of such a view, or the failure of one.\<close>

definition fitting :: "renderer \<Rightarrow> server_status \<Rightarrow> (string, query_error) result \<Rightarrow> bool" where
  "fitting render cur r \<longleftrightarrow>
     (\<exists>v. published_below v cur \<and>
        (case r of
           Inr s \<Rightarrow> length s \<le> MAX_RESPONSE_BYTES \<and> render v = Ok s
         | Inl e \<Rightarrow> (\<exists>m. render v = Err m \<and> e = Render m) \<or>
             e = TooLarge \<and> project_desc v = None \<and> (\<exists>s. render v = Ok s \<and> MAX_RESPONSE_BYTES < length s)))"

lemma published_below_trans: "published_below v cur' \<Longrightarrow> published_below cur' cur \<Longrightarrow> published_below v cur"
  by (auto simp: published_below_def same_identity_def)

lemma fitting_below: "fitting render cur' r \<Longrightarrow> published_below cur' cur \<Longrightarrow> fitting render cur r"
  unfolding fitting_def using published_below_trans by blast

lemma published_less:
  "published_below cur cur" "published_below (cur\<lparr>icon_b64 := None\<rparr>) cur" "published_below (cur\<lparr>st_players := []\<rparr>) cur"
  "published_below (cur\<lparr>extra := []\<rparr>) cur" "published_below (cur\<lparr>project_desc := None\<rparr>) cur"
  by (simp_all add: published_below_def same_identity_def)

lemma shed_fitting: "fitting render cur (shed render cur i p x)"
proof (induction render cur i p x rule: shed.induct)
  case (1 render cur i p x)
  show ?case
  proof (cases "render cur")
    case (Inl e)
    then show ?thesis using published_less(1) [of cur] by (auto simp: shed.simps [of render cur] fitting_def)
  next
    case (Inr s)
    show ?thesis
    proof (cases "length s \<le> MAX_RESPONSE_BYTES")
      case True
      then show ?thesis using Inr published_less(1) [of cur] by (auto simp: shed.simps [of render cur] fitting_def)
    next
      case False
      note unfold = shed.simps [of render cur i p x]
      consider "\<not> i" | "i" "\<not> p" | "i" "p" "\<not> x" | "i" "p" "x" by blast
      then show ?thesis
      proof cases
        case 1
        then show ?thesis unfolding unfold
          using "1.IH"(1) [OF Inr False 1] Inr False fitting_below [OF _ published_less(2)] by simp
      next
        case 2
        then show ?thesis unfolding unfold
          using "1.IH"(2) [OF Inr False _ 2(2)] Inr False fitting_below [OF _ published_less(3)] by simp
      next
        case 3
        then show ?thesis unfolding unfold
          using "1.IH"(3) [OF Inr False _ _ 3(3)] Inr False fitting_below [OF _ published_less(4)] by simp
      next
        case 4
        have "fitting render cur (case render (cur\<lparr>project_desc := None\<rparr>) of Inl e \<Rightarrow> Err (Render e)
            | Inr s' \<Rightarrow> if length s' \<le> MAX_RESPONSE_BYTES then Ok s' else Err TooLarge)"
          unfolding fitting_def using published_less(5) [of cur]
          by (intro exI [of _ "cur\<lparr>project_desc := None\<rparr>"]) (auto split: sum.split)
        then show ?thesis unfolding unfold using 4 Inr False by simp
      qed
    qed
  qed
qed

text \<open>
  A reply never exceeds its bound, names at most 64 players, and for an unlisted server neither players
  nor the description nor extra fields, whatever the serialiser does.
\<close>

lemma reply_bounded:
  assumes "handle_query_probe render st q src now b = (q', Inr s)"
  shows "length s \<le> MAX_RESPONSE_BYTES \<and> (\<exists>v. render v = Ok s \<and> length (st_players v) \<le> MAX_PLAYERS_IN_LIST \<and>
    hostname v = hostname st \<and> online v = online st \<and> (\<exists>p. decode_probe b = Ok p \<and> st_nonce v = probe_nonce p) \<and>
    (\<not> listed st \<longrightarrow> st_players v = [] \<and> project_desc v = None \<and> extra v = []))"
proof -
  obtain p where p: "decode_probe b = Ok p" "limiter_check q src now = (q', Ok ())"
    using assms by (auto simp: handle_query_probe_def Let_def split: sum.splits prod.splits)
  define view where "view = st\<lparr>st_nonce := probe_nonce p\<rparr>"
  define view' where "view' = (if \<not> listed view then view\<lparr>st_players := [], project_desc := None, extra := []\<rparr> else view)"
  let ?cur = "view'\<lparr>st_players := take MAX_PLAYERS_IN_LIST (st_players view')\<rparr>"
  have "shed render ?cur False False False = Inr s"
    using assms p by (cases "listed st") (simp_all add: handle_query_probe_def to_native_json_def view_def view'_def Let_def)
  then obtain v where v: "length s \<le> MAX_RESPONSE_BYTES" "render v = Ok s" "published_below v ?cur"
    using shed_fitting [of render ?cur False False False] by (auto simp: fitting_def)
  have "length (st_players v) \<le> MAX_PLAYERS_IN_LIST" using v(3) by (auto simp: published_below_def)
  moreover have "hostname v = hostname st" "online v = online st" "st_nonce v = probe_nonce p"
    "\<not> listed st \<longrightarrow> st_players v = [] \<and> project_desc v = None \<and> extra v = []"
    using v(3) by (auto simp: published_below_def same_identity_def view'_def view_def split: if_splits)
  ultimately show ?thesis using v p(1) by blast
qed

text \<open>The comment of the crate gives another order of shedding: the icon goes before the players.\<close>

lemma icon_shed_first:
  assumes "render cur = Ok s" and "MAX_RESPONSE_BYTES < length s"
    and "render (cur\<lparr>icon_b64 := None\<rparr>) = Ok t" and "length t \<le> MAX_RESPONSE_BYTES"
  shows "shed render cur False False False = Ok t"
  using assms by (simp add: shed.simps [of render cur] shed.simps [of render "cur\<lparr>icon_b64 := None\<rparr>"])

section \<open>The rate limit\<close>

datatype limiter_event = Probe ip_addr nat | Gc nat

fun event_time :: "limiter_event \<Rightarrow> nat" where
  "event_time (Probe _ t) = t"
| "event_time (Gc t) = t"

fun limiter_step :: "query_rate_limiter \<Rightarrow> limiter_event \<Rightarrow> query_rate_limiter" where
  "limiter_step q (Probe src now) = fst (limiter_check q src now)"
| "limiter_step q (Gc now) = limiter_gc q now"

text \<open>The times at which probes of a source were answered.\<close>

fun answered :: "ip_addr \<Rightarrow> query_rate_limiter \<Rightarrow> limiter_event list \<Rightarrow> nat list" where
  "answered src q [] = []"
| "answered src q (ev # evs) =
     (case ev of
        Probe a now \<Rightarrow> if a = src \<and> is_ok (snd (limiter_check q a now)) then [now] else []
      | Gc _ \<Rightarrow> []) @ answered src (limiter_step q ev) evs"

lemma answered_snoc:
  "answered src q (evs @ [ev]) = answered src q evs @
     (case ev of
        Probe a now \<Rightarrow> if a = src \<and> is_ok (snd (limiter_check (foldl limiter_step q evs) a now)) then [now] else []
      | Gc _ \<Rightarrow> [])"
  by (induction evs arbitrary: q) (auto split: limiter_event.split)

definition quota_of :: "query_rate_limiter \<Rightarrow> nat" where
  "quota_of q = max 1 (unat (max_per_window q))"

text \<open>
  The window of a source started last at \<open>s\<close>. The answers since then are counted; those in the window's
  length before it belong to one earlier window; all lie before its end.
\<close>

definition bucket_ok :: "nat \<Rightarrow> nat \<Rightarrow> nat \<Rightarrow> nat list \<Rightarrow> bool" where
  "bucket_ok w m s acc \<longleftrightarrow>
     (\<forall>t. length (filter (\<lambda>x. t \<le> x \<and> x < t + w) acc) \<le> 2 * m) \<and>
     length (filter (\<lambda>x. s \<le> x + w \<and> x < s) acc) \<le> m \<and> length (filter (\<lambda>x. s \<le> x) acc) \<le> m \<and>
     (\<forall>x \<in> set acc. x < s + w)"

lemma filter_le: "(\<And>x. x \<in> set xs \<Longrightarrow> P x \<Longrightarrow> Q x) \<Longrightarrow> length (filter P xs) \<le> length (filter Q xs)"
  by (induction xs) auto

lemma bucket_new:
  assumes "bucket_ok w m s acc" and "acc = [] \<or> s + w \<le> now" and "0 < w" and "1 \<le> m"
  shows "bucket_ok w m now (acc @ [now])" and "length (filter (\<lambda>x. now \<le> x) (acc @ [now])) = 1"
proof -
  note b = assms(1) [unfolded bucket_ok_def]
  have old: "x < now" if "x \<in> set acc" for x using b assms(2) that by fastforce
  then have none: "filter (\<lambda>x. now \<le> x) acc = []" by (fastforce simp: filter_empty_conv)
  then show one: "length (filter (\<lambda>x. now \<le> x) (acc @ [now])) = 1" by simp
  have late: "length (filter (\<lambda>x. now \<le> x + w \<and> P x) acc) \<le> m" for P
  proof -
    have "length (filter (\<lambda>x. now \<le> x + w \<and> P x) acc) \<le> length (filter (\<lambda>x. s \<le> x) acc)"
      using assms(2) by (intro filter_le) auto
    then show ?thesis using b by linarith
  qed
  have "length (filter (\<lambda>x. t \<le> x \<and> x < t + w) (acc @ [now])) \<le> 2 * m" for t
  proof (cases "t \<le> now \<and> now < t + w")
    case True
    have "length (filter (\<lambda>x. t \<le> x \<and> x < t + w) acc) \<le> length (filter (\<lambda>x. now \<le> x + w \<and> True) acc)"
      using True by (intro filter_le) auto
    then show ?thesis using late [of "\<lambda>_. True"] True assms(4) by simp
  next
    case False
    then show ?thesis using b by auto
  qed
  moreover have "length (filter (\<lambda>x. now \<le> x + w \<and> x < now) (acc @ [now])) \<le> m" using late [of "\<lambda>x. x < now"] by simp
  moreover have "\<forall>x \<in> set (acc @ [now]). x < now + w" using assms(3) by (auto dest!: old)
  ultimately show "bucket_ok w m now (acc @ [now])" using one assms(4) by (simp add: bucket_ok_def)
qed

lemma bucket_more:
  assumes "bucket_ok w m s acc" and "s \<le> now" and "now < s + w" and "length (filter (\<lambda>x. s \<le> x) acc) < m"
  shows "bucket_ok w m s (acc @ [now])"
proof -
  note b = assms(1) [unfolded bucket_ok_def]
  have "length (filter (\<lambda>x. t \<le> x \<and> x < t + w) (acc @ [now])) \<le> 2 * m" for t
  proof (cases "t \<le> now \<and> now < t + w")
    case True
    have split: "length (filter P acc) = length (filter (\<lambda>x. P x \<and> x < s) acc) + length (filter (\<lambda>x. P x \<and> s \<le> x) acc)" for P
      by (induction acc) auto
    have "length (filter (\<lambda>x. (t \<le> x \<and> x < t + w) \<and> x < s) acc) \<le> length (filter (\<lambda>x. s \<le> x + w \<and> x < s) acc)"
      using True assms(2) by (intro filter_le) auto
    moreover have "length (filter (\<lambda>x. (t \<le> x \<and> x < t + w) \<and> s \<le> x) acc) \<le> length (filter (\<lambda>x. s \<le> x) acc)"
      by (intro filter_le) auto
    ultimately show ?thesis using split [of "\<lambda>x. t \<le> x \<and> x < t + w"] b assms(4) True by simp
  next
    case False
    then show ?thesis using b by auto
  qed
  then show ?thesis using b assms by (simp add: bucket_ok_def)
qed

definition limit_ok :: "ip_addr \<Rightarrow> query_rate_limiter \<Rightarrow> nat list \<Rightarrow> nat \<Rightarrow> bool" where
  "limit_ok src q acc clock \<longleftrightarrow> hm_wf (hits q) \<and>
     (\<exists>s. bucket_ok (ql_window q) (quota_of q) s acc \<and> s \<le> clock \<and>
       (case hm_get (hits q) src of
          Some (start, c) \<Rightarrow> start = s \<and> length (filter (\<lambda>x. s \<le> x) acc) \<le> unat c
        | None \<Rightarrow> acc = [] \<or> s + ql_window q \<le> clock))"

lemma limit_probe:
  assumes "limit_ok src q acc clock" and "clock \<le> now" and "0 < ql_window q" and "limiter_check q src now = (q', r)"
  shows "limit_ok src q' (if is_ok r then acc @ [now] else acc) now"
proof -
  obtain s where s: "hm_wf (hits q)" "bucket_ok (ql_window q) (quota_of q) s acc" "s \<le> clock"
      "case hm_get (hits q) src of
          Some (start, c) \<Rightarrow> start = s \<and> length (filter (\<lambda>x. s \<le> x) acc) \<le> unat c
        | None \<Rightarrow> acc = [] \<or> s + ql_window q \<le> clock"
    using assms(1) by (auto simp: limit_ok_def)
  have m: "1 \<le> quota_of q" by (simp add: quota_of_def)
  have fresh: "limit_ok src (q\<lparr>hits := hm_insert src (now, 1) (hits q)\<rparr>) (acc @ [now]) now"
    if "acc = [] \<or> s + ql_window q \<le> now"
    using bucket_new [OF s(2) that assms(3) m] s(1) by (auto simp: limit_ok_def quota_of_def hm_simps intro!: exI [of _ now])
  show ?thesis
  proof (cases "hm_get (hits q) src")
    case None
    then show ?thesis using fresh s(4) assms(2,4) by (auto simp: limiter_check_def)
  next
    case (Some sc)
    obtain start c where sc: "sc = (start, c)" by (cases sc)
    have start: "start = s" "length (filter (\<lambda>x. s \<le> x) acc) \<le> unat c" using s(4) Some sc by auto
    consider (over) "s + ql_window q \<le> now" | (refused) "now < s + ql_window q" "max_per_window q \<le> c"
      | (counted) "now < s + ql_window q" "c < max_per_window q" by fastforce
    then show ?thesis
    proof cases
      case over
      then have "\<not> now - s < ql_window q" by linarith
      then show ?thesis using over fresh assms(4) Some sc start(1) by (auto simp: limiter_check_def)
    next
      case refused
      have "now - s < ql_window q" using refused(1) assms(3) by linarith
      then have "q' = q" "\<not> is_ok r" using refused(2) assms(4) Some sc start(1) by (auto simp: limiter_check_def)
      then show ?thesis using s Some sc start assms(2) by (auto simp: limit_ok_def intro!: exI [of _ s])
    next
      case counted
      have c: "unat c < unat (max_per_window q)" using counted(2) by (simp add: word_less_nat_alt)
      then have u: "unat (c + 1) = unat c + 1"
        using unsigned_less [of "max_per_window q", where 'a = nat] by (intro unat_Suc) simp
      have "now - s < ql_window q" using counted(1) assms(3) by linarith
      moreover have "\<not> max_per_window q \<le> c" using counted(2) by simp
      ultimately have q': "q' = q\<lparr>hits := hm_insert src (s, c + 1) (hits q)\<rparr>" "r = Ok ()"
        using assms(4) Some sc start(1) by (auto simp: limiter_check_def)
      have "bucket_ok (ql_window q) (quota_of q) s (acc @ [now])"
        using s(3) assms(2) counted(1) start(2) c by (intro bucket_more [OF s(2)]) (auto simp: quota_of_def)
      then show ?thesis using s(1,3) q' u start(2) assms(2) by (auto simp: limit_ok_def quota_of_def hm_simps intro!: exI [of _ s])
    qed
  qed
qed

lemma limit_step:
  assumes "limit_ok src q acc clock" and "clock \<le> event_time ev" and "0 < ql_window q"
  shows "limit_ok src (limiter_step q ev) (acc @ (case ev of
        Probe a now \<Rightarrow> if a = src \<and> is_ok (snd (limiter_check q a now)) then [now] else []
      | Gc _ \<Rightarrow> [])) (event_time ev)"
proof (cases ev)
  case (Probe a now)
  obtain q' r where c: "limiter_check q a now = (q', r)" by fastforce
  show ?thesis
  proof (cases "a = src")
    case True
    then show ?thesis using limit_probe [OF assms(1) _ assms(3), of now q' r] assms(2) Probe c by auto
  next
    case False
    have "hm_get (hits q') src = hm_get (hits q) src" "ql_window q' = ql_window q" "max_per_window q' = max_per_window q"
        "hm_wf (hits q) \<Longrightarrow> hm_wf (hits q')"
      using c False by (auto simp: limiter_check_def hm_simps split: option.splits if_splits)
    then show ?thesis using assms(1,2) Probe c False unfolding limit_ok_def quota_of_def by (fastforce split: option.splits)
  qed
next
  case (Gc now)
  obtain s where s: "hm_wf (hits q)" "bucket_ok (ql_window q) (quota_of q) s acc" "s \<le> clock"
      "case hm_get (hits q) src of
          Some (start, c) \<Rightarrow> start = s \<and> length (filter (\<lambda>x. s \<le> x) acc) \<le> unat c
        | None \<Rightarrow> acc = [] \<or> s + ql_window q \<le> clock"
    using assms(1) by (auto simp: limit_ok_def)
  have "case hm_get (hits (limiter_gc q now)) src of
          Some (start, c) \<Rightarrow> start = s \<and> length (filter (\<lambda>x. s \<le> x) acc) \<le> unat c
        | None \<Rightarrow> acc = [] \<or> s + ql_window q \<le> now"
    using s(4) assms(2,3) Gc by (auto simp: limiter_gc_def hm_get_filter [OF s(1)] split: option.splits)
  moreover have "hm_wf (hits (limiter_gc q now))" "ql_window (limiter_gc q now) = ql_window q" "quota_of (limiter_gc q now) = quota_of q"
    using s(1) by (simp_all add: limiter_gc_def quota_of_def)
  ultimately show ?thesis using s(2,3) assms(2) Gc by (auto simp: limit_ok_def intro!: exI [of _ s] split: option.splits)
qed

lemma limiter_config: "ql_window (limiter_step q ev) = ql_window q" "max_per_window (limiter_step q ev) = max_per_window q"
  by (cases ev; auto simp: limiter_check_def limiter_gc_def split: option.split)+

lemma limit_run:
  assumes "limit_ok src q acc clock" and "sorted (clock # map event_time evs)" and "0 < ql_window q"
  shows "\<exists>c. limit_ok src (foldl limiter_step q evs) (acc @ answered src q evs) c"
  using assms
proof (induction evs arbitrary: q acc clock)
  case (Cons ev evs)
  have "clock \<le> event_time ev" "sorted (event_time ev # map event_time evs)" using Cons.prems(2) by auto
  from Cons.IH [OF limit_step [OF Cons.prems(1) this(1) Cons.prems(3)] this(2)] show ?case
    using Cons.prems(3) by (simp add: limiter_config)
qed auto

text \<open>
  C15. The query rate limit. Whatever probes arrive from any sources and whenever stale entries are
  collected, on a clock that does not run backwards, no stretch of time as long as the window sees more
  than twice the quota of answers to one source. A quota of zero counts as one: the first probe of every window is
  still answered (\<open>zero_quota_answers\<close>).\<close>

theorem query_rate_bounded:
  assumes "sorted (map event_time evs)"
  shows "length (filter (\<lambda>x. t \<le> x \<and> x < t + w) (answered src (limiter_new n w) evs)) \<le> 2 * max 1 (unat n)"
proof (cases "w = 0")
  case False
  have "bucket_ok w (quota_of (limiter_new n w)) 0 []" by (simp add: bucket_ok_def)
  then have "limit_ok src (limiter_new n w) [] 0" by (auto simp: limit_ok_def limiter_new_def)
  moreover have "sorted (0 # map event_time evs)" using assms by simp
  ultimately obtain c where "limit_ok src (foldl limiter_step (limiter_new n w) evs) (answered src (limiter_new n w) evs) c"
    using limit_run [of src "limiter_new n w" "[]" 0 evs] False by (auto simp: limiter_new_def)
  moreover have "ql_window (foldl limiter_step q evs) = ql_window q \<and> max_per_window (foldl limiter_step q evs) = max_per_window q" for q
    by (induction evs arbitrary: q) (simp_all add: limiter_config)
  ultimately show ?thesis by (simp add: limit_ok_def bucket_ok_def quota_of_def limiter_new_def)
qed (simp add: linorder_not_less [symmetric])

theorem query_rate_bounded_witness:
  "length (filter (\<lambda>x. 5 \<le> x \<and> x < 5 + 10) (answered (V4 1) (limiter_new 2 10)
     [Probe (V4 1) 5, Probe (V4 1) 6, Probe (V4 2) 6, Probe (V4 1) 7, Gc 8, Probe (V4 1) 15])) \<le> 2 * max 1 (unat (2 :: u32))"
  by (rule query_rate_bounded) simp

text \<open>The bound is attained: a full window at its end and a full one at its start.\<close>

lemma query_rate_attained:
  "answered (V4 1) (limiter_new 2 10) [Probe (V4 1) 0, Probe (V4 1) 9, Probe (V4 1) 10, Probe (V4 1) 11] = [0, 9, 10, 11]"
  by code_simp

text \<open>A quota of zero still answers the first probe of every window.\<close>

lemma zero_quota_answers: "snd (limiter_check (limiter_new 0 w) src now) = Ok ()"
  by (simp add: limiter_check_def limiter_new_def)

end
