(* ===== verification/Edge.thy ===== *)
theory Edge
  imports Query Sha256 AegisCrypto
begin

text \<open>
  The edge gateway (\<open>crates/ald-edge\<close>): admission of connections and queries before authentication, the
  stamped identity that the origin verifies, and the health of the origin. Clocks are arguments.
\<close>

section \<open>Configuration and networks\<close>

record edge_config =
  origin :: "ip_addr \<times> u16"
  forward_secret :: string
  per_ip_connection_limit :: u32
  origin_connection_limit :: u32
  query_rate_per_window :: u32
  query_window :: nat
  denied_networks :: "string list"
  shield_allow_networks :: "string list"
  health_check_interval :: nat
  fail_closed :: bool

text \<open>Durations are in nanoseconds.\<close>

definition edge_config_default :: edge_config where
  "edge_config_default =
     \<lparr>origin = (V4 0x7F000001, 30120), forward_secret = [], per_ip_connection_limit = 16,
      origin_connection_limit = 4096, query_rate_per_window = 10, query_window = 10 * 10 ^ 9, denied_networks = [],
      shield_allow_networks = [], health_check_interval = 5 * 10 ^ 9, fail_closed = True\<rparr>"

datatype deny_reason = BannedNetwork | BannedIp | Quarantined

datatype admission_verdict = Allow | DeniedIp deny_reason | DeniedRateLimit | DeniedOriginCapacity | DeniedShielding

datatype edge_error = BadCidr string | OriginCapacity u32 u32 | Shielding

definition parse_net :: "string \<Rightarrow> (ip_addr \<times> u8, edge_error) result" where
  "parse_net s =
     (case split_once CHR ''/'' s of
        None \<Rightarrow> Err (BadCidr s)
      | Some (addr, pre) \<Rightarrow>
          (case parse_ip (trim addr) of
             None \<Rightarrow> Err (BadCidr s)
           | Some ip \<Rightarrow>
               (case parse_unsigned 255 (trim pre) of
                  None \<Rightarrow> Err (BadCidr s)
                | Some n \<Rightarrow>
                    if (if is_ipv4 ip then 32 else 128) < n then Err (BadCidr s) else Ok (ip, of_int n))))"

fun parse_nets :: "string list \<Rightarrow> ((ip_addr \<times> u8) list, edge_error) result" where
  "parse_nets [] = Ok []"
| "parse_nets (s # ss) =
     (case parse_net s of
        Inl e \<Rightarrow> Err e
      | Inr n \<Rightarrow> (case parse_nets ss of Inl e \<Rightarrow> Err e | Inr ns \<Rightarrow> Ok (n # ns)))"

text \<open>A shift in a release build takes its amount modulo the width of the integer.\<close>

fun ip_in_net :: "ip_addr \<Rightarrow> ip_addr \<Rightarrow> u8 \<Rightarrow> bool" where
  "ip_in_net (V4 a) (V4 n) pre =
     (let shift = (32 - unat pre) mod 32 in drop_bit shift a = drop_bit shift n)"
| "ip_in_net (V6 a) (V6 n) pre =
     (let shift = (128 - unat pre) mod 128 in drop_bit shift a = drop_bit shift n)"
| "ip_in_net _ _ _ = False"

section \<open>Admission\<close>

record edge_admission =
  ea_config :: edge_config
  per_ip :: "(ip_addr, u32) hmap"
  denied_ips :: "ip_addr list"
  denied_nets :: "(ip_addr \<times> u8) list"
  shield_nets :: "(ip_addr \<times> u8) list"
  origin_in_use :: u32
  shielding :: bool
  query_limiter :: query_rate_limiter

definition edge_new :: "edge_config \<Rightarrow> (edge_admission, edge_error) result" where
  "edge_new cfg =
     (case parse_nets (denied_networks cfg) of
        Inl e \<Rightarrow> Err e
      | Inr denied \<Rightarrow>
          (case parse_nets (shield_allow_networks cfg) of
             Inl e \<Rightarrow> Err e
           | Inr shield \<Rightarrow>
               Ok \<lparr>ea_config = cfg, per_ip = [], denied_ips = [], denied_nets = denied, shield_nets = shield,
                   origin_in_use = 0, shielding = False,
                   query_limiter = limiter_new (query_rate_per_window cfg) (query_window cfg)\<rparr>))"

definition net_matches :: "(ip_addr \<times> u8) list \<Rightarrow> ip_addr \<Rightarrow> bool" where
  "net_matches nets ip \<longleftrightarrow> list_ex (\<lambda>(net, pre). ip_in_net ip net pre) nets"

definition admit_connection :: "edge_admission \<Rightarrow> ip_addr \<Rightarrow> edge_admission \<times> admission_verdict" where
  "admit_connection a src =
     (if src \<in> set (denied_ips a) \<or> net_matches (denied_nets a) src then
        (a, DeniedIp (if src \<in> set (denied_ips a) then BannedIp else BannedNetwork))
      else if shielding a \<and> (\<not> net_matches (shield_nets a) src \<or> fail_closed (ea_config a)) then (a, DeniedShielding)
      else
        let a1 = a\<lparr>per_ip := hm_or_insert src 0 (per_ip a)\<rparr>; count = hm_get_or 0 (per_ip a1) src in
        if per_ip_connection_limit (ea_config a) \<le> count then (a1, DeniedRateLimit)
        else if origin_connection_limit (ea_config a) \<le> origin_in_use a then (a1, DeniedOriginCapacity)
        else (a1\<lparr>per_ip := hm_insert src (count + 1) (per_ip a1), origin_in_use := origin_in_use a + 1\<rparr>, Allow))"

definition release_connection :: "edge_admission \<Rightarrow> ip_addr \<Rightarrow> edge_admission" where
  "release_connection a src =
     (let a1 = (case hm_get (per_ip a) src of
                  None \<Rightarrow> a
                | Some c \<Rightarrow>
                    let c' = (if 0 < c then c - 1 else c) in
                    if c' = 0 then a\<lparr>per_ip := hm_remove src (per_ip a)\<rparr>
                    else a\<lparr>per_ip := hm_insert src c' (per_ip a)\<rparr>) in
      if 0 < origin_in_use a1 then a1\<lparr>origin_in_use := origin_in_use a1 - 1\<rparr> else a1)"

definition admit_query :: "edge_admission \<Rightarrow> ip_addr \<Rightarrow> nat \<Rightarrow> edge_admission \<times> admission_verdict" where
  "admit_query a src now =
     (if src \<in> set (denied_ips a) \<or> net_matches (denied_nets a) src then (a, DeniedIp BannedNetwork)
      else
        (case limiter_check (query_limiter a) src now of
           (q, Inr _) \<Rightarrow> (a\<lparr>query_limiter := q\<rparr>, Allow)
         | (q, Inl _) \<Rightarrow> (a\<lparr>query_limiter := q\<rparr>, DeniedRateLimit)))"

definition ban_ip :: "edge_admission \<Rightarrow> ip_addr \<Rightarrow> edge_admission" where
  "ban_ip a ip = a\<lparr>denied_ips := List.insert ip (denied_ips a)\<rparr>"

definition unban_ip :: "edge_admission \<Rightarrow> ip_addr \<Rightarrow> edge_admission" where
  "unban_ip a ip = a\<lparr>denied_ips := filter (\<lambda>x. x \<noteq> ip) (denied_ips a)\<rparr>"

definition set_shielding :: "edge_admission \<Rightarrow> bool \<Rightarrow> edge_admission" where
  "set_shielding a s = a\<lparr>shielding := s\<rparr>"

definition edge_gc :: "edge_admission \<Rightarrow> nat \<Rightarrow> edge_admission" where
  "edge_gc a now = a\<lparr>query_limiter := limiter_gc (query_limiter a) now, per_ip := filter (\<lambda>(_, c). 0 < c) (per_ip a)\<rparr>"

section \<open>Forwarded identity\<close>

type_synonym i64 = "64 word"

definition show_i64 :: "i64 \<Rightarrow> string" where
  "show_i64 n = (if sint n < 0 then CHR ''-'' # show_nat (nat (- sint n)) else show_nat (nat (sint n)))"

record forwarded_identity =
  real_ip :: string
  stamp_ts :: i64
  mac :: string

definition stamp_message :: "string \<Rightarrow> i64 \<Rightarrow> string" where
  "stamp_message ip ts = ip @ ''|'' @ show_i64 ts"

definition stamp :: "ip_addr \<Rightarrow> string \<Rightarrow> i64 \<Rightarrow> forwarded_identity" where
  "stamp ip secret ts =
     \<lparr>real_ip = show_ip ip, stamp_ts = ts,
      mac = hmac_hex (str_bytes secret) (str_bytes (stamp_message (show_ip ip) ts))\<rparr>"

text \<open>The difference and the absolute value wrap.\<close>

definition abs_i64 :: "i64 \<Rightarrow> i64" where
  "abs_i64 n = (if sint n < 0 then - n else n)"

definition verify_identity :: "forwarded_identity \<Rightarrow> string \<Rightarrow> i64 \<Rightarrow> i64 \<Rightarrow> (unit, edge_error) result" where
  "verify_identity f secret max_age now =
     (let want = hmac_hex (str_bytes secret) (str_bytes (stamp_message (real_ip f) (stamp_ts f))) in
      if \<not> constant_time_eq (str_bytes want) (str_bytes (mac f)) then Err Shielding
      else if sint max_age < sint (abs_i64 (now - stamp_ts f)) then Err Shielding
      else Ok ())"

section \<open>Health of the origin\<close>

datatype origin_health = Healthy | Degraded | Down

record health_checker =
  hc_state :: origin_health
  last_change :: nat
  consecutive_failures :: u32
  failure_threshold :: u32

definition health_new :: "u32 \<Rightarrow> nat \<Rightarrow> health_checker" where
  "health_new threshold now =
     \<lparr>hc_state = Healthy, last_change = now, consecutive_failures = 0, failure_threshold = threshold\<rparr>"

definition record_health :: "health_checker \<Rightarrow> bool \<Rightarrow> nat \<Rightarrow> health_checker" where
  "record_health h good now =
     (if good then
        let h1 = h\<lparr>consecutive_failures := 0\<rparr> in
        if hc_state h1 \<noteq> Healthy then h1\<lparr>hc_state := Healthy, last_change := now\<rparr> else h1
      else
        let h1 = h\<lparr>consecutive_failures := consecutive_failures h + 1\<rparr>;
            new_state = (if failure_threshold h1 \<le> consecutive_failures h1 then Down else Degraded) in
        if new_state \<noteq> hc_state h1 then h1\<lparr>hc_state := new_state, last_change := now\<rparr> else h1)"

definition since_change :: "health_checker \<Rightarrow> nat \<Rightarrow> nat" where
  "since_change h now = now - last_change h"

section \<open>Networks\<close>

text \<open>For a prefix of at least one bit the test compares the leading bits.\<close>

lemma ip_in_net_prefix:
  "0 < pre \<Longrightarrow> unat pre \<le> 32 \<Longrightarrow> ip_in_net (V4 a) (V4 n) pre \<longleftrightarrow> same_prefix (unat pre) a n"
  "0 < pre \<Longrightarrow> unat pre \<le> 128 \<Longrightarrow> ip_in_net (V6 b) (V6 m) pre \<longleftrightarrow> same_prefix (unat pre) b m"
  by (simp_all add: same_prefix_def word_less_nat_alt Let_def)

text \<open>The prefix zero, which should match every address, matches the base address alone.\<close>

lemma zero_prefix_matches_one: "ip_in_net (V4 a) (V4 n) 0 \<longleftrightarrow> a = n" "ip_in_net (V6 b) (V6 m) 0 \<longleftrightarrow> b = m"
  by simp_all

section \<open>Accounting\<close>

datatype edge_op =
    EAdmit ip_addr | ERelease ip_addr | EQuery ip_addr nat | EBan ip_addr | EUnban ip_addr | EShield bool | EGc nat

fun edge_step :: "edge_admission \<Rightarrow> edge_op \<Rightarrow> edge_admission" where
  "edge_step a (EAdmit src) = fst (admit_connection a src)"
| "edge_step a (ERelease src) = release_connection a src"
| "edge_step a (EQuery src now) = fst (admit_query a src now)"
| "edge_step a (EBan ip) = ban_ip a ip"
| "edge_step a (EUnban ip) = unban_ip a ip"
| "edge_step a (EShield s) = set_shielding a s"
| "edge_step a (EGc now) = edge_gc a now"

definition edge_ok :: "edge_config \<Rightarrow> edge_admission \<Rightarrow> bool" where
  "edge_ok cfg a \<longleftrightarrow> ea_config a = cfg \<and> hm_wf (per_ip a) \<and>
     (\<forall>src c. hm_get (per_ip a) src = Some c \<longrightarrow> c \<le> per_ip_connection_limit cfg) \<and>
     origin_in_use a \<le> origin_connection_limit cfg"

lemma dec_le: "0 < c \<Longrightarrow> c \<le> n \<Longrightarrow> c - 1 \<le> (n :: u32)"
  using unat_minus_one [OF less_imp_neq [symmetric], of c] by (simp add: word_le_nat_alt)

lemma admit_cases:
  obtains (refused) "snd (admit_connection a src) \<noteq> Allow"
      "fst (admit_connection a src) = a \<or> fst (admit_connection a src) = a\<lparr>per_ip := hm_or_insert src 0 (per_ip a)\<rparr>"
  | (allowed) "snd (admit_connection a src) = Allow" "hm_get_or 0 (per_ip a) src < per_ip_connection_limit (ea_config a)"
      "origin_in_use a < origin_connection_limit (ea_config a)"
      "src \<notin> set (denied_ips a)" "\<not> net_matches (denied_nets a) src"
      "shielding a \<longrightarrow> net_matches (shield_nets a) src \<and> \<not> fail_closed (ea_config a)"
      "fst (admit_connection a src) = a\<lparr>per_ip := hm_insert src (hm_get_or 0 (per_ip a) src + 1) (hm_or_insert src 0 (per_ip a)),
         origin_in_use := origin_in_use a + 1\<rparr>"
  by (cases "snd (admit_connection a src) = Allow")
    (auto simp: admit_connection_def Let_def not_le split: if_splits)

lemma hm_or_insert_get: "hm_get (hm_or_insert k d m) x = (if x = k then Some (hm_get_or d m k) else hm_get m x)"
  by (simp add: hm_simps)

lemma edge_ok_step: "edge_ok cfg a \<Longrightarrow> edge_ok cfg (edge_step a op)"
proof (cases op)
  case (EAdmit src)
  assume ok: "edge_ok cfg a"
  have c: "hm_get_or 0 (per_ip a) src \<le> per_ip_connection_limit cfg"
    using ok by (auto simp: edge_ok_def hm_get_or_def split: option.split)
  show ?thesis
  proof (cases rule: admit_cases [of a src])
    case refused
    then show ?thesis using ok c EAdmit by (auto simp: edge_ok_def hm_or_insert_get split: if_splits)
  next
    case allowed
    then show ?thesis using ok EAdmit by (auto simp: edge_ok_def hm_simps inc_le split: if_splits)
  qed
next
  case (ERelease src)
  assume "edge_ok cfg a"
  then show ?thesis
    using ERelease by (auto simp: edge_ok_def release_connection_def hm_simps Let_def dec_le split: option.split if_splits)
next
  case (EQuery src now)
  assume "edge_ok cfg a"
  then show ?thesis using EQuery by (auto simp: edge_ok_def admit_query_def split: prod.split sum.split)
next
  case (EGc now)
  assume "edge_ok cfg a"
  then show ?thesis using EGc by (auto simp: edge_ok_def edge_gc_def hm_get_filter split: option.splits if_splits)
qed (auto simp: edge_ok_def ban_ip_def unban_ip_def set_shielding_def)

lemma edge_ok_new: "edge_new cfg = Ok a \<Longrightarrow> edge_ok cfg a"
  by (auto simp: edge_new_def edge_ok_def split: sum.splits)

lemma edge_ok_run: "edge_ok cfg a \<Longrightarrow> edge_ok cfg (foldl edge_step a ops)"
  by (induction ops arbitrary: a) (auto simp: edge_ok_step)

text \<open>
  The gateway with its history: the sources of the connections that were allowed and not released since, and
  whether every release so far was of such a connection.
\<close>

fun live_step ::
  "edge_admission \<times> ip_addr list \<times> bool \<Rightarrow> edge_op \<Rightarrow> edge_admission \<times> ip_addr list \<times> bool" where
  "live_step (a, conns, matched) (EAdmit src) =
     (edge_step a (EAdmit src), if snd (admit_connection a src) = Allow then src # conns else conns, matched)"
| "live_step (a, conns, matched) (ERelease src) =
     (edge_step a (ERelease src), remove1 src conns, matched \<and> src \<in> set conns)"
| "live_step (a, conns, matched) op = (edge_step a op, conns, matched)"

definition counted :: "edge_admission \<Rightarrow> ip_addr list \<Rightarrow> bool" where
  "counted a conns \<longleftrightarrow> (\<forall>src. count_list conns src = unat (hm_get_or 0 (per_ip a) src))"

definition live_ok :: "edge_config \<Rightarrow> edge_admission \<times> ip_addr list \<times> bool \<Rightarrow> bool" where
  "live_ok cfg s = (case s of (a, conns, matched) \<Rightarrow>
     edge_ok cfg a \<and> counted a conns \<and> (matched \<longrightarrow> length conns = unat (origin_in_use a)))"

lemma below_Suc: "c < (n :: u32) \<Longrightarrow> unat (c + 1) = Suc (unat c)"
  using unsigned_less [of n, where 'a = nat] by (subst unat_Suc) (simp_all add: word_less_nat_alt)

lemma above_pred: "0 < (c :: u32) \<Longrightarrow> unat (c - 1) = unat c - 1"
  by (intro unat_minus_one) auto

lemma count_remove1: "count_list (remove1 x xs) y = (if x = y then count_list xs y - 1 else count_list xs y)"
  by (induction xs) (auto simp: count_list_0_iff)

lemma counted_or_insert: "counted (a\<lparr>per_ip := hm_or_insert src 0 (per_ip a)\<rparr>) conns = counted a conns"
proof -
  have "hm_get_or 0 (hm_or_insert src 0 (per_ip a)) x = hm_get_or 0 (per_ip a) x" for x
    by (simp add: hm_get_or_def hm_or_insert_get split: option.split)
  then show ?thesis by (simp add: counted_def)
qed

lemma counted_release:
  assumes "counted a conns"
  shows "counted (release_connection a src) (remove1 src conns)"
proof -
  have "unat (hm_get_or 0 (per_ip (release_connection a src)) x) =
      (if x = src then unat (hm_get_or 0 (per_ip a) src) - 1 else unat (hm_get_or 0 (per_ip a) x))" for x
    by (auto simp: release_connection_def hm_get_or_def hm_simps Let_def above_pred word_gt_0 split: option.split)
  then show ?thesis using assms by (auto simp: counted_def count_remove1)
qed

lemma release_origin:
  "0 < origin_in_use a \<Longrightarrow> origin_in_use (release_connection a src) = origin_in_use a - 1"
  by (auto simp: release_connection_def Let_def split: option.split)

lemma live_ok_step: "live_ok cfg s \<Longrightarrow> live_ok cfg (live_step s op)"
proof -
  assume "live_ok cfg s"
  then obtain a conns m where s: "s = (a, conns, m)" and ok: "edge_ok cfg a" and c: "counted a conns"
      and o: "m \<longrightarrow> length conns = unat (origin_in_use a)"
    by (cases s) (auto simp: live_ok_def)
  note ok' = edge_ok_step [OF ok, of op]
  show ?thesis
  proof (cases op)
    case (EAdmit src)
    show ?thesis
    proof (cases rule: admit_cases [of a src])
      case refused
      then show ?thesis using ok' c o EAdmit by (auto simp: live_ok_def s counted_or_insert)
    next
      case allowed
      have "counted (fst (admit_connection a src)) (src # conns)"
        using c below_Suc [OF allowed(2)] unfolding allowed(7) counted_def hm_get_or_def
        by (auto simp: hm_or_insert_get hm_simps split: option.splits)
      moreover have "unat (origin_in_use (fst (admit_connection a src))) = Suc (unat (origin_in_use a))"
        unfolding allowed(7) using below_Suc [OF allowed(3)] by simp
      ultimately show ?thesis using ok' o EAdmit allowed(1) by (simp add: live_ok_def s)
    qed
  next
    case (ERelease src)
    have "length (remove1 src conns) = unat (origin_in_use (release_connection a src))" if "m" "src \<in> set conns"
    proof -
      have "0 < unat (origin_in_use a)" using that o by (metis length_pos_if_in_set)
      then have "0 < origin_in_use a" by (simp add: word_less_nat_alt)
      then show ?thesis using that o by (simp add: release_origin above_pred length_remove1)
    qed
    then show ?thesis using ok' counted_release [OF c] ERelease by (simp add: live_ok_def s)
  next
    case (EGc now)
    have "hm_get_or 0 (per_ip (edge_gc a now)) x = hm_get_or 0 (per_ip a) x" for x
      using ok by (auto simp: edge_gc_def edge_ok_def hm_get_or_def hm_get_filter word_gt_0 split: option.splits)
    then show ?thesis using ok' c o EGc by (simp add: live_ok_def s counted_def edge_gc_def)
  qed (use ok' c o in \<open>auto simp: live_ok_def s counted_def ban_ip_def unban_ip_def set_shielding_def admit_query_def
         split: prod.split sum.split\<close>)
qed

interpretation live_run: op_system s "live_step" "\<lambda>t. live_ok cfg s \<longrightarrow> live_ok cfg t" for s cfg
  by unfold_locales (auto intro: live_ok_step)

lemma live_ok_new: "edge_new cfg = Ok a \<Longrightarrow> live_ok cfg (a, [], True)"
  using edge_ok_new [of cfg a] by (auto simp: live_ok_def counted_def edge_new_def hm_get_or_def split: sum.splits)

lemma admit_iff:
  "snd (admit_connection a src) = Allow \<longleftrightarrow>
     src \<notin> set (denied_ips a) \<and> \<not> net_matches (denied_nets a) src \<and>
     (shielding a \<longrightarrow> net_matches (shield_nets a) src \<and> \<not> fail_closed (ea_config a)) \<and>
     hm_get_or 0 (per_ip a) src < per_ip_connection_limit (ea_config a) \<and>
     origin_in_use a < origin_connection_limit (ea_config a)"
  by (auto simp: admit_connection_def Let_def hm_get_or_def hm_or_insert_get not_le)

text \<open>
  C27. Admission at the edge, after any sequence of admissions, releases, queries, bans, shield changes and
  collections. The connections of a source that were allowed and not released since are never more than its
  limit, and its counter is their number. If every release was of such a connection, the origin's count is the
  number of all of them and never exceeds the origin's limit; without that only the counter stays within the limit,
  for a stray release lowers it, after which more connections than the limit are allowed (\<open>stray_release_overcommits\<close>
  below). The next connection is allowed exactly if its source is not banned, no denied network matches it, while the
  origin is shielded a shielded network matches it and the gateway is open, and both counts are below their limits. A
  network matches by its leading bits, except that the prefix 0 matches its base address alone
  (\<open>zero_prefix_matches_one\<close>).\<close>

theorem edge_admission_sound:
  assumes "edge_new cfg = Inr a0" and "foldl live_step (a0, [], True) ops = (a, conns, matched)"
  shows "(\<forall>src. count_list conns src = unat (hm_get_or 0 (per_ip a) src) \<and>
      count_list conns src \<le> unat (per_ip_connection_limit cfg)) \<and>
    (matched \<longrightarrow> length conns = unat (origin_in_use a) \<and> length conns \<le> unat (origin_connection_limit cfg)) \<and>
    origin_in_use a \<le> origin_connection_limit cfg \<and>
    (\<forall>src. snd (admit_connection a src) = Allow \<longleftrightarrow>
       src \<notin> set (denied_ips a) \<and> \<not> net_matches (denied_nets a) src \<and>
       (shielding a \<longrightarrow> net_matches (shield_nets a) src \<and> \<not> fail_closed cfg) \<and>
       count_list conns src < unat (per_ip_connection_limit cfg) \<and>
       origin_in_use a < origin_connection_limit cfg)"
proof -
  have "live_ok cfg (a, conns, matched)"
    using live_run.inv_reach [of cfg "(a0, [], True)" ops] live_ok_new [OF assms(1)] assms(2) by simp
  then have ok: "edge_ok cfg a" and c: "count_list conns src = unat (hm_get_or 0 (per_ip a) src)"
      and o: "matched \<Longrightarrow> length conns = unat (origin_in_use a)" for src
    by (auto simp: live_ok_def counted_def)
  have "hm_get_or 0 (per_ip a) src \<le> per_ip_connection_limit cfg" for src
    using ok by (auto simp: edge_ok_def hm_get_or_def split: option.split)
  then show ?thesis
    using ok o c by (simp add: edge_ok_def admit_iff word_le_nat_alt word_less_nat_alt)
qed

theorem edge_admission_sound_witness:
  "\<exists>a0 a. edge_new edge_config_default = Inr a0 \<and>
     foldl live_step (a0, [], True) [EAdmit (V4 1), EAdmit (V4 2), ERelease (V4 1)] = (a, [V4 2], True) \<and>
     unat (hm_get_or 0 (per_ip a) (V4 2)) = 1"
proof -
  obtain a0 where a0: "edge_new edge_config_default = Inr a0"
    by (simp add: edge_new_def edge_config_default_def)
  have e: "a0 = \<lparr>ea_config = edge_config_default, per_ip = [], denied_ips = [], denied_nets = [],
      shield_nets = [], origin_in_use = 0, shielding = False, query_limiter = limiter_new 10 (10 * 10 ^ 9)\<rparr>"
    using a0 by (simp add: edge_new_def edge_config_default_def)
  have "\<exists>a. foldl live_step (a0, [], True) [EAdmit (V4 1), EAdmit (V4 2), ERelease (V4 1)] = (a, [V4 2], True)"
    by (simp add: e admit_connection_def release_connection_def net_matches_def edge_config_default_def hm_get_or_def
        hm_or_insert_def Let_def word_le_nat_alt)
  then obtain a where a: "foldl live_step (a0, [], True) [EAdmit (V4 1), EAdmit (V4 2), ERelease (V4 1)] = (a, [V4 2], True)"
    by blast
  have "count_list [V4 2] (V4 2) = unat (hm_get_or 0 (per_ip a) (V4 2))" using edge_admission_sound [OF a0 a] by blast
  then show ?thesis using a0 a by auto
qed

text \<open>A release by a source that holds nothing lowers the origin's count, and its limit is then exceeded.\<close>

lemma stray_release_overcommits:
  assumes "edge_new (edge_config_default\<lparr>origin_connection_limit := 1\<rparr>) = Inr a0"
  shows "map (\<lambda>n. snd (admit_connection (foldl edge_step a0 (take n
      [EAdmit (V4 1), ERelease (V4 2)])) (V4 (of_nat n + 1)))) [0, 1, 2] = [Allow, DeniedOriginCapacity, Allow]"
proof -
  have "a0 = \<lparr>ea_config = edge_config_default\<lparr>origin_connection_limit := 1\<rparr>, per_ip = [], denied_ips = [], denied_nets = [],
      shield_nets = [], origin_in_use = 0, shielding = False, query_limiter = limiter_new 10 (10 * 10 ^ 9)\<rparr>"
    using assms by (simp add: edge_new_def edge_config_default_def)
  then show ?thesis
    by (simp add: admit_connection_def release_connection_def net_matches_def edge_config_default_def hm_get_or_def hm_or_insert_def)
qed

section \<open>Identity and health\<close>

text \<open>
  A stamp verifies under its secret while it is fresh, and whatever verifies carries the keyed hash of
  exactly its address and time.
\<close>

lemma stamp_verifies:
  "sint (abs_i64 (now - ts)) \<le> sint max_age \<Longrightarrow> verify_identity (stamp ip secret ts) secret max_age now = Ok ()"
  by (simp add: verify_identity_def stamp_def constant_time_eq_iff Let_def not_less)

lemma verified_mac:
  assumes "verify_identity f secret max_age now = Ok ()"
  shows "mac f = hmac_hex (str_bytes secret) (str_bytes (stamp_message (real_ip f) (stamp_ts f)))"
    and "sint (abs_i64 (now - stamp_ts f)) \<le> sint max_age"
  using assms by (auto simp: verify_identity_def constant_time_eq_iff Let_def not_less dest: str_bytes_inj split: if_splits)

text \<open>
  The checker's state after a series of probes is decided by the failures at its end: none is healthy, at
  least the threshold (if that many probes were made, fewer than \<open>2 ^ 32\<close>) is down, in between it is degraded.
\<close>

definition trailing_failures :: "bool list \<Rightarrow> nat" where
  "trailing_failures ps = length (takeWhile Not (rev ps))"

definition probe_run :: "u32 \<Rightarrow> nat \<Rightarrow> (bool \<times> nat) list \<Rightarrow> health_checker" where
  "probe_run threshold now ps = foldl (\<lambda>h (good, t). record_health h good t) (health_new threshold now) ps"

lemma trailing_failures_snoc [simp]: "trailing_failures [] = 0" "trailing_failures (ps @ [True]) = 0"
  "trailing_failures (ps @ [False]) = Suc (trailing_failures ps)"
  by (simp_all add: trailing_failures_def)

lemma trailing_failures_le: "trailing_failures ps \<le> length ps"
  by (metis trailing_failures_def length_rev length_takeWhile_le)

lemma probe_run_snoc: "probe_run n now (ps @ [(g, t)]) = record_health (probe_run n now ps) g t"
  by (simp add: probe_run_def)

lemma probe_counts:
  "length ps < 2 ^ 32 \<Longrightarrow> failure_threshold (probe_run n now ps) = n \<and>
   unat (consecutive_failures (probe_run n now ps)) = trailing_failures (map fst ps)"
proof (induction ps rule: rev_induct)
  case Nil
  then show ?case by (simp add: probe_run_def health_new_def)
next
  case (snoc p ps)
  obtain g t where p: "p = (g, t)" by (cases p)
  have "unat (consecutive_failures (probe_run n now ps) + 1) = Suc (trailing_failures (map fst ps))"
    using snoc trailing_failures_le [of "map fst ps"] by (subst unat_Suc) simp_all
  then show ?case using snoc by (cases g) (auto simp: p probe_run_snoc record_health_def Let_def)
qed

lemma health_by_failures:
  assumes "length ps < 2 ^ 32"
  shows "hc_state (probe_run n now ps) =
    (if trailing_failures (map fst ps) = 0 then Healthy
     else if unat n \<le> trailing_failures (map fst ps) then Down else Degraded)"
proof (cases ps rule: rev_cases)
  case Nil
  then show ?thesis by (simp add: probe_run_def health_new_def)
next
  case (snoc qs p)
  obtain g t where p: "p = (g, t)" by (cases p)
  have c: "unat (consecutive_failures (probe_run n now ps)) = trailing_failures (map fst ps)"
    and q: "failure_threshold (probe_run n now qs) = n"
    using probe_counts [of ps n now] probe_counts [of qs n now] assms snoc by simp_all
  show ?thesis using c q unfolding snoc p probe_run_snoc
    by (cases g) (auto simp: record_health_def Let_def word_le_nat_alt)
qed

end
