(* ===== verification/NodeRuntime.thy ===== *)
theory NodeRuntime
  imports AssetRegistry Sha256 Msgpack Deferrals AegisCrypto
begin

text \<open>
  The engine-independent half of the Node runtime (\<open>crates/ald-script-node\<close>): profiles, package metadata,
  module resolution, dependency plans, integrity strings, the install policy and the table of built-ins.
  Parameters: the JSON decoder, the \<open>semver\<close> crate and the hash functions of \<open>sha2\<close>.
\<close>

section \<open>Profiles\<close>

datatype node_error =
    BadPackageJson string
  | UnsupportedNodeVersion string
  | EngineMismatch string string string
  | ModuleNotFound string
  | BadIntegrity string
  | IntegrityMismatch string
  | DependencyConflict string
  | InstallScriptDisabled string
  | NativeAddonBlocked string string
  | NativeAddonArchMismatch string string string

datatype node_profile = Node16 | Node22

fun profile_str :: "node_profile \<Rightarrow> string" where
  "profile_str Node16 = ''node16''"
| "profile_str Node22 = ''node22''"

fun profile_version :: "node_profile \<Rightarrow> string" where
  "profile_version Node16 = ''16.20.2''"
| "profile_version Node22 = ''22.11.0''"

definition has_global_fetch :: "node_profile \<Rightarrow> bool" where
  "has_global_fetch p \<longleftrightarrow> p = Node22"

definition has_node_prefix :: "node_profile \<Rightarrow> bool" where
  "has_node_prefix p \<longleftrightarrow> p = Node22"

definition from_manifest :: "string \<Rightarrow> (node_profile, node_error) result" where
  "from_manifest value =
     (let v = dropWhile (\<lambda>c. c = CHR ''v'') (trim value);
          digits = takeWhile is_digit (dropWhile (\<lambda>c. \<not> is_digit c) v) in
      if digits \<in> {''16'', ''17'', ''18''} then Ok Node16
      else if digits \<in> {''20'', ''22'', ''23'', ''24''} then Ok Node22
      else Err (UnsupportedNodeVersion value))"

record profile_selection =
  sel_profile :: node_profile
  sel_declared :: "string option"
  sel_reason :: string

definition select_profile :: "string option \<Rightarrow> (profile_selection, node_error) result" where
  "select_profile declared =
     (case declared of
        Some v \<Rightarrow>
          (case from_manifest v of
             Inl e \<Rightarrow> Err e
           | Inr p \<Rightarrow> Ok \<lparr>sel_profile = p, sel_declared = Some v,
                          sel_reason = ''manifest declared node_version '' @ [CHR 0x27] @ v @ [CHR 0x27]\<rparr>)
      | None \<Rightarrow> Ok \<lparr>sel_profile = Node16, sel_declared = None,
                     sel_reason = ''no node_version declared; legacy Node 16 profile assumed''\<rparr>)"

section \<open>Package metadata\<close>

record package_json =
  pkg_name :: string
  pkg_version :: "string option"
  pkg_main :: "string option"
  scripts :: "(string \<times> string) list"
  dependencies :: "(string \<times> string) list"
  dev_dependencies :: "(string \<times> string) list"
  optional_dependencies :: "(string \<times> string) list"
  engines :: "(string \<times> string) list"
  pkg_cpu :: "string list"
  pkg_os :: "string list"

definition install_scripts :: "package_json \<Rightarrow> (string \<times> string) list" where
  "install_scripts p =
     List.map_filter (\<lambda>k. map_option (\<lambda>v. (k, v)) (map_of (scripts p) k))
       [''preinstall'', ''install'', ''postinstall'', ''prepare'']"

definition all_runtime_deps :: "package_json \<Rightarrow> (string \<times> string) list" where
  "all_runtime_deps p =
     foldl (\<lambda>m (k, v). case map_of m k of None \<Rightarrow> bt_put k v m | Some _ \<Rightarrow> m) (dependencies p) (optional_dependencies p)"

text \<open>The decoder of the raw structure is a parameter; its fields are those of the result.\<close>

type_synonym json_decoder = "string \<Rightarrow> (package_json, string) result"

definition parse_package_json :: "json_decoder \<Rightarrow> string \<Rightarrow> (package_json, node_error) result" where
  "parse_package_json json src =
     (case json src of
        Inl e \<Rightarrow> Err (BadPackageJson e)
      | Inr raw \<Rightarrow> if pkg_name raw = [] then Err (BadPackageJson ''missing `name`'') else Ok raw)"

text \<open>Requirements and versions of \<open>semver\<close>, as far as the code uses them.\<close>

record ('r, 'v) semver =
  req_parse :: "string \<Rightarrow> ('r, string) result"
  version_parse :: "string \<Rightarrow> 'v option"
  req_matches :: "'r \<Rightarrow> 'v \<Rightarrow> bool"
  version_le :: "'v \<Rightarrow> 'v \<Rightarrow> bool"

text \<open>Outer \<open>None\<close>: the \<open>expect\<close> on the version of the profile panics.\<close>

definition check_engines :: "('r, 'v) semver \<Rightarrow> package_json \<Rightarrow> node_profile \<Rightarrow> (unit, node_error) result option" where
  "check_engines sv p profile =
     (case map_of (engines p) ''node'' of
        None \<Rightarrow> Some (Ok ())
      | Some req \<Rightarrow>
          (case req_parse sv req of
             Inl e \<Rightarrow> Some (Err (EngineMismatch (pkg_name p) req (profile_str profile @ '' (unparsable: '' @ e @ '')'')))
           | Inr r \<Rightarrow>
               (case version_parse sv (profile_version profile) of
                  None \<Rightarrow> None
                | Some ver \<Rightarrow>
                    if req_matches sv r ver then Some (Ok ())
                    else Some (Err (EngineMismatch (pkg_name p) req
                           (profile_str profile @ '' ('' @ profile_version profile @ '')''))))))"

section \<open>Module resolution\<close>

record node_fs =
  fs_read :: "string \<Rightarrow> bytes option"
  fs_is_dir :: "string \<Rightarrow> bool"

datatype resolve_kind = JavaScript | Json | NativeAddon

record resolved =
  res_path :: string
  res_kind :: resolve_kind
  from_node_modules :: bool

definition PROBE_EXTS :: "(string \<times> resolve_kind) list" where
  "PROBE_EXTS = [(''.js'', JavaScript), (''.json'', Json), (''.node'', NativeAddon)]"

definition trim_slash :: "string \<Rightarrow> string" where
  "trim_slash p = (if p = ''/'' then ''/'' else trim_end_char CHR ''/'' p)"

definition parent_of :: "string \<Rightarrow> string" where
  "parent_of dir =
     (let d = trim_slash dir in
      if d = ''/'' \<or> d = [] then ''/''
      else (case rsplit_once CHR ''/'' d of
              Some (parent, _) \<Rightarrow> if parent = [] then ''/'' else parent
            | None \<Rightarrow> ''/''))"

text \<open>The parts are kept in order; \<open>..\<close> at the root does nothing.\<close>

definition join_step :: "string list \<Rightarrow> string \<Rightarrow> string list" where
  "join_step parts seg =
     (if seg = [] \<or> seg = ''.'' then parts
      else if seg = ''..'' then butlast parts
      else parts @ [seg])"

definition join_path :: "string \<Rightarrow> string \<Rightarrow> string" where
  "join_path dir rel =
     ''/'' @ join_with ''/'' (foldl join_step (filter (\<lambda>s. s \<noteq> []) (split_on (\<lambda>c. c = CHR ''/'') (trim_slash dir)))
                               (split_on (\<lambda>c. c = CHR ''/'') rel))"

definition ext_of :: "string \<Rightarrow> string option" where
  "ext_of path =
     map_option (\<lambda>(_, e). CHR ''.'' # e) (rsplit_once CHR ''.'' (last_piece (\<lambda>c. c = CHR ''/'') path))"

definition kind_of :: "string \<Rightarrow> resolve_kind" where
  "kind_of base =
     (if ext_of base = Some ''.json'' then Json
      else if ext_of base = Some ''.node'' then NativeAddon else JavaScript)"

fun probe :: "node_fs \<Rightarrow> string \<Rightarrow> (string \<times> resolve_kind) list \<Rightarrow> bool \<Rightarrow> resolved option" where
  "probe fs stem [] nm = None"
| "probe fs stem ((ext, k) # es) nm =
     (if fs_read fs (stem @ ext) \<noteq> None then Some \<lparr>res_path = stem @ ext, res_kind = k, from_node_modules = nm\<rparr>
      else probe fs stem es nm)"

definition text_of :: "bytes \<Rightarrow> string" where
  "text_of bs = map (\<lambda>b. char_of (unat b)) bs"

text \<open>The entry point that the metadata of a directory names.\<close>

definition declared_main :: "json_decoder \<Rightarrow> node_fs \<Rightarrow> string \<Rightarrow> string option" where
  "declared_main json fs base =
     (case fs_read fs (trim_slash base @ ''/package.json'') of
        None \<Rightarrow> None
      | Some bs \<Rightarrow>
          if utf8_valid bs
          then (case parse_package_json json (text_of bs) of Inl _ \<Rightarrow> None | Inr p \<Rightarrow> pkg_main p)
          else None)"

text \<open>Outer \<open>None\<close>: the recursion does not end.\<close>

partial_function (option) load_as_file_or_dir ::
    "json_decoder \<Rightarrow> node_fs \<Rightarrow> bool \<Rightarrow> string \<Rightarrow> resolved option option" where
  "load_as_file_or_dir json fs nm base =
     (if fs_read fs base \<noteq> None then Some (Some \<lparr>res_path = base, res_kind = kind_of base, from_node_modules = nm\<rparr>)
      else
        (case probe fs base PROBE_EXTS nm of
           Some r \<Rightarrow> Some (Some r)
         | None \<Rightarrow>
             if \<not> fs_is_dir fs base then Some None
             else
               (case declared_main json fs base of
                  None \<Rightarrow> Some (probe fs (trim_slash base @ ''/index'') PROBE_EXTS nm)
                | Some m \<Rightarrow>
                    Option.bind (load_as_file_or_dir json fs nm (join_path base m))
                      (\<lambda>r. case r of
                             Some x \<Rightarrow> Some (Some x)
                           | None \<Rightarrow> Some (probe fs (trim_slash base @ ''/index'') PROBE_EXTS nm)))))"

definition is_relative :: "string \<Rightarrow> bool" where
  "is_relative spec \<longleftrightarrow> starts_with spec ''./'' \<or> starts_with spec ''../'' \<or> spec = ''.'' \<or> spec = ''..''"

text \<open>Package name and subpath of a bare specifier.\<close>

definition split_spec :: "string \<Rightarrow> (string \<times> string option) option" where
  "split_spec spec =
     (let (first, tail) = (case split_once CHR ''/'' spec of None \<Rightarrow> (spec, None) | Some (a, b) \<Rightarrow> (a, Some b)) in
      if starts_with first ''@'' then
        (case tail of
           None \<Rightarrow> None
         | Some t \<Rightarrow>
             (case split_once CHR ''/'' t of
                Some (second, rest) \<Rightarrow> Some (first @ ''/'' @ second, Some rest)
              | None \<Rightarrow> Some (first @ ''/'' @ t, None)))
      else Some (first, tail))"

definition modules_target :: "string \<Rightarrow> string \<Rightarrow> string option \<Rightarrow> string" where
  "modules_target dir pkg rest =
     (let root = trim_slash dir @ ''/node_modules/'' @ pkg in
      case rest of Some r \<Rightarrow> root @ ''/'' @ r | None \<Rightarrow> root)"

lemma rsplit_once_shorter: "rsplit_once c s = Some (a, b) \<Longrightarrow> length a < length s"
  by (auto simp: rsplit_once_def dest!: split_once_Some arg_cong [where f = length])

lemma trim_slash_shorter: "length (trim_slash p) \<le> length p"
  using length_dropWhile_le [of "\<lambda>x. x = CHR ''/''" "rev p"] by (simp add: trim_slash_def trim_end_char_def)

lemma parent_of_shorter: "parent_of dir = ''/'' \<or> length (parent_of dir) < length dir"
  using rsplit_once_shorter [of "CHR ''/''" "trim_slash dir"] trim_slash_shorter [of dir]
  by (fastforce simp: parent_of_def Let_def split: option.split)

lemma parent_root [simp]: "parent_of ''/'' = ''/''"
  by (simp add: parent_of_def trim_slash_def)

function walk_up :: "json_decoder \<Rightarrow> node_fs \<Rightarrow> string \<Rightarrow> string option \<Rightarrow> string \<Rightarrow> resolved option option" where
  "walk_up json fs pkg rest dir =
     (case load_as_file_or_dir json fs True (modules_target dir pkg rest) of
        None \<Rightarrow> None
      | Some (Some r) \<Rightarrow> Some (Some r)
      | Some None \<Rightarrow> if parent_of dir = dir then Some None else walk_up json fs pkg rest (parent_of dir))"
  by pat_completeness auto
termination
proof (relation "measure (\<lambda>(_, _, _, _, dir). if dir = ''/'' then 0 else Suc (length dir))", goal_cases)
  case (2 json fs pkg rest dir)
  then show ?case using parent_of_shorter [of dir] by auto
qed simp

definition resolve_module :: "json_decoder \<Rightarrow> node_fs \<Rightarrow> string \<Rightarrow> string \<Rightarrow> (resolved, node_error) result option" where
  "resolve_module json fs spec from_dir =
     (let found = (\<lambda>r. case r of None \<Rightarrow> Err (ModuleNotFound spec) | Some x \<Rightarrow> Ok x) in
      if spec = [] then Some (Err (ModuleNotFound spec))
      else if is_relative spec \<or> starts_with spec ''/'' then
        map_option found
          (load_as_file_or_dir json fs False (if starts_with spec ''/'' then spec else join_path from_dir spec))
      else
        (case split_spec spec of
           None \<Rightarrow> Some (Err (ModuleNotFound spec))
         | Some (pkg, rest) \<Rightarrow>
             if pkg = [] then Some (Err (ModuleNotFound spec))
             else map_option found (walk_up json fs pkg rest from_dir)))"

section \<open>Dependency plans\<close>

record 'v locked_package =
  lp_name :: string
  lp_version :: 'v
  lp_resolved :: string
  lp_integrity :: string

record 'v dependency_plan =
  install_order :: "'v locked_package list"
  unsatisfied :: "(string \<times> string) list"

text \<open>A stable sort by a comparison, and \<open>dedup_by\<close>.\<close>

fun insert_by :: "('a \<Rightarrow> 'a \<Rightarrow> bool) \<Rightarrow> 'a \<Rightarrow> 'a list \<Rightarrow> 'a list" where
  "insert_by le x [] = [x]"
| "insert_by le x (y # ys) = (if le x y then x # y # ys else y # insert_by le x ys)"

definition sort_by :: "('a \<Rightarrow> 'a \<Rightarrow> bool) \<Rightarrow> 'a list \<Rightarrow> 'a list" where
  "sort_by le xs = foldr (insert_by le) xs []"

fun dedup_by :: "('a \<Rightarrow> 'a \<Rightarrow> bool) \<Rightarrow> 'a list \<Rightarrow> 'a list" where
  "dedup_by same (x # y # ys) = (if same y x then dedup_by same (x # ys) else x # dedup_by same (y # ys))"
| "dedup_by same xs = xs"

definition package_le :: "('r, 'v) semver \<Rightarrow> 'v locked_package \<Rightarrow> 'v locked_package \<Rightarrow> bool" where
  "package_le sv a b \<longleftrightarrow> lp_name a < lp_name b \<or> lp_name a = lp_name b \<and> version_le sv (lp_version a) (lp_version b)"

definition range_le :: "string \<times> string \<Rightarrow> string \<times> string \<Rightarrow> bool" where
  "range_le a b \<longleftrightarrow> fst a < fst b \<or> fst a = fst b \<and> snd a \<le> snd b"

text \<open>Later entries of the lock replace earlier ones of the same name.\<close>

definition by_name :: "'v locked_package list \<Rightarrow> (string \<times> 'v locked_package) list" where
  "by_name locked = foldl (\<lambda>m l. bt_put (lp_name l) l m) [] locked"

definition locked_match :: "('r, 'v) semver \<Rightarrow> (string \<times> 'v locked_package) list \<Rightarrow> string \<times> string \<Rightarrow> 'v locked_package option" where
  "locked_match sv names dep =
     (case map_of names (fst dep) of
        None \<Rightarrow> None
      | Some l \<Rightarrow>
          (case req_parse sv (snd dep) of
             Inl _ \<Rightarrow> None
           | Inr r \<Rightarrow> if req_matches sv r (lp_version l) then Some l else None))"

fun plan_loop :: "('r, 'v) semver \<Rightarrow> (string \<times> 'v locked_package) list \<Rightarrow> (string \<times> string) list \<Rightarrow>
    'v locked_package list \<times> (string \<times> string) list \<Rightarrow> 'v locked_package list \<times> (string \<times> string) list" where
  "plan_loop sv names [] acc = acc"
| "plan_loop sv names (d # ds) (ins, uns) =
     plan_loop sv names ds
       (case locked_match sv names d of Some l \<Rightarrow> (ins @ [l], uns) | None \<Rightarrow> (ins, uns @ [d]))"

definition plan_dependencies :: "('r, 'v) semver \<Rightarrow> (string \<times> string) list \<Rightarrow> 'v locked_package list \<Rightarrow> 'v dependency_plan" where
  "plan_dependencies sv deps locked =
     (let (ins, uns) = plan_loop sv (by_name locked) deps ([], []) in
      \<lparr>install_order = dedup_by (\<lambda>a b. lp_name a = lp_name b) (sort_by (package_le sv) ins),
       unsatisfied = sort_by range_le uns\<rparr>)"

section \<open>Integrity\<close>

record integrity =
  algorithm :: string
  digest_hex :: string

definition hex_lower :: "bytes \<Rightarrow> string" where
  "hex_lower bs = concat (map hex_byte bs)"

datatype sextet = Value u32 | Padding | Invalid

definition sextet_of :: "char \<Rightarrow> sextet" where
  "sextet_of c =
     (let b = byte_of c in
      if is_upper c then Value (of_nat (b - 65))
      else if is_lower c then Value (of_nat (b - 97 + 26))
      else if is_digit c then Value (of_nat (b - 48 + 52))
      else if c = CHR ''+'' then Value 62
      else if c = CHR ''/'' then Value 63
      else if c = CHR ''='' then Padding
      else Invalid)"

fun base64_loop :: "u32 \<Rightarrow> nat \<Rightarrow> bytes \<Rightarrow> string \<Rightarrow> bytes option" where
  "base64_loop acc bits out [] = Some out"
| "base64_loop acc bits out (c # cs) =
     (case sextet_of c of
        Invalid \<Rightarrow> None
      | Padding \<Rightarrow> Some out
      | Value v \<Rightarrow>
          let acc' = push_bit 6 acc OR v; bits' = bits + 6 in
          if 8 \<le> bits' then base64_loop acc' (bits' - 8) (out @ [ucast (drop_bit (bits' - 8) acc')]) cs
          else base64_loop acc' bits' out cs)"

definition base64_decode :: "string \<Rightarrow> bytes option" where
  "base64_decode s = base64_loop 0 0 [] s"

definition digest_length :: "string \<Rightarrow> nat option" where
  "digest_length algo = (if algo = ''sha512'' then Some 64 else if algo = ''sha256'' then Some 32 else None)"

definition parse_integrity :: "string \<Rightarrow> (integrity, node_error) result" where
  "parse_integrity s =
     (case split_once CHR ''-'' s of
        None \<Rightarrow> Err (BadIntegrity s)
      | Some (algo, b64) \<Rightarrow>
          (case digest_length algo of
             None \<Rightarrow> Err (BadIntegrity s)
           | Some want \<Rightarrow>
               (case base64_decode b64 of
                  None \<Rightarrow> Err (BadIntegrity s)
                | Some raw \<Rightarrow>
                    if length raw \<noteq> want then Err (BadIntegrity s)
                    else Ok \<lparr>algorithm = algo, digest_hex = hex_lower raw\<rparr>)))"

text \<open>The hash functions of \<open>sha2\<close> by name.\<close>

type_synonym hashes = "string \<Rightarrow> bytes \<Rightarrow> bytes"

definition verify_integrity :: "hashes \<Rightarrow> string \<Rightarrow> bytes \<Rightarrow> (unit, node_error) result" where
  "verify_integrity digest integrity bs =
     (case parse_integrity integrity of
        Inl e \<Rightarrow> Err e
      | Inr p \<Rightarrow>
          if hex_lower (digest (algorithm p) bs) = digest_hex p then Ok () else Err (IntegrityMismatch integrity))"

text \<open>\<open>None\<close>: a slice of the digest panics.\<close>

definition cache_path :: "integrity \<Rightarrow> string option" where
  "cache_path i =
     (let h = digest_hex i in
      if length h < 4 \<or> \<not> is_char_boundary h 2 \<or> \<not> is_char_boundary h 4 then None
      else Some (''cache/content-v2/'' @ algorithm i @ ''/'' @ take 2 h @ ''/'' @ take 2 (drop 2 h) @ ''/'' @ drop 4 h))"

section \<open>Policy\<close>

record install_policy =
  allow_install_scripts :: bool
  allow_native_addons :: bool
  host_target :: string

definition install_policy_default :: "string \<Rightarrow> install_policy" where
  "install_policy_default default_target =
     \<lparr>allow_install_scripts = False, allow_native_addons = False, host_target = default_target\<rparr>"

definition evaluate_install :: "package_json \<Rightarrow> string list \<Rightarrow> install_policy \<Rightarrow> (unit, node_error) result" where
  "evaluate_install p addons policy =
     (if \<not> allow_install_scripts policy \<and> install_scripts p \<noteq> [] then
        Err (InstallScriptDisabled (pkg_name p @ '' ('' @ fst (hd (install_scripts p)) @ '')''))
      else if addons \<noteq> [] then
        (if \<not> allow_native_addons policy then Err (NativeAddonBlocked (pkg_name p) (hd addons))
         else if pkg_cpu p \<noteq> [] \<and> \<not> list_ex (\<lambda>c. contains_str (host_target policy) c) (pkg_cpu p) then
           Err (NativeAddonArchMismatch (pkg_name p) (join_with '','' (pkg_cpu p)) (host_target policy))
         else Ok ())
      else Ok ())"

datatype builtin_grade = BuiltinAllowed | CapabilityGated string | BuiltinDenied

definition CAP_FS :: string where "CAP_FS = ''node.fs''"

definition CAP_NET :: string where "CAP_NET = ''node.net''"

definition CAP_PROCESS :: string where "CAP_PROCESS = ''node.process''"

definition CAP_CHILD :: string where "CAP_CHILD = ''node.child_process''"

definition unprefixed :: "string \<Rightarrow> string" where
  "unprefixed name = (case strip_prefix name ''node:'' of Some n \<Rightarrow> n | None \<Rightarrow> name)"

definition builtin_access :: "string \<Rightarrow> builtin_grade" where
  "builtin_access name =
     (let n = unprefixed name in
      if n \<in> {''assert'', ''buffer'', ''events'', ''path'', ''querystring'', ''string_decoder'', ''url'', ''util'', ''punycode''}
        then BuiltinAllowed
      else if n = ''crypto'' then CapabilityGated ''node.crypto''
      else if n \<in> {''fs'', ''fs/promises'', ''os''} then CapabilityGated CAP_FS
      else if n \<in> {''net'', ''http'', ''https'', ''http2'', ''dns'', ''tls'', ''dgram''} then CapabilityGated CAP_NET
      else if n = ''process'' then CapabilityGated CAP_PROCESS
      else if n \<in> {''child_process'', ''cluster'', ''worker_threads'', ''vm''} then CapabilityGated CAP_CHILD
      else BuiltinDenied)"

definition known_names :: "string list" where
  "known_names =
     [''assert'', ''buffer'', ''child_process'', ''cluster'', ''crypto'', ''dgram'', ''dns'', ''events'', ''fs'',
      ''fs/promises'', ''http'', ''http2'', ''https'', ''inspector'', ''module'', ''net'', ''os'', ''path'', ''perf_hooks'',
      ''process'', ''punycode'', ''querystring'', ''repl'', ''string_decoder'', ''tls'', ''trace_events'', ''url'', ''util'',
      ''v8'', ''vm'']"

definition known_builtins :: "(string \<times> builtin_grade) list" where
  "known_builtins = map (\<lambda>n. (n, builtin_access n)) known_names"

definition is_builtin :: "string \<Rightarrow> bool" where
  "is_builtin spec =
     (let n = unprefixed spec in
      builtin_access n \<noteq> BuiltinDenied \<and> list_ex (\<lambda>(k, _). k = n) known_builtins)"

section \<open>Resolution returns\<close>

text \<open>The target that a directory's metadata sends the search to, and the chain of such steps.\<close>

definition onward :: "json_decoder \<Rightarrow> node_fs \<Rightarrow> string \<Rightarrow> string option" where
  "onward json fs base =
     (if fs_read fs base \<noteq> None \<or> probe fs base PROBE_EXTS False \<noteq> None \<or> \<not> fs_is_dir fs base then None
      else map_option (join_path base) (declared_main json fs base))"

fun onward_n :: "json_decoder \<Rightarrow> node_fs \<Rightarrow> nat \<Rightarrow> string \<Rightarrow> string option" where
  "onward_n json fs 0 base = Some base"
| "onward_n json fs (Suc n) base = (case onward json fs base of None \<Rightarrow> None | Some b \<Rightarrow> onward_n json fs n b)"

lemma probe_None: "probe fs stem es nm = None \<longleftrightarrow> (\<forall>(e, k) \<in> set es. fs_read fs (stem @ e) = None)"
  by (induction es) (auto simp del: not_None_eq split: if_splits)

lemma probe_None_flag: "probe fs stem es nm = None \<longleftrightarrow> probe fs stem es False = None"
  by (simp add: probe_None)

lemma load_step:
  "load_as_file_or_dir json fs nm base =
     (case onward json fs base of
        None \<Rightarrow> Some (if fs_read fs base \<noteq> None then Some \<lparr>res_path = base, res_kind = kind_of base, from_node_modules = nm\<rparr>
                     else case probe fs base PROBE_EXTS nm of
                       Some r \<Rightarrow> Some r
                     | None \<Rightarrow> if fs_is_dir fs base then probe fs (trim_slash base @ ''/index'') PROBE_EXTS nm else None)
      | Some b \<Rightarrow>
          (case load_as_file_or_dir json fs nm b of
             None \<Rightarrow> None
           | Some (Some x) \<Rightarrow> Some (Some x)
           | Some None \<Rightarrow> Some (probe fs (trim_slash base @ ''/index'') PROBE_EXTS nm)))"
  using probe_None_flag [of fs base PROBE_EXTS nm]
  by (subst load_as_file_or_dir.simps) (auto simp: onward_def split: option.split)

lemma load_returns: "onward_n json fs n base = None \<Longrightarrow> load_as_file_or_dir json fs nm base \<noteq> None"
proof (induction n arbitrary: base)
  case (Suc n)
  show ?case
  proof (cases "onward json fs base")
    case (Some b)
    then have "load_as_file_or_dir json fs nm b \<noteq> None" using Suc by simp
    then show ?thesis using Some by (subst load_step) (auto split: option.split)
  qed (subst load_step, simp)
qed simp

lemma load_chain_ends: "load_as_file_or_dir json fs nm base = Some r \<Longrightarrow> \<exists>n. onward_n json fs n base = None"
proof (erule load_as_file_or_dir.raw_induct [where P = "\<lambda>json fs nm base r. \<exists>n. onward_n json fs n base = None", rotated])
  fix load json fs nm base r
  assume IH: "\<And>json fs nm base r. load json fs nm base = Some r \<Longrightarrow> \<exists>n. onward_n json fs n base = None"
    and prem: "(if fs_read fs base \<noteq> None then Some (Some \<lparr>res_path = base, res_kind = kind_of base, from_node_modules = nm\<rparr>)
      else
        (case probe fs base PROBE_EXTS nm of
           Some r \<Rightarrow> Some (Some r)
         | None \<Rightarrow>
             if \<not> fs_is_dir fs base then Some None
             else
               (case declared_main json fs base of
                  None \<Rightarrow> Some (probe fs (trim_slash base @ ''/index'') PROBE_EXTS nm)
                | Some m \<Rightarrow>
                    Option.bind (load json fs nm (join_path base m))
                      (\<lambda>r. case r of
                             Some x \<Rightarrow> Some (Some x)
                           | None \<Rightarrow> Some (probe fs (trim_slash base @ ''/index'') PROBE_EXTS nm))))) = Some r"
  show "\<exists>n. onward_n json fs n base = None"
  proof (cases "onward json fs base")
    case None
    then have "onward_n json fs (Suc 0) base = None" by simp
    then show ?thesis by blast
  next
    case (Some b)
    then have "\<exists>x. load json fs nm b = Some x"
      using prem probe_None_flag [of fs base PROBE_EXTS nm]
      by (auto simp: onward_def split: if_splits option.splits Option.bind_splits)
    then obtain n where "onward_n json fs n b = None" using IH by blast
    then have "onward_n json fs (Suc n) base = None" using Some by simp
    then show ?thesis by blast
  qed
qed

lemma load_returns_iff: "load_as_file_or_dir json fs nm base \<noteq> None \<longleftrightarrow> (\<exists>n. onward_n json fs n base = None)"
  using load_returns load_chain_ends by blast

text \<open>A directory whose metadata names the directory itself is searched forever.\<close>

lemma self_main_hangs: "onward json fs base = Some base \<Longrightarrow> load_as_file_or_dir json fs nm base = None"
proof -
  assume self: "onward json fs base = Some base"
  have "onward_n json fs n base = Some base" for n by (induction n) (simp_all add: self)
  then show ?thesis using load_returns_iff [of json fs nm base] by auto
qed

section \<open>Resolution finds files\<close>

lemma ext_of_append:
  assumes "CHR ''/'' \<notin> set e" and "CHR ''.'' \<notin> set e"
  shows "ext_of (stem @ CHR ''.'' # e) = Some (CHR ''.'' # e)"
proof -
  obtain y where "last_piece (\<lambda>c. c = CHR ''/'') (stem @ CHR ''.'' # e) = y @ CHR ''.'' # e"
    using split_on_last [of "CHR ''.'' # e" "\<lambda>c. c = CHR ''/''" stem] assms(1) by (auto simp: last_piece_def)
  then show ?thesis
    using split_once_append [of "CHR ''.''" "rev e" "rev y"] assms(2) by (simp add: ext_of_def rsplit_once_def)
qed

lemma kind_of_probed: "(e, k) \<in> set PROBE_EXTS \<Longrightarrow> kind_of (stem @ e) = k"
  using ext_of_append [of "''js''" stem] ext_of_append [of "''json''" stem] ext_of_append [of "''node''" stem]
  by (auto simp: PROBE_EXTS_def kind_of_def)

definition good_file :: "node_fs \<Rightarrow> bool \<Rightarrow> resolved \<Rightarrow> bool" where
  "good_file fs nm r \<longleftrightarrow>
     fs_read fs (res_path r) \<noteq> None \<and> res_kind r = kind_of (res_path r) \<and> from_node_modules r = nm"

lemma probe_good: "probe fs stem es nm = Some r \<Longrightarrow> set es \<subseteq> set PROBE_EXTS \<Longrightarrow> good_file fs nm r"
  by (induction es) (auto simp: good_file_def kind_of_probed split: if_splits)

lemma load_good: "load_as_file_or_dir json fs nm base = Some (Some r) \<Longrightarrow> good_file fs nm r"
proof -
  have *: "good_file fs nm r" if "onward_n json fs n base = None" "load_as_file_or_dir json fs nm base = Some (Some r)" for n
    using that
  proof (induction n arbitrary: base r)
    case (Suc n)
    show ?case
    proof (cases "onward json fs base")
      case None
      then show ?thesis using Suc.prems(2) probe_good [OF _ subset_refl]
        by (subst (asm) load_step) (auto simp: good_file_def split: if_splits option.splits)
    next
      case (Some b)
      then show ?thesis using Suc.prems probe_good [OF _ subset_refl] Suc.IH [of b]
        by (subst (asm) load_step) (auto split: option.splits)
    qed
  qed simp
  assume "load_as_file_or_dir json fs nm base = Some (Some r)"
  then show ?thesis using * load_chain_ends by blast
qed

text \<open>The directories that a bare specifier is looked up in, nearest first.\<close>

function ancestors :: "string \<Rightarrow> string list" where
  "ancestors dir = (if parent_of dir = dir then [dir] else dir # ancestors (parent_of dir))"
  by pat_completeness auto
termination
proof (relation "measure (\<lambda>dir. if dir = ''/'' then 0 else Suc (length dir))", goal_cases)
  case (2 dir)
  then show ?case using parent_of_shorter [of dir] by auto
qed simp

declare load_as_file_or_dir.simps [code]

declare ancestors.simps [simp del] walk_up.simps [simp del]

fun first_found :: "('a \<Rightarrow> 'b option option) \<Rightarrow> 'a list \<Rightarrow> 'b option option" where
  "first_found f [] = Some None"
| "first_found f (x # xs) = (case f x of None \<Rightarrow> None | Some (Some r) \<Rightarrow> Some (Some r) | Some None \<Rightarrow> first_found f xs)"

lemma walk_up_nearest:
  "walk_up json fs pkg rest dir =
     first_found (\<lambda>d. load_as_file_or_dir json fs True (modules_target d pkg rest)) (ancestors dir)"
proof (induction json fs pkg rest dir rule: walk_up.induct)
  case (1 json fs pkg rest dir)
  then show ?case
    by (subst walk_up.simps, subst ancestors.simps) (auto split: option.split)
qed

lemma first_found_Some: "first_found f xs = Some (Some r) \<Longrightarrow> \<exists>x \<in> set xs. f x = Some (Some r)"
  by (induction xs) (auto split: option.splits)

lemma first_found_returns: "\<forall>x \<in> set xs. f x \<noteq> None \<Longrightarrow> first_found f xs \<noteq> None"
  by (induction xs) (auto split: option.splits)

text \<open>
  C25. Module resolution. Trying a path ends exactly if the chain of entry points named by the metadata on the
  way does; if all such chains end, every specifier is resolved or reported. What is resolved is a file that
  exists, with the kind of its extension, and is marked as a dependency exactly for a bare specifier.\<close>

theorem node_resolution:
  "(load_as_file_or_dir json fs nm base \<noteq> None \<longleftrightarrow> (\<exists>n. onward_n json fs n base = None)) \<and>
   ((\<forall>b. \<exists>n. onward_n json fs n b = None) \<longrightarrow> resolve_module json fs spec dir \<noteq> None) \<and>
   (\<forall>r. resolve_module json fs spec dir = Some (Ok r) \<longrightarrow>
      fs_read fs (res_path r) \<noteq> None \<and> res_kind r = kind_of (res_path r) \<and>
      (from_node_modules r \<longleftrightarrow> \<not> is_relative spec \<and> \<not> starts_with spec ''/''))"
proof (intro conjI impI allI)
  assume "\<forall>b. \<exists>n. onward_n json fs n b = None"
  then have l: "load_as_file_or_dir json fs nm b \<noteq> None" for nm b by (simp add: load_returns_iff del: not_None_eq)
  then have "walk_up json fs pkg rest dir \<noteq> None" for pkg rest
    by (simp add: walk_up_nearest first_found_returns del: not_None_eq)
  then show "resolve_module json fs spec dir \<noteq> None"
    using l by (auto simp: resolve_module_def Let_def simp del: not_None_eq split: option.split)
next
  fix r
  assume a: "resolve_module json fs spec dir = Some (Ok r)"
  have "good_file fs (\<not> is_relative spec \<and> \<not> starts_with spec ''/'') r"
  proof (cases "is_relative spec \<or> starts_with spec ''/''")
    case True
    then show ?thesis using a load_good [of json fs False _ r]
      by (auto simp: resolve_module_def Let_def split: if_splits option.splits)
  next
    case False
    then obtain pkg rest where "walk_up json fs pkg rest dir = Some (Some r)"
      using a by (auto simp: resolve_module_def Let_def split: if_splits option.splits)
    then obtain d where "load_as_file_or_dir json fs True (modules_target d pkg rest) = Some (Some r)"
      unfolding walk_up_nearest by (blast dest: first_found_Some)
    then show ?thesis using False load_good by auto
  qed
  then show "fs_read fs (res_path r) \<noteq> None" "res_kind r = kind_of (res_path r)"
    "from_node_modules r \<longleftrightarrow> \<not> is_relative spec \<and> \<not> starts_with spec ''/''"
    by (simp_all add: good_file_def)
qed (rule load_returns_iff)

definition demo_fs :: node_fs where
  "demo_fs = \<lparr>fs_read = (\<lambda>p. if p = ''/res/node_modules/x/index.js'' then Some [] else None),
     fs_is_dir = (\<lambda>p. p = ''/res/node_modules/x'')\<rparr>"

lemma demo_resolved: "resolve_module (\<lambda>_. Err []) demo_fs ''x'' ''/res/lib'' =
    Some (Ok \<lparr>res_path = ''/res/node_modules/x/index.js'', res_kind = JavaScript, from_node_modules = True\<rparr>)"
  by code_simp

theorem node_resolution_witness:
  "(\<forall>b. \<exists>n. onward_n (\<lambda>_. Err []) demo_fs n b = None) \<and>
   fs_read demo_fs ''/res/node_modules/x/index.js'' \<noteq> None \<and> resolve_module (\<lambda>_. Err []) demo_fs ''./y'' ''/res'' \<noteq> None"
proof -
  have e: "\<forall>b. \<exists>n. onward_n (\<lambda>_. Err []) demo_fs n b = None"
  proof
    fix b
    have "onward (\<lambda>_. Err []) demo_fs b = None" by (simp add: onward_def declared_main_def demo_fs_def parse_package_json_def)
    then show "\<exists>n. onward_n (\<lambda>_. Err []) demo_fs n b = None" by (intro exI [of _ 1]) simp
  qed
  show ?thesis
    using node_resolution [of "\<lambda>_. Err []" demo_fs True "[]" "''./y''" "''/res''"] e demo_resolved
      node_resolution [of "\<lambda>_. Err []" demo_fs True "[]" "''x''" "''/res/lib''"] by (auto simp del: not_None_eq)
qed

text \<open>A package whose metadata names its own directory is never resolved, and modules at the root are looked up under two slashes.\<close>

lemma dot_main_hangs:
  assumes "fs_read fs ''/a'' = None" and "probe fs ''/a'' PROBE_EXTS False = None" and "fs_is_dir fs ''/a''"
    and "declared_main json fs ''/a'' = Some ''.''"
  shows "load_as_file_or_dir json fs nm ''/a'' = None"
proof (rule self_main_hangs)
  have "join_path ''/a'' ''.'' = ''/a''" by code_simp
  then show "onward json fs ''/a'' = Some ''/a''" using assms by (simp add: onward_def)
qed

lemma root_modules: "modules_target ''/'' pkg None = ''//node_modules/'' @ pkg"
  by (simp add: modules_target_def trim_slash_def)

section \<open>Integrity strings\<close>

text \<open>The encoding of RFC 4648, by groups of three bytes.\<close>

definition base64_char :: "u32 \<Rightarrow> char" where
  "base64_char v =
     (let n = unat v in
      if n < 26 then char_of (n + 65) else if n < 52 then char_of (n + 71) else if n < 62 then char_of (n - 4)
      else if n = 62 then CHR ''+'' else CHR ''/'')"

definition sextet2 :: "u8 \<Rightarrow> u8 \<Rightarrow> u32" where
  "sextet2 a b = push_bit 4 (take_bit 2 (ucast a)) OR drop_bit 4 (ucast b)"

definition sextet3 :: "u8 \<Rightarrow> u8 \<Rightarrow> u32" where
  "sextet3 b c = push_bit 2 (take_bit 4 (ucast b)) OR drop_bit 6 (ucast c)"

definition sextet1 :: "u8 \<Rightarrow> u32" where
  "sextet1 a = drop_bit 2 (ucast a)"

definition sextet4 :: "u8 \<Rightarrow> u32" where
  "sextet4 c = take_bit 6 (ucast c)"

lemmas sextet_defs = sextet1_def sextet2_def sextet3_def sextet4_def

fun base64_encode :: "bytes \<Rightarrow> string" where
  "base64_encode [] = []"
| "base64_encode [a] = map base64_char [sextet1 a, sextet2 a 0] @ ''==''"
| "base64_encode [a, b] = map base64_char [sextet1 a, sextet2 a b, sextet3 b 0] @ ''=''"
| "base64_encode (a # b # c # bs) =
     map base64_char [sextet1 a, sextet2 a b, sextet3 b c, sextet4 c] @ base64_encode bs"

lemma sextet_bound: "v < 64" if "take_bit 6 v = (v :: u32)"
proof -
  have "unat (take_bit 6 v) < 2 ^ 6" unfolding unsigned_take_bit_eq by (rule take_bit_nat_less_exp)
  then show ?thesis using that by (simp add: word_less_nat_alt)
qed

lemma sextet_small [simp]: "sextet1 a < 64" "sextet2 a b < 64" "sextet3 b c < 64" "sextet4 c < 64"
  by (rule sextet_bound, rule bit_word_eqI, auto simp: sextet_defs bit_simps dest: bit_imp_le_length)+

lemma sextet_of_char: "v < 64 \<Longrightarrow> sextet_of (base64_char v) = Value v"
proof -
  assume "v < 64"
  then have "unat v < 64" by (simp add: word_less_nat_alt)
  moreover have "v = 62" if "unat v = 62" using that by (simp add: word_unat_eq_iff)
  moreover have "v = 63" if "unat v = 63" using that by (simp add: word_unat_eq_iff)
  ultimately consider "unat v < 26" | "26 \<le> unat v" "unat v < 52" | "52 \<le> unat v" "unat v < 62" | "v = 62" | "v = 63"
    by linarith
  then show ?thesis
    by cases (simp_all add: sextet_of_def base64_char_def is_upper_def is_lower_def is_digit_def Let_def, auto)
qed

lemma Suc_Suc_diff: "2 \<le> n \<Longrightarrow> Suc (Suc (n - 2)) = n"
  by simp

lemma group_bytes:
  "ucast (drop_bit 4 (push_bit 6 (push_bit 6 acc OR sextet1 a) OR sextet2 a b)) = a"
  "ucast (drop_bit 2 (push_bit 6 (push_bit 6 acc2 OR sextet2 a b) OR sextet3 b c)) = b"
  "ucast (push_bit 6 (push_bit 6 acc3 OR sextet3 b c) OR sextet4 c) = c"
  by (rule bit_word_eqI, auto simp: sextet_defs bit_simps Suc_Suc_diff not_less dest: bit_imp_le_length)+

lemma base64_group:
  "\<exists>acc'. base64_loop acc 0 out (map base64_char [sextet1 a, sextet2 a b, sextet3 b c, sextet4 c] @ cs) =
     base64_loop acc' 0 (out @ [a, b, c]) cs"
  using group_bytes(1) [of acc a b] group_bytes(2) [of _ a b c] group_bytes(3) [of _ b c]
  by (simp add: sextet_of_char Let_def) (rule exI, rule refl)

lemma base64_tails:
  "base64_loop acc 0 out (base64_encode [a]) = Some (out @ [a])"
  "base64_loop acc 0 out (base64_encode [a, b]) = Some (out @ [a, b])"
proof -
  have p: "sextet_of CHR ''='' = Padding" by (simp add: sextet_of_def is_upper_def is_lower_def is_digit_def)
  show "base64_loop acc 0 out (base64_encode [a]) = Some (out @ [a])"
    using group_bytes(1) [of acc a 0] by (simp add: sextet_of_char Let_def p)
  show "base64_loop acc 0 out (base64_encode [a, b]) = Some (out @ [a, b])"
    using group_bytes(1) [of acc a b] group_bytes(2) [of _ a b 0] by (simp add: sextet_of_char Let_def p)
qed

lemma base64_loop_encode: "base64_loop acc 0 out (base64_encode bs) = Some (out @ bs)"
proof (induction bs arbitrary: acc out rule: base64_encode.induct)
  case (4 a b c bs)
  obtain acc' where "base64_loop acc 0 out (map base64_char [sextet1 a, sextet2 a b, sextet3 b c, sextet4 c] @ base64_encode bs) =
      base64_loop acc' 0 (out @ [a, b, c]) (base64_encode bs)"
    using base64_group by blast
  then show ?case using "4" by simp
qed (simp_all only: base64_tails, simp)

lemma base64_roundtrip: "base64_decode (base64_encode bs) = Some bs"
  by (simp add: base64_decode_def base64_loop_encode)

lemma hex_lower_encode: "hex_lower bs = hex_encode bs"
  by (induction bs) (simp_all add: hex_lower_def hex_encode_def hex_byte_def hex_digit_def Let_def)

lemma hex_lower_inj: "hex_lower xs = hex_lower ys \<Longrightarrow> xs = ys"
  unfolding hex_lower_encode by (metis hex_roundtrip option.inject)

lemma integrity_read:
  assumes "digest_length algo = Some n" and "length d = n"
  shows "parse_integrity (algo @ ''-'' @ base64_encode d) = Ok \<lparr>algorithm = algo, digest_hex = hex_lower d\<rparr>"
proof -
  have "split_once CHR ''-'' (algo @ CHR ''-'' # base64_encode d) = Some (algo, base64_encode d)"
    using assms(1) by (intro split_once_append) (auto simp: digest_length_def split: if_splits)
  then show ?thesis using assms by (simp add: parse_integrity_def base64_roundtrip)
qed

text \<open>
  An integrity string made from the digest of some content accepts exactly the contents with that digest.
  The digests of \<open>sha2\<close> have the length of their algorithm.
\<close>

lemma verify_exact:
  assumes "digest_length algo = Some n" and "\<And>b. length (digest algo b) = n"
  shows "verify_integrity digest (algo @ ''-'' @ base64_encode (digest algo wanted)) bs =
    (if digest algo bs = digest algo wanted then Ok () else Err (IntegrityMismatch (algo @ ''-'' @ base64_encode (digest algo wanted))))"
  using integrity_read [OF assms(1), of "digest algo wanted"] assms(2)
  by (auto simp: verify_integrity_def dest: hex_lower_inj)

text \<open>Whatever follows a padding character is ignored.\<close>

lemma padding_ends: "base64_loop acc bits out (CHR ''='' # cs) = Some out"
  by (simp add: sextet_of_def is_upper_def is_lower_def is_digit_def Let_def)

lemma hex_plain: "c \<in> set (hex_byte b) \<Longrightarrow> byte_of c < 128"
proof -
  have "unat b div 16 < 16" using unsigned_less [of b, where 'a = nat] by simp
  then show "c \<in> set (hex_byte b) \<Longrightarrow> byte_of c < 128" by (auto simp: hex_byte_def Let_def)
qed

lemma parsed_integrity:
  assumes "parse_integrity s = Ok i"
  shows "\<exists>d. digest_length (algorithm i) = Some (length d) \<and> digest_hex i = hex_lower d"
proof -
  from assms obtain algo b64 d where "digest_length algo = Some (length d)" "i = \<lparr>algorithm = algo, digest_hex = hex_lower d\<rparr>"
    by (auto simp: parse_integrity_def split: option.splits if_splits)
  then show ?thesis by (intro exI [of _ d]) simp
qed

lemma length_hex_lower [simp]: "length (hex_lower d) = 2 * length d"
  by (induction d) (simp_all add: hex_lower_def hex_byte_def Let_def)

lemma parsed_digest:
  assumes "parse_integrity s = Ok i"
  shows "4 \<le> length (digest_hex i)" and "length (algorithm i) = 6" and "list_all (\<lambda>c. byte_of c < 128) (digest_hex i)"
proof -
  obtain d where d: "digest_length (algorithm i) = Some (length d)" "digest_hex i = hex_lower d"
    using parsed_integrity [OF assms] by blast
  then show "4 \<le> length (digest_hex i)" "length (algorithm i) = 6"
    by (auto simp: digest_length_def split: if_splits)
  show "list_all (\<lambda>c. byte_of c < 128) (digest_hex i)"
    unfolding d(2) list_all_iff hex_lower_def using hex_plain by fastforce
qed

text \<open>The cache path of a parsed integrity string exists and tells digests and algorithms apart.\<close>

lemma cache_path_parsed:
  assumes "parse_integrity s = Ok i"
  shows "cache_path i = Some (''cache/content-v2/'' @ algorithm i @ ''/'' @ take 2 (digest_hex i) @ ''/'' @
    take 2 (drop 2 (digest_hex i)) @ ''/'' @ drop 4 (digest_hex i))"
proof -
  have "is_char_boundary (digest_hex i) k" if "k \<le> length (digest_hex i)" for k
    using parsed_digest(3) [OF assms] that unfolding is_char_boundary_def list_all_length
    by (metis le_neq_implies_less less_le_trans linorder_not_less)
  then show ?thesis using parsed_digest(1) [OF assms] by (simp add: cache_path_def Let_def)
qed

lemma cache_path_inj:
  assumes "parse_integrity s = Ok i" and "parse_integrity t = Ok j" and "cache_path i = cache_path j"
  shows "i = j"
proof -
  let ?h = "digest_hex i" and ?k = "digest_hex j"
  have l: "length (take 2 ?h) = length (take 2 ?k)" "length (take 2 (drop 2 ?h)) = length (take 2 (drop 2 ?k))"
    using parsed_digest(1) [OF assms(1)] parsed_digest(1) [OF assms(2)] by simp_all
  have "algorithm i @ ''/'' @ take 2 ?h @ ''/'' @ take 2 (drop 2 ?h) @ ''/'' @ drop 4 ?h =
      algorithm j @ ''/'' @ take 2 ?k @ ''/'' @ take 2 (drop 2 ?k) @ ''/'' @ drop 4 ?k"
    using assms(3) by (simp add: cache_path_parsed [OF assms(1)] cache_path_parsed [OF assms(2)])
  then have a: "algorithm i = algorithm j" and "take 2 ?h @ ''/'' @ take 2 (drop 2 ?h) @ ''/'' @ drop 4 ?h =
      take 2 ?k @ ''/'' @ take 2 (drop 2 ?k) @ ''/'' @ drop 4 ?k"
    using parsed_digest(2) [OF assms(1)] parsed_digest(2) [OF assms(2)] by (simp_all add: append_eq_append_conv)
  then have h: "take 2 ?h = take 2 ?k" "take 2 (drop 2 ?h) = take 2 (drop 2 ?k)" "drop 4 ?h = drop 4 ?k"
    using l by (simp_all add: append_eq_append_conv)
  have "x = take 2 x @ take 2 (drop 2 x) @ drop 4 x" for x :: string
    by (metis append_take_drop_id drop_drop numeral_Bit0)
  then have "?h = ?k" using h by metis
  then show ?thesis using a by simp
qed

section \<open>Dependency plans\<close>

lemma sort_by_sorted: "sorted_wrt le xs \<Longrightarrow> sort_by le xs = xs"
proof (induction xs)
  case (Cons x xs)
  then show ?case by (cases xs) (auto simp: sort_by_def)
qed (simp add: sort_by_def)

lemma dedup_by_distinct: "sorted_wrt (\<lambda>x y. \<not> same y x) xs \<Longrightarrow> dedup_by same xs = xs"
  by (induction same xs rule: dedup_by.induct) auto

lemma sorted_wrt_map_filter:
  assumes "sorted_wrt R xs" and "\<And>x y a b. R x y \<Longrightarrow> f x = Some a \<Longrightarrow> f y = Some b \<Longrightarrow> Q a b"
  shows "sorted_wrt Q (List.map_filter f xs)"
  using assms(1)
proof (induction xs)
  case (Cons x xs)
  then show ?case using assms(2) [of x] by (cases "f x") (auto simp: List.map_filter_def)
qed (simp add: List.map_filter_def)

lemma by_name_key: "map_of (by_name locked) k = Some l \<Longrightarrow> lp_name l = k"
  by (induction locked rule: rev_induct) (auto simp: by_name_def split: if_splits)

lemma locked_match_name: "locked_match sv (by_name locked) d = Some l \<Longrightarrow> lp_name l = fst d"
  by (auto simp: locked_match_def dest: by_name_key split: option.splits sum.splits if_splits)

lemma plan_loop_eq:
  "plan_loop sv names ds (ins, uns) =
     (ins @ List.map_filter (locked_match sv names) ds, uns @ filter (\<lambda>d. locked_match sv names d = None) ds)"
  by (induction ds arbitrary: ins uns) (auto simp: List.map_filter_def split: option.split)

text \<open>
  For declared ranges in key order, as a \<open>BTreeMap\<close> holds them, sorting and removing duplicates change nothing:
  the plan installs the locked package of each satisfied range and lists the other ranges.
\<close>

lemma plan_exact:
  assumes "bt_ok deps"
  shows "plan_dependencies sv deps locked =
    \<lparr>install_order = List.map_filter (locked_match sv (by_name locked)) deps,
     unsatisfied = filter (\<lambda>d. locked_match sv (by_name locked) d = None) deps\<rparr>"
proof -
  have s: "sorted_wrt (\<lambda>a b. fst a < fst b) deps" using assms by (simp add: bt_ok_def sorted_wrt_map)
  have "sorted_wrt (\<lambda>a b. lp_name a < lp_name b) (List.map_filter (locked_match sv (by_name locked)) deps)"
    by (rule sorted_wrt_map_filter [OF s]) (auto dest!: locked_match_name)
  then have i: "sorted_wrt (package_le sv) (List.map_filter (locked_match sv (by_name locked)) deps)"
    and n: "sorted_wrt (\<lambda>x y. \<not> lp_name y = lp_name x) (List.map_filter (locked_match sv (by_name locked)) deps)"
    by (auto simp: package_le_def elim!: sorted_wrt_mono_rel [rotated])
  have u: "sorted_wrt range_le (filter (\<lambda>d. locked_match sv (by_name locked) d = None) deps)"
    using sorted_wrt_filter [OF s] by (rule sorted_wrt_mono_rel [rotated]) (auto simp: range_le_def)
  show ?thesis
    by (simp add: plan_dependencies_def plan_loop_eq sort_by_sorted [OF i] sort_by_sorted [OF u] dedup_by_distinct [OF n])
qed

section \<open>Policy\<close>

lemma install_accepted_iff:
  "evaluate_install p addons policy = Ok () \<longleftrightarrow>
     (allow_install_scripts policy \<or>
        (\<forall>k \<in> {''preinstall'', ''install'', ''postinstall'', ''prepare''}. map_of (scripts p) k = None)) \<and>
     (addons = [] \<or> allow_native_addons policy \<and>
        (pkg_cpu p = [] \<or> (\<exists>c \<in> set (pkg_cpu p). contains_str (host_target policy) c)))"
  by (auto simp: evaluate_install_def install_scripts_def List.map_filter_def list_ex_iff split: if_splits)

text \<open>Two modules that the table gates or denies are missing from the list of known names.\<close>

lemma worker_threads_unlisted:
  "builtin_access ''worker_threads'' = CapabilityGated CAP_CHILD" "\<not> is_builtin ''worker_threads''"
  by (simp_all add: builtin_access_def is_builtin_def known_builtins_def known_names_def unprefixed_def strip_prefix_def
      starts_with_def)

end
