(* ===== verification/GameEvents.thy ===== *)
theory GameEvents
  imports OrderedMap RustStrings AstraNet
begin

text \<open>
  Game editions (\<open>crates/ald-game-editions\<close>), the registry of known builds with its emergency policy
  (\<open>crates/ald-game-builds\<close>) and the router of game events (\<open>crates/ald-game-events\<close>). Handlers are foreign code
  without access to the router; publishing yields the calls that are made to them.
\<close>

section \<open>Editions\<close>

datatype game_edition = Legacy | Enhanced

datatype edition_error = UnknownEdition string

fun edition_str :: "game_edition \<Rightarrow> string" where
  "edition_str Legacy = ''legacy''"
| "edition_str Enhanced = ''enhanced''"

definition parse_edition :: "string \<Rightarrow> (game_edition, edition_error) result" where
  "parse_edition s =
     (let t = to_ascii_lowercase (trim s) in
      if t = ''legacy'' then Ok Legacy else if t = ''enhanced'' then Ok Enhanced else Err (UnknownEdition t))"

record edition_profile =
  ep_edition :: game_edition
  ep_supported :: bool
  ep_note :: string

definition profile_unsupported :: "game_edition \<Rightarrow> string \<Rightarrow> edition_profile" where
  "profile_unsupported e note = \<lparr>ep_edition = e, ep_supported = False, ep_note = note\<rparr>"

definition profile_supported :: "game_edition \<Rightarrow> edition_profile" where
  "profile_supported e = \<lparr>ep_edition = e, ep_supported = True, ep_note = []\<rparr>"

section \<open>Builds\<close>

record game_build =
  gb_number :: u32
  gb_edition :: game_edition
  min_astryn :: string
  blocked :: "string option"
  gb_note :: string

datatype build_assessment =
    Supported game_build
  | RequiresAstrynUpdate game_build string
  | Blocked game_build string
  | UnknownBuild game_edition u32
  | UnsupportedEdition game_edition string

fun admittable :: "build_assessment \<Rightarrow> bool" where
  "admittable (Supported _) = True"
| "admittable _ = False"

datatype build_error = BadAstrynVersion string

record build_registry =
  builds :: "(game_edition \<times> u32, game_build) hmap"
  profiles :: "(game_edition, edition_profile) hmap"

definition registry_empty :: build_registry where
  "registry_empty = \<lparr>builds = [], profiles = []\<rparr>"

definition set_profile :: "build_registry \<Rightarrow> edition_profile \<Rightarrow> build_registry" where
  "set_profile r p = r\<lparr>profiles := hm_insert (ep_edition p) p (profiles r)\<rparr>"

definition parse_triple :: "string \<Rightarrow> (int \<times> int \<times> int) option" where
  "parse_triple s =
     (let num = parse_unsigned (2 ^ 64 - 1) in
      case split_on (\<lambda>c. c = CHR ''.'') s of
        [a, b, c] \<Rightarrow>
          (case (num a, num b, num c) of (Some x, Some y, Some z) \<Rightarrow> Some (x, y, z) | _ \<Rightarrow> None)
      | _ \<Rightarrow> None)"

definition triple_le :: "int \<times> int \<times> int \<Rightarrow> int \<times> int \<times> int \<Rightarrow> bool" where
  "triple_le v w =
     (case (v, w) of ((a, b, c), (d, e, f)) \<Rightarrow> a < d \<or> a = d \<and> (b < e \<or> b = e \<and> c \<le> f))"

definition add_build :: "build_registry \<Rightarrow> game_build \<Rightarrow> build_registry \<times> (unit, build_error) result" where
  "add_build r b =
     (if min_astryn b \<noteq> [] \<and> parse_triple (min_astryn b) = None then (r, Err (BadAstrynVersion (min_astryn b)))
      else (r\<lparr>builds := hm_insert (gb_edition b, gb_number b) b (builds r)\<rparr>, Ok ()))"

definition build_count :: "build_registry \<Rightarrow> nat" where
  "build_count r = length (builds r)"

text \<open>Outer \<open>None\<close>: the \<open>expect\<close> on a stored minimum version panics.\<close>

definition assess :: "build_registry \<Rightarrow> game_edition \<Rightarrow> u32 \<Rightarrow> string \<Rightarrow> build_assessment option" where
  "assess r e n astryn_version =
     (case hm_get (profiles r) e of
        None \<Rightarrow> Some (UnsupportedEdition e ''edition not declared'')
      | Some p \<Rightarrow>
          if \<not> ep_supported p then Some (UnsupportedEdition e (ep_note p))
          else
            (case hm_get (builds r) (e, n) of
               None \<Rightarrow> Some (UnknownBuild e n)
             | Some b \<Rightarrow>
                 (case blocked b of
                    Some reason \<Rightarrow> Some (Blocked b reason)
                  | None \<Rightarrow>
                      if min_astryn b = [] then Some (Supported b)
                      else
                        (case parse_triple (min_astryn b) of
                           None \<Rightarrow> None
                         | Some least \<Rightarrow>
                             (case parse_triple astryn_version of
                                Some client \<Rightarrow>
                                  if triple_le least client then Some (Supported b)
                                  else Some (RequiresAstrynUpdate b (min_astryn b))
                              | None \<Rightarrow> Some (RequiresAstrynUpdate b (min_astryn b)))))))"

record emergency_pin =
  pin_edition :: game_edition
  allow_pin :: bool
  last_good_build :: u32

datatype pin_outcome = PinRefused game_edition u32 string | Pinned game_edition u32 u32 string

definition apply_emergency_policy :: "build_assessment \<Rightarrow> emergency_pin \<Rightarrow> build_registry \<Rightarrow> pin_outcome option" where
  "apply_emergency_policy a pin r =
     (case a of
        UnknownBuild e n \<Rightarrow>
          if \<not> allow_pin pin \<or> pin_edition pin \<noteq> e then
            Some (PinRefused e n ''Game build not recognized by this server.'')
          else
            (case hm_get (builds r) (e, last_good_build pin) of
               Some _ \<Rightarrow>
                 Some (Pinned e n (last_good_build pin)
                   (''Unrecognized '' @ edition_str e @ '' build '' @ show_nat (unat n) @
                    ''; running under last-known-good profile '' @ show_nat (unat (last_good_build pin)) @
                    ''. Update Aldivine for full support.''))
             | None \<Rightarrow> Some (PinRefused e n ''Game build not recognized and no safe fallback is configured.''))
      | _ \<Rightarrow> None)"

section \<open>Envelopes and decoders\<close>

definition MAX_PAYLOAD_LEN :: nat where "MAX_PAYLOAD_LEN = 64 * 1024"

definition KNOWN_EVENTS :: "string list" where
  "KNOWN_EVENTS =
     [''gameEventTriggered'', ''entityDamaged'', ''populationTick'', ''resourceLifecycle'', ''bucketChanged'',
      ''entityCreated'', ''entityDestroyed'']"

record envelope =
  ev_name :: string
  producer :: u64
  ev_seq :: u32
  ev_payload :: bytes

datatype router_error =
  UnknownEvent string | PayloadTooLarge nat | NoSuchSubscription | DuplicateDecoder game_edition u32 string

definition envelope_new :: "string \<Rightarrow> u64 \<Rightarrow> u32 \<Rightarrow> bytes \<Rightarrow> (envelope, router_error) result" where
  "envelope_new nm p s body =
     (if nm \<notin> set KNOWN_EVENTS then Err (UnknownEvent nm)
      else if MAX_PAYLOAD_LEN < length body then Err (PayloadTooLarge (length body))
      else Ok \<lparr>ev_name = nm, producer = p, ev_seq = s, ev_payload = body\<rparr>)"

datatype decoder_slot = Exact | EditionDefault | Unregistered

record decoder_registry =
  exact :: "(game_edition \<times> u32 \<times> string, string) hmap"
  edition_default :: "(game_edition \<times> string, string) hmap"

definition register_exact ::
    "decoder_registry \<Rightarrow> game_edition \<Rightarrow> u32 \<Rightarrow> string \<Rightarrow> string \<Rightarrow> decoder_registry \<times> (unit, router_error) result" where
  "register_exact d e n event evidence =
     (if event \<notin> set KNOWN_EVENTS then (d, Err (UnknownEvent event))
      else if hm_contains (exact d) (e, n, event) then (d, Err (DuplicateDecoder e n event))
      else (d\<lparr>exact := hm_insert (e, n, event) evidence (exact d)\<rparr>, Ok ()))"

definition register_edition_default ::
    "decoder_registry \<Rightarrow> game_edition \<Rightarrow> string \<Rightarrow> string \<Rightarrow> decoder_registry \<times> (unit, router_error) result" where
  "register_edition_default d e event evidence =
     (if event \<notin> set KNOWN_EVENTS then (d, Err (UnknownEvent event))
      else (d\<lparr>edition_default := hm_insert (e, event) evidence (edition_default d)\<rparr>, Ok ()))"

definition decoder_resolve :: "decoder_registry \<Rightarrow> game_edition \<Rightarrow> u32 \<Rightarrow> string \<Rightarrow> decoder_slot" where
  "decoder_resolve d e n event =
     (if hm_contains (exact d) (e, n, event) then Exact
      else if hm_contains (edition_default d) (e, event) then EditionDefault
      else Unregistered)"

definition decoder_evidence :: "decoder_registry \<Rightarrow> game_edition \<Rightarrow> u32 \<Rightarrow> string \<Rightarrow> string option" where
  "decoder_evidence d e n event =
     (case hm_get (exact d) (e, n, event) of Some x \<Rightarrow> Some x | None \<Rightarrow> hm_get (edition_default d) (e, event))"

section \<open>The router\<close>

text \<open>Subscriptions in the order of their ids; the handler of a subscription is named by its id.\<close>

record router =
  subs :: "(u64 \<times> string) list"
  next_sub :: u64
  last_seq :: "(u64, u32) hmap"
  delivered :: u64
  dropped_replay :: u64

definition router_new :: router where
  "router_new = \<lparr>subs = [], next_sub = 0, last_seq = [], delivered = 0, dropped_replay = 0\<rparr>"

definition subscribe :: "router \<Rightarrow> string \<Rightarrow> router \<times> (u64, router_error) result" where
  "subscribe r event =
     (if event \<notin> set KNOWN_EVENTS then (r, Err (UnknownEvent event))
      else (r\<lparr>next_sub := next_sub r + 1, subs := bt_put (next_sub r) event (subs r)\<rparr>, Ok (next_sub r)))"

definition unsubscribe :: "router \<Rightarrow> u64 \<Rightarrow> router \<times> (unit, router_error) result" where
  "unsubscribe r i =
     (if map_of (subs r) i = None then (r, Err NoSuchSubscription)
      else (r\<lparr>subs := filter (\<lambda>(k, _). k \<noteq> i) (subs r)\<rparr>, Ok ()))"

definition seq_is_newer :: "u32 \<Rightarrow> u32 \<Rightarrow> bool" where
  "seq_is_newer a b \<longleftrightarrow> a \<noteq> b \<and> a - b < 0x80000000"

text \<open>The result is the list of calls, one for each subscription to the event.\<close>

definition publish :: "router \<Rightarrow> envelope \<Rightarrow> router \<times> u64 list" where
  "publish r env =
     (if (case hm_get (last_seq r) (producer env) of None \<Rightarrow> False | Some l \<Rightarrow> \<not> seq_is_newer (ev_seq env) l)
      then (r\<lparr>dropped_replay := dropped_replay r + 1\<rparr>, [])
      else (r\<lparr>last_seq := hm_insert (producer env) (ev_seq env) (last_seq r), delivered := delivered r + 1\<rparr>,
            map fst (filter (\<lambda>(_, n). n = ev_name env) (subs r))))"

section \<open>Builds are admitted fail-closed\<close>

lemma parse_edition_names: "parse_edition ''legacy'' = Ok Legacy" "parse_edition ''enhanced'' = Ok Enhanced"
  by code_simp+

lemma parse_edition_str: "parse_edition (edition_str e) = Ok e"
  by (cases e) (simp_all add: parse_edition_names)

definition builds_ok :: "build_registry \<Rightarrow> bool" where
  "builds_ok r \<longleftrightarrow> (\<forall>e n b. hm_get (builds r) (e, n) = Some b \<longrightarrow>
     gb_edition b = e \<and> gb_number b = n \<and> (min_astryn b = [] \<or> parse_triple (min_astryn b) \<noteq> None))"

lemma builds_ok_new: "builds_ok registry_empty"
  by (simp add: builds_ok_def registry_empty_def)

lemma builds_ok_add: "builds_ok r \<Longrightarrow> builds_ok (fst (add_build r b))"
  by (auto simp: builds_ok_def add_build_def hm_simps split: if_splits)

lemma builds_ok_profile: "builds_ok r \<Longrightarrow> builds_ok (set_profile r p)"
  by (simp add: builds_ok_def set_profile_def)

text \<open>An assessment never panics, and supports exactly the unblocked builds of a supported edition with a new client.\<close>

lemma assess_returns: "builds_ok r \<Longrightarrow> assess r e n v \<noteq> None"
  by (fastforce simp: assess_def builds_ok_def split: option.splits)

lemma assess_supported_iff:
  "assess r e n v = Some (Supported b) \<longleftrightarrow>
     (\<exists>p. hm_get (profiles r) e = Some p \<and> ep_supported p) \<and> hm_get (builds r) (e, n) = Some b \<and> blocked b = None \<and>
     (min_astryn b = [] \<or> (\<exists>least client. parse_triple (min_astryn b) = Some least \<and> parse_triple v = Some client \<and>
        triple_le least client))"
  by (auto simp: assess_def split: option.splits if_splits)

text \<open>Pinning concerns unknown builds only and names a known build, but that build may itself be blocked.\<close>

lemma pinned_known:
  assumes "assess r e n v = Some a" and "apply_emergency_policy a pin r = Some (Pinned e' n' as_build w)"
  shows "a = UnknownBuild e n \<and> e' = e \<and> n' = n \<and> allow_pin pin \<and> pin_edition pin = e \<and> as_build = last_good_build pin \<and>
    hm_get (builds r) (e, as_build) \<noteq> None"
  using assms by (auto simp: apply_emergency_policy_def assess_def split: build_assessment.splits if_splits option.splits)

lemma pinned_to_blocked:
  fixes bad :: game_build
  defines "bad \<equiv> \<lparr>gb_number = 7, gb_edition = Legacy, min_astryn = [], blocked = Some ''crash'', gb_note = []\<rparr>"
  defines "r \<equiv> fst (add_build (set_profile registry_empty (profile_supported Legacy)) bad)"
  shows "assess r Legacy 7 [] = Some (Blocked bad ''crash'')"
    and "\<exists>w. apply_emergency_policy (UnknownBuild Legacy 8) \<lparr>pin_edition = Legacy, allow_pin = True, last_good_build = 7\<rparr> r =
           Some (Pinned Legacy 8 7 w)"
  by (simp_all add: r_def bad_def assess_def apply_emergency_policy_def add_build_def set_profile_def registry_empty_def
      profile_supported_def)

section \<open>Decoders\<close>

text \<open>The evidence of an exact decoder is never replaced.\<close>

definition enrol_exact :: "decoder_registry \<Rightarrow> game_edition \<times> u32 \<times> string \<times> string \<Rightarrow> decoder_registry" where
  "enrol_exact d a = (case a of (e, n, event, evidence) \<Rightarrow> fst (register_exact d e n event evidence))"

interpretation exact_decoders: upgrade_registry enrol_exact "\<lambda>d event. hm_get (exact d) (e, n, event)" "\<lambda>_. True"
  for e n
  by unfold_locales (auto simp: enrol_exact_def register_exact_def hm_simps hm_contains_def split: if_splits)

lemma exact_evidence_final:
  "hm_get (exact d) (e, n, event) = Some x \<Longrightarrow> decoder_evidence (foldl enrol_exact d as) e n event = Some x"
  using exact_decoders.certified_final [of d e n event x as] by (simp add: decoder_evidence_def)

section \<open>At most once\<close>

lemma not_newer_iff: "\<not> seq_is_newer a b \<longleftrightarrow> unat (b - a) \<le> 2 ^ 31"
proof (cases "a = b")
  case False
  have "unat (a - b) = 2 ^ 32 - unat (b - a)"
  proof (rule mod_complement)
    have "unat ((a - b) + (b - a)) = 0" by simp
    then show "(unat (a - b) + unat (b - a)) mod 2 ^ 32 = 0" by (simp only: unat_word_ariths(1)) simp
    show "unat (a - b) < 2 ^ 32" "unat (b - a) \<le> 2 ^ 32"
      using unsigned_less [of "a - b", where 'a = nat] unsigned_less [of "b - a", where 'a = nat] by simp_all
    show "0 < unat (b - a)" using False by (simp add: unat_gt_0)
  qed
  then show ?thesis using False by (auto simp: seq_is_newer_def word_less_nat_alt)
qed (simp add: seq_is_newer_def)

text \<open>How far the numbers of one producer advance over a series of envelopes.\<close>

fun seq_advance :: "u64 \<Rightarrow> router \<Rightarrow> envelope list \<Rightarrow> nat" where
  "seq_advance p r [] = 0"
| "seq_advance p r (env # envs) =
     (if producer env = p then
        (case (hm_get (last_seq r) p, hm_get (last_seq (fst (publish r env))) p) of
           (Some l, Some l') \<Rightarrow> unat (l' - l)
         | _ \<Rightarrow> 0)
      else 0) + seq_advance p (fst (publish r env)) envs"

abbreviation publish_all :: "router \<Rightarrow> envelope list \<Rightarrow> router" where
  "publish_all r envs \<equiv> foldl (\<lambda>r env. fst (publish r env)) r envs"

lemma last_seq_publish:
  "hm_get (last_seq (fst (publish r env))) p =
     (if producer env = p \<and> (\<forall>l. hm_get (last_seq r) p = Some l \<longrightarrow> seq_is_newer (ev_seq env) l) then Some (ev_seq env)
      else hm_get (last_seq r) p)"
  by (auto simp: publish_def hm_simps split: option.split)

lemma advance_distance:
  assumes "hm_get (last_seq r) p = Some l" and "unat (l - s) + seq_advance p r envs < 2 ^ 32"
  shows "\<exists>l'. hm_get (last_seq (publish_all r envs)) p = Some l' \<and> unat (l' - s) = unat (l - s) + seq_advance p r envs"
  using assms
proof (induction envs arbitrary: r l)
  case (Cons env envs)
  obtain l1 where l1: "hm_get (last_seq (fst (publish r env))) p = Some l1" "producer env \<noteq> p \<longrightarrow> l1 = l"
    using Cons.prems(1) last_seq_publish [of r env p] by (auto split: if_splits)
  have a: "seq_advance p r (env # envs) = unat (l1 - l) + seq_advance p (fst (publish r env)) envs"
    using l1 Cons.prems(1) by auto
  have "unat (l1 - s) = unat (l1 - l) + unat (l - s)"
    using Cons.prems(2) a unat_diff_trans [of l s l1] by simp
  then show ?case using Cons.IH [OF l1(1)] Cons.prems(2) a by (simp add: add.commute add.left_commute)
qed simp

text \<open>
  Once an envelope has been delivered, every envelope with the same producer and number is dropped as long
  as that producer's numbers have not advanced by more than half of their range.
\<close>

lemma events_at_most_once:
  assumes "hm_get (last_seq r) (producer e) = Some (ev_seq e)" and "seq_advance (producer e) r envs \<le> 2 ^ 31"
  shows "publish (publish_all r envs) e =
    ((publish_all r envs)\<lparr>dropped_replay := dropped_replay (publish_all r envs) + 1\<rparr>, [])"
proof -
  obtain l where "hm_get (last_seq (publish_all r envs)) (producer e) = Some l" "unat (l - ev_seq e) = seq_advance (producer e) r envs"
    using advance_distance [OF assms(1), of "ev_seq e" envs] assms(2) by auto
  then show ?thesis using assms(2) by (simp add: publish_def not_newer_iff)
qed

lemma delivered_recorded:
  "delivered (fst (publish r e)) \<noteq> delivered r \<Longrightarrow> hm_get (last_seq (fst (publish r e))) (producer e) = Some (ev_seq e)"
  by (auto simp: publish_def hm_simps split: if_splits)

end
