(* ===== verification/UiSurfaces.thy ===== *)
theory UiSurfaces
  imports RustStrings
begin

text \<open>
  The policy around user interfaces: origins, message queue, callbacks, focus and content security of pages
  (\<open>crates/ald-nui\<close>), and the registry of runtime textures (\<open>crates/ald-dui\<close>). The browser and the renderer are
  not part of either crate.
\<close>

section \<open>Origins\<close>

definition NUI_MAX_NAME_LEN :: nat where "NUI_MAX_NAME_LEN = 64"

definition NUI_MAX_MESSAGE_LEN :: nat where "NUI_MAX_MESSAGE_LEN = 1048576"

datatype nui_error =
    BadOrigin string
  | BadResource string
  | BadPath string
  | BadCallback string
  | NuiMessageTooLarge nat
  | UnknownCallback string
  | DoubleResponse u64
  | UnknownRequest u64
  | DuplicateCallback string
  | FocusWithoutUi string

definition token_char :: "char \<Rightarrow> bool" where
  "token_char c \<longleftrightarrow> is_alnum c \<or> c = CHR ''_'' \<or> c = CHR ''-''"

definition valid_token :: "string \<Rightarrow> (string \<Rightarrow> nui_error) \<Rightarrow> (unit, nui_error) result" where
  "valid_token s what =
     (if s = [] \<or> NUI_MAX_NAME_LEN < length s then Err (what s)
      else if list_all token_char s then Ok () else Err (what s))"

record nui_origin =
  no_resource :: string
  no_path :: string

definition parse_origin :: "string \<Rightarrow> (nui_origin, nui_error) result" where
  "parse_origin origin =
     (case strip_prefix origin ''aldnui://'' of
        None \<Rightarrow> Err (BadOrigin origin)
      | Some rest \<Rightarrow>
          (case split_once CHR ''/'' rest of
             None \<Rightarrow> Err (BadOrigin origin)
           | Some (res, path) \<Rightarrow>
               (case valid_token res BadResource of
                  Inl e \<Rightarrow> Err e
                | Inr _ \<Rightarrow>
                    if path = [] \<or> CHR 0x00 \<in> set path \<or> CHR 0x5C \<in> set path then Err (BadPath path)
                    else if ''..'' \<in> set (split_on (\<lambda>c. c = CHR ''/'') path) then Err (BadPath path)
                    else Ok \<lparr>no_resource = res, no_path = path\<rparr>)))"

definition resource_allowed :: "nui_origin \<Rightarrow> string list \<Rightarrow> bool" where
  "resource_allowed org allowed \<longleftrightarrow> no_resource org \<in> set allowed"

section \<open>Messages\<close>

record message_queue =
  mq_queue :: "(string \<times> bytes) list"
  mq_capacity :: nat
  mq_dropped :: u64

definition queue_new :: "nat \<Rightarrow> message_queue" where
  "queue_new capacity = \<lparr>mq_queue = [], mq_capacity = max capacity 1, mq_dropped = 0\<rparr>"

definition send :: "message_queue \<Rightarrow> string \<Rightarrow> bytes \<Rightarrow> message_queue \<times> (unit, nui_error) result" where
  "send q res payload =
     (case valid_token res BadResource of
        Inl e \<Rightarrow> (q, Err e)
      | Inr _ \<Rightarrow>
          if NUI_MAX_MESSAGE_LEN < length payload then (q, Err (NuiMessageTooLarge (length payload)))
          else
            let q1 = (if mq_capacity q \<le> length (mq_queue q)
                      then q\<lparr>mq_queue := tl (mq_queue q), mq_dropped := mq_dropped q + 1\<rparr> else q) in
            (q1\<lparr>mq_queue := mq_queue q1 @ [(res, payload)]\<rparr>, Ok ()))"

definition drain :: "message_queue \<Rightarrow> message_queue \<times> (string \<times> bytes) list" where
  "drain q = (q\<lparr>mq_queue := []\<rparr>, mq_queue q)"

section \<open>Callbacks\<close>

record callback_request =
  cr_id :: u64
  cr_callback :: string
  cr_resource :: string
  cr_payload :: bytes

record callback_registry =
  handlers :: "(string, string) hmap"
  cb_pending :: "(u64, callback_request) hmap"
  cb_answered :: "(u64, bytes) hmap"
  next_id :: u64

definition callbacks_new :: callback_registry where
  "callbacks_new = \<lparr>handlers = [], cb_pending = [], cb_answered = [], next_id = 0\<rparr>"

definition register_callback :: "callback_registry \<Rightarrow> string \<Rightarrow> string \<Rightarrow> callback_registry \<times> (unit, nui_error) result" where
  "register_callback c res callback =
     (case valid_token res BadResource of
        Inl e \<Rightarrow> (c, Err e)
      | Inr _ \<Rightarrow>
          (case valid_token callback BadCallback of
             Inl e \<Rightarrow> (c, Err e)
           | Inr _ \<Rightarrow>
               if hm_contains (handlers c) callback then (c, Err (DuplicateCallback callback))
               else (c\<lparr>handlers := hm_insert callback res (handlers c)\<rparr>, Ok ())))"

definition unregister_callback :: "callback_registry \<Rightarrow> string \<Rightarrow> callback_registry \<times> bool" where
  "unregister_callback c callback =
     (c\<lparr>handlers := hm_remove callback (handlers c)\<rparr>, hm_contains (handlers c) callback)"

definition invoke :: "callback_registry \<Rightarrow> string \<Rightarrow> string \<Rightarrow> bytes \<Rightarrow> callback_registry \<times> (u64, nui_error) result" where
  "invoke c res callback payload =
     (case hm_get (handlers c) callback of
        None \<Rightarrow> (c, Err (UnknownCallback callback))
      | Some owner \<Rightarrow>
          if owner \<noteq> res then (c, Err (UnknownCallback callback))
          else if NUI_MAX_MESSAGE_LEN < length payload then (c, Err (NuiMessageTooLarge (length payload)))
          else
            let i = next_id c in
            (c\<lparr>next_id := next_id c + 1,
               cb_pending := hm_insert i \<lparr>cr_id = i, cr_callback = callback, cr_resource = res, cr_payload = payload\<rparr>
                               (cb_pending c)\<rparr>,
             Ok i))"

definition respond :: "callback_registry \<Rightarrow> u64 \<Rightarrow> bytes \<Rightarrow> callback_registry \<times> (unit, nui_error) result" where
  "respond c i response =
     (if hm_contains (cb_answered c) i then (c, Err (DoubleResponse i))
      else if \<not> hm_contains (cb_pending c) i then (c, Err (UnknownRequest i))
      else (c\<lparr>cb_pending := hm_remove i (cb_pending c), cb_answered := hm_insert i response (cb_answered c)\<rparr>, Ok ()))"

definition take_response :: "callback_registry \<Rightarrow> u64 \<Rightarrow> callback_registry \<times> bytes option" where
  "take_response c i = (c\<lparr>cb_answered := hm_remove i (cb_answered c)\<rparr>, hm_get (cb_answered c) i)"

definition pending_count :: "callback_registry \<Rightarrow> nat" where
  "pending_count c = length (cb_pending c)"

section \<open>Focus and content security\<close>

record focus_state =
  ui_open :: "(string, bool) hmap"
  focused :: "string option"
  cursor :: bool
  keep_input :: bool

definition focus_new :: focus_state where
  "focus_new = \<lparr>ui_open = [], focused = None, cursor = False, keep_input = False\<rparr>"

definition set_ui_open :: "focus_state \<Rightarrow> string \<Rightarrow> bool \<Rightarrow> focus_state" where
  "set_ui_open f res opened =
     (if opened then f\<lparr>ui_open := hm_insert res True (ui_open f)\<rparr>
      else
        let f1 = f\<lparr>ui_open := hm_remove res (ui_open f)\<rparr> in
        if focused f1 = Some res then f1\<lparr>focused := None, cursor := False, keep_input := False\<rparr> else f1)"

definition set_focus :: "focus_state \<Rightarrow> string option \<Rightarrow> bool \<Rightarrow> bool \<Rightarrow> focus_state \<times> (unit, nui_error) result" where
  "set_focus f res cur keep =
     (case res of
        None \<Rightarrow> (f\<lparr>focused := None, cursor := False, keep_input := False\<rparr>, Ok ())
      | Some r \<Rightarrow>
          if \<not> hm_contains (ui_open f) r then (f, Err (FocusWithoutUi r))
          else (f\<lparr>focused := Some r, cursor := cur, keep_input := keep\<rparr>, Ok ()))"

record csp_policy =
  allow_wasm :: bool
  allowed_origins :: "string list"

definition quoted :: "string \<Rightarrow> string" where
  "quoted s = [CHR 0x27] @ s @ [CHR 0x27]"

definition csp_header :: "csp_policy \<Rightarrow> string" where
  "csp_header p =
     (let script = [quoted ''self''] @ (if allow_wasm p then [quoted ''wasm-unsafe-eval''] else []) in
      join_with ''; ''
        [''default-src '' @ quoted ''none'', ''script-src '' @ join_with '' '' script,
         if allowed_origins p = [] then ''connect-src '' @ quoted ''none''
         else ''connect-src '' @ join_with '' '' (allowed_origins p)])"

section \<open>Textures\<close>

definition DUI_MAX_NAME_LEN :: nat where "DUI_MAX_NAME_LEN = 64"

definition MAX_URL_LEN :: nat where "MAX_URL_LEN = 2048"

definition DUI_MAX_MESSAGE_LEN :: nat where "DUI_MAX_MESSAGE_LEN = 262144"

definition MAX_DIMENSION :: u32 where "MAX_DIMENSION = 4096"

datatype dui_error =
    BadTextureName string
  | BadDimensions u32 u32
  | UnknownTexture string
  | DuplicateTexture string
  | BadPixelLength nat u32 u32 nat
  | DuiMessageTooLarge nat
  | UrlNotAllowed string

record runtime_texture =
  tex_id :: string
  tex_resource :: string
  tex_width :: u32
  tex_height :: u32
  tex_url :: "string option"

definition pixel_bytes :: "runtime_texture \<Rightarrow> u64" where
  "pixel_bytes t = ucast (tex_width t) * ucast (tex_height t) * 4"

record url_policy =
  allowed_schemes :: "string list"

definition url_policy_default :: url_policy where
  "url_policy_default = \<lparr>allowed_schemes = [''http'', ''https'', ''aldnui'']\<rparr>"

text \<open>\<open>char::is_control\<close> on UTF-8: below a space, DEL, and \<open>U+0080\<close> to \<open>U+009F\<close>.\<close>

fun has_control :: "string \<Rightarrow> bool" where
  "has_control [] = False"
| "has_control (c # cs) =
     (byte_of c < 0x20 \<or> byte_of c = 0x7F \<or>
      (byte_of c = 0xC2 \<and> (case cs of [] \<Rightarrow> False | d # _ \<Rightarrow> 0x80 \<le> byte_of d \<and> byte_of d \<le> 0x9F)) \<or> has_control cs)"

text \<open>The part before the first \<open>://\<close>, or everything.\<close>

fun before_scheme_mark :: "string \<Rightarrow> string" where
  "before_scheme_mark [] = []"
| "before_scheme_mark (c # cs) = (if starts_with (c # cs) ''://'' then [] else c # before_scheme_mark cs)"

definition check_url :: "url_policy \<Rightarrow> string \<Rightarrow> (string, dui_error) result" where
  "check_url p url =
     (if url = [] \<or> MAX_URL_LEN < length url \<or> has_control url then Err (UrlNotAllowed url)
      else
        let scheme = to_ascii_lowercase (before_scheme_mark url) in
        if scheme = [] \<or> scheme \<notin> set (allowed_schemes p) then Err (UrlNotAllowed url) else Ok scheme)"

datatype mouse_button = LeftButton | RightButton | MiddleButton

datatype dui_message =
    UrlChanged string
  | MouseMove "32 word" "32 word"
  | MouseClick "32 word" "32 word" mouse_button bool
  | PageMessage bytes

record forwarded_mouse =
  fm_x :: u32
  fm_y :: u32
  fm_button :: "mouse_button option"
  fm_down :: bool

record texture_registry =
  textures :: "(string, runtime_texture) hmap"
  tr_policy :: url_policy

definition textures_new :: texture_registry where
  "textures_new = \<lparr>textures = [], tr_policy = url_policy_default\<rparr>"

definition with_url_policy :: "url_policy \<Rightarrow> texture_registry" where
  "with_url_policy p = \<lparr>textures = [], tr_policy = p\<rparr>"

definition texture_name_ok :: "string \<Rightarrow> bool" where
  "texture_name_ok nm \<longleftrightarrow> nm \<noteq> [] \<and> length nm \<le> DUI_MAX_NAME_LEN \<and> list_all token_char nm"

definition create_texture :: "texture_registry \<Rightarrow> string \<Rightarrow> string \<Rightarrow> u32 \<Rightarrow> u32 \<Rightarrow> texture_registry \<times> (unit, dui_error) result" where
  "create_texture r i res w h =
     (if \<not> texture_name_ok i then (r, Err (BadTextureName i))
      else if \<not> texture_name_ok res then (r, Err (BadTextureName res))
      else if w = 0 \<or> h = 0 \<or> MAX_DIMENSION < w \<or> MAX_DIMENSION < h then (r, Err (BadDimensions w h))
      else if hm_contains (textures r) i then (r, Err (DuplicateTexture i))
      else (r\<lparr>textures := hm_insert i
               \<lparr>tex_id = i, tex_resource = res, tex_width = w, tex_height = h, tex_url = None\<rparr> (textures r)\<rparr>, Ok ()))"

definition destroy_texture :: "texture_registry \<Rightarrow> string \<Rightarrow> texture_registry \<times> (unit, dui_error) result" where
  "destroy_texture r i =
     (if hm_contains (textures r) i then (r\<lparr>textures := hm_remove i (textures r)\<rparr>, Ok ())
      else (r, Err (UnknownTexture i)))"

definition check_pixels :: "texture_registry \<Rightarrow> string \<Rightarrow> bytes \<Rightarrow> (u64, dui_error) result" where
  "check_pixels r i pixels =
     (case hm_get (textures r) i of
        None \<Rightarrow> Err (UnknownTexture i)
      | Some t \<Rightarrow>
          if length pixels \<noteq> unat (pixel_bytes t)
          then Err (BadPixelLength (length pixels) (tex_width t) (tex_height t) (unat (pixel_bytes t)))
          else Ok (pixel_bytes t))"

definition navigate :: "texture_registry \<Rightarrow> string \<Rightarrow> string \<Rightarrow> texture_registry \<times> (dui_message, dui_error) result" where
  "navigate r i url =
     (case check_url (tr_policy r) url of
        Inl e \<Rightarrow> (r, Err e)
      | Inr _ \<Rightarrow>
          (case hm_get (textures r) i of
             None \<Rightarrow> (r, Err (UnknownTexture i))
           | Some t \<Rightarrow> (r\<lparr>textures := hm_insert i (t\<lparr>tex_url := Some url\<rparr>) (textures r)\<rparr>, Ok (UrlChanged url))))"

text \<open>\<open>i32::clamp(0, size - 1) as u32\<close>; \<open>None\<close>: the bounds are in the wrong order and it panics.\<close>

definition clamp_to :: "32 word \<Rightarrow> u32 \<Rightarrow> u32 option" where
  "clamp_to v extent =
     (let top = sint (sat_sub extent 1) in
      if top < 0 then None else Some (of_int (max 0 (min top (sint v)))))"

definition forward_mouse ::
    "texture_registry \<Rightarrow> string \<Rightarrow> 32 word \<Rightarrow> 32 word \<Rightarrow> mouse_button option \<Rightarrow> bool \<Rightarrow> (forwarded_mouse, dui_error) result option" where
  "forward_mouse r i x y button down =
     (case hm_get (textures r) i of
        None \<Rightarrow> Some (Err (UnknownTexture i))
      | Some t \<Rightarrow>
          (case (clamp_to x (tex_width t), clamp_to y (tex_height t)) of
             (Some cx, Some cy) \<Rightarrow> Some (Ok \<lparr>fm_x = cx, fm_y = cy, fm_button = button, fm_down = down\<rparr>)
           | _ \<Rightarrow> None))"

definition route_page_message :: "texture_registry \<Rightarrow> string \<Rightarrow> bytes \<Rightarrow> (dui_message, dui_error) result" where
  "route_page_message r i payload =
     (if \<not> hm_contains (textures r) i then Err (UnknownTexture i)
      else if DUI_MAX_MESSAGE_LEN < length payload then Err (DuiMessageTooLarge (length payload))
      else Ok (PageMessage payload))"

definition texture_count :: "texture_registry \<Rightarrow> nat" where
  "texture_count r = length (textures r)"

section \<open>Properties of pages\<close>

lemma valid_token_iff: "valid_token s what = Ok () \<longleftrightarrow> s \<noteq> [] \<and> length s \<le> NUI_MAX_NAME_LEN \<and> list_all token_char s"
  by (auto simp: valid_token_def split: if_splits)

lemma valid_token_cases: "valid_token s what = Ok () \<or> valid_token s what = Err (what s)"
  by (auto simp: valid_token_def)

lemma strip_prefix_Some: "strip_prefix s p = Some r \<Longrightarrow> s = p @ r"
  unfolding strip_prefix_def starts_with_def by (metis append_take_drop_id option.distinct(1) option.inject)

text \<open>An origin that is accepted is the text of its two parts, and names no parent directory.\<close>

lemma parse_origin_iff:
  "parse_origin s = Ok org \<longleftrightarrow>
     s = ''aldnui://'' @ no_resource org @ ''/'' @ no_path org \<and>
     no_resource org \<noteq> [] \<and> length (no_resource org) \<le> NUI_MAX_NAME_LEN \<and> list_all token_char (no_resource org) \<and>
     no_path org \<noteq> [] \<and> CHR 0x00 \<notin> set (no_path org) \<and> CHR 0x5C \<notin> set (no_path org) \<and>
     ''..'' \<notin> set (split_on (\<lambda>c. c = CHR ''/'') (no_path org))" (is "?l \<longleftrightarrow> ?r")
proof
  assume ?l
  then obtain rest res path where "strip_prefix s ''aldnui://'' = Some rest" "split_once CHR ''/'' rest = Some (res, path)"
      "valid_token res BadResource = Ok ()" "org = \<lparr>no_resource = res, no_path = path\<rparr>"
      "path \<noteq> []" "CHR 0x00 \<notin> set path" "CHR 0x5C \<notin> set path" "''..'' \<notin> set (split_on (\<lambda>c. c = CHR ''/'') path)"
    by (auto simp: parse_origin_def split: option.splits sum.splits if_splits)
  moreover have "s = ''aldnui://'' @ rest"
    using calculation(1) by (rule strip_prefix_Some)
  ultimately show ?r using split_once_Some [of "CHR ''/''" rest res path] valid_token_iff by auto
next
  assume r: ?r
  then have "CHR ''/'' \<notin> set (no_resource org)"
    by (auto simp: list_all_iff token_char_def is_alnum_def is_digit_def is_lower_def is_upper_def)
  then have "split_once CHR ''/'' (no_resource org @ CHR ''/'' # no_path org) = Some (no_resource org, no_path org)"
    by (rule split_once_append)
  then show ?l using r valid_token_iff [of "no_resource org" BadResource]
    by (simp add: parse_origin_def strip_prefix_def starts_with_def)
qed

text \<open>The queue holds the latest messages since it was drained, at most its capacity, and counts the others.\<close>

definition sendable :: "string \<times> bytes \<Rightarrow> bool" where
  "sendable m \<longleftrightarrow> valid_token (fst m) BadResource = Ok () \<and> length (snd m) \<le> NUI_MAX_MESSAGE_LEN"

lemma send_ok: "sendable (res, p) \<Longrightarrow> send q res p =
    (let over = mq_capacity q \<le> length (mq_queue q) in
     (q\<lparr>mq_queue := (if over then tl (mq_queue q) else mq_queue q) @ [(res, p)],
        mq_dropped := (if over then mq_dropped q + 1 else mq_dropped q)\<rparr>, Ok ()))"
  by (simp add: send_def sendable_def Let_def)

lemma send_refused: "\<not> sendable (res, p) \<Longrightarrow> fst (send q res p) = q \<and> snd (send q res p) \<noteq> Ok ()"
  using valid_token_cases [of res BadResource] by (auto simp: send_def sendable_def split: sum.split)

lemma send_window:
  assumes "mq_queue q = []" and "0 < mq_capacity q"
  defines "good ms \<equiv> filter sendable ms"
  shows "foldl (\<lambda>q (r, p). fst (send q r p)) q ms =
    q\<lparr>mq_queue := drop (length (good ms) - mq_capacity q) (good ms),
      mq_dropped := mq_dropped q + of_nat (length (good ms) - mq_capacity q)\<rparr>"
proof (induction ms rule: rev_induct)
  case Nil
  then show ?case using assms(1) by (simp add: good_def)
next
  case (snoc m ms)
  obtain r p where m: "m = (r, p)" by (cases m)
  show ?case
  proof (cases "sendable m")
    case True
    then show ?thesis using snoc assms(2) m
      by (auto simp: good_def send_ok Let_def Suc_diff_le tl_drop drop_Suc [symmetric] not_le)
  next
    case False
    then show ?thesis using snoc send_refused m by (simp add: good_def)
  qed
qed

text \<open>The resource in focus has an open page.\<close>

definition focus_ok :: "focus_state \<Rightarrow> bool" where
  "focus_ok f \<longleftrightarrow> (case focused f of None \<Rightarrow> \<not> cursor f \<and> \<not> keep_input f | Some r \<Rightarrow> hm_contains (ui_open f) r)"

lemma focus_ok_new: "focus_ok focus_new"
  by (simp add: focus_ok_def focus_new_def)

lemma focus_ok_open: "focus_ok f \<Longrightarrow> focus_ok (set_ui_open f r opened)"
  by (auto simp: focus_ok_def set_ui_open_def Let_def hm_contains_def hm_simps split: option.splits if_splits)

lemma focus_ok_set: "focus_ok f \<Longrightarrow> focus_ok (fst (set_focus f r c k))"
  by (auto simp: focus_ok_def set_focus_def split: option.splits if_splits)

section \<open>Callbacks answer once\<close>

datatype callback_op =
    CbRegister string string | CbUnregister string | CbInvoke string string bytes | CbRespond u64 bytes | CbTake u64

fun callback_step :: "callback_registry \<Rightarrow> callback_op \<Rightarrow> callback_registry" where
  "callback_step c (CbRegister r n) = fst (register_callback c r n)"
| "callback_step c (CbUnregister n) = fst (unregister_callback c n)"
| "callback_step c (CbInvoke r n p) = fst (invoke c r n p)"
| "callback_step c (CbRespond i b) = fst (respond c i b)"
| "callback_step c (CbTake i) = fst (take_response c i)"

text \<open>The responses to one request that a series of operations accepts.\<close>

fun accepted :: "u64 \<Rightarrow> callback_registry \<Rightarrow> callback_op list \<Rightarrow> bytes list" where
  "accepted i c [] = []"
| "accepted i c (op # ops) =
     (case op of CbRespond j b \<Rightarrow> if j = i \<and> snd (respond c j b) = Ok () then [b] else [] | _ \<Rightarrow> []) @
     accepted i (callback_step c op) ops"

definition callbacks_ok :: "nat \<Rightarrow> callback_registry \<Rightarrow> bool" where
  "callbacks_ok n c \<longleftrightarrow> unat (next_id c) = n \<and> (\<forall>i. hm_contains (cb_pending c) i \<longrightarrow> unat i < n)"

lemma hm_contains_iff: "hm_contains m k \<longleftrightarrow> hm_get m k \<noteq> None"
  by (simp add: hm_contains_def)

lemma callback_step_ids:
  assumes "callbacks_ok n c" and "Suc n < 2 ^ 64"
  shows "\<exists>n' \<in> {n, Suc n}. callbacks_ok n' (callback_step c op)"
    and "\<not> hm_contains (cb_pending c) i \<Longrightarrow> unat i < n \<Longrightarrow> \<not> hm_contains (cb_pending (callback_step c op)) i"
proof -
  have s: "unat (next_id c + 1) = Suc n" using assms by (simp add: callbacks_ok_def unat_Suc)
  show "\<exists>n' \<in> {n, Suc n}. callbacks_ok n' (callback_step c op)"
    using assms(1) s
    by (cases op) (auto simp: callbacks_ok_def register_callback_def unregister_callback_def invoke_def respond_def
        take_response_def hm_contains_iff hm_simps Let_def less_Suc_eq split: sum.split option.split if_splits)
  show "\<not> hm_contains (cb_pending c) i \<Longrightarrow> unat i < n \<Longrightarrow> \<not> hm_contains (cb_pending (callback_step c op)) i"
    using assms(1) s
    by (cases op) (auto simp: callbacks_ok_def register_callback_def unregister_callback_def invoke_def respond_def
        take_response_def hm_contains_iff hm_simps Let_def split: sum.split option.split if_splits)
qed

lemma gone_never_answered:
  assumes "callbacks_ok n c" and "n + length ops < 2 ^ 64" and "\<not> hm_contains (cb_pending c) i" and "unat i < n"
  shows "accepted i c ops = []"
  using assms
proof (induction ops arbitrary: n c)
  case (Cons op ops)
  obtain n' where n': "n' \<in> {n, Suc n}" "callbacks_ok n' (callback_step c op)"
    using callback_step_ids(1) [OF Cons.prems(1)] Cons.prems(2) by fastforce
  have g: "\<not> hm_contains (cb_pending (callback_step c op)) i"
    using callback_step_ids(2) [OF Cons.prems(1)] Cons.prems(2-4) by simp
  have "accepted i (callback_step c op) ops = []"
    using Cons.IH [OF n'(2) _ g] Cons.prems(2,4) n'(1) by fastforce
  moreover have "snd (respond c i b) \<noteq> Ok ()" for b using Cons.prems(3) by (simp add: respond_def)
  ultimately show ?case by (auto split: callback_op.split)
qed simp

text \<open>Every request gets at most one response, as long as fewer than \<open>2 ^ 64\<close> operations are made.\<close>

lemma callbacks_answer_once:
  assumes "callbacks_ok n c" and "n + length ops < 2 ^ 64"
  shows "length (accepted i c ops) \<le> 1"
  using assms
proof (induction ops arbitrary: n c)
  case (Cons op ops)
  obtain n' where n': "n' \<in> {n, Suc n}" "callbacks_ok n' (callback_step c op)"
    using callback_step_ids(1) [OF Cons.prems(1)] Cons.prems(2) by fastforce
  have len: "n' + length ops < 2 ^ 64" using Cons.prems(2) n'(1) by auto
  show ?case
  proof (cases "\<exists>b. op = CbRespond i b \<and> snd (respond c i b) = Ok ()")
    case True
    then obtain b where b: "op = CbRespond i b" "snd (respond c i b) = Ok ()" by blast
    then have p: "hm_contains (cb_pending c) i" and g: "\<not> hm_contains (cb_pending (callback_step c op)) i"
      by (auto simp: respond_def hm_contains_iff hm_simps split: if_splits)
    have "unat i < n'" using p Cons.prems(1) n'(1) by (auto simp: callbacks_ok_def)
    then have "accepted i (callback_step c op) ops = []" by (rule gone_never_answered [OF n'(2) len g])
    then show ?thesis using b by simp
  next
    case False
    then show ?thesis using Cons.IH [OF n'(2) len] by (auto split: callback_op.split)
  qed
qed simp

lemma callbacks_ok_new: "callbacks_ok 0 callbacks_new"
  by (simp add: callbacks_ok_def callbacks_new_def hm_contains_iff)

section \<open>Properties of textures\<close>

definition texture_ok :: "runtime_texture \<Rightarrow> bool" where
  "texture_ok t \<longleftrightarrow> 0 < tex_width t \<and> tex_width t \<le> MAX_DIMENSION \<and> 0 < tex_height t \<and> tex_height t \<le> MAX_DIMENSION"

definition textures_ok :: "texture_registry \<Rightarrow> bool" where
  "textures_ok r \<longleftrightarrow> (\<forall>i t. hm_get (textures r) i = Some t \<longrightarrow>
     tex_id t = i \<and> texture_ok t \<and> (\<forall>u. tex_url t = Some u \<longrightarrow> (\<exists>s. check_url (tr_policy r) u = Ok s)))"

lemma textures_ok_new: "textures_ok textures_new" "textures_ok (with_url_policy p)"
  by (simp_all add: textures_ok_def textures_new_def with_url_policy_def)

lemma textures_ok_create: "textures_ok r \<Longrightarrow> textures_ok (fst (create_texture r i res w h))"
  by (auto simp: textures_ok_def texture_ok_def create_texture_def hm_simps word_gt_0 not_less split: if_splits)

lemma textures_ok_destroy: "textures_ok r \<Longrightarrow> textures_ok (fst (destroy_texture r i))"
  by (auto simp: textures_ok_def destroy_texture_def hm_simps split: if_splits)

lemma textures_ok_navigate: "textures_ok r \<Longrightarrow> textures_ok (fst (navigate r i url))"
  by (auto simp: textures_ok_def texture_ok_def navigate_def hm_simps split: sum.splits option.splits if_splits)

text \<open>The size of an upload does not wrap, and a forwarded position lies inside the texture.\<close>

lemma unat_ucast_wide: "unat (ucast (x :: u32) :: u64) = unat x"
  by (simp add: unsigned_ucast_eq take_bit_nat_eq_self less_trans [OF unsigned_less])

lemma pixel_bytes_exact: "texture_ok t \<Longrightarrow> unat (pixel_bytes t) = unat (tex_width t) * unat (tex_height t) * 4"
proof -
  assume "texture_ok t"
  then have w: "unat (tex_width t) \<le> 4096" and h: "unat (tex_height t) \<le> 4096"
    by (simp_all add: texture_ok_def MAX_DIMENSION_def word_le_nat_alt)
  have b: "unat (tex_width t) * unat (tex_height t) \<le> 4096 * 4096" using w h by (rule mult_le_mono)
  have p: "unat (ucast (tex_width t) * ucast (tex_height t) :: u64) = unat (tex_width t) * unat (tex_height t)"
    using b by (subst unat_mult_lem [THEN iffD1]) (simp_all add: unat_ucast_wide)
  show ?thesis using b unfolding pixel_bytes_def
    by (subst unat_mult_lem [THEN iffD1]) (simp_all add: p mult.commute [of "unat (tex_height t)"])
qed

lemma clamp_inside:
  assumes "0 < extent" and "extent \<le> MAX_DIMENSION"
  shows "\<exists>c. clamp_to v extent = Some c \<and> c < extent \<and> uint c = max 0 (min (uint extent - 1) (sint v))"
proof -
  have u: "0 < uint extent" "uint extent \<le> 4096"
    using assms by (simp_all add: MAX_DIMENSION_def word_less_def word_le_def)
  have s: "uint (sat_sub extent 1) = uint extent - 1"
  proof -
    have "int (unat (sat_sub extent 1)) = int (unat extent) - 1" using assms(1) by (simp add: word_less_nat_alt)
    then show ?thesis by (simp only: uint_nat)
  qed
  have "sint (sat_sub extent 1) = uint extent - 1"
    using s u unfolding sint_uint by (simp add: signed_take_bit_int_eq_self)
  then show ?thesis using u
    by (auto simp: clamp_to_def Let_def word_less_def word_of_int_inverse)
qed

lemma mouse_inside:
  assumes "textures_ok r" and "hm_get (textures r) i = Some t"
  shows "\<exists>m. forward_mouse r i x y b d = Some (Ok m) \<and> fm_x m < tex_width t \<and> fm_y m < tex_height t"
  using assms clamp_inside [of "tex_width t" x] clamp_inside [of "tex_height t" y]
  by (fastforce simp: forward_mouse_def textures_ok_def texture_ok_def)

text \<open>A text with no scheme at all is accepted if it spells an allowed scheme.\<close>

lemma schemeless_accepted: "check_url url_policy_default ''http'' = Ok ''http''"
  by code_simp

end
