(* ===== verification/StrictBags.thy ===== *)
theory StrictBags
  imports StateBags RustStrings
begin

text \<open>
  Scoped state bags with owners (\<open>crates/ald-statebag-compat\<close>), on top of the registry of bags in \<open>StateBags\<close>. The world
  \<open>'w\<close> is what the handlers of the bags act on.
\<close>

section \<open>Scopes\<close>

definition MAX_STATE_KEY_LEN :: nat where "MAX_STATE_KEY_LEN = 128"

datatype bag_scope = GlobalScope | EntityScope u32 | PlayerScope u32 | LocalScope

datatype scope_error = BadScopeName string | BadScopeKey string | ScopeState state_error

fun scope_str :: "bag_scope \<Rightarrow> string" where
  "scope_str GlobalScope = ''global''"
| "scope_str (EntityScope i) = ''entity:'' @ show_nat (unat i)"
| "scope_str (PlayerScope i) = ''player:'' @ show_nat (unat i)"
| "scope_str LocalScope = ''localplayer''"

definition scope_bag_id :: "bag_scope \<Rightarrow> string" where
  "scope_bag_id s = scope_str s"

definition parse_scope :: "string \<Rightarrow> (bag_scope, scope_error) result" where
  "parse_scope s =
     (let t = trim s; lower = to_ascii_lowercase t in
      if lower = ''global'' then Ok GlobalScope
      else if lower = ''localplayer'' then Ok LocalScope
      else
        (case split_once CHR '':'' t of
           None \<Rightarrow> Err (BadScopeName s)
         | Some (kind, num) \<Rightarrow>
             if num = [] \<or> hd num = CHR ''+'' \<or> hd num = CHR ''-'' then Err (BadScopeName s)
             else
               (case parse_unsigned (2 ^ 32 - 1) num of
                  None \<Rightarrow> Err (BadScopeName s)
                | Some i \<Rightarrow>
                    if to_ascii_lowercase kind = ''entity'' then Ok (EntityScope (of_int i))
                    else if to_ascii_lowercase kind = ''player'' then Ok (PlayerScope (of_int i))
                    else Err (BadScopeName s))))"

definition validate_state_key :: "string \<Rightarrow> (unit, scope_error) result" where
  "validate_state_key key =
     (if key = [] then Err (BadScopeKey ''key is empty'')
      else if MAX_STATE_KEY_LEN < length key then Err (BadScopeKey ''key too long'')
      else if CHR 0x00 \<in> set key then Err (BadScopeKey ''key contains NUL'')
      else if MAX_KEY_LEN < length key then Err (BadScopeKey ''key too long'')
      else Ok ())"

section \<open>Strict bags\<close>

record 'w strict_bags =
  sb_registry :: "'w registry"
  sb_owners :: "(string, owner_id) hmap"

definition strict_new :: "'w strict_bags" where
  "strict_new = \<lparr>sb_registry = registry_new, sb_owners = []\<rparr>"

definition strict_create :: "'w strict_bags \<Rightarrow> bag_scope \<Rightarrow> owner_id \<Rightarrow> 'w strict_bags \<times> (unit, scope_error) result" where
  "strict_create b scope own =
     (let i = scope_bag_id scope in
      case hm_get (sb_owners b) i of
        Some existing \<Rightarrow>
          if existing \<noteq> own then (b, Err (BadScopeKey (''bag '' @ i @ '' already owned''))) else (b, Ok ())
      | None \<Rightarrow>
          let (reg, bag) = get_or_create (sb_registry b) i OwnerOnly in
          (b\<lparr>sb_registry := hm_insert i (set_owner bag (Some own)) reg, sb_owners := hm_insert i own (sb_owners b)\<rparr>, Ok ()))"

definition strict_transfer ::
    "'w strict_bags \<Rightarrow> bag_scope \<Rightarrow> owner_id \<Rightarrow> owner_id \<Rightarrow> 'w strict_bags \<times> (unit, scope_error) result" where
  "strict_transfer b scope frm to =
     (let i = scope_bag_id scope in
      if hm_get (sb_owners b) i = Some frm then
        (b\<lparr>sb_registry := (case hm_get (sb_registry b) i of
                             None \<Rightarrow> sb_registry b
                           | Some bag \<Rightarrow> hm_insert i (set_owner bag (Some to)) (sb_registry b)),
           sb_owners := hm_insert i to (sb_owners b)\<rparr>, Ok ())
      else (b, Err (ScopeState (NotOwner frm))))"

definition strict_set ::
    "'w strict_bags \<Rightarrow> 'w \<Rightarrow> bag_scope \<Rightarrow> string \<Rightarrow> state_value \<Rightarrow> owner_id \<Rightarrow>
     ('w strict_bags \<times> 'w) \<times> (u64, scope_error) result" where
  "strict_set b w scope key v writer =
     (case validate_state_key key of
        Inl e \<Rightarrow> ((b, w), Err e)
      | Inr _ \<Rightarrow>
          (let i = scope_bag_id scope in
           case hm_get (sb_registry b) i of
             None \<Rightarrow> ((b, w), Err (BadScopeName i))
           | Some bag \<Rightarrow>
               (case bag_set bag w key v writer of
                  ((bag', w'), r) \<Rightarrow>
                    ((b\<lparr>sb_registry := hm_insert i bag' (sb_registry b)\<rparr>, w'),
                     case r of Inl e \<Rightarrow> Err (ScopeState e) | Inr n \<Rightarrow> Ok n))))"

definition strict_get :: "'w strict_bags \<Rightarrow> bag_scope \<Rightarrow> string \<Rightarrow> state_value option" where
  "strict_get b scope key =
     (case hm_get (sb_registry b) (scope_bag_id scope) of None \<Rightarrow> None | Some bag \<Rightarrow> bag_get bag key)"

definition owner_of :: "'w strict_bags \<Rightarrow> bag_scope \<Rightarrow> owner_id option" where
  "owner_of b scope = hm_get (sb_owners b) (scope_bag_id scope)"

section \<open>Names\<close>

lemma digits_graphic: "list_all is_digit s \<Longrightarrow> c \<in> set s \<Longrightarrow> is_graphic c"
  by (auto simp: list_all_iff is_digit_def is_graphic_def)

lemma trim_numbered: "is_graphic c \<Longrightarrow> trim ((c # s) @ show_nat n) = (c # s) @ show_nat n"
proof -
  assume "is_graphic c"
  obtain t d where t: "show_nat n = t @ [d]" using show_nat_digits [of n] by (metis rev_exhaust)
  then have "is_graphic d" using show_nat_digits [of n] digits_graphic [of "show_nat n" d] by simp
  then show ?thesis using trim_stops [of c d "[]" "s @ t"] \<open>is_graphic c\<close> t by simp
qed

lemma head_of_number: "num = show_nat n \<Longrightarrow> num \<noteq> [] \<and> is_digit (hd num)"
  using show_nat_digits [of n] by (cases num) (metis list.pred_inject(2) list.sel(1))+

lemma parse_numbered:
  assumes "kind \<in> {''entity'', ''player''}"
  shows "parse_scope (kind @ '':'' @ show_nat (unat (i :: u32))) =
    Ok (if kind = ''entity'' then EntityScope i else PlayerScope i)"
proof -
  have t: "trim (kind @ '':'' @ show_nat (unat i)) = kind @ '':'' @ show_nat (unat i)"
    using assms trim_numbered [of "CHR ''e''" "''ntity:''" "unat i"] trim_numbered [of "CHR ''p''" "''layer:''" "unat i"]
    by (auto simp: is_graphic_def)
  have n: "show_nat (unat i) \<noteq> []" "is_digit (hd (show_nat (unat i)))" using head_of_number by auto
  have "int (unat i) \<le> 2 ^ 32 - 1" using unsigned_less [of i, where 'a = int] by simp
  then have p: "parse_unsigned (2 ^ 32 - 1) (show_nat (unat i)) = Some (int (unat i))" by (rule parse_show_nat)
  have s: "split_once CHR '':'' (kind @ '':'' @ show_nat (unat i)) = Some (kind, show_nat (unat i))"
    using assms split_once_append [of "CHR '':''" kind] by auto
  have l: "to_ascii_lowercase (kind @ '':'' @ show_nat (unat i)) \<noteq> ''global''"
    "to_ascii_lowercase (kind @ '':'' @ show_nat (unat i)) \<noteq> ''localplayer''"
    using assms by (auto simp: to_ascii_lowercase_def lower_char_def is_upper_def)
  have k: "to_ascii_lowercase kind = kind"
    using assms by (auto simp: to_ascii_lowercase_def lower_char_def is_upper_def)
  have h: "hd (show_nat (unat i)) \<noteq> CHR ''+''" "hd (show_nat (unat i)) \<noteq> CHR ''-''"
    using n(2) by (auto simp: is_digit_def)
  have "parse_scope (kind @ '':'' @ show_nat (unat i)) =
      (if kind = ''entity'' then Ok (EntityScope (of_int (int (unat i))))
       else if kind = ''player'' then Ok (PlayerScope (of_int (int (unat i))))
       else Err (BadScopeName (kind @ '':'' @ show_nat (unat i))))"
    unfolding parse_scope_def Let_def t s if_not_P [OF l(1)] if_not_P [OF l(2)] option.case prod.case k p using n(1) h by simp
  then show ?thesis using assms by auto
qed

lemma parse_fixed: "parse_scope ''global'' = Ok GlobalScope" "parse_scope ''localplayer'' = Ok LocalScope"
  by code_simp+

text \<open>The name of a scope is read back as that scope, so different scopes never share a bag.\<close>

lemma scope_roundtrip: "parse_scope (scope_str s) = Ok s"
  using parse_numbered [of "''entity''"] parse_numbered [of "''player''"] by (cases s) (auto simp: parse_fixed)

lemma scope_bag_id_inj: "scope_bag_id s = scope_bag_id t \<longleftrightarrow> s = t"
  unfolding scope_bag_id_def using scope_roundtrip by (metis sum.inject(2))

lemma state_key_ok: "validate_state_key k = Ok () \<longleftrightarrow> key_ok k"
  by (auto simp: validate_state_key_def key_ok_def MAX_STATE_KEY_LEN_def MAX_KEY_LEN_def split: if_splits)

section \<open>Ownership\<close>

datatype strict_op =
  SCreate bag_scope owner_id | STransfer bag_scope owner_id owner_id | SSet bag_scope string state_value owner_id

fun strict_step :: "'w strict_bags \<times> 'w \<Rightarrow> strict_op \<Rightarrow> 'w strict_bags \<times> 'w" where
  "strict_step (b, w) (SCreate s own) = (fst (strict_create b s own), w)"
| "strict_step (b, w) (STransfer s frm to) = (fst (strict_transfer b s frm to), w)"
| "strict_step (b, w) (SSet s k v writer) = fst (strict_set b w s k v writer)"

text \<open>The owner recorded for a scope is the owner of its bag, which only that owner may write.\<close>

definition strict_ok :: "'w strict_bags \<Rightarrow> bool" where
  "strict_ok b \<longleftrightarrow> (\<forall>i. map_option owner (hm_get (sb_registry b) i) = map_option Some (hm_get (sb_owners b) i)) \<and>
     (\<forall>i bag. hm_get (sb_registry b) i = Some bag \<longrightarrow> policy bag = OwnerOnly)"

lemma strict_ok_new: "strict_ok strict_new"
  by (simp add: strict_ok_def strict_new_def registry_new_def)

lemma strict_ok_bag: "strict_ok b \<Longrightarrow> hm_get (sb_registry b) i = Some bag \<Longrightarrow>
    policy bag = OwnerOnly \<and> owner bag = hm_get (sb_owners b) i"
proof -
  assume ok: "strict_ok b" and bag: "hm_get (sb_registry b) i = Some bag"
  then have "map_option owner (Some bag) = map_option Some (hm_get (sb_owners b) i)" unfolding strict_ok_def by metis
  then show ?thesis using ok bag by (cases "hm_get (sb_owners b) i") (auto simp: strict_ok_def)
qed

lemma strict_ok_update:
  assumes "strict_ok b" and "hm_get (sb_registry b) i = Some bag" and "owner bag' = owner bag" and "policy bag' = policy bag"
  shows "strict_ok (b\<lparr>sb_registry := hm_insert i bag' (sb_registry b)\<rparr>)"
proof -
  have "map_option owner (Some bag) = map_option Some (hm_get (sb_owners b) i)" using assms(1,2) unfolding strict_ok_def by metis
  then show ?thesis using assms by (auto simp: strict_ok_def hm_simps)
qed

lemma strict_ok_put:
  assumes "strict_ok b" and "owner bag = Some own" and "policy bag = OwnerOnly"
  shows "strict_ok (b\<lparr>sb_registry := hm_insert i bag (sb_registry b), sb_owners := hm_insert i own (sb_owners b)\<rparr>)"
  using assms by (auto simp: strict_ok_def hm_simps)

lemma strict_ok_create: "strict_ok b \<Longrightarrow> strict_ok (fst (strict_create b s own))"
proof -
  assume ok: "strict_ok b"
  let ?i = "scope_bag_id s"
  show ?thesis
  proof (cases "hm_get (sb_owners b) ?i")
    case None
    then have "hm_get (sb_registry b) ?i = None" using ok unfolding strict_ok_def by (metis option.map_disc_iff)
    then have "fst (strict_create b s own) = b\<lparr>sb_registry := hm_insert ?i (set_owner (state_bag_new ?i OwnerOnly) (Some own))
        (hm_or_insert ?i (state_bag_new ?i OwnerOnly) (sb_registry b)), sb_owners := hm_insert ?i own (sb_owners b)\<rparr>"
      using None by (simp add: strict_create_def get_or_create_def Let_def hm_get_or_def hm_simps)
    then show ?thesis using ok by (auto simp: strict_ok_def hm_simps set_owner_def state_bag_new_def)
  qed (use ok in \<open>simp add: strict_create_def\<close>)
qed

lemma strict_ok_transfer: "strict_ok b \<Longrightarrow> strict_ok (fst (strict_transfer b s frm to))"
proof -
  assume ok: "strict_ok b"
  show ?thesis
  proof (cases "hm_get (sb_owners b) (scope_bag_id s) = Some frm")
    case True
    then obtain bag where bag: "hm_get (sb_registry b) (scope_bag_id s) = Some bag"
      using ok unfolding strict_ok_def by (metis map_option_eq_Some option.simps(9))
    then show ?thesis
      using True strict_ok_put [OF ok, of "set_owner bag (Some to)" to] strict_ok_bag [OF ok bag]
      by (simp add: strict_transfer_def Let_def set_owner_def)
  qed (use ok in \<open>simp add: strict_transfer_def Let_def\<close>)
qed

lemma strict_set_owner:
  assumes "strict_ok b"
  shows "strict_ok (fst (fst (strict_set b w s k v writer)))"
    and "snd (strict_set b w s k v writer) = Ok n \<Longrightarrow> owner_of b s = Some writer \<and> key_ok k \<and> fits 16 v \<and>
      strict_get (fst (fst (strict_set b w s k v writer))) s k = Some v"
    and "t \<noteq> s \<or> j \<noteq> k \<Longrightarrow> strict_get (fst (fst (strict_set b w s k v writer))) t j = strict_get b t j"
proof -
  let ?i = "scope_bag_id s"
  have "strict_ok (fst (fst (strict_set b w s k v writer))) \<and>
    (snd (strict_set b w s k v writer) = Ok n \<longrightarrow> owner_of b s = Some writer \<and> key_ok k \<and> fits 16 v \<and>
      strict_get (fst (fst (strict_set b w s k v writer))) s k = Some v) \<and>
    (t \<noteq> s \<or> j \<noteq> k \<longrightarrow> strict_get (fst (fst (strict_set b w s k v writer))) t j = strict_get b t j)"
  proof (cases "validate_state_key k = Ok () \<and> hm_get (sb_registry b) ?i \<noteq> None")
    case False
    then have "\<exists>e. strict_set b w s k v writer = ((b, w), Err e)"
      by (auto simp: strict_set_def Let_def split: sum.split)
    then show ?thesis using assms by auto
  next
    case True
    then obtain bag where bag: "hm_get (sb_registry b) ?i = Some bag" and k: "validate_state_key k = Ok ()" by auto
    have o: "policy bag = OwnerOnly" "owner bag = hm_get (sb_owners b) ?i" using strict_ok_bag [OF assms bag] by auto
    show ?thesis
    proof (cases rule: bag_set_cases [of bag w k v writer])
      case (refused e)
      then have "strict_set b w s k v writer = ((b\<lparr>sb_registry := hm_insert ?i bag (sb_registry b)\<rparr>, w), Err (ScopeState e))"
        using bag k by (simp add: strict_set_def Let_def)
      then show ?thesis using strict_ok_update [OF assms bag, of bag] bag by (auto simp: strict_get_def hm_simps)
    next
      case (stored r w')
      let ?bag = "bag\<lparr>bag_values := hm_insert k (v, r) (bag_values bag), bag_seq := bag_seq bag + 1\<rparr>"
      have e: "strict_set b w s k v writer = ((b\<lparr>sb_registry := hm_insert ?i ?bag (sb_registry b)\<rparr>, w'), Ok (bag_seq bag + 1))"
        using stored bag k by (simp add: strict_set_def Let_def)
      have "owner_of b s = Some writer" using stored(1) o by (simp add: may_write_def owner_of_def)
      moreover have "strict_ok (fst (fst (strict_set b w s k v writer)))"
        using strict_ok_update [OF assms bag, of ?bag] unfolding e by simp
      ultimately show ?thesis
        using stored(2,3) bag unfolding e by (auto simp: strict_get_def bag_get_insert hm_simps scope_bag_id_inj)
    qed
  qed
  then show "strict_ok (fst (fst (strict_set b w s k v writer)))"
    and "snd (strict_set b w s k v writer) = Ok n \<Longrightarrow> owner_of b s = Some writer \<and> key_ok k \<and> fits 16 v \<and>
      strict_get (fst (fst (strict_set b w s k v writer))) s k = Some v"
    and "t \<noteq> s \<or> j \<noteq> k \<Longrightarrow> strict_get (fst (fst (strict_set b w s k v writer))) t j = strict_get b t j"
    by blast+
qed

lemma strict_ok_step: "strict_ok (fst st) \<Longrightarrow> strict_ok (fst (strict_step st op))"
  by (cases st; cases op) (auto simp: strict_ok_create strict_ok_transfer strict_set_owner(1))

lemma strict_ok_run: "strict_ok (fst st) \<Longrightarrow> strict_ok (fst (foldl strict_step st ops))"
  by (induction ops arbitrary: st) (simp_all add: strict_ok_step)

text \<open>In every reachable state a scope changes its owner only by a transfer from that owner.\<close>

lemma owner_changes_by_transfer:
  assumes "owner_of (fst st) s = Some own" and "owner_of (fst (strict_step st op)) s \<noteq> Some own"
  shows "\<exists>to. op = STransfer s own to \<and> owner_of (fst (strict_step st op)) s = Some to"
proof (cases st)
  case (Pair b w)
  show ?thesis
  proof (cases op)
    case (SCreate t o')
    then show ?thesis using assms Pair
      by (auto simp: owner_of_def strict_create_def Let_def hm_simps scope_bag_id_inj split: option.splits prod.splits if_splits)
  next
    case (STransfer t frm to)
    then show ?thesis using assms Pair
      by (auto simp: owner_of_def strict_transfer_def Let_def hm_simps scope_bag_id_inj split: if_splits)
  next
    case (SSet t k v writer)
    then show ?thesis using assms Pair
      by (auto simp: owner_of_def strict_set_def Let_def split: sum.splits option.splits prod.splits)
  qed
qed

end
