(* ===== verification/Extensions.thy ===== *)
theory Extensions
  imports NodeRuntime Paths
begin

text \<open>
  Native extensions (\<open>crates/ald-native-extension\<close>): the manifest, the checks before a library may be opened, and the
  load itself. Parameters: \<open>semver\<close>, Ed25519, SHA-256, Unicode lower-casing, the version the crate was built with, and
  the dynamic loader.
\<close>

section \<open>Manifests\<close>

definition HOST_ABI :: u32 where "HOST_ABI = 1"

definition INIT_SYMBOL :: string where "INIT_SYMBOL = ''ald_extension_init''"

definition KNOWN_CAPABILITIES :: "string list" where
  "KNOWN_CAPABILITIES =
     [''game.natives.call'', ''game.entities.read'', ''game.entities.write'', ''net.events.send'', ''net.events.recv'',
      ''db.query'', ''fs.read'', ''fs.write'', ''http.outbound'', ''timers'', ''logging'']"

datatype ext_error =
    MalformedManifest string
  | UnknownCapability string string
  | AbiMismatch string u32
  | RuntimeMismatch string string
  | UnsafeLibraryPath string string
  | Unsigned string
  | BadSignature string
  | UntrustedKey string
  | HashMismatch string
  | CapabilityDenied string string
  | LibraryLoad string string
  | MissingSymbol string
  | InitFailed string "32 word"

fun quarantines :: "ext_error \<Rightarrow> bool" where
  "quarantines (BadSignature _) = True"
| "quarantines (UntrustedKey _) = True"
| "quarantines (Unsigned _) = True"
| "quarantines (HashMismatch _) = True"
| "quarantines (CapabilityDenied _ _) = True"
| "quarantines (UnknownCapability _ _) = True"
| "quarantines _ = False"

record ext_signature =
  sig_algorithm :: string
  public_key_hex :: string
  signature_hex :: string

definition is_signed :: "ext_signature \<Rightarrow> bool" where
  "is_signed s \<longleftrightarrow> signature_hex s \<noteq> []"

definition ALGO :: string where "ALGO = ''ed25519''"

record ext_manifest =
  extension_id :: string
  ext_version :: string
  abi_version :: u32
  publisher_id :: string
  library :: string
  requires_runtime :: "string option"
  ext_capabilities :: "string list"
  signature :: ext_signature

record ext_policy =
  allow_unsigned :: bool
  trusted_keys :: "string list"
  allowed_capabilities :: "string list"

definition ext_policy_default :: ext_policy where
  "ext_policy_default = \<lparr>allow_unsigned = False, trusted_keys = [], allowed_capabilities = []\<rparr>"

record authorized =
  auth_manifest :: ext_manifest
  lib_sha256_hex :: string
  auth_capabilities :: "string list"

text \<open>What the checks use of other crates and of the standard library.\<close>

record ed25519 =
  key_accepted :: "bytes \<Rightarrow> bool"
  ed_verify :: "bytes \<Rightarrow> bytes \<Rightarrow> bytes \<Rightarrow> bool"

record ('r, 'v) ext_env =
  env_semver :: "('r, 'v) semver"
  env_ed :: ed25519
  env_sha256 :: "bytes \<Rightarrow> bytes"
  env_lower :: "string \<Rightarrow> string"
  host_runtime :: string

section \<open>Checks\<close>

definition component_count :: "string \<Rightarrow> nat" where
  "component_count s = (if absolute (path_of s) then 1 else 0) + length (comps (path_of s))"

definition bare_filename :: "string \<Rightarrow> bool" where
  "bare_filename l \<longleftrightarrow>
     \<not> (l = [] \<or> CHR ''/'' \<in> set l \<or> CHR 0x5C \<in> set l \<or> CHR '':'' \<in> set l \<or>
        hd (split_on (\<lambda>c. c = CHR ''.'') l) = [] \<or>
        ''..'' \<in> set (split_on (\<lambda>c. c = CHR ''/'') l) \<or> ''..'' \<in> set (split_on (\<lambda>c. c = CHR 0x5C) l) \<or>
        component_count l \<noteq> 1)"

definition validate_shape :: "('r, 'v) ext_env \<Rightarrow> ext_manifest \<Rightarrow> (unit, ext_error) result" where
  "validate_shape env m =
     (if trim (extension_id m) = [] then Err (MalformedManifest ''extension_id is empty'')
      else if 128 < length (extension_id m) then Err (MalformedManifest ''extension_id too long'')
      else if version_parse (env_semver env) (ext_version m) = None
        then Err (MalformedManifest (''version '' @ [CHR 0x27] @ ext_version m @ [CHR 0x27] @ '' is not semver''))
      else if trim (publisher_id m) = [] then Err (MalformedManifest ''publisher_id is empty'')
      else if \<not> bare_filename (library m) then Err (UnsafeLibraryPath (extension_id m) (library m))
      else Ok ())"

text \<open>Every field is followed by a NUL; the capabilities are sorted.\<close>

definition signed_fields :: "ext_manifest \<Rightarrow> string \<Rightarrow> string list" where
  "signed_fields m h =
     [extension_id m, ext_version m, show_nat (unat (abi_version m)), publisher_id m,
      case requires_runtime m of None \<Rightarrow> [] | Some r \<Rightarrow> r] @ sort (ext_capabilities m) @ [h]"

definition canonical_extension_bytes :: "ext_manifest \<Rightarrow> string \<Rightarrow> bytes" where
  "canonical_extension_bytes m h = str_bytes (concat (map (\<lambda>f. f @ [CHR 0x00]) (signed_fields m h)))"

definition lib_digest :: "('r, 'v) ext_env \<Rightarrow> bytes \<Rightarrow> string" where
  "lib_digest env bs = hex_lower (env_sha256 env bs)"

text \<open>This crate's copy of the hexadecimal decoder.\<close>

definition ext_hex_decode :: "string \<Rightarrow> bytes option" where
  "ext_hex_decode s = hex_decode s"

definition verify_extension :: "('r, 'v) ext_env \<Rightarrow> ext_manifest \<Rightarrow> string \<Rightarrow> ext_policy \<Rightarrow> (unit, ext_error) result" where
  "verify_extension env m h policy =
     (let s = signature m in
      if \<not> is_signed s then
        (if allow_unsigned policy then Ok () else Err (Unsigned (extension_id m)))
      else if sig_algorithm s \<noteq> ALGO then
        Err (MalformedManifest (''unsupported signature algorithm '' @ [CHR 0x27] @ sig_algorithm s @ [CHR 0x27]))
      else if \<not> list_ex (\<lambda>k. env_lower env k = env_lower env (public_key_hex s)) (trusted_keys policy) then
        Err (UntrustedKey (extension_id m))
      else
        (case ext_hex_decode (public_key_hex s) of
           None \<Rightarrow> Err (MalformedManifest ''public key is not 32-byte hex'')
         | Some pk \<Rightarrow>
             if length pk \<noteq> 32 then Err (MalformedManifest ''public key is not 32-byte hex'')
             else
               (case ext_hex_decode (signature_hex s) of
                  None \<Rightarrow> Err (MalformedManifest ''signature is not 64-byte hex'')
                | Some sg \<Rightarrow>
                    if length sg \<noteq> 64 then Err (MalformedManifest ''signature is not 64-byte hex'')
                    else if \<not> key_accepted (env_ed env) pk then Err (MalformedManifest ''public key rejected'')
                    else if ed_verify (env_ed env) pk (canonical_extension_bytes m h) sg then Ok ()
                    else Err (BadSignature (extension_id m)))))"

fun grant_capabilities :: "string \<Rightarrow> ext_policy \<Rightarrow> string list \<Rightarrow> string list \<Rightarrow> (string list, ext_error) result" where
  "grant_capabilities i policy [] granted = Ok granted"
| "grant_capabilities i policy (c # cs) granted =
     (if c \<notin> set KNOWN_CAPABILITIES then Err (UnknownCapability i c)
      else if c \<notin> set (allowed_capabilities policy) then Err (CapabilityDenied i c)
      else grant_capabilities i policy cs (if c \<in> set granted then granted else insort c granted))"

definition check_runtime :: "('r, 'v) ext_env \<Rightarrow> ext_manifest \<Rightarrow> (unit, ext_error) result option" where
  "check_runtime env m =
     (case requires_runtime m of
        None \<Rightarrow> Some (Ok ())
      | Some req \<Rightarrow>
          (case req_parse (env_semver env) req of
             Inl _ \<Rightarrow> Some (Err (MalformedManifest
               (''requires_runtime '' @ [CHR 0x27] @ req @ [CHR 0x27] @ '' is not a valid range'')))
           | Inr r \<Rightarrow>
               (case version_parse (env_semver env) (host_runtime env) of
                  None \<Rightarrow> None
                | Some host \<Rightarrow>
                    if req_matches (env_semver env) r host then Some (Ok ())
                    else Some (Err (RuntimeMismatch (extension_id m) req)))))"

text \<open>Outer \<open>None\<close>: the \<open>expect\<close> on the version of the crate panics.\<close>

definition authorize ::
    "('r, 'v) ext_env \<Rightarrow> ext_manifest \<Rightarrow> bytes \<Rightarrow> string \<Rightarrow> ext_policy \<Rightarrow> (authorized, ext_error) result option" where
  "authorize env m lib expected policy =
     (case validate_shape env m of
        Inl e \<Rightarrow> Some (Err e)
      | Inr _ \<Rightarrow>
          if abi_version m \<noteq> HOST_ABI then Some (Err (AbiMismatch (extension_id m) (abi_version m)))
          else
            (case check_runtime env m of
               None \<Rightarrow> None
             | Some (Inl e) \<Rightarrow> Some (Err e)
             | Some (Inr _) \<Rightarrow>
                 let actual = lib_digest env lib in
                 if actual \<noteq> env_lower env expected then Some (Err (HashMismatch (extension_id m)))
                 else
                   (case verify_extension env m actual policy of
                      Inl e \<Rightarrow> Some (Err e)
                    | Inr _ \<Rightarrow>
                        (case grant_capabilities (extension_id m) policy (ext_capabilities m) [] of
                           Inl e \<Rightarrow> Some (Err e)
                         | Inr caps \<Rightarrow>
                             Some (Ok \<lparr>auth_manifest = m, lib_sha256_hex = actual, auth_capabilities = caps\<rparr>)))))"

section \<open>Loading\<close>

record 'l loader =
  lib_open :: "upath \<Rightarrow> ('l, string) result"
  lib_has :: "'l \<Rightarrow> string \<Rightarrow> bool"
  lib_init :: "'l \<Rightarrow> u32 \<Rightarrow> 32 word"

record 'l loaded_extension =
  le_id :: string
  le_version :: string
  le_capabilities :: "string list"
  init_code :: "32 word"
  le_lib :: 'l

definition load_with_abi :: "'l loader \<Rightarrow> authorized \<Rightarrow> upath \<Rightarrow> u32 \<Rightarrow> ('l loaded_extension, ext_error) result" where
  "load_with_abi ld a dir host_abi =
     (let m = auth_manifest a; i = extension_id m in
      if CHR ''/'' \<in> set (library m) \<or> CHR 0x5C \<in> set (library m) then Err (UnsafeLibraryPath i (library m))
      else
        (case lib_open ld (path_join dir (library m)) of
           Inl reason \<Rightarrow> Err (LibraryLoad i reason)
         | Inr lib \<Rightarrow>
             if \<not> lib_has ld lib INIT_SYMBOL then Err (MissingSymbol i)
             else
               let code = lib_init ld lib host_abi in
               if code \<noteq> 0 then Err (InitFailed i code)
               else Ok \<lparr>le_id = i, le_version = ext_version m, le_capabilities = auth_capabilities a, init_code = code,
                       le_lib = lib\<rparr>))"

definition load_extension :: "'l loader \<Rightarrow> authorized \<Rightarrow> upath \<Rightarrow> ('l loaded_extension, ext_error) result" where
  "load_extension ld a dir = load_with_abi ld a dir HOST_ABI"

definition has_symbol :: "'l loader \<Rightarrow> 'l loaded_extension \<Rightarrow> string \<Rightarrow> bool" where
  "has_symbol ld e nm \<longleftrightarrow> nm \<noteq> [] \<and> is_ascii nm \<and> lib_has ld (le_lib e) nm"

section \<open>What is authorized\<close>

lemma grant_capabilities_ok:
  assumes "grant_capabilities i policy cs granted = Ok caps" and "sorted granted" and "distinct granted"
  shows "sorted caps \<and> distinct caps \<and> set caps = set granted \<union> set cs \<and>
    set cs \<subseteq> set KNOWN_CAPABILITIES \<inter> set (allowed_capabilities policy)"
  using assms
proof (induction cs arbitrary: granted)
  case (Cons c cs)
  let ?g = "if c \<in> set granted then granted else insort c granted"
  have "grant_capabilities i policy cs ?g = Ok caps" "c \<in> set KNOWN_CAPABILITIES" "c \<in> set (allowed_capabilities policy)"
    using Cons.prems(1) by (auto split: if_splits)
  moreover have "sorted ?g" "distinct ?g" "set ?g = insert c (set granted)"
    using Cons.prems by (auto simp: sorted_insort distinct_insort set_insort_key)
  ultimately show ?case using Cons.IH [of ?g] by auto
qed simp

lemma bare_name:
  assumes "bare_filename l"
  shows "l \<noteq> [] \<and> hd l \<noteq> CHR ''.'' \<and> {CHR ''/'', CHR 0x5C, CHR '':''} \<inter> set l = {} \<and>
    comps (path_join dir l) = comps dir @ [l] \<and> absolute (path_join dir l) = absolute dir"
proof -
  have l: "l \<noteq> []" "CHR ''/'' \<notin> set l" "CHR 0x5C \<notin> set l" "CHR '':'' \<notin> set l"
      "hd (split_on (\<lambda>c. c = CHR ''.'') l) \<noteq> []"
    using assms by (auto simp: bare_filename_def)
  then have "hd l \<noteq> CHR ''.''" by (cases l) auto
  moreover from this have "l \<noteq> ''.''" by auto
  ultimately show ?thesis using l path_join_plain [of l dir] by (auto simp: path_push_def)
qed

lemma verified_extension:
  assumes "verify_extension env m h policy = Ok ()"
  shows "allow_unsigned policy \<and> signature_hex (signature m) = [] \<or>
    (\<exists>k \<in> set (trusted_keys policy). env_lower env k = env_lower env (public_key_hex (signature m))) \<and>
    (\<exists>pk sg. hex_decode (public_key_hex (signature m)) = Some pk \<and> hex_decode (signature_hex (signature m)) = Some sg \<and>
       length pk = 32 \<and> length sg = 64 \<and> key_accepted (env_ed env) pk \<and>
       ed_verify (env_ed env) pk (canonical_extension_bytes m h) sg)"
  using assms
  by (auto simp: verify_extension_def ext_hex_decode_def is_signed_def list_ex_iff Let_def split: if_splits option.splits)

text \<open>A sequence of NUL-terminated texts without NUL determines the texts.\<close>

lemma terminated_inj:
  assumes "concat (map (\<lambda>f. f @ [z]) fs) = concat (map (\<lambda>f. f @ [z]) gs)"
    and "\<forall>f \<in> set fs. z \<notin> set f" and "\<forall>g \<in> set gs. z \<notin> set g"
  shows "fs = gs"
  using assms
proof (induction fs arbitrary: gs)
  case Nil
  then show ?case by (cases gs) auto
next
  case (Cons f fs)
  then obtain g gs' where gs: "gs = g # gs'" by (cases gs) auto
  let ?r = "concat (map (\<lambda>f. f @ [z]) fs)" and ?s = "concat (map (\<lambda>f. f @ [z]) gs')"
  have e: "f @ z # ?r = g @ z # ?s" using Cons.prems(1) gs by simp
  have tw: "z \<notin> set x \<Longrightarrow> takeWhile (\<lambda>c. c \<noteq> z) (x @ z # y) = x" for x y by (induction x) auto
  have "f = g" using tw [of f ?r] tw [of g ?s] e Cons.prems(2,3) gs by simp
  then have "?r = ?s" using e by simp
  then show ?case using Cons.IH [of gs'] Cons.prems(2,3) gs \<open>f = g\<close> by simp
qed

text \<open>
  For texts without NUL the signed bytes determine the identity, version, ABI, publisher, runtime range, the
  capabilities as a multiset and the digest of the library. The name of the library file is not among them.
\<close>

lemma canonical_determines:
  assumes "canonical_extension_bytes m h = canonical_extension_bytes m' h'"
    and "\<forall>f \<in> set (signed_fields m h) \<union> set (signed_fields m' h'). CHR 0x00 \<notin> set f"
  shows "extension_id m = extension_id m' \<and> ext_version m = ext_version m' \<and> abi_version m = abi_version m' \<and>
    publisher_id m = publisher_id m' \<and>
    (case requires_runtime m of None \<Rightarrow> [] | Some r \<Rightarrow> r) = (case requires_runtime m' of None \<Rightarrow> [] | Some r \<Rightarrow> r) \<and>
    sort (ext_capabilities m) = sort (ext_capabilities m') \<and> h = h'"
proof -
  have "signed_fields m h = signed_fields m' h'"
    using assms str_bytes_inj unfolding canonical_extension_bytes_def by (intro terminated_inj [where z = "CHR 0x00"]) auto
  moreover have "unat (abi_version m) = unat (abi_version m')"
    if "show_nat (unat (abi_version m)) = show_nat (unat (abi_version m'))"
    using that show_nat_digits by (metis of_nat_eq_iff)
  ultimately show ?thesis by (auto simp: signed_fields_def word_unat_eq_iff)
qed

lemma library_not_signed: "canonical_extension_bytes (m\<lparr>library := l\<rparr>) h = canonical_extension_bytes m h"
  by (simp add: canonical_extension_bytes_def signed_fields_def)

text \<open>
  C38. What may be loaded. An extension is authorized only for the host's ABI, with a library whose digest is the expected
  one and a file name that is not empty, does not start with a dot (so it is neither \<open>.\<close> nor \<open>..\<close>), contains no slash,
  backslash or colon and adds exactly itself to whatever directory it is joined to, with capabilities that are known and granted, sorted and each once, and, unless
  unsigned extensions are permitted and it is unsigned, with a signature by a trusted key over the signed fields and that digest.\<close>

theorem extension_authorized:
  assumes "authorize env m lib expected policy = Some (Ok a)"
  shows "auth_manifest a = m \<and> abi_version m = HOST_ABI \<and>
    lib_sha256_hex a = lib_digest env lib \<and> lib_digest env lib = env_lower env expected \<and>
    library m \<noteq> [] \<and> hd (library m) \<noteq> CHR ''.'' \<and> {CHR ''/'', CHR 0x5C, CHR '':''} \<inter> set (library m) = {} \<and>
    comps (path_join dir (library m)) = comps dir @ [library m] \<and> absolute (path_join dir (library m)) = absolute dir \<and>
    sorted (auth_capabilities a) \<and> distinct (auth_capabilities a) \<and> set (auth_capabilities a) = set (ext_capabilities m) \<and>
    set (ext_capabilities m) \<subseteq> set KNOWN_CAPABILITIES \<inter> set (allowed_capabilities policy) \<and>
    (allow_unsigned policy \<and> signature_hex (signature m) = [] \<or>
     (\<exists>k \<in> set (trusted_keys policy). env_lower env k = env_lower env (public_key_hex (signature m))) \<and>
     (\<exists>pk sg. hex_decode (public_key_hex (signature m)) = Some pk \<and> hex_decode (signature_hex (signature m)) = Some sg \<and>
        length pk = 32 \<and> length sg = 64 \<and> key_accepted (env_ed env) pk \<and>
        ed_verify (env_ed env) pk (canonical_extension_bytes m (lib_digest env lib)) sg))"
proof -
  let ?d = "lib_digest env lib"
  from assms obtain caps where s: "validate_shape env m = Ok ()" and abi: "abi_version m = HOST_ABI"
      and h: "?d = env_lower env expected" and v: "verify_extension env m ?d policy = Ok ()"
      and g: "grant_capabilities (extension_id m) policy (ext_capabilities m) [] = Ok caps"
      and a: "a = \<lparr>auth_manifest = m, lib_sha256_hex = ?d, auth_capabilities = caps\<rparr>"
    by (auto simp: authorize_def Let_def split: sum.splits option.splits if_splits)
  have "bare_filename (library m)" using s by (auto simp: validate_shape_def split: if_splits)
  note bare_name [OF this, of dir]
  moreover have "sorted caps \<and> distinct caps \<and> set caps = set (ext_capabilities m) \<and>
      set (ext_capabilities m) \<subseteq> set KNOWN_CAPABILITIES \<inter> set (allowed_capabilities policy)"
    using grant_capabilities_ok [OF g] by simp
  ultimately show ?thesis using verified_extension [OF v] abi h by (simp add: a)
qed

definition demo_env :: "(string, nat) ext_env" where
  "demo_env = \<lparr>env_semver = \<lparr>req_parse = (\<lambda>r. Ok r), version_parse = (\<lambda>v. if v = ''1.0.0'' then Some 1 else None),
     req_matches = (\<lambda>_ _. True), version_le = (\<le>)\<rparr>,
     env_ed = \<lparr>key_accepted = (\<lambda>_. True), ed_verify = (\<lambda>k m s. s = replicate 64 0)\<rparr>,
     env_sha256 = (\<lambda>_. [0xAB]), env_lower = to_ascii_lowercase, host_runtime = ''1.0.0''\<rparr>"

definition demo_manifest :: ext_manifest where
  "demo_manifest = \<lparr>extension_id = ''ping'', ext_version = ''1.0.0'', abi_version = 1, publisher_id = ''p'', library = ''ping.so'',
     requires_runtime = None, ext_capabilities = [''timers'', ''logging'', ''timers''],
     signature = \<lparr>sig_algorithm = ''ed25519'', public_key_hex = replicate 64 CHR ''a'', signature_hex = replicate 128 CHR ''0''\<rparr>\<rparr>"

definition demo_policy :: ext_policy where
  "demo_policy = \<lparr>allow_unsigned = False, trusted_keys = [replicate 64 CHR ''A''], allowed_capabilities = [''logging'', ''timers'']\<rparr>"

lemma demo_authorized: "authorize demo_env demo_manifest [] ''AB'' demo_policy =
    Some (Ok \<lparr>auth_manifest = demo_manifest, lib_sha256_hex = ''ab'', auth_capabilities = [''logging'', ''timers'']\<rparr>)"
  by code_simp

theorem extension_authorized_witness:
  "lib_digest demo_env [] = ''ab'' \<and> comps (path_join (path_of ''/ext'') ''ping.so'') = [''ext'', ''ping.so''] \<and> set [''logging'', ''timers''] \<subseteq> set (allowed_capabilities demo_policy)"
proof -
  have "library demo_manifest = ''ping.so''" "comps (path_of ''/ext'') = [''ext'']" by code_simp+
  then show ?thesis using extension_authorized [OF demo_authorized, of "path_of ''/ext''"] by auto
qed

end
