(* ===== verification/Releases.thy ===== *)
theory Releases
  imports Extensions OrderedMap Edge
begin

text \<open>
  The release catalog with its signatures (\<open>crates/ald-updater\<close>), the planner of upgrades
  (\<open>crates/ald-upgrade-planner\<close>) and the entitlement service (\<open>crates/ald-entitlement\<close>). Ed25519, SHA-256 and the \<open>semver\<close>
  crate are parameters; the entries of a hash map are visited in the order of its list.
\<close>

section \<open>Artifacts\<close>

datatype release_channel = Development | Nightly | Canary | BetaChannel | Recommended | Stable

datatype platform = WindowsX86_64 | LinuxX86_64

fun platform_code :: "platform \<Rightarrow> nat" where
  "platform_code WindowsX86_64 = 0"
| "platform_code LinuxX86_64 = 1"

record sbom_component =
  sc_name :: string
  sc_version :: string
  sc_license :: string
  sc_purl :: string
  sc_sha256_hex :: string

record sbom_document =
  sbom_id :: string
  sbom_artifact_id :: string
  components :: "sbom_component list"
  document_sha256 :: string

definition compute_checksum :: "(bytes \<Rightarrow> bytes) \<Rightarrow> sbom_document \<Rightarrow> string" where
  "compute_checksum sha256 d =
     hex_lower (sha256 (str_bytes (sbom_id d) @ str_bytes (sbom_artifact_id d) @
       concat (map (\<lambda>c. str_bytes (sc_name c) @ str_bytes (sc_version c) @ str_bytes (sc_sha256_hex c)) (components d))))"

record artifact_record =
  artifact_id :: string
  ar_release :: string
  channel :: release_channel
  ar_platform :: platform
  ar_sha256_hex :: string
  size_bytes :: u64
  download_url :: string
  ar_public_key_hex :: string
  ar_signature_hex :: string
  sbom_sha256 :: string
  rollback_target_id :: "string option"

datatype update_error =
    ArtifactAlreadyExists string
  | ArtifactNotFound string
  | InvalidHexKey string
  | InvalidHexSignature string
  | SignatureVerificationFailed
  | NoRollbackAvailable string

definition canonical_signed_text :: "artifact_record \<Rightarrow> string" where
  "canonical_signed_text r =
     artifact_id r @ '':'' @ ar_release r @ '':'' @ show_nat (platform_code (ar_platform r)) @ '':'' @ ar_sha256_hex r"

definition canonical_signed_bytes :: "artifact_record \<Rightarrow> bytes" where
  "canonical_signed_bytes r = str_bytes (canonical_signed_text r)"

text \<open>This crate's copy of the hexadecimal decoder.\<close>

definition updater_hex_decode :: "string \<Rightarrow> bytes option" where
  "updater_hex_decode s = hex_decode s"

definition verify_artifact :: "ed25519 \<Rightarrow> artifact_record \<Rightarrow> (unit, update_error) result" where
  "verify_artifact ed r =
     (case updater_hex_decode (ar_public_key_hex r) of
        None \<Rightarrow> Err (InvalidHexKey (ar_public_key_hex r))
      | Some key \<Rightarrow>
          (case updater_hex_decode (ar_signature_hex r) of
             None \<Rightarrow> Err (InvalidHexSignature (ar_signature_hex r))
           | Some sg \<Rightarrow>
               if length key \<noteq> 32 then Err (InvalidHexKey ''expected 32-byte key'')
               else if length sg \<noteq> 64 then Err (InvalidHexSignature ''expected 64-byte signature'')
               else if \<not> key_accepted ed key then Err (InvalidHexKey ''invalid ed25519 key bytes'')
               else if ed_verify ed key (canonical_signed_bytes r) sg then Ok ()
               else Err SignatureVerificationFailed))"

record release_catalog =
  artifacts :: "(string, artifact_record) hmap"
  by_channel_platform :: "(release_channel \<times> platform, string list) hmap"

definition catalog_new :: release_catalog where
  "catalog_new = \<lparr>artifacts = [], by_channel_platform = []\<rparr>"

definition register_artifact :: "ed25519 \<Rightarrow> release_catalog \<Rightarrow> artifact_record \<Rightarrow> release_catalog \<times> (unit, update_error) result" where
  "register_artifact ed c r =
     (if hm_contains (artifacts c) (artifact_id r) then (c, Err (ArtifactAlreadyExists (artifact_id r)))
      else
        (case verify_artifact ed r of
           Inl e \<Rightarrow> (c, Err e)
         | Inr _ \<Rightarrow>
             let key = (channel r, ar_platform r);
                 ids = hm_get_or [] (by_channel_platform c) key @ [artifact_id r] in
             (c\<lparr>by_channel_platform := hm_insert key ids (by_channel_platform c),
                artifacts := hm_insert (artifact_id r) r (artifacts c)\<rparr>, Ok ())))"

definition catalog_get :: "release_catalog \<Rightarrow> string \<Rightarrow> artifact_record option" where
  "catalog_get c i = hm_get (artifacts c) i"

definition get_latest :: "release_catalog \<Rightarrow> release_channel \<Rightarrow> platform \<Rightarrow> artifact_record option" where
  "get_latest c ch p =
     (case hm_get (by_channel_platform c) (ch, p) of
        None \<Rightarrow> None
      | Some ids \<Rightarrow> if ids = [] then None else catalog_get c (last ids))"

definition resolve_rollback :: "release_catalog \<Rightarrow> string \<Rightarrow> (artifact_record, update_error) result" where
  "resolve_rollback c i =
     (case catalog_get c i of
        None \<Rightarrow> Err (ArtifactNotFound i)
      | Some r \<Rightarrow>
          (case rollback_target_id r of
             None \<Rightarrow> Err (NoRollbackAvailable i)
           | Some t \<Rightarrow> (case catalog_get c t of None \<Rightarrow> Err (ArtifactNotFound t) | Some x \<Rightarrow> Ok x)))"

record update_plan =
  current_version :: string
  target_version :: string
  is_update_available :: bool
  plan_artifact :: "artifact_record option"
  rollback_available :: bool

definition update_check :: "string \<Rightarrow> release_channel \<Rightarrow> platform \<Rightarrow> release_catalog \<Rightarrow> update_plan" where
  "update_check cur ch p c =
     (case get_latest c ch p of
        Some r \<Rightarrow>
          \<lparr>current_version = cur, target_version = ar_release r, is_update_available = ar_release r \<noteq> cur,
           plan_artifact = Some r, rollback_available = rollback_target_id r \<noteq> None\<rparr>
      | None \<Rightarrow>
          \<lparr>current_version = cur, target_version = cur, is_update_available = False, plan_artifact = None,
           rollback_available = False\<rparr>)"

section \<open>Upgrade plans\<close>

record upgrade_graph =
  novagate :: string
  astryn :: string
  server_runtime :: string
  astranet_protocol :: u32
  framework :: string
  aegis :: string
  db_version :: i64
  packages :: "(string, string) hmap"

definition upgrade_graph_default :: upgrade_graph where
  "upgrade_graph_default =
     \<lparr>novagate = ''0.1.0'', astryn = ''0.1.0'', server_runtime = ''0.1.0'', astranet_protocol = 1, framework = ''0.1.0'',
      aegis = ''0.1.0'', db_version = 1, packages = []\<rparr>"

record incompatibility =
  inc_component :: string
  inc_current :: string
  inc_target :: string
  inc_reason :: string
  is_breaking :: bool

record client_update =
  cu_client :: string
  from_version :: string
  to_version :: string
  mandatory :: bool

record db_migration =
  dm_from :: i64
  dm_to :: i64
  dm_steps :: i64
  destructive :: bool

datatype rollback_limit = RollbackSafe | Conditional string | Impossible string

datatype restart_requirement = NoRestart | HotReload | GracefulServerRestart | FullStackRestart

fun severity :: "restart_requirement \<Rightarrow> nat" where
  "severity NoRestart = 0"
| "severity HotReload = 1"
| "severity GracefulServerRestart = 2"
| "severity FullStackRestart = 3"

lemma severity_inj: "severity a = severity b \<Longrightarrow> a = b"
  by (cases a; cases b) auto

instantiation restart_requirement :: linorder
begin

definition less_eq_restart_requirement :: "restart_requirement \<Rightarrow> restart_requirement \<Rightarrow> bool" where
  "less_eq_restart_requirement a b \<longleftrightarrow> severity a \<le> severity b"

definition less_restart_requirement :: "restart_requirement \<Rightarrow> restart_requirement \<Rightarrow> bool" where
  "less_restart_requirement a b \<longleftrightarrow> severity a < severity b"

instance
  by standard (auto simp: less_eq_restart_requirement_def less_restart_requirement_def severity_inj)

end

record upgrade_plan =
  up_current :: upgrade_graph
  up_target :: upgrade_graph
  incompatibilities :: "incompatibility list"
  client_updates :: "client_update list"
  up_db :: "db_migration option"
  up_rollback :: rollback_limit
  up_restart :: restart_requirement

datatype planner_error = InvalidSemver string string string

record 'v version_api =
  va_parse :: "string \<Rightarrow> ('v, string) result"
  va_major :: "'v \<Rightarrow> u64"
  va_minor :: "'v \<Rightarrow> u64"

text \<open>The operator \<open>?\<close> on a result.\<close>

fun res_bind :: "('a, 'e) result \<Rightarrow> ('a \<Rightarrow> ('b, 'e) result) \<Rightarrow> ('b, 'e) result" where
  "res_bind (Inl e) f = Err e"
| "res_bind (Inr x) f = f x"

definition planner_version :: "'v version_api \<Rightarrow> string \<Rightarrow> string \<Rightarrow> ('v, planner_error) result" where
  "planner_version va cname s =
     (case va_parse va s of Inl e \<Rightarrow> Err (InvalidSemver cname s e) | Inr v \<Rightarrow> Ok v)"

text \<open>The parts of \<open>plan\<close>, in its order; each yields incompatibilities and a restart requirement.\<close>

definition protocol_part :: "upgrade_graph \<Rightarrow> upgrade_graph \<Rightarrow> incompatibility list \<times> restart_requirement" where
  "protocol_part cur tgt =
     (if astranet_protocol tgt \<noteq> astranet_protocol cur then
        let brk = astranet_protocol cur < astranet_protocol tgt in
        ([\<lparr>inc_component = ''AstraNet'', inc_current = show_nat (unat (astranet_protocol cur)),
           inc_target = show_nat (unat (astranet_protocol tgt)),
           inc_reason = (if brk then ''Protocol version bumped; older clients cannot connect''
                         else ''Target protocol version is older than current''),
           is_breaking = brk\<rparr>], GracefulServerRestart)
      else ([], NoRestart))"

definition runtime_part ::
    "'v version_api \<Rightarrow> upgrade_graph \<Rightarrow> upgrade_graph \<Rightarrow> (incompatibility list \<times> restart_requirement, planner_error) result" where
  "runtime_part va cur tgt =
     res_bind (planner_version va ''server_runtime'' (server_runtime cur)) (\<lambda>c.
     res_bind (planner_version va ''server_runtime'' (server_runtime tgt)) (\<lambda>t.
       if c \<noteq> t then
         Ok (if va_major va c < va_major va t then
               [\<lparr>inc_component = ''server_runtime'', inc_current = server_runtime cur, inc_target = server_runtime tgt,
                 inc_reason = ''Major server runtime bump'', is_breaking = True\<rparr>] else [],
             GracefulServerRestart)
       else Ok ([], NoRestart)))"

definition client_part :: "'v version_api \<Rightarrow> upgrade_graph \<Rightarrow> upgrade_graph \<Rightarrow> (client_update list, planner_error) result" where
  "client_part va cur tgt =
     res_bind (planner_version va ''astryn'' (astryn cur)) (\<lambda>c.
     res_bind (planner_version va ''astryn'' (astryn tgt)) (\<lambda>t.
       let bumped = astranet_protocol cur < astranet_protocol tgt in
       if c \<noteq> t \<or> bumped then
         Ok [\<lparr>cu_client = ''astryn'', from_version = astryn cur, to_version = astryn tgt,
             mandatory = (va_major va c < va_major va t \<or> bumped)\<rparr>]
       else Ok []))"

definition framework_part ::
    "'v version_api \<Rightarrow> upgrade_graph \<Rightarrow> upgrade_graph \<Rightarrow> (incompatibility list \<times> restart_requirement, planner_error) result" where
  "framework_part va cur tgt =
     res_bind (planner_version va ''framework'' (framework cur)) (\<lambda>c.
     res_bind (planner_version va ''framework'' (framework tgt)) (\<lambda>t.
       if va_major va c < va_major va t then
         Ok ([\<lparr>inc_component = ''framework'', inc_current = framework cur, inc_target = framework tgt,
               inc_reason = ''Major framework version upgrade'', is_breaking = True\<rparr>], GracefulServerRestart)
       else Ok ([], NoRestart)))"

fun packages_loop ::
    "'v version_api \<Rightarrow> (string, string) hmap \<Rightarrow> (string \<times> string) list \<Rightarrow> (incompatibility list \<times> bool, planner_error) result" where
  "packages_loop va cur [] = Ok ([], False)"
| "packages_loop va cur ((p, tv) # ps) =
     (case hm_get cur p of
        None \<Rightarrow> res_bind (packages_loop va cur ps) (\<lambda>(incs, _). Ok (incs, True))
      | Some cv \<Rightarrow>
          res_bind (planner_version va p cv) (\<lambda>c.
          res_bind (planner_version va p tv) (\<lambda>t.
            res_bind (packages_loop va cur ps) (\<lambda>(incs, changed).
              if c \<noteq> t then
                Ok ((if va_major va c < va_major va t \<or> (va_major va c = 0 \<and> va_minor va c < va_minor va t)
                     then [\<lparr>inc_component = ''package:'' @ p, inc_current = cv, inc_target = tv,
                            inc_reason = ''Breaking package semver upgrade'', is_breaking = True\<rparr>] else []) @ incs, True)
              else Ok (incs, changed)))))"

definition db_part :: "upgrade_graph \<Rightarrow> upgrade_graph \<Rightarrow> db_migration option" where
  "db_part cur tgt =
     (if db_version tgt \<noteq> db_version cur then
        Some \<lparr>dm_from = db_version cur, dm_to = db_version tgt, dm_steps = abs_i64 (db_version tgt - db_version cur),
              destructive = sint (db_version tgt) < sint (db_version cur)\<rparr>
      else None)"

definition rollback_part :: "upgrade_graph \<Rightarrow> upgrade_graph \<Rightarrow> incompatibility list \<Rightarrow> rollback_limit" where
  "rollback_part cur tgt incs =
     (case db_part cur tgt of
        Some d \<Rightarrow>
          if destructive d then
            Impossible (''Target DB schema version ('' @ show_i64 (db_version tgt) @ '') is older than current ('' @
              show_i64 (db_version cur) @ ''); non-reversible migration'')
          else Conditional ''Rollback requires explicit database migration rollback script''
      | None \<Rightarrow>
          if list_ex is_breaking incs then Conditional ''Breaking major changes detected in components or packages''
          else RollbackSafe)"

definition upgrade :: "'v version_api \<Rightarrow> upgrade_graph \<Rightarrow> upgrade_graph \<Rightarrow> (upgrade_plan, planner_error) result" where
  "upgrade va cur tgt =
     (let (i1, r1) = protocol_part cur tgt in
      res_bind (runtime_part va cur tgt) (\<lambda>(i2, r2).
      res_bind (client_part va cur tgt) (\<lambda>updates.
      res_bind (framework_part va cur tgt) (\<lambda>(i3, r3).
      res_bind (packages_loop va (packages cur) (packages tgt)) (\<lambda>(i4, changed).
        let incs = i1 @ i2 @ i3 @ i4;
            r4 = (if changed then HotReload else NoRestart);
            r5 = (if db_part cur tgt = None then NoRestart else FullStackRestart) in
        Ok \<lparr>up_current = cur, up_target = tgt, incompatibilities = incs, client_updates = updates, up_db = db_part cur tgt,
            up_rollback = rollback_part cur tgt incs,
            up_restart = max (max (max (max r1 r2) r3) r4) r5\<rparr>)))))"

section \<open>Entitlement\<close>

datatype package_model = FreeModel | PaidModel | SubscriptionModel | PrivateModel | DeveloperModel | BetaModel | InviteOnlyModel

fun model_str :: "package_model \<Rightarrow> string" where
  "model_str FreeModel = ''FREE''"
| "model_str PaidModel = ''PAID''"
| "model_str SubscriptionModel = ''SUBSCRIPTION''"
| "model_str PrivateModel = ''PRIVATE''"
| "model_str DeveloperModel = ''DEVELOPER''"
| "model_str BetaModel = ''BETA''"
| "model_str InviteOnlyModel = ''INVITE_ONLY''"

datatype package_policy = OpenPolicy | SignedPolicy | ProtectedPolicy | PrivatePolicy

datatype entitlement_state =
    EntFree
  | EntAuthorized
  | EntNotAuthorized
  | EntExpired u64
  | EntExternalProvider string
  | FivemEscrowUnsupported
  | EntUnknown

record grant =
  gr_package_id :: string
  gr_model :: package_model
  expires_at :: "u64 option"
  license_token :: "string option"

record package =
  pk_package_id :: string
  pk_publisher_id :: string
  pk_name :: string
  pk_version :: string
  pk_model :: package_model
  pk_policy :: package_policy
  requires_entitlement :: bool
  publisher_key_hex :: "string option"

record server_license =
  sl_server_id :: string
  sl_project_id :: string
  issued_at :: u64
  sl_signature_hex :: string

record entitlement_service =
  es_packages :: "(string, package) hmap"
  es_grants :: "(string \<times> string, grant) hmap"
  es_servers :: "(string, server_license) hmap"

definition entitlement_new :: entitlement_service where
  "entitlement_new = \<lparr>es_packages = [], es_grants = [], es_servers = []\<rparr>"

definition register_server :: "entitlement_service \<Rightarrow> server_license \<Rightarrow> entitlement_service" where
  "register_server s l = s\<lparr>es_servers := hm_insert (sl_server_id l) l (es_servers s)\<rparr>"

definition register_package :: "entitlement_service \<Rightarrow> package \<Rightarrow> entitlement_service" where
  "register_package s p = s\<lparr>es_packages := hm_insert (pk_package_id p) p (es_packages s)\<rparr>"

definition add_grant :: "entitlement_service \<Rightarrow> string \<Rightarrow> grant \<Rightarrow> entitlement_service" where
  "add_grant s server g = s\<lparr>es_grants := hm_insert (server, gr_package_id g) g (es_grants s)\<rparr>"

definition revoke_grant :: "entitlement_service \<Rightarrow> string \<Rightarrow> string \<Rightarrow> entitlement_service" where
  "revoke_grant s server p = s\<lparr>es_grants := hm_remove (server, p) (es_grants s)\<rparr>"

definition check_entitlement :: "entitlement_service \<Rightarrow> string \<Rightarrow> string \<Rightarrow> bool \<Rightarrow> u64 \<Rightarrow> entitlement_state" where
  "check_entitlement s server p signature_ok now =
     (case hm_get (es_packages s) p of
        None \<Rightarrow> EntUnknown
      | Some pkg \<Rightarrow>
          if pk_model pkg = FreeModel \<and> \<not> requires_entitlement pkg then
            (if pk_policy pkg = SignedPolicy \<and> \<not> signature_ok then EntNotAuthorized else EntFree)
          else
            (case hm_get (es_grants s) (server, p) of
               None \<Rightarrow> EntNotAuthorized
             | Some g \<Rightarrow>
                 if (case expires_at g of None \<Rightarrow> False | Some e \<Rightarrow> e \<le> now) then EntExpired (the (expires_at g))
                 else if (pk_policy pkg = SignedPolicy \<or> pk_policy pkg = ProtectedPolicy) \<and> \<not> signature_ok
                 then EntNotAuthorized
                 else EntAuthorized))"

definition grants_for_server :: "entitlement_service \<Rightarrow> string \<Rightarrow> (grant \<times> package) list" where
  "grants_for_server s server =
     List.map_filter (\<lambda>(_, g). map_option (\<lambda>p. (g, p)) (hm_get (es_packages s) (gr_package_id g)))
       (filter (\<lambda>((sid, _), _). sid = server) (es_grants s))"

datatype protection_class = OpenSource | SourceAvailable | PlainResource | VendorLicensed | FivemEscrow | UnknownProtection

fun protection_str :: "protection_class \<Rightarrow> string" where
  "protection_str OpenSource = ''OPEN_SOURCE''"
| "protection_str SourceAvailable = ''SOURCE_AVAILABLE''"
| "protection_str PlainResource = ''PLAIN_RESOURCE''"
| "protection_str VendorLicensed = ''VENDOR_LICENSED''"
| "protection_str FivemEscrow = ''FIVEM_ESCROW''"
| "protection_str UnknownProtection = ''UNKNOWN_PROTECTION''"

datatype runnability = Runnable | NeedsEntitlement | BlockedExternal | NeedsReview

fun runnable :: "protection_class \<Rightarrow> runnability" where
  "runnable VendorLicensed = NeedsEntitlement"
| "runnable FivemEscrow = BlockedExternal"
| "runnable UnknownProtection = NeedsReview"
| "runnable _ = Runnable"

section \<open>The catalog\<close>

text \<open>A registered artifact is never replaced.\<close>

definition enrol_artifact :: "ed25519 \<Rightarrow> release_catalog \<Rightarrow> artifact_record \<Rightarrow> release_catalog" where
  "enrol_artifact ed c r = fst (register_artifact ed c r)"

interpretation catalog_reg: upgrade_registry "enrol_artifact ed" catalog_get "\<lambda>_. True" for ed
  by unfold_locales
    (auto simp: enrol_artifact_def register_artifact_def catalog_get_def hm_contains_def hm_simps Let_def split: sum.split)

lemma artifact_immutable: "catalog_get c i = Some r \<Longrightarrow> catalog_get (foldl (enrol_artifact ed) c rs) i = Some r"
  by (rule catalog_reg.certified_final) simp_all

text \<open>Every artifact has a signature that its own key verifies, and the lists name artifacts of their channel and platform.\<close>

definition catalog_ok :: "ed25519 \<Rightarrow> release_catalog \<Rightarrow> bool" where
  "catalog_ok ed c \<longleftrightarrow>
     (\<forall>i r. catalog_get c i = Some r \<longrightarrow> artifact_id r = i \<and> verify_artifact ed r = Ok ()) \<and>
     (\<forall>ch p ids. hm_get (by_channel_platform c) (ch, p) = Some ids \<longrightarrow> ids \<noteq> [] \<and>
        (\<forall>i \<in> set ids. \<exists>r. catalog_get c i = Some r \<and> channel r = ch \<and> ar_platform r = p))"

lemma catalog_ok_new: "catalog_ok ed catalog_new"
  by (simp add: catalog_ok_def catalog_get_def catalog_new_def)

lemma register_cases:
  obtains (refused) e where "register_artifact ed c r = (c, Err e)"
  | (stored) "catalog_get c (artifact_id r) = None" "verify_artifact ed r = Ok ()"
      "register_artifact ed c r =
        (c\<lparr>by_channel_platform := hm_insert (channel r, ar_platform r)
             (hm_get_or [] (by_channel_platform c) (channel r, ar_platform r) @ [artifact_id r]) (by_channel_platform c),
           artifacts := hm_insert (artifact_id r) r (artifacts c)\<rparr>, Ok ())"
  by (cases "hm_contains (artifacts c) (artifact_id r)"; cases "verify_artifact ed r")
    (auto simp: register_artifact_def Let_def catalog_get_def hm_contains_def)

lemma catalog_ok_register: "catalog_ok ed c \<Longrightarrow> catalog_ok ed (fst (register_artifact ed c r))"
proof (cases rule: register_cases [of ed c r])
  case stored
  assume ok: "catalog_ok ed c"
  let ?c = "fst (register_artifact ed c r)" and ?k = "(channel r, ar_platform r)"
  have get: "catalog_get ?c i = (if i = artifact_id r then Some r else catalog_get c i)" for i
    by (simp add: stored(3) catalog_get_def hm_simps)
  have lists: "hm_get (by_channel_platform ?c) k =
      (if k = ?k then Some (hm_get_or [] (by_channel_platform c) ?k @ [artifact_id r]) else hm_get (by_channel_platform c) k)" for k
    by (simp add: stored(3) hm_simps)
  have old: "\<exists>r'. catalog_get ?c i = Some r' \<and> channel r' = ch \<and> ar_platform r' = p"
    if l: "hm_get (by_channel_platform c) (ch, p) = Some ids" "i \<in> set ids" for ch p ids i
  proof -
    obtain r' where r': "catalog_get c i = Some r'" "channel r' = ch" "ar_platform r' = p"
      using ok l unfolding catalog_ok_def by blast
    then show ?thesis using stored(1) get [of i] by auto
  qed
  have "\<exists>r'. catalog_get ?c i = Some r' \<and> channel r' = ch \<and> ar_platform r' = p"
    if "hm_get (by_channel_platform ?c) (ch, p) = Some ids" "i \<in> set ids" for ch p ids i
    using that old [of ch p _ i] unfolding lists by (auto simp: get hm_get_or_def split: if_splits option.splits)
  moreover have "ids \<noteq> []" if "hm_get (by_channel_platform ?c) k = Some ids" for k ids
    using that ok unfolding lists catalog_ok_def by (cases k) (auto split: if_splits)
  ultimately show ?thesis using ok stored(2) unfolding catalog_ok_def get by auto
qed simp

text \<open>The latest artifact of a channel and platform is the one registered last for them.\<close>

lemma latest_registered:
  assumes "catalog_ok ed c" and "snd (register_artifact ed c r) = Ok ()"
  shows "get_latest (fst (register_artifact ed c r)) (channel r) (ar_platform r) = Some r"
    and "(ch, p) \<noteq> (channel r, ar_platform r) \<Longrightarrow> get_latest (fst (register_artifact ed c r)) ch p = get_latest c ch p"
proof -
  show "get_latest (fst (register_artifact ed c r)) (channel r) (ar_platform r) = Some r"
    by (cases rule: register_cases [of ed c r]) (use assms in \<open>auto simp: get_latest_def catalog_get_def hm_simps\<close>)
  assume d: "(ch, p) \<noteq> (channel r, ar_platform r)"
  show "get_latest (fst (register_artifact ed c r)) ch p = get_latest c ch p"
  proof (cases rule: register_cases [of ed c r])
    case stored
    have "last ids \<noteq> artifact_id r" if "hm_get (by_channel_platform c) (ch, p) = Some ids" for ids
      using assms(1) that stored(1) unfolding catalog_ok_def by (metis last_in_set option.distinct(1))
    then show ?thesis using d by (auto simp: stored(3) get_latest_def catalog_get_def hm_simps split: option.split)
  qed simp
qed

text \<open>
  The signed bytes leave out the channel, the download address and the rollback target, and the separator can be
  part of a field; a version that differs counts as an update even if it is older.
\<close>

lemma channel_not_signed:
  "verify_artifact ed (r\<lparr>channel := ch, download_url := u, rollback_target_id := t, sbom_sha256 := b\<rparr>) = verify_artifact ed r"
  by (simp add: verify_artifact_def canonical_signed_bytes_def canonical_signed_text_def split: option.split)

lemma separator_ambiguous:
  "canonical_signed_text (r\<lparr>artifact_id := a @ '':'' @ b, ar_release := v\<rparr>) =
   canonical_signed_text (r\<lparr>artifact_id := a, ar_release := b @ '':'' @ v\<rparr>)"
  by (simp add: canonical_signed_text_def)

section \<open>Plans\<close>

lemma upgrade_ok:
  assumes "upgrade va cur tgt = Ok p"
  obtains i1 r1 i2 r2 us i3 r3 i4 ch where "protocol_part cur tgt = (i1, r1)" "runtime_part va cur tgt = Ok (i2, r2)"
    "client_part va cur tgt = Ok us" "framework_part va cur tgt = Ok (i3, r3)"
    "packages_loop va (packages cur) (packages tgt) = Ok (i4, ch)"
    "p = \<lparr>up_current = cur, up_target = tgt, incompatibilities = i1 @ i2 @ i3 @ i4, client_updates = us,
       up_db = db_part cur tgt, up_rollback = rollback_part cur tgt (i1 @ i2 @ i3 @ i4),
       up_restart = max (max (max (max r1 r2) r3) (if ch then HotReload else NoRestart))
         (if db_part cur tgt = None then NoRestart else FullStackRestart)\<rparr>"
proof -
  obtain i1 r1 where a: "protocol_part cur tgt = (i1, r1)" by fastforce
  obtain i2 r2 where b: "runtime_part va cur tgt = Ok (i2, r2)"
    using assms a by (cases "runtime_part va cur tgt") (auto simp: upgrade_def)
  obtain us where c: "client_part va cur tgt = Ok us"
    using assms a b by (cases "client_part va cur tgt") (auto simp: upgrade_def)
  obtain i3 r3 where d: "framework_part va cur tgt = Ok (i3, r3)"
    using assms a b c by (cases "framework_part va cur tgt") (auto simp: upgrade_def)
  obtain i4 ch where e: "packages_loop va (packages cur) (packages tgt) = Ok (i4, ch)"
    using assms a b c d by (cases "packages_loop va (packages cur) (packages tgt)") (auto simp: upgrade_def)
  show thesis using that [OF a b c d e] assms a b c d e by (simp add: upgrade_def Let_def)
qed

text \<open>A rollback is called safe exactly if the schema stays and nothing breaks; a change of the schema restarts everything.\<close>

lemma rollback_safe_iff:
  assumes "upgrade va cur tgt = Ok p"
  shows "up_rollback p = RollbackSafe \<longleftrightarrow> db_version tgt = db_version cur \<and> list_all (\<lambda>i. \<not> is_breaking i) (incompatibilities p)"
  using assms by (rule upgrade_ok) (auto simp: rollback_part_def db_part_def list_all_iff list_ex_iff)

lemma full_restart_iff:
  assumes "upgrade va cur tgt = Ok p"
  shows "up_restart p = FullStackRestart \<longleftrightarrow> db_version tgt \<noteq> db_version cur"
proof -
  have "r1 \<noteq> FullStackRestart" if "protocol_part cur tgt = (i1, r1)" for i1 r1
    using that by (auto simp: protocol_part_def Let_def split: if_splits)
  moreover have "r2 \<noteq> FullStackRestart" if "runtime_part va cur tgt = Ok (i2, r2)" for i2 r2
    using that by (cases "planner_version va ''server_runtime'' (server_runtime cur)";
        cases "planner_version va ''server_runtime'' (server_runtime tgt)") (auto simp: runtime_part_def split: if_splits)
  moreover have "r3 \<noteq> FullStackRestart" if "framework_part va cur tgt = Ok (i3, r3)" for i3 r3
    using that by (cases "planner_version va ''framework'' (framework cur)";
        cases "planner_version va ''framework'' (framework tgt)") (auto simp: framework_part_def split: if_splits)
  moreover have "max a b = FullStackRestart \<longleftrightarrow> a = FullStackRestart \<or> b = FullStackRestart" for a b
    by (cases a; cases b) (simp_all add: max_def less_eq_restart_requirement_def)
  ultimately show ?thesis
    using assms by (elim upgrade_ok) (auto simp: db_part_def)
qed

lemma map_res_bind: "map_sum id f (res_bind m g) = res_bind m (\<lambda>x. map_sum id f (g x))"
  by (cases m) simp_all

text \<open>The versions of the launcher and of the control panel play no part in a plan.\<close>

lemma launcher_ignored:
  "map_sum id incompatibilities (upgrade va cur (tgt\<lparr>novagate := n, aegis := a\<rparr>)) = map_sum id incompatibilities (upgrade va cur tgt)"
proof -
  let ?t = "tgt\<lparr>novagate := n, aegis := a\<rparr>"
  have "protocol_part cur ?t = protocol_part cur tgt" "runtime_part va cur ?t = runtime_part va cur tgt"
    "client_part va cur ?t = client_part va cur tgt" "framework_part va cur ?t = framework_part va cur tgt"
    by (simp_all add: protocol_part_def runtime_part_def client_part_def framework_part_def Let_def cong: if_cong)
  then show ?thesis
    by (simp add: upgrade_def map_res_bind split_def Let_def cong: if_cong)
qed

section \<open>Who may run what\<close>

lemma authorized_iff:
  "check_entitlement s server p sg now = EntAuthorized \<longleftrightarrow>
     (\<exists>pkg g. hm_get (es_packages s) p = Some pkg \<and> \<not> (pk_model pkg = FreeModel \<and> \<not> requires_entitlement pkg) \<and>
        hm_get (es_grants s) (server, p) = Some g \<and> (\<forall>e. expires_at g = Some e \<longrightarrow> now < e) \<and>
        (pk_policy pkg \<in> {SignedPolicy, ProtectedPolicy} \<longrightarrow> sg))"
  by (cases "hm_get (es_packages s) p"; cases "hm_get (es_grants s) (server, p)")
    (auto simp: check_entitlement_def not_le split: option.splits if_splits dest: leD)

lemma revoked_not_authorized: "check_entitlement (revoke_grant s server p) server p sg now \<noteq> EntAuthorized"
  by (auto simp: authorized_iff revoke_grant_def hm_simps)

text \<open>A free package under the protected policy runs without a valid signature.\<close>

lemma protected_free_unsigned:
  assumes "hm_get (es_packages s) p = Some pkg" and "pk_model pkg = FreeModel" and "\<not> requires_entitlement pkg"
    and "pk_policy pkg = ProtectedPolicy"
  shows "check_entitlement s server p False now = EntFree"
  using assms by (simp add: check_entitlement_def)

end
