(* ===== verification/Replay.thy ===== *)
theory Replay
  imports Prelude
begin

text \<open>
  Recordings and the debugger that steps through them (\<open>crates/ald-replay\<close>). The JSON form of a recording is left to
  \<open>serde_json\<close>.
\<close>

section \<open>Recordings\<close>

datatype replay_kind =
    EventTrigger string
  | NativeInvocation u64
  | StateBagUpdate string string
  | EntitySpawn u32 string
  | EntityDespawn u32
  | ResourceLifecycle string

record replay_event =
  re_tick :: u64
  re_resource :: string
  re_kind :: replay_kind
  re_payload :: string

record replay_recording =
  session_id :: string
  max_tick :: u64
  rec_events :: "replay_event list"

definition recording_new :: "string \<Rightarrow> replay_recording" where
  "recording_new i = \<lparr>session_id = i, max_tick = 0, rec_events = []\<rparr>"

definition record_event :: "replay_recording \<Rightarrow> replay_event \<Rightarrow> replay_recording" where
  "record_event r e =
     (let r1 = (if max_tick r < re_tick e then r\<lparr>max_tick := re_tick e\<rparr> else r) in
      r1\<lparr>rec_events := rec_events r1 @ [e]\<rparr>)"

section \<open>The debugger\<close>

datatype pause_reason = TickBreakpoint u64 | EventBreakpoint string | StepCompleted | EndOfRecording

datatype replay_error = SeekOutOfBounds u64 u64

record replay_debugger =
  recording :: replay_recording
  current_index :: nat
  current_tick :: u64
  tick_breakpoints :: "u64 list"
  event_breakpoints :: "string list"
  live_entities :: "(u32, string) hmap"

definition debugger_new :: "replay_recording \<Rightarrow> replay_debugger" where
  "debugger_new r =
     \<lparr>recording = r, current_index = 0, current_tick = 0, tick_breakpoints = [], event_breakpoints = [], live_entities = []\<rparr>"

definition add_tick_breakpoint :: "replay_debugger \<Rightarrow> u64 \<Rightarrow> replay_debugger" where
  "add_tick_breakpoint d t = d\<lparr>tick_breakpoints := List.insert t (tick_breakpoints d)\<rparr>"

definition add_event_breakpoint :: "replay_debugger \<Rightarrow> string \<Rightarrow> replay_debugger" where
  "add_event_breakpoint d n = d\<lparr>event_breakpoints := List.insert n (event_breakpoints d)\<rparr>"

fun apply_kind :: "(u32, string) hmap \<Rightarrow> replay_kind \<Rightarrow> (u32, string) hmap" where
  "apply_kind m (EntitySpawn i model) = hm_insert i model m"
| "apply_kind m (EntityDespawn i) = hm_remove i m"
| "apply_kind m _ = m"

definition apply_event_state :: "replay_debugger \<Rightarrow> replay_kind \<Rightarrow> replay_debugger" where
  "apply_event_state d k = d\<lparr>live_entities := apply_kind (live_entities d) k\<rparr>"

abbreviation timeline :: "replay_debugger \<Rightarrow> replay_event list" where
  "timeline d \<equiv> rec_events (recording d)"

text \<open>One event is taken: the tick, its effect and the index.\<close>

definition consume :: "replay_debugger \<Rightarrow> replay_debugger" where
  "consume d =
     (let e = timeline d ! current_index d;
          d1 = apply_event_state (d\<lparr>current_tick := re_tick e\<rparr>) (re_kind e) in
      d1\<lparr>current_index := current_index d1 + 1\<rparr>)"

definition debug_step :: "replay_debugger \<Rightarrow> replay_debugger \<times> replay_event option" where
  "debug_step d =
     (if length (timeline d) \<le> current_index d then (d, None)
      else (consume d, Some (timeline d ! current_index d)))"

definition breakpoint_at :: "replay_debugger \<Rightarrow> replay_event \<Rightarrow> pause_reason option" where
  "breakpoint_at d e =
     (if re_tick e \<in> set (tick_breakpoints d) then Some (TickBreakpoint (re_tick e))
      else (case re_kind e of
              EventTrigger n \<Rightarrow> if n \<in> set (event_breakpoints d) then Some (EventBreakpoint n) else None
            | _ \<Rightarrow> None))"

lemma consume_simps [simp]:
  "recording (consume d) = recording d" "current_index (consume d) = Suc (current_index d)"
  "tick_breakpoints (consume d) = tick_breakpoints d" "event_breakpoints (consume d) = event_breakpoints d"
  "live_entities (consume d) = apply_kind (live_entities d) (re_kind (timeline d ! current_index d))"
  "current_tick (consume d) = re_tick (timeline d ! current_index d)"
  by (simp_all add: consume_def apply_event_state_def Let_def)

function continue_exec :: "replay_debugger \<Rightarrow> replay_debugger \<times> pause_reason" where
  "continue_exec d =
     (if current_index d < length (timeline d) then
        (case breakpoint_at d (timeline d ! current_index d) of
           Some reason \<Rightarrow> (d\<lparr>current_tick := re_tick (timeline d ! current_index d)\<rparr>, reason)
         | None \<Rightarrow> continue_exec (consume d))
      else (d, EndOfRecording))"
  by pat_completeness auto
termination
  by (relation "measure (\<lambda>d. length (timeline d) - current_index d)") simp_all

declare continue_exec.simps [simp del]

function seek_loop :: "u64 \<Rightarrow> replay_debugger \<Rightarrow> replay_debugger" where
  "seek_loop target d =
     (if current_index d < length (timeline d) \<and> re_tick (timeline d ! current_index d) \<le> target
      then seek_loop target (consume d) else d)"
  by pat_completeness auto
termination
  by (relation "measure (\<lambda>(_, d). length (timeline d) - current_index d)") auto

declare seek_loop.simps [simp del]

definition seek :: "replay_debugger \<Rightarrow> u64 \<Rightarrow> replay_debugger \<times> (unit, replay_error) result" where
  "seek d target =
     (if max_tick (recording d) < target \<and> timeline d \<noteq> [] then (d, Err (SeekOutOfBounds target (max_tick (recording d))))
      else (seek_loop target (d\<lparr>current_index := 0, current_tick := 0, live_entities := []\<rparr>), Ok ()))"

section \<open>The state is that of the events taken\<close>

lemma recorded_max: "max_tick (foldl record_event (recording_new i) es) = foldl max 0 (map re_tick es)"
  by (induction es rule: rev_induct) (auto simp: recording_new_def record_event_def Let_def max_def)

text \<open>What the first events of a recording leave alive.\<close>

definition alive_after :: "replay_event list \<Rightarrow> (u32, string) hmap" where
  "alive_after es = foldl apply_kind [] (map re_kind es)"

definition debugger_ok :: "replay_debugger \<Rightarrow> bool" where
  "debugger_ok d \<longleftrightarrow> current_index d \<le> length (timeline d) \<and> live_entities d = alive_after (take (current_index d) (timeline d))"

lemma debugger_ok_new: "debugger_ok (debugger_new r)"
  by (simp add: debugger_ok_def debugger_new_def alive_after_def)

lemma debugger_ok_consume: "debugger_ok d \<Longrightarrow> current_index d < length (timeline d) \<Longrightarrow> debugger_ok (consume d)"
  by (simp add: debugger_ok_def alive_after_def take_Suc_conv_app_nth)

lemma debugger_ok_step: "debugger_ok d \<Longrightarrow> debugger_ok (fst (debug_step d))"
  by (simp add: debug_step_def debugger_ok_consume)

lemma debugger_ok_continue: "debugger_ok d \<Longrightarrow> debugger_ok (fst (continue_exec d))"
proof (induction d rule: continue_exec.induct)
  case (1 d)
  show ?case
  proof (cases "current_index d < length (timeline d)")
    case True
    show ?thesis
    proof (cases "breakpoint_at d (timeline d ! current_index d)")
      case None
      then have "debugger_ok (fst (continue_exec (consume d)))"
        using "1.IH" True debugger_ok_consume [OF "1.prems" True] by simp
      then show ?thesis using True None by (subst continue_exec.simps) simp
    next
      case (Some reason)
      then show ?thesis using True "1.prems" by (subst continue_exec.simps) (simp add: debugger_ok_def)
    qed
  next
    case False
    then show ?thesis using "1.prems" by (subst continue_exec.simps) simp
  qed
qed

lemma debugger_ok_seek_loop:
  "debugger_ok d \<Longrightarrow> debugger_ok (seek_loop t d) \<and> timeline (seek_loop t d) = timeline d \<and>
   current_index (seek_loop t d) = current_index d + length (takeWhile (\<lambda>e. re_tick e \<le> t) (drop (current_index d) (timeline d)))"
proof (induction t d rule: seek_loop.induct)
  case (1 t d)
  show ?case
  proof (cases "current_index d < length (timeline d) \<and> re_tick (timeline d ! current_index d) \<le> t")
    case True
    have "debugger_ok (consume d)" using debugger_ok_consume "1.prems" True by blast
    from "1.IH" [OF True this] show ?thesis
      using True by (subst (1 2 3) seek_loop.simps) (simp add: Cons_nth_drop_Suc [symmetric])
  next
    case False
    then have "takeWhile (\<lambda>e. re_tick e \<le> t) (drop (current_index d) (timeline d)) = []"
      by (cases "current_index d < length (timeline d)") (auto simp: Cons_nth_drop_Suc [symmetric])
    then show ?thesis using False "1.prems" by (subst (1 2 3) seek_loop.simps) auto
  qed
qed

text \<open>
  Seeking, forwards or backwards, leaves exactly the entities that the events up to the first later tick leave,
  whatever the debugger did before.
\<close>

lemma seek_state:
  assumes "snd (seek d t) = Ok ()"
  shows "let es = takeWhile (\<lambda>e. re_tick e \<le> t) (timeline d) in
    current_index (fst (seek d t)) = length es \<and> live_entities (fst (seek d t)) = alive_after es"
proof -
  let ?d = "d\<lparr>current_index := 0, current_tick := 0, live_entities := []\<rparr>"
  have s: "fst (seek d t) = seek_loop t ?d" using assms by (auto simp: seek_def split: if_splits)
  have "debugger_ok ?d" by (simp add: debugger_ok_def alive_after_def)
  from debugger_ok_seek_loop [OF this, of t] show ?thesis
    unfolding s by (simp add: Let_def debugger_ok_def takeWhile_eq_take [symmetric])
qed

text \<open>Continuing stops at the first breakpoint ahead, which may be the current one: continuing again stays there.\<close>

lemma continue_stuck:
  assumes "continue_exec d = (d', reason)" and "reason \<noteq> EndOfRecording"
  shows "continue_exec d' = (d', reason)"
  using assms
proof (induction d rule: continue_exec.induct)
  case (1 d)
  then have l: "current_index d < length (timeline d)"
    by (subst (asm) (2) continue_exec.simps) (auto split: if_splits)
  show ?case
  proof (cases "breakpoint_at d (timeline d ! current_index d)")
    case None
    then show ?thesis using 1 l by (subst (asm) (2) continue_exec.simps) simp
  next
    case (Some r)
    then have "d' = d\<lparr>current_tick := re_tick (timeline d ! current_index d)\<rparr>" "reason = r"
      using "1.prems"(1) l by (subst (asm) continue_exec.simps, simp)+
    moreover have "breakpoint_at (d\<lparr>current_tick := x\<rparr>) e = breakpoint_at d e" for x e
      by (simp add: breakpoint_at_def split: replay_kind.split)
    ultimately show ?thesis using Some l by (subst continue_exec.simps) simp
  qed
qed

end
