(* ===== verification/Supervisor.thy ===== *)
theory Supervisor
  imports ResourceSys Paths
begin

text \<open>
  The lifecycle supervisor of the server (\<open>server/ald-server/src/lifecycle.rs\<close>): the commands that start,
  stop and restart resources, driving the lifecycle table of \<open>ResourceSys\<close>. The file system, the TOML
  reader and the Lua interpreter are parameters.
\<close>

section \<open>State and environment\<close>

datatype lifecycle_command = StartCmd string | StopCmd string | RestartCmd string | ReloadCmd string

record supervisor =
  lifecycle :: lifecycle_manager
  counters :: "(string, u64) hmap"

definition incr :: "string \<Rightarrow> u64 \<Rightarrow> supervisor \<Rightarrow> supervisor" where
  "incr name by s = s\<lparr>counters := hm_insert name (hm_get_or 0 (counters s) name + by) (counters s)\<rparr>"

text \<open>
  An interpreter is created, given the API tables, and then runs sources. A server built without the Lua
  feature has none.
\<close>

record 'l lua_host =
  lua_new :: "('l, string) result"
  lua_tables :: "'l \<Rightarrow> ('l, string) result"
  lua_exec :: "'l \<Rightarrow> string \<Rightarrow> ('l, string) result"

record 'l sup_env =
  is_file :: "upath \<Rightarrow> bool"
  read_to_string :: "upath \<Rightarrow> (string, string) result"
  from_toml :: "string \<Rightarrow> (manifest, string) result"
  display_path :: "upath \<Rightarrow> string"
  lua :: "'l lua_host option"
  directory :: string

section \<open>Files of a resource\<close>

fun first_root :: "'l sup_env \<Rightarrow> string \<Rightarrow> string list \<Rightarrow> upath option" where
  "first_root env name [] = None"
| "first_root env name (b # bs) =
     (let root = path_join (path_of b) name in
      if is_file env (path_join root ''ald_manifest.toml'') then Some root else first_root env name bs)"

definition resource_root :: "'l sup_env \<Rightarrow> string \<Rightarrow> upath option" where
  "resource_root env name = first_root env name [directory env, ''base-resources'', ''../../base-resources'']"

definition quoted :: "string \<Rightarrow> string" where
  "quoted s = [CHR 0x27] @ s @ [CHR 0x27]"

fun manifest_error_str :: "manifest_error \<Rightarrow> string" where
  "manifest_error_str (ManifestParse s) = ''manifest parse error: '' @ s"
| "manifest_error_str (MissingField s) = ''manifest missing field: '' @ s"

definition read_manifest :: "'l sup_env \<Rightarrow> upath \<Rightarrow> (manifest, string) result" where
  "read_manifest env root =
     (case read_to_string env (path_join root ''ald_manifest.toml'') of
        Inl e \<Rightarrow> Err (''read manifest: '' @ e)
      | Inr text \<Rightarrow>
          (case manifest_parse (from_toml env) text of
             Inl e \<Rightarrow> Err (''parse manifest: '' @ manifest_error_str e)
           | Inr m \<Rightarrow> Ok m))"

definition load_manifest :: "'l sup_env \<Rightarrow> string \<Rightarrow> (manifest, string) result" where
  "load_manifest env name =
     (case resource_root env name of
        None \<Rightarrow> Err (''manifest not found for '' @ quoted name)
      | Some root \<Rightarrow> read_manifest env root)"

fun missing_dependency :: "'l sup_env \<Rightarrow> dependency list \<Rightarrow> string option" where
  "missing_dependency env [] = None"
| "missing_dependency env (d # ds) =
     (if resource_root env (dep_name d) = None then Some (dep_name d) else missing_dependency env ds)"

definition check_dependencies :: "'l sup_env \<Rightarrow> manifest \<Rightarrow> (unit, string) result" where
  "check_dependencies env m =
     (case missing_dependency env (dependencies m) of
        Some d \<Rightarrow> Err (''resource '' @ quoted (m_name m) @ '' missing dependency '' @ quoted d)
      | None \<Rightarrow> Ok ())"

text \<open>The scripts run one after the other; the count is of those that ran.\<close>

fun exec_scripts :: "'l sup_env \<Rightarrow> 'l lua_host \<Rightarrow> upath \<Rightarrow> 'l \<Rightarrow> nat \<Rightarrow> string list \<Rightarrow> (nat, string) result" where
  "exec_scripts env h root l loaded [] = Ok loaded"
| "exec_scripts env h root l loaded (script # rest) =
     (let path = path_join root script in
      case read_to_string env path of
        Inl e \<Rightarrow> Err (''read '' @ display_path env path @ '': '' @ e)
      | Inr src \<Rightarrow>
          (case lua_exec h l src of
             Inl e \<Rightarrow> Err (''exec '' @ display_path env path @ '': '' @ e)
           | Inr l' \<Rightarrow> exec_scripts env h root l' (Suc loaded) rest))"

definition start_resource_scripts :: "'l sup_env \<Rightarrow> string \<Rightarrow> (nat, string) result" where
  "start_resource_scripts env name =
     (case lua env of
        None \<Rightarrow> Err (''resource '' @ quoted name @ '' needs the lua script host (rebuild with --features lua)'')
      | Some h \<Rightarrow>
          (case resource_root env name of
             None \<Rightarrow> Err (''manifest not found for '' @ quoted name)
           | Some root \<Rightarrow>
               (case read_manifest env root of
                  Inl e \<Rightarrow> Err e
                | Inr m \<Rightarrow>
                    if server_scripts m = [] then Ok 0
                    else
                      (case lua_new h of
                         Inl e \<Rightarrow> Err (''lua init: '' @ e)
                       | Inr l0 \<Rightarrow>
                           (case lua_tables h l0 of
                              Inl e \<Rightarrow> Err e
                            | Inr l \<Rightarrow> exec_scripts env h root l 0 (server_scripts m))))))"

section \<open>Transitions\<close>

definition sup_set :: "supervisor \<Rightarrow> string \<Rightarrow> resource_state \<Rightarrow> supervisor" where
  "sup_set s name st = s\<lparr>lifecycle := set_state (lifecycle s) name st\<rparr>"

definition sup_fail :: "supervisor \<Rightarrow> string \<Rightarrow> supervisor" where
  "sup_fail s name = incr ''resources.start_failures'' 1 (sup_set s name FailedState)"

definition transition_start :: "'l sup_env \<Rightarrow> supervisor \<Rightarrow> string \<Rightarrow> supervisor" where
  "transition_start env s name =
     (if \<not> can_start (lifecycle s) name then s
      else
        let s1 = sup_set s name Validating in
        case load_manifest env name of
          Inl _ \<Rightarrow> sup_fail s1 name
        | Inr m \<Rightarrow>
            let s2 = sup_set s1 name DependencyResolution in
            (case check_dependencies env m of
               Inl _ \<Rightarrow> sup_fail s2 name
             | Inr _ \<Rightarrow>
                 let s3 = sup_set (sup_set s2 name Starting) name ScriptHostStarting in
                 (case start_resource_scripts env name of
                    Inl _ \<Rightarrow> sup_fail s3 name
                  | Inr n \<Rightarrow>
                      if database_migrations m \<noteq> [] then sup_fail s3 name
                      else
                        let s4 = sup_set (sup_set s3 name MigrationsReady) name HealthChecking in
                        (case mark_healthy (lifecycle s4) name n of
                           (l, Inr _) \<Rightarrow> incr ''resources.started'' 1 (s4\<lparr>lifecycle := l\<rparr>)
                         | (l, Inl _) \<Rightarrow> sup_fail (s4\<lparr>lifecycle := l\<rparr>) name))))"

fun release_handles :: "nat \<Rightarrow> lifecycle_manager \<Rightarrow> string \<Rightarrow> lifecycle_manager" where
  "release_handles 0 m name = m"
| "release_handles (Suc k) m name = release_handles k (release_handle m name) name"

definition transition_stop :: "supervisor \<Rightarrow> string \<Rightarrow> supervisor" where
  "transition_stop s name =
     (let l = release_handles 4096 (set_state (lifecycle s) name Stopping) name in
      case stop_resource l name of
        (l', Inr _) \<Rightarrow> incr ''resources.stopped'' 1 (s\<lparr>lifecycle := l'\<rparr>)
      | (l', Inl _) \<Rightarrow>
          incr ''resources.stop_failures'' 1 (s\<lparr>lifecycle := set_state l' name FailedState\<rparr>))"

definition transition_restart :: "'l sup_env \<Rightarrow> supervisor \<Rightarrow> string \<Rightarrow> supervisor" where
  "transition_restart env s name = transition_start env (transition_stop s name) name"

text \<open>One command, with the shutdown flag and the environment at its time.\<close>

fun sup_step :: "supervisor \<Rightarrow> 'l sup_env \<times> bool \<times> lifecycle_command \<Rightarrow> supervisor" where
  "sup_step s (env, True, _) = s"
| "sup_step s (env, False, StartCmd name) = transition_start env s name"
| "sup_step s (env, False, StopCmd name) = transition_stop s name"
| "sup_step s (env, False, RestartCmd name) = transition_restart env s name"
| "sup_step s (env, False, ReloadCmd name) = transition_restart env s name"

definition sup_run :: "supervisor \<Rightarrow> ('l sup_env \<times> bool \<times> lifecycle_command) list \<Rightarrow> supervisor" where
  "sup_run s cmds = foldl sup_step s cmds"

definition supervisor_new :: supervisor where
  "supervisor_new = \<lparr>lifecycle = lifecycle_new, counters = []\<rparr>"

section \<open>What a start does\<close>

abbreviation sup_state :: "supervisor \<Rightarrow> string \<Rightarrow> resource_state" where
  "sup_state s name \<equiv> resource_state_of (lifecycle s) name"

abbreviation sup_handles :: "supervisor \<Rightarrow> string \<Rightarrow> nat" where
  "sup_handles s name \<equiv> hm_get_or 0 (handles (lifecycle s)) name"

lemma set_state_at [simp]: "resource_state_of (set_state m name st) x = (if x = name then st else resource_state_of m x)"
  by (simp add: set_state_def resource_state_of_def hm_simps)

lemma set_state_handles [simp]: "handles (set_state m name st) = handles m"
  by (simp add: set_state_def)

lemma sup_simps [simp]:
  "lifecycle (incr c b s) = lifecycle s" "lifecycle (sup_set s name st) = set_state (lifecycle s) name st"
  "lifecycle (sup_fail s name) = set_state (lifecycle s) name FailedState"
  by (simp_all add: incr_def sup_set_def sup_fail_def)

text \<open>What a resource must have for its start to succeed.\<close>

definition startable :: "'l sup_env \<Rightarrow> string \<Rightarrow> nat \<Rightarrow> bool" where
  "startable env name n \<longleftrightarrow>
     (case load_manifest env name of
        Inl _ \<Rightarrow> False
      | Inr m \<Rightarrow> check_dependencies env m = Ok () \<and> start_resource_scripts env name = Ok n \<and> database_migrations m = [])"

text \<open>
  A start is refused without any change, or ends healthy with the number of scripts as its handles, or ends
  failed with the handles as they were; the other resources are untouched.
\<close>

lemma start_outcome:
  defines "s' \<equiv> \<lambda>env s name. transition_start env s name"
  shows "\<not> can_start (lifecycle s) name \<Longrightarrow> s' env s name = s"
    and "can_start (lifecycle s) name \<Longrightarrow> startable env name n \<Longrightarrow>
      sup_state (s' env s name) x = (if x = name then Healthy else sup_state s x) \<and>
      sup_handles (s' env s name) x = (if x = name then n else sup_handles s x)"
    and "can_start (lifecycle s) name \<Longrightarrow> \<nexists>n. startable env name n \<Longrightarrow>
      sup_state (s' env s name) x = (if x = name then FailedState else sup_state s x) \<and>
      sup_handles (s' env s name) x = sup_handles s x"
proof -
  have h: "mark_healthy (set_state l name HealthChecking) name k =
      ((set_state (set_state l name HealthChecking) name Healthy)\<lparr>handles := hm_insert name k (handles l)\<rparr>, Ok ())" for l k
    by (simp add: mark_healthy_def)
  have r: "resource_state_of (l\<lparr>handles := y\<rparr>) x = resource_state_of l x" for l y x
    by (simp add: resource_state_of_def)
  show "\<not> can_start (lifecycle s) name \<Longrightarrow> s' env s name = s"
    by (simp add: s'_def transition_start_def)
  show "can_start (lifecycle s) name \<Longrightarrow> startable env name n \<Longrightarrow>
      sup_state (s' env s name) x = (if x = name then Healthy else sup_state s x) \<and>
      sup_handles (s' env s name) x = (if x = name then n else sup_handles s x)"
    by (auto simp: s'_def transition_start_def startable_def Let_def h r hm_simps split: sum.splits)
  show "can_start (lifecycle s) name \<Longrightarrow> \<nexists>n. startable env name n \<Longrightarrow>
      sup_state (s' env s name) x = (if x = name then FailedState else sup_state s x) \<and>
      sup_handles (s' env s name) x = sup_handles s x"
    by (auto simp: s'_def transition_start_def startable_def Let_def h r hm_simps split: sum.splits)
qed

text \<open>Without the Lua feature no resource starts, not even one without scripts.\<close>

lemma no_lua_never_starts: "lua env = None \<Longrightarrow> \<not> startable env name n"
  by (auto simp: startable_def start_resource_scripts_def split: sum.splits)

text \<open>The handles of a started resource are the number of its server scripts.\<close>

lemma exec_scripts_count: "exec_scripts env h root l k ss = Ok n \<Longrightarrow> n = k + length ss"
  by (induction ss arbitrary: l k) (fastforce simp: Let_def split: sum.splits)+

lemma startable_handles:
  assumes "startable env name n"
  shows "\<exists>m. load_manifest env name = Ok m \<and> n = length (server_scripts m)"
  using assms
  by (auto simp: startable_def load_manifest_def start_resource_scripts_def dest!: exec_scripts_count
      split: sum.splits option.splits if_splits)

text \<open>An absolute name is looked up as it is, in none of the resource directories.\<close>

lemma absolute_name_escapes: "absolute (path_of name) \<Longrightarrow> resource_root env name = Some r \<Longrightarrow> r = path_of name"
  by (auto simp: resource_root_def path_join_def Let_def split: if_splits)

section \<open>What a stop does\<close>

lemma release_handle_effect:
  "resource_state_of (release_handle m name) x = resource_state_of m x \<and>
   hm_get_or 0 (handles (release_handle m name)) x =
     hm_get_or 0 (handles m) x - (if x = name then 1 else 0)"
  by (auto simp: release_handle_def resource_state_of_def hm_get_or_def hm_simps split: option.splits)

lemma release_handles_effect:
  "resource_state_of (release_handles k m name) x = resource_state_of m x \<and>
   hm_get_or 0 (handles (release_handles k m name)) x = hm_get_or 0 (handles m) x - (if x = name then k else 0)"
  by (induction k arbitrary: m) (auto simp: release_handle_effect)

text \<open>A stop releases 4096 handles, whatever holds them; only a resource with more is reported as leaking.\<close>

lemma stop_outcome:
  "sup_state (transition_stop s name) x =
     (if x = name then (if sup_handles s name \<le> 4096 then Stopped else FailedState) else sup_state s x)"
  "sup_handles (transition_stop s name) x = sup_handles s x - (if x = name then 4096 else 0)"
proof -
  define l where "l = release_handles 4096 (set_state (lifecycle s) name Stopping) name"
  have l: "resource_state_of l x = (if x = name then Stopping else sup_state s x)"
    "hm_get_or 0 (handles l) x = sup_handles s x - (if x = name then 4096 else 0)" for x
    using release_handles_effect [of 4096 "set_state (lifecycle s) name Stopping" name] by (simp_all add: l_def)
  have n: "hm_get_or 0 (handles l) name = sup_handles s name - 4096" using l(2) [of name] by simp
  show "sup_state (transition_stop s name) x =
     (if x = name then (if sup_handles s name \<le> 4096 then Stopped else FailedState) else sup_state s x)"
    using l(1) [of x] n by (simp add: transition_stop_def l_def [symmetric] stop_resource_def Let_def)
  show "sup_handles (transition_stop s name) x = sup_handles s x - (if x = name then 4096 else 0)"
    using l(2) [of x] n by (simp add: transition_stop_def l_def [symmetric] stop_resource_def Let_def)
qed

text \<open>
  A restart therefore always reaches the start, in whatever state the resource was: a quarantined one is
  started again, and after a leak the count of leaked handles is overwritten.
\<close>

lemma restart_always_starts: "can_start (lifecycle (transition_stop s name)) name"
  by (simp add: can_start_def stop_outcome)

lemma restart_outcome:
  assumes "startable env name n"
  shows "sup_state (transition_restart env s name) name = Healthy \<and> sup_handles (transition_restart env s name) name = n"
  using start_outcome(2) [OF restart_always_starts assms, of s name] by (simp add: transition_restart_def)

section \<open>Every command sequence\<close>

text \<open>Between two commands every resource is stopped, healthy or failed: no transition is left half way.\<close>

definition settled :: "supervisor \<Rightarrow> bool" where
  "settled s \<longleftrightarrow> (\<forall>name. sup_state s name \<in> {Stopped, Healthy, FailedState})"

lemma start_settled: "settled s \<Longrightarrow> settled (transition_start env s name)"
  using start_outcome(1) [of s name env] start_outcome(2) [of s name env] start_outcome(3) [of s name env]
  unfolding settled_def by (cases "can_start (lifecycle s) name"; cases "\<exists>n. startable env name n") force+

lemma stop_settled: "settled s \<Longrightarrow> settled (transition_stop s name)"
  by (simp add: settled_def stop_outcome)

lemma sup_step_settled: "settled s \<Longrightarrow> settled (sup_step s c)"
  by (cases "(s, c)" rule: sup_step.cases) (auto simp: transition_restart_def start_settled stop_settled)

interpretation supervisor_run: op_system supervisor_new sup_step settled
  by unfold_locales
    (simp add: settled_def supervisor_new_def lifecycle_new_def resource_state_of_def hm_get_or_def, rule sup_step_settled)

lemma supervisor_settled: "sup_state (sup_run supervisor_new cmds) name \<in> {Stopped, Healthy, FailedState}"
  using supervisor_run.inv_reach [of cmds] unfolding settled_def sup_run_def by blast

end
