(* ===== verification/TimeSync.thy ===== *)
theory TimeSync
  imports Prelude "HOL-Library.Signed_Division"
begin

text \<open>
  Time synchronisation (\<open>crates/ald-timesync\<close>): the exchange of samples, the estimator of a client, the
  server clock, and the check of the times a client claims. An \<open>i64\<close> is a 64-bit word read through \<open>sint\<close>,
  and wraps as in a release build. Clock readings are arguments: the wall clock in nanoseconds since 1970,
  the monotonic clock in nanoseconds since an arbitrary moment.
\<close>

section \<open>Signed words\<close>

type_synonym i64 = "64 word"

definition i_max :: "i64 \<Rightarrow> i64 \<Rightarrow> i64" where
  "i_max a b = (if sint a \<le> sint b then b else a)"

definition i_min :: "i64 \<Rightarrow> i64 \<Rightarrow> i64" where
  "i_min a b = (if sint a \<le> sint b then a else b)"

definition i_div :: "i64 \<Rightarrow> i64 \<Rightarrow> i64" where
  "i_div a b = word_of_int (sint a sdiv sint b)"

definition i_abs :: "i64 \<Rightarrow> i64" where
  "i_abs a = (if sint a < 0 then - a else a)"

section \<open>Samples\<close>

record time_sample =
  t0 :: i64
  t1 :: i64
  t2 :: i64

definition server_now_millis :: "int \<Rightarrow> i64" where
  "server_now_millis wall = (if wall < 0 then 0 else word_of_int (wall div 10 ^ 6))"

definition server_reply :: "int \<Rightarrow> i64 \<Rightarrow> time_sample" where
  "server_reply wall t = (let now = server_now_millis wall in \<lparr>t0 = t, t1 = now, t2 = now\<rparr>)"

record sync_result =
  offset_ms :: i64
  rtt_ms :: i64
  jitter_ms :: i64

definition from_sample :: "time_sample \<Rightarrow> i64 \<Rightarrow> sync_result" where
  "from_sample s t3 =
     (let rtt = i_max ((t3 - t0 s) - (t2 s - t1 s)) 0;
          offset = i_div ((t1 s - t0 s) + (t2 s - t3)) 2 in
      \<lparr>offset_ms = offset, rtt_ms = rtt, jitter_ms = 0\<rparr>)"

section \<open>Clocks\<close>

record server_clock =
  anchor :: nat
  epoch :: i64

definition clock_new :: "nat \<Rightarrow> int \<Rightarrow> server_clock" where
  "clock_new start wall = \<lparr>anchor = start, epoch = server_now_millis wall\<rparr>"

text \<open>\<open>elapsed().as_millis()\<close>, before the cast to 64 bits; the difference saturates at zero.\<close>

definition elapsed_millis :: "nat \<Rightarrow> nat \<Rightarrow> nat" where
  "elapsed_millis start now = (now - start) div 10 ^ 6"

definition tick_ms :: "server_clock \<Rightarrow> nat \<Rightarrow> u64" where
  "tick_ms c now = of_nat (elapsed_millis (anchor c) now)"

definition now_ms :: "server_clock \<Rightarrow> nat \<Rightarrow> i64" where
  "now_ms c now = epoch c + of_nat (elapsed_millis (anchor c) now)"

text \<open>The anchor of the process is set by the first reading.\<close>

definition tick_now_millis :: "nat option \<Rightarrow> nat \<Rightarrow> nat option \<times> u64" where
  "tick_now_millis lock now =
     (let a = (case lock of None \<Rightarrow> now | Some x \<Rightarrow> x) in (Some a, of_nat (elapsed_millis a now)))"

section \<open>The estimator\<close>

record clock_estimator =
  samples :: "sync_result list"
  capacity :: nat

definition estimator_new :: "nat \<Rightarrow> clock_estimator" where
  "estimator_new n = \<lparr>samples = [], capacity = max n 1\<rparr>"

text \<open>The last position with the greatest round trip (\<open>max_by_key\<close>); \<open>w\<close> is the best so far.\<close>

fun worst_from :: "nat \<times> i64 \<Rightarrow> nat \<Rightarrow> sync_result list \<Rightarrow> nat" where
  "worst_from w i [] = fst w"
| "worst_from w i (s # ss) =
     worst_from (if sint (snd w) \<le> sint (rtt_ms s) then (i, rtt_ms s) else w) (Suc i) ss"

fun worst_index :: "sync_result list \<Rightarrow> nat option" where
  "worst_index [] = None"
| "worst_index (s # ss) = Some (worst_from (0, rtt_ms s) 1 ss)"

definition remove_at :: "nat \<Rightarrow> 'a list \<Rightarrow> 'a list" where
  "remove_at i xs = take i xs @ drop (Suc i) xs"

definition push_sample :: "clock_estimator \<Rightarrow> sync_result \<Rightarrow> clock_estimator" where
  "push_sample e r =
     (let kept = (if capacity e \<le> length (samples e)
                  then (case worst_index (samples e) of None \<Rightarrow> samples e | Some i \<Rightarrow> remove_at i (samples e))
                  else samples e) in
      e\<lparr>samples := kept @ [r]\<rparr>)"

text \<open>The first sample with the least round trip (\<open>min_by_key\<close>).\<close>

fun best_sample :: "sync_result list \<Rightarrow> sync_result option" where
  "best_sample [] = None"
| "best_sample (s # ss) =
     (case best_sample ss of
        None \<Rightarrow> Some s
      | Some b \<Rightarrow> if sint (rtt_ms s) \<le> sint (rtt_ms b) then Some s else Some b)"

definition est_offset :: "clock_estimator \<Rightarrow> i64 option" where
  "est_offset e = map_option offset_ms (best_sample (samples e))"

definition est_jitter :: "clock_estimator \<Rightarrow> i64" where
  "est_jitter e =
     (if length (samples e) \<le> 1 then 0
      else
        let (mn, mx) = foldl (\<lambda>(mn, mx) s. (i_min mn (offset_ms s), i_max mx (offset_ms s)))
                         (word_of_int (2 ^ 63 - 1), word_of_int (- (2 ^ 63))) (samples e) in
        i_abs (mx - mn))"

definition est_rtt :: "clock_estimator \<Rightarrow> i64" where
  "est_rtt e =
     (if samples e = [] then 0
      else i_div (sum_list (map rtt_ms (samples e))) (of_nat (length (samples e))))"

section \<open>Delays and claims\<close>

definition MIN_DELAY :: i64 where
  "MIN_DELAY = 60"

definition MAX_DELAY :: i64 where
  "MAX_DELAY = 400"

definition interpolation_delay_ms :: "i64 \<Rightarrow> i64 \<Rightarrow> i64" where
  "interpolation_delay_ms rtt jitter =
     (let guard = i_max jitter 0; base = i_max (i_div rtt 2) 0 in
      i_min (MIN_DELAY + base + guard) MAX_DELAY)"

definition MAX_LEAD_MS :: i64 where
  "MAX_LEAD_MS = 5000"

datatype time_sync_error = StaleClaim i64 i64 | FutureClaim i64 | NoSamples

definition validate_client_time_claim :: "i64 \<Rightarrow> i64 \<Rightarrow> i64 \<Rightarrow> (unit, time_sync_error) result" where
  "validate_client_time_claim server_now claim allowed =
     (let lag = server_now - claim in
      if sint allowed < sint lag then Err (StaleClaim lag allowed)
      else if sint lag < sint (- MAX_LEAD_MS) then Err (FutureClaim (- lag))
      else Ok ())"

record time_sync_diagnostics =
  tick_epoch_ms :: u64
  server_now_ms :: i64
  rtt_p50_ms :: i64
  diag_jitter_ms :: i64
  delay_ms :: i64
  sample_count :: nat

definition diagnostics :: "server_clock \<Rightarrow> clock_estimator \<Rightarrow> nat \<Rightarrow> nat \<Rightarrow> time_sync_diagnostics" where
  "diagnostics c e now now' =
     (let rtt = est_rtt e; jitter = est_jitter e in
      \<lparr>tick_epoch_ms = tick_ms c now, server_now_ms = now_ms c now', rtt_p50_ms = rtt, diag_jitter_ms = jitter,
       delay_ms = interpolation_delay_ms rtt jitter, sample_count = length (samples e)\<rparr>)"

section \<open>Arithmetic without overflow\<close>

definition fits :: "int \<Rightarrow> bool" where
  "fits i \<longleftrightarrow> - (2 ^ 63) \<le> i \<and> i < 2 ^ 63"

lemma sint_fits: "fits i \<Longrightarrow> sint (word_of_int i :: i64) = i"
  by (simp add: fits_def sint_sbintrunc' signed_take_bit_int_eq_self)

lemma fits_sint [simp, intro]: "fits (sint (w :: i64))"
  using sint_greater_eq [of w] sint_less [of w] by (simp add: fits_def)

lemma sdiv_two: "\<bar>2 * (x sdiv 2) - x\<bar> \<le> (1 :: int)"
  by (auto simp: signed_divide_int_def sgn_if abs_if)

lemma fits_half: "fits x \<Longrightarrow> fits (x sdiv 2)"
  using sdiv_two [of x] by (simp add: fits_def abs_if split: if_splits)

section \<open>The exchange\<close>

text \<open>
  A client whose clock is \<open>theta\<close> ahead of the server sends at \<open>T\<close>; the request takes \<open>d1\<close>, the server
  \<open>p\<close> and the answer \<open>d2\<close>. The round trip is exact. The offset is the negated lead of the client, up to the
  difference of the delays: it has to be added to the client's clock to obtain the server's.
\<close>

definition exchange :: "int \<Rightarrow> int \<Rightarrow> int \<Rightarrow> int \<Rightarrow> int \<Rightarrow> sync_result" where
  "exchange T theta d1 p d2 =
     from_sample \<lparr>t0 = word_of_int T, t1 = word_of_int (T - theta + d1), t2 = word_of_int (T - theta + d1 + p)\<rparr>
       (word_of_int (T + d1 + p + d2))"

lemma exchange_exact:
  assumes "0 \<le> d1" "0 \<le> d2" "fits (d1 + d2)" "fits (d1 - d2 - 2 * theta)"
  shows "sint (rtt_ms (exchange T theta d1 p d2)) = d1 + d2 \<and>
    sint (offset_ms (exchange T theta d1 p d2)) = (d1 - d2 - 2 * theta) sdiv 2"
proof -
  have r: "((word_of_int (T + d1 + p + d2) - word_of_int T) -
      (word_of_int (T - theta + d1 + p) - word_of_int (T - theta + d1)) :: i64) = word_of_int (d1 + d2)"
    by (simp flip: wi_hom_add wi_hom_sub)
  have "word_of_int (T - theta + d1) - word_of_int T + (word_of_int (T - theta + d1 + p) - word_of_int (T + d1 + p + d2)) =
      (word_of_int ((T - theta + d1 - T) + ((T - theta + d1 + p) - (T + d1 + p + d2))) :: i64)"
    by (simp only: wi_hom_add wi_hom_sub)
  also have "\<dots> = word_of_int (d1 - d2 - 2 * theta)" by (rule arg_cong [where f = word_of_int]) simp
  finally have off: "word_of_int (T - theta + d1) - word_of_int T + (word_of_int (T - theta + d1 + p) - word_of_int (T + d1 + p + d2)) =
      (word_of_int (d1 - d2 - 2 * theta) :: i64)" .
  have two: "sint (2 :: i64) = 2" by simp
  show ?thesis
    using assms sint_fits [OF assms(3)] sint_fits [OF assms(4)] sint_fits [OF fits_half [OF assms(4)]]
    by (simp add: exchange_def from_sample_def Let_def r off i_max_def i_div_def two)
qed

lemma exchange_error:
  assumes "0 \<le> d1" "0 \<le> d2" "fits (d1 + d2)" "fits (d1 - d2 - 2 * theta)"
  shows "2 * \<bar>sint (offset_ms (exchange T theta d1 p d2)) + theta\<bar> \<le> sint (rtt_ms (exchange T theta d1 p d2)) + 1"
proof -
  define q where "q = (d1 - d2 - 2 * theta) sdiv 2"
  have "\<bar>2 * q - (d1 - d2 - 2 * theta)\<bar> \<le> 1" using sdiv_two q_def by simp
  then have "2 * \<bar>q + theta\<bar> \<le> d1 + d2 + 1" using assms(1,2) by arith
  then show ?thesis using exchange_exact [OF assms, of T p] by (simp add: q_def)
qed

text \<open>With equal delays it is exact; the documented reading \<open>client = server + offset\<close> has the wrong sign.\<close>

lemma offset_sign:
  assumes "0 \<le> d" "fits (d + d)" "fits (- (2 * theta))"
  shows "sint (offset_ms (exchange T theta d p d)) = - theta"
proof -
  have "(- (2 * theta)) sdiv 2 = - theta" by (auto simp: signed_divide_int_def sgn_if abs_if)
  then show ?thesis using exchange_exact [of d d theta T p] assms by simp
qed

section \<open>What the estimator keeps\<close>

lemma best_sample_None: "best_sample ss = None \<longleftrightarrow> ss = []"
  by (cases ss) (auto split: option.splits)

lemma best_sample_least:
  "best_sample ss = Some b \<Longrightarrow> b \<in> set ss \<and> (\<forall>x \<in> set ss. sint (rtt_ms b) \<le> sint (rtt_ms x))"
proof (induction ss arbitrary: b)
  case (Cons s ss)
  show ?case
  proof (cases "best_sample ss")
    case None
    then show ?thesis using Cons.prems by (simp add: best_sample_None)
  next
    case (Some b')
    then show ?thesis using Cons.prems Cons.IH [OF Some] by (auto split: if_splits)
  qed
qed simp

lemma worst_from_greatest:
  "fst w < i \<Longrightarrow> snd w = rtt_ms (xs ! fst w) \<Longrightarrow> i \<le> length xs \<Longrightarrow>
   \<forall>k < i. sint (rtt_ms (xs ! k)) \<le> sint (snd w) \<Longrightarrow>
   worst_from w i (drop i xs) < length xs \<and>
   (\<forall>k < length xs. sint (rtt_ms (xs ! k)) \<le> sint (rtt_ms (xs ! worst_from w i (drop i xs))))"
proof (induction "length xs - i" arbitrary: w i)
  case 0
  then show ?case by simp
next
  case (Suc n)
  then have d: "drop i xs = xs ! i # drop (Suc i) xs" by (simp add: Cons_nth_drop_Suc)
  define w' where "w' = (if sint (snd w) \<le> sint (rtt_ms (xs ! i)) then (i, rtt_ms (xs ! i)) else w)"
  have "\<forall>k < Suc i. sint (rtt_ms (xs ! k)) \<le> sint (snd w')"
    using Suc.prems(4) by (auto simp: w'_def less_Suc_eq intro: order_trans)
  moreover have "fst w' < Suc i" "snd w' = rtt_ms (xs ! fst w')" using Suc.prems by (auto simp: w'_def)
  ultimately show ?case
    using Suc.hyps(1) [of "Suc i" w'] Suc.hyps(2) d by (simp add: w'_def)
qed

lemma worst_index_greatest:
  assumes "worst_index ss = Some i"
  shows "i < length ss \<and> (\<forall>x \<in> set ss. sint (rtt_ms x) \<le> sint (rtt_ms (ss ! i)))"
proof (cases ss)
  case (Cons s rest)
  then have "i = worst_from (0, rtt_ms s) 1 (drop 1 ss)" using assms by simp
  then have "i < length ss" "\<forall>k < length ss. sint (rtt_ms (ss ! k)) \<le> sint (rtt_ms (ss ! i))"
    using worst_from_greatest [of "(0, rtt_ms s)" 1 ss] Cons by simp_all
  then show ?thesis by (metis in_set_conv_nth)
qed (use assms in simp)

definition estimator_ok :: "clock_estimator \<Rightarrow> bool" where
  "estimator_ok e \<longleftrightarrow> 1 \<le> capacity e \<and> length (samples e) \<le> capacity e"

lemma push_ok: "estimator_ok e \<Longrightarrow> estimator_ok (push_sample e r)"
proof -
  assume ok: "estimator_ok e"
  have "length (remove_at i (samples e)) < length (samples e)" if "worst_index (samples e) = Some i" for i
    using worst_index_greatest [OF that] by (cases "samples e") (auto simp: remove_at_def)
  then show ?thesis
    using ok by (cases "worst_index (samples e)"; cases "samples e") (fastforce simp: estimator_ok_def push_sample_def Let_def)+
qed

interpretation estimator_run: op_system "estimator_new n" push_sample estimator_ok for n
  by unfold_locales (simp add: estimator_ok_def estimator_new_def, rule push_ok)

lemma nth_remove_at: "j < length xs \<Longrightarrow> j \<noteq> i \<Longrightarrow> xs ! j \<in> set (remove_at i xs)"
  by (cases "j < i") (auto simp: remove_at_def in_set_conv_nth intro: exI [of _ j] exI [of _ "j - Suc i"])

text \<open>
  From a capacity of two on the best round trip never gets worse: the sample that is evicted is not the only
  best one.
\<close>

lemma push_keeps_best:
  assumes "best_sample (samples e) = Some b" "2 \<le> capacity e"
  shows "\<exists>b'. best_sample (samples (push_sample e r)) = Some b' \<and>
    sint (rtt_ms b') \<le> sint (rtt_ms b) \<and> sint (rtt_ms b') \<le> sint (rtt_ms r)"
proof -
  let ?ss = "samples e" and ?new = "samples (push_sample e r)"
  have b: "b \<in> set ?ss" "\<forall>x \<in> set ?ss. sint (rtt_ms b) \<le> sint (rtt_ms x)" using best_sample_least [OF assms(1)] by auto
  have "\<exists>x \<in> set ?new. sint (rtt_ms x) \<le> sint (rtt_ms b)"
  proof (cases "capacity e \<le> length ?ss")
    case False
    then show ?thesis using b by (auto simp: push_sample_def Let_def)
  next
    case True
    then obtain i where i: "worst_index ?ss = Some i" using assms(2) by (cases ?ss) auto
    have w: "i < length ?ss" "\<forall>x \<in> set ?ss. sint (rtt_ms x) \<le> sint (rtt_ms (?ss ! i))" using worst_index_greatest [OF i] by auto
    obtain k where k: "k < length ?ss" "?ss ! k = b" using b(1) by (auto simp: in_set_conv_nth)
    define j where "j = (if k \<noteq> i then k else if i = 0 then 1 else 0)"
    have j: "j < length ?ss" "j \<noteq> i" using k True assms(2) by (auto simp: j_def)
    have "sint (rtt_ms (?ss ! j)) \<le> sint (rtt_ms b)" using k w(2) j(1) by (cases "k = i") (auto simp: j_def)
    moreover have "?ss ! j \<in> set ?new" using nth_remove_at [OF j] i True by (simp add: push_sample_def Let_def)
    ultimately show ?thesis by blast
  qed
  then obtain x where x: "x \<in> set ?new" "sint (rtt_ms x) \<le> sint (rtt_ms b)" by blast
  then obtain b' where b': "best_sample ?new = Some b'" using best_sample_None [of ?new] by fastforce
  moreover have "r \<in> set ?new" by (simp add: push_sample_def Let_def)
  ultimately show ?thesis using best_sample_least [OF b'] x by (auto intro: order_trans)
qed

text \<open>With a capacity of one the new sample replaces the best one.\<close>

lemma capacity_one_forgets:
  "samples (push_sample (push_sample (estimator_new 1) a) b) = [b]"
  by (simp add: push_sample_def estimator_new_def remove_at_def)

section \<open>Claims and delays\<close>

text \<open>
  A claim is accepted exactly if it lies between the allowed lag and five seconds ahead. The subtraction may
  wrap for a forged claim, but never into that interval.
\<close>

lemma claim_accepted:
  assumes "0 \<le> sint now" "sint now < 2 ^ 62" "0 \<le> sint allowed" "sint allowed < 2 ^ 62"
  shows "validate_client_time_claim now claim allowed = Ok () \<longleftrightarrow>
    sint now - sint allowed \<le> sint claim \<and> sint claim \<le> sint now + 5000"
proof -
  have lead: "sint (- MAX_LEAD_MS) = - 5000" by (simp add: MAX_LEAD_MS_def)
  have eq: "now - claim = word_of_int (sint now - sint claim)" by (simp add: wi_hom_sub [symmetric])
  have lag: "sint (now - claim) = (if sint now - sint claim < 2 ^ 63 then sint now - sint claim
      else sint now - sint claim - 2 ^ 64)"
  proof (cases "sint now - sint claim < 2 ^ 63")
    case True
    have "fits (sint now - sint claim)" using True assms fits_sint [of claim] by (simp add: fits_def)
    then have "sint (now - claim) = sint now - sint claim" by (subst eq) (rule sint_fits)
    then show ?thesis using True by simp
  next
    case False
    have f: "fits (sint now - sint claim - 2 ^ 64)" using False assms fits_sint [of claim] by (simp add: fits_def)
    have eq': "now - claim = word_of_int (sint now - sint claim - 2 ^ 64)"
      by (simp add: wi_hom_sub [symmetric])
    have "sint (now - claim) = sint now - sint claim - 2 ^ 64" by (subst eq') (rule sint_fits [OF f])
    then show ?thesis using False by simp
  qed
  show ?thesis
    using assms fits_sint [of claim]
    by (simp add: validate_client_time_claim_def Let_def lag lead fits_def)
qed

text \<open>The delay is between its bounds for every round trip and jitter whose sum fits; beyond that it wraps.\<close>

lemma delay_bounds:
  assumes "sint rtt < 2 ^ 62" "sint jitter < 2 ^ 62"
  shows "60 \<le> sint (interpolation_delay_ms rtt jitter) \<and> sint (interpolation_delay_ms rtt jitter) \<le> 400"
proof -
  define g where "g = sint (i_max jitter 0)"
  define b where "b = sint (i_max (i_div rtt 2) 0)"
  have g: "0 \<le> g" "g < 2 ^ 62" using assms by (auto simp: g_def i_max_def)
  have half: "sint (i_div rtt 2) = sint rtt sdiv 2"
    by (simp add: i_div_def sint_fits fits_half)
  have b: "0 \<le> b" "b \<le> 2 ^ 61" using assms half sdiv_two [of "sint rtt"] by (auto simp: b_def i_max_def abs_if split: if_splits)
  have "MIN_DELAY + i_max (i_div rtt 2) 0 + i_max jitter 0 = word_of_int (60 + b + g)"
    by (simp add: b_def g_def MIN_DELAY_def wi_hom_add [symmetric])
  moreover have "sint (word_of_int (60 + b + g) :: i64) = 60 + b + g" using b g by (intro sint_fits) (simp add: fits_def)
  ultimately show ?thesis
    using b g by (simp add: interpolation_delay_ms_def Let_def i_min_def MAX_DELAY_def)
qed

lemma delay_wraps: "sint (interpolation_delay_ms 0 (word_of_int (2 ^ 63 - 1))) < 0"
  by code_simp

end
