(* ===== verification/InputMap.thy ===== *)
theory InputMap
  imports OrderedMap RustStrings
begin

text \<open>
  Key bindings (\<open>crates/ald-input\<close>): the catalog of key names, the bindings of resources, and the report of
  conflicts.
\<close>

section \<open>Keys\<close>

datatype press_type = JustPressed | Pressed | JustReleased

datatype key_code = KeyCode (key_name: string)

datatype input_error = UnknownKey string | ReservedKey string | NoSuchBinding

definition CONSOLE_KEY :: string where
  "CONSOLE_KEY = ''F8''"

text \<open>The letters, the digits and the numeric keypad are listed in the order of the table.\<close>

definition KNOWN_KEYS :: "string list" where
  "KNOWN_KEYS =
     [''F1'', ''F2'', ''F3'', ''F4'', ''F5'', ''F6'', ''F7'', ''F8'', ''F9'', ''F10'', ''F11'', ''F12'',
      ''ESCAPE'', ''TAB'', ''CAPSLOCK'', ''SHIFT'', ''CTRL'', ''ALT'', ''SPACE'', ''ENTER'', ''BACKSPACE'',
      ''UP'', ''DOWN'', ''LEFT'', ''RIGHT'', ''INSERT'', ''DELETE'', ''HOME'', ''END'', ''PAGEUP'', ''PAGEDOWN''] @
     map (\<lambda>c. [c]) ''ABCDEFGHIJKLMNOPQRSTUVWXYZ'' @
     map (\<lambda>c. [c]) ''0123456789'' @
     map (\<lambda>c. ''NUMPAD'' @ [c]) ''0123456789'' @
     [''MOUSE_LEFT'', ''MOUSE_RIGHT'', ''MOUSE_MIDDLE'', ''MOUSE_X1'', ''MOUSE_X2'']"

definition upper_char :: "char \<Rightarrow> char" where
  "upper_char c = (if is_lower c then char_of (byte_of c - 32) else c)"

definition parse_key :: "string \<Rightarrow> (key_code, input_error) result" where
  "parse_key name =
     (let upper = replace_char CHR '' '' ''_'' (map upper_char (trim name)) in
      if upper = [] \<or> 24 < length upper then Err (UnknownKey name)
      else if upper \<in> set KNOWN_KEYS then Ok (KeyCode upper)
      else Err (UnknownKey name))"

definition is_console :: "key_code \<Rightarrow> bool" where
  "is_console k \<longleftrightarrow> key_name k = CONSOLE_KEY"

section \<open>Bindings\<close>

record binding =
  resource :: string
  action :: string
  bind_key :: key_code
  press :: press_type

record input_mapper =
  bindings :: "(u64 \<times> binding) list"
  next_id :: u64
  allow_console_key :: bool

definition mapper_new :: input_mapper where
  "mapper_new = \<lparr>bindings = [], next_id = 0, allow_console_key = False\<rparr>"

definition set_allow_console_key :: "input_mapper \<Rightarrow> bool \<Rightarrow> input_mapper" where
  "set_allow_console_key m allow = m\<lparr>allow_console_key := allow\<rparr>"

definition bind_action ::
  "input_mapper \<Rightarrow> string \<Rightarrow> string \<Rightarrow> key_code \<Rightarrow> press_type \<Rightarrow> input_mapper \<times> (u64, input_error) result" where
  "bind_action m res act k p =
     (if is_console k \<and> \<not> allow_console_key m then (m, Err (ReservedKey (key_name k)))
      else if res = [] \<or> 64 < length res \<or> act = [] \<or> 64 < length act
      then (m, Err (UnknownKey (res @ '':'' @ act)))
      else
        (m\<lparr>next_id := next_id m + 1,
           bindings := bt_put (next_id m) \<lparr>resource = res, action = act, bind_key = k, press = p\<rparr> (bindings m)\<rparr>,
         Ok (next_id m)))"

definition unbind :: "input_mapper \<Rightarrow> u64 \<Rightarrow> input_mapper \<times> (unit, input_error) result" where
  "unbind m i =
     (case hm_get (bindings m) i of
        None \<Rightarrow> (m, Err NoSuchBinding)
      | Some _ \<Rightarrow> (m\<lparr>bindings := hm_remove i (bindings m)\<rparr>, Ok ()))"

definition resolve_for :: "input_mapper \<Rightarrow> key_code \<Rightarrow> press_type \<Rightarrow> (u64 \<times> binding) list" where
  "resolve_for m k p = filter (\<lambda>(_, b). bind_key b = k \<and> press b = p) (bindings m)"

text \<open>The claimants by key and kind of press. The order of the groups before the sort is that of a hash map.\<close>

fun group_claims ::
  "(key_code \<times> press_type, (u64 \<times> binding) list) hmap \<Rightarrow> (u64 \<times> binding) list \<Rightarrow>
   (key_code \<times> press_type, (u64 \<times> binding) list) hmap" where
  "group_claims g [] = g"
| "group_claims g ((i, b) # bs) =
     (let c = (bind_key b, press b) in group_claims (hm_insert c (hm_get_or [] g c @ [(i, b)]) g) bs)"

definition conflicts :: "input_mapper \<Rightarrow> (key_code \<times> (u64 \<times> binding) list) list" where
  "conflicts m =
     sort_key (\<lambda>c. key_name (fst c))
       (map (\<lambda>((k, _), v). (k, v)) (filter (\<lambda>(_, v). 1 < length v) (group_claims [] (bindings m))))"

definition binding_count :: "input_mapper \<Rightarrow> nat" where
  "binding_count m = length (bindings m)"

section \<open>Parsing\<close>

text \<open>Every name of the catalog is its own canonical form, and nothing else is produced.\<close>

lemma parse_key_known: "list_all (\<lambda>k. parse_key k = Ok (KeyCode k)) KNOWN_KEYS"
proof -
  have "list_all (\<lambda>k. k \<noteq> [] \<and> is_graphic (hd k) \<and> is_graphic (last k) \<and> length k \<le> 24 \<and>
      replace_char CHR '' '' ''_'' (map upper_char k) = k) KNOWN_KEYS" by code_simp
  then show ?thesis by (auto simp: list_all_iff parse_key_def Let_def trim_graphic)
qed

lemma parse_key_sound: "parse_key s = Ok k \<Longrightarrow> key_name k \<in> set KNOWN_KEYS \<and> parse_key (key_name k) = Ok k"
  using parse_key_known by (auto simp: parse_key_def [of s] Let_def list_all_iff split: if_splits)

lemma parse_key_examples:
  "parse_key '' mouse left '' = Ok (KeyCode ''MOUSE_LEFT'')" "parse_key ''f13'' = Err (UnknownKey ''f13'')"
  by code_simp+

section \<open>Identifiers\<close>

datatype input_op =
    IBind string string key_code press_type
  | IUnbind u64
  | IAllow bool

fun input_step :: "input_mapper \<Rightarrow> input_op \<Rightarrow> input_mapper" where
  "input_step m (IBind r a k p) = fst (bind_action m r a k p)"
| "input_step m (IUnbind i) = fst (unbind m i)"
| "input_step m (IAllow b) = set_allow_console_key m b"

definition ids_below :: "input_mapper \<Rightarrow> bool" where
  "ids_below m \<longleftrightarrow> bt_ok (bindings m) \<and> (\<forall>i \<in> fst ` set (bindings m). i < next_id m)"

lemma in_bt_put: "x \<in> set (bt_put k v m) \<Longrightarrow> x = (k, v) \<or> x \<in> set m"
  by (induction m) (auto simp: split_beta split: if_splits)

lemma bt_put_last: "\<forall>i \<in> fst ` set m. i < k \<Longrightarrow> bt_put k v m = m @ [(k, v)]"
  by (induction m) (auto simp: split_beta)

lemma bt_ok_delete: "bt_ok m \<Longrightarrow> bt_ok (AList.delete k m)"
  by (induction m) (auto simp: bt_ok_def AList.delete_eq)

text \<open>Below the wrap of the counter a binding is appended under a new identifier.\<close>

lemma input_step_below:
  assumes "ids_below m" "unat (next_id m) \<le> n" "Suc n < 2 ^ 64"
  shows "ids_below (input_step m op) \<and> unat (next_id (input_step m op)) \<le> Suc n"
proof (cases op)
  case (IBind r a k p)
  have "unat (next_id m + 1) = Suc (unat (next_id m))" using assms(2,3) unat_Suc [of "next_id m"] by simp
  then have "next_id m < next_id m + 1" "unat (next_id m + 1) \<le> Suc n" using assms(2) by (simp_all add: word_less_nat_alt)
  then show ?thesis using assms(1,2) by (fastforce simp: IBind bind_action_def ids_below_def dest: in_bt_put intro: less_trans)
next
  case (IUnbind i)
  then show ?thesis
    using assms bt_ok_delete [of "bindings m" i]
    by (auto simp: unbind_def ids_below_def AList.delete_eq split: option.splits)
next
  case (IAllow b)
  then show ?thesis using assms by (simp add: set_allow_console_key_def ids_below_def)
qed

lemma input_run_below:
  "length ops < 2 ^ 64 - 1 \<Longrightarrow>
   ids_below (foldl input_step mapper_new ops) \<and> unat (next_id (foldl input_step mapper_new ops)) \<le> length ops"
proof (induction ops rule: rev_induct)
  case Nil
  then show ?case by (simp add: ids_below_def mapper_new_def bt_ok_def)
next
  case (snoc op ops)
  then show ?case using input_step_below [of "foldl input_step mapper_new ops" "length ops" op] by simp
qed

text \<open>The claimants of a key come in the order in which they were registered, and a new one comes last.\<close>

lemma bind_claims_last:
  assumes "ids_below m" "bind_action m r a k p = (m', Ok i)"
  shows "resolve_for m' k p = resolve_for m k p @ [(i, \<lparr>resource = r, action = a, bind_key = k, press = p\<rparr>)] \<and>
    (\<forall>k' p'. (k', p') \<noteq> (k, p) \<longrightarrow> resolve_for m' k' p' = resolve_for m k' p')"
  using assms by (auto simp: bind_action_def resolve_for_def ids_below_def bt_put_last split: if_splits)

text \<open>The console key is bound only by an operation after the opt-in.\<close>

lemma console_needs_opt_in:
  assumes "\<forall>b. IAllow b \<in> set ops \<longrightarrow> \<not> b"
  shows "resolve_for (foldl input_step mapper_new ops) (KeyCode ''F8'') p = []"
proof -
  have "\<not> allow_console_key (foldl input_step mapper_new ops) \<and>
      (\<forall>(i, b) \<in> set (bindings (foldl input_step mapper_new ops)). \<not> is_console (bind_key b))"
    using assms
  proof (induction ops rule: rev_induct)
    case Nil
    then show ?case by (simp add: mapper_new_def)
  next
    case (snoc op ops)
    define m where "m = foldl input_step mapper_new ops"
    have ih: "\<not> allow_console_key m" "\<forall>(i, b) \<in> set (bindings m). \<not> is_console (bind_key b)"
      using snoc by (auto simp: m_def)
    show ?case
      using ih snoc.prems
      by (cases op) (auto simp: m_def [symmetric] bind_action_def unbind_def set_allow_console_key_def AList.delete_eq
          dest!: in_bt_put split: option.splits)
  qed
  then show ?thesis by (auto simp: resolve_for_def filter_empty_conv is_console_def CONSOLE_KEY_def)
qed

section \<open>Conflicts\<close>

lemma group_claims_get:
  "hm_wf g \<Longrightarrow> hm_wf (group_claims g bs) \<and>
   hm_get_or [] (group_claims g bs) (k, p) = hm_get_or [] g (k, p) @ filter (\<lambda>(_, b). bind_key b = k \<and> press b = p) bs"
  by (induction g bs rule: group_claims.induct) (auto simp: Let_def hm_simps)

text \<open>
  The report lists, sorted by key, exactly the groups of two or more bindings of the same key and kind of
  press, each with all its claimants in order.
\<close>

lemma conflicts_exact:
  "sorted (map (\<lambda>c. key_name (fst c)) (conflicts m)) \<and>
   ((k, v) \<in> set (conflicts m) \<longleftrightarrow> (\<exists>p. v = resolve_for m k p \<and> 1 < length v))"
proof -
  let ?g = "group_claims [] (bindings m)"
  have wf: "hm_wf ?g" and get: "hm_get_or [] ?g (k, p) = resolve_for m k p" for k p
    using group_claims_get [of "[]" "bindings m"] by (auto simp: resolve_for_def hm_get_or_def)
  have "((k, p), v) \<in> set ?g \<and> 1 < length v \<longleftrightarrow> v = resolve_for m k p \<and> 1 < length v" for p
    using get [of k p] hm_get_in_set [OF wf, of "(k, p)" v] by (auto simp: hm_get_or_def split: option.splits)
  then have "(k, v) \<in> set (conflicts m) \<longleftrightarrow> (\<exists>p. v = resolve_for m k p \<and> 1 < length v)"
    by (fastforce simp: conflicts_def image_iff)
  then show ?thesis by (simp add: conflicts_def)
qed

end
