(* ===== verification/SecurityFilters.thy ===== *)
theory SecurityFilters
  imports RustNet Core
begin

text \<open>
  Filters on untrusted text: the client address behind a trusted proxy (\<open>crates/ald-network/src/lib.rs\<close>),
  and the redaction of log lines, the check of outbound URLs, of health updates and of client builds
  (\<open>crates/ald-security\<close>).
\<close>

section \<open>Client addresses\<close>

text \<open>\<open>trim_matches(c)\<close> for one character.\<close>

definition trim_both :: "char \<Rightarrow> string \<Rightarrow> string" where
  "trim_both c s = trim_end_char c (dropWhile (\<lambda>x. x = c) s)"

definition normalize_ip :: "string \<Rightarrow> (ip_addr, ald_error) result" where
  "normalize_ip s =
     (let s1 = trim_both CHR 0x22 (trim s);
          s2 = trim (hd (split_on (\<lambda>c. c = CHR '','') s1)) in
      case parse_ip s2 of
        None \<Rightarrow> Err (InvalidArgument (''invalid ip: '' @ s2))
      | Some ip \<Rightarrow> Ok (canonicalize_ip ip))"

definition cidr_parse :: "string \<Rightarrow> (cidr, ald_error) result" where
  "cidr_parse s =
     (case split_once CHR ''/'' s of
        None \<Rightarrow> Err (InvalidArgument ''missing /prefix'')
      | Some (addr, pre) \<Rightarrow>
          (case parse_ip (trim addr) of
             None \<Rightarrow> Err (InvalidArgument (''bad cidr addr: '' @ addr))
           | Some base \<Rightarrow>
               (case parse_unsigned 255 (trim pre) of
                  None \<Rightarrow> Err (InvalidArgument ''bad prefix'')
                | Some n \<Rightarrow>
                    if (if is_ipv4 base then 32 else 128) < n then Err (InvalidArgument ''prefix out of range'')
                    else Ok \<lparr>cidr_base = base, prefix = of_int n\<rparr>)))"

definition resolve_client_ip :: "ip_addr \<Rightarrow> string option \<Rightarrow> cidr list \<Rightarrow> ip_addr" where
  "resolve_client_ip observed forwarded trusted =
     (if list_ex (\<lambda>c. cidr_contains c observed) trusted then
        (case forwarded of
           None \<Rightarrow> observed
         | Some fwd \<Rightarrow> (case normalize_ip fwd of Inl _ \<Rightarrow> observed | Inr ip \<Rightarrow> ip))
      else observed)"

section \<open>Redaction\<close>

text \<open>\<open>s.find(p)\<close> for a string pattern.\<close>

fun find_str :: "string \<Rightarrow> string \<Rightarrow> nat option" where
  "find_str [] p = (if p = [] then Some 0 else None)"
| "find_str (c # cs) p = (if starts_with (c # cs) p then Some 0 else map_option Suc (find_str cs p))"

definition REDACTED :: string where
  "REDACTED = ''***REDACTED***''"

definition patterns :: "(string \<times> string) list" where
  "patterns =
     [(''access_token'', REDACTED), (''refresh_token'', REDACTED), (''authorization'', REDACTED),
      (''session_cookie'', REDACTED), (''password'', REDACTED), (''db_password'', REDACTED), (''secret'', REDACTED),
      (''api_key'', REDACTED)]"

text \<open>The value after the first occurrence of \<open>kv\<close>, up to the next quote.\<close>

definition replace_value :: "string \<Rightarrow> string \<Rightarrow> string \<Rightarrow> string" where
  "replace_value kv replacement out =
     (case find_str out kv of
        None \<Rightarrow> out
      | Some pos \<Rightarrow>
          let start = pos + length kv in
          (case find_str (drop start out) [CHR 0x22] of
             None \<Rightarrow> out
           | Some n \<Rightarrow> take start out @ replacement @ drop (start + n) out))"

definition redact_key :: "string \<times> string \<Rightarrow> string \<Rightarrow> string" where
  "redact_key kr out =
     (let pat = (case strip_prefix (fst kr) [CHR 0x22] of Some stripped \<Rightarrow> stripped | None \<Rightarrow> fst kr) in
      replace_value (pat @ '': '' @ [CHR 0x22]) (snd kr) (replace_value (pat @ ''='' @ [CHR 0x22]) (snd kr) out))"

definition redact :: "string \<Rightarrow> string" where
  "redact line = foldl (\<lambda>out kr. redact_key kr out) line patterns"

section \<open>Outbound URLs\<close>

datatype ssrf_error = InvalidUrl string | DisallowedScheme string | BlockedHost string

definition is_blocked_ip :: "ip_addr \<Rightarrow> bool" where
  "is_blocked_ip ip =
     (case ip of
        V4 w \<Rightarrow>
          (let o0 = octets_of w ! 0; o1 = octets_of w ! 1 in
           if o0 = 127 then True
           else if o0 = 10 then True
           else if o0 = 172 \<and> 16 \<le> o1 \<and> o1 \<le> 31 then True
           else if o0 = 192 \<and> o1 = 168 then True
           else if o0 = 169 \<and> o1 = 254 then True
           else if o0 = 0 then True
           else False)
      | V6 w \<Rightarrow> w = 1)"

definition validate_host :: "string \<Rightarrow> (unit, ssrf_error) result" where
  "validate_host after_scheme =
     (let host = to_ascii_lowercase (hd (split_on (\<lambda>c. c \<in> {CHR ''/'', CHR ''?'', CHR ''#'', CHR '':''}) after_scheme)) in
      if host = ''localhost'' \<or> ends_with host ''.local'' \<or> ends_with host ''.internal'' then Err (BlockedHost host)
      else
        (case parse_ip host of
           None \<Rightarrow> Ok ()
         | Some ip \<Rightarrow> if is_blocked_ip ip then Err (BlockedHost (show_ip ip)) else Ok ()))"

definition validate_url :: "string \<Rightarrow> (unit, ssrf_error) result" where
  "validate_url url =
     (if \<not> starts_with url ''http://'' \<and> \<not> starts_with url ''https://'' then Err (DisallowedScheme url)
      else
        (case strip_prefix url ''https://'' of
           Some rest \<Rightarrow> validate_host rest
         | None \<Rightarrow>
             (case strip_prefix url ''http://'' of
                Some rest \<Rightarrow> validate_host rest
              | None \<Rightarrow> Err (InvalidUrl url))))"

section \<open>Health and builds\<close>

text \<open>The violation of a health update; those of movement carry numbers in floating point.\<close>

datatype health_violation = IllegalHealthModification u32 u32

definition verify_health_update :: "u32 \<Rightarrow> u32 \<Rightarrow> bool \<Rightarrow> (unit, health_violation) result" where
  "verify_health_update current incoming granted =
     (if current < incoming \<and> \<not> granted then Err (IllegalHealthModification current incoming) else Ok ())"

record integrity_verifier =
  allowed_hashes :: "(string, string) hmap"

definition verifier_new :: integrity_verifier where
  "verifier_new = \<lparr>allowed_hashes = []\<rparr>"

definition register_allowed_build :: "integrity_verifier \<Rightarrow> string \<Rightarrow> string \<Rightarrow> integrity_verifier" where
  "register_allowed_build v build hash = v\<lparr>allowed_hashes := hm_insert build hash (allowed_hashes v)\<rparr>"

definition verify_client_hash :: "integrity_verifier \<Rightarrow> string \<Rightarrow> string \<Rightarrow> bool" where
  "verify_client_hash v build hash =
     (case hm_get (allowed_hashes v) build of
        None \<Rightarrow> False
      | Some expected \<Rightarrow> to_ascii_lowercase expected = to_ascii_lowercase hash)"

section \<open>Printed addresses\<close>

lemma show_nat_is_digit: "c \<in> set (show_nat n) \<Longrightarrow> is_digit c"
  using show_nat_digits [of n] by (simp add: list_all_iff)

lemma join_with_chars: "c \<in> set (join_with sep xs) \<Longrightarrow> c \<in> set sep \<or> (\<exists>x \<in> set xs. c \<in> set x)"
  by (induction sep xs rule: join_with.induct) auto

lemma show_v4_chars: "c \<in> set (show_v4 w) \<Longrightarrow> is_digit c \<or> c = CHR ''.''"
  by (auto simp: show_v4_def dest!: join_with_chars show_nat_is_digit)

lemma v4_char_plain: "c \<in> set (show_v4 w) \<Longrightarrow>
  is_graphic c \<and> c \<noteq> CHR '','' \<and> c \<noteq> CHR 0x22 \<and> c \<noteq> CHR ''/'' \<and> c \<noteq> CHR ''?'' \<and> c \<noteq> CHR ''#'' \<and> c \<noteq> CHR '':'' \<and> \<not> is_upper c"
  using show_v4_chars [of c w] by (auto simp: is_graphic_def is_digit_def is_upper_def)

lemma show_v4_nonempty: "show_v4 w \<noteq> []"
proof
  assume "show_v4 w = []"
  moreover have "parse_ip [] = None" by code_simp
  ultimately show False using parse_show_v4 [of w] by simp
qed

lemma trim_show_v4 [simp]: "trim (show_v4 w) = show_v4 w"
  using show_v4_nonempty [of w] v4_char_plain [OF hd_in_set] v4_char_plain [OF last_in_set] by (intro trim_graphic) auto

section \<open>Whose address is believed\<close>

text \<open>Nothing that an untrusted peer forwards is used, and a trusted one is believed only if its text is an address.\<close>

lemma untrusted_ignored: "\<not> list_ex (\<lambda>c. cidr_contains c observed) trusted \<Longrightarrow> resolve_client_ip observed f trusted = observed"
  by (simp add: resolve_client_ip_def)

lemma resolve_sources:
  "resolve_client_ip observed f trusted = observed \<or>
   (\<exists>fwd. f = Some fwd \<and> normalize_ip fwd = Ok (resolve_client_ip observed f trusted) \<and>
      list_ex (\<lambda>c. cidr_contains c observed) trusted)"
  by (auto simp: resolve_client_ip_def split: option.splits sum.splits)

text \<open>An accepted address is in canonical form: an IPv4 address never stays wrapped in an IPv6 one.\<close>

lemma normalize_canonical: "normalize_ip s = Ok ip \<Longrightarrow> canonicalize_ip ip = ip"
proof -
  have "canonicalize_ip (canonicalize_ip x) = canonicalize_ip x" for x by (cases x) auto
  then show "normalize_ip s = Ok ip \<Longrightarrow> ?thesis" by (auto simp: normalize_ip_def Let_def split: option.splits)
qed

text \<open>
  Of a chain of hops the first one is taken. A proxy that appends to the header of its client thus passes on
  whatever address the client chose.
\<close>

lemma first_hop:
  assumes "rest \<noteq> []" "is_graphic (last rest)" "last rest \<noteq> CHR 0x22"
  shows "normalize_ip (show_ip (V4 a) @ '','' @ rest) = Ok (V4 a)"
proof -
  let ?t = "show_v4 a @ '','' @ rest"
  have h: "hd ?t = hd (show_v4 a)" "hd (show_v4 a) \<in> set (show_v4 a)" using show_v4_nonempty [of a] by simp_all
  have l: "last ?t = last rest" using assms(1) by simp
  have "trim ?t = ?t" using h l assms(2) v4_char_plain by (intro trim_graphic) auto
  moreover have "trim_both CHR 0x22 ?t = ?t"
  proof -
    have d: "t \<noteq> [] \<Longrightarrow> hd t \<noteq> c \<Longrightarrow> dropWhile (\<lambda>x. x = c) t = t" for c and t :: string by (cases t) auto
    have "dropWhile (\<lambda>x. x = CHR 0x22) ?t = ?t" using h v4_char_plain [OF h(2)] by (intro d) auto
    moreover have "hd (rev ?t) = last rest" using l hd_rev [of ?t] by (simp only:)
    then have "dropWhile (\<lambda>x. x = CHR 0x22) (rev ?t) = rev ?t" using assms(3) by (intro d) (simp_all del: rev_append)
    ultimately show ?thesis by (simp add: trim_both_def trim_end_char_def del: rev_append)
  qed
  moreover have "hd (split_on (\<lambda>c. c = CHR '','') ?t) = show_v4 a"
    using v4_char_plain [of _ a] split_on_sep [of "show_v4 a" "\<lambda>c. c = CHR '',''" "CHR '',''" rest] by auto
  ultimately show ?thesis using parse_show_v4 [of a] by (simp add: normalize_ip_def Let_def)
qed

lemma client_chooses_address:
  assumes "list_ex (\<lambda>c. cidr_contains c observed) trusted" "rest \<noteq> []" "is_graphic (last rest)" "last rest \<noteq> CHR 0x22"
  shows "resolve_client_ip observed (Some (show_ip (V4 a) @ '','' @ rest)) trusted = V4 a"
  using first_hop [OF assms(2-4), of a] assms(1) by (simp add: resolve_client_ip_def)

text \<open>A range is read back from its text.\<close>

lemma cidr_roundtrip:
  assumes "p \<le> 32"
  shows "cidr_parse (show_ip (V4 a) @ ''/'' @ show_nat (unat p)) = Ok \<lparr>cidr_base = V4 a, prefix = p\<rparr>"
proof -
  have n: "show_nat (unat p) \<noteq> []" "\<And>c. c \<in> set (show_nat (unat p)) \<Longrightarrow> is_graphic c"
    using show_nat_digits [of "unat p"] by (auto simp: list_all_iff is_digit_def is_graphic_def)
  have "trim (show_nat (unat p)) = show_nat (unat p)" using n by (intro trim_graphic) auto
  moreover have "parse_unsigned 255 (show_nat (unat p)) = Some (int (unat p))"
    using assms by (intro parse_show_nat) (simp add: word_le_def)
  moreover have "split_once CHR ''/'' (show_v4 a @ ''/'' @ show_nat (unat p)) = Some (show_v4 a, show_nat (unat p))"
    using v4_char_plain [of "CHR ''/''" a] split_once_append [of "CHR ''/''" "show_v4 a"] by auto
  ultimately show ?thesis
    using parse_show_v4 [of a] assms by (simp add: cidr_parse_def word_le_def)
qed

text \<open>An observed address is not unwrapped before the ranges are consulted.\<close>

lemma mapped_peer_untrusted:
  "\<not> cidr_contains \<lparr>cidr_base = V4 b, prefix = p\<rparr> (V6 (0xFFFF00000000 OR ucast b))"
  by (simp add: cidr_contains_def)

section \<open>Which URLs are refused\<close>

definition blocked_ranges :: "cidr list" where
  "blocked_ranges =
     [\<lparr>cidr_base = V4 0x7F000000, prefix = 8\<rparr>, \<lparr>cidr_base = V4 0x0A000000, prefix = 8\<rparr>,
      \<lparr>cidr_base = V4 0xAC100000, prefix = 12\<rparr>, \<lparr>cidr_base = V4 0xC0A80000, prefix = 16\<rparr>,
      \<lparr>cidr_base = V4 0xA9FE0000, prefix = 16\<rparr>, \<lparr>cidr_base = V4 0, prefix = 8\<rparr>]"

lemma octet_values:
  "octets_of w ! 0 = unat w div 2 ^ 24" "octets_of w ! 1 = unat w div 2 ^ 16 mod 256"
proof -
  have "unat w < 2 ^ 32" using unsigned_less [of w, where 'a = nat] by simp
  then have "unat w div 2 ^ 24 mod 256 = unat w div 2 ^ 24" by (simp add: less_mult_imp_div_less)
  then show "octets_of w ! 0 = unat w div 2 ^ 24"
    by (simp add: octets_of_def be_enc_nth unsigned_ucast_eq unsigned_drop_bit_eq take_bit_eq_mod drop_bit_eq_div unat_div_distrib)
  show "octets_of w ! 1 = unat w div 2 ^ 16 mod 256"
    by (simp add: octets_of_def be_enc_nth unsigned_ucast_eq unsigned_drop_bit_eq take_bit_eq_mod drop_bit_eq_div unat_div_distrib)
qed

text \<open>The tests on the octets are membership in the ranges that the comments name.\<close>

lemma blocked_is_ranges: "is_blocked_ip (V4 w) \<longleftrightarrow> list_ex (\<lambda>c. cidr_contains c (V4 w)) blocked_ranges"
proof -
  have take: "take_bit 32 (unat x) = unat x" for x :: u32
    using unsigned_less [of x, where 'a = nat] by (simp add: take_bit_nat_eq_self)
  have c: "cidr_contains \<lparr>cidr_base = V4 b, prefix = p\<rparr> (V4 w) \<longleftrightarrow> unat w div 2 ^ (32 - unat p) = unat b div 2 ^ (32 - unat p)"
    if "p \<le> 32" for b p
    using cidr_contains_prefix [of "\<lparr>cidr_base = V4 b, prefix = p\<rparr>" "V4 w"] that
    by (simp add: same_prefix_def word_unat_eq_iff unsigned_drop_bit_eq drop_bit_eq_div [where 'a = nat] take)
  define m where "m = unat w div 2 ^ 16"
  have d: "unat w div 2 ^ 24 = m div 256" "unat w div 2 ^ 20 = m div 16" by (simp_all add: m_def div_mult2_eq [symmetric])
  have octets: "octets_of w ! 0 = m div 256" "octets_of w ! 1 = m mod 256"
    unfolding octet_values d by (simp_all only: m_def)
  have split: "m = 256 * (m div 256) + m mod 256" "m mod 256 < 256" by simp_all
  have bytes: "(44048 \<le> x \<and> x < 44064) = (h = 172 \<and> 16 \<le> l \<and> l \<le> 31)" "x = 49320 \<longleftrightarrow> h = 192 \<and> l = 168"
    "x = 43518 \<longleftrightarrow> h = 169 \<and> l = 254" if "x = 256 * h + l" "l < 256" for x h l :: nat
    using that by (auto intro!: le_antisym) presburger+
  have "m div 16 = 2753 \<longleftrightarrow> 44048 \<le> m \<and> m < 44064" by auto
  then have p: "m div 16 = 2753 \<longleftrightarrow> m div 256 = 172 \<and> 16 \<le> m mod 256 \<and> m mod 256 \<le> 31"
    "m = 49320 \<longleftrightarrow> m div 256 = 192 \<and> m mod 256 = 168" "m = 43518 \<longleftrightarrow> m div 256 = 169 \<and> m mod 256 = 254"
    using bytes [OF split] by simp_all
  have "is_blocked_ip (V4 w) \<longleftrightarrow> m div 256 \<in> {127, 10, 0} \<or> m div 16 = 2753 \<or> m = 49320 \<or> m = 43518"
    by (simp only: is_blocked_ip_def ip_addr.case Let_def octets p insert_iff empty_iff) argo
  also have "\<dots> \<longleftrightarrow> list_ex (\<lambda>c. cidr_contains c (V4 w)) blocked_ranges"
    using d by (auto simp: blocked_ranges_def c m_def)
  finally show ?thesis .
qed

text \<open>A URL whose host is printed as one of those addresses is refused, whatever follows the host.\<close>

lemma private_hosts_refused:
  assumes "is_blocked_ip (V4 w)" "rest = [] \<or> hd rest \<in> {CHR ''/'', CHR ''?'', CHR ''#'', CHR '':''}"
  shows "\<not> is_ok (validate_url (''http://'' @ show_ip (V4 w) @ rest))" "\<not> is_ok (validate_url (''https://'' @ show_ip (V4 w) @ rest))"
proof -
  let ?sep = "\<lambda>c. c \<in> {CHR ''/'', CHR ''?'', CHR ''#'', CHR '':''}"
  have "hd (split_on ?sep (show_v4 w @ rest)) = show_v4 w"
  proof -
    have "takeWhile (\<lambda>c. \<not> ?sep c) (show_v4 w @ rest) = show_v4 w @ takeWhile (\<lambda>c. \<not> ?sep c) rest"
      using v4_char_plain by (intro takeWhile_append2) auto
    moreover have "takeWhile (\<lambda>c. \<not> ?sep c) rest = []" using assms(2) by (cases rest) auto
    ultimately show ?thesis by (simp only: hd_split_on append_Nil2)
  qed
  moreover have "to_ascii_lowercase (show_v4 w) = show_v4 w"
    unfolding to_ascii_lowercase_def using v4_char_plain by (intro map_idI) (simp add: lower_char_def)
  ultimately have "\<not> is_ok (validate_host (show_v4 w @ rest))"
    using parse_show_v4 [of w] assms(1) by (simp add: validate_host_def Let_def)
  then show "\<not> is_ok (validate_url (''http://'' @ show_ip (V4 w) @ rest))" "\<not> is_ok (validate_url (''https://'' @ show_ip (V4 w) @ rest))"
    by (simp_all add: validate_url_def strip_prefix_def starts_with_def)
qed

text \<open>But a user name before the host, an IPv6 literal, or a final dot hides it.\<close>

lemma private_hosts_pass:
  "validate_url ''http://user@127.0.0.1/'' = Ok ()" "validate_url ''http://[::1]/'' = Ok ()"
  "validate_url ''http://localhost./'' = Ok ()"
  by code_simp+

section \<open>What redaction covers\<close>

lemma find_str_Some: "find_str s p = Some n \<Longrightarrow> s = take n s @ p @ drop (n + length p) s"
proof (induction s p arbitrary: n rule: find_str.induct)
  case (2 c cs p)
  then show ?case
    by (auto simp: starts_with_def split: if_splits) (metis append_take_drop_id)
qed (auto split: if_splits)

lemma find_str_None: "find_str s p = None \<longleftrightarrow> \<not> contains_str s p"
  by (induction s p rule: find_str.induct) (auto simp: starts_with_def)

text \<open>A line without any of the keys is left as it is.\<close>

lemma redact_plain:
  assumes "\<forall>(k, r) \<in> set patterns. \<not> contains_str line (k @ ''='' @ [CHR 0x22]) \<and> \<not> contains_str line (k @ '': '' @ [CHR 0x22])"
  shows "redact line = line"
proof -
  have key: "redact_key kr line = line" if "kr \<in> set patterns" for kr
  proof -
    have "strip_prefix (fst kr) [CHR 0x22] = None"
      using that by (auto simp: patterns_def strip_prefix_def starts_with_def)
    moreover have "find_str line (fst kr @ ''='' @ [CHR 0x22]) = None" "find_str line (fst kr @ '': '' @ [CHR 0x22]) = None"
      using that assms find_str_None by (cases kr; fastforce)+
    ultimately show ?thesis by (simp add: redact_key_def replace_value_def)
  qed
  have "set ps \<subseteq> set patterns \<Longrightarrow> foldl (\<lambda>out kr. redact_key kr out) line ps = line" for ps
    by (induction ps) (auto simp: key)
  then show ?thesis by (simp add: redact_def)
qed

text \<open>The value of the first occurrence of a key is replaced; a second one is not.\<close>

lemma replace_value_first:
  assumes "find_str out kv = Some n" "CHR 0x22 \<notin> set v" "drop (n + length kv) out = v @ CHR 0x22 # post"
  shows "replace_value kv r out = take n out @ kv @ r @ CHR 0x22 # post"
proof -
  have "find_str (v @ CHR 0x22 # post) [CHR 0x22] = Some (length v)"
    using assms(2) by (induction v) (auto simp: starts_with_def)
  moreover have "take (n + length kv) out = take n out @ kv"
    using find_str_Some [OF assms(1)] assms(3)
    by (metis append_assoc append_eq_conv_conj append_take_drop_id length_append length_take min_def take_add)
  moreover have "drop (n + length kv + length v) out = CHR 0x22 # post"
    using arg_cong [OF assms(3), of "drop (length v)"] by (simp add: ac_simps)
  ultimately show ?thesis using assms(1,3) by (simp add: replace_value_def Let_def)
qed

lemma second_secret_leaks:
  "redact (''api_key='' @ [CHR 0x22] @ ''a'' @ [CHR 0x22] @ '' api_key='' @ [CHR 0x22] @ ''b'' @ [CHR 0x22]) =
   ''api_key='' @ [CHR 0x22] @ REDACTED @ [CHR 0x22] @ '' api_key='' @ [CHR 0x22] @ ''b'' @ [CHR 0x22]"
  "redact ''password=hunter2'' = ''password=hunter2''"
  by code_simp+

section \<open>Health and builds\<close>

lemma health_needs_grant: "is_ok (verify_health_update cur new granted) \<longleftrightarrow> new \<le> cur \<or> granted"
  by (auto simp: verify_health_update_def)

text \<open>Only the last registered hash of a build is accepted, in any case of its letters; an unknown build never is.\<close>

lemma build_accepted:
  "verify_client_hash (register_allowed_build v b h) b' x \<longleftrightarrow>
     (if b' = b then to_ascii_lowercase h = to_ascii_lowercase x else verify_client_hash v b' x)"
  "\<not> verify_client_hash verifier_new b' x"
  by (simp_all add: verify_client_hash_def register_allowed_build_def verifier_new_def hm_simps)

end
