(* ===== verification/Packages.thy ===== *)
theory Packages
  imports Extensions
begin

text \<open>
  Signed packages (\<open>crates/ald-package\<close>): the manifest, its canonical bytes, signatures and the hashes of the
  files. Ed25519 and the SHA-256 of the \<open>sha2\<close> crate are parameters.
\<close>

section \<open>Manifests\<close>

record file_hash =
  fh_path :: string
  fh_sha256_hex :: string
  fh_size :: u64

datatype protection_policy = Open | Signed | Protected | Private

record pkg_signature =
  algorithm :: string
  public_key_hex :: string
  signature_hex :: string

record package_manifest =
  package_id :: string
  publisher_id :: string
  pm_name :: string
  pm_version :: string
  pm_minimum_runtime :: string
  pm_framework :: "string option"
  pm_dependencies :: "string list"
  file_hashes :: "file_hash list"
  total_size :: u64
  protection :: protection_policy
  entitlement_model :: string
  signature :: pkg_signature

fun protection_str :: "protection_policy \<Rightarrow> string" where
  "protection_str Open = ''OPEN''"
| "protection_str Signed = ''SIGNED''"
| "protection_str Protected = ''PROTECTED''"
| "protection_str Private = ''PRIVATE''"

datatype package_error =
    MalformedPackage string
  | HashMismatch string string string
  | BadSignature string
  | MissingSignature string
  | UnsupportedAlgorithm string

section \<open>Canonical bytes\<close>

text \<open>A field and the zero byte after it.\<close>

definition field0 :: "string \<Rightarrow> bytes" where
  "field0 s = str_bytes s @ [0]"

definition hash_fields :: "file_hash \<Rightarrow> string list" where
  "hash_fields f = [fh_path f, fh_sha256_hex f, show_nat (unat (fh_size f))]"

definition canonical_manifest_bytes :: "package_manifest \<Rightarrow> bytes" where
  "canonical_manifest_bytes m =
     field0 (package_id m) @ field0 (publisher_id m) @ field0 (pm_name m) @ field0 (pm_version m) @
     field0 (pm_minimum_runtime m) @ field0 (case pm_framework m of None \<Rightarrow> [] | Some f \<Rightarrow> f) @
     concat (map field0 (pm_dependencies m)) @
     concat (map (\<lambda>f. concat (map field0 (hash_fields f))) (file_hashes m)) @
     field0 (show_nat (unat (total_size m))) @ field0 (protection_str (protection m)) @ str_bytes (entitlement_model m)"

section \<open>Signatures\<close>

text \<open>This crate's copies of the hexadecimal coders.\<close>

definition pkg_hex_encode :: "bytes \<Rightarrow> string" where
  "pkg_hex_encode bs = hex_encode bs"

definition pkg_hex_decode :: "string \<Rightarrow> bytes option" where
  "pkg_hex_decode s = hex_decode s"

definition hex_decode_fixed :: "nat \<Rightarrow> string \<Rightarrow> bytes option" where
  "hex_decode_fixed n s =
     (case pkg_hex_decode s of None \<Rightarrow> None | Some v \<Rightarrow> if length v \<noteq> n then None else Some v)"

definition ALGO :: string where
  "ALGO = ''ed25519''"

text \<open>A key pair, as the library offers it: the public bytes and the signature of a message.\<close>

record signing_key =
  verifying_key :: bytes
  sign_bytes :: "bytes \<Rightarrow> bytes"

definition sign_message :: "signing_key \<Rightarrow> bytes \<Rightarrow> pkg_signature" where
  "sign_message k msg =
     \<lparr>algorithm = ALGO, public_key_hex = pkg_hex_encode (verifying_key k), signature_hex = pkg_hex_encode (sign_bytes k msg)\<rparr>"

definition verify_signature :: "ed25519 \<Rightarrow> pkg_signature \<Rightarrow> string \<Rightarrow> bytes \<Rightarrow> (unit, package_error) result" where
  "verify_signature ed s pid msg =
     (if algorithm s \<noteq> ALGO then Err (UnsupportedAlgorithm (algorithm s))
      else
        (case hex_decode_fixed 32 (public_key_hex s) of
           None \<Rightarrow> Err (MalformedPackage ''public key'')
         | Some pk \<Rightarrow>
             (case hex_decode_fixed 64 (signature_hex s) of
                None \<Rightarrow> Err (MalformedPackage ''signature'')
              | Some sg \<Rightarrow>
                  if \<not> key_accepted ed pk then Err (MalformedPackage ''public key'')
                  else if ed_verify ed pk msg sg then Ok ()
                  else Err (BadSignature pid))))"

section \<open>Verification\<close>

definition sha256_hex :: "(bytes \<Rightarrow> bytes) \<Rightarrow> bytes \<Rightarrow> string" where
  "sha256_hex sha data = pkg_hex_encode (sha data)"

fun verify_hashes :: "(bytes \<Rightarrow> bytes) \<Rightarrow> (string, bytes) hmap \<Rightarrow> file_hash list \<Rightarrow> (unit, package_error) result" where
  "verify_hashes sha payloads [] = Ok ()"
| "verify_hashes sha payloads (f # fs) =
     (case hm_get payloads (fh_path f) of
        None \<Rightarrow> Err (MalformedPackage (''missing payload '' @ [CHR 0x27] @ fh_path f @ [CHR 0x27]))
      | Some data \<Rightarrow>
          let actual = sha256_hex sha data in
          if actual \<noteq> fh_sha256_hex f then Err (HashMismatch (fh_path f) (fh_sha256_hex f) actual)
          else verify_hashes sha payloads fs)"

definition verify_payloads :: "(bytes \<Rightarrow> bytes) \<Rightarrow> package_manifest \<Rightarrow> (string, bytes) hmap \<Rightarrow> (unit, package_error) result" where
  "verify_payloads sha m payloads = verify_hashes sha payloads (file_hashes m)"

definition verify_package ::
  "ed25519 \<Rightarrow> (bytes \<Rightarrow> bytes) \<Rightarrow> package_manifest \<Rightarrow> (string, bytes) hmap \<Rightarrow> (unit, package_error) result" where
  "verify_package ed sha m payloads =
     (case (case protection m of
              Open \<Rightarrow> Ok ()
            | _ \<Rightarrow> verify_signature ed (signature m) (package_id m) (canonical_manifest_bytes m)) of
        Inl e \<Rightarrow> Err e
      | Inr _ \<Rightarrow> verify_payloads sha m payloads)"

section \<open>What is verified\<close>

lemma verify_hashes_ok:
  "verify_hashes sha payloads fs = Ok () \<longleftrightarrow>
   (\<forall>f \<in> set fs. \<exists>data. hm_get payloads (fh_path f) = Some data \<and> sha256_hex sha data = fh_sha256_hex f)"
  by (induction fs) (auto simp: Let_def split: option.splits)

text \<open>
  A package passes exactly if every listed file is there with its hash and, unless the manifest says that
  the package is open, its own key verifies the signature over the canonical bytes.
\<close>

lemma verify_package_ok:
  "verify_package ed sha m payloads = Ok () \<longleftrightarrow>
   (protection m = Open \<or>
      (algorithm (signature m) = ALGO \<and>
       (\<exists>pk sg. hex_decode_fixed 32 (public_key_hex (signature m)) = Some pk \<and>
          hex_decode_fixed 64 (signature_hex (signature m)) = Some sg \<and>
          key_accepted ed pk \<and> ed_verify ed pk (canonical_manifest_bytes m) sg))) \<and>
   (\<forall>f \<in> set (file_hashes m). \<exists>data. hm_get payloads (fh_path f) = Some data \<and> sha256_hex sha data = fh_sha256_hex f)"
proof -
  have s: "verify_signature ed s pid msg = Ok () \<longleftrightarrow> algorithm s = ALGO \<and>
      (\<exists>pk sg. hex_decode_fixed 32 (public_key_hex s) = Some pk \<and> hex_decode_fixed 64 (signature_hex s) = Some sg \<and>
        key_accepted ed pk \<and> ed_verify ed pk msg sg)" for s pid msg
    by (auto simp: verify_signature_def split: option.splits)
  show ?thesis
    using s [of "signature m" "package_id m" "canonical_manifest_bytes m"]
    by (cases "protection m"; cases "verify_signature ed (signature m) (package_id m) (canonical_manifest_bytes m)")
      (simp_all add: verify_package_def verify_payloads_def verify_hashes_ok)
qed

text \<open>A package signed by a key whose signatures verify passes with its files.\<close>

lemma signed_verifies:
  assumes "length (verifying_key k) = 32" "length (sign_bytes k (canonical_manifest_bytes m)) = 64"
    and "key_accepted ed (verifying_key k)"
    and "ed_verify ed (verifying_key k) (canonical_manifest_bytes m) (sign_bytes k (canonical_manifest_bytes m))"
    and "verify_payloads sha m payloads = Ok ()"
  shows "verify_package ed sha (m\<lparr>signature := sign_message k (canonical_manifest_bytes m)\<rparr>) payloads = Ok ()"
proof -
  have "canonical_manifest_bytes (m\<lparr>signature := s\<rparr>) = canonical_manifest_bytes m" for s
    by (simp add: canonical_manifest_bytes_def)
  moreover have h: "hex_decode_fixed (length bs) (pkg_hex_encode bs) = Some bs" for bs
    by (simp add: hex_decode_fixed_def pkg_hex_decode_def pkg_hex_encode_def hex_roundtrip)
  have "hex_decode_fixed 32 (pkg_hex_encode (verifying_key k)) = Some (verifying_key k)"
    "hex_decode_fixed 64 (pkg_hex_encode (sign_bytes k (canonical_manifest_bytes m))) = Some (sign_bytes k (canonical_manifest_bytes m))"
    using h [of "verifying_key k"] h [of "sign_bytes k (canonical_manifest_bytes m)"] assms(1,2) by simp_all
  ultimately show ?thesis
    using assms(3,4) assms(5) [unfolded verify_payloads_def verify_hashes_ok] by (simp add: verify_package_ok sign_message_def)
qed

section \<open>What the signature covers\<close>

definition signed_fields :: "package_manifest \<Rightarrow> string list" where
  "signed_fields m =
     [package_id m, publisher_id m, pm_name m, pm_version m, pm_minimum_runtime m, (case pm_framework m of None \<Rightarrow> [] | Some f \<Rightarrow> f)] @
     pm_dependencies m @ concat (map hash_fields (file_hashes m)) @
     [show_nat (unat (total_size m)), protection_str (protection m)]"

lemma concat_fields: "concat (map field0 (concat (map hash_fields fs))) = concat (map (\<lambda>f. concat (map field0 (hash_fields f))) fs)"
  by (induction fs) auto

lemma canonical_fields: "canonical_manifest_bytes m = concat (map field0 (signed_fields m)) @ str_bytes (entitlement_model m)"
  by (simp add: canonical_manifest_bytes_def signed_fields_def concat_fields)

definition nul_free :: "string \<Rightarrow> bool" where
  "nul_free s \<longleftrightarrow> 0 \<notin> set (str_bytes s)"

lemma first_separator: "z \<notin> set as \<Longrightarrow> z \<notin> set bs \<Longrightarrow> as @ z # r = bs @ z # q \<Longrightarrow> as = bs \<and> r = q"
proof (induction as arbitrary: bs)
  case Nil
  then show ?case by (cases bs) auto
next
  case (Cons a as)
  then show ?case by (cases bs) auto
qed

lemma fields_unique:
  "\<lbrakk>\<forall>x \<in> set xs. nul_free x; \<forall>y \<in> set ys. nul_free y; nul_free a; nul_free b;
    concat (map field0 xs) @ str_bytes a = concat (map field0 ys) @ str_bytes b\<rbrakk> \<Longrightarrow> xs = ys \<and> a = b"
proof (induction xs arbitrary: ys)
  case Nil
  show ?case
  proof (cases ys)
    case (Cons y ys')
    then have "0 \<in> set (str_bytes a)" using Nil.prems(5) by (simp add: field0_def)
    then show ?thesis using Nil.prems(3) by (simp add: nul_free_def)
  qed (use Nil.prems str_bytes_inj in auto)
next
  case (Cons x xs)
  show ?case
  proof (cases ys)
    case Nil
    then have "0 \<in> set (str_bytes b)" using arg_cong [OF Cons.prems(5), of set] by (auto simp: field0_def)
    then show ?thesis using Cons.prems(4) by (simp add: nul_free_def)
  next
    case ys: (Cons y ys')
    have "str_bytes x @ 0 # (concat (map field0 xs) @ str_bytes a) = str_bytes y @ 0 # (concat (map field0 ys') @ str_bytes b)"
      using Cons.prems(5) field0_def [of x] field0_def [of y] by (simp add: ys)
    moreover have "0 \<notin> set (str_bytes x)" "0 \<notin> set (str_bytes y)" using Cons.prems(1,2) ys by (auto simp: nul_free_def)
    ultimately have "str_bytes x = str_bytes y" "concat (map field0 xs) @ str_bytes a = concat (map field0 ys') @ str_bytes b"
      using first_separator by metis+
    then show ?thesis using Cons.IH [of ys'] Cons.prems(1-4) ys str_bytes_inj by auto
  qed
qed

lemma show_nat_inj: "show_nat a = show_nat b \<Longrightarrow> a = b"
  by (metis show_nat_digits of_nat_eq_iff)

lemma hash_fields_inj: "hash_fields f = hash_fields g \<Longrightarrow> f = g"
  by (cases f; cases g) (auto simp: hash_fields_def word_unat_eq_iff dest!: show_nat_inj)

lemma hash_list_inj: "concat (map hash_fields fs) = concat (map hash_fields gs) \<Longrightarrow> fs = gs"
proof (induction fs arbitrary: gs)
  case Nil
  then show ?case by (cases gs) (auto simp: hash_fields_def)
next
  case (Cons f fs)
  then obtain g gs' where gs: "gs = g # gs'" by (cases gs) (auto simp: hash_fields_def)
  have "length (hash_fields f) = length (hash_fields g)" by (simp add: hash_fields_def)
  then have "hash_fields f = hash_fields g" "concat (map hash_fields fs) = concat (map hash_fields gs')"
    using Cons.prems gs by simp_all
  then show ?case using Cons.IH hash_fields_inj gs by blast
qed

lemma protection_str_inj: "protection_str a = protection_str b \<Longrightarrow> a = b"
  by (cases a; cases b) auto

text \<open>
  Between manifests without zero bytes and with the same number of dependencies the canonical bytes determine
  every field but the signature; an absent framework and an empty one are the same.
\<close>

lemma canonical_injective:
  assumes "canonical_manifest_bytes m = canonical_manifest_bytes m'"
    and "\<forall>x \<in> set (signed_fields m). nul_free x" "\<forall>x \<in> set (signed_fields m'). nul_free x"
    and "nul_free (entitlement_model m)" "nul_free (entitlement_model m')"
    and "length (pm_dependencies m) = length (pm_dependencies m')"
  shows "package_id m = package_id m' \<and> publisher_id m = publisher_id m' \<and> pm_name m = pm_name m' \<and>
    pm_version m = pm_version m' \<and> pm_minimum_runtime m = pm_minimum_runtime m' \<and>
    pm_dependencies m = pm_dependencies m' \<and> file_hashes m = file_hashes m' \<and> total_size m = total_size m' \<and>
    protection m = protection m' \<and> entitlement_model m = entitlement_model m'"
proof -
  have f: "signed_fields m = signed_fields m'" "entitlement_model m = entitlement_model m'"
    using fields_unique [OF assms(2-5)] assms(1) by (simp_all add: canonical_fields)
  have rest: "pm_dependencies m = pm_dependencies m'"
    "concat (map hash_fields (file_hashes m)) @ [show_nat (unat (total_size m)), protection_str (protection m)] =
     concat (map hash_fields (file_hashes m')) @ [show_nat (unat (total_size m')), protection_str (protection m')]"
    using f(1) assms(6) by (simp_all add: signed_fields_def)
  then have "concat (map hash_fields (file_hashes m)) = concat (map hash_fields (file_hashes m'))"
    "show_nat (unat (total_size m)) = show_nat (unat (total_size m'))" "protection_str (protection m) = protection_str (protection m')"
    by auto
  then show ?thesis
    using f rest(1) hash_list_inj protection_str_inj show_nat_inj by (auto simp: signed_fields_def word_unat_eq_iff)
qed

text \<open>
  The number of dependencies is not part of the bytes. The hashes of a signed manifest can be moved into its
  dependencies: the signature stays valid, and whatever files come with it pass.
\<close>

definition strip_hashes :: "package_manifest \<Rightarrow> package_manifest" where
  "strip_hashes m = m\<lparr>pm_dependencies := pm_dependencies m @ concat (map hash_fields (file_hashes m)), file_hashes := []\<rparr>"

lemma strip_hashes_canonical: "canonical_manifest_bytes (strip_hashes m) = canonical_manifest_bytes m"
  by (simp add: canonical_fields signed_fields_def strip_hashes_def)

lemma hashes_can_be_stripped:
  assumes "verify_package ed sha m payloads = Ok ()"
  shows "verify_package ed sha (strip_hashes m) anything = Ok ()"
  using assms strip_hashes_canonical [of m] by (auto simp: verify_package_ok strip_hashes_def)

text \<open>A manifest that calls itself open needs no signature at all.\<close>

lemma open_needs_no_signature:
  "verify_payloads sha m payloads = Ok () \<Longrightarrow> verify_package ed sha (m\<lparr>protection := Open\<rparr>) payloads = Ok ()"
  by (simp add: verify_package_def verify_payloads_def)

end
