(* ===== verification/PackageScan.thy ===== *)
theory PackageScan
  imports RustStrings Msgpack Packages
begin

text \<open>
  The package scanner (\<open>crates/ald-package-scanner\<close>): the registry of reputations and revocations, the
  findings of a scan, its score and its verdict.
\<close>

section \<open>Data\<close>

datatype severity = Info | Low | Medium | High | Critical

datatype finding_category =
    NativeExtension | SandboxViolation | Obfuscation | ExcessiveCapability | RevokedEntity | MetadataAnomaly

record finding =
  category :: finding_category
  severity_of :: severity
  message :: string
  file_path :: "string option"

datatype publisher_reputation = Blacklisted | Suspicious | Standard | Verified | Trusted

datatype scan_verdict = Approved | FlaggedForReview | Quarantined | Rejected

record scan_report =
  rep_package_id :: string
  rep_publisher_id :: string
  risk_score :: u32
  findings :: "finding list"
  verdict :: scan_verdict

section \<open>The authority\<close>

record reputation_authority =
  publishers :: "(string, publisher_reputation) hmap"
  revoked_packages :: "string set"
  revoked_keys :: "string set"

definition authority_new :: reputation_authority where
  "authority_new = \<lparr>publishers = [], revoked_packages = {}, revoked_keys = {}\<rparr>"

definition set_publisher_reputation :: "reputation_authority \<Rightarrow> string \<Rightarrow> publisher_reputation \<Rightarrow> reputation_authority" where
  "set_publisher_reputation a p r = a\<lparr>publishers := hm_insert p r (publishers a)\<rparr>"

definition get_publisher_reputation :: "reputation_authority \<Rightarrow> string \<Rightarrow> publisher_reputation" where
  "get_publisher_reputation a p = hm_get_or Standard (publishers a) p"

definition revoke_package :: "reputation_authority \<Rightarrow> string \<Rightarrow> reputation_authority" where
  "revoke_package a p = a\<lparr>revoked_packages := insert p (revoked_packages a)\<rparr>"

definition is_package_revoked :: "reputation_authority \<Rightarrow> string \<Rightarrow> bool" where
  "is_package_revoked a p \<longleftrightarrow> p \<in> revoked_packages a"

definition revoke_key :: "reputation_authority \<Rightarrow> string \<Rightarrow> reputation_authority" where
  "revoke_key a k = a\<lparr>revoked_keys := insert k (revoked_keys a)\<rparr>"

definition is_key_revoked :: "reputation_authority \<Rightarrow> string \<Rightarrow> bool" where
  "is_key_revoked a k \<longleftrightarrow> k \<in> revoked_keys a"

record scanner_config =
  max_risk_score_for_approval :: u32
  flag_threshold :: u32
  quarantine_threshold :: u32
  allow_native_extensions :: bool

definition scanner_config_default :: scanner_config where
  "scanner_config_default =
     \<lparr>max_risk_score_for_approval = 20, flag_threshold = 40, quarantine_threshold = 75, allow_native_extensions = False\<rparr>"

record package_scanner =
  sc_config :: scanner_config
  authority :: reputation_authority

record file_entry =
  fe_path :: string
  content :: bytes

section \<open>Files\<close>

definition quote :: "string \<Rightarrow> string" where
  "quote s = [CHR 0x27] @ s @ [CHR 0x27]"

definition native_extensions :: "string list" where
  "native_extensions = [''.dll'', ''.so'', ''.dylib'', ''.exe'', ''.bin'', ''.elf'']"

definition scan_file_path :: "scanner_config \<Rightarrow> string \<Rightarrow> finding list" where
  "scan_file_path cfg path =
     (if list_ex (ends_with (to_ascii_lowercase path)) native_extensions
      then [\<lparr>category = NativeExtension, severity_of = (if allow_native_extensions cfg then Low else Critical),
             message = ''Found native binary file '' @ quote path, file_path = Some path\<rparr>]
      else [])"

definition is_script :: "string \<Rightarrow> bool" where
  "is_script path \<longleftrightarrow> list_ex (ends_with path) [''.lua'', ''.js'', ''.ts'', ''.toml'', ''.json'']"

definition dangerous_tokens :: "(string \<times> string \<times> severity) list" where
  "dangerous_tokens =
     [(''os.execute'', ''Direct OS shell execution call'', High), (''io.popen'', ''Process spawn via popen'', High),
      (''package.loadlib'', ''Dynamic C library loader'', High),
      (''child_process'', ''Node child_process execution'', High),
      (''setfenv'', ''Lua environment tampering attempt'', Medium),
      (''loadstring('', ''Dynamic arbitrary string evaluation'', Medium)]"

text \<open>\<open>text.matches(token).count()\<close>: occurrences from left to right that do not overlap; \<open>skip\<close> bytes are inside one.\<close>

fun count_matches :: "nat \<Rightarrow> string \<Rightarrow> string \<Rightarrow> nat" where
  "count_matches skip token [] = 0"
| "count_matches (Suc k) token (c # cs) = count_matches k token cs"
| "count_matches 0 token (c # cs) =
     (if starts_with (c # cs) token then Suc (count_matches (length token - 1) token cs)
      else count_matches 0 token cs)"

text \<open>\<open>split_whitespace\<close>: the non-empty pieces between whitespace characters; \<open>w\<close> is the current piece, reversed.\<close>

function split_ws :: "string \<Rightarrow> string \<Rightarrow> string list" where
  "split_ws w [] = (if w = [] then [] else [rev w])"
| "split_ws w (c # cs) =
     (case strip_one ws_seqs (c # cs) of
        Some t \<Rightarrow> (if w = [] then [] else [rev w]) @ split_ws [] t
      | None \<Rightarrow> split_ws (c # w) cs)"
  by pat_completeness auto
termination
  by (relation "measure (\<lambda>(w, s). length s)") (auto dest: strip_one_shorter)

declare split_ws.simps [simp del]

definition is_wrapping :: "char \<Rightarrow> bool" where
  "is_wrapping c \<longleftrightarrow> c \<in> {CHR 0x27, CHR 0x22, CHR 0x60, CHR ''('', CHR '')'', CHR '';'', CHR '','', CHR ''['', CHR '']''}"

definition unwrap_word :: "string \<Rightarrow> string" where
  "unwrap_word s = rev (dropWhile is_wrapping (rev (dropWhile is_wrapping s)))"

definition is_b64 :: "string \<Rightarrow> bool" where
  "is_b64 s \<longleftrightarrow> list_all (\<lambda>c. is_alnum c \<or> c = CHR ''+'' \<or> c = CHR ''/'' \<or> c = CHR ''='') s"

fun find_encoded :: "string list \<Rightarrow> nat option" where
  "find_encoded [] = None"
| "find_encoded (w # ws) =
     (let t = unwrap_word w in if 300 < length t \<and> is_b64 t then Some (length t) else find_encoded ws)"

definition str_of :: "bytes \<Rightarrow> string" where
  "str_of bs = map (\<lambda>b. char_of (unat b)) bs"

definition token_findings :: "string \<Rightarrow> string \<Rightarrow> finding list" where
  "token_findings path text =
     concat (map (\<lambda>(token, msg, sev).
       replicate (min (count_matches 0 token text) 5)
         \<lparr>category = SandboxViolation, severity_of = sev, message = msg, file_path = Some path\<rparr>) dangerous_tokens)"

definition encoded_finding :: "string \<Rightarrow> string \<Rightarrow> finding list" where
  "encoded_finding path text =
     (case find_encoded (split_ws [] text) of
        None \<Rightarrow> []
      | Some n \<Rightarrow>
          [\<lparr>category = Obfuscation, severity_of = Medium,
            message = ''Suspicious high-length encoded string literal (len: '' @ show_nat n @ '')'', file_path = Some path\<rparr>])"

definition scan_file_content :: "string \<Rightarrow> bytes \<Rightarrow> finding list" where
  "scan_file_content path bs =
     (if \<not> is_script path then []
      else if \<not> utf8_valid bs
      then [\<lparr>category = Obfuscation, severity_of = Medium, message = ''Non-UTF-8 bytes inside script source file'',
             file_path = Some path\<rparr>]
      else token_findings path (str_of bs) @ encoded_finding path (str_of bs))"

section \<open>The scan\<close>

definition entity_findings :: "package_scanner \<Rightarrow> package_manifest \<Rightarrow> finding list" where
  "entity_findings s m =
     (let f = (\<lambda>cat sev msg. \<lparr>category = cat, severity_of = sev, message = msg, file_path = None\<rparr>);
          rep = get_publisher_reputation (authority s) (publisher_id m) in
      (if is_package_revoked (authority s) (package_id m)
       then [f RevokedEntity Critical (''Package ID '' @ quote (package_id m) @ '' is on the revocation list'')] else []) @
      (if rep = Blacklisted then [f RevokedEntity Critical (''Publisher '' @ quote (publisher_id m) @ '' is blacklisted'')]
       else if rep = Suspicious
       then [f RevokedEntity High (''Publisher '' @ quote (publisher_id m) @ '' has suspicious reputation'')] else []) @
      (if is_key_revoked (authority s) (public_key_hex (signature m))
       then [f RevokedEntity Critical (''Signature key '' @ quote (public_key_hex (signature m)) @ '' is revoked'')] else []) @
      (if trim (package_id m) = [] then [f MetadataAnomaly High ''Empty package ID''] else []))"

definition scan_findings :: "package_scanner \<Rightarrow> package_manifest \<Rightarrow> file_entry list \<Rightarrow> finding list" where
  "scan_findings s m files =
     entity_findings s m @
     concat (map (\<lambda>f. scan_file_path (sc_config s) (fe_path f) @ scan_file_content (fe_path f) (content f)) files)"

fun points :: "severity \<Rightarrow> u32" where
  "points Info = 0"
| "points Low = 5"
| "points Medium = 15"
| "points High = 35"
| "points Critical = 80"

text \<open>\<open>saturating_add\<close>.\<close>

definition sat_add32 :: "u32 \<Rightarrow> u32 \<Rightarrow> u32" where
  "sat_add32 a b = (if unat a + unat b < 2 ^ 32 then a + b else - 1)"

definition base_score :: "finding list \<Rightarrow> u32" where
  "base_score fs =
     (let r = foldl (\<lambda>acc f. sat_add32 acc (points (severity_of f))) 0 fs in if 100 < r then 100 else r)"

definition has_critical :: "finding list \<Rightarrow> bool" where
  "has_critical fs \<longleftrightarrow> list_ex (\<lambda>f. severity_of f = Critical) fs"

definition final_score :: "publisher_reputation \<Rightarrow> finding list \<Rightarrow> u32" where
  "final_score rep fs =
     (if has_critical fs then base_score fs
      else if rep = Trusted then sat_sub (base_score fs) 15
      else if rep = Verified then sat_sub (base_score fs) 5
      else base_score fs)"

definition decide :: "scanner_config \<Rightarrow> bool \<Rightarrow> bool \<Rightarrow> u32 \<Rightarrow> scan_verdict" where
  "decide cfg critical refused risk =
     (if critical \<or> quarantine_threshold cfg \<le> risk then (if refused then Rejected else Quarantined)
      else if flag_threshold cfg \<le> risk then FlaggedForReview
      else if risk \<le> max_risk_score_for_approval cfg then Approved
      else FlaggedForReview)"

definition scan :: "package_scanner \<Rightarrow> package_manifest \<Rightarrow> file_entry list \<Rightarrow> scan_report" where
  "scan s m files =
     (let fs = scan_findings s m files;
          rep = get_publisher_reputation (authority s) (publisher_id m);
          risk = final_score rep fs in
      \<lparr>rep_package_id = package_id m, rep_publisher_id = publisher_id m, risk_score = risk, findings = fs,
       verdict = decide (sc_config s) (has_critical fs)
         (rep = Blacklisted \<or> is_package_revoked (authority s) (package_id m)) risk\<rparr>)"

section \<open>The score\<close>

definition total_points :: "finding list \<Rightarrow> nat" where
  "total_points fs = sum_list (map (\<lambda>f. unat (points (severity_of f))) fs)"

lemma sat_add32_nat: "unat (sat_add32 a b) = min (unat a + unat b) (2 ^ 32 - 1)"
  using unsigned_less [of a, where 'a = nat] unsigned_less [of b, where 'a = nat]
  by (auto simp: sat_add32_def unat_word_ariths unsigned_minus_1_eq_mask mask_eq_exp_minus_1 min_def)

text \<open>The score of the findings is their sum, at most one hundred.\<close>

lemma base_score_nat: "unat (base_score fs) = min (total_points fs) 100"
proof -
  have "unat (foldl (\<lambda>acc f. sat_add32 acc (points (severity_of f))) a fs) = min (unat a + total_points fs) (2 ^ 32 - 1)" for a
    using unsigned_less [of a, where 'a = nat]
    by (induction fs arbitrary: a) (auto simp: total_points_def sat_add32_nat min_def)
  from this [of 0] show ?thesis
    by (auto simp: base_score_def Let_def word_less_nat_alt min_def)
qed

lemma score_bounded: "risk_score (scan s m files) \<le> 100"
proof -
  have "final_score r fs \<le> base_score fs" for r fs
    by (auto simp: final_score_def sat_sub_def word_le_nat_alt unat_sub)
  moreover have "base_score fs \<le> 100" for fs using base_score_nat [of fs] by (simp add: word_le_nat_alt)
  ultimately show ?thesis unfolding scan_def Let_def by (auto intro: order_trans)
qed

section \<open>The verdict\<close>

lemma has_critical_simps:
  "has_critical (xs @ ys) \<longleftrightarrow> has_critical xs \<or> has_critical ys"
  "has_critical (concat (map f zs)) \<longleftrightarrow> (\<exists>z \<in> set zs. has_critical (f z))"
  by (auto simp: has_critical_def list_ex_iff)

lemma entity_critical:
  "has_critical (entity_findings s m) \<longleftrightarrow>
     is_package_revoked (authority s) (package_id m) \<or> get_publisher_reputation (authority s) (publisher_id m) = Blacklisted \<or>
     is_key_revoked (authority s) (public_key_hex (signature m))"
  by (simp add: has_critical_def entity_findings_def Let_def)

lemma path_critical:
  "has_critical (scan_file_path cfg p) \<longleftrightarrow>
     \<not> allow_native_extensions cfg \<and> list_ex (ends_with (to_ascii_lowercase p)) native_extensions"
  by (simp add: has_critical_def scan_file_path_def)

text \<open>Nothing in the text of a script is critical: only the entities and the names of the files are.\<close>

lemma content_not_critical: "\<not> has_critical (scan_file_content p bs)"
  by (auto simp: has_critical_def list_ex_iff scan_file_content_def token_findings_def encoded_finding_def dangerous_tokens_def
      split: option.splits if_splits)

lemma scan_critical:
  "has_critical (scan_findings s m files) \<longleftrightarrow>
     has_critical (entity_findings s m) \<or> (\<exists>f \<in> set files. has_critical (scan_file_path (sc_config s) (fe_path f)))"
  by (simp add: scan_findings_def has_critical_simps content_not_critical)

text \<open>A revoked package and the package of a blacklisted publisher are rejected.\<close>

lemma revoked_rejected:
  assumes "is_package_revoked (authority s) (package_id m) \<or> get_publisher_reputation (authority s) (publisher_id m) = Blacklisted"
  shows "verdict (scan s m files) = Rejected"
proof -
  have "has_critical (scan_findings s m files)"
    using assms by (auto simp: scan_critical entity_critical)
  then show ?thesis using assms by (auto simp: scan_def decide_def Let_def)
qed

text \<open>So are kept back: a package signed with a revoked key, and one with a native binary that is not allowed.\<close>

lemma never_approved:
  assumes "is_key_revoked (authority s) (public_key_hex (signature m)) \<or>
    (\<not> allow_native_extensions (sc_config s) \<and>
     (\<exists>f \<in> set files. list_ex (ends_with (to_ascii_lowercase (fe_path f))) native_extensions))"
  shows "verdict (scan s m files) \<in> {Quarantined, Rejected}"
proof -
  have "has_critical (scan_findings s m files)"
    using assms by (auto simp: scan_critical entity_critical path_critical)
  then show ?thesis by (auto simp: scan_def decide_def Let_def)
qed

text \<open>
  Approval means: nothing critical, and a score, after the discount of the publisher, that is below both
  thresholds and within the limit.
\<close>

lemma approved_iff:
  "verdict (scan s m files) = Approved \<longleftrightarrow>
   \<not> has_critical (scan_findings s m files) \<and>
   risk_score (scan s m files) < quarantine_threshold (sc_config s) \<and>
   risk_score (scan s m files) < flag_threshold (sc_config s) \<and>
   risk_score (scan s m files) \<le> max_risk_score_for_approval (sc_config s)"
  by (auto simp: scan_def decide_def Let_def not_le)

text \<open>More findings never lower the score, and a finding in any file raises it in proportion.\<close>

lemma total_points_append: "total_points (xs @ ys) = total_points xs + total_points ys"
  by (simp add: total_points_def)

lemma more_files_more_points: "total_points (scan_findings s m files) \<le> total_points (scan_findings s m (files @ others))"
  by (simp add: scan_findings_def total_points_append)

text \<open>
  The extension of a script is compared with its letters as they are, that of a binary in lower case. A
  script named in capitals is therefore not read at all.
\<close>

lemma capital_script_unread: "scan_file_content ''MAIN.LUA'' bs = []"
  by (simp add: scan_file_content_def is_script_def ends_with_def starts_with_def)

lemma split_ws_example: "split_ws [] '' a  bc'' = [''a'', ''bc'']"
  by code_simp

text \<open>
  With the default thresholds a trusted publisher is approved with up to 35 points: one call of the shell, or
  two manipulations of the environment.
\<close>

lemma trusted_discount:
  assumes "sc_config s = scanner_config_default" "get_publisher_reputation (authority s) (publisher_id m) = Trusted"
    and "\<not> has_critical (scan_findings s m files)" "total_points (scan_findings s m files) \<le> 35"
  shows "verdict (scan s m files) = Approved"
proof -
  have "unat (base_score (scan_findings s m files)) \<le> 35" using base_score_nat assms(4) by simp
  then have "unat (sat_sub (base_score (scan_findings s m files)) 15) \<le> 20"
    by (auto simp: sat_sub_def unat_sub word_le_nat_alt)
  then show ?thesis
    using assms(1-3) by (simp add: scan_def decide_def final_score_def scanner_config_default_def Let_def word_le_nat_alt)
qed

end
