(* ===== verification/Spec2Isabelle.thy ===== *)
theory Spec2Isabelle
  imports Prelude RustStrings Paths Economy Inventory Core Packet Msgpack ChunkTransfer AstraNet Queue Deferrals
    Admission Ecs Permissions ResourceSys Scheduler Replication Players Jobs Events StateBags Buckets
    Rpc HighAvailability Sharding CfgParse CfgLemmas CfgNormalize ServerConfig Vfs ContentCache
    AegisCrypto AegisAuth AegisOps Snapshot Database Negotiation Residency
    FxLexer FxManifest FxLemmas Ecma335 DotnetHost OrderedMap Download AssetRegistry Mount Streaming
    RustNet Sha256 Query Edge NodeRuntime GameEvents UiSurfaces StrictBags Extensions Releases Replay
    Supervisor TimeSync InputMap SecurityFilters Packages PackageScan
begin

text \<open>
  AlDivine is a multiplayer game-server platform in Rust. Clients reach the server over AstraNet, a
  framed UDP protocol; the server authenticates and admits them (handshake, identity policy,
  deferral gates, admission queue), sends them the files of the resources it runs, exchanges
  MessagePack events with them and replicates the entity world. Resources are started in dependency
  order, run under budgets and capabilities, and use a gameplay framework (economy, inventory,
  players). This library models that core and proves what it promises, or where it does not keep a
  promise, what it does instead.

  \<^bold>\<open>Theories and sources\<close>

  \<^item> \<open>Prelude\<close>: the Rust vocabulary. Machine integers are words and wrap as in a release build; a
    \<open>Result\<close> is a sum with the error on the left; a hash map is an association list read through
    \<open>hm_get\<close>, and no statement depends on its order unless it says so; strings are their UTF-8
    bytes. It also holds the interfaces: \<open>op_system\<close> (an initial state, a step, an invariant), \<open>guarded_system\<close> (the same
    for steps that meet a condition),
    \<open>two_leg_store\<close> (a take that is followed by a put, or undone), \<open>codec\<close> and its extension
    \<open>strict_codec\<close>.
  \<^item> \<open>Economy\<close>: \<open>framework/aldivine/src/economy.rs\<close>. Balances and the ledger.
  \<^item> \<open>Inventory\<close>: \<open>framework/aldivine/src/inventory.rs\<close>. Item definitions, storages, the transfer
    with its rollback.
  \<^item> \<open>Players\<close>: \<open>framework/aldivine/src/players.rs\<close>. Characters and the index of names.
  \<^item> \<open>Core\<close>: \<open>crates/ald-core\<close>. The shared error type and the generational entity id.
  \<^item> \<open>Packet\<close>: \<open>crates/ald-protocol/src/packet.rs\<close> and \<open>channel.rs\<close>. The packet codec.
  \<^item> \<open>Msgpack\<close>: \<open>crates/ald-serialization-compat\<close>. The event payload codec.
  \<^item> \<open>ChunkTransfer\<close>: \<open>crates/ald-protocol/src/transfer.rs\<close> and \<open>event.rs\<close>,
    \<open>server/ald-server/src/transfer.rs\<close>. Resource chunks, event envelopes, the chunk server; it
    uses \<open>Msgpack\<close> for the payloads.
  \<^item> \<open>AstraNet\<close>: \<open>crates/ald-network\<close>. Replay window, session tables, event firewall and trusted
    address ranges.
  \<^item> \<open>Queue\<close>: \<open>crates/ald-queue\<close>. Playing slots, reservations, waitlist.
  \<^item> \<open>Deferrals\<close>: \<open>crates/ald-deferrals\<close>. The gates a joining player waits for.
  \<^item> \<open>Admission\<close>: \<open>crates/ald-protocol/src/handshake.rs\<close>, \<open>crates/ald-identity\<close>,
    \<open>server/ald-server/src/admission.rs\<close>. The handshake handlers; they drive \<open>Queue\<close> and
    \<open>Deferrals\<close> through their own operations.
  \<^item> \<open>Ecs\<close>: \<open>crates/ald-ecs\<close>. Entity slots, ownership, dimensions.
  \<^item> \<open>Permissions\<close>: \<open>crates/ald-permissions\<close>. Roles and grants.
  \<^item> \<open>ResourceSys\<close>: \<open>crates/ald-resource\<close>. Manifests, dependency resolution, lifecycle,
    capabilities.
  \<^item> \<open>Scheduler\<close>: \<open>crates/ald-scheduler\<close>. Budgets, the runaway detector, workload classes.
  \<^item> \<open>Replication\<close>: \<open>crates/ald-replication\<close>. Pending deltas, baseline, flush.
  \<^item> \<open>Jobs\<close>, \<open>Events\<close>, \<open>StateBags\<close>, \<open>Buckets\<close>, \<open>Rpc\<close>: \<open>framework/aldivine/src/jobs.rs\<close>,
    \<open>crates/ald-events\<close>, \<open>crates/ald-state\<close>, \<open>crates/ald-buckets\<close>, \<open>crates/ald-rpc\<close>. Employment, the
    in-process bus, shared state with its write checks, routing buckets, pending calls.
  \<^item> \<open>HighAvailability\<close>, \<open>Sharding\<close>: \<open>crates/ald-ha\<close>, \<open>crates/ald-sharding\<close>. Leader election with
    epochs; regions, handoffs and fenced leases.
  \<^item> \<open>RustStrings\<close>, \<open>Paths\<close>: string operations and Unix paths of the standard library.
  \<^item> \<open>CfgParse\<close>, \<open>CfgLemmas\<close>, \<open>CfgNormalize\<close>, \<open>ServerConfig\<close>: \<open>crates/ald-servercfg\<close>,
    \<open>crates/ald-config\<close>, \<open>server/ald-server/src/config_loader.rs\<close>. The server.cfg language from text to
    the validated configuration, with includes and secrets.
  \<^item> \<open>Vfs\<close>: \<open>crates/ald-vfs\<close>. The sandboxed file system of resources.
  \<^item> \<open>ContentCache\<close>: \<open>crates/ald-cache\<close>. The content-addressed store over an explicit disk.
  \<^item> \<open>AegisCrypto\<close>, \<open>AegisAuth\<close>, \<open>AegisOps\<close>: \<open>aegis/backend/src\<close>. Passwords and time-based codes; audit
    log, sessions and login; player actions, alerts, timeline and profiler.
  \<^item> \<open>Snapshot\<close>, \<open>Database\<close>, \<open>Negotiation\<close>, \<open>Residency\<close>: \<open>crates/ald-snapshot\<close>,
    \<open>crates/ald-database\<close>, \<open>crates/ald-negotiation\<close>, \<open>crates/ald-residency\<close>.
  \<^item> \<open>FxLexer\<close>, \<open>FxManifest\<close>, \<open>FxLemmas\<close>: \<open>crates/ald-fxmanifest\<close>. Lexer, parser and normalised form of
    legacy resource manifests.
  \<^item> \<open>Ecma335\<close>, \<open>DotnetHost\<close>: \<open>crates/ald-script-dotnet\<close>. The reader of .NET assembly metadata; profiles,
    trust, the load plan and the tick pump of managed resources.
  \<^item> \<open>OrderedMap\<close>: ordered maps of the standard library, and the interface \<open>upgrade_registry\<close> of the
    registries that refuse to overwrite an entry with a lesser one.
  \<^item> \<open>Download\<close>, \<open>AssetRegistry\<close>, \<open>Mount\<close>, \<open>Streaming\<close>: \<open>crates/ald-download\<close>, \<open>crates/ald-asset-registry\<close>
    with \<open>crates/ald-datafiles\<close>, \<open>crates/ald-mount\<close>, \<open>crates/ald-streaming\<close>. Resumable downloads and their
    priority lanes, asset formats, the mount pipeline, and the engine that drives these together with
    \<open>ContentCache\<close> and \<open>Residency\<close>.
  \<^item> \<open>RustNet\<close>: addresses as the standard library parses and prints them.
  \<^item> \<open>Sha256\<close>, \<open>Edge\<close>: \<open>crates/ald-edge\<close>. Its own SHA-256 and HMAC; the gateway that admits connections and
    queries, signs forwarding headers and checks the origin's health.
  \<^item> \<open>Query\<close>: \<open>crates/ald-query\<close>. Probes, the bounded status answer, the limiter.
  \<^item> \<open>NodeRuntime\<close>: \<open>crates/ald-script-node\<close>. Package metadata, module resolution, dependency plans,
    integrity strings, install policy, built-in modules.
  \<^item> \<open>Extensions\<close>: \<open>crates/ald-native-extension\<close>. The checks before a native library is opened.
  \<^item> \<open>GameEvents\<close>: \<open>crates/ald-game-editions\<close>, \<open>ald-game-builds\<close>, \<open>ald-game-events\<close>. Known builds and the
    decoders of game events.
  \<^item> \<open>UiSurfaces\<close>: \<open>crates/ald-nui\<close>, \<open>crates/ald-dui\<close>. Pages, their messages and callbacks, runtime textures.
  \<^item> \<open>StrictBags\<close>: \<open>crates/ald-statebag-compat\<close>. Owned, scoped bags on top of \<open>StateBags\<close>.
  \<^item> \<open>Releases\<close>: \<open>crates/ald-updater\<close>, \<open>ald-upgrade-planner\<close>, \<open>ald-entitlement\<close>. The signed catalog, upgrade
    plans, entitlements.
  \<^item> \<open>Replay\<close>: \<open>crates/ald-replay\<close>. Recordings and the debugger over them.
  \<^item> \<open>Supervisor\<close>: \<open>server/ald-server/src/lifecycle.rs\<close>. The commands that start, stop and restart resources, over
    the lifecycle table of \<open>ResourceSys\<close>.
  \<^item> \<open>TimeSync\<close>, \<open>InputMap\<close>: \<open>crates/ald-timesync\<close>, \<open>crates/ald-input\<close>. Clock estimates and claimed times; key
    bindings.
  \<^item> \<open>SecurityFilters\<close>: \<open>crates/ald-network/src/lib.rs\<close>, \<open>crates/ald-security\<close>. Client addresses behind proxies,
    redaction, outbound URLs.
  \<^item> \<open>Packages\<close>, \<open>PackageScan\<close>: \<open>crates/ald-package\<close>, \<open>crates/ald-package-scanner\<close>. Signed packages and their scan.

  A service is a record with the fields of the struct; an operation is a function from the state
  and its arguments to the new state and the result, with one branch per early return.

  \<^bold>\<open>What is proved\<close>

  \<^item> Economy and inventory (C1, C2, C4 to C6): transfers conserve the money supply, are atomic and
    the ledger explains every balance (\<open>transfer_no_overflow\<close> says when they do not wrap); item transfers lose
    nothing and limits hold in a consistent service.
  \<^item> Configuration (C7, C9, C20, C32): a parsed document is reproduced by rendering it; loading reads
    nothing outside the directory of the file and yields only validated configurations; includes end
    and are contained; an accepted configuration is well formed.
  \<^item> Codecs (C10, C11): packets decode strictly to what was encoded; MessagePack values
    make the round trip except for integers that the encoder writes with the wrong width. Lemmas: decoding is
    total (\<open>unpack_total\<close>), event envelopes compose with the payload codec (\<open>event_roundtrip\<close>).
  \<^item> Streaming (C13, C14, C35, C40): the documented path makes an asset ready; nothing is registered that
    has not passed every gate; an interrupted download asks for exactly the missing bytes; every lane with work
    is served.
  \<^item> Files (C12, C16, C29, C30): a served file lies below the root that its request names, which for the resource
    name \<open>..\<close> is not a resource (\<open>resource_name_escapes\<close>), and a served chunk is the requested slice
    (\<open>serve_chunk_slice\<close>); whatever is in its directory, the cache commits only verified bytes, detects corrupt ones and
    repairs itself (in a new directory without failures its bookkeeping is exact, \<open>clean_accounting\<close>, and it evicts the least
    recently used, \<open>evict_least_recent\<close>); reads through the virtual file system are authorised and do not leave the
    directory of their target, which may be a link out of the root (\<open>read_through_linked_dir\<close>), and writes stay in the sandbox.
  \<^item> Network (C15, C18, C27, C36): queries answered per window and source are bounded; which replayed sequence
    numbers are refused; the edge gateway keeps its limits (for the origin, as long as releases match connections), and
    exactly which connection it admits; its SHA-256 is the function of FIPS 180-4.
    A lemma says what an address range contains.
  \<^item> Legacy manifests (C21): rendered directives are read back exactly, all of them on record; the
    parser ends on every input (\<open>parse_fxmanifest_fuel\<close>).
  \<^item> Managed code (C3, C17): the metadata reader is safe on every input, and the load plan is found or
    refused on every set of assemblies and puts every reference before its user.
  \<^item> Scripts and extensions (C25, C38): when module resolution ends and what it finds; a native library is
    authorized only for this host's ABI, with the expected digest, a name that is an entry of its directory, granted capabilities and a trusted signature
    (unless unsigned extensions are permitted).
  \<^item> Control panel (C19, C28): a session proves its factors, guessing is bounded; codes are
    accepted within the clock skew (\<open>totp_within_skew\<close>).
  \<^item> Admission (C22 to C24, C26): the contract of the queue in every reachable state and its order of
    promotion; the order of the gates (and the watchdog, \<open>watchdog_denies\<close>); joining requires
    authentication (and seats are bounded, \<open>admission_seats_bounded\<close>).
  \<^item> World and state (C31, C33, C34, C39): stale ids never resolve, ownership passes through the
    server, bag writes are checked, the delta stream reproduces the recorded state but for what was dropped or
    collapsed into a snapshot, and what a snapshot holds.
  \<^item> Cluster, permissions, resources, players (C8, C37): leases are fenced by epochs and resolution decides
    presence and acyclicity, ignoring versions. Lemmas: leadership (\<open>leader_epochs\<close>), the meaning of an access check
    (\<open>access_check_meaning\<close>), characters and names are consistent (\<open>characters_consistent\<close>).

  \<^item> Lemmas on the smaller services: between two commands every resource is stopped, healthy or failed
    (\<open>supervisor_settled\<close>); a clock estimate is off by at most half the round trip (\<open>exchange_error\<close>) and a claimed
    time is accepted exactly within its bounds (\<open>claim_accepted\<close>); what the signature of a package covers
    (\<open>canonical_injective\<close>) and what it does not (\<open>hashes_can_be_stripped\<close>); which private addresses are refused
    (\<open>private_hosts_refused\<close>).

  Lemmas of the theories outside these claims show the deviations that the code has from its own
  comments, next to the component they concern.

  The invariants are instances of \<open>op_system\<close>: \<open>economy_run\<close>, \<open>queue_run\<close>, \<open>admission_run\<close>,
  \<open>access_run\<close>, \<open>replication_run\<close>, \<open>players_run\<close>, \<open>jobs_run\<close>, \<open>bus_run\<close>, \<open>bags_run\<close>, \<open>rpc_run\<close>,
  \<open>vfs_run\<close>, \<open>cache_run\<close>, \<open>live_run\<close>, \<open>alerts_run\<close>, \<open>timeline_run\<close>, \<open>lanes_run\<close>, \<open>supervisor_run\<close> and
  \<open>estimator_run\<close> discharge its laws for the model's
  operations, and the properties of reachable states rest on its induction; \<open>vouched_run\<close> is the same for
  runs whose events meet a condition (\<open>guarded_system\<close>: the cache on disks that read what is stored). The transfers of money and
  of items are both instances of \<open>two_leg_store\<close> (\<open>economy_legs\<close>, \<open>item_legs\<close>), which proves
  conservation once; the packet and the probe codec are instances of \<open>strict_codec\<close> and the snapshot codec of
  \<open>codec\<close>; asset formats, data files, event decoders and the release catalog are instances of
  \<open>upgrade_registry\<close> (\<open>format_reg\<close>, \<open>data_file_reg\<close>, \<open>exact_decoders\<close>, \<open>catalog_reg\<close>).

  \<^bold>\<open>Bounds and fuel\<close>

  The MessagePack reader recurses with fuel one more than the length of its input, and the cycle
  search with fuel one more than the number of nodes; the manifest parser with fuel twice the length of
  the source and four; the load plan with fuel two more than the number of assemblies. All are proved never to run out. The entity
  properties hold for fewer than \<open>2 ^ 32 - 1\<close> operations, the number after which a generation
  counter could wrap. The other functions are total by structural recursion or by a measure.

  \<^bold>\<open>Parameters\<close>

  Code outside the repository is an argument of the definitions that use it: the JSON and TOML
  libraries, semantic versions, hash and HMAC functions (where the code calls a crate), Ed25519, the dynamic
  loader, the environment, the file system (whether a path exists, its
  canonical form, its contents, which calls fail), the rendering of an account id or a socket
  address, clocks and random numbers. That a canonical path is its own canonical form is the
  hypothesis \<open>canon_idem\<close> of C29, that a disk reads what is stored the hypothesis \<open>faithful\<close> of C12. Gates are arbitrary step functions over their private state, and so is the
  game bridge.

  \<^bold>\<open>Not modelled\<close>

  Sockets, threads and locks (an operation is one atomic step), the embedded interpreters, the database
  drivers, the HTTP services, the launcher and the command-line programs, and
  everything that rests on floating point (the rate limiter, the spatial index, replication intervals, ban
  confidence; of the profiler everything but the rank; the numbers of a legacy manifest are a type parameter with
  the operations the code uses). The manifest of components says for each part what is left out.
\<close>

end
